(* ===== verification/Prelude.thy ===== *)
theory Prelude
  imports Main "HOL-Library.Word" "HOL-Library.Char_ord" "HOL-Library.List_Lexorder"
begin

section \<open>Prelude: machine integers, exceptions, runs of a component\<close>

text \<open>
  What every component shares.
  \<^item> The scalar types of the sources: \<open>std::uint64_t\<close>, \<open>std::uint32_t\<close>, \<open>std::uint16_t\<close> and
    \<open>unsigned char\<close> are words of that width; \<open>std::int64_t\<close> is \<^typ>\<open>int\<close> together with the range
    predicate \<open>in_i64\<close> (signed overflow is undefined behaviour, so the sources guard it and the
    model writes the guards out); \<open>std::string\<close> is \<^typ>\<open>string\<close> and its \<open>operator<\<close> is the
    lexicographic order of bytes given by \<open>Char_ord\<close> and \<open>List_Lexorder\<close>.
  \<^item> The exceptions the sources throw, as values of a sum type.
  \<^item> Decimal printing of integers (\<open>operator<<\<close> on a stream, \<open>std::to_string\<close>).
  \<^item> The locale \<open>component\<close>: a component's operations as one step function, with what its
    invariant gives for every sequence of calls.
\<close>

subsection \<open>Collections of facts\<close>

named_theorems word_arith \<open>overflow guards of the sources as facts on naturals\<close>
named_theorems model_defs \<open>non-recursive definitions that the component proofs unfold\<close>

subsection \<open>Scalar types\<close>

type_synonym u8 = "8 word"
type_synonym u16 = "16 word"
type_synonym u32 = "32 word"
type_synonym u64 = "64 word"
type_synonym i64 = int

definition U64_MAX :: u64 where
  "U64_MAX = 18446744073709551615"

definition I64_MAX :: int where
  "I64_MAX = 9223372036854775807"

definition I64_MIN :: int where
  "I64_MIN = - 9223372036854775808"

definition in_i64 :: "int \<Rightarrow> bool" where
  "in_i64 x \<longleftrightarrow> I64_MIN \<le> x \<and> x \<le> I64_MAX"

subsection \<open>Exceptions\<close>

datatype exn =
    InvalidArgument string
  | LogicError string
  | OverflowError string
  | UnderflowError string
  | OutOfRange string
  | LengthError string
  | RuntimeError string

type_synonym 'a result = "exn + 'a"

text \<open>
  An operation that may throw after it has already changed the object returns the exception
  together with the state it leaves behind.
\<close>

type_synonym ('a, 's) outcome = "'a result \<times> 's"

fun isInr :: "'a + 'b \<Rightarrow> bool" where
  "isInr (Inl _) = False"
| "isInr (Inr _) = True"

fun bindR :: "'a result \<Rightarrow> ('a \<Rightarrow> 'b result) \<Rightarrow> 'b result" where
  "bindR (Inl e) f = Inl e"
| "bindR (Inr x) f = f x"

lemma bindR_Inr_iff [simp]: "bindR r f = Inr y \<longleftrightarrow> (\<exists>x. r = Inr x \<and> f x = Inr y)"
  by (cases r) auto

lemma isInr_iff: "isInr r \<longleftrightarrow> (\<exists>x. r = Inr x)"
  by (cases r) auto

subsection \<open>Overflow guards\<close>

text \<open>
  The sources guard an unsigned addition by \<open>max() - acc < w\<close> or, the other way round, by
  \<open>acc > max() - w\<close>.
\<close>

definition addOverflows :: "u64 \<Rightarrow> u64 \<Rightarrow> bool" where
  "addOverflows acc w \<longleftrightarrow> U64_MAX - acc < w"

lemma unat_lt_2p64 [simp]: "unat (x :: u64) < 18446744073709551616"
  using unsigned_less [of x, where ?'a = nat] by simp

lemma unat_U64_MAX: "unat U64_MAX = 2 ^ 64 - 1"
  by (simp add: U64_MAX_def)

lemma unat_U64_MAX_minus: "unat (U64_MAX - a) = 2 ^ 64 - 1 - unat a"
proof -
  have "unat a \<le> unat U64_MAX" using unat_lt_2p64 [of a] by (simp add: U64_MAX_def del: unat_lt_2p64)
  then show ?thesis by (simp add: unat_sub_if' unat_U64_MAX)
qed

lemma addOverflows_iff [word_arith]: "addOverflows a b \<longleftrightarrow> 2 ^ 64 \<le> unat a + unat b"
proof -
  have "unat a < 2 ^ 64" and "unat b < 2 ^ 64" by simp_all
  then show ?thesis
    unfolding addOverflows_def word_less_nat_alt unat_U64_MAX_minus by linarith
qed

lemma addOverflows_other [word_arith]: "U64_MAX - w < acc \<longleftrightarrow> addOverflows acc w"
  by (metis addOverflows_def addOverflows_iff add.commute)

lemma unat_add_no_overflow [word_arith]:
  "\<not> addOverflows a b \<Longrightarrow> unat (a + b) = unat a + unat b"
  unfolding addOverflows_iff by (simp add: unat_word_ariths)

lemma unat_bound: "unat (x :: u64) < 2 ^ 64"
  by simp

lemma unat_mult_bound: "unat (a :: u64) * unat b < 2 ^ 64 \<Longrightarrow> unat (a * b) = unat a * unat b"
  by (simp add: unat_word_ariths)

lemma unat_pred: "(x :: u64) \<noteq> 0 \<Longrightarrow> unat (x - 1) = unat x - 1"
  by (metis One_nat_def Suc_pred' diff_Suc_1 unat_gt_0 unat_minus_one)

lemma unat_succ: "(x :: u64) \<noteq> U64_MAX \<Longrightarrow> unat (x + 1) = unat x + 1"
proof -
  assume "x \<noteq> U64_MAX"
  then have "unat x \<noteq> 2 ^ 64 - 1" by (metis unat_U64_MAX word_unat_eq_iff)
  then have "unat x + unat (1 :: u64) < 2 ^ 64" using unat_bound [of x] unfolding unat_1 by linarith
  then have "\<not> addOverflows x 1" unfolding addOverflows_iff by simp
  then show ?thesis using unat_add_no_overflow by fastforce
qed

text \<open>
  A loop that adds up a list of weights and stops at the first addition that would wrap. The
  components below have several of these; they all refine the sum over \<^typ>\<open>nat\<close>.
\<close>

fun checkedSum :: "u64 \<Rightarrow> u64 list \<Rightarrow> u64 option" where
  "checkedSum acc [] = Some acc"
| "checkedSum acc (w # ws) =
     (if addOverflows acc w then None else checkedSum (acc + w) ws)"

lemma checkedSum_Some:
  "checkedSum acc ws = Some t \<longleftrightarrow> unat t = unat acc + (\<Sum>w\<leftarrow>ws. unat w)"
proof (induction ws arbitrary: acc)
  case Nil
  then show ?case by (auto simp: word_unat_eq_iff)
next
  case (Cons w ws)
  show ?case
  proof (cases "addOverflows acc w")
    case True
    then have "2 ^ 64 \<le> unat acc + unat w" by (simp add: word_arith)
    moreover have "unat t < 2 ^ 64" by simp
    ultimately have "unat t \<noteq> unat acc + (unat w + (\<Sum>w\<leftarrow>ws. unat w))" by linarith
    then show ?thesis using True by simp
  next
    case False
    then show ?thesis by (simp add: Cons.IH unat_add_no_overflow add.assoc)
  qed
qed

lemma checkedSum_None:
  "checkedSum acc ws = None \<longleftrightarrow> 2 ^ 64 \<le> unat acc + (\<Sum>w\<leftarrow>ws. unat w)"
proof (induction ws arbitrary: acc)
  case Nil
  then show ?case using unat_lt_2p64 [of acc] by (simp add: not_le del: unat_lt_2p64)
next
  case (Cons w ws)
  then show ?case
    by (auto simp: addOverflows_iff unat_add_no_overflow add.assoc)
qed

subsection \<open>Decimal and text output\<close>

definition digitChar :: "int \<Rightarrow> char" where
  "digitChar d = char_of (48 + d)"

function showNum :: "int \<Rightarrow> string" where
  "showNum n = (if n < 10 then [digitChar n] else showNum (n div 10) @ [digitChar (n mod 10)])"
  by pat_completeness auto
termination
  by (relation "measure nat") auto

declare showNum.simps [simp del]

definition showNat :: "nat \<Rightarrow> string" where
  "showNat n = showNum (int n)"

definition showU64 :: "u64 \<Rightarrow> string" where
  "showU64 w = showNum (uint w)"

definition showI64 :: "int \<Rightarrow> string" where
  "showI64 i = (if i < 0 then ''-'' @ showNum (- i) else showNum i)"

fun joinWith :: "string \<Rightarrow> string list \<Rightarrow> string" where
  "joinWith sep [] = []"
| "joinWith sep [x] = x"
| "joinWith sep (x # y # xs) = x @ sep @ joinWith sep (y # xs)"

text \<open>The \<open>n\<close> low bytes of a number, most significant first.\<close>

primrec beBytes :: "nat \<Rightarrow> int \<Rightarrow> string" where
  "beBytes 0 v = []"
| "beBytes (Suc n) v = beBytes n (v div 256) @ [char_of (v mod 256)]"

lemma length_beBytes [simp]: "length (beBytes n v) = n"
  by (induction n arbitrary: v) auto

definition digitVal :: "char \<Rightarrow> int" where
  "digitVal c = of_char c - 48"

definition isDigit :: "char \<Rightarrow> bool" where
  "isDigit c \<longleftrightarrow> CHR ''0'' \<le> c \<and> c \<le> CHR ''9''"

fun readNum :: "int \<Rightarrow> string \<Rightarrow> int" where
  "readNum acc [] = acc"
| "readNum acc (c # cs) = readNum (10 * acc + digitVal c) cs"

lemma of_char_int: "(of_char c :: int) = int (of_char c)"
  by (rule of_nat_of_char [symmetric])

lemma char_le_iff: "(c :: char) \<le> c' \<longleftrightarrow> (of_char c :: int) \<le> of_char c'"
  unfolding less_eq_char_def of_char_int by (rule of_nat_le_iff [symmetric])

lemma digitVal_digitChar [simp]: "0 \<le> d \<Longrightarrow> d < 10 \<Longrightarrow> digitVal (digitChar d) = d"
  by (simp add: digitVal_def digitChar_def)

lemma isDigit_digitChar [simp]: "0 \<le> d \<Longrightarrow> d < 10 \<Longrightarrow> isDigit (digitChar d)"
  by (simp add: isDigit_def digitChar_def char_le_iff)

lemma readNum_append: "readNum acc (xs @ ys) = readNum (readNum acc xs) ys"
  by (induction xs arbitrary: acc) auto

lemma readNum_showNum: "0 \<le> n \<Longrightarrow> readNum 0 (showNum n) = n"
proof (induction n rule: showNum.induct)
  case (1 n)
  then show ?case
    by (subst showNum.simps) (auto simp: readNum_append)
qed

lemma showNum_inj [simp]: "0 \<le> a \<Longrightarrow> 0 \<le> b \<Longrightarrow> showNum a = showNum b \<longleftrightarrow> a = b"
  by (metis readNum_showNum)

lemma showU64_inj [simp]: "showU64 a = showU64 b \<longleftrightarrow> a = b"
  by (simp add: showU64_def word_uint_eq_iff)

lemma showNum_digits: "0 \<le> n \<Longrightarrow> c \<in> set (showNum n) \<Longrightarrow> isDigit c"
proof (induction n rule: showNum.induct)
  case (1 n)
  then show ?case
    by (cases "n < 10") (auto simp: showNum.simps [of n])
qed

lemma showNum_not_Nil [simp]: "showNum n \<noteq> []"
  by (subst showNum.simps) simp

text \<open>A delimiter that occurs in neither part splits a text in one way only.\<close>

lemma delim_split:
  assumes "list_all P ds" and "list_all P es" and "\<not> P c" and "ds @ c # xs = es @ c # ys"
  shows "ds = es \<and> xs = ys"
proof -
  have "takeWhile P (ds @ c # xs) = ds" and "takeWhile P (es @ c # ys) = es"
    using assms(1-3) by (auto simp: takeWhile_append list_all_iff)
  then show ?thesis using assms(4) by auto
qed

lemma delim_split_right:
  assumes "list_all P ds" and "list_all P es" and "\<not> P c" and "xs @ c # ds = ys @ c # es"
  shows "ds = es \<and> xs = ys"
proof -
  have "rev (xs @ c # ds) = rev (ys @ c # es)" using assms(4) by simp
  then have "rev ds @ c # rev xs = rev es @ c # rev ys" by simp
  moreover have "list_all P (rev ds)" "list_all P (rev es)" using assms(1,2) by (simp_all add: list_all_iff)
  ultimately have "rev ds = rev es \<and> rev xs = rev ys" using assms(3) delim_split by metis
  then show ?thesis by simp
qed

subsection \<open>A component and its runs\<close>

text \<open>
  A component is an object with a set of operations, each a total function on the object's
  state; what the environment may do is any sequence of calls whose arguments the C++ types
  admit (\<open>legal\<close>). A component interprets this locale with its own operations and its own
  invariant, and gets the invariant for every state it can be in.
\<close>

locale component =
  fixes step :: "'op \<Rightarrow> 's \<Rightarrow> 's"
    and legal :: "'op \<Rightarrow> bool"
    and inv :: "'s \<Rightarrow> bool"
  assumes step_inv: "inv s \<Longrightarrow> legal c \<Longrightarrow> inv (step c s)"
begin

lemma run_inv: "inv s \<Longrightarrow> list_all legal cs \<Longrightarrow> inv (fold step cs s)"
  by (induction cs arbitrary: s) (auto intro: step_inv)

lemma run_stable:
  assumes "\<And>s c. inv s \<Longrightarrow> legal c \<Longrightarrow> P s \<Longrightarrow> P (step c s)"
    and "inv s" and "P s" and "list_all legal cs"
  shows "P (fold step cs s)"
  using assms(2-4)
proof (induction cs arbitrary: s)
  case Nil
  then show ?case by simp
next
  case (Cons c cs)
  then have "inv (step c s)" and "P (step c s)" and "list_all legal cs"
    by (auto intro: step_inv assms(1))
  then show ?case by (simp add: Cons.IH)
qed

end

end
