(* ===== verification/StdMap.thy ===== *)
theory StdMap
  imports Prelude
begin

section \<open>Ordered maps: \<open>std::map\<close>\<close>

text \<open>
  The registries and pools keep their entries in \<open>std::map\<close>, and several results depend on the
  order in which a range-for loop visits the entries (ascending keys). The model is the list of
  entries in that order. \<open>mapPut\<close> is \<open>m[k] = v\<close>, \<open>mapEmplace\<close> is \<open>m.emplace(k, v)\<close> with its
  \<open>inserted\<close> flag, \<open>mapErase\<close> is \<open>m.erase(k)\<close>, \<open>find\<close> is \<^const>\<open>map_of\<close>.

  The locale \<open>ordered_store\<close> is the interface the components rely on; its lemmas on sums over
  the entries are what the weight and supply totals of the clients use. It is interpreted here,
  on the association lists themselves.
\<close>

type_synonym ('k, 'v) smap = "('k \<times> 'v) list"

definition mapOk :: "('k::linorder, 'v) smap \<Rightarrow> bool" where
  "mapOk m \<longleftrightarrow> sorted_wrt (<) (map fst m)"

fun mapPut :: "'k::linorder \<Rightarrow> 'v \<Rightarrow> ('k, 'v) smap \<Rightarrow> ('k, 'v) smap" where
  "mapPut k v [] = [(k, v)]"
| "mapPut k v (e # es) =
     (if fst e < k then e # mapPut k v es
      else if fst e = k then (k, v) # es
      else (k, v) # e # es)"

definition mapErase :: "'k \<Rightarrow> ('k, 'v) smap \<Rightarrow> ('k, 'v) smap" where
  "mapErase k m = filter (\<lambda>e. fst e \<noteq> k) m"

definition mapEmplace :: "'k::linorder \<Rightarrow> 'v \<Rightarrow> ('k, 'v) smap \<Rightarrow> bool \<times> ('k, 'v) smap" where
  "mapEmplace k v m = (case map_of m k of None \<Rightarrow> (True, mapPut k v m) | Some _ \<Rightarrow> (False, m))"

subsection \<open>Lookup and order laws\<close>

lemma mapOk_Nil [simp]: "mapOk []"
  by (simp add: mapOk_def)

lemma mapOk_Cons [simp]: "mapOk (e # m) \<longleftrightarrow> (\<forall>k\<in>fst ` set m. fst e < k) \<and> mapOk m"
  by (auto simp: mapOk_def)

lemma map_of_mapPut [simp]: "map_of (mapPut k v m) = (map_of m)(k \<mapsto> v)"
  by (induction m) (auto simp: fun_eq_iff)

lemma map_of_mapErase [simp]: "map_of (mapErase k m) = (map_of m)(k := None)"
  by (induction m) (auto simp: mapErase_def fun_eq_iff)

lemma keys_mapPut [simp]: "fst ` set (mapPut k v m) = insert k (fst ` set m)"
  by (induction m) auto

lemma keys_mapErase [simp]: "fst ` set (mapErase k m) = fst ` set m - {k}"
  by (auto simp: mapErase_def)

lemma mapOk_mapPut [simp]: "mapOk m \<Longrightarrow> mapOk (mapPut k v m)"
  by (induction m) (auto simp: neq_iff)

lemma mapOk_filter [simp]: "mapOk m \<Longrightarrow> mapOk (filter P m)"
  by (induction m) auto

lemma mapOk_mapErase [simp]: "mapOk m \<Longrightarrow> mapOk (mapErase k m)"
  by (simp add: mapErase_def)

lemma mapOk_distinct: "mapOk m \<Longrightarrow> distinct (map fst m)"
  by (induction m) auto

lemma mapOk_card: "mapOk m \<Longrightarrow> length m = card (dom (map_of m))"
  using distinct_card [of "map fst m"] by (simp add: mapOk_distinct dom_map_of_conv_image_fst)

lemma map_of_eq_Some_iff_mem: "mapOk m \<Longrightarrow> map_of m k = Some v \<longleftrightarrow> (k, v) \<in> set m"
  by (simp add: mapOk_distinct)

lemma mapPut_split:
  "map_of m k = None \<Longrightarrow> \<exists>xs ys. m = xs @ ys \<and> mapPut k v m = xs @ (k, v) # ys"
proof (induction m)
  case Nil
  then show ?case by simp
next
  case (Cons e m)
  show ?case
  proof (cases "fst e < k")
    case True
    with Cons obtain xs ys where "m = xs @ ys" and "mapPut k v m = xs @ (k, v) # ys"
      by (auto split: if_splits)
    then have "e # m = (e # xs) @ ys \<and> mapPut k v (e # m) = (e # xs) @ (k, v) # ys"
      using True by simp
    then show ?thesis by blast
  next
    case False
    with Cons.prems have "mapPut k v (e # m) = [] @ (k, v) # (e # m)"
      by (cases e) (auto split: if_splits)
    then show ?thesis by fastforce
  qed
qed

lemma set_mapPut:
  "mapOk m \<Longrightarrow> set (mapPut k v m) = insert (k, v) {e \<in> set m. fst e \<noteq> k}"
  by (induction m) force+

lemma mapPut_mem: "e \<in> set (mapPut k v m) \<Longrightarrow> e = (k, v) \<or> e \<in> set m"
  by (induction m) (auto split: if_splits)

lemma map_of_filter_ok:
  "mapOk m \<Longrightarrow> map_of (filter P m) k = (case map_of m k of Some v \<Rightarrow> if P (k, v) then Some v else None | None \<Rightarrow> None)"
proof (induction m)
  case Nil
  then show ?case by simp
next
  case (Cons e m)
  then have "k = fst e \<Longrightarrow> map_of m k = None" by (force simp: map_of_eq_None_iff)
  then show ?case using Cons by (cases e) (auto split: option.splits)
qed

lemma length_mapPut_new: "map_of m k = None \<Longrightarrow> length (mapPut k v m) = Suc (length m)"
  by (induction m) (auto split: if_splits)

lemma mapEmplace_new: "map_of m k = None \<Longrightarrow> mapEmplace k v m = (True, mapPut k v m)"
  by (simp add: mapEmplace_def)

lemma entries_from_lookup:
  "mapOk m \<Longrightarrow> map (\<lambda>k. (k, the (map_of m k))) (map fst m) = m"
  by (auto simp: map_of_eq_Some_iff_mem [symmetric] intro!: map_idI)

lemma mapOk_entries_inj:
  assumes "mapOk m" and "mapOk m'" and "map_of m = map_of m'"
  shows "m = m'"
proof -
  have "set (map fst m) = set (map fst m')"
    using assms(3) by (metis dom_map_of_conv_image_fst set_map)
  then have "map fst m = map fst m'"
    using assms(1,2) strict_sorted_equal unfolding mapOk_def by blast
  then show ?thesis
    using assms entries_from_lookup by metis
qed

subsection \<open>The interface the registries rely on\<close>

locale ordered_store =
  fixes look :: "'m \<Rightarrow> 'k::linorder \<Rightarrow> 'v option"
    and put :: "'k \<Rightarrow> 'v \<Rightarrow> 'm \<Rightarrow> 'm"
    and del :: "'k \<Rightarrow> 'm \<Rightarrow> 'm"
    and entries :: "'m \<Rightarrow> ('k \<times> 'v) list"
    and ok :: "'m \<Rightarrow> bool"
  assumes ok_put: "ok m \<Longrightarrow> ok (put k v m)"
    and ok_del: "ok m \<Longrightarrow> ok (del k m)"
    and look_put: "look (put k v m) = (look m)(k \<mapsto> v)"
    and look_del: "look (del k m) = (look m)(k := None)"
    and look_entries: "look m = map_of (entries m)"
    and ok_sorted: "ok m \<Longrightarrow> sorted_wrt (<) (map fst (entries m))"
begin

lemma distinct_keys: "ok m \<Longrightarrow> distinct (map fst (entries m))"
  using ok_sorted strict_sorted_iff by blast

lemma entry_iff: "ok m \<Longrightarrow> (k, v) \<in> set (entries m) \<longleftrightarrow> look m k = Some v"
  by (simp add: look_entries distinct_keys)

lemma sum_entries:
  fixes f :: "'v \<Rightarrow> nat"
  assumes "ok m"
  shows "(\<Sum>e\<leftarrow>entries m. f (snd e)) = (\<Sum>k\<in>dom (look m). f (the (look m k)))"
proof -
  have d: "distinct (map fst (entries m))" using assms by (rule distinct_keys)
  have "(\<Sum>e\<leftarrow>entries m. f (snd e)) = (\<Sum>e\<in>set (entries m). f (snd e))"
    using d by (simp add: sum_list_distinct_conv_sum_set distinct_map)
  also have "\<dots> = (\<Sum>e\<in>set (entries m). f (the (look m (fst e))))"
    using assms by (intro sum.cong) (auto simp: entry_iff)
  also have "\<dots> = (\<Sum>k\<in>fst ` set (entries m). f (the (look m k)))"
    using d by (simp add: sum.reindex distinct_map)
  finally show ?thesis by (simp add: look_entries dom_map_of_conv_image_fst)
qed

lemma finite_look: "finite (dom (look m))"
  by (simp add: look_entries finite_dom_map_of)

lemma sum_put:
  fixes f :: "'v \<Rightarrow> nat"
  assumes "ok m"
  shows "(\<Sum>e\<leftarrow>entries (put k v m). f (snd e)) + (case look m k of None \<Rightarrow> 0 | Some w \<Rightarrow> f w)
       = (\<Sum>e\<leftarrow>entries m. f (snd e)) + f v"
proof -
  let ?S = "\<lambda>m. \<Sum>k\<in>dom (look m). f (the (look m k))"
  let ?R = "\<Sum>j\<in>dom (look m) - {k}. f (the (look m j))"
  have "?S (put k v m) = f v + ?R"
    by (simp add: look_put sum.insert_remove finite_look)
  moreover have "?S m = (case look m k of None \<Rightarrow> 0 | Some w \<Rightarrow> f w) + ?R"
  proof (cases "look m k")
    case None
    then show ?thesis by (simp add: Diff_triv domIff)
  next
    case (Some w)
    then show ?thesis by (simp add: sum.remove [OF finite_look, of k] domI)
  qed
  ultimately show ?thesis using assms by (simp add: sum_entries ok_put)
qed

end

interpretation om: ordered_store map_of mapPut mapErase "\<lambda>m. m" mapOk
  by unfold_locales (auto simp: mapOk_def [symmetric])

lemma mapPut_mapErase_new:
  "mapOk m \<Longrightarrow> map_of m k = None \<Longrightarrow> mapErase k (mapPut k v m) = m"
  by (rule mapOk_entries_inj) (auto simp: fun_eq_iff)

lemma mapPut_restore:
  "mapOk m \<Longrightarrow> map_of m k = Some v \<Longrightarrow> mapPut k v (mapPut k w m) = m"
  by (rule mapOk_entries_inj) (auto simp: fun_eq_iff)

lemma mapPut_after_erase:
  "mapOk m \<Longrightarrow> map_of m k = Some v \<Longrightarrow> mapPut k v (mapErase k m) = m"
  by (rule mapOk_entries_inj) (auto simp: fun_eq_iff)

lemma length_mapErase:
  "mapOk m \<Longrightarrow> map_of m k = Some v \<Longrightarrow> length m = Suc (length (mapErase k m))"
  using length_mapPut_new [of "mapErase k m" k v] by (simp add: mapPut_after_erase)

lemma sum_mapErase:
  fixes f :: "'v \<Rightarrow> nat"
  assumes "mapOk m" and "map_of m k = Some v"
  shows "(\<Sum>e\<leftarrow>m. f (snd e)) = (\<Sum>e\<leftarrow>mapErase k m. f (snd e)) + f v"
  using om.sum_put [OF mapOk_mapErase [OF assms(1)], of f k v k] assms by (simp add: mapPut_after_erase)

lemma sum_mapPut_new:
  fixes f :: "'v \<Rightarrow> nat"
  assumes "mapOk m" and "map_of m k = None"
  shows "(\<Sum>e\<leftarrow>mapPut k v m. f (snd e)) = (\<Sum>e\<leftarrow>m. f (snd e)) + f v"
  using om.sum_put [OF assms(1), of f k v] assms(2) by simp

lemma mapPut_last: "\<forall>e\<in>set m. fst e < k \<Longrightarrow> mapPut k v m = m @ [(k, v)]"
  "\<forall>e\<in>set m. fst e < k \<Longrightarrow> mapPut k v (m @ [(k, w)]) = m @ [(k, v)]"
  by (induction m) auto

lemma map_of_last: "\<forall>e\<in>set m. fst e < (k :: 'k::linorder) \<Longrightarrow> map_of m k = None"
  by (induction m) auto

lemma mapPut_twice: "mapPut k v (mapPut k w m) = mapPut k v m" if "mapOk m"
  by (rule mapOk_entries_inj) (use that in \<open>auto simp: fun_eq_iff\<close>)

lemma mapPut_same: "mapPut k v m = m" if "mapOk m" "map_of m k = Some v"
  by (rule mapOk_entries_inj) (use that in \<open>auto simp: fun_eq_iff\<close>)

lemma set_mapErase: "set (mapErase k m) = {e \<in> set m. fst e \<noteq> k}"
  by (auto simp: mapErase_def)

lemma mapOk_emplace: "mapOk m \<Longrightarrow> mapOk (snd (mapEmplace k v m))"
  by (simp add: mapEmplace_def split: option.split)

end
