(* ===== verification/Amounts.thy ===== *)
theory Amounts
  imports StdMap
begin

section \<open>Monetary amounts\<close>

text \<open>
  \<open>src/utils/Amount.cpp\<close>: amounts in raw units, 100,000,000 to one NODO, held in an
  \<open>std::int64_t\<close> that the constructors keep non-negative. Every operation that could leave the
  range throws. \<open>amountOk\<close> is what the class guarantees of its objects; the lemmas show that
  the checked operators are exact on the integers whenever they return, that they throw exactly
  when the mathematical result does not fit, and that sums over lists of amounts are exact.
\<close>

datatype Amount = Amount (rawUnits: int)

definition UNITS_PER_NODO :: int where
  "UNITS_PER_NODO = 100000000"

definition amountOk :: "Amount \<Rightarrow> bool" where
  "amountOk a \<longleftrightarrow> 0 \<le> rawUnits a \<and> rawUnits a \<le> I64_MAX"

definition zeroAmount :: Amount where
  "zeroAmount = Amount 0"

definition newAmount :: "int \<Rightarrow> Amount result" where
  "newAmount raw =
     (if raw < 0 then Inl (InvalidArgument ''Amount cannot be created from negative raw units.'')
      else Inr (Amount raw))"

definition fromNodo :: "int \<Rightarrow> Amount result" where
  "fromNodo whole =
     (if whole < 0
      then Inl (InvalidArgument ''Amount cannot be created from negative NODO value.'')
      else if whole > I64_MAX div UNITS_PER_NODO
      then Inl (OverflowError ''Amount::fromNodo: value would overflow int64.'')
      else newAmount (whole * UNITS_PER_NODO))"

definition fromRawUnits :: "int \<Rightarrow> Amount result" where
  "fromRawUnits raw =
     (if raw < 0 then Inl (InvalidArgument ''Amount cannot be negative.'') else newAmount raw)"

definition isNegative :: "Amount \<Rightarrow> bool" where
  "isNegative a \<longleftrightarrow> rawUnits a < 0"

definition isZero :: "Amount \<Rightarrow> bool" where
  "isZero a \<longleftrightarrow> rawUnits a = 0"

definition isPositive :: "Amount \<Rightarrow> bool" where
  "isPositive a \<longleftrightarrow> 0 < rawUnits a"

definition padZeros :: "nat \<Rightarrow> string \<Rightarrow> string" where
  "padZeros n s = replicate (n - length s) (CHR ''0'') @ s"

definition amountToString :: "Amount \<Rightarrow> string" where
  "amountToString a =
     showI64 (rawUnits a div UNITS_PER_NODO) @ ''.''
       @ padZeros 8 (showI64 (rawUnits a mod UNITS_PER_NODO)) @ '' NODO''"

definition amountAdd :: "Amount \<Rightarrow> Amount \<Rightarrow> Amount result" where
  "amountAdd a b =
     (if rawUnits b > 0 \<and> rawUnits a > I64_MAX - rawUnits b
      then Inl (OverflowError ''Amount addition overflow.'')
      else newAmount (rawUnits a + rawUnits b))"

definition amountSub :: "Amount \<Rightarrow> Amount \<Rightarrow> Amount result" where
  "amountSub a b =
     (if rawUnits b > rawUnits a
      then Inl (UnderflowError ''Amount subtraction would create negative value.'')
      else newAmount (rawUnits a - rawUnits b))"

text \<open>The loop \<open>total = total + x\<close> that the registries run over their entries.\<close>

fun sumAmountsFrom :: "Amount \<Rightarrow> Amount list \<Rightarrow> Amount result" where
  "sumAmountsFrom t [] = Inr t"
| "sumAmountsFrom t (a # as) = bindR (amountAdd t a) (\<lambda>t'. sumAmountsFrom t' as)"

abbreviation sumAmounts :: "Amount list \<Rightarrow> Amount result" where
  "sumAmounts \<equiv> sumAmountsFrom zeroAmount"

instantiation Amount :: linorder
begin

definition less_Amount :: "Amount \<Rightarrow> Amount \<Rightarrow> bool" where
  "less_Amount a b \<longleftrightarrow> rawUnits a < rawUnits b"

definition less_eq_Amount :: "Amount \<Rightarrow> Amount \<Rightarrow> bool" where
  "less_eq_Amount a b \<longleftrightarrow> rawUnits a \<le> rawUnits b"

instance
  by intro_classes (auto simp: less_Amount_def less_eq_Amount_def Amount.expand)

end

subsection \<open>Exactness\<close>

lemma amountOk_zero [simp]: "amountOk zeroAmount"
  by (simp add: amountOk_def zeroAmount_def I64_MAX_def)

lemma amountAdd_ok:
  "amountOk a \<Longrightarrow> amountOk b \<Longrightarrow>
     amountAdd a b =
       (if rawUnits a + rawUnits b \<le> I64_MAX then Inr (Amount (rawUnits a + rawUnits b))
        else Inl (OverflowError ''Amount addition overflow.''))"
  by (auto simp: amountAdd_def amountOk_def newAmount_def)

lemma amountSub_ok:
  "amountOk a \<Longrightarrow> amountOk b \<Longrightarrow>
     amountSub a b =
       (if rawUnits b \<le> rawUnits a then Inr (Amount (rawUnits a - rawUnits b))
        else Inl (UnderflowError ''Amount subtraction would create negative value.''))"
  by (auto simp: amountSub_def amountOk_def newAmount_def)

lemma sumAmountsFrom_exact:
  assumes "amountOk t" and "\<forall>a\<in>set as. amountOk a"
  shows "sumAmountsFrom t as = Inr s \<longleftrightarrow>
           s = Amount (rawUnits t + (\<Sum>a\<leftarrow>as. rawUnits a)) \<and>
           rawUnits t + (\<Sum>a\<leftarrow>as. rawUnits a) \<le> I64_MAX"
  using assms
proof (induction as arbitrary: t)
  case Nil
  then show ?case by (cases t) (auto simp: amountOk_def)
next
  case (Cons a as)
  have nn: "0 \<le> (\<Sum>x\<leftarrow>as. rawUnits x)"
    using Cons.prems(2) by (intro sum_list_nonneg) (auto simp: amountOk_def)
  show ?case
  proof (cases "rawUnits t + rawUnits a \<le> I64_MAX")
    case True
    then have "amountOk (Amount (rawUnits t + rawUnits a))"
      using Cons.prems by (auto simp: amountOk_def)
    then show ?thesis
      using True Cons by (simp add: amountAdd_ok add.assoc)
  next
    case False
    then show ?thesis using Cons.prems nn by (auto simp: amountAdd_ok)
  qed
qed

end
