(* ===== verification/CoinLots.thy ===== *)
theory CoinLots
  imports Amounts
begin

section \<open>Coin lots and their registry\<close>

text \<open>
  \<open>src/core/CoinLot.cpp\<close>, \<open>src/core/CoinLotRegistry.cpp\<close>: every coin belongs to a lot with an
  origin, an owner, an amount and a status; a spend consumes one available lot and creates
  output lots of exactly the same total. The registry is a \<open>std::map\<close> from lot id to lot.

  An operation that throws is an \<^typ>\<open>'a result\<close>; the registry's operations return the
  exception together with the registry they leave, because \<open>consumeLotAndCreateOutputs\<close> can
  throw after it has changed the map.
\<close>

subsection \<open>A lot\<close>

datatype CoinLotStatus = AVAILABLE | LOCKED_FOR_SECURITY | SPENT | SLASHED

record CoinLot =
  lotId :: string
  originMintRecordId :: string
  ownerAddress :: string
  lotAmount :: Amount
  lotStatus :: CoinLotStatus
  createdAtBlock :: u64
  lockedUntilBlock :: u64
  lotTimestamp :: int

definition coinLotStatusToString :: "CoinLotStatus \<Rightarrow> string" where
  "coinLotStatusToString s =
     (case s of AVAILABLE \<Rightarrow> ''AVAILABLE'' | LOCKED_FOR_SECURITY \<Rightarrow> ''LOCKED_FOR_SECURITY''
      | SPENT \<Rightarrow> ''SPENT'' | SLASHED \<Rightarrow> ''SLASHED'')"

definition isAvailable :: "CoinLot \<Rightarrow> bool" where
  "isAvailable l \<longleftrightarrow> lotStatus l = AVAILABLE"

definition isLockedForSecurity :: "CoinLot \<Rightarrow> bool" where
  "isLockedForSecurity l \<longleftrightarrow> lotStatus l = LOCKED_FOR_SECURITY"

definition isSpent :: "CoinLot \<Rightarrow> bool" where
  "isSpent l \<longleftrightarrow> lotStatus l = SPENT"

definition isSlashed :: "CoinLot \<Rightarrow> bool" where
  "isSlashed l \<longleftrightarrow> lotStatus l = SLASHED"

definition isSpendable :: "CoinLot \<Rightarrow> bool" where
  "isSpendable l \<longleftrightarrow> lotStatus l = AVAILABLE"

definition lotValid :: "CoinLot \<Rightarrow> bool" where
  "lotValid l \<longleftrightarrow>
     lotId l \<noteq> [] \<and> originMintRecordId l \<noteq> [] \<and> ownerAddress l \<noteq> [] \<and>
     isPositive (lotAmount l) \<and> lotTimestamp l > 0 \<and>
     \<not> (lotStatus l = LOCKED_FOR_SECURITY \<and> lockedUntilBlock l \<le> createdAtBlock l)"

definition lotLockForSecurity :: "u64 \<Rightarrow> CoinLot \<Rightarrow> CoinLot result" where
  "lotLockForSecurity until l =
     (if \<not> isAvailable l then Inl (LogicError ''Only available coin lots can be locked.'')
      else if until \<le> createdAtBlock l
      then Inl (InvalidArgument ''Lock expiration block must be greater than creation block.'')
      else Inr (l\<lparr>lotStatus := LOCKED_FOR_SECURITY, lockedUntilBlock := until\<rparr>))"

definition lotUnlockIfMature :: "u64 \<Rightarrow> CoinLot \<Rightarrow> CoinLot" where
  "lotUnlockIfMature cur l =
     (if lotStatus l \<noteq> LOCKED_FOR_SECURITY then l
      else if cur \<ge> lockedUntilBlock l
      then l\<lparr>lotStatus := AVAILABLE, lockedUntilBlock := 0\<rparr>
      else l)"

definition lotMarkSpent :: "CoinLot \<Rightarrow> CoinLot result" where
  "lotMarkSpent l =
     (if \<not> isSpendable l
      then Inl (LogicError ''Only spendable coin lots can be marked as spent.'')
      else Inr (l\<lparr>lotStatus := SPENT, lockedUntilBlock := 0\<rparr>))"

definition lotMarkSlashed :: "CoinLot \<Rightarrow> CoinLot result" where
  "lotMarkSlashed l =
     (if isSpent l then Inl (LogicError ''Spent coin lots cannot be slashed.'')
      else Inr (l\<lparr>lotStatus := SLASHED\<rparr>))"

definition lotSerialize :: "CoinLot \<Rightarrow> string" where
  "lotSerialize l =
     ''CoinLot{id='' @ lotId l @ '';originMintRecordId='' @ originMintRecordId l
       @ '';owner='' @ ownerAddress l @ '';amountRaw='' @ showI64 (rawUnits (lotAmount l))
       @ '';status='' @ coinLotStatusToString (lotStatus l)
       @ '';createdAtBlock='' @ showU64 (createdAtBlock l)
       @ '';lockedUntilBlock='' @ showU64 (lockedUntilBlock l)
       @ '';timestamp='' @ showI64 (lotTimestamp l) @ ''}''"

lemmas lot_status_defs =
  isAvailable_def isLockedForSecurity_def isSpent_def isSlashed_def isSpendable_def

subsection \<open>The registry\<close>

type_synonym CoinLotRegistry = "(string, CoinLot) smap"

text \<open>A verification result: \<^const>\<open>None\<close> is \<open>valid()\<close>, \<open>Some reason\<close> is \<open>invalid(reason)\<close>.\<close>

type_synonym CoinLotVerificationResult = "string option"

definition hasLot :: "CoinLotRegistry \<Rightarrow> string \<Rightarrow> bool" where
  "hasLot reg i \<longleftrightarrow> map_of reg i \<noteq> None"

definition assertLotCanBeAdded :: "CoinLotRegistry \<Rightarrow> CoinLot \<Rightarrow> unit result" where
  "assertLotCanBeAdded reg l =
     (if \<not> lotValid l then Inl (InvalidArgument ''Invalid CoinLot cannot be added to registry.'')
      else if lotId l = [] then Inl (InvalidArgument ''CoinLot id cannot be empty.'')
      else if hasLot reg (lotId l)
      then Inl (LogicError ''CoinLot id already exists in registry.'')
      else Inr ())"

definition addLot :: "CoinLot \<Rightarrow> CoinLotRegistry \<Rightarrow> (unit, CoinLotRegistry) outcome" where
  "addLot l reg =
     (case assertLotCanBeAdded reg l of
        Inl e \<Rightarrow> (Inl e, reg)
      | Inr _ \<Rightarrow>
          (case mapEmplace (lotId l) l reg of
             (True, reg') \<Rightarrow> (Inr (), reg')
           | (False, reg') \<Rightarrow> (Inl (LogicError ''CoinLot id already exists in registry.''), reg')))"

fun addLots :: "CoinLot list \<Rightarrow> CoinLotRegistry \<Rightarrow> (unit, CoinLotRegistry) outcome" where
  "addLots [] reg = (Inr (), reg)"
| "addLots (l # ls) reg =
     (case addLot l reg of (Inl e, reg') \<Rightarrow> (Inl e, reg') | (Inr _, reg') \<Rightarrow> addLots ls reg')"

definition fromCoinLots :: "CoinLot list \<Rightarrow> CoinLotRegistry result" where
  "fromCoinLots ls = (case addLots ls [] of (Inl e, _) \<Rightarrow> Inl e | (Inr _, reg) \<Rightarrow> Inr reg)"

definition lot :: "CoinLotRegistry \<Rightarrow> string \<Rightarrow> CoinLot result" where
  "lot reg i =
     (case map_of reg i of
        None \<Rightarrow> Inl (OutOfRange ''CoinLot was not found in registry.'') | Some l \<Rightarrow> Inr l)"

definition verifyExists :: "CoinLotRegistry \<Rightarrow> string \<Rightarrow> CoinLotVerificationResult" where
  "verifyExists reg i =
     (if i = [] then Some ''CoinLot id is empty.''
      else case map_of reg i of
             None \<Rightarrow> Some ''CoinLot does not exist.''
           | Some l \<Rightarrow> if \<not> lotValid l then Some ''CoinLot exists but is invalid.'' else None)"

definition verifySpendable :: "CoinLotRegistry \<Rightarrow> string \<Rightarrow> string \<Rightarrow> CoinLotVerificationResult" where
  "verifySpendable reg i expectedOwner =
     (case verifyExists reg i of
        Some r \<Rightarrow> Some r
      | None \<Rightarrow>
          if expectedOwner = [] then Some ''Expected owner is empty.''
          else case map_of reg i of
                 None \<Rightarrow> Some ''CoinLot does not exist.''
               | Some l \<Rightarrow>
                   if ownerAddress l \<noteq> expectedOwner then Some ''CoinLot owner mismatch.''
                   else if \<not> isSpendable l then Some ''CoinLot is not spendable.''
                   else None)"

definition verifyExactSpend ::
    "CoinLotRegistry \<Rightarrow> string \<Rightarrow> string \<Rightarrow> Amount \<Rightarrow> CoinLotVerificationResult" where
  "verifyExactSpend reg i expectedOwner expected =
     (case verifySpendable reg i expectedOwner of
        Some r \<Rightarrow> Some r
      | None \<Rightarrow>
          if \<not> isPositive expected then Some ''Expected spend amount must be positive.''
          else case map_of reg i of
                 None \<Rightarrow> Some ''CoinLot does not exist.''
               | Some l \<Rightarrow> if lotAmount l \<noteq> expected then Some ''CoinLot amount mismatch.'' else None)"

definition sumLots :: "CoinLot list \<Rightarrow> Amount result" where
  "sumLots ls = sumAmounts (map lotAmount ls)"

fun checkOutputLots :: "CoinLotRegistry \<Rightarrow> CoinLot list \<Rightarrow> unit result" where
  "checkOutputLots reg [] = Inr ()"
| "checkOutputLots reg (l # ls) =
     (case assertLotCanBeAdded reg l of
        Inl e \<Rightarrow> Inl e
      | Inr _ \<Rightarrow>
          if \<not> isAvailable l then Inl (InvalidArgument ''Output CoinLot must be available.'')
          else checkOutputLots reg ls)"

text \<open>The changes of one entry that the four status operations make: \<open>it->second.op()\<close>.\<close>

definition updateEntry ::
    "string \<Rightarrow> string \<Rightarrow> (CoinLot \<Rightarrow> CoinLot result) \<Rightarrow> CoinLotRegistry
       \<Rightarrow> (unit, CoinLotRegistry) outcome" where
  "updateEntry missing i f reg =
     (case map_of reg i of
        None \<Rightarrow> (Inl (OutOfRange missing), reg)
      | Some l \<Rightarrow> (case f l of Inl e \<Rightarrow> (Inl e, reg) | Inr l' \<Rightarrow> (Inr (), mapPut i l' reg)))"

definition consumeLotAndCreateOutputs ::
    "string \<Rightarrow> string \<Rightarrow> CoinLot list \<Rightarrow> CoinLotRegistry \<Rightarrow> (unit, CoinLotRegistry) outcome" where
  "consumeLotAndCreateOutputs inputLotId expectedOwner outputLots reg =
     (if outputLots = []
      then (Inl (InvalidArgument ''CoinLot spend must create at least one output lot.''), reg)
      else case verifySpendable reg inputLotId expectedOwner of
        Some r \<Rightarrow> (Inl (InvalidArgument (''Input CoinLot is not spendable: '' @ r)), reg)
      | None \<Rightarrow>
         (case checkOutputLots reg outputLots of
            Inl e \<Rightarrow> (Inl e, reg)
          | Inr _ \<Rightarrow>
             (case lot reg inputLotId of
                Inl e \<Rightarrow> (Inl e, reg)
              | Inr input \<Rightarrow>
                 (case sumLots outputLots of
                    Inl e \<Rightarrow> (Inl e, reg)
                  | Inr outputAmount \<Rightarrow>
                      if lotAmount input \<noteq> outputAmount
                      then (Inl (InvalidArgument
                             ''CoinLot spend outputs must exactly equal input amount.''), reg)
                      else (case updateEntry ''Input CoinLot disappeared from registry.'' inputLotId
                                     lotMarkSpent reg of
                              (Inl e, reg') \<Rightarrow> (Inl e, reg')
                            | (Inr _, reg') \<Rightarrow> addLots outputLots reg')))))"

definition markSpent :: "string \<Rightarrow> string \<Rightarrow> CoinLotRegistry \<Rightarrow> (unit, CoinLotRegistry) outcome" where
  "markSpent i expectedOwner reg =
     (case verifySpendable reg i expectedOwner of
        Some r \<Rightarrow> (Inl (InvalidArgument (''CoinLot cannot be marked spent: '' @ r)), reg)
      | None \<Rightarrow> updateEntry ''CoinLot was not found in registry.'' i lotMarkSpent reg)"

definition lockForSecurity ::
    "string \<Rightarrow> string \<Rightarrow> u64 \<Rightarrow> CoinLotRegistry \<Rightarrow> (unit, CoinLotRegistry) outcome" where
  "lockForSecurity i expectedOwner until reg =
     (case verifySpendable reg i expectedOwner of
        Some r \<Rightarrow> (Inl (InvalidArgument (''CoinLot cannot be locked: '' @ r)), reg)
      | None \<Rightarrow> updateEntry ''CoinLot was not found in registry.'' i (lotLockForSecurity until) reg)"

definition unlockIfMature :: "string \<Rightarrow> u64 \<Rightarrow> CoinLotRegistry \<Rightarrow> (unit, CoinLotRegistry) outcome" where
  "unlockIfMature i cur reg = updateEntry ''CoinLot was not found in registry.'' i (\<lambda>l. Inr (lotUnlockIfMature cur l)) reg"

definition markSlashed :: "string \<Rightarrow> CoinLotRegistry \<Rightarrow> (unit, CoinLotRegistry) outcome" where
  "markSlashed i reg = updateEntry ''CoinLot was not found in registry.'' i lotMarkSlashed reg"

definition amountsWhere :: "(CoinLot \<Rightarrow> bool) \<Rightarrow> CoinLotRegistry \<Rightarrow> Amount list" where
  "amountsWhere P reg = map lotAmount (filter P (map snd reg))"

definition availableBalanceForOwner :: "CoinLotRegistry \<Rightarrow> string \<Rightarrow> Amount result" where
  "availableBalanceForOwner reg a =
     sumAmounts (amountsWhere (\<lambda>l. ownerAddress l = a \<and> isAvailable l) reg)"

definition lockedBalanceForOwner :: "CoinLotRegistry \<Rightarrow> string \<Rightarrow> Amount result" where
  "lockedBalanceForOwner reg a =
     sumAmounts (amountsWhere (\<lambda>l. ownerAddress l = a \<and> isLockedForSecurity l) reg)"

definition totalTrackedAmount :: "CoinLotRegistry \<Rightarrow> Amount result" where
  "totalTrackedAmount reg = sumAmounts (amountsWhere (\<lambda>_. True) reg)"

definition totalAvailableAmount :: "CoinLotRegistry \<Rightarrow> Amount result" where
  "totalAvailableAmount reg = sumAmounts (amountsWhere isAvailable reg)"

definition totalLockedAmount :: "CoinLotRegistry \<Rightarrow> Amount result" where
  "totalLockedAmount reg = sumAmounts (amountsWhere isLockedForSecurity reg)"

definition totalSpentAmount :: "CoinLotRegistry \<Rightarrow> Amount result" where
  "totalSpentAmount reg = sumAmounts (amountsWhere isSpent reg)"

definition totalSlashedAmount :: "CoinLotRegistry \<Rightarrow> Amount result" where
  "totalSlashedAmount reg = sumAmounts (amountsWhere isSlashed reg)"

definition registryValid :: "CoinLotRegistry \<Rightarrow> bool" where
  "registryValid reg \<longleftrightarrow> list_all (\<lambda>(k, l). k \<noteq> [] \<and> k = lotId l \<and> lotValid l) reg"

definition coinLotRegistrySerialize :: "CoinLotRegistry \<Rightarrow> string result" where
  "coinLotRegistrySerialize reg =
     bindR (totalTrackedAmount reg) (\<lambda>t.
     bindR (totalAvailableAmount reg) (\<lambda>a.
     bindR (totalLockedAmount reg) (\<lambda>l.
     bindR (totalSpentAmount reg) (\<lambda>s.
     bindR (totalSlashedAmount reg) (\<lambda>x.
       Inr (''CoinLotRegistry{lots='' @ showNat (length reg)
         @ '';totalTrackedRaw='' @ showI64 (rawUnits t)
         @ '';totalAvailableRaw='' @ showI64 (rawUnits a)
         @ '';totalLockedRaw='' @ showI64 (rawUnits l)
         @ '';totalSpentRaw='' @ showI64 (rawUnits s)
         @ '';totalSlashedRaw='' @ showI64 (rawUnits x) @ ''}''))))))"

subsection \<open>Calls on the registry\<close>

datatype lotCall =
    AddLot CoinLot
  | Consume string string "CoinLot list"
  | MarkSpent string string
  | Lock string string u64
  | Unlock string u64
  | Slash string

fun lotExec :: "lotCall \<Rightarrow> CoinLotRegistry \<Rightarrow> (unit, CoinLotRegistry) outcome" where
  "lotExec (AddLot l) reg = addLot l reg"
| "lotExec (Consume i a outs) reg = consumeLotAndCreateOutputs i a outs reg"
| "lotExec (MarkSpent i a) reg = markSpent i a reg"
| "lotExec (Lock i a until) reg = lockForSecurity i a until reg"
| "lotExec (Unlock i cur) reg = unlockIfMature i cur reg"
| "lotExec (Slash i) reg = markSlashed i reg"

definition lotStep :: "lotCall \<Rightarrow> CoinLotRegistry \<Rightarrow> CoinLotRegistry" where
  "lotStep c reg = snd (lotExec c reg)"

text \<open>The lots a caller passes hold amounts of class \<open>Amount\<close>.\<close>

fun lotCallLegal :: "lotCall \<Rightarrow> bool" where
  "lotCallLegal (AddLot l) = amountOk (lotAmount l)"
| "lotCallLegal (Consume i a outs) = list_all (\<lambda>l. amountOk (lotAmount l)) outs"
| "lotCallLegal _ = True"

definition lotsInv :: "CoinLotRegistry \<Rightarrow> bool" where
  "lotsInv reg \<longleftrightarrow> mapOk reg \<and> registryValid reg \<and> list_all (\<lambda>e. amountOk (lotAmount (snd e))) reg"

lemma lotsInv_iff:
  "lotsInv reg \<longleftrightarrow> mapOk reg \<and>
     (\<forall>i l. map_of reg i = Some l \<longrightarrow> i \<noteq> [] \<and> i = lotId l \<and> lotValid l \<and> amountOk (lotAmount l))"
  by (fastforce simp: lotsInv_def registryValid_def list_all_iff map_of_eq_Some_iff_mem)

lemma lotsInv_empty [simp]: "lotsInv []"
  by (simp add: lotsInv_def registryValid_def)

lemma lotsInv_put:
  "lotsInv reg \<Longrightarrow> lotId l = i \<Longrightarrow> lotValid l \<Longrightarrow> amountOk (lotAmount l) \<Longrightarrow> lotsInv (mapPut i l reg)"
  by (auto simp: lotsInv_iff lotValid_def split: if_splits)

subsection \<open>What one call may do to a lot\<close>

inductive lotNext :: "CoinLot \<Rightarrow> CoinLot \<Rightarrow> bool" where
  keep: "lotNext l l"
| lock: "lotLockForSecurity until l = Inr l' \<Longrightarrow> lotNext l l'"
| unlock: "lotNext l (lotUnlockIfMature cur l)"
| spend: "lotMarkSpent l = Inr l' \<Longrightarrow> lotNext l l'"
| slash: "lotMarkSlashed l = Inr l' \<Longrightarrow> lotNext l l'"

lemmas lot_op_defs =
  lotLockForSecurity_def lotUnlockIfMature_def lotMarkSpent_def lotMarkSlashed_def

lemma lotNext_identity:
  "lotNext l l' \<Longrightarrow> lotId l' = lotId l \<and> originMintRecordId l' = originMintRecordId l \<and>
     ownerAddress l' = ownerAddress l \<and> lotAmount l' = lotAmount l \<and>
     createdAtBlock l' = createdAtBlock l \<and> lotTimestamp l' = lotTimestamp l"
  by (auto elim!: lotNext.cases simp: lot_op_defs split: if_splits)

lemma lotNext_valid: "lotNext l l' \<Longrightarrow> lotValid l \<Longrightarrow> lotValid l'"
  by (auto elim!: lotNext.cases simp: lot_op_defs lotValid_def split: if_splits)

lemma lotNext_terminal: "lotNext l l' \<Longrightarrow> isSpent l \<or> isSlashed l \<Longrightarrow> lotStatus l' = lotStatus l"
  by (auto elim!: lotNext.cases simp: lot_op_defs lot_status_defs split: if_splits)

definition lotsExtend :: "CoinLotRegistry \<Rightarrow> CoinLotRegistry \<Rightarrow> bool" where
  "lotsExtend reg reg' \<longleftrightarrow> (\<forall>i l. map_of reg i = Some l \<longrightarrow> (\<exists>l'. map_of reg' i = Some l' \<and> lotNext l l'))"

lemma lotsExtend_refl [simp]: "lotsExtend reg reg"
  by (auto simp: lotsExtend_def intro: lotNext.keep)

lemma updateEntry_cases:
  obtains (unchanged) "snd (updateEntry m i f reg) = reg" "\<not> isInr (fst (updateEntry m i f reg))"
  | (changed) l l' where "map_of reg i = Some l" "f l = Inr l'"
      "updateEntry m i f reg = (Inr (), mapPut i l' reg)"
proof (cases "map_of reg i")
  case None
  then show ?thesis by (intro unchanged) (simp_all add: updateEntry_def)
next
  case (Some l)
  then show ?thesis
    by (cases "f l") (auto simp: updateEntry_def intro: unchanged changed)
qed

lemma updateEntry_extend:
  assumes "\<And>l l'. f l = Inr l' \<Longrightarrow> lotNext l l'"
  shows "lotsExtend reg (snd (updateEntry m i f reg))"
  using assms by (cases rule: updateEntry_cases [of m i f reg])
    (auto simp: lotsExtend_def intro: lotNext.keep)

lemma updateEntry_inv:
  assumes "\<And>l l'. f l = Inr l' \<Longrightarrow> lotNext l l'" and inv: "lotsInv reg"
  shows "lotsInv (snd (updateEntry m i f reg))"
proof (cases rule: updateEntry_cases [of m i f reg])
  case unchanged
  then show ?thesis using inv by simp
next
  case (changed l l')
  then have "lotNext l l'" by (simp add: assms)
  moreover have "i = lotId l" "lotValid l" "amountOk (lotAmount l)"
    using inv changed(1) by (auto simp: lotsInv_iff)
  ultimately show ?thesis
    using inv changed(3) lotNext_identity lotNext_valid by (metis lotsInv_put snd_conv)
qed

lemma addLot_unfold:
  "addLot l reg =
     (case assertLotCanBeAdded reg l of Inl e \<Rightarrow> (Inl e, reg)
      | Inr _ \<Rightarrow> (Inr (), mapPut (lotId l) l reg))"
  by (auto simp: addLot_def assertLotCanBeAdded_def mapEmplace_def hasLot_def split: option.splits)

lemma assertLotCanBeAdded_Inr:
  "assertLotCanBeAdded reg l = Inr u \<longleftrightarrow> lotValid l \<and> map_of reg (lotId l) = None"
  by (auto simp: assertLotCanBeAdded_def hasLot_def lotValid_def)

lemma addLot_success:
  "lotValid l \<Longrightarrow> map_of reg (lotId l) = None \<Longrightarrow> addLot l reg = (Inr (), mapPut (lotId l) l reg)"
  by (simp add: addLot_unfold assertLotCanBeAdded_def hasLot_def lotValid_def)

lemma addLot_isInr:
  "isInr (fst (addLot l reg)) \<longleftrightarrow> lotValid l \<and> map_of reg (lotId l) = None"
  by (auto simp: addLot_unfold assertLotCanBeAdded_def hasLot_def lotValid_def)

lemma addLot_extend: "lotsExtend reg (snd (addLot l reg))"
  by (auto simp: addLot_unfold lotsExtend_def assertLotCanBeAdded_Inr
      intro: lotNext.keep split: sum.splits)

lemma addLot_inv: "lotsInv reg \<Longrightarrow> amountOk (lotAmount l) \<Longrightarrow> lotsInv (snd (addLot l reg))"
  by (auto simp: addLot_unfold assertLotCanBeAdded_Inr lotsInv_put split: sum.splits)

lemma addLots_Cons:
  "addLots (l # ls) reg =
     (if isInr (fst (addLot l reg)) then addLots ls (snd (addLot l reg)) else addLot l reg)"
  by (auto split: prod.splits sum.splits)

lemma addLots_inv:
  "lotsInv reg \<Longrightarrow> list_all (\<lambda>l. amountOk (lotAmount l)) ls \<Longrightarrow> lotsInv (snd (addLots ls reg))"
proof (induction ls arbitrary: reg)
  case Nil
  then show ?case by simp
next
  case (Cons l ls)
  then have "lotsInv (snd (addLot l reg))" by (simp add: addLot_inv)
  with Cons show ?case unfolding addLots_Cons by simp
qed

lemma addLots_keeps:
  "map_of reg i = Some l \<Longrightarrow> map_of (snd (addLots ls reg)) i = Some l"
proof (induction ls arbitrary: reg)
  case Nil
  then show ?case by simp
next
  case (Cons x ls)
  then have "map_of (snd (addLot x reg)) i = Some l"
    by (auto simp: addLot_unfold assertLotCanBeAdded_Inr split: sum.splits)
  with Cons.IH show ?case unfolding addLots_Cons by simp
qed

text \<open>A consume that gets past its checks marks the input spent and adds the outputs.\<close>

lemma verifySpendable_None:
  "verifySpendable reg i a = None \<longleftrightarrow>
     i \<noteq> [] \<and> a \<noteq> [] \<and> (\<exists>l. map_of reg i = Some l \<and> lotValid l \<and> ownerAddress l = a \<and> isAvailable l)"
  by (auto simp: verifySpendable_def verifyExists_def lot_status_defs split: option.splits if_splits)

lemma consume_cases:
  obtains (rejected) e where "consumeLotAndCreateOutputs i a outs reg = (Inl e, reg)"
  | (performed) l where "map_of reg i = Some l" "isAvailable l" "ownerAddress l = a" "lotValid l"
      "outs \<noteq> []" "checkOutputLots reg outs = Inr ()" "sumLots outs = Inr (lotAmount l)"
      "consumeLotAndCreateOutputs i a outs reg =
         addLots outs (mapPut i (l\<lparr>lotStatus := SPENT, lockedUntilBlock := 0\<rparr>) reg)"
proof (cases "outs \<noteq> [] \<and> verifySpendable reg i a = None \<and> checkOutputLots reg outs = Inr () \<and>
              sumLots outs = Inr (lotAmount (the (map_of reg i)))")
  case True
  then obtain l where l: "map_of reg i = Some l" "lotValid l" "ownerAddress l = a" "isAvailable l"
    by (auto simp: verifySpendable_None)
  with True have "consumeLotAndCreateOutputs i a outs reg =
      addLots outs (mapPut i (l\<lparr>lotStatus := SPENT, lockedUntilBlock := 0\<rparr>) reg)"
    by (simp add: consumeLotAndCreateOutputs_def lot_def updateEntry_def lotMarkSpent_def
        lot_status_defs)
  with l True show ?thesis by (intro performed [of l]) auto
next
  case False
  then have "\<exists>e. consumeLotAndCreateOutputs i a outs reg = (Inl e, reg)"
    by (auto simp: consumeLotAndCreateOutputs_def lot_def split: option.splits sum.splits)
  then show ?thesis using rejected by blast
qed

lemma lotNext_markedSpent: "isAvailable l \<Longrightarrow> lotNext l (l\<lparr>lotStatus := SPENT, lockedUntilBlock := 0\<rparr>)"
  by (rule lotNext.spend) (simp add: lotMarkSpent_def lot_status_defs)

lemma consume_extend: "lotsExtend reg (snd (consumeLotAndCreateOutputs i a outs reg))"
proof (cases rule: consume_cases [of i a outs reg])
  case (rejected e)
  then show ?thesis by simp
next
  case (performed l)
  let ?l' = "l\<lparr>lotStatus := SPENT, lockedUntilBlock := 0\<rparr>"
  have "lotNext l ?l'" using performed(2) by (rule lotNext_markedSpent)
  then have "lotsExtend reg (snd (addLots outs (mapPut i ?l' reg)))"
    using performed(1) unfolding lotsExtend_def
    by (metis addLots_keeps fun_upd_apply lotNext.keep map_of_mapPut option.inject)
  then show ?thesis by (simp add: performed(8))
qed

lemma consume_inv:
  assumes "lotsInv reg" and "list_all (\<lambda>l. amountOk (lotAmount l)) outs"
  shows "lotsInv (snd (consumeLotAndCreateOutputs i a outs reg))"
proof (cases rule: consume_cases [of i a outs reg])
  case (rejected e)
  then show ?thesis using assms by simp
next
  case (performed l)
  let ?l' = "l\<lparr>lotStatus := SPENT, lockedUntilBlock := 0\<rparr>"
  have n: "lotNext l ?l'" using performed(2) by (rule lotNext_markedSpent)
  have "i = lotId l" "amountOk (lotAmount l)" using assms(1) performed(1) by (auto simp: lotsInv_iff)
  then have "lotsInv (mapPut i ?l' reg)"
    using assms(1) performed(4) n by (intro lotsInv_put) (auto dest: lotNext_valid)
  then show ?thesis by (simp add: performed(8) addLots_inv assms(2))
qed

lemmas registry_op_defs = markSpent_def lockForSecurity_def unlockIfMature_def markSlashed_def

lemma lotStep_extend: "lotsExtend reg (lotStep c reg)"
  by (cases c) (auto simp: lotStep_def registry_op_defs addLot_extend consume_extend
      intro!: updateEntry_extend intro: lotNext.intros split: option.splits)

lemma lotStep_inv: "lotsInv reg \<Longrightarrow> lotCallLegal c \<Longrightarrow> lotsInv (lotStep c reg)"
  by (cases c) (auto simp: lotStep_def registry_op_defs addLot_inv consume_inv
      intro!: updateEntry_inv intro: lotNext.intros split: option.splits)

interpretation lots: component lotStep lotCallLegal lotsInv
  by unfold_locales (rule lotStep_inv)

subsection \<open>Value\<close>

text \<open>The value of the lots that have been neither spent nor slashed.\<close>

definition lotLive :: "CoinLot \<Rightarrow> bool" where
  "lotLive l \<longleftrightarrow> isAvailable l \<or> isLockedForSecurity l"

definition lotValue :: "CoinLot \<Rightarrow> nat" where
  "lotValue l = (if lotLive l then nat (rawUnits (lotAmount l)) else 0)"

definition liveValue :: "CoinLotRegistry \<Rightarrow> nat" where
  "liveValue reg = (\<Sum>e\<leftarrow>reg. lotValue (snd e))"

lemma liveValue_put_new:
  "mapOk reg \<Longrightarrow> map_of reg i = None \<Longrightarrow> liveValue (mapPut i l reg) = liveValue reg + lotValue l"
  using om.sum_put [of reg lotValue i l] by (simp add: liveValue_def)

lemma liveValue_put_old:
  "mapOk reg \<Longrightarrow> map_of reg i = Some l \<Longrightarrow>
     liveValue (mapPut i l' reg) + lotValue l = liveValue reg + lotValue l'"
  using om.sum_put [of reg lotValue i l'] by (simp add: liveValue_def)

lemma addLots_value:
  "lotsInv reg \<Longrightarrow> list_all (\<lambda>l. amountOk (lotAmount l)) ls \<Longrightarrow> fst (addLots ls reg) = Inr () \<Longrightarrow>
     liveValue (snd (addLots ls reg)) = liveValue reg + (\<Sum>l\<leftarrow>ls. lotValue l)"
proof (induction ls arbitrary: reg)
  case Nil
  then show ?case by simp
next
  case (Cons l ls)
  have added: "isInr (fst (addLot l reg))"
    using Cons.prems(3) unfolding addLots_Cons by (auto split: if_splits)
  then have "snd (addLot l reg) = mapPut (lotId l) l reg" and "map_of reg (lotId l) = None"
    by (simp_all add: addLot_isInr addLot_success)
  then have "liveValue (snd (addLot l reg)) = liveValue reg + lotValue l"
    using Cons.prems(1) by (simp add: liveValue_put_new lotsInv_def)
  moreover have "lotsInv (snd (addLot l reg))" using Cons.prems by (simp add: addLot_inv)
  ultimately show ?case
    using added Cons unfolding addLots_Cons by simp
qed

lemma checkOutputLots_Inr:
  "checkOutputLots reg ls = Inr u \<longleftrightarrow>
     list_all (\<lambda>l. lotValid l \<and> map_of reg (lotId l) = None \<and> isAvailable l) ls"
proof (induction ls)
  case Nil
  then show ?case by simp
next
  case (Cons l ls)
  then show ?case
    by (cases "assertLotCanBeAdded reg l")
      (auto simp: assertLotCanBeAdded_def hasLot_def lotValid_def split: if_splits)
qed

lemma addLots_succeeds:
  "list_all (\<lambda>l. lotValid l \<and> map_of reg (lotId l) = None) ls \<Longrightarrow> distinct (map lotId ls) \<Longrightarrow>
     fst (addLots ls reg) = Inr ()"
proof (induction ls arbitrary: reg)
  case Nil
  then show ?case by simp
next
  case (Cons l ls)
  then have add: "addLot l reg = (Inr (), mapPut (lotId l) l reg)"
    by (simp add: addLot_success)
  have "list_all (\<lambda>x. lotValid x \<and> map_of (mapPut (lotId l) l reg) (lotId x) = None) ls"
    using Cons.prems by (auto simp: list_all_iff) (metis image_eqI)
  then show ?case using Cons add by simp
qed

lemma sumLots_value:
  assumes "list_all (\<lambda>l. amountOk (lotAmount l)) ls" and "list_all isAvailable ls"
    and "sumLots ls = Inr t"
  shows "(\<Sum>l\<leftarrow>ls. lotValue l) = nat (rawUnits t)"
proof -
  have "rawUnits t = (\<Sum>a\<leftarrow>map lotAmount ls. rawUnits a)"
    using assms(1,3) sumAmountsFrom_exact [of zeroAmount "map lotAmount ls" t]
    by (simp add: sumLots_def zeroAmount_def list_all_iff amountOk_def I64_MAX_def)
  moreover have "int (\<Sum>l\<leftarrow>ls. lotValue l) = (\<Sum>a\<leftarrow>map lotAmount ls. rawUnits a)"
    using assms(1,2)
    by (induction ls) (auto simp: lotValue_def lotLive_def amountOk_def)
  ultimately show ?thesis by simp
qed

text \<open>
  For every sequence of calls on an empty registry, whatever their arguments and whichever of
  them throw, the registry passes its own \<open>isValid\<close> and its keys are distinct and sorted.
\<close>

theorem registry_always_valid:
  assumes "list_all lotCallLegal cs"
  shows "registryValid (fold lotStep cs []) \<and> mapOk (fold lotStep cs [])"
  using lots.run_inv [OF lotsInv_empty assms] by (simp add: lotsInv_def)

text \<open>
  C22: A successful spend conserves value: the outputs together hold exactly what the input held,
  so the total value of unspent, unslashed lots is unchanged.
\<close>

theorem consume_conserves_value:
  assumes "lotsInv reg" and "list_all (\<lambda>l. amountOk (lotAmount l)) outs"
    and "consumeLotAndCreateOutputs i a outs reg = (Inr (), reg')"
  shows "liveValue reg' = liveValue reg"
proof (cases rule: consume_cases [of i a outs reg])
  case (rejected e)
  then show ?thesis using assms(3) by simp
next
  case (performed l)
  let ?l' = "l\<lparr>lotStatus := SPENT, lockedUntilBlock := 0\<rparr>"
  let ?mid = "mapPut i ?l' reg"
  have id: "i = lotId l" "amountOk (lotAmount l)"
    using assms(1) performed(1) by (auto simp: lotsInv_iff)
  have mid: "lotsInv ?mid"
    using assms(1) id performed(4) lotNext_valid [OF lotNext_markedSpent, OF performed(2)]
    by (intro lotsInv_put) auto
  have outs: "list_all isAvailable outs"
    using performed(6) by (auto simp: checkOutputLots_Inr list_all_iff)
  have "liveValue ?mid + lotValue l = liveValue reg"
    using liveValue_put_old [of reg i l ?l'] assms(1) performed(1)
    by (simp add: lotsInv_def lotValue_def lotLive_def lot_status_defs)
  moreover have "liveValue reg' = liveValue ?mid + (\<Sum>l\<leftarrow>outs. lotValue l)"
    using addLots_value [OF mid assms(2)] assms(3) performed(8) by simp
  moreover have "(\<Sum>l\<leftarrow>outs. lotValue l) = lotValue l"
    using sumLots_value [OF assms(2) outs performed(7)] performed(2)
    by (simp add: lotValue_def lotLive_def)
  ultimately show ?thesis by simp
qed

text \<open>
  C24: No double spend: after a lot has been consumed successfully, no later sequence of calls
  makes a second spend of it succeed, whoever asks and whatever outputs are proposed.
\<close>

theorem no_double_spend:
  assumes "lotsInv reg" and "lotCallLegal (Consume i a outs)"
    and "consumeLotAndCreateOutputs i a outs reg = (Inr (), reg')"
    and "list_all lotCallLegal cs"
  shows "\<exists>e. consumeLotAndCreateOutputs i a' outs' (fold lotStep cs reg') =
           (Inl e, fold lotStep cs reg')"
proof -
  let ?P = "\<lambda>r. \<exists>l. map_of r i = Some l \<and> isSpent l"
  have inv: "lotsInv reg'" using assms(1-3) consume_inv [of reg outs i a] by simp
  have "?P reg'"
  proof (cases rule: consume_cases [of i a outs reg])
    case (rejected e)
    then show ?thesis using assms(3) by simp
  next
    case (performed l)
    then have "map_of reg' i = Some (l\<lparr>lotStatus := SPENT, lockedUntilBlock := 0\<rparr>)"
      using assms(3) addLots_keeps by (metis fun_upd_same map_of_mapPut snd_conv)
    then show ?thesis by (simp add: isSpent_def)
  qed
  moreover have "?P (lotStep c r)" if "?P r" for c r
    using that lotStep_extend [of r c] lotNext_terminal unfolding lotsExtend_def isSpent_def by metis
  ultimately have "?P (fold lotStep cs reg')"
    using lots.run_stable [of ?P] inv assms(4) by blast
  then obtain l where l: "map_of (fold lotStep cs reg') i = Some l" "isSpent l" by blast
  show ?thesis
    by (cases rule: consume_cases [of i a' outs' "fold lotStep cs reg'"])
      (use l in \<open>auto simp: lot_status_defs\<close>)
qed

text \<open>
  Provenance is immutable: once a lot is registered it is never removed, and no call changes
  its id, its origin mint record, its owner, its amount, its creation block or its timestamp.
\<close>

theorem lot_provenance_immutable:
  assumes "map_of reg i = Some l"
  shows "\<exists>l'. map_of (lotStep c reg) i = Some l' \<and> lotId l' = lotId l \<and>
           originMintRecordId l' = originMintRecordId l \<and> ownerAddress l' = ownerAddress l \<and>
           lotAmount l' = lotAmount l \<and> createdAtBlock l' = createdAtBlock l \<and>
           lotTimestamp l' = lotTimestamp l"
proof -
  obtain l' where "map_of (lotStep c reg) i = Some l'" and "lotNext l l'"
    using lotStep_extend [of reg c] assms unfolding lotsExtend_def by blast
  then show ?thesis using lotNext_identity [of l l'] by simp
qed

text \<open>
  A spend whose output ids are pairwise distinct is atomic: if it throws, the registry is
  exactly as before.
\<close>

theorem consume_atomic:
  assumes "distinct (map lotId outs)"
    and "consumeLotAndCreateOutputs i a outs reg = (Inl e, reg')"
  shows "reg' = reg"
proof (cases rule: consume_cases [of i a outs reg])
  case (rejected e')
  then show ?thesis using assms(2) by simp
next
  case (performed l)
  let ?mid = "mapPut i (l\<lparr>lotStatus := SPENT, lockedUntilBlock := 0\<rparr>) reg"
  have "list_all (\<lambda>x. lotValid x \<and> map_of ?mid (lotId x) = None) outs"
    using performed(1,6) by (auto simp: checkOutputLots_Inr list_all_iff)
  then have "fst (addLots outs ?mid) = Inr ()" using assms(1) by (rule addLots_succeeds)
  then show ?thesis using assms(2) performed(8) by simp
qed

subsection \<open>Concrete runs\<close>

definition demoLot :: "string \<Rightarrow> string \<Rightarrow> int \<Rightarrow> CoinLot" where
  "demoLot i owner raw =
     \<lparr>lotId = i, originMintRecordId = ''mint-1'', ownerAddress = owner, lotAmount = Amount raw,
      lotStatus = AVAILABLE, createdAtBlock = 1, lockedUntilBlock = 0, lotTimestamp = 10\<rparr>"

definition demoReg :: CoinLotRegistry where
  "demoReg = [(''a'', demoLot ''a'' ''alice'' 10)]"

definition demoOuts :: "CoinLot list" where
  "demoOuts = [demoLot ''b'' ''bob'' 7, demoLot ''c'' ''alice'' 3]"

definition demoReg' :: CoinLotRegistry where
  "demoReg' = [(''a'', (demoLot ''a'' ''alice'' 10)\<lparr>lotStatus := SPENT\<rparr>),
               (''b'', demoLot ''b'' ''bob'' 7), (''c'', demoLot ''c'' ''alice'' 3)]"

lemma demo_facts:
  "lotsInv demoReg" "list_all (\<lambda>l. amountOk (lotAmount l)) demoOuts"
  "consumeLotAndCreateOutputs ''a'' ''alice'' demoOuts demoReg = (Inr (), demoReg')"
  by code_simp+

theorem registry_always_valid_witness:
  "list_all lotCallLegal [AddLot (demoLot ''a'' ''alice'' 10), Consume ''a'' ''alice'' demoOuts] \<and>
   registryValid (fold lotStep
     [AddLot (demoLot ''a'' ''alice'' 10), Consume ''a'' ''alice'' demoOuts] [])"
proof -
  have h: "list_all lotCallLegal [AddLot (demoLot ''a'' ''alice'' 10), Consume ''a'' ''alice'' demoOuts]"
    by code_simp
  show ?thesis using h registry_always_valid [OF h] by blast
qed

theorem consume_conserves_value_witness: "liveValue demoReg' = liveValue demoReg"
  by (rule consume_conserves_value [OF demo_facts])

theorem no_double_spend_witness:
  "\<exists>e. consumeLotAndCreateOutputs ''a'' ''alice'' [demoLot ''d'' ''eve'' 10]
         (fold lotStep [Unlock ''a'' 99, Slash ''b''] demoReg') =
       (Inl e, fold lotStep [Unlock ''a'' 99, Slash ''b''] demoReg')"
proof (rule no_double_spend [OF demo_facts(1) _ demo_facts(3)])
  show "lotCallLegal (Consume ''a'' ''alice'' demoOuts)" using demo_facts(2) by simp
  show "list_all lotCallLegal [Unlock ''a'' 99, Slash ''b'']" by simp
qed

theorem lot_provenance_immutable_witness:
  "\<exists>l'. map_of (lotStep (Slash ''a'') demoReg) ''a'' = Some l' \<and> ownerAddress l' = ''alice'' \<and>
     lotAmount l' = Amount 10"
proof -
  have h: "map_of demoReg ''a'' = Some (demoLot ''a'' ''alice'' 10)" by code_simp
  show ?thesis using lot_provenance_immutable [OF h, of "Slash ''a''"] by (auto simp: demoLot_def)
qed

theorem consume_atomic_witness:
  "snd (consumeLotAndCreateOutputs ''a'' ''bob'' demoOuts demoReg) = demoReg"
proof -
  have "distinct (map lotId demoOuts)" by code_simp
  moreover have "consumeLotAndCreateOutputs ''a'' ''bob'' demoOuts demoReg =
      (Inl (InvalidArgument ''Input CoinLot is not spendable: CoinLot owner mismatch.''), demoReg)"
    by code_simp
  ultimately show ?thesis using consume_atomic by (metis snd_conv)
qed


end
