(* ===== verification/CryptoIds.thy ===== *)
theory CryptoIds
  imports StdMap
begin

section \<open>Keys, addresses, signatures and the signing policy\<close>

text \<open>
  The identity layer under \<open>src/crypto/\<close>: hexadecimal text (\<open>Hex.cpp\<close>), the hash boundary
  (\<open>hash.c\<close>), public keys, addresses and their derivation, signatures, signature bundles and
  the policy that says which algorithm and which signing domain a context accepts.

  Two things are not in the repository and are parameters here: SHA-256 as OpenSSL computes it
  (a function from bytes to 256 bits; the code's branches for a failing OpenSSL context are out
  of the model), and a signature provider (OpenSSL Ed25519 or blst BLS12-381), as a record of its
  \<open>algorithm()\<close>, \<open>sign\<close> and \<open>verify\<close>. Bytes and characters are both \<^typ>\<open>char\<close>.
\<close>

subsection \<open>Scalars that are safe in the text formats\<close>

definition isSafeDelimitedText :: "string \<Rightarrow> string \<Rightarrow> bool" where
  "isSafeDelimitedText forbidden s \<longleftrightarrow> s \<noteq> [] \<and> list_all (\<lambda>c. \<not> List.member forbidden c) s"

definition isSafeScalar :: "string \<Rightarrow> bool" where
  "isSafeScalar s = isSafeDelimitedText ('';{}[]'' @ [CHR 0x0A, CHR 0x0D, CHR 0x09]) s"

subsection \<open>Hexadecimal text\<close>

definition hexDigit :: "int \<Rightarrow> char" where
  "hexDigit d = (if d < 10 then char_of (48 + d) else char_of (87 + d))"

definition isHexDigit :: "char \<Rightarrow> bool" where
  "isHexDigit c \<longleftrightarrow> (CHR ''0'' \<le> c \<and> c \<le> CHR ''9'') \<or> (CHR ''a'' \<le> c \<and> c \<le> CHR ''f'') \<or>
                   (CHR ''A'' \<le> c \<and> c \<le> CHR ''F'')"

definition isLowerHexDigit :: "char \<Rightarrow> bool" where
  "isLowerHexDigit c \<longleftrightarrow> (CHR ''0'' \<le> c \<and> c \<le> CHR ''9'') \<or> (CHR ''a'' \<le> c \<and> c \<le> CHR ''f'')"

definition decodeNibble :: "char \<Rightarrow> int result" where
  "decodeNibble c =
     (if CHR ''0'' \<le> c \<and> c \<le> CHR ''9'' then Inr (of_char c - 48)
      else if CHR ''a'' \<le> c \<and> c \<le> CHR ''f'' then Inr (of_char c - 97 + 10)
      else if CHR ''A'' \<le> c \<and> c \<le> CHR ''F'' then Inr (of_char c - 65 + 10)
      else Inl (InvalidArgument ''Non-hex character rejected.''))"

fun hexEncode :: "string \<Rightarrow> string" where
  "hexEncode [] = []"
| "hexEncode (b # bs) = hexDigit (of_char b div 16) # hexDigit (of_char b mod 16) # hexEncode bs"

fun hexDecodePairs :: "string \<Rightarrow> string result" where
  "hexDecodePairs (h # l # cs) =
     bindR (decodeNibble h) (\<lambda>x. bindR (decodeNibble l) (\<lambda>y.
     bindR (hexDecodePairs cs) (\<lambda>bs. Inr (char_of (16 * x + y) # bs))))"
| "hexDecodePairs _ = Inr []"

definition hexDecode :: "string \<Rightarrow> string result" where
  "hexDecode hex =
     (if hex = [] \<or> length hex mod 2 \<noteq> 0
      then Inl (InvalidArgument ''Hex string has invalid length.'') else hexDecodePairs hex)"

definition isHexString :: "string \<Rightarrow> bool" where
  "isHexString hex \<longleftrightarrow> \<not> (hex = [] \<or> length hex mod 2 \<noteq> 0) \<and> list_all isHexDigit hex"

definition hasHexByteSize :: "string \<Rightarrow> nat \<Rightarrow> bool" where
  "hasHexByteSize hex n \<longleftrightarrow> length hex = n * 2 \<and> isHexString hex"

subsection \<open>The hash boundary\<close>

type_synonym sha256 = "string \<Rightarrow> 256 word"

definition digestBytes :: "256 word \<Rightarrow> string" where
  "digestBytes w = beBytes 32 (uint w)"

definition nodo_hash_bytes :: "sha256 \<Rightarrow> string \<Rightarrow> string" where
  "nodo_hash_bytes sha s = hexEncode (digestBytes (sha s))"

text \<open>A C string ends at its first zero byte.\<close>

definition nodo_hash_string :: "sha256 \<Rightarrow> string \<Rightarrow> string" where
  "nodo_hash_string sha s = nodo_hash_bytes sha (takeWhile (\<lambda>c. c \<noteq> CHR 0x00) s)"

abbreviation hashCString :: "sha256 \<Rightarrow> string \<Rightarrow> string" where
  "hashCString \<equiv> nodo_hash_string"

subsection \<open>Algorithms, suites, domains, policy\<close>

datatype CryptoAlgorithm =
  DEVELOPMENT_FAKE_SIGNATURE | CLASSIC_ED25519 | CLASSIC_ECDSA_SECP256K1 | BLS12_381

datatype CryptoSuiteId = Suite_UNKNOWN | NODO_CRYPTO_SUITE_V1

datatype SigningDomain =
    Domain_UNKNOWN | PEER_HANDSHAKE | USER_TRANSACTION | VALIDATOR_VOTE | QUORUM_CERTIFICATE
  | MINT_AUTHORIZATION | TREASURY_PROPOSAL | GOVERNANCE_VOTE | VALIDATOR_BLOCK_PROPOSAL
  | ARCHIVAL_PROOF

datatype SecurityContext =
    PEER_AUTHENTICATION | Ctx_USER_TRANSACTION | VALIDATOR_OPERATION | TREASURY_OPERATION
  | MINT_OPERATION | DEVELOPMENT_ONLY

record CryptoPolicy =
  developmentMode :: bool

fun cryptoAlgorithmToString :: "CryptoAlgorithm \<Rightarrow> string" where
  "cryptoAlgorithmToString DEVELOPMENT_FAKE_SIGNATURE = ''DEVELOPMENT_FAKE_SIGNATURE''"
| "cryptoAlgorithmToString CLASSIC_ED25519 = ''CLASSIC_ED25519''"
| "cryptoAlgorithmToString CLASSIC_ECDSA_SECP256K1 = ''CLASSIC_ECDSA_SECP256K1''"
| "cryptoAlgorithmToString BLS12_381 = ''BLS12_381''"

definition cryptoAlgorithmFromString :: "string \<Rightarrow> CryptoAlgorithm result" where
  "cryptoAlgorithmFromString v =
     (if v = ''DEVELOPMENT_FAKE_SIGNATURE'' then Inr DEVELOPMENT_FAKE_SIGNATURE
      else if v = ''CLASSIC_ED25519'' then Inr CLASSIC_ED25519
      else if v = ''CLASSIC_ECDSA_SECP256K1'' then Inr CLASSIC_ECDSA_SECP256K1
      else if v = ''BLS12_381'' then Inr BLS12_381
      else Inl (InvalidArgument (''Unknown CryptoAlgorithm: '' @ v)))"

definition isClassicAlgorithm :: "CryptoAlgorithm \<Rightarrow> bool" where
  "isClassicAlgorithm a \<longleftrightarrow> a = CLASSIC_ED25519 \<or> a = CLASSIC_ECDSA_SECP256K1"

definition isValidatorAlgorithm :: "CryptoAlgorithm \<Rightarrow> bool" where
  "isValidatorAlgorithm a \<longleftrightarrow> a = BLS12_381"

definition isDevelopmentOnlyAlgorithm :: "CryptoAlgorithm \<Rightarrow> bool" where
  "isDevelopmentOnlyAlgorithm a \<longleftrightarrow> a = DEVELOPMENT_FAKE_SIGNATURE"

fun cryptoSuiteIdToString :: "CryptoSuiteId \<Rightarrow> string" where
  "cryptoSuiteIdToString NODO_CRYPTO_SUITE_V1 = ''NODO_CRYPTO_SUITE_V1''"
| "cryptoSuiteIdToString Suite_UNKNOWN = ''UNKNOWN''"

definition cryptoSuiteIdFromString :: "string \<Rightarrow> CryptoSuiteId" where
  "cryptoSuiteIdFromString v =
     (if v = ''NODO_CRYPTO_SUITE_V1'' then NODO_CRYPTO_SUITE_V1 else Suite_UNKNOWN)"

definition isSupportedCryptoSuite :: "CryptoSuiteId \<Rightarrow> bool" where
  "isSupportedCryptoSuite s \<longleftrightarrow> s = NODO_CRYPTO_SUITE_V1"

fun signingDomainToString :: "SigningDomain \<Rightarrow> string" where
  "signingDomainToString PEER_HANDSHAKE = ''NODO_PEER_HANDSHAKE_V1''"
| "signingDomainToString USER_TRANSACTION = ''NODO_TX_V1''"
| "signingDomainToString VALIDATOR_VOTE = ''NODO_VALIDATOR_VOTE_V1''"
| "signingDomainToString QUORUM_CERTIFICATE = ''NODO_QUORUM_CERTIFICATE_V1''"
| "signingDomainToString MINT_AUTHORIZATION = ''NODO_MINT_AUTHORIZATION_V1''"
| "signingDomainToString TREASURY_PROPOSAL = ''NODO_TREASURY_PROPOSAL_V1''"
| "signingDomainToString GOVERNANCE_VOTE = ''NODO_GOVERNANCE_VOTE_V1''"
| "signingDomainToString VALIDATOR_BLOCK_PROPOSAL = ''NODO_VALIDATOR_BLOCK_PROPOSAL_V1''"
| "signingDomainToString ARCHIVAL_PROOF = ''NODO_ARCHIVAL_PROOF_V1''"
| "signingDomainToString Domain_UNKNOWN = ''UNKNOWN''"

definition signingDomainFromString :: "string \<Rightarrow> SigningDomain" where
  "signingDomainFromString v =
     (if v = ''NODO_PEER_HANDSHAKE_V1'' then PEER_HANDSHAKE
      else if v = ''NODO_TX_V1'' then USER_TRANSACTION
      else if v = ''NODO_VALIDATOR_VOTE_V1'' then VALIDATOR_VOTE
      else if v = ''NODO_QUORUM_CERTIFICATE_V1'' then QUORUM_CERTIFICATE
      else if v = ''NODO_MINT_AUTHORIZATION_V1'' then MINT_AUTHORIZATION
      else if v = ''NODO_TREASURY_PROPOSAL_V1'' then TREASURY_PROPOSAL
      else if v = ''NODO_GOVERNANCE_VOTE_V1'' then GOVERNANCE_VOTE
      else if v = ''NODO_VALIDATOR_BLOCK_PROPOSAL_V1'' then VALIDATOR_BLOCK_PROPOSAL
      else if v = ''NODO_ARCHIVAL_PROOF_V1'' then ARCHIVAL_PROOF
      else Domain_UNKNOWN)"

fun signingDomainForSecurityContext :: "SecurityContext \<Rightarrow> SigningDomain" where
  "signingDomainForSecurityContext PEER_AUTHENTICATION = PEER_HANDSHAKE"
| "signingDomainForSecurityContext Ctx_USER_TRANSACTION = USER_TRANSACTION"
| "signingDomainForSecurityContext VALIDATOR_OPERATION = VALIDATOR_VOTE"
| "signingDomainForSecurityContext TREASURY_OPERATION = TREASURY_PROPOSAL"
| "signingDomainForSecurityContext MINT_OPERATION = MINT_AUTHORIZATION"
| "signingDomainForSecurityContext DEVELOPMENT_ONLY = Domain_UNKNOWN"

definition isSigningDomainAllowedForContext :: "SigningDomain \<Rightarrow> SecurityContext \<Rightarrow> bool" where
  "isSigningDomainAllowedForContext d ctx =
     (if d = Domain_UNKNOWN then False
      else if ctx = VALIDATOR_OPERATION
      then d = VALIDATOR_VOTE \<or> d = VALIDATOR_BLOCK_PROPOSAL \<or> d = QUORUM_CERTIFICATE
      else d = signingDomainForSecurityContext ctx)"

definition isAlgorithmAllowed :: "CryptoPolicy \<Rightarrow> CryptoAlgorithm \<Rightarrow> SecurityContext \<Rightarrow> bool" where
  "isAlgorithmAllowed policy a ctx =
     (if isDevelopmentOnlyAlgorithm a then ctx = DEVELOPMENT_ONLY \<and> developmentMode policy
      else if ctx = Ctx_USER_TRANSACTION then a = CLASSIC_ED25519
      else if ctx = PEER_AUTHENTICATION then a = CLASSIC_ED25519
      else if ctx = VALIDATOR_OPERATION then a = BLS12_381
      else if ctx = TREASURY_OPERATION \<or> ctx = MINT_OPERATION then a = BLS12_381
      else if isClassicAlgorithm a then True
      else if isValidatorAlgorithm a then True
      else False)"

subsection \<open>Public keys and addresses\<close>

record PublicKey =
  pkAlgorithm :: CryptoAlgorithm
  keyMaterial :: string

definition publicKeyValid :: "PublicKey \<Rightarrow> bool" where
  "publicKeyValid pk =
     (if keyMaterial pk = [] then False
      else if pkAlgorithm pk = CLASSIC_ED25519 then hasHexByteSize (keyMaterial pk) 32
      else if pkAlgorithm pk = BLS12_381 then hasHexByteSize (keyMaterial pk) 48
      else keyMaterial pk \<noteq> [])"

definition publicKeySerialize :: "PublicKey \<Rightarrow> string" where
  "publicKeySerialize pk =
     ''PublicKey{algorithm='' @ cryptoAlgorithmToString (pkAlgorithm pk)
       @ '';keyMaterial='' @ keyMaterial pk @ ''}''"

definition fingerprint :: "sha256 \<Rightarrow> PublicKey \<Rightarrow> string" where
  "fingerprint sha pk = nodo_hash_string sha (publicKeySerialize pk)"

definition networkPrefix :: string where
  "networkPrefix = ''nodo1''"

definition payloadHexSize :: nat where
  "payloadHexSize = 40"

definition checksumHexSize :: nat where
  "checksumHexSize = 8"

definition totalSize :: nat where
  "totalSize = length networkPrefix + payloadHexSize + checksumHexSize"

definition computeChecksum :: "sha256 \<Rightarrow> string \<Rightarrow> string" where
  "computeChecksum sha body =
     take checksumHexSize (nodo_hash_string sha (''NODO_ADDRESS_CHECKSUM_V1|'' @ body))"

definition hasPrefix :: "string \<Rightarrow> string \<Rightarrow> bool" where
  "hasPrefix p s \<longleftrightarrow> take (length p) s = p"

definition hasOnlyLowercaseHexAfterPrefix :: "string \<Rightarrow> bool" where
  "hasOnlyLowercaseHexAfterPrefix v \<longleftrightarrow>
     hasPrefix networkPrefix v \<and> list_all isLowerHexDigit (drop (length networkPrefix) v)"

definition hasValidChecksum :: "sha256 \<Rightarrow> string \<Rightarrow> bool" where
  "hasValidChecksum sha v \<longleftrightarrow>
     length v = totalSize \<and>
     (let n = length networkPrefix + payloadHexSize
      in drop n v = computeChecksum sha (take n v))"

definition addressValid :: "sha256 \<Rightarrow> string \<Rightarrow> bool" where
  "addressValid sha v \<longleftrightarrow>
     length v = totalSize \<and> hasPrefix networkPrefix v \<and> hasOnlyLowercaseHexAfterPrefix v \<and>
     hasValidChecksum sha v"

definition computeAddressPayloadHex :: "sha256 \<Rightarrow> PublicKey \<Rightarrow> string" where
  "computeAddressPayloadHex sha pk =
     take payloadHexSize
       (nodo_hash_string sha (''NODO_ADDRESS_DERIVATION_V1|'' @ publicKeySerialize pk))"

definition deriveFromPublicKey :: "sha256 \<Rightarrow> PublicKey \<Rightarrow> string result" where
  "deriveFromPublicKey sha pk =
     (if \<not> publicKeyValid pk
      then Inl (InvalidArgument ''Cannot derive address from invalid public key.'')
      else let body = networkPrefix @ computeAddressPayloadHex sha pk;
               address = body @ computeChecksum sha body
           in if \<not> addressValid sha address
              then Inl (LogicError ''Derived address is invalid.'') else Inr address)"

text \<open>\<open>derive_succeeds\<close> below shows that the derivation does not throw on the last branch.\<close>

definition verifyAddressForPublicKey :: "sha256 \<Rightarrow> string \<Rightarrow> PublicKey \<Rightarrow> bool" where
  "verifyAddressForPublicKey sha address pk =
     (if \<not> addressValid sha address then False
      else if \<not> publicKeyValid pk then False
      else deriveFromPublicKey sha pk = Inr address)"

subsection \<open>Signatures\<close>

record Signature =
  sigSuite :: CryptoSuiteId
  sigDomain :: SigningDomain
  sigAlgorithm :: CryptoAlgorithm
  sigPublicKey :: PublicKey
  signatureHex :: string
  sigCreatedAt :: int

type_synonym SignatureBundle = "Signature list"

record SignatureProvider =
  provAlgorithm :: CryptoAlgorithm
  provSign :: "string \<Rightarrow> PublicKey \<Rightarrow> string \<Rightarrow> int \<Rightarrow> SigningDomain \<Rightarrow> Signature result"
  provVerify :: "string \<Rightarrow> Signature \<Rightarrow> bool"

definition isSafeSignatureHex :: "string \<Rightarrow> bool" where
  "isSafeSignatureHex v \<longleftrightarrow> v \<noteq> [] \<and> list_all isHexDigit v"

definition signatureValid :: "Signature \<Rightarrow> bool" where
  "signatureValid s \<longleftrightarrow>
     isSupportedCryptoSuite (sigSuite s) \<and> sigDomain s \<noteq> Domain_UNKNOWN \<and>
     publicKeyValid (sigPublicKey s) \<and> isSafeSignatureHex (signatureHex s) \<and>
     sigCreatedAt s > 0 \<and> sigAlgorithm s = pkAlgorithm (sigPublicKey s)"

definition signatureSerialize :: "Signature \<Rightarrow> string" where
  "signatureSerialize s =
     ''Signature{suite='' @ cryptoSuiteIdToString (sigSuite s)
       @ '';domain='' @ signingDomainToString (sigDomain s)
       @ '';algorithm='' @ cryptoAlgorithmToString (sigAlgorithm s)
       @ '';publicKey='' @ publicKeySerialize (sigPublicKey s)
       @ '';signatureHex='' @ signatureHex s
       @ '';createdAt='' @ showI64 (sigCreatedAt s) @ ''}''"

definition addSignature :: "Signature \<Rightarrow> SignatureBundle \<Rightarrow> SignatureBundle result" where
  "addSignature s b =
     (if \<not> signatureValid s
      then Inl (InvalidArgument ''Invalid signature rejected by SignatureBundle.'')
      else if list_ex (\<lambda>x. sigAlgorithm x = sigAlgorithm s) b
      then Inl (LogicError ''Duplicated signature algorithm rejected.'')
      else Inr (b @ [s]))"

definition hasAlgorithm :: "SignatureBundle \<Rightarrow> CryptoAlgorithm \<Rightarrow> bool" where
  "hasAlgorithm b a \<longleftrightarrow> list_ex (\<lambda>s. sigAlgorithm s = a) b"

definition isValidForPolicy :: "CryptoPolicy \<Rightarrow> SecurityContext \<Rightarrow> SignatureBundle \<Rightarrow> bool" where
  "isValidForPolicy policy ctx b \<longleftrightarrow>
     b \<noteq> [] \<and>
     list_all (\<lambda>s. signatureValid s \<and> isAlgorithmAllowed policy (sigAlgorithm s) ctx \<and>
                   isSigningDomainAllowedForContext (sigDomain s) ctx) b"

definition verifyForPolicy ::
    "string \<Rightarrow> CryptoPolicy \<Rightarrow> SecurityContext \<Rightarrow> SignatureProvider \<Rightarrow> SignatureBundle \<Rightarrow> bool" where
  "verifyForPolicy message policy ctx provider b \<longleftrightarrow>
     isValidForPolicy policy ctx b \<and> message \<noteq> [] \<and>
     list_all (\<lambda>s. sigAlgorithm s = provAlgorithm provider \<and> provVerify provider message s) b"

definition bundleSerialize :: "SignatureBundle \<Rightarrow> string" where
  "bundleSerialize b = ''SignatureBundle{'' @ joinWith '';'' (map signatureSerialize b) @ ''}''"

definition createSignature ::
    "string \<Rightarrow> PublicKey \<Rightarrow> string \<Rightarrow> int \<Rightarrow> SignatureProvider \<Rightarrow> SigningDomain
       \<Rightarrow> SignatureBundle result" where
  "createSignature message pk privateKey timestamp provider d =
     bindR (provSign provider message pk privateKey timestamp d) (\<lambda>s. addSignature s [])"

subsection \<open>Hexadecimal text: round trip and shape\<close>

lemma of_char_hexDigit:
  "0 \<le> d \<Longrightarrow> d < 16 \<Longrightarrow> (of_char (hexDigit d) :: int) = (if d < 10 then 48 + d else 87 + d)"
  by (simp add: hexDigit_def)

lemma isLowerHexDigit_hexDigit [simp]: "0 \<le> d \<Longrightarrow> d < 16 \<Longrightarrow> isLowerHexDigit (hexDigit d)"
  by (simp add: isLowerHexDigit_def char_le_iff of_char_hexDigit)

lemma decodeNibble_hexDigit [simp]: "0 \<le> d \<Longrightarrow> d < 16 \<Longrightarrow> decodeNibble (hexDigit d) = Inr d"
  by (simp add: decodeNibble_def char_le_iff of_char_hexDigit)

lemma byte_range [simp]: "0 \<le> (of_char (c :: char) :: int)" "(of_char (c :: char) :: int) < 256"
  using nat_of_char_less_256 [of c] unfolding of_char_int by simp_all

lemma nibbles_range [simp]:
  "0 \<le> (of_char (c :: char) :: int) div 16" "(of_char (c :: char) :: int) div 16 < 16"
  using byte_range [of c] by (simp_all add: pos_imp_zdiv_nonneg_iff del: byte_range)

lemma length_hexEncode [simp]: "length (hexEncode bs) = 2 * length bs"
  by (induction bs) auto

lemma hexEncode_lower: "list_all isLowerHexDigit (hexEncode bs)"
  by (induction bs) auto

lemma isLowerHexDigit_isHexDigit: "isLowerHexDigit c \<Longrightarrow> isHexDigit c"
  by (auto simp: isLowerHexDigit_def isHexDigit_def)

lemma hexDecodePairs_hexEncode: "hexDecodePairs (hexEncode bs) = Inr bs"
proof (induction bs)
  case Nil
  then show ?case by simp
next
  case (Cons b bs)
  have "16 * (of_char b div 16) + of_char b mod 16 = (of_char b :: int)" by simp
  then show ?case using Cons by simp
qed

text \<open>
  Hexadecimal encoding round-trips: every non-empty byte string is accepted by
  \<open>isHexString\<close> after encoding, has twice the length, and decodes to itself.
\<close>

theorem hex_roundtrip:
  assumes "bs \<noteq> []"
  shows "hexDecode (hexEncode bs) = Inr bs \<and> hasHexByteSize (hexEncode bs) (length bs)"
proof -
  have ne: "hexEncode bs \<noteq> []" using assms by (cases bs) auto
  moreover have "list_all isHexDigit (hexEncode bs)"
    using hexEncode_lower [of bs] by (auto simp: list_all_iff isLowerHexDigit_isHexDigit)
  ultimately show ?thesis
    by (simp add: hexDecode_def hexDecodePairs_hexEncode hasHexByteSize_def isHexString_def)
qed

theorem hex_roundtrip_witness: "hexDecode (hexEncode ''n0'') = Inr ''n0''"
  using hex_roundtrip [of "''n0''"] by simp

subsection \<open>Hashes and addresses\<close>

lemma length_nodo_hash [simp]: "length (nodo_hash_string sha s) = 64"
  by (simp add: nodo_hash_string_def nodo_hash_bytes_def digestBytes_def)

lemma nodo_hash_lower: "list_all isLowerHexDigit (nodo_hash_string sha s)"
  by (simp add: nodo_hash_string_def nodo_hash_bytes_def hexEncode_lower)

lemma list_all_take: "list_all P xs \<Longrightarrow> list_all P (take n xs)"
  by (auto simp: list_all_iff dest: in_set_takeD)

lemmas address_sizes = totalSize_def networkPrefix_def payloadHexSize_def checksumHexSize_def

lemma derived_address_valid:
  "addressValid sha (networkPrefix @ computeAddressPayloadHex sha pk
      @ computeChecksum sha (networkPrefix @ computeAddressPayloadHex sha pk))"
proof -
  have len: "length (computeAddressPayloadHex sha pk) = payloadHexSize"
    "length (computeChecksum sha b) = checksumHexSize" for b
    by (simp_all add: computeAddressPayloadHex_def computeChecksum_def address_sizes)
  have hex: "list_all isLowerHexDigit (computeAddressPayloadHex sha pk)"
    "list_all isLowerHexDigit (computeChecksum sha b)" for b
    by (simp_all add: computeAddressPayloadHex_def computeChecksum_def list_all_take nodo_hash_lower)
  show ?thesis
    unfolding addressValid_def hasOnlyLowercaseHexAfterPrefix_def hasValidChecksum_def
    by (simp add: len hex hasPrefix_def totalSize_def Let_def)
qed

lemma derive_succeeds:
  "publicKeyValid pk \<Longrightarrow> \<exists>a. deriveFromPublicKey sha pk = Inr a \<and> addressValid sha a"
  using derived_address_valid [of sha pk] by (simp add: deriveFromPublicKey_def Let_def)

text \<open>
  Address derivation never throws on a valid key, its result is a valid address, and the
  ownership check accepts a pair of an address and a valid key exactly when the address is the
  one derived from that key.
\<close>

theorem address_binds_key:
  assumes "publicKeyValid pk"
  shows "(\<exists>a. deriveFromPublicKey sha pk = Inr a \<and> addressValid sha a) \<and>
         (verifyAddressForPublicKey sha address pk \<longleftrightarrow> deriveFromPublicKey sha pk = Inr address)"
  using derive_succeeds [OF assms, of sha] assms by (auto simp: verifyAddressForPublicKey_def)

subsection \<open>A demonstration network\<close>

text \<open>
  A toy hash and three keys on which the theorems are applied. The demonstration addresses are
  the ones the derivation gives for the demonstration keys under the toy hash.
\<close>

definition demoSha :: sha256 where
  "demoSha s = (if CHR ''f'' \<in> set s then - 1
                else if CHR ''7'' \<in> set s
                then 0x7777777777777777777777777777777777777777777777777777777777777777 else 0)"

definition demoKey :: "char \<Rightarrow> PublicKey" where
  "demoKey c = \<lparr>pkAlgorithm = BLS12_381, keyMaterial = replicate 96 c\<rparr>"

definition demoAddr :: "char \<Rightarrow> string" where
  "demoAddr c = ''nodo1'' @ replicate 48 c"

definition demoName :: "char \<Rightarrow> bool" where
  "demoName c \<longleftrightarrow> c = CHR ''f'' \<or> c = CHR ''7'' \<or> c = CHR ''0''"

lemma demoSha_hex:
  "hexEncode (digestBytes (- 1)) = replicate 64 CHR ''f''"
  "hexEncode (digestBytes 0x7777777777777777777777777777777777777777777777777777777777777777)
     = replicate 64 CHR ''7''"
  "hexEncode (digestBytes 0) = replicate 64 CHR ''0''"
  by code_simp+

lemma demoSha_hash:
  assumes "CHR 0x00 \<notin> set s"
  shows "nodo_hash_string demoSha s = replicate 64
     (if CHR ''f'' \<in> set s then CHR ''f'' else if CHR ''7'' \<in> set s then CHR ''7'' else CHR ''0'')"
proof -
  have "takeWhile (\<lambda>c. c \<noteq> CHR 0x00) s = s"
    using assms by (subst takeWhile_eq_all_conv) auto
  then have "nodo_hash_string demoSha s = nodo_hash_bytes demoSha s"
    unfolding nodo_hash_string_def by (rule arg_cong)
  then show ?thesis by (simp add: nodo_hash_bytes_def demoSha_def demoSha_hex)
qed

lemma list_all_replicate [simp]: "list_all P (replicate n c) \<longleftrightarrow> n = 0 \<or> P c"
  by (auto simp: list_all_iff)

lemma demoKey_valid: "isHexDigit c \<Longrightarrow> publicKeyValid (demoKey c)"
  by (simp add: publicKeyValid_def demoKey_def hasHexByteSize_def isHexString_def)

lemma demoName_hex: "demoName c \<Longrightarrow> isLowerHexDigit c"
  by (auto simp: isLowerHexDigit_def demoName_def)

lemma demo_replicate:
  "take 40 (replicate 64 c) = replicate 40 c" "take 8 (replicate 64 c) = replicate 8 c"
  "replicate 40 c @ replicate 8 c = replicate 48 c"
  by (simp_all add: replicate_add [symmetric])

lemma demoAddr_derive:
  assumes "demoName c"
  shows "deriveFromPublicKey demoSha (demoKey c) = Inr (demoAddr c)"
proof -
  have key: "publicKeyValid (demoKey c)"
    using assms by (intro demoKey_valid isLowerHexDigit_isHexDigit demoName_hex)
  have pay: "computeAddressPayloadHex demoSha (demoKey c) = replicate 40 c"
    using assms unfolding computeAddressPayloadHex_def payloadHexSize_def
    by (subst demoSha_hash) (auto simp: demoName_def publicKeySerialize_def demoKey_def demo_replicate)
  have chk: "computeChecksum demoSha (networkPrefix @ replicate 40 c) = replicate 8 c"
    using assms unfolding computeChecksum_def checksumHexSize_def
    by (subst demoSha_hash) (auto simp: demoName_def networkPrefix_def demo_replicate)
  show ?thesis
    using derive_succeeds [OF key, of demoSha] pay chk
    by (auto simp: deriveFromPublicKey_def Let_def demoAddr_def networkPrefix_def demo_replicate
        split: if_splits)
qed

lemma demoAddr_valid: "demoName c \<Longrightarrow> addressValid demoSha (demoAddr c)"
  by (drule demoAddr_derive) (auto simp: deriveFromPublicKey_def Let_def split: if_splits)

lemma demoAddr_owned:
  "demoName c \<Longrightarrow> verifyAddressForPublicKey demoSha (demoAddr c) (demoKey c)"
  using demoAddr_derive [of c] demoAddr_valid [of c]
  by (auto simp: verifyAddressForPublicKey_def deriveFromPublicKey_def split: if_splits)

lemma demoAddr_inj [simp]: "demoAddr c = demoAddr d \<longleftrightarrow> c = d"
  by (simp add: demoAddr_def)

theorem address_binds_key_witness:
  "\<exists>a. deriveFromPublicKey demoSha (demoKey CHR ''7'') = Inr a \<and> addressValid demoSha a"
proof -
  have "publicKeyValid (demoKey CHR ''7'')" by (rule demoKey_valid) (simp add: isHexDigit_def)
  then show ?thesis using address_binds_key [of "demoKey CHR ''7''" demoSha] by blast
qed

end
