(* ===== verification/TextParse.thy ===== *)
theory TextParse
  imports CryptoIds "HOL-Library.Sublist"
begin

section \<open>Parsing the text formats\<close>

text \<open>
  What the text parsers of the sources use of the standard library and share among themselves:
  \<open>std::stoull\<close> and \<open>std::stoll\<close>, \<open>std::string::find\<close>, and the brace-aware splitting of
  \<open>src/crypto/SignatureBundle.cpp\<close> with its field maps. The lemmas say where a search for
  \<open>key=\<close> stops in a text cut at its equal signs, how a split text is put together, and that
  printed integers are read back.
\<close>

subsection \<open>Integers\<close>

text \<open>
  \<open>std::stoull\<close>: leading white space, an optional sign, the longest run of digits; a negative
  number wraps around. \<open>std::stoll\<close> is the same with a signed range; \<open>stollAt\<close> also gives the
  number of characters used.
\<close>

definition isSpaceChar :: "char \<Rightarrow> bool" where
  "isSpaceChar c \<longleftrightarrow> c = CHR '' '' \<or> (CHR 0x09 \<le> c \<and> c \<le> CHR 0x0D)"

definition stoull :: "string \<Rightarrow> u64 result" where
  "stoull s =
     (let t = dropWhile isSpaceChar s;
          neg = (t \<noteq> [] \<and> hd t = CHR ''-'');
          u = (if t \<noteq> [] \<and> (hd t = CHR ''-'' \<or> hd t = CHR ''+'') then tl t else t);
          ds = takeWhile isDigit u;
          n = readNum 0 ds
      in if ds = [] then Inl (InvalidArgument ''stoull'')
         else if n > 18446744073709551615 then Inl (OutOfRange ''stoull'')
         else Inr (if neg then - word_of_int n else word_of_int n))"

definition stollAt :: "string \<Rightarrow> (int \<times> nat) result" where
  "stollAt s =
     (let t = dropWhile isSpaceChar s;
          neg = (t \<noteq> [] \<and> hd t = CHR ''-'');
          u = (if t \<noteq> [] \<and> (hd t = CHR ''-'' \<or> hd t = CHR ''+'') then tl t else t);
          ds = takeWhile isDigit u;
          v = (if neg then - readNum 0 ds else readNum 0 ds)
      in if ds = [] then Inl (InvalidArgument ''stoll'')
         else if \<not> in_i64 v then Inl (OutOfRange ''stoll'')
         else Inr (v, length s - length u + length ds))"

definition stoll :: "string \<Rightarrow> int result" where
  "stoll s = bindR (stollAt s) (\<lambda>r. Inr (fst r))"

lemma dropWhile_digits: "list_all isDigit s \<Longrightarrow> dropWhile isSpaceChar s = s"
  by (cases s) (auto simp: isDigit_def isSpaceChar_def char_le_iff)

lemma showNum_list: "0 \<le> n \<Longrightarrow> list_all isDigit (showNum n)"
  by (auto simp: list_all_iff intro: showNum_digits [of n])

lemma takeWhile_digits: "list_all isDigit s \<Longrightarrow> takeWhile isDigit s = s"
  by (simp add: list_all_iff)

lemma digits_unsigned: "list_all isDigit s \<Longrightarrow> s \<noteq> [] \<Longrightarrow> hd s \<noteq> CHR ''-'' \<and> hd s \<noteq> CHR ''+''"
  by (cases s) (auto simp: isDigit_def)

lemma stoull_showU64 [simp]: "stoull (showU64 w) = Inr w"
proof -
  have dg: "list_all isDigit (showU64 w)" and ne: "showU64 w \<noteq> []"
    by (simp_all add: showU64_def showNum_list)
  have "readNum 0 (showU64 w) = uint w" by (simp add: showU64_def readNum_showNum)
  moreover have "uint w \<le> 18446744073709551615" using uint_bounded [of w] by simp
  ultimately show ?thesis
    using ne digits_unsigned [OF dg ne] by (simp add: stoull_def dropWhile_digits [OF dg] takeWhile_digits [OF dg] Let_def)
qed

lemma stollAt_showI64 [simp]: "in_i64 i \<Longrightarrow> stollAt (showI64 i) = Inr (i, length (showI64 i))"
proof (cases "i < 0")
  case True
  then have ds: "list_all isDigit (showNum (- i))" and "readNum 0 (showNum (- i)) = - i"
    by (simp_all add: showNum_list readNum_showNum)
  moreover assume "in_i64 i"
  ultimately show ?thesis
    using True digits_unsigned [OF ds] by (simp add: stollAt_def showI64_def isSpaceChar_def takeWhile_digits Let_def)
next
  case False
  then have ds: "list_all isDigit (showNum i)" and "readNum 0 (showNum i) = i"
    by (simp_all add: showNum_list readNum_showNum)
  moreover assume "in_i64 i"
  ultimately show ?thesis
    using False digits_unsigned [OF ds] by (simp add: stollAt_def showI64_def dropWhile_digits takeWhile_digits Let_def)
qed

lemma stoll_showI64 [simp]: "in_i64 i \<Longrightarrow> stoll (showI64 i) = Inr i"
  by (simp add: stoll_def del: bindR_Inr_iff)

subsection \<open>Searching\<close>

text \<open>\<open>std::string::find\<close>: the first position at which the pattern occurs.\<close>

fun findSub :: "string \<Rightarrow> string \<Rightarrow> nat option" where
  "findSub pat [] = (if pat = [] then Some 0 else None)"
| "findSub pat (c # s) = (if prefix pat (c # s) then Some 0 else map_option Suc (findSub pat s))"

text \<open>The text behind the first occurrence.\<close>

definition textAfter :: "string \<Rightarrow> string \<Rightarrow> string option" where
  "textAfter pat s = map_option (\<lambda>i. drop (i + length pat) s) (findSub pat s)"

lemma textAfter_Nil: "pat \<noteq> [] \<Longrightarrow> textAfter pat [] = None"
  by (simp add: textAfter_def)

lemma textAfter_here: "prefix pat s \<Longrightarrow> textAfter pat s = Some (drop (length pat) s)"
  by (cases s) (simp_all add: textAfter_def)

lemma textAfter_later: "\<not> prefix pat (c # s) \<Longrightarrow> textAfter pat (c # s) = textAfter pat s"
  by (simp add: textAfter_def option.map_comp comp_def)

lemma prefix_at_delim:
  assumes "c \<notin> set k" and "c \<notin> set p"
  shows "prefix (k @ c # t) (p @ c # rest) \<longleftrightarrow> k = p \<and> prefix t rest"
proof
  assume "prefix (k @ c # t) (p @ c # rest)"
  then obtain z where "k @ c # (t @ z) = p @ c # rest" by (auto simp: prefix_def)
  moreover have "list_all (\<lambda>x. x \<noteq> c) k" "list_all (\<lambda>x. x \<noteq> c) p"
    using assms by (auto simp: list_all_iff)
  ultimately have "k = p \<and> t @ z = rest" using delim_split [of "\<lambda>x. x \<noteq> c" k p c] by simp
  then show "k = p \<and> prefix t rest" by auto
qed (auto simp: prefix_def)

text \<open>A search for \<open>key\<close>, a delimiter and more, in a text cut at its first delimiter.\<close>

lemma textAfter_cut:
  assumes "c \<notin> set k" and "c \<notin> set p"
  shows "textAfter (k @ c # t) (p @ c # rest) =
     (if suffix k p \<and> prefix t rest then Some (drop (length t) rest)
      else textAfter (k @ c # t) rest)"
  using assms(2)
proof (induction p)
  case Nil
  have "prefix (k @ c # t) (c # rest) \<longleftrightarrow> k = [] \<and> prefix t rest"
    using prefix_at_delim [OF assms(1), of "[]"] by simp
  then show ?case by (auto simp: textAfter_here textAfter_later)
next
  case (Cons x p)
  have here: "prefix (k @ c # t) (x # p @ c # rest) \<longleftrightarrow> k = x # p \<and> prefix t rest"
    using prefix_at_delim [OF assms(1) Cons.prems] by simp
  show ?case
  proof (cases "k = x # p \<and> prefix t rest")
    case True
    then show ?thesis using here by (simp add: textAfter_here)
  next
    case False
    then have "textAfter (k @ c # t) ((x # p) @ c # rest) = textAfter (k @ c # t) (p @ c # rest)"
      using here by (simp add: textAfter_later)
    then show ?thesis using Cons False by (auto simp: suffix_Cons)
  qed
qed

lemma textAfter_none: "c \<notin> set s \<Longrightarrow> textAfter (k @ c # t) s = None"
proof (induction s)
  case Nil
  then show ?case by (simp add: textAfter_Nil)
next
  case (Cons x s)
  then have "\<not> prefix (k @ c # t) (x # s)" by (auto dest!: set_mono_prefix)
  then show ?case using Cons by (simp add: textAfter_later)
qed

text \<open>A key without the character in front of the piece's last field name ends at that name.\<close>

lemma suffix_field:
  assumes "d \<notin> set k"
  shows "suffix k (p @ d # name) \<longleftrightarrow> suffix k name"
proof
  assume "suffix k (p @ d # name)"
  then obtain z where z: "p @ d # name = z @ k" by (auto simp: suffix_def)
  show "suffix k name"
  proof (rule ccontr)
    assume "\<not> suffix k name"
    then have "length name < length k"
      using z by (metis append_assoc append_Cons append_Nil linorder_not_less suffix_length_suffix suffix_def suffix_appendI suffix_Cons suffix_order.refl)
    then have "suffix (d # name) k" using z
      by (metis Suc_leI length_Cons suffix_def suffix_length_suffix)
    then show False using assms by (auto simp: suffix_def)
  qed
next
  assume "suffix k name"
  then show "suffix k (p @ d # name)" by (simp add: suffix_Cons suffix_appendI)
qed

text \<open>Fields \<open>;name=value\<close> in a row, and what follows them.\<close>

fun tailText :: "string \<Rightarrow> (string \<times> string) list \<Rightarrow> string" where
  "tailText suf [] = suf"
| "tailText suf (kv # kvs) = CHR '';'' # fst kv @ CHR ''='' # snd kv @ tailText suf kvs"

definition uncut :: "(string \<times> string) list \<Rightarrow> bool" where
  "uncut kvs \<longleftrightarrow> (\<forall>kv\<in>set kvs. CHR ''='' \<notin> set (fst kv) \<and> CHR ''='' \<notin> set (snd kv))"

lemma uncut_Cons [simp]:
  "uncut (kv # kvs) \<longleftrightarrow> CHR ''='' \<notin> set (fst kv) \<and> CHR ''='' \<notin> set (snd kv) \<and> uncut kvs"
  by (auto simp: uncut_def)

lemma textAfter_fields:
  assumes "CHR ''='' \<notin> set k" and "CHR '';'' \<notin> set k" and "CHR ''='' \<notin> set p" and "uncut kvs"
    and "CHR ''='' \<notin> set suf"
  shows "textAfter (k @ ''='') (p @ tailText suf kvs) =
     (case dropWhile (\<lambda>kv. \<not> suffix k (fst kv)) kvs of
        [] \<Rightarrow> None | kv # rest \<Rightarrow> Some (snd kv @ tailText suf rest))"
  using assms(3,4)
proof (induction kvs arbitrary: p)
  case Nil
  then show ?case using textAfter_none [of "CHR ''=''" "p @ suf" k "[]"] assms(5) by simp
next
  case (Cons kv kvs)
  have "textAfter (k @ ''='') (p @ tailText suf (kv # kvs)) =
      textAfter (k @ [CHR ''='']) ((p @ CHR '';'' # fst kv) @ CHR ''='' # snd kv @ tailText suf kvs)" by simp
  also have "\<dots> = (if suffix k (fst kv) then Some (snd kv @ tailText suf kvs)
      else textAfter (k @ [CHR ''='']) (snd kv @ tailText suf kvs))"
    using textAfter_cut [OF assms(1), of "p @ CHR '';'' # fst kv" "[]"] Cons.prems assms(2)
    by (simp add: suffix_field)
  finally show ?case using Cons by simp
qed

text \<open>Fields none of whose names ends the search are skipped, up to the last value.\<close>

lemma textAfter_skip:
  assumes "CHR ''='' \<notin> set k" and "CHR ''='' \<notin> set p" and "uncut kvs"
    and "\<forall>kv\<in>set kvs. \<forall>x. \<not> suffix k (x @ CHR '';'' # fst kv)"
  shows "textAfter (k @ CHR ''='' # t) (p @ tailText suf kvs) =
     textAfter (k @ CHR ''='' # t) ((if kvs = [] then p else snd (last kvs)) @ suf)"
  using assms(2-4)
proof (induction kvs arbitrary: p)
  case (Cons kv kvs)
  have "textAfter (k @ CHR ''='' # t) (p @ tailText suf (kv # kvs)) =
      textAfter (k @ CHR ''='' # t) ((p @ CHR '';'' # fst kv) @ CHR ''='' # snd kv @ tailText suf kvs)" by simp
  also have "\<dots> = textAfter (k @ CHR ''='' # t) (snd kv @ tailText suf kvs)"
    using textAfter_cut [OF assms(1), of "p @ CHR '';'' # fst kv" t] Cons.prems by simp
  finally show ?case using Cons by simp
qed simp

lemma findSub_split:
  "textAfter pat s = Some r \<Longrightarrow> \<exists>n. findSub pat s = Some n \<and> s = take n s @ pat @ r"
proof (induction s)
  case Nil
  then show ?case by (auto simp: textAfter_def split: if_splits)
next
  case (Cons c s)
  show ?case
  proof (cases "prefix pat (c # s)")
    case True
    then show ?thesis using Cons.prems by (auto simp: textAfter_here prefix_def)
  next
    case False
    then obtain n where "findSub pat s = Some n" "s = take n s @ pat @ r"
      using Cons by (auto simp: textAfter_later)
    then show ?thesis using False by simp
  qed
qed

lemma findSub_None: "textAfter pat s = None \<longleftrightarrow> findSub pat s = None"
  by (simp add: textAfter_def)

end
