(* ===== verification/SignatureText.thy ===== *)
theory SignatureText
  imports TextParse
begin

section \<open>The text form of signature bundles\<close>

text \<open>
  The parsing half of \<open>src/crypto/SignatureBundle.cpp\<close>: splitting at separators outside braces,
  field maps, and the parsers of public keys, signatures and bundles, each of which compares the
  printed result with its input. The printing half is in \<open>CryptoIds\<close>. The lemmas show that the
  printed form of every bundle whose keys have a fixed hexadecimal size is parsed back.
\<close>

subsection \<open>Splitting\<close>

definition depthAfter :: "int \<Rightarrow> char \<Rightarrow> int" where
  "depthAfter depth c = (if c = CHR ''{'' then depth + 1 else if c = CHR ''}'' then depth - 1 else depth)"

text \<open>The loop, with the current depth and the characters since \<open>start\<close>.\<close>

fun splitFrom :: "char \<Rightarrow> int \<Rightarrow> string \<Rightarrow> string \<Rightarrow> string list result" where
  "splitFrom sep depth cur [] =
     (if depth \<noteq> 0 then Inl (InvalidArgument ''Unbalanced braces in SignatureBundle body.'')
      else Inr (if cur = [] then [] else [cur]))"
| "splitFrom sep depth cur (c # s) =
     (let depth' = depthAfter depth c
      in if depth' < 0 then Inl (InvalidArgument ''Unbalanced braces in SignatureBundle.'')
         else if depth' = 0 \<and> c = sep
         then if cur = [] then Inl (InvalidArgument ''Empty field in SignatureBundle.'')
              else bindR (splitFrom sep depth' [] s) (\<lambda>parts. Inr (cur # parts))
         else splitFrom sep depth' (cur @ [c]) s)"

definition splitAtDepthZero :: "string \<Rightarrow> char \<Rightarrow> string list result" where
  "splitAtDepthZero body sep = splitFrom sep 0 [] body"

definition extractBody :: "string \<Rightarrow> string \<Rightarrow> string result" where
  "extractBody serialized typeName =
     (let pre = typeName @ ''{''
      in if length serialized \<le> length pre \<or> take (length pre) serialized \<noteq> pre \<or>
            last serialized \<noteq> CHR ''}''
         then Inl (InvalidArgument (''Serialized data is not a '' @ typeName @ ''.''))
         else Inr (take (length serialized - length pre - 1) (drop (length pre) serialized)))"

subsection \<open>Field maps\<close>

fun addFields :: "(string, string) smap \<Rightarrow> string list \<Rightarrow> (string, string) smap result" where
  "addFields kvs [] = Inr kvs"
| "addFields kvs (token # tokens) =
     (if token = [] then addFields kvs tokens
      else let key = takeWhile (\<lambda>c. c \<noteq> CHR ''='') token
           in if length key = length token \<or> key = []
              then Inl (InvalidArgument (''Malformed field: '' @ token))
              else case mapEmplace key (drop (length key + 1) token) kvs of
                     (False, _) \<Rightarrow> Inl (InvalidArgument (''Duplicate field: '' @ key))
                   | (True, kvs') \<Rightarrow> addFields kvs' tokens)"

definition parseFields :: "string \<Rightarrow> (string, string) smap result" where
  "parseFields body = bindR (splitAtDepthZero body (CHR '';'')) (addFields [])"

definition requireField :: "(string, string) smap \<Rightarrow> string \<Rightarrow> string result" where
  "requireField kvs key =
     (case map_of kvs key of None \<Rightarrow> Inl (InvalidArgument (''Missing field: '' @ key)) | Some v \<Rightarrow> Inr v)"

definition parseI64 :: "string \<Rightarrow> int result" where
  "parseI64 value =
     (if value = [] then Inl (InvalidArgument ''Empty integer field.'')
      else bindR (stollAt value) (\<lambda>r.
        if snd r \<noteq> length value
        then Inl (InvalidArgument (''Non-numeric integer field: '' @ value)) else Inr (fst r)))"

subsection \<open>Keys, signatures, bundles\<close>

definition parsePublicKey :: "string \<Rightarrow> PublicKey result" where
  "parsePublicKey serialized =
     bindR (extractBody serialized ''PublicKey'') (\<lambda>body.
     bindR (parseFields body) (\<lambda>kvs.
     if length kvs \<noteq> 2 then Inl (InvalidArgument ''PublicKey contains unexpected fields.'')
     else bindR (bindR (requireField kvs ''algorithm'') cryptoAlgorithmFromString) (\<lambda>algorithm.
     bindR (requireField kvs ''keyMaterial'') (\<lambda>material.
     let pk = \<lparr>pkAlgorithm = algorithm, keyMaterial = material\<rparr>
     in if \<not> publicKeyValid pk \<or> publicKeySerialize pk \<noteq> serialized
        then Inl (InvalidArgument ''PublicKey is invalid or non-canonical.'') else Inr pk))))"

definition parseSignatureChunk :: "string \<Rightarrow> Signature result" where
  "parseSignatureChunk chunk =
     bindR (extractBody chunk ''Signature'') (\<lambda>body.
     bindR (parseFields body) (\<lambda>kvs.
     if length kvs \<noteq> 6 then Inl (InvalidArgument ''Signature contains unexpected fields.'')
     else bindR (bindR (requireField kvs ''algorithm'') cryptoAlgorithmFromString) (\<lambda>algorithm.
     bindR (requireField kvs ''suite'') (\<lambda>suite.
     bindR (requireField kvs ''domain'') (\<lambda>dom.
     if signingDomainFromString dom = Domain_UNKNOWN
     then Inl (InvalidArgument ''Unknown SigningDomain in Signature.'')
     else bindR (bindR (requireField kvs ''publicKey'') parsePublicKey) (\<lambda>pk.
     if algorithm \<noteq> pkAlgorithm pk
     then Inl (InvalidArgument ''Signature algorithm does not match embedded public key.'')
     else bindR (requireField kvs ''signatureHex'') (\<lambda>hex.
     bindR (bindR (requireField kvs ''createdAt'') parseI64) (\<lambda>createdAt.
     let sig = \<lparr>sigSuite = cryptoSuiteIdFromString suite, sigDomain = signingDomainFromString dom,
                sigAlgorithm = algorithm, sigPublicKey = pk, signatureHex = hex,
                sigCreatedAt = createdAt\<rparr>
     in if \<not> signatureValid sig \<or> signatureSerialize sig \<noteq> chunk
        then Inl (InvalidArgument ''Signature is invalid or non-canonical.'') else Inr sig))))))))"

fun addChunks :: "SignatureBundle \<Rightarrow> string list \<Rightarrow> SignatureBundle result" where
  "addChunks bundle [] = Inr bundle"
| "addChunks bundle (chunk # chunks) =
     bindR (bindR (parseSignatureChunk chunk) (\<lambda>sig. addSignature sig bundle)) (\<lambda>bundle'.
     addChunks bundle' chunks)"

definition bundleDeserialize :: "string \<Rightarrow> SignatureBundle result" where
  "bundleDeserialize serialized =
     bindR (extractBody serialized ''SignatureBundle'') (\<lambda>body.
     if body = [] then Inl (InvalidArgument ''SignatureBundle body is empty.'')
     else bindR (bindR (splitAtDepthZero body (CHR '';'')) (addChunks [])) (\<lambda>bundle.
     if bundleSerialize bundle \<noteq> serialized
     then Inl (InvalidArgument ''SignatureBundle is non-canonical after deserialization.'')
     else Inr bundle))"

subsection \<open>Splitting what was joined\<close>

text \<open>
  The depth after a text that the loop passes without finding a separator outside braces.
\<close>

fun passes :: "char \<Rightarrow> int \<Rightarrow> string \<Rightarrow> int option" where
  "passes sep depth [] = Some depth"
| "passes sep depth (c # s) =
     (let depth' = depthAfter depth c
      in if depth' < 0 \<or> (depth' = 0 \<and> c = sep) then None else passes sep depth' s)"

lemma passes_append: "passes sep d (s @ t) = Option.bind (passes sep d s) (\<lambda>d'. passes sep d' t)"
  by (induction s arbitrary: d) (auto simp: Let_def)

lemma splitFrom_passes:
  "passes sep d s = Some d' \<Longrightarrow> splitFrom sep d cur (s @ t) = splitFrom sep d' (cur @ s) t"
  by (induction s arbitrary: d cur) (auto simp: Let_def split: if_splits)

definition noBraces :: "char \<Rightarrow> bool" where
  "noBraces c \<longleftrightarrow> c \<noteq> CHR ''{'' \<and> c \<noteq> CHR ''}''"

lemma passes_inside: "list_all noBraces s \<Longrightarrow> 0 < d \<Longrightarrow> passes sep d s = Some d"
  by (induction s) (auto simp: noBraces_def depthAfter_def)

lemma passes_plain: "list_all (\<lambda>c. noBraces c \<and> c \<noteq> sep) s \<Longrightarrow> 0 \<le> d \<Longrightarrow> passes sep d s = Some d"
  by (induction s) (auto simp: noBraces_def depthAfter_def)

declare passes.simps [simp del]

lemma splitAtDepthZero_join:
  assumes "\<forall>p\<in>set parts. p \<noteq> [] \<and> passes (CHR '';'') 0 p = Some 0"
  shows "splitAtDepthZero (joinWith '';'' parts) (CHR '';'') = Inr parts"
  using assms unfolding splitAtDepthZero_def
proof (induction "'';''" parts rule: joinWith.induct)
  case (2 x)
  then show ?case using splitFrom_passes [of "CHR '';''" 0 x 0 "[]" "[]"] by simp
next
  case (3 x y xs)
  then show ?case using splitFrom_passes [of "CHR '';''" 0 x 0 "[]"] by (simp add: depthAfter_def)
qed simp

lemma extractBody_braces [simp]: "body \<noteq> [] \<Longrightarrow> extractBody (name @ CHR ''{'' # body @ ''}'') name = Inr body"
  by (simp add: extractBody_def)

abbreviation field :: "string \<times> string \<Rightarrow> string" where
  "field kv \<equiv> fst kv @ CHR ''='' # snd kv"

lemma takeWhile_key: "CHR ''='' \<notin> set k \<Longrightarrow> takeWhile (\<lambda>c. c \<noteq> CHR ''='') (k @ CHR ''='' # v) = k"
  by (simp add: takeWhile_append)

lemma addFields_pairs:
  assumes "distinct (map fst kvs)"
    and "\<forall>kv\<in>set kvs. fst kv \<noteq> [] \<and> CHR ''='' \<notin> set (fst kv) \<and> map_of m (fst kv) = None"
  shows "\<exists>m'. addFields m (map field kvs) = Inr m' \<and> length m' = length m + length kvs \<and>
              map_of m' = map_of m ++ map_of kvs"
  using assms
proof (induction kvs arbitrary: m)
  case (Cons kv kvs)
  let ?m = "mapPut (fst kv) (snd kv) m"
  have new: "map_of m (fst kv) = None" using Cons.prems by simp
  have "fst kv' \<noteq> fst kv" if "kv' \<in> set kvs" for kv'
    using Cons.prems(1) that by (metis distinct.simps(2) image_eqI list.set_map list.simps(9))
  then have "\<forall>kv'\<in>set kvs. fst kv' \<noteq> [] \<and> CHR ''='' \<notin> set (fst kv') \<and> map_of ?m (fst kv') = None"
    using Cons.prems(2) by simp
  then have "\<exists>m'. addFields ?m (map field kvs) = Inr m' \<and> length m' = length ?m + length kvs \<and>
      map_of m' = map_of ?m ++ map_of kvs"
    using Cons.prems(1) by (intro Cons.IH) simp_all
  then obtain m' where m': "addFields ?m (map field kvs) = Inr m'"
    "length m' = length ?m + length kvs" "map_of m' = map_of ?m ++ map_of kvs" by blast
  have "addFields m (map field (kv # kvs)) = addFields ?m (map field kvs)"
    using Cons.prems new by (simp add: takeWhile_key mapEmplace_new)
  moreover have "map_of ?m ++ map_of kvs = map_of m ++ map_of (kv # kvs)"
    using Cons.prems(1) by (cases kv) (simp add: map_add_upd_left dom_map_of_conv_image_fst)
  ultimately have "addFields m (map field (kv # kvs)) = Inr m'" "map_of m' = map_of m ++ map_of (kv # kvs)"
    by (simp_all only: m')
  moreover have "length m' = length m + length (kv # kvs)" using m'(2) new by (simp add: length_mapPut_new)
  ultimately show ?case by blast
qed simp

lemma parseFields_join:
  assumes "distinct (map fst kvs)"
    and "\<forall>kv\<in>set kvs. fst kv \<noteq> [] \<and> CHR ''='' \<notin> set (fst kv) \<and> passes (CHR '';'') 0 (field kv) = Some 0"
  shows "\<exists>m. parseFields (joinWith '';'' (map field kvs)) = Inr m \<and> length m = length kvs \<and>
             map_of m = map_of kvs"
proof -
  have "splitAtDepthZero (joinWith '';'' (map field kvs)) (CHR '';'') = Inr (map field kvs)"
    using assms(2) by (intro splitAtDepthZero_join) auto
  then show ?thesis
    using addFields_pairs [OF assms(1), of "[]"] assms(2) by (simp add: parseFields_def del: bindR_Inr_iff)
qed

subsection \<open>Round trip\<close>

definition plainText :: "string \<Rightarrow> bool" where
  "plainText s \<longleftrightarrow> list_all (\<lambda>c. noBraces c \<and> c \<noteq> CHR '';'') s"

lemma plainText_passes: "plainText s \<Longrightarrow> passes (CHR '';'') 0 s = Some 0"
  by (simp add: plainText_def passes_plain)

lemma plainText_append [simp]: "plainText (s @ t) \<longleftrightarrow> plainText s \<and> plainText t"
  by (simp add: plainText_def)

lemma plainText_Cons [simp]: "plainText (c # s) \<longleftrightarrow> noBraces c \<and> c \<noteq> CHR '';'' \<and> plainText s"
  by (simp add: plainText_def)

lemma plainText_Nil [simp]: "plainText []"
  by (simp add: plainText_def)

lemma algorithm_plain [simp]: "plainText (cryptoAlgorithmToString a)"
  by (cases a) (simp_all add: noBraces_def)

lemma algorithm_read [simp]: "cryptoAlgorithmFromString (cryptoAlgorithmToString a) = Inr a"
  by (cases a) (simp_all add: cryptoAlgorithmFromString_def)

text \<open>A list of fields with known, distinct names, whose texts do not disturb the splitting.\<close>

definition readable :: "(string \<times> string) list \<Rightarrow> bool" where
  "readable kvs \<longleftrightarrow> kvs \<noteq> [] \<and> distinct (map fst kvs) \<and>
     (\<forall>kv\<in>set kvs. fst kv \<noteq> [] \<and> CHR ''='' \<notin> set (fst kv) \<and> passes (CHR '';'') 0 (field kv) = Some 0)"

lemma readable_fields:
  assumes "readable kvs"
  shows "\<exists>m. bindR (extractBody (name @ ''{'' @ joinWith '';'' (map field kvs) @ ''}'') name) parseFields = Inr m \<and>
             length m = length kvs \<and> map_of m = map_of kvs"
proof -
  have "joinWith '';'' (map field kvs) \<noteq> []"
    using assms by (cases kvs rule: remdups_adj.cases) (auto simp: readable_def)
  then show ?thesis
    using parseFields_join [of kvs] assms by (simp add: readable_def del: bindR_Inr_iff)
qed

definition keyFields :: "PublicKey \<Rightarrow> (string \<times> string) list" where
  "keyFields pk = [(''algorithm'', cryptoAlgorithmToString (pkAlgorithm pk)), (''keyMaterial'', keyMaterial pk)]"

lemma publicKey_text: "publicKeySerialize pk = ''PublicKey'' @ ''{'' @ joinWith '';'' (map field (keyFields pk)) @ ''}''"
  by (simp add: publicKeySerialize_def keyFields_def)

lemma keyFields_readable: "plainText (keyMaterial pk) \<Longrightarrow> readable (keyFields pk)"
  unfolding readable_def keyFields_def by (intro conjI ballI plainText_passes) (auto simp: noBraces_def)

lemma bindR_assoc: "bindR (bindR r f) g = bindR r (\<lambda>x. bindR (f x) g)"
  by (cases r) simp_all

lemma publicKey_eta: "\<lparr>pkAlgorithm = pkAlgorithm pk, keyMaterial = keyMaterial pk\<rparr> = pk"
  by (cases pk) simp

lemma parsePublicKey_serialize:
  assumes "publicKeyValid pk" and "plainText (keyMaterial pk)"
  shows "parsePublicKey (publicKeySerialize pk) = Inr pk"
proof -
  have "\<exists>m. bindR (extractBody (publicKeySerialize pk) ''PublicKey'') parseFields = Inr m \<and>
      length m = length (keyFields pk) \<and> map_of m = map_of (keyFields pk)"
    unfolding publicKey_text by (rule readable_fields [OF keyFields_readable [OF assms(2)]])
  then obtain m body where "extractBody (publicKeySerialize pk) ''PublicKey'' = Inr body" "parseFields body = Inr m"
    and m: "length m = length (keyFields pk)" "map_of m = map_of (keyFields pk)" by auto
  with m assms(1) show ?thesis
    by (simp add: parsePublicKey_def requireField_def keyFields_def publicKey_eta Let_def del: bindR_Inr_iff)
qed

lemma publicKey_passes:
  assumes "plainText (keyMaterial pk)"
  shows "passes (CHR '';'') 0 (publicKeySerialize pk) = Some 0"
proof -
  let ?in = "''algorithm='' @ cryptoAlgorithmToString (pkAlgorithm pk) @ '';keyMaterial='' @ keyMaterial pk"
  have "passes (CHR '';'') 0 ''PublicKey{'' = Some 1" by (simp add: passes.simps depthAfter_def)
  moreover have "list_all noBraces ?in"
    using assms algorithm_plain [of "pkAlgorithm pk"] by (auto simp: plainText_def noBraces_def list_all_iff)
  then have "passes (CHR '';'') 1 ?in = Some 1" by (simp only: passes_inside zero_less_one)
  moreover have "passes (CHR '';'') 1 ''}'' = Some 0" by (simp add: passes.simps depthAfter_def)
  moreover have "publicKeySerialize pk = ''PublicKey{'' @ ?in @ ''}''" by (simp add: publicKeySerialize_def)
  ultimately show ?thesis by (simp only: passes_append Option.bind.simps)
qed

definition signatureFields :: "Signature \<Rightarrow> (string \<times> string) list" where
  "signatureFields s =
     [(''suite'', cryptoSuiteIdToString (sigSuite s)), (''domain'', signingDomainToString (sigDomain s)),
      (''algorithm'', cryptoAlgorithmToString (sigAlgorithm s)),
      (''publicKey'', publicKeySerialize (sigPublicKey s)), (''signatureHex'', signatureHex s),
      (''createdAt'', showI64 (sigCreatedAt s))]"

lemma signature_text: "signatureSerialize s = ''Signature'' @ ''{'' @ joinWith '';'' (map field (signatureFields s)) @ ''}''"
  by (simp add: signatureSerialize_def signatureFields_def)

lemma suite_plain [simp]: "plainText (cryptoSuiteIdToString a)"
  by (cases a) (simp_all add: noBraces_def)

lemma domain_plain [simp]: "plainText (signingDomainToString a)"
  by (cases a) (simp_all add: noBraces_def)

lemma digits_plain: "list_all isDigit s \<Longrightarrow> plainText s"
  by (auto simp: plainText_def list_all_iff isDigit_def noBraces_def)

lemma showI64_plain [simp]: "plainText (showI64 i)"
  by (auto simp: showI64_def noBraces_def intro!: digits_plain showNum_list)

lemma hex_plain: "list_all isHexDigit s \<Longrightarrow> plainText s"
  by (auto simp: plainText_def list_all_iff isHexDigit_def noBraces_def)

text \<open>What the parser can read back: a valid signature by a key of a fixed hexadecimal size.\<close>

definition textSignature :: "Signature \<Rightarrow> bool" where
  "textSignature s \<longleftrightarrow> signatureValid s \<and> plainText (keyMaterial (sigPublicKey s)) \<and> in_i64 (sigCreatedAt s)"

lemma signatureFields_readable:
  assumes "textSignature s"
  shows "readable (signatureFields s)"
proof -
  have "passes (CHR '';'') 0 (''publicKey'' @ CHR ''='' # publicKeySerialize (sigPublicKey s)) = Some 0"
  proof -
    have "plainText ''publicKey=''" by (simp add: noBraces_def)
    then have "passes (CHR '';'') 0 (''publicKey='' @ publicKeySerialize (sigPublicKey s)) = Some 0"
      using assms publicKey_passes unfolding passes_append textSignature_def by (simp only: plainText_passes Option.bind.simps)
    then show ?thesis by simp
  qed
  moreover have "plainText (signatureHex s)"
    using assms by (auto simp: textSignature_def signatureValid_def isSafeSignatureHex_def intro: hex_plain)
  ultimately show ?thesis
    unfolding readable_def signatureFields_def by (simp add: plainText_passes noBraces_def)
qed

lemma suite_read: "isSupportedCryptoSuite a \<Longrightarrow> cryptoSuiteIdFromString (cryptoSuiteIdToString a) = a"
  by (cases a) (simp_all add: cryptoSuiteIdFromString_def isSupportedCryptoSuite_def)

lemma domain_read: "signingDomainFromString (signingDomainToString d) = d"
  by (cases d) (simp_all add: signingDomainFromString_def)

lemma showI64_not_Nil [simp]: "showI64 i \<noteq> []"
  by (simp add: showI64_def)

lemma parseI64_show [simp]: "in_i64 i \<Longrightarrow> parseI64 (showI64 i) = Inr i"
  by (simp add: parseI64_def del: bindR_Inr_iff)

lemma signature_eta:
  "sigAlgorithm s = a \<Longrightarrow>
   \<lparr>sigSuite = sigSuite s, sigDomain = sigDomain s, sigAlgorithm = a,
    sigPublicKey = sigPublicKey s, signatureHex = signatureHex s, sigCreatedAt = sigCreatedAt s\<rparr> = s"
  by (cases s) simp

lemma parseSignatureChunk_serialize:
  assumes "textSignature s"
  shows "parseSignatureChunk (signatureSerialize s) = Inr s"
proof -
  have "\<exists>m. bindR (extractBody (signatureSerialize s) ''Signature'') parseFields = Inr m \<and>
      length m = length (signatureFields s) \<and> map_of m = map_of (signatureFields s)"
    unfolding signature_text by (rule readable_fields [OF signatureFields_readable [OF assms]])
  then obtain m body where "extractBody (signatureSerialize s) ''Signature'' = Inr body" "parseFields body = Inr m"
    and m: "length m = length (signatureFields s)" "map_of m = map_of (signatureFields s)" by auto
  moreover have "map_of m = map_of (signatureFields s) \<Longrightarrow>
      requireField m ''algorithm'' = Inr (cryptoAlgorithmToString (sigAlgorithm s)) \<and>
      requireField m ''suite'' = Inr (cryptoSuiteIdToString (sigSuite s)) \<and>
      requireField m ''domain'' = Inr (signingDomainToString (sigDomain s)) \<and>
      requireField m ''publicKey'' = Inr (publicKeySerialize (sigPublicKey s)) \<and>
      requireField m ''signatureHex'' = Inr (signatureHex s) \<and>
      requireField m ''createdAt'' = Inr (showI64 (sigCreatedAt s))"
    by (simp add: requireField_def signatureFields_def)
  moreover have "length (signatureFields s) = 6" by (simp add: signatureFields_def)
  moreover have "parsePublicKey (publicKeySerialize (sigPublicKey s)) = Inr (sigPublicKey s)"
    using assms by (auto simp: textSignature_def signatureValid_def intro: parsePublicKey_serialize)
  ultimately show ?thesis
    using assms
    by (simp add: parseSignatureChunk_def textSignature_def signatureValid_def suite_read domain_read
        signature_eta Let_def del: bindR_Inr_iff)
qed

lemma signature_passes:
  assumes "textSignature s"
  shows "passes (CHR '';'') 0 (signatureSerialize s) = Some 0"
proof -
  let ?a = "''suite='' @ cryptoSuiteIdToString (sigSuite s) @ '';domain='' @ signingDomainToString (sigDomain s)
     @ '';algorithm='' @ cryptoAlgorithmToString (sigAlgorithm s) @ '';publicKey=PublicKey''"
  let ?b = "''algorithm='' @ cryptoAlgorithmToString (pkAlgorithm (sigPublicKey s)) @ '';keyMaterial=''
     @ keyMaterial (sigPublicKey s)"
  let ?c = "'';signatureHex='' @ signatureHex s @ '';createdAt='' @ showI64 (sigCreatedAt s)"
  have plain: "plainText x \<Longrightarrow> list_all noBraces x" for x by (auto simp: plainText_def list_all_iff)
  have "plainText (signatureHex s)"
    using assms by (auto simp: textSignature_def signatureValid_def isSafeSignatureHex_def intro: hex_plain)
  then have "list_all noBraces ?a" "list_all noBraces ?b" "list_all noBraces ?c"
    using assms by (simp_all add: plain textSignature_def) (simp_all add: noBraces_def)
  then have "passes (CHR '';'') 1 ?a = Some 1" "passes (CHR '';'') 2 ?b = Some 2" "passes (CHR '';'') 1 ?c = Some 1"
    by (simp_all only: passes_inside zero_less_one zero_less_numeral)
  moreover have "passes (CHR '';'') 0 ''Signature{'' = Some 1" "passes (CHR '';'') 1 ''{'' = Some 2"
    "passes (CHR '';'') 2 ''}'' = Some 1" "passes (CHR '';'') 1 ''}'' = Some 0"
    by (simp_all add: passes.simps depthAfter_def)
  moreover have "signatureSerialize s = ''Signature{'' @ ?a @ ''{'' @ ?b @ ''}'' @ ?c @ ''}''"
    by (simp add: signatureSerialize_def publicKeySerialize_def)
  ultimately show ?thesis by (simp only: passes_append Option.bind.simps)
qed

lemma signature_not_Nil [simp]: "signatureSerialize s \<noteq> []"
  by (simp add: signatureSerialize_def)

lemma addChunks_serialize:
  assumes "\<forall>s\<in>set b. textSignature s" and "distinct (map sigAlgorithm (b0 @ b))"
  shows "addChunks b0 (map signatureSerialize b) = Inr (b0 @ b)"
  using assms
proof (induction b arbitrary: b0)
  case (Cons s b)
  then have "addSignature s b0 = Inr (b0 @ [s])"
    by (auto simp: addSignature_def textSignature_def list_ex_iff image_iff)
  then show ?case
    using Cons by (simp add: parseSignatureChunk_serialize del: bindR_Inr_iff)
qed simp

definition textBundle :: "SignatureBundle \<Rightarrow> bool" where
  "textBundle b \<longleftrightarrow> b \<noteq> [] \<and> list_all textSignature b \<and> distinct (map sigAlgorithm b)"

lemma bundle_roundtrip:
  assumes "textBundle b"
  shows "bundleDeserialize (bundleSerialize b) = Inr b"
proof -
  let ?parts = "map signatureSerialize b"
  have parts: "\<forall>p\<in>set ?parts. p \<noteq> [] \<and> passes (CHR '';'') 0 p = Some 0"
    using assms by (auto simp: textBundle_def list_all_iff signature_passes)
  moreover have "joinWith '';'' ?parts \<noteq> []"
    using assms parts by (cases ?parts rule: remdups_adj.cases) (auto simp: textBundle_def)
  moreover have "addChunks [] ?parts = Inr b"
    using assms addChunks_serialize [of b "[]"] by (simp add: textBundle_def list_all_iff)
  ultimately show ?thesis
    using extractBody_braces [of "joinWith '';'' ?parts" "''SignatureBundle''"]
    by (simp add: bundleDeserialize_def bundleSerialize_def splitAtDepthZero_join del: bindR_Inr_iff)
qed

end
