(* ===== verification/Transactions.thy ===== *)
theory Transactions
  imports SignatureText Amounts
begin

section \<open>Transactions and their type policies\<close>

text \<open>
  \<open>src/core/TransactionTypePolicy.cpp\<close> and \<open>src/core/Transaction.cpp\<close>: the table that says for
  each of the thirteen transaction types which handler runs, what is debited and credited and
  whether a payload is allowed; transactions with their signing payload, identifier, chain
  binding and signature bundle; the structural and the authorization checks; and the text form
  with its strict parser.

  The lemmas show the text form of every well-formed transaction is read back unchanged
  (unless a coin lot identifier contains an equal sign), that a transaction that parses is in
  canonical form, and what a successful authorization check means.
\<close>

subsection \<open>Types and policies\<close>

datatype TransactionType =
    TRANSFER | VALIDATOR_REGISTER | BURN | STAKE_DEPOSIT | STAKE_UNLOCK | STAKE_WITHDRAW
  | STAKE_TOP_UP | VALIDATOR_EXIT_REQUEST | VALIDATOR_UNJAIL_REQUEST | VALIDATOR_KEY_ROTATE
  | GOVERNANCE_PROPOSE | Tx_GOVERNANCE_VOTE | GOVERNANCE_EXECUTE

datatype TransactionHandler =
    Handle_TRANSFER | Handle_BURN | Handle_STAKE_DEPOSIT | Handle_STAKE_UNLOCK
  | Handle_STAKE_WITHDRAW | Handle_STAKE_TOP_UP | Handle_VALIDATOR_REGISTER
  | Handle_VALIDATOR_EXIT_REQUEST | Handle_VALIDATOR_UNJAIL_REQUEST
  | Handle_VALIDATOR_KEY_ROTATE | Handle_GOVERNANCE_PROPOSE | Handle_GOVERNANCE_VOTE
  | Handle_GOVERNANCE_EXECUTE

datatype TransactionAmountRule = Amount_ZERO | Amount_POSITIVE

datatype TransactionDebitRule = FEE_ONLY | AMOUNT_PLUS_FEE

datatype TransactionCreditRule = Credit_NONE | TARGET_AMOUNT | SENDER_AMOUNT

record TransactionTypePolicy =
  polType :: TransactionType
  polName :: string
  polHandler :: TransactionHandler
  amountRule :: TransactionAmountRule
  debitRule :: TransactionDebitRule
  creditRule :: TransactionCreditRule
  payloadRequired :: bool
  payloadAllowed :: bool
  polTouched :: "string list"

abbreviation policyRow ::
    "TransactionType \<Rightarrow> string \<Rightarrow> TransactionHandler \<Rightarrow> TransactionAmountRule \<Rightarrow> TransactionDebitRule
       \<Rightarrow> TransactionCreditRule \<Rightarrow> bool \<Rightarrow> bool \<Rightarrow> string list \<Rightarrow> TransactionTypePolicy" where
  "policyRow t n h a d c req allowed touched \<equiv>
     \<lparr>polType = t, polName = n, polHandler = h, amountRule = a, debitRule = d, creditRule = c,
      payloadRequired = req, payloadAllowed = allowed, polTouched = touched\<rparr>"

definition policies :: "TransactionTypePolicy list" where
  "policies =
    [policyRow TRANSFER ''TRANSFER'' Handle_TRANSFER Amount_POSITIVE AMOUNT_PLUS_FEE TARGET_AMOUNT
       False False [''accounts''],
     policyRow BURN ''BURN'' Handle_BURN Amount_POSITIVE AMOUNT_PLUS_FEE Credit_NONE
       False False [''accounts'', ''supply'', ''burns''],
     policyRow STAKE_DEPOSIT ''STAKE_DEPOSIT'' Handle_STAKE_DEPOSIT Amount_POSITIVE AMOUNT_PLUS_FEE
       Credit_NONE False False [''accounts'', ''staking'', ''validators''],
     policyRow STAKE_UNLOCK ''STAKE_UNLOCK'' Handle_STAKE_UNLOCK Amount_POSITIVE FEE_ONLY Credit_NONE
       False False [''accounts'', ''staking'', ''validators''],
     policyRow STAKE_WITHDRAW ''STAKE_WITHDRAW'' Handle_STAKE_WITHDRAW Amount_POSITIVE FEE_ONLY
       SENDER_AMOUNT False False [''accounts'', ''staking''],
     policyRow STAKE_TOP_UP ''STAKE_TOP_UP'' Handle_STAKE_TOP_UP Amount_POSITIVE AMOUNT_PLUS_FEE
       Credit_NONE False False [''accounts'', ''staking'', ''validators''],
     policyRow VALIDATOR_REGISTER ''VALIDATOR_REGISTER'' Handle_VALIDATOR_REGISTER Amount_POSITIVE
       AMOUNT_PLUS_FEE Credit_NONE True True [''accounts'', ''staking'', ''validators''],
     policyRow VALIDATOR_EXIT_REQUEST ''VALIDATOR_EXIT_REQUEST'' Handle_VALIDATOR_EXIT_REQUEST
       Amount_ZERO FEE_ONLY Credit_NONE False False [''accounts'', ''staking'', ''validators''],
     policyRow VALIDATOR_UNJAIL_REQUEST ''VALIDATOR_UNJAIL_REQUEST'' Handle_VALIDATOR_UNJAIL_REQUEST
       Amount_ZERO FEE_ONLY Credit_NONE False False [''accounts'', ''staking'', ''validators''],
     policyRow VALIDATOR_KEY_ROTATE ''VALIDATOR_KEY_ROTATE'' Handle_VALIDATOR_KEY_ROTATE
       Amount_ZERO FEE_ONLY Credit_NONE True True [''accounts'', ''staking'', ''validators''],
     policyRow GOVERNANCE_PROPOSE ''GOVERNANCE_PROPOSE'' Handle_GOVERNANCE_PROPOSE
       Amount_ZERO FEE_ONLY Credit_NONE True True [''accounts'', ''governance''],
     policyRow Tx_GOVERNANCE_VOTE ''GOVERNANCE_VOTE'' Handle_GOVERNANCE_VOTE
       Amount_ZERO FEE_ONLY Credit_NONE True True [''accounts'', ''governance'', ''validators'', ''staking''],
     policyRow GOVERNANCE_EXECUTE ''GOVERNANCE_EXECUTE'' Handle_GOVERNANCE_EXECUTE
       Amount_ZERO FEE_ONLY Credit_NONE False False [''accounts'', ''governance'']]"

definition allTypes :: "TransactionType list" where
  "allTypes = map polType policies"

definition policyFor :: "TransactionType \<Rightarrow> TransactionTypePolicy result" where
  "policyFor t =
     (case find (\<lambda>p. polType p = t) policies of
        Some p \<Rightarrow> Inr p
      | None \<Rightarrow> Inl (InvalidArgument ''TransactionType has no registered policy.''))"

definition hasPolicy :: "TransactionType \<Rightarrow> bool" where
  "hasPolicy t \<longleftrightarrow> list_ex (\<lambda>p. polType p = t) policies"

definition isMempoolType :: "TransactionType \<Rightarrow> bool" where
  "isMempoolType t = hasPolicy t"

fun transactionTypeToString :: "TransactionType \<Rightarrow> string" where
  "transactionTypeToString TRANSFER = ''TRANSFER''"
| "transactionTypeToString VALIDATOR_REGISTER = ''VALIDATOR_REGISTER''"
| "transactionTypeToString BURN = ''BURN''"
| "transactionTypeToString STAKE_DEPOSIT = ''STAKE_DEPOSIT''"
| "transactionTypeToString STAKE_UNLOCK = ''STAKE_UNLOCK''"
| "transactionTypeToString STAKE_WITHDRAW = ''STAKE_WITHDRAW''"
| "transactionTypeToString STAKE_TOP_UP = ''STAKE_TOP_UP''"
| "transactionTypeToString VALIDATOR_EXIT_REQUEST = ''VALIDATOR_EXIT_REQUEST''"
| "transactionTypeToString VALIDATOR_UNJAIL_REQUEST = ''VALIDATOR_UNJAIL_REQUEST''"
| "transactionTypeToString VALIDATOR_KEY_ROTATE = ''VALIDATOR_KEY_ROTATE''"
| "transactionTypeToString GOVERNANCE_PROPOSE = ''GOVERNANCE_PROPOSE''"
| "transactionTypeToString Tx_GOVERNANCE_VOTE = ''GOVERNANCE_VOTE''"
| "transactionTypeToString GOVERNANCE_EXECUTE = ''GOVERNANCE_EXECUTE''"

definition transactionTypeFromString :: "string \<Rightarrow> TransactionType result" where
  "transactionTypeFromString v =
     (if v = ''TRANSFER'' then Inr TRANSFER
      else if v = ''VALIDATOR_REGISTER'' then Inr VALIDATOR_REGISTER
      else if v = ''BURN'' then Inr BURN
      else if v = ''STAKE_DEPOSIT'' then Inr STAKE_DEPOSIT
      else if v = ''STAKE_UNLOCK'' then Inr STAKE_UNLOCK
      else if v = ''STAKE_WITHDRAW'' then Inr STAKE_WITHDRAW
      else if v = ''STAKE_TOP_UP'' then Inr STAKE_TOP_UP
      else if v = ''VALIDATOR_EXIT_REQUEST'' then Inr VALIDATOR_EXIT_REQUEST
      else if v = ''VALIDATOR_UNJAIL_REQUEST'' then Inr VALIDATOR_UNJAIL_REQUEST
      else if v = ''VALIDATOR_KEY_ROTATE'' then Inr VALIDATOR_KEY_ROTATE
      else if v = ''GOVERNANCE_PROPOSE'' then Inr GOVERNANCE_PROPOSE
      else if v = ''GOVERNANCE_VOTE'' then Inr Tx_GOVERNANCE_VOTE
      else if v = ''GOVERNANCE_EXECUTE'' then Inr GOVERNANCE_EXECUTE
      else Inl (InvalidArgument (''Unknown TransactionType: '' @ v)))"

definition requiresUserSignature :: "TransactionType \<Rightarrow> bool" where
  "requiresUserSignature t = isMempoolType t"

definition isStakingTransaction :: "TransactionType \<Rightarrow> bool" where
  "isStakingTransaction t \<longleftrightarrow>
     t = STAKE_DEPOSIT \<or> t = STAKE_UNLOCK \<or> t = STAKE_WITHDRAW \<or> t = STAKE_TOP_UP"

definition isValidatorLifecycleTransaction :: "TransactionType \<Rightarrow> bool" where
  "isValidatorLifecycleTransaction t \<longleftrightarrow>
     t = VALIDATOR_REGISTER \<or> t = VALIDATOR_EXIT_REQUEST \<or> t = VALIDATOR_UNJAIL_REQUEST \<or>
     t = VALIDATOR_KEY_ROTATE"

definition isGovernanceTransaction :: "TransactionType \<Rightarrow> bool" where
  "isGovernanceTransaction t \<longleftrightarrow>
     t = GOVERNANCE_PROPOSE \<or> t = Tx_GOVERNANCE_VOTE \<or> t = GOVERNANCE_EXECUTE"

subsection \<open>Transactions\<close>

record Transaction =
  txId :: string
  txType :: TransactionType
  txFrom :: string
  txTo :: string
  txAmount :: Amount
  txFee :: Amount
  txNonce :: u64
  txTimestamp :: int
  txInputLots :: "string list"
  txData :: string
  txBundle :: "SignatureBundle option"
  txChainId :: string

definition MAX_EXPLICIT_INPUT_COIN_LOTS :: nat where
  "MAX_EXPLICIT_INPUT_COIN_LOTS = 128"

definition MAX_COIN_LOT_ID_LENGTH :: nat where
  "MAX_COIN_LOT_ID_LENGTH = 256"

definition MAX_TRANSACTION_DATA_BYTES :: nat where
  "MAX_TRANSACTION_DATA_BYTES = 4096"

definition MAX_ADDRESS_LENGTH :: nat where
  "MAX_ADDRESS_LENGTH = 256"

definition isSafeTransactionAddress :: "string \<Rightarrow> bool" where
  "isSafeTransactionAddress address \<longleftrightarrow>
     1 \<le> length address \<and> length address \<le> MAX_ADDRESS_LENGTH \<and>
     list_all (\<lambda>c. \<not> List.member ('';={}[],'' @ [CHR 0x0A, CHR 0x0D, CHR 0x09, CHR '' '']) c) address"

definition isSafeCoinLotInputId :: "string \<Rightarrow> bool" where
  "isSafeCoinLotInputId v \<longleftrightarrow>
     \<not> (v = [] \<or> length v > MAX_COIN_LOT_ID_LENGTH) \<and>
     list_all (\<lambda>c. \<not> List.member ('';,[]{} '' @ [CHR 0x09, CHR 0x0A, CHR 0x0D]) c) v"

definition areInputCoinLotIdsStructurallyValid :: "string list \<Rightarrow> bool" where
  "areInputCoinLotIdsStructurallyValid ids \<longleftrightarrow>
     length ids \<le> MAX_EXPLICIT_INPUT_COIN_LOTS \<and> distinct ids \<and> list_all isSafeCoinLotInputId ids"

definition serializeInputCoinLotIds :: "string list \<Rightarrow> string" where
  "serializeInputCoinLotIds ids = ''['' @ joinWith '','' ids @ '']''"

definition encodeTransactionData :: "string \<Rightarrow> string" where
  "encodeTransactionData s = (if s = [] then [] else hexEncode s)"

definition txSigningPayload :: "Transaction \<Rightarrow> string" where
  "txSigningPayload tx =
     ''TransactionPayload{type='' @ transactionTypeToString (txType tx)
       @ '';from='' @ txFrom tx @ '';to='' @ txTo tx
       @ '';amountRaw='' @ showI64 (rawUnits (txAmount tx))
       @ '';feeRaw='' @ showI64 (rawUnits (txFee tx))
       @ (if txInputLots tx \<noteq> [] then '';inputLots='' @ serializeInputCoinLotIds (txInputLots tx) else [])
       @ (if txData tx \<noteq> [] then '';dataHex='' @ encodeTransactionData (txData tx) else [])
       @ '';nonce='' @ showU64 (txNonce tx) @ '';timestamp='' @ showI64 (txTimestamp tx)
       @ (if txChainId tx \<noteq> [] then '';chainId='' @ txChainId tx else []) @ ''}''"

definition computeTransactionIdFromPayload :: "sha256 \<Rightarrow> string \<Rightarrow> string" where
  "computeTransactionIdFromPayload sha payload = nodo_hash_string sha payload"

definition withTxId :: "sha256 \<Rightarrow> Transaction \<Rightarrow> Transaction" where
  "withTxId sha tx = tx\<lparr>txId := computeTransactionIdFromPayload sha (txSigningPayload tx)\<rparr>"

text \<open>The constructor with input lots (the one without delegates to it with none), and the one with data.\<close>

definition newTransaction ::
    "sha256 \<Rightarrow> TransactionType \<Rightarrow> string \<Rightarrow> string \<Rightarrow> Amount \<Rightarrow> Amount \<Rightarrow> u64 \<Rightarrow> int \<Rightarrow> string list
       \<Rightarrow> Transaction result" where
  "newTransaction sha t sender target amount fee nonce timestamp lots =
     (if \<not> areInputCoinLotIdsStructurallyValid lots
      then Inl (InvalidArgument ''Invalid explicit input CoinLot id list.'')
      else if t \<noteq> TRANSFER \<and> lots \<noteq> []
      then Inl (InvalidArgument ''Only TRANSFER transactions can declare input CoinLot ids.'')
      else Inr (withTxId sha
        \<lparr>txId = [], txType = t, txFrom = sender, txTo = target, txAmount = amount, txFee = fee,
         txNonce = nonce, txTimestamp = timestamp, txInputLots = lots, txData = [], txBundle = None,
         txChainId = []\<rparr>))"

definition newDataTransaction ::
    "sha256 \<Rightarrow> TransactionType \<Rightarrow> string \<Rightarrow> string \<Rightarrow> Amount \<Rightarrow> Amount \<Rightarrow> u64 \<Rightarrow> int \<Rightarrow> string
       \<Rightarrow> Transaction result" where
  "newDataTransaction sha t sender target amount fee nonce timestamp payload =
     (if length payload > MAX_TRANSACTION_DATA_BYTES
      then Inl (InvalidArgument ''Transaction data exceeds protocol limit.'')
      else Inr (withTxId sha
        \<lparr>txId = [], txType = t, txFrom = sender, txTo = target, txAmount = amount, txFee = fee,
         txNonce = nonce, txTimestamp = timestamp, txInputLots = [], txData = payload, txBundle = None,
         txChainId = []\<rparr>))"

definition attachSignatureBundle :: "SignatureBundle \<Rightarrow> Transaction \<Rightarrow> Transaction result" where
  "attachSignatureBundle b tx =
     (if b = [] then Inl (InvalidArgument ''Empty SignatureBundle rejected by Transaction.'')
      else if txBundle tx \<noteq> None
      then Inl (LogicError ''Transaction SignatureBundle is immutable once attached.'')
      else Inr (tx\<lparr>txBundle := Some b\<rparr>))"

definition withChainId :: "sha256 \<Rightarrow> string \<Rightarrow> Transaction \<Rightarrow> Transaction result" where
  "withChainId sha chain tx =
     (if txBundle tx \<noteq> None
      then Inl (LogicError ''Cannot change chainId after transaction signing.'')
      else if \<not> isSafeTransactionAddress chain
      then Inl (InvalidArgument ''Transaction chainId is empty or unsafe.'')
      else Inr (withTxId sha (tx\<lparr>txChainId := chain\<rparr>)))"

definition txSerialize :: "Transaction \<Rightarrow> string" where
  "txSerialize tx =
     ''Transaction{id='' @ txId tx @ '';payload='' @ txSigningPayload tx
       @ '';signatureBundle='' @ (case txBundle tx of Some b \<Rightarrow> bundleSerialize b | None \<Rightarrow> ''NONE'') @ ''}''"

subsection \<open>Checks\<close>

text \<open>
  The reason for a rejection, or none; a type has a policy exactly when \<open>policyFor\<close> finds it.
\<close>

definition validateShape :: "Transaction \<Rightarrow> string option" where
  "validateShape tx =
     (case policyFor (txType tx) of
        Inl _ \<Rightarrow> Some ''Transaction type is not registered.''
      | Inr policy \<Rightarrow>
          if amountRule policy = Amount_ZERO \<and> \<not> isZero (txAmount tx)
          then Some ''Transaction amount must be zero for this type.''
          else if amountRule policy = Amount_POSITIVE \<and> \<not> isPositive (txAmount tx)
          then Some ''Transaction amount must be positive for this type.''
          else if txTo tx = [] then Some ''Transaction target is required.''
          else if payloadRequired policy \<and> txData tx = []
          then Some ''Transaction payload is required for this type.''
          else if \<not> payloadAllowed policy \<and> txData tx \<noteq> []
          then Some ''Transaction payload is not allowed for this type.''
          else if txType tx = TRANSFER \<and> txFrom tx = txTo tx
          then Some ''Transfer sender and recipient must differ.''
          else if txType tx = BURN \<and> txTo tx \<noteq> ''nodo_burn''
          then Some ''Burn target must be the canonical burn address.''
          else if txType tx = GOVERNANCE_PROPOSE \<and> txTo tx \<noteq> ''nodo_governance''
          then Some ''Governance proposal target must be the canonical governance address.''
          else None)"

definition maximumDebit :: "Transaction \<Rightarrow> Amount result" where
  "maximumDebit tx =
     bindR (policyFor (txType tx)) (\<lambda>policy.
     if debitRule policy = AMOUNT_PLUS_FEE then amountAdd (txAmount tx) (txFee tx) else Inr (txFee tx))"

definition txStructurallyValid :: "sha256 \<Rightarrow> CryptoPolicy \<Rightarrow> SecurityContext \<Rightarrow> Transaction \<Rightarrow> bool" where
  "txStructurallyValid sha policy ctx tx \<longleftrightarrow>
     txId tx \<noteq> [] \<and> txTimestamp tx > 0 \<and> txNonce tx \<noteq> 0 \<and> validateShape tx = None \<and>
     \<not> isNegative (txFee tx) \<and> areInputCoinLotIdsStructurallyValid (txInputLots tx) \<and>
     \<not> (txType tx \<noteq> TRANSFER \<and> txInputLots tx \<noteq> []) \<and>
     txId tx = computeTransactionIdFromPayload sha (txSigningPayload tx) \<and>
     \<not> (requiresUserSignature (txType tx) \<and> \<not> isSafeTransactionAddress (txFrom tx)) \<and>
     isSafeTransactionAddress (txFrom tx) \<and> isSafeTransactionAddress (txTo tx) \<and>
     length (txData tx) \<le> MAX_TRANSACTION_DATA_BYTES \<and>
     (requiresUserSignature (txType tx) \<longrightarrow>
        (case txBundle tx of None \<Rightarrow> False | Some b \<Rightarrow> isValidForPolicy policy ctx b)) \<and>
     \<not> (ctx \<noteq> DEVELOPMENT_ONLY \<and> \<not> developmentMode policy \<and> txChainId tx = [])"

definition verifyAuthorization ::
    "sha256 \<Rightarrow> string \<Rightarrow> CryptoPolicy \<Rightarrow> SecurityContext \<Rightarrow> SignatureProvider \<Rightarrow> Transaction \<Rightarrow> bool" where
  "verifyAuthorization sha expectedChainId policy ctx provider tx =
     (if expectedChainId = [] \<or> txChainId tx \<noteq> expectedChainId \<or> \<not> txStructurallyValid sha policy ctx tx
      then False
      else if \<not> requiresUserSignature (txType tx) then True
      else case txBundle tx of
        None \<Rightarrow> False
      | Some [] \<Rightarrow> False
      | Some (s # sigs) \<Rightarrow>
          let signingKey = sigPublicKey s
          in if pkAlgorithm signingKey \<noteq> provAlgorithm provider then False
             else if \<not> list_all (\<lambda>x. publicKeySerialize (sigPublicKey x) = publicKeySerialize signingKey) (s # sigs)
             then False
             else if \<not> addressValid sha (txFrom tx) \<or> \<not> verifyAddressForPublicKey sha (txFrom tx) signingKey
             then False
             else verifyForPolicy (txSigningPayload tx) policy ctx provider (s # sigs))"

subsection \<open>Parsing\<close>

definition extractField :: "string \<Rightarrow> string \<Rightarrow> string result" where
  "extractField serialized key =
     (case textAfter (key @ ''='') serialized of
        None \<Rightarrow> Inl (InvalidArgument (''Missing serialized Transaction field: '' @ key))
      | Some rest \<Rightarrow>
          let malformed = Inl (InvalidArgument (''Invalid serialized Transaction field: '' @ key));
              upTo = (\<lambda>c. takeWhile (\<lambda>x. x \<noteq> c) rest)
          in if List.member rest (CHR '';'')
             then if upTo (CHR '';'') = [] then malformed else Inr (upTo (CHR '';''))
             else if List.member rest (CHR ''}'')
             then if upTo (CHR ''}'') = [] then malformed else Inr (upTo (CHR ''}''))
             else malformed)"

definition hasField :: "string \<Rightarrow> string \<Rightarrow> bool" where
  "hasField serialized key \<longleftrightarrow> findSub (key @ ''='') serialized \<noteq> None"

definition extractTransactionPayload :: "string \<Rightarrow> string result" where
  "extractTransactionPayload serialized =
     (case textAfter ''payload=TransactionPayload{'' serialized of
        None \<Rightarrow> Inl (InvalidArgument ''Serialized Transaction payload not found.'')
      | Some rest \<Rightarrow>
          let fromPayload = ''TransactionPayload{'' @ rest
          in case findSub '';signatureBundle='' fromPayload of
               None \<Rightarrow> Inl (InvalidArgument ''Serialized Transaction payload is malformed.'')
             | Some n \<Rightarrow>
                 if n = 0 then Inl (InvalidArgument ''Serialized Transaction payload is malformed.'')
                 else Inr (take n fromPayload))"

definition extractSignatureBundle :: "string \<Rightarrow> string result" where
  "extractSignatureBundle serialized =
     (case textAfter '';signatureBundle='' serialized of
        None \<Rightarrow> Inl (InvalidArgument ''Serialized Transaction signature bundle is malformed.'')
      | Some rest \<Rightarrow>
          if serialized = [] \<or> last serialized \<noteq> CHR ''}''
          then Inl (InvalidArgument ''Serialized Transaction signature bundle is malformed.'')
          else if length rest \<le> 1
          then Inl (InvalidArgument ''Serialized Transaction signature bundle is empty.'')
          else Inr (butlast rest))"

text \<open>The pieces between commas; a text without a comma is one piece.\<close>

fun splitCommas :: "string \<Rightarrow> string list" where
  "splitCommas [] = [[]]"
| "splitCommas (c # s) =
     (if c = CHR '','' then [] # splitCommas s
      else case splitCommas s of [] \<Rightarrow> [[c]] | p # ps \<Rightarrow> (c # p) # ps)"

definition parseInputCoinLotIds :: "string \<Rightarrow> string list result" where
  "parseInputCoinLotIds s =
     (if length s < 2 \<or> hd s \<noteq> CHR ''['' \<or> last s \<noteq> CHR '']''
      then Inl (InvalidArgument ''Serialized input CoinLot id list is malformed.'')
      else let content = take (length s - 2) (drop 1 s)
           in if content = [] then Inr []
              else if \<not> list_all isSafeCoinLotInputId (splitCommas content)
              then Inl (InvalidArgument ''Serialized input CoinLot id is unsafe.'')
              else if \<not> areInputCoinLotIdsStructurallyValid (splitCommas content)
              then Inl (InvalidArgument ''Serialized input CoinLot id list is invalid.'')
              else Inr (splitCommas content))"

definition extractInputCoinLotIdsFromPayload :: "string \<Rightarrow> string list result" where
  "extractInputCoinLotIdsFromPayload payload =
     (if \<not> hasField payload ''inputLots'' then Inr []
      else bindR (extractField payload ''inputLots'') parseInputCoinLotIds)"

definition decodeTransactionData :: "string \<Rightarrow> string result" where
  "decodeTransactionData hex =
     (if hex = [] \<or> \<not> isHexString hex
      then Inl (InvalidArgument ''Serialized transaction data is not canonical hex.'')
      else bindR (hexDecode hex) (\<lambda>bytes.
        if length bytes > MAX_TRANSACTION_DATA_BYTES
        then Inl (InvalidArgument ''Serialized transaction data exceeds protocol limit.'')
        else Inr bytes))"

definition readAmount :: "string \<Rightarrow> string \<Rightarrow> Amount result" where
  "readAmount payload key = bindR (bindR (extractField payload key) stoll) fromRawUnits"

text \<open>\<open>Transaction::deserialize\<close>: the unsigned transaction, the bundle, and the three comparisons.\<close>

definition parseUnsigned :: "sha256 \<Rightarrow> string \<Rightarrow> Transaction result" where
  "parseUnsigned sha payload =
     bindR (bindR (extractField payload ''type'') transactionTypeFromString) (\<lambda>t.
     bindR (extractField payload ''from'') (\<lambda>sender.
     bindR (extractField payload ''to'') (\<lambda>target.
     bindR (readAmount payload ''amountRaw'') (\<lambda>amount.
     bindR (readAmount payload ''feeRaw'') (\<lambda>fee.
     bindR (bindR (extractField payload ''nonce'') stoull) (\<lambda>nonce.
     bindR (bindR (extractField payload ''timestamp'') stoll) (\<lambda>timestamp.
     bindR (extractInputCoinLotIdsFromPayload payload) (\<lambda>lots.
     bindR (if hasField payload ''dataHex''
            then bindR (bindR (extractField payload ''dataHex'') decodeTransactionData) (\<lambda>bytes.
                   newDataTransaction sha t sender target amount fee nonce timestamp bytes)
            else newTransaction sha t sender target amount fee nonce timestamp lots) (\<lambda>tx.
     if hasField payload ''chainId''
     then bindR (extractField payload ''chainId'') (\<lambda>chain. withChainId sha chain tx)
     else Inr tx)))))))))"

definition txDeserialize :: "sha256 \<Rightarrow> string \<Rightarrow> Transaction result" where
  "txDeserialize sha serialized =
     (if \<not> prefix ''Transaction{'' serialized \<or> serialized = [] \<or> last serialized \<noteq> CHR ''}''
      then Inl (InvalidArgument ''Serialized data is not a Transaction.'')
      else bindR (extractField serialized ''id'') (\<lambda>serializedId.
           bindR (extractTransactionPayload serialized) (\<lambda>payload.
           if \<not> prefix ''TransactionPayload{'' payload
           then Inl (InvalidArgument ''Serialized Transaction payload is invalid.'')
           else bindR (parseUnsigned sha payload) (\<lambda>unsigned.
           bindR (extractSignatureBundle serialized) (\<lambda>bundleText.
           bindR (if bundleText \<noteq> ''NONE''
                  then bindR (bundleDeserialize bundleText) (\<lambda>b. attachSignatureBundle b unsigned)
                  else Inr unsigned) (\<lambda>tx.
           if txId tx \<noteq> serializedId
           then Inl (InvalidArgument ''Serialized Transaction id does not match payload.'')
           else if txSigningPayload tx \<noteq> payload
           then Inl (InvalidArgument ''Transaction serialization round-trip failed.'')
           else if txSerialize tx \<noteq> serialized
           then Inl (InvalidArgument ''Transaction serialization is non-canonical.'')
           else Inr tx))))))"

subsection \<open>Reading back the fields of a payload\<close>

lemma find_policy: "\<exists>p. policyFor t = Inr p \<and> polType p = t \<and> p \<in> set policies"
  by (cases t) (simp_all add: policyFor_def policies_def)

lemma hasPolicy_all [simp]: "hasPolicy t"
  by (cases t) (simp_all add: hasPolicy_def policies_def)

lemma requiresSignature_all [simp]: "requiresUserSignature t"
  by (simp add: requiresUserSignature_def isMempoolType_def)

lemma type_read [simp]: "transactionTypeFromString (transactionTypeToString t) = Inr t"
  by (cases t) (simp_all add: transactionTypeFromString_def)

text \<open>The payload as a list of fields, and what makes the fields readable.\<close>

definition payloadFields :: "Transaction \<Rightarrow> (string \<times> string) list" where
  "payloadFields tx =
     [(''from'', txFrom tx), (''to'', txTo tx), (''amountRaw'', showI64 (rawUnits (txAmount tx))),
      (''feeRaw'', showI64 (rawUnits (txFee tx)))]
     @ (if txInputLots tx \<noteq> [] then [(''inputLots'', serializeInputCoinLotIds (txInputLots tx))] else [])
     @ (if txData tx \<noteq> [] then [(''dataHex'', hexEncode (txData tx))] else [])
     @ [(''nonce'', showU64 (txNonce tx)), (''timestamp'', showI64 (txTimestamp tx))]
     @ (if txChainId tx \<noteq> [] then [(''chainId'', txChainId tx)] else [])"

lemma payload_text:
  "txSigningPayload tx =
     ''TransactionPayload{type'' @ CHR ''='' # transactionTypeToString (txType tx) @ tailText ''}'' (payloadFields tx)"
  by (simp add: txSigningPayload_def payloadFields_def encodeTransactionData_def)

definition fieldText :: "string \<Rightarrow> bool" where
  "fieldText s \<longleftrightarrow> s \<noteq> [] \<and> list_all (\<lambda>c. c \<noteq> CHR '';'' \<and> c \<noteq> CHR ''='' \<and> c \<noteq> CHR ''}'') s"

lemma extractField_cong:
  "textAfter (k @ ''='') s = textAfter (k @ ''='') s' \<Longrightarrow> extractField s k = extractField s' k"
  by (simp add: extractField_def)

lemma takeWhile_field: "c \<notin> set v \<Longrightarrow> takeWhile (\<lambda>x. x \<noteq> c) (v @ c # rest) = v"
  by (simp add: takeWhile_append)

lemma extractField_fields:
  assumes "CHR ''='' \<notin> set k" and "CHR '';'' \<notin> set k" and "CHR ''='' \<notin> set p"
    and "\<forall>kv\<in>set kvs. CHR ''='' \<notin> set (fst kv) \<and> fieldText (snd kv)"
    and "find (\<lambda>kv. suffix k (fst kv)) kvs = Some kv"
  shows "extractField (p @ tailText ''}'' kvs) k = Inr (snd kv)"
proof -
  have un: "uncut kvs" using assms(4) by (auto simp: uncut_def fieldText_def list_all_iff)
  obtain rest where d: "dropWhile (\<lambda>kv. \<not> suffix k (fst kv)) kvs = kv # rest"
    using assms(5) unfolding find_dropWhile comp_def by (auto split: list.splits)
  then have "textAfter (k @ ''='') (p @ tailText ''}'' kvs) = Some (snd kv @ tailText ''}'' rest)"
    using textAfter_fields [OF assms(1,2,3) un, of "''}''"] by simp
  moreover have "kv \<in> set kvs" using d by (metis list.set_intros(1) set_dropWhileD)
  then have "CHR '';'' \<notin> set (snd kv)" "CHR ''}'' \<notin> set (snd kv)" "snd kv \<noteq> []"
    using assms(4) by (auto simp: fieldText_def list_all_iff)
  ultimately show ?thesis
    by (cases rest) (simp_all add: extractField_def takeWhile_field Let_def)
qed

lemma payload_after:
  assumes "CHR ''='' \<notin> set k" and "\<not> suffix k ''TransactionPayload{type''"
  shows "textAfter (k @ ''='') (txSigningPayload tx) =
     textAfter (k @ ''='') (transactionTypeToString (txType tx) @ tailText ''}'' (payloadFields tx))"
  using textAfter_cut [OF assms(1), of "''TransactionPayload{type''" "[]"] assms(2)
  by (simp add: payload_text)

lemma type_plain: "fieldText (transactionTypeToString t)"
  by (cases t) (simp_all add: fieldText_def)

text \<open>
  What the constructors and the structural checks give of a transaction that can be printed and
  read back: safe addresses and chain, numbers in range, input lots only without data, no equal
  sign in a lot identifier, and a bundle that can be read back.
\<close>

definition printable :: "sha256 \<Rightarrow> Transaction \<Rightarrow> bool" where
  "printable sha tx \<longleftrightarrow>
     txId tx = computeTransactionIdFromPayload sha (txSigningPayload tx) \<and>
     isSafeTransactionAddress (txFrom tx) \<and> isSafeTransactionAddress (txTo tx) \<and>
     amountOk (txAmount tx) \<and> amountOk (txFee tx) \<and> in_i64 (txTimestamp tx) \<and>
     areInputCoinLotIdsStructurallyValid (txInputLots tx) \<and> (txType tx \<noteq> TRANSFER \<longrightarrow> txInputLots tx = []) \<and>
     length (txData tx) \<le> MAX_TRANSACTION_DATA_BYTES \<and> (txData tx = [] \<or> txInputLots tx = []) \<and>
     list_all (\<lambda>i. CHR ''='' \<notin> set i) (txInputLots tx) \<and>
     (txChainId tx = [] \<or> isSafeTransactionAddress (txChainId tx)) \<and>
     (case txBundle tx of None \<Rightarrow> True | Some b \<Rightarrow> textBundle b)"

lemma address_field: "isSafeTransactionAddress a \<Longrightarrow> fieldText a"
  unfolding isSafeTransactionAddress_def fieldText_def
  by (intro conjI) (force, erule conjE, erule conjE, erule list.pred_mono_strong, simp)

lemma digits_field: "list_all isDigit s \<Longrightarrow> s \<noteq> [] \<Longrightarrow> fieldText s"
  by (auto simp: fieldText_def list_all_iff isDigit_def)

lemma showI64_field [simp]: "fieldText (showI64 i)"
proof (cases "i < 0")
  case True
  then have "fieldText (showNum (- i))" by (intro digits_field showNum_list) simp_all
  then show ?thesis using True by (simp add: showI64_def fieldText_def)
next
  case False
  then have "fieldText (showNum i)" by (intro digits_field showNum_list) simp_all
  then show ?thesis using False by (simp add: showI64_def)
qed

lemma showU64_field [simp]: "fieldText (showU64 w)"
  by (simp add: showU64_def digits_field showNum_list)

lemma hex_field: "s \<noteq> [] \<Longrightarrow> list_all isLowerHexDigit s \<Longrightarrow> fieldText s"
  by (auto simp: fieldText_def list_all_iff isLowerHexDigit_def)

lemma set_joinWith: "set (joinWith sep xs) \<subseteq> set sep \<union> \<Union> (set ` set xs)"
  by (induction sep xs rule: joinWith.induct) auto

lemma lots_field:
  assumes "areInputCoinLotIdsStructurallyValid ids" and "list_all (\<lambda>i. CHR ''='' \<notin> set i) ids"
  shows "fieldText (serializeInputCoinLotIds ids)"
proof -
  have "set (joinWith '','' ids) \<subseteq> {CHR '',''} \<union> \<Union> (set ` set ids)" using set_joinWith [of "'',''" ids] by simp
  moreover have "\<forall>c\<in>\<Union> (set ` set ids). c \<noteq> CHR '';'' \<and> c \<noteq> CHR ''='' \<and> c \<noteq> CHR ''}''"
    using assms by (auto simp: areInputCoinLotIdsStructurallyValid_def isSafeCoinLotInputId_def list_all_iff)
  ultimately show ?thesis by (auto simp: serializeInputCoinLotIds_def fieldText_def list_all_iff)
qed

lemma payload_fieldTexts:
  assumes "printable sha tx"
  shows "\<forall>kv\<in>set (payloadFields tx). CHR ''='' \<notin> set (fst kv) \<and> fieldText (snd kv)"
  using assms hex_field [OF _ hexEncode_lower, of "txData tx"]
  by (cases "txData tx") (auto simp: printable_def payloadFields_def address_field lots_field)

abbreviation fieldNamed :: "string \<Rightarrow> Transaction \<Rightarrow> (string \<times> string) option" where
  "fieldNamed k tx \<equiv> find (\<lambda>kv. suffix k (fst kv)) (payloadFields tx)"

lemma payload_field:
  assumes "printable sha tx" and "fieldNamed k tx = Some (n, v)"
    and "CHR ''='' \<notin> set k" and "CHR '';'' \<notin> set k" and "\<not> suffix k ''TransactionPayload{type''"
  shows "extractField (txSigningPayload tx) k = Inr v"
proof -
  have "CHR ''='' \<notin> set (transactionTypeToString (txType tx))"
    using type_plain [of "txType tx"] by (auto simp: fieldText_def list_all_iff)
  then show ?thesis
    using extractField_fields [OF assms(3,4) _ payload_fieldTexts [OF assms(1)] assms(2)]
      extractField_cong [OF payload_after [OF assms(3,5)]] by simp
qed

lemma payload_hasField:
  assumes "printable sha tx" and "CHR ''='' \<notin> set k" and "CHR '';'' \<notin> set k"
    and "\<not> suffix k ''TransactionPayload{type''"
  shows "hasField (txSigningPayload tx) k \<longleftrightarrow> fieldNamed k tx \<noteq> None"
proof -
  have p: "CHR ''='' \<notin> set (transactionTypeToString (txType tx))"
    using type_plain [of "txType tx"] by (auto simp: fieldText_def list_all_iff)
  have "uncut (payloadFields tx)"
    using payload_fieldTexts [OF assms(1)] by (auto simp: uncut_def fieldText_def list_all_iff)
  then show ?thesis
    using textAfter_fields [OF assms(2,3) p, of "payloadFields tx" "''}''"]
    unfolding hasField_def findSub_None [symmetric] payload_after [OF assms(2,4)] find_dropWhile comp_def
    by (cases "dropWhile (\<lambda>kv. \<not> suffix k (fst kv)) (payloadFields tx)") (simp_all del: dropWhile_eq_Nil_conv)
qed

lemma payload_type:
  "extractField (txSigningPayload tx) ''type'' = Inr (transactionTypeToString (txType tx))"
proof -
  let ?rest = "transactionTypeToString (txType tx) @ tailText ''}'' (payloadFields tx)"
  have "textAfter ''type='' (txSigningPayload tx) = Some ?rest"
    using textAfter_cut [of "CHR ''=''" "''type''" "''TransactionPayload{type''" "[]" ?rest]
    by (simp add: payload_text suffix_to_prefix)
  moreover have "CHR '';'' \<notin> set (transactionTypeToString (txType tx))"
    using type_plain [of "txType tx"] by (auto simp: fieldText_def list_all_iff)
  moreover have "transactionTypeToString (txType tx) \<noteq> []"
    using type_plain [of "txType tx"] by (simp add: fieldText_def)
  ultimately show ?thesis
    by (simp add: extractField_def payloadFields_def takeWhile_field Let_def)
qed

lemma payload_lookup:
  "fieldNamed ''from'' tx = Some (''from'', txFrom tx)"
  "fieldNamed ''to'' tx = Some (''to'', txTo tx)"
  "fieldNamed ''amountRaw'' tx = Some (''amountRaw'', showI64 (rawUnits (txAmount tx)))"
  "fieldNamed ''feeRaw'' tx = Some (''feeRaw'', showI64 (rawUnits (txFee tx)))"
  "fieldNamed ''nonce'' tx = Some (''nonce'', showU64 (txNonce tx))"
  "fieldNamed ''timestamp'' tx = Some (''timestamp'', showI64 (txTimestamp tx))"
  "fieldNamed ''inputLots'' tx =
     (if txInputLots tx = [] then None else Some (''inputLots'', serializeInputCoinLotIds (txInputLots tx)))"
  "fieldNamed ''dataHex'' tx = (if txData tx = [] then None else Some (''dataHex'', hexEncode (txData tx)))"
  "fieldNamed ''chainId'' tx = (if txChainId tx = [] then None else Some (''chainId'', txChainId tx))"
  by (simp_all add: payloadFields_def suffix_to_prefix)

lemma splitCommas_join:
  "ids \<noteq> [] \<Longrightarrow> \<forall>i\<in>set ids. CHR '','' \<notin> set i \<Longrightarrow> splitCommas (joinWith '','' ids) = ids"
proof (induction "'',''" ids rule: joinWith.induct)
  case (2 x)
  then have "CHR '','' \<notin> set x" by simp
  then show ?case by (induction x) auto
next
  case (3 x y xs)
  have "CHR '','' \<notin> set x \<Longrightarrow> splitCommas (x @ CHR '','' # s) = x # splitCommas s" for s
    by (induction x) auto
  then show ?case using 3 by simp
qed simp

lemma lots_read:
  assumes "areInputCoinLotIdsStructurallyValid ids" and "ids \<noteq> []"
  shows "parseInputCoinLotIds (serializeInputCoinLotIds ids) = Inr ids"
proof -
  have safe: "\<forall>i\<in>set ids. i \<noteq> [] \<and> CHR '','' \<notin> set i" and "list_all isSafeCoinLotInputId ids"
    using assms(1) by (auto simp: areInputCoinLotIdsStructurallyValid_def isSafeCoinLotInputId_def list_all_iff)
  moreover have "joinWith '','' ids \<noteq> []"
    using assms(2) safe by (cases ids rule: remdups_adj.cases) auto
  ultimately show ?thesis
    using splitCommas_join [OF assms(2)] assms(1)
    by (simp add: parseInputCoinLotIds_def serializeInputCoinLotIds_def)
qed

lemma data_read:
  "s \<noteq> [] \<Longrightarrow> length s \<le> MAX_TRANSACTION_DATA_BYTES \<Longrightarrow> decodeTransactionData (hexEncode s) = Inr s"
  using hexDecodePairs_hexEncode [of s] hexEncode_lower [of s]
  by (cases s) (auto simp: decodeTransactionData_def hexDecode_def isHexString_def list_all_iff
      isLowerHexDigit_isHexDigit simp del: bindR_Inr_iff)

lemma payload_read:
  assumes "printable sha tx"
  shows "extractField (txSigningPayload tx) ''from'' = Inr (txFrom tx)"
    "extractField (txSigningPayload tx) ''to'' = Inr (txTo tx)"
    "readAmount (txSigningPayload tx) ''amountRaw'' = Inr (txAmount tx)"
    "readAmount (txSigningPayload tx) ''feeRaw'' = Inr (txFee tx)"
    "bindR (extractField (txSigningPayload tx) ''nonce'') stoull = Inr (txNonce tx)"
    "bindR (extractField (txSigningPayload tx) ''timestamp'') stoll = Inr (txTimestamp tx)"
proof -
  note read = payload_field [OF assms]
  have amount: "bindR (bindR (Inr (showI64 (rawUnits a))) stoll) fromRawUnits = Inr a" if "amountOk a" for a
  proof -
    have "in_i64 (rawUnits a)" using that by (simp add: amountOk_def in_i64_def I64_MIN_def I64_MAX_def)
    then show ?thesis using that by (simp add: fromRawUnits_def newAmount_def amountOk_def)
  qed
  show "extractField (txSigningPayload tx) ''from'' = Inr (txFrom tx)"
    by (rule read [OF payload_lookup(1)]) (simp_all add: suffix_to_prefix)
  show "extractField (txSigningPayload tx) ''to'' = Inr (txTo tx)"
    by (rule read [OF payload_lookup(2)]) (simp_all add: suffix_to_prefix)
  have "extractField (txSigningPayload tx) ''amountRaw'' = Inr (showI64 (rawUnits (txAmount tx)))"
    by (rule read [OF payload_lookup(3)]) (simp_all add: suffix_to_prefix)
  then show "readAmount (txSigningPayload tx) ''amountRaw'' = Inr (txAmount tx)"
    using amount [of "txAmount tx"] assms by (simp only: readAmount_def printable_def)
  have "extractField (txSigningPayload tx) ''feeRaw'' = Inr (showI64 (rawUnits (txFee tx)))"
    by (rule read [OF payload_lookup(4)]) (simp_all add: suffix_to_prefix)
  then show "readAmount (txSigningPayload tx) ''feeRaw'' = Inr (txFee tx)"
    using amount [of "txFee tx"] assms by (simp only: readAmount_def printable_def)
  have "extractField (txSigningPayload tx) ''nonce'' = Inr (showU64 (txNonce tx))"
    by (rule read [OF payload_lookup(5)]) (simp_all add: suffix_to_prefix)
  then show "bindR (extractField (txSigningPayload tx) ''nonce'') stoull = Inr (txNonce tx)" by simp
  have "extractField (txSigningPayload tx) ''timestamp'' = Inr (showI64 (txTimestamp tx))"
    by (rule read [OF payload_lookup(6)]) (simp_all add: suffix_to_prefix)
  then show "bindR (extractField (txSigningPayload tx) ''timestamp'') stoll = Inr (txTimestamp tx)"
    using assms by (simp add: printable_def)
qed

lemma payload_has:
  assumes "printable sha tx"
  shows "hasField (txSigningPayload tx) ''inputLots'' \<longleftrightarrow> txInputLots tx \<noteq> []"
    "hasField (txSigningPayload tx) ''dataHex'' \<longleftrightarrow> txData tx \<noteq> []"
    "hasField (txSigningPayload tx) ''chainId'' \<longleftrightarrow> txChainId tx \<noteq> []"
  using payload_hasField [OF assms, of "''inputLots''"] payload_hasField [OF assms, of "''dataHex''"]
    payload_hasField [OF assms, of "''chainId''"] payload_lookup [of tx]
  by (simp_all add: suffix_to_prefix)

lemma payload_lots:
  assumes "printable sha tx"
  shows "extractInputCoinLotIdsFromPayload (txSigningPayload tx) = Inr (txInputLots tx)"
proof (cases "txInputLots tx = []")
  case True
  then show ?thesis by (simp add: extractInputCoinLotIdsFromPayload_def payload_has [OF assms])
next
  case False
  then have "extractField (txSigningPayload tx) ''inputLots'' = Inr (serializeInputCoinLotIds (txInputLots tx))"
    by (intro payload_field [OF assms, where n = "''inputLots''"]) (simp add: payload_lookup, simp_all add: suffix_to_prefix)
  then show ?thesis
    using False assms by (simp add: extractInputCoinLotIdsFromPayload_def payload_has [OF assms] lots_read printable_def)
qed

lemma payload_rebuild:
  assumes "printable sha tx"
  shows "(if hasField (txSigningPayload tx) ''dataHex''
          then bindR (bindR (extractField (txSigningPayload tx) ''dataHex'') decodeTransactionData) (\<lambda>bytes.
                 newDataTransaction sha (txType tx) (txFrom tx) (txTo tx) (txAmount tx) (txFee tx)
                   (txNonce tx) (txTimestamp tx) bytes)
          else newTransaction sha (txType tx) (txFrom tx) (txTo tx) (txAmount tx) (txFee tx)
                 (txNonce tx) (txTimestamp tx) (txInputLots tx)) =
         Inr (withTxId sha (tx\<lparr>txId := [], txBundle := None, txChainId := []\<rparr>))"
proof (cases "txData tx = []")
  case True
  then show ?thesis
    using assms unfolding payload_has [OF assms] by (cases tx) (auto simp: newTransaction_def printable_def)
next
  case False
  then have "extractField (txSigningPayload tx) ''dataHex'' = Inr (hexEncode (txData tx))"
    by (intro payload_field [OF assms, where n = "''dataHex''"]) (simp add: payload_lookup, simp_all add: suffix_to_prefix)
  then have "bindR (extractField (txSigningPayload tx) ''dataHex'') decodeTransactionData = Inr (txData tx)"
    using False assms data_read by (simp add: printable_def)
  moreover have "newDataTransaction sha (txType tx) (txFrom tx) (txTo tx) (txAmount tx) (txFee tx) (txNonce tx)
      (txTimestamp tx) (txData tx) = Inr (withTxId sha (tx\<lparr>txId := [], txBundle := None, txChainId := []\<rparr>))"
    using False assms by (cases tx) (simp add: newDataTransaction_def printable_def)
  ultimately show ?thesis using False by (simp add: payload_has [OF assms] del: bindR_Inr_iff)
qed

lemma payload_unbundled [simp]: "txSigningPayload (tx\<lparr>txBundle := b\<rparr>) = txSigningPayload tx"
  by (simp add: txSigningPayload_def)

lemma payload_unnamed [simp]: "txSigningPayload (tx\<lparr>txId := i\<rparr>) = txSigningPayload tx"
  by (simp add: txSigningPayload_def)

lemma parseUnsigned_payload:
  assumes "printable sha tx"
  shows "parseUnsigned sha (txSigningPayload tx) = Inr (tx\<lparr>txBundle := None\<rparr>)"
proof -
  let ?base = "withTxId sha (tx\<lparr>txId := [], txBundle := None, txChainId := []\<rparr>)"
  have chain: "extractField (txSigningPayload tx) ''chainId'' = Inr (txChainId tx)" if "txChainId tx \<noteq> []"
    using that by (intro payload_field [OF assms, where n = "''chainId''"]) (simp add: payload_lookup, simp_all add: suffix_to_prefix)
  have ident: "txId tx = computeTransactionIdFromPayload sha (txSigningPayload tx)"
    using assms by (simp add: printable_def)
  have "(if txChainId tx \<noteq> [] then withChainId sha (txChainId tx) ?base else Inr ?base) = Inr (tx\<lparr>txBundle := None\<rparr>)"
    using assms ident by (cases tx) (auto simp: withChainId_def withTxId_def printable_def txSigningPayload_def)
  then show ?thesis
    unfolding parseUnsigned_def payload_type payload_read [OF assms] payload_lots [OF assms] bindR.simps type_read
    unfolding payload_rebuild [OF assms] bindR.simps payload_has(3) [OF assms]
    using chain by (auto split: if_splits simp del: bindR_Inr_iff)
qed

subsection \<open>Reading back a transaction\<close>

lemma payload_start: "\<exists>rest. txSigningPayload tx = ''TransactionPayload{'' @ rest"
  by (simp add: txSigningPayload_def)

lemma hash_not_Nil: "nodo_hash_string sha s \<noteq> []"
  by (metis length_nodo_hash list.size(3) zero_neq_numeral)

lemma id_plain:
  assumes "printable sha tx"
  shows "CHR ''='' \<notin> set (txId tx)" "CHR '';'' \<notin> set (txId tx)" "txId tx \<noteq> []"
proof -
  have "txId tx = nodo_hash_string sha (txSigningPayload tx)"
    using assms by (simp add: printable_def computeTransactionIdFromPayload_def)
  then have "fieldText (txId tx)" by (simp add: hex_field nodo_hash_lower hash_not_Nil)
  then show "CHR ''='' \<notin> set (txId tx)" "CHR '';'' \<notin> set (txId tx)" "txId tx \<noteq> []"
    by (auto simp: fieldText_def list_all_iff)
qed

abbreviation bundleText :: "Transaction \<Rightarrow> string" where
  "bundleText tx \<equiv> (case txBundle tx of Some b \<Rightarrow> bundleSerialize b | None \<Rightarrow> ''NONE'')"

lemma serialized_id:
  assumes "printable sha tx"
  shows "extractField (txSerialize tx) ''id'' = Inr (txId tx)"
proof -
  let ?rest = "txId tx @ '';payload='' @ txSigningPayload tx @ '';signatureBundle='' @ bundleText tx @ ''}''"
  have "textAfter ''id='' (txSerialize tx) = Some ?rest"
    using textAfter_cut [of "CHR ''=''" "''id''" "''Transaction{id''" "[]" ?rest]
    by (simp add: txSerialize_def suffix_to_prefix)
  then show ?thesis
    using id_plain [OF assms] by (simp add: extractField_def takeWhile_field Let_def)
qed

text \<open>The search for the bundle passes over the payload.\<close>

lemma suffix_bundle: "CHR '';'' \<notin> set n \<Longrightarrow> suffix '';signatureBundle'' (x @ CHR '';'' # n) \<longleftrightarrow> n = ''signatureBundle''"
proof
  assume "CHR '';'' \<notin> set n" and "suffix '';signatureBundle'' (x @ CHR '';'' # n)"
  then obtain z where z: "x @ CHR '';'' # n = z @ CHR '';'' # ''signatureBundle''" by (auto simp: suffix_def)
  have "list_all (\<lambda>c. c \<noteq> CHR '';'') n" using \<open>CHR '';'' \<notin> set n\<close> by (auto simp: list_all_iff)
  then show "n = ''signatureBundle''"
    using delim_split_right [of "\<lambda>c. c \<noteq> CHR '';''" n "''signatureBundle''" "CHR '';''" x z] z by simp
qed (auto simp: suffix_def)

lemma bundle_after_payload:
  assumes "printable sha tx"
  shows "textAfter '';signatureBundle='' (txSigningPayload tx @ '';signatureBundle='' @ rest) = Some rest"
proof -
  let ?suf = "''}'' @ '';signatureBundle='' @ rest"
  have split: "txSigningPayload tx @ '';signatureBundle='' @ rest =
      ''TransactionPayload{type'' @ CHR ''='' # transactionTypeToString (txType tx) @ tailText ?suf (payloadFields tx)"
    by (simp add: txSigningPayload_def payloadFields_def encodeTransactionData_def)
  let ?v = "snd (last (payloadFields tx))"
  have un: "uncut (payloadFields tx)"
    using payload_fieldTexts [OF assms] by (auto simp: uncut_def fieldText_def list_all_iff)
  have ty: "CHR ''='' \<notin> set (transactionTypeToString (txType tx))"
    using type_plain [of "txType tx"] by (auto simp: fieldText_def list_all_iff)
  have names: "\<forall>kv\<in>set (payloadFields tx). \<forall>x. \<not> suffix '';signatureBundle'' (x @ CHR '';'' # fst kv)"
  proof -
    have "\<forall>kv\<in>set (payloadFields tx). CHR '';'' \<notin> set (fst kv) \<and> fst kv \<noteq> ''signatureBundle''"
      by (auto simp: payloadFields_def)
    then show ?thesis by (simp add: suffix_bundle)
  qed
  have ne: "payloadFields tx \<noteq> []" by (simp add: payloadFields_def)
  have "textAfter ('';signatureBundle'' @ CHR ''='' # []) (txSigningPayload tx @ '';signatureBundle'' @ CHR ''='' # rest) =
      textAfter ('';signatureBundle'' @ CHR ''='' # []) (?v @ ?suf)"
    using textAfter_cut [of "CHR ''=''" "'';signatureBundle''" "''TransactionPayload{type''" "[]"]
      textAfter_skip [OF _ ty un names, of "[]" ?suf] split ne
    by (simp add: suffix_to_prefix)
  also have "?v @ ?suf = (?v @ ''};signatureBundle'') @ CHR ''='' # rest" by simp
  also have "textAfter ('';signatureBundle'' @ CHR ''='' # []) \<dots> = Some rest"
  proof -
    have "CHR ''='' \<notin> set (?v @ ''};signatureBundle'')" using un ne by (auto simp: uncut_def)
    moreover have "suffix '';signatureBundle'' (?v @ ''};signatureBundle'')" by (simp add: suffix_to_prefix)
    ultimately show ?thesis by (subst textAfter_cut) simp_all
  qed
  finally show ?thesis by simp
qed

lemma serialized_payload:
  assumes "printable sha tx"
  shows "extractTransactionPayload (txSerialize tx) = Inr (txSigningPayload tx)"
proof -
  let ?tail = "'';signatureBundle='' @ bundleText tx @ ''}''"
  obtain r where r: "txSigningPayload tx = ''TransactionPayload{'' @ r" using payload_start by blast
  have whole: "txSerialize tx = ''Transaction{id'' @ CHR ''='' # (txId tx @ '';payload'') @ CHR ''='' # txSigningPayload tx @ ?tail"
    by (simp add: txSerialize_def)
  have "textAfter (''payload'' @ CHR ''='' # ''TransactionPayload{'') (txSerialize tx) =
      textAfter (''payload'' @ CHR ''='' # ''TransactionPayload{'') ((txId tx @ '';payload'') @ CHR ''='' # txSigningPayload tx @ ?tail)"
    unfolding whole by (subst textAfter_cut) (simp_all add: suffix_to_prefix)
  also have "\<dots> = Some (r @ ?tail)"
    using id_plain [OF assms] unfolding r by (subst textAfter_cut) (simp_all add: suffix_to_prefix)
  finally have start: "textAfter ''payload=TransactionPayload{'' (txSerialize tx) = Some (r @ ?tail)" by simp
  obtain n where n: "findSub '';signatureBundle='' (txSigningPayload tx @ ?tail) = Some n"
    "txSigningPayload tx @ ?tail = take n (txSigningPayload tx @ ?tail) @ '';signatureBundle='' @ bundleText tx @ ''}''"
    using findSub_split [OF bundle_after_payload [OF assms, of "bundleText tx @ ''}''"]] by blast
  then have cut: "take n (txSigningPayload tx @ ?tail) = txSigningPayload tx" by simp
  have "txSigningPayload tx \<noteq> []" using r by simp
  with cut have "n \<noteq> 0" by (metis take0)
  moreover have "''TransactionPayload{'' @ r @ ?tail = txSigningPayload tx @ ?tail" using r by simp
  ultimately show ?thesis
    unfolding extractTransactionPayload_def start option.case Let_def using n(1) cut by (simp only: option.case if_False)
qed

lemma serialized_bundle:
  assumes "printable sha tx"
  shows "extractSignatureBundle (txSerialize tx) = Inr (bundleText tx)"
proof -
  let ?tail = "'';signatureBundle='' @ bundleText tx @ ''}''"
  have whole: "txSerialize tx = ''Transaction{id'' @ CHR ''='' # (txId tx @ '';payload'') @ CHR ''='' # txSigningPayload tx @ ?tail"
    by (simp add: txSerialize_def)
  have "textAfter ('';signatureBundle'' @ CHR ''='' # []) (txSerialize tx) =
      textAfter ('';signatureBundle'' @ CHR ''='' # []) ((txId tx @ '';payload'') @ CHR ''='' # txSigningPayload tx @ ?tail)"
    unfolding whole by (subst textAfter_cut) (simp_all add: suffix_to_prefix)
  also have "\<dots> = textAfter ('';signatureBundle'' @ CHR ''='' # []) (txSigningPayload tx @ ?tail)"
    using id_plain [OF assms] by (subst textAfter_cut) (simp_all add: suffix_to_prefix)
  finally have "textAfter '';signatureBundle='' (txSerialize tx) = Some (bundleText tx @ ''}'')"
    using bundle_after_payload [OF assms, of "bundleText tx @ ''}''"] by simp
  moreover have "bundleText tx \<noteq> []" by (simp add: bundleSerialize_def split: option.splits)
  moreover have "last (txSerialize tx) = CHR ''}''" "txSerialize tx \<noteq> []" by (simp_all add: txSerialize_def)
  ultimately show ?thesis by (simp add: extractSignatureBundle_def not_le Suc_lessI)
qed

lemma rebundle: "txBundle tx = b \<Longrightarrow> tx\<lparr>txBundle := None\<rparr>\<lparr>txBundle := b\<rparr> = tx"
  by (cases tx) simp

lemma bundle_not_none: "bundleSerialize b \<noteq> ''NONE''"
  by (simp add: bundleSerialize_def)

lemma attach_read:
  assumes "printable sha tx"
  shows "(if bundleText tx \<noteq> ''NONE''
          then bindR (bundleDeserialize (bundleText tx)) (\<lambda>b. attachSignatureBundle b (tx\<lparr>txBundle := None\<rparr>))
          else Inr (tx\<lparr>txBundle := None\<rparr>)) = Inr tx"
proof (cases "txBundle tx")
  case None
  then show ?thesis using rebundle [OF None] by simp
next
  case (Some b)
  then have b: "textBundle b" using assms by (simp add: printable_def)
  have "bundleDeserialize (bundleSerialize b) = Inr b" using b by (rule bundle_roundtrip)
  moreover have "b \<noteq> []" using b by (simp add: textBundle_def)
  ultimately show ?thesis
    using rebundle [OF Some] Some
    by (simp add: attachSignatureBundle_def bundle_not_none del: bindR_Inr_iff)
qed

lemma transaction_read:
  assumes "printable sha tx"
  shows "txDeserialize sha (txSerialize tx) = Inr tx"
proof -
  have shape: "prefix ''Transaction{'' (txSerialize tx)" "last (txSerialize tx) = CHR ''}''" "txSerialize tx \<noteq> []"
    by (simp_all add: txSerialize_def)
  have start: "prefix ''TransactionPayload{'' (txSigningPayload tx)" using payload_start [of tx] by auto
  show ?thesis
    unfolding txDeserialize_def serialized_id [OF assms] serialized_payload [OF assms]
      parseUnsigned_payload [OF assms] serialized_bundle [OF assms] bindR.simps attach_read [OF assms]
    using shape start by simp
qed

subsection \<open>Transactions the class can hold\<close>

text \<open>
  The members are private: a transaction comes from one of the constructors and is changed by
  \<open>withChainId\<close> and \<open>attachSignatureBundle\<close> only. The ranges are those of the C++ types.
\<close>

inductive constructed :: "sha256 \<Rightarrow> Transaction \<Rightarrow> bool" for sha where
  with_lots: "newTransaction sha t sender target amount fee nonce timestamp lots = Inr tx \<Longrightarrow>
     amountOk amount \<Longrightarrow> amountOk fee \<Longrightarrow> in_i64 timestamp \<Longrightarrow> constructed sha tx"
| with_data: "newDataTransaction sha t sender target amount fee nonce timestamp payload = Inr tx \<Longrightarrow>
     amountOk amount \<Longrightarrow> amountOk fee \<Longrightarrow> in_i64 timestamp \<Longrightarrow> constructed sha tx"
| on_chain: "constructed sha tx \<Longrightarrow> withChainId sha chain tx = Inr tx' \<Longrightarrow> constructed sha tx'"
| signed: "constructed sha tx \<Longrightarrow> attachSignatureBundle b tx = Inr tx' \<Longrightarrow>
     distinct (map sigAlgorithm b) \<Longrightarrow> \<forall>s\<in>set b. in_i64 (sigCreatedAt s) \<Longrightarrow> constructed sha tx'"

lemma withTxId_fields:
  "txSigningPayload (withTxId sha tx) = txSigningPayload tx"
  "txId (withTxId sha tx) = computeTransactionIdFromPayload sha (txSigningPayload tx)"
  "txType (withTxId sha tx) = txType tx" "txFrom (withTxId sha tx) = txFrom tx" "txTo (withTxId sha tx) = txTo tx"
  "txAmount (withTxId sha tx) = txAmount tx" "txFee (withTxId sha tx) = txFee tx"
  "txNonce (withTxId sha tx) = txNonce tx"
  "txTimestamp (withTxId sha tx) = txTimestamp tx" "txInputLots (withTxId sha tx) = txInputLots tx"
  "txData (withTxId sha tx) = txData tx" "txBundle (withTxId sha tx) = txBundle tx"
  "txChainId (withTxId sha tx) = txChainId tx"
  by (simp_all add: withTxId_def)

definition wellTyped :: "sha256 \<Rightarrow> Transaction \<Rightarrow> bool" where
  "wellTyped sha tx \<longleftrightarrow>
     txId tx = computeTransactionIdFromPayload sha (txSigningPayload tx) \<and>
     amountOk (txAmount tx) \<and> amountOk (txFee tx) \<and> in_i64 (txTimestamp tx) \<and>
     areInputCoinLotIdsStructurallyValid (txInputLots tx) \<and> (txType tx \<noteq> TRANSFER \<longrightarrow> txInputLots tx = []) \<and>
     length (txData tx) \<le> MAX_TRANSACTION_DATA_BYTES \<and> (txData tx = [] \<or> txInputLots tx = []) \<and>
     (txChainId tx = [] \<or> isSafeTransactionAddress (txChainId tx)) \<and>
     (case txBundle tx of None \<Rightarrow> True
      | Some b \<Rightarrow> b \<noteq> [] \<and> distinct (map sigAlgorithm b) \<and> (\<forall>s\<in>set b. in_i64 (sigCreatedAt s)))"

lemma constructed_wellTyped: "constructed sha tx \<Longrightarrow> wellTyped sha tx"
proof (induction rule: constructed.induct)
  case (with_lots t sender target amount fee nonce timestamp lots tx)
  then show ?case
    by (auto simp: newTransaction_def wellTyped_def withTxId_fields split: if_splits)
next
  case (with_data t sender target amount fee nonce timestamp payload tx)
  then show ?case
    by (auto simp: newDataTransaction_def wellTyped_def withTxId_fields areInputCoinLotIdsStructurallyValid_def split: if_splits)
next
  case (on_chain tx chain tx')
  then show ?case
    by (auto simp: withChainId_def wellTyped_def withTxId_fields split: if_splits)
next
  case (signed tx b tx')
  then show ?case
    by (auto simp: attachSignatureBundle_def wellTyped_def split: if_splits)
qed

lemma user_key_plain:
  "isValidForPolicy policy Ctx_USER_TRANSACTION b \<Longrightarrow> s \<in> set b \<Longrightarrow>
     signatureValid s \<and> plainText (keyMaterial (sigPublicKey s))"
  by (auto simp: isValidForPolicy_def list_all_iff isAlgorithmAllowed_def isDevelopmentOnlyAlgorithm_def
      signatureValid_def publicKeyValid_def hasHexByteSize_def isHexString_def intro!: hex_plain split: if_splits)

lemma valid_printable:
  assumes "constructed sha tx" and "txStructurallyValid sha policy Ctx_USER_TRANSACTION tx"
    and "list_all (\<lambda>i. CHR ''='' \<notin> set i) (txInputLots tx)"
  shows "printable sha tx"
proof -
  obtain b where b: "txBundle tx = Some b" "isValidForPolicy policy Ctx_USER_TRANSACTION b"
    using assms(2) by (auto simp: txStructurallyValid_def split: option.splits)
  have typed: "wellTyped sha tx" using assms(1) by (rule constructed_wellTyped)
  then have "textBundle b"
    using user_key_plain [OF b(2)] b(1) by (auto simp: wellTyped_def textBundle_def textSignature_def list_all_iff)
  then show ?thesis
    using typed assms(2,3) b(1) by (auto simp: wellTyped_def printable_def txStructurallyValid_def)
qed

subsection \<open>Properties\<close>



text \<open>
  The identifier covers the payload only up to its first zero byte, which an address may contain:
  two transfers that differ in amount, fee, nonce and timestamp share their identifier when their
  target has a zero byte.
\<close>

theorem transaction_id_stops_at_zero_byte:
  assumes "txTo tx = a @ CHR 0x00 # rest" and "CHR 0x00 \<notin> set (txFrom tx)" and "CHR 0x00 \<notin> set a"
  shows "computeTransactionIdFromPayload sha
           (txSigningPayload (tx\<lparr>txTo := a @ CHR 0x00 # rest', txAmount := amount, txFee := fee,
              txNonce := nonce, txTimestamp := timestamp\<rparr>)) =
         computeTransactionIdFromPayload sha (txSigningPayload tx)"
proof -
  let ?pre = "''TransactionPayload{type='' @ transactionTypeToString (txType tx) @ '';from='' @ txFrom tx @ '';to='' @ a"
  have "CHR 0x00 \<notin> set (transactionTypeToString (txType tx))" by (cases "txType tx") simp_all
  then have cut: "takeWhile (\<lambda>c. c \<noteq> CHR 0x00) (?pre @ CHR 0x00 # x) = ?pre" for x
    using assms(2,3) by (intro takeWhile_field) auto
  have "\<exists>x. txSigningPayload (tx\<lparr>txTo := a @ CHR 0x00 # rest', txAmount := amount, txFee := fee,
      txNonce := nonce, txTimestamp := timestamp\<rparr>) = ?pre @ CHR 0x00 # x"
    by (simp add: txSigningPayload_def)
  moreover have "\<exists>x. txSigningPayload tx = ?pre @ CHR 0x00 # x"
    using assms(1) by (simp add: txSigningPayload_def)
  ultimately show ?thesis
    using cut by (auto simp only: computeTransactionIdFromPayload_def nodo_hash_string_def)
qed

subsection \<open>A demonstration transfer\<close>

definition demoUserSignature :: Signature where
  "demoUserSignature = \<lparr>sigSuite = NODO_CRYPTO_SUITE_V1, sigDomain = USER_TRANSACTION,
     sigAlgorithm = CLASSIC_ED25519,
     sigPublicKey = \<lparr>pkAlgorithm = CLASSIC_ED25519, keyMaterial = replicate 64 CHR ''7''\<rparr>,
     signatureHex = ''ab'', sigCreatedAt = 9\<rparr>"

definition demoUserPolicy :: CryptoPolicy where
  "demoUserPolicy = \<lparr>developmentMode = False\<rparr>"

definition demoTransfer :: "string list \<Rightarrow> u64 \<Rightarrow> Transaction" where
  "demoTransfer lots nonce = withTxId demoSha
     \<lparr>txId = [], txType = TRANSFER, txFrom = ''alice'', txTo = ''bob'', txAmount = Amount 5, txFee = Amount 1,
      txNonce = nonce, txTimestamp = 9, txInputLots = lots, txData = [], txBundle = Some [demoUserSignature],
      txChainId = ''nodo''\<rparr>"

lemma withTxId_cong: "withTxId sha (tx\<lparr>txId := i\<rparr>) = withTxId sha tx"
  by (simp add: withTxId_def)

lemma demo_constructed:
  assumes "areInputCoinLotIdsStructurallyValid lots"
  shows "constructed demoSha (demoTransfer lots nonce)"
proof -
  let ?new = "newTransaction demoSha TRANSFER ''alice'' ''bob'' (Amount 5) (Amount 1) nonce 9 lots"
  obtain t0 where t0: "?new = Inr t0" using assms by (simp add: newTransaction_def)
  have ranges: "amountOk (Amount 5)" "amountOk (Amount 1)" "in_i64 9" "in_i64 (sigCreatedAt demoUserSignature)"
    by (simp_all add: amountOk_def in_i64_def I64_MAX_def I64_MIN_def demoUserSignature_def)
  have c0: "constructed demoSha t0" by (rule with_lots [OF t0 ranges(1-3)])
  have "isSafeTransactionAddress ''nodo''" by (simp add: isSafeTransactionAddress_def MAX_ADDRESS_LENGTH_def)
  moreover have "txBundle t0 = None" using t0 assms by (auto simp: newTransaction_def withTxId_fields)
  ultimately obtain t1 where t1: "withChainId demoSha ''nodo'' t0 = Inr t1" by (simp add: withChainId_def)
  have c1: "constructed demoSha t1" by (rule on_chain [OF c0 t1])
  have "attachSignatureBundle [demoUserSignature] t1 = Inr (demoTransfer lots nonce)"
    using t0 t1 assms
    by (auto simp: attachSignatureBundle_def withChainId_def newTransaction_def demoTransfer_def withTxId_def
        txSigningPayload_def split: if_splits)
  then show ?thesis by (rule signed [OF c1]) (simp_all add: ranges)
qed

lemma demo_valid:
  assumes "areInputCoinLotIdsStructurallyValid lots" and "nonce \<noteq> 0"
  shows "txStructurallyValid demoSha demoUserPolicy Ctx_USER_TRANSACTION (demoTransfer lots nonce)"
proof -
  have "isValidForPolicy demoUserPolicy Ctx_USER_TRANSACTION [demoUserSignature]"
    by (simp add: isValidForPolicy_def demoUserSignature_def signatureValid_def isSupportedCryptoSuite_def
        publicKeyValid_def hasHexByteSize_def isHexString_def isHexDigit_def isSafeSignatureHex_def
        isAlgorithmAllowed_def isDevelopmentOnlyAlgorithm_def isSigningDomainAllowedForContext_def)
  moreover have "isSafeTransactionAddress ''alice''" "isSafeTransactionAddress ''bob''"
    by (simp_all add: isSafeTransactionAddress_def MAX_ADDRESS_LENGTH_def)
  moreover have "txId (demoTransfer lots nonce) \<noteq> []"
    by (simp add: demoTransfer_def withTxId_fields computeTransactionIdFromPayload_def hash_not_Nil)
  ultimately show ?thesis
    using assms
    by (simp add: txStructurallyValid_def demoTransfer_def withTxId_fields validateShape_def policyFor_def policies_def
        isPositive_def isNegative_def)
qed

lemma demo_lots: "areInputCoinLotIdsStructurallyValid []" "areInputCoinLotIdsStructurallyValid [''dataHex=z'']"
  by (simp_all add: areInputCoinLotIdsStructurallyValid_def isSafeCoinLotInputId_def MAX_COIN_LOT_ID_LENGTH_def
      MAX_EXPLICIT_INPUT_COIN_LOTS_def)



theorem transaction_id_stops_at_zero_byte_witness:
  "computeTransactionIdFromPayload demoSha
     (txSigningPayload ((demoTransfer [] 1)\<lparr>txTo := [CHR ''b'', CHR 0x00]\<rparr>\<lparr>txTo := ''b'' @ CHR 0x00 # ''x'',
        txAmount := Amount 500, txFee := Amount 2, txNonce := 7, txTimestamp := 11\<rparr>)) =
   computeTransactionIdFromPayload demoSha
     (txSigningPayload ((demoTransfer [] 1)\<lparr>txTo := [CHR ''b'', CHR 0x00]\<rparr>))"
  by (rule transaction_id_stops_at_zero_byte [where rest = "[]"]) (simp_all add: demoTransfer_def withTxId_fields)

text \<open>
  C36: Every transaction a node can build keeps the class invariant: whatever the constructors, the
  binding to a chain and the attachment of a bundle return has the identifier of its own payload,
  amounts and times in the range of their machine types, declared lots only on transfers, each
  valid and none repeated, no data beside declared lots, and a bundle with one signature per
  algorithm.
\<close>

theorem transaction_well_typed:
  assumes "constructed sha tx"
  shows "wellTyped sha tx"
  using assms by (rule constructed_wellTyped)

theorem transaction_well_typed_witness: "wellTyped demoSha (demoTransfer [''dataHex=z''] 1)"
  by (rule transaction_well_typed [OF demo_constructed [OF demo_lots(2)]])

text \<open>
  An input lot identifier may contain an equal sign, and the parser searches the payload for
  field names: a structurally valid, signed transfer that spends a lot named \<open>dataHex=z\<close> prints to
  a text that is rejected.
\<close>

theorem lot_identifier_breaks_parsing:
  "\<exists>tx. constructed demoSha tx \<and> txStructurallyValid demoSha demoUserPolicy Ctx_USER_TRANSACTION tx \<and>
        \<not> isInr (txDeserialize demoSha (txSerialize tx))"
proof -
  have "\<not> isInr (txDeserialize demoSha (txSerialize (demoTransfer [''dataHex=z''] 1)))" by code_simp
  then show ?thesis
    using demo_constructed [OF demo_lots(2), of 1] demo_valid [OF demo_lots(2), of 1] by auto
qed

end
