(* ===== verification/LotTransfers.thy ===== *)
theory LotTransfers
  imports CoinLots Transactions
begin

section \<open>Transfers of coin lots\<close>

text \<open>
  \<open>src/core/CoinLotTransactionValidator.cpp\<close> and \<open>src/core/CoinLotTransferPlan.cpp\<close>: a transfer
  names the lots it spends, or the node takes the sender's lots in map order; the inputs are cut
  into outputs for the recipient, the fee pool and the sender's change; the plan is checked, then
  applied to the registry. The lemmas follow the allocation loop by what each owner has received,
  and show what a transfer does to the spendable value of every owner.
\<close>

subsection \<open>Selection of the inputs\<close>

fun exnWhat :: "exn \<Rightarrow> string" where
  "exnWhat (InvalidArgument s) = s"
| "exnWhat (LogicError s) = s"
| "exnWhat (OverflowError s) = s"
| "exnWhat (UnderflowError s) = s"
| "exnWhat (OutOfRange s) = s"
| "exnWhat (LengthError s) = s"
| "exnWhat (RuntimeError s) = s"

definition feePoolAddress :: string where
  "feePoolAddress = ''nodo_fee_pool''"

fun selectExplicit ::
    "CoinLotRegistry \<Rightarrow> string \<Rightarrow> string list \<Rightarrow> CoinLot list \<Rightarrow> Amount \<Rightarrow> string list
       \<Rightarrow> (CoinLot list \<times> Amount) result" where
  "selectExplicit reg sender seen selected collected [] = Inr (selected, collected)"
| "selectExplicit reg sender seen selected collected (i # is) =
     (if List.member seen i then Inl (InvalidArgument ''Duplicate explicit input CoinLot id rejected.'')
      else case verifySpendable reg i sender of
        Some reason \<Rightarrow> Inl (InvalidArgument (''Explicit input CoinLot is not spendable: '' @ reason))
      | None \<Rightarrow>
          bindR (lot reg i) (\<lambda>l.
          bindR (amountAdd collected (lotAmount l)) (\<lambda>collected'.
          selectExplicit reg sender (i # seen) (selected @ [l]) collected' is)))"

fun selectInOrder ::
    "string \<Rightarrow> Amount \<Rightarrow> CoinLot list \<Rightarrow> Amount \<Rightarrow> CoinLotRegistry \<Rightarrow> (CoinLot list \<times> Amount) result" where
  "selectInOrder sender totalDebit selected collected [] = Inr (selected, collected)"
| "selectInOrder sender totalDebit selected collected ((_, l) # es) =
     (if ownerAddress l \<noteq> sender \<or> \<not> isSpendable l then selectInOrder sender totalDebit selected collected es
      else bindR (amountAdd collected (lotAmount l)) (\<lambda>collected'.
           if totalDebit \<le> collected' then Inr (selected @ [l], collected')
           else selectInOrder sender totalDebit (selected @ [l]) collected' es))"

definition selectInputLots :: "Transaction \<Rightarrow> CoinLotRegistry \<Rightarrow> Amount \<Rightarrow> CoinLot list result" where
  "selectInputLots tx reg totalDebit =
     (if txInputLots tx \<noteq> []
      then bindR (selectExplicit reg (txFrom tx) [] [] zeroAmount (txInputLots tx)) (\<lambda>(selected, collected).
             if collected < totalDebit
             then Inl (InvalidArgument ''Explicit input CoinLots do not cover transfer amount plus fee.'')
             else Inr selected)
      else bindR (selectInOrder (txFrom tx) totalDebit [] zeroAmount reg) (\<lambda>(selected, collected).
             if collected < totalDebit
             then Inl (InvalidArgument ''Insufficient spendable CoinLot balance for transfer.'')
             else Inr selected))"

subsection \<open>Validation\<close>

fun checkSelected ::
    "Transaction \<Rightarrow> Amount \<Rightarrow> string list \<Rightarrow> Amount \<Rightarrow> CoinLot list \<Rightarrow> string option result" where
  "checkSelected tx totalDebit seen collected [] =
     Inr (if collected < totalDebit
          then Some ''Selected input CoinLots do not cover transfer amount plus fee.'' else None)"
| "checkSelected tx totalDebit seen collected (l # ls) =
     (if \<not> lotValid l then Inr (Some ''Selected input CoinLot is invalid.'')
      else if ownerAddress l \<noteq> txFrom tx then Inr (Some ''Selected input CoinLot owner mismatch.'')
      else if \<not> isSpendable l then Inr (Some ''Selected input CoinLot is not spendable.'')
      else if List.member seen (lotId l) then Inr (Some ''Duplicate selected input CoinLot id rejected.'')
      else bindR (amountAdd collected (lotAmount l)) (\<lambda>collected'.
           checkSelected tx totalDebit (lotId l # seen) collected' ls))"

definition validateSelectedInputLots :: "Transaction \<Rightarrow> CoinLot list \<Rightarrow> Amount \<Rightarrow> string option result" where
  "validateSelectedInputLots tx selected totalDebit =
     (if selected = [] then Inr (Some ''Transfer has no selected input CoinLots.'')
      else checkSelected tx totalDebit [] zeroAmount selected)"

text \<open>\<open>None\<close> is \<open>valid()\<close>; the addition before the \<open>try\<close> block may throw.\<close>

definition validateTransferTransaction :: "Transaction \<Rightarrow> CoinLotRegistry \<Rightarrow> string option result" where
  "validateTransferTransaction tx reg =
     (if txType tx \<noteq> TRANSFER
      then Inr (Some ''Only TRANSFER transactions can be validated against CoinLotRegistry.'')
      else if txId tx = [] then Inr (Some ''Transaction id is empty.'')
      else if txFrom tx = [] \<or> txTo tx = [] then Inr (Some ''Transfer addresses cannot be empty.'')
      else if txFrom tx = txTo tx then Inr (Some ''Transfer sender and recipient cannot be the same.'')
      else if \<not> isPositive (txAmount tx) then Inr (Some ''Transfer amount must be positive.'')
      else if isNegative (txFee tx) then Inr (Some ''Transfer fee cannot be negative.'')
      else if txNonce tx = 0 then Inr (Some ''Transfer nonce must be positive.'')
      else if txTimestamp tx \<le> 0 then Inr (Some ''Transfer timestamp must be positive.'')
      else if \<not> registryValid reg then Inr (Some ''CoinLotRegistry is invalid.'')
      else bindR (amountAdd (txAmount tx) (txFee tx)) (\<lambda>totalDebit.
        if \<not> isPositive totalDebit then Inr (Some ''Transfer total debit must be positive.'')
        else case bindR (selectInputLots tx reg totalDebit) (\<lambda>selected.
                    validateSelectedInputLots tx selected totalDebit) of
               Inl e \<Rightarrow> Inr (Some (exnWhat e))
             | Inr r \<Rightarrow> Inr r))"

subsection \<open>The plan\<close>

record CoinLotTransferPlan =
  planTransactionId :: string
  planSender :: string
  planRecipient :: string
  planInputIds :: "string list"
  planOutputs :: "CoinLot list"
  planTransfer :: Amount
  planFee :: Amount
  planChange :: Amount
  planTotalInput :: Amount

definition planValid :: "CoinLotTransferPlan \<Rightarrow> bool result" where
  "planValid p =
     (if planTransactionId p = [] \<or> planSender p = [] \<or> planRecipient p = [] \<or>
         planSender p = planRecipient p \<or> planInputIds p = [] \<or> planOutputs p = [] \<or>
         \<not> isPositive (planTransfer p) \<or> isNegative (planFee p) \<or> isNegative (planChange p) \<or>
         \<not> isPositive (planTotalInput p)
      then Inr False
      else bindR (bindR (amountAdd (planTransfer p) (planFee p)) (\<lambda>d. amountAdd d (planChange p))) (\<lambda>debit.
           if debit \<noteq> planTotalInput p then Inr False
           else bindR (sumLots (planOutputs p)) (\<lambda>out.
           if out \<noteq> planTotalInput p then Inr False
           else Inr (list_all (\<lambda>i. i \<noteq> []) (planInputIds p) \<and> distinct (planInputIds p) \<and>
                     list_all (\<lambda>l. lotValid l \<and> isAvailable l) (planOutputs p) \<and>
                     distinct (map lotId (planOutputs p))))))"

definition createTransferOutputCoinLotId :: "Transaction \<Rightarrow> CoinLot \<Rightarrow> string \<Rightarrow> nat \<Rightarrow> string" where
  "createTransferOutputCoinLotId tx input kind index =
     ''coinlot_from_tx_'' @ txId tx @ ''_input_'' @ lotId input @ ''_'' @ kind @ ''_'' @ showNat index"

definition outputIdAlreadyExists :: "CoinLotRegistry \<Rightarrow> CoinLot list \<Rightarrow> string \<Rightarrow> bool" where
  "outputIdAlreadyExists reg pending i \<longleftrightarrow> hasLot reg i \<or> list_ex (\<lambda>l. lotId l = i) pending"

text \<open>The variables of the allocation: what is still due to the recipient and as fee, and the outputs.\<close>

record Allocation =
  dueRecipient :: Amount
  dueFee :: Amount
  allocOutputs :: "CoinLot list"
  allocIndex :: nat

definition createOutput ::
    "Transaction \<Rightarrow> CoinLotRegistry \<Rightarrow> u64 \<Rightarrow> CoinLot \<Rightarrow> string \<Rightarrow> Amount \<Rightarrow> string \<Rightarrow> Allocation \<Rightarrow> Allocation result" where
  "createOutput tx reg block input owner amount kind st =
     (if \<not> isPositive amount then Inr st
      else let i = createTransferOutputCoinLotId tx input kind (allocIndex st)
           in if outputIdAlreadyExists reg (allocOutputs st) i
              then Inl (LogicError ''Generated transfer output CoinLot id already exists.'')
              else let out = \<lparr>lotId = i, originMintRecordId = originMintRecordId input, ownerAddress = owner,
                              lotAmount = amount, lotStatus = AVAILABLE, createdAtBlock = block,
                              lockedUntilBlock = 0, lotTimestamp = txTimestamp tx\<rparr>
                   in if \<not> lotValid out then Inl (LogicError ''Generated transfer output CoinLot is invalid.'')
                      else Inr (st\<lparr>allocOutputs := allocOutputs st @ [out], allocIndex := allocIndex st + 1\<rparr>))"

text \<open>The \<open>while\<close> loop over the remaining amount of one input.\<close>

function allocate ::
    "Transaction \<Rightarrow> CoinLotRegistry \<Rightarrow> u64 \<Rightarrow> CoinLot \<Rightarrow> Amount \<Rightarrow> Allocation \<Rightarrow> Allocation result" where
  "allocate tx reg block input left st =
     (if \<not> isPositive left then Inr st
      else if isPositive (dueRecipient st)
      then let part = min left (dueRecipient st)
           in case createOutput tx reg block input (txTo tx) part ''recipient'' st of
                Inl e \<Rightarrow> Inl e
              | Inr st' \<Rightarrow> (case (amountSub left part, amountSub (dueRecipient st') part) of
                  (Inr left', Inr due) \<Rightarrow> allocate tx reg block input left' (st'\<lparr>dueRecipient := due\<rparr>)
                | (Inl e, _) \<Rightarrow> Inl e
                | (_, Inl e) \<Rightarrow> Inl e)
      else if isPositive (dueFee st)
      then let part = min left (dueFee st)
           in case createOutput tx reg block input feePoolAddress part ''fee'' st of
                Inl e \<Rightarrow> Inl e
              | Inr st' \<Rightarrow> (case (amountSub left part, amountSub (dueFee st') part) of
                  (Inr left', Inr due) \<Rightarrow> allocate tx reg block input left' (st'\<lparr>dueFee := due\<rparr>)
                | (Inl e, _) \<Rightarrow> Inl e
                | (_, Inl e) \<Rightarrow> Inl e)
      else createOutput tx reg block input (txFrom tx) left ''change'' st)"
  by pat_completeness auto
termination
  by (relation "measure (\<lambda>(tx, reg, block, input, left, st). nat (rawUnits left))")
    (auto simp: amountSub_def newAmount_def isPositive_def min_def less_eq_Amount_def split: if_splits)

declare allocate.simps [simp del]

fun allocateAll ::
    "Transaction \<Rightarrow> CoinLotRegistry \<Rightarrow> u64 \<Rightarrow> Amount \<Rightarrow> Allocation \<Rightarrow> CoinLot list \<Rightarrow> (Amount \<times> Allocation) result" where
  "allocateAll tx reg block collected st [] = Inr (collected, st)"
| "allocateAll tx reg block collected st (l # ls) =
     bindR (amountAdd collected (lotAmount l)) (\<lambda>collected'.
     bindR (allocate tx reg block l (lotAmount l) st) (\<lambda>st'.
     allocateAll tx reg block collected' st' ls))"

definition buildTransferPlan :: "Transaction \<Rightarrow> CoinLotRegistry \<Rightarrow> u64 \<Rightarrow> CoinLotTransferPlan result" where
  "buildTransferPlan tx reg block =
     bindR (validateTransferTransaction tx reg) (\<lambda>validation.
     case validation of
       Some reason \<Rightarrow> Inl (InvalidArgument (''Cannot build CoinLotTransferPlan: '' @ reason))
     | None \<Rightarrow>
         bindR (amountAdd (txAmount tx) (txFee tx)) (\<lambda>totalDebit.
         bindR (selectInputLots tx reg totalDebit) (\<lambda>selected.
         bindR (allocateAll tx reg block zeroAmount
                  \<lparr>dueRecipient = txAmount tx, dueFee = txFee tx, allocOutputs = [], allocIndex = 0\<rparr> selected)
           (\<lambda>(collected, st).
         if collected < totalDebit
         then Inl (LogicError ''CoinLotTransferPlan collected less than required debit.'')
         else if isPositive (dueRecipient st) \<or> isPositive (dueFee st)
         then Inl (LogicError ''CoinLotTransferPlan output allocation failed.'')
         else bindR (amountSub collected totalDebit) (\<lambda>change.
           let plan = \<lparr>planTransactionId = txId tx, planSender = txFrom tx, planRecipient = txTo tx,
                       planInputIds = map lotId selected, planOutputs = allocOutputs st,
                       planTransfer = txAmount tx, planFee = txFee tx, planChange = change,
                       planTotalInput = collected\<rparr>
           in bindR (planValid plan) (\<lambda>ok.
              if \<not> ok then Inl (LogicError ''Generated CoinLotTransferPlan is invalid.'') else Inr plan))))))"

subsection \<open>Application\<close>

fun checkInputs :: "Transaction \<Rightarrow> CoinLotRegistry \<Rightarrow> string list \<Rightarrow> unit result" where
  "checkInputs tx reg [] = Inr ()"
| "checkInputs tx reg (i # is) =
     (case verifySpendable reg i (txFrom tx) of
        Some reason \<Rightarrow> Inl (InvalidArgument (''Input CoinLot became invalid before transfer application: '' @ reason))
      | None \<Rightarrow> checkInputs tx reg is)"

fun checkOutputs :: "CoinLotRegistry \<Rightarrow> CoinLot list \<Rightarrow> unit result" where
  "checkOutputs reg [] = Inr ()"
| "checkOutputs reg (l # ls) =
     (if \<not> lotValid l then Inl (LogicError ''Transfer output lot is invalid before application.'')
      else if hasLot reg (lotId l) then Inl (LogicError ''Transfer output lot already exists before application.'')
      else checkOutputs reg ls)"

fun markAllSpent :: "string \<Rightarrow> string list \<Rightarrow> CoinLotRegistry \<Rightarrow> (unit, CoinLotRegistry) outcome" where
  "markAllSpent owner [] reg = (Inr (), reg)"
| "markAllSpent owner (i # is) reg =
     (case markSpent i owner reg of (Inl e, reg') \<Rightarrow> (Inl e, reg') | (Inr _, reg') \<Rightarrow> markAllSpent owner is reg')"

definition applyTransfer :: "Transaction \<Rightarrow> u64 \<Rightarrow> CoinLotRegistry \<Rightarrow> (unit, CoinLotRegistry) outcome" where
  "applyTransfer tx block reg =
     (case bindR (buildTransferPlan tx reg block) (\<lambda>plan.
             bindR (checkInputs tx reg (planInputIds plan)) (\<lambda>_.
             bindR (checkOutputs reg (planOutputs plan)) (\<lambda>_. Inr plan))) of
        Inl e \<Rightarrow> (Inl e, reg)
      | Inr plan \<Rightarrow>
          (case markAllSpent (txFrom tx) (planInputIds plan) reg of
             (Inl e, reg') \<Rightarrow> (Inl e, reg')
           | (Inr _, reg') \<Rightarrow> addLots (planOutputs plan) reg'))"

subsection \<open>What the inputs are\<close>

definition inputOk :: "Transaction \<Rightarrow> CoinLotRegistry \<Rightarrow> CoinLot \<Rightarrow> bool" where
  "inputOk tx reg l \<longleftrightarrow>
     map_of reg (lotId l) = Some l \<and> ownerAddress l = txFrom tx \<and> isAvailable l \<and> amountOk (lotAmount l) \<and> lotValid l"

lemma lotsInv_lookup:
  "lotsInv reg \<Longrightarrow> map_of reg i = Some l \<Longrightarrow> i = lotId l \<and> lotValid l \<and> amountOk (lotAmount l)"
  by (auto simp: lotsInv_iff)

lemma selectExplicit_ok:
  assumes "selectExplicit reg (txFrom tx) seen selected collected is = Inr (sel, c)" and "lotsInv reg"
    and "\<forall>l\<in>set selected. inputOk tx reg l"
  shows "(\<forall>l\<in>set sel. inputOk tx reg l) \<and> map lotId sel = map lotId selected @ is"
  using assms
proof (induction reg "txFrom tx" seen selected collected "is" rule: selectExplicit.induct)
  case (2 reg seen selected collected i "is")
  obtain l c' where v: "i \<notin> set seen" "verifySpendable reg i (txFrom tx) = None" "lot reg i = Inr l"
    "amountAdd collected (lotAmount l) = Inr c'"
    and rec: "selectExplicit reg (txFrom tx) (i # seen) (selected @ [l]) c' is = Inr (sel, c)"
    using 2(2) by (auto split: if_splits option.splits)
  have at: "map_of reg i = Some l" using v(3) by (auto simp: lot_def split: option.splits)
  then have l: "i = lotId l" "inputOk tx reg l"
    using v(2) lotsInv_lookup [OF 2(3)] by (auto simp: inputOk_def verifySpendable_None)
  moreover have "(\<forall>l\<in>set sel. inputOk tx reg l) \<and> map lotId sel = map lotId (selected @ [l]) @ is"
    using 2(4) l(2) v(1) by (intro 2(1) [OF _ v(2) rec 2(3)]) auto
  ultimately show ?case by simp
qed simp

lemma selectInOrder_ok:
  assumes "selectInOrder (txFrom tx) d selected collected es = Inr (sel, c)" and "lotsInv reg" and "set es \<subseteq> set reg"
    and "\<forall>l\<in>set selected. inputOk tx reg l"
  shows "\<forall>l\<in>set sel. inputOk tx reg l"
  using assms(1,3,4)
proof (induction es arbitrary: selected collected)
  case (Cons e es)
  obtain i l where e: "e = (i, l)" by (cases e)
  show ?case
  proof (cases "ownerAddress l \<noteq> txFrom tx \<or> \<not> isSpendable l")
    case True
    then show ?thesis using Cons e by auto
  next
    case False
    have "map_of reg i = Some l" using Cons.prems(2) e assms(2) by (simp add: lotsInv_iff map_of_eq_Some_iff_mem)
    then have "inputOk tx reg l"
      using False lotsInv_lookup [OF assms(2)] by (auto simp: inputOk_def lot_status_defs)
    then have ok: "\<forall>x\<in>set (selected @ [l]). inputOk tx reg x" using Cons.prems(3) by simp
    obtain c' where "amountAdd collected (lotAmount l) = Inr c'"
      and "(if d \<le> c' then Inr (selected @ [l], c') else selectInOrder (txFrom tx) d (selected @ [l]) c' es) = Inr (sel, c)"
      using Cons.prems(1) False e by auto
    then show ?thesis using ok Cons.IH [of "selected @ [l]" c'] Cons.prems(2) by (auto split: if_splits)
  qed
qed simp

lemma selectInputLots_ok:
  assumes "selectInputLots tx reg d = Inr sel" and "lotsInv reg"
  shows "\<forall>l\<in>set sel. inputOk tx reg l" "txInputLots tx \<noteq> [] \<Longrightarrow> map lotId sel = txInputLots tx"
  using assms selectExplicit_ok [OF _ assms(2), where selected = "[]"] selectInOrder_ok [OF _ assms(2) order_refl, where selected = "[]"]
  by (fastforce simp: selectInputLots_def split: if_splits)+

subsection \<open>What the outputs give\<close>

definition received :: "CoinLot list \<Rightarrow> string \<Rightarrow> int" where
  "received outs a = (\<Sum>l\<leftarrow>outs. if ownerAddress l = a then rawUnits (lotAmount l) else 0)"

definition outputOk :: "CoinLotRegistry \<Rightarrow> CoinLot \<Rightarrow> bool" where
  "outputOk reg l \<longleftrightarrow> lotValid l \<and> isAvailable l \<and> amountOk (lotAmount l) \<and> map_of reg (lotId l) = None"

text \<open>The outputs after an amount \<open>c\<close> of inputs: what is no longer due has been given, the rest is change.\<close>

definition allocated :: "Transaction \<Rightarrow> CoinLotRegistry \<Rightarrow> int \<Rightarrow> Allocation \<Rightarrow> bool" where
  "allocated tx reg c st \<longleftrightarrow>
     amountOk (dueRecipient st) \<and> amountOk (dueFee st) \<and> list_all (outputOk reg) (allocOutputs st) \<and>
     (\<forall>a. received (allocOutputs st) a =
        (let toRecipient = rawUnits (txAmount tx) - rawUnits (dueRecipient st);
             toPool = rawUnits (txFee tx) - rawUnits (dueFee st)
         in (if a = txTo tx then toRecipient else 0) + (if a = feePoolAddress then toPool else 0) +
            (if a = txFrom tx then c - toRecipient - toPool else 0)))"

lemma received_snoc: "received (outs @ [l]) a = received outs a + (if ownerAddress l = a then rawUnits (lotAmount l) else 0)"
  by (simp add: received_def)

lemma createOutput_Inr:
  assumes "createOutput tx reg block input owner amount kind st = Inr st'" and "isPositive amount" and "amountOk amount"
  obtains l where "allocOutputs st' = allocOutputs st @ [l]" "dueRecipient st' = dueRecipient st" "dueFee st' = dueFee st"
    "ownerAddress l = owner" "lotAmount l = amount" "outputOk reg l"
  using assms that
  by (auto simp: createOutput_def Let_def outputIdAlreadyExists_def hasLot_def outputOk_def isAvailable_def split: if_splits)

lemma amountOk_part:
  assumes "isPositive x" and "isPositive y" and "amountOk x" and "amountOk y"
  shows "isPositive (min x y)" "amountOk (min x y)"
    "amountSub x (min x y) = Inr (Amount (rawUnits x - rawUnits (min x y)))"
    "amountSub y (min x y) = Inr (Amount (rawUnits y - rawUnits (min x y)))"
    "amountOk (Amount (rawUnits x - rawUnits (min x y)))" "amountOk (Amount (rawUnits y - rawUnits (min x y)))"
  using assms by (auto simp: min_def less_eq_Amount_def amountSub_ok amountOk_def isPositive_def)

lemma allocate_allocated:
  assumes "allocate tx reg block input left st = Inr st'" and "allocated tx reg c st" and "amountOk left"
  shows "allocated tx reg (c + rawUnits left) st'"
  using assms
proof (induction "nat (rawUnits left)" arbitrary: left st c rule: less_induct)
  case less
  note simps = allocate.simps [of tx reg block input left st]
  have due: "amountOk (dueRecipient st)" "amountOk (dueFee st)" using less.prems(2) by (simp_all add: allocated_def)
  consider (none) "\<not> isPositive left" | (recipient) "isPositive left" "isPositive (dueRecipient st)"
    | (fee) "isPositive left" "\<not> isPositive (dueRecipient st)" "isPositive (dueFee st)"
    | (change) "isPositive left" "\<not> isPositive (dueRecipient st)" "\<not> isPositive (dueFee st)" by blast
  then show ?case
  proof cases
    case none
    then have "rawUnits left = 0" using less.prems(3) by (simp add: isPositive_def amountOk_def)
    then show ?thesis using less.prems(1,2) none by (simp add: simps)
  next
    case recipient
    let ?part = "min left (dueRecipient st)"
    let ?left = "Amount (rawUnits left - rawUnits ?part)" and ?due = "Amount (rawUnits (dueRecipient st) - rawUnits ?part)"
    note part = amountOk_part [OF recipient less.prems(3) due(1)]
    obtain st1 where c1: "createOutput tx reg block input (txTo tx) ?part ''recipient'' st = Inr st1"
      using less.prems(1) recipient by (auto simp: simps Let_def split: sum.splits)
    from createOutput_Inr [OF c1 part(1,2)] obtain l where l: "allocOutputs st1 = allocOutputs st @ [l]"
      "dueRecipient st1 = dueRecipient st" "dueFee st1 = dueFee st" "ownerAddress l = txTo tx" "lotAmount l = ?part" "outputOk reg l"
      by blast
    have rec: "allocate tx reg block input ?left (st1\<lparr>dueRecipient := ?due\<rparr>) = Inr st'"
      using less.prems(1) recipient c1 part(3,4) l(2) by (simp add: simps Let_def)
    have "allocated tx reg (c + rawUnits ?part) (st1\<lparr>dueRecipient := ?due\<rparr>)"
      using less.prems(2) l part(6) due unfolding allocated_def Let_def by (auto simp: received_snoc)
    moreover have "nat (rawUnits ?left) < nat (rawUnits left)" using part(1) recipient(1) by (simp add: isPositive_def)
    ultimately have "allocated tx reg (c + rawUnits ?part + rawUnits ?left) st'"
      using less.hyps rec part(5) by blast
    then show ?thesis by simp
  next
    case fee
    let ?part = "min left (dueFee st)"
    let ?left = "Amount (rawUnits left - rawUnits ?part)" and ?due = "Amount (rawUnits (dueFee st) - rawUnits ?part)"
    note part = amountOk_part [OF fee(1,3) less.prems(3) due(2)]
    obtain st1 where c1: "createOutput tx reg block input feePoolAddress ?part ''fee'' st = Inr st1"
      using less.prems(1) fee by (auto simp: simps Let_def split: sum.splits)
    from createOutput_Inr [OF c1 part(1,2)] obtain l where l: "allocOutputs st1 = allocOutputs st @ [l]"
      "dueRecipient st1 = dueRecipient st" "dueFee st1 = dueFee st" "ownerAddress l = feePoolAddress" "lotAmount l = ?part" "outputOk reg l"
      by blast
    have rec: "allocate tx reg block input ?left (st1\<lparr>dueFee := ?due\<rparr>) = Inr st'"
      using less.prems(1) fee c1 part(3,4) l(3) by (simp add: simps Let_def)
    have "allocated tx reg (c + rawUnits ?part) (st1\<lparr>dueFee := ?due\<rparr>)"
      using less.prems(2) l part(6) due unfolding allocated_def Let_def by (auto simp: received_snoc)
    moreover have "nat (rawUnits ?left) < nat (rawUnits left)" using part(1) fee(1) by (simp add: isPositive_def)
    ultimately have "allocated tx reg (c + rawUnits ?part + rawUnits ?left) st'"
      using less.hyps rec part(5) by blast
    then show ?thesis by simp
  next
    case change
    have "createOutput tx reg block input (txFrom tx) left ''change'' st = Inr st'"
      using less.prems(1) change by (simp add: simps)
    from createOutput_Inr [OF this change(1) less.prems(3)] obtain l where "allocOutputs st' = allocOutputs st @ [l]"
      "dueRecipient st' = dueRecipient st" "dueFee st' = dueFee st" "ownerAddress l = txFrom tx" "lotAmount l = left" "outputOk reg l"
      by blast
    then show ?thesis using less.prems(2) unfolding allocated_def Let_def by (auto simp: received_snoc)
  qed
qed

lemma allocateAll_allocated:
  assumes "allocateAll tx reg block collected st ls = Inr (collected', st')" and "allocated tx reg (rawUnits collected) st"
    and "amountOk collected" and "\<forall>l\<in>set ls. amountOk (lotAmount l)"
  shows "allocated tx reg (rawUnits collected') st' \<and> amountOk collected' \<and>
         rawUnits collected' = rawUnits collected + (\<Sum>l\<leftarrow>ls. rawUnits (lotAmount l))"
  using assms
proof (induction ls arbitrary: collected st)
  case (Cons l ls)
  obtain c1 st1 where c1: "amountAdd collected (lotAmount l) = Inr c1" and st1: "allocate tx reg block l (lotAmount l) st = Inr st1"
    and rec: "allocateAll tx reg block c1 st1 ls = Inr (collected', st')"
    using Cons.prems(1) by auto
  have l: "amountOk (lotAmount l)" using Cons.prems(4) by simp
  have c1': "rawUnits c1 = rawUnits collected + rawUnits (lotAmount l)" "amountOk c1"
    using c1 Cons.prems(3) l by (auto simp: amountAdd_ok amountOk_def split: if_splits)
  have "allocated tx reg (rawUnits c1) st1"
    using allocate_allocated [OF st1 Cons.prems(2) l] c1'(1) by simp
  then show ?case using Cons.IH [OF rec _ c1'(2)] Cons.prems(4) c1'(1) by auto
qed simp

subsection \<open>The effect of a transfer\<close>

definition spentLot :: "CoinLot \<Rightarrow> CoinLot" where
  "spentLot l = l\<lparr>lotStatus := SPENT, lockedUntilBlock := 0\<rparr>"

lemma markSpent_input:
  assumes "inputOk tx reg l" and "lotsInv reg" and "txFrom tx \<noteq> []"
  shows "markSpent (lotId l) (txFrom tx) reg = (Inr (), mapPut (lotId l) (spentLot l) reg)"
proof -
  have "lotId l \<noteq> []" using assms(1) by (simp add: inputOk_def lotValid_def)
  then have "verifySpendable reg (lotId l) (txFrom tx) = None"
    using assms by (auto simp: verifySpendable_None inputOk_def)
  then show ?thesis
    using assms(1) by (simp add: markSpent_def updateEntry_def inputOk_def lotMarkSpent_def spentLot_def lot_status_defs)
qed

lemma spentLot_inv: "lotsInv reg \<Longrightarrow> inputOk tx reg l \<Longrightarrow> lotsInv (mapPut (lotId l) (spentLot l) reg)"
  by (rule lotsInv_put) (auto simp: inputOk_def spentLot_def lotValid_def)

text \<open>The registry after the inputs are spent, with any valuation of lots that gives nothing to a spent one.\<close>

definition inputsSpent :: "CoinLot list \<Rightarrow> CoinLotRegistry \<Rightarrow> CoinLotRegistry \<Rightarrow> bool" where
  "inputsSpent sel reg reg' \<longleftrightarrow> lotsInv reg' \<and>
     (\<forall>i. map_of reg' i = map_option (\<lambda>l. if i \<in> lotId ` set sel then spentLot l else l) (map_of reg i)) \<and>
     (\<forall>f :: CoinLot \<Rightarrow> nat. (\<forall>l. f (spentLot l) = 0) \<longrightarrow>
        (\<Sum>e\<leftarrow>reg'. f (snd e)) + (\<Sum>l\<leftarrow>sel. f l) = (\<Sum>e\<leftarrow>reg. f (snd e)))"

lemma inputsSpent_Cons:
  assumes "inputsSpent sel (mapPut (lotId l) (spentLot l) reg) reg'" and "lotsInv reg"
    and "map_of reg (lotId l) = Some l" and "lotId l \<notin> lotId ` set sel"
  shows "inputsSpent (l # sel) reg reg'"
proof -
  let ?reg = "mapPut (lotId l) (spentLot l) reg"
  have "(\<Sum>e\<leftarrow>?reg. f (snd e)) + f l = (\<Sum>e\<leftarrow>reg. f (snd e))" if "\<forall>l. f (spentLot l) = 0" for f :: "CoinLot \<Rightarrow> nat"
    using om.sum_put [of reg f "lotId l" "spentLot l"] that assms(2,3) by (simp add: lotsInv_def)
  then have sums: "(\<Sum>e\<leftarrow>reg'. f (snd e)) + (\<Sum>l\<leftarrow>l # sel. f l) = (\<Sum>e\<leftarrow>reg. f (snd e))"
    if "\<forall>l. f (spentLot l) = 0" for f :: "CoinLot \<Rightarrow> nat"
    using that assms(1) unfolding inputsSpent_def by (fastforce simp: algebra_simps)
  have "map_of reg' i = map_option (\<lambda>x. if i \<in> lotId ` set (l # sel) then spentLot x else x) (map_of reg i)" for i
    using assms(1,3,4) unfolding inputsSpent_def by (cases "i = lotId l") auto
  then show ?thesis using sums assms(1) unfolding inputsSpent_def by blast
qed

lemma markAllSpent_inputs:
  assumes "lotsInv reg" and "\<forall>l\<in>set sel. inputOk tx reg l" and "distinct (map lotId sel)" and "txFrom tx \<noteq> []"
  shows "\<exists>reg'. markAllSpent (txFrom tx) (map lotId sel) reg = (Inr (), reg') \<and> inputsSpent sel reg reg'"
  using assms
proof (induction sel arbitrary: reg)
  case Nil
  then show ?case by (simp add: inputsSpent_def option.map_ident)
next
  case (Cons l sel)
  let ?reg = "mapPut (lotId l) (spentLot l) reg"
  have l: "inputOk tx reg l" "map_of reg (lotId l) = Some l" "lotId l \<notin> lotId ` set sel" "distinct (map lotId sel)"
    using Cons.prems(2,3) by (auto simp: inputOk_def)
  have mark: "markSpent (lotId l) (txFrom tx) reg = (Inr (), ?reg)"
    by (rule markSpent_input [OF l(1) Cons.prems(1,4)])
  have "inputOk tx ?reg x" if "x \<in> set sel" for x
  proof -
    have "lotId x \<noteq> lotId l" using l(3) imageI [OF that, of lotId] by auto
    then show ?thesis using Cons.prems(2) that by (simp add: inputOk_def)
  qed
  then have "\<forall>x\<in>set sel. inputOk tx ?reg x" by blast
  from Cons.IH [OF spentLot_inv [OF Cons.prems(1) l(1)] this l(4) Cons.prems(4)] obtain reg' where
    "markAllSpent (txFrom tx) (map lotId sel) ?reg = (Inr (), reg')" "inputsSpent sel ?reg reg'" by blast
  then show ?case using mark inputsSpent_Cons [OF _ Cons.prems(1) l(2,3)] by simp
qed

lemma addLots_sum:
  fixes f :: "CoinLot \<Rightarrow> nat"
  assumes "lotsInv reg" and "list_all (\<lambda>l. amountOk (lotAmount l)) ls" and "fst (addLots ls reg) = Inr ()"
  shows "(\<Sum>e\<leftarrow>snd (addLots ls reg). f (snd e)) = (\<Sum>e\<leftarrow>reg. f (snd e)) + (\<Sum>l\<leftarrow>ls. f l)"
  using assms
proof (induction ls arbitrary: reg)
  case (Cons l ls)
  have added: "isInr (fst (addLot l reg))" using Cons.prems(3) unfolding addLots_Cons by (auto split: if_splits)
  then have put: "snd (addLot l reg) = mapPut (lotId l) l reg" "map_of reg (lotId l) = None"
    by (simp_all add: addLot_isInr addLot_success)
  then have "(\<Sum>e\<leftarrow>snd (addLot l reg). f (snd e)) = (\<Sum>e\<leftarrow>reg. f (snd e)) + f l"
    using om.sum_put [of reg f "lotId l" l] Cons.prems(1) by (simp add: lotsInv_def)
  moreover have "lotsInv (snd (addLot l reg))" using Cons.prems by (simp add: addLot_inv)
  ultimately show ?case using added Cons unfolding addLots_Cons by simp
qed simp

text \<open>The value an address can spend.\<close>

definition ownValue :: "string \<Rightarrow> CoinLot \<Rightarrow> nat" where
  "ownValue a l = (if ownerAddress l = a \<and> isAvailable l then nat (rawUnits (lotAmount l)) else 0)"

definition spendableValue :: "CoinLotRegistry \<Rightarrow> string \<Rightarrow> nat" where
  "spendableValue reg a = (\<Sum>e\<leftarrow>reg. ownValue a (snd e))"

lemma spent_worthless: "ownValue a (spentLot l) = 0" "lotValue (spentLot l) = 0"
  by (simp_all add: ownValue_def lotValue_def lotLive_def spentLot_def lot_status_defs)

lemma inputs_value:
  assumes "\<forall>l\<in>set sel. inputOk tx reg l"
  shows "int (\<Sum>l\<leftarrow>sel. ownValue a l) = (if a = txFrom tx then (\<Sum>l\<leftarrow>sel. rawUnits (lotAmount l)) else 0)"
    and "int (\<Sum>l\<leftarrow>sel. lotValue l) = (\<Sum>l\<leftarrow>sel. rawUnits (lotAmount l))"
  using assms
  by (induction sel) (auto simp: inputOk_def ownValue_def lotValue_def lotLive_def amountOk_def)

lemma outputs_value:
  assumes "list_all (outputOk reg) outs"
  shows "int (\<Sum>l\<leftarrow>outs. ownValue a l) = received outs a"
    and "int (\<Sum>l\<leftarrow>outs. lotValue l) = (\<Sum>l\<leftarrow>outs. rawUnits (lotAmount l))"
  using assms
  by (induction outs) (auto simp: outputOk_def ownValue_def lotValue_def lotLive_def amountOk_def received_def)

text \<open>What a transfer gives an address: the amount, the fee, or the loss of both.\<close>

definition transferDelta :: "Transaction \<Rightarrow> string \<Rightarrow> int" where
  "transferDelta tx a =
     (if a = txTo tx then rawUnits (txAmount tx) else 0) + (if a = feePoolAddress then rawUnits (txFee tx) else 0)
     - (if a = txFrom tx then rawUnits (txAmount tx) + rawUnits (txFee tx) else 0)"

text \<open>What a plan that was built is: the inputs cover the debit, the outputs are the allocation.\<close>

definition planFacts :: "Transaction \<Rightarrow> CoinLotRegistry \<Rightarrow> CoinLotTransferPlan \<Rightarrow> CoinLot list \<Rightarrow> bool" where
  "planFacts tx reg plan sel \<longleftrightarrow>
     planInputIds plan = map lotId sel \<and> (\<forall>l\<in>set sel. inputOk tx reg l) \<and> distinct (map lotId sel) \<and>
     (txInputLots tx \<noteq> [] \<longrightarrow> map lotId sel = txInputLots tx) \<and> txFrom tx \<noteq> [] \<and>
     list_all (outputOk reg) (planOutputs plan) \<and> distinct (map lotId (planOutputs plan)) \<and>
     (\<Sum>l\<leftarrow>planOutputs plan. rawUnits (lotAmount l)) = (\<Sum>l\<leftarrow>sel. rawUnits (lotAmount l)) \<and>
     (\<forall>a. received (planOutputs plan) a =
        transferDelta tx a + (if a = txFrom tx then \<Sum>l\<leftarrow>sel. rawUnits (lotAmount l) else 0))"

lemma plan_facts:
  assumes "buildTransferPlan tx reg block = Inr plan" and "lotsInv reg"
    and "amountOk (txAmount tx)" and "amountOk (txFee tx)"
  shows "\<exists>sel. planFacts tx reg plan sel"
proof -
  let ?st = "\<lparr>dueRecipient = txAmount tx, dueFee = txFee tx, allocOutputs = [], allocIndex = 0\<rparr>"
  obtain d sel c st where d: "amountAdd (txAmount tx) (txFee tx) = Inr d" "selectInputLots tx reg d = Inr sel"
    and all: "allocateAll tx reg block zeroAmount ?st sel = Inr (c, st)"
    and due: "\<not> isPositive (dueRecipient st)" "\<not> isPositive (dueFee st)"
    and plan: "planInputIds plan = map lotId sel" "planOutputs plan = allocOutputs st" "planTotalInput plan = c"
      "planSender plan = txFrom tx" "planValid plan = Inr True"
    using assms(1) unfolding buildTransferPlan_def
    by (auto simp: Let_def split: option.splits if_splits)
  note sel = selectInputLots_ok [OF d(2) assms(2)]
  have "allocated tx reg (rawUnits zeroAmount) ?st"
    using assms(3,4) by (simp add: allocated_def received_def zeroAmount_def)
  moreover have "amountOk zeroAmount" by simp
  moreover have "\<forall>l\<in>set sel. amountOk (lotAmount l)" using sel(1) by (simp add: inputOk_def)
  ultimately have alloc: "allocated tx reg (rawUnits c) st" "rawUnits c = (\<Sum>l\<leftarrow>sel. rawUnits (lotAmount l))"
    using allocateAll_allocated [OF all] by (auto simp: zeroAmount_def)
  have zero: "rawUnits (dueRecipient st) = 0" "rawUnits (dueFee st) = 0"
    using alloc(1) due by (auto simp: allocated_def isPositive_def amountOk_def)
  have valid: "txFrom tx \<noteq> []" "distinct (map lotId sel)" "distinct (map lotId (planOutputs plan))"
      "sumLots (planOutputs plan) = Inr c"
    using plan by (auto simp: planValid_def split: if_splits)
  have outs: "list_all (outputOk reg) (planOutputs plan)" using alloc(1) plan(2) by (simp add: allocated_def)
  have "(\<Sum>l\<leftarrow>planOutputs plan. rawUnits (lotAmount l)) = rawUnits c"
    using sumAmountsFrom_exact [of zeroAmount "map lotAmount (planOutputs plan)" c] valid(4) outs
    by (simp add: sumLots_def zeroAmount_def list_all_iff outputOk_def amountOk_def I64_MAX_def comp_def)
  moreover have "received (planOutputs plan) a =
      transferDelta tx a + (if a = txFrom tx then \<Sum>l\<leftarrow>sel. rawUnits (lotAmount l) else 0)" for a
    using alloc zero plan(2) by (simp add: allocated_def Let_def transferDelta_def)
  ultimately have "planFacts tx reg plan sel"
    using plan(1) sel valid outs alloc(2) by (simp add: planFacts_def)
  then show ?thesis ..
qed

text \<open>The registry after the plan is applied.\<close>

definition transferred :: "Transaction \<Rightarrow> CoinLotRegistry \<Rightarrow> CoinLotRegistry \<Rightarrow> bool" where
  "transferred tx reg reg' \<longleftrightarrow> lotsInv reg' \<and> liveValue reg' = liveValue reg \<and>
     (\<forall>a. int (spendableValue reg' a) = int (spendableValue reg a) + transferDelta tx a) \<and>
     (\<forall>i\<in>set (txInputLots tx). \<exists>l. map_of reg' i = Some l \<and> isSpent l)"

lemma transfer_step:
  assumes "planFacts tx reg plan sel" and "lotsInv reg"
  shows "\<exists>reg1 reg2. markAllSpent (txFrom tx) (planInputIds plan) reg = (Inr (), reg1) \<and>
           addLots (planOutputs plan) reg1 = (Inr (), reg2) \<and> transferred tx reg reg2"
proof -
  note plan = assms(1) [unfolded planFacts_def]
  have sel: "\<forall>l\<in>set sel. inputOk tx reg l" and outs: "list_all (outputOk reg) (planOutputs plan)" using plan by simp_all
  obtain reg1 where reg1: "markAllSpent (txFrom tx) (planInputIds plan) reg = (Inr (), reg1)" "inputsSpent sel reg reg1"
    using markAllSpent_inputs [OF assms(2) sel] plan by auto
  have fresh: "list_all (\<lambda>l. lotValid l \<and> map_of reg1 (lotId l) = None) (planOutputs plan)"
    using outs reg1(2) by (auto simp: list_all_iff outputOk_def inputsSpent_def)
  obtain reg2 where reg2: "addLots (planOutputs plan) reg1 = (Inr (), reg2)"
    using addLots_succeeds [OF fresh] plan by (cases "addLots (planOutputs plan) reg1") auto
  have inv: "lotsInv reg1" and amounts: "list_all (\<lambda>l. amountOk (lotAmount l)) (planOutputs plan)"
    using reg1(2) outs by (auto simp: inputsSpent_def list_all_iff outputOk_def)
  have spent: "int (\<Sum>e\<leftarrow>reg1. f (snd e)) + int (\<Sum>l\<leftarrow>sel. f l) = int (\<Sum>e\<leftarrow>reg. f (snd e))"
    if "\<forall>l. f (spentLot l) = 0" for f
    using reg1(2) that unfolding inputsSpent_def by (metis of_nat_add)
  have added: "int (\<Sum>e\<leftarrow>reg2. f (snd e)) = int (\<Sum>e\<leftarrow>reg1. f (snd e)) + int (\<Sum>l\<leftarrow>planOutputs plan. f l)" for f
    using addLots_sum [OF inv amounts] reg2 by simp
  have "int (liveValue reg2) = int (liveValue reg)"
    using spent [of lotValue] added [of lotValue] inputs_value(2) [OF sel] outputs_value(2) [OF outs] plan
    unfolding liveValue_def by (simp add: spent_worthless)
  moreover have "int (spendableValue reg2 a) = int (spendableValue reg a) + transferDelta tx a" for a
    using spent [of "ownValue a"] added [of "ownValue a"] inputs_value(1) [OF sel, of a] outputs_value(1) [OF outs, of a] plan
    unfolding spendableValue_def by (simp add: spent_worthless split: if_splits)
  moreover have "\<exists>l. map_of reg2 i = Some l \<and> isSpent l" if "i \<in> set (txInputLots tx)" for i
  proof -
    have "txInputLots tx \<noteq> []" using that by auto
    then have "i \<in> set (map lotId sel)" using that plan by metis
    then obtain l where l: "l \<in> set sel" "i = lotId l" by auto
    then have "map_of reg1 i = Some (spentLot l)" using reg1(2) sel by (auto simp: inputsSpent_def inputOk_def)
    from addLots_keeps [OF this, of "planOutputs plan"] show ?thesis
      using reg2 by (auto simp: spentLot_def lot_status_defs)
  qed
  moreover have "lotsInv reg2" using addLots_inv [OF inv amounts] reg2 by simp
  ultimately have "transferred tx reg reg2" by (simp add: transferred_def)
  then show ?thesis using reg1(1) reg2 by blast
qed

lemma transfer_effect:
  assumes "lotsInv reg" and "amountOk (txAmount tx)" and "amountOk (txFee tx)" and "applyTransfer tx block reg = (r, reg')"
  shows "case r of Inl e \<Rightarrow> reg' = reg | Inr _ \<Rightarrow> transferred tx reg reg'"
proof (cases "bindR (buildTransferPlan tx reg block) (\<lambda>plan.
                bindR (checkInputs tx reg (planInputIds plan)) (\<lambda>_.
                bindR (checkOutputs reg (planOutputs plan)) (\<lambda>_. Inr plan)))")
  case (Inl e)
  then show ?thesis using assms(4) by (auto simp: applyTransfer_def)
next
  case (Inr plan)
  then have "buildTransferPlan tx reg block = Inr plan" by auto
  then obtain sel where "planFacts tx reg plan sel" using plan_facts assms(1-3) by blast
  from transfer_step [OF this assms(1)] obtain reg1 reg2 where
    "markAllSpent (txFrom tx) (planInputIds plan) reg = (Inr (), reg1)"
    "addLots (planOutputs plan) reg1 = (Inr (), reg2)" "transferred tx reg reg2" by blast
  then show ?thesis using assms(4) Inr by (auto simp: applyTransfer_def)
qed

text \<open>
  C16: A transfer over coin lots. When \<open>applyTransfer\<close> throws, the registry is unchanged: the checks come
  first, and no later step fails. When it succeeds, the registry stays valid, the total of live
  value is the same, the recipient gains the amount, the fee pool the fee, the sender loses both,
  nobody else gains or loses, and inputs the transaction declares are spent.
\<close>

theorem transfer_moves_value:
  assumes "lotsInv reg" and "amountOk (txAmount tx)" and "amountOk (txFee tx)" and "applyTransfer tx block reg = (r, reg')"
  shows "case r of
      Inl e \<Rightarrow> reg' = reg
    | Inr _ \<Rightarrow> lotsInv reg' \<and> liveValue reg' = liveValue reg \<and>
        (\<forall>a. int (spendableValue reg' a) = int (spendableValue reg a)
           + (if a = txTo tx then rawUnits (txAmount tx) else 0) + (if a = feePoolAddress then rawUnits (txFee tx) else 0)
           - (if a = txFrom tx then rawUnits (txAmount tx) + rawUnits (txFee tx) else 0)) \<and>
        (\<forall>i\<in>set (txInputLots tx). \<exists>l. map_of reg' i = Some l \<and> isSpent l)"
proof (cases r)
  case (Inl e)
  then show ?thesis using transfer_effect [OF assms] by simp
next
  case (Inr u)
  then have "transferred tx reg reg'" using transfer_effect [OF assms] by simp
  then show ?thesis using Inr by (simp add: transferred_def transferDelta_def)
qed

theorem transfer_moves_value_witness:
  "\<exists>reg'. applyTransfer (demoTransfer [''lot''] 1) 3 [(''lot'', demoLot ''lot'' ''alice'' 10)] = (Inr (), reg') \<and>
     spendableValue reg' ''bob'' = 5 \<and> spendableValue reg' ''alice'' = 4"
proof -
  let ?tx = "demoTransfer [''lot''] 1" and ?reg = "[(''lot'', demoLot ''lot'' ''alice'' 10)]"
  have "fst (applyTransfer ?tx 3 ?reg) = Inr ()" by code_simp
  then obtain reg' where run: "applyTransfer ?tx 3 ?reg = (Inr (), reg')" by (cases "applyTransfer ?tx 3 ?reg") auto
  have ok: "lotsInv ?reg" "amountOk (txAmount ?tx)" "amountOk (txFee ?tx)" by code_simp+
  have "spendableValue ?reg ''bob'' = 0" "spendableValue ?reg ''alice'' = 10" by code_simp+
  moreover have "txFrom ?tx = ''alice''" "txTo ?tx = ''bob''" "txAmount ?tx = Amount 5" "txFee ?tx = Amount 1"
    by (simp_all add: demoTransfer_def withTxId_fields)
  moreover have "feePoolAddress \<noteq> ''bob''" "feePoolAddress \<noteq> ''alice''" by (simp_all add: feePoolAddress_def)
  ultimately have "int (spendableValue reg' ''bob'') = 5" "int (spendableValue reg' ''alice'') = 4"
    using transfer_moves_value [OF ok run] by simp_all
  then show ?thesis using run by simp
qed

end
