(* ===== verification/Ledger.thy ===== *)
theory Ledger
  imports CryptoIds StdMap
begin

section \<open>Ledger records, Merkle commitments, blocks and the chain\<close>

text \<open>
  \<open>src/core/LedgerRecord.cpp\<close> (record identity and validity), \<open>src/core/MerkleTree.cpp\<close>,
  \<open>src/core/Block.cpp\<close> and \<open>src/core/Blockchain.cpp\<close>. A block commits to its records through the
  ordered Merkle root in its header, and its hash is the hash of the header. The constructors of a
  record from the economic domain objects and the text parsers are not here; every record this
  theory speaks of carries its fields, as \<open>fromPersistedFields\<close> reads them.
\<close>

subsection \<open>Ledger records\<close>

datatype LedgerRecordType =
    MINT | TRANSACTION | VALIDATION_WORK | VALIDATOR_SCORE | PROTECTION_EPOCH | GENESIS_REWARD
  | VALIDATOR_PENALTY | SLASHING_EVIDENCE

fun ledgerRecordTypeToString :: "LedgerRecordType \<Rightarrow> string" where
  "ledgerRecordTypeToString MINT = ''MINT''"
| "ledgerRecordTypeToString TRANSACTION = ''TRANSACTION''"
| "ledgerRecordTypeToString VALIDATION_WORK = ''VALIDATION_WORK''"
| "ledgerRecordTypeToString VALIDATOR_SCORE = ''VALIDATOR_SCORE''"
| "ledgerRecordTypeToString PROTECTION_EPOCH = ''PROTECTION_EPOCH''"
| "ledgerRecordTypeToString GENESIS_REWARD = ''GENESIS_REWARD''"
| "ledgerRecordTypeToString VALIDATOR_PENALTY = ''VALIDATOR_PENALTY''"
| "ledgerRecordTypeToString SLASHING_EVIDENCE = ''SLASHING_EVIDENCE''"

definition ledgerRecordTypeFromString :: "string \<Rightarrow> LedgerRecordType result" where
  "ledgerRecordTypeFromString s =
     (if s = ''MINT'' then Inr MINT
      else if s = ''TRANSACTION'' then Inr TRANSACTION
      else if s = ''VALIDATION_WORK'' then Inr VALIDATION_WORK
      else if s = ''VALIDATOR_SCORE'' then Inr VALIDATOR_SCORE
      else if s = ''PROTECTION_EPOCH'' then Inr PROTECTION_EPOCH
      else if s = ''GENESIS_REWARD'' then Inr GENESIS_REWARD
      else if s = ''VALIDATOR_PENALTY'' then Inr VALIDATOR_PENALTY
      else if s = ''SLASHING_EVIDENCE'' then Inr SLASHING_EVIDENCE
      else Inl (InvalidArgument (''Unknown LedgerRecordType: '' @ s)))"

record LedgerRecord =
  recordId :: string
  recordType :: LedgerRecordType
  recordSourceId :: string
  recordPayload :: string
  recordPayloadHash :: string
  recordTimestamp :: int

definition hashPayload :: "sha256 \<Rightarrow> string \<Rightarrow> string" where
  "hashPayload sha payload = nodo_hash_string sha payload"

definition computeRecordId :: "sha256 \<Rightarrow> LedgerRecordType \<Rightarrow> string \<Rightarrow> string \<Rightarrow> int \<Rightarrow> string" where
  "computeRecordId sha ty sourceId payloadHash timestamp =
     hashPayload sha (''LedgerRecordId{type='' @ ledgerRecordTypeToString ty
       @ '';sourceId='' @ sourceId
       @ '';payloadHash='' @ payloadHash
       @ '';timestamp='' @ showI64 timestamp @ ''}'')"

definition ledgerRecordValid :: "sha256 \<Rightarrow> LedgerRecord \<Rightarrow> bool" where
  "ledgerRecordValid sha r =
     (if recordId r = [] \<or> recordSourceId r = [] \<or> recordPayload r = [] \<or> recordPayloadHash r = [] then False
      else if recordTimestamp r \<le> 0 then False
      else if recordPayloadHash r \<noteq> hashPayload sha (recordPayload r) then False
      else recordId r = computeRecordId sha (recordType r) (recordSourceId r) (recordPayloadHash r)
                          (recordTimestamp r))"

definition fromPersistedFields :: "sha256 \<Rightarrow> LedgerRecord \<Rightarrow> LedgerRecord result" where
  "fromPersistedFields sha r =
     (if \<not> ledgerRecordValid sha r then Inl (InvalidArgument ''Invalid persisted LedgerRecord rejected.'')
      else Inr r)"

definition ledgerRecordSerialize :: "LedgerRecord \<Rightarrow> string" where
  "ledgerRecordSerialize r =
     ''LedgerRecord{id='' @ recordId r
       @ '';type='' @ ledgerRecordTypeToString (recordType r)
       @ '';sourceId='' @ recordSourceId r
       @ '';payloadHash='' @ recordPayloadHash r
       @ '';timestamp='' @ showI64 (recordTimestamp r)
       @ '';payload='' @ recordPayload r @ ''}''"

definition fromSlashingEvidencePayload :: "sha256 \<Rightarrow> string \<Rightarrow> string \<Rightarrow> int \<Rightarrow> LedgerRecord result" where
  "fromSlashingEvidencePayload sha evidenceId payload timestamp =
     (if evidenceId = [] \<or>
         (\<not> hasPrefix ''DoubleVoteEvidence{'' payload \<and>
          \<not> hasPrefix ''ProposerEquivocationEvidence{'' payload) \<or> timestamp \<le> 0
      then Inl (InvalidArgument ''Invalid slashing evidence payload rejected by LedgerRecord.'')
      else let payloadHash = hashPayload sha payload in
           Inr \<lparr>recordId = computeRecordId sha SLASHING_EVIDENCE evidenceId payloadHash timestamp,
                recordType = SLASHING_EVIDENCE, recordSourceId = evidenceId, recordPayload = payload,
                recordPayloadHash = payloadHash, recordTimestamp = timestamp\<rparr>)"

subsection \<open>Merkle trees\<close>

definition hashLeaf :: "sha256 \<Rightarrow> string \<Rightarrow> string" where
  "hashLeaf sha payload = nodo_hash_bytes sha (''NODO_MERKLE_LEAF:'' @ payload)"

definition nodeInput :: "string \<Rightarrow> string \<Rightarrow> string" where
  "nodeInput l r = ''NODO_MERKLE_NODE:'' @ l @ r"

definition hashNode :: "sha256 \<Rightarrow> string \<Rightarrow> string \<Rightarrow> string" where
  "hashNode sha l r = nodo_hash_bytes sha (nodeInput l r)"

text \<open>One pass of \<open>hashLayer\<close>: an odd last node is paired with itself.\<close>

fun nextLayer :: "sha256 \<Rightarrow> string list \<Rightarrow> string list" where
  "nextLayer sha [] = []"
| "nextLayer sha [x] = [hashNode sha x x]"
| "nextLayer sha (x # y # zs) = hashNode sha x y # nextLayer sha zs"

lemma length_nextLayer: "length (nextLayer sha hs) = (length hs + 1) div 2"
  by (induction sha hs rule: nextLayer.induct) auto

function hashLayer :: "sha256 \<Rightarrow> string list \<Rightarrow> string" where
  "hashLayer sha hs =
     (case hs of
        [] \<Rightarrow> nodo_hash_bytes sha ''NODO_MERKLE_EMPTY''
      | [h] \<Rightarrow> h
      | _ # _ # _ \<Rightarrow> hashLayer sha (nextLayer sha hs))"
  by pat_completeness auto
termination
  by (relation "measure (\<lambda>(sha, hs). length hs)") (auto simp: length_nextLayer)

declare hashLayer.simps [simp del]

definition buildRoot :: "sha256 \<Rightarrow> string list \<Rightarrow> string" where
  "buildRoot sha payloads =
     (if payloads = [] then nodo_hash_bytes sha ''NODO_MERKLE_EMPTY''
      else hashLayer sha (map (hashLeaf sha) (sort payloads)))"

definition orderedLeafPayload :: "nat \<Rightarrow> string \<Rightarrow> string" where
  "orderedLeafPayload i payload =
     ''NODO_BLOCK_RECORD_0.6:'' @ showNat i @ '':'' @ showNat (length payload) @ '':'' @ payload"

definition hashOrderedLeaf :: "sha256 \<Rightarrow> nat \<Rightarrow> string \<Rightarrow> string" where
  "hashOrderedLeaf sha i payload = hashLeaf sha (orderedLeafPayload i payload)"

definition buildOrderedRoot :: "sha256 \<Rightarrow> string list \<Rightarrow> string" where
  "buildOrderedRoot sha payloads =
     hashLayer sha (map (\<lambda>(i, p). hashOrderedLeaf sha i p) (enumerate 0 payloads))"

record MerkleProofStep =
  siblingHash :: string
  siblingIsLeft :: bool

record MerkleProof =
  proofLeafHash :: string
  proofSteps :: "MerkleProofStep list"

definition proofUp :: "sha256 \<Rightarrow> MerkleProofStep \<Rightarrow> string \<Rightarrow> string" where
  "proofUp sha s h = (if siblingIsLeft s then hashNode sha (siblingHash s) h else hashNode sha h (siblingHash s))"

definition reconstructRoot :: "sha256 \<Rightarrow> MerkleProof \<Rightarrow> string" where
  "reconstructRoot sha p = fold (proofUp sha) (proofSteps p) (proofLeafHash p)"

definition merkleProofVerify :: "sha256 \<Rightarrow> MerkleProof \<Rightarrow> string \<Rightarrow> bool" where
  "merkleProofVerify sha p root \<longleftrightarrow> proofLeafHash p \<noteq> [] \<and> reconstructRoot sha p = root"

subsection \<open>Blocks\<close>

definition MAX_BLOCK_RECORDS :: nat where
  "MAX_BLOCK_RECORDS = 10000"

definition MAX_SERIALIZED_BLOCK_BYTES :: nat where
  "MAX_SERIALIZED_BLOCK_BYTES = 1024 * 1024"

definition MAX_RECORD_PAYLOAD_BYTES :: nat where
  "MAX_RECORD_PAYLOAD_BYTES = 512 * 1024"

record Block =
  blockIndex :: u64
  blockPrevious :: string
  blockHash :: string
  blockRecords :: "LedgerRecord list"
  blockTimestamp :: int
  blockStateRoot :: string
  blockReceiptsRoot :: string

definition recordsRoot :: "sha256 \<Rightarrow> Block \<Rightarrow> string" where
  "recordsRoot sha b = buildOrderedRoot sha (map ledgerRecordSerialize (blockRecords b))"

definition headerPayload :: "sha256 \<Rightarrow> Block \<Rightarrow> string" where
  "headerPayload sha b =
     ''BlockHeader{index='' @ showU64 (blockIndex b)
       @ '';previousHash='' @ blockPrevious b
       @ '';timestamp='' @ showI64 (blockTimestamp b)
       @ '';recordCount='' @ showNat (length (blockRecords b))
       @ '';recordsMerkleRoot='' @ recordsRoot sha b
       @ '';stateRoot='' @ blockStateRoot b
       @ '';receiptsRoot='' @ blockReceiptsRoot b @ ''}''"

definition blockSerialize :: "sha256 \<Rightarrow> Block \<Rightarrow> string" where
  "blockSerialize sha b =
     ''Block{index='' @ showU64 (blockIndex b)
       @ '';previousHash='' @ blockPrevious b
       @ '';hash='' @ blockHash b
       @ '';timestamp='' @ showI64 (blockTimestamp b)
       @ '';stateRoot='' @ blockStateRoot b
       @ '';receiptsRoot='' @ blockReceiptsRoot b
       @ '';recordCount='' @ showNat (length (blockRecords b))
       @ '';payload='' @ headerPayload sha b
       @ '';records=['' @ joinWith '','' (map ledgerRecordSerialize (blockRecords b)) @ '']}''"

definition calculateHash :: "sha256 \<Rightarrow> Block \<Rightarrow> string" where
  "calculateHash sha b = nodo_hash_string sha (headerPayload sha b)"

definition isGenesisBlock :: "Block \<Rightarrow> bool" where
  "isGenesisBlock b \<longleftrightarrow> blockIndex b = 0 \<and> blockPrevious b = ''GENESIS''"

definition isCanonicalCommitmentRoot :: "string \<Rightarrow> bool" where
  "isCanonicalCommitmentRoot root \<longleftrightarrow> length root = 64 \<and> list_all isLowerHexDigit root"

text \<open>The loop of \<open>isWithinResourceLimits\<close>, with the running number of bytes.\<close>

fun recordBytesWithin :: "nat \<Rightarrow> LedgerRecord list \<Rightarrow> nat option" where
  "recordBytesWithin n [] = Some n"
| "recordBytesWithin n (r # rs) =
     (if length (recordPayload r) > MAX_RECORD_PAYLOAD_BYTES then None
      else let k = length (ledgerRecordSerialize r) in
           if k > MAX_SERIALIZED_BLOCK_BYTES - n then None else recordBytesWithin (n + k) rs)"

definition isWithinResourceLimits :: "sha256 \<Rightarrow> Block \<Rightarrow> bool" where
  "isWithinResourceLimits sha b =
     (if blockRecords b = [] \<or> length (blockRecords b) > MAX_BLOCK_RECORDS then False
      else case recordBytesWithin 0 (blockRecords b) of
             None \<Rightarrow> False
           | Some n \<Rightarrow> n \<le> MAX_SERIALIZED_BLOCK_BYTES \<and>
                       length (blockSerialize sha b) \<le> MAX_SERIALIZED_BLOCK_BYTES)"

definition newBlock ::
    "sha256 \<Rightarrow> u64 \<Rightarrow> string \<Rightarrow> LedgerRecord list \<Rightarrow> int \<Rightarrow> string \<Rightarrow> string \<Rightarrow> Block result" where
  "newBlock sha i previous rs timestamp stateRoot receiptsRoot =
     (if previous = [] then Inl (InvalidArgument ''Block previousHash cannot be empty.'')
      else if (rs = [] \<or> length rs > MAX_BLOCK_RECORDS) \<and> previous \<noteq> ''SNAPSHOT''
      then Inl (InvalidArgument ''Block must contain at least one LedgerRecord.'')
      else if timestamp \<le> 0 then Inl (InvalidArgument ''Block timestamp must be positive.'')
      else if list_ex (\<lambda>r. \<not> ledgerRecordValid sha r \<or> length (recordPayload r) > MAX_RECORD_PAYLOAD_BYTES) rs
      then Inl (InvalidArgument ''Block rejected invalid LedgerRecord.'')
      else let b0 = \<lparr>blockIndex = i, blockPrevious = previous, blockHash = [], blockRecords = rs,
                     blockTimestamp = timestamp, blockStateRoot = stateRoot,
                     blockReceiptsRoot = receiptsRoot\<rparr>;
               b = b0\<lparr>blockHash := calculateHash sha b0\<rparr>
           in if \<not> isWithinResourceLimits sha b \<and> previous \<noteq> ''SNAPSHOT''
              then Inl (InvalidArgument ''Block exceeds canonical protocol resource limits.'')
              else Inr b)"

definition createGenesisBlock :: "sha256 \<Rightarrow> LedgerRecord list \<Rightarrow> int \<Rightarrow> string \<Rightarrow> Block result" where
  "createGenesisBlock sha rs timestamp stateRoot = newBlock sha 0 ''GENESIS'' rs timestamp stateRoot []"

definition createSnapshotDummy :: "sha256 \<Rightarrow> u64 \<Rightarrow> string \<Rightarrow> string \<Rightarrow> Block result" where
  "createSnapshotDummy sha height hash stateRoot =
     bindR (newBlock sha height ''SNAPSHOT'' [] 1 stateRoot []) (\<lambda>b. Inr (b\<lparr>blockHash := hash\<rparr>))"

definition blockValid :: "sha256 \<Rightarrow> bool \<Rightarrow> Block \<Rightarrow> bool" where
  "blockValid sha requireCommitments b =
     (if blockPrevious b = [] then False
      else if blockHash b = [] then False
      else if (blockRecords b = [] \<or> \<not> isWithinResourceLimits sha b) \<and> blockPrevious b \<noteq> ''SNAPSHOT'' then False
      else if blockTimestamp b \<le> 0 then False
      else if \<not> list_all (ledgerRecordValid sha) (blockRecords b) then False
      else if blockPrevious b \<noteq> ''SNAPSHOT'' \<and> blockHash b \<noteq> calculateHash sha b then False
      else if blockIndex b = 0 \<and> blockPrevious b \<noteq> ''GENESIS'' then False
      else if blockIndex b > 0 \<and> blockPrevious b = ''GENESIS'' then False
      else if requireCommitments \<and> blockIndex b > 0 \<and> blockPrevious b \<noteq> ''SNAPSHOT''
      then isCanonicalCommitmentRoot (blockStateRoot b) \<and> isCanonicalCommitmentRoot (blockReceiptsRoot b)
      else True)"

subsection \<open>The chain\<close>

record Blockchain =
  chainBlocks :: "Block list"
  blockIndicesByHash :: "(string, nat) smap"

definition emptyChain :: Blockchain where
  "emptyChain = \<lparr>chainBlocks = [], blockIndicesByHash = []\<rparr>"

definition isValidGenesisBlock :: "sha256 \<Rightarrow> Block \<Rightarrow> bool" where
  "isValidGenesisBlock sha b \<longleftrightarrow>
     blockValid sha True b \<and> isGenesisBlock b \<and> blockIndex b = 0 \<and> blockPrevious b = ''GENESIS''"

definition isValidNextBlock :: "sha256 \<Rightarrow> Block \<Rightarrow> Block \<Rightarrow> bool \<Rightarrow> bool" where
  "isValidNextBlock sha p b requireCommitments =
     (if length (blockSerialize sha b) > 2097152 then False
      else if \<not> blockValid sha requireCommitments p then False
      else if \<not> blockValid sha requireCommitments b then False
      else if isGenesisBlock b then False
      else if blockIndex p = U64_MAX \<or> blockIndex b \<noteq> blockIndex p + 1 then False
      else if blockPrevious b \<noteq> blockHash p then False
      else blockTimestamp b > blockTimestamp p)"

definition canAppendBlock :: "sha256 \<Rightarrow> Blockchain \<Rightarrow> Block \<Rightarrow> bool" where
  "canAppendBlock sha chain b =
     (if chainBlocks chain = [] then isValidGenesisBlock sha b
      else isValidNextBlock sha (last (chainBlocks chain)) b False)"

definition pushBlock :: "Block \<Rightarrow> Blockchain \<Rightarrow> Blockchain" where
  "pushBlock b chain =
     \<lparr>chainBlocks = chainBlocks chain @ [b],
      blockIndicesByHash = mapPut (blockHash b) (length (chainBlocks chain)) (blockIndicesByHash chain)\<rparr>"

definition addGenesisBlock :: "sha256 \<Rightarrow> Block \<Rightarrow> Blockchain \<Rightarrow> (unit, Blockchain) outcome" where
  "addGenesisBlock sha b chain =
     (if chainBlocks chain \<noteq> [] then (Inl (LogicError ''Genesis block must be the first block.''), chain)
      else if \<not> isValidGenesisBlock sha b then (Inl (InvalidArgument ''Invalid genesis block.''), chain)
      else (Inr (), pushBlock b chain))"

definition addBlock :: "sha256 \<Rightarrow> Block \<Rightarrow> Blockchain \<Rightarrow> (unit, Blockchain) outcome" where
  "addBlock sha b chain =
     (if chainBlocks chain = [] then (Inl (LogicError ''Cannot add block before genesis.''), chain)
      else if \<not> canAppendBlock sha chain b
      then (Inl (InvalidArgument ''Invalid block rejected by Blockchain.''), chain)
      else (Inr (), pushBlock b chain))"

text \<open>The containers are cleared before the boundary block is built.\<close>

definition resetFromSnapshot ::
    "sha256 \<Rightarrow> u64 \<Rightarrow> string \<Rightarrow> string \<Rightarrow> Blockchain \<Rightarrow> (unit, Blockchain) outcome" where
  "resetFromSnapshot sha height hash stateRoot chain =
     (case createSnapshotDummy sha height hash stateRoot of
        Inl e \<Rightarrow> (Inl e, emptyChain)
      | Inr b \<Rightarrow> (Inr (), \<lparr>chainBlocks = [b], blockIndicesByHash = mapPut hash 0 []\<rparr>))"

definition genesisBlock :: "Blockchain \<Rightarrow> Block result" where
  "genesisBlock chain =
     (if chainBlocks chain = [] then Inl (LogicError ''Blockchain has no genesis block.'')
      else Inr (hd (chainBlocks chain)))"

definition latestBlock :: "Blockchain \<Rightarrow> Block result" where
  "latestBlock chain =
     (if chainBlocks chain = [] then Inl (LogicError ''Blockchain has no blocks.'')
      else Inr (last (chainBlocks chain)))"

definition blockByHash :: "Blockchain \<Rightarrow> string \<Rightarrow> Block option" where
  "blockByHash chain h =
     (case map_of (blockIndicesByHash chain) h of None \<Rightarrow> None | Some i \<Rightarrow> Some (chainBlocks chain ! i))"

definition blockByHeight :: "Blockchain \<Rightarrow> u64 \<Rightarrow> Block option" where
  "blockByHeight chain height =
     (if unat height < length (chainBlocks chain) then Some (chainBlocks chain ! unat height) else None)"

fun linksValid :: "sha256 \<Rightarrow> bool \<Rightarrow> Block list \<Rightarrow> bool" where
  "linksValid sha rc [] = True"
| "linksValid sha rc [b] = True"
| "linksValid sha rc (p # b # bs) = (isValidNextBlock sha p b rc \<and> linksValid sha rc (b # bs))"

definition blockchainValid :: "sha256 \<Rightarrow> bool \<Rightarrow> Blockchain \<Rightarrow> bool" where
  "blockchainValid sha rc chain =
     (if chainBlocks chain = [] then False
      else if blockPrevious (hd (chainBlocks chain)) \<noteq> ''SNAPSHOT'' \<and>
              \<not> isValidGenesisBlock sha (hd (chainBlocks chain)) then False
      else linksValid sha rc (chainBlocks chain))"

definition blockchainSerialize :: "sha256 \<Rightarrow> Blockchain \<Rightarrow> string" where
  "blockchainSerialize sha chain =
     ''Blockchain{blockCount='' @ showNat (length (chainBlocks chain))
       @ '';blocks=['' @ joinWith '','' (map (blockSerialize sha) (chainBlocks chain)) @ '']}''"

subsection \<open>What the commitments bind\<close>

text \<open>
  Digests print injectively, so equal hashes of different strings are a collision of the hash
  function itself. The binding results name the colliding inputs among the strings the two
  computations feed to the hash.
\<close>

lemma hexDigit_inj: "0 \<le> a \<Longrightarrow> a < 16 \<Longrightarrow> 0 \<le> b \<Longrightarrow> b < 16 \<Longrightarrow> hexDigit a = hexDigit b \<longleftrightarrow> a = b"
  by (metis decodeNibble_hexDigit sum.inject(2))

lemma hexEncode_inj [simp]: "hexEncode xs = hexEncode ys \<longleftrightarrow> xs = ys"
  by (metis hexDecodePairs_hexEncode sum.inject(2))

lemma beBytes_inj: "beBytes n v = beBytes n w \<Longrightarrow> v mod 256 ^ n = w mod 256 ^ n"
proof (induction n arbitrary: v w)
  case 0
  then show ?case by simp
next
  case (Suc n)
  have "(char_of (v mod 256) :: char) = char_of (w mod 256)" and ih: "(v div 256) mod 256 ^ n = (w div 256) mod 256 ^ n"
    using Suc.prems Suc.IH unfolding beBytes.simps append1_eq_conv by blast+
  then have "of_char (char_of (v mod 256) :: char) = (of_char (char_of (w mod 256) :: char) :: int)" by simp
  then have m: "v mod 256 = w mod 256" unfolding of_char_of by simp
  have "v mod (256 * 256 ^ n) = 256 * ((v div 256) mod 256 ^ n) + v mod 256" for v :: int
    by (simp add: mod_mult2_eq zmod_zmult2_eq)
  then show ?case using m ih by simp
qed

lemma nodo_hash_bytes_eq [simp]: "nodo_hash_bytes sha x = nodo_hash_bytes sha y \<longleftrightarrow> sha x = sha y"
proof
  assume "nodo_hash_bytes sha x = nodo_hash_bytes sha y"
  then have "beBytes 32 (uint (sha x)) = beBytes 32 (uint (sha y))"
    by (simp add: nodo_hash_bytes_def digestBytes_def)
  then have "uint (sha x) mod 256 ^ 32 = uint (sha y) mod 256 ^ 32" by (rule beBytes_inj)
  moreover have "uint (sha z) mod 256 ^ 32 = uint (sha z)" for z
    using uint_lt2p [of "sha z"] by (simp add: mod_pos_pos_trivial)
  ultimately show "sha x = sha y" by (simp add: word_uint_eq_iff)
qed (simp add: nodo_hash_bytes_def)

lemma length_hash_bytes [simp]: "length (nodo_hash_bytes sha s) = 64"
  by (simp add: nodo_hash_bytes_def digestBytes_def)

definition collides :: "sha256 \<Rightarrow> string list \<Rightarrow> string list \<Rightarrow> bool" where
  "collides sha xs ys \<longleftrightarrow> (\<exists>x\<in>set xs. \<exists>y\<in>set ys. x \<noteq> y \<and> sha x = sha y)"

lemma collides_mono: "collides sha xs ys \<Longrightarrow> set xs \<subseteq> set xs' \<Longrightarrow> set ys \<subseteq> set ys' \<Longrightarrow> collides sha xs' ys'"
  by (auto simp: collides_def)

text \<open>The strings one layer hashes, and those of the whole tree above a layer.\<close>

fun layerInputs :: "string list \<Rightarrow> string list" where
  "layerInputs [] = []"
| "layerInputs [x] = [nodeInput x x]"
| "layerInputs (x # y # zs) = nodeInput x y # layerInputs zs"

function treeInputs :: "sha256 \<Rightarrow> string list \<Rightarrow> string list" where
  "treeInputs sha hs =
     (if length hs < 2 then [] else layerInputs hs @ treeInputs sha (nextLayer sha hs))"
  by pat_completeness auto
termination
  by (relation "measure (\<lambda>(sha, hs). length hs)") (auto simp: length_nextLayer)

declare treeInputs.simps [simp del]

lemma hashLayer_single: "hashLayer sha [h] = h"
  by (subst hashLayer.simps) simp

lemma hashLayer_step: "2 \<le> length hs \<Longrightarrow> hashLayer sha hs = hashLayer sha (nextLayer sha hs)"
  by (subst hashLayer.simps) (auto split: list.splits)

lemma nextLayer_sizes: "list_all (\<lambda>h. length h = 64) (nextLayer sha hs)"
  by (induction sha hs rule: nextLayer.induct) (auto simp: hashNode_def)

lemma nodeInput_inj:
  "length x = 64 \<Longrightarrow> length x' = 64 \<Longrightarrow> nodeInput x y = nodeInput x' y' \<longleftrightarrow> x = x' \<and> y = y'"
  by (auto simp: nodeInput_def)

lemma nextLayer_binds:
  assumes "length hs = length ks" and "list_all (\<lambda>h. length h = 64) hs" and "list_all (\<lambda>h. length h = 64) ks"
    and "nextLayer sha hs = nextLayer sha ks"
  shows "hs = ks \<or> collides sha (layerInputs hs) (layerInputs ks)"
  using assms
proof (induction sha hs arbitrary: ks rule: nextLayer.induct)
  case (1 sha)
  then show ?case by simp
next
  case (2 sha x)
  then obtain k where "ks = [k]" by (cases ks) auto
  with 2 show ?case by (auto simp: hashNode_def collides_def nodeInput_inj)
next
  case (3 sha x y zs)
  obtain k l ms where ks: "ks = k # l # ms"
    using 3(2) by (cases ks; cases "tl ks") auto
  have tl: "zs = ms \<or> collides sha (layerInputs zs) (layerInputs ms)" using 3 ks by auto
  show ?case
  proof (cases "x = k \<and> y = l")
    case True
    then show ?thesis using tl ks by (auto simp: collides_def)
  next
    case False
    then have "nodeInput x y \<noteq> nodeInput k l" using 3 ks by (auto simp: nodeInput_inj)
    then show ?thesis using 3 ks by (auto simp: hashNode_def collides_def)
  qed
qed

lemma hashLayer_binds:
  assumes "length hs = length ks" and "list_all (\<lambda>h. length h = 64) hs" and "list_all (\<lambda>h. length h = 64) ks"
    and "hashLayer sha hs = hashLayer sha ks"
  shows "hs = ks \<or> collides sha (treeInputs sha hs) (treeInputs sha ks)"
  using assms
proof (induction sha hs arbitrary: ks rule: treeInputs.induct)
  case (1 sha hs)
  show ?case
  proof (cases "length hs < 2")
    case True
    show ?thesis
    proof (cases hs)
      case Nil
      then show ?thesis using 1(2) by simp
    next
      case (Cons x xs)
      then have "hs = [x]" using True by (cases xs) auto
      moreover then obtain y where "ks = [y]" using 1(2) by (cases ks) auto
      ultimately show ?thesis using 1(5) by (simp add: hashLayer_single)
    qed
  next
    case False
    let ?hs = "nextLayer sha hs" and ?ks = "nextLayer sha ks"
    have "?hs = ?ks \<or> collides sha (treeInputs sha ?hs) (treeInputs sha ?ks)"
    proof (rule 1(1))
      show "hashLayer sha ?hs = hashLayer sha ?ks"
        using False 1(2,5) hashLayer_step [of hs sha] hashLayer_step [of ks sha] by simp
    qed (use False 1(2) in \<open>simp_all add: length_nextLayer nextLayer_sizes\<close>)
    then show ?thesis
    proof
      assume "?hs = ?ks"
      then have "hs = ks \<or> collides sha (layerInputs hs) (layerInputs ks)"
        using nextLayer_binds 1(2-4) by blast
      then show ?thesis
        using False 1(2) by (auto simp: treeInputs.simps [of sha hs] treeInputs.simps [of sha ks] intro: collides_mono)
    next
      assume "collides sha (treeInputs sha ?hs) (treeInputs sha ?ks)"
      then show ?thesis
        using False 1(2) by (auto simp: treeInputs.simps [of sha hs] treeInputs.simps [of sha ks] intro: collides_mono)
    qed
  qed
qed

text \<open>Fields that are delimited by a character their content cannot contain.\<close>

lemma showNum_all_digits: "0 \<le> n \<Longrightarrow> list_all isDigit (showNum n)"
  using showNum_digits by (auto simp: list_all_iff)

lemma showNat_digits: "list_all isDigit (showNat n)"
  by (simp add: showNat_def showNum_all_digits)

lemma showU64_digits: "list_all isDigit (showU64 n)"
  by (simp add: showU64_def showNum_all_digits)

lemma showNat_inj [simp]: "showNat a = showNat b \<longleftrightarrow> a = b"
  by (simp add: showNat_def)

lemma not_digits [simp]:
  "\<not> isDigit CHR ''='' " "\<not> isDigit CHR '';'' " "\<not> isDigit CHR '':'' "
  by (simp_all add: isDigit_def char_le_iff)

lemma orderedLeafPayload_inj: "orderedLeafPayload i p = orderedLeafPayload i q \<Longrightarrow> p = q"
proof -
  assume "orderedLeafPayload i p = orderedLeafPayload i q"
  then have "showNat (length p) @ CHR '':'' # p = showNat (length q) @ CHR '':'' # q"
    by (simp add: orderedLeafPayload_def)
  then show "p = q" using delim_split [OF showNat_digits showNat_digits not_digits(3)] by blast
qed

definition leafInputs :: "string list \<Rightarrow> string list" where
  "leafInputs ps = map (\<lambda>(i, p). ''NODO_MERKLE_LEAF:'' @ orderedLeafPayload i p) (enumerate 0 ps)"

definition orderedLeaves :: "sha256 \<Rightarrow> string list \<Rightarrow> string list" where
  "orderedLeaves sha ps = map (\<lambda>(i, p). hashOrderedLeaf sha i p) (enumerate 0 ps)"

definition rootInputs :: "sha256 \<Rightarrow> string list \<Rightarrow> string list" where
  "rootInputs sha ps = leafInputs ps @ treeInputs sha (orderedLeaves sha ps)"

lemma orderedLeaves_sizes: "list_all (\<lambda>h. length h = 64) (orderedLeaves sha ps)"
  by (auto simp: orderedLeaves_def list_all_iff hashOrderedLeaf_def hashLeaf_def)

lemma orderedLeaves_bind:
  assumes len: "length ps = length qs" and eq: "orderedLeaves sha ps = orderedLeaves sha qs"
  shows "ps = qs \<or> collides sha (leafInputs ps) (leafInputs qs)"
proof (rule disjCI)
  assume no: "\<not> collides sha (leafInputs ps) (leafInputs qs)"
  show "ps = qs"
  proof (rule nth_equalityI [OF len])
    fix i assume i: "i < length ps"
    let ?in = "\<lambda>xs. ''NODO_MERKLE_LEAF:'' @ orderedLeafPayload i (xs ! i)"
    have "orderedLeaves sha ps ! i = orderedLeaves sha qs ! i" using eq by simp
    then have "sha (?in ps) = sha (?in qs)"
      using i len by (simp add: orderedLeaves_def nth_enumerate_eq hashOrderedLeaf_def hashLeaf_def)
    moreover have "?in xs \<in> set (leafInputs xs)" if "i < length xs" for xs
      using that unfolding leafInputs_def by (force simp: in_set_enumerate_eq)
    ultimately have "?in ps = ?in qs" using no i len unfolding collides_def by metis
    then show "ps ! i = qs ! i" using orderedLeafPayload_inj by auto
  qed
qed

lemma orderedRoot_binds:
  assumes "length ps = length qs" and "buildOrderedRoot sha ps = buildOrderedRoot sha qs"
  shows "ps = qs \<or> collides sha (rootInputs sha ps) (rootInputs sha qs)"
proof -
  have "length (orderedLeaves sha ps) = length (orderedLeaves sha qs)"
    using assms(1) by (simp add: orderedLeaves_def)
  moreover have "hashLayer sha (orderedLeaves sha ps) = hashLayer sha (orderedLeaves sha qs)"
    using assms(2) by (simp add: buildOrderedRoot_def orderedLeaves_def)
  ultimately have "orderedLeaves sha ps = orderedLeaves sha qs \<or>
      collides sha (treeInputs sha (orderedLeaves sha ps)) (treeInputs sha (orderedLeaves sha qs))"
    by (intro hashLayer_binds orderedLeaves_sizes)
  then show ?thesis
  proof
    assume "orderedLeaves sha ps = orderedLeaves sha qs"
    from orderedLeaves_bind [OF assms(1) this] show ?thesis
      unfolding rootInputs_def using collides_mono by fastforce
  next
    assume "collides sha (treeInputs sha (orderedLeaves sha ps)) (treeInputs sha (orderedLeaves sha qs))"
    then show ?thesis unfolding rootInputs_def by (simp add: collides_mono)
  qed
qed

lemma length_hashLayer:
  "list_all (\<lambda>h. length h = 64) hs \<Longrightarrow> length (hashLayer sha hs) = 64"
proof (induction sha hs rule: treeInputs.induct)
  case (1 sha hs)
  show ?case
  proof (cases "length hs < 2")
    case True
    then consider "hs = []" | x where "hs = [x]" by (cases hs; cases "tl hs") auto
    then show ?thesis
      using 1(2) by cases (simp_all add: hashLayer_single, subst hashLayer.simps, simp)
  next
    case False
    then show ?thesis
      using 1(1) hashLayer_step [of hs sha] nextLayer_sizes by simp
  qed
qed

lemma length_recordsRoot: "length (recordsRoot sha b) = 64"
  unfolding recordsRoot_def buildOrderedRoot_def orderedLeaves_def [symmetric]
  by (rule length_hashLayer [OF orderedLeaves_sizes])

text \<open>Everything that is hashed on the way to a block's hash.\<close>

definition blockHashInputs :: "sha256 \<Rightarrow> Block \<Rightarrow> string list" where
  "blockHashInputs sha b =
     headerPayload sha b # rootInputs sha (map ledgerRecordSerialize (blockRecords b))"

lemma header_binds:
  assumes eq: "headerPayload sha b = headerPayload sha b'"
    and t: "0 < blockTimestamp b" "0 < blockTimestamp b'"
    and s: "length (blockStateRoot b) = 64" "length (blockStateRoot b') = 64"
    and r: "length (blockReceiptsRoot b) = 64" "length (blockReceiptsRoot b') = 64"
  shows "blockIndex b = blockIndex b'" "blockPrevious b = blockPrevious b'"
    "blockTimestamp b = blockTimestamp b'" "length (blockRecords b) = length (blockRecords b')"
    "recordsRoot sha b = recordsRoot sha b'" "blockStateRoot b = blockStateRoot b'"
    "blockReceiptsRoot b = blockReceiptsRoot b'"
proof -
  let ?tail = "\<lambda>b. '';recordsMerkleRoot='' @ recordsRoot sha b @ '';stateRoot='' @ blockStateRoot b
       @ '';receiptsRoot='' @ blockReceiptsRoot b @ ''}''"
  let ?id = "\<lambda>b. showU64 (blockIndex b) @ '';previousHash='' @ blockPrevious b"
  let ?time = "\<lambda>b. ?id b @ '';timestamp='' @ showI64 (blockTimestamp b)"
  let ?head = "\<lambda>b. ?time b @ '';recordCount='' @ showNat (length (blockRecords b))"
  have len: "length (?tail b) = length (?tail b')" using s r by (simp add: length_recordsRoot)
  have "?head b @ ?tail b = ?head b' @ ?tail b'" using eq by (simp add: headerPayload_def)
  then have hd: "?head b = ?head b'" and tl: "?tail b = ?tail b'"
    using append_eq_append_conv [of "?head b" "?head b'" "?tail b" "?tail b'"] len by blast+
  from tl s r show "recordsRoot sha b = recordsRoot sha b'" "blockStateRoot b = blockStateRoot b'"
      "blockReceiptsRoot b = blockReceiptsRoot b'"
    by (auto simp: length_recordsRoot)
  have count: "(?time b @ '';recordCount'') @ CHR ''='' # showNat (length (blockRecords b)) =
        (?time b' @ '';recordCount'') @ CHR ''='' # showNat (length (blockRecords b'))"
    using hd by simp
  from delim_split_right [OF showNat_digits showNat_digits not_digits(1) count]
  show "length (blockRecords b) = length (blockRecords b')" by simp
  have time: "?time b = ?time b'"
    using delim_split_right [OF showNat_digits showNat_digits not_digits(1) count] by simp
  have d: "list_all isDigit (showI64 (blockTimestamp b))" "list_all isDigit (showI64 (blockTimestamp b'))"
    using t by (simp_all add: showI64_def showNum_all_digits)
  have "(?id b @ '';timestamp'') @ CHR ''='' # showI64 (blockTimestamp b) =
        (?id b' @ '';timestamp'') @ CHR ''='' # showI64 (blockTimestamp b')"
    using time by simp
  from delim_split_right [OF d not_digits(1) this]
  have ts: "showI64 (blockTimestamp b) = showI64 (blockTimestamp b')" and id: "?id b = ?id b'" by simp_all
  from ts t show "blockTimestamp b = blockTimestamp b'" by (simp add: showI64_def)
  have "showU64 (blockIndex b) @ CHR '';'' # ''previousHash='' @ blockPrevious b =
        showU64 (blockIndex b') @ CHR '';'' # ''previousHash='' @ blockPrevious b'"
    using id by simp
  from delim_split [OF showU64_digits showU64_digits not_digits(2) this]
  show "blockIndex b = blockIndex b'" "blockPrevious b = blockPrevious b'" by simp_all
qed

text \<open>The header has no zero byte, so the C-string hash covers all of it.\<close>

lemma digits_no_nul: "list_all isDigit s \<Longrightarrow> CHR 0x00 \<notin> set s"
  by (auto simp: list_all_iff isDigit_def char_le_iff)

lemma hex_no_nul: "list_all isLowerHexDigit s \<Longrightarrow> CHR 0x00 \<notin> set s"
  by (auto simp: list_all_iff isLowerHexDigit_def char_le_iff)

lemma hash_lower: "list_all isLowerHexDigit (nodo_hash_bytes sha s)"
  by (simp add: nodo_hash_bytes_def hexEncode_lower)

lemma hashLayer_lower:
  "list_all (list_all isLowerHexDigit) hs \<Longrightarrow> list_all isLowerHexDigit (hashLayer sha hs)"
proof (induction sha hs rule: treeInputs.induct)
  case (1 sha hs)
  show ?case
  proof (cases "length hs < 2")
    case True
    then consider "hs = []" | x where "hs = [x]" by (cases hs; cases "tl hs") auto
    then show ?thesis
      using 1(2) by cases (subst hashLayer.simps, simp add: hash_lower)+
  next
    case False
    have "list_all (list_all isLowerHexDigit) (nextLayer sha hs)"
      by (induction sha hs rule: nextLayer.induct) (auto simp: hashNode_def hash_lower)
    then show ?thesis using 1(1) False hashLayer_step [of hs sha] by simp
  qed
qed

lemma recordsRoot_lower: "list_all isLowerHexDigit (recordsRoot sha b)"
  unfolding recordsRoot_def buildOrderedRoot_def
  by (rule hashLayer_lower) (auto simp: list_all_iff hashOrderedLeaf_def hashLeaf_def
      hash_lower [unfolded list_all_iff, rule_format])

lemma header_no_nul:
  assumes "CHR 0x00 \<notin> set (blockPrevious b)" and "0 < blockTimestamp b"
    and "isCanonicalCommitmentRoot (blockStateRoot b)" and "isCanonicalCommitmentRoot (blockReceiptsRoot b)"
  shows "CHR 0x00 \<notin> set (headerPayload sha b)"
  using assms digits_no_nul [OF showU64_digits, of "blockIndex b"]
    digits_no_nul [OF showNat_digits, of "length (blockRecords b)"]
    digits_no_nul [OF showNum_all_digits, of "blockTimestamp b"]
    hex_no_nul [OF recordsRoot_lower, of sha b]
    hex_no_nul [of "blockStateRoot b"] hex_no_nul [of "blockReceiptsRoot b"]
  by (simp add: headerPayload_def isCanonicalCommitmentRoot_def showI64_def)

lemma hashCString_no_nul: "CHR 0x00 \<notin> set s \<Longrightarrow> nodo_hash_string sha s = nodo_hash_bytes sha s"
  unfolding nodo_hash_string_def by (rule arg_cong [of _ _ "nodo_hash_bytes sha"]) (auto simp: takeWhile_eq_all_conv)

definition sameContent :: "Block \<Rightarrow> Block \<Rightarrow> bool" where
  "sameContent b b' \<longleftrightarrow>
     blockIndex b = blockIndex b' \<and> blockPrevious b = blockPrevious b' \<and>
     blockTimestamp b = blockTimestamp b' \<and> blockStateRoot b = blockStateRoot b' \<and>
     blockReceiptsRoot b = blockReceiptsRoot b' \<and>
     map ledgerRecordSerialize (blockRecords b) = map ledgerRecordSerialize (blockRecords b')"

text \<open>The blocks that carry protocol commitments, as the consensus nodes exchange them.\<close>

definition committedBlock :: "sha256 \<Rightarrow> Block \<Rightarrow> bool" where
  "committedBlock sha b \<longleftrightarrow>
     blockValid sha True b \<and> blockIndex b > 0 \<and> blockPrevious b \<noteq> ''SNAPSHOT'' \<and>
     CHR 0x00 \<notin> set (blockPrevious b)"

lemma committedBlockD:
  assumes "committedBlock sha b"
  shows "0 < blockTimestamp b" and "isCanonicalCommitmentRoot (blockStateRoot b)"
    and "isCanonicalCommitmentRoot (blockReceiptsRoot b)" and "blockHash b = nodo_hash_bytes sha (headerPayload sha b)"
proof -
  show t: "0 < blockTimestamp b" and r: "isCanonicalCommitmentRoot (blockStateRoot b)"
      "isCanonicalCommitmentRoot (blockReceiptsRoot b)"
    using assms by (auto simp: committedBlock_def blockValid_def split: if_splits)
  have "blockHash b = calculateHash sha b"
    using assms by (auto simp: committedBlock_def blockValid_def split: if_splits)
  then show "blockHash b = nodo_hash_bytes sha (headerPayload sha b)"
    using header_no_nul [OF _ t r] assms by (simp add: calculateHash_def hashCString_no_nul committedBlock_def)
qed


subsection \<open>The chain stays linked\<close>

lemma linksValid_snoc:
  "linksValid sha rc (bs @ [b]) \<longleftrightarrow> linksValid sha rc bs \<and> (bs = [] \<or> isValidNextBlock sha (last bs) b rc)"
  by (induction sha rc bs rule: linksValid.induct) auto

lemma linksValid_nth:
  "linksValid sha rc bs \<Longrightarrow> Suc i < length bs \<Longrightarrow> isValidNextBlock sha (bs ! i) (bs ! Suc i) rc"
proof (induction sha rc bs arbitrary: i rule: linksValid.induct)
  case (3 sha rc p b bs)
  then show ?case by (cases i) auto
qed simp_all

definition hashIndexOk :: "Blockchain \<Rightarrow> bool" where
  "hashIndexOk chain \<longleftrightarrow> mapOk (blockIndicesByHash chain) \<and>
     (\<forall>h i. map_of (blockIndicesByHash chain) h = Some i \<longrightarrow>
        i < length (chainBlocks chain) \<and> blockHash (chainBlocks chain ! i) = h) \<and>
     (\<forall>b\<in>set (chainBlocks chain). map_of (blockIndicesByHash chain) (blockHash b) \<noteq> None)"

definition chainOk :: "sha256 \<Rightarrow> Blockchain \<Rightarrow> bool" where
  "chainOk sha chain \<longleftrightarrow>
     hashIndexOk chain \<and> (chainBlocks chain = [] \<or> blockchainValid sha False chain)"

datatype chainCall = AddGenesis Block | AddBlock Block | ResetSnapshot u64 string string

fun chainStep :: "sha256 \<Rightarrow> chainCall \<Rightarrow> Blockchain \<Rightarrow> Blockchain" where
  "chainStep sha (AddGenesis b) chain = snd (addGenesisBlock sha b chain)"
| "chainStep sha (AddBlock b) chain = snd (addBlock sha b chain)"
| "chainStep sha (ResetSnapshot height hash root) chain = snd (resetFromSnapshot sha height hash root chain)"

lemma chainOk_empty [simp]: "chainOk sha emptyChain"
  by (simp add: chainOk_def hashIndexOk_def emptyChain_def)

lemma chainBlocks_push [simp]: "chainBlocks (pushBlock b chain) = chainBlocks chain @ [b]"
  by (simp add: pushBlock_def)

lemma blockchainValid_iff:
  "blockchainValid sha rc chain \<longleftrightarrow>
     chainBlocks chain \<noteq> [] \<and> linksValid sha rc (chainBlocks chain) \<and>
     (blockPrevious (hd (chainBlocks chain)) = ''SNAPSHOT'' \<or> isValidGenesisBlock sha (hd (chainBlocks chain)))"
  by (simp add: blockchainValid_def)

lemma hashIndexOk_push: "hashIndexOk chain \<Longrightarrow> hashIndexOk (pushBlock b chain)"
  by (auto simp: hashIndexOk_def pushBlock_def nth_append less_Suc_eq split: if_splits)

lemma addGenesisBlock_ok: "chainOk sha chain \<Longrightarrow> chainOk sha (snd (addGenesisBlock sha b chain))"
  by (auto simp: chainOk_def addGenesisBlock_def hashIndexOk_push blockchainValid_iff)

lemma addBlock_ok: "chainOk sha chain \<Longrightarrow> chainOk sha (snd (addBlock sha b chain))"
  by (auto simp: chainOk_def addBlock_def hashIndexOk_push blockchainValid_iff canAppendBlock_def
      linksValid_snoc hd_append)

lemma createSnapshotDummy_total:
  "\<exists>b. createSnapshotDummy sha height hash root = Inr b \<and> blockIndex b = height \<and>
     blockPrevious b = ''SNAPSHOT'' \<and> blockHash b = hash \<and> blockTimestamp b = 1 \<and> blockRecords b = []"
  by (auto simp: createSnapshotDummy_def newBlock_def Let_def)

lemma resetFromSnapshot_ok: "chainOk sha (snd (resetFromSnapshot sha height hash root chain))"
proof -
  obtain b where "createSnapshotDummy sha height hash root = Inr b" "blockPrevious b = ''SNAPSHOT''" "blockHash b = hash"
    using createSnapshotDummy_total by blast
  then show ?thesis
    by (simp add: resetFromSnapshot_def chainOk_def hashIndexOk_def blockchainValid_iff)
qed

lemma chainStep_ok: "chainOk sha chain \<Longrightarrow> chainOk sha (chainStep sha c chain)"
  by (cases c) (auto simp: addGenesisBlock_ok addBlock_ok resetFromSnapshot_ok)

interpretation chains: component "chainStep sha" "\<lambda>_. True" "chainOk sha" for sha
  by unfold_locales (rule chainStep_ok)

lemma nextBlockD:
  assumes "isValidNextBlock sha p b rc"
  shows "unat (blockIndex b) = unat (blockIndex p) + 1" and "blockPrevious b = blockHash p"
    and "blockTimestamp p < blockTimestamp b" and "blockValid sha rc b"
  using assms unat_succ [of "blockIndex p"] by (auto simp: isValidNextBlock_def split: if_splits)

text \<open>
  C13: Whatever sequence of calls (adding a genesis block, adding a block, jumping to a fast-sync
  snapshot) a chain goes through, it is empty or passes \<open>isValid\<close>: neighbouring blocks have
  consecutive heights without wrap-around, each names its parent's hash and is strictly later.
  Lookup by hash is exact: it finds every stored block's hash and returns only a stored block
  with the hash asked for.
\<close>

theorem chain_always_linked:
  fixes sha :: sha256 and cs :: "chainCall list"
  defines "chain \<equiv> fold (chainStep sha) cs emptyChain"
  shows "(chainBlocks chain = [] \<or> blockchainValid sha False chain) \<and>
    (Suc i < length (chainBlocks chain) \<longrightarrow>
      unat (blockIndex (chainBlocks chain ! Suc i)) = unat (blockIndex (chainBlocks chain ! i)) + 1 \<and>
      blockPrevious (chainBlocks chain ! Suc i) = blockHash (chainBlocks chain ! i) \<and>
      blockTimestamp (chainBlocks chain ! i) < blockTimestamp (chainBlocks chain ! Suc i)) \<and>
    (blockByHash chain h = Some b \<longrightarrow> b \<in> set (chainBlocks chain) \<and> blockHash b = h) \<and>
    (blockByHash chain h = None \<longleftrightarrow> h \<notin> blockHash ` set (chainBlocks chain))"
proof -
  have ok: "chainOk sha chain" unfolding chain_def by (rule chains.run_inv) (simp_all add: list_all_iff)
  then have valid: "chainBlocks chain = [] \<or> blockchainValid sha False chain" by (simp add: chainOk_def)
  have links: "unat (blockIndex (chainBlocks chain ! Suc i)) = unat (blockIndex (chainBlocks chain ! i)) + 1 \<and>
      blockPrevious (chainBlocks chain ! Suc i) = blockHash (chainBlocks chain ! i) \<and>
      blockTimestamp (chainBlocks chain ! i) < blockTimestamp (chainBlocks chain ! Suc i)"
    if "Suc i < length (chainBlocks chain)"
  proof -
    have "linksValid sha False (chainBlocks chain)"
      using valid that by (auto simp: blockchainValid_iff)
    from nextBlockD [OF linksValid_nth [OF this that]] show ?thesis by simp
  qed
  have found: "b \<in> set (chainBlocks chain) \<and> blockHash b = h" if "blockByHash chain h = Some b"
    using ok that by (auto simp: chainOk_def hashIndexOk_def blockByHash_def split: option.splits)
  have "blockByHash chain h = None \<longleftrightarrow> h \<notin> blockHash ` set (chainBlocks chain)"
    using ok by (force simp: chainOk_def hashIndexOk_def blockByHash_def split: option.splits)
  with valid links found show ?thesis by blast
qed

text \<open>Lookup by height counts from the first stored block.\<close>

lemma chain_index:
  assumes "linksValid sha rc bs" and "i < length bs"
  shows "unat (blockIndex (bs ! i)) = unat (blockIndex (hd bs)) + i"
  using assms(2)
proof (induction i)
  case 0
  then show ?case by (simp add: hd_conv_nth)
next
  case (Suc i)
  then show ?case using nextBlockD(1) [OF linksValid_nth [OF assms(1), of i]] by simp
qed

text \<open>
  \<open>blockByHeight\<close> is exact on a chain that starts at genesis, and off by the snapshot height on
  every chain that starts at a snapshot: for a valid chain, the block it returns for height \<open>n\<close>
  has index \<open>n\<close> plus the index of the first stored block, so after a fast sync to height \<open>k > 0\<close>
  the block at the tip is never found under its own height.
\<close>

theorem height_lookup_offset:
  assumes "blockchainValid sha rc chain"
  shows "(blockByHeight chain n = Some b \<longrightarrow>
      unat (blockIndex b) = unat (blockIndex (hd (chainBlocks chain))) + unat n \<and>
      (isGenesisBlock (hd (chainBlocks chain)) \<longrightarrow> blockIndex b = n)) \<and>
    (blockIndex (hd (chainBlocks chain)) \<noteq> 0 \<longrightarrow>
      blockByHeight chain (blockIndex (last (chainBlocks chain))) = None)"
proof -
  have links: "linksValid sha rc (chainBlocks chain)" and ne: "chainBlocks chain \<noteq> []"
    using assms by (auto simp: blockchainValid_iff)
  have off: "unat (blockIndex b) = unat (blockIndex (hd (chainBlocks chain))) + unat n"
    if "blockByHeight chain n = Some b" for b
    using chain_index [OF links, of "unat n"] that by (auto simp: blockByHeight_def split: if_splits)
  have exact: "blockIndex b = n" if "isGenesisBlock (hd (chainBlocks chain))" "blockByHeight chain n = Some b"
    using off [OF that(2)] that(1) by (simp add: isGenesisBlock_def word_unat_eq_iff)
  have "blockByHeight chain (blockIndex (last (chainBlocks chain))) = None"
    if "blockIndex (hd (chainBlocks chain)) \<noteq> 0"
  proof -
    have "unat (blockIndex (last (chainBlocks chain))) =
        unat (blockIndex (hd (chainBlocks chain))) + (length (chainBlocks chain) - 1)"
      using chain_index [OF links, of "length (chainBlocks chain) - 1"] ne by (simp add: last_conv_nth)
    moreover have "0 < unat (blockIndex (hd (chainBlocks chain)))" using that by (simp add: unat_gt_0)
    ultimately show ?thesis using ne by (simp add: blockByHeight_def)
  qed
  with off exact show ?thesis by blast
qed

subsection \<open>A concrete block\<close>

definition demoEntryRecord :: LedgerRecord where
  "demoEntryRecord = \<lparr>recordId = replicate 64 CHR ''0'', recordType = TRANSACTION, recordSourceId = ''tx1'',
     recordPayload = ''p'', recordPayloadHash = replicate 64 CHR ''0'', recordTimestamp = 5\<rparr>"

definition demoBlock :: "u64 \<Rightarrow> string \<Rightarrow> char \<Rightarrow> int \<Rightarrow> Block" where
  "demoBlock i previous c t = \<lparr>blockIndex = i, blockPrevious = previous, blockHash = replicate 64 c,
     blockRecords = [demoEntryRecord], blockTimestamp = t, blockStateRoot = replicate 64 c,
     blockReceiptsRoot = replicate 64 c\<rparr>"

lemma demoEntryRecord_valid: "ledgerRecordValid demoSha demoEntryRecord"
proof -
  have "nodo_hash_string demoSha ''p'' = replicate 64 CHR ''0''" by (subst demoSha_hash) simp_all
  moreover have "showI64 5 = ''5''" by code_simp
  then have "computeRecordId demoSha TRANSACTION ''tx1'' (replicate 64 CHR ''0'') 5 = replicate 64 CHR ''0''"
    unfolding computeRecordId_def hashPayload_def by (subst demoSha_hash) simp_all
  ultimately show ?thesis by (simp add: ledgerRecordValid_def demoEntryRecord_def hashPayload_def)
qed

lemma demoBytes: "nodo_hash_bytes demoSha s = replicate 64
     (if CHR ''f'' \<in> set s then CHR ''f'' else if CHR ''7'' \<in> set s then CHR ''7'' else CHR ''0'')"
  by (simp add: nodo_hash_bytes_def demoSha_def demoSha_hex)

lemma demoEntryRecord_text:
  "ledgerRecordSerialize demoEntryRecord = ''LedgerRecord{id='' @ replicate 64 CHR ''0'' @
     '';type=TRANSACTION;sourceId=tx1;payloadHash='' @ replicate 64 CHR ''0'' @ '';timestamp=5;payload=p}''"
proof -
  have "showI64 5 = ''5''" by code_simp
  then show ?thesis by (simp add: ledgerRecordSerialize_def demoEntryRecord_def)
qed

lemma demoRoot: "recordsRoot demoSha (demoBlock i previous c t) = replicate 64 CHR ''0''"
proof -
  have "showNat 0 = ''0''" "showNat (length (ledgerRecordSerialize demoEntryRecord)) = ''210''"
    unfolding demoEntryRecord_text by code_simp+
  then show ?thesis
    by (simp add: recordsRoot_def buildOrderedRoot_def demoBlock_def hashLayer_single hashOrderedLeaf_def
        hashLeaf_def orderedLeafPayload_def demoBytes) (simp add: demoEntryRecord_text)
qed

lemma demo_numbers:
  "showU64 0 = ''0''" "showU64 1 = ''1''" "showI64 5 = ''5''" "showI64 6 = ''6''" "showNat 1 = ''1''" "showNat (Suc 0) = ''1''"
  by code_simp+

text \<open>A genesis block and a child of it for each digest the demonstration hash has.\<close>

definition demoGenesis :: Block where
  "demoGenesis = demoBlock 0 ''GENESIS'' CHR ''0'' 5"

definition demoChild :: "char \<Rightarrow> Block" where
  "demoChild c = demoBlock 1 (replicate 64 CHR ''0'') c 6"

lemma demoHeader:
  "headerPayload demoSha (demoBlock i previous c t) = ''BlockHeader{index='' @ showU64 i
     @ '';previousHash='' @ previous @ '';timestamp='' @ showI64 t
     @ '';recordCount=1;recordsMerkleRoot='' @ replicate 64 CHR ''0''
     @ '';stateRoot='' @ replicate 64 c @ '';receiptsRoot='' @ replicate 64 c @ ''}''"
  by (simp add: headerPayload_def demoRoot) (simp add: demoBlock_def demo_numbers)

lemma demoLimits:
  assumes "length (showU64 i) = 1" and "length (showI64 t) = 1" and "length previous \<le> 64"
  shows "isWithinResourceLimits demoSha (demoBlock i previous c t)"
proof -
  have "length (headerPayload demoSha (demoBlock i previous c t)) \<le> 500"
    using assms by (simp add: demoHeader)
  then have "length (blockSerialize demoSha (demoBlock i previous c t)) \<le> 2000"
    using assms by (simp add: blockSerialize_def) (simp add: demoBlock_def demo_numbers demoEntryRecord_text)
  then show ?thesis
    by (simp add: isWithinResourceLimits_def)
       (simp add: demoBlock_def MAX_BLOCK_RECORDS_def MAX_SERIALIZED_BLOCK_BYTES_def MAX_RECORD_PAYLOAD_BYTES_def
          demoEntryRecord_text demoEntryRecord_def [THEN arg_cong, of recordPayload])
qed

lemma digest_not_tag [simp]: "replicate 64 c \<noteq> ''GENESIS''" "replicate 64 c \<noteq> ''SNAPSHOT''"
  by (rule notI, drule arg_cong [of _ _ length], simp)+

lemma demoGenesis_valid: "isValidGenesisBlock demoSha demoGenesis"
proof -
  have "calculateHash demoSha demoGenesis = replicate 64 CHR ''0''"
    unfolding calculateHash_def demoGenesis_def demoHeader by (subst demoSha_hash) (simp_all add: demo_numbers)
  moreover have "isWithinResourceLimits demoSha demoGenesis"
    unfolding demoGenesis_def by (rule demoLimits) (simp_all add: demo_numbers)
  ultimately show ?thesis
    by (simp add: isValidGenesisBlock_def blockValid_def isGenesisBlock_def)
       (simp add: demoGenesis_def demoBlock_def demoEntryRecord_valid)
qed

lemma demoChild_valid:
  assumes "demoName c"
  shows "blockValid demoSha rc (demoChild c)"
proof -
  have "calculateHash demoSha (demoChild c) = replicate 64 c"
    using assms unfolding calculateHash_def demoChild_def demoHeader
    by (subst demoSha_hash) (auto simp: demo_numbers demoName_def)
  moreover have "isWithinResourceLimits demoSha (demoChild c)"
    unfolding demoChild_def by (rule demoLimits) (simp_all add: demo_numbers)
  moreover have "isCanonicalCommitmentRoot (replicate 64 c)"
    using assms by (simp add: isCanonicalCommitmentRoot_def demoName_hex)
  ultimately show ?thesis
    by (simp add: blockValid_def) (simp add: demoChild_def demoBlock_def demoEntryRecord_valid)
qed

lemma demoChild_next:
  assumes "demoName c"
  shows "isValidNextBlock demoSha demoGenesis (demoChild c) False"
proof -
  have "isWithinResourceLimits demoSha (demoChild c)"
    unfolding demoChild_def by (rule demoLimits) (simp_all add: demo_numbers)
  then have "length (blockSerialize demoSha (demoChild c)) \<le> 2097152"
    by (auto simp: isWithinResourceLimits_def MAX_SERIALIZED_BLOCK_BYTES_def split: if_splits option.splits)
  moreover have "blockValid demoSha False demoGenesis"
    using demoGenesis_valid by (auto simp: isValidGenesisBlock_def blockValid_def split: if_splits)
  ultimately show ?thesis
    using demoChild_valid [OF assms, of False]
    by (simp add: isValidNextBlock_def)
       (simp add: demoGenesis_def demoChild_def demoBlock_def isGenesisBlock_def U64_MAX_def)
qed


definition demoChain :: "char \<Rightarrow> Blockchain" where
  "demoChain c = fold (chainStep demoSha) [AddGenesis demoGenesis, AddBlock (demoChild c)] emptyChain"

lemma demoChain_blocks: "demoName c \<Longrightarrow> chainBlocks (demoChain c) = [demoGenesis, demoChild c]"
  by (simp add: demoChain_def addGenesisBlock_def addBlock_def canAppendBlock_def demoGenesis_valid
      demoChild_next emptyChain_def)

theorem chain_always_linked_witness:
  "blockTimestamp demoGenesis < blockTimestamp (demoChild CHR ''f'')"
proof -
  have blocks: "chainBlocks (fold (chainStep demoSha) [AddGenesis demoGenesis, AddBlock (demoChild CHR ''f'')] emptyChain)
      = [demoGenesis, demoChild CHR ''f'']"
    using demoChain_blocks [of "CHR ''f''"] unfolding demoChain_def demoName_def by blast
  show ?thesis
    using chain_always_linked [of demoSha "[AddGenesis demoGenesis, AddBlock (demoChild CHR ''f'')]" 0]
    unfolding blocks by simp
qed

theorem height_lookup_offset_witness:
  "\<exists>chain. blockchainValid demoSha False chain \<and> blockIndex (last (chainBlocks chain)) = 9 \<and>
     blockByHeight chain 9 = None"
proof -
  let ?chain = "snd (resetFromSnapshot demoSha 9 ''h'' ''r'' emptyChain)"
  obtain b where b: "createSnapshotDummy demoSha 9 ''h'' ''r'' = Inr b" "blockIndex b = 9" "blockPrevious b = ''SNAPSHOT''"
    using createSnapshotDummy_total by blast
  then have blocks: "chainBlocks ?chain = [b]" by (simp add: resetFromSnapshot_def)
  then have valid: "blockchainValid demoSha False ?chain" using b(3) by (simp add: blockchainValid_iff)
  have "blockByHeight ?chain 9 = None"
    using height_lookup_offset [OF valid] blocks b(2) by simp
  then show ?thesis using valid blocks b(2) by (intro exI [of _ ?chain]) simp
qed

end
