(* ===== verification/Accounts.thy ===== *)
theory Accounts
  imports Transactions
begin

section \<open>Account states\<close>

text \<open>
  \<open>src/core/AccountState.cpp\<close> and \<open>src/core/AccountStateView.cpp\<close>: the balance and nonce of an
  address, and the ordered map of all accounts that block execution works on. The lemmas describe
  a view by the balance and the nonce it gives for every address, with the default account for an
  unknown one, and say how a sum over all balances changes when one account is written.
\<close>

record AccountState =
  accAddress :: string
  accBalance :: Amount
  accNonce :: u64

type_synonym AccountStateView = "(string, AccountState) smap"

definition accountValid :: "AccountState \<Rightarrow> bool" where
  "accountValid a \<longleftrightarrow> accAddress a \<noteq> [] \<and> \<not> isNegative (accBalance a)"

definition accountSerialize :: "AccountState \<Rightarrow> string" where
  "accountSerialize a =
     ''AccountState{address='' @ accAddress a @ '';balanceRaw='' @ showI64 (rawUnits (accBalance a))
       @ '';nonce='' @ showU64 (accNonce a) @ ''}''"

definition hasAccount :: "AccountStateView \<Rightarrow> string \<Rightarrow> bool" where
  "hasAccount view address = (if address = [] then False else map_of view address \<noteq> None)"

definition accountOrDefault :: "AccountStateView \<Rightarrow> string \<Rightarrow> AccountState" where
  "accountOrDefault view address =
     (case map_of view address of
        None \<Rightarrow> \<lparr>accAddress = address, accBalance = zeroAmount, accNonce = 0\<rparr>
      | Some a \<Rightarrow> a)"

definition putAccount :: "AccountState \<Rightarrow> AccountStateView \<Rightarrow> bool \<times> AccountStateView" where
  "putAccount a view =
     (if \<not> accountValid a then (False, view) else (True, mapPut (accAddress a) a view))"

definition knownAddresses :: "AccountStateView \<Rightarrow> string list" where
  "knownAddresses view = map fst view"

definition viewAccounts :: "AccountStateView \<Rightarrow> AccountState list" where
  "viewAccounts view = map snd view"

definition viewValid :: "AccountStateView \<Rightarrow> bool" where
  "viewValid view \<longleftrightarrow>
     list_all (\<lambda>(address, a). \<not> (address = [] \<or> address \<noteq> accAddress a \<or> \<not> accountValid a)) view"

definition viewSerialize :: "AccountStateView \<Rightarrow> string" where
  "viewSerialize view =
     ''AccountStateView{accountCount='' @ showNat (length view) @ '';accounts=[''
       @ joinWith '','' (map (accountSerialize \<circ> snd) view) @ '']}''"

subsection \<open>Balances and nonces by address\<close>

text \<open>A view the class can hold: ordered, valid, balances in range.\<close>

definition viewOk :: "AccountStateView \<Rightarrow> bool" where
  "viewOk view \<longleftrightarrow> mapOk view \<and> viewValid view \<and> (\<forall>e\<in>set view. amountOk (accBalance (snd e)))"

definition balanceOf :: "AccountStateView \<Rightarrow> string \<Rightarrow> int" where
  "balanceOf view address = rawUnits (accBalance (accountOrDefault view address))"

definition nonceOf :: "AccountStateView \<Rightarrow> string \<Rightarrow> u64" where
  "nonceOf view address = accNonce (accountOrDefault view address)"

definition totalBalance :: "AccountStateView \<Rightarrow> int" where
  "totalBalance view = (\<Sum>e\<leftarrow>view. rawUnits (accBalance (snd e)))"

lemma viewOk_Nil [simp]: "viewOk []"
  by (simp add: viewOk_def viewValid_def)

lemma viewOk_entry:
  assumes "viewOk view" and "map_of view address = Some a"
  shows "accAddress a = address" "accountValid a" "amountOk (accBalance a)"
  using map_of_SomeD [OF assms(2)] assms(1) by (auto simp: viewOk_def viewValid_def list_all_iff)

lemma accountOrDefault_ok:
  assumes "viewOk view"
  shows "accAddress (accountOrDefault view address) = address"
    "amountOk (accBalance (accountOrDefault view address))"
  using viewOk_entry [OF assms] by (auto simp: accountOrDefault_def split: option.splits)

lemma viewOk_put:
  "viewOk view \<Longrightarrow> accountValid a \<Longrightarrow> amountOk (accBalance a) \<Longrightarrow> viewOk (mapPut (accAddress a) a view)"
  by (auto simp: viewOk_def viewValid_def list_all_iff accountValid_def dest!: mapPut_mem)

lemma balanceOf_put [simp]:
  "balanceOf (mapPut k a view) address = (if address = k then rawUnits (accBalance a) else balanceOf view address)"
  by (simp add: balanceOf_def accountOrDefault_def)

lemma nonceOf_put [simp]:
  "nonceOf (mapPut k a view) address = (if address = k then accNonce a else nonceOf view address)"
  by (simp add: nonceOf_def accountOrDefault_def)

lemma balanceOf_nonneg: "viewOk view \<Longrightarrow> 0 \<le> balanceOf view address"
  using accountOrDefault_ok(2) [of view address] by (simp add: balanceOf_def amountOk_def)

lemma totalBalance_nat:
  assumes "viewOk view"
  shows "totalBalance view = int (\<Sum>e\<leftarrow>view. nat (rawUnits (accBalance (snd e))))"
proof -
  have "\<forall>e\<in>set view. 0 \<le> rawUnits (accBalance (snd e))"
    using assms by (auto simp: viewOk_def amountOk_def)
  then show ?thesis unfolding totalBalance_def by (induction view) simp_all
qed

lemma totalBalance_put:
  assumes "viewOk view" and "accountValid a" and "amountOk (accBalance a)"
  shows "totalBalance (mapPut (accAddress a) a view) =
         totalBalance view - balanceOf view (accAddress a) + rawUnits (accBalance a)"
proof -
  let ?f = "\<lambda>a. nat (rawUnits (accBalance a))"
  have "mapOk view" using assms(1) by (simp add: viewOk_def)
  from om.sum_put [OF this, of ?f "accAddress a" a]
  have "(\<Sum>e\<leftarrow>mapPut (accAddress a) a view. ?f (snd e)) + nat (balanceOf view (accAddress a)) =
      (\<Sum>e\<leftarrow>view. ?f (snd e)) + ?f a"
    by (auto simp: balanceOf_def accountOrDefault_def zeroAmount_def split: option.splits)
  moreover have "0 \<le> balanceOf view (accAddress a)" using assms(1) by (rule balanceOf_nonneg)
  ultimately show ?thesis
    using assms(3) totalBalance_nat [OF assms(1)] totalBalance_nat [OF viewOk_put [OF assms]]
    unfolding amountOk_def by linarith
qed

end
