(* ===== verification/Codec.thy ===== *)
theory Codec
  imports CryptoIds
begin

section \<open>Canonical byte encoding\<close>

text \<open>
  \<open>src/serialization/CanonicalWriter.cpp\<close> and \<open>CanonicalReader.cpp\<close>: fixed-width big-endian
  integers and length-prefixed fields. A write is the bytes it appends; a read takes a reader (the
  bytes, a position in them and the field size limit) to a value and the advanced reader, or
  throws. Bytes are \<^typ>\<open>char\<close>.

  The locale \<open>field_codec\<close> is the contract between a write and the matching read: the read
  returns what was written and stops right behind it, and it accepts no other bytes. Every pair of
  primitive operations is an interpretation of it, and the message codecs rest on its lemmas.
\<close>

unbundle bit_operations_syntax

subsection \<open>Big-endian integers\<close>

definition byteWord :: "char \<Rightarrow> 'a::len word" where
  "byteWord b = word_of_int (of_char b)"

definition writeBE :: "nat \<Rightarrow> 'a::len word \<Rightarrow> string" where
  "writeBE n v = map (\<lambda>i. char_of (uint (drop_bit (8 * i) v AND 255))) (rev [0..<n])"

definition readBE :: "string \<Rightarrow> 'a::len word" where
  "readBE bs = foldl (\<lambda>value b. push_bit 8 value OR byteWord b) 0 bs"

lemma length_writeBE [simp]: "length (writeBE n v) = n"
  by (simp add: writeBE_def)

lemma writeBE_0 [simp]: "writeBE 0 v = []"
  by (simp add: writeBE_def)

lemma and_255: "(v :: 'a::len word) AND 255 = take_bit 8 v"
  by (simp add: take_bit_eq_mask mask_eq_exp_minus_1)

lemma writeBE_Suc:
  "writeBE (Suc n) (v :: 'a::len word) = writeBE n (drop_bit 8 v) @ [char_of (uint (take_bit 8 v))]"
proof -
  have up: "[0..<Suc n] = 0 # map Suc [0..<n]" by (simp add: map_Suc_upt upt_conv_Cons del: upt_Suc)
  show ?thesis unfolding writeBE_def up and_255
    by (simp add: rev_map drop_bit_drop_bit add.commute o_def)
qed

lemma readBE_Nil [simp]: "readBE [] = 0"
  by (simp add: readBE_def)

lemma readBE_snoc [simp]: "readBE (bs @ [b]) = push_bit 8 (readBE bs) OR byteWord b"
  by (simp add: readBE_def)

lemma byte_bits: "bit (byteWord b :: 'a::len word) n \<Longrightarrow> n < 8"
proof -
  assume "bit (byteWord b :: 'a word) n"
  then have "bit (of_char b :: int) n" by (simp add: byteWord_def bit_simps)
  moreover have "take_bit 8 (of_char b :: int) = of_char b"
    using byte_range [of b] by (simp add: take_bit_eq_mod)
  ultimately show "n < 8" by (metis bit_take_bit_iff)
qed

lemma byteWord_char_of: "byteWord (char_of (uint (take_bit 8 v))) = take_bit 8 (v :: 'a::len word)"
proof -
  have "uint (take_bit 8 v) mod 256 = take_bit 8 (uint (take_bit 8 v))" by (simp add: take_bit_eq_mod)
  also have "\<dots> = uint (take_bit 8 v)" by (simp only: unsigned_take_bit_eq take_bit_take_bit min.idem)
  finally show ?thesis by (simp only: byteWord_def of_char_of word_of_int_uint)
qed

lemma char_of_byteWord: "8 \<le> LENGTH('a) \<Longrightarrow> char_of (uint (byteWord b :: 'a::len word)) = b"
proof -
  assume "8 \<le> LENGTH('a)"
  then have "(2::int) ^ 8 \<le> 2 ^ LENGTH('a)" by (rule power_increasing) simp
  then have "(of_char b :: int) mod 2 ^ LENGTH('a) = of_char b" by (intro mod_pos_pos_trivial order_less_le_trans [OF byte_range(2)]) simp_all
  then show ?thesis by (simp add: byteWord_def uint_word_of_int)
qed

lemma readBE_writeBE: "readBE (writeBE n (v :: 'a::len word)) = take_bit (8 * n) v"
proof (induction n arbitrary: v)
  case 0
  then show ?case by simp
next
  case (Suc n)
  have "push_bit 8 (take_bit (8 * n) (drop_bit 8 v)) OR take_bit 8 v = take_bit (8 * Suc n) v"
    by (rule bit_word_eqI) (auto simp: bit_simps)
  then show ?case by (simp add: writeBE_Suc Suc.IH byteWord_char_of)
qed

lemma readBE_bits: "bit (readBE bs :: 'a::len word) n \<Longrightarrow> n < 8 * length bs"
proof (induction bs arbitrary: n rule: rev_induct)
  case Nil
  then show ?case by simp
next
  case (snoc b bs)
  then consider "8 \<le> n" "bit (readBE bs :: 'a word) (n - 8)" | "bit (byteWord b :: 'a word) n"
    by (auto simp: bit_simps)
  then show ?case using snoc.IH [of "n - 8"] byte_bits [of b n, where 'a = 'a] by cases auto
qed

lemma writeBE_readBE: "8 * length bs \<le> LENGTH('a) \<Longrightarrow> writeBE (length bs) (readBE bs :: 'a::len word) = bs"
proof (induction bs rule: rev_induct)
  case Nil
  then show ?case by simp
next
  case (snoc b bs)
  have "drop_bit 8 (push_bit 8 (readBE bs) OR byteWord b :: 'a word) = readBE bs"
    using readBE_bits [of bs, where 'a = 'a] byte_bits [of b, where 'a = 'a] snoc.prems
    by (intro bit_word_eqI) (fastforce simp: bit_simps)
  moreover have "take_bit 8 (push_bit 8 (readBE bs) OR byteWord b :: 'a word) = byteWord b"
    using byte_bits [of b, where 'a = 'a] by (intro bit_word_eqI) (auto simp: bit_simps)
  ultimately show ?case using snoc by (simp add: writeBE_Suc char_of_byteWord)
qed

subsection \<open>Writer and reader\<close>

definition writeUInt8 :: "u8 \<Rightarrow> string" where
  "writeUInt8 value = [char_of (uint value)]"

definition writeBool :: "bool \<Rightarrow> string" where
  "writeBool value = writeUInt8 (if value then 1 else 0)"

definition writeUInt16 :: "u16 \<Rightarrow> string" where
  "writeUInt16 value = writeBE 2 value"

definition writeUInt32 :: "u32 \<Rightarrow> string" where
  "writeUInt32 value = writeBE 4 value"

definition writeUInt64 :: "u64 \<Rightarrow> string" where
  "writeUInt64 value = writeBE 8 value"

definition writeInt64 :: "int \<Rightarrow> string" where
  "writeInt64 value = writeUInt64 (word_of_int value)"

definition U32_MAX :: nat where
  "U32_MAX = 4294967295"

definition writeField :: "string \<Rightarrow> string \<Rightarrow> string result" where
  "writeField what value =
     (if U32_MAX < length value then Inl (LengthError (''Canonical '' @ what @ '' field is too large.''))
      else Inr (writeUInt32 (word_of_nat (length value)) @ value))"

definition writeString :: "string \<Rightarrow> string result" where
  "writeString value = writeField ''string'' value"

definition writeBytes :: "string \<Rightarrow> string result" where
  "writeBytes value = writeField ''bytes'' value"

text \<open>\<open>writeString\<close> and \<open>writeBytes\<close> have one body; so have \<open>readString\<close> and \<open>readBytes\<close>.\<close>

record CanonicalReader =
  readerBytes :: string
  readerPosition :: nat
  maxFieldBytes :: nat

type_synonym 'a reader = "CanonicalReader \<Rightarrow> ('a \<times> CanonicalReader) result"

definition newReader :: "string \<Rightarrow> nat \<Rightarrow> CanonicalReader result" where
  "newReader bytes maxField =
     (if maxField = 0 then Inl (InvalidArgument ''CanonicalReader maxFieldBytes must be positive.'')
      else Inr \<lparr>readerBytes = bytes, readerPosition = 0, maxFieldBytes = maxField\<rparr>)"

definition readerRemaining :: "CanonicalReader \<Rightarrow> nat" where
  "readerRemaining r = length (readerBytes r) - readerPosition r"

definition advance :: "nat \<Rightarrow> CanonicalReader \<Rightarrow> CanonicalReader" where
  "advance n r = r\<lparr>readerPosition := readerPosition r + n\<rparr>"

definition fullyConsumed :: "CanonicalReader \<Rightarrow> bool" where
  "fullyConsumed r \<longleftrightarrow> readerPosition r = length (readerBytes r)"

definition readThen :: "'a reader \<Rightarrow> ('a \<Rightarrow> 'b reader) \<Rightarrow> 'b reader" where
  "readThen p f r = bindR (p r) (\<lambda>(x, r'). f x r')"

definition returns :: "'a \<Rightarrow> 'a reader" where
  "returns x r = Inr (x, r)"

definition throws :: "exn \<Rightarrow> 'a reader" where
  "throws e r = Inl e"

definition requireAvailable :: "nat \<Rightarrow> unit reader" where
  "requireAvailable count r =
     (if readerRemaining r < count then Inl (RuntimeError ''Canonical payload is truncated.'') else Inr ((), r))"

definition requireAllowedFieldSize :: "nat \<Rightarrow> unit reader" where
  "requireAllowedFieldSize count r =
     (if maxFieldBytes r < count then Inl (RuntimeError ''Canonical field exceeds configured size limit.'')
      else Inr ((), r))"

definition requireFullyConsumed :: "unit reader" where
  "requireFullyConsumed r =
     (if \<not> fullyConsumed r then Inl (RuntimeError ''Canonical payload contains trailing bytes.'') else Inr ((), r))"

definition nextBytes :: "nat \<Rightarrow> string reader" where
  "nextBytes n r = Inr (take n (drop (readerPosition r) (readerBytes r)), advance n r)"

definition readUInt8 :: "u8 reader" where
  "readUInt8 = readThen (requireAvailable 1) (\<lambda>_. readThen (nextBytes 1) (\<lambda>bs. returns (readBE bs)))"

definition readBool :: "bool reader" where
  "readBool = readThen readUInt8 (\<lambda>value.
     if value = 0 then returns False
     else if value = 1 then returns True
     else throws (RuntimeError ''Canonical boolean field must be 0 or 1.''))"

definition readUInt16 :: "u16 reader" where
  "readUInt16 = readThen (requireAvailable 2) (\<lambda>_. readThen (nextBytes 2) (\<lambda>bs. returns (readBE bs)))"

definition readUInt32 :: "u32 reader" where
  "readUInt32 = readThen (requireAvailable 4) (\<lambda>_. readThen (nextBytes 4) (\<lambda>bs. returns (readBE bs)))"

definition readUInt64 :: "u64 reader" where
  "readUInt64 = readThen (requireAvailable 8) (\<lambda>_. readThen (nextBytes 8) (\<lambda>bs. returns (readBE bs)))"

definition readInt64 :: "int reader" where
  "readInt64 = readThen readUInt64 (\<lambda>value. returns (sint value))"

definition readString :: "string reader" where
  "readString = readThen readUInt32 (\<lambda>length.
     readThen (requireAllowedFieldSize (unat length)) (\<lambda>_.
     readThen (requireAvailable (unat length)) (\<lambda>_. nextBytes (unat length))))"

definition readBytes :: "string reader" where
  "readBytes = readString"

subsection \<open>Field codecs\<close>

text \<open>The reader that has consumed \<open>before\<close> and has \<open>rest\<close> left.\<close>

definition readerAt :: "string \<Rightarrow> string \<Rightarrow> nat \<Rightarrow> CanonicalReader" where
  "readerAt before rest m = \<lparr>readerBytes = before @ rest, readerPosition = length before, maxFieldBytes = m\<rparr>"

locale field_codec =
  fixes enc :: "'a \<Rightarrow> string" and dec :: "'a reader" and fits :: "nat \<Rightarrow> 'a \<Rightarrow> bool"
  assumes reads: "fits m x \<Longrightarrow> dec (readerAt d (enc x @ t) m) = Inr (x, readerAt (d @ enc x) t m)"
    and accepts: "dec (readerAt d s m) = Inr (x, r) \<Longrightarrow> fits m x \<and> (\<exists>t. s = enc x @ t \<and> r = readerAt (d @ enc x) t m)"
begin

lemma inj: "fits m x \<Longrightarrow> fits m y \<Longrightarrow> enc x @ s = enc y @ t \<Longrightarrow> x = y \<and> s = t"
  using reads [of m x "[]" s] reads [of m y "[]" t] by auto

lemma then_reads: "fits m x \<Longrightarrow> readThen dec f (readerAt d (enc x @ t) m) = f x (readerAt (d @ enc x) t m)"
  by (simp add: readThen_def reads)

lemma then_reads_end: "fits m x \<Longrightarrow> readThen dec f (readerAt d (enc x) m) = f x (readerAt (d @ enc x) [] m)"
  using then_reads [of m x f d "[]"] by simp

lemma then_accepts:
  assumes "readThen dec f (readerAt d s m) = Inr y"
  obtains x t where "s = enc x @ t" "fits m x" "f x (readerAt (d @ enc x) t m) = Inr y"
  using assms accepts [of d s m] by (fastforce simp: readThen_def)

end

lemma next_at: "nextBytes (length x) (readerAt d (x @ t) m) = Inr (x, readerAt (d @ x) t m)"
  by (simp add: nextBytes_def readerAt_def advance_def)

lemma available_at: "requireAvailable n (readerAt d s m) =
    (if length s < n then Inl (RuntimeError ''Canonical payload is truncated.'') else Inr ((), readerAt d s m))"
  by (simp add: requireAvailable_def readerRemaining_def readerAt_def)

lemma consumed_at: "requireFullyConsumed (readerAt d s m) =
    (if s \<noteq> [] then Inl (RuntimeError ''Canonical payload contains trailing bytes.'') else Inr ((), readerAt d s m))"
  by (simp add: requireFullyConsumed_def fullyConsumed_def readerAt_def)

lemma allowed_at: "requireAllowedFieldSize n (readerAt d s m) =
    (if m < n then Inl (RuntimeError ''Canonical field exceeds configured size limit.'') else Inr ((), readerAt d s m))"
  by (simp add: requireAllowedFieldSize_def readerAt_def)

lemma then_consumed: "readThen requireFullyConsumed f (readerAt d [] m) = f () (readerAt d [] m)"
  by (simp add: readThen_def consumed_at)

lemma then_consumedE:
  assumes "readThen requireFullyConsumed f (readerAt d s m) = Inr y"
  obtains "s = []" "f () (readerAt d [] m) = Inr y"
  using assms by (auto simp: readThen_def consumed_at split: if_splits)

lemmas reader_at = available_at consumed_at allowed_at

lemma integer_codec:
  assumes "8 * n = LENGTH('a::len)"
  shows "field_codec (writeBE n :: 'a word \<Rightarrow> string)
    (readThen (requireAvailable n) (\<lambda>_. readThen (nextBytes n) (\<lambda>bs. returns (readBE bs)))) (\<lambda>_ _. True)"
proof
  fix m d t and x :: "'a word"
  have "take_bit (8 * n) x = x" unfolding assms by (rule take_bit_length_eq)
  then show "readThen (requireAvailable n) (\<lambda>_. readThen (nextBytes n) (\<lambda>bs. returns (readBE bs)))
      (readerAt d (writeBE n x @ t) m) = Inr (x, readerAt (d @ writeBE n x) t m)"
    using next_at [of "writeBE n x" d t m] by (simp add: readThen_def available_at returns_def readBE_writeBE)
next
  fix d s m r and x :: "'a word"
  assume a: "readThen (requireAvailable n) (\<lambda>_. readThen (nextBytes n) (\<lambda>bs. returns (readBE bs))) (readerAt d s m) = Inr (x, r)"
  then have n: "n \<le> length s" by (auto simp: readThen_def available_at split: if_splits)
  have "nextBytes n (readerAt d s m) = Inr (take n s, readerAt (d @ take n s) (drop n s) m)"
    using next_at [of "take n s" d "drop n s" m] n by simp
  then have "x = readBE (take n s)" and "r = readerAt (d @ take n s) (drop n s) m"
    using a n by (auto simp: readThen_def available_at returns_def)
  moreover have "writeBE n x = take n s" using writeBE_readBE [of "take n s", where 'a = 'a] n assms \<open>x = _\<close> by simp
  ultimately show "True \<and> (\<exists>t. s = writeBE n x @ t \<and> r = readerAt (d @ writeBE n x) t m)" by (metis append_take_drop_id)
qed

interpretation u8: field_codec writeUInt8 readUInt8 "\<lambda>_ _. True"
proof -
  have "take_bit 8 x = x" for x :: u8 using take_bit_length_eq [of x] by simp
  then have w: "writeUInt8 = writeBE 1" by (intro ext) (simp add: writeUInt8_def writeBE_def and_255)
  show "field_codec writeUInt8 readUInt8 (\<lambda>_ _. True)"
    unfolding w readUInt8_def by (rule integer_codec) simp
qed

interpretation u16: field_codec writeUInt16 readUInt16 "\<lambda>_ _. True"
  unfolding writeUInt16_def [abs_def] readUInt16_def by (rule integer_codec) simp

interpretation u32: field_codec writeUInt32 readUInt32 "\<lambda>_ _. True"
  unfolding writeUInt32_def [abs_def] readUInt32_def by (rule integer_codec) simp

interpretation u64: field_codec writeUInt64 readUInt64 "\<lambda>_ _. True"
  unfolding writeUInt64_def [abs_def] readUInt64_def by (rule integer_codec) simp

interpretation i64: field_codec writeInt64 readInt64 "\<lambda>_. in_i64"
proof
  fix m d t x
  assume "in_i64 x"
  then have "sint (word_of_int x :: u64) = x"
    by (simp add: in_i64_def I64_MIN_def I64_MAX_def sint_sbintrunc' signed_take_bit_int_eq_self)
  then show "readInt64 (readerAt d (writeInt64 x @ t) m) = Inr (x, readerAt (d @ writeInt64 x) t m)"
    by (simp add: readInt64_def writeInt64_def u64.then_reads returns_def)
next
  fix d s m x r
  assume "readInt64 (readerAt d s m) = Inr (x, r)"
  then obtain v t where v: "s = writeUInt64 v @ t" "x = sint v" "r = readerAt (d @ writeUInt64 v) t m"
    unfolding readInt64_def by (auto elim: u64.then_accepts simp: returns_def)
  moreover have "in_i64 (sint v)"
    using sint_range_size [of v] by (simp add: in_i64_def I64_MIN_def I64_MAX_def word_size)
  ultimately show "in_i64 x \<and> (\<exists>t. s = writeInt64 x @ t \<and> r = readerAt (d @ writeInt64 x) t m)"
    by (simp add: writeInt64_def)
qed

interpretation flag: field_codec writeBool readBool "\<lambda>_ _. True"
proof
  fix m d t x
  show "readBool (readerAt d (writeBool x @ t) m) = Inr (x, readerAt (d @ writeBool x) t m)"
    by (simp add: readBool_def writeBool_def u8.then_reads returns_def)
next
  fix d s m x r
  assume "readBool (readerAt d s m) = Inr (x, r)"
  then show "True \<and> (\<exists>t. s = writeBool x @ t \<and> r = readerAt (d @ writeBool x) t m)"
    unfolding readBool_def
    by (auto elim!: u8.then_accepts simp: returns_def throws_def writeBool_def split: if_splits)
qed

definition encodedField :: "string \<Rightarrow> string" where
  "encodedField value = writeUInt32 (word_of_nat (length value)) @ value"

definition fieldFits :: "nat \<Rightarrow> string \<Rightarrow> bool" where
  "fieldFits m value \<longleftrightarrow> length value \<le> m \<and> length value \<le> U32_MAX"

lemma writeField_fits: "fieldFits m value \<Longrightarrow> writeField what value = Inr (encodedField value)"
  by (simp add: writeField_def encodedField_def fieldFits_def)

lemma writeField_Inr: "writeField what value = Inr bs \<longleftrightarrow> length value \<le> U32_MAX \<and> bs = encodedField value"
  by (auto simp: writeField_def encodedField_def)

interpretation field: field_codec encodedField readString fieldFits
proof
  fix m x d t
  assume fits: "fieldFits m x"
  then have "unat (word_of_nat (length x) :: u32) = length x"
    by (simp add: fieldFits_def U32_MAX_def unat_of_nat take_bit_nat_eq_self)
  then show "readString (readerAt d (encodedField x @ t) m) = Inr (x, readerAt (d @ encodedField x) t m)"
    using fits next_at [of x "d @ writeUInt32 (word_of_nat (length x))" t m]
    by (simp add: readString_def encodedField_def u32.then_reads, simp add: readThen_def reader_at fieldFits_def)
next
  fix d s m x r
  assume "readString (readerAt d s m) = Inr (x, r)"
  then obtain n t where n: "s = writeUInt32 n @ t"
    and rest: "readThen (requireAllowedFieldSize (unat n)) (\<lambda>_. readThen (requireAvailable (unat n)) (\<lambda>_. nextBytes (unat n)))
      (readerAt (d @ writeUInt32 n) t m) = Inr (x, r)"
    unfolding readString_def by (auto elim: u32.then_accepts)
  then have le: "unat n \<le> m" "unat n \<le> length t" by (auto simp: readThen_def reader_at split: if_splits)
  have "nextBytes (unat n) (readerAt (d @ writeUInt32 n) t m) =
      Inr (take (unat n) t, readerAt (d @ writeUInt32 n @ take (unat n) t) (drop (unat n) t) m)"
    using next_at [of "take (unat n) t" "d @ writeUInt32 n" "drop (unat n) t" m] le by simp
  with rest le have x: "x = take (unat n) t" and r: "r = readerAt (d @ writeUInt32 n @ take (unat n) t) (drop (unat n) t) m"
    by (auto simp: readThen_def reader_at)
  have "length x = unat n" using le x by simp
  moreover have "unat n \<le> U32_MAX" using unsigned_less [of n, where ?'a = nat] by (simp add: U32_MAX_def)
  ultimately show "fieldFits m x \<and> (\<exists>t. s = encodedField x @ t \<and> r = readerAt (d @ encodedField x) t m)"
    using le n x r by (auto simp: fieldFits_def encodedField_def intro!: exI [of _ "drop (unat n) t"])
qed

end
