(* ===== verification/Weights.thy ===== *)
theory Weights
  imports CryptoIds
begin

section \<open>Weighted voting sets\<close>

text \<open>
  What the quorum, the vote pool and the proposer schedule rely on in a validator set: a list of
  distinct eligible addresses, a weight for each address that is zero outside that list, and a
  total that a well-formed set computes without overflow. The client side is proved here once:
  a set of distinct voters never weighs more than the total, two voter sets that are both heavy
  enough share voters of a definite weight, and the walk along cumulative weights gives every
  validator as many tickets as it has weight. \<open>Validators\<close> interprets the locale on the
  validator registry.
\<close>

locale weighted_set =
  fixes weightOf :: "'r \<Rightarrow> string \<Rightarrow> u64"
    and eligible :: "'r \<Rightarrow> string list"
    and total :: "'r \<Rightarrow> u64 result"
    and ok :: "'r \<Rightarrow> bool"
  assumes eligible_distinct: "ok r \<Longrightarrow> distinct (eligible r)"
    and weight_outside: "a \<notin> set (eligible r) \<Longrightarrow> weightOf r a = 0"
    and total_exact:
      "ok r \<Longrightarrow> \<exists>t. total r = Inr t \<and> unat t = (\<Sum>a\<leftarrow>eligible r. unat (weightOf r a))"
begin

abbreviation weightSum :: "'r \<Rightarrow> string set \<Rightarrow> nat" where
  "weightSum r A \<equiv> (\<Sum>a\<in>A. unat (weightOf r a))"

lemma total_weightSum:
  assumes "ok r" and "total r = Inr t"
  shows "unat t = weightSum r (set (eligible r))"
  using assms total_exact [OF assms(1)] eligible_distinct [OF assms(1)]
  by (auto simp: sum_list_distinct_conv_sum_set)

lemma weightSum_eligible:
  "finite A \<Longrightarrow> weightSum r A = weightSum r (A \<inter> set (eligible r))"
  by (rule sum.mono_neutral_right) (auto simp: weight_outside)

lemma weightSum_le_total:
  assumes "ok r" and "total r = Inr t" and "finite A"
  shows "weightSum r A \<le> unat t"
proof -
  have "weightSum r (A \<inter> set (eligible r)) \<le> weightSum r (set (eligible r))"
    by (rule sum_mono2) auto
  then show ?thesis
    using weightSum_eligible [OF assms(3)] total_weightSum [OF assms(1,2)] by simp
qed

text \<open>Two sets of voters: what both weigh beyond the total is the weight they share.\<close>

lemma quorum_overlap:
  assumes "ok r" and "total r = Inr t" and "finite A" and "finite B"
  shows "weightSum r A + weightSum r B \<le> unat t + weightSum r (A \<inter> B)"
proof -
  have "weightSum r A + weightSum r B = weightSum r (A \<union> B) + weightSum r (A \<inter> B)"
    using assms(3,4) by (rule sum.union_inter [symmetric])
  moreover have "weightSum r (A \<union> B) \<le> unat t"
    using assms by (intro weightSum_le_total) auto
  ultimately show ?thesis by simp
qed

lemma checkedSum_voters:
  assumes "ok r" and "total r = Inr t" and "distinct vs"
  shows "\<exists>s. checkedSum 0 (map (weightOf r) vs) = Some s \<and> unat s = weightSum r (set vs) \<and>
           unat s \<le> unat t"
proof -
  have sum: "(\<Sum>w\<leftarrow>map (weightOf r) vs. unat w) = weightSum r (set vs)"
    using assms(3) by (simp add: sum_list_distinct_conv_sum_set)
  have le: "weightSum r (set vs) \<le> unat t"
    using assms by (intro weightSum_le_total) auto
  have "checkedSum 0 (map (weightOf r) vs) \<noteq> None"
    unfolding checkedSum_None sum using le_less_trans [OF le unat_lt_2p64] by simp
  then obtain s where s: "checkedSum 0 (map (weightOf r) vs) = Some s" by blast
  then have "unat s = weightSum r (set vs)" unfolding checkedSum_Some sum by simp
  with s le show ?thesis by auto
qed

end

subsection \<open>The ticket walk\<close>

text \<open>
  The first address whose cumulative weight exceeds the ticket. On naturals it splits the range
  \<open>0..<total\<close> into one interval of length \<open>w a\<close> per address.
\<close>

fun ticketWalk :: "(string \<Rightarrow> nat) \<Rightarrow> nat \<Rightarrow> nat \<Rightarrow> string list \<Rightarrow> string option" where
  "ticketWalk w cursor ticket [] = None"
| "ticketWalk w cursor ticket (a # as) =
     (if ticket < cursor + w a then Some a else ticketWalk w (cursor + w a) ticket as)"

lemma ticketWalk_range:
  "ticketWalk w cursor ticket as = Some a \<Longrightarrow> cursor \<le> ticket \<Longrightarrow> a \<in> set as \<and> 0 < w a"
proof (induction as arbitrary: cursor)
  case Nil
  then show ?case by simp
next
  case (Cons x as)
  then show ?case by (force split: if_splits)
qed

lemma ticketWalk_total:
  "cursor \<le> ticket \<Longrightarrow> ticket < cursor + (\<Sum>a\<leftarrow>as. w a) \<Longrightarrow> \<exists>a. ticketWalk w cursor ticket as = Some a"
proof (induction as arbitrary: cursor)
  case Nil
  then show ?case by simp
next
  case (Cons x as)
  then show ?case by (simp add: add.assoc)
qed

lemma ticketWalk_count:
  assumes "distinct as"
  shows "card {t. cursor \<le> t \<and> ticketWalk w cursor t as = Some a} = (if a \<in> set as then w a else 0)"
  using assms
proof (induction as arbitrary: cursor)
  case Nil
  then show ?case by simp
next
  case (Cons x as)
  let ?c = "cursor + w x"
  let ?rest = "{t. ?c \<le> t \<and> ticketWalk w ?c t as = Some a}"
  let ?here = "{t. cursor \<le> t \<and> t < ?c \<and> x = a}"
  have split: "{t. cursor \<le> t \<and> ticketWalk w cursor t (x # as) = Some a} = ?here \<union> ?rest"
    by auto
  have rest: "card ?rest = (if a \<in> set as then w a else 0)"
    using Cons by simp
  show ?case
  proof (cases "x = a")
    case True
    then have here: "?here = {cursor..<?c}" by auto
    have none: "?rest = {}"
    proof -
      have "a \<notin> set as" using Cons.prems True by simp
      then show ?thesis using ticketWalk_range by fastforce
    qed
    show ?thesis unfolding split here none using True by simp
  next
    case False
    then show ?thesis using rest unfolding split by simp
  qed
qed

end
