(* ===== verification/Validators.thy ===== *)
theory Validators
  imports Weights
begin

section \<open>The validator registry and its history\<close>

text \<open>
  \<open>src/core/ValidatorRegistry.cpp\<close>: registration records bind an address to a public key; an
  entry carries the lifecycle status, the stake and the jail and exit data; the registry maps
  addresses to entries and computes the consensus weights; \<open>ValidatorSetHistory\<close> keeps the
  registries by block height, storing only the heights at which the set changed.

  An update returns its result together with the registry it leaves, because several updates
  change the map first and audit afterwards.
\<close>

subsection \<open>Records\<close>

datatype ValidatorRegistrationStatus =
  Reg_UNKNOWN | PENDING_ACTIVATION | ACTIVE | JAILED | EXIT_REQUESTED | EXITED | DEACTIVATED

fun validatorRegistrationStatusToString :: "ValidatorRegistrationStatus \<Rightarrow> string" where
  "validatorRegistrationStatusToString PENDING_ACTIVATION = ''PENDING_ACTIVATION''"
| "validatorRegistrationStatusToString ACTIVE = ''ACTIVE''"
| "validatorRegistrationStatusToString JAILED = ''JAILED''"
| "validatorRegistrationStatusToString EXIT_REQUESTED = ''EXIT_REQUESTED''"
| "validatorRegistrationStatusToString EXITED = ''EXITED''"
| "validatorRegistrationStatusToString DEACTIVATED = ''DEACTIVATED''"
| "validatorRegistrationStatusToString Reg_UNKNOWN = ''UNKNOWN''"

definition validatorRegistrationStatusFromString :: "string \<Rightarrow> ValidatorRegistrationStatus" where
  "validatorRegistrationStatusFromString v =
     (if v = ''PENDING_ACTIVATION'' then PENDING_ACTIVATION
      else if v = ''ACTIVE'' then ACTIVE
      else if v = ''JAILED'' then JAILED
      else if v = ''EXIT_REQUESTED'' then EXIT_REQUESTED
      else if v = ''EXITED'' then EXITED
      else if v = ''DEACTIVATED'' then DEACTIVATED
      else Reg_UNKNOWN)"

record ValidatorRegistrationRecord =
  regAddress :: string
  regPublicKey :: PublicKey
  activationEpoch :: u64
  metadataHash :: string
  registeredAt :: int

definition publicKeyFingerprint :: "sha256 \<Rightarrow> ValidatorRegistrationRecord \<Rightarrow> string" where
  "publicKeyFingerprint sha r = fingerprint sha (regPublicKey r)"

definition registrationValid :: "sha256 \<Rightarrow> ValidatorRegistrationRecord \<Rightarrow> bool" where
  "registrationValid sha r \<longleftrightarrow>
     isSafeScalar (regAddress r) \<and> isSafeScalar (metadataHash r) \<and>
     publicKeyValid (regPublicKey r) \<and> isSafeScalar (keyMaterial (regPublicKey r)) \<and>
     \<not> (activationEpoch r = 0 \<or> registeredAt r \<le> 0) \<and>
     addressValid sha (regAddress r) \<and>
     verifyAddressForPublicKey sha (regAddress r) (regPublicKey r)"

definition registrationSerialize :: "sha256 \<Rightarrow> ValidatorRegistrationRecord \<Rightarrow> string" where
  "registrationSerialize sha r =
     ''ValidatorRegistrationRecord{validatorAddress='' @ regAddress r
       @ '';publicKey='' @ publicKeySerialize (regPublicKey r)
       @ '';publicKeyFingerprint='' @ publicKeyFingerprint sha r
       @ '';activationEpoch='' @ showU64 (activationEpoch r)
       @ '';metadataHash='' @ metadataHash r
       @ '';registeredAt='' @ showI64 (registeredAt r) @ ''}''"

definition registrationId :: "sha256 \<Rightarrow> ValidatorRegistrationRecord \<Rightarrow> string" where
  "registrationId sha r =
     (if \<not> registrationValid sha r then [] else hashCString sha (registrationSerialize sha r))"

record ValidatorRegistryEntry =
  registrationRecord :: ValidatorRegistrationRecord
  entryStatus :: ValidatorRegistrationStatus
  lastUpdatedAt :: int
  stakeAmount :: u64
  jailUntilEpoch :: u64
  exitRequestHeight :: u64
  entryOwner :: string

definition MIN_VALIDATOR_STAKE_RAW_UNITS :: u64 where
  "MIN_VALIDATOR_STAKE_RAW_UNITS = 1000000"

definition weightFromStake :: "u64 \<Rightarrow> u64" where
  "weightFromStake lockedAmount = lockedAmount"

definition consensusWeight :: "ValidatorRegistryEntry \<Rightarrow> u64" where
  "consensusWeight e = weightFromStake (stakeAmount e)"

definition eligibleForConsensus :: "ValidatorRegistryEntry \<Rightarrow> bool" where
  "eligibleForConsensus e \<longleftrightarrow>
     entryStatus e = ACTIVE \<and> stakeAmount e \<ge> MIN_VALIDATOR_STAKE_RAW_UNITS \<and>
     consensusWeight e > 0"

definition entryActive :: "ValidatorRegistryEntry \<Rightarrow> bool" where
  "entryActive e \<longleftrightarrow> entryStatus e = ACTIVE"

definition entryJailed :: "ValidatorRegistryEntry \<Rightarrow> bool" where
  "entryJailed e \<longleftrightarrow> entryStatus e = JAILED"

definition entryExited :: "ValidatorRegistryEntry \<Rightarrow> bool" where
  "entryExited e \<longleftrightarrow> entryStatus e = EXITED \<or> entryStatus e = DEACTIVATED"

definition entryValid :: "sha256 \<Rightarrow> ValidatorRegistryEntry \<Rightarrow> bool" where
  "entryValid sha e \<longleftrightarrow>
     registrationValid sha (registrationRecord e) \<and> entryStatus e \<noteq> Reg_UNKNOWN \<and>
     lastUpdatedAt e > 0 \<and> lastUpdatedAt e \<ge> registeredAt (registrationRecord e) \<and>
     uint (stakeAmount e) \<le> I64_MAX"

definition entrySerialize :: "sha256 \<Rightarrow> ValidatorRegistryEntry \<Rightarrow> string" where
  "entrySerialize sha e =
     ''ValidatorRegistryEntry{status='' @ validatorRegistrationStatusToString (entryStatus e)
       @ '';lastUpdatedAt='' @ showI64 (lastUpdatedAt e)
       @ '';stakeAmount='' @ showU64 (stakeAmount e)
       @ '';consensusWeight='' @ showU64 (consensusWeight e)
       @ '';jailUntilEpoch='' @ showU64 (jailUntilEpoch e)
       @ '';exitRequestHeight='' @ showU64 (exitRequestHeight e)
       @ '';ownerAddress='' @ entryOwner e
       @ '';registration='' @ registrationSerialize sha (registrationRecord e) @ ''}''"

subsection \<open>Update results\<close>

datatype ValidatorRegistryUpdateStatus =
    Upd_ACCEPTED | Upd_DUPLICATE | Upd_DEACTIVATED | Upd_JAILED | Upd_UNJAILED
  | Upd_EXIT_REQUESTED | Upd_ACTIVATED | Upd_KEY_ROTATED | Upd_CONFLICTING_PUBLIC_KEY
  | Upd_INVALID_RECORD | Upd_INVALID_REGISTRY | Upd_ALREADY_ACTIVE | Upd_ALREADY_JAILED
  | Upd_INVALID_STATUS_TRANSITION | Upd_INSUFFICIENT_STAKE

text \<open>A rejected result carries no entry (the default-constructed one of the source).\<close>

record ValidatorRegistryUpdateResult =
  updStatus :: ValidatorRegistryUpdateStatus
  updReason :: string
  updEntry :: "ValidatorRegistryEntry option"

definition updWith :: "ValidatorRegistryUpdateStatus \<Rightarrow> ValidatorRegistryEntry \<Rightarrow> ValidatorRegistryUpdateResult" where
  "updWith st e = \<lparr>updStatus = st, updReason = [], updEntry = Some e\<rparr>"

definition updDuplicate :: "ValidatorRegistryEntry \<Rightarrow> ValidatorRegistryUpdateResult" where
  "updDuplicate e =
     \<lparr>updStatus = Upd_DUPLICATE, updReason = ''Validator registration already exists.'',
      updEntry = Some e\<rparr>"

definition updRejected :: "ValidatorRegistryUpdateStatus \<Rightarrow> string \<Rightarrow> ValidatorRegistryUpdateResult" where
  "updRejected st reason = \<lparr>updStatus = st, updReason = reason, updEntry = None\<rparr>"

definition updSuccess :: "ValidatorRegistryUpdateResult \<Rightarrow> bool" where
  "updSuccess r \<longleftrightarrow>
     updStatus r = Upd_ACCEPTED \<or> updStatus r = Upd_DUPLICATE \<or> updStatus r = Upd_DEACTIVATED \<or>
     updStatus r = Upd_JAILED \<or> updStatus r = Upd_UNJAILED \<or> updStatus r = Upd_EXIT_REQUESTED \<or>
     updStatus r = Upd_ACTIVATED \<or> updStatus r = Upd_KEY_ROTATED"

subsection \<open>The registry: queries\<close>

type_synonym ValidatorRegistry = "(string, ValidatorRegistryEntry) smap"

type_synonym update = "ValidatorRegistryUpdateResult \<times> ValidatorRegistry"

definition hasValidator :: "ValidatorRegistry \<Rightarrow> string \<Rightarrow> bool" where
  "hasValidator reg a \<longleftrightarrow> map_of reg a \<noteq> None"

definition isActiveValidator :: "ValidatorRegistry \<Rightarrow> string \<Rightarrow> bool" where
  "isActiveValidator reg a = (case map_of reg a of None \<Rightarrow> False | Some e \<Rightarrow> entryActive e)"

definition verifyValidatorIdentity ::
    "sha256 \<Rightarrow> ValidatorRegistry \<Rightarrow> string \<Rightarrow> PublicKey \<Rightarrow> bool" where
  "verifyValidatorIdentity sha reg a pk =
     (case map_of reg a of
        None \<Rightarrow> False
      | Some e \<Rightarrow>
          if \<not> entryActive e then False
          else if \<not> publicKeyValid pk then False
          else if publicKeyFingerprint sha (registrationRecord e) \<noteq> fingerprint sha pk then False
          else verifyAddressForPublicKey sha a pk)"

definition addressesWhere :: "(ValidatorRegistryEntry \<Rightarrow> bool) \<Rightarrow> ValidatorRegistry \<Rightarrow> string list" where
  "addressesWhere P reg = map fst (filter (\<lambda>(a, e). P e) reg)"

definition validatorAddresses :: "ValidatorRegistry \<Rightarrow> string list" where
  "validatorAddresses reg = map fst reg"

definition activeValidatorAddresses :: "ValidatorRegistry \<Rightarrow> string list" where
  "activeValidatorAddresses reg = addressesWhere entryActive reg"

definition eligibleValidatorAddresses :: "ValidatorRegistry \<Rightarrow> string list" where
  "eligibleValidatorAddresses reg = addressesWhere eligibleForConsensus reg"

definition jailedValidatorAddresses :: "ValidatorRegistry \<Rightarrow> string list" where
  "jailedValidatorAddresses reg = addressesWhere entryJailed reg"

definition pendingValidatorAddresses :: "ValidatorRegistry \<Rightarrow> string list" where
  "pendingValidatorAddresses reg = addressesWhere (\<lambda>e. entryStatus e = PENDING_ACTIVATION) reg"

definition exitRequestedValidatorAddresses :: "ValidatorRegistry \<Rightarrow> string list" where
  "exitRequestedValidatorAddresses reg = addressesWhere (\<lambda>e. entryStatus e = EXIT_REQUESTED) reg"

definition isEligibleForConsensus :: "ValidatorRegistry \<Rightarrow> string \<Rightarrow> bool" where
  "isEligibleForConsensus reg a =
     (case map_of reg a of None \<Rightarrow> False | Some e \<Rightarrow> eligibleForConsensus e)"

definition consensusWeightFor :: "ValidatorRegistry \<Rightarrow> string \<Rightarrow> u64" where
  "consensusWeightFor reg a =
     (case map_of reg a of
        None \<Rightarrow> 0
      | Some e \<Rightarrow> if \<not> eligibleForConsensus e then 0 else consensusWeight e)"

fun totalWeightFrom :: "u64 \<Rightarrow> ValidatorRegistry \<Rightarrow> u64 result" where
  "totalWeightFrom acc [] = Inr acc"
| "totalWeightFrom acc ((a, e) # es) =
     (if \<not> eligibleForConsensus e then totalWeightFrom acc es
      else if addOverflows acc (consensusWeight e)
      then Inl (OverflowError ''Validator consensus weight overflow.'')
      else totalWeightFrom (acc + consensusWeight e) es)"

definition totalConsensusWeight :: "ValidatorRegistry \<Rightarrow> u64 result" where
  "totalConsensusWeight reg = totalWeightFrom 0 reg"

definition activeCount :: "ValidatorRegistry \<Rightarrow> nat" where
  "activeCount reg = length (filter (\<lambda>(a, e). entryActive e) reg)"

fun validFrom :: "sha256 \<Rightarrow> u64 \<Rightarrow> ValidatorRegistry \<Rightarrow> bool" where
  "validFrom sha acc [] = True"
| "validFrom sha acc ((a, e) # es) =
     (if \<not> isSafeScalar a then False
      else if \<not> entryValid sha e then False
      else if regAddress (registrationRecord e) \<noteq> a then False
      else if eligibleForConsensus e
      then (if acc > U64_MAX - consensusWeight e then False
            else validFrom sha (acc + consensusWeight e) es)
      else validFrom sha acc es)"

definition validatorsValid :: "sha256 \<Rightarrow> ValidatorRegistry \<Rightarrow> bool" where
  "validatorsValid sha reg = validFrom sha 0 reg"

definition validatorsSerialize :: "sha256 \<Rightarrow> ValidatorRegistry \<Rightarrow> string result" where
  "validatorsSerialize sha reg =
     bindR (totalConsensusWeight reg) (\<lambda>t.
       Inr (''ValidatorRegistry{size='' @ showNat (length reg)
         @ '';activeCount='' @ showNat (activeCount reg)
         @ '';totalConsensusWeight='' @ showU64 t
         @ '';entries=['' @ joinWith '','' (map (\<lambda>(a, e). entrySerialize sha e) reg) @ '']}''))"

definition validatorSetRoot :: "sha256 \<Rightarrow> ValidatorRegistry \<Rightarrow> string result" where
  "validatorSetRoot sha reg = bindR (validatorsSerialize sha reg) (\<lambda>s. Inr (hashCString sha s))"

subsection \<open>The registry: updates\<close>

definition restoreEntry :: "sha256 \<Rightarrow> ValidatorRegistryEntry \<Rightarrow> ValidatorRegistry \<Rightarrow> bool \<times> ValidatorRegistry" where
  "restoreEntry sha e reg =
     (if \<not> entryValid sha e then (False, reg)
      else let a = regAddress (registrationRecord e) in
           if \<not> isSafeScalar a \<or> map_of reg a \<noteq> None then (False, reg)
           else let reg' = mapPut a e reg in
                if \<not> validatorsValid sha reg' then (False, mapErase a reg') else (True, reg'))"

definition registerValidator ::
    "sha256 \<Rightarrow> ValidatorRegistrationRecord \<Rightarrow> u64 \<Rightarrow> string \<Rightarrow> ValidatorRegistry \<Rightarrow> update" where
  "registerValidator sha rec stake owner reg =
     (if \<not> registrationValid sha rec
      then (updRejected Upd_INVALID_RECORD ''Invalid validator registration record.'', reg)
      else if stake < MIN_VALIDATOR_STAKE_RAW_UNITS \<or> weightFromStake stake = 0
      then (updRejected Upd_INSUFFICIENT_STAKE
              ''Validator registration is below the minimum stake.'', reg)
      else if \<not> isSafeScalar owner
      then (updRejected Upd_INVALID_RECORD ''Validator owner address is invalid.'', reg)
      else case map_of reg (regAddress rec) of
        Some old \<Rightarrow>
          (if \<not> entryValid sha old
           then (updRejected Upd_INVALID_REGISTRY ''Existing validator registry entry is invalid.'', reg)
           else if publicKeyFingerprint sha (registrationRecord old) = publicKeyFingerprint sha rec
           then (updDuplicate old, reg)
           else (updRejected Upd_CONFLICTING_PUBLIC_KEY
                   ''Validator address is already bound to a different public key.'', reg))
      | None \<Rightarrow>
          (let e = \<lparr>registrationRecord = rec, entryStatus = ACTIVE, lastUpdatedAt = registeredAt rec,
                    stakeAmount = stake, jailUntilEpoch = 0, exitRequestHeight = 0,
                    entryOwner = owner\<rparr>
           in if \<not> entryValid sha e
              then (updRejected Upd_INVALID_RECORD ''Validator registry entry would be invalid.'', reg)
              else let reg' = mapPut (regAddress rec) e reg in
                   if \<not> validatorsValid sha reg'
                   then (updRejected Upd_INVALID_REGISTRY
                           ''Validator registry failed post-registration audit.'',
                         mapErase (regAddress rec) reg')
                   else (updWith Upd_ACCEPTED e, reg')))"

definition registerValidatorDefault ::
    "sha256 \<Rightarrow> ValidatorRegistrationRecord \<Rightarrow> ValidatorRegistry \<Rightarrow> update" where
  "registerValidatorDefault sha rec reg =
     registerValidator sha rec MIN_VALIDATOR_STAKE_RAW_UNITS (regAddress rec) reg"

definition registerPendingValidator ::
    "sha256 \<Rightarrow> ValidatorRegistrationRecord \<Rightarrow> u64 \<Rightarrow> string \<Rightarrow> ValidatorRegistry \<Rightarrow> update" where
  "registerPendingValidator sha rec stake owner reg =
     (if \<not> registrationValid sha rec \<or> stake < MIN_VALIDATOR_STAKE_RAW_UNITS \<or> \<not> isSafeScalar owner
      then (updRejected Upd_INVALID_RECORD
              ''Pending validator registration is invalid or below minimum stake.'', reg)
      else if map_of reg (regAddress rec) \<noteq> None
      then (updRejected Upd_DUPLICATE ''Validator is already registered.'', reg)
      else let e = \<lparr>registrationRecord = rec, entryStatus = PENDING_ACTIVATION,
                    lastUpdatedAt = registeredAt rec, stakeAmount = stake, jailUntilEpoch = 0,
                    exitRequestHeight = 0, entryOwner = owner\<rparr>
           in if \<not> entryValid sha e
              then (updRejected Upd_INVALID_RECORD ''Pending validator entry is invalid.'', reg)
              else let reg' = mapPut (regAddress rec) e reg in
                   if \<not> validatorsValid sha reg'
                   then (updRejected Upd_INVALID_REGISTRY
                           ''Validator registry failed pending-registration audit.'',
                         mapErase (regAddress rec) reg')
                   else (updWith Upd_ACCEPTED e, reg'))"

text \<open>The audit here comes after the assignment and does not undo it.\<close>

definition deactivateValidator ::
    "sha256 \<Rightarrow> string \<Rightarrow> int \<Rightarrow> ValidatorRegistry \<Rightarrow> update" where
  "deactivateValidator sha a timestamp reg =
     (if \<not> isSafeScalar a
      then (updRejected Upd_INVALID_RECORD ''Validator address is invalid.'', reg)
      else if timestamp \<le> 0
      then (updRejected Upd_INVALID_RECORD ''Deactivation timestamp must be positive.'', reg)
      else case map_of reg a of
        None \<Rightarrow> (updRejected Upd_INVALID_RECORD ''Validator is not registered.'', reg)
      | Some e \<Rightarrow>
          (let e' = e\<lparr>entryStatus := DEACTIVATED, lastUpdatedAt := timestamp\<rparr>
           in if \<not> entryValid sha e'
              then (updRejected Upd_INVALID_RECORD ''Deactivated validator entry would be invalid.'', reg)
              else let reg' = mapPut a e' reg in
                   if \<not> validatorsValid sha reg'
                   then (updRejected Upd_INVALID_REGISTRY
                           ''Validator registry failed post-deactivation audit.'', reg')
                   else (updWith Upd_DEACTIVATED e', reg')))"

definition activateValidator ::
    "sha256 \<Rightarrow> string \<Rightarrow> u64 \<Rightarrow> int \<Rightarrow> ValidatorRegistry \<Rightarrow> update" where
  "activateValidator sha a currentEpoch timestamp reg =
     (case map_of reg a of
        None \<Rightarrow> (updRejected Upd_INVALID_RECORD ''Validator is not registered.'', reg)
      | Some e \<Rightarrow>
          if entryStatus e = ACTIVE
          then (updRejected Upd_ALREADY_ACTIVE ''Validator is already active.'', reg)
          else if entryStatus e \<noteq> PENDING_ACTIVATION
          then (updRejected Upd_INVALID_STATUS_TRANSITION
                  ''Only PENDING_ACTIVATION validators can be activated.'', reg)
          else if activationEpoch (registrationRecord e) > currentEpoch
          then (updRejected Upd_INVALID_STATUS_TRANSITION ''Activation epoch has not been reached.'', reg)
          else if stakeAmount e < MIN_VALIDATOR_STAKE_RAW_UNITS \<or> consensusWeight e = 0
          then (updRejected Upd_INSUFFICIENT_STAKE
                  ''Validator stake is below the minimum required for activation.'', reg)
          else let e' = e\<lparr>entryStatus := ACTIVE, lastUpdatedAt := timestamp\<rparr>;
                   reg' = mapPut a e' reg
               in if \<not> validatorsValid sha reg'
                  then (updRejected Upd_INVALID_REGISTRY
                          ''Activation would overflow the total consensus voting weight.'',
                        mapPut a e reg')
                  else (updWith Upd_ACTIVATED e', reg'))"

definition jailValidator :: "string \<Rightarrow> u64 \<Rightarrow> int \<Rightarrow> ValidatorRegistry \<Rightarrow> update" where
  "jailValidator a until timestamp reg =
     (case map_of reg a of
        None \<Rightarrow> (updRejected Upd_INVALID_RECORD ''Validator is not registered.'', reg)
      | Some e \<Rightarrow>
          if entryStatus e = JAILED
          then (updRejected Upd_ALREADY_JAILED ''Validator is already jailed.'', reg)
          else if entryStatus e \<noteq> ACTIVE
          then (updRejected Upd_INVALID_STATUS_TRANSITION ''Only ACTIVE validators can be jailed.'', reg)
          else let e' = e\<lparr>entryStatus := JAILED, lastUpdatedAt := timestamp, jailUntilEpoch := until\<rparr>
               in (updWith Upd_JAILED e', mapPut a e' reg))"

definition unjailValidator ::
    "sha256 \<Rightarrow> string \<Rightarrow> u64 \<Rightarrow> int \<Rightarrow> ValidatorRegistry \<Rightarrow> update" where
  "unjailValidator sha a currentEpoch timestamp reg =
     (case map_of reg a of
        None \<Rightarrow> (updRejected Upd_INVALID_RECORD ''Validator is not registered.'', reg)
      | Some e \<Rightarrow>
          if entryStatus e \<noteq> JAILED
          then (updRejected Upd_INVALID_STATUS_TRANSITION ''Only JAILED validators can be unjailed.'', reg)
          else if jailUntilEpoch e > currentEpoch
          then (updRejected Upd_INVALID_STATUS_TRANSITION
                  (''Jail period has not elapsed (until epoch '' @ showU64 (jailUntilEpoch e) @ '').''), reg)
          else if stakeAmount e < MIN_VALIDATOR_STAKE_RAW_UNITS \<or> consensusWeight e = 0
          then (updRejected Upd_INSUFFICIENT_STAKE
                  ''Validator stake is below the minimum required for unjail.'', reg)
          else let e' = e\<lparr>entryStatus := ACTIVE, lastUpdatedAt := timestamp, jailUntilEpoch := 0\<rparr>;
                   reg' = mapPut a e' reg
               in if \<not> validatorsValid sha reg'
                  then (updRejected Upd_INVALID_REGISTRY
                          ''Unjailing would overflow the total consensus voting weight.'',
                        mapPut a e reg')
                  else (updWith Upd_UNJAILED e', reg'))"

definition requestExit :: "string \<Rightarrow> u64 \<Rightarrow> int \<Rightarrow> ValidatorRegistry \<Rightarrow> update" where
  "requestExit a requestHeight timestamp reg =
     (case map_of reg a of
        None \<Rightarrow> (updRejected Upd_INVALID_RECORD ''Validator is not registered.'', reg)
      | Some e \<Rightarrow>
          if \<not> (entryStatus e = ACTIVE \<or> entryStatus e = JAILED)
          then (updRejected Upd_INVALID_STATUS_TRANSITION
                  ''Only ACTIVE or JAILED validators can request exit.'', reg)
          else let e' = e\<lparr>entryStatus := EXIT_REQUESTED, lastUpdatedAt := timestamp,
                        exitRequestHeight := requestHeight\<rparr>
               in (updWith Upd_EXIT_REQUESTED e', mapPut a e' reg))"

definition completeExit :: "string \<Rightarrow> int \<Rightarrow> ValidatorRegistry \<Rightarrow> update" where
  "completeExit a timestamp reg =
     (case map_of reg a of
        None \<Rightarrow> (updRejected Upd_INVALID_RECORD ''Validator is not registered.'', reg)
      | Some e \<Rightarrow>
          if entryStatus e \<noteq> EXIT_REQUESTED
          then (updRejected Upd_INVALID_STATUS_TRANSITION
                  ''Only EXIT_REQUESTED validators can complete exit.'', reg)
          else let e' = e\<lparr>entryStatus := EXITED, lastUpdatedAt := timestamp\<rparr>
               in (updWith Upd_DEACTIVATED e', mapPut a e' reg))"

definition updateStake :: "sha256 \<Rightarrow> string \<Rightarrow> u64 \<Rightarrow> int \<Rightarrow> ValidatorRegistry \<Rightarrow> update" where
  "updateStake sha a newStake timestamp reg =
     (case map_of reg a of
        None \<Rightarrow> (updRejected Upd_INVALID_RECORD ''Validator is not registered.'', reg)
      | Some e \<Rightarrow>
          (let e' = e\<lparr>lastUpdatedAt := timestamp, stakeAmount := newStake\<rparr>
           in if \<not> entryValid sha e'
              then (updRejected Upd_INVALID_RECORD
                      ''Stake update would produce an invalid validator registry entry.'', reg)
              else let reg' = mapPut a e' reg in
                   if \<not> validatorsValid sha reg'
                   then (updRejected Upd_INVALID_REGISTRY
                           ''Stake update would overflow the total consensus voting weight.'',
                         mapPut a e reg')
                   else (updWith Upd_ACCEPTED e', reg')))"

definition rotateValidatorKey ::
    "sha256 \<Rightarrow> string \<Rightarrow> ValidatorRegistrationRecord \<Rightarrow> int \<Rightarrow> ValidatorRegistry \<Rightarrow> update" where
  "rotateValidatorKey sha old rec timestamp reg =
     (if \<not> isSafeScalar old \<or> timestamp \<le> 0 \<or> \<not> registrationValid sha rec
      then (updRejected Upd_INVALID_RECORD ''Validator key rotation request is invalid.'', reg)
      else if old = regAddress rec
      then (updRejected Upd_CONFLICTING_PUBLIC_KEY
              ''Validator key rotation must bind to a new validator address.'', reg)
      else case map_of reg old of
        None \<Rightarrow> (updRejected Upd_INVALID_RECORD
                   ''Existing validator is not registered or is invalid.'', reg)
      | Some previous \<Rightarrow>
          if \<not> entryValid sha previous
          then (updRejected Upd_INVALID_RECORD
                  ''Existing validator is not registered or is invalid.'', reg)
          else if map_of reg (regAddress rec) \<noteq> None
          then (updRejected Upd_DUPLICATE ''New validator address is already registered.'', reg)
          else if entryStatus previous = EXITED \<or> entryStatus previous = DEACTIVATED \<or>
                  entryStatus previous = EXIT_REQUESTED
          then (updRejected Upd_INVALID_STATUS_TRANSITION
                  ''Exited, deactivated, or exiting validators cannot rotate keys.'', reg)
          else if entryOwner previous = [] \<or> \<not> isSafeScalar (entryOwner previous)
          then (updRejected Upd_INVALID_RECORD
                  ''Validator has no valid owner address for key rotation.'', reg)
          else let rotated = previous\<lparr>registrationRecord := rec, lastUpdatedAt := timestamp\<rparr>
               in if \<not> entryValid sha rotated
                  then (updRejected Upd_INVALID_RECORD
                          ''Rotated validator registry entry would be invalid.'', reg)
                  else let reg' = mapPut (regAddress rec) rotated (mapErase old reg) in
                       if \<not> validatorsValid sha reg'
                       then (updRejected Upd_INVALID_REGISTRY
                               ''Validator registry failed post-rotation audit.'',
                             mapPut old previous (mapErase (regAddress rec) reg'))
                       else (updWith Upd_KEY_ROTATED rotated, reg'))"

subsection \<open>Weights\<close>

definition entryWeight :: "ValidatorRegistryEntry \<Rightarrow> nat" where
  "entryWeight e = (if eligibleForConsensus e then unat (consensusWeight e) else 0)"

definition weightTotal :: "ValidatorRegistry \<Rightarrow> nat" where
  "weightTotal reg = (\<Sum>e\<leftarrow>reg. entryWeight (snd e))"

definition entryAt :: "sha256 \<Rightarrow> string \<Rightarrow> ValidatorRegistryEntry \<Rightarrow> bool" where
  "entryAt sha a e \<longleftrightarrow> isSafeScalar a \<and> entryValid sha e \<and> regAddress (registrationRecord e) = a"

lemma validFrom_iff:
  "validFrom sha acc reg \<longleftrightarrow>
     list_all (\<lambda>(a, e). entryAt sha a e) reg \<and> unat acc + weightTotal reg < 2 ^ 64"
proof (induction reg arbitrary: acc)
  case Nil
  then show ?case by (simp add: weightTotal_def)
next
  case (Cons x reg)
  obtain a e where x: "x = (a, e)" by (cases x)
  show ?case
  proof (cases "eligibleForConsensus e")
    case False
    then show ?thesis using Cons [of acc]
      by (auto simp: x entryAt_def weightTotal_def entryWeight_def)
  next
    case True
    show ?thesis
    proof (cases "addOverflows acc (consensusWeight e)")
      case True
      then have "2 ^ 64 \<le> unat acc + unat (consensusWeight e)" by (simp add: addOverflows_iff)
      then show ?thesis using True \<open>eligibleForConsensus e\<close>
        by (auto simp: x addOverflows_other weightTotal_def entryWeight_def)
    next
      case False
      then show ?thesis using Cons [of "acc + consensusWeight e"] \<open>eligibleForConsensus e\<close>
        by (auto simp: x addOverflows_other unat_add_no_overflow entryAt_def weightTotal_def
            entryWeight_def add.assoc)
    qed
  qed
qed

lemma totalWeightFrom_Inr:
  "totalWeightFrom acc reg = Inr t \<longleftrightarrow> unat t = unat acc + weightTotal reg"
proof (induction reg arbitrary: acc)
  case Nil
  then show ?case by (auto simp: weightTotal_def word_unat_eq_iff)
next
  case (Cons x reg)
  obtain a e where x: "x = (a, e)" by (cases x)
  show ?case
  proof (cases "eligibleForConsensus e \<and> addOverflows acc (consensusWeight e)")
    case True
    then have "2 ^ 64 \<le> unat acc + entryWeight e" by (simp add: addOverflows_iff entryWeight_def)
    then have "unat t \<noteq> unat acc + weightTotal (x # reg)"
      using unat_lt_2p64 [of t] unfolding weightTotal_def x by (simp del: unat_lt_2p64)
    then show ?thesis using True by (simp add: x)
  next
    case False
    then show ?thesis
      by (auto simp: x Cons.IH weightTotal_def entryWeight_def unat_add_no_overflow add.assoc)
  qed
qed

definition regOk :: "sha256 \<Rightarrow> ValidatorRegistry \<Rightarrow> bool" where
  "regOk sha reg \<longleftrightarrow> mapOk reg \<and> validatorsValid sha reg"

lemma validatorsValid_iff:
  "validatorsValid sha reg \<longleftrightarrow> list_all (\<lambda>(a, e). entryAt sha a e) reg \<and> weightTotal reg < 2 ^ 64"
  by (simp add: validatorsValid_def validFrom_iff)

lemma regOk_iff:
  "regOk sha reg \<longleftrightarrow>
     mapOk reg \<and> (\<forall>a e. map_of reg a = Some e \<longrightarrow> entryAt sha a e) \<and> weightTotal reg < 2 ^ 64"
  by (fastforce simp: regOk_def validatorsValid_iff list_all_iff map_of_eq_Some_iff_mem)

lemma regOk_empty [simp]: "regOk sha []"
  by (simp add: regOk_def validatorsValid_def)

lemma total_of_valid:
  assumes "regOk sha reg"
  shows "\<exists>t. totalConsensusWeight reg = Inr t \<and> unat t = weightTotal reg"
proof -
  have "weightTotal reg < 2 ^ 64" using assms by (simp add: regOk_iff)
  then have "unat (of_nat (weightTotal reg) :: u64) = weightTotal reg"
    by (simp add: unat_of_nat)
  then show ?thesis by (auto simp: totalConsensusWeight_def totalWeightFrom_Inr)
qed

lemma weightFor_entry:
  "map_of reg a = Some e \<Longrightarrow> unat (consensusWeightFor reg a) = entryWeight e"
  by (simp add: consensusWeightFor_def entryWeight_def)

lemma eligible_mem:
  "map_of reg a = Some e \<Longrightarrow> eligibleForConsensus e \<Longrightarrow> a \<in> set (eligibleValidatorAddresses reg)"
  by (force simp: eligibleValidatorAddresses_def addressesWhere_def dest: map_of_SomeD)

lemma mapOk_addressesWhere: "mapOk reg \<Longrightarrow> distinct (addressesWhere P reg)"
  by (simp add: addressesWhere_def mapOk_distinct [OF mapOk_filter])

lemma weight_by_addresses:
  assumes "mapOk reg"
  shows "weightTotal reg = (\<Sum>a\<leftarrow>eligibleValidatorAddresses reg. unat (consensusWeightFor reg a))"
proof -
  have pick: "entryWeight e = unat (consensusWeightFor reg a)" if "(a, e) \<in> set reg" for a e
    using that assms by (simp add: weightFor_entry map_of_eq_Some_iff_mem)
  have "weightTotal reg = (\<Sum>x\<leftarrow>filter (\<lambda>(a, e). eligibleForConsensus e) reg. entryWeight (snd x))"
    unfolding weightTotal_def
    by (rule sym, subst sum_list_map_filter) (auto simp: entryWeight_def)
  also have "\<dots> = (\<Sum>x\<leftarrow>filter (\<lambda>(a, e). eligibleForConsensus e) reg. unat (consensusWeightFor reg (fst x)))"
    by (intro arg_cong [where f = sum_list] map_cong) (auto simp: pick)
  finally show ?thesis
    by (simp add: eligibleValidatorAddresses_def addressesWhere_def comp_def)
qed

interpretation vs: weighted_set consensusWeightFor eligibleValidatorAddresses totalConsensusWeight
  "regOk sha" for sha
proof unfold_locales
  fix r assume ok: "regOk sha r"
  show "distinct (eligibleValidatorAddresses r)"
    using ok by (simp add: regOk_def eligibleValidatorAddresses_def mapOk_addressesWhere)
  show "\<exists>t. totalConsensusWeight r = Inr t \<and>
      unat t = (\<Sum>a\<leftarrow>eligibleValidatorAddresses r. unat (consensusWeightFor r a))"
    using total_of_valid [OF ok] weight_by_addresses ok by (auto simp: regOk_def)
next
  fix a r assume "a \<notin> set (eligibleValidatorAddresses r)"
  then show "consensusWeightFor r a = 0"
    using eligible_mem by (auto simp: consensusWeightFor_def split: option.splits)
qed

subsection \<open>Calls on the registry\<close>

datatype regCall =
    Restore ValidatorRegistryEntry
  | Register ValidatorRegistrationRecord u64 string
  | RegisterPending ValidatorRegistrationRecord u64 string
  | Deactivate string int
  | Activate string u64 int
  | Jail string u64 int
  | Unjail string u64 int
  | RequestExit string u64 int
  | CompleteExit string int
  | UpdateStake string u64 int
  | RotateKey string ValidatorRegistrationRecord int

fun regExec :: "sha256 \<Rightarrow> regCall \<Rightarrow> ValidatorRegistry \<Rightarrow> bool \<times> ValidatorRegistry" where
  "regExec sha (Restore e) reg = restoreEntry sha e reg"
| "regExec sha (Register rec st ow) reg = apfst updSuccess (registerValidator sha rec st ow reg)"
| "regExec sha (RegisterPending rec st ow) reg =
     apfst updSuccess (registerPendingValidator sha rec st ow reg)"
| "regExec sha (Deactivate a ts) reg = apfst updSuccess (deactivateValidator sha a ts reg)"
| "regExec sha (Activate a ep ts) reg = apfst updSuccess (activateValidator sha a ep ts reg)"
| "regExec sha (Jail a until ts) reg = apfst updSuccess (jailValidator a until ts reg)"
| "regExec sha (Unjail a ep ts) reg = apfst updSuccess (unjailValidator sha a ep ts reg)"
| "regExec sha (RequestExit a h ts) reg = apfst updSuccess (requestExit a h ts reg)"
| "regExec sha (CompleteExit a ts) reg = apfst updSuccess (completeExit a ts reg)"
| "regExec sha (UpdateStake a st ts) reg = apfst updSuccess (updateStake sha a st ts reg)"
| "regExec sha (RotateKey a rec ts) reg = apfst updSuccess (rotateValidatorKey sha a rec ts reg)"

definition regStep :: "sha256 \<Rightarrow> regCall \<Rightarrow> ValidatorRegistry \<Rightarrow> ValidatorRegistry" where
  "regStep sha c reg = snd (regExec sha c reg)"

text \<open>
  The three updates that store an entry without auditing it need a timestamp that is positive
  and not before the validator's registration.
\<close>

fun timely :: "regCall \<Rightarrow> ValidatorRegistry \<Rightarrow> bool" where
  "timely (Jail a until ts) reg =
     (case map_of reg a of None \<Rightarrow> True | Some e \<Rightarrow> 0 < ts \<and> registeredAt (registrationRecord e) \<le> ts)"
| "timely (RequestExit a h ts) reg =
     (case map_of reg a of None \<Rightarrow> True | Some e \<Rightarrow> 0 < ts \<and> registeredAt (registrationRecord e) \<le> ts)"
| "timely (CompleteExit a ts) reg =
     (case map_of reg a of None \<Rightarrow> True | Some e \<Rightarrow> 0 < ts \<and> registeredAt (registrationRecord e) \<le> ts)"
| "timely _ reg = True"

lemmas reg_update_defs =
  restoreEntry_def registerValidator_def registerPendingValidator_def deactivateValidator_def
  activateValidator_def jailValidator_def unjailValidator_def requestExit_def completeExit_def
  updateStake_def rotateValidatorKey_def

lemmas upd_result_defs = updWith_def updDuplicate_def updRejected_def updSuccess_def

lemma weightTotal_put:
  "mapOk reg \<Longrightarrow> map_of reg a = Some e \<Longrightarrow>
     weightTotal (mapPut a e' reg) + entryWeight e = weightTotal reg + entryWeight e'"
  using om.sum_put [of reg entryWeight a e'] by (simp add: weightTotal_def)

lemma regOk_put_lighter:
  assumes "regOk sha reg" and "map_of reg a = Some e"
    and "entryAt sha a e'" and "entryWeight e' \<le> entryWeight e"
  shows "regOk sha (mapPut a e' reg)"
proof -
  have "weightTotal (mapPut a e' reg) + entryWeight e = weightTotal reg + entryWeight e'"
    using assms(1,2) by (intro weightTotal_put) (simp_all add: regOk_def)
  then have "weightTotal (mapPut a e' reg) < 2 ^ 64"
    using assms(1,4) unfolding regOk_iff by linarith
  then show ?thesis using assms(1,3) by (auto simp: regOk_iff)
qed

lemma regOk_audited: "mapOk reg \<Longrightarrow> validatorsValid sha reg \<Longrightarrow> regOk sha reg"
  by (simp add: regOk_def)

lemma regOk_mapOk: "regOk sha reg \<Longrightarrow> mapOk reg"
  by (simp add: regOk_def)

lemma entryWeight_inactive: "entryStatus e \<noteq> ACTIVE \<Longrightarrow> entryWeight e = 0"
  by (simp add: entryWeight_def eligibleForConsensus_def)

lemma regOk_put_inactive:
  assumes "regOk sha reg" and "map_of reg a = Some e"
    and "registrationRecord e' = registrationRecord e" and "stakeAmount e' = stakeAmount e"
    and "0 < lastUpdatedAt e'" and "registeredAt (registrationRecord e) \<le> lastUpdatedAt e'"
    and "entryStatus e' \<noteq> ACTIVE" and "entryStatus e' \<noteq> Reg_UNKNOWN"
  shows "regOk sha (mapPut a e' reg)"
  using assms by (intro regOk_put_lighter [OF assms(1,2)])
    (auto simp: regOk_iff entryAt_def entryValid_def entryWeight_inactive)

lemma restore_unchanged:
  assumes "mapOk reg" and "map_of reg a = Some v" and "map_of reg b = None" and "a \<noteq> b"
  shows "mapPut a v (mapErase b (mapPut b w (mapErase a reg))) = reg"
  using assms by (intro mapOk_entries_inj) (auto simp: fun_eq_iff)

lemmas restore_simps = mapPut_mapErase_new mapPut_restore mapPut_after_erase restore_unchanged

lemma deactivate_step:
  assumes "regOk sha reg"
  shows "regOk sha (snd (deactivateValidator sha a ts reg)) \<and>
    (\<not> updSuccess (fst (deactivateValidator sha a ts reg)) \<longrightarrow> snd (deactivateValidator sha a ts reg) = reg)"
proof (cases "map_of reg a")
  case None
  then show ?thesis using assms by (simp add: deactivateValidator_def)
next
  case (Some e)
  let ?e = "e\<lparr>entryStatus := DEACTIVATED, lastUpdatedAt := ts\<rparr>"
  have "regOk sha (mapPut a ?e reg)" if "entryValid sha ?e"
    using that by (intro regOk_put_inactive [OF assms Some]) (auto simp: entryValid_def)
  then show ?thesis using assms Some
    by (auto simp: deactivateValidator_def Let_def regOk_def upd_result_defs)
qed

text \<open>
  Every update either leaves the registry as it was, or installs a map that passed the audit, or
  replaces one entry by a well-formed one that carries no weight.
\<close>

lemma regOk_step_core:
  assumes "regOk sha reg" and "timely c reg"
  shows "regOk sha (regStep sha c reg) \<and> (\<not> fst (regExec sha c reg) \<longrightarrow> regStep sha c reg = reg)"
proof (cases c)
  case (Deactivate a ts)
  then show ?thesis using deactivate_step [OF assms(1)] by (simp add: regStep_def)
next
  case (Jail a until ts)
  then show ?thesis using assms
    by (auto simp: regStep_def jailValidator_def Let_def upd_result_defs split: option.splits
        intro!: regOk_put_inactive)
next
  case (RequestExit a h ts)
  then show ?thesis using assms
    by (auto simp: regStep_def requestExit_def Let_def upd_result_defs split: option.splits
        intro!: regOk_put_inactive)
next
  case (CompleteExit a ts)
  then show ?thesis using assms
    by (auto simp: regStep_def completeExit_def Let_def upd_result_defs split: option.splits
        intro!: regOk_put_inactive)
qed (use assms in \<open>auto simp: regStep_def reg_update_defs Let_def upd_result_defs regOk_def
      restore_simps split: option.splits\<close>)

subsection \<open>Lifecycle\<close>

text \<open>What one call may do to the entry of an address that stays registered.\<close>

lemma exited_step:
  assumes "map_of reg a = Some e" and "entryExited e"
  shows "\<exists>e'. map_of (regStep sha c reg) a = Some e' \<and> entryExited e'"
  using assms
  by (cases c) (auto simp: regStep_def reg_update_defs Let_def entryExited_def split: option.splits)

lemma mapOk_step: "mapOk reg \<Longrightarrow> mapOk (regStep sha c reg)"
  by (cases c) (auto simp: regStep_def reg_update_defs Let_def split: option.splits)

interpretation vreg: component "regStep sha" "\<lambda>_. True" mapOk for sha
  by unfold_locales (rule mapOk_step)

subsection \<open>Properties of the registry\<close>


text \<open>
  A rejected update changes nothing: if the result is not a success, the registry is exactly
  the one before the call, also where the code writes first and undoes the write after a failed
  audit (registration, activation, unjailing, stake change, key rotation).
\<close>

theorem rejected_update_changes_nothing:
  assumes "mapOk reg" and "validatorsValid sha reg" and "timely c reg"
    and "regExec sha c reg = (False, reg')"
  shows "reg' = reg"
  using regOk_step_core [of sha reg c] assms by (simp add: regOk_def regStep_def)

text \<open>
  A validator that has exited or been deactivated never votes again: after any sequence of
  updates, with any arguments, its address is still registered as exited or deactivated, its
  consensus weight is zero and no public key passes the identity check for it.
\<close>

theorem exited_validator_has_no_weight:
  assumes "mapOk reg" and "map_of reg a = Some e" and "entryExited e"
  shows "consensusWeightFor (fold (regStep sha) cs reg) a = 0 \<and>
         \<not> verifyValidatorIdentity sha (fold (regStep sha) cs reg) a pk"
proof -
  let ?P = "\<lambda>r. \<exists>e. map_of r a = Some e \<and> entryExited e"
  have "?P (fold (regStep sha) cs reg)"
    by (rule vreg.run_stable [where P = ?P]) (use assms exited_step in \<open>auto simp: list_all_iff\<close>)
  then show ?thesis
    by (auto simp: consensusWeightFor_def eligibleForConsensus_def verifyValidatorIdentity_def
        entryExited_def entryActive_def)
qed

text \<open>
  On a valid registry the total consensus weight is computed without overflow, and it is
  exactly the sum over the eligible addresses of the weights the registry gives them one by one.
\<close>

theorem total_weight_exact:
  assumes "mapOk reg" and "validatorsValid sha reg"
  shows "\<exists>t. totalConsensusWeight reg = Inr t \<and>
           unat t = (\<Sum>a\<leftarrow>eligibleValidatorAddresses reg. unat (consensusWeightFor reg a)) \<and>
           distinct (eligibleValidatorAddresses reg)"
proof -
  have ok: "regOk sha reg" using assms by (simp add: regOk_def)
  show ?thesis using vs.total_exact [OF ok] vs.eligible_distinct [OF ok] by auto
qed

text \<open>
  The identity check binds a vote to a registered key: it succeeds only for an active
  validator and for a key from which exactly that address is derived.
\<close>

theorem identity_check_sound:
  assumes "verifyValidatorIdentity sha reg a pk"
  shows "\<exists>e. map_of reg a = Some e \<and> entryStatus e = ACTIVE \<and> deriveFromPublicKey sha pk = Inr a \<and>
           fingerprint sha (regPublicKey (registrationRecord e)) = fingerprint sha pk"
  using assms
  by (auto simp: verifyValidatorIdentity_def entryActive_def verifyAddressForPublicKey_def
      publicKeyFingerprint_def split: option.splits if_splits)

subsection \<open>A demonstration registry\<close>

definition demoRecord :: "char \<Rightarrow> ValidatorRegistrationRecord" where
  "demoRecord c = \<lparr>regAddress = demoAddr c, regPublicKey = demoKey c, activationEpoch = 1,
                   metadataHash = ''meta'', registeredAt = 5\<rparr>"

definition demoEntry :: "char \<Rightarrow> u64 \<Rightarrow> ValidatorRegistryEntry" where
  "demoEntry c stake = \<lparr>registrationRecord = demoRecord c, entryStatus = ACTIVE, lastUpdatedAt = 5,
     stakeAmount = stake, jailUntilEpoch = 0, exitRequestHeight = 0, entryOwner = ''owner''\<rparr>"

definition demoValidators :: ValidatorRegistry where
  "demoValidators =
     [(demoAddr CHR ''0'', demoEntry CHR ''0'' 1000000),
      (demoAddr CHR ''7'', demoEntry CHR ''7'' 2000000),
      (demoAddr CHR ''f'', demoEntry CHR ''f'' 3000000)]"

lemma demoRecord_valid: "demoName c \<Longrightarrow> registrationValid demoSha (demoRecord c)"
  using demoAddr_owned [of c] demoAddr_valid [of c]
  by (auto simp: registrationValid_def demoRecord_def isSafeScalar_def isSafeDelimitedText_def
      demoAddr_def demoKey_def demoName_def verifyAddressForPublicKey_def split: if_splits)

lemma demoEntry_at: "demoName c \<Longrightarrow> uint st \<le> I64_MAX \<Longrightarrow> entryAt demoSha (demoAddr c) (demoEntry c st)"
  using demoRecord_valid [of c] by (auto simp: entryAt_def entryValid_def demoEntry_def demoRecord_def
      registrationValid_def)

lemma demoValidators_mapOk: "mapOk demoValidators" by code_simp

lemma demoValidators_find [simp]:
  "map_of demoValidators (demoAddr CHR ''0'') = Some (demoEntry CHR ''0'' 1000000)"
  "map_of demoValidators (demoAddr CHR ''7'') = Some (demoEntry CHR ''7'' 2000000)"
  "map_of demoValidators (demoAddr CHR ''f'') = Some (demoEntry CHR ''f'' 3000000)"
  by (simp_all add: demoValidators_def)

lemma demoValidators_weights:
  "totalConsensusWeight demoValidators = Inr 6000000"
  "eligibleValidatorAddresses demoValidators = map demoAddr ''07f''"
  "consensusWeightFor demoValidators (demoAddr CHR ''0'') = 1000000"
  "consensusWeightFor demoValidators (demoAddr CHR ''7'') = 2000000"
  "consensusWeightFor demoValidators (demoAddr CHR ''f'') = 3000000"
  by code_simp+

lemma demoValidators_valid: "validatorsValid demoSha demoValidators"
proof -
  have "list_all (\<lambda>(a, e). entryAt demoSha a e) demoValidators"
    by (simp add: demoValidators_def demoEntry_at demoName_def I64_MAX_def)
  moreover have "weightTotal demoValidators = 6000000"
    by (simp add: demoValidators_def weightTotal_def entryWeight_def eligibleForConsensus_def demoEntry_def
       consensusWeight_def weightFromStake_def MIN_VALIDATOR_STAKE_RAW_UNITS_def)
  ultimately show ?thesis by (simp add: validatorsValid_iff)
qed


theorem rejected_update_changes_nothing_witness:
  "regStep demoSha (CompleteExit (demoAddr CHR ''7'') 20) demoValidators = demoValidators"
proof -
  let ?c = "CompleteExit (demoAddr CHR ''7'') 20"
  have "regExec demoSha ?c demoValidators = (False, snd (regExec demoSha ?c demoValidators))"
    by (simp add: completeExit_def demoEntry_def upd_result_defs)
  from rejected_update_changes_nothing [OF demoValidators_mapOk demoValidators_valid _ this]
  show ?thesis by (simp add: regStep_def demoEntry_def demoRecord_def)
qed

theorem exited_validator_has_no_weight_witness:
  "consensusWeightFor (fold (regStep demoSha)
      [Deactivate (demoAddr CHR ''f'') 9, Activate (demoAddr CHR ''f'') 10 11] demoValidators)
     (demoAddr CHR ''f'') = 0"
proof -
  let ?reg = "regStep demoSha (Deactivate (demoAddr CHR ''f'') 9) demoValidators"
  let ?e = "(demoEntry CHR ''f'' 3000000)\<lparr>entryStatus := DEACTIVATED, lastUpdatedAt := 9\<rparr>"
  have "entryAt demoSha (demoAddr CHR ''f'') ?e"
   using demoEntry_at [of "CHR ''f''" 3000000] by (simp add: entryAt_def entryValid_def demoEntry_def demoRecord_def demoName_def I64_MAX_def)
  then have "map_of ?reg (demoAddr CHR ''f'') = Some ?e"
    by (simp add: regStep_def deactivateValidator_def entryAt_def Let_def)
  then show ?thesis
    using exited_validator_has_no_weight [OF mapOk_step [OF demoValidators_mapOk],
        where sha = demoSha and cs = "[Activate (demoAddr CHR ''f'') 10 11]"]
    by (simp add: entryExited_def)
qed

theorem total_weight_exact_witness:
  "\<exists>t. totalConsensusWeight demoValidators = Inr t \<and> unat t = 6000000"
  using total_weight_exact [OF demoValidators_mapOk demoValidators_valid]
  by (auto simp: demoValidators_weights)

lemma demo_identity:
  assumes "(a, e) \<in> set demoValidators"
  shows "\<exists>c. demoName c \<and> a = demoAddr c \<and> verifyValidatorIdentity demoSha demoValidators a (demoKey c)"
proof -
  have *: "verifyValidatorIdentity demoSha demoValidators (demoAddr c) (demoKey c)"
    if "demoName c" "map_of demoValidators (demoAddr c) = Some (demoEntry c st)" for c st
    using that demoAddr_owned [of c] demoKey_valid [of c] demoName_hex [of c]
    by (simp add: verifyValidatorIdentity_def demoEntry_def demoRecord_def entryActive_def
        publicKeyFingerprint_def isLowerHexDigit_isHexDigit)
  consider "a = demoAddr CHR ''0''" | "a = demoAddr CHR ''7''" | "a = demoAddr CHR ''f''"
    using assms by (auto simp: demoValidators_def)
  then show ?thesis by cases (auto intro!: * simp: demoName_def)
qed

theorem identity_check_sound_witness:
  "\<exists>e. map_of demoValidators (demoAddr CHR ''0'') = Some e \<and> entryStatus e = ACTIVE"
proof -
  have "verifyValidatorIdentity demoSha demoValidators (demoAddr CHR ''0'') (demoKey CHR ''0'')"
    using demo_identity [OF map_of_SomeD [OF demoValidators_find(1)]] by auto
  from identity_check_sound [OF this] show ?thesis by blast
qed

end
