(* ===== verification/SparseMerkle.thy ===== *)
theory SparseMerkle
  imports Ledger Accounts Codec Validators
begin

section \<open>The sparse Merkle tree and the state roots\<close>

text \<open>
  \<open>src/core/SparseMerkleTree.cpp\<close> and \<open>src/core/StateRootCalculator.cpp\<close>. The tree is a binary
  trie of depth 256 whose missing subtrees have precomputed hashes; an account sits at the bits of
  the hash of its address. The lemmas reduce the root to the leaf found under every key: two trees
  of one root have the same leaves or show a collision of the hash, a generated proof verifies, and
  an account state root binds the accounts whose addresses have no zero byte.
\<close>

subsection \<open>The tree\<close>

definition SMT_DEPTH :: nat where
  "SMT_DEPTH = 256"

text \<open>\<open>std::unique_ptr<Node>\<close>: null, or a node with its hash and children.\<close>

datatype SmtNode = NoNode | SmtNode string SmtNode SmtNode

fun smtChild :: "bool \<Rightarrow> SmtNode \<Rightarrow> SmtNode" where
  "smtChild _ NoNode = NoNode"
| "smtChild False (SmtNode _ l _) = l"
| "smtChild True (SmtNode _ _ r) = r"

fun defaultHash :: "sha256 \<Rightarrow> nat \<Rightarrow> string" where
  "defaultHash sha 0 = nodo_hash_bytes sha []"
| "defaultHash sha (Suc i) = (let d = defaultHash sha i in hashNode sha d d)"

definition getNodeHash :: "sha256 \<Rightarrow> SmtNode \<Rightarrow> nat \<Rightarrow> string" where
  "getNodeHash sha n level =
     (case n of NoNode \<Rightarrow> defaultHash sha level | SmtNode h _ _ \<Rightarrow> if h = [] then defaultHash sha level else h)"

definition hexBits :: "char \<Rightarrow> bool list result" where
  "hexBits c =
     (let bits = (\<lambda>v::int. Inr (map (\<lambda>i. odd (v div 2 ^ i)) [3, 2, 1, 0])) in
      if CHR ''0'' \<le> c \<and> c \<le> CHR ''9'' then bits (of_char c - of_char CHR ''0'')
      else if CHR ''a'' \<le> c \<and> c \<le> CHR ''f'' then bits (of_char c - of_char CHR ''a'' + 10)
      else if CHR ''A'' \<le> c \<and> c \<le> CHR ''F'' then bits (of_char c - of_char CHR ''A'' + 10)
      else Inl (InvalidArgument ''Invalid hex character in key''))"

fun bitsFrom :: "string \<Rightarrow> bool list result" where
  "bitsFrom [] = Inr []"
| "bitsFrom (c # cs) = bindR (hexBits c) (\<lambda>b. bindR (bitsFrom cs) (\<lambda>bs. Inr (b @ bs)))"

definition hexToBits :: "string \<Rightarrow> bool list result" where
  "hexToBits hex =
     (if length hex \<noteq> 64 then Inl (InvalidArgument ''Key hex must be exactly 64 characters (256 bits)'')
      else bitsFrom hex)"

text \<open>\<open>updateRecursive\<close> at level \<open>l\<close> reads bit \<open>DEPTH - l\<close>: the level is the number of bits left.\<close>

fun updateRecursive :: "sha256 \<Rightarrow> SmtNode \<Rightarrow> bool list \<Rightarrow> string \<Rightarrow> SmtNode" where
  "updateRecursive sha n [] v = SmtNode v (smtChild False n) (smtChild True n)"
| "updateRecursive sha n (b # bs) v =
     (let l = (if b then smtChild False n else updateRecursive sha (smtChild False n) bs v);
          r = (if b then updateRecursive sha (smtChild True n) bs v else smtChild True n);
          level = length bs
      in SmtNode (hashNode sha (getNodeHash sha l level) (getNodeHash sha r level)) l r)"

definition smtUpdate :: "sha256 \<Rightarrow> string \<Rightarrow> string \<Rightarrow> SmtNode \<Rightarrow> SmtNode result" where
  "smtUpdate sha key v root = bindR (hexToBits key) (\<lambda>bits. Inr (updateRecursive sha root bits v))"

definition smtRoot :: "sha256 \<Rightarrow> SmtNode \<Rightarrow> string" where
  "smtRoot sha root = getNodeHash sha root SMT_DEPTH"

fun collectProofSteps :: "sha256 \<Rightarrow> SmtNode \<Rightarrow> bool list \<Rightarrow> MerkleProofStep list" where
  "collectProofSteps sha n [] = []"
| "collectProofSteps sha n (b # bs) =
     \<lparr>siblingHash = (case smtChild (\<not> b) n of NoNode \<Rightarrow> defaultHash sha (length bs) | SmtNode h _ _ \<Rightarrow> h),
      siblingIsLeft = b\<rparr> # collectProofSteps sha (smtChild b n) bs"

fun smtDescend :: "SmtNode \<Rightarrow> bool list \<Rightarrow> SmtNode" where
  "smtDescend n [] = n"
| "smtDescend n (b # bs) = smtDescend (smtChild b n) bs"

definition generateProof :: "sha256 \<Rightarrow> string \<Rightarrow> SmtNode \<Rightarrow> MerkleProof result" where
  "generateProof sha key root =
     bindR (hexToBits key) (\<lambda>bits.
       Inr \<lparr>proofLeafHash =
              (case smtDescend root bits of NoNode \<Rightarrow> defaultHash sha 0
               | SmtNode h _ _ \<Rightarrow> if h = [] then defaultHash sha 0 else h),
            proofSteps = rev (collectProofSteps sha root bits)\<rparr>)"

subsection \<open>State roots\<close>

definition accountSmtKey :: "sha256 \<Rightarrow> string \<Rightarrow> string" where
  "accountSmtKey sha address = nodo_hash_string sha address"

definition accountLeafPayload :: "AccountState \<Rightarrow> string" where
  "accountLeafPayload a =
     ''NODO_ACCOUNT_LEAF_V2{address='' @ accAddress a @ '';balance='' @ showI64 (rawUnits (accBalance a))
       @ '';nonce='' @ showU64 (accNonce a) @ ''}''"

fun updateAll :: "sha256 \<Rightarrow> SmtNode \<Rightarrow> (string \<times> string) list \<Rightarrow> SmtNode result" where
  "updateAll sha t [] = Inr t"
| "updateAll sha t ((key, v) # es) = bindR (smtUpdate sha key v t) (\<lambda>t'. updateAll sha t' es)"

definition buildAccountStateTree :: "sha256 \<Rightarrow> AccountStateView \<Rightarrow> SmtNode result" where
  "buildAccountStateTree sha view =
     updateAll sha NoNode
       (map (\<lambda>a. (accountSmtKey sha (accAddress a), hashLeaf sha (accountLeafPayload a))) (viewAccounts view))"

definition calculateAccountStateRoot :: "sha256 \<Rightarrow> AccountStateView \<Rightarrow> string result" where
  "calculateAccountStateRoot sha view =
     (if \<not> viewValid view then Inr []
      else bindR (buildAccountStateTree sha view) (\<lambda>t. Inr (smtRoot sha t)))"

definition canonicalAccountStatePayload :: "sha256 \<Rightarrow> AccountStateView \<Rightarrow> string result" where
  "canonicalAccountStatePayload sha view =
     (if \<not> viewValid view then Inr []
      else bindR (calculateAccountStateRoot sha view) (\<lambda>root.
        Inr (''NODO_ACCOUNT_STATE_ROOT_V2{accountCount='' @ showNat (length (viewAccounts view))
          @ '';merkleRoot='' @ root @ ''}'')))"

definition accountInclusionProof :: "sha256 \<Rightarrow> AccountStateView \<Rightarrow> string \<Rightarrow> MerkleProof result" where
  "accountInclusionProof sha view address =
     (if \<not> viewValid view \<or> \<not> hasAccount view address then Inr \<lparr>proofLeafHash = [], proofSteps = []\<rparr>
      else bindR (buildAccountStateTree sha view) (generateProof sha (accountSmtKey sha address)))"

definition validatorLeafPayload :: "ValidatorRegistryEntry \<Rightarrow> string" where
  "validatorLeafPayload e =
     ''NODO_VALIDATOR_STAKE_LEAF_V1{address='' @ regAddress (registrationRecord e) @ '';weight='' @ showU64 (consensusWeight e) @ ''}''"

definition buildValidatorStateTree :: "sha256 \<Rightarrow> ValidatorRegistry \<Rightarrow> SmtNode result" where
  "buildValidatorStateTree sha reg =
     updateAll sha NoNode
       (map (\<lambda>(address, e). (nodo_hash_string sha address,
          hashLeaf sha (validatorLeafPayload e))) reg)"

definition calculateValidatorStateRoot :: "sha256 \<Rightarrow> ValidatorRegistry \<Rightarrow> string result" where
  "calculateValidatorStateRoot sha reg =
     (if \<not> validatorsValid sha reg then Inr []
      else bindR (buildValidatorStateTree sha reg) (\<lambda>t. Inr (smtRoot sha t)))"

definition domainLeaf :: "string \<Rightarrow> string \<Rightarrow> string result" where
  "domainLeaf domain payload =
     bindR (writeString ''NODO_STATE_DOMAIN_V2'') (\<lambda>tag.
     bindR (writeString domain) (\<lambda>d.
     bindR (writeString payload) (\<lambda>p. Inr (tag @ d @ p))))"

text \<open>The loop over the domains: \<open>None\<close> is its early return of the empty root.\<close>

fun domainLeaves :: "(string, string) smap \<Rightarrow> string list option result" where
  "domainLeaves [] = Inr (Some [])"
| "domainLeaves ((domain, payload) # ds) =
     (if domain = [] \<or> domain = ''accounts'' \<or> payload = [] then Inr None
      else bindR (domainLeaf domain payload) (\<lambda>l.
           bindR (domainLeaves ds) (\<lambda>ls. Inr (map_option ((#) l) ls))))"

definition calculateProtocolStateRoot :: "sha256 \<Rightarrow> AccountStateView \<Rightarrow> (string, string) smap \<Rightarrow> string result" where
  "calculateProtocolStateRoot sha view domains =
     bindR (calculateAccountStateRoot sha view) (\<lambda>accountRoot.
     if accountRoot = [] then Inr []
     else if domains = [] then Inr accountRoot
     else bindR (domainLeaf ''accounts'' accountRoot) (\<lambda>l.
          bindR (domainLeaves domains) (\<lambda>ls.
          Inr (case ls of None \<Rightarrow> [] | Some ls \<Rightarrow> buildRoot sha (l # ls)))))"

subsection \<open>The root as a function of the leaves\<close>

fun smtOk :: "sha256 \<Rightarrow> nat \<Rightarrow> SmtNode \<Rightarrow> bool" where
  "smtOk sha k NoNode \<longleftrightarrow> True"
| "smtOk sha 0 (SmtNode h l r) \<longleftrightarrow> length h = 64 \<and> l = NoNode \<and> r = NoNode"
| "smtOk sha (Suc k) (SmtNode h l r) \<longleftrightarrow>
     h = hashNode sha (getNodeHash sha l k) (getNodeHash sha r k) \<and> smtOk sha k l \<and> smtOk sha k r"

definition leafAt :: "sha256 \<Rightarrow> SmtNode \<Rightarrow> bool list \<Rightarrow> string" where
  "leafAt sha n bits = getNodeHash sha (smtDescend n bits) 0"

lemma length_hashNode [simp]: "length (hashNode sha l r) = 64"
  by (simp add: hashNode_def)

lemma hashNode_not_Nil [simp]: "hashNode sha l r \<noteq> []"
  using length_hashNode [of sha l r] by fastforce

lemma length_defaultHash [simp]: "length (defaultHash sha k) = 64"
  by (cases k) (simp_all add: Let_def)

lemma smtOk_child: "smtOk sha (Suc k) n \<Longrightarrow> smtOk sha k (smtChild b n)"
  by (cases n; cases b) auto

lemma smtOk_length: "smtOk sha k n \<Longrightarrow> length (getNodeHash sha n k) = 64"
  by (cases n; cases k) (auto simp: getNodeHash_def Let_def)

lemma node_hash:
  "smtOk sha (Suc k) n \<Longrightarrow>
     getNodeHash sha n (Suc k) =
       hashNode sha (getNodeHash sha (smtChild False n) k) (getNodeHash sha (smtChild True n) k)"
  by (cases n) (auto simp: getNodeHash_def Let_def)

lemma update_ok:
  "smtOk sha (length bits) n \<Longrightarrow> length v = 64 \<Longrightarrow> smtOk sha (length bits) (updateRecursive sha n bits v)"
proof (induction bits arbitrary: n)
  case Nil
  then show ?case by (cases n) auto
next
  case (Cons b bits)
  then show ?case using smtOk_child [of sha "length bits" n] by (auto simp: Let_def)
qed

lemma leafAt_Cons [simp]: "leafAt sha n (b # bits) = leafAt sha (smtChild b n) bits"
  by (simp add: leafAt_def)

lemma leafAt_update:
  assumes "length bits' = length bits" and "length v = 64"
  shows "leafAt sha (updateRecursive sha n bits v) bits' = (if bits' = bits then v else leafAt sha n bits')"
  using assms
proof (induction bits arbitrary: n bits')
  case Nil
  then show ?case by (auto simp: leafAt_def getNodeHash_def)
next
  case (Cons b bits)
  then obtain b' bs where bits': "bits' = b' # bs" by (cases bits') auto
  with Cons show ?case by (cases b; cases b') (auto simp: Let_def)
qed

lemma leafAt_NoNode [simp]: "leafAt sha NoNode bits = defaultHash sha 0"
  by (induction bits) (simp_all add: leafAt_def getNodeHash_def)

lemma root_from_leaves:
  assumes "smtOk sha k n" and "smtOk sha k m" and "\<And>bits. length bits = k \<Longrightarrow> leafAt sha n bits = leafAt sha m bits"
  shows "getNodeHash sha n k = getNodeHash sha m k"
  using assms
proof (induction k arbitrary: n m)
  case 0
  then show ?case using 0(3) [of "[]"] by (simp add: leafAt_def)
next
  case (Suc k)
  have "getNodeHash sha (smtChild b n) k = getNodeHash sha (smtChild b m) k" for b
    using Suc.prems(3) [of "b # bits" for bits]
    by (intro Suc.IH smtOk_child Suc.prems) auto
  then show ?case using node_hash [OF Suc.prems(1)] node_hash [OF Suc.prems(2)] by simp
qed

text \<open>The strings hashed for a tree, missing subtrees included.\<close>

fun smtInputs :: "sha256 \<Rightarrow> nat \<Rightarrow> SmtNode \<Rightarrow> string list" where
  "smtInputs sha 0 n = []"
| "smtInputs sha (Suc k) NoNode = nodeInput (defaultHash sha k) (defaultHash sha k) # smtInputs sha k NoNode"
| "smtInputs sha (Suc k) (SmtNode h l r) =
     nodeInput (getNodeHash sha l k) (getNodeHash sha r k) # smtInputs sha k l @ smtInputs sha k r"

lemma smtInputs_node:
  "nodeInput (getNodeHash sha (smtChild False n) k) (getNodeHash sha (smtChild True n) k) \<in> set (smtInputs sha (Suc k) n)"
  by (cases n) (auto simp: getNodeHash_def)

lemma smtInputs_child: "set (smtInputs sha k (smtChild b n)) \<subseteq> set (smtInputs sha (Suc k) n)"
  by (cases n; cases b) auto

lemma smt_root_binds:
  assumes "smtOk sha k n" and "smtOk sha k m" and "getNodeHash sha n k = getNodeHash sha m k" and "length bits = k"
  shows "leafAt sha n bits = leafAt sha m bits \<or> collides sha (smtInputs sha k n) (smtInputs sha k m)"
  using assms
proof (induction k arbitrary: n m bits)
  case 0
  then show ?case by (simp add: leafAt_def)
next
  case (Suc k)
  obtain b bs where bits: "bits = b # bs" "length bs = k" using Suc.prems(4) by (cases bits) auto
  let ?h = "\<lambda>n b. getNodeHash sha (smtChild b n) k"
  have len: "length (?h n False) = 64" "length (?h m False) = 64"
    using Suc.prems(1,2) by (auto intro!: smtOk_length smtOk_child)
  have eq: "sha (nodeInput (?h n False) (?h n True)) = sha (nodeInput (?h m False) (?h m True))"
    using Suc.prems(3) node_hash [OF Suc.prems(1)] node_hash [OF Suc.prems(2)] by (simp add: hashNode_def)
  show ?case
  proof (cases "nodeInput (?h n False) (?h n True) = nodeInput (?h m False) (?h m True)")
    case True
    then have "?h n b = ?h m b" using len by (cases b) (auto simp: nodeInput_inj)
    then have "leafAt sha (smtChild b n) bs = leafAt sha (smtChild b m) bs \<or>
        collides sha (smtInputs sha k (smtChild b n)) (smtInputs sha k (smtChild b m))"
      using bits(2) by (intro Suc.IH smtOk_child Suc.prems(1,2))
    then show ?thesis
      using bits(1) collides_mono [OF _ smtInputs_child smtInputs_child] by auto
  next
    case False
    then show ?thesis using eq smtInputs_node unfolding collides_def by blast
  qed
qed

subsection \<open>Proofs\<close>

lemma proof_reconstructs:
  assumes "smtOk sha (length bits) n"
  shows "foldr (proofUp sha) (collectProofSteps sha n bits) (leafAt sha n bits) = getNodeHash sha n (length bits)"
  using assms
proof (induction bits arbitrary: n)
  case Nil
  then show ?case by (simp add: leafAt_def)
next
  case (Cons b bits)
  have ok: "smtOk sha (length bits) (smtChild c n)" for c using smtOk_child Cons.prems by auto
  have sib: "(case smtChild c n of NoNode \<Rightarrow> defaultHash sha (length bits) | SmtNode h _ _ \<Rightarrow> h) =
      getNodeHash sha (smtChild c n) (length bits)" for c
    using smtOk_length [OF ok [of c]] ok [of c]
    by (cases "smtChild c n"; cases "length bits") (auto simp: getNodeHash_def)
  show ?case
    using Cons.IH [OF ok [of b]] Cons.prems by (cases b) (simp_all add: proofUp_def sib node_hash)
qed

subsection \<open>Keys\<close>

lemma hex_digit_chars: "isLowerHexDigit c \<Longrightarrow> c \<in> set ''0123456789abcdef''"
proof -
  have "\<forall>c. isLowerHexDigit c \<longrightarrow> c \<in> set ''0123456789abcdef''" by code_simp
  then show "isLowerHexDigit c \<Longrightarrow> c \<in> set ''0123456789abcdef''" by blast
qed

lemma hexBits_digit: "isLowerHexDigit c \<Longrightarrow> \<exists>b. hexBits c = Inr b \<and> length b = 4"
proof -
  have "\<forall>c\<in>set ''0123456789abcdef''. (case hexBits c of Inr b \<Rightarrow> length b = 4 | Inl _ \<Rightarrow> False)" by code_simp
  then show "isLowerHexDigit c \<Longrightarrow> \<exists>b. hexBits c = Inr b \<and> length b = 4"
    using hex_digit_chars [of c] by (fastforce split: sum.splits)
qed

lemma hexBits_inj: "isLowerHexDigit c \<Longrightarrow> isLowerHexDigit d \<Longrightarrow> hexBits c = hexBits d \<Longrightarrow> c = d"
proof -
  have "\<forall>c\<in>set ''0123456789abcdef''. \<forall>d\<in>set ''0123456789abcdef''. hexBits c = hexBits d \<longrightarrow> c = d" by code_simp
  then show "isLowerHexDigit c \<Longrightarrow> isLowerHexDigit d \<Longrightarrow> hexBits c = hexBits d \<Longrightarrow> c = d"
    using hex_digit_chars [of c] hex_digit_chars [of d] by blast
qed

lemma bitsFrom_digits:
  "list_all isLowerHexDigit key \<Longrightarrow> \<exists>bits. bitsFrom key = Inr bits \<and> length bits = 4 * length key"
proof (induction key)
  case (Cons c key)
  then show ?case using hexBits_digit [of c] by fastforce
qed simp

lemma bitsFrom_inj:
  "list_all isLowerHexDigit key \<Longrightarrow> list_all isLowerHexDigit key' \<Longrightarrow> length key = length key' \<Longrightarrow>
     bitsFrom key = bitsFrom key' \<Longrightarrow> key = key'"
proof (induction key key' rule: list_induct2')
  case (4 c cs d ds)
  obtain b where b: "hexBits c = Inr b" "length b = 4" using 4(2) hexBits_digit by auto
  obtain b' where b': "hexBits d = Inr b'" "length b' = 4" using 4(3) hexBits_digit by auto
  obtain bs bs' where "bitsFrom cs = Inr bs" "bitsFrom ds = Inr bs'" using 4(2,3) bitsFrom_digits by fastforce
  then show ?case using 4 b b' hexBits_inj [of c d] by auto
qed auto

definition keyBits :: "string \<Rightarrow> bool list" where
  "keyBits key = (case hexToBits key of Inr bits \<Rightarrow> bits | Inl _ \<Rightarrow> [])"

abbreviation isKey :: "string \<Rightarrow> bool" where
  "isKey key \<equiv> length key = 64 \<and> list_all isLowerHexDigit key"

lemma hash_isKey: "isKey (nodo_hash_string sha s)"
  using nodo_hash_lower by simp

lemma hexToBits_key: "isKey key \<Longrightarrow> hexToBits key = Inr (keyBits key) \<and> length (keyBits key) = SMT_DEPTH"
  using bitsFrom_digits [of key] by (auto simp: hexToBits_def keyBits_def SMT_DEPTH_def)

lemma keyBits_inj: "isKey key \<Longrightarrow> isKey key' \<Longrightarrow> keyBits key = keyBits key' \<Longrightarrow> key = key'"
  using bitsFrom_inj [of key key'] hexToBits_key [of key] hexToBits_key [of key'] by (auto simp: hexToBits_def)

lemma updateAll_leaves:
  assumes "\<forall>(key, v)\<in>set es. isKey key \<and> length v = 64" and "smtOk sha SMT_DEPTH t"
  shows "\<exists>t'. updateAll sha t es = Inr t' \<and> smtOk sha SMT_DEPTH t' \<and>
     (\<forall>bits. length bits = SMT_DEPTH \<longrightarrow>
        leafAt sha t' bits =
          (case map_of (rev (map (\<lambda>(key, v). (keyBits key, v)) es)) bits of
             None \<Rightarrow> leafAt sha t bits | Some v \<Rightarrow> v))"
  using assms
proof (induction es arbitrary: t)
  case Nil
  then show ?case by simp
next
  case (Cons e es)
  obtain key v where e: "e = (key, v)" by fastforce
  have key: "hexToBits key = Inr (keyBits key)" "length (keyBits key) = SMT_DEPTH" "length v = 64"
    using Cons.prems(1) hexToBits_key [of key] e by auto
  let ?t = "updateRecursive sha t (keyBits key) v"
  have "smtOk sha SMT_DEPTH ?t" using update_ok [of sha "keyBits key" t v] key Cons.prems(2) by simp
  then obtain t' where t': "updateAll sha ?t es = Inr t'" "smtOk sha SMT_DEPTH t'"
    "\<And>bits. length bits = SMT_DEPTH \<Longrightarrow> leafAt sha t' bits =
       (case map_of (rev (map (\<lambda>(key, v). (keyBits key, v)) es)) bits of None \<Rightarrow> leafAt sha ?t bits | Some v \<Rightarrow> v)"
    using Cons.IH [of ?t] Cons.prems(1) by auto
  then have "updateAll sha t (e # es) = Inr t'" using e key by (simp add: smtUpdate_def)
  moreover have "leafAt sha ?t bits = (if bits = keyBits key then v else leafAt sha t bits)"
    if "length bits = SMT_DEPTH" for bits
    using leafAt_update [of bits "keyBits key" v] that key by simp
  ultimately show ?case using t' e by (auto simp: map_add_def split: option.splits)
qed

subsection \<open>What the account root binds\<close>

abbreviation accountBits :: "sha256 \<Rightarrow> string \<Rightarrow> bool list" where
  "accountBits sha address \<equiv> keyBits (accountSmtKey sha address)"

abbreviation accountLeaf :: "sha256 \<Rightarrow> AccountState \<Rightarrow> string" where
  "accountLeaf sha a \<equiv> hashLeaf sha (accountLeafPayload a)"

lemma length_hashLeaf [simp]: "length (hashLeaf sha s) = 64"
  by (simp add: hashLeaf_def)

lemma account_tree:
  "\<exists>t. buildAccountStateTree sha view = Inr t \<and> smtOk sha SMT_DEPTH t \<and>
     (\<forall>bits. length bits = SMT_DEPTH \<longrightarrow>
        leafAt sha t bits =
          (case map_of (rev (map (\<lambda>e. (accountBits sha (accAddress (snd e)), accountLeaf sha (snd e))) view)) bits of
             None \<Rightarrow> defaultHash sha 0 | Some v \<Rightarrow> v))"
proof -
  let ?es = "map (\<lambda>a. (accountSmtKey sha (accAddress a), accountLeaf sha a)) (viewAccounts view)"
  have "\<forall>(key, v)\<in>set ?es. isKey key \<and> length v = 64"
    using nodo_hash_lower by (auto simp: accountSmtKey_def)
  from updateAll_leaves [OF this, of sha NoNode] show ?thesis
    by (simp add: buildAccountStateTree_def viewAccounts_def comp_def cong: option.case_cong)
qed

lemma leafPayload_inj:
  assumes "accountLeafPayload a = accountLeafPayload b" and "0 \<le> rawUnits (accBalance a)" and "0 \<le> rawUnits (accBalance b)"
  shows "a = b"
proof -
  let ?P = "\<lambda>c. c \<noteq> CHR ''=''"
  let ?pre = "\<lambda>a. ''NODO_ACCOUNT_LEAF_V2{address='' @ accAddress a @ '';balance''"
  have split: "accountLeafPayload a = (?pre a @ CHR ''='' # (showI64 (rawUnits (accBalance a)) @ '';nonce''))
      @ CHR ''='' # (showU64 (accNonce a) @ ''}'')" for a
    by (simp add: accountLeafPayload_def)
  have plain: "list_all ?P (showI64 (rawUnits (accBalance a)) @ '';nonce'')" "list_all ?P (showU64 (accNonce a) @ ''}'')" for a
    using showI64_field [of "rawUnits (accBalance a)"] showU64_field [of "accNonce a"]
    by (auto simp: fieldText_def list_all_iff)
  from delim_split_right [of ?P, OF plain(2) plain(2) _ assms(1) [unfolded split]]
  have nonce: "showU64 (accNonce a) = showU64 (accNonce b)"
    and rest: "?pre a @ CHR ''='' # (showI64 (rawUnits (accBalance a)) @ '';nonce'') =
               ?pre b @ CHR ''='' # (showI64 (rawUnits (accBalance b)) @ '';nonce'')"
    by simp_all
  from delim_split_right [of ?P, OF plain(1) plain(1) _ rest]
  have "showI64 (rawUnits (accBalance a)) = showI64 (rawUnits (accBalance b))" "accAddress a = accAddress b"
    by simp_all
  then show ?thesis using nonce assms(2,3)
    by (cases a; cases b; cases "accBalance a"; cases "accBalance b") (simp add: showI64_def)
qed

text \<open>The strings hashed for the root of a view.\<close>

definition accountInputs :: "sha256 \<Rightarrow> AccountStateView \<Rightarrow> string list" where
  "accountInputs sha view =
     [] # map fst view @ map (\<lambda>e. ''NODO_MERKLE_LEAF:'' @ accountLeafPayload (snd e)) view
       @ (case buildAccountStateTree sha view of Inr t \<Rightarrow> smtInputs sha SMT_DEPTH t | Inl _ \<Rightarrow> [])"

abbreviation plainAddresses :: "AccountStateView \<Rightarrow> bool" where
  "plainAddresses view \<equiv> list_all (\<lambda>e. CHR 0x00 \<notin> set (fst e)) view"

lemma plain_key: "CHR 0x00 \<notin> set s \<Longrightarrow> nodo_hash_string sha s = nodo_hash_bytes sha s"
proof -
  assume "CHR 0x00 \<notin> set s"
  then have "takeWhile (\<lambda>c. c \<noteq> CHR 0x00) s = s" by (subst takeWhile_eq_all_conv) blast
  then show ?thesis unfolding nodo_hash_string_def by (rule arg_cong)
qed

lemma account_bits_eq:
  assumes "accountBits sha a = accountBits sha b" and "CHR 0x00 \<notin> set a" and "CHR 0x00 \<notin> set b"
  shows "sha a = sha b"
  using keyBits_inj [OF hash_isKey hash_isKey, of sha a sha b] assms by (simp add: accountSmtKey_def plain_key)

lemma length_accountBits [simp]: "length (accountBits sha address) = SMT_DEPTH"
  using hexToBits_key [OF hash_isKey] by (simp add: accountSmtKey_def)

lemma viewOk_mem: "viewOk v \<Longrightarrow> (k, a) \<in> set v \<Longrightarrow> map_of v k = Some a \<and> accAddress a = k \<and> 0 \<le> rawUnits (accBalance a)"
  by (auto simp: viewOk_def viewValid_def list_all_iff amountOk_def map_of_eq_Some_iff_mem)

lemma account_leaf:
  assumes "viewOk v" and "buildAccountStateTree sha v = Inr t"
    and only: "\<And>k a. (k, a) \<in> set v \<Longrightarrow> accountBits sha k = accountBits sha address \<Longrightarrow> k = address"
  shows "leafAt sha t (accountBits sha address) =
         (case map_of v address of None \<Rightarrow> defaultHash sha 0 | Some a \<Rightarrow> accountLeaf sha a)"
proof -
  let ?leaves = "rev (map (\<lambda>e. (accountBits sha (accAddress (snd e)), accountLeaf sha (snd e))) v)"
  have leaf: "leafAt sha t (accountBits sha address) =
      (case map_of ?leaves (accountBits sha address) of None \<Rightarrow> defaultHash sha 0 | Some x \<Rightarrow> x)"
    using account_tree [of sha v] assms(2) by auto
  have "map_of ?leaves (accountBits sha address) = map_option (accountLeaf sha) (map_of v address)"
  proof (cases "map_of ?leaves (accountBits sha address)")
    case None
    then have "accountBits sha address \<notin> (\<lambda>e. accountBits sha (accAddress (snd e))) ` set v"
      by (simp add: map_of_eq_None_iff image_comp comp_def)
    moreover have "accountBits sha address \<in> (\<lambda>e. accountBits sha (accAddress (snd e))) ` set v"
      if "map_of v address = Some a" for a
    proof (rule image_eqI)
      show "accountBits sha address = accountBits sha (accAddress (snd (address, a)))"
        using that viewOk_mem [OF assms(1), of address a] by (simp add: map_of_SomeD)
    qed (use that in \<open>rule map_of_SomeD\<close>)
    ultimately have "map_of v address = None" by (cases "map_of v address") auto
    then show ?thesis using None by simp
  next
    case (Some x)
    then obtain k a where e: "(k, a) \<in> set v" "accountBits sha (accAddress a) = accountBits sha address"
      "x = accountLeaf sha a"
      by (auto dest!: map_of_SomeD)
    then have "map_of v address = Some a" using viewOk_mem [OF assms(1) e(1)] only [OF e(1)] by simp
    then show ?thesis using Some e(3) by simp
  qed
  then show ?thesis using leaf by (simp split: option.splits)
qed

lemma accountInputs_mem:
  "[] \<in> set (accountInputs sha v)"
  "(k, a) \<in> set v \<Longrightarrow> k \<in> set (accountInputs sha v)"
  "(k, a) \<in> set v \<Longrightarrow> ''NODO_MERKLE_LEAF:'' @ accountLeafPayload a \<in> set (accountInputs sha v)"
  "buildAccountStateTree sha v = Inr t \<Longrightarrow> set (smtInputs sha SMT_DEPTH t) \<subseteq> set (accountInputs sha v)"
  by (force simp: accountInputs_def)+

lemma collisionD: "\<not> collides sha xs xs \<Longrightarrow> x \<in> set xs \<Longrightarrow> y \<in> set xs \<Longrightarrow> sha x = sha y \<Longrightarrow> x = y"
  by (auto simp: collides_def)

text \<open>One direction of the binding: an account of the first view is in the second.\<close>

lemma account_kept:
  assumes ok: "viewOk v" "viewOk w" and plain: "plainAddresses v" "plainAddresses w"
    and root: "calculateAccountStateRoot sha v = calculateAccountStateRoot sha w" and a: "(address, a) \<in> set v"
    and free: "\<not> collides sha (accountInputs sha v @ accountInputs sha w) (accountInputs sha v @ accountInputs sha w)"
  shows "(address, a) \<in> set w"
proof -
  obtain t u where tree: "buildAccountStateTree sha v = Inr t" "smtOk sha SMT_DEPTH t"
      "buildAccountStateTree sha w = Inr u" "smtOk sha SMT_DEPTH u"
    using account_tree by blast
  have "getNodeHash sha t SMT_DEPTH = getNodeHash sha u SMT_DEPTH"
    using root ok tree by (simp add: calculateAccountStateRoot_def viewOk_def smtRoot_def)
  from smt_root_binds [OF tree(2,4) this length_accountBits [of sha address]]
  have same: "leafAt sha t (accountBits sha address) = leafAt sha u (accountBits sha address)"
    using free collides_mono [OF _ order_trans [OF accountInputs_mem(4) [OF tree(1)]] order_trans [OF accountInputs_mem(4) [OF tree(3)]]]
    by auto
  note no = collisionD [OF free]
  have only: "k = address" if "(k, b) \<in> set v \<union> set w" "accountBits sha k = accountBits sha address" for k b
  proof (rule no)
    show "k \<in> set (accountInputs sha v @ accountInputs sha w)" "address \<in> set (accountInputs sha v @ accountInputs sha w)"
      using that(1) a accountInputs_mem(2) by fastforce+
    show "sha k = sha address"
      by (rule account_bits_eq [OF that(2)]) (use that(1) a plain in \<open>auto simp: list_all_iff\<close>)
  qed
  have "leafAt sha t (accountBits sha address) = accountLeaf sha a"
    using account_leaf [OF ok(1) tree(1) only [OF UnI1]] viewOk_mem [OF ok(1) a] by simp
  moreover have "leafAt sha u (accountBits sha address) =
      (case map_of w address of None \<Rightarrow> defaultHash sha 0 | Some b \<Rightarrow> accountLeaf sha b)"
    using account_leaf [OF ok(2) tree(3) only [OF UnI2]] by simp
  ultimately have leaf: "accountLeaf sha a =
      (case map_of w address of None \<Rightarrow> defaultHash sha 0 | Some b \<Rightarrow> accountLeaf sha b)"
    using same by simp
  show ?thesis
  proof (cases "map_of w address")
    case None
    then have "sha (''NODO_MERKLE_LEAF:'' @ accountLeafPayload a) = sha []" using leaf by (simp add: hashLeaf_def)
    then have "''NODO_MERKLE_LEAF:'' @ accountLeafPayload a = []"
      by (rule no [rotated 2]) (use accountInputs_mem(1,3) a in fastforce)+
    then show ?thesis by simp
  next
    case (Some b)
    then have b: "(address, b) \<in> set w" by (rule map_of_SomeD)
    have "sha (''NODO_MERKLE_LEAF:'' @ accountLeafPayload a) = sha (''NODO_MERKLE_LEAF:'' @ accountLeafPayload b)"
      using leaf Some by (simp add: hashLeaf_def)
    then have "''NODO_MERKLE_LEAF:'' @ accountLeafPayload a = ''NODO_MERKLE_LEAF:'' @ accountLeafPayload b"
      by (rule no [rotated 2]) (use accountInputs_mem(3) a b in fastforce)+
    then have "a = b" using viewOk_mem [OF ok(1) a] viewOk_mem [OF ok(2) b] by (intro leafPayload_inj) auto
    then show ?thesis using b by simp
  qed
qed

text \<open>
  C17: The account state root binds the accounts: two views with one root, whose addresses have no zero
  byte, are equal, or the strings hashed for the two roots contain a collision of the digest.
\<close>

theorem account_root_binds_accounts:
  assumes "viewOk v" and "viewOk w" and "plainAddresses v" and "plainAddresses w"
    and "calculateAccountStateRoot sha v = calculateAccountStateRoot sha w"
  shows "v = w \<or>
         collides sha (accountInputs sha v @ accountInputs sha w) (accountInputs sha v @ accountInputs sha w)"
proof (rule disjCI)
  assume free: "\<not> collides sha (accountInputs sha v @ accountInputs sha w) (accountInputs sha v @ accountInputs sha w)"
  have "set v \<subseteq> set w" using account_kept [OF assms _ free] by auto
  moreover have "set w \<subseteq> set v"
    using account_kept [OF assms(2,1,4,3) assms(5) [symmetric]] free by (auto simp: collides_def)
  ultimately have "set v = set w" by blast
  moreover have "mapOk v" "mapOk w" using assms by (simp_all add: viewOk_def)
  ultimately have "map_of v k = Some a \<longleftrightarrow> map_of w k = Some a" for k a by (simp add: map_of_eq_Some_iff_mem)
  then have "map_of v = map_of w" by (intro ext) (metis not_None_eq)
  then show "v = w" using \<open>mapOk v\<close> \<open>mapOk w\<close> by (intro mapOk_entries_inj)
qed

text \<open>
  C35: An address with a zero byte hides another account. The key of an address is the hash of its text
  up to the first zero byte, so the account at \<open>a\<close> and one at \<open>a\<close> followed by a zero byte share
  their leaf, and the later one overwrites it: whatever the first account holds, the root is the same.
\<close>

lemma zero_byte_bits: "CHR 0x00 \<notin> set a \<Longrightarrow> accountBits sha (a @ CHR 0x00 # rest) = accountBits sha a"
proof -
  assume a: "CHR 0x00 \<notin> set a"
  have "nodo_hash_string sha (a @ CHR 0x00 # rest) = nodo_hash_bytes sha a"
    unfolding nodo_hash_string_def takeWhile_field [OF a] ..
  then show ?thesis unfolding accountSmtKey_def by (simp only: plain_key [OF a])
qed

lemma less_append: "xs < xs @ y # ys" for xs :: string
  by (induction xs) simp_all

lemma mapPut_before:
  "mapOk v \<Longrightarrow> (k', b) \<in> set v \<Longrightarrow> k < k' \<Longrightarrow>
     \<exists>pre pre' post. v = pre @ (k', b) # post \<and> mapPut k a v = pre' @ (k', b) # post"
proof (induction v)
  case (Cons e v)
  obtain i x where e: "e = (i, x)" by fastforce
  show ?case
  proof (cases "e = (k', b)")
    case True
    then have "e # v = [] @ (k', b) # v \<and> mapPut k a (e # v) = [(k, a)] @ (k', b) # v" using Cons.prems(3) by auto
    then show ?thesis by blast
  next
    case False
    then obtain pre pre' post where v: "v = pre @ (k', b) # post" "mapPut k a v = pre' @ (k', b) # post"
      using Cons by (auto simp: mapOk_Cons)
    have "e # v = (e # pre) @ (k', b) # post" using v by simp
    moreover have "\<exists>pre''. mapPut k a (e # v) = pre'' @ (k', b) # post"
    proof -
      have "mapPut k a (e # v) = (if k < i then (k, a) # e # pre else if k = i then (k, a) # pre else e # pre') @ (k', b) # post"
        using v e by auto
      then show ?thesis by blast
    qed
    ultimately show ?thesis by blast
  qed
qed simp

lemma mapPut_others: "mapOk v \<Longrightarrow> filter (\<lambda>e. fst e \<noteq> k) (mapPut k a v) = filter (\<lambda>e. fst e \<noteq> k) v"
  by (induction v) (auto simp: mapOk_Cons)

lemma leaves_from:
  "map_of (rev (map g (pre @ e # post))) (fst (g e)) = map_of (rev (map g (e # post))) (fst (g e))"
  by (auto simp: map_add_def split: option.splits)

lemma leaves_filter:
  "\<forall>e\<in>set v. \<not> P e \<longrightarrow> fst (g e) \<noteq> k \<Longrightarrow> map_of (rev (map g v)) k = map_of (rev (map g (filter P v))) k"
  by (induction v) (auto simp: map_add_def split: option.splits)

theorem zero_byte_hides_account:
  assumes "viewOk view" and "CHR 0x00 \<notin> set address" and "map_of view (address @ CHR 0x00 # rest) = Some b"
    and "accAddress a = address" and "accountValid a" and "amountOk (accBalance a)"
  shows "calculateAccountStateRoot sha (mapPut address a view) = calculateAccountStateRoot sha view"
proof -
  let ?g = "\<lambda>e. (accountBits sha (accAddress (snd e)), accountLeaf sha (snd e))"
  let ?hidden = "(address @ CHR 0x00 # rest, b)" and ?view = "mapPut address a view"
  have ok: "viewOk ?view" using viewOk_put [OF assms(1,5,6)] assms(4) by simp
  have maps: "mapOk view" using assms(1) by (simp add: viewOk_def)
  have addresses: "accAddress (snd e) = fst e" if "e \<in> set view \<union> set ?view" for e
    using that viewOk_mem [OF assms(1), of "fst e" "snd e"] viewOk_mem [OF ok, of "fst e" "snd e"] by auto
  have "address < address @ CHR 0x00 # rest" by (rule less_append)
  with mapPut_before [OF maps map_of_SomeD [OF assms(3)]] obtain pre pre' post
    where split: "view = pre @ ?hidden # post" "?view = pre' @ ?hidden # post" by blast
  have key: "fst (?g ?hidden) = accountBits sha address"
    using addresses [of ?hidden] split(1) zero_byte_bits [OF assms(2)] by simp
  have "map_of (rev (map ?g ?view)) bits = map_of (rev (map ?g view)) bits" for bits
  proof (cases "bits = accountBits sha address")
    case True
    have "map_of (rev (map ?g v)) bits = map_of (rev (map ?g (?hidden # post))) bits" if "v = p @ ?hidden # post" for v p
      unfolding that True key [symmetric] by (rule leaves_from)
    from this [OF split(2)] this [OF split(1)] show ?thesis by (rule trans [OF _ sym])
  next
    case False
    have "\<forall>e\<in>set v. \<not> fst e \<noteq> address \<longrightarrow> fst (?g e) \<noteq> bits" if "set v \<subseteq> set view \<union> set ?view" for v
    proof (intro ballI impI)
      fix e
      assume "e \<in> set v" "\<not> fst e \<noteq> address"
      then have "accAddress (snd e) = address" using addresses that by auto
      then show "fst (?g e) \<noteq> bits" using False by simp
    qed
    from leaves_filter [OF this] have
      "map_of (rev (map ?g v)) bits = map_of (rev (map ?g (filter (\<lambda>e. fst e \<noteq> address) v))) bits"
      if "set v \<subseteq> set view \<union> set ?view" for v
      using that by blast
    from this [of view] this [of ?view] show ?thesis unfolding mapPut_others [OF maps] by simp
  qed
  moreover obtain t u where "buildAccountStateTree sha view = Inr t" "smtOk sha SMT_DEPTH t"
      "buildAccountStateTree sha ?view = Inr u" "smtOk sha SMT_DEPTH u"
    and "\<And>bits. length bits = SMT_DEPTH \<Longrightarrow> leafAt sha t bits =
       (case map_of (rev (map ?g view)) bits of None \<Rightarrow> defaultHash sha 0 | Some v \<Rightarrow> v)"
    and "\<And>bits. length bits = SMT_DEPTH \<Longrightarrow> leafAt sha u bits =
       (case map_of (rev (map ?g ?view)) bits of None \<Rightarrow> defaultHash sha 0 | Some v \<Rightarrow> v)"
    using account_tree [of sha view] account_tree [of sha ?view] by blast
  ultimately have "buildAccountStateTree sha view = Inr t" "buildAccountStateTree sha ?view = Inr u"
      "getNodeHash sha t SMT_DEPTH = getNodeHash sha u SMT_DEPTH"
    using root_from_leaves [of sha SMT_DEPTH t u] by simp_all
  then show ?thesis
    using assms(1) ok by (simp add: calculateAccountStateRoot_def viewOk_def smtRoot_def)
qed

subsection \<open>Inclusion proofs\<close>

fun stepStrings :: "sha256 \<Rightarrow> MerkleProofStep list \<Rightarrow> string \<Rightarrow> string list" where
  "stepStrings sha [] h = []"
| "stepStrings sha (s # ss) h =
     (let c = foldr (proofUp sha) ss h
      in (if siblingIsLeft s then nodeInput (siblingHash s) c else nodeInput c (siblingHash s)) # stepStrings sha ss h)"

lemma length_proofUp: "length h = 64 \<Longrightarrow> length (foldr (proofUp sha) ss h) = 64"
  by (cases ss) (simp_all add: proofUp_def)

lemma nodeInput_cut:
  "length x = 64 \<Longrightarrow> length y' = 64 \<Longrightarrow> nodeInput s x = nodeInput x' y' \<Longrightarrow> x = y'"
  "length x = 64 \<Longrightarrow> length x' = 64 \<Longrightarrow> nodeInput x s = nodeInput x' y' \<Longrightarrow> x = x'"
  by (auto simp: nodeInput_def)

lemma proof_binds:
  assumes "smtOk sha (length steps) n" and "length h = 64"
    and "foldr (proofUp sha) steps h = getNodeHash sha n (length steps)"
  shows "h = leafAt sha n (map siblingIsLeft steps) \<or>
         collides sha (stepStrings sha steps h) (smtInputs sha (length steps) n)"
  using assms
proof (induction steps arbitrary: n)
  case Nil
  then show ?case by (simp add: leafAt_def)
next
  case (Cons s ss)
  let ?c = "foldr (proofUp sha) ss h" and ?b = "siblingIsLeft s" and ?k = "length ss"
  let ?in = "if ?b then nodeInput (siblingHash s) ?c else nodeInput ?c (siblingHash s)"
  let ?node = "nodeInput (getNodeHash sha (smtChild False n) ?k) (getNodeHash sha (smtChild True n) ?k)"
  have ok: "smtOk sha ?k (smtChild b n)" for b using Cons.prems(1) smtOk_child by auto
  have eq: "sha ?in = sha ?node"
    using Cons.prems(1,3) node_hash [of sha ?k n] by (auto simp: proofUp_def [of sha s] hashNode_def split: if_splits)
  show ?case
  proof (cases "?in = ?node")
    case True
    then have "?c = getNodeHash sha (smtChild ?b n) ?k"
      using smtOk_length [OF ok] length_proofUp [OF Cons.prems(2)]
      by (cases ?b) (auto intro: nodeInput_cut)
    from Cons.IH [OF ok Cons.prems(2) this] show ?thesis
      using collides_mono [OF _ _ smtInputs_child] by (auto simp: Let_def subset_insertI)
  next
    case False
    then show ?thesis using eq smtInputs_node [of sha n ?k] by (auto simp: collides_def Let_def)
  qed
qed

lemma proof_complete:
  assumes "viewOk view" and "buildAccountStateTree sha view = Inr t" and "smtOk sha SMT_DEPTH t"
    and "map_of view address = Some a"
    and only: "\<And>k a. (k, a) \<in> set view \<Longrightarrow> accountBits sha k = accountBits sha address \<Longrightarrow> k = address"
  shows "\<exists>p. accountInclusionProof sha view address = Inr p \<and> proofLeafHash p = accountLeaf sha a \<and>
             merkleProofVerify sha p (smtRoot sha t)"
proof -
  let ?bits = "accountBits sha address"
  have leaf: "leafAt sha t ?bits = accountLeaf sha a" using account_leaf [OF assms(1,2) only] assms(4) by simp
  have bits: "hexToBits (accountSmtKey sha address) = Inr ?bits"
    using hexToBits_key [OF hash_isKey] by (simp add: accountSmtKey_def)
  have "address \<noteq> []" using viewOk_mem [OF assms(1) map_of_SomeD [OF assms(4)]] viewOk_entry(2) [OF assms(1,4)]
    by (auto simp: accountValid_def)
  then have "accountInclusionProof sha view address =
      Inr \<lparr>proofLeafHash = leafAt sha t ?bits, proofSteps = rev (collectProofSteps sha t ?bits)\<rparr>"
    using assms(1,2,4) bits
    by (simp add: accountInclusionProof_def viewOk_def hasAccount_def generateProof_def leafAt_def getNodeHash_def)
  moreover have "foldr (proofUp sha) (collectProofSteps sha t ?bits) (leafAt sha t ?bits) = smtRoot sha t"
    using proof_reconstructs [of sha ?bits t] assms(3) by (simp add: smtRoot_def)
  moreover have "accountLeaf sha a \<noteq> []" using length_hashLeaf [of sha "accountLeafPayload a"] by fastforce
  ultimately show ?thesis
    using leaf by (simp add: merkleProofVerify_def reconstructRoot_def foldr_conv_fold)
qed

lemma proof_sound:
  assumes ok: "viewOk view" and tree: "buildAccountStateTree sha view = Inr t" "smtOk sha SMT_DEPTH t"
    and verified: "merkleProofVerify sha p (smtRoot sha t)"
    and path: "map siblingIsLeft (rev (proofSteps p)) = accountBits sha address"
    and leaf: "proofLeafHash p = accountLeaf sha a" "0 \<le> rawUnits (accBalance a)"
    and only: "\<And>k a. (k, a) \<in> set view \<Longrightarrow> accountBits sha k = accountBits sha address \<Longrightarrow> k = address"
    and free: "\<not> collides sha xs xs"
    and strings: "set (stepStrings sha (rev (proofSteps p)) (proofLeafHash p)) \<subseteq> set xs"
      "''NODO_MERKLE_LEAF:'' @ accountLeafPayload a \<in> set xs" "set (accountInputs sha view) \<subseteq> set xs"
  shows "map_of view address = Some a"
proof -
  let ?steps = "rev (proofSteps p)" and ?pre = "\<lambda>a. ''NODO_MERKLE_LEAF:'' @ accountLeafPayload a"
  have "length ?steps = SMT_DEPTH" using arg_cong [OF path, of length] by simp
  moreover have "foldr (proofUp sha) ?steps (proofLeafHash p) = smtRoot sha t"
    using verified by (simp add: merkleProofVerify_def reconstructRoot_def foldr_conv_fold)
  ultimately have "proofLeafHash p = leafAt sha t (accountBits sha address) \<or>
      collides sha (stepStrings sha ?steps (proofLeafHash p)) (smtInputs sha SMT_DEPTH t)"
    using proof_binds [of sha ?steps t "proofLeafHash p"] path leaf(1) tree(2) by (simp add: smtRoot_def)
  then have at: "accountLeaf sha a = (case map_of view address of None \<Rightarrow> defaultHash sha 0 | Some b \<Rightarrow> accountLeaf sha b)"
    using account_leaf [OF ok tree(1) only] leaf(1) free
      collides_mono [OF _ strings(1) order_trans [OF accountInputs_mem(4) [OF tree(1)] strings(3)]] by auto
  note no = collisionD [OF free _ _ ]
  show ?thesis
  proof (cases "map_of view address")
    case None
    then have "sha (?pre a) = sha []" using at by (simp add: hashLeaf_def)
    then have "?pre a = []" by (rule no [rotated 2]) (use strings accountInputs_mem(1) in auto)
    then show ?thesis by simp
  next
    case (Some b)
    have mem: "(address, b) \<in> set view" using Some by (rule map_of_SomeD)
    have "sha (?pre a) = sha (?pre b)" using at Some by (simp add: hashLeaf_def)
    then have "?pre a = ?pre b" by (rule no [rotated 2]) (use strings accountInputs_mem(3) [OF mem] in auto)
    then have "a = b" using leaf(2) viewOk_mem [OF ok mem] by (intro leafPayload_inj) auto
    then show ?thesis using Some by simp
  qed
qed

definition proofInputs :: "sha256 \<Rightarrow> AccountStateView \<Rightarrow> string \<Rightarrow> AccountState \<Rightarrow> MerkleProof \<Rightarrow> string list" where
  "proofInputs sha view address a p =
     address # (''NODO_MERKLE_LEAF:'' @ accountLeafPayload a) #
       stepStrings sha (rev (proofSteps p)) (proofLeafHash p) @ accountInputs sha view"

text \<open>
  Inclusion proofs are complete and sound. For every account of a view the generated proof carries
  the leaf of that account and verifies against the root. A proof that verifies against the root,
  follows the path of the address and carries the leaf of an account can only be for the account the
  view holds. Both up to a collision among the strings that were hashed.
\<close>

theorem inclusion_proof_exact:
  assumes "viewOk view" and "plainAddresses view" and "CHR 0x00 \<notin> set address"
    and "calculateAccountStateRoot sha view = Inr root" and "0 \<le> rawUnits (accBalance a)"
  shows "(map_of view address = Some a \<longrightarrow>
            (\<exists>p. accountInclusionProof sha view address = Inr p \<and> proofLeafHash p = accountLeaf sha a \<and>
                 merkleProofVerify sha p root)
            \<or> collides sha (accountInputs sha view) (accountInputs sha view)) \<and>
         (\<forall>p. merkleProofVerify sha p root \<and> map siblingIsLeft (rev (proofSteps p)) = accountBits sha address \<and>
              proofLeafHash p = accountLeaf sha a \<longrightarrow>
              map_of view address = Some a \<or> collides sha (proofInputs sha view address a p) (proofInputs sha view address a p))"
proof -
  obtain t where t: "buildAccountStateTree sha view = Inr t" "smtOk sha SMT_DEPTH t" using account_tree by blast
  have root: "root = smtRoot sha t" using assms(1,4) t(1) by (simp add: calculateAccountStateRoot_def viewOk_def)
  have only: "k = address" if "\<not> collides sha ys ys" "address \<in> set ys" "set (accountInputs sha view) \<subseteq> set ys"
      "(k, b) \<in> set view" "accountBits sha k = accountBits sha address" for ys k b
  proof (rule collisionD [OF that(1)])
    show "sha k = sha address"
      using account_bits_eq [OF that(5) _ assms(3)] that(4) assms(2) by (auto simp: list_all_iff)
  qed (use that accountInputs_mem(2) in blast)+
  have complete: "(\<exists>p. accountInclusionProof sha view address = Inr p \<and> proofLeafHash p = accountLeaf sha a \<and>
             merkleProofVerify sha p root) \<or> collides sha (accountInputs sha view) (accountInputs sha view)"
    if a: "map_of view address = Some a"
    using proof_complete [OF assms(1) t a] only accountInputs_mem(2) [OF map_of_SomeD [OF a]] root by blast
  have sound: "map_of view address = Some a"
    if "merkleProofVerify sha p root" "map siblingIsLeft (rev (proofSteps p)) = accountBits sha address"
      "proofLeafHash p = accountLeaf sha a"
      and free: "\<not> collides sha (proofInputs sha view address a p) (proofInputs sha view address a p)" for p
  proof -
    have sub: "address \<in> set (proofInputs sha view address a p)"
        "set (accountInputs sha view) \<subseteq> set (proofInputs sha view address a p)"
      by (auto simp: proofInputs_def)
    show ?thesis
      by (rule proof_sound [OF assms(1) t that(1) [unfolded root] that(2,3) assms(5) only [OF free sub] free])
        (auto simp: proofInputs_def)
  qed
  show ?thesis using complete sound by blast
qed

subsection \<open>State roots are computed\<close>

lemma account_root_total: "viewOk v \<Longrightarrow> \<exists>root. calculateAccountStateRoot sha v = Inr root \<and> length root = 64"
  using account_tree [of sha v]
  by (auto simp: calculateAccountStateRoot_def viewOk_def smtRoot_def dest: smtOk_length)

definition smallDomains :: "(string, string) smap \<Rightarrow> bool" where
  "smallDomains domains \<longleftrightarrow>
     list_all (\<lambda>(d, p). d \<noteq> [] \<and> d \<noteq> ''accounts'' \<and> p \<noteq> [] \<and> length d \<le> U32_MAX \<and> length p \<le> U32_MAX) domains"

lemma domainLeaf_small: "length d \<le> U32_MAX \<Longrightarrow> length p \<le> U32_MAX \<Longrightarrow> \<exists>l. domainLeaf d p = Inr l"
  by (simp add: domainLeaf_def writeString_def writeField_def U32_MAX_def)

lemma domainLeaves_small: "smallDomains ds \<Longrightarrow> \<exists>ls. domainLeaves ds = Inr (Some ls)"
proof (induction ds)
  case (Cons e ds)
  obtain d p where "e = (d, p)" by fastforce
  with Cons show ?case using domainLeaf_small [of d p] by (fastforce simp: smallDomains_def)
qed simp

lemma length_buildRoot: "length (buildRoot sha ps) = 64"
  by (simp add: buildRoot_def length_hashLayer list_all_iff)

lemma protocol_root_total:
  assumes "viewOk v" and "smallDomains domains"
  shows "\<exists>root. calculateProtocolStateRoot sha v domains = Inr root \<and> length root = 64"
proof -
  obtain root where root: "calculateAccountStateRoot sha v = Inr root" "length root = 64"
    using account_root_total [OF assms(1)] by blast
  obtain ls where ls: "domainLeaves domains = Inr (Some ls)" using domainLeaves_small [OF assms(2)] by blast
  obtain l where l: "domainLeaf ''accounts'' root = Inr l"
    using domainLeaf_small [of "''accounts''" root] root(2) by (auto simp: U32_MAX_def)
  have "root \<noteq> []" using root(2) by auto
  then show ?thesis using root ls l length_buildRoot [of sha "l # ls"]
    by (simp add: calculateProtocolStateRoot_def)
qed

subsection \<open>Demonstrations\<close>

definition demoAccounts :: AccountStateView where
  "demoAccounts = [(''bob'', \<lparr>accAddress = ''bob'', accBalance = Amount 7, accNonce = 1\<rparr>)]"

lemma demoAccounts_ok: "viewOk demoAccounts" "plainAddresses demoAccounts"
  by (simp_all add: demoAccounts_def viewOk_def viewValid_def accountValid_def isNegative_def amountOk_def in_i64_def
      I64_MAX_def I64_MIN_def)

text \<open>A digest that maps everything to zero: every tree has the same root, and the theorem names a collision.\<close>

lemma constant_root:
  "viewOk v \<Longrightarrow> calculateAccountStateRoot (\<lambda>_. 0) v = Inr (nodo_hash_bytes (\<lambda>_. 0) [])"
proof -
  assume ok: "viewOk v"
  have hash: "nodo_hash_bytes (\<lambda>_. 0) s = nodo_hash_bytes (\<lambda>_. 0) []" for s by simp
  obtain t where t: "buildAccountStateTree (\<lambda>_. 0) v = Inr t" "smtOk (\<lambda>_. 0) SMT_DEPTH t" using account_tree by blast
  have depth: "SMT_DEPTH = Suc 255" by (simp add: SMT_DEPTH_def)
  have "smtRoot (\<lambda>_. 0) t = nodo_hash_bytes (\<lambda>_. 0) []"
    unfolding smtRoot_def depth node_hash [OF t(2) [unfolded depth]] hashNode_def by (rule hash)
  then show ?thesis using ok t(1) by (simp add: calculateAccountStateRoot_def viewOk_def)
qed

theorem account_root_binds_accounts_witness:
  "collides (\<lambda>_. 0) (accountInputs (\<lambda>_. 0) [] @ accountInputs (\<lambda>_. 0) demoAccounts)
     (accountInputs (\<lambda>_. 0) [] @ accountInputs (\<lambda>_. 0) demoAccounts)"
  using account_root_binds_accounts [OF viewOk_Nil demoAccounts_ok(1) _ demoAccounts_ok(2), of "\<lambda>_. 0"]
    constant_root [OF viewOk_Nil] constant_root [OF demoAccounts_ok(1)]
  by (simp add: demoAccounts_def)

theorem inclusion_proof_exact_witness:
  "\<exists>root. calculateAccountStateRoot demoSha demoAccounts = Inr root \<and>
     ((\<exists>p. accountInclusionProof demoSha demoAccounts ''bob'' = Inr p \<and> merkleProofVerify demoSha p root) \<or>
      collides demoSha (accountInputs demoSha demoAccounts) (accountInputs demoSha demoAccounts))"
proof -
  obtain t where "buildAccountStateTree demoSha demoAccounts = Inr t" using account_tree by blast
  then have root: "calculateAccountStateRoot demoSha demoAccounts = Inr (smtRoot demoSha t)"
    using demoAccounts_ok(1) by (simp add: calculateAccountStateRoot_def viewOk_def)
  let ?a = "\<lparr>accAddress = ''bob'', accBalance = Amount 7, accNonce = 1\<rparr>"
  have a: "map_of demoAccounts ''bob'' = Some ?a" by (simp add: demoAccounts_def)
  have "CHR 0x00 \<notin> set ''bob''" "0 \<le> rawUnits (accBalance ?a)" by simp_all
  from inclusion_proof_exact [OF demoAccounts_ok this(1) root this(2), THEN conjunct1, THEN mp, OF a]
  have "(\<exists>p. accountInclusionProof demoSha demoAccounts ''bob'' = Inr p \<and>
            merkleProofVerify demoSha p (smtRoot demoSha t)) \<or>
        collides demoSha (accountInputs demoSha demoAccounts) (accountInputs demoSha demoAccounts)"
    by (elim disjE exE conjE) blast+
  then show ?thesis using root by (intro exI conjI)
qed

definition hidingAccounts :: AccountStateView where
  "hidingAccounts = [([CHR ''b'', CHR 0x00], \<lparr>accAddress = [CHR ''b'', CHR 0x00], accBalance = Amount 1, accNonce = 0\<rparr>)]"

theorem zero_byte_hides_account_witness:
  "calculateAccountStateRoot demoSha
     (mapPut ''b'' \<lparr>accAddress = ''b'', accBalance = Amount 1000000, accNonce = 5\<rparr> hidingAccounts) =
   calculateAccountStateRoot demoSha hidingAccounts"
  by (rule zero_byte_hides_account [where rest = "[]"])
    (simp_all add: hidingAccounts_def viewOk_def viewValid_def accountValid_def isNegative_def amountOk_def in_i64_def
      I64_MAX_def I64_MIN_def)

end
