(* ===== verification/Messages.thy ===== *)
theory Messages
  imports Codec
begin

section \<open>Network messages and their canonical encoding\<close>

text \<open>
  The network envelope (\<open>src/p2p/NetworkEnvelope.cpp\<close>), the synchronisation messages
  (\<open>src/node/ChainSyncMessages.cpp\<close>) and their binary codec
  (\<open>src/serialization/ProtocolMessageCodec.cpp\<close>, \<open>CanonicalHash.cpp\<close>). The codec of block lists is
  left out: it embeds the text codec of blocks. Proved: the codecs are exact in both directions, and
  the payload hash does not cover what follows a zero byte.
\<close>

subsection \<open>Safe identifiers\<close>

definition isSafeIdentifier :: "nat \<Rightarrow> string \<Rightarrow> string \<Rightarrow> bool" where
  "isSafeIdentifier maximum extra value \<longleftrightarrow>
     value \<noteq> [] \<and> length value \<le> maximum \<and>
     list_all (\<lambda>c. (CHR ''a'' \<le> c \<and> c \<le> CHR ''z'') \<or> (CHR ''A'' \<le> c \<and> c \<le> CHR ''Z'') \<or>
                   (CHR ''0'' \<le> c \<and> c \<le> CHR ''9'') \<or> List.member extra c) value"

definition isSafeEnvelopeScalar :: "string \<Rightarrow> bool" where
  "isSafeEnvelopeScalar = isSafeIdentifier 160 ''_-.:/''"

definition isSafeSyncScalar :: "string \<Rightarrow> bool" where
  "isSafeSyncScalar = isSafeIdentifier 200 ''_-.:/''"

subsection \<open>Network envelopes\<close>

datatype NetworkMessageType =
    Msg_UNKNOWN | PING | PONG | PEER_CHALLENGE | PEER_HELLO | PEER_STATUS | PEER_EXCHANGE
  | TRANSACTION_ANNOUNCE | TRANSACTION_REQUEST | TRANSACTION_RESPONSE | TRANSACTION_GOSSIP
  | BLOCK_ANNOUNCE | BLOCK_REQUEST | BLOCK_RESPONSE | BLOCK_PROPOSAL | VOTE_ANNOUNCE
  | Msg_VALIDATOR_VOTE | QUORUM_CERTIFICATE_ANNOUNCE | Msg_QUORUM_CERTIFICATE
  | FINALIZED_BLOCK_ARTIFACT | CHAIN_STATUS | BLOCK_SYNC_REQUEST | BLOCK_SYNC_RESPONSE
  | SLASHING_EVIDENCE_ANNOUNCE | SLASHING_EVIDENCE_INVENTORY | SLASHING_EVIDENCE_REQUEST
  | SLASHING_EVIDENCE_RESPONSE

fun networkMessageTypeToString :: "NetworkMessageType \<Rightarrow> string" where
  "networkMessageTypeToString Msg_UNKNOWN = ''UNKNOWN''"
| "networkMessageTypeToString PING = ''PING''"
| "networkMessageTypeToString PONG = ''PONG''"
| "networkMessageTypeToString PEER_CHALLENGE = ''PEER_CHALLENGE''"
| "networkMessageTypeToString PEER_HELLO = ''PEER_HELLO''"
| "networkMessageTypeToString PEER_STATUS = ''PEER_STATUS''"
| "networkMessageTypeToString PEER_EXCHANGE = ''PEER_EXCHANGE''"
| "networkMessageTypeToString TRANSACTION_ANNOUNCE = ''TRANSACTION_ANNOUNCE''"
| "networkMessageTypeToString TRANSACTION_REQUEST = ''TRANSACTION_REQUEST''"
| "networkMessageTypeToString TRANSACTION_RESPONSE = ''TRANSACTION_RESPONSE''"
| "networkMessageTypeToString TRANSACTION_GOSSIP = ''TRANSACTION_GOSSIP''"
| "networkMessageTypeToString BLOCK_ANNOUNCE = ''BLOCK_ANNOUNCE''"
| "networkMessageTypeToString BLOCK_REQUEST = ''BLOCK_REQUEST''"
| "networkMessageTypeToString BLOCK_RESPONSE = ''BLOCK_RESPONSE''"
| "networkMessageTypeToString BLOCK_PROPOSAL = ''BLOCK_PROPOSAL''"
| "networkMessageTypeToString VOTE_ANNOUNCE = ''VOTE_ANNOUNCE''"
| "networkMessageTypeToString Msg_VALIDATOR_VOTE = ''VALIDATOR_VOTE''"
| "networkMessageTypeToString QUORUM_CERTIFICATE_ANNOUNCE = ''QUORUM_CERTIFICATE_ANNOUNCE''"
| "networkMessageTypeToString Msg_QUORUM_CERTIFICATE = ''QUORUM_CERTIFICATE''"
| "networkMessageTypeToString FINALIZED_BLOCK_ARTIFACT = ''FINALIZED_BLOCK_ARTIFACT''"
| "networkMessageTypeToString CHAIN_STATUS = ''CHAIN_STATUS''"
| "networkMessageTypeToString BLOCK_SYNC_REQUEST = ''BLOCK_SYNC_REQUEST''"
| "networkMessageTypeToString BLOCK_SYNC_RESPONSE = ''BLOCK_SYNC_RESPONSE''"
| "networkMessageTypeToString SLASHING_EVIDENCE_ANNOUNCE = ''SLASHING_EVIDENCE_ANNOUNCE''"
| "networkMessageTypeToString SLASHING_EVIDENCE_INVENTORY = ''SLASHING_EVIDENCE_INVENTORY''"
| "networkMessageTypeToString SLASHING_EVIDENCE_REQUEST = ''SLASHING_EVIDENCE_REQUEST''"
| "networkMessageTypeToString SLASHING_EVIDENCE_RESPONSE = ''SLASHING_EVIDENCE_RESPONSE''"

text \<open>The enumerators in the order of their declaration, \<open>UNKNOWN\<close> first.\<close>

definition allMessageTypes :: "NetworkMessageType list" where
  "allMessageTypes =
    [Msg_UNKNOWN, PING, PONG, PEER_CHALLENGE, PEER_HELLO, PEER_STATUS, PEER_EXCHANGE,
     TRANSACTION_ANNOUNCE, TRANSACTION_REQUEST, TRANSACTION_RESPONSE, TRANSACTION_GOSSIP,
     BLOCK_ANNOUNCE, BLOCK_REQUEST, BLOCK_RESPONSE, BLOCK_PROPOSAL, VOTE_ANNOUNCE,
     Msg_VALIDATOR_VOTE, QUORUM_CERTIFICATE_ANNOUNCE, Msg_QUORUM_CERTIFICATE,
     FINALIZED_BLOCK_ARTIFACT, CHAIN_STATUS, BLOCK_SYNC_REQUEST, BLOCK_SYNC_RESPONSE,
     SLASHING_EVIDENCE_ANNOUNCE, SLASHING_EVIDENCE_INVENTORY, SLASHING_EVIDENCE_REQUEST,
     SLASHING_EVIDENCE_RESPONSE]"

definition networkMessageTypeFromString :: "string \<Rightarrow> NetworkMessageType" where
  "networkMessageTypeFromString value =
     (case find (\<lambda>t. networkMessageTypeToString t = value) (tl allMessageTypes) of
        Some t \<Rightarrow> t | None \<Rightarrow> Msg_UNKNOWN)"

fun positionOf :: "'a \<Rightarrow> 'a list \<Rightarrow> nat" where
  "positionOf x [] = 0"
| "positionOf x (y # ys) = (if x = y then 0 else Suc (positionOf x ys))"

definition encodeMessageType :: "NetworkMessageType \<Rightarrow> u32" where
  "encodeMessageType t = word_of_nat (positionOf t allMessageTypes)"

definition decodeMessageType :: "u32 \<Rightarrow> NetworkMessageType" where
  "decodeMessageType value =
     (if encodeMessageType SLASHING_EVIDENCE_RESPONSE < value then Msg_UNKNOWN else allMessageTypes ! unat value)"

record NetworkEnvelope =
  envNetworkId :: string
  envChainId :: string
  envProtocolVersion :: string
  envMessageType :: NetworkMessageType
  envMessageId :: string
  envSenderNodeId :: string
  envCreatedAt :: int
  envTtlSeconds :: u32
  envPayload :: string
  envPayloadHash :: string

definition hashPayload :: "sha256 \<Rightarrow> string \<Rightarrow> string" where
  "hashPayload sha payload = hashCString sha (''NODO_NETWORK_PAYLOAD_V1|'' @ payload)"

definition envelopeSigningPayload :: "NetworkEnvelope \<Rightarrow> string" where
  "envelopeSigningPayload e =
     ''NodoNetworkEnvelopeSigningPayload{networkId='' @ envNetworkId e @
     '';chainId='' @ envChainId e @ '';protocolVersion='' @ envProtocolVersion e @
     '';messageType='' @ networkMessageTypeToString (envMessageType e) @
     '';senderNodeId='' @ envSenderNodeId e @ '';createdAt='' @ showI64 (envCreatedAt e) @
     '';ttlSeconds='' @ showNum (uint (envTtlSeconds e)) @ '';payloadHash='' @ envPayloadHash e @ ''}''"

definition computeMessageId :: "sha256 \<Rightarrow> NetworkEnvelope \<Rightarrow> string" where
  "computeMessageId sha e = hashCString sha (envelopeSigningPayload e)"

definition newEnvelope :: "sha256 \<Rightarrow> string \<Rightarrow> string \<Rightarrow> string \<Rightarrow> NetworkMessageType \<Rightarrow> string \<Rightarrow> int \<Rightarrow> u32 \<Rightarrow> string
    \<Rightarrow> NetworkEnvelope" where
  "newEnvelope sha networkId chainId protocolVersion messageType senderNodeId createdAt ttlSeconds payload =
     (let e = \<lparr>envNetworkId = networkId, envChainId = chainId, envProtocolVersion = protocolVersion,
               envMessageType = messageType, envMessageId = [], envSenderNodeId = senderNodeId,
               envCreatedAt = createdAt, envTtlSeconds = ttlSeconds, envPayload = payload,
               envPayloadHash = hashPayload sha payload\<rparr>
      in e\<lparr>envMessageId := computeMessageId sha e\<rparr>)"

definition envExpiredAt :: "NetworkEnvelope \<Rightarrow> int \<Rightarrow> bool" where
  "envExpiredAt e now \<longleftrightarrow>
     (if now \<le> 0 \<or> envCreatedAt e \<le> 0 then True
      else now > envCreatedAt e \<and> now - envCreatedAt e > uint (envTtlSeconds e))"

definition payloadHashMatches :: "sha256 \<Rightarrow> NetworkEnvelope \<Rightarrow> bool" where
  "payloadHashMatches sha e \<longleftrightarrow> envPayloadHash e = hashPayload sha (envPayload e)"

definition envStructurallyValid :: "sha256 \<Rightarrow> nat \<Rightarrow> NetworkEnvelope \<Rightarrow> bool" where
  "envStructurallyValid sha maxPayloadBytes e \<longleftrightarrow>
     isSafeEnvelopeScalar (envNetworkId e) \<and> isSafeEnvelopeScalar (envChainId e) \<and>
     isSafeEnvelopeScalar (envProtocolVersion e) \<and> isSafeEnvelopeScalar (envSenderNodeId e) \<and>
     envMessageType e \<noteq> Msg_UNKNOWN \<and> envMessageId e = computeMessageId sha e \<and>
     envCreatedAt e > 0 \<and> envTtlSeconds e > 0 \<and> length (envPayload e) \<le> maxPayloadBytes \<and>
     payloadHashMatches sha e"

definition envSerialize :: "NetworkEnvelope \<Rightarrow> string" where
  "envSerialize e =
     ''NetworkEnvelope{messageId='' @ envMessageId e @ '';networkId='' @ envNetworkId e @
     '';chainId='' @ envChainId e @ '';protocolVersion='' @ envProtocolVersion e @
     '';messageType='' @ networkMessageTypeToString (envMessageType e) @
     '';senderNodeId='' @ envSenderNodeId e @ '';createdAt='' @ showI64 (envCreatedAt e) @
     '';ttlSeconds='' @ showNum (uint (envTtlSeconds e)) @ '';payloadHash='' @ envPayloadHash e @
     '';payload='' @ envPayload e @ ''}''"

subsection \<open>Chain synchronisation messages\<close>

record ChainStatusMessage =
  csNetworkId :: string
  csChainId :: string
  csProtocolVersion :: string
  csLatestHeight :: u64
  csLatestBlockHash :: string
  csFinalizedHeight :: u64
  csFinalizedBlockHash :: string

definition chainStatusValid :: "ChainStatusMessage \<Rightarrow> bool" where
  "chainStatusValid c \<longleftrightarrow>
     isSafeSyncScalar (csNetworkId c) \<and> isSafeSyncScalar (csChainId c) \<and> isSafeSyncScalar (csProtocolVersion c) \<and>
     isSafeSyncScalar (csLatestBlockHash c) \<and> isSafeSyncScalar (csFinalizedBlockHash c) \<and>
     csFinalizedHeight c \<le> csLatestHeight c"

definition peerIsAheadOf :: "ChainStatusMessage \<Rightarrow> u64 \<Rightarrow> bool" where
  "peerIsAheadOf c localHeight \<longleftrightarrow> chainStatusValid c \<and> csLatestHeight c > localHeight"

definition chainStatusSerialize :: "ChainStatusMessage \<Rightarrow> string" where
  "chainStatusSerialize c =
     ''ChainStatusMessage{networkId='' @ csNetworkId c @ '';chainId='' @ csChainId c @
     '';protocolVersion='' @ csProtocolVersion c @ '';latestHeight='' @ showU64 (csLatestHeight c) @
     '';latestBlockHash='' @ csLatestBlockHash c @ '';finalizedHeight='' @ showU64 (csFinalizedHeight c) @
     '';finalizedBlockHash='' @ csFinalizedBlockHash c @ ''}''"

record BlockLocator =
  locFromHeight :: u64
  locMaxBlocks :: u64
  locHashes :: "string list"

definition MAX_KNOWN_ANCESTOR_HASHES :: nat where
  "MAX_KNOWN_ANCESTOR_HASHES = 64"

definition locatorValid :: "BlockLocator \<Rightarrow> bool" where
  "locatorValid l \<longleftrightarrow>
     \<not> (locMaxBlocks l = 0 \<or> locMaxBlocks l > 1024 \<or> locHashes l = [] \<or>
        length (locHashes l) > MAX_KNOWN_ANCESTOR_HASHES) \<and>
     list_all isSafeSyncScalar (locHashes l)"

definition locatorSerialize :: "BlockLocator \<Rightarrow> string" where
  "locatorSerialize l =
     ''BlockLocator{fromHeight='' @ showU64 (locFromHeight l) @ '';maxBlocks='' @ showU64 (locMaxBlocks l) @
     '';knownAncestorHashes=['' @ joinWith '','' (locHashes l) @ '']}''"

record NetworkBlockSyncRequest =
  reqRequester :: string
  reqLocator :: BlockLocator
  reqCreatedAt :: int

definition syncRequestValid :: "NetworkBlockSyncRequest \<Rightarrow> bool" where
  "syncRequestValid q \<longleftrightarrow> isSafeSyncScalar (reqRequester q) \<and> locatorValid (reqLocator q) \<and> reqCreatedAt q > 0"

definition syncRequestSerialize :: "NetworkBlockSyncRequest \<Rightarrow> string" where
  "syncRequestSerialize q =
     ''NetworkBlockSyncRequest{requesterNodeId='' @ reqRequester q @ '';locator='' @ locatorSerialize (reqLocator q) @
     '';createdAt='' @ showI64 (reqCreatedAt q) @ ''}''"

record RoundAdvanceMessage =
  raHeight :: u64
  raRound :: u64
  raProposer :: string
  raCreatedAt :: int

definition roundAdvanceValid :: "RoundAdvanceMessage \<Rightarrow> bool" where
  "roundAdvanceValid a \<longleftrightarrow> raHeight a > 0 \<and> raRound a > 0 \<and> isSafeSyncScalar (raProposer a) \<and> raCreatedAt a > 0"

definition roundAdvanceSerialize :: "RoundAdvanceMessage \<Rightarrow> string" where
  "roundAdvanceSerialize a =
     ''RoundAdvanceMessage{height='' @ showU64 (raHeight a) @ '';round='' @ showU64 (raRound a) @
     '';proposerAddress='' @ raProposer a @ '';createdAt='' @ showI64 (raCreatedAt a) @ ''}''"

subsection \<open>The protocol message codec\<close>

text \<open>
  A writer is the list of its writes; \<open>writeAll\<close> runs them and throws at the first that throws.
\<close>

fun writeAll :: "string result list \<Rightarrow> string result" where
  "writeAll [] = Inr []"
| "writeAll (w # ws) = bindR w (\<lambda>b. bindR (writeAll ws) (\<lambda>bs. Inr (b @ bs)))"

definition CODEC_VERSION :: string where
  "CODEC_VERSION = ''NODO_CANONICAL_PROTOCOL_V1''"

definition MAX_PROTOCOL_FIELD_BYTES :: nat where
  "MAX_PROTOCOL_FIELD_BYTES = 16 * 1024 * 1024"

definition writeHeader :: "string \<Rightarrow> string result list" where
  "writeHeader typeName = [writeString CODEC_VERSION, writeString typeName]"

definition readHeader :: "string \<Rightarrow> unit reader" where
  "readHeader expectedType =
     readThen readString (\<lambda>version. readThen readString (\<lambda>type.
       if version \<noteq> CODEC_VERSION then throws (RuntimeError ''Unsupported canonical protocol codec version.'')
       else if type \<noteq> expectedType then throws (RuntimeError ''Unexpected canonical protocol message type.'')
       else returns ()))"

definition decodeWith :: "'a reader \<Rightarrow> string \<Rightarrow> 'a result" where
  "decodeWith p bytes = bindR (newReader bytes MAX_PROTOCOL_FIELD_BYTES) (\<lambda>r. bindR (p r) (\<lambda>(x, _). Inr x))"

definition encodeNetworkEnvelope :: "NetworkEnvelope \<Rightarrow> string result" where
  "encodeNetworkEnvelope e = writeAll (writeHeader ''NetworkEnvelope'' @
     [writeString (envNetworkId e), writeString (envChainId e), writeString (envProtocolVersion e),
      Inr (writeUInt32 (encodeMessageType (envMessageType e))), writeString (envSenderNodeId e),
      Inr (writeInt64 (envCreatedAt e)), Inr (writeUInt32 (envTtlSeconds e)), writeString (envPayload e)])"

definition decodeNetworkEnvelope :: "sha256 \<Rightarrow> string \<Rightarrow> NetworkEnvelope result" where
  "decodeNetworkEnvelope sha = decodeWith (
     readThen (readHeader ''NetworkEnvelope'') (\<lambda>_.
     readThen readString (\<lambda>networkId. readThen readString (\<lambda>chainId. readThen readString (\<lambda>protocolVersion.
     readThen readUInt32 (\<lambda>messageType. readThen readString (\<lambda>senderNodeId. readThen readInt64 (\<lambda>createdAt.
     readThen readUInt32 (\<lambda>ttlSeconds. readThen readString (\<lambda>payload.
     readThen requireFullyConsumed (\<lambda>_.
       returns (newEnvelope sha networkId chainId protocolVersion (decodeMessageType messageType) senderNodeId
         createdAt ttlSeconds payload))))))))))))"

definition encodeChainStatusMessage :: "ChainStatusMessage \<Rightarrow> string result" where
  "encodeChainStatusMessage c = writeAll (writeHeader ''ChainStatusMessage'' @
     [writeString (csNetworkId c), writeString (csChainId c), writeString (csProtocolVersion c),
      Inr (writeUInt64 (csLatestHeight c)), writeString (csLatestBlockHash c),
      Inr (writeUInt64 (csFinalizedHeight c)), writeString (csFinalizedBlockHash c)])"

definition decodeChainStatusMessage :: "string \<Rightarrow> ChainStatusMessage result" where
  "decodeChainStatusMessage = decodeWith (
     readThen (readHeader ''ChainStatusMessage'') (\<lambda>_.
     readThen readString (\<lambda>networkId. readThen readString (\<lambda>chainId. readThen readString (\<lambda>protocolVersion.
     readThen readUInt64 (\<lambda>latestHeight. readThen readString (\<lambda>latestBlockHash.
     readThen readUInt64 (\<lambda>finalizedHeight. readThen readString (\<lambda>finalizedBlockHash.
     readThen requireFullyConsumed (\<lambda>_.
       returns \<lparr>csNetworkId = networkId, csChainId = chainId, csProtocolVersion = protocolVersion,
                csLatestHeight = latestHeight, csLatestBlockHash = latestBlockHash,
                csFinalizedHeight = finalizedHeight, csFinalizedBlockHash = finalizedBlockHash\<rparr>))))))))))"

definition encodeBlockLocator :: "BlockLocator \<Rightarrow> string result" where
  "encodeBlockLocator l =
     (if \<not> locatorValid l then Inl (InvalidArgument ''Invalid block locator rejected by canonical codec.'')
      else writeAll (writeHeader ''BlockLocator'' @
        [Inr (writeUInt64 (locFromHeight l)), Inr (writeUInt64 (locMaxBlocks l)),
         Inr (writeUInt32 (word_of_nat (length (locHashes l))))] @ map writeString (locHashes l)))"

fun readStrings :: "nat \<Rightarrow> string list reader" where
  "readStrings 0 = returns []"
| "readStrings (Suc n) = readThen readString (\<lambda>s. readThen (readStrings n) (\<lambda>ss. returns (s # ss)))"

definition decodeBlockLocator :: "string \<Rightarrow> BlockLocator result" where
  "decodeBlockLocator = decodeWith (
     readThen (readHeader ''BlockLocator'') (\<lambda>_.
     readThen readUInt64 (\<lambda>fromHeight. readThen readUInt64 (\<lambda>maxBlocks. readThen readUInt32 (\<lambda>hashCount.
       if hashCount = 0 \<or> unat hashCount > MAX_KNOWN_ANCESTOR_HASHES
       then throws (LengthError ''Canonical block locator hash count is invalid.'')
       else readThen (readStrings (unat hashCount)) (\<lambda>hashes.
         readThen requireFullyConsumed (\<lambda>_.
           let l = \<lparr>locFromHeight = fromHeight, locMaxBlocks = maxBlocks, locHashes = hashes\<rparr> in
           if \<not> locatorValid l then throws (RuntimeError ''Decoded canonical block locator is invalid.'')
           else returns l)))))))"

definition encodeNetworkBlockSyncRequest :: "NetworkBlockSyncRequest \<Rightarrow> string result" where
  "encodeNetworkBlockSyncRequest q = writeAll (writeHeader ''NetworkBlockSyncRequest'' @
     [writeString (reqRequester q), bindR (encodeBlockLocator (reqLocator q)) writeBytes,
      Inr (writeInt64 (reqCreatedAt q))])"

definition decodeNetworkBlockSyncRequest :: "string \<Rightarrow> NetworkBlockSyncRequest result" where
  "decodeNetworkBlockSyncRequest = decodeWith (
     readThen (readHeader ''NetworkBlockSyncRequest'') (\<lambda>_.
     readThen readString (\<lambda>requester. readThen readBytes (\<lambda>bytes.
       case decodeBlockLocator bytes of
         Inl e \<Rightarrow> throws e
       | Inr locator \<Rightarrow>
           readThen readInt64 (\<lambda>createdAt. readThen requireFullyConsumed (\<lambda>_.
             returns \<lparr>reqRequester = requester, reqLocator = locator, reqCreatedAt = createdAt\<rparr>))))))"

definition encodeRoundAdvanceMessage :: "RoundAdvanceMessage \<Rightarrow> string result" where
  "encodeRoundAdvanceMessage a =
     (if \<not> roundAdvanceValid a then Inl (InvalidArgument ''Invalid round advance message rejected by canonical codec.'')
      else writeAll (writeHeader ''RoundAdvanceMessage'' @
        [Inr (writeUInt64 (raHeight a)), Inr (writeUInt64 (raRound a)), writeString (raProposer a),
         Inr (writeInt64 (raCreatedAt a))]))"

definition decodeRoundAdvanceMessage :: "string \<Rightarrow> RoundAdvanceMessage result" where
  "decodeRoundAdvanceMessage = decodeWith (
     readThen (readHeader ''RoundAdvanceMessage'') (\<lambda>_.
     readThen readUInt64 (\<lambda>height. readThen readUInt64 (\<lambda>round. readThen readString (\<lambda>proposer.
     readThen readInt64 (\<lambda>createdAt. readThen requireFullyConsumed (\<lambda>_.
       let a = \<lparr>raHeight = height, raRound = round, raProposer = proposer, raCreatedAt = createdAt\<rparr> in
       if \<not> roundAdvanceValid a then throws (RuntimeError ''Canonical round advance message is invalid.'')
       else returns a)))))))"

definition hashCanonical :: "sha256 \<Rightarrow> string \<Rightarrow> string \<Rightarrow> string result" where
  "hashCanonical sha bytes domain =
     bindR (writeAll [writeString domain, writeBytes bytes]) (\<lambda>canonical. Inr (nodo_hash_bytes sha canonical))"

subsection \<open>Message types\<close>

lemma decode_encode_type [simp]: "decodeMessageType (encodeMessageType t) = t"
  by (cases t) (simp_all add: decodeMessageType_def encodeMessageType_def allMessageTypes_def)

lemma positionOf_nth: "distinct xs \<Longrightarrow> i < length xs \<Longrightarrow> positionOf (xs ! i) xs = i"
  by (induction xs arbitrary: i) (auto simp: nth_Cons split: nat.splits)

lemma encode_decode_type:
  assumes "decodeMessageType v \<noteq> Msg_UNKNOWN"
  shows "encodeMessageType (decodeMessageType v) = v"
proof -
  have "distinct allMessageTypes" by (simp add: allMessageTypes_def)
  moreover have "unat v < length allMessageTypes" "decodeMessageType v = allMessageTypes ! unat v"
    using assms by (auto simp: decodeMessageType_def encodeMessageType_def allMessageTypes_def word_less_nat_alt split: if_splits)
  ultimately show ?thesis by (simp add: encodeMessageType_def positionOf_nth)
qed

subsection \<open>Round trips\<close>

definition fieldsFit :: "string list \<Rightarrow> bool" where
  "fieldsFit fs \<longleftrightarrow> list_all (fieldFits MAX_PROTOCOL_FIELD_BYTES) fs"

lemma newReader_at: "newReader bytes MAX_PROTOCOL_FIELD_BYTES = Inr (readerAt [] bytes MAX_PROTOCOL_FIELD_BYTES)"
  by (simp add: newReader_def MAX_PROTOCOL_FIELD_BYTES_def readerAt_def)

definition encodedHeader :: "string \<Rightarrow> string" where
  "encodedHeader t = encodedField CODEC_VERSION @ encodedField t"

lemma version_fits: "fieldFits MAX_PROTOCOL_FIELD_BYTES CODEC_VERSION"
  by (simp add: fieldFits_def CODEC_VERSION_def MAX_PROTOCOL_FIELD_BYTES_def U32_MAX_def)

lemma header_reads:
  "fieldFits MAX_PROTOCOL_FIELD_BYTES t \<Longrightarrow>
   readThen (readHeader t) f (readerAt d (encodedHeader t @ s) MAX_PROTOCOL_FIELD_BYTES) =
     f () (readerAt (d @ encodedHeader t) s MAX_PROTOCOL_FIELD_BYTES)"
  using version_fits
  by (simp add: readHeader_def encodedHeader_def readThen_def field.reads returns_def)

lemma header_accepts:
  assumes "readThen (readHeader t) f (readerAt d s m) = Inr y"
  obtains u where "s = encodedHeader t @ u" "fieldFits m CODEC_VERSION" "fieldFits m t" "f () (readerAt (d @ encodedHeader t) u m) = Inr y"
proof -
  have "readThen readString (\<lambda>version. readThen readString (\<lambda>type.
       if version \<noteq> CODEC_VERSION then throws (RuntimeError ''Unsupported canonical protocol codec version.'')
       else if type \<noteq> t then throws (RuntimeError ''Unexpected canonical protocol message type.'')
       else f ())) (readerAt d s m) = Inr y"
    using assms by (auto simp: readHeader_def readThen_def returns_def throws_def split: if_splits)
  then show thesis
    by (elim field.then_accepts) (auto simp: throws_def encodedHeader_def split: if_splits intro!: that)
qed

lemmas field_reads = field.then_reads u32.then_reads u64.then_reads i64.then_reads header_reads
  field.then_reads_end u32.then_reads_end u64.then_reads_end i64.then_reads_end then_consumed

lemmas field_writes = writeField_fits [where m = MAX_PROTOCOL_FIELD_BYTES]

definition envelopeFits :: "NetworkEnvelope \<Rightarrow> bool" where
  "envelopeFits e \<longleftrightarrow> in_i64 (envCreatedAt e) \<and>
     fieldsFit [envNetworkId e, envChainId e, envProtocolVersion e, envSenderNodeId e, envPayload e]"

definition encodedEnvelope :: "NetworkEnvelope \<Rightarrow> string" where
  "encodedEnvelope e = encodedHeader ''NetworkEnvelope'' @ encodedField (envNetworkId e) @ encodedField (envChainId e) @
     encodedField (envProtocolVersion e) @ writeUInt32 (encodeMessageType (envMessageType e)) @
     encodedField (envSenderNodeId e) @ writeInt64 (envCreatedAt e) @ writeUInt32 (envTtlSeconds e) @
     encodedField (envPayload e)"

lemma name_fits: "length t \<le> 1000 \<Longrightarrow> fieldFits MAX_PROTOCOL_FIELD_BYTES t"
  by (simp add: fieldFits_def MAX_PROTOCOL_FIELD_BYTES_def U32_MAX_def)

lemma encodeEnvelope_Inr: "envelopeFits e \<Longrightarrow> encodeNetworkEnvelope e = Inr (encodedEnvelope e)"
  by (simp add: encodeNetworkEnvelope_def encodedEnvelope_def encodedHeader_def writeHeader_def writeString_def
      envelopeFits_def fieldsFit_def field_writes version_fits name_fits del: bindR_Inr_iff)

lemma decode_encode_envelope:
  assumes "envelopeFits e"
  shows "decodeNetworkEnvelope sha (encodedEnvelope e) =
    Inr (newEnvelope sha (envNetworkId e) (envChainId e) (envProtocolVersion e) (envMessageType e) (envSenderNodeId e)
      (envCreatedAt e) (envTtlSeconds e) (envPayload e))"
  using assms
  by (simp add: decodeNetworkEnvelope_def decodeWith_def newReader_at encodedEnvelope_def field_reads name_fits envelopeFits_def
      fieldsFit_def returns_def del: bindR_Inr_iff)

lemma canonical_envelope:
  assumes "decodeNetworkEnvelope sha bytes = Inr e"
  shows "envelopeFits e \<and> (envMessageType e \<noteq> Msg_UNKNOWN \<longrightarrow> bytes = encodedEnvelope e)"
  using assms unfolding decodeNetworkEnvelope_def decodeWith_def newReader_at
  by (auto elim!: header_accepts field.then_accepts u32.then_accepts i64.then_accepts then_consumedE
      simp: returns_def newEnvelope_def Let_def encodedEnvelope_def envelopeFits_def fieldsFit_def encode_decode_type)

lemma newEnvelope_eq:
  "envMessageId e = computeMessageId sha e \<Longrightarrow> payloadHashMatches sha e \<Longrightarrow>
   newEnvelope sha (envNetworkId e) (envChainId e) (envProtocolVersion e) (envMessageType e) (envSenderNodeId e)
     (envCreatedAt e) (envTtlSeconds e) (envPayload e) = e"
  by (simp add: newEnvelope_def computeMessageId_def envelopeSigningPayload_def payloadHashMatches_def)

lemma readThen_assoc: "readThen (readThen p g) f = readThen p (\<lambda>x. readThen (g x) f)"
proof
  fix r
  show "readThen (readThen p g) f r = readThen p (\<lambda>x. readThen (g x) f) r"
    by (cases "p r") (auto simp: readThen_def)
qed

lemma readThen_returns: "readThen (returns x) f = f x"
  by (rule ext) (simp add: readThen_def returns_def)

lemma strings_reads:
  "list_all (fieldFits m) hs \<Longrightarrow>
   readThen (readStrings (length hs)) f (readerAt d (concat (map encodedField hs) @ t) m) =
     f hs (readerAt (d @ concat (map encodedField hs)) t m)"
proof (induction hs arbitrary: d f)
  case Nil
  then show ?case by (simp add: readThen_def returns_def)
next
  case (Cons h hs)
  have "readThen (readStrings (length (h # hs))) f (readerAt d (concat (map encodedField (h # hs)) @ t) m) =
    readThen (readStrings (length hs)) (\<lambda>ss. f (h # ss)) (readerAt (d @ encodedField h) (concat (map encodedField hs) @ t) m)"
    using Cons.prems by (simp add: readThen_assoc readThen_returns field.then_reads)
  then show ?case using Cons by simp
qed

lemma strings_reads_end:
  "list_all (fieldFits m) hs \<Longrightarrow>
   readThen (readStrings (length hs)) f (readerAt d (concat (map encodedField hs)) m) =
     f hs (readerAt (d @ concat (map encodedField hs)) [] m)"
  using strings_reads [of m hs f d "[]"] by simp

lemma strings_accept:
  assumes "readThen (readStrings n) f (readerAt d s m) = Inr y"
  obtains hs t where "s = concat (map encodedField hs) @ t" "length hs = n" "list_all (fieldFits m) hs"
    "f hs (readerAt (d @ concat (map encodedField hs)) t m) = Inr y"
  using assms
proof (induction n arbitrary: d s f thesis)
  case 0
  then show ?case using 0(1) [of "[]" s] by (simp add: readThen_def returns_def)
next
  case (Suc n)
  have "readThen readString (\<lambda>h. readThen (readStrings n) (\<lambda>hs. f (h # hs))) (readerAt d s m) = Inr y"
    using Suc.prems(2) by (simp add: readThen_assoc readThen_returns)
  then obtain h u where h: "s = encodedField h @ u" "fieldFits m h"
    and rest: "readThen (readStrings n) (\<lambda>hs. f (h # hs)) (readerAt (d @ encodedField h) u m) = Inr y"
    by (rule field.then_accepts)
  show ?case
  proof (rule Suc.IH [OF _ rest])
    fix hs t
    assume "u = concat (map encodedField hs) @ t" "length hs = n" "list_all (fieldFits m) hs"
      "f (h # hs) (readerAt ((d @ encodedField h) @ concat (map encodedField hs)) t m) = Inr y"
    then show ?case using Suc.prems(1) [of "h # hs" t] h by simp
  qed
qed

definition encodedLocator :: "BlockLocator \<Rightarrow> string" where
  "encodedLocator l = encodedHeader ''BlockLocator'' @ writeUInt64 (locFromHeight l) @ writeUInt64 (locMaxBlocks l) @
     writeUInt32 (word_of_nat (length (locHashes l))) @ concat (map encodedField (locHashes l))"

lemma locator_hashes_fit: "locatorValid l \<Longrightarrow> list_all (fieldFits MAX_PROTOCOL_FIELD_BYTES) (locHashes l)"
proof -
  have "fieldFits MAX_PROTOCOL_FIELD_BYTES h" if "isSafeSyncScalar h" for h
    by (rule name_fits) (use that in \<open>simp add: isSafeSyncScalar_def isSafeIdentifier_def\<close>)
  then show "locatorValid l \<Longrightarrow> ?thesis" by (simp add: locatorValid_def list_all_iff)
qed

lemma writeAll_strings:
  "list_all (fieldFits MAX_PROTOCOL_FIELD_BYTES) hs \<Longrightarrow> writeAll (map writeString hs) = Inr (concat (map encodedField hs))"
  by (induction hs) (simp_all add: writeString_def field_writes del: bindR_Inr_iff)

lemma encodeLocator_Inr: "locatorValid l \<Longrightarrow> encodeBlockLocator l = Inr (encodedLocator l)"
  using writeAll_strings [OF locator_hashes_fit, of l]
  by (simp add: encodeBlockLocator_def encodedLocator_def encodedHeader_def writeHeader_def writeString_def field_writes
      version_fits name_fits del: bindR_Inr_iff)

lemma locator_count: "locatorValid l \<Longrightarrow> unat (word_of_nat (length (locHashes l)) :: u32) = length (locHashes l)"
  by (simp add: locatorValid_def MAX_KNOWN_ANCESTOR_HASHES_def unat_of_nat)

lemma decode_encode_locator:
  assumes "locatorValid l"
  shows "decodeBlockLocator (encodedLocator l) = Inr l"
proof -
  have "length (locHashes l) \<noteq> 0" "length (locHashes l) \<le> MAX_KNOWN_ANCESTOR_HASHES"
    using assms by (auto simp: locatorValid_def)
  moreover have eta: "\<lparr>locFromHeight = locFromHeight l, locMaxBlocks = locMaxBlocks l, locHashes = locHashes l\<rparr> = l"
    by (cases l) simp
  moreover from calculation(1) have "(word_of_nat (length (locHashes l)) :: u32) \<noteq> 0"
    using locator_count [OF assms] by (metis unat_0)
  ultimately show ?thesis
    using assms locator_hashes_fit [OF assms]
    by (simp add: eta strings_reads_end decodeBlockLocator_def decodeWith_def newReader_at encodedLocator_def field_reads name_fits
        locator_count returns_def Let_def del: bindR_Inr_iff)
qed

lemma canonical_locator:
  assumes "decodeBlockLocator bytes = Inr l"
  shows "locatorValid l \<and> bytes = encodedLocator l"
  using assms unfolding decodeBlockLocator_def decodeWith_def newReader_at
  by (auto elim!: header_accepts u32.then_accepts u64.then_accepts strings_accept then_consumedE
      simp: returns_def throws_def Let_def encodedLocator_def split: if_splits)

lemma locator_bytes_fit:
  assumes "locatorValid l"
  shows "fieldFits MAX_PROTOCOL_FIELD_BYTES (encodedLocator l)"
proof -
  have part: "length (encodedField h) = length h + 4" for h by (simp add: encodedField_def writeUInt32_def)
  have "length h \<le> 200" if "h \<in> set (locHashes l)" for h
    using assms that by (simp add: locatorValid_def list_all_iff isSafeSyncScalar_def isSafeIdentifier_def)
  then have "(\<Sum>h\<leftarrow>locHashes l. length h + 4) \<le> (\<Sum>h\<leftarrow>locHashes l. 204)" by (intro sum_list_mono) fastforce
  also have "\<dots> \<le> 64 * 204" using assms by (simp add: locatorValid_def MAX_KNOWN_ANCESTOR_HASHES_def sum_list_triv)
  finally have "length (concat (map encodedField (locHashes l))) \<le> 64 * 204" by (simp add: length_concat o_def part)
  then show ?thesis
    by (simp add: fieldFits_def encodedLocator_def encodedHeader_def part CODEC_VERSION_def writeUInt32_def writeUInt64_def
        MAX_PROTOCOL_FIELD_BYTES_def U32_MAX_def)
qed

definition encodedRequest :: "NetworkBlockSyncRequest \<Rightarrow> string" where
  "encodedRequest q = encodedHeader ''NetworkBlockSyncRequest'' @ encodedField (reqRequester q) @
     encodedField (encodedLocator (reqLocator q)) @ writeInt64 (reqCreatedAt q)"

lemma encodeRequest_Inr:
  assumes "fieldFits MAX_PROTOCOL_FIELD_BYTES (reqRequester q)" and "locatorValid (reqLocator q)"
  shows "encodeNetworkBlockSyncRequest q = Inr (encodedRequest q)"
  using assms locator_bytes_fit [OF assms(2)]
  by (simp add: encodeNetworkBlockSyncRequest_def encodedRequest_def encodedHeader_def writeHeader_def writeString_def
      writeBytes_def encodeLocator_Inr field_writes version_fits name_fits del: bindR_Inr_iff)

lemma decode_encode_request:
  assumes "fieldFits MAX_PROTOCOL_FIELD_BYTES (reqRequester q)" and "locatorValid (reqLocator q)" and "in_i64 (reqCreatedAt q)"
  shows "decodeNetworkBlockSyncRequest (encodedRequest q) = Inr q"
  using assms locator_bytes_fit [OF assms(2)]
  by (simp add: decodeNetworkBlockSyncRequest_def decodeWith_def newReader_at encodedRequest_def readBytes_def field_reads
      name_fits decode_encode_locator returns_def del: bindR_Inr_iff)

lemma canonical_request:
  assumes "decodeNetworkBlockSyncRequest bytes = Inr q"
  shows "fieldFits MAX_PROTOCOL_FIELD_BYTES (reqRequester q) \<and> locatorValid (reqLocator q) \<and> bytes = encodedRequest q"
  using assms unfolding decodeNetworkBlockSyncRequest_def decodeWith_def newReader_at readBytes_def
  by (auto elim!: header_accepts field.then_accepts i64.then_accepts then_consumedE dest!: canonical_locator
      simp: returns_def throws_def encodedRequest_def split: sum.splits)

definition encodedStatus :: "ChainStatusMessage \<Rightarrow> string" where
  "encodedStatus c = encodedHeader ''ChainStatusMessage'' @ encodedField (csNetworkId c) @ encodedField (csChainId c) @
     encodedField (csProtocolVersion c) @ writeUInt64 (csLatestHeight c) @ encodedField (csLatestBlockHash c) @
     writeUInt64 (csFinalizedHeight c) @ encodedField (csFinalizedBlockHash c)"

definition statusFits :: "ChainStatusMessage \<Rightarrow> bool" where
  "statusFits c \<longleftrightarrow> fieldsFit [csNetworkId c, csChainId c, csProtocolVersion c, csLatestBlockHash c, csFinalizedBlockHash c]"

lemma status_codec:
  "statusFits c \<Longrightarrow> encodeChainStatusMessage c = Inr (encodedStatus c)"
  "statusFits c \<Longrightarrow> decodeChainStatusMessage (encodedStatus c) = Inr c"
   apply (simp add: encodeChainStatusMessage_def encodedStatus_def encodedHeader_def writeHeader_def writeString_def
      statusFits_def fieldsFit_def field_writes version_fits name_fits del: bindR_Inr_iff)
  apply (simp add: decodeChainStatusMessage_def decodeWith_def newReader_at encodedStatus_def statusFits_def fieldsFit_def
      field_reads name_fits returns_def del: bindR_Inr_iff)
  done

lemma canonical_status:
  assumes "decodeChainStatusMessage bytes = Inr c"
  shows "statusFits c \<and> bytes = encodedStatus c"
  using assms unfolding decodeChainStatusMessage_def decodeWith_def newReader_at
  by (auto elim!: header_accepts field.then_accepts u64.then_accepts then_consumedE
      simp: returns_def encodedStatus_def statusFits_def fieldsFit_def)

definition encodedAdvance :: "RoundAdvanceMessage \<Rightarrow> string" where
  "encodedAdvance a = encodedHeader ''RoundAdvanceMessage'' @ writeUInt64 (raHeight a) @ writeUInt64 (raRound a) @
     encodedField (raProposer a) @ writeInt64 (raCreatedAt a)"

lemma proposer_fits: "roundAdvanceValid a \<Longrightarrow> fieldFits MAX_PROTOCOL_FIELD_BYTES (raProposer a)"
  by (rule name_fits) (simp add: roundAdvanceValid_def isSafeSyncScalar_def isSafeIdentifier_def)

lemma advance_codec:
  assumes "roundAdvanceValid a"
  shows "encodeRoundAdvanceMessage a = Inr (encodedAdvance a)"
    and "in_i64 (raCreatedAt a) \<Longrightarrow> decodeRoundAdvanceMessage (encodedAdvance a) = Inr a"
proof -
  note fits = proposer_fits [OF assms]
  show "encodeRoundAdvanceMessage a = Inr (encodedAdvance a)"
    using assms fits by (simp add: encodeRoundAdvanceMessage_def encodedAdvance_def encodedHeader_def writeHeader_def
        writeString_def field_writes version_fits name_fits del: bindR_Inr_iff)
  have eta: "\<lparr>raHeight = raHeight a, raRound = raRound a, raProposer = raProposer a, raCreatedAt = raCreatedAt a\<rparr> = a"
    by (cases a) simp
  show "decodeRoundAdvanceMessage (encodedAdvance a) = Inr a" if "in_i64 (raCreatedAt a)"
    using assms fits that by (simp add: eta decodeRoundAdvanceMessage_def decodeWith_def newReader_at encodedAdvance_def
        field_reads name_fits returns_def Let_def del: bindR_Inr_iff)
qed

lemma canonical_advance:
  assumes "decodeRoundAdvanceMessage bytes = Inr a"
  shows "roundAdvanceValid a \<and> bytes = encodedAdvance a"
  using assms unfolding decodeRoundAdvanceMessage_def decodeWith_def newReader_at
  by (auto elim!: header_accepts field.then_accepts u64.then_accepts i64.then_accepts then_consumedE
      simp: returns_def throws_def Let_def encodedAdvance_def split: if_splits)

subsection \<open>Properties\<close>

text \<open>
  The envelope codec is exact in both directions. Every envelope made by its constructor whose
  fields fit the protocol limits is encoded without an exception and decoded to itself, and the
  decoder accepts no second encoding: bytes that decode to an envelope of a known type are the
  bytes the encoder produces for it. (A type number above the last enumerator decodes to
  \<open>UNKNOWN\<close>, which the inbound validation rejects.)
\<close>

theorem envelope_codec_exact:
  assumes "envelopeFits e" and "payloadHashMatches sha e" and "envMessageId e = computeMessageId sha e"
  shows "(\<exists>bytes. encodeNetworkEnvelope e = Inr bytes \<and> decodeNetworkEnvelope sha bytes = Inr e) \<and>
    (\<forall>bytes e'. decodeNetworkEnvelope sha bytes = Inr e' \<and> envMessageType e' \<noteq> Msg_UNKNOWN \<longrightarrow>
       encodeNetworkEnvelope e' = Inr bytes)"
proof (intro conjI allI impI)
  show "\<exists>bytes. encodeNetworkEnvelope e = Inr bytes \<and> decodeNetworkEnvelope sha bytes = Inr e"
    using encodeEnvelope_Inr [OF assms(1)] decode_encode_envelope [OF assms(1), of sha] newEnvelope_eq [OF assms(3,2)] by simp
  show "encodeNetworkEnvelope e' = Inr bytes"
    if "decodeNetworkEnvelope sha bytes = Inr e' \<and> envMessageType e' \<noteq> Msg_UNKNOWN" for bytes e'
    using that canonical_envelope [of sha bytes e'] encodeEnvelope_Inr [of e'] by blast
qed

text \<open>
  The synchronisation messages round-trip: a block sync request with its nested block locator, a
  chain status and a round advance are decoded to what was encoded, and each decoder accepts only
  the bytes its encoder produces.
\<close>

theorem sync_messages_roundtrip:
  assumes "fieldFits MAX_PROTOCOL_FIELD_BYTES (reqRequester q)" and "locatorValid (reqLocator q)" and "in_i64 (reqCreatedAt q)"
    and "statusFits c" and "roundAdvanceValid a" and "in_i64 (raCreatedAt a)"
  shows "(\<exists>bytes. encodeNetworkBlockSyncRequest q = Inr bytes \<and> decodeNetworkBlockSyncRequest bytes = Inr q) \<and>
    (\<exists>bytes. encodeChainStatusMessage c = Inr bytes \<and> decodeChainStatusMessage bytes = Inr c) \<and>
    (\<exists>bytes. encodeRoundAdvanceMessage a = Inr bytes \<and> decodeRoundAdvanceMessage bytes = Inr a) \<and>
    (\<forall>bytes q'. decodeNetworkBlockSyncRequest bytes = Inr q' \<longrightarrow> encodeNetworkBlockSyncRequest q' = Inr bytes) \<and>
    (\<forall>bytes c'. decodeChainStatusMessage bytes = Inr c' \<longrightarrow> encodeChainStatusMessage c' = Inr bytes) \<and>
    (\<forall>bytes a'. decodeRoundAdvanceMessage bytes = Inr a' \<longrightarrow> encodeRoundAdvanceMessage a' = Inr bytes)"
  using encodeRequest_Inr decode_encode_request canonical_request status_codec canonical_status advance_codec canonical_advance assms
  by metis

lemma cut_at_nul: "nodo_hash_string sha (pre @ s @ CHR 0x00 # y) = nodo_hash_string sha (pre @ s)"
proof -
  have "takeWhile (\<lambda>c. c \<noteq> CHR 0x00) (t @ CHR 0x00 # y) = takeWhile (\<lambda>c. c \<noteq> CHR 0x00) t" for t by (induction t) auto
  from this [of "pre @ s"] show ?thesis by (simp add: nodo_hash_string_def)
qed

text \<open>
  The payload hash ends at the first zero byte. The hash of the payload is taken of a C string, so
  a payload can be changed behind its first zero byte and the envelope still passes structural
  validation, with the same message id: replay detection takes the changed message for a duplicate
  of the original, or the other way round.
\<close>

theorem payload_tail_not_hashed:
  assumes "envStructurallyValid sha maxBytes e" and "envPayload e = p @ CHR 0x00 # x" and "length y \<le> length x"
  shows "envStructurallyValid sha maxBytes (e\<lparr>envPayload := p @ CHR 0x00 # y\<rparr>) \<and>
    envMessageId (e\<lparr>envPayload := p @ CHR 0x00 # y\<rparr>) = envMessageId e"
proof -
  have "hashPayload sha (p @ CHR 0x00 # y) = hashPayload sha (p @ CHR 0x00 # x)"
    by (simp only: hashPayload_def cut_at_nul)
  moreover have "computeMessageId sha (e\<lparr>envPayload := p @ CHR 0x00 # y\<rparr>) = computeMessageId sha e"
    by (simp add: computeMessageId_def envelopeSigningPayload_def)
  ultimately show ?thesis using assms by (simp add: envStructurallyValid_def payloadHashMatches_def)
qed

subsection \<open>Witnesses\<close>

definition demoEnvelope :: "string \<Rightarrow> NetworkEnvelope" where
  "demoEnvelope payload = newEnvelope demoSha ''nodo'' ''main'' ''1'' PING ''n1'' 100 60 payload"

lemma demoEnvelope_ok:
  "payloadHashMatches demoSha (demoEnvelope p)" "envMessageId (demoEnvelope p) = computeMessageId demoSha (demoEnvelope p)"
  "envPayload (demoEnvelope p) = p"
  by (simp_all add: demoEnvelope_def newEnvelope_def payloadHashMatches_def computeMessageId_def envelopeSigningPayload_def)

lemma demoEnvelope_fits: "length p \<le> 1000 \<Longrightarrow> envelopeFits (demoEnvelope p)"
  by (simp add: envelopeFits_def demoEnvelope_def newEnvelope_def in_i64_def I64_MIN_def I64_MAX_def fieldsFit_def name_fits)

theorem envelope_codec_exact_witness:
  "\<exists>bytes. encodeNetworkEnvelope (demoEnvelope ''hi'') = Inr bytes \<and>
     decodeNetworkEnvelope demoSha bytes = Inr (demoEnvelope ''hi'')"
  using envelope_codec_exact [OF demoEnvelope_fits demoEnvelope_ok(1,2), of "''hi''"] by simp

definition demoRequest :: NetworkBlockSyncRequest where
  "demoRequest = \<lparr>reqRequester = ''n1'', reqLocator = \<lparr>locFromHeight = 5, locMaxBlocks = 10, locHashes = [''ab'', ''cd'']\<rparr>,
     reqCreatedAt = 100\<rparr>"

definition demoStatus :: ChainStatusMessage where
  "demoStatus = \<lparr>csNetworkId = ''nodo'', csChainId = ''main'', csProtocolVersion = ''1'', csLatestHeight = 7,
     csLatestBlockHash = ''ab'', csFinalizedHeight = 6, csFinalizedBlockHash = ''cd''\<rparr>"

definition demoAdvance :: RoundAdvanceMessage where
  "demoAdvance = \<lparr>raHeight = 7, raRound = 2, raProposer = ''v1'', raCreatedAt = 100\<rparr>"

theorem sync_messages_roundtrip_witness:
  "(\<exists>bytes. encodeNetworkBlockSyncRequest demoRequest = Inr bytes \<and> decodeNetworkBlockSyncRequest bytes = Inr demoRequest) \<and>
   (\<exists>bytes. encodeChainStatusMessage demoStatus = Inr bytes \<and> decodeChainStatusMessage bytes = Inr demoStatus) \<and>
   (\<exists>bytes. encodeRoundAdvanceMessage demoAdvance = Inr bytes \<and> decodeRoundAdvanceMessage bytes = Inr demoAdvance)"
proof -
  have "fieldFits MAX_PROTOCOL_FIELD_BYTES (reqRequester demoRequest)" by (simp add: demoRequest_def name_fits)
  moreover have "locatorValid (reqLocator demoRequest)" by code_simp
  moreover have "in_i64 (reqCreatedAt demoRequest)" by code_simp
  moreover have "statusFits demoStatus" by (simp add: demoStatus_def statusFits_def fieldsFit_def name_fits)
  moreover have "roundAdvanceValid demoAdvance" by code_simp
  moreover have "in_i64 (raCreatedAt demoAdvance)" by code_simp
  ultimately show ?thesis using sync_messages_roundtrip [of demoRequest demoStatus demoAdvance] by blast
qed

lemma demoEnvelope_valid:
  assumes "length p \<le> n"
  shows "envStructurallyValid demoSha n (demoEnvelope p)"
proof -
  have "isSafeEnvelopeScalar ''nodo'' \<and> isSafeEnvelopeScalar ''main'' \<and> isSafeEnvelopeScalar ''1'' \<and> isSafeEnvelopeScalar ''n1''"
    by code_simp
  moreover have "envNetworkId (demoEnvelope p) = ''nodo''" "envChainId (demoEnvelope p) = ''main''"
    "envProtocolVersion (demoEnvelope p) = ''1''" "envSenderNodeId (demoEnvelope p) = ''n1''"
    "envMessageType (demoEnvelope p) = PING" "envCreatedAt (demoEnvelope p) = 100" "envTtlSeconds (demoEnvelope p) = 60"
    by (simp_all add: demoEnvelope_def newEnvelope_def)
  ultimately show ?thesis using demoEnvelope_ok [of p] assms by (simp add: envStructurallyValid_def)
qed

theorem payload_tail_not_hashed_witness:
  "envStructurallyValid demoSha 10 ((demoEnvelope [CHR ''a'', CHR 0x00, CHR ''b''])\<lparr>envPayload := [CHR ''a'', CHR 0x00, CHR ''c'']\<rparr>)"
proof -
  let ?p = "[CHR ''a'', CHR 0x00, CHR ''b'']"
  have "envStructurallyValid demoSha 10 (demoEnvelope ?p)" by (rule demoEnvelope_valid) simp
  then show ?thesis
    using payload_tail_not_hashed [of demoSha 10 "demoEnvelope ?p" "''a''" "''b''" "''c''"] demoEnvelope_ok(3) [of ?p] by simp
qed

end
