(* ===== verification/Execution.thy ===== *)
theory Execution
  imports LotTransfers SparseMerkle Messages
begin

section \<open>Execution of one transaction\<close>

text \<open>
  \<open>src/core/TransactionReceipt.cpp\<close>, \<open>TransactionExecutionContext.cpp\<close>, \<open>TransactionExecutionResult.cpp\<close>
  and \<open>TransactionExecutionRouter.cpp\<close>. The router checks the sender, moves the amount and the fee
  between accounts, applies a transfer to the coin lots, calls the handler of the protocol domain and
  writes a receipt with the resulting state root. The domain executor is a virtual interface: a
  record of its operations on a state of its own. What the router changes behind the pointers of the
  context, the coin lots and the executor, is returned as the context after the call. The lemmas say
  what an applied transaction does to balances and nonces.
\<close>

subsection \<open>Receipts\<close>

datatype TransactionReceiptStatus = Receipt_APPLIED | Receipt_REJECTED

fun transactionReceiptStatusToString :: "TransactionReceiptStatus \<Rightarrow> string" where
  "transactionReceiptStatusToString Receipt_APPLIED = ''APPLIED''"
| "transactionReceiptStatusToString Receipt_REJECTED = ''REJECTED''"

record TransactionReceipt =
  rcTransactionId :: string
  rcType :: TransactionType
  rcStatus :: TransactionReceiptStatus
  rcFrom :: string
  rcTo :: string
  rcAmount :: Amount
  rcFee :: Amount
  rcNonceBefore :: u64
  rcNonceAfter :: u64
  rcStateRoot :: string
  rcTouched :: "string list"
  rcReason :: string

definition emptyReceipt :: TransactionReceipt where
  "emptyReceipt =
     \<lparr>rcTransactionId = [], rcType = TRANSFER, rcStatus = Receipt_REJECTED, rcFrom = [], rcTo = [],
      rcAmount = zeroAmount, rcFee = zeroAmount, rcNonceBefore = 0, rcNonceAfter = 0, rcStateRoot = [],
      rcTouched = [], rcReason = ''Uninitialized transaction receipt.''\<rparr>"

definition receiptApplied :: "Transaction \<Rightarrow> u64 \<Rightarrow> string \<Rightarrow> string list \<Rightarrow> TransactionReceipt" where
  "receiptApplied tx nonceBefore root domains =
     \<lparr>rcTransactionId = txId tx, rcType = txType tx, rcStatus = Receipt_APPLIED, rcFrom = txFrom tx, rcTo = txTo tx,
      rcAmount = txAmount tx, rcFee = txFee tx, rcNonceBefore = nonceBefore, rcNonceAfter = txNonce tx,
      rcStateRoot = root, rcTouched = domains, rcReason = []\<rparr>"

definition isSafeReceiptScalar :: "nat \<Rightarrow> string \<Rightarrow> bool" where
  "isSafeReceiptScalar maxSize value = isSafeIdentifier maxSize ''_-.:/'' value"

definition receiptValid :: "TransactionReceipt \<Rightarrow> bool" where
  "receiptValid r =
     (if \<not> isSafeReceiptScalar 128 (rcTransactionId r) \<or> \<not> isSafeReceiptScalar 200 (rcFrom r) \<or>
         \<not> isSafeReceiptScalar 200 (rcTo r) \<or> \<not> isSafeReceiptScalar 128 (rcStateRoot r) \<or>
         \<not> hasPolicy (rcType r) \<or> isNegative (rcAmount r) \<or> isNegative (rcFee r)
      then False
      else if rcTouched r = [] \<or> \<not> sorted (rcTouched r) \<or> \<not> successively (\<noteq>) (rcTouched r) then False
      else if \<not> list_all (isSafeReceiptScalar 64) (rcTouched r) then False
      else if rcStatus r = Receipt_APPLIED
      then rcNonceBefore r \<noteq> U64_MAX \<and> rcNonceAfter r = rcNonceBefore r + 1 \<and> rcReason r = []
      else rcNonceAfter r = rcNonceBefore r \<and> rcReason r \<noteq> [] \<and> length (rcReason r) \<le> 240)"

definition receiptSerialize :: "TransactionReceipt \<Rightarrow> string" where
  "receiptSerialize r =
     ''TransactionReceipt{transactionId='' @ rcTransactionId r
       @ '';transactionType='' @ transactionTypeToString (rcType r)
       @ '';status='' @ transactionReceiptStatusToString (rcStatus r)
       @ '';fromAddress='' @ rcFrom r @ '';toAddress='' @ rcTo r
       @ '';amountRaw='' @ showI64 (rawUnits (rcAmount r)) @ '';feeRaw='' @ showI64 (rawUnits (rcFee r))
       @ '';senderNonceBefore='' @ showU64 (rcNonceBefore r) @ '';senderNonceAfter='' @ showU64 (rcNonceAfter r)
       @ '';stateRootAfter='' @ rcStateRoot r
       @ '';touchedDomains='' @ joinWith '','' (rcTouched r)
       @ '';reason='' @ rcReason r @ ''}''"

definition receiptHash :: "sha256 \<Rightarrow> TransactionReceipt \<Rightarrow> string" where
  "receiptHash sha r = nodo_hash_string sha (''NODO_TRANSACTION_RECEIPT_V2|'' @ receiptSerialize r)"

subsection \<open>Context and results\<close>

record TransactionDomainExecutionResult =
  domApplied :: bool
  domCode :: string
  domReason :: string
  domAccounts :: AccountStateView
  domDomains :: "(string, string) smap"

definition domainAccepted :: "AccountStateView \<Rightarrow> (string, string) smap \<Rightarrow> TransactionDomainExecutionResult" where
  "domainAccepted accounts domains =
     (let named = list_all (\<lambda>(name, payload). name \<noteq> [] \<and> payload \<noteq> []) domains in
      \<lparr>domApplied = (viewValid accounts \<and> named), domCode = [],
       domReason = (if \<not> named then ''Domain handler produced invalid commitment data.''
                    else if \<not> viewValid accounts then ''Domain handler produced invalid account state.'' else []),
       domAccounts = accounts, domDomains = domains\<rparr>)"

definition domainRejected :: "string \<Rightarrow> string \<Rightarrow> TransactionDomainExecutionResult" where
  "domainRejected code reason =
     \<lparr>domApplied = False, domCode = code, domReason = reason, domAccounts = [], domDomains = []\<rparr>"

text \<open>The virtual interface \<open>TransactionDomainExecutor\<close> with an implementation's own state.\<close>

type_synonym 'd domainCall =
  "Transaction \<Rightarrow> AccountStateView \<Rightarrow> u64 \<Rightarrow> int \<Rightarrow> 'd \<Rightarrow> (TransactionDomainExecutionResult, 'd) outcome"

record 'd TransactionDomainExecutor =
  applyBurn :: "'d domainCall"
  applyStakeDeposit :: "'d domainCall"
  applyStakeUnlock :: "'d domainCall"
  applyStakeWithdraw :: "'d domainCall"
  applyStakeTopUp :: "'d domainCall"
  applyValidatorRegister :: "'d domainCall"
  applyValidatorExitRequest :: "'d domainCall"
  applyValidatorUnjailRequest :: "'d domainCall"
  applyValidatorKeyRotate :: "'d domainCall"
  applyGovernanceProposal :: "'d domainCall"
  applyGovernanceVote :: "'d domainCall"
  applyGovernanceExecute :: "'d domainCall"
  domFinalizeBlock ::
    "AccountStateView \<Rightarrow> Amount \<Rightarrow> LedgerRecord list \<Rightarrow> u64 \<Rightarrow> int \<Rightarrow> 'd
       \<Rightarrow> (TransactionDomainExecutionResult, 'd) outcome"
  domainsOf :: "'d \<Rightarrow> (string, string) smap"

text \<open>The base class's \<open>applyValidatorKeyRotate\<close>.\<close>

definition keyRotateUnsupported :: "'d domainCall" where
  "keyRotateUnsupported tx accounts height now d =
     (Inr (domainRejected ''UNSUPPORTED_DOMAIN_OPERATION''
        ''Validator key rotation is not supported by this domain executor.''), d)"

record 'd TransactionExecutionContext =
  xcAccounts :: AccountStateView
  xcHeight :: u64
  xcTimestamp :: int
  enforceAccountState :: bool
  allowMissingAccounts :: bool
  requireDomainExecutor :: bool
  feeRecipientAddress :: string
  xcCoinLots :: "CoinLotRegistry option"
  xcDomain :: "('d TransactionDomainExecutor \<times> 'd) option"

datatype TransactionExecutionStatus =
    Exec_APPLIED | Exec_INVALID_TRANSACTION | Exec_INVALID_NONCE | Exec_INSUFFICIENT_BALANCE
  | Exec_DOMAIN_REJECTED | Exec_STATE_ERROR

record TransactionExecutionResult =
  xrStatus :: TransactionExecutionStatus
  xrCode :: string
  xrReason :: string
  xrAccounts :: AccountStateView
  xrReceipt :: TransactionReceipt
  xrTouchedAccounts :: "string list"
  xrTouchedDomains :: "string list"

definition execApplied ::
    "AccountStateView \<Rightarrow> TransactionReceipt \<Rightarrow> string list \<Rightarrow> string list \<Rightarrow> TransactionExecutionResult" where
  "execApplied accounts receipt touched domains =
     \<lparr>xrStatus = Exec_APPLIED, xrCode = [], xrReason = [], xrAccounts = accounts, xrReceipt = receipt,
      xrTouchedAccounts = touched, xrTouchedDomains = domains\<rparr>"

definition execRejected :: "TransactionExecutionStatus \<Rightarrow> string \<Rightarrow> string \<Rightarrow> TransactionExecutionResult" where
  "execRejected status code reason =
     \<lparr>xrStatus = status, xrCode = code, xrReason = reason, xrAccounts = [], xrReceipt = emptyReceipt,
      xrTouchedAccounts = [], xrTouchedDomains = []\<rparr>"

subsection \<open>The router\<close>

definition handlerCall :: "TransactionHandler \<Rightarrow> 'd TransactionDomainExecutor \<Rightarrow> 'd domainCall" where
  "handlerCall handler ex =
     (case handler of
        Handle_BURN \<Rightarrow> applyBurn ex
      | Handle_STAKE_DEPOSIT \<Rightarrow> applyStakeDeposit ex
      | Handle_STAKE_UNLOCK \<Rightarrow> applyStakeUnlock ex
      | Handle_STAKE_WITHDRAW \<Rightarrow> applyStakeWithdraw ex
      | Handle_STAKE_TOP_UP \<Rightarrow> applyStakeTopUp ex
      | Handle_VALIDATOR_REGISTER \<Rightarrow> applyValidatorRegister ex
      | Handle_VALIDATOR_EXIT_REQUEST \<Rightarrow> applyValidatorExitRequest ex
      | Handle_VALIDATOR_UNJAIL_REQUEST \<Rightarrow> applyValidatorUnjailRequest ex
      | Handle_VALIDATOR_KEY_ROTATE \<Rightarrow> applyValidatorKeyRotate ex
      | Handle_GOVERNANCE_PROPOSE \<Rightarrow> applyGovernanceProposal ex
      | Handle_GOVERNANCE_VOTE \<Rightarrow> applyGovernanceVote ex
      | Handle_GOVERNANCE_EXECUTE \<Rightarrow> applyGovernanceExecute ex
      | Handle_TRANSFER \<Rightarrow> (\<lambda>_ _ _ _ d.
          (Inr (domainRejected ''UNREGISTERED_HANDLER'' ''Transaction handler is not registered.''), d)))"

definition dispatchDomain ::
    "Transaction \<Rightarrow> AccountStateView \<Rightarrow> TransactionHandler \<Rightarrow> 'd TransactionExecutionContext
       \<Rightarrow> (TransactionDomainExecutionResult, 'd TransactionExecutionContext) outcome" where
  "dispatchDomain tx accounts handler ctx =
     (if handler = Handle_TRANSFER
      then (Inr (domainAccepted accounts (case xcDomain ctx of None \<Rightarrow> [] | Some (ex, d) \<Rightarrow> domainsOf ex d)), ctx)
      else case xcDomain ctx of
        None \<Rightarrow>
          (Inr (if requireDomainExecutor ctx
                then domainRejected ''DOMAIN_EXECUTOR_REQUIRED'' ''Canonical execution context has no domain executor.''
                else domainAccepted accounts []), ctx)
      | Some (ex, d) \<Rightarrow>
          (case handlerCall handler ex tx accounts (xcHeight ctx) (xcTimestamp ctx) d of
             (r, d') \<Rightarrow> (r, ctx\<lparr>xcDomain := Some (ex, d')\<rparr>)))"

text \<open>One \<open>putAccount\<close> that adds to a balance; \<open>None\<close> when the update is refused.\<close>

definition creditAccount :: "string \<Rightarrow> Amount \<Rightarrow> AccountStateView \<Rightarrow> AccountStateView option result" where
  "creditAccount address amount accounts =
     (let account = accountOrDefault accounts address in
      bindR (amountAdd (accBalance account) amount) (\<lambda>balance.
      case putAccount \<lparr>accAddress = address, accBalance = balance, accNonce = accNonce account\<rparr> accounts of
        (ok, accounts') \<Rightarrow> Inr (if ok then Some accounts' else None)))"

definition payTarget :: "Transaction \<Rightarrow> TransactionTypePolicy \<Rightarrow> AccountStateView \<Rightarrow> AccountStateView option result" where
  "payTarget tx policy accounts =
     (if creditRule policy = TARGET_AMOUNT then creditAccount (txTo tx) (txAmount tx) accounts else Inr (Some accounts))"

definition payFee :: "Transaction \<Rightarrow> string \<Rightarrow> AccountStateView \<Rightarrow> AccountStateView option result" where
  "payFee tx feeTo accounts =
     (if feeTo \<noteq> [] then creditAccount feeTo (txFee tx) accounts else Inr (Some accounts))"

text \<open>
  The account part of \<open>execute\<close>: a rejection, or the accounts after the debit and the credits.
\<close>

definition chargeAccounts ::
    "Transaction \<Rightarrow> TransactionTypePolicy \<Rightarrow> 'd TransactionExecutionContext
       \<Rightarrow> (TransactionExecutionResult + AccountStateView) result" where
  "chargeAccounts tx policy ctx =
     (let accounts = xcAccounts ctx; sender = accountOrDefault accounts (txFrom tx) in
      if \<not> hasAccount accounts (txFrom tx) \<and> \<not> allowMissingAccounts ctx
      then Inr (Inl (execRejected Exec_INVALID_TRANSACTION ''UNKNOWN_SENDER'' ''Sender account does not exist.''))
      else if \<not> accountValid sender \<or> accNonce sender = U64_MAX \<or> txNonce tx \<noteq> accNonce sender + 1
      then Inr (Inl (execRejected Exec_INVALID_NONCE ''INVALID_NONCE'' ''Transaction nonce does not match sender state.''))
      else bindR (maximumDebit tx) (\<lambda>debit.
      if accBalance sender < debit
      then Inr (Inl (execRejected Exec_INSUFFICIENT_BALANCE ''INSUFFICIENT_BALANCE''
                       ''Sender balance is insufficient for this transaction.''))
      else bindR (amountSub (accBalance sender) debit) (\<lambda>left.
      bindR (if creditRule policy = SENDER_AMOUNT then amountAdd left (txAmount tx) else Inr left) (\<lambda>balance.
      case putAccount \<lparr>accAddress = accAddress sender, accBalance = balance, accNonce = txNonce tx\<rparr> accounts of
        (False, _) \<Rightarrow>
          Inr (Inl (execRejected Exec_STATE_ERROR ''ACCOUNT_UPDATE_FAILED'' ''Sender account update failed.''))
      | (True, debited) \<Rightarrow>
          bindR (payTarget tx policy debited) (\<lambda>credited.
          case credited of
            None \<Rightarrow> Inr (Inl (execRejected Exec_STATE_ERROR ''RECIPIENT_UPDATE_FAILED'' ''Recipient account update failed.''))
          | Some paid \<Rightarrow>
              bindR (payFee tx (feeRecipientAddress ctx) paid) (\<lambda>settled.
              case settled of
                None \<Rightarrow> Inr (Inl (execRejected Exec_STATE_ERROR ''FEE_UPDATE_FAILED'' ''Fee recipient update failed.''))
              | Some final \<Rightarrow> Inr (Inr final)))))))"

definition touchedAccounts :: "Transaction \<Rightarrow> TransactionTypePolicy \<Rightarrow> 'd TransactionExecutionContext \<Rightarrow> string list" where
  "touchedAccounts tx policy ctx =
     sort (remdups ([txFrom tx] @ (if creditRule policy = TARGET_AMOUNT then [txTo tx] else [])
       @ (if feeRecipientAddress ctx \<noteq> [] then [feeRecipientAddress ctx] else [])))"

text \<open>A transfer over the coin lots works on a copy, which replaces the registry when it succeeds.\<close>

definition transferLots ::
    "Transaction \<Rightarrow> TransactionTypePolicy \<Rightarrow> 'd TransactionExecutionContext
       \<Rightarrow> (unit, 'd TransactionExecutionContext) outcome" where
  "transferLots tx policy ctx =
     (case xcCoinLots ctx of
        Some reg \<Rightarrow>
          if polHandler policy = Handle_TRANSFER
          then case applyTransfer tx (xcHeight ctx) reg of
                 (Inl e, _) \<Rightarrow> (Inl e, ctx)
               | (Inr _, candidate) \<Rightarrow> (Inr (), ctx\<lparr>xcCoinLots := Some candidate\<rparr>)
          else (Inr (), ctx)
      | None \<Rightarrow> (Inr (), ctx))"

definition lotCommitment :: "sha256 \<Rightarrow> CoinLotRegistry \<Rightarrow> string result" where
  "lotCommitment sha reg = bindR (coinLotRegistrySerialize reg) (\<lambda>s. Inr (nodo_hash_string sha s))"

definition withLots :: "sha256 \<Rightarrow> CoinLotRegistry option \<Rightarrow> (string, string) smap \<Rightarrow> (string, string) smap result" where
  "withLots sha lots domains =
     (case lots of None \<Rightarrow> Inr domains
      | Some reg \<Rightarrow> bindR (lotCommitment sha reg) (\<lambda>digest. Inr (mapPut ''coin_lots'' digest domains)))"

text \<open>The result of an applied transaction: state root, receipt and touched domains.\<close>

definition executionReceipt ::
    "sha256 \<Rightarrow> Transaction \<Rightarrow> TransactionTypePolicy \<Rightarrow> TransactionDomainExecutionResult
       \<Rightarrow> 'd TransactionExecutionContext \<Rightarrow> TransactionExecutionResult result" where
  "executionReceipt sha tx policy domain ctx =
     (let domains = remdups_adj (sort (polTouched policy @
                      (if xcCoinLots ctx \<noteq> None \<and> polHandler policy = Handle_TRANSFER then [''coin_lots''] else [])));
          nonceBefore = accNonce (accountOrDefault (xcAccounts ctx) (txFrom tx))
      in bindR (withLots sha (xcCoinLots ctx) (domDomains domain)) (\<lambda>commitments.
         bindR (calculateProtocolStateRoot sha (domAccounts domain) commitments) (\<lambda>root.
         Inr (execApplied (domAccounts domain) (receiptApplied tx nonceBefore root domains)
                (touchedAccounts tx policy ctx) domains))))"

text \<open>The body of the \<open>try\<close> block.\<close>

definition executeBody ::
    "sha256 \<Rightarrow> Transaction \<Rightarrow> 'd TransactionExecutionContext
       \<Rightarrow> (TransactionExecutionResult, 'd TransactionExecutionContext) outcome" where
  "executeBody sha tx ctx =
     (case validateShape tx of
        Some reason \<Rightarrow> (Inr (execRejected Exec_INVALID_TRANSACTION ''INVALID_SHAPE'' reason), ctx)
      | None \<Rightarrow>
     (case policyFor (txType tx) of
        Inl e \<Rightarrow> (Inl e, ctx)
      | Inr policy \<Rightarrow>
          if \<not> enforceAccountState ctx
          then (case dispatchDomain tx (xcAccounts ctx) (polHandler policy) ctx of
                  (Inl e, ctx') \<Rightarrow> (Inl e, ctx')
                | (Inr domain, ctx') \<Rightarrow>
                    (Inr (if \<not> domApplied domain
                          then execRejected Exec_DOMAIN_REJECTED (domCode domain) (domReason domain)
                          else execApplied (domAccounts domain) emptyReceipt
                                 (txFrom tx # (if creditRule policy = TARGET_AMOUNT then [txTo tx] else []))
                                 (sort (polTouched policy))), ctx'))
          else case chargeAccounts tx policy ctx of
            Inl e \<Rightarrow> (Inl e, ctx)
          | Inr (Inl rejection) \<Rightarrow> (Inr rejection, ctx)
          | Inr (Inr accounts) \<Rightarrow>
              (case transferLots tx policy ctx of
                 (Inl e, ctx1) \<Rightarrow> (Inl e, ctx1)
               | (Inr _, ctx1) \<Rightarrow>
                   (case dispatchDomain tx accounts (polHandler policy) ctx1 of
                      (Inl e, ctx2) \<Rightarrow> (Inl e, ctx2)
                    | (Inr domain, ctx2) \<Rightarrow>
                        if \<not> domApplied domain
                        then (Inr (execRejected Exec_DOMAIN_REJECTED (domCode domain) (domReason domain)), ctx2)
                        else (executionReceipt sha tx policy domain ctx2, ctx2)))))"

definition execute ::
    "sha256 \<Rightarrow> Transaction \<Rightarrow> 'd TransactionExecutionContext
       \<Rightarrow> TransactionExecutionResult \<times> 'd TransactionExecutionContext" where
  "execute sha tx ctx =
     (case executeBody sha tx ctx of
        (Inl e, ctx') \<Rightarrow> (execRejected Exec_STATE_ERROR ''EXECUTION_EXCEPTION'' (exnWhat e), ctx')
      | (Inr r, ctx') \<Rightarrow> (r, ctx'))"

subsection \<open>What a transaction does to the accounts\<close>

definition debitRaw :: "TransactionTypePolicy \<Rightarrow> Transaction \<Rightarrow> int" where
  "debitRaw policy tx =
     (if debitRule policy = AMOUNT_PLUS_FEE then rawUnits (txAmount tx) else 0) + rawUnits (txFee tx)"

text \<open>The change of the balance of an address.\<close>

definition balanceDelta :: "Transaction \<Rightarrow> TransactionTypePolicy \<Rightarrow> string \<Rightarrow> string \<Rightarrow> int" where
  "balanceDelta tx policy feeTo a =
     (if a = txFrom tx then (if creditRule policy = SENDER_AMOUNT then rawUnits (txAmount tx) else 0) - debitRaw policy tx else 0)
     + (if creditRule policy = TARGET_AMOUNT \<and> a = txTo tx then rawUnits (txAmount tx) else 0)
     + (if feeTo \<noteq> [] \<and> a = feeTo then rawUnits (txFee tx) else 0)"

definition totalDelta :: "Transaction \<Rightarrow> TransactionTypePolicy \<Rightarrow> string \<Rightarrow> int" where
  "totalDelta tx policy feeTo =
     (if creditRule policy = Credit_NONE then 0 else rawUnits (txAmount tx)) - debitRaw policy tx
     + (if feeTo \<noteq> [] then rawUnits (txFee tx) else 0)"

lemma creditAccount_Some:
  assumes "creditAccount address amount v = Inr (Some v')" and "viewOk v" and "amountOk amount"
  shows "viewOk v'" "balanceOf v' a = balanceOf v a + (if a = address then rawUnits amount else 0)"
    "nonceOf v' a = nonceOf v a" "totalBalance v' = totalBalance v + rawUnits amount"
proof -
  let ?acc = "accountOrDefault v address"
  obtain b where b: "amountAdd (accBalance ?acc) amount = Inr b"
    and put: "accountValid \<lparr>accAddress = address, accBalance = b, accNonce = accNonce ?acc\<rparr>"
      "v' = mapPut address \<lparr>accAddress = address, accBalance = b, accNonce = accNonce ?acc\<rparr> v"
    using assms(1) by (auto simp: creditAccount_def Let_def putAccount_def split: if_splits)
  note acc = accountOrDefault_ok [OF assms(2), of address]
  have b': "rawUnits b = balanceOf v address + rawUnits amount" "amountOk b"
    using b acc(2) assms(3) by (auto simp: balanceOf_def amountAdd_ok amountOk_def split: if_splits)
  show "viewOk v'" using viewOk_put [OF assms(2) put(1)] b'(2) put(2) by simp
  show "balanceOf v' a = balanceOf v a + (if a = address then rawUnits amount else 0)" using put(2) b' by simp
  show "nonceOf v' a = nonceOf v a" using put(2) by simp (simp add: nonceOf_def)
  show "totalBalance v' = totalBalance v + rawUnits amount"
    using totalBalance_put [OF assms(2) put(1)] b' put(2) by simp
qed

lemma maximumDebit_raw:
  assumes "maximumDebit tx = Inr debit" and "policyFor (txType tx) = Inr policy"
    and "amountOk (txAmount tx)" and "amountOk (txFee tx)"
  shows "amountOk debit" "rawUnits debit = debitRaw policy tx"
  using assms by (auto simp: maximumDebit_def debitRaw_def amountAdd_ok amountOk_def split: if_splits)

lemma charge_steps:
  assumes "chargeAccounts tx policy ctx = Inr (Inr v)"
  obtains debit left balance debited paid where
    "accountValid (accountOrDefault (xcAccounts ctx) (txFrom tx))"
    "accNonce (accountOrDefault (xcAccounts ctx) (txFrom tx)) \<noteq> U64_MAX"
    "txNonce tx = accNonce (accountOrDefault (xcAccounts ctx) (txFrom tx)) + 1" "maximumDebit tx = Inr debit"
    "amountSub (accBalance (accountOrDefault (xcAccounts ctx) (txFrom tx))) debit = Inr left"
    "(if creditRule policy = SENDER_AMOUNT then amountAdd left (txAmount tx) else Inr left) = Inr balance"
    "putAccount \<lparr>accAddress = accAddress (accountOrDefault (xcAccounts ctx) (txFrom tx)), accBalance = balance,
       accNonce = txNonce tx\<rparr> (xcAccounts ctx) = (True, debited)"
    "payTarget tx policy debited = Inr (Some paid)" "payFee tx (feeRecipientAddress ctx) paid = Inr (Some v)"
proof -
  let ?sender = "accountOrDefault (xcAccounts ctx) (txFrom tx)"
  note charge = assms [unfolded chargeAccounts_def Let_def]
  have ok: "\<not> (\<not> hasAccount (xcAccounts ctx) (txFrom tx) \<and> \<not> allowMissingAccounts ctx)"
    "accountValid ?sender" "accNonce ?sender \<noteq> U64_MAX" "txNonce tx = accNonce ?sender + 1"
    using charge by (auto split: if_splits)
  note charge = charge [unfolded if_not_P [OF ok(1)]]
  obtain debit where debit: "maximumDebit tx = Inr debit" "\<not> accBalance ?sender < debit"
    using charge ok by (cases "maximumDebit tx") (auto split: if_splits)
  obtain left where left: "amountSub (accBalance ?sender) debit = Inr left"
    using charge ok debit by (cases "amountSub (accBalance ?sender) debit") auto
  obtain balance where balance: "(if creditRule policy = SENDER_AMOUNT then amountAdd left (txAmount tx) else Inr left) = Inr balance"
    using charge ok debit left by (cases "if creditRule policy = SENDER_AMOUNT then amountAdd left (txAmount tx) else Inr left") auto
  obtain b debited where put: "putAccount \<lparr>accAddress = accAddress ?sender, accBalance = balance, accNonce = txNonce tx\<rparr>
      (xcAccounts ctx) = (b, debited)" by fastforce
  have rest: "(case (b, debited) of
        (False, _) \<Rightarrow>
          Inr (Inl (execRejected Exec_STATE_ERROR ''ACCOUNT_UPDATE_FAILED'' ''Sender account update failed.''))
      | (True, debited) \<Rightarrow>
          bindR (payTarget tx policy debited) (\<lambda>credited.
          case credited of
            None \<Rightarrow> Inr (Inl (execRejected Exec_STATE_ERROR ''RECIPIENT_UPDATE_FAILED'' ''Recipient account update failed.''))
          | Some paid \<Rightarrow>
              bindR (payFee tx (feeRecipientAddress ctx) paid) (\<lambda>settled.
              case settled of
                None \<Rightarrow> Inr (Inl (execRejected Exec_STATE_ERROR ''FEE_UPDATE_FAILED'' ''Fee recipient update failed.''))
              | Some final \<Rightarrow> Inr (Inr final)))) = (Inr (Inr v) :: (TransactionExecutionResult + AccountStateView) result)"
    using charge ok debit left balance put by simp
  then have b: "b" by (cases b) auto
  moreover obtain paid where "payTarget tx policy debited = Inr (Some paid)" "payFee tx (feeRecipientAddress ctx) paid = Inr (Some v)"
    using rest b by (auto split: option.splits)
  ultimately show ?thesis using that ok(2-4) debit(1) left balance put by simp
qed

lemma charged:
  assumes "chargeAccounts tx policy ctx = Inr (Inr v)" and "policyFor (txType tx) = Inr policy"
    and "viewOk (xcAccounts ctx)" and "amountOk (txAmount tx)" and "amountOk (txFee tx)"
  shows "viewOk v" "txFrom tx \<noteq> []" "nonceOf (xcAccounts ctx) (txFrom tx) \<noteq> U64_MAX"
    "txNonce tx = nonceOf (xcAccounts ctx) (txFrom tx) + 1"
    "nonceOf v a = (if a = txFrom tx then txNonce tx else nonceOf (xcAccounts ctx) a)"
    "balanceOf v a = balanceOf (xcAccounts ctx) a + balanceDelta tx policy (feeRecipientAddress ctx) a"
    "totalBalance v = totalBalance (xcAccounts ctx) + totalDelta tx policy (feeRecipientAddress ctx)"
proof -
  let ?v = "xcAccounts ctx" and ?from = "txFrom tx" and ?feeTo = "feeRecipientAddress ctx"
  let ?sender = "accountOrDefault ?v ?from"
  note sender = accountOrDefault_ok [OF assms(3), of ?from]
  obtain debit left balance debited paid where valid: "accountValid ?sender" "accNonce ?sender \<noteq> U64_MAX"
      "txNonce tx = accNonce ?sender + 1"
    and debit: "maximumDebit tx = Inr debit" "amountSub (accBalance ?sender) debit = Inr left"
    and balance: "(if creditRule policy = SENDER_AMOUNT then amountAdd left (txAmount tx) else Inr left) = Inr balance"
    and paid: "putAccount \<lparr>accAddress = accAddress ?sender, accBalance = balance, accNonce = txNonce tx\<rparr> ?v = (True, debited)"
      "payTarget tx policy debited = Inr (Some paid)" "payFee tx ?feeTo paid = Inr (Some v)"
    using assms(1) by (rule charge_steps)
  show "txFrom tx \<noteq> []" using valid(1) sender(1) by (simp add: accountValid_def)
  show "nonceOf ?v ?from \<noteq> U64_MAX" "txNonce tx = nonceOf ?v ?from + 1" using valid by (simp_all add: nonceOf_def)
  note max = maximumDebit_raw [OF debit(1) assms(2,4,5)]
  have "rawUnits left = balanceOf ?v ?from - debitRaw policy tx" "amountOk left"
    using debit(2) max sender(2) by (auto simp: balanceOf_def amountSub_ok amountOk_def split: if_splits)
  then have bal: "rawUnits balance = balanceOf ?v ?from - debitRaw policy tx
      + (if creditRule policy = SENDER_AMOUNT then rawUnits (txAmount tx) else 0)" "amountOk balance"
    using balance assms(4) by (auto simp: amountAdd_ok amountOk_def split: if_splits)
  let ?new = "\<lparr>accAddress = ?from, accBalance = balance, accNonce = txNonce tx\<rparr>"
  have put: "accountValid ?new" "debited = mapPut ?from ?new ?v"
    using paid(1) sender(1) by (auto simp: putAccount_def split: if_splits)
  have ok: "viewOk debited" using viewOk_put [OF assms(3) put(1)] bal(2) put(2) by simp
  have total: "totalBalance debited = totalBalance ?v - balanceOf ?v ?from + rawUnits balance"
    using totalBalance_put [OF assms(3) put(1)] bal(2) put(2) by simp
  have target: "viewOk paid" "nonceOf paid a = nonceOf debited a"
    "balanceOf paid a = balanceOf debited a + (if creditRule policy = TARGET_AMOUNT \<and> a = txTo tx then rawUnits (txAmount tx) else 0)"
    "totalBalance paid = totalBalance debited + (if creditRule policy = TARGET_AMOUNT then rawUnits (txAmount tx) else 0)" for a
    using paid(2) creditAccount_Some [OF _ ok assms(4)] ok by (auto simp: payTarget_def split: if_splits)
  have fee: "viewOk v" "nonceOf v a = nonceOf paid a"
    "balanceOf v a = balanceOf paid a + (if ?feeTo \<noteq> [] \<and> a = ?feeTo then rawUnits (txFee tx) else 0)"
    "totalBalance v = totalBalance paid + (if ?feeTo \<noteq> [] then rawUnits (txFee tx) else 0)" for a
    using paid(3) creditAccount_Some [OF _ target(1) assms(5)] target(1) by (auto simp: payFee_def split: if_splits)
  show "viewOk v" by (rule fee(1))
  show "nonceOf v a = (if a = ?from then txNonce tx else nonceOf ?v a)" using fee(2) target(2) put(2) by simp
  show "balanceOf v a = balanceOf ?v a + balanceDelta tx policy ?feeTo a"
    using fee(3) target(3) put(2) bal(1) by (simp add: balanceDelta_def)
  show "totalBalance v = totalBalance ?v + totalDelta tx policy ?feeTo"
    using fee(4) target(4) total bal(1) by (cases "creditRule policy") (simp_all add: totalDelta_def)
qed

definition neverStops :: "TransactionExecutionStatus \<Rightarrow> (TransactionExecutionResult + 'a) result \<Rightarrow> bool" where
  "neverStops s r \<longleftrightarrow> (\<forall>x. r = Inr (Inl x) \<longrightarrow> xrStatus x \<noteq> s)"

lemma neverStops_intros:
  "neverStops s (Inl e)" "neverStops s (Inr (Inr v))"
  "status \<noteq> s \<Longrightarrow> neverStops s (Inr (Inl (execRejected status code reason)))"
  "(\<And>x. neverStops s (f x)) \<Longrightarrow> neverStops s (bindR m f)"
  by (auto simp: neverStops_def execRejected_def)

lemma charge_rejects: "chargeAccounts tx policy ctx = Inr (Inl r) \<Longrightarrow> xrStatus r \<noteq> Exec_APPLIED"
proof -
  have "neverStops Exec_APPLIED (chargeAccounts tx policy ctx)"
    unfolding chargeAccounts_def Let_def
    by (auto intro!: neverStops_intros split: prod.splits bool.splits option.splits)
  then show "chargeAccounts tx policy ctx = Inr (Inl r) \<Longrightarrow> xrStatus r \<noteq> Exec_APPLIED" by (simp add: neverStops_def)
qed

lemma charge_nonce:
  assumes "chargeAccounts tx policy ctx = Inr (Inl r)" and "xrStatus r = Exec_INVALID_NONCE"
  shows "\<not> accountValid (accountOrDefault (xcAccounts ctx) (txFrom tx)) \<or> nonceOf (xcAccounts ctx) (txFrom tx) = U64_MAX \<or>
         txNonce tx \<noteq> nonceOf (xcAccounts ctx) (txFrom tx) + 1"
proof (rule ccontr)
  assume "\<not> ?thesis"
  then have "neverStops Exec_INVALID_NONCE (chargeAccounts tx policy ctx)"
    unfolding chargeAccounts_def Let_def nonceOf_def
    by (auto intro!: neverStops_intros split: prod.splits bool.splits option.splits)
  then show False using assms by (simp add: neverStops_def)
qed

text \<open>The steps of an applied transaction.\<close>

lemma execute_steps:
  assumes "execute sha tx ctx = (res, ctx')" and "xrStatus res = Exec_APPLIED" and "enforceAccountState ctx"
  obtains policy v ctx1 domain where "validateShape tx = None" "policyFor (txType tx) = Inr policy"
    "chargeAccounts tx policy ctx = Inr (Inr v)" "transferLots tx policy ctx = (Inr (), ctx1)"
    "dispatchDomain tx v (polHandler policy) ctx1 = (Inr domain, ctx')" "domApplied domain"
    "executionReceipt sha tx policy domain ctx' = Inr res"
proof -
  have body: "executeBody sha tx ctx = (Inr res, ctx')"
    using assms(1,2) by (auto simp: execute_def execRejected_def split: prod.splits sum.splits)
  have shape: "validateShape tx = None" using body assms(2) by (auto simp: executeBody_def execRejected_def split: option.splits)
  obtain policy where policy: "policyFor (txType tx) = Inr policy" using find_policy by blast
  obtain v where v: "chargeAccounts tx policy ctx = Inr (Inr v)"
    using body shape policy assms(2,3) charge_rejects [of tx policy ctx]
    by (cases "chargeAccounts tx policy ctx") (auto simp: executeBody_def split: sum.splits)
  obtain ctx1 where lots: "transferLots tx policy ctx = (Inr (), ctx1)"
    using body shape policy v assms(3) by (auto simp: executeBody_def split: prod.splits sum.splits)
  obtain domain where "dispatchDomain tx v (polHandler policy) ctx1 = (Inr domain, ctx')" "domApplied domain"
      "executionReceipt sha tx policy domain ctx' = Inr res"
    using body shape policy v lots assms(2,3)
    by (auto simp: executeBody_def execRejected_def split: prod.splits sum.splits if_splits)
  then show ?thesis using that shape policy v lots by blast
qed

text \<open>
  What the router relies on: a domain operation that is applied returns the accounts it was given.
  A weaker law suffices for nonces: the accounts it returns are valid and keep every nonce.
\<close>

definition accountNeutral :: "'d TransactionDomainExecutor \<Rightarrow> TransactionHandler \<Rightarrow> bool" where
  "accountNeutral ex handler \<longleftrightarrow>
     (\<forall>tx v height now d r d'. handlerCall handler ex tx v height now d = (Inr r, d') \<and> domApplied r \<longrightarrow> domAccounts r = v)"

definition nonceKeeping :: "'d TransactionDomainExecutor \<Rightarrow> TransactionHandler \<Rightarrow> bool" where
  "nonceKeeping ex handler \<longleftrightarrow>
     (\<forall>tx v height now d r d'. handlerCall handler ex tx v height now d = (Inr r, d') \<and> domApplied r \<and> viewOk v \<longrightarrow>
        viewOk (domAccounts r) \<and> nonceOf (domAccounts r) = nonceOf v)"

lemma accountNeutralD:
  "accountNeutral ex handler \<Longrightarrow> handlerCall handler ex tx v height now d = (Inr r, d') \<Longrightarrow> domApplied r \<Longrightarrow> domAccounts r = v"
  unfolding accountNeutral_def by blast

lemma nonceKeepingD:
  "nonceKeeping ex handler \<Longrightarrow> handlerCall handler ex tx v height now d = (Inr r, d') \<Longrightarrow> domApplied r \<Longrightarrow> viewOk v \<Longrightarrow>
     viewOk (domAccounts r) \<and> nonceOf (domAccounts r) = nonceOf v"
  unfolding nonceKeeping_def by blast

lemma neutral_keeps_nonces: "accountNeutral ex handler \<Longrightarrow> nonceKeeping ex handler"
  unfolding accountNeutral_def nonceKeeping_def by blast

abbreviation domainLaw :: "('d TransactionDomainExecutor \<Rightarrow> TransactionHandler \<Rightarrow> bool) \<Rightarrow> TransactionHandler \<Rightarrow> 'd TransactionExecutionContext \<Rightarrow> bool" where
  "domainLaw law handler ctx \<equiv> case xcDomain ctx of None \<Rightarrow> True | Some (ex, _) \<Rightarrow> law ex handler"

lemma dispatch_neutral:
  assumes "dispatchDomain tx v handler ctx = (Inr domain, ctx')" and "domApplied domain" and "domainLaw accountNeutral handler ctx"
  shows "domAccounts domain = v"
  using assms
  by (auto dest: accountNeutralD simp: dispatchDomain_def domainAccepted_def domainRejected_def Let_def split: if_splits option.splits prod.splits)

lemma dispatch_nonces:
  assumes "dispatchDomain tx v handler ctx = (Inr domain, ctx')" and "domApplied domain" and "viewOk v"
    and "domainLaw nonceKeeping handler ctx"
  shows "viewOk (domAccounts domain) \<and> nonceOf (domAccounts domain) = nonceOf v"
  using assms
  by (auto dest: nonceKeepingD simp: dispatchDomain_def domainAccepted_def domainRejected_def Let_def split: if_splits option.splits prod.splits)

lemma dispatch_frame:
  assumes "dispatchDomain tx v handler ctx = (r, ctx')"
  shows "xcAccounts ctx' = xcAccounts ctx" "xcCoinLots ctx' = xcCoinLots ctx"
    "feeRecipientAddress ctx' = feeRecipientAddress ctx" "map_option fst (xcDomain ctx') = map_option fst (xcDomain ctx)"
  using assms by (auto simp: dispatchDomain_def split: if_splits option.splits prod.splits)

lemma lots_frame:
  assumes "transferLots tx policy ctx = (r, ctx')"
  shows "xcAccounts ctx' = xcAccounts ctx" "feeRecipientAddress ctx' = feeRecipientAddress ctx"
    "xcDomain ctx' = xcDomain ctx"
  using assms by (auto simp: transferLots_def split: if_splits option.splits prod.splits sum.splits)

lemma receipt_fields:
  assumes "executionReceipt sha tx policy domain ctx = Inr res"
  shows "xrAccounts res = domAccounts domain" "xrTouchedAccounts res = touchedAccounts tx policy ctx"
    "\<exists>root commitments. withLots sha (xcCoinLots ctx) (domDomains domain) = Inr commitments \<and>
       calculateProtocolStateRoot sha (domAccounts domain) commitments = Inr root \<and>
       xrReceipt res = receiptApplied tx (nonceOf (xcAccounts ctx) (txFrom tx)) root (xrTouchedDomains res)"
  using assms by (auto simp: executionReceipt_def Let_def execApplied_def nonceOf_def)

lemma execute_nonces:
  assumes "execute sha tx ctx = (res, ctx')" and "xrStatus res = Exec_APPLIED" and "enforceAccountState ctx"
    and "viewOk (xcAccounts ctx)" and "amountOk (txAmount tx)" and "amountOk (txFee tx)"
    and "\<And>handler. domainLaw nonceKeeping handler ctx"
  shows "viewOk (xrAccounts res)" "nonceOf (xcAccounts ctx) (txFrom tx) \<noteq> U64_MAX"
    "txNonce tx = nonceOf (xcAccounts ctx) (txFrom tx) + 1"
    "nonceOf (xrAccounts res) = (nonceOf (xcAccounts ctx)) (txFrom tx := txNonce tx)"
proof -
  from execute_steps [OF assms(1-3)] obtain policy v ctx1 domain where steps: "policyFor (txType tx) = Inr policy"
    "chargeAccounts tx policy ctx = Inr (Inr v)" "transferLots tx policy ctx = (Inr (), ctx1)"
    "dispatchDomain tx v (polHandler policy) ctx1 = (Inr domain, ctx')" "domApplied domain"
    "executionReceipt sha tx policy domain ctx' = Inr res" by metis
  note charge = charged [OF steps(2,1) assms(4-6)]
  have "viewOk (domAccounts domain) \<and> nonceOf (domAccounts domain) = nonceOf v"
    using dispatch_nonces [OF steps(4,5) charge(1)] assms(7) lots_frame(3) [OF steps(3)] by simp
  then show "viewOk (xrAccounts res)" "nonceOf (xrAccounts res) = (nonceOf (xcAccounts ctx)) (txFrom tx := txNonce tx)"
    using receipt_fields(1) [OF steps(6)] charge(5) by (auto simp: fun_eq_iff)
  show "nonceOf (xcAccounts ctx) (txFrom tx) \<noteq> U64_MAX" "txNonce tx = nonceOf (xcAccounts ctx) (txFrom tx) + 1"
    using charge by simp_all
qed



subsection \<open>A transfer that is applied\<close>

definition demoContext :: "unit TransactionExecutionContext" where
  "demoContext =
     \<lparr>xcAccounts = [(''alice'', \<lparr>accAddress = ''alice'', accBalance = Amount 10, accNonce = 0\<rparr>)], xcHeight = 3,
      xcTimestamp = 50, enforceAccountState = True, allowMissingAccounts = False, requireDomainExecutor = False,
      feeRecipientAddress = feePoolAddress, xcCoinLots = Some [(''lot'', demoLot ''lot'' ''alice'' 10)], xcDomain = None\<rparr>"

lemma demo_context_ok:
  "enforceAccountState demoContext" "viewOk (xcAccounts demoContext)" "feeRecipientAddress demoContext = feePoolAddress"
  "xcCoinLots demoContext = Some [(''lot'', demoLot ''lot'' ''alice'' 10)]" "lotsInv [(''lot'', demoLot ''lot'' ''alice'' 10)]"
  "\<forall>a. balanceOf (xcAccounts demoContext) a = int (spendableValue [(''lot'', demoLot ''lot'' ''alice'' 10)] a)"
proof -
  show "viewOk (xcAccounts demoContext)" "lotsInv [(''lot'', demoLot ''lot'' ''alice'' 10)]" by code_simp+
qed (auto simp: demoContext_def balanceOf_def accountOrDefault_def zeroAmount_def spendableValue_def ownValue_def demoLot_def
      isAvailable_def)

lemma demo_amounts:
  "amountOk (txAmount (demoTransfer lots n))" "amountOk (txFee (demoTransfer lots n))" "txType (demoTransfer lots n) = TRANSFER"
  by (simp_all add: demoTransfer_def withTxId_fields amountOk_def in_i64_def I64_MAX_def I64_MIN_def)

lemma demo_executed:
  "\<exists>res ctx'. execute demoSha (demoTransfer [''lot''] 1) demoContext = (res, ctx') \<and> xrStatus res = Exec_APPLIED"
proof -
  let ?tx = "demoTransfer [''lot''] 1"
  have policy: "policyFor (txType ?tx) = Inr (hd policies)" "polHandler (hd policies) = Handle_TRANSFER" by code_simp+
  have "case chargeAccounts ?tx (hd policies) demoContext of Inr (Inr v) \<Rightarrow> True | _ \<Rightarrow> False" by code_simp
  then obtain v where v: "chargeAccounts ?tx (hd policies) demoContext = Inr (Inr v)" by (auto split: sum.splits)
  have ok: "viewOk v" using charged(1) [OF v policy(1) demo_context_ok(2)] demo_amounts by simp
  have "case transferLots ?tx (hd policies) demoContext of
          (Inr _, ctx1) \<Rightarrow> (case xcCoinLots ctx1 of Some reg \<Rightarrow> isInr (coinLotRegistrySerialize reg) | None \<Rightarrow> False)
        | _ \<Rightarrow> False" by code_simp
  then obtain ctx1 commitments where lots: "transferLots ?tx (hd policies) demoContext = (Inr (), ctx1)"
      "withLots demoSha (xcCoinLots ctx1) [] = Inr commitments"
    by (auto simp: isInr_iff withLots_def lotCommitment_def split: prod.splits sum.splits option.splits)
  have "smallDomains commitments"
    using lots(2) by (auto simp: withLots_def lotCommitment_def smallDomains_def U32_MAX_def split: option.splits)
      (metis length_nodo_hash list.size(3) zero_neq_numeral)
  then obtain root where "calculateProtocolStateRoot demoSha v commitments = Inr root"
    using protocol_root_total [OF ok] by blast
  then have "\<exists>res. executionReceipt demoSha ?tx (hd policies) (domainAccepted v []) ctx1 = Inr res \<and> xrStatus res = Exec_APPLIED"
    using lots(2) by (simp add: executionReceipt_def Let_def domainAccepted_def execApplied_def)
  moreover have "validateShape ?tx = None" by code_simp
  moreover have "domApplied (domainAccepted v [])" using ok by (simp add: domainAccepted_def viewOk_def)
  moreover have "xcDomain ctx1 = None" using lots_frame(3) [OF lots(1)] by (simp add: demoContext_def)
  ultimately show ?thesis
    using policy v lots(1) demo_context_ok(1)
    by (auto simp: execute_def executeBody_def dispatchDomain_def)
qed



end
