(* ===== verification/Mempool.thy ===== *)
theory Mempool
  imports Accounts "HOL-Library.Product_Lexorder"
begin

section \<open>The mempool\<close>

text \<open>
  \<open>src/mempool/Mempool.cpp\<close>: admission with replacement by fee and eviction of the cheapest
  entries, removal, expiry, and the selection of transactions for a block. The pool has an ordered
  map of entries by transaction identifier, an index from sender and nonce to the identifier, and
  the number of bytes of all entries. Byte counts are natural numbers: they count characters that
  are held in memory.

  The selection loop is written with \<open>partial_function\<close>, as the loop of the source; that it
  returns is one of the theorems. The lemmas show that the pool's own consistency check never
  fails, what an admission does on every branch, and which transactions a selection gives.
\<close>

subsection \<open>Configuration, entries, results\<close>

record MempoolConfig =
  maxTransactions :: nat
  minimumFeeRaw :: int
  replaceByHigherFee :: bool
  maxTransactionAgeSeconds :: int
  maxMempoolSizeBytes :: nat
  maxTransactionSizeBytes :: nat

definition mempoolConfigValid :: "MempoolConfig \<Rightarrow> bool" where
  "mempoolConfigValid c \<longleftrightarrow>
     maxTransactions c > 0 \<and> minimumFeeRaw c \<ge> 0 \<and> maxTransactionAgeSeconds c > 0 \<and>
     maxMempoolSizeBytes c > 0 \<and> maxTransactionSizeBytes c > 0"

record MempoolEntry =
  entryTx :: Transaction
  entryAcceptedAt :: int

definition priorityFeeRaw :: "MempoolEntry \<Rightarrow> int" where
  "priorityFeeRaw e = rawUnits (txFee (entryTx e))"

definition senderNonceKey :: "Transaction \<Rightarrow> string" where
  "senderNonceKey tx = txFrom tx @ ''#'' @ showU64 (txNonce tx)"

definition mempoolEntryValid :: "sha256 \<Rightarrow> CryptoPolicy \<Rightarrow> SecurityContext \<Rightarrow> MempoolEntry \<Rightarrow> bool" where
  "mempoolEntryValid sha policy ctx e =
     (if entryAcceptedAt e \<le> 0 then False else txStructurallyValid sha policy ctx (entryTx e))"

definition mempoolEntrySerialize :: "MempoolEntry \<Rightarrow> string" where
  "mempoolEntrySerialize e =
     ''MempoolEntry{acceptedAt='' @ showI64 (entryAcceptedAt e) @ '';priorityFeeRaw='' @ showI64 (priorityFeeRaw e)
       @ '';transaction='' @ txSerialize (entryTx e) @ ''}''"

datatype MempoolAdmissionStatus =
    ACCEPTED | DUPLICATE | REPLACED | INVALID_CONFIG | INVALID_TRANSACTION | FEE_TOO_LOW
  | CAPACITY_REACHED | CONFLICTING_NONCE | TRANSACTION_TOO_LARGE

record MempoolAdmissionResult =
  admissionStatus :: MempoolAdmissionStatus
  admittedId :: string
  replacedId :: string

definition admissionRejected :: "MempoolAdmissionStatus \<Rightarrow> MempoolAdmissionResult" where
  "admissionRejected s = \<lparr>admissionStatus = s, admittedId = [], replacedId = []\<rparr>"

definition admissionSuccess :: "MempoolAdmissionResult \<Rightarrow> bool" where
  "admissionSuccess r \<longleftrightarrow> admissionStatus r = ACCEPTED \<or> admissionStatus r = DUPLICATE \<or> admissionStatus r = REPLACED"

record Mempool =
  mpConfig :: MempoolConfig
  mpEntries :: "(string, MempoolEntry) smap"
  mpByNonce :: "(string, string) smap"
  mpSizeBytes :: nat

definition newMempool :: "MempoolConfig \<Rightarrow> Mempool" where
  "newMempool c = \<lparr>mpConfig = c, mpEntries = [], mpByNonce = [], mpSizeBytes = 0\<rparr>"

subsection \<open>Removal\<close>

definition txBytes :: "Transaction \<Rightarrow> nat" where
  "txBytes tx = length (txSerialize tx)"

definition removeTransaction :: "string \<Rightarrow> Mempool \<Rightarrow> bool \<times> Mempool" where
  "removeTransaction i pool =
     (case map_of (mpEntries pool) i of
        None \<Rightarrow> (False, pool)
      | Some e \<Rightarrow> (True, pool\<lparr>mpSizeBytes := mpSizeBytes pool - txBytes (entryTx e),
                            mpByNonce := mapErase (senderNonceKey (entryTx e)) (mpByNonce pool),
                            mpEntries := mapErase i (mpEntries pool)\<rparr>))"

fun removeTransactions :: "string list \<Rightarrow> Mempool \<Rightarrow> Mempool" where
  "removeTransactions [] pool = pool"
| "removeTransactions (i # is) pool = removeTransactions is (snd (removeTransaction i pool))"

definition pruneExpired :: "int \<Rightarrow> Mempool \<Rightarrow> nat \<times> Mempool" where
  "pruneExpired currentTime pool =
     (if currentTime \<le> 0 then (0, pool)
      else let expired = map fst (filter (\<lambda>(_, e). currentTime > entryAcceptedAt e \<and>
                 currentTime - entryAcceptedAt e > maxTransactionAgeSeconds (mpConfig pool)) (mpEntries pool))
           in (length expired, removeTransactions expired pool))"

definition removeConflicting :: "string \<Rightarrow> u64 \<Rightarrow> Mempool \<Rightarrow> nat \<times> Mempool" where
  "removeConflicting sender upToNonce pool =
     (let conflicting = map fst (filter (\<lambda>(_, e). txFrom (entryTx e) = sender \<and> txNonce (entryTx e) \<le> upToNonce)
            (mpEntries pool))
      in (length conflicting, removeTransactions conflicting pool))"

subsection \<open>Admission\<close>

definition minimumReplacementFee :: "int \<Rightarrow> int" where
  "minimumReplacementFee existing =
     (if existing < 0 then I64_MAX
      else let roundedUp = (existing * 110 + 100 - 1) div 100;
               required = max roundedUp (existing + 1)
           in if required > I64_MAX then I64_MAX else required)"

text \<open>
  The scan for the cheapest, then oldest, entry that is not to be removed already: its
  identifier, fee, acceptance time and size. No entry found is the empty identifier.
\<close>

type_synonym evictionCandidate = "string \<times> int \<times> int \<times> nat"

fun scanCheapest ::
    "string \<Rightarrow> string list \<Rightarrow> evictionCandidate \<Rightarrow> (string, MempoolEntry) smap \<Rightarrow> evictionCandidate" where
  "scanCheapest replaced planned best [] = best"
| "scanCheapest replaced planned best ((i, e) # es) =
     (case best of (_, lowestFee, oldest, _) \<Rightarrow>
      if i = replaced \<or> List.member planned i then scanCheapest replaced planned best es
      else if priorityFeeRaw e < lowestFee \<or> (priorityFeeRaw e = lowestFee \<and> entryAcceptedAt e < oldest)
      then scanCheapest replaced planned (i, priorityFeeRaw e, entryAcceptedAt e, txBytes (entryTx e)) es
      else scanCheapest replaced planned best es)"

definition noCandidate :: evictionCandidate where
  "noCandidate = ([], I64_MAX, I64_MAX, 0)"

definition cheapestEntry :: "string \<Rightarrow> string list \<Rightarrow> Mempool \<Rightarrow> evictionCandidate" where
  "cheapestEntry replaced planned pool = scanCheapest replaced planned noCandidate (mpEntries pool)"

lemma scanCheapest_cases:
  "scanCheapest replaced planned best es = best \<or>
   (\<exists>i e. (i, e) \<in> set es \<and> i \<noteq> replaced \<and> i \<notin> set planned \<and>
      scanCheapest replaced planned best es = (i, priorityFeeRaw e, entryAcceptedAt e, txBytes (entryTx e)))"
proof (induction es arbitrary: best)
  case (Cons ie es)
  obtain i e where ie: "ie = (i, e)" by (cases ie)
  obtain b lowestFee oldest bytes where best: "best = (b, lowestFee, oldest, bytes)" by (cases best)
  let ?cand = "(i, priorityFeeRaw e, entryAcceptedAt e, txBytes (entryTx e))"
  show ?case
  proof (cases "i \<noteq> replaced \<and> i \<notin> set planned \<and>
      (priorityFeeRaw e < lowestFee \<or> (priorityFeeRaw e = lowestFee \<and> entryAcceptedAt e < oldest))")
    case True
    then have "scanCheapest replaced planned best (ie # es) = scanCheapest replaced planned ?cand es"
      using ie best by simp
    then show ?thesis using Cons.IH [of ?cand] True ie by (metis list.set_intros(1,2))
  next
    case False
    then have "scanCheapest replaced planned best (ie # es) = scanCheapest replaced planned best es"
      using ie best by auto
    then show ?thesis using Cons.IH [of best] by (metis list.set_intros(2))
  qed
qed simp

lemma cheapest_entry:
  assumes "cheapestEntry replaced planned pool = (i, lowestFee, oldest, bytes)" and "i \<noteq> []"
  shows "\<exists>e. (i, e) \<in> set (mpEntries pool) \<and> i \<noteq> replaced \<and> i \<notin> set planned \<and>
             lowestFee = priorityFeeRaw e \<and> bytes = txBytes (entryTx e)"
  using scanCheapest_cases [of replaced planned noCandidate "mpEntries pool"] assms
  by (auto simp: cheapestEntry_def noCandidate_def)

lemma cheapest_fewer:
  assumes "cheapestEntry replaced planned pool = (i, rest)" and "i \<noteq> []"
  shows "length (filter (\<lambda>e. fst e \<noteq> i \<and> fst e \<notin> set planned) (mpEntries pool)) <
         length (filter (\<lambda>e. fst e \<notin> set planned) (mpEntries pool))"
proof -
  obtain e where "(i, e) \<in> set (mpEntries pool)" "i \<notin> set planned"
    using cheapest_entry [of replaced planned pool i] assms by (cases rest) auto
  then have "(i, e) \<in> set (filter (\<lambda>e. fst e \<notin> set planned) (mpEntries pool))" by simp
  then have "length (filter (\<lambda>e. fst e \<noteq> i) (filter (\<lambda>e. fst e \<notin> set planned) (mpEntries pool))) <
      length (filter (\<lambda>e. fst e \<notin> set planned) (mpEntries pool))"
    by (intro length_filter_less) auto
  then show ?thesis by (simp add: conj_commute)
qed

text \<open>The eviction plan: the loop until the incoming transaction fits.\<close>

function planEvictions ::
    "Mempool \<Rightarrow> int \<Rightarrow> string \<Rightarrow> nat \<Rightarrow> nat \<Rightarrow> string list \<Rightarrow> MempoolAdmissionStatus + string list" where
  "planEvictions pool fee replaced incoming projected planned =
     (if projected + incoming \<le> maxMempoolSizeBytes (mpConfig pool) then Inr planned
      else case cheapestEntry replaced planned pool of (i, lowestFee, _, bytes) \<Rightarrow>
        if i = [] then Inl CAPACITY_REACHED
        else if fee \<le> lowestFee then Inl FEE_TOO_LOW
        else planEvictions pool fee replaced incoming (projected - bytes) (planned @ [i]))"
  by pat_completeness auto
termination
  by (relation "measure (\<lambda>(pool, fee, replaced, incoming, projected, planned).
        length (filter (\<lambda>e. fst e \<notin> set planned) (mpEntries pool)))")
    (auto dest: sym [THEN cheapest_fewer])

declare planEvictions.simps [simp del]

text \<open>
  \<open>Mempool::admitTransaction\<close>. The checks before the pool is touched, the transaction with the
  same sender and nonce, the eviction plan, and the changes.
\<close>

definition admissionCheck ::
    "sha256 \<Rightarrow> CryptoPolicy \<Rightarrow> SecurityContext \<Rightarrow> int \<Rightarrow> Transaction \<Rightarrow> Mempool \<Rightarrow> MempoolAdmissionStatus option" where
  "admissionCheck sha policy ctx acceptedAt tx pool =
     (let c = mpConfig pool; fee = rawUnits (txFee tx) in
      if \<not> mempoolConfigValid c then Some INVALID_CONFIG
      else if acceptedAt \<le> 0 then Some INVALID_TRANSACTION
      else if \<not> txStructurallyValid sha policy ctx tx then Some INVALID_TRANSACTION
      else if \<not> isMempoolType (txType tx) then Some INVALID_TRANSACTION
      else if fee < minimumFeeRaw c then Some FEE_TOO_LOW
      else if fee > 1000000000000 then Some INVALID_TRANSACTION
      else if txFrom tx = txTo tx then Some INVALID_TRANSACTION
      else if map_of (mpEntries pool) (txId tx) \<noteq> None then Some DUPLICATE
      else if txBytes tx > maxTransactionSizeBytes c then Some TRANSACTION_TOO_LARGE
      else if txBytes tx > maxMempoolSizeBytes c then Some CAPACITY_REACHED
      else None)"

text \<open>The transaction to be replaced, its identifier and size.\<close>

definition findReplaced :: "Transaction \<Rightarrow> Mempool \<Rightarrow> MempoolAdmissionStatus + (string \<times> nat) option" where
  "findReplaced tx pool =
     (case map_of (mpByNonce pool) (senderNonceKey tx) of
        None \<Rightarrow> Inr None
      | Some i \<Rightarrow>
          (case map_of (mpEntries pool) i of
             None \<Rightarrow> Inl INVALID_TRANSACTION
           | Some e \<Rightarrow>
               if \<not> replaceByHigherFee (mpConfig pool) then Inl CONFLICTING_NONCE
               else if rawUnits (txFee tx) < minimumReplacementFee (priorityFeeRaw e) then Inl CONFLICTING_NONCE
               else Inr (Some (i, txBytes (entryTx e)))))"

definition insertEntry :: "Transaction \<Rightarrow> int \<Rightarrow> Mempool \<Rightarrow> Mempool" where
  "insertEntry tx acceptedAt pool =
     pool\<lparr>mpByNonce := snd (mapEmplace (senderNonceKey tx) (txId tx) (mpByNonce pool)),
          mpEntries := snd (mapEmplace (txId tx) \<lparr>entryTx = tx, entryAcceptedAt = acceptedAt\<rparr> (mpEntries pool)),
          mpSizeBytes := mpSizeBytes pool + txBytes tx\<rparr>"

definition admitTransaction ::
    "sha256 \<Rightarrow> CryptoPolicy \<Rightarrow> SecurityContext \<Rightarrow> int \<Rightarrow> Transaction \<Rightarrow> Mempool \<Rightarrow> MempoolAdmissionResult \<times> Mempool" where
  "admitTransaction sha policy ctx acceptedAt tx pool =
     (case admissionCheck sha policy ctx acceptedAt tx pool of
        Some DUPLICATE \<Rightarrow> (\<lparr>admissionStatus = DUPLICATE, admittedId = txId tx, replacedId = []\<rparr>, pool)
      | Some s \<Rightarrow> (admissionRejected s, pool)
      | None \<Rightarrow>
          (case findReplaced tx pool of
             Inl s \<Rightarrow> (admissionRejected s, pool)
           | Inr replaced \<Rightarrow>
               if replaced = None \<and> length (mpEntries pool) \<ge> maxTransactions (mpConfig pool)
               then (admissionRejected CAPACITY_REACHED, pool)
               else let (oldId, oldBytes) = (case replaced of None \<Rightarrow> ([], 0) | Some r \<Rightarrow> r) in
                 case planEvictions pool (rawUnits (txFee tx)) oldId (txBytes tx) (mpSizeBytes pool - oldBytes) [] of
                   Inl s \<Rightarrow> (admissionRejected s, pool)
                 | Inr evicted \<Rightarrow>
                     let cleared = removeTransactions evicted pool;
                         pool' = (if replaced = None then cleared else snd (removeTransaction oldId cleared))
                     in (\<lparr>admissionStatus = (if replaced = None then ACCEPTED else REPLACED),
                          admittedId = txId tx, replacedId = oldId\<rparr>, insertEntry tx acceptedAt pool')))"

subsection \<open>Selection for a block\<close>

text \<open>\<open>std::sort\<close> by fee descending, then acceptance time, then identifier.\<close>

definition entryRank :: "MempoolEntry \<Rightarrow> int \<times> int \<times> string" where
  "entryRank e = (- priorityFeeRaw e, entryAcceptedAt e, txId (entryTx e))"

definition sortedEntriesByPriority :: "(string, MempoolEntry) smap \<Rightarrow> MempoolEntry list" where
  "sortedEntriesByPriority entries = sort_key entryRank (map snd entries)"

definition transactionsByPriority :: "nat \<Rightarrow> Mempool \<Rightarrow> Transaction list" where
  "transactionsByPriority maxCount pool =
     take maxCount (map entryTx (sortedEntriesByPriority (mpEntries pool)))"

text \<open>The variables of the selection loop.\<close>

record Selection =
  selNextNonce :: "(string, u64) smap"
  selIds :: "string list"
  selTxs :: "Transaction list"

definition selectEntry :: "Transaction \<Rightarrow> u64 \<Rightarrow> Selection \<Rightarrow> Selection" where
  "selectEntry tx n sel =
     \<lparr>selNextNonce = mapPut (txFrom tx) (n + 1) (selNextNonce sel), selIds = txId tx # selIds sel,
      selTxs = selTxs sel @ [tx]\<rparr>"

text \<open>One pass of the \<open>for\<close> loop: up to the first entry that can be taken.\<close>

fun selectPass :: "AccountStateView \<Rightarrow> MempoolEntry list \<Rightarrow> Selection \<Rightarrow> bool \<times> Selection" where
  "selectPass view [] sel = (False, sel)"
| "selectPass view (e # es) sel =
     (let tx = entryTx e in
      if List.member (selIds sel) (txId tx) then selectPass view es sel
      else case map_of (selNextNonce sel) (txFrom tx) of
        Some n \<Rightarrow> if txNonce tx \<noteq> n then selectPass view es sel else (True, selectEntry tx n sel)
      | None \<Rightarrow>
          let account = accountOrDefault view (txFrom tx) in
          if accNonce account = U64_MAX then selectPass view es sel
          else let n = accNonce account + 1;
                   sel' = sel\<lparr>selNextNonce := mapPut (txFrom tx) n (selNextNonce sel)\<rparr>
               in if txNonce tx \<noteq> n then selectPass view es sel' else (True, selectEntry tx n sel'))"

partial_function (option) selectLoop ::
    "nat \<Rightarrow> AccountStateView \<Rightarrow> MempoolEntry list \<Rightarrow> bool \<Rightarrow> Selection \<Rightarrow> Selection option" where
  "selectLoop maxCount view entries selectedInPass sel =
     (if selectedInPass \<and> length (selTxs sel) < maxCount
      then case selectPass view entries sel of (again, sel') \<Rightarrow> selectLoop maxCount view entries again sel'
      else Some sel)"

definition emptySelection :: Selection where
  "emptySelection = \<lparr>selNextNonce = [], selIds = [], selTxs = []\<rparr>"

definition transactionsForBlock :: "nat \<Rightarrow> AccountStateView \<Rightarrow> Mempool \<Rightarrow> Transaction list option" where
  "transactionsForBlock maxCount view pool =
     (if maxCount = 0 \<or> \<not> viewValid view then Some []
      else map_option selTxs
        (selectLoop maxCount view (sortedEntriesByPriority (mpEntries pool)) True emptySelection))"

fun selectPassByFee :: "nat \<Rightarrow> AccountStateView \<Rightarrow> MempoolEntry list \<Rightarrow> Selection \<Rightarrow> bool \<times> Selection" where
  "selectPassByFee maxCount view [] sel = (False, sel)"
| "selectPassByFee maxCount view (e # es) sel =
     (let tx = entryTx e in
      if length (selTxs sel) \<ge> maxCount then (False, sel)
      else if List.member (selIds sel) (txId tx) then selectPassByFee maxCount view es sel
      else case map_of (selNextNonce sel) (txFrom tx) of
        Some n \<Rightarrow> if txNonce tx \<noteq> n then selectPassByFee maxCount view es sel else (True, selectEntry tx n sel)
      | None \<Rightarrow>
          let account = accountOrDefault view (txFrom tx) in
          if accNonce account = U64_MAX then selectPassByFee maxCount view es sel
          else let n = accNonce account + 1;
                   sel' = sel\<lparr>selNextNonce := mapPut (txFrom tx) n (selNextNonce sel)\<rparr>
               in if txNonce tx \<noteq> n then selectPassByFee maxCount view es sel' else (True, selectEntry tx n sel'))"

partial_function (option) selectLoopByFee ::
    "nat \<Rightarrow> AccountStateView \<Rightarrow> MempoolEntry list \<Rightarrow> bool \<Rightarrow> Selection \<Rightarrow> Selection option" where
  "selectLoopByFee maxCount view entries selectedInPass sel =
     (if selectedInPass \<and> length (selTxs sel) < maxCount
      then case selectPassByFee maxCount view entries sel of (again, sel') \<Rightarrow>
             selectLoopByFee maxCount view entries again sel'
      else Some sel)"

definition transactionsForBlockByFee :: "nat \<Rightarrow> AccountStateView \<Rightarrow> Mempool \<Rightarrow> Transaction list option" where
  "transactionsForBlockByFee maxCount view pool =
     (if maxCount = 0 \<or> \<not> viewValid view then Some []
      else map_option selTxs
        (selectLoopByFee maxCount view (sortedEntriesByPriority (mpEntries pool)) True emptySelection))"

subsection \<open>Statistics, consistency, text\<close>

record MempoolStats =
  statTotal :: nat
  statHighest :: Amount
  statLowest :: Amount
  statAverage :: Amount
  statPerSender :: "(string, nat) smap"

definition countSender :: "MempoolEntry \<Rightarrow> (string, nat) smap \<Rightarrow> (string, nat) smap" where
  "countSender e m =
     (let s = txFrom (entryTx e) in mapPut s ((case map_of m s of None \<Rightarrow> 0 | Some n \<Rightarrow> n) + 1) m)"

definition mempoolStats :: "Mempool \<Rightarrow> MempoolStats result" where
  "mempoolStats pool =
     (let es = map snd (mpEntries pool); fees = map priorityFeeRaw es in
      if es = [] then Inr \<lparr>statTotal = 0, statHighest = zeroAmount, statLowest = zeroAmount,
                           statAverage = zeroAmount, statPerSender = []\<rparr>
      else bindR (fromRawUnits (foldl (\<lambda>h f. if f > h then f else h) I64_MIN fees)) (\<lambda>highest.
           bindR (fromRawUnits (foldl (\<lambda>l f. if f < l then f else l) I64_MAX fees)) (\<lambda>lowest.
           bindR (fromRawUnits (sum_list fees div int (length es))) (\<lambda>average.
           Inr \<lparr>statTotal = length es, statHighest = highest, statLowest = lowest, statAverage = average,
                statPerSender = fold countSender es []\<rparr>))))"

definition countBySender :: "MempoolStats \<Rightarrow> string \<Rightarrow> nat" where
  "countBySender st address = (case map_of (statPerSender st) address of None \<Rightarrow> 0 | Some n \<Rightarrow> n)"

definition mempoolValid :: "sha256 \<Rightarrow> CryptoPolicy \<Rightarrow> SecurityContext \<Rightarrow> Mempool \<Rightarrow> bool" where
  "mempoolValid sha policy ctx pool \<longleftrightarrow>
     mempoolConfigValid (mpConfig pool) \<and>
     length (mpEntries pool) = length (mpByNonce pool) \<and>
     length (mpEntries pool) \<le> maxTransactions (mpConfig pool) \<and>
     list_all (\<lambda>(i, e). i = txId (entryTx e) \<and> mempoolEntryValid sha policy ctx e \<and>
                 map_of (mpByNonce pool) (senderNonceKey (entryTx e)) = Some i) (mpEntries pool) \<and>
     mpSizeBytes pool = (\<Sum>e\<leftarrow>mpEntries pool. txBytes (entryTx (snd e))) \<and>
     mpSizeBytes pool \<le> maxMempoolSizeBytes (mpConfig pool)"

definition mempoolSerialize :: "Mempool \<Rightarrow> string" where
  "mempoolSerialize pool =
     ''Mempool{size='' @ showNat (length (mpEntries pool)) @ '';entries=[''
       @ joinWith '','' (map (mempoolEntrySerialize \<circ> snd) (mpEntries pool)) @ '']}''"

subsection \<open>The invariant\<close>

definition nonceIndexOk :: "Mempool \<Rightarrow> bool" where
  "nonceIndexOk pool \<longleftrightarrow>
     (\<forall>k i. map_of (mpByNonce pool) k = Some i \<longleftrightarrow>
        (\<exists>e. map_of (mpEntries pool) i = Some e \<and> senderNonceKey (entryTx e) = k))"

definition mempoolOk :: "sha256 \<Rightarrow> CryptoPolicy \<Rightarrow> SecurityContext \<Rightarrow> Mempool \<Rightarrow> bool" where
  "mempoolOk sha policy ctx pool \<longleftrightarrow>
     mapOk (mpEntries pool) \<and> mapOk (mpByNonce pool) \<and> nonceIndexOk pool \<and> mempoolValid sha policy ctx pool"

lemma mempoolOkD:
  assumes "mempoolOk sha policy ctx pool"
  shows "mapOk (mpEntries pool)" "mapOk (mpByNonce pool)" "nonceIndexOk pool" "mempoolConfigValid (mpConfig pool)"
    "length (mpEntries pool) = length (mpByNonce pool)" "length (mpEntries pool) \<le> maxTransactions (mpConfig pool)"
    "mpSizeBytes pool = (\<Sum>e\<leftarrow>mpEntries pool. txBytes (entryTx (snd e)))"
    "mpSizeBytes pool \<le> maxMempoolSizeBytes (mpConfig pool)"
  using assms by (simp_all add: mempoolOk_def mempoolValid_def)

lemma mempoolOk_entry:
  assumes "mempoolOk sha policy ctx pool" and "map_of (mpEntries pool) i = Some e"
  shows "i = txId (entryTx e)" "mempoolEntryValid sha policy ctx e"
    "map_of (mpByNonce pool) (senderNonceKey (entryTx e)) = Some i"
  using map_of_SomeD [OF assms(2)] assms(1) by (auto simp: mempoolOk_def mempoolValid_def list_all_iff)

lemma mempoolOkI:
  assumes "mapOk (mpEntries pool)" and "mapOk (mpByNonce pool)" and "nonceIndexOk pool"
    and "mempoolConfigValid (mpConfig pool)" and "length (mpEntries pool) = length (mpByNonce pool)"
    and "length (mpEntries pool) \<le> maxTransactions (mpConfig pool)"
    and "mpSizeBytes pool = (\<Sum>e\<leftarrow>mpEntries pool. txBytes (entryTx (snd e)))"
    and "mpSizeBytes pool \<le> maxMempoolSizeBytes (mpConfig pool)"
    and "\<And>i e. map_of (mpEntries pool) i = Some e \<Longrightarrow> i = txId (entryTx e) \<and> mempoolEntryValid sha policy ctx e"
  shows "mempoolOk sha policy ctx pool"
proof -
  have "map_of (mpEntries pool) (fst x) = Some (snd x)" if "x \<in> set (mpEntries pool)" for x
    using that assms(1) by (simp add: map_of_eq_Some_iff_mem)
  then show ?thesis
    using assms unfolding mempoolOk_def mempoolValid_def nonceIndexOk_def list_all_iff by fastforce
qed

lemma mempoolOk_empty: "mempoolConfigValid c \<Longrightarrow> mempoolOk sha policy ctx (newMempool c)"
  by (rule mempoolOkI) (simp_all add: newMempool_def nonceIndexOk_def)

lemma removeTransaction_ok:
  assumes "mempoolOk sha policy ctx pool"
  shows "mempoolOk sha policy ctx (snd (removeTransaction i pool))"
proof (cases "map_of (mpEntries pool) i")
  case None
  then show ?thesis using assms by (simp add: removeTransaction_def)
next
  case (Some e)
  note ok = mempoolOkD [OF assms] and entry = mempoolOk_entry [OF assms]
  let ?pool = "snd (removeTransaction i pool)"
  have pool: "?pool = pool\<lparr>mpSizeBytes := mpSizeBytes pool - txBytes (entryTx e),
      mpByNonce := mapErase (senderNonceKey (entryTx e)) (mpByNonce pool), mpEntries := mapErase i (mpEntries pool)\<rparr>"
    using Some by (simp add: removeTransaction_def)
  show ?thesis
  proof (rule mempoolOkI)
    show "nonceIndexOk ?pool"
      using ok(3) entry(3) Some unfolding nonceIndexOk_def pool by (auto split: if_splits) (metis option.inject)+
    show "length (mpEntries ?pool) = length (mpByNonce ?pool)"
      using length_mapErase [OF ok(1) Some] length_mapErase [OF ok(2) entry(3) [OF Some]] ok(5) by (simp add: pool)
    show "length (mpEntries ?pool) \<le> maxTransactions (mpConfig ?pool)"
      using length_mapErase [OF ok(1) Some] ok(6) by (simp add: pool)
    show "mpSizeBytes ?pool = (\<Sum>e\<leftarrow>mpEntries ?pool. txBytes (entryTx (snd e)))"
      using sum_mapErase [OF ok(1) Some, of "\<lambda>e. txBytes (entryTx e)"] ok(7) by (simp add: pool)
  qed (use ok entry in \<open>auto simp: pool split: if_splits\<close>)
qed

lemma removeTransactions_ok: "mempoolOk sha policy ctx pool \<Longrightarrow> mempoolOk sha policy ctx (removeTransactions is pool)"
  by (induction "is" arbitrary: pool) (auto intro: removeTransaction_ok)

subsection \<open>What removal and the eviction plan do\<close>

definition bytesOf :: "Mempool \<Rightarrow> string \<Rightarrow> nat" where
  "bytesOf pool i = (case map_of (mpEntries pool) i of None \<Rightarrow> 0 | Some e \<Rightarrow> txBytes (entryTx e))"

lemma removeTransaction_effect:
  "mpConfig (snd (removeTransaction i pool)) = mpConfig pool"
  "map_of (mpEntries (snd (removeTransaction i pool))) = (map_of (mpEntries pool))(i := None)"
  "mpSizeBytes (snd (removeTransaction i pool)) = mpSizeBytes pool - bytesOf pool i"
  by (auto simp: removeTransaction_def bytesOf_def fun_eq_iff split: option.splits)

lemma removeTransactions_effect:
  assumes "distinct is"
  shows "mpConfig (removeTransactions is pool) = mpConfig pool \<and>
         map_of (mpEntries (removeTransactions is pool)) = (\<lambda>j. if j \<in> set is then None else map_of (mpEntries pool) j) \<and>
         mpSizeBytes (removeTransactions is pool) = mpSizeBytes pool - (\<Sum>i\<leftarrow>is. bytesOf pool i)"
  using assms
proof (induction "is" arbitrary: pool)
  case (Cons i "is")
  have "map (bytesOf (snd (removeTransaction i pool))) is = map (bytesOf pool) is"
    using Cons.prems by (auto simp: bytesOf_def removeTransaction_effect)
  then have "(\<Sum>j\<leftarrow>is. bytesOf (snd (removeTransaction i pool)) j) = (\<Sum>j\<leftarrow>is. bytesOf pool j)"
    by (rule arg_cong)
  then show ?case using Cons by (auto simp: removeTransaction_effect fun_eq_iff)
qed auto

text \<open>Every entry of a plan is in the pool, is cheaper than the incoming transaction, and the rest fits.\<close>

lemma planEvictions_Inr:
  assumes "planEvictions pool fee replaced incoming projected planned = Inr evicted"
    and "mapOk (mpEntries pool)" and "distinct planned"
  shows "\<exists>more. evicted = planned @ more \<and> distinct evicted \<and>
           (\<forall>i\<in>set more. i \<noteq> replaced \<and> (\<exists>e. map_of (mpEntries pool) i = Some e \<and> priorityFeeRaw e < fee)) \<and>
           projected - (\<Sum>i\<leftarrow>more. bytesOf pool i) + incoming \<le> maxMempoolSizeBytes (mpConfig pool)"
  using assms
proof (induction pool fee replaced incoming projected planned rule: planEvictions.induct)
  case (1 pool fee replaced incoming projected planned)
  show ?case
  proof (cases "projected + incoming \<le> maxMempoolSizeBytes (mpConfig pool)")
    case True
    then show ?thesis using 1 by (auto simp: planEvictions.simps [of pool] intro!: exI [of _ "[]"])
  next
    case False
    obtain i lowestFee oldest bytes where c: "cheapestEntry replaced planned pool = (i, lowestFee, oldest, bytes)"
      by (cases "cheapestEntry replaced planned pool")
    have i: "i \<noteq> []" "\<not> fee \<le> lowestFee"
      and rec: "planEvictions pool fee replaced incoming (projected - bytes) (planned @ [i]) = Inr evicted"
      using 1(2) False c by (auto simp: planEvictions.simps [of pool fee replaced incoming projected] split: if_splits)
    obtain e where e: "(i, e) \<in> set (mpEntries pool)" "i \<noteq> replaced" "i \<notin> set planned"
      "lowestFee = priorityFeeRaw e" "bytes = txBytes (entryTx e)"
      using cheapest_entry [OF c i(1)] by blast
    then have at: "map_of (mpEntries pool) i = Some e" using 1(3) by (simp add: map_of_eq_Some_iff_mem)
    obtain more where more: "evicted = (planned @ [i]) @ more" "distinct evicted"
      "\<forall>j\<in>set more. j \<noteq> replaced \<and> (\<exists>e. map_of (mpEntries pool) j = Some e \<and> priorityFeeRaw e < fee)"
      "projected - bytes - (\<Sum>j\<leftarrow>more. bytesOf pool j) + incoming \<le> maxMempoolSizeBytes (mpConfig pool)"
      using 1(1) [OF False c [symmetric] refl refl i(1,2) rec 1(3)] 1(4) e(3) by auto
    moreover have "bytesOf pool i = bytes" using at e(5) by (simp add: bytesOf_def)
    ultimately show ?thesis
      using at e i(2) by (intro exI [of _ "i # more"]) (auto simp: diff_diff_left)
  qed
qed

lemma insertEntry_ok:
  assumes "mempoolOk sha policy ctx pool" and "map_of (mpEntries pool) (txId tx) = None"
    and "map_of (mpByNonce pool) (senderNonceKey tx) = None" and "txStructurallyValid sha policy ctx tx"
    and "acceptedAt > 0" and "length (mpEntries pool) < maxTransactions (mpConfig pool)"
    and "mpSizeBytes pool + txBytes tx \<le> maxMempoolSizeBytes (mpConfig pool)"
  shows "mempoolOk sha policy ctx (insertEntry tx acceptedAt pool)"
proof -
  note ok = mempoolOkD [OF assms(1)] and entry = mempoolOk_entry [OF assms(1)]
  let ?e = "\<lparr>entryTx = tx, entryAcceptedAt = acceptedAt\<rparr>"
  have pool: "insertEntry tx acceptedAt pool = pool\<lparr>mpByNonce := mapPut (senderNonceKey tx) (txId tx) (mpByNonce pool),
      mpEntries := mapPut (txId tx) ?e (mpEntries pool), mpSizeBytes := mpSizeBytes pool + txBytes tx\<rparr>"
    using assms(2,3) by (simp add: insertEntry_def mapEmplace_new)
  show ?thesis
    unfolding pool
  proof (rule mempoolOkI, goal_cases)
    case 3
    then show ?case
      using ok(3) assms(2,3) unfolding nonceIndexOk_def by (auto split: if_splits) (metis option.distinct(1))
  next
    case 7
    then show ?case using sum_mapPut_new [OF ok(1) assms(2), of "\<lambda>e. txBytes (entryTx e)"] ok(7) by simp
  next
    case (9 i e)
    then show ?case using entry(1,2) [of i e] assms(4,5) by (auto simp: mempoolEntryValid_def split: if_splits)
  qed (use ok assms(2,3,6,7) in \<open>auto simp: length_mapPut_new\<close>)
qed

lemma removeTransactions_append: "removeTransactions (is @ js) pool = removeTransactions js (removeTransactions is pool)"
  by (induction "is" arbitrary: pool) auto

definition replacedIds :: "(string \<times> nat) option \<Rightarrow> string list" where
  "replacedIds replaced = (case replaced of None \<Rightarrow> [] | Some r \<Rightarrow> [fst r])"

lemma findReplaced_Some:
  assumes "mempoolOk sha policy ctx pool" and "findReplaced tx pool = Inr (Some (i, n))"
  shows "\<exists>e. map_of (mpEntries pool) i = Some e \<and> senderNonceKey (entryTx e) = senderNonceKey tx \<and>
             n = txBytes (entryTx e) \<and> minimumReplacementFee (priorityFeeRaw e) \<le> rawUnits (txFee tx)"
proof -
  obtain e where e: "map_of (mpByNonce pool) (senderNonceKey tx) = Some i" "map_of (mpEntries pool) i = Some e"
    "n = txBytes (entryTx e)" "minimumReplacementFee (priorityFeeRaw e) \<le> rawUnits (txFee tx)"
    using assms(2) by (auto simp: findReplaced_def split: option.splits if_splits)
  then show ?thesis using mempoolOkD(3) [OF assms(1)] unfolding nonceIndexOk_def by auto
qed

lemma planEvictions_Inl:
  "planEvictions pool fee old incoming projected planned = Inl s \<Longrightarrow> s = CAPACITY_REACHED \<or> s = FEE_TOO_LOW"
proof (induction pool fee old incoming projected planned rule: planEvictions.induct)
  case (1 pool fee replaced incoming projected planned)
  then show ?case
    by (auto simp: planEvictions.simps [of pool fee replaced incoming projected planned] split: if_splits prod.splits)
qed

text \<open>The admission of a new transaction: what is removed, and that the rest has room for it.\<close>

lemma admission_cases:
  assumes "mempoolOk sha policy ctx pool"
    and "admitTransaction sha policy ctx acceptedAt tx pool = (r, pool')"
  shows "(pool' = pool \<and> admissionStatus r \<noteq> ACCEPTED \<and> admissionStatus r \<noteq> REPLACED) \<or>
     (\<exists>replaced evicted. admissionCheck sha policy ctx acceptedAt tx pool = None \<and>
        findReplaced tx pool = Inr replaced \<and>
        (replaced = None \<longrightarrow> length (mpEntries pool) < maxTransactions (mpConfig pool)) \<and>
        distinct (evicted @ replacedIds replaced) \<and>
        (\<forall>i\<in>set evicted. \<exists>e. map_of (mpEntries pool) i = Some e \<and> priorityFeeRaw e < rawUnits (txFee tx)) \<and>
        mpSizeBytes (removeTransactions (evicted @ replacedIds replaced) pool) + txBytes tx
          \<le> maxMempoolSizeBytes (mpConfig pool) \<and>
        admissionStatus r = (if replaced = None then ACCEPTED else REPLACED) \<and>
        pool' = insertEntry tx acceptedAt (removeTransactions (evicted @ replacedIds replaced) pool))"
proof (cases "admissionCheck sha policy ctx acceptedAt tx pool")
  case (Some s)
  have "s \<noteq> ACCEPTED" "s \<noteq> REPLACED" using Some by (auto simp: admissionCheck_def Let_def split: if_splits)
  then show ?thesis using assms(2) Some by (cases s) (auto simp: admitTransaction_def admissionRejected_def)
next
  case None
  note ok = mempoolOkD [OF assms(1)]
  show ?thesis
  proof (cases "findReplaced tx pool")
    case (Inl s)
    then have "s \<noteq> ACCEPTED" "s \<noteq> REPLACED" by (auto simp: findReplaced_def split: option.splits if_splits)
    then show ?thesis using assms(2) None Inl by (auto simp: admitTransaction_def admissionRejected_def)
  next
    case (Inr replaced)
    let ?old = "case replaced of None \<Rightarrow> ([], 0) | Some r \<Rightarrow> r"
    let ?plan = "planEvictions pool (rawUnits (txFee tx)) (fst ?old) (txBytes tx) (mpSizeBytes pool - snd ?old) []"
    show ?thesis
    proof (cases "(replaced = None \<and> length (mpEntries pool) \<ge> maxTransactions (mpConfig pool)) \<or> \<not> isInr ?plan")
      case True
      have "s \<noteq> ACCEPTED \<and> s \<noteq> REPLACED" if "?plan = Inl s" for s
        using planEvictions_Inl [OF that] by auto
      then show ?thesis
        using assms(2) None Inr True
        by (cases ?plan) (auto simp: admitTransaction_def admissionRejected_def Let_def split: prod.splits if_splits)
    next
      case False
      then obtain evicted where ev: "?plan = Inr evicted" by (cases ?plan) auto
      have plan: "distinct evicted" "\<forall>i\<in>set evicted. i \<noteq> fst ?old \<and>
          (\<exists>e. map_of (mpEntries pool) i = Some e \<and> priorityFeeRaw e < rawUnits (txFee tx))"
        "mpSizeBytes pool - snd ?old - (\<Sum>i\<leftarrow>evicted. bytesOf pool i) + txBytes tx \<le> maxMempoolSizeBytes (mpConfig pool)"
        using planEvictions_Inr [OF ev ok(1)] by auto
      have d: "distinct (evicted @ replacedIds replaced)"
        using plan(1,2) by (auto simp: replacedIds_def split: option.splits)
      have "(\<Sum>i\<leftarrow>replacedIds replaced. bytesOf pool i) = snd ?old"
        using findReplaced_Some [OF assms(1)] Inr
        by (cases replaced) (fastforce simp: replacedIds_def bytesOf_def)+
      then have room: "mpSizeBytes (removeTransactions (evicted @ replacedIds replaced) pool) + txBytes tx
          \<le> maxMempoolSizeBytes (mpConfig pool)"
        using plan(3) removeTransactions_effect [OF d, of pool] by (simp add: diff_diff_left add.commute)
      have "admitTransaction sha policy ctx acceptedAt tx pool =
          (\<lparr>admissionStatus = (if replaced = None then ACCEPTED else REPLACED), admittedId = txId tx,
            replacedId = fst ?old\<rparr>, insertEntry tx acceptedAt (removeTransactions (evicted @ replacedIds replaced) pool))"
        using None Inr False ev
        by (auto simp: admitTransaction_def Let_def removeTransactions_append replacedIds_def split: prod.splits option.splits)
      then show ?thesis using assms(2) None Inr False d plan(2) room by auto
    qed
  qed
qed

lemma admissionCheck_None:
  "admissionCheck sha policy ctx acceptedAt tx pool = None \<Longrightarrow>
     acceptedAt > 0 \<and> txStructurallyValid sha policy ctx tx \<and> map_of (mpEntries pool) (txId tx) = None \<and>
     minimumFeeRaw (mpConfig pool) \<le> rawUnits (txFee tx)"
  by (auto simp: admissionCheck_def Let_def split: if_splits)

lemma removed_key:
  assumes "mempoolOk sha policy ctx pool" and "findReplaced tx pool = Inr replaced"
    and "mempoolOk sha policy ctx (removeTransactions is pool)" and "distinct is" and "set (replacedIds replaced) \<subseteq> set is"
  shows "map_of (mpByNonce (removeTransactions is pool)) (senderNonceKey tx) = None"
proof (rule ccontr)
  assume "map_of (mpByNonce (removeTransactions is pool)) (senderNonceKey tx) \<noteq> None"
  then obtain i e where e: "map_of (mpEntries (removeTransactions is pool)) i = Some e"
    "senderNonceKey (entryTx e) = senderNonceKey tx"
    using mempoolOkD(3) [OF assms(3)] unfolding nonceIndexOk_def by blast
  then have i: "i \<notin> set is" "map_of (mpEntries pool) i = Some e"
    using removeTransactions_effect [OF assms(4), of pool] by (auto split: if_splits)
  then have "map_of (mpByNonce pool) (senderNonceKey tx) = Some i"
    using mempoolOk_entry(3) [OF assms(1)] e(2) by fastforce
  then have "i \<in> set (replacedIds replaced)"
    using assms(2) i(2) by (auto simp: findReplaced_def replacedIds_def split: if_splits)
  then show False using assms(5) i(1) by blast
qed

lemma admission_ok:
  assumes "mempoolOk sha policy ctx pool"
  shows "mempoolOk sha policy ctx (snd (admitTransaction sha policy ctx acceptedAt tx pool))"
proof -
  obtain r pool' where adm: "admitTransaction sha policy ctx acceptedAt tx pool = (r, pool')"
    by (cases "admitTransaction sha policy ctx acceptedAt tx pool")
  from admission_cases [OF assms adm] show ?thesis
  proof (elim disjE exE conjE)
    fix replaced evicted
    let ?is = "evicted @ replacedIds replaced" and ?cleared = "removeTransactions (evicted @ replacedIds replaced) pool"
    assume chk: "admissionCheck sha policy ctx acceptedAt tx pool = None" and rep: "findReplaced tx pool = Inr replaced"
      and cnt: "replaced = None \<longrightarrow> length (mpEntries pool) < maxTransactions (mpConfig pool)"
      and d: "distinct ?is" and room: "mpSizeBytes ?cleared + txBytes tx \<le> maxMempoolSizeBytes (mpConfig pool)"
      and pool': "pool' = insertEntry tx acceptedAt ?cleared"
    have ok: "mempoolOk sha policy ctx ?cleared" using assms by (rule removeTransactions_ok)
    have eff: "mpConfig ?cleared = mpConfig pool"
      "map_of (mpEntries ?cleared) = (\<lambda>j. if j \<in> set ?is then None else map_of (mpEntries pool) j)"
      using removeTransactions_effect [OF d, of pool] by blast+
    have sizes: "length (mpEntries ?cleared) = card (dom (map_of (mpEntries ?cleared)))"
      "length (mpEntries pool) = card (dom (map_of (mpEntries pool)))"
      using mempoolOkD(1) [OF ok] mempoolOkD(1) [OF assms] by (simp_all add: mapOk_card)
    have "length (mpEntries ?cleared) < maxTransactions (mpConfig pool)"
    proof (cases replaced)
      case None
      have "card (dom (map_of (mpEntries ?cleared))) \<le> card (dom (map_of (mpEntries pool)))"
        using eff(2) by (intro card_mono) (auto simp: finite_dom_map_of split: if_splits)
      then show ?thesis using cnt None sizes by simp
    next
      case (Some r)
      then obtain e where e: "map_of (mpEntries pool) (fst r) = Some e"
        using findReplaced_Some [OF assms, of tx "fst r" "snd r"] rep by auto
      have "dom (map_of (mpEntries ?cleared)) \<subset> dom (map_of (mpEntries pool))"
        using e Some eff(2) by (auto simp: replacedIds_def split: if_splits)
      then have "card (dom (map_of (mpEntries ?cleared))) < card (dom (map_of (mpEntries pool)))"
        by (intro psubset_card_mono) (simp_all add: finite_dom_map_of)
      then show ?thesis using mempoolOkD(6) [OF assms] sizes by simp
    qed
    then show ?thesis
      using insertEntry_ok [OF ok] admissionCheck_None [OF chk] removed_key [OF assms rep ok d] eff room adm pool'
      by simp
  qed (use adm assms in simp)
qed

text \<open>The pool as a component: the calls that change it.\<close>

datatype mempoolCall =
    Admit int Transaction | Remove string | Prune int | RemoveConflicting string u64

fun mempoolStep :: "sha256 \<Rightarrow> CryptoPolicy \<Rightarrow> SecurityContext \<Rightarrow> mempoolCall \<Rightarrow> Mempool \<Rightarrow> Mempool" where
  "mempoolStep sha policy ctx (Admit acceptedAt tx) pool = snd (admitTransaction sha policy ctx acceptedAt tx pool)"
| "mempoolStep sha policy ctx (Remove i) pool = snd (removeTransaction i pool)"
| "mempoolStep sha policy ctx (Prune now) pool = snd (pruneExpired now pool)"
| "mempoolStep sha policy ctx (RemoveConflicting sender n) pool = snd (removeConflicting sender n pool)"

interpretation mempool: component "mempoolStep sha policy ctx" "\<lambda>_. True" "mempoolOk sha policy ctx"
proof
  fix s :: Mempool and c :: mempoolCall
  assume "mempoolOk sha policy ctx s"
  then show "mempoolOk sha policy ctx (mempoolStep sha policy ctx c s)"
    by (cases c) (auto simp: admission_ok removeTransaction_ok removeTransactions_ok pruneExpired_def
        removeConflicting_def Let_def)
qed

lemma one_entry_per_nonce:
  assumes "mempoolOk sha policy ctx pool" and "map_of (mpEntries pool) i = Some e"
    and "map_of (mpEntries pool) j = Some f" and "txFrom (entryTx e) = txFrom (entryTx f)"
    and "txNonce (entryTx e) = txNonce (entryTx f)"
  shows "i = j"
proof -
  have "senderNonceKey (entryTx e) = senderNonceKey (entryTx f)" using assms(4,5) by (simp add: senderNonceKey_def)
  then show ?thesis using mempoolOk_entry(3) [OF assms(1,2)] mempoolOk_entry(3) [OF assms(1,3)] by simp
qed

lemma replacementFee_exact:
  assumes "0 \<le> old" and "minimumReplacementFee old \<le> new" and "new < I64_MAX"
  shows "100 * new \<ge> 110 * old \<and> old < new"
proof -
  have "(old * 110 + 100 - 1) div 100 \<le> new" "old + 1 \<le> new"
    using assms by (auto simp: minimumReplacementFee_def Let_def split: if_splits)
  moreover have "(old * 110 + 100 - 1) mod 100 < 100" by simp
  then have "110 * old \<le> 100 * ((old * 110 + 100 - 1) div 100)"
    using mult_div_mod_eq [of 100 "old * 110 + 100 - 1"] by linarith
  ultimately show ?thesis by linarith
qed

subsection \<open>The selection loop\<close>

text \<open>The nonce of every sender after some transactions, and whether each one is next in its turn.\<close>

fun noncesAfter :: "(string \<Rightarrow> u64) \<Rightarrow> Transaction list \<Rightarrow> string \<Rightarrow> u64" where
  "noncesAfter f [] = f"
| "noncesAfter f (tx # txs) = noncesAfter (f(txFrom tx := txNonce tx)) txs"

fun inTurn :: "(string \<Rightarrow> u64) \<Rightarrow> Transaction list \<Rightarrow> bool" where
  "inTurn f [] = True"
| "inTurn f (tx # txs) \<longleftrightarrow>
     f (txFrom tx) \<noteq> U64_MAX \<and> txNonce tx = f (txFrom tx) + 1 \<and> inTurn (f(txFrom tx := txNonce tx)) txs"

lemma noncesAfter_snoc: "noncesAfter f (txs @ [tx]) = (noncesAfter f txs)(txFrom tx := txNonce tx)"
  by (induction txs arbitrary: f) auto

lemma inTurn_snoc:
  "inTurn f (txs @ [tx]) \<longleftrightarrow> inTurn f txs \<and> noncesAfter f txs (txFrom tx) \<noteq> U64_MAX \<and>
     txNonce tx = noncesAfter f txs (txFrom tx) + 1"
  by (induction txs arbitrary: f) auto

definition takeable :: "AccountStateView \<Rightarrow> Selection \<Rightarrow> Transaction \<Rightarrow> bool" where
  "takeable view sel tx \<longleftrightarrow>
     txId tx \<notin> set (selIds sel) \<and> noncesAfter (nonceOf view) (selTxs sel) (txFrom tx) \<noteq> U64_MAX \<and>
     txNonce tx = noncesAfter (nonceOf view) (selTxs sel) (txFrom tx) + 1"

definition nextNoncesOk :: "AccountStateView \<Rightarrow> Selection \<Rightarrow> bool" where
  "nextNoncesOk view sel \<longleftrightarrow>
     (\<forall>s n. map_of (selNextNonce sel) s = Some n \<longrightarrow> n = noncesAfter (nonceOf view) (selTxs sel) s + 1) \<and>
     (\<forall>s. map_of (selNextNonce sel) s = None \<longrightarrow> noncesAfter (nonceOf view) (selTxs sel) s = nonceOf view s)"

definition selectionOk :: "AccountStateView \<Rightarrow> MempoolEntry list \<Rightarrow> Selection \<Rightarrow> bool" where
  "selectionOk view es sel \<longleftrightarrow>
     nextNoncesOk view sel \<and> set (selIds sel) = txId ` set (selTxs sel) \<and> distinct (map txId (selTxs sel)) \<and>
     inTurn (nonceOf view) (selTxs sel) \<and> set (selTxs sel) \<subseteq> entryTx ` set es"

lemma U64_MAX_succ: "(x :: u64) + 1 = 0 \<longleftrightarrow> x = U64_MAX"
proof -
  have "U64_MAX = - 1" by (simp add: U64_MAX_def)
  then show ?thesis by (metis eq_neg_iff_add_eq_0)
qed

lemma takeable_cong:
  "selTxs sel = selTxs sel' \<Longrightarrow> selIds sel = selIds sel' \<Longrightarrow> takeable view sel tx \<longleftrightarrow> takeable view sel' tx"
  by (simp add: takeable_def)

lemma nextNonces_known:
  assumes "nextNoncesOk view sel" and "map_of (selNextNonce sel) (txFrom tx) = Some n" and "txNonce tx \<noteq> 0"
    and "txId tx \<notin> set (selIds sel)"
  shows "takeable view sel tx \<longleftrightarrow> txNonce tx = n"
proof -
  have "n = noncesAfter (nonceOf view) (selTxs sel) (txFrom tx) + 1"
    using assms(1,2) unfolding nextNoncesOk_def by blast
  then show ?thesis using assms(3,4) U64_MAX_succ by (auto simp: takeable_def)
qed

lemma nextNonces_new:
  assumes "nextNoncesOk view sel" and "map_of (selNextNonce sel) s = None"
  shows "noncesAfter (nonceOf view) (selTxs sel) s = nonceOf view s"
    "nextNoncesOk view (sel\<lparr>selNextNonce := mapPut s (nonceOf view s + 1) (selNextNonce sel)\<rparr>)"
proof -
  show eq: "noncesAfter (nonceOf view) (selTxs sel) s = nonceOf view s"
    using assms(1,2) unfolding nextNoncesOk_def by blast
  then show "nextNoncesOk view (sel\<lparr>selNextNonce := mapPut s (nonceOf view s + 1) (selNextNonce sel)\<rparr>)"
    using assms(1) by (auto simp: nextNoncesOk_def)
qed

lemma nextNonces_select:
  "nextNoncesOk view sel \<Longrightarrow> txNonce tx = n \<Longrightarrow> nextNoncesOk view (selectEntry tx n sel)"
  by (auto simp: nextNoncesOk_def selectEntry_def noncesAfter_snoc)

lemma selectPass_spec:
  assumes "nextNoncesOk view sel" and "\<forall>e\<in>set es. txNonce (entryTx e) \<noteq> 0"
    and "selectPass view es sel = (again, sel')"
  shows "nextNoncesOk view sel' \<and>
     (if again then \<exists>e\<in>set es. takeable view sel (entryTx e) \<and> selTxs sel' = selTxs sel @ [entryTx e] \<and>
                       selIds sel' = txId (entryTx e) # selIds sel
      else selTxs sel' = selTxs sel \<and> selIds sel' = selIds sel \<and> (\<forall>e\<in>set es. \<not> takeable view sel (entryTx e)))"
  using assms
proof (induction es arbitrary: sel)
  case (Cons e es)
  let ?tx = "entryTx e"
  let ?n = "nonceOf view (txFrom ?tx) + 1"
  let ?sel = "sel\<lparr>selNextNonce := mapPut (txFrom ?tx) ?n (selNextNonce sel)\<rparr>"
  have nz: "txNonce ?tx \<noteq> 0" "\<forall>e\<in>set es. txNonce (entryTx e) \<noteq> 0" using Cons.prems(2) by auto
  have skip: ?case if "nextNoncesOk view s" "selTxs s = selTxs sel" "selIds s = selIds sel"
      "\<not> takeable view sel ?tx" "selectPass view es s = (again, sel')" for s
    using Cons.IH [OF that(1) nz(2) that(5)] that(2-4) takeable_cong [OF that(2,3), of view] by (auto split: if_splits)
  have pick: ?case if "nextNoncesOk view s" "selTxs s = selTxs sel" "selIds s = selIds sel"
      "takeable view sel ?tx" "(again, sel') = (True, selectEntry ?tx n s)" "txNonce ?tx = n" for s n
    using that nextNonces_select [OF that(1,6)] by (auto simp: selectEntry_def)
  show ?case
  proof (cases "txId ?tx \<in> set (selIds sel)")
    case True
    then show ?thesis using Cons.prems(1,3) by (intro skip [of sel]) (auto simp: takeable_def Let_def)
  next
    case fresh: False
    show ?thesis
    proof (cases "map_of (selNextNonce sel) (txFrom ?tx)")
      case (Some n)
      have take: "takeable view sel ?tx \<longleftrightarrow> txNonce ?tx = n"
        by (rule nextNonces_known [OF Cons.prems(1) Some nz(1) fresh])
      show ?thesis
      proof (cases "txNonce ?tx = n")
        case True
        then show ?thesis
          using Cons.prems(1,3) fresh Some take by (intro pick [of sel n]) (simp_all add: Let_def)
      next
        case False
        then show ?thesis
          using Cons.prems(1,3) fresh Some take by (intro skip [of sel]) (simp_all add: Let_def)
      qed
    next
      case None
      note new = nextNonces_new [OF Cons.prems(1) None]
      have nonce: "accNonce (accountOrDefault view (txFrom ?tx)) = nonceOf view (txFrom ?tx)" by (simp add: nonceOf_def)
      have take: "takeable view sel ?tx \<longleftrightarrow> nonceOf view (txFrom ?tx) \<noteq> U64_MAX \<and> txNonce ?tx = ?n"
        using fresh by (simp add: takeable_def new(1))
      consider "nonceOf view (txFrom ?tx) = U64_MAX" | "nonceOf view (txFrom ?tx) \<noteq> U64_MAX" "txNonce ?tx \<noteq> ?n"
        | "nonceOf view (txFrom ?tx) \<noteq> U64_MAX" "txNonce ?tx = ?n" by blast
      then show ?thesis
      proof cases
        case 1
        then show ?thesis
          using Cons.prems(1,3) fresh None take by (intro skip [of sel]) (simp_all add: Let_def nonce)
      next
        case 2
        then show ?thesis
          using Cons.prems(3) fresh None take new(2) by (intro skip [of ?sel]) (simp_all add: Let_def nonce)
      next
        case 3
        then show ?thesis
          using Cons.prems(3) fresh None take new(2) by (intro pick [of ?sel ?n]) (simp_all add: Let_def nonce)
      qed
    qed
  qed
qed simp

lemma selectionOk_take:
  assumes "selectionOk view es sel" and "takeable view sel (entryTx e)" and "e \<in> set es"
    and "selTxs sel' = selTxs sel @ [entryTx e]" and "selIds sel' = txId (entryTx e) # selIds sel" and "nextNoncesOk view sel'"
  shows "selectionOk view es sel'"
  using assms by (auto simp: selectionOk_def takeable_def inTurn_snoc)

lemma selectionOk_same:
  "selectionOk view es sel \<Longrightarrow> selTxs sel' = selTxs sel \<Longrightarrow> selIds sel' = selIds sel \<Longrightarrow> nextNoncesOk view sel' \<Longrightarrow>
     selectionOk view es sel'"
  by (simp add: selectionOk_def)

lemma selectLoop_stop: "\<not> length (selTxs sel) < maxCount \<Longrightarrow> selectLoop maxCount view es b sel = Some sel"
  by (simp add: selectLoop.simps)

lemma selectLoop_done: "selectLoop maxCount view es False sel = Some sel"
  by (simp add: selectLoop.simps)

lemma selectLoop_spec:
  assumes "selectionOk view es sel" and "\<forall>e\<in>set es. txNonce (entryTx e) \<noteq> 0" and "length (selTxs sel) \<le> maxCount"
  shows "\<exists>sel'. selectLoop maxCount view es True sel = Some sel' \<and> selectionOk view es sel' \<and>
           length (selTxs sel') \<le> maxCount \<and>
           (length (selTxs sel') < maxCount \<longrightarrow> (\<forall>e\<in>set es. \<not> takeable view sel' (entryTx e)))"
  using assms
proof (induction "maxCount - length (selTxs sel)" arbitrary: sel rule: less_induct)
  case less
  show ?case
  proof (cases "length (selTxs sel) < maxCount")
    case False
    then show ?thesis using less.prems selectLoop_stop [OF False] by auto
  next
    case True
    obtain again sel' where pass: "selectPass view es sel = (again, sel')" by (cases "selectPass view es sel")
    have loop: "selectLoop maxCount view es True sel = selectLoop maxCount view es again sel'"
      using True pass by (simp add: selectLoop.simps [of maxCount view es True])
    have spec: "nextNoncesOk view sel'"
      "again \<Longrightarrow> \<exists>e\<in>set es. takeable view sel (entryTx e) \<and> selTxs sel' = selTxs sel @ [entryTx e] \<and>
           selIds sel' = txId (entryTx e) # selIds sel"
      "\<not> again \<Longrightarrow> selTxs sel' = selTxs sel \<and> selIds sel' = selIds sel \<and> (\<forall>e\<in>set es. \<not> takeable view sel (entryTx e))"
      using selectPass_spec [OF _ less.prems(2) pass] less.prems(1) by (auto simp: selectionOk_def)
    show ?thesis
    proof (cases again)
      case again: True
      then obtain e where e: "e \<in> set es" "takeable view sel (entryTx e)" "selTxs sel' = selTxs sel @ [entryTx e]"
        "selIds sel' = txId (entryTx e) # selIds sel" using spec(2) by blast
      have "selectionOk view es sel'" by (rule selectionOk_take [OF less.prems(1) e(2,1,3,4) spec(1)])
      then show ?thesis
        using less.hyps [of sel'] less.prems(2) True e(3) loop again by auto
    next
      case False
      then have same: "selTxs sel' = selTxs sel" "selIds sel' = selIds sel" and none: "\<forall>e\<in>set es. \<not> takeable view sel (entryTx e)"
        using spec(3) by auto
      have "selectionOk view es sel'" by (rule selectionOk_same [OF less.prems(1) same spec(1)])
      moreover have "\<forall>e\<in>set es. \<not> takeable view sel' (entryTx e)" using none takeable_cong [OF same, of view] by simp
      ultimately show ?thesis using loop False same True by (simp add: selectLoop_done)
    qed
  qed
qed

lemma emptySelection_ok: "selectionOk view es emptySelection"
  by (simp add: selectionOk_def nextNoncesOk_def emptySelection_def)

lemma selectPassByFee_eq:
  "length (selTxs sel) < maxCount \<Longrightarrow> selectPassByFee maxCount view es sel = selectPass view es sel"
  by (induction es arbitrary: sel) (auto simp: Let_def split: option.splits)

lemma selectPass_length:
  "selectPass view es sel = (True, sel') \<Longrightarrow> length (selTxs sel') = Suc (length (selTxs sel))"
  by (induction es arbitrary: sel) (auto simp: Let_def selectEntry_def split: option.splits if_splits)

lemma selectLoopByFee_eq: "selectLoopByFee maxCount view es b sel = selectLoop maxCount view es b sel"
proof (induction "maxCount - length (selTxs sel)" arbitrary: b sel rule: less_induct)
  case less
  show ?case
  proof (cases "b \<and> length (selTxs sel) < maxCount")
    case True
    obtain again sel' where pass: "selectPass view es sel = (again, sel')" by (cases "selectPass view es sel")
    have "selectLoopByFee maxCount view es again sel' = selectLoop maxCount view es again sel'"
    proof (cases again)
      case again: True
      have "maxCount - length (selTxs sel') < maxCount - length (selTxs sel)"
        using selectPass_length [of view es sel sel'] pass again True by (simp add: diff_less_mono2)
      then show ?thesis using less.hyps by blast
    next
      case False
      then show ?thesis by (simp add: selectLoop_done selectLoopByFee.simps)
    qed
    then show ?thesis
      using True pass
      by (simp add: selectLoop.simps [of maxCount view es True sel] selectLoopByFee.simps [of maxCount view es True sel]
          selectPassByFee_eq)
  qed (auto simp: selectLoop.simps [of maxCount view es b sel] selectLoopByFee.simps [of maxCount view es b sel])
qed

lemma selected_entry:
  assumes "mempoolOk sha policy ctx pool"
  shows "entryTx ` set (sortedEntriesByPriority (mpEntries pool)) = {tx. \<exists>e. map_of (mpEntries pool) (txId tx) = Some e \<and> entryTx e = tx}"
proof (intro set_eqI iffI)
  fix tx assume "tx \<in> entryTx ` set (sortedEntriesByPriority (mpEntries pool))"
  then obtain i e where ie: "(i, e) \<in> set (mpEntries pool)" "tx = entryTx e"
    by (auto simp: sortedEntriesByPriority_def)
  then have "map_of (mpEntries pool) i = Some e"
    using mempoolOkD(1) [OF assms] by (simp add: map_of_eq_Some_iff_mem)
  then show "tx \<in> {tx. \<exists>e. map_of (mpEntries pool) (txId tx) = Some e \<and> entryTx e = tx}"
    using mempoolOk_entry(1) [OF assms] ie(2) by fastforce
qed (auto simp: sortedEntriesByPriority_def image_iff dest!: map_of_SomeD intro!: bexI)

lemma entry_nonces:
  assumes "mempoolOk sha policy ctx pool"
  shows "\<forall>e\<in>set (sortedEntriesByPriority (mpEntries pool)). txNonce (entryTx e) \<noteq> 0"
  using assms by (auto simp: sortedEntriesByPriority_def mempoolOk_def mempoolValid_def list_all_iff mempoolEntryValid_def
      txStructurallyValid_def split: if_splits)

lemma replaced_cheaper:
  assumes "mempoolOk sha policy ctx pool" and "admissionCheck sha policy ctx acceptedAt tx pool = None"
    and "findReplaced tx pool = Inr replaced" and "map_of (mpEntries pool) i = Some e"
    and "senderNonceKey (entryTx e) = senderNonceKey tx"
  shows "priorityFeeRaw e < rawUnits (txFee tx) \<and> 110 * priorityFeeRaw e \<le> 100 * rawUnits (txFee tx)"
proof -
  have "map_of (mpByNonce pool) (senderNonceKey tx) = Some i" using mempoolOk_entry(3) [OF assms(1,4)] assms(5) by simp
  then have "minimumReplacementFee (priorityFeeRaw e) \<le> rawUnits (txFee tx)"
    using assms(3,4) by (auto simp: findReplaced_def split: if_splits)
  moreover have "0 \<le> priorityFeeRaw e"
    using mempoolOk_entry(2) [OF assms(1,4)]
    by (auto simp: mempoolEntryValid_def txStructurallyValid_def isNegative_def priorityFeeRaw_def split: if_splits)
  moreover have "rawUnits (txFee tx) < I64_MAX"
    using assms(2) by (auto simp: admissionCheck_def Let_def I64_MAX_def split: if_splits)
  ultimately show ?thesis using replacementFee_exact by blast
qed

subsection \<open>Properties\<close>

text \<open>
  C18: The pool's own consistency check never fails. Whatever is admitted, removed, expired or
  dropped as conflicting, a pool with a valid configuration passes \<open>isValid\<close>: within its limits,
  every entry valid and under its own identifier, the index from sender and nonce exact, the byte
  count the sum of the entries; and no two entries have the same sender and nonce.
\<close>

theorem mempool_always_valid:
  assumes "mempoolConfigValid c"
  shows "mempoolValid sha policy ctx (fold (mempoolStep sha policy ctx) calls (newMempool c)) \<and>
         (\<forall>i j e f. map_of (mpEntries (fold (mempoolStep sha policy ctx) calls (newMempool c))) i = Some e \<longrightarrow>
            map_of (mpEntries (fold (mempoolStep sha policy ctx) calls (newMempool c))) j = Some f \<longrightarrow>
            txFrom (entryTx e) = txFrom (entryTx f) \<longrightarrow> txNonce (entryTx e) = txNonce (entryTx f) \<longrightarrow> i = j)"
proof -
  have "mempoolOk sha policy ctx (fold (mempoolStep sha policy ctx) calls (newMempool c))"
    using mempool.run_inv [OF mempoolOk_empty [OF assms], of calls] by (simp add: list_all_iff)
  then show ?thesis using one_entry_per_nonce unfolding mempoolOk_def by blast
qed

text \<open>
  What an admission does. A transaction that is not accepted leaves the pool unchanged. An accepted
  one is in the pool afterwards, every other entry was there before, and an entry that is gone was
  either cheaper than the newcomer, or had its sender and nonce and paid so little that the newcomer
  pays at least ten percent, and strictly, more.
\<close>

theorem mempool_admission:
  assumes "mempoolOk sha policy ctx pool"
    and "admitTransaction sha policy ctx acceptedAt tx pool = (r, pool')"
  shows "(admissionStatus r \<noteq> ACCEPTED \<and> admissionStatus r \<noteq> REPLACED \<longrightarrow> pool' = pool) \<and>
         (admissionStatus r = ACCEPTED \<or> admissionStatus r = REPLACED \<longrightarrow>
            map_of (mpEntries pool') (txId tx) = Some \<lparr>entryTx = tx, entryAcceptedAt = acceptedAt\<rparr> \<and>
            (\<forall>i e. i \<noteq> txId tx \<longrightarrow> map_of (mpEntries pool') i = Some e \<longrightarrow> map_of (mpEntries pool) i = Some e) \<and>
            (\<forall>i e. map_of (mpEntries pool) i = Some e \<longrightarrow> map_of (mpEntries pool') i = None \<longrightarrow>
               priorityFeeRaw e < rawUnits (txFee tx) \<and>
               (senderNonceKey (entryTx e) = senderNonceKey tx \<longrightarrow>
                110 * priorityFeeRaw e \<le> 100 * rawUnits (txFee tx))))"
proof -
  from admission_cases [OF assms] show ?thesis
  proof (elim disjE exE conjE)
    fix replaced evicted
    let ?is = "evicted @ replacedIds replaced"
    assume chk: "admissionCheck sha policy ctx acceptedAt tx pool = None" and rep: "findReplaced tx pool = Inr replaced"
      and d: "distinct ?is"
      and cheap: "\<forall>i\<in>set evicted. \<exists>e. map_of (mpEntries pool) i = Some e \<and> priorityFeeRaw e < rawUnits (txFee tx)"
      and pool': "pool' = insertEntry tx acceptedAt (removeTransactions ?is pool)"
      and st: "admissionStatus r = (if replaced = None then ACCEPTED else REPLACED)"
    have eff: "map_of (mpEntries (removeTransactions ?is pool)) = (\<lambda>j. if j \<in> set ?is then None else map_of (mpEntries pool) j)"
      using removeTransactions_effect [OF d, of pool] by blast
    have new: "map_of (mpEntries pool) (txId tx) = None" using admissionCheck_None [OF chk] by simp
    have after: "map_of (mpEntries pool') = (map_of (mpEntries (removeTransactions ?is pool)))
        (txId tx \<mapsto> \<lparr>entryTx = tx, entryAcceptedAt = acceptedAt\<rparr>)"
      using new eff by (simp add: pool' insertEntry_def mapEmplace_new)
    have gone: "priorityFeeRaw e < rawUnits (txFee tx) \<and>
        (senderNonceKey (entryTx e) = senderNonceKey tx \<longrightarrow> 110 * priorityFeeRaw e \<le> 100 * rawUnits (txFee tx))"
      if "map_of (mpEntries pool) i = Some e" "map_of (mpEntries pool') i = None" for i e
    proof (cases "senderNonceKey (entryTx e) = senderNonceKey tx")
      case True
      then show ?thesis using replaced_cheaper [OF assms(1) chk rep that(1)] by simp
    next
      case False
      then have "i \<in> set evicted"
        using that after eff findReplaced_Some [OF assms(1), of tx] rep
        by (auto simp: replacedIds_def split: if_splits option.splits)
      then show ?thesis using cheap that(1) False by auto
    qed
    show ?thesis using st gone after eff by (auto split: if_splits)
  qed auto
qed

lemma selection_spec:
  assumes "mempoolOk sha policy ctx pool"
  shows "\<exists>txs. transactionsForBlock maxCount view pool = Some txs \<and> length txs \<le> maxCount \<and>
           distinct (map txId txs) \<and> inTurn (nonceOf view) txs \<and>
           (\<forall>tx\<in>set txs. \<exists>e. map_of (mpEntries pool) (txId tx) = Some e \<and> entryTx e = tx) \<and>
           (viewValid view \<and> length txs < maxCount \<longrightarrow>
              (\<forall>i e. map_of (mpEntries pool) i = Some e \<longrightarrow> i \<notin> txId ` set txs \<longrightarrow>
                 noncesAfter (nonceOf view) txs (txFrom (entryTx e)) = U64_MAX \<or>
                 txNonce (entryTx e) \<noteq> noncesAfter (nonceOf view) txs (txFrom (entryTx e)) + 1))"
proof (cases "maxCount = 0 \<or> \<not> viewValid view")
  case True
  then show ?thesis by (auto simp: transactionsForBlock_def)
next
  case False
  let ?es = "sortedEntriesByPriority (mpEntries pool)"
  obtain sel where sel: "selectLoop maxCount view ?es True emptySelection = Some sel" "selectionOk view ?es sel"
    "length (selTxs sel) \<le> maxCount" "length (selTxs sel) < maxCount \<longrightarrow> (\<forall>e\<in>set ?es. \<not> takeable view sel (entryTx e))"
    using selectLoop_spec [OF emptySelection_ok entry_nonces [OF assms], where view = view and maxCount = maxCount] by (auto simp: emptySelection_def)
  have left: "\<not> takeable view sel (entryTx e)" if "length (selTxs sel) < maxCount" "map_of (mpEntries pool) i = Some e" for i e
  proof -
    have "e \<in> set ?es" using map_of_SomeD [OF that(2)] by (force simp: sortedEntriesByPriority_def)
    then show ?thesis using sel(4) that(1) by blast
  qed
  have pool: "\<forall>tx\<in>set (selTxs sel). \<exists>e. map_of (mpEntries pool) (txId tx) = Some e \<and> entryTx e = tx"
    using sel(2) selected_entry [OF assms] by (auto simp: selectionOk_def)
  show ?thesis
  proof (intro exI [of _ "selTxs sel"] conjI allI impI)
    fix i e assume "viewValid view \<and> length (selTxs sel) < maxCount" and e: "map_of (mpEntries pool) i = Some e"
      and i: "i \<notin> txId ` set (selTxs sel)"
    then have "\<not> takeable view sel (entryTx e)" using left by blast
    moreover have "txId (entryTx e) \<notin> set (selIds sel)"
      using i mempoolOk_entry(1) [OF assms e] sel(2) by (simp add: selectionOk_def)
    ultimately show "noncesAfter (nonceOf view) (selTxs sel) (txFrom (entryTx e)) = U64_MAX \<or>
        txNonce (entryTx e) \<noteq> noncesAfter (nonceOf view) (selTxs sel) (txFrom (entryTx e)) + 1"
      by (auto simp: takeable_def)
  qed (use sel pool False in \<open>simp_all add: transactionsForBlock_def selectionOk_def\<close>)
qed

text \<open>
  C19: The selection for a block always returns. It gives at most the requested number of different
  transactions of the pool, each of them next in turn for its sender, starting from the nonces of
  the account state; and when it gives fewer than requested, no transaction left in the pool is
  next in turn.
\<close>

theorem block_selection_returns:
  assumes "mempoolOk sha policy ctx pool"
  shows "\<exists>txs. transactionsForBlock maxCount view pool = Some txs \<and> length txs \<le> maxCount \<and>
           distinct (map txId txs) \<and> inTurn (nonceOf view) txs \<and>
           (\<forall>tx\<in>set txs. \<exists>e. map_of (mpEntries pool) (txId tx) = Some e \<and> entryTx e = tx) \<and>
           (viewValid view \<and> length txs < maxCount \<longrightarrow>
              (\<forall>i e. map_of (mpEntries pool) i = Some e \<longrightarrow> i \<notin> txId ` set txs \<longrightarrow>
                 noncesAfter (nonceOf view) txs (txFrom (entryTx e)) = U64_MAX \<or>
                 txNonce (entryTx e) \<noteq> noncesAfter (nonceOf view) txs (txFrom (entryTx e)) + 1))"
  using assms by (rule selection_spec)

text \<open>
  The two selection routines are the same function: the passes of \<open>transactionsForBlockByFee\<close> also
  stop at the first transaction they take, and its additional size check never fires.
\<close>

theorem selection_by_fee_is_selection:
  "transactionsForBlockByFee maxCount view pool = transactionsForBlock maxCount view pool"
  by (simp add: transactionsForBlockByFee_def transactionsForBlock_def selectLoopByFee_eq)

subsection \<open>A demonstration pool\<close>

definition demoMempoolConfig :: MempoolConfig where
  "demoMempoolConfig = \<lparr>maxTransactions = 5, minimumFeeRaw = 0, replaceByHigherFee = True,
     maxTransactionAgeSeconds = 3600, maxMempoolSizeBytes = 900, maxTransactionSizeBytes = 700\<rparr>"

definition demoPool :: "mempoolCall list \<Rightarrow> Mempool" where
  "demoPool calls = fold (mempoolStep demoSha demoUserPolicy Ctx_USER_TRANSACTION) calls (newMempool demoMempoolConfig)"

lemma demo_config: "mempoolConfigValid demoMempoolConfig"
  by (simp add: mempoolConfigValid_def demoMempoolConfig_def)

lemma demoPool_ok: "mempoolOk demoSha demoUserPolicy Ctx_USER_TRANSACTION (demoPool calls)"
  unfolding demoPool_def by (rule mempool.run_inv [OF mempoolOk_empty [OF demo_config]]) (simp add: list_all_iff)

lemma demo_admission:
  "admissionStatus (fst (admitTransaction demoSha demoUserPolicy Ctx_USER_TRANSACTION 9 (demoTransfer [] 1)
     (newMempool demoMempoolConfig))) = ACCEPTED"
  by code_simp

theorem mempool_always_valid_witness:
  "mempoolValid demoSha demoUserPolicy Ctx_USER_TRANSACTION (demoPool [Admit 9 (demoTransfer [] 1)])"
  using mempool_always_valid [OF demo_config] unfolding demoPool_def by blast

theorem mempool_admission_witness:
  "map_of (mpEntries (snd (admitTransaction demoSha demoUserPolicy Ctx_USER_TRANSACTION 9 (demoTransfer [] 1)
      (newMempool demoMempoolConfig)))) (txId (demoTransfer [] 1)) =
   Some \<lparr>entryTx = demoTransfer [] 1, entryAcceptedAt = 9\<rparr>"
  using mempool_admission [OF mempoolOk_empty [OF demo_config], of demoSha demoUserPolicy Ctx_USER_TRANSACTION 9
      "demoTransfer [] 1"] demo_admission
  by (metis prod.collapse)

theorem block_selection_returns_witness:
  "\<exists>txs. transactionsForBlock 10 [] (demoPool [Admit 9 (demoTransfer [] 1)]) = Some txs \<and> length txs \<le> 10 \<and>
         inTurn (nonceOf []) txs"
  using block_selection_returns [OF demoPool_ok, of 10 "[]"] by blast

end
