(* ===== verification/BlockTransition.thy ===== *)
theory BlockTransition
  imports Execution Mempool
begin

section \<open>Execution of a block\<close>

text \<open>
  \<open>src/crypto/ProtocolCryptoContext.cpp\<close>, \<open>src/core/StateTransitionPreviewContext.cpp\<close>,
  \<open>StateTransitionPreview.cpp\<close>, \<open>StateTransitionEngine.cpp\<close> and \<open>BlockStateTransitionValidator.cpp\<close>: a
  block is executed record by record on a copy of the account state, with transactions before slashing
  evidence; then the domain executor settles the block, and the resulting state and receipts roots are
  compared with those of the header. \<open>LedgerRecordDomainValidator::validate\<close>, which parses the records of
  the economics, is an argument (\<open>check\<close>, with a reason when it refuses a record); so are the domain
  executor and the signature providers.

  The lemmas follow the loop with an invariant that lists the executed transactions. The theorems say
  what an accepted block guarantees, that no transaction runs twice along a chain of blocks, that what
  the mempool selects never fails the nonce check, and what acceptance of a candidate block commits to.
\<close>

subsection \<open>The crypto context of a network\<close>

datatype ProtocolNetworkProfile = LOCALNET | TESTNET | MAINNET | Profile_UNKNOWN

record ProtocolCryptoContext =
  pccProfile :: ProtocolNetworkProfile
  networkProfile :: string
  pccPolicy :: CryptoPolicy
  temporaryProviderAllowed :: bool
  requiresProductionProvider :: bool
  pccRejection :: string
  userSignatureProvider :: SignatureProvider
  validatorSignatureProvider :: SignatureProvider

definition developmentPolicy :: CryptoPolicy where
  "developmentPolicy = \<lparr>developmentMode = True\<rparr>"

text \<open>The Ed25519 and the BLS provider that every context contains are the first two arguments.\<close>

definition fromNetworkName :: "SignatureProvider \<Rightarrow> SignatureProvider \<Rightarrow> string \<Rightarrow> ProtocolCryptoContext" where
  "fromNetworkName user validator name =
     (let context = (\<lambda>profile network production rejection.
            \<lparr>pccProfile = profile, networkProfile = network, pccPolicy = developmentPolicy,
             temporaryProviderAllowed = False, requiresProductionProvider = production, pccRejection = rejection,
             userSignatureProvider = user, validatorSignatureProvider = validator\<rparr>)
      in if name = ''localnet'' then context LOCALNET ''localnet'' False []
         else if name = ''localnet-soak'' then context LOCALNET name False []
         else if name = ''testnet'' \<or> name = ''testnet-candidate'' then context TESTNET ''testnet'' False []
         else if name = ''mainnet''
         then context MAINNET ''mainnet'' True ''mainnet requires a production-safe signature provider.''
         else context Profile_UNKNOWN name True (''Unknown network profile for protocol crypto context: '' @ name))"

definition hasTemporaryProvider :: "ProtocolCryptoContext \<Rightarrow> bool" where
  "hasTemporaryProvider c \<longleftrightarrow>
     isDevelopmentOnlyAlgorithm (provAlgorithm (userSignatureProvider c)) \<or>
     isDevelopmentOnlyAlgorithm (provAlgorithm (validatorSignatureProvider c))"

definition productionSafe :: "ProtocolCryptoContext \<Rightarrow> bool" where
  "productionSafe c \<longleftrightarrow> \<not> hasTemporaryProvider c \<and> \<not> developmentMode (pccPolicy c) \<and> pccRejection c = []"

definition cryptoContextValid :: "ProtocolCryptoContext \<Rightarrow> bool" where
  "cryptoContextValid c =
     (if networkProfile c = [] \<or> pccProfile c = Profile_UNKNOWN then False
      else if hasTemporaryProvider c \<and> \<not> temporaryProviderAllowed c then False
      else if requiresProductionProvider c \<and> \<not> productionSafe c then False
      else pccRejection c = [])"

subsection \<open>The context of a block execution\<close>

record DeterministicStateTransitionResult =
  dtValid :: bool
  dtReason :: string
  dtAccounts :: AccountStateView
  dtDomains :: "(string, string) smap"

definition transitionAccepted :: "AccountStateView \<Rightarrow> (string, string) smap \<Rightarrow> DeterministicStateTransitionResult" where
  "transitionAccepted accounts domains =
     (let named = list_all (\<lambda>(domain, payload). domain \<noteq> [] \<and> payload \<noteq> []) domains in
      \<lparr>dtValid = (viewValid accounts \<and> named),
       dtReason = (if \<not> named then ''Protocol transition produced an invalid state domain.''
                   else if \<not> viewValid accounts then ''Protocol transition produced invalid accounts.'' else []),
       dtAccounts = accounts, dtDomains = domains\<rparr>)"

definition transitionRejected :: "string \<Rightarrow> DeterministicStateTransitionResult" where
  "transitionRejected reason = \<lparr>dtValid = False, dtReason = reason, dtAccounts = [], dtDomains = []\<rparr>"

text \<open>
  \<open>pcFactory\<close> is the factory of the domain executor: absent, or a call that may throw, return a null
  pointer, or an executor with its initial state.
\<close>

type_synonym stateDomainTransition =
  "AccountStateView \<Rightarrow> Amount \<Rightarrow> Transaction list \<Rightarrow> LedgerRecord list \<Rightarrow> int \<Rightarrow> DeterministicStateTransitionResult result"

record 'd StateTransitionPreviewContext =
  minimumFeeRawUnits :: int
  pcAccounts :: AccountStateView
  pcAllowMissing :: bool
  pcEnforce :: bool
  pcFeeRecipient :: string
  wallClockNow :: int
  expectedChainId :: string
  pcCrypto :: "ProtocolCryptoContext option"
  deterministicStateDomains :: "(string, string) smap"
  stateTransition :: "stateDomainTransition option"
  pcFactory :: "('d TransactionDomainExecutor \<times> 'd) option result option"
  pcRequireExecutor :: bool
  pcCoinLots :: "CoinLotRegistry option"

definition structuralOnly :: "int \<Rightarrow> 'd StateTransitionPreviewContext" where
  "structuralOnly fee =
     \<lparr>minimumFeeRawUnits = fee, pcAccounts = [], pcAllowMissing = True, pcEnforce = False, pcFeeRecipient = [],
      wallClockNow = 0, expectedChainId = [], pcCrypto = None, deterministicStateDomains = [], stateTransition = None,
      pcFactory = None, pcRequireExecutor = False, pcCoinLots = None\<rparr>"

definition enableCoinLotPreview :: "CoinLotRegistry \<Rightarrow> 'd StateTransitionPreviewContext \<Rightarrow> 'd StateTransitionPreviewContext" where
  "enableCoinLotPreview reg ctx = ctx\<lparr>pcCoinLots := Some reg\<rparr>"

definition protocolAuthorizationEnabled :: "'d StateTransitionPreviewContext \<Rightarrow> bool" where
  "protocolAuthorizationEnabled ctx \<longleftrightarrow>
     expectedChainId ctx \<noteq> [] \<and> (case pcCrypto ctx of None \<Rightarrow> False | Some c \<Rightarrow> cryptoContextValid c)"

definition previewContextValid :: "'d StateTransitionPreviewContext \<Rightarrow> bool" where
  "previewContextValid ctx =
     (if minimumFeeRawUnits ctx < 0 \<or> \<not> viewValid (pcAccounts ctx) then False
      else if pcFeeRecipient ctx \<noteq> [] \<and> \<not> hasAccount (pcAccounts ctx) (pcFeeRecipient ctx) then False
      else if (expectedChainId ctx = []) \<noteq> (pcCrypto ctx = None) then False
      else if (case pcCrypto ctx of None \<Rightarrow> False | Some c \<Rightarrow> \<not> cryptoContextValid c) then False
      else if \<not> list_all (\<lambda>(domain, payload). domain \<noteq> [] \<and> payload \<noteq> []) (deterministicStateDomains ctx) then False
      else \<not> (pcRequireExecutor ctx \<and> pcFactory ctx = None))"

definition protocolAuthorityRejectionReason :: "'d StateTransitionPreviewContext \<Rightarrow> string" where
  "protocolAuthorityRejectionReason ctx =
     (if \<not> previewContextValid ctx then ''State transition context is invalid.''
      else if \<not> pcEnforce ctx then ''Authoritative protocol execution requires account-state enforcement.''
      else if pcAllowMissing ctx then ''Authoritative protocol execution cannot allow missing accounts.''
      else if \<not> protocolAuthorizationEnabled ctx
      then ''Authoritative protocol execution requires chain id and a valid protocol crypto context.''
      else if \<not> pcRequireExecutor ctx
      then ''Authoritative protocol execution requires the canonical protocol-domain executor.''
      else if pcFactory ctx = None then ''Authoritative protocol execution has no protocol-domain executor factory.''
      else if stateTransition ctx \<noteq> None
      then ''Authoritative protocol execution cannot use legacy state-domain transition fallback.'' else [])"

definition transitionProtocolState ::
    "'d StateTransitionPreviewContext \<Rightarrow> AccountStateView \<Rightarrow> Amount \<Rightarrow> Transaction list \<Rightarrow> LedgerRecord list \<Rightarrow> int
       \<Rightarrow> DeterministicStateTransitionResult result" where
  "transitionProtocolState ctx accounts fee txs records timestamp =
     (case stateTransition ctx of
        None \<Rightarrow> Inr (transitionAccepted accounts (deterministicStateDomains ctx))
      | Some f \<Rightarrow> f accounts fee txs records timestamp)"

definition createDomainExecutor :: "'d StateTransitionPreviewContext \<Rightarrow> ('d TransactionDomainExecutor \<times> 'd) option result" where
  "createDomainExecutor ctx = (case pcFactory ctx of None \<Rightarrow> Inr None | Some made \<Rightarrow> made)"

subsection \<open>Previewing a block\<close>

datatype StateTransitionPreviewStatus =
    Preview_VALID | Preview_INVALID_BLOCK | Preview_INVALID_CONTEXT | Preview_INVALID_LEDGER_RECORD
  | Preview_INVALID_TRANSACTION | Preview_UNSUPPORTED_TRANSITION | Preview_DUPLICATE_TRANSACTION
  | Preview_INSUFFICIENT_BALANCE | Preview_INVALID_NONCE

record StateTransitionPreviewResult =
  prStatus :: StateTransitionPreviewStatus
  prReason :: string
  processedTransactionCount :: nat
  prTotalFee :: Amount
  prTouchedAccounts :: "string list"
  prTouchedDomains :: "string list"
  prTransactionIds :: "string list"
  resultingAccounts :: "AccountState list"
  prStateRoot :: string
  prReceipts :: "TransactionReceipt list"
  prReceiptsRoot :: string

definition previewRejected :: "StateTransitionPreviewStatus \<Rightarrow> string \<Rightarrow> nat \<Rightarrow> StateTransitionPreviewResult" where
  "previewRejected status reason n =
     \<lparr>prStatus = status, prReason = reason, processedTransactionCount = n, prTotalFee = zeroAmount,
      prTouchedAccounts = [], prTouchedDomains = [], prTransactionIds = [], resultingAccounts = [],
      prStateRoot = [], prReceipts = [], prReceiptsRoot = []\<rparr>"

text \<open>The variables of the loop over the records; the sets keep their elements in order of insertion.\<close>

record 'd Preview =
  sourceIds :: "string list"
  transactionIds :: "string list"
  touchedAccountSet :: "string list"
  touchedDomainSet :: "string list"
  orderedTransactionIds :: "string list"
  orderedTransactions :: "Transaction list"
  orderedProtocolRecords :: "LedgerRecord list"
  pvReceipts :: "TransactionReceipt list"
  workingAccountState :: AccountStateView
  workingCoinLots :: "CoinLotRegistry option"
  pvDomain :: "('d TransactionDomainExecutor \<times> 'd) option"
  pvTotalFee :: Amount
  pvCount :: nat
  evidenceSectionStarted :: bool
  previousEvidenceId :: string

definition executionContext :: "'d StateTransitionPreviewContext \<Rightarrow> Block \<Rightarrow> 'd Preview \<Rightarrow> 'd TransactionExecutionContext" where
  "executionContext ctx block st =
     \<lparr>xcAccounts = workingAccountState st, xcHeight = blockIndex block, xcTimestamp = blockTimestamp block,
      enforceAccountState = pcEnforce ctx, allowMissingAccounts = pcAllowMissing ctx,
      requireDomainExecutor = pcRequireExecutor ctx, feeRecipientAddress = pcFeeRecipient ctx,
      xcCoinLots = workingCoinLots st, xcDomain = pvDomain st\<rparr>"

definition previewStatusOf :: "TransactionExecutionStatus \<Rightarrow> StateTransitionPreviewStatus" where
  "previewStatusOf status =
     (if status = Exec_INVALID_NONCE then Preview_INVALID_NONCE
      else if status = Exec_INSUFFICIENT_BALANCE then Preview_INSUFFICIENT_BALANCE
      else Preview_INVALID_TRANSACTION)"

definition authorizationFails :: "sha256 \<Rightarrow> 'd StateTransitionPreviewContext \<Rightarrow> Transaction \<Rightarrow> bool" where
  "authorizationFails sha ctx tx \<longleftrightarrow>
     protocolAuthorizationEnabled ctx \<and>
     (case pcCrypto ctx of
        None \<Rightarrow> False
      | Some c \<Rightarrow> \<not> verifyAuthorization sha (expectedChainId ctx) (pccPolicy c) Ctx_USER_TRANSACTION
                       (userSignatureProvider c) tx)"

text \<open>The loop variables after a transaction that was applied.\<close>

definition recordApplied ::
    "'d StateTransitionPreviewContext \<Rightarrow> Transaction \<Rightarrow> TransactionExecutionResult \<Rightarrow> 'd TransactionExecutionContext
       \<Rightarrow> Amount \<Rightarrow> 'd Preview \<Rightarrow> 'd Preview" where
  "recordApplied ctx tx res after fee st =
     st\<lparr>workingAccountState := xrAccounts res, workingCoinLots := xcCoinLots after, pvDomain := xcDomain after,
        touchedAccountSet := touchedAccountSet st @ xrTouchedAccounts res,
        touchedDomainSet := touchedDomainSet st @ xrTouchedDomains res,
        pvReceipts := pvReceipts st @ (if pcEnforce ctx then [xrReceipt res] else []),
        pvTotalFee := fee, orderedTransactionIds := orderedTransactionIds st @ [txId tx],
        orderedTransactions := orderedTransactions st @ [tx], pvCount := pvCount st + 1\<rparr>"

text \<open>The body of the \<open>try\<close> block for a transaction record: an exception, a rejection, or the new loop variables.\<close>

definition transactionRecord ::
    "sha256 \<Rightarrow> 'd StateTransitionPreviewContext \<Rightarrow> Block \<Rightarrow> LedgerRecord \<Rightarrow> 'd Preview
       \<Rightarrow> (StateTransitionPreviewResult + 'd Preview) result" where
  "transactionRecord sha ctx block record st =
     bindR (txDeserialize sha (recordPayload record)) (\<lambda>tx.
     if txId tx \<noteq> recordSourceId record
     then Inr (Inl (previewRejected Preview_INVALID_TRANSACTION
                      ''Transaction ledger source id does not match transaction id.'' (pvCount st)))
     else if authorizationFails sha ctx tx
     then Inr (Inl (previewRejected Preview_INVALID_TRANSACTION
                      ''Transaction chain binding, sender binding, or signature verification failed.'' (pvCount st)))
     else if txNonce tx = 0 \<or> isNegative (txFee tx) \<or> validateShape tx \<noteq> None
     then Inr (Inl (previewRejected Preview_INVALID_TRANSACTION
                      (''Block contains an invalid transaction ledger payload: '' @
                       (if txNonce tx = 0 \<or> isNegative (txFee tx) then [] else the (validateShape tx))) (pvCount st)))
     else if rawUnits (txFee tx) < minimumFeeRawUnits ctx
     then Inr (Inl (previewRejected Preview_INVALID_TRANSACTION
                      ''Block contains a transaction below the network minimum fee.'' (pvCount st)))
     else if txId tx \<in> set (transactionIds st)
     then Inr (Inl (previewRejected Preview_DUPLICATE_TRANSACTION
                      ''Block contains duplicate transaction ids.'' (pvCount st)))
     else let st1 = st\<lparr>transactionIds := txId tx # transactionIds st\<rparr> in
       case execute sha tx (executionContext ctx block st1) of
         (res, after) \<Rightarrow>
           if xrStatus res \<noteq> Exec_APPLIED
           then Inr (Inl (previewRejected (previewStatusOf (xrStatus res)) (xrCode res @ '': '' @ xrReason res) (pvCount st)))
           else bindR (amountAdd (pvTotalFee st1) (txFee tx)) (\<lambda>fee.
                Inr (Inr (recordApplied ctx tx res after fee st1))))"

definition evidenceRecord ::
    "(LedgerRecord \<Rightarrow> string option) \<Rightarrow> Block \<Rightarrow> LedgerRecord \<Rightarrow> 'd Preview \<Rightarrow> StateTransitionPreviewResult + 'd Preview" where
  "evidenceRecord check block record st =
     (case check record of
        Some reason \<Rightarrow>
          Inl (previewRejected Preview_INVALID_LEDGER_RECORD
                 (''Non-transaction ledger record failed domain validation: '' @ reason) (pvCount st))
      | None \<Rightarrow>
          if recordType record \<noteq> SLASHING_EVIDENCE
          then Inl (previewRejected Preview_UNSUPPORTED_TRANSITION
                 ''Non-genesis block contains a record without an implemented deterministic state transition.'' (pvCount st))
          else if recordTimestamp record \<noteq> blockTimestamp block \<or>
                  previousEvidenceId st \<noteq> [] \<and> recordSourceId record \<le> previousEvidenceId st
          then Inl (previewRejected Preview_INVALID_LEDGER_RECORD
                 ''Slashing evidence records must use the block timestamp and canonical id order.'' (pvCount st))
          else Inr (st\<lparr>evidenceSectionStarted := True, previousEvidenceId := recordSourceId record,
                 orderedProtocolRecords := orderedProtocolRecords st @ [record],
                 touchedDomainSet := touchedDomainSet st @ [''slashing'', ''validators'', ''staking'']\<rparr>))"

definition previewRecord ::
    "sha256 \<Rightarrow> (LedgerRecord \<Rightarrow> string option) \<Rightarrow> 'd StateTransitionPreviewContext \<Rightarrow> Block \<Rightarrow> LedgerRecord \<Rightarrow> 'd Preview
       \<Rightarrow> StateTransitionPreviewResult + 'd Preview" where
  "previewRecord sha check ctx block record st =
     (if \<not> ledgerRecordValid sha record
      then Inl (previewRejected Preview_INVALID_LEDGER_RECORD ''Block contains an invalid ledger record.'' (pvCount st))
      else if recordSourceId record \<in> set (sourceIds st)
      then Inl (previewRejected Preview_DUPLICATE_TRANSACTION ''Block contains duplicate ledger record source ids.'' (pvCount st))
      else let st1 = st\<lparr>sourceIds := recordSourceId record # sourceIds st\<rparr> in
        if recordType record \<noteq> TRANSACTION then evidenceRecord check block record st1
        else if evidenceSectionStarted st1
        then Inl (previewRejected Preview_INVALID_LEDGER_RECORD
               ''Transactions cannot appear after slashing evidence records.'' (pvCount st))
        else case transactionRecord sha ctx block record st1 of
               Inl e \<Rightarrow> Inl (previewRejected Preview_INVALID_TRANSACTION (exnWhat e) (pvCount st))
             | Inr r \<Rightarrow> r)"

fun previewRecords ::
    "sha256 \<Rightarrow> (LedgerRecord \<Rightarrow> string option) \<Rightarrow> 'd StateTransitionPreviewContext \<Rightarrow> Block \<Rightarrow> LedgerRecord list \<Rightarrow> 'd Preview
       \<Rightarrow> StateTransitionPreviewResult + 'd Preview" where
  "previewRecords sha check ctx block [] st = Inr st"
| "previewRecords sha check ctx block (r # rs) st =
     (case previewRecord sha check ctx block r st of
        Inl rejection \<Rightarrow> Inl rejection
      | Inr st' \<Rightarrow> previewRecords sha check ctx block rs st')"

definition protocolTransition ::
    "'d StateTransitionPreviewContext \<Rightarrow> Block \<Rightarrow> 'd Preview \<Rightarrow> DeterministicStateTransitionResult result" where
  "protocolTransition ctx block st =
     (case pvDomain st of
        Some (ex, d) \<Rightarrow>
          bindR (fst (domFinalizeBlock ex (workingAccountState st) (pvTotalFee st) (orderedProtocolRecords st)
                        (blockIndex block) (blockTimestamp block) d)) (\<lambda>finalized.
          Inr (if domApplied finalized then transitionAccepted (domAccounts finalized) (domDomains finalized)
               else transitionRejected (domCode finalized @ '': '' @ domReason finalized)))
      | None \<Rightarrow>
          transitionProtocolState ctx (workingAccountState st) (pvTotalFee st) (orderedTransactions st)
            (orderedProtocolRecords st) (blockTimestamp block))"

text \<open>After the loop: receipts, settlement of the block, state root and result.\<close>

definition settleBlock ::
    "sha256 \<Rightarrow> 'd StateTransitionPreviewContext \<Rightarrow> Block \<Rightarrow> 'd Preview \<Rightarrow> StateTransitionPreviewResult result" where
  "settleBlock sha ctx block st =
     (if \<not> list_all receiptValid (pvReceipts st)
      then Inr (previewRejected Preview_INVALID_TRANSACTION
                  ''State transition generated an invalid transaction receipt.'' (pvCount st))
      else case protocolTransition ctx block st of
        Inl e \<Rightarrow> Inr (previewRejected Preview_INVALID_CONTEXT (''Protocol state transition failed: '' @ exnWhat e) (pvCount st))
      | Inr transition \<Rightarrow>
          if \<not> dtValid transition
          then Inr (previewRejected Preview_INVALID_TRANSACTION (dtReason transition) (pvCount st))
          else bindR (withLots sha (workingCoinLots st) (dtDomains transition)) (\<lambda>domains.
          bindR (calculateProtocolStateRoot sha (dtAccounts transition) domains) (\<lambda>root.
          if root = []
          then Inr (previewRejected Preview_INVALID_CONTEXT
                      ''Protocol state transition produced an invalid state commitment.'' (pvCount st))
          else Inr \<lparr>prStatus = Preview_VALID, prReason = [], processedTransactionCount = pvCount st,
                 prTotalFee = pvTotalFee st, prTouchedAccounts = sort (remdups (touchedAccountSet st)),
                 prTouchedDomains = sort (remdups (touchedDomainSet st @
                   (if isPositive (pvTotalFee st) then [''accounts'', ''burns'', ''supply''] else []))),
                 prTransactionIds = orderedTransactionIds st, resultingAccounts = viewAccounts (dtAccounts transition),
                 prStateRoot = root, prReceipts = pvReceipts st,
                 prReceiptsRoot = buildRoot sha (map receiptSerialize (pvReceipts st))\<rparr>)))"

definition initialPreview ::
    "'d StateTransitionPreviewContext \<Rightarrow> ('d TransactionDomainExecutor \<times> 'd) option \<Rightarrow> 'd Preview" where
  "initialPreview ctx executor =
     \<lparr>sourceIds = [], transactionIds = [], touchedAccountSet = [], touchedDomainSet = [], orderedTransactionIds = [],
      orderedTransactions = [], orderedProtocolRecords = [], pvReceipts = [], workingAccountState = pcAccounts ctx,
      workingCoinLots = pcCoinLots ctx, pvDomain = executor, pvTotalFee = zeroAmount, pvCount = 0,
      evidenceSectionStarted = False, previousEvidenceId = []\<rparr>"

definition previewBlock ::
    "sha256 \<Rightarrow> (LedgerRecord \<Rightarrow> string option) \<Rightarrow> 'd StateTransitionPreviewContext \<Rightarrow> Block
       \<Rightarrow> StateTransitionPreviewResult result" where
  "previewBlock sha check ctx block =
     (if \<not> previewContextValid ctx
      then Inr (previewRejected Preview_INVALID_CONTEXT ''State transition preview context is invalid.'' 0)
      else if \<not> blockValid sha False block
      then Inr (previewRejected Preview_INVALID_BLOCK ''Block is structurally invalid.'' 0)
      else bindR (createDomainExecutor ctx) (\<lambda>executor.
        if pcRequireExecutor ctx \<and> executor = None
        then Inr (previewRejected Preview_INVALID_CONTEXT
                    ''State transition context requires a protocol-domain executor, but none was created.'' 0)
        else case previewRecords sha check ctx block (blockRecords block) (initialPreview ctx executor) of
               Inl rejection \<Rightarrow> Inr rejection
             | Inr st \<Rightarrow> settleBlock sha ctx block st))"

definition executeBlock ::
    "sha256 \<Rightarrow> (LedgerRecord \<Rightarrow> string option) \<Rightarrow> 'd StateTransitionPreviewContext \<Rightarrow> Block
       \<Rightarrow> StateTransitionPreviewResult result" where
  "executeBlock sha check ctx block =
     (let reason = protocolAuthorityRejectionReason ctx in
      if reason \<noteq> [] then Inr (previewRejected Preview_INVALID_CONTEXT reason 0)
      else previewBlock sha check ctx block)"

subsection \<open>Validation of a candidate block\<close>

datatype BlockValidationStatus =
    Candidate_VALID | Candidate_INVALID_BLOCKCHAIN | Candidate_INVALID_BLOCK | Candidate_INVALID_PREVIOUS_HASH
  | Candidate_INVALID_LEDGER_RECORD | Candidate_INVALID_TRANSACTION | Candidate_DUPLICATE_LEDGER_SOURCE
  | Candidate_STATE_PREVIEW_FAILED

datatype BlockValidationMode = StructuralOnly | ProtocolCommitment

record BlockValidationResult =
  bvStatus :: BlockValidationStatus
  bvReason :: string
  bvStateRoot :: string
  bvTotalFee :: Amount
  bvReceiptsRoot :: string
  bvAccounts :: "AccountState list"

definition candidateRejected :: "BlockValidationStatus \<Rightarrow> string \<Rightarrow> BlockValidationResult" where
  "candidateRejected status reason =
     \<lparr>bvStatus = status, bvReason = reason, bvStateRoot = [], bvTotalFee = zeroAmount, bvReceiptsRoot = [], bvAccounts = []\<rparr>"

fun candidateStatusOf :: "StateTransitionPreviewStatus \<Rightarrow> BlockValidationStatus" where
  "candidateStatusOf Preview_INVALID_CONTEXT = Candidate_STATE_PREVIEW_FAILED"
| "candidateStatusOf Preview_DUPLICATE_TRANSACTION = Candidate_DUPLICATE_LEDGER_SOURCE"
| "candidateStatusOf Preview_INVALID_LEDGER_RECORD = Candidate_INVALID_LEDGER_RECORD"
| "candidateStatusOf Preview_INVALID_TRANSACTION = Candidate_INVALID_TRANSACTION"
| "candidateStatusOf Preview_UNSUPPORTED_TRANSITION = Candidate_INVALID_TRANSACTION"
| "candidateStatusOf Preview_INSUFFICIENT_BALANCE = Candidate_INVALID_TRANSACTION"
| "candidateStatusOf Preview_INVALID_NONCE = Candidate_INVALID_TRANSACTION"
| "candidateStatusOf Preview_INVALID_BLOCK = Candidate_STATE_PREVIEW_FAILED"
| "candidateStatusOf Preview_VALID = Candidate_VALID"

definition validateCandidateBlock ::
    "sha256 \<Rightarrow> (LedgerRecord \<Rightarrow> string option) \<Rightarrow> Blockchain \<Rightarrow> Block \<Rightarrow> 'd StateTransitionPreviewContext
       \<Rightarrow> BlockValidationMode \<Rightarrow> BlockValidationResult result" where
  "validateCandidateBlock sha check chain block ctx mode =
     (if chainBlocks chain = [] \<or> \<not> blockchainValid sha False chain
      then Inr (candidateRejected Candidate_INVALID_BLOCKCHAIN ''Blockchain is empty or invalid.'')
      else if \<not> blockValid sha (mode = ProtocolCommitment) block
      then Inr (candidateRejected Candidate_INVALID_BLOCK ''Candidate block is structurally invalid.'')
      else if \<not> isGenesisBlock block \<and> blockTimestamp block \<le> blockTimestamp (last (chainBlocks chain))
      then Inr (candidateRejected Candidate_INVALID_BLOCK
                  ''Candidate block timestamp must be strictly greater than parent block timestamp.'')
      else if \<not> canAppendBlock sha chain block
      then Inr (candidateRejected Candidate_INVALID_PREVIOUS_HASH ''Candidate block does not append to the current chain tip.'')
      else if wallClockNow ctx > 0 \<and> blockTimestamp block > wallClockNow ctx + 300
      then Inr (candidateRejected Candidate_INVALID_BLOCK ''Candidate block timestamp is too far in the future.'')
      else if \<not> list_all (ledgerRecordValid sha) (blockRecords block)
      then Inr (candidateRejected Candidate_INVALID_LEDGER_RECORD ''Candidate block contains an invalid ledger record.'')
      else bindR (if mode = ProtocolCommitment then executeBlock sha check ctx block else previewBlock sha check ctx block)
        (\<lambda>preview.
        if prStatus preview \<noteq> Preview_VALID
        then Inr (candidateRejected (candidateStatusOf (prStatus preview)) (prReason preview))
        else if \<not> isGenesisBlock block \<and> mode = ProtocolCommitment \<and> blockStateRoot block \<noteq> prStateRoot preview
        then Inr (candidateRejected Candidate_INVALID_BLOCK
                    ''State root mismatch between block header and computed state transition.'')
        else if \<not> isGenesisBlock block \<and> mode = ProtocolCommitment \<and> prReceiptsRoot preview \<noteq> blockReceiptsRoot block
        then Inr (candidateRejected Candidate_INVALID_BLOCK
                    ''Receipts root mismatch between block header and computed state transition.'')
        else Inr \<lparr>bvStatus = Candidate_VALID, bvReason = [], bvStateRoot = prStateRoot preview,
               bvTotalFee = prTotalFee preview, bvReceiptsRoot = prReceiptsRoot preview,
               bvAccounts = resultingAccounts preview\<rparr>))"

text \<open>
  The account view the next block starts from (\<open>accountViewFromAccounts\<close> of
  \<open>src/node/ProtocolStateTransition.cpp\<close>).
\<close>

fun addAccounts :: "AccountStateView \<Rightarrow> AccountState list \<Rightarrow> AccountStateView result" where
  "addAccounts view [] = Inr view"
| "addAccounts view (a # as) =
     (case putAccount a view of
        (False, _) \<Rightarrow> Inl (LogicError ''State replay produced an invalid account view.'')
      | (True, view') \<Rightarrow> addAccounts view' as)"

definition accountViewFromAccounts :: "AccountState list \<Rightarrow> AccountStateView result" where
  "accountViewFromAccounts accounts = addAccounts [] accounts"

subsection \<open>What the loop has done\<close>

definition settlementKeepsNonces :: "'d TransactionDomainExecutor \<Rightarrow> bool" where
  "settlementKeepsNonces ex \<longleftrightarrow>
     (\<forall>v fee rs height now d r d'. domFinalizeBlock ex v fee rs height now d = (Inr r, d') \<and> domApplied r \<and> viewOk v \<longrightarrow>
        viewOk (domAccounts r) \<and> nonceOf (domAccounts r) = nonceOf v)"

text \<open>What block execution relies on: no operation of the domain executor breaks the accounts or changes a nonce.\<close>

definition lawfulExecutor :: "'d TransactionDomainExecutor \<Rightarrow> bool" where
  "lawfulExecutor ex \<longleftrightarrow> (\<forall>handler. nonceKeeping ex handler) \<and> settlementKeepsNonces ex"

definition lawfulContext :: "'d StateTransitionPreviewContext \<Rightarrow> bool" where
  "lawfulContext ctx \<longleftrightarrow> (\<forall>ex d. pcFactory ctx = Some (Inr (Some (ex, d))) \<longrightarrow> lawfulExecutor ex)"

definition isTransactionRecord :: "LedgerRecord \<Rightarrow> bool" where
  "isTransactionRecord r \<longleftrightarrow> recordType r = TRANSACTION"

text \<open>The transactions of the records, as the block carries them.\<close>

definition carries :: "sha256 \<Rightarrow> LedgerRecord list \<Rightarrow> Transaction list \<Rightarrow> bool" where
  "carries sha rs txs \<longleftrightarrow>
     map (\<lambda>r. txDeserialize sha (recordPayload r)) (filter isTransactionRecord rs) = map Inr txs \<and>
     map recordSourceId (filter isTransactionRecord rs) = map txId txs"

definition admissible :: "sha256 \<Rightarrow> 'd StateTransitionPreviewContext \<Rightarrow> Transaction \<Rightarrow> bool" where
  "admissible sha ctx tx \<longleftrightarrow>
     \<not> authorizationFails sha ctx tx \<and> validateShape tx = None \<and> minimumFeeRawUnits ctx \<le> rawUnits (txFee tx)"

text \<open>Transactions first, then evidence with the time of the block and increasing identifiers.\<close>

definition orderly :: "Block \<Rightarrow> LedgerRecord list \<Rightarrow> bool" where
  "orderly block rs \<longleftrightarrow>
     (\<exists>ts es. rs = ts @ es \<and> list_all isTransactionRecord ts \<and>
        list_all (\<lambda>r. recordType r = SLASHING_EVIDENCE \<and> recordTimestamp r = blockTimestamp block) es \<and>
        sorted_wrt (<) (map recordSourceId es))"

definition feeSum :: "Transaction list \<Rightarrow> int" where
  "feeSum txs = sum_list (map (\<lambda>tx. rawUnits (txFee tx)) txs)"

definition recordsRead :: "sha256 \<Rightarrow> 'd StateTransitionPreviewContext \<Rightarrow> LedgerRecord list \<Rightarrow> 'd Preview \<Rightarrow> bool" where
  "recordsRead sha ctx rs st \<longleftrightarrow>
     carries sha rs (orderedTransactions st) \<and> orderedTransactionIds st = map txId (orderedTransactions st) \<and>
     distinct (map recordSourceId rs) \<and> set (sourceIds st) = recordSourceId ` set rs \<and>
     list_all (admissible sha ctx) (orderedTransactions st) \<and> pvCount st = length (orderedTransactions st) \<and>
     rawUnits (pvTotalFee st) = feeSum (orderedTransactions st) \<and> amountOk (pvTotalFee st)"

definition evidenceRead :: "Block \<Rightarrow> LedgerRecord list \<Rightarrow> 'd Preview \<Rightarrow> bool" where
  "evidenceRead block rs st \<longleftrightarrow>
     orderly block rs \<and> orderedProtocolRecords st = filter (\<lambda>r. \<not> isTransactionRecord r) rs \<and>
     list_all (\<lambda>r. recordSourceId r \<noteq> []) rs \<and>
     evidenceSectionStarted st = (orderedProtocolRecords st \<noteq> []) \<and>
     previousEvidenceId st = (if orderedProtocolRecords st = [] then [] else recordSourceId (last (orderedProtocolRecords st)))"

definition noncesFollowed :: "'d StateTransitionPreviewContext \<Rightarrow> 'd Preview \<Rightarrow> bool" where
  "noncesFollowed ctx st \<longleftrightarrow>
     viewOk (workingAccountState st) \<and> inTurn (nonceOf (pcAccounts ctx)) (orderedTransactions st) \<and>
     nonceOf (workingAccountState st) = noncesAfter (nonceOf (pcAccounts ctx)) (orderedTransactions st) \<and>
     map rcTransactionId (pvReceipts st) = map txId (orderedTransactions st)"

lemma stoll_range: "stoll s = Inr i \<Longrightarrow> in_i64 i"
  by (simp add: stoll_def stollAt_def Let_def split: if_splits)

lemma built_amounts:
  "newTransaction sha t a b amount fee n time lots = Inr tx \<Longrightarrow> txAmount tx = amount \<and> txFee tx = fee"
  "newDataTransaction sha t a b amount fee n time bytes = Inr tx \<Longrightarrow> txAmount tx = amount \<and> txFee tx = fee"
  "withChainId sha chain tx = Inr tx' \<Longrightarrow> txAmount tx' = txAmount tx \<and> txFee tx' = txFee tx"
  "attachSignatureBundle bundle tx = Inr tx' \<Longrightarrow> txAmount tx' = txAmount tx \<and> txFee tx' = txFee tx"
  by (auto simp: newTransaction_def newDataTransaction_def withChainId_def attachSignatureBundle_def withTxId_fields
      split: if_splits)

lemma readAmount_ok: "readAmount payload key = Inr a \<Longrightarrow> amountOk a"
  using stoll_range by (auto simp: readAmount_def fromRawUnits_def newAmount_def amountOk_def in_i64_def split: if_splits)

lemma parsed_amounts:
  assumes "parseUnsigned sha payload = Inr t"
  shows "amountOk (txAmount t) \<and> amountOk (txFee t)"
proof -
  from assms obtain amount fee tx0 where tx0: "readAmount payload ''amountRaw'' = Inr amount"
    "readAmount payload ''feeRaw'' = Inr fee" "txAmount tx0 = amount \<and> txFee tx0 = fee"
    "t = tx0 \<or> (\<exists>chain. withChainId sha chain tx0 = Inr t)"
    unfolding parseUnsigned_def bindR_Inr_iff
    apply (elim exE conjE)
    subgoal premises prems for typeText ty sender target amount fee nonceText nonce timeText time lots tx0
    proof (rule prems(1) [OF prems(6,7)])
      show "txAmount tx0 = amount \<and> txFee tx0 = fee"
        using prems(13) by (cases "hasField payload ''dataHex''") (auto dest: built_amounts(1,2))
      show "t = tx0 \<or> (\<exists>chain. withChainId sha chain tx0 = Inr t)"
        using prems(14) by (cases "hasField payload ''chainId''") auto
    qed
    done
  then show ?thesis using readAmount_ok built_amounts(3) by metis
qed

lemma deserialized_amounts:
  assumes "txDeserialize sha s = Inr tx"
  shows "amountOk (txAmount tx)" "amountOk (txFee tx)"
proof -
  obtain payload unsigned where u: "parseUnsigned sha payload = Inr unsigned" "txAmount tx = txAmount unsigned" "txFee tx = txFee unsigned"
    using assms by (auto simp: txDeserialize_def dest: built_amounts(4) split: if_splits)
  show "amountOk (txAmount tx)" "amountOk (txFee tx)" using parsed_amounts [OF u(1)] u(2,3) by simp_all
qed

lemma carries_snoc:
  "carries sha (rs @ [r]) txs \<longleftrightarrow>
     (if isTransactionRecord r
      then \<exists>txs' tx. txs = txs' @ [tx] \<and> carries sha rs txs' \<and> txDeserialize sha (recordPayload r) = Inr tx \<and> txId tx = recordSourceId r
      else carries sha rs txs)"
  by (cases txs rule: rev_cases) (auto simp: carries_def)

lemma feeSum_snoc: "feeSum (txs @ [tx]) = feeSum txs + rawUnits (txFee tx)"
  by (simp add: feeSum_def)

lemma execute_domain:
  assumes "execute sha tx ctx = (res, ctx')"
  shows "map_option fst (xcDomain ctx') = map_option fst (xcDomain ctx)"
  using assms
  by (auto simp: execute_def executeBody_def split: sum.splits prod.splits option.splits if_splits
      dest!: dispatch_frame(4) lots_frame(3))

lemma orderly_Nil [simp]: "orderly block []"
  by (simp add: orderly_def)

lemma orderly_transaction:
  assumes "orderly block rs" and "filter (\<lambda>r. \<not> isTransactionRecord r) rs = []" and "isTransactionRecord r"
  shows "orderly block (rs @ [r])"
  using assms(2,3) unfolding orderly_def
  by (intro exI [of _ "rs @ [r]"] exI [of _ "[]"]) (auto simp: filter_empty_conv list_all_iff)

lemma orderly_evidence:
  assumes "orderly block rs" and "recordType r = SLASHING_EVIDENCE" and "recordTimestamp r = blockTimestamp block"
    and "es = filter (\<lambda>r. \<not> isTransactionRecord r) rs" and "es \<noteq> [] \<longrightarrow> recordSourceId (last es) < recordSourceId r"
  shows "orderly block (rs @ [r])"
proof -
  obtain ts es' where rs: "rs = ts @ es'" "list_all isTransactionRecord ts"
    "list_all (\<lambda>r. recordType r = SLASHING_EVIDENCE \<and> recordTimestamp r = blockTimestamp block) es'"
    "sorted_wrt (<) (map recordSourceId es')" using assms(1) by (auto simp: orderly_def)
  have "filter (\<lambda>r. \<not> isTransactionRecord r) es' = es'" using rs(3) by (auto simp: list_all_iff isTransactionRecord_def filter_id_conv)
  then have es: "es = es'" using assms(4) rs(1,2) by (auto simp: list_all_iff filter_empty_conv)
  have "x < recordSourceId r" if "x \<in> set (map recordSourceId es')" for x
  proof -
    obtain i where i: "i < length es'" "x = recordSourceId (es' ! i)" using \<open>x \<in> _\<close> by (auto simp: in_set_conv_nth)
    have "recordSourceId (es' ! i) \<le> recordSourceId (last es')"
    proof (cases "i = length es' - 1")
      case False
      then have "recordSourceId (es' ! i) < recordSourceId (es' ! (length es' - 1))"
        using sorted_wrt_nth_less [OF rs(4), of i "length es' - 1"] i by simp
      then show ?thesis using i(1) by (cases es' rule: rev_cases) auto
    qed (use i in \<open>cases es' rule: rev_cases; auto\<close>)
    moreover have "es' \<noteq> []" using i by auto
    ultimately show ?thesis using assms(5) es i(2) by (auto intro: le_less_trans)
  qed
  then show ?thesis
    using rs assms(2,3) unfolding orderly_def
    by (intro exI [of _ ts] exI [of _ "es' @ [r]"]) (auto simp: sorted_wrt_append)
qed

lemma evidence_step:
  assumes "evidenceRecord check block r st = Inr st'"
  shows "recordType r = SLASHING_EVIDENCE" "recordTimestamp r = blockTimestamp block"
    "previousEvidenceId st = [] \<or> previousEvidenceId st < recordSourceId r"
    "st' = st\<lparr>evidenceSectionStarted := True, previousEvidenceId := recordSourceId r,
                 orderedProtocolRecords := orderedProtocolRecords st @ [r],
                 touchedDomainSet := touchedDomainSet st @ [''slashing'', ''validators'', ''staking'']\<rparr>"
  using assms by (auto simp: evidenceRecord_def split: option.splits if_splits)

definition transactionApplied ::
    "sha256 \<Rightarrow> 'd StateTransitionPreviewContext \<Rightarrow> Block \<Rightarrow> LedgerRecord \<Rightarrow> 'd Preview \<Rightarrow> 'd Preview \<Rightarrow> bool" where
  "transactionApplied sha ctx block r st st' \<longleftrightarrow>
     (\<exists>tx res after fee. txDeserialize sha (recordPayload r) = Inr tx \<and> txId tx = recordSourceId r \<and>
        admissible sha ctx tx \<and>
        execute sha tx (executionContext ctx block st) = (res, after) \<and> xrStatus res = Exec_APPLIED \<and>
        amountAdd (pvTotalFee st) (txFee tx) = Inr fee \<and>
        st' = recordApplied ctx tx res after fee (st\<lparr>transactionIds := txId tx # transactionIds st\<rparr>))"

lemma transaction_step:
  assumes "transactionRecord sha ctx block r st = Inr (Inr st')"
  shows "transactionApplied sha ctx block r st st'"
proof -
  from assms obtain tx where tx: "txDeserialize sha (recordPayload r) = Inr tx" by (auto simp: transactionRecord_def)
  obtain res after where ex: "execute sha tx (executionContext ctx block st) = (res, after)" by fastforce
  have "executionContext ctx block (st\<lparr>transactionIds := ids\<rparr>) = executionContext ctx block st" for ids
    by (simp add: executionContext_def)
  then show ?thesis
    using assms tx ex unfolding transactionApplied_def admissible_def
    by (auto simp: transactionRecord_def Let_def split: if_splits)
qed

lemma record_cases:
  assumes "previewRecord sha check ctx block r st = Inr st'"
  shows "recordSourceId r \<notin> set (sourceIds st) \<and> recordSourceId r \<noteq> []"
    "if isTransactionRecord r
     then \<not> evidenceSectionStarted st \<and> transactionApplied sha ctx block r (st\<lparr>sourceIds := recordSourceId r # sourceIds st\<rparr>) st'
     else evidenceRecord check block r (st\<lparr>sourceIds := recordSourceId r # sourceIds st\<rparr>) = Inr st'"
  using assms
  by (auto simp: previewRecord_def Let_def isTransactionRecord_def transaction_step ledgerRecordValid_def split: if_splits sum.splits)

lemma step_records:
  assumes "previewRecord sha check ctx block r st = Inr st'" and "recordsRead sha ctx rs st"
  shows "recordsRead sha ctx (rs @ [r]) st'"
proof (cases "isTransactionRecord r")
  case True
  note r = record_cases [OF assms(1), simplified True if_True]
  from r(2) obtain tx res after fee where tx: "txDeserialize sha (recordPayload r) = Inr tx" "txId tx = recordSourceId r"
    "admissible sha ctx tx" "amountAdd (pvTotalFee st) (txFee tx) = Inr fee"
    "st' = recordApplied ctx tx res after fee
       (st\<lparr>sourceIds := recordSourceId r # sourceIds st\<rparr>\<lparr>transactionIds := txId tx # transactionIds st\<rparr>)"
    by (auto simp: transactionApplied_def)
  have "amountOk fee" "rawUnits fee = rawUnits (pvTotalFee st) + rawUnits (txFee tx)"
    using tx(4) assms(2) deserialized_amounts(2) [OF tx(1)]
    by (auto simp: recordsRead_def amountAdd_ok amountOk_def split: if_splits)
  then show ?thesis
    using assms(2) tx True r(1) by (auto simp: recordsRead_def recordApplied_def carries_snoc feeSum_snoc)
next
  case False
  note r = record_cases [OF assms(1), simplified False if_False]
  show ?thesis
    using assms(2) evidence_step(4) [OF r(2)] False r(1) by (auto simp: recordsRead_def carries_snoc)
qed

lemma step_evidence:
  assumes "previewRecord sha check ctx block r st = Inr st'" and "evidenceRead block rs st"
  shows "evidenceRead block (rs @ [r]) st'"
proof (cases "isTransactionRecord r")
  case True
  note r = record_cases [OF assms(1), simplified True if_True]
  have same: "orderedProtocolRecords st' = orderedProtocolRecords st" "evidenceSectionStarted st' = evidenceSectionStarted st"
    "previousEvidenceId st' = previousEvidenceId st" using r(2) by (auto simp: transactionApplied_def recordApplied_def)
  have "filter (\<lambda>r. \<not> isTransactionRecord r) rs = []" using r(2) assms(2) by (auto simp: evidenceRead_def)
  then show ?thesis
    using assms(2) same True r(1) orderly_transaction [of block rs r] by (simp add: evidenceRead_def)
next
  case False
  note r = record_cases [OF assms(1), simplified False if_False]
  note e = evidence_step [OF r(2)]
  have "orderedProtocolRecords st \<noteq> [] \<longrightarrow> recordSourceId (last (orderedProtocolRecords st)) < recordSourceId r"
    using e(3) assms(2) last_in_set [of "orderedProtocolRecords st"] by (auto simp: evidenceRead_def list_all_iff)
  then have "orderly block (rs @ [r])"
    using assms(2) e(1,2) by (intro orderly_evidence) (auto simp: evidenceRead_def)
  then show ?thesis using assms(2) e(4) False r(1) by (simp add: evidenceRead_def)
qed

lemma addAccounts_view:
  "viewOk (view @ rest) \<Longrightarrow> addAccounts view (map snd rest) = Inr (view @ rest)"
proof (induction rest arbitrary: view)
  case Nil
  then show ?case by simp
next
  case (Cons e rest)
  have "\<forall>x\<in>set view. fst x < fst e" using Cons.prems by (auto simp: viewOk_def mapOk_def sorted_wrt_append)
  moreover have "accountValid (snd e)" "accAddress (snd e) = fst e"
    using Cons.prems by (auto simp: viewOk_def viewValid_def list_all_iff)
  ultimately have "putAccount (snd e) view = (True, view @ [e])" by (simp add: putAccount_def mapPut_last)
  then show ?case using Cons.IH [of "view @ [e]"] Cons.prems by simp
qed

lemma view_from_accounts: "viewOk view \<Longrightarrow> accountViewFromAccounts (viewAccounts view) = Inr view"
  using addAccounts_view [of "[]" view] by (simp add: accountViewFromAccounts_def viewAccounts_def)

lemma step_domain:
  assumes "previewRecord sha check ctx block r st = Inr st'"
  shows "map_option fst (pvDomain st') = map_option fst (pvDomain st)"
proof (cases "isTransactionRecord r")
  case True
  from record_cases(2) [OF assms] True obtain tx res after fee st1 where
    "execute sha tx (executionContext ctx block (st\<lparr>sourceIds := recordSourceId r # sourceIds st\<rparr>)) = (res, after)"
    "st' = recordApplied ctx tx res after fee st1" by (auto simp: transactionApplied_def)
  then show ?thesis using execute_domain by (fastforce simp: recordApplied_def executionContext_def)
next
  case False
  then show ?thesis using evidence_step(4) record_cases(2) [OF assms] by fastforce
qed

lemma lawful_domain:
  assumes "\<forall>ex. map_option fst d = Some ex \<longrightarrow> lawfulExecutor ex"
  shows "case d of None \<Rightarrow> True | Some (ex, _) \<Rightarrow> nonceKeeping ex handler"
  using assms by (auto simp: lawfulExecutor_def split: option.splits)

lemma step_nonces:
  assumes "previewRecord sha check ctx block r st = Inr st'" and "noncesFollowed ctx st" and "pcEnforce ctx"
    and "\<forall>ex. map_option fst (pvDomain st) = Some ex \<longrightarrow> lawfulExecutor ex"
  shows "noncesFollowed ctx st'"
proof (cases "isTransactionRecord r")
  case True
  from record_cases(2) [OF assms(1)] True obtain tx res after fee where tx: "txDeserialize sha (recordPayload r) = Inr tx"
    "execute sha tx (executionContext ctx block (st\<lparr>sourceIds := recordSourceId r # sourceIds st\<rparr>)) = (res, after)"
    "xrStatus res = Exec_APPLIED"
    "st' = recordApplied ctx tx res after fee
       (st\<lparr>sourceIds := recordSourceId r # sourceIds st\<rparr>\<lparr>transactionIds := txId tx # transactionIds st\<rparr>)"
    by (auto simp: transactionApplied_def)
  let ?x = "executionContext ctx block (st\<lparr>sourceIds := recordSourceId r # sourceIds st\<rparr>)"
  have x: "enforceAccountState ?x" "xcAccounts ?x = workingAccountState st" "xcDomain ?x = pvDomain st"
    using assms(3) by (simp_all add: executionContext_def)
  have law: "domainLaw nonceKeeping handler ?x" for handler using lawful_domain [OF assms(4)] x(3) by simp
  note n = execute_nonces [OF tx(2,3) x(1) _ deserialized_amounts [OF tx(1)] law, unfolded x(2)]
  have ok: "viewOk (workingAccountState st)" using assms(2) by (simp add: noncesFollowed_def)
  have "rcTransactionId (xrReceipt res) = txId tx"
  proof -
    from execute_steps [OF tx(2,3) x(1)] obtain policy domain where
      "executionReceipt sha tx policy domain after = Inr res" by metis
    then show ?thesis using receipt_fields(3) by (fastforce simp: receiptApplied_def)
  qed
  then show ?thesis
    using assms(2,3) n [OF ok] tx(4)
    by (auto simp: noncesFollowed_def recordApplied_def noncesAfter_snoc inTurn_snoc)
next
  case False
  note r = record_cases [OF assms(1), simplified False if_False]
  show ?thesis using evidence_step(4) [OF r(2)] assms(2) by (simp add: noncesFollowed_def)
qed

lemma records_read:
  assumes "previewRecords sha check ctx block rs st = Inr st'" and "recordsRead sha ctx pre st" and "evidenceRead block pre st"
  shows "recordsRead sha ctx (pre @ rs) st' \<and> evidenceRead block (pre @ rs) st' \<and>
         map_option fst (pvDomain st') = map_option fst (pvDomain st)"
  using assms
proof (induction rs arbitrary: st pre)
  case (Cons r rs)
  then obtain st1 where st1: "previewRecord sha check ctx block r st = Inr st1" "previewRecords sha check ctx block rs st1 = Inr st'"
    by (auto split: sum.splits)
  show ?case
    using Cons.IH [OF st1(2) step_records [OF st1(1) Cons.prems(2)] step_evidence [OF st1(1) Cons.prems(3)]] step_domain [OF st1(1)]
    by simp
qed simp

lemma records_nonces:
  assumes "previewRecords sha check ctx block rs st = Inr st'" and "noncesFollowed ctx st" and "pcEnforce ctx"
    and "\<forall>ex. map_option fst (pvDomain st) = Some ex \<longrightarrow> lawfulExecutor ex"
  shows "noncesFollowed ctx st'"
  using assms
proof (induction rs arbitrary: st)
  case (Cons r rs)
  then obtain st1 where st1: "previewRecord sha check ctx block r st = Inr st1" "previewRecords sha check ctx block rs st1 = Inr st'"
    by (auto split: sum.splits)
  show ?case
    using Cons.IH [OF st1(2) step_nonces [OF st1(1) Cons.prems(2-4)] Cons.prems(3)] step_domain [OF st1(1)] Cons.prems(4) by simp
qed simp

lemma initial_read:
  "recordsRead sha ctx [] (initialPreview ctx executor)" "evidenceRead block [] (initialPreview ctx executor)"
  "viewOk (pcAccounts ctx) \<Longrightarrow> noncesFollowed ctx (initialPreview ctx executor)"
  by (simp_all add: recordsRead_def evidenceRead_def noncesFollowed_def initialPreview_def carries_def feeSum_def zeroAmount_def
      amountOk_def I64_MAX_def)

definition settled ::
    "sha256 \<Rightarrow> 'd StateTransitionPreviewContext \<Rightarrow> Block \<Rightarrow> 'd Preview \<Rightarrow> DeterministicStateTransitionResult
       \<Rightarrow> StateTransitionPreviewResult \<Rightarrow> bool" where
  "settled sha ctx block st transition res \<longleftrightarrow>
     protocolTransition ctx block st = Inr transition \<and> dtValid transition \<and> list_all receiptValid (pvReceipts st) \<and>
     (\<exists>domains. calculateProtocolStateRoot sha (dtAccounts transition) domains = Inr (prStateRoot res)) \<and>
     prStateRoot res \<noteq> [] \<and>
     prTransactionIds res = orderedTransactionIds st \<and> prTotalFee res = pvTotalFee st \<and>
     resultingAccounts res = viewAccounts (dtAccounts transition) \<and> prReceipts res = pvReceipts st \<and>
     prReceiptsRoot res = buildRoot sha (map receiptSerialize (pvReceipts st)) \<and>
     processedTransactionCount res = pvCount st"

lemma settleBlock_valid:
  assumes "settleBlock sha ctx block st = Inr res" and "prStatus res = Preview_VALID"
  shows "\<exists>transition. settled sha ctx block st transition res"
  using assms unfolding settleBlock_def settled_def
  by (auto simp: previewRejected_def split: if_splits sum.splits)

lemma previewBlock_valid:
  assumes "previewBlock sha check ctx block = Inr res" and "prStatus res = Preview_VALID"
  shows "previewContextValid ctx \<and> blockValid sha False block \<and>
    (\<exists>executor st transition. createDomainExecutor ctx = Inr executor \<and> (pcRequireExecutor ctx \<longrightarrow> executor \<noteq> None) \<and>
       previewRecords sha check ctx block (blockRecords block) (initialPreview ctx executor) = Inr st \<and>
       settled sha ctx block st transition res)"
proof -
  have rejected: "prStatus res = Preview_VALID \<Longrightarrow> previewRecords sha check ctx block rs st = Inl res \<Longrightarrow> False" for rs st
  proof (induction rs arbitrary: st)
    case (Cons r rs)
    have "previewRecord sha check ctx block r st = Inl res \<Longrightarrow> prStatus res \<noteq> Preview_VALID" for st
      by (auto simp: previewRecord_def transactionRecord_def evidenceRecord_def previewRejected_def previewStatusOf_def Let_def
          split: if_splits sum.splits option.splits prod.splits dest!: bindR_Inr_iff [THEN iffD1])
    then show ?case using Cons by (auto split: sum.splits)
  qed simp
  show ?thesis
    using assms rejected [OF assms(2)] settleBlock_valid [OF _ assms(2)] unfolding previewBlock_def
    by (auto simp: previewRejected_def split: if_splits sum.splits)
qed

lemma authority_context:
  assumes "protocolAuthorityRejectionReason ctx = []"
  shows "previewContextValid ctx" "pcEnforce ctx" "\<not> pcAllowMissing ctx" "protocolAuthorizationEnabled ctx" "pcRequireExecutor ctx"
    "stateTransition ctx = None"
  using assms by (auto simp: protocolAuthorityRejectionReason_def split: if_splits)

lemma executeBlock_valid:
  assumes "executeBlock sha check ctx block = Inr res" and "prStatus res = Preview_VALID"
  shows "protocolAuthorityRejectionReason ctx = []" "previewBlock sha check ctx block = Inr res"
  using assms by (auto simp: executeBlock_def previewRejected_def Let_def split: if_splits)

lemma settlement_nonces:
  assumes "protocolTransition ctx block st = Inr transition" and "dtValid transition" and "viewOk (workingAccountState st)"
    and "pvDomain st = Some (ex, d)" and "lawfulExecutor ex"
  shows "viewOk (dtAccounts transition) \<and> nonceOf (dtAccounts transition) = nonceOf (workingAccountState st)"
proof -
  obtain finalized d' where f: "domFinalizeBlock ex (workingAccountState st) (pvTotalFee st) (orderedProtocolRecords st)
      (blockIndex block) (blockTimestamp block) d = (Inr finalized, d')" "domApplied finalized"
    "dtAccounts transition = domAccounts finalized"
    using assms(1,2,4) by (auto simp: protocolTransition_def transitionRejected_def transitionAccepted_def Let_def
        prod_eq_iff split: if_splits)
  then show ?thesis using assms(3,5) unfolding lawfulExecutor_def settlementKeepsNonces_def by metis
qed

subsection \<open>Turns along a chain\<close>

lemma noncesAfter_append: "noncesAfter f (txs @ txs') = noncesAfter (noncesAfter f txs) txs'"
  by (induction txs arbitrary: f) auto

lemma inTurn_append: "inTurn f (txs @ txs') \<longleftrightarrow> inTurn f txs \<and> inTurn (noncesAfter f txs) txs'"
  by (induction txs arbitrary: f) auto

lemma next_nonce_greater: "(n :: u64) \<noteq> U64_MAX \<Longrightarrow> n < n + 1"
  using U64_MAX_succ [of n] unatSuc [of n] by (simp add: word_less_nat_alt add.commute)

lemma inTurn_later: "inTurn f txs \<Longrightarrow> tx \<in> set txs \<Longrightarrow> f (txFrom tx) < txNonce tx"
proof (induction txs arbitrary: f)
  case (Cons t txs)
  have t: "f (txFrom t) < txNonce t" using Cons.prems(1) next_nonce_greater by auto
  then show ?case using Cons by (fastforce split: if_splits)
qed simp

lemma inTurn_distinct: "inTurn f txs \<Longrightarrow> distinct (map (\<lambda>tx. (txFrom tx, txNonce tx)) txs)"
proof (induction txs arbitrary: f)
  case (Cons t txs)
  have "(txFrom t, txNonce t) \<noteq> (txFrom tx, txNonce tx)" if "tx \<in> set txs" for tx
    using inTurn_later [OF _ that, of "f(txFrom t := txNonce t)"] Cons.prems by auto
  then show ?case using Cons by force
qed simp

text \<open>Blocks executed one after the other, with the transactions they ran.\<close>

inductive executedChain ::
    "sha256 \<Rightarrow> (LedgerRecord \<Rightarrow> string option) \<Rightarrow> AccountStateView \<Rightarrow> ('d StateTransitionPreviewContext \<times> Block) list
       \<Rightarrow> Transaction list \<Rightarrow> AccountStateView \<Rightarrow> bool"
  for sha check where
  start: "executedChain sha check v [] [] v"
| extend: "executedChain sha check v bs txs v' \<Longrightarrow>
     executeBlock sha check ctx b = Inr res \<Longrightarrow> prStatus res = Preview_VALID \<Longrightarrow>
     pcAccounts ctx = v' \<Longrightarrow> lawfulContext ctx \<Longrightarrow> carries sha (blockRecords b) txs' \<Longrightarrow>
     accountViewFromAccounts (resultingAccounts res) = Inr v'' \<Longrightarrow>
     executedChain sha check v (bs @ [(ctx, b)]) (txs @ txs') v''"

lemma carries_unique: "carries sha rs txs \<Longrightarrow> carries sha rs txs' \<Longrightarrow> txs = txs'"
  unfolding carries_def by (metis (no_types, lifting) inj_map_eq_map inj_Inr)

lemma executed_block:
  assumes "executeBlock sha check ctx block = Inr res" and "prStatus res = Preview_VALID"
    and "viewOk (pcAccounts ctx)" and "lawfulContext ctx"
  shows "\<exists>txs v. carries sha (blockRecords block) txs \<and> orderly block (blockRecords block) \<and>
    prTransactionIds res = map txId txs \<and> distinct (map txId txs) \<and>
    (\<forall>tx\<in>set txs. minimumFeeRawUnits ctx \<le> rawUnits (txFee tx) \<and>
       (\<exists>c. pcCrypto ctx = Some c \<and>
          verifyAuthorization sha (expectedChainId ctx) (pccPolicy c) Ctx_USER_TRANSACTION (userSignatureProvider c) tx)) \<and>
    inTurn (nonceOf (pcAccounts ctx)) txs \<and>
    rawUnits (prTotalFee res) = feeSum txs \<and> feeSum txs \<le> I64_MAX \<and>
    list_all receiptValid (prReceipts res) \<and> map rcTransactionId (prReceipts res) = map txId txs \<and>
    prReceiptsRoot res = buildRoot sha (map receiptSerialize (prReceipts res)) \<and>
    accountViewFromAccounts (resultingAccounts res) = Inr v \<and> viewOk v \<and>
    nonceOf v = noncesAfter (nonceOf (pcAccounts ctx)) txs \<and>
    (\<exists>domains. calculateProtocolStateRoot sha v domains = Inr (prStateRoot res))"
proof -
  note authority = authority_context [OF executeBlock_valid(1) [OF assms(1,2)]]
  from previewBlock_valid [OF executeBlock_valid(2) [OF assms(1,2)] assms(2)] authority(5)
  obtain ex d st transition where st: "createDomainExecutor ctx = Inr (Some (ex, d))"
    "previewRecords sha check ctx block (blockRecords block) (initialPreview ctx (Some (ex, d))) = Inr st"
    "settled sha ctx block st transition res" by auto
  have law: "lawfulExecutor ex"
    using assms(4) st(1) by (auto simp: lawfulContext_def createDomainExecutor_def split: option.splits)
  have read: "recordsRead sha ctx (blockRecords block) st" "evidenceRead block (blockRecords block) st"
      "map_option fst (pvDomain st) = Some ex"
    using records_read [OF st(2) initial_read(1,2)] by (simp_all add: initialPreview_def)
  have nonces: "noncesFollowed ctx st"
    using records_nonces [OF st(2) initial_read(3) [OF assms(3)] authority(2)] law by (simp add: initialPreview_def)
  obtain d' where d': "pvDomain st = Some (ex, d')" using read(3) by (cases "pvDomain st") auto
  have v: "viewOk (dtAccounts transition) \<and> nonceOf (dtAccounts transition) = nonceOf (workingAccountState st)"
  proof (rule settlement_nonces [OF _ _ _ d' law])
    show "protocolTransition ctx block st = Inr transition" "dtValid transition" using st(3) by (simp_all add: settled_def)
    show "viewOk (workingAccountState st)" using nonces by (simp add: noncesFollowed_def)
  qed
  let ?txs = "orderedTransactions st"
  have ids: "distinct (map txId ?txs)"
  proof -
    have "map txId ?txs = map recordSourceId (filter isTransactionRecord (blockRecords block))"
      using read(1) by (simp add: recordsRead_def carries_def)
    then show ?thesis using read(1) by (simp add: recordsRead_def distinct_map_filter)
  qed
  have authorized: "minimumFeeRawUnits ctx \<le> rawUnits (txFee tx) \<and>
       (\<exists>c. pcCrypto ctx = Some c \<and>
          verifyAuthorization sha (expectedChainId ctx) (pccPolicy c) Ctx_USER_TRANSACTION (userSignatureProvider c) tx)"
    if "tx \<in> set ?txs" for tx
    using that read(1) authority(4)
    by (auto simp: recordsRead_def list_all_iff admissible_def authorizationFails_def protocolAuthorizationEnabled_def
        split: option.splits)
  show ?thesis
  proof (intro exI [of _ ?txs] exI [of _ "dtAccounts transition"] conjI ballI)
    show "minimumFeeRawUnits ctx \<le> rawUnits (txFee tx)" "\<exists>c. pcCrypto ctx = Some c \<and>
          verifyAuthorization sha (expectedChainId ctx) (pccPolicy c) Ctx_USER_TRANSACTION (userSignatureProvider c) tx"
      if "tx \<in> set ?txs" for tx using authorized [OF that] by auto
    show "accountViewFromAccounts (resultingAccounts res) = Inr (dtAccounts transition)"
      using st(3) v view_from_accounts by (simp add: settled_def)
    show "nonceOf (dtAccounts transition) = noncesAfter (nonceOf (pcAccounts ctx)) ?txs"
      using v nonces by (simp add: noncesFollowed_def)
  qed (use read nonces st(3) v ids in
      \<open>auto simp: recordsRead_def evidenceRead_def noncesFollowed_def settled_def amountOk_def\<close>)
qed

text \<open>
  C10: An executed block. The node runs exactly the transactions the block carries, in the order of
  the block, with transactions before evidence and evidence in order. Every one of them is authorized
  for this chain by its sender and pays the minimum fee, no two share an identifier, and each has the next nonce
  of its sender. The fees are summed without overflow, there is one valid receipt per transaction,
  and the resulting accounts have the nonces of the executed transactions and the committed root.
\<close>

theorem executed_block_guarantees:
  assumes "executeBlock sha check ctx block = Inr res" and "prStatus res = Preview_VALID"
    and "viewOk (pcAccounts ctx)" and "lawfulContext ctx"
  shows "\<exists>txs v. carries sha (blockRecords block) txs \<and> orderly block (blockRecords block) \<and>
    prTransactionIds res = map txId txs \<and> distinct (map txId txs) \<and>
    (\<forall>tx\<in>set txs. minimumFeeRawUnits ctx \<le> rawUnits (txFee tx) \<and>
       (\<exists>c. pcCrypto ctx = Some c \<and>
          verifyAuthorization sha (expectedChainId ctx) (pccPolicy c) Ctx_USER_TRANSACTION (userSignatureProvider c) tx)) \<and>
    inTurn (nonceOf (pcAccounts ctx)) txs \<and>
    rawUnits (prTotalFee res) = feeSum txs \<and> feeSum txs \<le> I64_MAX \<and>
    list_all receiptValid (prReceipts res) \<and> map rcTransactionId (prReceipts res) = map txId txs \<and>
    prReceiptsRoot res = buildRoot sha (map receiptSerialize (prReceipts res)) \<and>
    accountViewFromAccounts (resultingAccounts res) = Inr v \<and> viewOk v \<and>
    nonceOf v = noncesAfter (nonceOf (pcAccounts ctx)) txs \<and>
    (\<exists>domains. calculateProtocolStateRoot sha v domains = Inr (prStateRoot res))"
  using assms by (rule executed_block)

text \<open>
  C9: No replay along a chain. However many blocks are executed one after the other, each starting from the accounts the
  previous one left, no two of their transactions have the same sender and nonce: a signed
  transaction is executed at most once.
\<close>

theorem no_transaction_replay:
  assumes "executedChain sha check v blocks txs v'" and "viewOk v"
  shows "distinct (map (\<lambda>tx. (txFrom tx, txNonce tx)) txs) \<and> inTurn (nonceOf v) txs \<and> viewOk v' \<and>
         nonceOf v' = noncesAfter (nonceOf v) txs"
proof -
  have "inTurn (nonceOf v) txs \<and> viewOk v' \<and> nonceOf v' = noncesAfter (nonceOf v) txs"
    using assms
  proof (induction rule: executedChain.induct)
    case (extend v bs txs v' ctx b res txs' v'')
    from executed_block [OF extend.hyps(2,3)] extend.IH extend.prems extend.hyps(4,5)
    obtain ts w where w: "carries sha (blockRecords b) ts" "inTurn (nonceOf v') ts"
      "accountViewFromAccounts (resultingAccounts res) = Inr w" "viewOk w" "nonceOf w = noncesAfter (nonceOf v') ts"
      by metis
    have "ts = txs'" "w = v''" using carries_unique [OF w(1) extend.hyps(6)] w(3) extend.hyps(7) by simp_all
    then show ?case using w extend.IH extend.prems by (simp add: inTurn_append noncesAfter_append)
  qed simp
  then show ?thesis using inTurn_distinct by blast
qed

subsection \<open>Selected transactions are in turn\<close>

lemma execute_invalid_nonce:
  assumes "execute sha tx ctx = (res, ctx')" and "xrStatus res = Exec_INVALID_NONCE"
  shows "\<not> accountValid (accountOrDefault (xcAccounts ctx) (txFrom tx)) \<or> nonceOf (xcAccounts ctx) (txFrom tx) = U64_MAX \<or>
         txNonce tx \<noteq> nonceOf (xcAccounts ctx) (txFrom tx) + 1"
proof -
  have receipt: "executionReceipt sha tx policy domain c = Inr res \<Longrightarrow> False" for policy domain and c :: "'a TransactionExecutionContext"
    using assms(2) by (auto simp: executionReceipt_def execApplied_def Let_def)
  show ?thesis
    using assms charge_nonce [of tx _ ctx res] receipt
    by (auto simp: execute_def executeBody_def execRejected_def execApplied_def split: sum.splits prod.splits option.splits if_splits)
qed

lemma record_invalid_nonce:
  assumes "previewRecord sha check ctx block r st = Inl res" and "prStatus res = Preview_INVALID_NONCE"
  shows "isTransactionRecord r \<and> (\<exists>tx. txDeserialize sha (recordPayload r) = Inr tx \<and> txId tx = recordSourceId r \<and>
    (\<not> accountValid (accountOrDefault (workingAccountState st) (txFrom tx)) \<or> nonceOf (workingAccountState st) (txFrom tx) = U64_MAX \<or>
         txNonce tx \<noteq> nonceOf (workingAccountState st) (txFrom tx) + 1))"
proof -
  let ?st = "st\<lparr>sourceIds := recordSourceId r # sourceIds st\<rparr>"
  have "isTransactionRecord r" and t: "transactionRecord sha ctx block r ?st = Inr (Inl res)"
    using assms by (auto simp: previewRecord_def evidenceRecord_def previewRejected_def isTransactionRecord_def Let_def
        split: if_splits sum.splits option.splits)
  from t obtain tx where tx: "txDeserialize sha (recordPayload r) = Inr tx" by (auto simp: transactionRecord_def)
  obtain res' after where ex: "execute sha tx (executionContext ctx block ?st) = (res', after)" by fastforce
  have "executionContext ctx block (?st\<lparr>transactionIds := ids\<rparr>) = executionContext ctx block ?st" for ids
    by (simp add: executionContext_def)
  then have "xrStatus res' = Exec_INVALID_NONCE \<and> txId tx = recordSourceId r"
    using t tx ex assms(2)
    by (auto simp: transactionRecord_def previewRejected_def previewStatusOf_def Let_def split: if_splits)
  then show ?thesis
    using execute_invalid_nonce [OF ex] tx \<open>isTransactionRecord r\<close> by (auto simp: executionContext_def)
qed

lemma carries_append:
  assumes "carries sha (pre @ rs) txs" and "carries sha pre ts"
  obtains us where "txs = ts @ us" "carries sha rs us"
proof -
  have len: "length (filter isTransactionRecord pre) = length ts" using assms(2) unfolding carries_def by (metis length_map)
  have eq: "map (\<lambda>r. txDeserialize sha (recordPayload r)) (filter isTransactionRecord pre) = map Inr (take (length ts) txs)"
    using assms(1) len by (auto simp: carries_def append_eq_conv_conj take_map)
  then have "map Inr (take (length ts) txs) = (map Inr ts :: (exn + Transaction) list)" using assms(2) by (simp add: carries_def)
  then have "take (length ts) txs = ts" by (metis inj_map_eq_map inj_Inr)
  moreover have "carries sha rs (drop (length ts) txs)"
    using assms(1) len by (auto simp: carries_def append_eq_conv_conj drop_map)
  ultimately show thesis using that [of "drop (length ts) txs"] by (metis append_take_drop_id)
qed

lemma records_in_turn:
  assumes "previewRecords sha check ctx block rs st = Inl res" and "recordsRead sha ctx pre st" and "noncesFollowed ctx st"
    and "pcEnforce ctx" and "\<forall>ex. map_option fst (pvDomain st) = Some ex \<longrightarrow> lawfulExecutor ex"
    and "carries sha (pre @ rs) txs" and "inTurn (nonceOf (pcAccounts ctx)) txs" and "\<forall>tx\<in>set txs. txFrom tx \<noteq> []"
  shows "prStatus res \<noteq> Preview_INVALID_NONCE"
  using assms
proof (induction rs arbitrary: st pre)
  case (Cons r rs)
  obtain us where us: "txs = orderedTransactions st @ us" "carries sha (r # rs) us"
    using carries_append [OF Cons.prems(6)] Cons.prems(2) by (auto simp: recordsRead_def)
  show ?case
  proof (cases "previewRecord sha check ctx block r st")
    case (Inl rejection)
    show ?thesis
    proof
      assume "prStatus res = Preview_INVALID_NONCE"
      then have bad: "prStatus rejection = Preview_INVALID_NONCE" using Inl Cons.prems(1) by simp
      from record_invalid_nonce [OF Inl bad] obtain tx where tx: "isTransactionRecord r" "txDeserialize sha (recordPayload r) = Inr tx"
        "\<not> accountValid (accountOrDefault (workingAccountState st) (txFrom tx)) \<or> nonceOf (workingAccountState st) (txFrom tx) = U64_MAX \<or>
         txNonce tx \<noteq> nonceOf (workingAccountState st) (txFrom tx) + 1" by auto
      obtain us' where us': "us = tx # us'" using us(2) tx(1,2) by (cases us) (auto simp: carries_def)
      have ok: "viewOk (workingAccountState st)"
        "nonceOf (workingAccountState st) = noncesAfter (nonceOf (pcAccounts ctx)) (orderedTransactions st)"
        using Cons.prems(3) by (simp_all add: noncesFollowed_def)
      have turn: "nonceOf (workingAccountState st) (txFrom tx) \<noteq> U64_MAX \<and> txNonce tx = nonceOf (workingAccountState st) (txFrom tx) + 1"
        using Cons.prems(7) us(1) us' ok(2) by (simp add: inTurn_append)
      have "txFrom tx \<noteq> []" using Cons.prems(8) us(1) us' by simp
      then have "accountValid (accountOrDefault (workingAccountState st) (txFrom tx))"
        using viewOk_entry(2) [OF ok(1)]
        by (auto simp: accountOrDefault_def accountValid_def isNegative_def zeroAmount_def split: option.splits)
      then show False using tx(3) turn by blast
    qed
  next
    case (Inr st1)
    have rest: "previewRecords sha check ctx block rs st1 = Inl res" using Inr Cons.prems(1) by simp
    show ?thesis
    proof (rule Cons.IH [OF rest step_records [OF Inr Cons.prems(2)] step_nonces [OF Inr Cons.prems(3-5)] Cons.prems(4)])
      show "\<forall>ex. map_option fst (pvDomain st1) = Some ex \<longrightarrow> lawfulExecutor ex"
        using step_domain [OF Inr] Cons.prems(5) by simp
      show "carries sha ((pre @ [r]) @ rs) txs" using Cons.prems(6) by simp
    qed (use Cons.prems in auto)
  qed
qed simp

lemma settle_not_nonce: "settleBlock sha ctx block st = Inr res \<Longrightarrow> prStatus res \<noteq> Preview_INVALID_NONCE"
  by (auto simp: settleBlock_def previewRejected_def split: if_splits sum.splits)

text \<open>
  C37: From the pool into a block. When the transactions of a block are those that the mempool selected
  for the same account state, its execution never fails on a nonce.
\<close>

theorem selected_block_never_fails_on_nonce:
  assumes "mempoolOk sha policy userCtx pool" and "transactionsForBlock maxCount (pcAccounts ctx) pool = Some txs"
    and "carries sha (blockRecords block) txs" and "pcEnforce ctx" and "viewOk (pcAccounts ctx)" and "lawfulContext ctx"
    and "previewBlock sha check ctx block = Inr res"
  shows "prStatus res \<noteq> Preview_INVALID_NONCE"
proof -
  have turn: "inTurn (nonceOf (pcAccounts ctx)) txs" and pool: "\<forall>tx\<in>set txs. \<exists>e. map_of (mpEntries pool) (txId tx) = Some e \<and> entryTx e = tx"
    using selection_spec [OF assms(1), of maxCount "pcAccounts ctx"] assms(2) by auto
  have from_addr: "\<forall>tx\<in>set txs. txFrom tx \<noteq> []"
  proof
    fix tx assume "tx \<in> set txs"
    then obtain e where e: "map_of (mpEntries pool) (txId tx) = Some e" "entryTx e = tx" using pool by blast
    show "txFrom tx \<noteq> []"
      using mempoolOk_entry(2) [OF assms(1) e(1)] e(2)
      by (auto simp: mempoolEntryValid_def txStructurallyValid_def isSafeTransactionAddress_def split: if_splits)
  qed
  show ?thesis
  proof
    assume bad: "prStatus res = Preview_INVALID_NONCE"
    with assms(7) obtain executor where executor: "createDomainExecutor ctx = Inr executor"
      "previewRecords sha check ctx block (blockRecords block) (initialPreview ctx executor) = Inl res"
      by (auto simp: previewBlock_def previewRejected_def split: if_splits sum.splits dest: settle_not_nonce)
    have "\<forall>ex. map_option fst (pvDomain (initialPreview ctx executor)) = Some ex \<longrightarrow> lawfulExecutor ex"
      using executor(1) assms(6)
      by (auto simp: initialPreview_def lawfulContext_def createDomainExecutor_def split: option.splits)
    then show False
      using records_in_turn [OF executor(2) initial_read(1) initial_read(3) [OF assms(5)] assms(4) _ _ turn from_addr] assms(3) bad
      by simp
  qed
qed

subsection \<open>Accepted candidates\<close>


subsection \<open>A block that is executed\<close>

lemma hash_hex: "list_all isLowerHexDigit (nodo_hash_bytes sha s)" "length (nodo_hash_bytes sha s) = 64"
  by (simp_all add: nodo_hash_bytes_def hexEncode_lower digestBytes_def)

lemma account_root_hex:
  assumes "viewOk v"
  shows "\<exists>root. calculateAccountStateRoot sha v = Inr root \<and> length root = 64 \<and> list_all isLowerHexDigit root"
proof -
  obtain t where t: "buildAccountStateTree sha v = Inr t" "smtOk sha SMT_DEPTH t" using account_tree [of sha v] by blast
  have "smtOk sha (Suc n) t \<Longrightarrow> list_all isLowerHexDigit (getNodeHash sha t (Suc n))" for n
    by (cases t) (auto simp: getNodeHash_def hashNode_def hash_hex Let_def)
  then have "list_all isLowerHexDigit (smtRoot sha t)" using t(2) by (simp add: smtRoot_def SMT_DEPTH_def numeral_eq_Suc)
  then show ?thesis using account_root_total [OF assms, of sha] t(1) assms by (auto simp: calculateAccountStateRoot_def viewOk_def)
qed

lemma hex_scalar: "list_all isLowerHexDigit s \<Longrightarrow> length s = 64 \<Longrightarrow> isSafeReceiptScalar 128 s"
  by (auto simp: isSafeReceiptScalar_def isSafeIdentifier_def isLowerHexDigit_def list_all_iff char_le_iff)

text \<open>A transfer over accounts alone, when the sender can pay.\<close>

lemma transfer_applied:
  assumes "validateShape tx = None" and "txType tx = TRANSFER" and "enforceAccountState ctx" and "xcCoinLots ctx = None"
    and "xcDomain ctx = Some (ex, d)" and "domainsOf ex d = []"
    and "policyFor TRANSFER = Inr policy" and "chargeAccounts tx policy ctx = Inr (Inr v)" and "viewOk v"
  shows "\<exists>root. list_all isLowerHexDigit root \<and> length root = 64 \<and>
    execute sha tx ctx = (execApplied v (receiptApplied tx (nonceOf (xcAccounts ctx) (txFrom tx)) root [''accounts''])
      (touchedAccounts tx policy ctx) [''accounts''], ctx)"
proof -
  obtain root where root: "calculateProtocolStateRoot sha v [] = Inr root" "list_all isLowerHexDigit root" "length root = 64"
  proof -
    obtain r where r: "calculateAccountStateRoot sha v = Inr r" "length r = 64" "list_all isLowerHexDigit r"
      using account_root_hex [OF assms(9), of sha] by blast
    then have "r \<noteq> []" by auto
    then show thesis using that [of r] r by (simp add: calculateProtocolStateRoot_def)
  qed
  have policy: "polHandler policy = Handle_TRANSFER" "polTouched policy = [''accounts'']"
    using assms(7) by (auto simp: policyFor_def policies_def)
  have "domApplied (domainAccepted v [])" using assms(9) by (simp add: domainAccepted_def viewOk_def)
  then have "execute sha tx ctx = (execApplied v (receiptApplied tx (nonceOf (xcAccounts ctx) (txFrom tx)) root [''accounts''])
      (touchedAccounts tx policy ctx) [''accounts''], ctx)"
    using assms(1-8) policy root(1)
    by (simp add: execute_def executeBody_def transferLots_def dispatchDomain_def executionReceipt_def withLots_def domainAccepted_def
        nonceOf_def Let_def)
  then show ?thesis using root by blast
qed

definition demoEd25519 :: SignatureProvider where
  "demoEd25519 = \<lparr>provAlgorithm = CLASSIC_ED25519, provSign = (\<lambda>_ _ _ _ _. Inl (LogicError ''offline'')),
     provVerify = (\<lambda>_ _. True)\<rparr>"

definition demoBls :: SignatureProvider where
  "demoBls = demoEd25519\<lparr>provAlgorithm := BLS12_381\<rparr>"

definition demoPayment :: Transaction where
  "demoPayment = withTxId demoSha ((demoTransfer [] 1)\<lparr>txFrom := demoAddr CHR ''7''\<rparr>)"

definition demoPaymentRecord :: LedgerRecord where
  "demoPaymentRecord =
     \<lparr>recordId = replicate 64 CHR ''f'', recordType = TRANSACTION, recordSourceId = replicate 64 CHR ''f'',
      recordPayload = txSerialize demoPayment, recordPayloadHash = replicate 64 CHR ''f'', recordTimestamp = 9\<rparr>"

definition demoPaymentBlock :: Block where
  "demoPaymentBlock =
     \<lparr>blockIndex = 1, blockPrevious = replicate 64 CHR ''0'', blockHash = replicate 64 CHR ''f'',
      blockRecords = [demoPaymentRecord], blockTimestamp = 9, blockStateRoot = [], blockReceiptsRoot = []\<rparr>"

definition acceptCall :: "unit domainCall" where
  "acceptCall tx accounts height now d = (Inr (domainAccepted accounts []), d)"

definition demoExecutor :: "unit TransactionDomainExecutor" where
  "demoExecutor = \<lparr>applyBurn = acceptCall, applyStakeDeposit = acceptCall, applyStakeUnlock = acceptCall, applyStakeWithdraw = acceptCall,
     applyStakeTopUp = acceptCall, applyValidatorRegister = acceptCall, applyValidatorExitRequest = acceptCall,
     applyValidatorUnjailRequest = acceptCall, applyValidatorKeyRotate = keyRotateUnsupported, applyGovernanceProposal = acceptCall,
     applyGovernanceVote = acceptCall, applyGovernanceExecute = acceptCall,
     domFinalizeBlock = (\<lambda>accounts fee records height now d. (Inr (domainAccepted accounts []), d)), domainsOf = (\<lambda>_. [])\<rparr>"

definition demoBlockContext :: "unit StateTransitionPreviewContext" where
  "demoBlockContext =
     \<lparr>minimumFeeRawUnits = 1,
      pcAccounts = [(demoAddr CHR ''7'', \<lparr>accAddress = demoAddr CHR ''7'', accBalance = Amount 10, accNonce = 0\<rparr>)],
      pcAllowMissing = False, pcEnforce = True, pcFeeRecipient = [], wallClockNow = 20, expectedChainId = ''nodo'',
      pcCrypto = Some (fromNetworkName demoEd25519 demoBls ''localnet''), deterministicStateDomains = [], stateTransition = None,
      pcFactory = Some (Inr (Some (demoExecutor, ()))), pcRequireExecutor = True, pcCoinLots = None\<rparr>"

lemma demo_lawful: "lawfulContext demoBlockContext"
  by (auto simp: lawfulContext_def demoBlockContext_def lawfulExecutor_def nonceKeeping_def settlementKeepsNonces_def demoExecutor_def
      handlerCall_def acceptCall_def keyRotateUnsupported_def domainAccepted_def domainRejected_def Let_def split: TransactionHandler.splits)

lemma demo_block_context: "viewOk (pcAccounts demoBlockContext)" "protocolAuthorityRejectionReason demoBlockContext = []"
  "pcEnforce demoBlockContext" "createDomainExecutor demoBlockContext = Inr (Some (demoExecutor, ()))"
proof -
  show "protocolAuthorityRejectionReason demoBlockContext = []" "viewOk (pcAccounts demoBlockContext)" by code_simp+
qed (simp_all add: demoBlockContext_def createDomainExecutor_def)

lemma demo_payment:
  "length (txSerialize demoPayment) \<le> 1000" "ledgerRecordValid demoSha demoPaymentRecord"
  "txDeserialize demoSha (txSerialize demoPayment) = Inr demoPayment" "txId demoPayment = replicate 64 CHR ''f''"
  "\<not> authorizationFails demoSha demoBlockContext demoPayment" "validateShape demoPayment = None" "txType demoPayment = TRANSFER"
  by code_simp+

lemma demo_record_text:
  "ledgerRecordSerialize demoPaymentRecord = ''LedgerRecord{id='' @ replicate 64 CHR ''f'' @ '';type=TRANSACTION;sourceId=''
     @ replicate 64 CHR ''f'' @ '';payloadHash='' @ replicate 64 CHR ''f'' @ '';timestamp=9;payload='' @ txSerialize demoPayment @ ''}''"
proof -
  have "showI64 9 = ''9''" by code_simp
  then show ?thesis by (simp add: ledgerRecordSerialize_def demoPaymentRecord_def)
qed

lemma demo_block_valid: "blockValid demoSha False demoPaymentBlock"
proof -
  have numbers: "showI64 9 = ''9''" by code_simp
  have "CHR ''f'' \<in> set (orderedLeafPayload 0 (ledgerRecordSerialize demoPaymentRecord))"
    by (simp add: orderedLeafPayload_def demo_record_text)
  then have root: "recordsRoot demoSha demoPaymentBlock = replicate 64 CHR ''f''"
    by (simp add: recordsRoot_def buildOrderedRoot_def demoPaymentBlock_def hashOrderedLeaf_def hashLeaf_def hashLayer_single demoBytes)
  then have "calculateHash demoSha demoPaymentBlock = replicate 64 CHR ''f''"
    unfolding calculateHash_def headerPayload_def by (subst demoSha_hash) (simp_all add: demoPaymentBlock_def demo_numbers numbers)
  moreover have "isWithinResourceLimits demoSha demoPaymentBlock"
  proof -
    have "length (blockSerialize demoSha demoPaymentBlock) \<le> 3000"
      using demo_payment(1) root
      by (simp add: blockSerialize_def headerPayload_def) (simp add: demoPaymentBlock_def demo_record_text demo_numbers numbers)
    then show ?thesis
      using demo_payment(1)
      by (simp add: isWithinResourceLimits_def)
         (simp add: demoPaymentBlock_def demo_record_text MAX_BLOCK_RECORDS_def MAX_SERIALIZED_BLOCK_BYTES_def
            MAX_RECORD_PAYLOAD_BYTES_def demoPaymentRecord_def [THEN arg_cong, of recordPayload])
  qed
  ultimately show ?thesis by (simp add: blockValid_def) (simp add: demoPaymentBlock_def demo_payment(2))
qed

lemma demo_carries: "carries demoSha (blockRecords demoPaymentBlock) [demoPayment]"
  using demo_payment(3,4) by (simp add: carries_def demoPaymentBlock_def isTransactionRecord_def demoPaymentRecord_def)

lemma demo_record_applied:
  "\<exists>st v root. previewRecord demoSha check demoBlockContext demoPaymentBlock demoPaymentRecord
     (initialPreview demoBlockContext (Some (demoExecutor, ()))) = Inr st \<and> viewOk v \<and> workingAccountState st = v \<and>
     workingCoinLots st = None \<and> pvDomain st = Some (demoExecutor, ()) \<and>
     pvReceipts st = [receiptApplied demoPayment 0 root [''accounts'']] \<and> isSafeReceiptScalar 128 root"
proof -
  let ?st = "initialPreview demoBlockContext (Some (demoExecutor, ()))"
  let ?st1 = "?st\<lparr>sourceIds := recordSourceId demoPaymentRecord # sourceIds ?st\<rparr>"
  let ?x = "executionContext demoBlockContext demoPaymentBlock ?st1"
  obtain policy where policy: "policyFor TRANSFER = Inr policy" "policy = hd policies"
    by (simp add: policyFor_def policies_def)
  have "case chargeAccounts demoPayment (hd policies) ?x of Inr (Inr v) \<Rightarrow> viewOk v | _ \<Rightarrow> False" by code_simp
  then obtain v where v: "chargeAccounts demoPayment policy ?x = Inr (Inr v)" "viewOk v" using policy(2) by (auto split: sum.splits)
  have x: "enforceAccountState ?x" "xcCoinLots ?x = None" "xcDomain ?x = Some (demoExecutor, ())"
    by (simp_all add: executionContext_def demoBlockContext_def initialPreview_def)
  have "nonceOf (xcAccounts ?x) (txFrom demoPayment) = 0" by code_simp
  with transfer_applied [OF demo_payment(6,7) x _ policy(1) v, of demoSha]
  obtain root where root: "list_all isLowerHexDigit root" "length root = 64"
    "execute demoSha demoPayment ?x = (execApplied v (receiptApplied demoPayment 0 root [''accounts''])
      (touchedAccounts demoPayment policy ?x) [''accounts''], ?x)" by (auto simp: demoExecutor_def)
  have same: "executionContext demoBlockContext demoPaymentBlock (?st1\<lparr>transactionIds := ids\<rparr>) = ?x" for ids
    by (simp add: executionContext_def)
  have fee: "amountAdd (pvTotalFee ?st1) (txFee demoPayment) = Inr (Amount 1)" "txNonce demoPayment \<noteq> 0" "\<not> isNegative (txFee demoPayment)"
    "\<not> rawUnits (txFee demoPayment) < minimumFeeRawUnits demoBlockContext" "transactionIds ?st1 = []" by code_simp+
  define st where "st = recordApplied demoBlockContext demoPayment (execApplied v (receiptApplied demoPayment 0 root [''accounts''])
      (touchedAccounts demoPayment policy ?x) [''accounts'']) ?x (Amount 1) (?st1\<lparr>transactionIds := [txId demoPayment]\<rparr>)"
  have "transactionRecord demoSha demoBlockContext demoPaymentBlock demoPaymentRecord ?st1 = Inr (Inr st)"
    using demo_payment(3-6) fee root(3) same
    by (simp add: transactionRecord_def demoPaymentRecord_def st_def) (simp add: execApplied_def)
  then have "previewRecord demoSha check demoBlockContext demoPaymentBlock demoPaymentRecord ?st = Inr st"
    using demo_payment(2) by (simp add: previewRecord_def initialPreview_def) (simp add: demoPaymentRecord_def)
  moreover have "workingAccountState st = v" "workingCoinLots st = None" "pvDomain st = Some (demoExecutor, ())"
    "pvReceipts st = [receiptApplied demoPayment 0 root [''accounts'']]"
    using x by (simp_all add: st_def recordApplied_def execApplied_def initialPreview_def demoBlockContext_def)
  ultimately show ?thesis using v(2) hex_scalar [OF root(1,2)] by blast
qed

lemma demo_block_executed:
  "\<exists>res. executeBlock demoSha check demoBlockContext demoPaymentBlock = Inr res \<and> prStatus res = Preview_VALID"
proof -
  obtain st v root where st: "previewRecord demoSha check demoBlockContext demoPaymentBlock demoPaymentRecord
      (initialPreview demoBlockContext (Some (demoExecutor, ()))) = Inr st" "viewOk v" "workingAccountState st = v"
    "workingCoinLots st = None" "pvDomain st = Some (demoExecutor, ())"
    "pvReceipts st = [receiptApplied demoPayment 0 root [''accounts'']]" "isSafeReceiptScalar 128 root"
    using demo_record_applied [of check] by blast
  have "isSafeReceiptScalar 128 (txId demoPayment)" "isSafeReceiptScalar 200 (txFrom demoPayment)" "isSafeReceiptScalar 200 (txTo demoPayment)"
    "\<not> isNegative (txAmount demoPayment)" "\<not> isNegative (txFee demoPayment)" "isSafeReceiptScalar 64 ''accounts''"
    "txNonce demoPayment = 1" "U64_MAX \<noteq> 0" by code_simp+
  then have receipts: "list_all receiptValid (pvReceipts st)"
    using st(6,7) by (simp add: receiptValid_def receiptApplied_def)
  have transition: "protocolTransition demoBlockContext demoPaymentBlock st = Inr (transitionAccepted v [])"
    using st(2,3,5) by (simp add: protocolTransition_def demoExecutor_def domainAccepted_def viewOk_def Let_def)
  obtain final where final: "calculateProtocolStateRoot demoSha v [] = Inr final" "length final = 64"
    using protocol_root_total [OF st(2), of "[]" demoSha] by (auto simp: smallDomains_def)
  then have "final \<noteq> []" by auto
  then obtain res where res: "settleBlock demoSha demoBlockContext demoPaymentBlock st = Inr res" "prStatus res = Preview_VALID"
    using receipts transition final(1) st(2,4)
    by (simp add: settleBlock_def transitionAccepted_def withLots_def viewOk_def Let_def)
  have "blockRecords demoPaymentBlock = [demoPaymentRecord]" by (simp add: demoPaymentBlock_def)
  then have "previewBlock demoSha check demoBlockContext demoPaymentBlock = Inr res"
    using demo_block_context(4) authority_context(1) [OF demo_block_context(2)] demo_block_valid st(1) res(1)
    by (simp add: previewBlock_def)
  then show ?thesis using demo_block_context(2) res(2) by (simp add: executeBlock_def)
qed

theorem executed_block_guarantees_witness:
  "\<exists>res. executeBlock demoSha (\<lambda>_. None) demoBlockContext demoPaymentBlock = Inr res \<and> prTransactionIds res = [txId demoPayment] \<and>
     rawUnits (prTotalFee res) = feeSum [demoPayment]"
proof -
  obtain res where res: "executeBlock demoSha (\<lambda>_. None) demoBlockContext demoPaymentBlock = Inr res" "prStatus res = Preview_VALID"
    using demo_block_executed by blast
  from executed_block_guarantees [OF res demo_block_context(1) demo_lawful] obtain txs where
    txs: "carries demoSha (blockRecords demoPaymentBlock) txs" "prTransactionIds res = map txId txs" "rawUnits (prTotalFee res) = feeSum txs"
    by blast
  have "txs = [demoPayment]" by (rule carries_unique [OF txs(1) demo_carries])
  then show ?thesis using res(1) txs(2,3) by auto
qed

theorem no_transaction_replay_witness:
  "\<exists>v'. executedChain demoSha (\<lambda>_. None) (pcAccounts demoBlockContext) [(demoBlockContext, demoPaymentBlock)] [demoPayment] v' \<and>
        nonceOf v' (txFrom demoPayment) = 1"
proof -
  obtain res where res: "executeBlock demoSha (\<lambda>_. None) demoBlockContext demoPaymentBlock = Inr res" "prStatus res = Preview_VALID"
    using demo_block_executed by blast
  obtain v where v: "accountViewFromAccounts (resultingAccounts res) = Inr v"
    using executed_block [OF res demo_block_context(1) demo_lawful] by blast
  from extend [OF start res refl demo_lawful demo_carries v]
  have chain: "executedChain demoSha (\<lambda>_. None) (pcAccounts demoBlockContext) [(demoBlockContext, demoPaymentBlock)] [demoPayment] v"
    by simp
  have "txNonce demoPayment = 1" by code_simp
  then show ?thesis using no_transaction_replay [OF chain demo_block_context(1)] chain by auto
qed

lemma demo_selected:
  "transactionsForBlock 2 (pcAccounts demoBlockContext) (demoPool [Admit 9 demoPayment]) = Some [demoPayment]"
proof -
  let ?pool = "demoPool [Admit 9 demoPayment]" and ?view = "pcAccounts demoBlockContext"
  have entries: "mpEntries ?pool = [(txId demoPayment, \<lparr>entryTx = demoPayment, entryAcceptedAt = 9\<rparr>)]" by code_simp
  have turn: "nonceOf ?view (txFrom demoPayment) = 0" "txNonce demoPayment = 1" "viewValid ?view" "(0 :: u64) \<noteq> U64_MAX" by code_simp+
  obtain txs where txs: "transactionsForBlock 2 ?view ?pool = Some txs" "distinct (map txId txs)"
    "\<forall>tx\<in>set txs. \<exists>e. map_of (mpEntries ?pool) (txId tx) = Some e \<and> entryTx e = tx"
    "length txs < 2 \<longrightarrow> (\<forall>i e. map_of (mpEntries ?pool) i = Some e \<longrightarrow> i \<notin> txId ` set txs \<longrightarrow>
       noncesAfter (nonceOf ?view) txs (txFrom (entryTx e)) = U64_MAX \<or>
       txNonce (entryTx e) \<noteq> noncesAfter (nonceOf ?view) txs (txFrom (entryTx e)) + 1)"
    using selection_spec [OF demoPool_ok, of 2 ?view] turn(3) by blast
  have only: "\<forall>tx\<in>set txs. tx = demoPayment" using txs(3) entries by (auto split: if_splits)
  have "txs \<noteq> []"
  proof
    assume "txs = []"
    then show False
      using txs(4) [rule_format, of "txId demoPayment" "\<lparr>entryTx = demoPayment, entryAcceptedAt = 9\<rparr>"] entries turn by simp
  qed
  moreover have "length txs \<le> 1"
    using only txs(2) by (cases txs; cases "tl txs") auto
  ultimately have "txs = [demoPayment]" using only by (cases txs) auto
  then show ?thesis using txs(1) by simp
qed

theorem selected_block_never_fails_on_nonce_witness:
  "\<exists>res. previewBlock demoSha (\<lambda>_. None) demoBlockContext demoPaymentBlock = Inr res \<and> prStatus res \<noteq> Preview_INVALID_NONCE"
proof -
  obtain res where res: "previewBlock demoSha (\<lambda>_. None) demoBlockContext demoPaymentBlock = Inr res"
    using demo_block_executed [of "\<lambda>_. None"] executeBlock_valid(2) by blast
  show ?thesis
    using selected_block_never_fails_on_nonce [OF demoPool_ok demo_selected demo_carries demo_block_context(3,1) demo_lawful res] res
    by blast
qed

end
