(* ===== verification/SetHistory.thy ===== *)
theory SetHistory
  imports Validators
begin

section \<open>The validator sets by block height\<close>

text \<open>
  \<open>ValidatorSetHistory\<close> of \<open>src/core/ValidatorRegistry.cpp\<close>: which validator set was in force at
  a block height. A registry is stored only at the heights at which the set changed; a lookup
  takes the last stored height that is not above the one asked for.

  The argument of \<open>recordSet\<close> may be a reference to one of the stored registries, and the code
  tests that by comparing addresses: the argument \<open>ref\<close> is the key of the stored registry the
  reference points to, or \<^const>\<open>None\<close> for any other object.
\<close>

lemma u64_less_inc: "w \<noteq> U64_MAX \<Longrightarrow> w < w + 1"
proof -
  have "U64_MAX = - 1" by (simp add: U64_MAX_def)
  then show "w \<noteq> U64_MAX \<Longrightarrow> w < w + 1" using inc_less_eq_self_iff_eq [of w] by (auto simp: not_le)
qed

subsection \<open>Lookups at or below a key\<close>

text \<open>\<open>std::prev(m.upper_bound(h))\<close>, \<^const>\<open>None\<close> when every key is above \<open>h\<close>.\<close>

definition floorEntry :: "'k::linorder \<Rightarrow> ('k, 'v) smap \<Rightarrow> ('k \<times> 'v) option" where
  "floorEntry h m = (let p = takeWhile (\<lambda>e. fst e \<le> h) m in if p = [] then None else Some (last p))"

lemma floorEntry_snoc:
  "(\<And>e. e \<in> set m \<Longrightarrow> fst e < k) \<Longrightarrow>
     floorEntry h (m @ [(k, v)]) = (if k \<le> h then Some (k, v) else floorEntry h m)"
proof -
  assume below: "\<And>e. e \<in> set m \<Longrightarrow> fst e < k"
  show ?thesis
  proof (cases "k \<le> h")
    case True
    then have "\<And>e. e \<in> set m \<Longrightarrow> fst e \<le> h" using below by fastforce
    then show ?thesis using True by (simp add: floorEntry_def takeWhile_append2)
  next
    case False
    then show ?thesis by (simp add: floorEntry_def takeWhile_tail)
  qed
qed

lemma takeWhile_split:
  "(\<And>x. P x \<Longrightarrow> Q x) \<Longrightarrow> takeWhile Q xs = takeWhile P xs @ takeWhile Q (dropWhile P xs)"
  by (induction xs) auto

lemma floorEntry_between:
  assumes "f \<le> h"
  shows "floorEntry h m =
    (if takeWhile (\<lambda>e. fst e \<le> h) (dropWhile (\<lambda>e. fst e \<le> f) m) = [] then floorEntry f m
     else Some (last (takeWhile (\<lambda>e. fst e \<le> h) (dropWhile (\<lambda>e. fst e \<le> f) m))))"
  using takeWhile_split [of "\<lambda>e. fst e \<le> f" "\<lambda>e. fst e \<le> h" m] assms
  by (auto simp: floorEntry_def Let_def)

lemma mapOk_dropWhile: "mapOk m \<Longrightarrow> mapOk (dropWhile P m)"
  by (induction m) auto

lemma mapOk_above: "mapOk m \<Longrightarrow> x \<in> set (dropWhile (\<lambda>e. fst e \<le> f) m) \<Longrightarrow> f < fst x"
  by (induction m) (auto split: if_splits simp: not_le intro: less_trans)

lemma floorEntry_mem: "floorEntry h m = Some e \<Longrightarrow> e \<in> set m \<and> fst e \<le> h"
  using last_in_set set_takeWhileD by (fastforce simp: floorEntry_def Let_def split: if_splits)

lemma floorEntry_head: "k \<le> h \<Longrightarrow> floorEntry h ((k, v) # m) \<noteq> None"
  by (simp add: floorEntry_def)

lemma mapPut_above:
  "(\<And>e. e \<in> set m \<Longrightarrow> fst e < k) \<Longrightarrow> mapPut k v m = m @ [(k, v)]"
  by (induction m) auto

lemma mapEmplace_above:
  assumes "\<And>e. e \<in> set m \<Longrightarrow> fst e < k"
  shows "snd (mapEmplace k v m) = m @ [(k, v)]"
proof -
  have "map_of m k = None" using assms by (force simp: map_of_eq_None_iff)
  then show ?thesis using assms by (simp add: mapEmplace_def mapPut_above)
qed

lemma emplace_all_above:
  "mapOk (w @ m) \<Longrightarrow> fold (\<lambda>(k, v) w. snd (mapEmplace k v w)) m w = w @ m"
proof (induction m arbitrary: w)
  case (Cons e m)
  have "snd (mapEmplace (fst e) (snd e) w) = w @ [e]"
    using Cons.prems by (subst mapEmplace_above) (auto simp: mapOk_def sorted_wrt_append)
  then show ?case using Cons.IH [of "w @ [e]"] Cons.prems by (simp add: case_prod_beta)
qed simp

subsection \<open>The history\<close>

record ValidatorSetHistory =
  firstHeight :: u64
  highestHeight :: u64
  setsByHeight :: "(u64, ValidatorRegistry) smap"

definition emptyHistory :: ValidatorSetHistory where
  "emptyHistory = \<lparr>firstHeight = 0, highestHeight = 0, setsByHeight = []\<rparr>"

definition hasSet :: "ValidatorSetHistory \<Rightarrow> u64 \<Rightarrow> bool" where
  "hasSet hist height \<longleftrightarrow>
     firstHeight hist \<noteq> 0 \<and> height \<ge> firstHeight hist \<and> height \<le> highestHeight hist"

text \<open>
  With no stored height at or below the one asked for, the code would step before the first
  entry; \<open>history_lookup_total\<close> shows that this does not happen in a valid history.
\<close>

definition setEntryAt :: "ValidatorSetHistory \<Rightarrow> u64 \<Rightarrow> (u64 \<times> ValidatorRegistry) result" where
  "setEntryAt hist height =
     (if \<not> hasSet hist height
      then Inl (OutOfRange ''No validator set recorded for block height.'')
      else case floorEntry height (setsByHeight hist) of
             None \<Rightarrow> Inl (RuntimeError ''no entry before the upper bound'')
           | Some e \<Rightarrow> Inr e)"

definition setAt :: "ValidatorSetHistory \<Rightarrow> u64 \<Rightarrow> ValidatorRegistry result" where
  "setAt hist height = bindR (setEntryAt hist height) (\<lambda>e. Inr (snd e))"

definition sameSerialization ::
    "sha256 \<Rightarrow> ValidatorRegistry \<Rightarrow> ValidatorRegistry \<Rightarrow> bool result" where
  "sameSerialization sha a b =
     bindR (validatorsSerialize sha a) (\<lambda>x. bindR (validatorsSerialize sha b) (\<lambda>y. Inr (x = y)))"

definition storedLast :: "ValidatorSetHistory \<Rightarrow> u64 option \<Rightarrow> bool" where
  "storedLast hist ref \<longleftrightarrow> setsByHeight hist \<noteq> [] \<and> ref = Some (fst (last (setsByHeight hist)))"

definition recordSet ::
    "sha256 \<Rightarrow> u64 \<Rightarrow> u64 option \<Rightarrow> ValidatorRegistry \<Rightarrow> ValidatorSetHistory
       \<Rightarrow> (bool, ValidatorSetHistory) outcome" where
  "recordSet sha height ref registry hist =
     (if height = 0 then (Inr False, hist)
      else if \<not> storedLast hist ref \<and> \<not> validatorsValid sha registry then (Inr False, hist)
      else if hasSet hist height
      then (bindR (setEntryAt hist height) (\<lambda>e.
              if ref = Some (fst e) then Inr True else sameSerialization sha (snd e) registry), hist)
      else if firstHeight hist \<noteq> 0 \<and>
              (highestHeight hist = U64_MAX \<or> height \<noteq> highestHeight hist + 1)
      then (Inr False, hist)
      else if firstHeight hist = 0
      then (Inr True, hist\<lparr>firstHeight := height, highestHeight := height,
              setsByHeight := snd (mapEmplace height registry (setsByHeight hist))\<rparr>)
      else if storedLast hist ref then (Inr True, hist\<lparr>highestHeight := height\<rparr>)
      else case sameSerialization sha (snd (last (setsByHeight hist))) registry of
             Inl e \<Rightarrow> (Inl e, hist)
           | Inr True \<Rightarrow> (Inr True, hist\<lparr>highestHeight := height\<rparr>)
           | Inr False \<Rightarrow> (Inr True, hist\<lparr>highestHeight := height,
                 setsByHeight := snd (mapEmplace height registry (setsByHeight hist))\<rparr>))"

fun setsValidFrom ::
    "sha256 \<Rightarrow> u64 \<Rightarrow> ValidatorRegistry option \<Rightarrow> (u64, ValidatorRegistry) smap \<Rightarrow> bool" where
  "setsValidFrom sha highest previous [] = True"
| "setsValidFrom sha highest previous ((h, r) # es) =
     (if h > highest \<or> \<not> validatorsValid sha r \<or>
         (case previous of None \<Rightarrow> False
          | Some p \<Rightarrow> validatorsSerialize sha p = validatorsSerialize sha r)
      then False else setsValidFrom sha highest (Some r) es)"

definition historyValid :: "sha256 \<Rightarrow> ValidatorSetHistory \<Rightarrow> bool" where
  "historyValid sha hist =
     (if firstHeight hist = 0 then highestHeight hist = 0 \<and> setsByHeight hist = []
      else if setsByHeight hist = [] \<or> fst (hd (setsByHeight hist)) \<noteq> firstHeight hist \<or>
              highestHeight hist < firstHeight hist \<or>
              fst (last (setsByHeight hist)) > highestHeight hist
      then False
      else setsValidFrom sha (highestHeight hist) None (setsByHeight hist))"

definition changesOnlyAtBoundaries :: "sha256 \<Rightarrow> u64 \<Rightarrow> ValidatorSetHistory \<Rightarrow> bool" where
  "changesOnlyAtBoundaries sha epochLength hist =
     (if epochLength = 0 \<or> \<not> historyValid sha hist then False
      else if setsByHeight hist = [] then True
      else list_all (\<lambda>e. (fst e - 1) mod epochLength = 0) (tl (setsByHeight hist)))"

definition windowFrom :: "u64 \<Rightarrow> ValidatorSetHistory \<Rightarrow> ValidatorSetHistory result" where
  "windowFrom fromHeight hist =
     (if \<not> hasSet hist fromHeight
      then Inl (OutOfRange ''Validator-set window start is not recorded.'')
      else bindR (setAt hist fromHeight) (\<lambda>r.
        Inr \<lparr>firstHeight = fromHeight, highestHeight = highestHeight hist,
             setsByHeight = fold (\<lambda>(k, v) w. snd (mapEmplace k v w))
               (dropWhile (\<lambda>e. fst e \<le> fromHeight) (setsByHeight hist)) [(fromHeight, r)]\<rparr>))"

definition restoreHistory ::
    "sha256 \<Rightarrow> u64 \<Rightarrow> u64 \<Rightarrow> (u64, ValidatorRegistry) smap \<Rightarrow> ValidatorSetHistory option" where
  "restoreHistory sha first highest changes =
     (let hist = \<lparr>firstHeight = first, highestHeight = highest, setsByHeight = changes\<rparr>
      in if first = 0 \<or> \<not> historyValid sha hist then None else Some hist)"

fun serializeSets :: "sha256 \<Rightarrow> (u64, ValidatorRegistry) smap \<Rightarrow> string list result" where
  "serializeSets sha [] = Inr []"
| "serializeSets sha ((h, r) # es) =
     bindR (validatorSetRoot sha r) (\<lambda>root.
     bindR (totalConsensusWeight r) (\<lambda>t.
     bindR (validatorsSerialize sha r) (\<lambda>s.
     bindR (serializeSets sha es) (\<lambda>rest.
       Inr ((''ValidatorSet{height='' @ showU64 h @ '';validatorSetRoot='' @ root
             @ '';totalConsensusWeight='' @ showU64 t @ '';registry='' @ s @ ''}'') # rest)))))"

definition historySerialize :: "sha256 \<Rightarrow> ValidatorSetHistory \<Rightarrow> string result" where
  "historySerialize sha hist =
     bindR (serializeSets sha (setsByHeight hist)) (\<lambda>sets.
       Inr (''ValidatorSetHistory{firstHeight='' @ showU64 (firstHeight hist)
         @ '';highestHeight='' @ showU64 (highestHeight hist)
         @ '';snapshotCount='' @ showNat (length (setsByHeight hist))
         @ '';sets=['' @ joinWith '','' sets @ '']}''))"

subsection \<open>The invariant\<close>

definition historyOk :: "sha256 \<Rightarrow> ValidatorSetHistory \<Rightarrow> bool" where
  "historyOk sha hist \<longleftrightarrow> mapOk (setsByHeight hist) \<and> historyValid sha hist"

text \<open>What the C++ reference argument can be.\<close>

definition refOk :: "ValidatorSetHistory \<Rightarrow> u64 option \<Rightarrow> ValidatorRegistry \<Rightarrow> bool" where
  "refOk hist ref registry \<longleftrightarrow>
     (case ref of None \<Rightarrow> True | Some k \<Rightarrow> map_of (setsByHeight hist) k = Some registry)"

abbreviation changed :: "sha256 \<Rightarrow> ValidatorRegistry \<Rightarrow> ValidatorRegistry \<Rightarrow> bool" where
  "changed sha a b \<equiv> validatorsSerialize sha a \<noteq> validatorsSerialize sha b"

lemma setsValidFrom_iff:
  "setsValidFrom sha hi p m \<longleftrightarrow>
     (\<forall>e\<in>set m. fst e \<le> hi \<and> validatorsValid sha (snd e)) \<and>
     successively (changed sha) (case p of None \<Rightarrow> map snd m | Some q \<Rightarrow> q # map snd m)"
proof (induction m arbitrary: p)
  case Nil
  then show ?case by (simp split: option.split)
next
  case (Cons e m)
  obtain h r where "e = (h, r)" by (cases e)
  then show ?case using Cons.IH [of "Some r"] by (cases p) (auto simp: not_less)
qed

lemma historyOk_iff:
  "historyOk sha hist \<longleftrightarrow>
     mapOk (setsByHeight hist) \<and>
     (if firstHeight hist = 0 then highestHeight hist = 0 \<and> setsByHeight hist = []
      else (\<exists>r m. setsByHeight hist = (firstHeight hist, r) # m) \<and>
           firstHeight hist \<le> highestHeight hist \<and>
           (\<forall>e\<in>set (setsByHeight hist). fst e \<le> highestHeight hist \<and> validatorsValid sha (snd e)) \<and>
           successively (changed sha) (map snd (setsByHeight hist)))"
proof (cases "setsByHeight hist")
  case Nil
  then show ?thesis by (simp add: historyOk_def historyValid_def)
next
  case (Cons e m)
  have "fst (last (e # m)) \<le> highestHeight hist" if "\<forall>x\<in>set (e # m). fst x \<le> highestHeight hist"
    using that last_in_set [of "e # m"] by blast
  then show ?thesis using Cons
    by (cases e) (auto simp: historyOk_def historyValid_def setsValidFrom_iff not_less
        simp del: setsValidFrom.simps last.simps)
qed

lemma historyOk_empty: "historyOk sha emptyHistory"
  by (simp add: historyOk_iff emptyHistory_def)

lemma history_lookup:
  assumes "historyOk sha hist" and "hasSet hist h"
  obtains e where "floorEntry h (setsByHeight hist) = Some e" and "setAt hist h = Inr (snd e)"
    and "validatorsValid sha (snd e)"
proof -
  obtain r m where m: "setsByHeight hist = (firstHeight hist, r) # m" and "firstHeight hist \<le> h"
    using assms by (auto simp: historyOk_iff hasSet_def)
  then obtain e where e: "floorEntry h (setsByHeight hist) = Some e"
    using floorEntry_head [of "firstHeight hist" h r m] by auto
  have "setAt hist h = Inr (snd e)" using assms(2) e by (simp add: setAt_def setEntryAt_def)
  moreover have "validatorsValid sha (snd e)"
    using floorEntry_mem [OF e] assms by (auto simp: historyOk_iff hasSet_def)
  ultimately show ?thesis using that e by blast
qed

lemma serialize_total: "validatorsValid sha r \<Longrightarrow> \<exists>s. validatorsSerialize sha r = Inr s"
proof -
  assume "validatorsValid sha r"
  then have "unat (of_nat (weightTotal r) :: u64) = weightTotal r"
    by (simp add: validatorsValid_iff unat_of_nat)
  then have "totalConsensusWeight r = Inr (of_nat (weightTotal r))"
    by (simp add: totalConsensusWeight_def totalWeightFrom_Inr)
  then show ?thesis by (simp add: validatorsSerialize_def)
qed

lemma sameSerialization_valid:
  assumes "validatorsValid sha a" and "validatorsValid sha b"
  shows "sameSerialization sha a b = Inr (\<not> changed sha a b)"
  using serialize_total [OF assms(1)] serialize_total [OF assms(2)]
  by (auto simp: sameSerialization_def)

subsection \<open>Recording\<close>

text \<open>The three ways a successful call can change the history.\<close>

definition extendHistory :: "u64 \<Rightarrow> ValidatorRegistry \<Rightarrow> ValidatorSetHistory \<Rightarrow> ValidatorSetHistory" where
  "extendHistory h r hist = hist\<lparr>highestHeight := h, setsByHeight := setsByHeight hist @ [(h, r)]\<rparr>"

lemma ref_entry:
  "refOk hist ref r \<Longrightarrow> mapOk (setsByHeight hist) \<Longrightarrow> e \<in> set (setsByHeight hist) \<Longrightarrow>
     ref = Some (fst e) \<Longrightarrow> snd e = r"
  by (cases e) (simp add: refOk_def map_of_eq_Some_iff_mem [symmetric])

lemma storedLast_valid:
  assumes "historyOk sha hist" and "refOk hist ref r" and "storedLast hist ref"
  shows "validatorsValid sha r" and "snd (last (setsByHeight hist)) = r"
proof -
  have mem: "last (setsByHeight hist) \<in> set (setsByHeight hist)"
    using assms(3) by (simp add: storedLast_def)
  with assms show "snd (last (setsByHeight hist)) = r"
    by (intro ref_entry [of hist ref]) (auto simp: historyOk_iff storedLast_def)
  with mem assms(1) show "validatorsValid sha r"
    by (auto simp: historyOk_iff storedLast_def split: if_splits)
qed

lemma recordSet_cases:
  assumes ok: "historyOk sha hist" and ref: "refOk hist ref r"
    and run: "recordSet sha h ref r hist = (res, hist')"
  obtains (unchanged) "hist' = hist" and "res = Inr True \<Longrightarrow> hasSet hist h \<and>
      (\<exists>q. setAt hist h = Inr q \<and> \<not> changed sha q r)"
    | (start) "res = Inr True" "firstHeight hist = 0" "h \<noteq> 0" "validatorsValid sha r"
      "hist' = \<lparr>firstHeight = h, highestHeight = h, setsByHeight = [(h, r)]\<rparr>"
    | (stay) "res = Inr True" "firstHeight hist \<noteq> 0" "highestHeight hist \<noteq> U64_MAX"
      "h = highestHeight hist + 1" "\<not> changed sha (snd (last (setsByHeight hist))) r"
      "hist' = hist\<lparr>highestHeight := h\<rparr>"
    | (extend) "res = Inr True" "firstHeight hist \<noteq> 0" "highestHeight hist \<noteq> U64_MAX"
      "h = highestHeight hist + 1" "changed sha (snd (last (setsByHeight hist))) r"
      "validatorsValid sha r" "hist' = extendHistory h r hist"
proof -
  let ?last = "snd (last (setsByHeight hist))"
  have known: "validatorsValid sha r" if "\<not> (\<not> storedLast hist ref \<and> \<not> validatorsValid sha r)"
    using that storedLast_valid(1) [OF ok ref] by blast
  consider (bad) "h = 0 \<or> (\<not> storedLast hist ref \<and> \<not> validatorsValid sha r)"
    | (again) "h \<noteq> 0" "validatorsValid sha r" "hasSet hist h"
    | (gap) "\<not> hasSet hist h" "firstHeight hist \<noteq> 0 \<and>
        (highestHeight hist = U64_MAX \<or> h \<noteq> highestHeight hist + 1)"
    | (first) "h \<noteq> 0" "validatorsValid sha r" "firstHeight hist = 0"
    | (next_one) "h \<noteq> 0" "validatorsValid sha r" "\<not> hasSet hist h" "firstHeight hist \<noteq> 0"
        "highestHeight hist \<noteq> U64_MAX" "h = highestHeight hist + 1"
    using known by (auto simp: hasSet_def)
  then show ?thesis
  proof cases
    case bad
    then show ?thesis using run by (intro unchanged) (auto simp: recordSet_def split: if_splits)
  next
    case again
    obtain e where e: "floorEntry h (setsByHeight hist) = Some e" "setAt hist h = Inr (snd e)"
      "validatorsValid sha (snd e)" using history_lookup [OF ok again(3)] .
    have "snd e = r" if "ref = Some (fst e)"
      using that ref ok floorEntry_mem [OF e(1)] by (intro ref_entry) (auto simp: historyOk_def)
    then show ?thesis using run again e sameSerialization_valid [OF e(3) again(2)]
      by (intro unchanged) (auto simp: recordSet_def setEntryAt_def split: if_splits)
  next
    case gap
    then show ?thesis using run by (intro unchanged) (auto simp: recordSet_def split: if_splits)
  next
    case first
    then have "setsByHeight hist = []" "\<not> hasSet hist h" "\<not> storedLast hist ref"
      using ok by (auto simp: historyOk_iff hasSet_def storedLast_def)
    then show ?thesis using run first by (intro start) (auto simp: recordSet_def mapEmplace_def)
  next
    case next_one
    have mem: "last (setsByHeight hist) \<in> set (setsByHeight hist)"
      using ok next_one(4) by (auto simp: historyOk_iff)
    then have valid: "validatorsValid sha ?last" using ok next_one(4) by (auto simp: historyOk_iff)
    have "highestHeight hist < h" using next_one(5,6) by (simp add: u64_less_inc)
    then have "e \<in> set (setsByHeight hist) \<Longrightarrow> fst e < h" for e
      using ok next_one(4) by (fastforce simp: historyOk_iff)
    then have put: "snd (mapEmplace h r (setsByHeight hist)) = setsByHeight hist @ [(h, r)]"
      by (rule mapEmplace_above)
    show ?thesis
    proof (cases "storedLast hist ref \<or> \<not> changed sha ?last r")
      case True
      then have "\<not> changed sha ?last r" using storedLast_valid(2) [OF ok ref] by blast
      then show ?thesis using True run next_one sameSerialization_valid [OF valid next_one(2)]
        by (intro stay) (auto simp: recordSet_def split: if_splits)
    next
      case False
      then show ?thesis using run next_one sameSerialization_valid [OF valid next_one(2)] put
        by (intro extend) (auto simp: recordSet_def extendHistory_def)
    qed
  qed
qed


lemma last_floor: "\<lbrakk>m \<noteq> []; \<And>e. e \<in> set m \<Longrightarrow> fst e \<le> h\<rbrakk> \<Longrightarrow> floorEntry h m = Some (last m)"
  by (simp add: floorEntry_def takeWhile_eq_all_conv [THEN iffD2])

lemma history_bounds:
  assumes "historyOk sha hist" and "firstHeight hist \<noteq> 0" and "highestHeight hist \<noteq> U64_MAX"
    and "h = highestHeight hist + 1"
  shows "highestHeight hist < h" and "firstHeight hist \<le> h" and "setsByHeight hist \<noteq> []"
    and "\<And>e. e \<in> set (setsByHeight hist) \<Longrightarrow> fst e < h"
proof -
  show less: "highestHeight hist < h" using assms(3,4) by (simp add: u64_less_inc)
  with assms(1,2) show "firstHeight hist \<le> h" "setsByHeight hist \<noteq> []"
    "\<And>e. e \<in> set (setsByHeight hist) \<Longrightarrow> fst e < h"
    by (fastforce simp: historyOk_iff)+
qed

lemma stay_ok:
  assumes ok: "historyOk sha hist" and first: "firstHeight hist \<noteq> 0"
    and max: "highestHeight hist \<noteq> U64_MAX" and h: "h = highestHeight hist + 1"
  shows "historyOk sha (hist\<lparr>highestHeight := h\<rparr>)"
    and "setAt (hist\<lparr>highestHeight := h\<rparr>) h = Inr (snd (last (setsByHeight hist)))"
    and "hasSet hist i \<Longrightarrow> setAt (hist\<lparr>highestHeight := h\<rparr>) i = setAt hist i"
proof -
  note b = history_bounds [OF assms]
  show "historyOk sha (hist\<lparr>highestHeight := h\<rparr>)"
    using ok first b by (fastforce simp: historyOk_iff)
  show "setAt (hist\<lparr>highestHeight := h\<rparr>) h = Inr (snd (last (setsByHeight hist)))"
    using first b by (simp add: setAt_def setEntryAt_def hasSet_def last_floor less_imp_le)
  show "hasSet hist i \<Longrightarrow> setAt (hist\<lparr>highestHeight := h\<rparr>) i = setAt hist i"
    using b(1) by (auto simp: setAt_def setEntryAt_def hasSet_def)
qed

lemma extend_ok:
  assumes ok: "historyOk sha hist" and first: "firstHeight hist \<noteq> 0"
    and max: "highestHeight hist \<noteq> U64_MAX" and h: "h = highestHeight hist + 1"
    and r: "validatorsValid sha r" "changed sha (snd (last (setsByHeight hist))) r"
  shows "historyOk sha (extendHistory h r hist)"
    and "setAt (extendHistory h r hist) h = Inr r"
    and "hasSet hist i \<Longrightarrow> setAt (extendHistory h r hist) i = setAt hist i"
proof -
  note b = history_bounds [OF ok first max h]
  have "mapOk (setsByHeight hist @ [(h, r)])"
    using ok b(4) by (auto simp: historyOk_def mapOk_def sorted_wrt_append)
  moreover have "successively (changed sha) (map snd (setsByHeight hist @ [(h, r)]))"
    using ok first b(3) r(2) by (auto simp: historyOk_iff successively_append_iff last_map)
  ultimately show "historyOk sha (extendHistory h r hist)"
    using ok first b r(1) unfolding historyOk_iff by (auto simp: extendHistory_def less_imp_le)
  show "setAt (extendHistory h r hist) h = Inr r"
    using first b by (simp add: setAt_def setEntryAt_def hasSet_def extendHistory_def floorEntry_snoc)
  show "setAt (extendHistory h r hist) i = setAt hist i" if "hasSet hist i"
    using that b by (auto simp: setAt_def setEntryAt_def hasSet_def extendHistory_def floorEntry_snoc)
qed

lemma record_ok:
  assumes ok: "historyOk sha hist" and ref: "refOk hist ref r"
    and run: "recordSet sha h ref r hist = (res, hist')"
  shows "historyOk sha hist' \<and> (\<forall>i. hasSet hist i \<longrightarrow> setAt hist' i = setAt hist i) \<and>
    (if res = Inr True then \<exists>q. setAt hist' h = Inr q \<and> \<not> changed sha q r else hist' = hist)"
  using assms
proof (cases rule: recordSet_cases)
  case unchanged
  then show ?thesis using ok by auto
next
  case start
  then show ?thesis
    by (auto simp: historyOk_iff setAt_def setEntryAt_def hasSet_def floorEntry_def)
next
  case stay
  then show ?thesis using stay_ok [OF ok stay(2-4)] by auto
next
  case extend
  then show ?thesis using extend_ok [OF ok extend(2-4,6,5)] by auto
qed

subsection \<open>Windows\<close>

lemma window_sets:
  assumes ok: "historyOk sha hist" and has: "hasSet hist f"
    and run: "windowFrom f hist = Inr w"
  obtains k r where "floorEntry f (setsByHeight hist) = Some (k, r)"
    "w = \<lparr>firstHeight = f, highestHeight = highestHeight hist,
          setsByHeight = (f, r) # dropWhile (\<lambda>e. fst e \<le> f) (setsByHeight hist)\<rparr>"
    "mapOk ((f, r) # dropWhile (\<lambda>e. fst e \<le> f) (setsByHeight hist))"
proof -
  let ?rest = "dropWhile (\<lambda>e. fst e \<le> f) (setsByHeight hist)"
  obtain k r where e: "floorEntry f (setsByHeight hist) = Some (k, r)" "setAt hist f = Inr r"
    using history_lookup [OF ok has] by (metis prod.exhaust_sel snd_conv)
  have "mapOk ?rest" using ok by (simp add: historyOk_def mapOk_dropWhile)
  moreover have "f < fst x" if "x \<in> set ?rest" for x
    using that mapOk_above [of "setsByHeight hist" x f] ok by (simp add: historyOk_def)
  ultimately have srt: "mapOk ((f, r) # ?rest)" by auto
  have "fold (\<lambda>(k, v) w. snd (mapEmplace k v w)) ?rest [(f, r)] = [(f, r)] @ ?rest"
    using srt by (intro emplace_all_above) simp
  then show ?thesis using that [OF e(1) _ srt] run has e(2) by (simp add: windowFrom_def)
qed

lemma floorEntry_window:
  assumes "f \<le> h" and "floorEntry f m = Some (k, r)"
  shows "map_option snd (floorEntry h ((f, r) # dropWhile (\<lambda>e. fst e \<le> f) m)) =
         map_option snd (floorEntry h m)"
  using assms floorEntry_between [OF assms(1), of m] by (simp add: floorEntry_def)

lemma setAt_floor:
  "hasSet a h \<Longrightarrow> hasSet b h \<Longrightarrow>
     map_option snd (floorEntry h (setsByHeight a)) = map_option snd (floorEntry h (setsByHeight b)) \<Longrightarrow>
     setAt a h = setAt b h"
  by (cases "floorEntry h (setsByHeight a)"; cases "floorEntry h (setsByHeight b)")
    (auto simp: setAt_def setEntryAt_def)

lemma successively_window:
  assumes "successively P (map snd m)" and "floorEntry f m = Some (k, r)"
  shows "successively P (r # map snd (dropWhile (\<lambda>e. fst e \<le> f) m))"
proof -
  let ?p = "takeWhile (\<lambda>e. fst e \<le> f) m" and ?q = "dropWhile (\<lambda>e. fst e \<le> f) m"
  have "?p \<noteq> []" and r: "r = last (map snd ?p)"
    using assms(2) by (auto simp: floorEntry_def Let_def last_map split: if_splits)
  moreover have "successively P (map snd ?p @ map snd ?q)"
    using assms(1) by (simp flip: map_append)
  ultimately show ?thesis
    by (cases "?q = []") (auto simp: successively_append_iff successively_Cons hd_map)
qed

lemma window_ok:
  assumes ok: "historyOk sha hist" and has: "hasSet hist f"
    and run: "windowFrom f hist = Inr w"
  shows "historyOk sha w \<and> (\<forall>h. f \<le> h \<longrightarrow> setAt w h = setAt hist h)"
proof (rule window_sets [OF assms])
  fix k r
  let ?rest = "dropWhile (\<lambda>e. fst e \<le> f) (setsByHeight hist)"
  assume e: "floorEntry f (setsByHeight hist) = Some (k, r)"
    and w: "w = \<lparr>firstHeight = f, highestHeight = highestHeight hist, setsByHeight = (f, r) # ?rest\<rparr>"
    and srt: "mapOk ((f, r) # ?rest)"
  have f: "f \<noteq> 0" "firstHeight hist \<noteq> 0" "firstHeight hist \<le> f" "f \<le> highestHeight hist"
    using has by (auto simp: hasSet_def)
  have "\<forall>x\<in>set ((f, r) # ?rest). fst x \<le> highestHeight hist \<and> validatorsValid sha (snd x)"
    using ok f floorEntry_mem [OF e] by (auto simp: historyOk_iff dest: set_dropWhileD)
  then have "historyOk sha w"
    using ok f srt successively_window [OF _ e, of "changed sha"]
    by (auto simp: w historyOk_iff)
  moreover have "setAt w h = setAt hist h" if "f \<le> h" for h
  proof (cases "h \<le> highestHeight hist")
    case True
    then have "hasSet w h" "hasSet hist h" using that f by (auto simp: w hasSet_def)
    then show ?thesis using floorEntry_window [OF that e] by (intro setAt_floor) (simp_all add: w)
  next
    case False
    then show ?thesis by (simp add: w setAt_def setEntryAt_def hasSet_def)
  qed
  ultimately show ?thesis by blast
qed

subsection \<open>Changes at epoch boundaries\<close>

lemma same_block_no_multiple:
  assumes "a < k" and "k \<le> b" and "a div n = b div n" and "k mod n = (0::nat)"
  shows False
proof -
  obtain q where k: "k = q * n" using assms(4) by (metis dvdE mod_eq_0_iff_dvd mult.commute)
  then have "0 < n" using assms(1) by (cases n) auto
  then have "a div n < q" and "q \<le> b div n"
    using assms(1,2) k by (simp_all add: less_mult_imp_div_less less_eq_div_iff_mult_less_eq)
  then show False using assms(3) by simp
qed

lemma floorEntry_gap:
  assumes "a \<le> b" and "\<And>e. e \<in> set m \<Longrightarrow> a < fst e \<Longrightarrow> b < fst e"
  shows "floorEntry b m = floorEntry a m"
proof -
  have "takeWhile (\<lambda>e. fst e \<le> b) m = takeWhile (\<lambda>e. fst e \<le> a) m"
    using assms by (intro takeWhile_cong) (auto simp: not_less [symmetric] intro: order_trans)
  then show ?thesis by (simp add: floorEntry_def)
qed

lemma unat_dec: "h \<noteq> 0 \<Longrightarrow> unat (h - 1 :: u64) = unat h - 1"
  by (simp add: unat_minus_one)

lemma set_fixed_inside_epoch:
  assumes ok: "mapOk (setsByHeight hist)" and at: "changesOnlyAtBoundaries sha n hist"
    and a: "hasSet hist a" and b: "hasSet hist b" and le: "a \<le> b"
    and epoch: "(a - 1) div n = (b - 1) div n"
  shows "setAt hist a = setAt hist b"
proof -
  have valid: "historyOk sha hist" and n: "n \<noteq> 0"
    using ok at by (auto simp: changesOnlyAtBoundaries_def historyOk_def split: if_splits)
  obtain r m where m: "setsByHeight hist = (firstHeight hist, r) # m" and f: "firstHeight hist \<le> a"
    using valid a by (auto simp: historyOk_iff hasSet_def)
  have pos: "a \<noteq> 0" "b \<noteq> 0" using a b by (auto simp: hasSet_def)
  have "b < fst e" if e: "e \<in> set (setsByHeight hist)" "a < fst e" for e
  proof (rule ccontr)
    assume "\<not> b < fst e"
    have "e \<in> set m" using e f by (auto simp: m)
    then have "(fst e - 1) mod n = 0"
      using at n by (auto simp: changesOnlyAtBoundaries_def m list_all_iff split: if_splits)
    then have mod0: "unat (fst e - 1) mod unat n = 0" by (metis unat_0 unat_mod)
    have div: "unat (a - 1) div unat n = unat (b - 1) div unat n" using epoch by (metis unat_div)
    have k: "fst e \<noteq> 0" using e(2) by auto
    have "unat a \<noteq> 0" using pos(1) by (simp only: unat_eq_0 not_False_eq_True)
    then have "unat (a - 1) < unat (fst e - 1)"
      using e(2) unfolding unat_dec [OF pos(1)] unat_dec [OF k] word_less_nat_alt by linarith
    moreover have "unat (fst e - 1) \<le> unat (b - 1)"
      using \<open>\<not> b < fst e\<close> unfolding unat_dec [OF pos(2)] unat_dec [OF k] word_less_nat_alt by linarith
    ultimately show False by (rule same_block_no_multiple [OF _ _ div mod0])
  qed
  then have "floorEntry b (setsByHeight hist) = floorEntry a (setsByHeight hist)"
    using le by (intro floorEntry_gap)
  then show ?thesis using a b by (simp add: setAt_def setEntryAt_def)
qed

subsection \<open>Properties of the history\<close>

text \<open>
  C26: Recording a validator set never rewrites history: whatever is passed to \<open>recordSet\<close>, the
  history stays valid and every height that had a set keeps exactly that set. When the call
  reports success, the set found at the recorded height serializes exactly like the registry that
  was passed; when it does not, nothing has changed.
\<close>

theorem history_append_only:
  assumes "mapOk (setsByHeight hist)" and "historyValid sha hist" and "refOk hist ref r"
    and "recordSet sha h ref r hist = (res, hist')"
  shows "historyValid sha hist' \<and> (\<forall>i. hasSet hist i \<longrightarrow> setAt hist' i = setAt hist i) \<and>
    (if res = Inr True
     then \<exists>q. setAt hist' h = Inr q \<and> validatorsSerialize sha q = validatorsSerialize sha r
     else hist' = hist)"
  using record_ok [of sha hist ref r h res hist'] assms by (auto simp: historyOk_def)

text \<open>
  A window of a valid history can be cut at every recorded height; it is valid again, and
  every lookup at or above the cut, successful or not, gives what the full history gives.
\<close>

theorem history_window_exact:
  assumes "mapOk (setsByHeight hist)" and "historyValid sha hist" and "hasSet hist f"
  shows "\<exists>w. windowFrom f hist = Inr w \<and> historyValid sha w \<and>
           (\<forall>h. f \<le> h \<longrightarrow> setAt w h = setAt hist h)"
proof -
  have ok: "historyOk sha hist" using assms by (simp add: historyOk_def)
  have "\<exists>e. setAt hist f = Inr (snd e)" by (rule history_lookup [OF ok assms(3)]) auto
  then obtain w where w: "windowFrom f hist = Inr w" using assms(3) by (auto simp: windowFrom_def)
  then show ?thesis using window_ok [OF ok assms(3) w] by (auto simp: historyOk_def)
qed

text \<open>
  When a history passes \<open>changesOnlyAtBoundaries\<close> for an epoch length, any two recorded
  heights of the same epoch have the same validator set.
\<close>

theorem validator_set_fixed_inside_epoch:
  assumes "mapOk (setsByHeight hist)" and "changesOnlyAtBoundaries sha n hist"
    and "hasSet hist a" and "hasSet hist b" and "(a - 1) div n = (b - 1) div n"
  shows "setAt hist a = setAt hist b"
  using set_fixed_inside_epoch [of hist sha n a b] set_fixed_inside_epoch [of hist sha n b a] assms
  by (metis linear)

definition demoHistory :: ValidatorSetHistory where
  "demoHistory = \<lparr>firstHeight = 1, highestHeight = 3, setsByHeight = [(1, demoValidators)]\<rparr>"

lemma demoHistory_ok: "mapOk (setsByHeight demoHistory)" "historyValid sha demoHistory"
   if "validatorsValid sha demoValidators"
  using that by (simp_all add: demoHistory_def historyValid_def)

theorem history_append_only_witness:
  "setAt (snd (recordSet demoSha 4 (Some 1) demoValidators demoHistory)) 2 = setAt demoHistory 2"
  using history_append_only [OF demoHistory_ok [OF demoValidators_valid], of "Some 1" demoValidators 4
      "fst (recordSet demoSha 4 (Some 1) demoValidators demoHistory)"
      "snd (recordSet demoSha 4 (Some 1) demoValidators demoHistory)"]
  by (simp add: refOk_def demoHistory_def hasSet_def)

theorem history_window_exact_witness:
  "\<exists>w. windowFrom 2 demoHistory = Inr w \<and> setAt w 3 = setAt demoHistory 3"
proof -
  have "hasSet demoHistory 2" by (simp add: demoHistory_def hasSet_def)
  from history_window_exact [OF demoHistory_ok [OF demoValidators_valid] this]
  obtain w where "windowFrom 2 demoHistory = Inr w" and "\<forall>h. 2 \<le> h \<longrightarrow> setAt w h = setAt demoHistory h"
    by blast
  then show ?thesis by simp
qed

theorem validator_set_fixed_inside_epoch_witness: "setAt demoHistory 1 = setAt demoHistory 3"
proof (rule validator_set_fixed_inside_epoch [of _ demoSha 10])
  show "mapOk (setsByHeight demoHistory)" by (rule demoHistory_ok) (rule demoValidators_valid)
  show "changesOnlyAtBoundaries demoSha 10 demoHistory"
    using demoHistory_ok(2) [OF demoValidators_valid]
    by (simp add: changesOnlyAtBoundaries_def demoHistory_def)
qed (simp_all add: demoHistory_def hasSet_def)

end
