(* ===== verification/SetSchedule.thy ===== *)
theory SetSchedule
  imports SetHistory
begin

section \<open>Choosing the validator set of the next height\<close>

text \<open>
  \<open>include/node/ValidatorSetSchedule.hpp\<close>: the consensus set changes only after the last block of
  an epoch, and then by at most \<open>kMaxChurnBasisPoints\<close> of the weight of the set it replaces. The
  projection walks the addresses of both sets in order, first for removals and reductions, then
  for additions and increases, and spends a budget of changed weight.
\<close>

definition NODO_VALIDATOR_EPOCH_BLOCKS :: u64 where
  "NODO_VALIDATOR_EPOCH_BLOCKS = 43200"

definition kMaxChurnBasisPoints :: u64 where
  "kMaxChurnBasisPoints = 3333"

definition isBoundary :: "u64 \<Rightarrow> bool" where
  "isBoundary finalizedHeight \<longleftrightarrow>
     finalizedHeight \<noteq> 0 \<and> finalizedHeight mod NODO_VALIDATOR_EPOCH_BLOCKS = 0"

definition setActivationEpoch :: "u64 \<Rightarrow> u64 result" where
  "setActivationEpoch transactionHeight =
     (if transactionHeight = 0
      then Inl (InvalidArgument ''Validator activation requires a positive height.'')
      else let epoch = (transactionHeight - 1) div NODO_VALIDATOR_EPOCH_BLOCKS + 1 in
           if epoch > U64_MAX - 2 then Inl (OverflowError ''Validator activation epoch overflow.'')
           else Inr (epoch + 2))"

definition setActivationHeight :: "u64 \<Rightarrow> u64 result" where
  "setActivationHeight transactionHeight =
     bindR (setActivationEpoch transactionHeight) (\<lambda>epoch.
       if epoch - 1 > (U64_MAX - 1) div NODO_VALIDATOR_EPOCH_BLOCKS
       then Inl (OverflowError ''Validator activation height overflow.'')
       else Inr ((epoch - 1) * NODO_VALIDATOR_EPOCH_BLOCKS + 1))"

text \<open>
  The budget is a product of 128-bit integers, cut to 64 bits after the division; the model
  computes it on naturals (\<open>churnBudget_exact\<close>: nothing is cut).
\<close>

definition churnBudget :: "u64 \<Rightarrow> u64" where
  "churnBudget totalWeight = of_nat (unat totalWeight * unat kMaxChurnBasisPoints div 10000)"

definition withStake :: "ValidatorRegistryEntry \<Rightarrow> u64 \<Rightarrow> ValidatorRegistryEntry" where
  "withStake e stake = e\<lparr>stakeAmount := stake\<rparr>"

type_synonym selection = "(string, ValidatorRegistryEntry) smap"

definition emplaceEntry :: "string \<Rightarrow> ValidatorRegistryEntry \<Rightarrow> selection \<Rightarrow> selection" where
  "emplaceEntry a e sel = snd (mapEmplace a e sel)"

definition replacementIsImmature ::
    "ValidatorRegistry \<Rightarrow> ValidatorRegistry \<Rightarrow> u64 \<Rightarrow> ValidatorRegistryEntry \<Rightarrow> bool" where
  "replacementIsImmature previous target effectiveEpoch old \<longleftrightarrow>
     list_ex (\<lambda>(a, e). \<not> hasValidator previous a \<and> eligibleForConsensus e \<and>
       entryOwner e = entryOwner old \<and> activationEpoch (registrationRecord e) > effectiveEpoch) target"

definition removalStep ::
    "ValidatorRegistry \<Rightarrow> ValidatorRegistry \<Rightarrow> u64 \<Rightarrow> string \<Rightarrow> u64 \<times> selection \<Rightarrow> u64 \<times> selection" where
  "removalStep previous target effectiveEpoch a s =
     (let remaining = fst s; sel = snd s;
          oldWeight = consensusWeightFor previous a; nextWeight = consensusWeightFor target a in
      if oldWeight = 0 \<or> nextWeight \<ge> oldWeight then s
      else case map_of previous a of
        None \<Rightarrow> s
      | Some old \<Rightarrow>
          if map_of target a = None \<and> replacementIsImmature previous target effectiveEpoch old
          then (remaining, emplaceEntry a old sel)
          else if oldWeight - nextWeight \<le> remaining
          then (remaining - (oldWeight - nextWeight),
                (case map_of target a of
                   Some e \<Rightarrow> if nextWeight \<noteq> 0 then emplaceEntry a e sel else sel
                 | None \<Rightarrow> sel))
          else let projectedWeight = max MIN_VALIDATOR_STAKE_RAW_UNITS (oldWeight - remaining) in
               (remaining - (oldWeight - projectedWeight),
                emplaceEntry a (withStake old projectedWeight) sel))"

definition oldKeyStillLive :: "ValidatorRegistry \<Rightarrow> ValidatorRegistryEntry \<Rightarrow> selection \<Rightarrow> bool" where
  "oldKeyStillLive target e sel \<longleftrightarrow>
     list_ex (\<lambda>(a, live). \<not> hasValidator target a \<and> eligibleForConsensus live \<and>
       entryOwner live = entryOwner e) sel"

definition additionStep ::
    "ValidatorRegistry \<Rightarrow> ValidatorRegistry \<Rightarrow> u64 \<Rightarrow> string \<Rightarrow> u64 \<times> selection \<Rightarrow> u64 \<times> selection" where
  "additionStep previous target effectiveEpoch a s =
     (let remaining = fst s; sel = snd s;
          oldWeight = consensusWeightFor previous a; nextWeight = consensusWeightFor target a;
          old = map_of previous a in
      if map_of sel a \<noteq> None then s
      else if oldWeight > nextWeight then s
      else case map_of target a of
        None \<Rightarrow> s
      | Some e \<Rightarrow>
          if nextWeight = 0 then s
          else if old = None \<and> nextWeight \<noteq> 0 \<and> activationEpoch (registrationRecord e) > effectiveEpoch then s
          else if old = None \<and> nextWeight \<noteq> 0 \<and> oldKeyStillLive target e sel then s
          else if nextWeight - oldWeight \<le> remaining
          then (remaining - (nextWeight - oldWeight), emplaceEntry a e sel)
          else let projectedWeight = oldWeight + remaining in
               if projectedWeight \<ge> MIN_VALIDATOR_STAKE_RAW_UNITS
               then (0, emplaceEntry a (withStake e projectedWeight) sel)
               else (case old of None \<Rightarrow> s | Some o' \<Rightarrow> (remaining, emplaceEntry a o' sel)))"

fun restoreAll :: "sha256 \<Rightarrow> ValidatorRegistryEntry list \<Rightarrow> ValidatorRegistry \<Rightarrow> ValidatorRegistry result" where
  "restoreAll sha [] reg = Inr reg"
| "restoreAll sha (e # es) reg =
     (case restoreEntry sha e reg of
        (True, reg') \<Rightarrow> restoreAll sha es reg'
      | (False, _) \<Rightarrow> Inl (LogicError ''Bounded validator-set projection is invalid.''))"

definition changedWeight :: "ValidatorRegistry \<Rightarrow> ValidatorRegistry \<Rightarrow> string list \<Rightarrow> nat" where
  "changedWeight previous projected addresses =
     (\<Sum>a\<leftarrow>addresses. let before = consensusWeightFor previous a; after = consensusWeightFor projected a in
        unat (if before > after then before - after else after - before))"

definition allAddresses :: "ValidatorRegistry \<Rightarrow> ValidatorRegistry \<Rightarrow> string list" where
  "allAddresses previous target = sorted_list_of_set (set (validatorAddresses previous) \<union> set (validatorAddresses target))"

definition selectEntries ::
    "ValidatorRegistry \<Rightarrow> ValidatorRegistry \<Rightarrow> u64 \<Rightarrow> u64 \<Rightarrow> u64 \<times> selection" where
  "selectEntries previous target effectiveEpoch budget =
     fold (additionStep previous target effectiveEpoch) (allAddresses previous target)
       (fold (removalStep previous target effectiveEpoch) (allAddresses previous target) (budget, []))"

definition projectSet ::
    "sha256 \<Rightarrow> ValidatorRegistry \<Rightarrow> ValidatorRegistry \<Rightarrow> u64 \<Rightarrow> ValidatorRegistry result" where
  "projectSet sha previous target effectiveEpoch =
     (if \<not> validatorsValid sha previous \<or> \<not> validatorsValid sha target
      then Inl (InvalidArgument ''Invalid validator-set projection input.'')
      else bindR (totalConsensusWeight previous) (\<lambda>totalWeight.
        if totalWeight = 0 \<or> effectiveEpoch = 0
        then Inl (InvalidArgument ''Invalid validator-set projection input.'')
        else let budget = churnBudget totalWeight;
                 sel = snd (selectEntries previous target effectiveEpoch budget) in
        bindR (restoreAll sha (map snd sel) []) (\<lambda>projected.
        bindR (totalConsensusWeight projected) (\<lambda>after.
          if after = 0
          then Inl (LogicError ''Validator-set projection would remove all voting weight.'')
          else if changedWeight previous projected (allAddresses previous target) > unat budget
          then Inl (LogicError ''Validator-set projection exceeded the churn budget.'')
          else Inr projected))))"

text \<open>
  Inside an epoch the code passes the stored registry itself to \<open>recordSet\<close>, by reference.
\<close>

definition recordNext ::
    "sha256 \<Rightarrow> u64 \<Rightarrow> ValidatorRegistry \<Rightarrow> ValidatorSetHistory \<Rightarrow> (bool, ValidatorSetHistory) outcome" where
  "recordNext sha finalizedHeight target hist =
     (if finalizedHeight = 0 \<or> finalizedHeight = U64_MAX \<or> \<not> hasSet hist finalizedHeight then (Inr False, hist)
      else case setEntryAt hist finalizedHeight of
        Inl e \<Rightarrow> (Inl e, hist)
      | Inr (key, previous) \<Rightarrow>
          if isBoundary finalizedHeight
          then (case projectSet sha previous target (finalizedHeight div NODO_VALIDATOR_EPOCH_BLOCKS + 1) of
                  Inl e \<Rightarrow> (Inl e, hist)
                | Inr projected \<Rightarrow> recordSet sha (finalizedHeight + 1) None projected hist)
          else recordSet sha (finalizedHeight + 1) (Some key) previous hist)"

subsection \<open>The churn budget is never overspent\<close>

definition touched :: "ValidatorRegistry \<Rightarrow> ValidatorRegistry \<Rightarrow> string \<Rightarrow> bool" where
  "touched previous target a \<longleftrightarrow> consensusWeightFor target a < consensusWeightFor previous a"

definition change :: "ValidatorRegistry \<Rightarrow> ValidatorRegistry \<Rightarrow> string \<Rightarrow> nat" where
  "change previous current a = (let p = unat (consensusWeightFor previous a); c = unat (consensusWeightFor current a) in
     (p - c) + (c - p))"

definition addressed :: "selection \<Rightarrow> bool" where
  "addressed sel \<longleftrightarrow> mapOk sel \<and> (\<forall>(a, e)\<in>set sel. regAddress (registrationRecord e) = a)"

lemma weight_lookup: "map_of reg a = map_of reg' a \<Longrightarrow> consensusWeightFor reg a = consensusWeightFor reg' a"
  by (simp add: consensusWeightFor_def)

lemma change_lookup: "map_of reg a = map_of reg' a \<Longrightarrow> change previous reg a = change previous reg' a"
  by (simp add: change_def weight_lookup [of reg a reg'])

lemma emplace_new:
  assumes "map_of sel a = None"
  shows "map_of (emplaceEntry a e sel) = (map_of sel)(a \<mapsto> e)"
    and "addressed sel \<Longrightarrow> regAddress (registrationRecord e) = a \<Longrightarrow> addressed (emplaceEntry a e sel)"
  using assms by (auto simp: emplaceEntry_def mapEmplace_def addressed_def set_mapPut)

text \<open>One step settles one address: what it changes it pays for.\<close>

definition settles :: "ValidatorRegistry \<Rightarrow> string \<Rightarrow> u64 \<times> selection \<Rightarrow> u64 \<times> selection \<Rightarrow> bool" where
  "settles previous a s s' \<longleftrightarrow> (\<forall>b. b \<noteq> a \<longrightarrow> map_of (snd s') b = map_of (snd s) b) \<and> addressed (snd s') \<and>
     change previous (snd s') a + unat (fst s') \<le> unat (fst s)"

lemma settles_emplace:
  assumes "map_of sel a = None" and "addressed sel" and "regAddress (registrationRecord e) = a"
    and "change previous [(a, e)] a + unat remaining' \<le> unat remaining"
  shows "settles previous a (remaining, sel) (remaining', emplaceEntry a e sel)"
  using assms emplace_new [OF assms(1)] change_lookup [of "emplaceEntry a e sel" a "[(a, e)]"]
  by (simp add: settles_def)

lemma weight_one: "consensusWeightFor [(a, e)] a = (if eligibleForConsensus e then stakeAmount e else 0)"
  by (simp add: consensusWeightFor_def consensusWeight_def weightFromStake_def)

lemma weight_of_entry:
  assumes "map_of reg a = Some e"
  shows "consensusWeightFor reg a = (if eligibleForConsensus e then stakeAmount e else 0)"
  using assms by (simp add: consensusWeightFor_def consensusWeight_def weightFromStake_def)

lemma removal_settles:
  assumes p: "regOk sha previous" and t: "regOk sha target" and new: "map_of sel a = None" and ok: "addressed sel"
    and a: "touched previous target a"
  shows "settles previous a (remaining, sel) (removalStep previous target epoch a (remaining, sel))"
proof -
  let ?old = "consensusWeightFor previous a" and ?next = "consensusWeightFor target a"
  have pos: "?old \<noteq> 0" "\<not> ?old \<le> ?next" using a by (auto simp: touched_def)
  obtain old where old: "map_of previous a = Some old"
    using pos(1) by (cases "map_of previous a") (auto simp: consensusWeightFor_def)
  have w: "eligibleForConsensus old" "?old = stakeAmount old"
    using pos(1) weight_of_entry [OF old] by (auto split: if_splits)
  have addr: "regAddress (registrationRecord old) = a" using p old by (auto simp: regOk_iff entryAt_def)
  have keep: "settles previous a (remaining, sel) (remaining, emplaceEntry a old sel)"
    by (rule settles_emplace [OF new ok addr]) (simp add: change_def weight_one w)
  have drop: "settles previous a (remaining, sel) (remaining - (?old - ?next), sel)" if "?old - ?next \<le> remaining" "?next = 0"
  proof -
    have "consensusWeightFor sel a = 0" using new by (simp add: consensusWeightFor_def)
    then show ?thesis using that ok by (simp add: settles_def change_def Let_def unat_sub word_le_nat_alt)
  qed
  have reduce: "settles previous a (remaining, sel) (remaining - (?old - ?next), emplaceEntry a e sel)"
    if "map_of target a = Some e" "?old - ?next \<le> remaining" "?next \<noteq> 0" for e
  proof (rule settles_emplace [OF new ok])
    show "regAddress (registrationRecord e) = a" using t that(1) by (auto simp: regOk_iff entryAt_def)
    have "consensusWeightFor [(a, e)] a = ?next" using weight_of_entry [OF that(1)] by (simp add: weight_one)
    moreover have "?next \<le> ?old" using pos(2) by simp
    then have "unat (?old - ?next) = unat ?old - unat ?next" "unat ?next \<le> unat ?old" by (simp_all add: unat_sub word_le_nat_alt)
    ultimately show "change previous [(a, e)] a + unat (remaining - (?old - ?next)) \<le> unat remaining"
      using that(2) by (simp add: change_def Let_def unat_sub word_le_nat_alt)
  qed
  let ?new = "max MIN_VALIDATOR_STAKE_RAW_UNITS (?old - remaining)"
  have cut: "settles previous a (remaining, sel) (remaining - (?old - ?new), emplaceEntry a (withStake old ?new) sel)"
    if "\<not> ?old - ?next \<le> remaining"
  proof (rule settles_emplace [OF new ok])
    show "regAddress (registrationRecord (withStake old ?new)) = a" using addr by (simp add: withStake_def)
    have min: "MIN_VALIDATOR_STAKE_RAW_UNITS \<le> ?old" using w by (simp add: eligibleForConsensus_def)
    have "remaining \<le> ?old"
    proof -
      have "?old - ?next \<le> ?old" using pos(2) by (simp add: word_sub_le)
      then show ?thesis using that by simp
    qed
    then have le: "?new \<le> ?old" "?old - remaining \<le> ?new" using min by (auto simp: word_sub_le)
    have "0 < ?new" by (rule less_le_trans [OF _ max.cobounded1]) (simp add: MIN_VALIDATOR_STAKE_RAW_UNITS_def)
    then have "eligibleForConsensus (withStake old ?new)"
      using w(1) by (simp add: eligibleForConsensus_def withStake_def consensusWeight_def weightFromStake_def)
    then have c: "consensusWeightFor [(a, withStake old ?new)] a = ?new" by (simp add: weight_one withStake_def)
    have "unat (?old - ?new) = unat ?old - unat ?new" "unat ?new \<le> unat ?old" using le(1) by (simp_all add: unat_sub word_le_nat_alt)
    moreover have "unat (?old - remaining) = unat ?old - unat remaining" using \<open>remaining \<le> ?old\<close> by (rule unat_sub)
    moreover have "unat (?old - remaining) \<le> unat ?new" using le(2) by (simp add: word_le_nat_alt)
    moreover have "?old - ?new \<le> remaining"
      using calculation by (simp add: word_le_nat_alt)
    ultimately show "change previous [(a, withStake old ?new)] a + unat (remaining - (?old - ?new)) \<le> unat remaining"
      by (simp add: change_def Let_def c unat_sub word_le_nat_alt)
  qed
  have none: "?next = 0" if "map_of target a = None" using that by (simp add: consensusWeightFor_def)
  show ?thesis
    unfolding removalStep_def Let_def
    using pos old keep drop reduce cut none by (auto split: option.split)
qed


lemma addition_settles:
  assumes p: "regOk sha previous" and t: "regOk sha target" and new: "map_of sel a = None" and ok: "addressed sel"
    and a: "\<not> touched previous target a"
  shows "settles previous a (remaining, sel) (additionStep previous target epoch a (remaining, sel))"
proof -
  let ?old = "consensusWeightFor previous a" and ?next = "consensusWeightFor target a"
  have le: "?old \<le> ?next" using a by (simp add: touched_def)
  have zero: "consensusWeightFor sel a = 0" using new by (simp add: consensusWeightFor_def)
  have skip: "settles previous a (remaining, sel) (remaining, sel)" if "?old = 0"
    using that ok zero by (simp add: settles_def change_def)
  show ?thesis
  proof (cases "map_of target a")
    case None
    then have "?old = 0" using le by (simp add: consensusWeightFor_def)
    then show ?thesis using skip None new by (simp add: additionStep_def Let_def)
  next
    case (Some e)
    have addr: "regAddress (registrationRecord e) = a" using t Some by (auto simp: regOk_iff entryAt_def)
    have full: "settles previous a (remaining, sel) (remaining - (?next - ?old), emplaceEntry a e sel)"
      if "?next - ?old \<le> remaining"
    proof (rule settles_emplace [OF new ok addr])
      have "consensusWeightFor [(a, e)] a = ?next" using weight_of_entry [OF Some] by (simp add: weight_one)
      then show "change previous [(a, e)] a + unat (remaining - (?next - ?old)) \<le> unat remaining"
        using that le by (simp add: change_def Let_def unat_sub word_le_nat_alt)
    qed
    have part: "settles previous a (remaining, sel) (0, emplaceEntry a (withStake e (?old + remaining)) sel)"
      if over: "\<not> ?next - ?old \<le> remaining" and min: "MIN_VALIDATOR_STAKE_RAW_UNITS \<le> ?old + remaining" and nz: "?next \<noteq> 0"
    proof (rule settles_emplace [OF new ok])
      show "regAddress (registrationRecord (withStake e (?old + remaining))) = a" using addr by (simp add: withStake_def)
      have "unat remaining < unat ?next - unat ?old" using over le by (simp add: not_le word_less_nat_alt unat_sub)
      then have "unat ?old + unat remaining < 2 ^ 64" using unat_bound [of ?next] by linarith
      then have sum: "unat (?old + remaining) = unat ?old + unat remaining" by (subst unat_add_lem [symmetric]) simp
      have "eligibleForConsensus e" using nz weight_of_entry [OF Some] by (auto split: if_splits)
      moreover have "0 < ?old + remaining" by (rule less_le_trans [OF _ min]) (simp add: MIN_VALIDATOR_STAKE_RAW_UNITS_def)
      ultimately have "consensusWeightFor [(a, withStake e (?old + remaining))] a = ?old + remaining"
        using min by (simp add: weight_one eligibleForConsensus_def withStake_def consensusWeight_def weightFromStake_def)
      then show "change previous [(a, withStake e (?old + remaining))] a + unat (0 :: u64) \<le> unat remaining"
        using sum by (simp add: change_def Let_def)
    qed
    have keep: "settles previous a (remaining, sel) (remaining, emplaceEntry a old sel)" if "map_of previous a = Some old" for old
    proof (rule settles_emplace [OF new ok])
      show "regAddress (registrationRecord old) = a" using p that by (auto simp: regOk_iff entryAt_def)
      have "consensusWeightFor [(a, old)] a = ?old" using weight_of_entry [OF that] by (simp add: weight_one)
      then show "change previous [(a, old)] a + unat remaining \<le> unat remaining" by (simp add: change_def)
    qed
    have none: "?old = 0" if "map_of previous a = None" using that by (simp add: consensusWeightFor_def)
    have nz: "?next = 0 \<Longrightarrow> ?old = 0" using le by simp
    show ?thesis
      unfolding additionStep_def Let_def fst_conv snd_conv Some option.case
      using new le skip full part keep none nz by (auto split: option.split)
  qed
qed

text \<open>A pass over distinct addresses settles those it is meant for and leaves the others.\<close>

lemma pass_settles:
  assumes step: "\<And>a s. P a \<Longrightarrow> map_of (snd s) a = None \<Longrightarrow> addressed (snd s) \<Longrightarrow> settles previous a s (f a s)"
    and idle: "\<And>a s. \<not> P a \<Longrightarrow> Q a s \<Longrightarrow> f a s = s"
  shows "distinct as \<Longrightarrow> addressed (snd s) \<Longrightarrow> (\<And>a. a \<in> set as \<Longrightarrow> P a \<Longrightarrow> map_of (snd s) a = None) \<Longrightarrow>
    (\<And>a s'. a \<in> set as \<Longrightarrow> \<not> P a \<Longrightarrow> map_of (snd s') a = map_of (snd s) a \<Longrightarrow> Q a s') \<Longrightarrow>
    addressed (snd (fold f as s)) \<and>
    (\<forall>b. b \<notin> set as \<or> \<not> P b \<longrightarrow> map_of (snd (fold f as s)) b = map_of (snd s) b) \<and>
    (\<Sum>a\<leftarrow>filter P as. change previous (snd (fold f as s)) a) + unat (fst (fold f as s)) \<le> unat (fst s)"
proof (induction as arbitrary: s)
  case (Cons a as)
  define s1 where "s1 = f a s"
  let ?s = "fold f as s1"
  have one: "addressed (snd s1) \<and> (\<forall>b. b \<noteq> a \<or> \<not> P b \<longrightarrow> map_of (snd s1) b = map_of (snd s) b) \<and>
      (if P a then change previous (snd s1) a + unat (fst s1) \<le> unat (fst s) else s1 = s)"
  proof (cases "P a")
    case True
    then have "settles previous a s s1" unfolding s1_def using Cons.prems by (intro step) simp_all
    then show ?thesis using True by (auto simp: settles_def)
  next
    case False
    then have "s1 = s" unfolding s1_def using Cons.prems(4) [of a s] by (intro idle) simp_all
    then show ?thesis using False Cons.prems(2) by simp
  qed
  have IH: "addressed (snd ?s) \<and> (\<forall>b. b \<notin> set as \<or> \<not> P b \<longrightarrow> map_of (snd ?s) b = map_of (snd s1) b) \<and>
    (\<Sum>a\<leftarrow>filter P as. change previous (snd ?s) a) + unat (fst ?s) \<le> unat (fst s1)"
  proof (rule Cons.IH)
    show "distinct as" "addressed (snd s1)" using Cons.prems(1) one by simp_all
    show "map_of (snd s1) b = None" if "b \<in> set as" "P b" for b
      using that Cons.prems(1,3) one by (cases "b = a") auto
    show "Q b s'" if "b \<in> set as" "\<not> P b" "map_of (snd s') b = map_of (snd s1) b" for b s'
      using that Cons.prems(4) [of b s'] one by simp
  qed
  have "map_of (snd ?s) a = map_of (snd s1) a" using IH Cons.prems(1) by simp
  then have "change previous (snd ?s) a = change previous (snd s1) a" by (rule change_lookup)
  then show ?case using IH one Cons.prems(1) by (auto simp: s1_def [symmetric] split: if_splits)
qed simp


lemma selection_change:
  fixes epoch budget :: u64
  assumes "regOk sha previous" and "regOk sha target"
  defines "sel \<equiv> snd (selectEntries previous target epoch budget)"
  shows "addressed sel" and "(\<Sum>a\<leftarrow>allAddresses previous target. change previous sel a) \<le> unat budget"
proof -
  let ?all = "allAddresses previous target" and ?T = "touched previous target"
  define s0 :: "u64 \<times> selection" where "s0 = (budget, [])"
  define s1 where "s1 = fold (removalStep previous target epoch) ?all s0"
  define s2 where "s2 = fold (additionStep previous target epoch) ?all s1"
  have dist: "distinct ?all" by (simp add: allAddresses_def)
  have sel: "sel = snd s2" by (simp add: sel_def selectEntries_def s0_def s1_def s2_def)
  have first: "addressed (snd s1) \<and> (\<forall>b. b \<notin> set ?all \<or> \<not> ?T b \<longrightarrow> map_of (snd s1) b = map_of (snd s0) b) \<and>
      (\<Sum>a\<leftarrow>filter ?T ?all. change previous (snd s1) a) + unat (fst s1) \<le> unat (fst s0)"
    unfolding s1_def
  proof (rule pass_settles [where P = ?T and f = "removalStep previous target epoch" and s = s0 and Q = "\<lambda>_ _. True"])
    show "settles previous a s (removalStep previous target epoch a s)"
      if "?T a" "map_of (snd s) a = None" "addressed (snd s)" for a s
      using removal_settles [OF assms(1,2) that(2,3,1), of "fst s"] by simp
    show "removalStep previous target epoch a s = s" if "\<not> ?T a" for a s
      using that by (simp add: removalStep_def touched_def Let_def not_less)
  qed (use dist in \<open>simp_all add: addressed_def s0_def\<close>)
  have second: "addressed (snd s2) \<and> (\<forall>b. b \<notin> set ?all \<or> \<not> \<not> ?T b \<longrightarrow> map_of (snd s2) b = map_of (snd s1) b) \<and>
      (\<Sum>a\<leftarrow>filter (\<lambda>a. \<not> ?T a) ?all. change previous (snd s2) a) + unat (fst s2) \<le> unat (fst s1)"
    unfolding s2_def
  proof (rule pass_settles [where P = "\<lambda>a. \<not> ?T a" and f = "additionStep previous target epoch" and s = s1 and Q = "\<lambda>_ _. True"])
    show "settles previous a s (additionStep previous target epoch a s)"
      if "\<not> ?T a" "map_of (snd s) a = None" "addressed (snd s)" for a s
      using addition_settles [OF assms(1,2) that(2,3,1), of "fst s"] by simp
    show "additionStep previous target epoch a s = s" if "\<not> \<not> ?T a" for a s
      using that by (simp add: additionStep_def touched_def Let_def)
  qed (use dist first in \<open>simp_all add: s0_def\<close>)
  show "addressed sel" using second sel by simp
  have "change previous (snd s2) a = change previous (snd s1) a" if "?T a" for a
    using second that by (intro change_lookup) blast
  then have "(\<Sum>a\<leftarrow>filter ?T ?all. change previous (snd s2) a) = (\<Sum>a\<leftarrow>filter ?T ?all. change previous (snd s1) a)"
    by (intro arg_cong [of _ _ sum_list] map_cong) auto
  moreover have "(\<Sum>a\<leftarrow>as. g a) = (\<Sum>a\<leftarrow>filter ?T as. g a) + (\<Sum>a\<leftarrow>filter (\<lambda>a. \<not> ?T a) as. g a)" for as and g :: "string \<Rightarrow> nat"
    by (induction as) auto
  from this [of "change previous (snd s2)" ?all]
  have "(\<Sum>a\<leftarrow>?all. change previous (snd s2) a) = (\<Sum>a\<leftarrow>filter ?T ?all. change previous (snd s2) a) +
      (\<Sum>a\<leftarrow>filter (\<lambda>a. \<not> ?T a) ?all. change previous (snd s2) a)" .
  ultimately show "(\<Sum>a\<leftarrow>?all. change previous sel a) \<le> unat budget" using first second sel by (simp add: s0_def)
qed

lemma restoreAll_lookup:
  "restoreAll sha es reg = Inr reg' \<Longrightarrow>
     map_of reg' a = Some e \<longleftrightarrow> map_of reg a = Some e \<or> e \<in> set es \<and> regAddress (registrationRecord e) = a"
proof (induction es arbitrary: reg)
  case (Cons x es)
  let ?k = "regAddress (registrationRecord x)"
  have "map_of reg ?k = None" "restoreAll sha es (mapPut ?k x reg) = Inr reg'"
    using Cons.prems by (auto simp: restoreEntry_def Let_def split: if_splits prod.splits bool.splits)
  then show ?case using Cons.IH [of "mapPut ?k x reg"] by auto
qed simp

lemma restoreAll_error: "restoreAll sha es reg = Inl e \<Longrightarrow> e = LogicError ''Bounded validator-set projection is invalid.''"
  by (induction es arbitrary: reg) (auto split: prod.splits bool.splits)

lemma bindR_Inl_iff: "bindR r f = Inl e \<longleftrightarrow> r = Inl e \<or> (\<exists>x. r = Inr x \<and> f x = Inl e)"
  by (cases r) auto

lemma total_error: "totalConsensusWeight reg = Inl e \<Longrightarrow> \<exists>m. e = OverflowError m"
proof -
  have "totalWeightFrom acc es = Inl e \<Longrightarrow> \<exists>m. e = OverflowError m" for acc es
    by (induction acc es rule: totalWeightFrom.induct) (auto split: if_splits)
  then show "totalConsensusWeight reg = Inl e \<Longrightarrow> \<exists>m. e = OverflowError m" by (auto simp: totalConsensusWeight_def)
qed

lemma restored_selection:
  assumes "addressed sel" and "restoreAll sha (map snd sel) [] = Inr reg"
  shows "map_of reg = map_of sel"
proof
  fix a
  have "map_of reg a = Some e \<longleftrightarrow> map_of sel a = Some e" for e
    using restoreAll_lookup [OF assms(2), of a e] assms(1) map_of_eq_Some_iff_mem [of sel a e]
    by (force simp: addressed_def)
  then show "map_of reg a = map_of sel a" by (metis not_Some_eq)
qed

lemma changedWeight_change:
  "changedWeight previous current as = (\<Sum>a\<leftarrow>as. change previous current a)"
proof -
  have "unat (if x > y then x - y else y - x) = (unat x - unat y) + (unat y - unat x)" for x y :: u64
    by (auto simp: unat_sub word_le_nat_alt word_less_nat_alt)
  then show ?thesis by (simp add: changedWeight_def change_def Let_def)
qed

lemma churnBudget_exact: "unat (churnBudget t) = unat t * 3333 div 10000"
proof -
  have "unat t * 3333 div 10000 \<le> unat t" by linarith
  then have "unat t * 3333 div 10000 < 2 ^ 64" using unat_bound [of t] by linarith
  then show ?thesis unfolding churnBudget_def kMaxChurnBasisPoints_def unat_of_nat by simp
qed

text \<open>
  C31: The validator set changes slowly. The two passes of the projection never spend more than the
  churn budget, so the check of the code against an overspent budget never fires; and whatever set
  the projection returns differs from the previous one, summed over all validators, by at most
  33.33 percent of the previous total weight.
\<close>

theorem churn_bounded:
  assumes "mapOk previous" and "mapOk target"
  shows "projectSet sha previous target epoch \<noteq> Inl (LogicError ''Validator-set projection exceeded the churn budget.'') \<and>
    (\<forall>projected t. projectSet sha previous target epoch = Inr projected \<longrightarrow> totalConsensusWeight previous = Inr t \<longrightarrow>
       10000 * changedWeight previous projected (allAddresses previous target) \<le> 3333 * unat t)"
proof (cases "validatorsValid sha previous \<and> validatorsValid sha target")
  case True
  then have ok: "regOk sha previous" "regOk sha target" using assms by (simp_all add: regOk_def)
  have le: "changedWeight previous projected (allAddresses previous target) \<le> unat budget"
    if "restoreAll sha (map snd (snd (selectEntries previous target epoch budget))) [] = Inr projected" for projected budget
  proof -
    note sel = selection_change [OF ok, where epoch = epoch and budget = budget]
    have "change previous projected a = change previous (snd (selectEntries previous target epoch budget)) a" for a
      using restored_selection [OF sel(1) that] by (intro change_lookup) simp
    then show ?thesis using sel(2) by (simp add: changedWeight_change)
  qed
  have bound: "10000 * changedWeight previous projected (allAddresses previous target) \<le> 3333 * unat t"
    if "restoreAll sha (map snd (snd (selectEntries previous target epoch (churnBudget t)))) [] = Inr projected" for projected t
  proof -
    have "10000 * unat (churnBudget t) \<le> 3333 * unat t" by (simp add: churnBudget_exact)
    then show ?thesis using le [OF that] by linarith
  qed
  have no: "totalConsensusWeight reg \<noteq> Inl (LogicError m)"
    "restoreAll sha es reg \<noteq> Inl (LogicError ''Validator-set projection exceeded the churn budget.'')" for reg m es
    using total_error restoreAll_error by fastforce+
  show ?thesis
  proof (cases "projectSet sha previous target epoch")
    case (Inl e)
    have "e \<noteq> LogicError ''Validator-set projection exceeded the churn budget.''"
    proof
      assume "e = LogicError ''Validator-set projection exceeded the churn budget.''"
      with Inl True obtain t projected where
        "restoreAll sha (map snd (snd (selectEntries previous target epoch (churnBudget t)))) [] = Inr projected"
        "unat (churnBudget t) < changedWeight previous projected (allAddresses previous target)"
        using total_of_valid [OF ok(1)] by (auto simp: projectSet_def Let_def bindR_Inl_iff no split: if_splits)
      then show False using le [of "churnBudget t" projected] by simp
    qed
    then show ?thesis using Inl by simp
  next
    case (Inr projected)
    then show ?thesis using True bound by (auto simp: projectSet_def Let_def split: if_splits)
  qed
qed (auto simp: projectSet_def)


definition smallerSet :: ValidatorRegistry where
  "smallerSet = [(demoAddr CHR ''7'', demoEntry CHR ''7'' 2000000), (demoAddr CHR ''f'', demoEntry CHR ''f'' 3000000)]"

lemma smallerSet_valid: "mapOk smallerSet" "validatorsValid demoSha smallerSet"
proof -
  show "mapOk smallerSet" by code_simp
  have "list_all (\<lambda>(a, e). entryAt demoSha a e) smallerSet"
    by (simp add: smallerSet_def demoEntry_at demoName_def I64_MAX_def)
  moreover have "weightTotal smallerSet = 5000000"
    by (simp add: smallerSet_def weightTotal_def entryWeight_def eligibleForConsensus_def demoEntry_def
       consensusWeight_def weightFromStake_def MIN_VALIDATOR_STAKE_RAW_UNITS_def)
  ultimately show "validatorsValid demoSha smallerSet" by (simp add: validatorsValid_iff)
qed

lemma smaller_selection: "selectEntries demoValidators smallerSet 1 1999800 = (999800, smallerSet)"
  by code_simp

lemma smaller_weights:
  "totalConsensusWeight smallerSet = Inr 5000000" "allAddresses demoValidators smallerSet = map demoAddr ''07f''"
  "consensusWeightFor smallerSet (demoAddr CHR ''0'') = 0" "consensusWeightFor smallerSet (demoAddr CHR ''7'') = 2000000"
  "consensusWeightFor smallerSet (demoAddr CHR ''f'') = 3000000"
  by code_simp+

lemma smaller_facts:
  "churnBudget 6000000 = 1999800"
  "changedWeight demoValidators smallerSet (allAddresses demoValidators smallerSet) = 1000000"
  by (simp_all add: churnBudget_def kMaxChurnBasisPoints_def changedWeight_def smaller_weights demoValidators_weights)

lemma smaller_restored: "restoreAll demoSha (map snd smallerSet) [] = Inr smallerSet"
proof -
  have at: "entryAt demoSha (demoAddr CHR ''7'') (demoEntry CHR ''7'' 2000000)" "entryAt demoSha (demoAddr CHR ''f'') (demoEntry CHR ''f'' 3000000)"
    by (simp_all add: demoEntry_at demoName_def I64_MAX_def)
  have one: "validatorsValid demoSha [(demoAddr CHR ''7'', demoEntry CHR ''7'' 2000000)]"
    using smallerSet_valid(2) by (simp add: validatorsValid_iff smallerSet_def weightTotal_def)
  have "restoreEntry demoSha (demoEntry CHR ''7'' 2000000) [] = (True, [(demoAddr CHR ''7'', demoEntry CHR ''7'' 2000000)])"
    using at(1) one by (simp add: restoreEntry_def entryAt_def Let_def)
  moreover have "mapPut (demoAddr CHR ''f'') (demoEntry CHR ''f'' 3000000) [(demoAddr CHR ''7'', demoEntry CHR ''7'' 2000000)] = smallerSet"
    by code_simp
  then have "restoreEntry demoSha (demoEntry CHR ''f'' 3000000) [(demoAddr CHR ''7'', demoEntry CHR ''7'' 2000000)] = (True, smallerSet)"
    using at(2) smallerSet_valid(2) by (simp add: restoreEntry_def entryAt_def Let_def)
  ultimately show ?thesis by (simp add: smallerSet_def)
qed

theorem churn_bounded_witness:
  "\<exists>projected. projectSet demoSha demoValidators smallerSet 1 = Inr projected \<and>
     10000 * changedWeight demoValidators projected (allAddresses demoValidators smallerSet) \<le> 3333 * 6000000"
proof -
  have run: "projectSet demoSha demoValidators smallerSet 1 = Inr smallerSet"
    by (simp add: projectSet_def demoValidators_valid smallerSet_valid demoValidators_weights smaller_facts smaller_weights(1) smaller_selection
        smaller_restored Let_def)
  then show ?thesis
    using churn_bounded [OF demoValidators_mapOk smallerSet_valid(1), of demoSha 1]
    by (auto simp: demoValidators_weights)
qed

end
