(* ===== verification/Staking.thy ===== *)
theory Staking
  imports Amounts SetSchedule
begin

section \<open>Staking: accounts, positions and their life cycle\<close>

text \<open>
  \<open>src/economics/StakeAccount.cpp\<close>, \<open>src/node/StakingRegistry.cpp\<close>, \<open>include/node/AccountabilityWindow.hpp\<close>
  and \<open>src/node/ValidatorStakeWeightUpdater.cpp\<close>. A validator's stake account is the sum of the positions
  of its owners; a position moves its amounts from pending activation to active, to unbonding and out, and
  a penalty moves them to the slashed amount. Key rotation moves a whole account to a new address and
  remembers the successor of the old one.

  An operation returns the new registry or the exception it throws. A throwing operation can leave the C++ object half
  updated; its callers run on a copy that they then discard, so the model keeps only the exception.

  The lemmas show that every operation keeps the registry valid and accounts for every unit of stake, and that stake
  is withdrawn only after evidence against it has expired. A deposit into a rotated address is the exception.
\<close>

subsection \<open>Accounts and positions\<close>

record StakeAccount =
  saAddress :: string
  bondedAmount :: Amount
  saSlashed :: Amount
  saJailed :: bool
  saTombstoned :: bool

definition stakeAccountValid :: "StakeAccount \<Rightarrow> bool" where
  "stakeAccountValid a \<longleftrightarrow>
     saAddress a \<noteq> [] \<and> \<not> isNegative (bondedAmount a) \<and> \<not> isNegative (saSlashed a) \<and> saSlashed a \<le> bondedAmount a"

definition newStakeAccount :: "string \<Rightarrow> Amount \<Rightarrow> Amount \<Rightarrow> bool \<Rightarrow> bool \<Rightarrow> StakeAccount result" where
  "newStakeAccount address bonded slashed jailed tombstoned =
     (let a = \<lparr>saAddress = address, bondedAmount = bonded, saSlashed = slashed, saJailed = jailed, saTombstoned = tombstoned\<rparr> in
      if \<not> stakeAccountValid a then Inl (InvalidArgument ''Invalid complete StakeAccount state.'') else Inr a)"

definition accountEligible :: "StakeAccount \<Rightarrow> bool" where
  "accountEligible a \<longleftrightarrow> \<not> saJailed a \<and> \<not> saTombstoned a \<and> bondedAmount a > zeroAmount"

definition canSlash :: "Amount \<Rightarrow> StakeAccount \<Rightarrow> bool result" where
  "canSlash amount a =
     (if isNegative amount \<or> isZero amount then Inr False
      else bindR (amountSub (bondedAmount a) (saSlashed a)) (\<lambda>remaining. Inr (amount \<le> remaining)))"

definition applySlash :: "Amount \<Rightarrow> StakeAccount \<Rightarrow> StakeAccount result" where
  "applySlash amount a =
     (if isNegative amount \<or> isZero amount then Inl (InvalidArgument ''Slash amount must be positive.'')
      else bindR (amountSub (bondedAmount a) (saSlashed a)) (\<lambda>remaining.
        if amount > remaining
        then Inl (InvalidArgument (''Slash amount exceeds remaining stake for validator '' @ saAddress a))
        else bindR (amountAdd (saSlashed a) amount) (\<lambda>slashed.
          Inr (a\<lparr>saSlashed := slashed, saTombstoned := (saTombstoned a \<or> slashed \<ge> bondedAmount a)\<rparr>))))"

definition jailAccount :: "StakeAccount \<Rightarrow> StakeAccount" where
  "jailAccount a = a\<lparr>saJailed := True\<rparr>"

definition tombstoneAccount :: "StakeAccount \<Rightarrow> StakeAccount" where
  "tombstoneAccount a = a\<lparr>saTombstoned := True, saJailed := True\<rparr>"

definition stakeAccountSerialize :: "StakeAccount \<Rightarrow> string" where
  "stakeAccountSerialize a =
     ''StakeAccount{address='' @ saAddress a @ '';bonded='' @ showI64 (rawUnits (bondedAmount a)) @ '';slashed='' @ showI64 (rawUnits (saSlashed a))
       @ '';jailed='' @ (if saJailed a then ''1'' else ''0'') @ '';tombstoned='' @ (if saTombstoned a then ''1'' else ''0'') @ ''}''"

definition unjailAccount :: "StakeAccount \<Rightarrow> StakeAccount" where
  "unjailAccount a = (if \<not> saTombstoned a then a\<lparr>saJailed := False\<rparr> else a)"

datatype StakePositionStatus = Stake_PENDING_ACTIVATION | Stake_ACTIVE | Stake_UNBONDING | Stake_WITHDRAWN | Stake_TOMBSTONED

record Position =
  positionId :: string
  activeAmount :: Amount
  pendingActivationAmount :: Amount
  pendingUnbondingAmount :: Amount
  withdrawnAmount :: Amount
  posSlashed :: Amount
  rewardsPending :: Amount
  lockHeight :: u64
  posActivationHeight :: u64
  unbondingStartHeight :: u64
  withdrawableHeight :: u64
  unbondingStartTime :: int
  withdrawableTime :: int
  posStatus :: StakePositionStatus

definition emptyPosition :: Position where
  "emptyPosition =
     \<lparr>positionId = [], activeAmount = zeroAmount, pendingActivationAmount = zeroAmount, pendingUnbondingAmount = zeroAmount,
      withdrawnAmount = zeroAmount, posSlashed = zeroAmount, rewardsPending = zeroAmount, lockHeight = 0,
      posActivationHeight = 0, unbondingStartHeight = 0, withdrawableHeight = 0, unbondingStartTime = 0, withdrawableTime = 0,
      posStatus = Stake_PENDING_ACTIVATION\<rparr>"

record StakeLifecycleRecord =
  slId :: string
  slAction :: string
  slTransaction :: string
  slOwner :: string
  slValidator :: string
  slPrevious :: string
  slAmount :: Amount
  activeAfter :: Amount
  pendingActivationAfter :: Amount
  pendingUnbondingAfter :: Amount
  slashedAfter :: Amount
  slHeight :: u64
  slActivationHeight :: u64
  slWithdrawableHeight :: u64
  slReason :: string

record StakingRegistry =
  stAccounts :: "(string, StakeAccount) smap"
  stPositions :: "(string, (string, Position) smap) smap"
  lifecycleRecords :: "StakeLifecycleRecord list"
  rotationSuccessors :: "(string, string) smap"

subsection \<open>The accountability window\<close>

definition kEvidenceMaxAgeBlocks :: u64 where
  "kEvidenceMaxAgeBlocks = 21 * NODO_VALIDATOR_EPOCH_BLOCKS"

definition UNBONDING_DELAY_BLOCKS :: u64 where
  "UNBONDING_DELAY_BLOCKS = 28 * NODO_VALIDATOR_EPOCH_BLOCKS"

definition kUnbondingSeconds :: int where
  "kUnbondingSeconds = 28 * 24 * 60 * 60"

definition kFutureBlockSkewSeconds :: int where
  "kFutureBlockSkewSeconds = 300"

definition evidenceHeightIsAdmissible :: "u64 \<Rightarrow> u64 \<Rightarrow> bool" where
  "evidenceHeightIsAdmissible offenseHeight inclusionHeight \<longleftrightarrow>
     offenseHeight \<noteq> 0 \<and> offenseHeight < inclusionHeight \<and> inclusionHeight - offenseHeight \<le> kEvidenceMaxAgeBlocks"

subsection \<open>Helpers of the registry\<close>

definition isStakeScalar :: "string \<Rightarrow> bool" where
  "isStakeScalar s = isSafeDelimitedText ('';{}[],'' @ [CHR 0x0A, CHR 0x0D, CHR 0x09]) s"

definition safeAvailable :: "StakeAccount \<Rightarrow> Amount result" where
  "safeAvailable a =
     (if bondedAmount a < saSlashed a then Inl (LogicError ''Invalid stake account has slash above bonded amount.'')
      else amountSub (bondedAmount a) (saSlashed a))"

definition positionAvailable :: "Position \<Rightarrow> Amount result" where
  "positionAvailable p =
     bindR (amountAdd (activeAmount p) (pendingActivationAmount p)) (\<lambda>s. amountAdd s (pendingUnbondingAmount p))"

definition withdrawableTimeFrom :: "int \<Rightarrow> int result" where
  "withdrawableTimeFrom timestamp =
     (let delay = kUnbondingSeconds + kFutureBlockSkewSeconds in
      if timestamp \<le> 0 \<or> timestamp > I64_MAX - delay then Inl (OverflowError ''Stake withdrawable time would overflow.'')
      else Inr (timestamp + delay))"

definition statusFor :: "Position \<Rightarrow> StakePositionStatus result" where
  "statusFor p =
     (if posStatus p = Stake_TOMBSTONED then Inr Stake_TOMBSTONED
      else bindR (positionAvailable p) (\<lambda>available.
        Inr (if isZero available then Stake_WITHDRAWN
             else if isPositive (activeAmount p) \<or> isPositive (pendingUnbondingAmount p)
             then (if isPositive (pendingUnbondingAmount p) \<and> isZero (activeAmount p) then Stake_UNBONDING else Stake_ACTIVE)
             else Stake_PENDING_ACTIVATION)))"

definition withStatus :: "Position \<Rightarrow> Position result" where
  "withStatus p = bindR (statusFor p) (\<lambda>s. Inr (p\<lparr>posStatus := s\<rparr>))"

definition requireValidOperationInput :: "string \<Rightarrow> string \<Rightarrow> Amount \<Rightarrow> u64 \<Rightarrow> unit result" where
  "requireValidOperationInput owner validator amount height =
     (if \<not> isStakeScalar owner \<or> \<not> isStakeScalar validator \<or> \<not> isPositive amount \<or> height = 0
      then Inl (InvalidArgument ''Invalid staking lifecycle operation.'') else Inr ())"

definition stakePositionId :: "sha256 \<Rightarrow> string \<Rightarrow> string \<Rightarrow> string" where
  "stakePositionId sha owner validator =
     (if \<not> isStakeScalar owner \<or> \<not> isStakeScalar validator then []
      else nodo_hash_string sha (''stake-position:'' @ validator @ '':'' @ owner))"

definition lifecycleRecordValid :: "StakeLifecycleRecord \<Rightarrow> bool" where
  "lifecycleRecordValid r \<longleftrightarrow>
     slId r \<noteq> [] \<and> slAction r \<noteq> [] \<and> isStakeScalar (slOwner r) \<and> isStakeScalar (slValidator r) \<and>
     (slPrevious r = [] \<or> isStakeScalar (slPrevious r)) \<and>
     ((slAction r = ''VALIDATOR_KEY_ROTATE'') = (slPrevious r \<noteq> [])) \<and>
     (slPrevious r = [] \<or> slPrevious r \<noteq> slValidator r) \<and>
     \<not> isNegative (slAmount r) \<and> \<not> isNegative (activeAfter r) \<and> \<not> isNegative (pendingActivationAfter r) \<and>
     \<not> isNegative (pendingUnbondingAfter r) \<and> \<not> isNegative (slashedAfter r) \<and> slHeight r \<noteq> 0"

definition appendLifecycleRecord ::
    "sha256 \<Rightarrow> string \<Rightarrow> string \<Rightarrow> string \<Rightarrow> string \<Rightarrow> Amount \<Rightarrow> u64 \<Rightarrow> Position \<Rightarrow> string \<Rightarrow> string
       \<Rightarrow> StakeLifecycleRecord list \<Rightarrow> StakeLifecycleRecord list result" where
  "appendLifecycleRecord sha action txid owner validator amount height p reason previous rs =
     (let r = \<lparr>slId = nodo_hash_string sha (''stake-lifecycle:'' @ showNat (length rs) @ '':'' @ action @ '':'' @ validator
                 @ '':'' @ owner @ '':'' @ showU64 height @ '':'' @ showI64 (rawUnits amount) @ '':'' @ txid @ '':'' @ previous),
               slAction = action, slTransaction = txid, slOwner = owner, slValidator = validator, slPrevious = previous,
               slAmount = amount, activeAfter = activeAmount p, pendingActivationAfter = pendingActivationAmount p,
               pendingUnbondingAfter = pendingUnbondingAmount p, slashedAfter = posSlashed p, slHeight = height,
               slActivationHeight = posActivationHeight p, slWithdrawableHeight = withdrawableHeight p, slReason = reason\<rparr>
      in if \<not> lifecycleRecordValid r then Inl (LogicError ''Generated invalid stake lifecycle record.'') else Inr (rs @ [r]))"

definition appendRecord ::
    "sha256 \<Rightarrow> string \<Rightarrow> string \<Rightarrow> string \<Rightarrow> string \<Rightarrow> Amount \<Rightarrow> u64 \<Rightarrow> Position \<Rightarrow> string \<Rightarrow> StakingRegistry \<Rightarrow> StakingRegistry result" where
  "appendRecord sha action txid owner validator amount height p reason reg =
     bindR (appendLifecycleRecord sha action txid owner validator amount height p reason [] (lifecycleRecords reg))
       (\<lambda>rs. Inr (reg\<lparr>lifecycleRecords := rs\<rparr>))"

text \<open>The loop that adds up what the positions of a validator have available, and what they have lost.\<close>

fun sumPositions :: "Amount \<Rightarrow> Amount \<Rightarrow> (string, Position) smap \<Rightarrow> (Amount \<times> Amount) result" where
  "sumPositions available slashed [] = Inr (available, slashed)"
| "sumPositions available slashed (e # es) =
     bindR (bindR (positionAvailable (snd e)) (amountAdd available)) (\<lambda>available'.
     bindR (amountAdd slashed (posSlashed (snd e))) (\<lambda>slashed'. sumPositions available' slashed' es))"

definition positionsOf :: "string \<Rightarrow> StakingRegistry \<Rightarrow> (string, Position) smap" where
  "positionsOf validator reg = (case map_of (stPositions reg) validator of None \<Rightarrow> [] | Some ps \<Rightarrow> ps)"

definition stakeAccountOrDefault :: "StakingRegistry \<Rightarrow> string \<Rightarrow> StakeAccount" where
  "stakeAccountOrDefault reg validator =
     (case map_of (stAccounts reg) validator of
        Some a \<Rightarrow> a
      | None \<Rightarrow> \<lparr>saAddress = validator, bondedAmount = zeroAmount, saSlashed = zeroAmount, saJailed = False, saTombstoned = False\<rparr>)"

subsection \<open>Writing an account\<close>

text \<open>The position a validator itself gets when an account is written that no positions explain.\<close>

definition ownPosition :: "sha256 \<Rightarrow> string \<Rightarrow> StakeAccount \<Rightarrow> Amount \<Rightarrow> Position" where
  "ownPosition sha validator a available =
     emptyPosition\<lparr>positionId := stakePositionId sha validator validator, activeAmount := available, posSlashed := saSlashed a,
       lockHeight := 1, posActivationHeight := 1,
       posStatus := (if saTombstoned a then Stake_TOMBSTONED else if isPositive available then Stake_ACTIVE else Stake_WITHDRAWN)\<rparr>"

definition setAccount :: "sha256 \<Rightarrow> string \<Rightarrow> StakeAccount \<Rightarrow> StakingRegistry \<Rightarrow> StakingRegistry result" where
  "setAccount sha validator a reg =
     (if \<not> isStakeScalar validator \<or> \<not> stakeAccountValid a \<or> saAddress a \<noteq> validator
      then Inl (InvalidArgument ''Staking registry key does not match a valid stake account.'')
      else let ps = positionsOf validator reg in
        bindR (sumPositions zeroAmount zeroAmount ps) (\<lambda>(available, slashed).
        bindR (if ps = [] then Inr True
               else bindR (amountAdd available slashed) (\<lambda>total. Inr (bondedAmount a = total \<and> saSlashed a = slashed))) (\<lambda>explained.
        let kept = (if explained then ps else []) in
        bindR (if kept \<noteq> [] then Inr kept
               else bindR (safeAvailable a) (\<lambda>own.
                 Inr (if isPositive own \<or> isPositive (saSlashed a) then [(validator, ownPosition sha validator a own)] else [])))
          (\<lambda>ps'. Inr (reg\<lparr>stAccounts := mapPut validator a (stAccounts reg),
                           stPositions := mapPut validator ps' (stPositions reg)\<rparr>)))))"

fun rewriteStatuses :: "bool \<Rightarrow> (string, Position) smap \<Rightarrow> (string, Position) smap result" where
  "rewriteStatuses tombstoned [] = Inr []"
| "rewriteStatuses tombstoned (e # es) =
     bindR (if tombstoned then Inr ((snd e)\<lparr>posStatus := Stake_TOMBSTONED\<rparr>) else withStatus (snd e)) (\<lambda>p.
     bindR (rewriteStatuses tombstoned es) (\<lambda>es'. Inr ((fst e, p) # es')))"

definition rewriteAccountFromPositions ::
    "sha256 \<Rightarrow> string \<Rightarrow> bool \<Rightarrow> bool \<Rightarrow> StakingRegistry \<Rightarrow> StakingRegistry result" where
  "rewriteAccountFromPositions sha validator jailed tombstoned reg =
     (case map_of (stPositions reg) validator of
        None \<Rightarrow>
          bindR (newStakeAccount validator zeroAmount zeroAmount (jailed \<or> tombstoned) tombstoned) (\<lambda>a. setAccount sha validator a reg)
      | Some ps \<Rightarrow>
          bindR (rewriteStatuses tombstoned ps) (\<lambda>ps'.
          bindR (sumPositions zeroAmount zeroAmount ps') (\<lambda>(available, slashed).
          bindR (amountAdd available slashed) (\<lambda>bonded.
          bindR (newStakeAccount validator bonded slashed (jailed \<or> tombstoned) tombstoned) (\<lambda>a.
          setAccount sha validator a (reg\<lparr>stPositions := mapPut validator ps' (stPositions reg)\<rparr>))))))"

text \<open>What the operations do after they changed a position: write it, rewrite the account, append a record.\<close>

definition updatePosition ::
    "sha256 \<Rightarrow> string \<Rightarrow> string \<Rightarrow> string \<Rightarrow> string \<Rightarrow> Amount \<Rightarrow> u64 \<Rightarrow> string \<Rightarrow> Position \<Rightarrow> StakingRegistry \<Rightarrow> StakingRegistry result" where
  "updatePosition sha action txid owner validator amount height reason p reg =
     (let current = stakeAccountOrDefault reg validator in
      bindR (withStatus p) (\<lambda>p1.
      bindR (rewriteAccountFromPositions sha validator (saJailed current) (saTombstoned current)
               (reg\<lparr>stPositions := mapPut validator (mapPut owner p1 (positionsOf validator reg)) (stPositions reg)\<rparr>)) (\<lambda>reg1.
      case map_of (positionsOf validator reg1) owner of
        None \<Rightarrow> Inl (OutOfRange ''map::at'')
      | Some p2 \<Rightarrow> appendRecord sha action txid owner validator amount height p2 reason reg1)))"

subsection \<open>The life cycle of stake\<close>

definition deposit :: "sha256 \<Rightarrow> string \<Rightarrow> string \<Rightarrow> Amount \<Rightarrow> u64 \<Rightarrow> bool \<Rightarrow> string \<Rightarrow> StakingRegistry \<Rightarrow> StakingRegistry result" where
  "deposit sha owner validator amount height topUp txid reg =
     bindR (requireValidOperationInput owner validator amount height) (\<lambda>_.
     bindR (setActivationHeight height) (\<lambda>activation.
     if saTombstoned (stakeAccountOrDefault reg validator)
     then Inl (InvalidArgument ''Cannot deposit into a tombstoned validator.'')
     else let found = map_of (positionsOf validator reg) owner in
     if topUp \<and> found = None then Inl (InvalidArgument ''Stake top-up requires an existing owner position.'')
     else if (case found of None \<Rightarrow> False
              | Some p \<Rightarrow> posStatus p = Stake_TOMBSTONED \<or> isPositive (pendingUnbondingAmount p))
     then Inl (InvalidArgument ''Stake top-up requires a non-unbonding live position.'')
     else let p = (case found of None \<Rightarrow> emptyPosition | Some p \<Rightarrow> p);
              p1 = (if positionId p = []
                    then p\<lparr>positionId := stakePositionId sha owner validator, lockHeight := height\<rparr> else p)
     in bindR (amountAdd (pendingActivationAmount p1) amount) (\<lambda>pending.
        updatePosition sha (if topUp then ''TOP_UP'' else ''DEPOSIT'') txid owner validator amount height
          (if topUp then ''stake top-up pending activation'' else ''stake deposit pending activation'')
          (p1\<lparr>pendingActivationAmount := pending, posActivationHeight := activation\<rparr>) reg)))"

text \<open>Moving active stake into the unbonding queue, for both unlocking and exit.\<close>

definition startUnbonding :: "Amount \<Rightarrow> u64 \<Rightarrow> int \<Rightarrow> int \<Rightarrow> Position \<Rightarrow> Position result" where
  "startUnbonding amount height now deadline p =
     bindR (amountSub (activeAmount p) amount) (\<lambda>active.
     bindR (amountAdd (pendingUnbondingAmount p) amount) (\<lambda>unbonding.
     Inr (p\<lparr>activeAmount := active, pendingUnbondingAmount := unbonding, unbondingStartHeight := height,
            withdrawableHeight := height + UNBONDING_DELAY_BLOCKS, unbondingStartTime := now, withdrawableTime := deadline\<rparr>)))"

definition requestUnlock :: "sha256 \<Rightarrow> string \<Rightarrow> string \<Rightarrow> Amount \<Rightarrow> u64 \<Rightarrow> int \<Rightarrow> string \<Rightarrow> StakingRegistry \<Rightarrow> StakingRegistry result" where
  "requestUnlock sha owner validator amount height now txid reg =
     bindR (requireValidOperationInput owner validator amount height) (\<lambda>_.
     if height > U64_MAX - UNBONDING_DELAY_BLOCKS then Inl (OverflowError ''Stake withdrawable height would overflow.'')
     else bindR (withdrawableTimeFrom now) (\<lambda>deadline.
     let current = stakeAccountOrDefault reg validator in
     if saJailed current \<or> saTombstoned current
     then Inl (InvalidArgument ''Jailed or tombstoned validator stake cannot be unlocked.'')
     else if map_of (stPositions reg) validator = None then Inl (InvalidArgument ''Validator has no staking positions.'')
     else case map_of (positionsOf validator reg) owner of
       None \<Rightarrow> Inl (InvalidArgument ''Stake unlock exceeds active owner stake.'')
     | Some p \<Rightarrow>
         if activeAmount p < amount then Inl (InvalidArgument ''Stake unlock exceeds active owner stake.'')
         else bindR (startUnbonding amount height now deadline p) (\<lambda>p1.
              updatePosition sha ''UNLOCK'' txid owner validator amount height ''stake moved to unbonding'' p1 reg)))"

definition withdraw :: "sha256 \<Rightarrow> string \<Rightarrow> string \<Rightarrow> Amount \<Rightarrow> u64 \<Rightarrow> int \<Rightarrow> string \<Rightarrow> StakingRegistry \<Rightarrow> StakingRegistry result" where
  "withdraw sha owner validator amount height now txid reg =
     bindR (requireValidOperationInput owner validator amount height) (\<lambda>_.
     let current = stakeAccountOrDefault reg validator in
     if saJailed current \<or> saTombstoned current
     then Inl (InvalidArgument ''Jailed or tombstoned validator stake cannot be withdrawn.'')
     else if map_of (stPositions reg) validator = None then Inl (InvalidArgument ''Validator has no staking positions.'')
     else case map_of (positionsOf validator reg) owner of
       None \<Rightarrow> Inl (InvalidArgument ''Stake withdrawal exceeds the owner's unbonding position.'')
     | Some p \<Rightarrow>
         if pendingUnbondingAmount p < amount
         then Inl (InvalidArgument ''Stake withdrawal exceeds the owner's unbonding position.'')
         else if withdrawableHeight p = 0 \<or> withdrawableTime p = 0 \<or> height < withdrawableHeight p \<or> now < withdrawableTime p
         then Inl (InvalidArgument ''Stake unbonding cooldown has not elapsed.'')
         else bindR (amountSub (pendingUnbondingAmount p) amount) (\<lambda>unbonding.
              bindR (amountAdd (withdrawnAmount p) amount) (\<lambda>withdrawn.
              updatePosition sha ''WITHDRAW'' txid owner validator amount height ''withdrawable stake credited to liquid account''
                (p\<lparr>pendingUnbondingAmount := unbonding, withdrawnAmount := withdrawn\<rparr>) reg)))"

definition requestValidatorExit :: "sha256 \<Rightarrow> string \<Rightarrow> string \<Rightarrow> u64 \<Rightarrow> int \<Rightarrow> string \<Rightarrow> StakingRegistry \<Rightarrow> StakingRegistry result" where
  "requestValidatorExit sha owner validator height now txid reg =
     (if \<not> isStakeScalar owner \<or> \<not> isStakeScalar validator \<or> height = 0
      then Inl (InvalidArgument ''Invalid validator exit staking operation.'')
      else if height > U64_MAX - UNBONDING_DELAY_BLOCKS then Inl (OverflowError ''Stake withdrawable height would overflow.'')
      else bindR (withdrawableTimeFrom now) (\<lambda>deadline.
        case map_of (positionsOf validator reg) owner of
          None \<Rightarrow> Inr reg
        | Some p \<Rightarrow>
            if isZero (activeAmount p) then Inr reg
            else bindR (startUnbonding (activeAmount p) height now deadline p) (\<lambda>p1.
                 updatePosition sha ''VALIDATOR_EXIT_UNBOND'' txid owner validator (activeAmount p) height
                   ''validator exit moved active stake to unbonding'' p1 reg)))"

subsection \<open>Activation\<close>

fun activatePositions ::
    "sha256 \<Rightarrow> string \<Rightarrow> u64 \<Rightarrow> (string, Position) smap \<Rightarrow> StakeLifecycleRecord list
       \<Rightarrow> (bool \<times> (string, Position) smap \<times> StakeLifecycleRecord list) result" where
  "activatePositions sha validator boundary [] rs = Inr (False, [], rs)"
| "activatePositions sha validator boundary (e # es) rs =
     (let p = snd e in
      if isPositive (pendingActivationAmount p) \<and> posActivationHeight p \<le> boundary
      then bindR (amountAdd (activeAmount p) (pendingActivationAmount p)) (\<lambda>active.
           bindR (withStatus (p\<lparr>activeAmount := active, pendingActivationAmount := zeroAmount\<rparr>)) (\<lambda>p1.
           bindR (appendLifecycleRecord sha ''ACTIVATE'' [] (fst e) validator (pendingActivationAmount p) boundary p1
                    ''pending stake activated at deterministic height'' [] rs) (\<lambda>rs1.
           bindR (activatePositions sha validator boundary es rs1) (\<lambda>(any, es', rs2).
           Inr (True, (fst e, p1) # es', rs2)))))
      else bindR (activatePositions sha validator boundary es rs) (\<lambda>(any, es', rs1). Inr (any, e # es', rs1)))"

text \<open>The flag \<open>changed\<close> (\<open>any\<close> here) is not reset between validators: after the first change every later account is rewritten.\<close>

fun activateValidators :: "sha256 \<Rightarrow> u64 \<Rightarrow> string list \<Rightarrow> bool \<Rightarrow> StakingRegistry \<Rightarrow> (bool \<times> StakingRegistry) result" where
  "activateValidators sha boundary [] any reg = Inr (any, reg)"
| "activateValidators sha boundary (v # vs) any reg =
     (let current = stakeAccountOrDefault reg v in
      if saTombstoned current then activateValidators sha boundary vs any reg
      else bindR (activatePositions sha v boundary (positionsOf v reg) (lifecycleRecords reg)) (\<lambda>(here, ps, rs).
           let reg1 = reg\<lparr>stPositions := mapPut v ps (stPositions reg), lifecycleRecords := rs\<rparr>;
               any' = (any \<or> here)
           in bindR (if any' then rewriteAccountFromPositions sha v (saJailed current) (saTombstoned current) reg1 else Inr reg1)
                (\<lambda>reg2. activateValidators sha boundary vs any' reg2)))"

definition activatePending :: "sha256 \<Rightarrow> u64 \<Rightarrow> StakingRegistry \<Rightarrow> (bool \<times> StakingRegistry) result" where
  "activatePending sha boundary reg =
     (if boundary = 0 then Inr (False, reg) else activateValidators sha boundary (map fst (stPositions reg)) False reg)"

subsection \<open>Penalties\<close>

text \<open>Taking from one of the three amounts of a position; the amount is given by its selector and its update.\<close>

definition slashFrom ::
    "(Position \<Rightarrow> Amount) \<Rightarrow> ((Amount \<Rightarrow> Amount) \<Rightarrow> Position \<Rightarrow> Position) \<Rightarrow> Amount \<Rightarrow> Position \<Rightarrow> (Amount \<times> Amount \<times> Position) result" where
  "slashFrom get upd remaining p =
     (let part = (if get p < remaining then get p else remaining) in
      if isPositive part
      then bindR (amountSub (get p) part) (\<lambda>left.
           bindR (amountAdd (posSlashed p) part) (\<lambda>lost.
           bindR (amountSub remaining part) (\<lambda>rest.
           Inr (part, rest, (upd (\<lambda>_. left) p)\<lparr>posSlashed := lost\<rparr>))))
      else Inr (part, remaining, p))"

definition slashPosition :: "bool \<Rightarrow> Amount \<Rightarrow> Position \<Rightarrow> (Amount \<times> Amount \<times> Position) result" where
  "slashPosition tombstoned remaining p =
     bindR (slashFrom activeAmount activeAmount_update remaining p) (\<lambda>(fromActive, r1, p1).
     bindR (if isPositive r1 then slashFrom pendingActivationAmount pendingActivationAmount_update r1 p1
            else Inr (zeroAmount, r1, p1)) (\<lambda>(fromPending, r2, p2).
     bindR (if isPositive r2 then slashFrom pendingUnbondingAmount pendingUnbondingAmount_update r2 p2
            else Inr (zeroAmount, r2, p2)) (\<lambda>(fromUnbonding, r3, p3).
     bindR (if tombstoned then Inr (p3\<lparr>posStatus := Stake_TOMBSTONED\<rparr>) else withStatus p3) (\<lambda>p4.
     bindR (bindR (amountAdd fromActive fromPending) (\<lambda>a. amountAdd a fromUnbonding)) (\<lambda>applied.
     Inr (applied, r3, p4))))))"

fun slashPositions ::
    "sha256 \<Rightarrow> string \<Rightarrow> bool \<Rightarrow> u64 \<Rightarrow> Amount \<Rightarrow> (string, Position) smap \<Rightarrow> StakeLifecycleRecord list
       \<Rightarrow> (Amount \<times> (string, Position) smap \<times> StakeLifecycleRecord list) result" where
  "slashPositions sha validator tombstoned height remaining [] rs = Inr (remaining, [], rs)"
| "slashPositions sha validator tombstoned height remaining (e # es) rs =
     (if isZero remaining then Inr (remaining, e # es, rs)
      else bindR (slashPosition tombstoned remaining (snd e)) (\<lambda>(applied, rest, p).
           bindR (if isPositive applied
                  then appendLifecycleRecord sha ''SLASH'' [] (fst e) validator applied height p
                         (if tombstoned then ''stake slashed and validator tombstoned'' else ''stake slashed'') [] rs
                  else Inr rs) (\<lambda>rs1.
           bindR (slashPositions sha validator tombstoned height rest es rs1) (\<lambda>(left, es', rs2).
           Inr (left, (fst e, p) # es', rs2)))))"

definition applyPenaltyState ::
    "sha256 \<Rightarrow> string \<Rightarrow> Amount \<Rightarrow> bool \<Rightarrow> bool \<Rightarrow> u64 \<Rightarrow> StakingRegistry \<Rightarrow> StakingRegistry result" where
  "applyPenaltyState sha validator totalSlashed jailed tombstoned height reg =
     (if \<not> isStakeScalar validator \<or> isNegative totalSlashed \<or> height = 0
      then Inl (InvalidArgument ''Invalid staking penalty state.'')
      else let current = stakeAccountOrDefault reg validator in
      if totalSlashed < saSlashed current then Inl (InvalidArgument ''Canonical slashing total cannot decrease.'')
      else bindR (amountSub totalSlashed (saSlashed current)) (\<lambda>remaining.
        bindR (case map_of (stPositions reg) validator of
                 None \<Rightarrow> Inr (remaining, reg)
               | Some ps \<Rightarrow>
                   bindR (slashPositions sha validator tombstoned height remaining ps (lifecycleRecords reg)) (\<lambda>(left, ps', rs).
                   Inr (left, reg\<lparr>stPositions := mapPut validator ps' (stPositions reg), lifecycleRecords := rs\<rparr>))) (\<lambda>(left, reg1).
        if isPositive left then Inl (InvalidArgument ''Canonical slashing total exceeds remaining stake positions.'')
        else bindR (rewriteAccountFromPositions sha validator (jailed \<or> tombstoned) tombstoned reg1) (\<lambda>reg2.
          let rewritten = stakeAccountOrDefault reg2 validator in
          if saSlashed rewritten \<noteq> totalSlashed
          then bindR (newStakeAccount validator (bondedAmount rewritten) totalSlashed (jailed \<or> tombstoned) tombstoned) (\<lambda>a.
               setAccount sha validator a reg2)
          else Inr reg2))))"

definition unjail :: "sha256 \<Rightarrow> string \<Rightarrow> StakingRegistry \<Rightarrow> StakingRegistry result" where
  "unjail sha validator reg =
     (let a = stakeAccountOrDefault reg validator in
      if \<not> stakeAccountValid a \<or> \<not> saJailed a \<or> saTombstoned a
      then Inl (InvalidArgument ''Validator staking state cannot be unjailed.'')
      else setAccount sha validator (unjailAccount a) reg)"

subsection \<open>Validity\<close>

fun followRotation :: "nat \<Rightarrow> (string, string) smap \<Rightarrow> string \<Rightarrow> string result" where
  "followRotation 0 rotations current = Inl (LogicError ''Validator key-rotation chain contains a cycle.'')"
| "followRotation (Suc n) rotations current =
     (case map_of rotations current of None \<Rightarrow> Inr current | Some successor \<Rightarrow> followRotation n rotations successor)"

definition currentAddressFor :: "StakingRegistry \<Rightarrow> string \<Rightarrow> string result" where
  "currentAddressFor reg address = followRotation (length (rotationSuccessors reg) + 1) (rotationSuccessors reg) address"

definition positionValid :: "sha256 \<Rightarrow> string \<Rightarrow> string \<Rightarrow> Position \<Rightarrow> bool" where
  "positionValid sha validator owner p \<longleftrightarrow>
     isStakeScalar owner \<and> positionId p = stakePositionId sha owner validator \<and> lockHeight p \<noteq> 0 \<and> posActivationHeight p \<noteq> 0 \<and>
     \<not> isNegative (activeAmount p) \<and> \<not> isNegative (pendingActivationAmount p) \<and> \<not> isNegative (pendingUnbondingAmount p) \<and>
     \<not> isNegative (withdrawnAmount p) \<and> \<not> isNegative (posSlashed p) \<and> \<not> isNegative (rewardsPending p) \<and>
     0 \<le> unbondingStartTime p \<and> 0 \<le> withdrawableTime p \<and>
     \<not> (isPositive (pendingUnbondingAmount p) \<and>
        (unbondingStartHeight p = 0 \<or> unbondingStartTime p \<le> 0 \<or>
         unbondingStartHeight p > U64_MAX - UNBONDING_DELAY_BLOCKS \<or>
         withdrawableHeight p \<noteq> unbondingStartHeight p + UNBONDING_DELAY_BLOCKS \<or>
         unbondingStartTime p > I64_MAX - kUnbondingSeconds - kFutureBlockSkewSeconds \<or>
         withdrawableTime p \<noteq> unbondingStartTime p + kUnbondingSeconds + kFutureBlockSkewSeconds))"

fun checkPositions :: "sha256 \<Rightarrow> string \<Rightarrow> Amount \<Rightarrow> Amount \<Rightarrow> (string, Position) smap \<Rightarrow> (Amount \<times> Amount) option result" where
  "checkPositions sha validator available slashed [] = Inr (Some (available, slashed))"
| "checkPositions sha validator available slashed (e # es) =
     (if \<not> positionValid sha validator (fst e) (snd e) then Inr None
      else bindR (bindR (positionAvailable (snd e)) (amountAdd available)) (\<lambda>available'.
           bindR (amountAdd slashed (posSlashed (snd e))) (\<lambda>slashed'. checkPositions sha validator available' slashed' es)))"

definition accountExplained :: "sha256 \<Rightarrow> StakingRegistry \<Rightarrow> string \<Rightarrow> (string, Position) smap \<Rightarrow> bool result" where
  "accountExplained sha reg validator ps =
     (if \<not> isStakeScalar validator then Inr False
      else bindR (checkPositions sha validator zeroAmount zeroAmount ps) (\<lambda>sums.
        case sums of
          None \<Rightarrow> Inr False
        | Some (available, slashed) \<Rightarrow>
            (case map_of (stAccounts reg) validator of
               None \<Rightarrow> Inr False
             | Some a \<Rightarrow>
                 if saSlashed a \<noteq> slashed then Inr False
                 else bindR (amountAdd available slashed) (\<lambda>total. Inr (bondedAmount a = total)))))"

fun allExplained :: "sha256 \<Rightarrow> StakingRegistry \<Rightarrow> (string, (string, Position) smap) smap \<Rightarrow> bool result" where
  "allExplained sha reg [] = Inr True"
| "allExplained sha reg (e # es) =
     bindR (accountExplained sha reg (fst e) (snd e)) (\<lambda>ok. if ok then allExplained sha reg es else Inr False)"

text \<open>The rotations that the records tell of, unless two of them disagree.\<close>

fun expectedRotations :: "(string, string) smap \<Rightarrow> StakeLifecycleRecord list \<Rightarrow> (string, string) smap option" where
  "expectedRotations m [] = Some m"
| "expectedRotations m (r # rs) =
     (if \<not> lifecycleRecordValid r then None
      else if slAction r = ''VALIDATOR_KEY_ROTATE''
      then (case map_of m (slPrevious r) of
              None \<Rightarrow> expectedRotations (mapPut (slPrevious r) (slValidator r) m) rs
            | Some v \<Rightarrow> if v \<noteq> slValidator r then None else expectedRotations m rs)
      else expectedRotations m rs)"

definition rotationSound :: "StakingRegistry \<Rightarrow> string \<Rightarrow> bool" where
  "rotationSound reg old \<longleftrightarrow>
     (case currentAddressFor reg old of
        Inl _ \<Rightarrow> False
      | Inr current \<Rightarrow> current \<noteq> old \<and> map_of (stAccounts reg) old = None \<and> map_of (stAccounts reg) current \<noteq> None)"

definition stakingValid :: "sha256 \<Rightarrow> StakingRegistry \<Rightarrow> bool result" where
  "stakingValid sha reg =
     (if \<not> list_all (\<lambda>(address, a). isStakeScalar address \<and> stakeAccountValid a \<and> saAddress a = address) (stAccounts reg)
      then Inr False
      else bindR (allExplained sha reg (stPositions reg)) (\<lambda>ok.
        Inr (ok \<and> expectedRotations [] (lifecycleRecords reg) = Some (rotationSuccessors reg) \<and>
             list_all (rotationSound reg \<circ> fst) (rotationSuccessors reg))))"

subsection \<open>Key rotation\<close>

fun rotateRecords ::
    "sha256 \<Rightarrow> string \<Rightarrow> string \<Rightarrow> u64 \<Rightarrow> string \<Rightarrow> (string, Position) smap \<Rightarrow> StakeLifecycleRecord list
       \<Rightarrow> ((string, Position) smap \<times> StakeLifecycleRecord list) result" where
  "rotateRecords sha old new height txid [] rs = Inr ([], rs)"
| "rotateRecords sha old new height txid (e # es) rs =
     (let p = (snd e)\<lparr>positionId := stakePositionId sha (fst e) new\<rparr> in
      bindR (positionAvailable p) (\<lambda>available.
      bindR (appendLifecycleRecord sha ''VALIDATOR_KEY_ROTATE'' txid (fst e) new available height p
               (''validator key rotation from '' @ old) old rs) (\<lambda>rs1.
      bindR (rotateRecords sha old new height txid es rs1) (\<lambda>(es', rs2). Inr ((fst e, p) # es', rs2)))))"

definition rotateValidatorAddress ::
    "sha256 \<Rightarrow> string \<Rightarrow> string \<Rightarrow> string \<Rightarrow> u64 \<Rightarrow> string \<Rightarrow> StakingRegistry \<Rightarrow> StakingRegistry result" where
  "rotateValidatorAddress sha old new owner height txid reg =
     (if \<not> isStakeScalar old \<or> \<not> isStakeScalar new \<or> \<not> isStakeScalar owner \<or> old = new \<or> height = 0
      then Inl (InvalidArgument ''Invalid validator key rotation staking input.'')
      else if map_of (stAccounts reg) new \<noteq> None \<or> map_of (stPositions reg) new \<noteq> None \<or> map_of (rotationSuccessors reg) new \<noteq> None
      then Inl (InvalidArgument ''New validator address already has staking history or state.'')
      else case (map_of (stAccounts reg) old, map_of (stPositions reg) old) of
        (Some a, Some ps) \<Rightarrow>
          if map_of ps owner = None then Inl (InvalidArgument ''Validator key rotation owner has no stake position.'')
          else bindR (rotateRecords sha old new height txid ps (lifecycleRecords reg)) (\<lambda>(ps', rs).
            bindR (newStakeAccount new (bondedAmount a) (saSlashed a) (saJailed a) (saTombstoned a)) (\<lambda>a'.
            let reg' = \<lparr>stAccounts = mapPut new a' (mapErase old (stAccounts reg)),
                        stPositions = mapPut new ps' (mapErase old (stPositions reg)),
                        lifecycleRecords = rs, rotationSuccessors = snd (mapEmplace old new (rotationSuccessors reg))\<rparr>
            in bindR (stakingValid sha reg') (\<lambda>ok.
               if \<not> ok then Inl (LogicError ''Staking registry failed post key-rotation audit.'') else Inr reg')))
      | _ \<Rightarrow> Inl (InvalidArgument ''Old validator has no staking state to rotate.''))"

subsection \<open>Views and restoring\<close>

record StakePositionView =
  viewOwner :: string
  viewValidator :: string
  viewPosition :: Position

definition viewFor :: "string \<Rightarrow> string \<Rightarrow> Position \<Rightarrow> StakePositionView" where
  "viewFor validator owner p = \<lparr>viewOwner = owner, viewValidator = validator, viewPosition = p\<rparr>"

definition stakePositions :: "StakingRegistry \<Rightarrow> StakePositionView list" where
  "stakePositions reg = concat (map (\<lambda>(validator, ps). map (\<lambda>(owner, p). viewFor validator owner p) ps) (stPositions reg))"

definition positionsForOwner :: "string \<Rightarrow> StakingRegistry \<Rightarrow> StakePositionView list" where
  "positionsForOwner owner reg =
     concat (map (\<lambda>(validator, ps). case map_of ps owner of None \<Rightarrow> [] | Some p \<Rightarrow> [viewFor validator owner p]) (stPositions reg))"

definition positionAmount :: "(Position \<Rightarrow> Amount) \<Rightarrow> string \<Rightarrow> string \<Rightarrow> StakingRegistry \<Rightarrow> Amount" where
  "positionAmount f owner validator reg =
     (case map_of (positionsOf validator reg) owner of None \<Rightarrow> zeroAmount | Some p \<Rightarrow> f p)"

definition ownedStake :: "string \<Rightarrow> string \<Rightarrow> StakingRegistry \<Rightarrow> Amount result" where
  "ownedStake owner validator reg =
     bindR (amountAdd (positionAmount activeAmount owner validator reg) (positionAmount pendingActivationAmount owner validator reg))
       (\<lambda>s. amountAdd s (positionAmount pendingUnbondingAmount owner validator reg))"

definition withdrawableStake :: "string \<Rightarrow> string \<Rightarrow> u64 \<Rightarrow> StakingRegistry \<Rightarrow> Amount" where
  "withdrawableStake owner validator height reg =
     (case map_of (positionsOf validator reg) owner of
        None \<Rightarrow> zeroAmount
      | Some p \<Rightarrow> if withdrawableHeight p = 0 \<or> height < withdrawableHeight p then zeroAmount else pendingUnbondingAmount p)"

definition withdrawableStakeAt :: "string \<Rightarrow> string \<Rightarrow> u64 \<Rightarrow> int \<Rightarrow> StakingRegistry \<Rightarrow> Amount" where
  "withdrawableStakeAt owner validator height now reg =
     (case map_of (positionsOf validator reg) owner of
        None \<Rightarrow> zeroAmount
      | Some p \<Rightarrow> if withdrawableTime p = 0 \<or> now < withdrawableTime p then zeroAmount
                  else withdrawableStake owner validator height reg)"

definition unlockHeight :: "string \<Rightarrow> string \<Rightarrow> StakingRegistry \<Rightarrow> u64" where
  "unlockHeight owner validator reg =
     (case map_of (positionsOf validator reg) owner of None \<Rightarrow> 0 | Some p \<Rightarrow> withdrawableHeight p)"

fun restorePositions ::
    "sha256 \<Rightarrow> StakePositionView list \<Rightarrow> (string, (string, Position) smap) smap \<Rightarrow> (string, (string, Position) smap) smap" where
  "restorePositions sha [] m = m"
| "restorePositions sha (view # views) m =
     (let p = (viewPosition view)\<lparr>positionId := stakePositionId sha (viewOwner view) (viewValidator view)\<rparr>;
          ps = (case map_of m (viewValidator view) of None \<Rightarrow> [] | Some ps \<Rightarrow> ps)
      in restorePositions sha views (mapPut (viewValidator view) (mapPut (viewOwner view) p ps) m))"

fun restoreRotations :: "StakeLifecycleRecord list \<Rightarrow> (string, string) smap \<Rightarrow> (string, string) smap result" where
  "restoreRotations [] m = Inr m"
| "restoreRotations (r # rs) m =
     (if slAction r \<noteq> ''VALIDATOR_KEY_ROTATE'' then restoreRotations rs m
      else let (inserted, m') = mapEmplace (slPrevious r) (slValidator r) m in
           if \<not> inserted \<and> map_of m' (slPrevious r) \<noteq> Some (slValidator r)
           then Inl (InvalidArgument ''Conflicting restored validator key rotations.'')
           else restoreRotations rs m')"

definition restoreStaking ::
    "sha256 \<Rightarrow> (string, StakeAccount) smap \<Rightarrow> StakePositionView list \<Rightarrow> StakeLifecycleRecord list \<Rightarrow> StakingRegistry result" where
  "restoreStaking sha accounts views rs =
     bindR (restoreRotations rs []) (\<lambda>rotations.
       let reg = \<lparr>stAccounts = accounts, stPositions = restorePositions sha views [], lifecycleRecords = rs, rotationSuccessors = rotations\<rparr>
       in bindR (stakingValid sha reg) (\<lambda>ok.
          if \<not> ok then Inl (InvalidArgument ''Restored StakingRegistry failed structural validation.'') else Inr reg))"

subsection \<open>Weights at an epoch boundary\<close>

fun addActive :: "Amount \<Rightarrow> (string, Position) smap \<Rightarrow> Amount result" where
  "addActive acc [] = Inr acc"
| "addActive acc (e # es) =
     (if posStatus (snd e) \<noteq> Stake_TOMBSTONED
      then bindR (amountAdd acc (activeAmount (snd e))) (\<lambda>acc'. addActive acc' es) else addActive acc es)"

definition activeStakeFor :: "StakingRegistry \<Rightarrow> string \<Rightarrow> Amount result" where
  "activeStakeFor reg validator =
     (case map_of (stAccounts reg) validator of
        None \<Rightarrow> addActive zeroAmount (positionsOf validator reg)
      | Some a \<Rightarrow>
          if saJailed a \<or> saTombstoned a then Inr zeroAmount
          else if positionsOf validator reg = [] then safeAvailable a else addActive zeroAmount (positionsOf validator reg))"

fun projectStakes ::
    "sha256 \<Rightarrow> StakingRegistry \<Rightarrow> int \<Rightarrow> ValidatorRegistry \<Rightarrow> string list \<Rightarrow> ValidatorRegistry \<Rightarrow> ValidatorRegistry result" where
  "projectStakes sha staking timestamp validators [] projected = Inr projected"
| "projectStakes sha staking timestamp validators (address # rest) projected =
     (case map_of validators address of
        None \<Rightarrow> Inl (LogicError ''Validator registry enumeration returned an unknown address.'')
      | Some current \<Rightarrow>
          bindR (activeStakeFor staking address) (\<lambda>active.
          if rawUnits active < 0 then Inl (LogicError ''Validator active stake cannot be negative.'')
          else if stakeAmount current = word_of_int (rawUnits active) then projectStakes sha staking timestamp validators rest projected
          else let (update, projected') = updateStake sha address (word_of_int (rawUnits active)) timestamp projected in
               if \<not> updSuccess update
               then Inl (LogicError (''Validator stake could not be projected into the epoch set: '' @ updReason update))
               else projectStakes sha staking timestamp validators rest projected'))"

definition weightEpochBoundary :: "u64 \<Rightarrow> bool" where
  "weightEpochBoundary height \<longleftrightarrow> height > 0 \<and> height mod NODO_VALIDATOR_EPOCH_BLOCKS = 0"

definition epochIndexForBlock :: "u64 \<Rightarrow> u64 result" where
  "epochIndexForBlock height =
     (if height = 0 then Inl (InvalidArgument ''Cannot calculate validator epoch for genesis height.'')
      else Inr ((height - 1) div NODO_VALIDATOR_EPOCH_BLOCKS + 1))"

definition effectiveEpochForBoundary :: "u64 \<Rightarrow> u64 result" where
  "effectiveEpochForBoundary height =
     (if \<not> weightEpochBoundary height
      then Inl (InvalidArgument ''Validator weight update height is not an epoch boundary.'')
      else bindR (epochIndexForBlock height) (\<lambda>completed.
        if completed = U64_MAX then Inl (OverflowError ''Effective validator epoch would overflow.'') else Inr (completed + 1)))"

definition synchronizeAtEpochBoundary ::
    "sha256 \<Rightarrow> u64 \<Rightarrow> int \<Rightarrow> StakingRegistry \<Rightarrow> ValidatorRegistry \<Rightarrow> (bool \<times> ValidatorRegistry) result" where
  "synchronizeAtEpochBoundary sha height timestamp staking validators =
     (if height = 0 \<or> timestamp \<le> 0
      then Inl (InvalidArgument ''Validator weight reconciliation requires a finalized height and timestamp.'')
      else if \<not> weightEpochBoundary height then Inr (False, validators)
      else bindR (stakingValid sha staking) (\<lambda>ok.
        if \<not> ok then Inl (InvalidArgument ''Validator weight reconciliation received an invalid staking registry.'')
        else if \<not> validatorsValid sha validators
        then Inl (InvalidArgument ''Validator weight reconciliation received an invalid validator registry.'')
        else bindR (projectStakes sha staking timestamp validators (validatorAddresses validators) validators) (\<lambda>projected.
          if \<not> validatorsValid sha projected
          then Inl (LogicError ''Epoch validator weight projection produced an invalid registry.'')
          else Inr (True, projected))))"

subsection \<open>Genesis stake\<close>

text \<open>\<open>seedGenesisStakeAccounts\<close> of \<open>src/node/ProtocolStateTransition.cpp\<close>; the cast of the stake to a signed integer keeps its bits.\<close>

fun seedStakes :: "sha256 \<Rightarrow> ValidatorRegistry \<Rightarrow> string list \<Rightarrow> StakingRegistry \<Rightarrow> StakingRegistry result" where
  "seedStakes sha validators [] staking = Inr staking"
| "seedStakes sha validators (address # rest) staking =
     (case map_of validators address of
        None \<Rightarrow> seedStakes sha validators rest staking
      | Some e \<Rightarrow>
          if stakeAmount e > 0 \<and> map_of (stAccounts staking) address = None
          then bindR (fromRawUnits (sint (stakeAmount e))) (\<lambda>amount.
               bindR (setAccount sha address \<lparr>saAddress = address, bondedAmount = amount, saSlashed = zeroAmount, saJailed = False,
                                                saTombstoned = False\<rparr> staking) (\<lambda>staking'.
               seedStakes sha validators rest staking'))
          else seedStakes sha validators rest staking)"

definition seedGenesisStakeAccounts :: "sha256 \<Rightarrow> ValidatorRegistry \<Rightarrow> StakingRegistry \<Rightarrow> StakingRegistry result" where
  "seedGenesisStakeAccounts sha validators staking = seedStakes sha validators (activeValidatorAddresses validators) staking"

end
