(* ===== verification/StakingRules.thy ===== *)
theory StakingRules
  imports Staking
begin

section \<open>Staking: validity, accounting and the accountability window\<close>

text \<open>
  What the registry of \<open>Staking\<close> guarantees: every operation keeps it valid (\<open>StakingRegistry::isValid\<close>), and
  changes the stake held, lost and paid out by exactly the amounts it says; stake leaves only when no evidence
  against it can be admitted any more. The exception is a deposit into an address that was rotated away.
\<close>

subsection \<open>Amounts of positions\<close>

lemma amountAdd_Inr [simp]:
  "amountOk a \<Longrightarrow> amountOk b \<Longrightarrow>
     amountAdd a b = Inr c \<longleftrightarrow> c = Amount (rawUnits a + rawUnits b) \<and> rawUnits a + rawUnits b \<le> I64_MAX"
  by (auto simp: amountAdd_ok)

lemma amountSub_Inr [simp]:
  "amountOk a \<Longrightarrow> amountOk b \<Longrightarrow>
     amountSub a b = Inr c \<longleftrightarrow> c = Amount (rawUnits a - rawUnits b) \<and> rawUnits b \<le> rawUnits a"
  by (auto simp: amountSub_ok)

lemma amountOk_nonneg: "amountOk a \<Longrightarrow> 0 \<le> rawUnits a"
  by (simp add: amountOk_def)

lemma amountOk_Amount [simp]: "amountOk (Amount n) \<longleftrightarrow> 0 \<le> n \<and> n \<le> I64_MAX"
  by (simp add: amountOk_def)

definition posOk :: "Position \<Rightarrow> bool" where
  "posOk p \<longleftrightarrow> amountOk (activeAmount p) \<and> amountOk (pendingActivationAmount p) \<and> amountOk (pendingUnbondingAmount p) \<and>
     amountOk (withdrawnAmount p) \<and> amountOk (posSlashed p) \<and> amountOk (rewardsPending p)"

definition avail :: "Position \<Rightarrow> int" where
  "avail p = rawUnits (activeAmount p) + rawUnits (pendingActivationAmount p) + rawUnits (pendingUnbondingAmount p)"

definition lost :: "Position \<Rightarrow> int" where
  "lost p = rawUnits (posSlashed p)"

definition paidOut :: "Position \<Rightarrow> int" where
  "paidOut p = rawUnits (withdrawnAmount p)"

definition sumOver :: "('v \<Rightarrow> int) \<Rightarrow> ('k, 'v) smap \<Rightarrow> int" where
  "sumOver f m = (\<Sum>e\<leftarrow>m. f (snd e))"

lemma sumOver_simps [simp]: "sumOver f [] = 0" "sumOver f (e # m) = f (snd e) + sumOver f m"
  by (simp_all add: sumOver_def)

lemma sumOver_put:
  "mapOk m \<Longrightarrow> sumOver f (mapPut k v m) = sumOver f m - (case map_of m k of None \<Rightarrow> 0 | Some w \<Rightarrow> f w) + f v"
  by (induction m) (auto split: option.split dest!: map_of_SomeD)

lemma sumOver_nonneg: "\<forall>e\<in>set m. 0 \<le> f (snd e) \<Longrightarrow> 0 \<le> sumOver f m"
  by (induction m) auto

abbreviation allOk :: "(string, Position) smap \<Rightarrow> bool" where
  "allOk ps \<equiv> \<forall>e\<in>set ps. posOk (snd e)"

lemma avail_nonneg: "posOk p \<Longrightarrow> 0 \<le> avail p" and lost_nonneg: "posOk p \<Longrightarrow> 0 \<le> lost p"
  by (auto simp: posOk_def avail_def lost_def dest!: amountOk_nonneg)

lemma positionAvailable_Inr:
  "posOk p \<Longrightarrow> positionAvailable p = Inr a \<longleftrightarrow> a = Amount (avail p) \<and> avail p \<le> I64_MAX"
  by (auto simp: positionAvailable_def posOk_def avail_def amountAdd_ok amountOk_def)

lemma sumPositions_Inr:
  assumes "amountOk a" and "amountOk s" and "allOk ps" and "sumPositions a s ps = Inr (a', s')"
  shows "a' = Amount (rawUnits a + sumOver avail ps) \<and> s' = Amount (rawUnits s + sumOver lost ps) \<and> amountOk a' \<and> amountOk s'"
  using assms
proof (induction ps arbitrary: a s)
  case Nil
  then show ?case by (cases a; cases s) auto
next
  case (Cons e ps)
  have p: "posOk (snd e)" and ok: "amountOk (posSlashed (snd e))" using Cons.prems by (auto simp: posOk_def)
  obtain a1 s1 where a1: "bindR (positionAvailable (snd e)) (amountAdd a) = Inr a1"
    and s1: "amountAdd s (posSlashed (snd e)) = Inr s1" and rest: "sumPositions a1 s1 ps = Inr (a', s')"
    using Cons.prems(4) by auto
  have "a1 = Amount (rawUnits a + avail (snd e)) \<and> amountOk a1"
    using a1 p Cons.prems(1) avail_nonneg [OF p] by (auto simp: positionAvailable_Inr amountAdd_ok amountOk_nonneg split: if_splits)
  moreover have "s1 = Amount (rawUnits s + lost (snd e)) \<and> amountOk s1"
    using s1 ok Cons.prems(2) by (auto simp: lost_def amountOk_nonneg)
  ultimately show ?case using Cons.IH [of a1 s1] rest Cons.prems(3) by (auto simp: algebra_simps)
qed

lemma sumPositions_from_zero:
  assumes "allOk ps" and "sumPositions zeroAmount zeroAmount ps = Inr (a, s)"
  shows "a = Amount (sumOver avail ps)" "s = Amount (sumOver lost ps)" "amountOk a" "amountOk s"
  using sumPositions_Inr [OF _ _ assms] by (auto simp: zeroAmount_def I64_MAX_def)

subsection \<open>Writing an account\<close>

definition explains :: "string \<Rightarrow> (string, Position) smap \<Rightarrow> StakeAccount \<Rightarrow> bool" where
  "explains v ps a \<longleftrightarrow> isStakeScalar v \<and> saAddress a = v \<and> sumOver avail ps + sumOver lost ps \<le> I64_MAX \<and>
     bondedAmount a = Amount (sumOver avail ps + sumOver lost ps) \<and> saSlashed a = Amount (sumOver lost ps)"

text \<open>Records that an operation other than key rotation appends.\<close>

definition plainRecord :: "StakeLifecycleRecord \<Rightarrow> bool" where
  "plainRecord r \<longleftrightarrow> lifecycleRecordValid r \<and> slAction r \<noteq> ''VALIDATOR_KEY_ROTATE''"

text \<open>The effect every operation but key rotation has: new positions of one validator, their account, more records.\<close>

definition writes :: "string \<Rightarrow> (string, Position) smap \<Rightarrow> StakingRegistry \<Rightarrow> StakingRegistry \<Rightarrow> bool" where
  "writes v ps reg reg' \<longleftrightarrow>
     stPositions reg' = mapPut v ps (stPositions reg) \<and>
     (\<exists>a. stAccounts reg' = mapPut v a (stAccounts reg) \<and> explains v ps a) \<and>
     rotationSuccessors reg' = rotationSuccessors reg \<and>
     (\<exists>new. lifecycleRecords reg' = lifecycleRecords reg @ new \<and> list_all plainRecord new)"

lemma sums_nonneg: "allOk ps \<Longrightarrow> 0 \<le> sumOver avail ps" "allOk ps \<Longrightarrow> 0 \<le> sumOver lost ps"
  by (auto intro!: sumOver_nonneg avail_nonneg lost_nonneg)

lemma explains_valid: "explains v ps a \<Longrightarrow> allOk ps \<Longrightarrow> stakeAccountValid a"
  using sums_nonneg [of ps]
  by (auto simp: explains_def stakeAccountValid_def isNegative_def less_eq_Amount_def isStakeScalar_def isSafeDelimitedText_def)

lemma setAccount_explained:
  assumes ok: "allOk ps" and ps: "map_of (stPositions reg) v = Some ps"
    and bonded: "bondedAmount a = Amount (sumOver avail ps + sumOver lost ps)" and slashed: "saSlashed a = Amount (sumOver lost ps)"
    and set: "setAccount sha v a reg = Inr reg'"
  shows "reg' = reg\<lparr>stAccounts := mapPut v a (stAccounts reg), stPositions := mapPut v ps (stPositions reg)\<rparr> \<and> explains v ps a"
proof -
  have pos: "positionsOf v reg = ps" using ps by (simp add: positionsOf_def)
  have guard: "isStakeScalar v" "saAddress a = v" "stakeAccountValid a" using set by (auto simp: setAccount_def split: if_splits)
  obtain x s where xs: "sumPositions zeroAmount zeroAmount ps = Inr (x, s)"
    using set guard pos by (auto simp: setAccount_def Let_def split: if_splits)
  note sums = sumPositions_from_zero [OF ok xs]
  show ?thesis
  proof (cases "ps = []")
    case True
    have "safeAvailable a = Inr (Amount 0)" using bonded slashed True by (simp add: safeAvailable_def amountSub_def newAmount_def)
    then have "reg' = reg\<lparr>stAccounts := mapPut v a (stAccounts reg), stPositions := mapPut v [] (stPositions reg)\<rparr>"
      using set guard pos True slashed by (simp add: setAccount_def isPositive_def)
    then show ?thesis using True guard bonded slashed by (simp add: explains_def I64_MAX_def)
  next
    case False
    then have fits: "sumOver avail ps + sumOver lost ps \<le> I64_MAX"
      using set guard pos xs sums by (auto simp: setAccount_def Let_def)
    then have "amountAdd x s = Inr (bondedAmount a)" using sums bonded by simp
    then have "reg' = reg\<lparr>stAccounts := mapPut v a (stAccounts reg), stPositions := mapPut v ps (stPositions reg)\<rparr>"
      using set guard pos xs sums slashed False by (simp add: setAccount_def)
    then show ?thesis using fits guard bonded slashed by (simp add: explains_def)
  qed
qed

text \<open>Rewriting the statuses changes nothing that is accounted for.\<close>

definition sameButStatus :: "Position \<Rightarrow> Position \<Rightarrow> bool" where
  "sameButStatus p q \<longleftrightarrow> (\<exists>s. q = p\<lparr>posStatus := s\<rparr>)"

definition sameStakes :: "(string, Position) smap \<Rightarrow> (string, Position) smap \<Rightarrow> bool" where
  "sameStakes ps qs \<longleftrightarrow> list_all2 (\<lambda>e f. fst f = fst e \<and> sameButStatus (snd e) (snd f)) ps qs"

lemma withStatus_same: "withStatus p = Inr q \<Longrightarrow> sameButStatus p q"
  by (auto simp: withStatus_def sameButStatus_def)

lemma sameButStatus_simps:
  assumes "sameButStatus p q"
  shows "avail q = avail p" "lost q = lost p" "paidOut q = paidOut p" "posOk q = posOk p"
    "positionValid sha v o' q = positionValid sha v o' p"
  using assms by (auto simp: sameButStatus_def avail_def lost_def paidOut_def posOk_def positionValid_def)

lemma rewriteStatuses_same: "rewriteStatuses t ps = Inr qs \<Longrightarrow> sameStakes ps qs"
proof (induction ps arbitrary: qs)
  case (Cons e ps)
  then show ?case
    by (auto simp: sameStakes_def dest: withStatus_same split: if_splits) (auto simp: sameButStatus_def)
qed (simp add: sameStakes_def)

lemma sameStakes_simps:
  assumes "sameStakes ps qs"
  shows "sumOver avail qs = sumOver avail ps" "sumOver lost qs = sumOver lost ps" "sumOver paidOut qs = sumOver paidOut ps"
    "allOk qs = allOk ps" "(\<forall>e\<in>set qs. positionValid sha v (fst e) (snd e)) = (\<forall>e\<in>set ps. positionValid sha v (fst e) (snd e))"
    "map fst qs = map fst ps"
  using assms unfolding sameStakes_def
  by (induction rule: list_all2_induct) (auto simp: sameButStatus_simps)

lemma sameButStatus_refl: "sameButStatus p p"
  by (auto simp: sameButStatus_def intro: exI [of _ "posStatus p"])

lemma sameStakes_refl: "sameStakes ps ps"
  by (induction ps) (auto simp: sameStakes_def sameButStatus_refl)

lemma sameStakes_trans: "sameStakes ps qs \<Longrightarrow> sameStakes qs rs \<Longrightarrow> sameStakes ps rs"
  unfolding sameStakes_def by (erule (1) list_all2_trans [rotated]) (auto simp: sameButStatus_def)

lemma sameStakes_put: "sameButStatus p q \<Longrightarrow> sameStakes (mapPut w p ps) (mapPut w q ps)"
  using sameStakes_refl by (induction ps) (auto simp: sameStakes_def sameButStatus_refl)

lemma rewriteAccount_writes:
  assumes maps: "mapOk (stPositions reg)" and ps: "map_of (stPositions reg) v = Some ps" and ok: "allOk ps"
    and rw: "rewriteAccountFromPositions sha v j t reg = Inr reg'"
  shows "\<exists>qs. sameStakes ps qs \<and> writes v qs reg reg' \<and> lifecycleRecords reg' = lifecycleRecords reg"
proof -
  obtain qs x s bonded a where qs: "rewriteStatuses t ps = Inr qs" and xs: "sumPositions zeroAmount zeroAmount qs = Inr (x, s)"
    and bonded: "amountAdd x s = Inr bonded" and a: "newStakeAccount v bonded s (j \<or> t) t = Inr a"
    and set: "setAccount sha v a (reg\<lparr>stPositions := mapPut v qs (stPositions reg)\<rparr>) = Inr reg'"
    using rw ps by (auto simp: rewriteAccountFromPositions_def)
  note same = rewriteStatuses_same [OF qs]
  have ok': "allOk qs" using ok by (simp add: sameStakes_simps(4) [OF same])
  note sums = sumPositions_from_zero [OF ok' xs]
  have "a = \<lparr>saAddress = v, bondedAmount = bonded, saSlashed = s, saJailed = j \<or> t, saTombstoned = t\<rparr>"
    using a by (auto simp: newStakeAccount_def Let_def split: if_splits)
  moreover have "bonded = Amount (sumOver avail qs + sumOver lost qs)" using bonded sums by simp
  ultimately have "reg' = reg\<lparr>stAccounts := mapPut v a (stAccounts reg), stPositions := mapPut v qs (mapPut v qs (stPositions reg))\<rparr>
      \<and> explains v qs a"
    using setAccount_explained [OF ok' _ _ _ set] sums by auto
  then show ?thesis using same maps by (auto simp: writes_def mapPut_twice)
qed

subsection \<open>The invariant\<close>

text \<open>What the C++ types give: sorted maps and amounts in range.\<close>

definition stakeTyped :: "StakingRegistry \<Rightarrow> bool" where
  "stakeTyped reg \<longleftrightarrow> mapOk (stAccounts reg) \<and> mapOk (stPositions reg) \<and> mapOk (rotationSuccessors reg) \<and>
     (\<forall>e\<in>set (stPositions reg). mapOk (snd e) \<and> allOk (snd e)) \<and>
     (\<forall>e\<in>set (stAccounts reg). amountOk (bondedAmount (snd e)) \<and> amountOk (saSlashed (snd e)))"

text \<open>Writing an account always writes its positions too, so every account has them.\<close>

definition stakeBacked :: "StakingRegistry \<Rightarrow> bool" where
  "stakeBacked reg \<longleftrightarrow> (\<forall>e\<in>set (stAccounts reg). map_of (stPositions reg) (fst e) \<noteq> None)"

definition stakeInv :: "sha256 \<Rightarrow> StakingRegistry \<Rightarrow> bool" where
  "stakeInv sha reg \<longleftrightarrow> stakeTyped reg \<and> stakeBacked reg \<and> stakingValid sha reg = Inr True"

definition positionsValid :: "sha256 \<Rightarrow> string \<Rightarrow> (string, Position) smap \<Rightarrow> bool" where
  "positionsValid sha v ps \<longleftrightarrow> (\<forall>e\<in>set ps. positionValid sha v (fst e) (snd e))"

definition accountsSound :: "StakingRegistry \<Rightarrow> bool" where
  "accountsSound reg \<longleftrightarrow> (\<forall>e\<in>set (stAccounts reg). isStakeScalar (fst e) \<and> stakeAccountValid (snd e) \<and> saAddress (snd e) = fst e)"

definition positionsSound :: "sha256 \<Rightarrow> StakingRegistry \<Rightarrow> bool" where
  "positionsSound sha reg \<longleftrightarrow> (\<forall>e\<in>set (stPositions reg). positionsValid sha (fst e) (snd e) \<and>
     (\<exists>a. map_of (stAccounts reg) (fst e) = Some a \<and> explains (fst e) (snd e) a))"

definition rotationsSound :: "StakingRegistry \<Rightarrow> bool" where
  "rotationsSound reg \<longleftrightarrow> expectedRotations [] (lifecycleRecords reg) = Some (rotationSuccessors reg) \<and>
     (\<forall>e\<in>set (rotationSuccessors reg). rotationSound reg (fst e))"

lemma sumPositions_fits:
  assumes "amountOk a" and "amountOk s" and "allOk ps"
    and "rawUnits a + sumOver avail ps \<le> I64_MAX" and "rawUnits s + sumOver lost ps \<le> I64_MAX"
  shows "\<exists>r. sumPositions a s ps = Inr r"
  using assms
proof (induction ps arbitrary: a s)
  case (Cons e ps)
  have p: "posOk (snd e)" and rest: "allOk ps" and ok: "amountOk (posSlashed (snd e))"
    using Cons.prems(3) by (auto simp: posOk_def)
  note nn = avail_nonneg [OF p] lost_nonneg [OF p] sums_nonneg [OF rest] amountOk_nonneg [OF Cons.prems(1)] amountOk_nonneg [OF Cons.prems(2)]
  have "positionAvailable (snd e) = Inr (Amount (avail (snd e)))" using positionAvailable_Inr [OF p] Cons.prems(4) nn by auto
  moreover have "amountAdd a (Amount (avail (snd e))) = Inr (Amount (rawUnits a + avail (snd e)))" using Cons.prems nn by simp
  moreover have "amountAdd s (posSlashed (snd e)) = Inr (Amount (rawUnits s + lost (snd e)))"
    using Cons.prems ok nn by (simp add: lost_def [symmetric])
  moreover have "\<exists>r. sumPositions (Amount (rawUnits a + avail (snd e))) (Amount (rawUnits s + lost (snd e))) ps = Inr r"
    using Cons.prems nn by (intro Cons.IH) (auto simp: algebra_simps)
  ultimately show ?case by (simp del: bindR_Inr_iff)
qed simp

lemma checkPositions_Some:
  "checkPositions sha v a s ps = Inr (Some r) \<longleftrightarrow> positionsValid sha v ps \<and> sumPositions a s ps = Inr r"
  by (induction ps arbitrary: a s) (auto simp: positionsValid_def)

lemma accountExplained_iff:
  assumes ok: "allOk ps"
  shows "accountExplained sha reg v ps = Inr True \<longleftrightarrow>
           isStakeScalar v \<and> positionsValid sha v ps \<and>
           (\<exists>a. map_of (stAccounts reg) v = Some a \<and> sumOver avail ps + sumOver lost ps \<le> I64_MAX \<and>
                bondedAmount a = Amount (sumOver avail ps + sumOver lost ps) \<and> saSlashed a = Amount (sumOver lost ps))"
    (is "?l \<longleftrightarrow> ?r")
proof
  assume l: ?l
  then have "isStakeScalar v" by (auto simp: accountExplained_def split: if_splits)
  then obtain sums where sums: "checkPositions sha v zeroAmount zeroAmount ps = Inr sums"
    using l by (auto simp: accountExplained_def)
  then obtain x s where check: "checkPositions sha v zeroAmount zeroAmount ps = Inr (Some (x, s))"
    using l \<open>isStakeScalar v\<close> by (cases sums) (auto simp: accountExplained_def)
  then have acct: "\<exists>a. map_of (stAccounts reg) v = Some a \<and> saSlashed a = s \<and> amountAdd x s = Inr (bondedAmount a)"
    using l \<open>isStakeScalar v\<close> by (auto simp: accountExplained_def split: option.splits if_splits)
  have "positionsValid sha v ps" and xs: "sumPositions zeroAmount zeroAmount ps = Inr (x, s)"
    using check by (auto simp: checkPositions_Some)
  then show ?r using \<open>isStakeScalar v\<close> acct sumPositions_from_zero [OF ok xs] by auto
next
  assume r: ?r
  then obtain x s where xs: "sumPositions zeroAmount zeroAmount ps = Inr (x, s)"
    using sumPositions_fits [of zeroAmount zeroAmount ps] ok sums_nonneg [OF ok] by (auto simp: zeroAmount_def I64_MAX_def)
  then have "checkPositions sha v zeroAmount zeroAmount ps = Inr (Some (x, s))" using r by (auto simp: checkPositions_Some)
  then show ?l using r sumPositions_from_zero [OF ok xs] by (auto simp: accountExplained_def)
qed

lemma allExplained_iff: "allExplained sha reg m = Inr True \<longleftrightarrow> (\<forall>e\<in>set m. accountExplained sha reg (fst e) (snd e) = Inr True)"
  by (induction m) auto

lemma stakingValid_iff:
  assumes "stakeTyped reg"
  shows "stakingValid sha reg = Inr True \<longleftrightarrow> accountsSound reg \<and> positionsSound sha reg \<and> rotationsSound reg"
proof -
  have acc: "list_all (\<lambda>(address, a). isStakeScalar address \<and> stakeAccountValid a \<and> saAddress a = address) (stAccounts reg) = accountsSound reg"
    by (auto simp: list_all_iff accountsSound_def)
  have "allExplained sha reg (stPositions reg) = Inr True \<longleftrightarrow> positionsSound sha reg" if "accountsSound reg"
  proof -
    have "saAddress a = v" if "map_of (stAccounts reg) v = Some a" for v a
      using map_of_SomeD [OF that] \<open>accountsSound reg\<close> by (force simp: accountsSound_def)
    moreover have "allOk (snd e)" if "e \<in> set (stPositions reg)" for e using assms that by (auto simp: stakeTyped_def)
    ultimately show ?thesis
      by (fastforce simp: allExplained_iff accountExplained_iff positionsSound_def explains_def)
  qed
  then show ?thesis using acc by (auto simp: stakingValid_def rotationsSound_def list_all_iff)
qed

lemma stakeInvI:
  "stakeTyped reg \<Longrightarrow> stakeBacked reg \<Longrightarrow> accountsSound reg \<Longrightarrow> positionsSound sha reg \<Longrightarrow> rotationsSound reg \<Longrightarrow> stakeInv sha reg"
  by (simp add: stakeInv_def stakingValid_iff)

lemma stakeInvD:
  assumes "stakeInv sha reg"
  shows "stakeTyped reg" "accountsSound reg" "positionsSound sha reg" "rotationsSound reg" "stakeBacked reg"
  using assms stakingValid_iff by (auto simp: stakeInv_def)

abbreviation unrotated :: "StakingRegistry \<Rightarrow> string \<Rightarrow> bool" where
  "unrotated reg v \<equiv> map_of (rotationSuccessors reg) v = None"

lemma account_unrotated:
  assumes "stakeInv sha reg" and "map_of (stAccounts reg) v = Some a"
  shows "unrotated reg v"
proof (rule ccontr)
  assume "\<not> unrotated reg v"
  then have "rotationSound reg v"
    using stakeInvD(4) [OF assms(1)] by (auto simp: rotationsSound_def dest!: map_of_SomeD)
  then show False using assms(2) by (auto simp: rotationSound_def split: sum.splits)
qed

lemma positions_account:
  assumes "stakeInv sha reg" and "map_of (stPositions reg) v = Some ps"
  shows "\<exists>a. map_of (stAccounts reg) v = Some a \<and> explains v ps a" "positionsValid sha v ps" "allOk ps" "mapOk ps"
proof -
  note inv = stakeInvD [OF assms(1)] and mem = map_of_SomeD [OF assms(2)]
  show "\<exists>a. map_of (stAccounts reg) v = Some a \<and> explains v ps a" "positionsValid sha v ps"
    using inv(3) mem by (auto simp: positionsSound_def)
  show "allOk ps" "mapOk ps" using inv(1) mem by (auto simp: stakeTyped_def)
qed

lemma positions_unrotated: "stakeInv sha reg \<Longrightarrow> map_of (stPositions reg) v = Some ps \<Longrightarrow> unrotated reg v"
  using account_unrotated positions_account(1) by blast

lemma positionsOf_ok:
  assumes "stakeInv sha reg"
  shows "allOk (positionsOf v reg)" "mapOk (positionsOf v reg)" "positionsValid sha v (positionsOf v reg)"
  using positions_account [OF assms, of v]
  by (cases "map_of (stPositions reg) v"; simp add: positionsOf_def positionsValid_def)+

lemma position_ok:
  assumes "stakeInv sha reg" and "map_of (positionsOf v reg) w = Some p"
  shows "posOk p" "positionValid sha v w p"
  using positionsOf_ok [OF assms(1), of v] map_of_SomeD [OF assms(2)] by (auto simp: positionsValid_def)

lemma position_map: "map_of (positionsOf v reg) w = Some p \<Longrightarrow> \<exists>ps. map_of (stPositions reg) v = Some ps"
  by (auto simp: positionsOf_def split: option.splits)

lemma expectedRotations_plain: "list_all plainRecord new \<Longrightarrow> expectedRotations m (rs @ new) = expectedRotations m rs"
proof (induction rs arbitrary: m)
  case Nil
  then show ?case by (induction new) (auto simp: plainRecord_def)
qed (auto split: option.split)

lemma rotationSound_mono:
  assumes "rotationSound reg old" and "rotationSuccessors reg' = rotationSuccessors reg" and "old \<noteq> v"
    and "map_of (stAccounts reg') = (map_of (stAccounts reg))(v \<mapsto> a)"
  shows "rotationSound reg' old"
  using assms by (auto simp: rotationSound_def currentAddressFor_def split: sum.splits)

lemma writes_inv:
  assumes inv: "stakeInv sha reg" and w: "writes v ps reg reg'" and valid: "positionsValid sha v ps"
    and ok: "allOk ps" "mapOk ps" and free: "unrotated reg v"
  shows "stakeInv sha reg'"
proof -
  note inv = stakeInvD [OF inv]
  obtain a new where acct: "stAccounts reg' = mapPut v a (stAccounts reg)" and exp: "explains v ps a"
    and pos: "stPositions reg' = mapPut v ps (stPositions reg)" and rot: "rotationSuccessors reg' = rotationSuccessors reg"
    and recs: "lifecycleRecords reg' = lifecycleRecords reg @ new" "list_all plainRecord new"
    using w by (auto simp: writes_def)
  have maps: "mapOk (stAccounts reg)" "mapOk (stPositions reg)" using inv(1) by (auto simp: stakeTyped_def)
  note sv = explains_valid [OF exp ok(1)]
  show ?thesis
  proof (rule stakeInvI)
    show "stakeTyped reg'"
      using inv(1) acct pos rot ok sv exp sums_nonneg [OF ok(1)]
      unfolding stakeTyped_def
      by (simp add: set_mapPut [OF maps(1)] set_mapPut [OF maps(2)] explains_def) (metis snd_conv)
    show "stakeBacked reg'"
      using inv(5) acct pos by (auto simp: stakeBacked_def set_mapPut [OF maps(1)])
    show "accountsSound reg'"
      using inv(2) acct sv exp by (auto simp: accountsSound_def set_mapPut [OF maps(1)] explains_def)
    show "positionsSound sha reg'"
      using inv(3) acct pos exp valid by (auto simp: positionsSound_def set_mapPut [OF maps(2)])
    have "fst e \<noteq> v" if "e \<in> set (rotationSuccessors reg)" for e
      using free that by (auto simp: map_of_eq_None_iff)
    then show "rotationsSound reg'"
      using inv(4) recs rot acct rotationSound_mono [of reg _ reg' v a]
      by (simp add: rotationsSound_def expectedRotations_plain)
  qed
qed

subsection \<open>Accounting\<close>

definition stakeSum :: "(Position \<Rightarrow> int) \<Rightarrow> StakingRegistry \<Rightarrow> int" where
  "stakeSum f reg = sumOver (sumOver f) (stPositions reg)"

lemma writes_sum:
  assumes "stakeInv sha reg" and "writes v ps reg reg'"
  shows "stakeSum f reg' = stakeSum f reg - sumOver f (positionsOf v reg) + sumOver f ps"
  using assms stakeInvD(1) [OF assms(1)]
  by (auto simp: stakeSum_def writes_def stakeTyped_def sumOver_put positionsOf_def split: option.split)

definition positionOr :: "StakingRegistry \<Rightarrow> string \<Rightarrow> string \<Rightarrow> Position" where
  "positionOr reg v w = (case map_of (positionsOf v reg) w of None \<Rightarrow> emptyPosition | Some p \<Rightarrow> p)"

text \<open>An operation that changes one position changes every total by what changed in that position.\<close>

definition moves :: "(Position \<Rightarrow> int) \<Rightarrow> StakingRegistry \<Rightarrow> StakingRegistry \<Rightarrow> Position \<Rightarrow> Position \<Rightarrow> bool" where
  "moves f reg reg' p q \<longleftrightarrow> stakeSum f reg' = stakeSum f reg + f q - f p"

lemma appendRecord_effect:
  assumes "appendRecord sha action txid w v amount h p reason reg = Inr reg'" and "action \<noteq> ''VALIDATOR_KEY_ROTATE''"
  shows "\<exists>r. reg' = reg\<lparr>lifecycleRecords := lifecycleRecords reg @ [r]\<rparr> \<and> plainRecord r"
  using assms by (auto simp: appendRecord_def appendLifecycleRecord_def Let_def plainRecord_def split: if_splits)

lemma updatePosition_writes:
  assumes inv: "stakeInv sha reg" and p: "posOk p" and act: "action \<noteq> ''VALIDATOR_KEY_ROTATE''"
    and upd: "updatePosition sha action txid w v amount h reason p reg = Inr reg'"
  shows "\<exists>qs. sameStakes (mapPut w p (positionsOf v reg)) qs \<and> writes v qs reg reg'"
proof -
  let ?cur = "stakeAccountOrDefault reg v"
  obtain p1 reg1 p2 where p1: "withStatus p = Inr p1"
    and rw: "rewriteAccountFromPositions sha v (saJailed ?cur) (saTombstoned ?cur)
               (reg\<lparr>stPositions := mapPut v (mapPut w p1 (positionsOf v reg)) (stPositions reg)\<rparr>) = Inr reg1"
    and app: "appendRecord sha action txid w v amount h p2 reason reg1 = Inr reg'"
    using upd by (auto simp: updatePosition_def Let_def split: option.splits)
  let ?ps = "mapPut w p1 (positionsOf v reg)"
  note same1 = withStatus_same [OF p1] and ok = positionsOf_ok [OF inv, of v]
  have mp: "mapOk (stPositions reg)" using stakeInvD(1) [OF inv] by (auto simp: stakeTyped_def)
  have "allOk ?ps" using ok p by (auto simp: set_mapPut sameButStatus_simps(4) [OF same1])
  then obtain qs where qs: "sameStakes ?ps qs"
    and w: "writes v qs (reg\<lparr>stPositions := mapPut v ?ps (stPositions reg)\<rparr>) reg1" "lifecycleRecords reg1 = lifecycleRecords reg"
    using rewriteAccount_writes [OF _ _ _ rw] mp by auto
  then have "sameStakes (mapPut w p (positionsOf v reg)) qs" using sameStakes_trans sameStakes_put [OF same1] by blast
  moreover have "writes v qs reg reg'"
    using w appendRecord_effect [OF app act] mp by (auto simp: writes_def mapPut_twice)
  ultimately show ?thesis by blast
qed

lemma updatePosition_effect:
  assumes inv: "stakeInv sha reg" and p: "posOk p" "positionValid sha v w p" and act: "action \<noteq> ''VALIDATOR_KEY_ROTATE''"
    and upd: "updatePosition sha action txid w v amount h reason p reg = Inr reg'" and free: "unrotated reg v"
  shows "stakeInv sha reg'" "f \<in> {avail, lost, paidOut} \<Longrightarrow> moves f reg reg' (positionOr reg v w) p"
proof -
  let ?ps = "mapPut w p (positionsOf v reg)"
  obtain qs where same: "sameStakes ?ps qs" and w: "writes v qs reg reg'"
    using updatePosition_writes [OF inv p(1) act upd] by blast
  note ok = positionsOf_ok [OF inv, of v]
  have "allOk ?ps" "positionsValid sha v ?ps" "mapOk ?ps" using ok p by (auto simp: set_mapPut positionsValid_def)
  then have "allOk qs" "positionsValid sha v qs" "mapOk qs"
    using sameStakes_simps [OF same] by (auto simp: positionsValid_def mapOk_def)
  then show "stakeInv sha reg'" using writes_inv [OF inv w] free by blast
  show "moves f reg reg' (positionOr reg v w) p" if "f \<in> {avail, lost, paidOut}"
  proof -
    have "f emptyPosition = 0" using that by (auto simp: avail_def lost_def paidOut_def emptyPosition_def zeroAmount_def)
    moreover have "sumOver f qs = sumOver f ?ps" using that sameStakes_simps [OF same] by auto
    ultimately show ?thesis
      using writes_sum [OF inv w, of f] ok(2) by (simp add: moves_def positionOr_def sumOver_put split: option.splits)
  qed
qed

definition changes :: "int \<Rightarrow> int \<Rightarrow> int \<Rightarrow> StakingRegistry \<Rightarrow> StakingRegistry \<Rightarrow> bool" where
  "changes held slashed paid reg reg' \<longleftrightarrow>
     stakeSum avail reg' = stakeSum avail reg + held \<and> stakeSum lost reg' = stakeSum lost reg + slashed \<and>
     stakeSum paidOut reg' = stakeSum paidOut reg + paid"

lemma updatePosition_changes:
  assumes "stakeInv sha reg" and "posOk p" and "positionValid sha v w p" and "action \<noteq> ''VALIDATOR_KEY_ROTATE''"
    and "updatePosition sha action txid w v amount h reason p reg = Inr reg'" and "unrotated reg v"
    and "avail p = avail (positionOr reg v w) + held" and "lost p = lost (positionOr reg v w)"
    and "paidOut p = paidOut (positionOr reg v w) + paid"
  shows "stakeInv sha reg' \<and> changes held 0 paid reg reg'"
  using updatePosition_effect [OF assms(1-6)] assms(7-9) by (simp add: moves_def changes_def)

lemma posOk_empty: "posOk emptyPosition"
  by (simp add: posOk_def emptyPosition_def)

lemma activation_nonzero:
  assumes "setActivationHeight h = Inr a"
  shows "a \<noteq> 0"
proof -
  obtain k :: u64 where k: "k \<le> (U64_MAX - 1) div NODO_VALIDATOR_EPOCH_BLOCKS" and a: "a = k * NODO_VALIDATOR_EPOCH_BLOCKS + 1"
    using assms by (auto simp: setActivationHeight_def not_less split: if_splits)
  have "unat k * 43200 \<le> 2 ^ 64 - 2"
    using k by (simp add: U64_MAX_def NODO_VALIDATOR_EPOCH_BLOCKS_def word_le_nat_alt unat_div)
  then have "unat a = unat k * 43200 + 1"
    by (simp add: a NODO_VALIDATOR_EPOCH_BLOCKS_def unat_word_ariths)
  then show ?thesis by auto
qed

lemma deposit_effect:
  assumes inv: "stakeInv sha reg" and ok: "amountOk amount" and free: "unrotated reg v"
    and dep: "deposit sha w v amount h topUp txid reg = Inr reg'"
  shows "stakeInv sha reg' \<and> changes (rawUnits amount) 0 0 reg reg'"
proof -
  let ?p = "positionOr reg v w"
  let ?p1 = "if positionId ?p = [] then ?p\<lparr>positionId := stakePositionId sha w v, lockHeight := h\<rparr> else ?p"
  have input: "isStakeScalar w" "h \<noteq> 0"
    using dep by (auto simp: deposit_def requireValidOperationInput_def split: if_splits)
  have req: "requireValidOperationInput w v amount h = Inr ()" using dep by (auto simp: deposit_def)
  obtain act where act: "setActivationHeight h = Inr act" using dep by (auto simp: deposit_def)
  let ?new = "\<lambda>pending. ?p1\<lparr>pendingActivationAmount := pending, posActivationHeight := act\<rparr>"
  have "bindR (amountAdd (pendingActivationAmount ?p1) amount) (\<lambda>pending.
          updatePosition sha (if topUp then ''TOP_UP'' else ''DEPOSIT'') txid w v amount h
            (if topUp then ''stake top-up pending activation'' else ''stake deposit pending activation'') (?new pending) reg) = Inr reg'"
    using dep unfolding deposit_def Let_def positionOr_def [symmetric] req act
    by (simp only: bindR.simps split: if_split_asm) simp_all
  then obtain pending where pend: "amountAdd (pendingActivationAmount ?p1) amount = Inr pending"
    and upd: "updatePosition sha (if topUp then ''TOP_UP'' else ''DEPOSIT'') txid w v amount h
                (if topUp then ''stake top-up pending activation'' else ''stake deposit pending activation'') (?new pending) reg = Inr reg'"
    unfolding bindR_Inr_iff by blast
  have p: "posOk ?p" "?p = emptyPosition \<or> positionValid sha v w ?p"
    using position_ok [OF inv] posOk_empty by (auto simp: positionOr_def split: option.splits)
  have pend': "pending = Amount (rawUnits (pendingActivationAmount ?p) + rawUnits amount)" "amountOk pending"
    using pend p(1) ok amountOk_nonneg by (auto simp: posOk_def split: if_splits)
  show ?thesis
  proof (rule updatePosition_changes [OF inv _ _ _ upd free])
    show "posOk (?p1\<lparr>pendingActivationAmount := pending, posActivationHeight := act\<rparr>)"
      using p(1) pend' by (auto simp: posOk_def)
    show "positionValid sha v w (?p1\<lparr>pendingActivationAmount := pending, posActivationHeight := act\<rparr>)"
      using p(2) input activation_nonzero [OF act] pend'(2) amountOk_nonneg [OF pend'(2)]
      by (auto simp: positionValid_def emptyPosition_def isNegative_def isPositive_def zeroAmount_def)
  qed (use pend' in \<open>auto simp: avail_def lost_def paidOut_def\<close>)
qed

text \<open>The time limits of an unbonding position.\<close>

lemma startUnbonding_ok:
  assumes p: "posOk p" "positionValid sha v w p" and ok: "amountOk amount" and h: "h \<noteq> 0" "\<not> h > U64_MAX - UNBONDING_DELAY_BLOCKS"
    and t: "withdrawableTimeFrom now = Inr deadline" and q: "startUnbonding amount h now deadline p = Inr q"
  shows "posOk q" "positionValid sha v w q" "avail q = avail p" "lost q = lost p" "paidOut q = paidOut p"
proof -
  have time: "0 < now" "now \<le> I64_MAX - kUnbondingSeconds - kFutureBlockSkewSeconds" "deadline = now + kUnbondingSeconds + kFutureBlockSkewSeconds"
    using t by (auto simp: withdrawableTimeFrom_def Let_def split: if_splits)
  have delay: "0 < kUnbondingSeconds + kFutureBlockSkewSeconds" by (simp add: kUnbondingSeconds_def kFutureBlockSkewSeconds_def)
  have amt: "amountOk (activeAmount p)" "amountOk (pendingUnbondingAmount p)" using p(1) by (auto simp: posOk_def)
  have q': "q = p\<lparr>activeAmount := Amount (rawUnits (activeAmount p) - rawUnits amount),
                 pendingUnbondingAmount := Amount (rawUnits (pendingUnbondingAmount p) + rawUnits amount), unbondingStartHeight := h,
                 withdrawableHeight := h + UNBONDING_DELAY_BLOCKS, unbondingStartTime := now, withdrawableTime := deadline\<rparr>"
    and fits: "rawUnits amount \<le> rawUnits (activeAmount p)" "rawUnits (pendingUnbondingAmount p) + rawUnits amount \<le> I64_MAX"
    using q amt ok by (auto simp: startUnbonding_def)
  show "posOk q" using p(1) ok fits by (auto simp: q' posOk_def amountOk_def)
  show "avail q = avail p" "lost q = lost p" "paidOut q = paidOut p" by (auto simp: q' avail_def lost_def paidOut_def)
  show "positionValid sha v w q"
    using p(2) h time delay amt ok fits amountOk_nonneg [OF ok] by (auto simp: q' positionValid_def isNegative_def)
qed

lemma positionOr_found: "map_of (positionsOf v reg) w = Some p \<Longrightarrow> positionOr reg v w = p"
  by (simp add: positionOr_def)

lemma found_unrotated: "stakeInv sha reg \<Longrightarrow> map_of (positionsOf v reg) w = Some p \<Longrightarrow> unrotated reg v"
  using position_map positions_unrotated by blast

lemma requestUnlock_effect:
  assumes inv: "stakeInv sha reg" and ok: "amountOk amount" and un: "requestUnlock sha w v amount h now txid reg = Inr reg'"
  shows "stakeInv sha reg' \<and> changes 0 0 0 reg reg'"
proof -
  have h: "h \<noteq> 0" "\<not> h > U64_MAX - UNBONDING_DELAY_BLOCKS"
    using un by (auto simp: requestUnlock_def requireValidOperationInput_def split: if_splits)
  obtain deadline p q where t: "withdrawableTimeFrom now = Inr deadline" and p: "map_of (positionsOf v reg) w = Some p"
    and q: "startUnbonding amount h now deadline p = Inr q"
    and upd: "updatePosition sha ''UNLOCK'' txid w v amount h ''stake moved to unbonding'' q reg = Inr reg'"
    using un by (auto simp: requestUnlock_def Let_def split: if_splits option.splits)
  show ?thesis
    using startUnbonding_ok [OF position_ok [OF inv p] ok h t q]
    by (intro updatePosition_changes [OF inv _ _ _ upd found_unrotated [OF inv p]]) (simp_all add: positionOr_found [OF p])
qed

lemma requestValidatorExit_effect:
  assumes inv: "stakeInv sha reg" and un: "requestValidatorExit sha w v h now txid reg = Inr reg'"
  shows "stakeInv sha reg' \<and> changes 0 0 0 reg reg'"
proof (cases "reg' = reg")
  case True
  then show ?thesis using inv by (simp add: changes_def)
next
  case False
  have h: "h \<noteq> 0" "\<not> h > U64_MAX - UNBONDING_DELAY_BLOCKS"
    using un by (auto simp: requestValidatorExit_def split: if_splits)
  obtain deadline p q where t: "withdrawableTimeFrom now = Inr deadline" and p: "map_of (positionsOf v reg) w = Some p"
    and q: "startUnbonding (activeAmount p) h now deadline p = Inr q"
    and upd: "updatePosition sha ''VALIDATOR_EXIT_UNBOND'' txid w v (activeAmount p) h
                ''validator exit moved active stake to unbonding'' q reg = Inr reg'"
    using un False by (auto simp: requestValidatorExit_def Let_def split: if_splits option.splits)
  have "amountOk (activeAmount p)" using position_ok(1) [OF inv p] by (simp add: posOk_def)
  then show ?thesis
    using startUnbonding_ok [OF position_ok [OF inv p] _ h t q]
    by (intro updatePosition_changes [OF inv _ _ _ upd found_unrotated [OF inv p]]) (simp_all add: positionOr_found [OF p])
qed

text \<open>What a successful withdrawal has checked.\<close>

lemma withdraw_checked:
  assumes "withdraw sha w v amount h now txid reg = Inr reg'"
  shows "\<exists>p unbonding paid. map_of (positionsOf v reg) w = Some p \<and> isPositive amount \<and> h \<noteq> 0 \<and>
           \<not> saJailed (stakeAccountOrDefault reg v) \<and> \<not> saTombstoned (stakeAccountOrDefault reg v) \<and>
           withdrawableHeight p \<noteq> 0 \<and> withdrawableHeight p \<le> h \<and> withdrawableTime p \<le> now \<and> amount \<le> pendingUnbondingAmount p \<and>
           amountSub (pendingUnbondingAmount p) amount = Inr unbonding \<and> amountAdd (withdrawnAmount p) amount = Inr paid \<and>
           updatePosition sha ''WITHDRAW'' txid w v amount h ''withdrawable stake credited to liquid account''
             (p\<lparr>pendingUnbondingAmount := unbonding, withdrawnAmount := paid\<rparr>) reg = Inr reg'"
  using assms
  by (auto simp: withdraw_def requireValidOperationInput_def Let_def not_less split: if_splits option.splits)

lemma withdraw_effect:
  assumes inv: "stakeInv sha reg" and ok: "amountOk amount" and wd: "withdraw sha w v amount h now txid reg = Inr reg'"
  shows "stakeInv sha reg' \<and> changes (- rawUnits amount) 0 (rawUnits amount) reg reg'"
proof -
  obtain p unbonding paid where p: "map_of (positionsOf v reg) w = Some p"
    and ub: "amountSub (pendingUnbondingAmount p) amount = Inr unbonding" and pd: "amountAdd (withdrawnAmount p) amount = Inr paid"
    and upd: "updatePosition sha ''WITHDRAW'' txid w v amount h ''withdrawable stake credited to liquid account''
             (p\<lparr>pendingUnbondingAmount := unbonding, withdrawnAmount := paid\<rparr>) reg = Inr reg'"
    using withdraw_checked [OF wd] by blast
  note pok = position_ok [OF inv p]
  have amt: "amountOk (pendingUnbondingAmount p)" "amountOk (withdrawnAmount p)" using pok(1) by (auto simp: posOk_def)
  have vals: "unbonding = Amount (rawUnits (pendingUnbondingAmount p) - rawUnits amount)" "rawUnits amount \<le> rawUnits (pendingUnbondingAmount p)"
     "paid = Amount (rawUnits (withdrawnAmount p) + rawUnits amount)" "rawUnits (withdrawnAmount p) + rawUnits amount \<le> I64_MAX"
    using ub pd amt ok by auto
  let ?q = "p\<lparr>pendingUnbondingAmount := unbonding, withdrawnAmount := paid\<rparr>"
  have "posOk ?q" using pok(1) vals ok by (auto simp: posOk_def amountOk_def)
  moreover have "positionValid sha v w ?q"
    using pok(2) vals amt ok amountOk_nonneg [OF ok] by (auto simp: positionValid_def isNegative_def isPositive_def)
  ultimately show ?thesis
    by (intro updatePosition_changes [OF inv _ _ _ upd found_unrotated [OF inv p]])
       (simp_all add: positionOr_found [OF p] avail_def lost_def paidOut_def vals)
qed

subsection \<open>Activation\<close>

text \<open>Positions of one validator after an operation that keeps them well-formed.\<close>

definition keeps :: "sha256 \<Rightarrow> string \<Rightarrow> (string, Position) smap \<Rightarrow> (string, Position) smap \<Rightarrow> bool" where
  "keeps sha v ps qs \<longleftrightarrow> map fst qs = map fst ps \<and> (allOk ps \<longrightarrow> allOk qs) \<and> (positionsValid sha v ps \<longrightarrow> positionsValid sha v qs)"

definition appended :: "StakeLifecycleRecord list \<Rightarrow> StakeLifecycleRecord list \<Rightarrow> bool" where
  "appended rs rs' \<longleftrightarrow> (\<exists>new. rs' = rs @ new \<and> list_all plainRecord new)"

lemma appended_refl: "appended rs rs"
  by (simp add: appended_def)

lemma appended_trans: "appended rs rs1 \<Longrightarrow> appended rs1 rs2 \<Longrightarrow> appended rs rs2"
  by (auto simp: appended_def)

lemma appendLifecycleRecord_plain:
  "appendLifecycleRecord sha action txid w v amount h p reason [] rs = Inr rs' \<Longrightarrow>
     action \<noteq> ''VALIDATOR_KEY_ROTATE'' \<Longrightarrow> appended rs rs'"
  by (auto simp: appendLifecycleRecord_def Let_def plainRecord_def appended_def split: if_splits)

lemma keeps_Cons:
  "keeps sha v ps qs \<Longrightarrow> (posOk p \<Longrightarrow> posOk q) \<Longrightarrow> (positionValid sha v w p \<Longrightarrow> positionValid sha v w q) \<Longrightarrow>
     keeps sha v ((w, p) # ps) ((w, q) # qs)"
  by (auto simp: keeps_def positionsValid_def)

lemma sameStakes_keeps: "sameStakes ps qs \<Longrightarrow> keeps sha v ps qs"
  using sameStakes_simps [of ps qs] by (simp add: keeps_def positionsValid_def)

lemma keeps_trans: "keeps sha v ps qs \<Longrightarrow> keeps sha v qs rs \<Longrightarrow> keeps sha v ps rs"
  by (simp add: keeps_def)

lemma activated_position:
  assumes p: "posOk p" and a: "amountAdd (activeAmount p) (pendingActivationAmount p) = Inr active"
    and q: "withStatus (p\<lparr>activeAmount := active, pendingActivationAmount := zeroAmount\<rparr>) = Inr q"
  shows "posOk q" "positionValid sha v w p \<Longrightarrow> positionValid sha v w q" "avail q = avail p" "lost q = lost p" "paidOut q = paidOut p"
proof -
  have "active = Amount (rawUnits (activeAmount p) + rawUnits (pendingActivationAmount p))" "amountOk active"
    using a p amountOk_nonneg by (auto simp: posOk_def)
  then show "posOk q" "positionValid sha v w p \<Longrightarrow> positionValid sha v w q" "avail q = avail p" "lost q = lost p" "paidOut q = paidOut p"
    using p unfolding sameButStatus_simps [OF withStatus_same [OF q]]
    by (auto simp: posOk_def positionValid_def avail_def lost_def paidOut_def isNegative_def zeroAmount_def I64_MAX_def)
qed

lemma activatePositions_effect:
  assumes "allOk ps" and "activatePositions sha v b ps rs = Inr (any, qs, rs')"
  shows "keeps sha v ps qs \<and> appended rs rs' \<and> sumOver avail qs = sumOver avail ps \<and> sumOver lost qs = sumOver lost ps \<and>
         sumOver paidOut qs = sumOver paidOut ps \<and> (\<not> any \<longrightarrow> qs = ps \<and> rs' = rs)"
  using assms
proof (induction ps arbitrary: rs any qs rs')
  case Nil
  then show ?case by (simp add: keeps_def appended_refl)
next
  case (Cons e ps)
  obtain w p where e: "e = (w, p)" by force
  have p: "posOk p" using Cons.prems e by auto
  show ?case
  proof (cases "isPositive (pendingActivationAmount p) \<and> posActivationHeight p \<le> b")
    case True
    then obtain active q rs1 any1 qs1 where a: "amountAdd (activeAmount p) (pendingActivationAmount p) = Inr active"
      and q: "withStatus (p\<lparr>activeAmount := active, pendingActivationAmount := zeroAmount\<rparr>) = Inr q"
      and r: "appendLifecycleRecord sha ''ACTIVATE'' [] w v (pendingActivationAmount p) b q
                ''pending stake activated at deterministic height'' [] rs = Inr rs1"
      and rest: "activatePositions sha v b ps rs1 = Inr (any1, qs1, rs')" and res: "any" "qs = (w, q) # qs1"
      using Cons.prems(2) by (auto simp: e Let_def)
    show ?thesis
      using Cons.IH [OF _ rest] Cons.prems(1) activated_position [OF p a q] appendLifecycleRecord_plain [OF r] res
      by (auto simp: e intro: keeps_Cons appended_trans)
  next
    case False
    then obtain qs1 where rest: "activatePositions sha v b ps rs = Inr (any, qs1, rs')" and res: "qs = e # qs1"
      using Cons.prems(2) by (auto simp: e Let_def)
    show ?thesis using Cons.IH [OF _ rest] Cons.prems(1) res by (auto simp: e intro: keeps_Cons)
  qed
qed

lemma writes_changes:
  assumes inv: "stakeInv sha reg" and w: "writes v qs reg reg'" and k: "keeps sha v (positionsOf v reg) qs" and free: "unrotated reg v"
    and "sumOver avail qs = sumOver avail (positionsOf v reg) + held" and "sumOver lost qs = sumOver lost (positionsOf v reg) + slashed"
    and "sumOver paidOut qs = sumOver paidOut (positionsOf v reg) + paid"
  shows "stakeInv sha reg' \<and> changes held slashed paid reg reg'"
  using writes_inv [OF inv w _ _ _ free] writes_sum [OF inv w] positionsOf_ok [OF inv, of v] k assms(5-7)
  by (simp add: keeps_def changes_def mapOk_def)

lemma changes_trans: "changes a b c reg reg1 \<Longrightarrow> changes a' b' c' reg1 reg2 \<Longrightarrow> changes (a + a') (b + b') (c + c') reg reg2"
  by (simp add: changes_def)

lemma writes_keys: "writes v ps reg reg' \<Longrightarrow> map_of (stPositions reg) x \<noteq> None \<Longrightarrow> map_of (stPositions reg') x \<noteq> None"
  by (auto simp: writes_def)

text \<open>Changed positions and records, then the account rewritten: one write.\<close>

lemma rewriteAccount_after:
  assumes inv: "stakeInv sha reg" and k: "keeps sha v (positionsOf v reg) ps" and app: "appended (lifecycleRecords reg) rs"
    and rw: "rewriteAccountFromPositions sha v j t
               (reg\<lparr>stPositions := mapPut v ps (stPositions reg), lifecycleRecords := rs\<rparr>) = Inr reg'"
  shows "\<exists>qs. sameStakes ps qs \<and> keeps sha v (positionsOf v reg) qs \<and> writes v qs reg reg'"
proof -
  have mp: "mapOk (stPositions reg)" using stakeInvD(1) [OF inv] by (auto simp: stakeTyped_def)
  have "allOk ps" using k positionsOf_ok [OF inv, of v] by (simp add: keeps_def)
  then obtain qs where same: "sameStakes ps qs"
    and w: "writes v qs (reg\<lparr>stPositions := mapPut v ps (stPositions reg), lifecycleRecords := rs\<rparr>) reg'"
      "lifecycleRecords reg' = rs"
    using rewriteAccount_writes [OF _ _ _ rw] mp by auto
  then have "writes v qs reg reg'" using app mp by (auto simp: writes_def mapPut_twice appended_def)
  then show ?thesis using same keeps_trans [OF k sameStakes_keeps [OF same]] by blast
qed

lemma activateValidators_effect:
  assumes "stakeInv sha reg" and "\<forall>v\<in>set vs. map_of (stPositions reg) v \<noteq> None"
    and "activateValidators sha b vs any reg = Inr (any', reg')"
  shows "stakeInv sha reg' \<and> changes 0 0 0 reg reg'"
  using assms
proof (induction vs arbitrary: any reg)
  case Nil
  then show ?case by (simp add: changes_def)
next
  case (Cons v vs)
  note inv = Cons.prems(1)
  let ?cur = "stakeAccountOrDefault reg v"
  obtain ps0 where ps0: "map_of (stPositions reg) v = Some ps0" using Cons.prems(2) by auto
  have pos: "positionsOf v reg = ps0" using ps0 by (simp add: positionsOf_def)
  show ?case
  proof (cases "saTombstoned ?cur")
    case True
    then show ?thesis using Cons by simp
  next
    case False
    obtain here ps rs reg2 where act: "activatePositions sha v b ps0 (lifecycleRecords reg) = Inr (here, ps, rs)"
      and rw: "(if any \<or> here then rewriteAccountFromPositions sha v (saJailed ?cur) (saTombstoned ?cur)
                  (reg\<lparr>stPositions := mapPut v ps (stPositions reg), lifecycleRecords := rs\<rparr>)
                else Inr (reg\<lparr>stPositions := mapPut v ps (stPositions reg), lifecycleRecords := rs\<rparr>)) = Inr reg2"
      and rest: "activateValidators sha b vs (any \<or> here) reg2 = Inr (any', reg')"
      using Cons.prems(3) False by (auto simp: Let_def pos)
    note eff = activatePositions_effect [OF positionsOf_ok(1) [OF inv, of v, unfolded pos] act]
    have step: "stakeInv sha reg2 \<and> changes 0 0 0 reg reg2 \<and> (\<forall>x. map_of (stPositions reg) x \<noteq> None \<longrightarrow> map_of (stPositions reg2) x \<noteq> None)"
    proof (cases "any \<or> here")
      case True
      then have "rewriteAccountFromPositions sha v (saJailed ?cur) (saTombstoned ?cur)
                   (reg\<lparr>stPositions := mapPut v ps (stPositions reg), lifecycleRecords := rs\<rparr>) = Inr reg2"
        using rw by simp
      then obtain qs where "sameStakes ps qs" "keeps sha v (positionsOf v reg) qs" and w: "writes v qs reg reg2"
        using rewriteAccount_after [OF inv] eff pos by blast
      then show ?thesis
        using writes_changes [OF inv w _ positions_unrotated [OF inv ps0], of 0 0 0] sameStakes_simps [of ps qs] eff pos writes_keys [OF w]
        by simp
    next
      case False
      have "mapOk (stPositions reg)" using stakeInvD(1) [OF inv] by (auto simp: stakeTyped_def)
      then have "reg2 = reg" using False rw eff ps0 by (simp add: mapPut_same)
      then show ?thesis using inv by (simp add: changes_def)
    qed
    then have "\<forall>x\<in>set vs. map_of (stPositions reg2) x \<noteq> None" using Cons.prems(2) by simp
    then show ?thesis using Cons.IH [OF _ _ rest] step by (auto dest: changes_trans)
  qed
qed

lemma activatePending_effect:
  assumes "stakeInv sha reg" and "activatePending sha b reg = Inr (any, reg')"
  shows "stakeInv sha reg' \<and> changes 0 0 0 reg reg'"
proof (cases "b = 0")
  case True
  then show ?thesis using assms by (simp add: activatePending_def changes_def)
next
  case False
  then show ?thesis
    using assms activateValidators_effect [OF assms(1), of "map fst (stPositions reg)"]
    by (force simp: activatePending_def map_of_eq_None_iff)
qed

subsection \<open>Penalties\<close>

text \<open>A position from which a penalty took \<open>n\<close> units.\<close>

definition slashedBy :: "sha256 \<Rightarrow> string \<Rightarrow> string \<Rightarrow> int \<Rightarrow> Position \<Rightarrow> Position \<Rightarrow> bool" where
  "slashedBy sha v w n p q \<longleftrightarrow> 0 \<le> n \<and> posOk q \<and> (positionValid sha v w p \<longrightarrow> positionValid sha v w q) \<and>
     avail q = avail p - n \<and> lost q = lost p + n \<and> paidOut q = paidOut p"

lemma slashedBy_trans: "slashedBy sha v w n p q \<Longrightarrow> slashedBy sha v w m q r \<Longrightarrow> slashedBy sha v w (n + m) p r"
  by (auto simp: slashedBy_def)

lemma slashFrom_Inr:
  assumes "amountOk (get p)" and "amountOk (posSlashed p)" and "amountOk remaining"
    and "slashFrom get upd remaining p = Inr (part, rest, q)"
  shows "0 \<le> rawUnits part \<and> rawUnits part \<le> rawUnits (get p) \<and> rawUnits part \<le> rawUnits remaining \<and>
         rest = Amount (rawUnits remaining - rawUnits part) \<and>
         (rawUnits part = 0 \<and> q = p \<or>
          rawUnits (posSlashed p) + rawUnits part \<le> I64_MAX \<and>
          q = (upd (\<lambda>_. Amount (rawUnits (get p) - rawUnits part)) p)\<lparr>posSlashed := Amount (rawUnits (posSlashed p) + rawUnits part)\<rparr>)"
  using assms amountOk_nonneg [OF assms(1)] amountOk_nonneg [OF assms(3)]
  by (cases remaining) (auto simp: slashFrom_def Let_def less_Amount_def isPositive_def amountAdd_ok amountSub_ok split: if_splits)

lemma slashFrom_slashedBy:
  assumes p: "posOk p" and rem: "amountOk remaining"
    and field: "get = activeAmount \<and> upd = activeAmount_update \<or> get = pendingActivationAmount \<and> upd = pendingActivationAmount_update \<or>
      get = pendingUnbondingAmount \<and> upd = pendingUnbondingAmount_update"
    and sl: "slashFrom get upd remaining p = Inr (part, rest, q)"
  shows "slashedBy sha v w (rawUnits part) p q \<and> rest = Amount (rawUnits remaining - rawUnits part) \<and> amountOk rest \<and> amountOk part"
proof -
  have ok: "amountOk (get p)" "amountOk (posSlashed p)" using p field by (auto simp: posOk_def)
  note r = slashFrom_Inr [OF ok rem sl]
  have "slashedBy sha v w (rawUnits part) p q"
  proof (cases "rawUnits part = 0 \<and> q = p")
    case True
    then show ?thesis using p by (simp add: slashedBy_def)
  next
    case False
    then have q: "q = (upd (\<lambda>_. Amount (rawUnits (get p) - rawUnits part)) p)\<lparr>posSlashed := Amount (rawUnits (posSlashed p) + rawUnits part)\<rparr>"
      and fits: "rawUnits (posSlashed p) + rawUnits part \<le> I64_MAX" using r by auto
    have okp: "amountOk (activeAmount p)" "amountOk (pendingActivationAmount p)" "amountOk (pendingUnbondingAmount p)"
      "amountOk (withdrawnAmount p)" "amountOk (posSlashed p)" "amountOk (rewardsPending p)" using p by (auto simp: posOk_def)
    from field show ?thesis
      by (elim disjE conjE)
         (use okp fits r in \<open>auto simp: q slashedBy_def posOk_def positionValid_def avail_def lost_def paidOut_def
            isNegative_def isPositive_def amountOk_def\<close>)
  qed
  then show ?thesis using r rem ok(1) by (auto simp: amountOk_def)
qed

lemma slashPosition_effect:
  assumes p: "posOk p" and rem: "amountOk remaining" and sl: "slashPosition t remaining p = Inr (applied, rest, q)"
  shows "\<exists>n. slashedBy sha v w n p q \<and> rest = Amount (rawUnits remaining - n) \<and> amountOk rest"
proof -
  obtain a1 r1 p1 a2 r2 p2 a3 p3 where
    s1: "slashFrom activeAmount activeAmount_update remaining p = Inr (a1, r1, p1)"
    and s2: "(if isPositive r1 then slashFrom pendingActivationAmount pendingActivationAmount_update r1 p1
              else Inr (zeroAmount, r1, p1)) = Inr (a2, r2, p2)"
    and s3: "(if isPositive r2 then slashFrom pendingUnbondingAmount pendingUnbondingAmount_update r2 p2
              else Inr (zeroAmount, r2, p2)) = Inr (a3, rest, p3)"
    and q: "(if t then Inr (p3\<lparr>posStatus := Stake_TOMBSTONED\<rparr>) else withStatus p3) = Inr q"
    using sl by (auto simp: slashPosition_def)
  note e1 = slashFrom_slashedBy [OF p rem _ s1, of sha v w, simplified]
  have e2: "slashedBy sha v w (rawUnits a2) p1 p2 \<and> r2 = Amount (rawUnits r1 - rawUnits a2) \<and> amountOk r2"
    using s2 e1 slashFrom_slashedBy [of p1 r1 pendingActivationAmount pendingActivationAmount_update a2 r2 p2 sha v w]
    by (cases r1) (auto simp: slashedBy_def zeroAmount_def split: if_splits)
  have e3: "slashedBy sha v w (rawUnits a3) p2 p3 \<and> rest = Amount (rawUnits r2 - rawUnits a3) \<and> amountOk rest"
    using s3 e2 slashFrom_slashedBy [of p2 r2 pendingUnbondingAmount pendingUnbondingAmount_update a3 rest p3 sha v w]
    by (cases r2) (auto simp: slashedBy_def zeroAmount_def split: if_splits)
  have "sameButStatus p3 q" using q withStatus_same [of p3 q] by (auto simp: sameButStatus_def split: if_splits)
  then have "slashedBy sha v w 0 p3 q" using e3 by (simp add: slashedBy_def sameButStatus_simps)
  then have "slashedBy sha v w (rawUnits a1 + rawUnits a2 + rawUnits a3 + 0) p q"
    using e1 e2 e3 by (blast intro: slashedBy_trans)
  then show ?thesis using e1 e2 e3 by (intro exI) auto
qed

lemma slashPositions_effect:
  assumes "allOk ps" and "amountOk remaining" and "slashPositions sha v t h remaining ps rs = Inr (left, qs, rs')"
  shows "\<exists>n. 0 \<le> n \<and> keeps sha v ps qs \<and> appended rs rs' \<and> left = Amount (rawUnits remaining - n) \<and> amountOk left \<and>
           sumOver avail qs = sumOver avail ps - n \<and> sumOver lost qs = sumOver lost ps + n \<and> sumOver paidOut qs = sumOver paidOut ps"
  using assms
proof (induction ps arbitrary: remaining rs qs)
  case Nil
  then show ?case by (cases remaining) (auto simp: keeps_def appended_refl)
next
  case (Cons e ps)
  show ?case
  proof (cases "isZero remaining")
    case True
    then show ?thesis using Cons.prems by (cases remaining) (auto simp: keeps_def appended_refl)
  next
    case False
    then obtain applied rest q rs1 qs1 where q: "slashPosition t remaining (snd e) = Inr (applied, rest, q)"
      and r: "(if isPositive applied
               then appendLifecycleRecord sha ''SLASH'' [] (fst e) v applied h q
                      (if t then ''stake slashed and validator tombstoned'' else ''stake slashed'') [] rs
               else Inr rs) = Inr rs1"
      and rest: "slashPositions sha v t h rest ps rs1 = Inr (left, qs1, rs')" and qs: "qs = (fst e, q) # qs1"
      using Cons.prems(3) by auto
    have p: "posOk (snd e)" using Cons.prems(1) by simp
    obtain n where n: "slashedBy sha v (fst e) n (snd e) q" "rest = Amount (rawUnits remaining - n)" "amountOk rest"
      using slashPosition_effect [OF p Cons.prems(2) q] by blast
    have app: "appended rs rs1" using r appendLifecycleRecord_plain by (auto simp: appended_refl split: if_splits)
    obtain m where m: "0 \<le> m" "keeps sha v ps qs1" "appended rs1 rs'" "left = Amount (rawUnits rest - m)" "amountOk left"
      "sumOver avail qs1 = sumOver avail ps - m" "sumOver lost qs1 = sumOver lost ps + m" "sumOver paidOut qs1 = sumOver paidOut ps"
      using Cons.IH [OF _ n(3) rest] Cons.prems(1) by auto
    have "keeps sha v (e # ps) qs" using n(1) m(2) by (auto simp: qs slashedBy_def intro: keeps_Cons [of sha v ps qs1 "snd e" q "fst e", simplified])
    then show ?thesis using n m appended_trans [OF app m(3)]
      by (intro exI [of _ "n + m"]) (auto simp: qs slashedBy_def)
  qed
qed

lemma account_slashed:
  assumes inv: "stakeInv sha reg" and ps: "map_of (stPositions reg) v = Some ps"
  shows "saSlashed (stakeAccountOrDefault reg v) = Amount (sumOver lost ps)"
  using positions_account(1) [OF inv ps] by (auto simp: stakeAccountOrDefault_def explains_def)

lemma account_backed:
  assumes "stakeInv sha reg" and "map_of (stPositions reg) v = None"
  shows "map_of (stAccounts reg) v = None"
proof (rule ccontr)
  assume "map_of (stAccounts reg) v \<noteq> None"
  then obtain a where "(v, a) \<in> set (stAccounts reg)" by (auto dest: map_of_SomeD)
  then show False using stakeInvD(5) [OF assms(1)] assms(2) by (auto simp: stakeBacked_def)
qed

text \<open>An account for a validator that had none.\<close>

lemma rewriteAccount_fresh:
  assumes none: "map_of (stPositions reg) v = None" and rw: "rewriteAccountFromPositions sha v j t reg = Inr reg'"
  shows "writes v [] reg reg'"
proof -
  obtain a where a: "newStakeAccount v zeroAmount zeroAmount (j \<or> t) t = Inr a" and set: "setAccount sha v a reg = Inr reg'"
    using rw none by (auto simp: rewriteAccountFromPositions_def)
  have vals: "saAddress a = v" "bondedAmount a = zeroAmount" "saSlashed a = zeroAmount"
    using a by (auto simp: newStakeAccount_def Let_def split: if_splits)
  have scalar: "isStakeScalar v" using set by (auto simp: setAccount_def split: if_splits)
  have "reg' = reg\<lparr>stAccounts := mapPut v a (stAccounts reg), stPositions := mapPut v [] (stPositions reg)\<rparr>"
    using set none vals
    by (auto simp: setAccount_def positionsOf_def safeAvailable_def amountSub_def newAmount_def isPositive_def zeroAmount_def split: if_splits)
  then show ?thesis using vals scalar by (auto simp: writes_def explains_def zeroAmount_def I64_MAX_def)
qed

text \<open>Once the positions add up to the new total, the account needs no correction.\<close>

lemma applyPenaltyState_steps:
  assumes pen: "applyPenaltyState sha v due j t h reg = Inr reg'"
  shows "\<exists>remaining left reg1 reg2. amountSub due (saSlashed (stakeAccountOrDefault reg v)) = Inr remaining \<and>
     (case map_of (stPositions reg) v of
        None \<Rightarrow> left = remaining \<and> reg1 = reg
      | Some ps \<Rightarrow> \<exists>ps' rs. slashPositions sha v t h remaining ps (lifecycleRecords reg) = Inr (left, ps', rs) \<and>
                  reg1 = reg\<lparr>stPositions := mapPut v ps' (stPositions reg), lifecycleRecords := rs\<rparr>) \<and>
     \<not> isPositive left \<and> rewriteAccountFromPositions sha v (j \<or> t) t reg1 = Inr reg2 \<and>
     (saSlashed (stakeAccountOrDefault reg2 v) = due \<longrightarrow> reg' = reg2)"
proof (cases "map_of (stPositions reg) v")
  case None
  then show ?thesis using pen by (auto simp: applyPenaltyState_def Let_def split: if_splits)
next
  case (Some ps)
  then show ?thesis using pen by (auto simp: applyPenaltyState_def Let_def split: if_splits)
qed

lemma writes_slashed: "writes v qs reg reg' \<Longrightarrow> saSlashed (stakeAccountOrDefault reg' v) = Amount (sumOver lost qs)"
  by (auto simp: writes_def stakeAccountOrDefault_def explains_def)

lemma applyPenaltyState_effect:
  assumes inv: "stakeInv sha reg" and ok: "amountOk due" and free: "unrotated reg v"
    and pen: "applyPenaltyState sha v due j t h reg = Inr reg'"
  defines "extra \<equiv> rawUnits due - rawUnits (saSlashed (stakeAccountOrDefault reg v))"
  shows "0 \<le> extra \<and> stakeInv sha reg' \<and> changes (- extra) extra 0 reg reg'"
proof -
  let ?cur = "stakeAccountOrDefault reg v"
  obtain remaining left reg1 reg2 where rem: "amountSub due (saSlashed ?cur) = Inr remaining"
    and cut: "case map_of (stPositions reg) v of None \<Rightarrow> left = remaining \<and> reg1 = reg
      | Some ps \<Rightarrow> \<exists>ps' rs. slashPositions sha v t h remaining ps (lifecycleRecords reg) = Inr (left, ps', rs) \<and>
                  reg1 = reg\<lparr>stPositions := mapPut v ps' (stPositions reg), lifecycleRecords := rs\<rparr>"
    and left: "\<not> isPositive left" and rw: "rewriteAccountFromPositions sha v (j \<or> t) t reg1 = Inr reg2"
    and same: "saSlashed (stakeAccountOrDefault reg2 v) = due \<longrightarrow> reg' = reg2"
    using applyPenaltyState_steps [OF pen] by blast
  have rem': "remaining = Amount extra" "0 \<le> extra"
    using rem by (auto simp: amountSub_def newAmount_def extra_def split: if_splits)
  show ?thesis
  proof (cases "map_of (stPositions reg) v")
    case None
    then have "writes v [] reg reg2" using rewriteAccount_fresh rw cut by auto
    moreover have "saSlashed ?cur = zeroAmount" using account_backed [OF inv None] by (simp add: stakeAccountOrDefault_def)
    ultimately show ?thesis
      using writes_slashed [of v "[]" reg reg2] None cut left rem' same free ok
        writes_changes [OF inv, of v "[]" reg2 0 0 0]
      by (cases due) (auto simp: isPositive_def extra_def zeroAmount_def positionsOf_def keeps_def)
  next
    case (Some ps)
    then obtain ps' rs where sl: "slashPositions sha v t h remaining ps (lifecycleRecords reg) = Inr (left, ps', rs)"
      and reg1: "reg1 = reg\<lparr>stPositions := mapPut v ps' (stPositions reg), lifecycleRecords := rs\<rparr>" using cut by auto
    have pos: "positionsOf v reg = ps" and okp: "allOk ps" using Some positionsOf_ok(1) [OF inv, of v] by (auto simp: positionsOf_def)
    note slashed = account_slashed [OF inv Some]
    have "amountOk remaining" using rem' ok sums_nonneg(2) [OF okp] slashed by (auto simp: extra_def amountOk_def)
    then obtain n where n: "keeps sha v ps ps'" "appended (lifecycleRecords reg) rs" "left = Amount (extra - n)" "amountOk left"
      "sumOver avail ps' = sumOver avail ps - n" "sumOver lost ps' = sumOver lost ps + n" "sumOver paidOut ps' = sumOver paidOut ps"
      using slashPositions_effect [OF okp _ sl] rem' by auto
    have extra: "n = extra" using n(3,4) left by (auto simp: isPositive_def)
    obtain qs where qs: "sameStakes ps' qs" "keeps sha v ps qs" and w: "writes v qs reg reg2"
      using rewriteAccount_after [OF inv _ n(2) rw [unfolded reg1]] n(1) pos by auto
    have "Amount (sumOver lost qs) = due"
      using slashed n(6) extra sameStakes_simps(2) [OF qs(1)] by (cases due) (simp add: extra_def)
    then have "reg' = reg2" using writes_slashed [OF w] same by simp
    then show ?thesis
      using writes_changes [OF inv w _ free, of "- extra" extra 0] qs(2) n extra rem' sameStakes_simps [OF qs(1)] pos by simp
  qed
qed

lemma unjail_effect:
  assumes inv: "stakeInv sha reg" and un: "unjail sha v reg = Inr reg'"
  shows "stakeInv sha reg' \<and> changes 0 0 0 reg reg'"
proof -
  let ?a = "stakeAccountOrDefault reg v"
  have jailed: "saJailed ?a" and set: "setAccount sha v (unjailAccount ?a) reg = Inr reg'"
    using un by (auto simp: unjail_def Let_def split: if_splits)
  then have "map_of (stAccounts reg) v \<noteq> None" by (auto simp: stakeAccountOrDefault_def split: option.splits)
  then obtain ps where ps: "map_of (stPositions reg) v = Some ps" using account_backed [OF inv] by (cases "map_of (stPositions reg) v") auto
  then have exp: "explains v ps ?a" using positions_account(1) [OF inv ps] by (auto simp: stakeAccountOrDefault_def)
  have "reg' = reg\<lparr>stAccounts := mapPut v (unjailAccount ?a) (stAccounts reg), stPositions := mapPut v ps (stPositions reg)\<rparr> \<and>
        explains v ps (unjailAccount ?a)"
    using exp by (intro setAccount_explained [OF positions_account(3) [OF inv ps] ps _ _ set]) (auto simp: unjailAccount_def explains_def)
  then have w: "writes v ps reg reg'" by (auto simp: writes_def)
  show ?thesis
    using writes_changes [OF inv w _ positions_unrotated [OF inv ps], of 0 0 0] ps by (simp add: positionsOf_def keeps_def)
qed

subsection \<open>Key rotation\<close>

lemma positionId_irrelevant:
  "avail (p\<lparr>positionId := i\<rparr>) = avail p" "lost (p\<lparr>positionId := i\<rparr>) = lost p" "paidOut (p\<lparr>positionId := i\<rparr>) = paidOut p"
  "posOk (p\<lparr>positionId := i\<rparr>) = posOk p"
  by (simp_all add: avail_def lost_def paidOut_def posOk_def)

lemma rotateRecords_effect:
  "rotateRecords sha old new h txid ps rs = Inr (qs, rs') \<Longrightarrow>
     map fst qs = map fst ps \<and> (allOk ps \<longrightarrow> allOk qs) \<and> sumOver avail qs = sumOver avail ps \<and>
     sumOver lost qs = sumOver lost ps \<and> sumOver paidOut qs = sumOver paidOut ps"
proof (induction ps arbitrary: rs qs rs')
  case (Cons e ps)
  then show ?case by (force simp: Let_def positionId_irrelevant)
qed simp

lemma sumOver_erase:
  assumes "mapOk m" and "map_of m k = Some v"
  shows "sumOver f (mapErase k m) = sumOver f m - f v"
  using sumOver_put [OF mapOk_mapErase [OF assms(1)], of f k v k] assms by (simp add: mapPut_after_erase)

lemma rotateValidatorAddress_steps:
  assumes rot: "rotateValidatorAddress sha old new w h txid reg = Inr reg'"
  shows "\<exists>a ps qs rs. map_of (stAccounts reg) old = Some a \<and> map_of (stPositions reg) old = Some ps \<and>
     map_of (stPositions reg) new = None \<and> rotateRecords sha old new h txid ps (lifecycleRecords reg) = Inr (qs, rs) \<and>
     reg' = \<lparr>stAccounts = mapPut new \<lparr>saAddress = new, bondedAmount = bondedAmount a, saSlashed = saSlashed a, saJailed = saJailed a,
                               saTombstoned = saTombstoned a\<rparr> (mapErase old (stAccounts reg)),
             stPositions = mapPut new qs (mapErase old (stPositions reg)), lifecycleRecords = rs,
             rotationSuccessors = snd (mapEmplace old new (rotationSuccessors reg))\<rparr> \<and>
     stakingValid sha reg' = Inr True \<and> map_of ps w \<noteq> None"
  using rot
  by (cases "map_of (stAccounts reg) old"; cases "map_of (stPositions reg) old")
     (auto simp: rotateValidatorAddress_def newStakeAccount_def Let_def split: if_splits)

lemma rotateValidatorAddress_effect:
  assumes inv: "stakeInv sha reg" and rot: "rotateValidatorAddress sha old new w h txid reg = Inr reg'"
  shows "stakeInv sha reg' \<and> changes 0 0 0 reg reg'"
proof -
  obtain a ps qs rs where a: "map_of (stAccounts reg) old = Some a" and ps: "map_of (stPositions reg) old = Some ps"
    and fresh: "map_of (stPositions reg) new = None" and qs: "rotateRecords sha old new h txid ps (lifecycleRecords reg) = Inr (qs, rs)"
    and reg': "reg' = \<lparr>stAccounts = mapPut new \<lparr>saAddress = new, bondedAmount = bondedAmount a, saSlashed = saSlashed a, saJailed = saJailed a,
                               saTombstoned = saTombstoned a\<rparr> (mapErase old (stAccounts reg)),
             stPositions = mapPut new qs (mapErase old (stPositions reg)), lifecycleRecords = rs,
             rotationSuccessors = snd (mapEmplace old new (rotationSuccessors reg))\<rparr>"
    and valid: "stakingValid sha reg' = Inr True"
    using rotateValidatorAddress_steps [OF rot] by blast
  note typed = stakeInvD(1) [OF inv]
  have mp: "mapOk (stPositions reg)" and ma: "mapOk (stAccounts reg)" using typed by (auto simp: stakeTyped_def)
  note q = rotateRecords_effect [OF qs] and okp = positions_account(3,4) [OF inv ps]
  have "amountOk (bondedAmount a)" "amountOk (saSlashed a)" using typed map_of_SomeD [OF a] by (auto simp: stakeTyped_def)
  moreover have "mapOk qs" "allOk qs" using q okp by (auto simp: mapOk_def)
  ultimately have "stakeTyped reg'"
    using typed unfolding stakeTyped_def reg'
    by (simp add: set_mapPut [OF mapOk_mapErase [OF mp]] set_mapPut [OF mapOk_mapErase [OF ma]] mapOk_emplace)
       (auto simp: set_mapErase, metis snd_conv)
  moreover have "stakeBacked reg'"
    using stakeInvD(5) [OF inv] by (auto simp: stakeBacked_def reg' set_mapPut [OF mapOk_mapErase [OF ma]] set_mapErase)
  moreover have "stakeSum f reg' = stakeSum f reg" if "f \<in> {avail, lost, paidOut}" for f
  proof -
    have "new \<noteq> old" using fresh ps by auto
    then have "stakeSum f reg' = sumOver (sumOver f) (mapErase old (stPositions reg)) + sumOver f qs"
      using fresh by (simp add: stakeSum_def reg' sumOver_put [OF mapOk_mapErase [OF mp]])
    then show ?thesis using that q by (auto simp: sumOver_erase [OF mp ps] stakeSum_def)
  qed
  ultimately show ?thesis using valid by (simp add: stakeInv_def changes_def)
qed

subsection \<open>Runs of the registry\<close>

datatype StakeOp =
    DepositStake string string Amount u64 bool string
  | UnlockStake string string Amount u64 int string
  | WithdrawStake string string Amount u64 int string
  | ExitStake string string u64 int string
  | ActivateStakes u64
  | PenalizeStake string Amount bool bool u64
  | UnjailStake string
  | RotateStake string string string u64 string

fun stakeExec :: "sha256 \<Rightarrow> StakeOp \<Rightarrow> StakingRegistry \<Rightarrow> StakingRegistry result" where
  "stakeExec sha (DepositStake w v amount h topUp txid) reg = deposit sha w v amount h topUp txid reg"
| "stakeExec sha (UnlockStake w v amount h now txid) reg = requestUnlock sha w v amount h now txid reg"
| "stakeExec sha (WithdrawStake w v amount h now txid) reg = withdraw sha w v amount h now txid reg"
| "stakeExec sha (ExitStake w v h now txid) reg = requestValidatorExit sha w v h now txid reg"
| "stakeExec sha (ActivateStakes h) reg = bindR (activatePending sha h reg) (\<lambda>(any, reg'). Inr reg')"
| "stakeExec sha (PenalizeStake v due j t h) reg = applyPenaltyState sha v due j t h reg"
| "stakeExec sha (UnjailStake v) reg = unjail sha v reg"
| "stakeExec sha (RotateStake old new w h txid) reg = rotateValidatorAddress sha old new w h txid reg"

fun deposited :: "StakeOp \<Rightarrow> int" where
  "deposited (DepositStake w v amount h topUp txid) = rawUnits amount"
| "deposited _ = 0"

fun withdrawnBy :: "StakeOp \<Rightarrow> int" where
  "withdrawnBy (WithdrawStake w v amount h now txid) = rawUnits amount"
| "withdrawnBy _ = 0"

text \<open>The amounts are \<open>Amount\<close> objects, and neither a deposit nor a penalty names an address that was rotated away.\<close>

fun aimed :: "StakingRegistry \<Rightarrow> StakeOp \<Rightarrow> bool" where
  "aimed reg (DepositStake w v amount h topUp txid) \<longleftrightarrow> amountOk amount \<and> unrotated reg v"
| "aimed reg (UnlockStake w v amount h now txid) \<longleftrightarrow> amountOk amount"
| "aimed reg (WithdrawStake w v amount h now txid) \<longleftrightarrow> amountOk amount"
| "aimed reg (PenalizeStake v due j t h) \<longleftrightarrow> amountOk due \<and> unrotated reg v"
| "aimed reg _ \<longleftrightarrow> True"

definition noStake :: StakingRegistry where
  "noStake = \<lparr>stAccounts = [], stPositions = [], lifecycleRecords = [], rotationSuccessors = []\<rparr>"

text \<open>The registries reached from the genesis stakes by operations that succeed, with what was put in and withdrawn on the way. An operation that
  throws leaves the registry as it was, because its callers restore their copy.\<close>

inductive stakeReach :: "sha256 \<Rightarrow> StakingRegistry \<Rightarrow> int \<Rightarrow> int \<Rightarrow> bool" for sha where
  start: "seedGenesisStakeAccounts sha validators noStake = Inr reg \<Longrightarrow> stakeReach sha reg (stakeSum avail reg) 0"
| step: "stakeReach sha reg paidIn paid \<Longrightarrow> aimed reg op \<Longrightarrow> stakeExec sha op reg = Inr reg' \<Longrightarrow>
           stakeReach sha reg' (paidIn + deposited op) (paid + withdrawnBy op)"

lemma stakeExec_effect:
  assumes "stakeInv sha reg" and "aimed reg op" and "stakeExec sha op reg = Inr reg'"
  shows "stakeInv sha reg' \<and> (\<exists>slashed\<ge>0. changes (deposited op - withdrawnBy op - slashed) slashed (withdrawnBy op) reg reg')"
proof (cases op)
  case (PenalizeStake v due j t h)
  define extra where "extra = rawUnits due - rawUnits (saSlashed (stakeAccountOrDefault reg v))"
  have "0 \<le> extra \<and> stakeInv sha reg' \<and> changes (- extra) extra 0 reg reg'"
    using applyPenaltyState_effect [OF assms(1), of due v j t h reg'] assms(2,3) PenalizeStake by (simp add: extra_def)
  then show ?thesis using PenalizeStake by auto
next
  case (ActivateStakes h)
  then show ?thesis using activatePending_effect [OF assms(1)] assms(2,3) by auto
qed (use assms deposit_effect [OF assms(1)] requestUnlock_effect [OF assms(1)] withdraw_effect [OF assms(1)]
       requestValidatorExit_effect [OF assms(1)] unjail_effect [OF assms(1)] rotateValidatorAddress_effect [OF assms(1)] in
     \<open>auto intro: exI [of _ 0]\<close>)

lemma noStake_inv: "stakeInv sha noStake"
  by (auto simp: noStake_def intro!: stakeInvI
      simp: stakeTyped_def stakeBacked_def accountsSound_def positionsSound_def rotationsSound_def)

text \<open>Writing an account where there is none: the validator itself gets a position with the whole stake.\<close>

lemma setAccount_fresh:
  assumes inv: "stakeInv sha reg" and none: "map_of (stAccounts reg) v = None" and rot: "rotationSuccessors reg = []"
    and pos: "map_of (stPositions reg) v = None" and amt: "fromRawUnits n = Inr amount" "n \<le> I64_MAX"
    and set: "setAccount sha v \<lparr>saAddress = v, bondedAmount = amount, saSlashed = zeroAmount, saJailed = False, saTombstoned = False\<rparr> reg
                = Inr reg'"
  shows "stakeInv sha reg' \<and> changes (rawUnits amount) 0 0 reg reg' \<and> rotationSuccessors reg' = [] \<and>
         (\<forall>x. x \<noteq> v \<longrightarrow> map_of (stAccounts reg') x = map_of (stAccounts reg) x \<and> map_of (stPositions reg') x = map_of (stPositions reg) x)"
proof -
  let ?a = "\<lparr>saAddress = v, bondedAmount = amount, saSlashed = zeroAmount, saJailed = False, saTombstoned = False\<rparr>"
  have ok: "amountOk amount" "0 \<le> rawUnits amount" "Amount (rawUnits amount) = amount"
    using amt by (auto simp: fromRawUnits_def newAmount_def split: if_splits)
  have empty: "positionsOf v reg = []" using pos by (simp add: positionsOf_def)
  have scalar: "isStakeScalar v" using set by (auto simp: setAccount_def split: if_splits)
  have avail: "safeAvailable ?a = Inr amount"
    using ok by (auto simp: safeAvailable_def less_Amount_def zeroAmount_def amountSub_def newAmount_def)
  define ps where "ps = (if isPositive amount then [(v, ownPosition sha v ?a amount)] else [])"
  have reg': "reg' = reg\<lparr>stAccounts := mapPut v ?a (stAccounts reg), stPositions := mapPut v ps (stPositions reg)\<rparr>"
    using set empty avail by (auto simp: setAccount_def ps_def isPositive_def zeroAmount_def split: if_splits)
  have sums: "sumOver avail ps = rawUnits amount" "sumOver lost ps = 0" "sumOver paidOut ps = 0"
    using ok by (auto simp: ps_def ownPosition_def avail_def lost_def paidOut_def emptyPosition_def zeroAmount_def isPositive_def)
  have w: "writes v ps reg reg'"
    using scalar sums ok amt(2) by (auto simp: writes_def reg' explains_def zeroAmount_def amountOk_def)
  have valid: "positionsValid sha v ps" "allOk ps" "mapOk ps"
    using scalar ok by (auto simp: ps_def positionsValid_def positionValid_def ownPosition_def emptyPosition_def posOk_def
        isNegative_def isPositive_def zeroAmount_def I64_MAX_def)
  have "stakeInv sha reg'" using writes_inv [OF inv w valid] rot by simp
  moreover have "changes (rawUnits amount) 0 0 reg reg'" using writes_sum [OF inv w] sums empty by (simp add: changes_def)
  ultimately show ?thesis using rot by (simp add: reg')
qed

lemma seedStakes_effect:
  assumes "stakeInv sha reg" and "rotationSuccessors reg = []" and "seedStakes sha validators vs reg = Inr reg'"
  shows "stakeInv sha reg' \<and> stakeSum lost reg' = stakeSum lost reg \<and> stakeSum paidOut reg' = stakeSum paidOut reg"
  using assms
proof (induction vs arbitrary: reg)
  case (Cons v vs)
  show ?case
  proof (cases "\<exists>e. map_of validators v = Some e \<and> stakeAmount e > 0 \<and> map_of (stAccounts reg) v = None")
    case False
    then have "seedStakes sha validators vs reg = Inr reg'" using Cons.prems(3) by (auto split: option.splits if_splits)
    then show ?thesis using Cons.IH Cons.prems(1,2) by blast
  next
    case True
    then obtain e where e: "map_of validators v = Some e" "stakeAmount e > 0" and none: "map_of (stAccounts reg) v = None" by blast
    let ?a = "\<lambda>amount. \<lparr>saAddress = v, bondedAmount = amount, saSlashed = zeroAmount, saJailed = False, saTombstoned = False\<rparr>"
    obtain amount reg1 where amt: "fromRawUnits (sint (stakeAmount e)) = Inr amount" and set: "setAccount sha v (?a amount) reg = Inr reg1"
      and rest: "seedStakes sha validators vs reg1 = Inr reg'"
      using Cons.prems(3) e none by auto
    have "map_of (stPositions reg) v = None"
      using positions_account(1) [OF Cons.prems(1), of v] none by (cases "map_of (stPositions reg) v") auto
    moreover have "sint (stakeAmount e) \<le> I64_MAX" using sint_lt [of "stakeAmount e"] by (simp add: I64_MAX_def)
    ultimately have "stakeInv sha reg1 \<and> changes (rawUnits amount) 0 0 reg reg1 \<and> rotationSuccessors reg1 = []"
      using setAccount_fresh [OF Cons.prems(1) none Cons.prems(2) _ amt _ set] by blast
    then show ?thesis using Cons.IH [OF _ _ rest] by (simp add: changes_def)
  qed
qed simp

lemma stakeReach_inv:
  assumes "stakeReach sha reg paidIn paid"
  shows "stakeInv sha reg \<and> stakeSum avail reg + stakeSum lost reg + stakeSum paidOut reg = paidIn \<and>
         stakeSum paidOut reg = paid \<and> 0 \<le> stakeSum lost reg"
  using assms
proof induction
  case (start validators reg)
  have "stakeSum lost noStake = 0" "stakeSum paidOut noStake = 0" by (simp_all add: noStake_def stakeSum_def)
  then show ?case using seedStakes_effect [OF noStake_inv _ start [unfolded seedGenesisStakeAccounts_def]] by (simp add: noStake_def)
next
  case (step reg paidIn paid op reg')
  then show ?case using stakeExec_effect [of sha reg op reg'] by (auto simp: changes_def)
qed

text \<open>A deposit into a rotated address: the registry has an account where the rotation says there is none.\<close>

definition grows :: "StakingRegistry \<Rightarrow> StakingRegistry \<Rightarrow> bool" where
  "grows reg reg' \<longleftrightarrow> rotationSuccessors reg' = rotationSuccessors reg \<and>
     (\<forall>v. map_of (stAccounts reg) v \<noteq> None \<longrightarrow> map_of (stAccounts reg') v \<noteq> None)"

definition poisoned :: "StakingRegistry \<Rightarrow> bool" where
  "poisoned reg \<longleftrightarrow> (\<exists>v. \<not> unrotated reg v \<and> map_of (stAccounts reg) v \<noteq> None)"

lemma grows_refl: "grows reg reg"
  by (simp add: grows_def)

lemma grows_trans: "grows reg reg1 \<Longrightarrow> grows reg1 reg2 \<Longrightarrow> grows reg reg2"
  by (auto simp: grows_def)

lemma grows_same [simp]: "grows (reg\<lparr>stPositions := ps\<rparr>) reg' = grows reg reg'"
    "grows (reg\<lparr>lifecycleRecords := rs\<rparr>) reg' = grows reg reg'" "grows reg (reg\<lparr>stPositions := ps\<rparr>)"
    "grows reg (reg\<lparr>stPositions := ps, lifecycleRecords := rs\<rparr>)" "grows reg (reg\<lparr>lifecycleRecords := rs\<rparr>)"
  by (simp_all add: grows_def)

lemma setAccount_grows: "setAccount sha v a reg = Inr reg' \<Longrightarrow> grows reg reg' \<and> map_of (stAccounts reg') v \<noteq> None"
  by (auto simp: setAccount_def Let_def grows_def split: if_splits)

lemma rewriteAccount_grows:
  "rewriteAccountFromPositions sha v j t reg = Inr reg' \<Longrightarrow> grows reg reg' \<and> map_of (stAccounts reg') v \<noteq> None"
  by (auto simp: rewriteAccountFromPositions_def split: option.splits dest!: setAccount_grows)

lemma updatePosition_grows:
  "updatePosition sha action txid w v amount h reason p reg = Inr reg' \<Longrightarrow> grows reg reg' \<and> map_of (stAccounts reg') v \<noteq> None"
  by (auto simp: updatePosition_def Let_def appendRecord_def grows_def split: option.splits dest!: rewriteAccount_grows)

lemma deposit_grows:
  "deposit sha w v amount h topUp txid reg = Inr reg' \<Longrightarrow> grows reg reg' \<and> map_of (stAccounts reg') v \<noteq> None"
  unfolding deposit_def Let_def
  by (auto simp del: bindR.simps split: if_splits dest!: updatePosition_grows)

lemma activateValidators_grows: "activateValidators sha b vs any reg = Inr (any', reg') \<Longrightarrow> grows reg reg'"
proof (induction vs arbitrary: any reg)
  case (Cons v vs)
  show ?case
  proof (cases "saTombstoned (stakeAccountOrDefault reg v)")
    case True
    then show ?thesis using Cons by simp
  next
    case False
    then show ?thesis
      using Cons.prems by (auto simp: Let_def split: if_splits dest!: Cons.IH rewriteAccount_grows intro: grows_trans)
  qed
qed (simp add: grows_refl)

lemma penalty_grows: "applyPenaltyState sha v due j t h reg = Inr reg' \<Longrightarrow> grows reg reg'"
  unfolding applyPenaltyState_def Let_def
  by (auto split: if_splits option.splits dest!: rewriteAccount_grows setAccount_grows intro: grows_trans)

lemma poisoned_invalid: "poisoned reg \<Longrightarrow> stakingValid sha reg \<noteq> Inr True"
proof
  assume "poisoned reg" and valid: "stakingValid sha reg = Inr True"
  then obtain v x where "map_of (rotationSuccessors reg) v = Some x" and "map_of (stAccounts reg) v \<noteq> None"
    by (auto simp: poisoned_def)
  then have mem: "(v, x) \<in> set (rotationSuccessors reg)" and "map_of (stAccounts reg) v \<noteq> None"
    by (auto dest: map_of_SomeD)
  then have "\<not> rotationSound reg v" by (auto simp: rotationSound_def split: sum.splits)
  then show False using valid mem
    by (auto simp: stakingValid_def list_all_iff split: if_splits)
qed

lemma grows_poisoned: "grows reg reg' \<Longrightarrow> poisoned reg \<Longrightarrow> poisoned reg'"
  by (auto simp: grows_def poisoned_def)

text \<open>The records of a rotation, and what they say of the successors.\<close>

lemma expectedRotations_keep:
  "expectedRotations m rs = Some m' \<Longrightarrow> map_of m k = Some x \<Longrightarrow> map_of m' k = Some x"
proof (induction rs arbitrary: m)
  case (Cons r rs)
  have "map_of m (slPrevious r) = None \<Longrightarrow> slPrevious r \<noteq> k" using Cons.prems(2) by auto
  then show ?case
    using Cons.prems Cons.IH [of m] Cons.IH [of "mapPut (slPrevious r) (slValidator r) m"] by (auto split: if_splits option.splits)
qed simp

lemma expectedRotations_mem:
  "expectedRotations m rs = Some m' \<Longrightarrow> r \<in> set rs \<Longrightarrow> slAction r = ''VALIDATOR_KEY_ROTATE'' \<Longrightarrow>
     map_of m' (slPrevious r) = Some (slValidator r)"
proof (induction rs arbitrary: m)
  case (Cons x rs)
  show ?case
  proof (cases "r \<in> set rs")
    case True
    then show ?thesis using Cons by (auto split: if_splits option.splits)
  next
    case False
    then have "x = r" using Cons.prems(2) by simp
    then show ?thesis
      using Cons.prems(1,3) expectedRotations_keep [of _ rs m' "slPrevious r" "slValidator r"] by (auto split: if_splits option.splits)
  qed
qed simp

lemma rotateRecords_told:
  "rotateRecords sha old new h txid ps rs = Inr (qs, rs') \<Longrightarrow>
     set rs \<subseteq> set rs' \<and> (ps \<noteq> [] \<longrightarrow> (\<exists>r\<in>set rs'. slAction r = ''VALIDATOR_KEY_ROTATE'' \<and> slPrevious r = old \<and> slValidator r = new))"
proof (induction ps arbitrary: rs qs)
  case (Cons e ps)
  let ?p = "(snd e)\<lparr>positionId := stakePositionId sha (fst e) new\<rparr>"
  obtain available rs1 qs1 where
    app: "appendLifecycleRecord sha ''VALIDATOR_KEY_ROTATE'' txid (fst e) new available h ?p (''validator key rotation from '' @ old) old rs = Inr rs1"
    and rest: "rotateRecords sha old new h txid ps rs1 = Inr (qs1, rs')"
    using Cons.prems by (auto simp: Let_def)
  have "\<exists>r. rs1 = rs @ [r] \<and> slAction r = ''VALIDATOR_KEY_ROTATE'' \<and> slPrevious r = old \<and> slValidator r = new"
    using app by (auto simp: appendLifecycleRecord_def Let_def split: if_splits)
  then show ?case using Cons.IH [OF rest] by auto
qed simp

text \<open>A poisoned registry whose recorded successors are all known: no key rotation passes its audit any more.\<close>

definition halted :: "StakingRegistry \<Rightarrow> bool" where
  "halted reg \<longleftrightarrow> poisoned reg \<and>
     (\<forall>v s. map_of (rotationSuccessors reg) v = Some s \<longrightarrow> map_of (stAccounts reg) s \<noteq> None \<or> \<not> unrotated reg s)"

lemma grows_halted: "grows reg reg' \<Longrightarrow> halted reg \<Longrightarrow> halted reg'"
  unfolding halted_def using grows_poisoned unfolding grows_def by metis

lemma successor_known:
  assumes inv: "stakeInv sha reg" and s: "map_of (rotationSuccessors reg) v = Some s"
  shows "map_of (stAccounts reg) s \<noteq> None \<or> \<not> unrotated reg s"
proof (cases "unrotated reg s")
  case True
  have mem: "(v, s) \<in> set (rotationSuccessors reg)" using s by (rule map_of_SomeD)
  then obtain n where "length (rotationSuccessors reg) = Suc n" by (cases "rotationSuccessors reg") auto
  then have "currentAddressFor reg v = Inr s" using s True by (simp add: currentAddressFor_def)
  moreover have "rotationSound reg v" using stakeInvD(4) [OF inv] mem by (auto simp: rotationsSound_def)
  ultimately show ?thesis by (simp add: rotationSound_def)
qed simp

lemma no_rotation_when_halted:
  assumes halt: "halted reg"
  shows "rotateValidatorAddress sha old new w h txid reg \<noteq> Inr reg'"
proof
  assume rot: "rotateValidatorAddress sha old new w h txid reg = Inr reg'"
  obtain a ps qs rs where qs: "rotateRecords sha old new h txid ps (lifecycleRecords reg) = Inr (qs, rs)" and w: "map_of ps w \<noteq> None"
    and reg': "reg' = \<lparr>stAccounts = mapPut new a (mapErase old (stAccounts reg)), stPositions = mapPut new qs (mapErase old (stPositions reg)),
             lifecycleRecords = rs, rotationSuccessors = snd (mapEmplace old new (rotationSuccessors reg))\<rparr>"
    and valid: "stakingValid sha reg' = Inr True"
    using rotateValidatorAddress_steps [OF rot] by blast
  have fresh: "map_of (stAccounts reg) new = None" "unrotated reg new"
    using rot by (auto simp: rotateValidatorAddress_def split: if_splits)
  obtain v where v: "\<not> unrotated reg v" "map_of (stAccounts reg) v \<noteq> None" using halt by (auto simp: halted_def poisoned_def)
  show False
  proof (cases "v = old")
    case False
    then have "poisoned reg'" using v by (auto simp: poisoned_def reg' mapEmplace_def split: option.splits)
    then show False using poisoned_invalid valid by blast
  next
    case True
    then have "rotationSuccessors reg' = rotationSuccessors reg" using v(1) by (auto simp: reg' mapEmplace_def)
    moreover have "expectedRotations [] rs = Some (rotationSuccessors reg')"
      using valid by (auto simp: stakingValid_def reg' split: if_splits)
    moreover have "\<exists>r\<in>set rs. slAction r = ''VALIDATOR_KEY_ROTATE'' \<and> slPrevious r = old \<and> slValidator r = new"
      using rotateRecords_told [OF qs] w by auto
    ultimately have "map_of (rotationSuccessors reg) old = Some new" using expectedRotations_mem by metis
    then show False using halt fresh unfolding halted_def by blast
  qed
qed

lemma stakeExec_halted:
  assumes "halted reg" and "stakeExec sha op reg = Inr reg'"
  shows "halted reg'"
proof (cases op)
  case (RotateStake old new w h txid)
  then show ?thesis using no_rotation_when_halted [OF assms(1)] assms(2) by simp
next
  case (WithdrawStake w v amount h now txid)
  then show ?thesis using assms withdraw_checked [of sha w v amount h now txid reg reg'] updatePosition_grows grows_halted by fastforce
next
  case (ActivateStakes h)
  then show ?thesis
    using assms by (auto simp: activatePending_def split: if_splits dest!: activateValidators_grows dest: grows_halted)
next
  case (UnlockStake w v amount h now txid)
  then have "grows reg reg'"
    using assms(2) by (auto simp: requestUnlock_def Let_def split: if_splits option.splits dest!: updatePosition_grows)
  then show ?thesis using assms(1) grows_halted by blast
next
  case (ExitStake w v h now txid)
  then have "grows reg reg'"
    using assms(2)
    by (auto simp: requestValidatorExit_def Let_def grows_refl split: if_splits option.splits dest!: updatePosition_grows)
  then show ?thesis using assms(1) grows_halted by blast
next
  case (UnjailStake v)
  then have "grows reg reg'" using assms(2) by (auto simp: unjail_def Let_def split: if_splits dest!: setAccount_grows)
  then show ?thesis using assms(1) grows_halted by blast
qed (use assms grows_halted deposit_grows penalty_grows in \<open>auto dest!: deposit_grows penalty_grows\<close>)

text \<open>Any operations, one after the other; one that throws leaves the registry as it was.\<close>

definition stakeStep :: "sha256 \<Rightarrow> StakeOp \<Rightarrow> StakingRegistry \<Rightarrow> StakingRegistry" where
  "stakeStep sha op reg = (case stakeExec sha op reg of Inl _ \<Rightarrow> reg | Inr reg' \<Rightarrow> reg')"

interpretation halts: component "stakeStep sha" "\<lambda>_. True" halted for sha
  by unfold_locales (auto simp: stakeStep_def intro: stakeExec_halted split: sum.split)

subsection \<open>Restoring a registry\<close>

lemma restorePositions_append: "restorePositions sha (xs @ ys) m = restorePositions sha ys (restorePositions sha xs m)"
  by (induction sha xs m rule: restorePositions.induct) (auto simp: Let_def)

lemma positionId_same: "positionValid sha v w p \<Longrightarrow> p\<lparr>positionId := stakePositionId sha w v\<rparr> = p"
  by (simp add: positionValid_def)

lemma restorePositions_more:
  assumes "\<forall>e\<in>set m. fst e < v" and "mapOk (front @ ps)" and "positionsValid sha v ps"
  shows "restorePositions sha (map (\<lambda>(w, p). viewFor v w p) ps) (m @ [(v, front)]) = m @ [(v, front @ ps)]"
  using assms(2,3)
proof (induction ps arbitrary: front)
  case (Cons e ps)
  obtain w p where e: "e = (w, p)" by force
  have "\<forall>x\<in>set front. fst x < w" using Cons.prems(1) by (auto simp: mapOk_def sorted_wrt_append e)
  moreover have "p\<lparr>positionId := stakePositionId sha w v\<rparr> = p"
    using Cons.prems(2) by (intro positionId_same) (auto simp: positionsValid_def e)
  ultimately have "restorePositions sha (map (\<lambda>(w, p). viewFor v w p) (e # ps)) (m @ [(v, front)])
      = restorePositions sha (map (\<lambda>(w, p). viewFor v w p) ps) (m @ [(v, front @ [e])])"
    by (simp add: e viewFor_def Let_def map_add_def map_of_last [OF assms(1)] mapPut_last [OF assms(1)] mapPut_last(1))
  then show ?case using Cons.IH [of "front @ [e]"] Cons.prems by (simp add: positionsValid_def)
qed simp

lemma restorePositions_one:
  assumes "\<forall>e\<in>set m. fst e < v" and "mapOk ps" and "positionsValid sha v ps"
  shows "restorePositions sha (map (\<lambda>(w, p). viewFor v w p) ps) m = (if ps = [] then m else m @ [(v, ps)])"
proof (cases ps)
  case (Cons e qs)
  obtain w p where e: "e = (w, p)" by force
  have "p\<lparr>positionId := stakePositionId sha w v\<rparr> = p"
    using assms(3) by (intro positionId_same) (auto simp: positionsValid_def e Cons)
  then have "restorePositions sha (map (\<lambda>(w, p). viewFor v w p) ps) m = restorePositions sha (map (\<lambda>(w, p). viewFor v w p) qs) (m @ [(v, [e])])"
    by (simp add: Cons e viewFor_def Let_def map_of_last [OF assms(1)] mapPut_last(1) [OF assms(1)])
  then show ?thesis
    using restorePositions_more [OF assms(1), of "[e]" qs] assms(2,3) by (simp add: Cons positionsValid_def)
qed simp

lemma restorePositions_all:
  assumes "mapOk (m @ ms)" and "\<forall>e\<in>set ms. mapOk (snd e) \<and> positionsValid sha (fst e) (snd e)"
  shows "restorePositions sha (concat (map (\<lambda>(v, ps). map (\<lambda>(w, p). viewFor v w p) ps) ms)) m = m @ filter (\<lambda>e. snd e \<noteq> []) ms"
  using assms
proof (induction ms arbitrary: m)
  case (Cons e ms)
  obtain v ps where e: "e = (v, ps)" by force
  have "\<forall>x\<in>set m. fst x < v" using Cons.prems(1) by (auto simp: mapOk_def sorted_wrt_append e)
  then have one: "restorePositions sha (map (\<lambda>(w, p). viewFor v w p) ps) m = (if ps = [] then m else m @ [e])"
    using Cons.prems(2) by (simp add: restorePositions_one e)
  have "mapOk (m @ ms)" using Cons.prems(1) by (auto simp: mapOk_def sorted_wrt_append)
  then show ?case
    using one Cons.IH [of m] Cons.IH [of "m @ [e]"] Cons.prems by (auto simp: restorePositions_append e)
qed simp

lemma restoreRotations_expected: "expectedRotations m rs = Some m' \<Longrightarrow> restoreRotations rs m = Inr m'"
  by (induction rs arbitrary: m) (auto simp: mapEmplace_def Let_def split: if_splits option.splits)

definition withoutEmpty :: "StakingRegistry \<Rightarrow> StakingRegistry" where
  "withoutEmpty reg = reg\<lparr>stPositions := filter (\<lambda>e. snd e \<noteq> []) (stPositions reg)\<rparr>"

lemma withoutEmpty_valid:
  assumes "stakeInv sha reg"
  shows "stakingValid sha (withoutEmpty reg) = Inr True"
proof -
  note inv = stakeInvD [OF assms]
  have "stakeTyped (withoutEmpty reg)" using inv(1) by (simp add: stakeTyped_def withoutEmpty_def) (metis snd_conv)
  moreover have "accountsSound (withoutEmpty reg)" "positionsSound sha (withoutEmpty reg)"
    using inv(2,3) by (auto simp: accountsSound_def positionsSound_def withoutEmpty_def)
  moreover have "rotationSound (withoutEmpty reg) v = rotationSound reg v" for v
    by (simp add: rotationSound_def currentAddressFor_def withoutEmpty_def split: sum.split)
  then have "rotationsSound (withoutEmpty reg)" using inv(4) by (simp add: rotationsSound_def) (simp add: withoutEmpty_def)
  ultimately show ?thesis by (simp add: stakingValid_iff)
qed

lemma restoreStaking_exact:
  assumes "stakeInv sha reg"
  shows "restoreStaking sha (stAccounts reg) (stakePositions reg) (lifecycleRecords reg) = Inr (withoutEmpty reg)"
proof -
  note inv = stakeInvD [OF assms]
  have "restoreRotations (lifecycleRecords reg) [] = Inr (rotationSuccessors reg)"
    using inv(4) by (simp add: rotationsSound_def restoreRotations_expected)
  moreover have "restorePositions sha (stakePositions reg) [] = filter (\<lambda>e. snd e \<noteq> []) (stPositions reg)"
    using restorePositions_all [of "[]" "stPositions reg" sha] inv(1,3) by (simp add: stakePositions_def stakeTyped_def positionsSound_def)
  moreover have "\<lparr>stAccounts = stAccounts reg, stPositions = filter (\<lambda>e. snd e \<noteq> []) (stPositions reg),
      lifecycleRecords = lifecycleRecords reg, rotationSuccessors = rotationSuccessors reg\<rparr> = withoutEmpty reg"
    by (simp add: withoutEmpty_def)
  ultimately show ?thesis using withoutEmpty_valid [OF assms] by (simp add: restoreStaking_def Let_def)
qed

subsection \<open>A run to evaluate\<close>

fun stakeRun :: "sha256 \<Rightarrow> StakeOp list \<Rightarrow> StakingRegistry \<Rightarrow> StakingRegistry option" where
  "stakeRun sha [] reg = Some reg"
| "stakeRun sha (op # ops) reg =
     (if \<not> aimed reg op then None else case stakeExec sha op reg of Inl _ \<Rightarrow> None | Inr reg' \<Rightarrow> stakeRun sha ops reg')"

lemma stakeRun_reach:
  "stakeReach sha reg paidIn paid \<Longrightarrow> stakeRun sha ops reg = Some reg' \<Longrightarrow>
     stakeReach sha reg' (paidIn + (\<Sum>op\<leftarrow>ops. deposited op)) (paid + (\<Sum>op\<leftarrow>ops. withdrawnBy op))"
proof (induction ops arbitrary: reg paidIn paid)
  case (Cons op ops)
  then obtain reg1 where "aimed reg op" and "stakeExec sha op reg = Inr reg1" and rest: "stakeRun sha ops reg1 = Some reg'"
    by (auto split: if_splits sum.splits)
  then have "stakeReach sha reg1 (paidIn + deposited op) (paid + withdrawnBy op)" using Cons.prems(1) stakeReach.step by blast
  from Cons.IH [OF this rest] show ?case by (simp add: add.assoc)
qed simp

abbreviation zeroSha :: sha256 where
  "zeroSha \<equiv> \<lambda>s. 0"

definition demoStakeOps :: "StakeOp list" where
  "demoStakeOps =
     [DepositStake ''a'' ''v'' (Amount 5000) 1 False ''t1'', ActivateStakes 86401,
      UnlockStake ''a'' ''v'' (Amount 2000) 86402 1000 ''t2'']"

definition demoLaterOps :: "StakeOp list" where
  "demoLaterOps =
     [WithdrawStake ''a'' ''v'' (Amount 1500) 1296002 2420500 ''t3'', PenalizeStake ''v'' (Amount 300) True False 1296003,
      RotateStake ''v'' ''u'' ''a'' 1296004 ''t4'']"

definition demoUnbonding :: StakingRegistry where
  "demoUnbonding = the (stakeRun zeroSha demoStakeOps noStake)"

definition demoRotated :: StakingRegistry where
  "demoRotated = the (stakeRun zeroSha demoLaterOps demoUnbonding)"

lemma demo_unbonding: "stakeRun zeroSha demoStakeOps noStake \<noteq> None"
  by code_simp

lemma demo_rotated: "stakeRun zeroSha demoLaterOps demoUnbonding \<noteq> None"
  by code_simp

lemma demo_start: "stakeReach zeroSha noStake 0 0"
proof -
  have "stakeSum avail noStake = 0" by (simp add: noStake_def stakeSum_def)
  moreover have "seedGenesisStakeAccounts zeroSha [] noStake = Inr noStake"
    by (simp add: seedGenesisStakeAccounts_def activeValidatorAddresses_def addressesWhere_def)
  ultimately show ?thesis using stakeReach.start [of zeroSha "[]" noStake] by simp
qed

lemma demo_reach: "stakeReach zeroSha demoUnbonding 5000 0" "stakeReach zeroSha demoRotated 5000 1500"
proof -
  show first: "stakeReach zeroSha demoUnbonding 5000 0"
    using stakeRun_reach [OF demo_start, of demoStakeOps demoUnbonding] demo_unbonding
    by (auto simp: demoUnbonding_def demoStakeOps_def)
  show "stakeReach zeroSha demoRotated 5000 1500"
    using stakeRun_reach [OF first, of demoLaterOps demoRotated] demo_rotated
    by (auto simp: demoRotated_def demoLaterOps_def)
qed

definition demoPoisoned :: StakingRegistry where
  "demoPoisoned = projr (deposit zeroSha ''b'' ''v'' (Amount 10) 1296005 False ''t5'' demoRotated)"

lemma demo_poisoned: "deposit zeroSha ''b'' ''v'' (Amount 10) 1296005 False ''t5'' demoRotated = Inr demoPoisoned"
proof -
  have "\<not> isl (deposit zeroSha ''b'' ''v'' (Amount 10) 1296005 False ''t5'' demoRotated)" by code_simp
  then show ?thesis by (simp add: demoPoisoned_def)
qed

lemma demo_not_unrotated: "\<not> unrotated demoRotated ''v''"
  by code_simp

subsection \<open>Properties\<close>



lemma window_closed:
  fixes start h :: u64
  assumes "\<not> start > U64_MAX - UNBONDING_DELAY_BLOCKS" and "start + UNBONDING_DELAY_BLOCKS \<le> h" and "offense \<le> start" and "h \<le> inclusion"
  shows "\<not> evidenceHeightIsAdmissible offense inclusion"
proof -
  have "unat (UNBONDING_DELAY_BLOCKS) = 1209600" by (simp add: UNBONDING_DELAY_BLOCKS_def NODO_VALIDATOR_EPOCH_BLOCKS_def)
  moreover have "unat start + 1209600 < 2 ^ 64"
    using assms(1) by (simp add: not_less word_le_nat_alt UNBONDING_DELAY_BLOCKS_def NODO_VALIDATOR_EPOCH_BLOCKS_def U64_MAX_def)
  ultimately have "unat start + 1209600 \<le> unat h" using assms(2) by (simp add: word_le_nat_alt unat_word_ariths)
  moreover have "unat offense \<le> unat start" "unat h \<le> unat inclusion" using assms(3,4) by (simp_all add: word_le_nat_alt)
  ultimately have "unat (inclusion - offense) \<ge> 1209600" by (subst unat_sub) (auto simp: word_le_nat_alt)
  then show ?thesis
    by (auto simp: evidenceHeightIsAdmissible_def kEvidenceMaxAgeBlocks_def NODO_VALIDATOR_EPOCH_BLOCKS_def word_le_nat_alt)
qed

text \<open>C12: C?: stake is paid out only from a position whose unbonding began so long ago that no evidence of an offence
  committed up to that moment can be admitted in this block or any later one, and never from a jailed or tombstoned
  validator; 28 days and five minutes have passed as well.\<close>

theorem withdrawal_after_evidence_window:
  assumes "stakeReach sha reg paidIn paid" and "withdraw sha owner validator amount height now txid reg = Inr reg'"
  shows "\<exists>p. map_of (positionsOf validator reg) owner = Some p \<and> amount \<le> pendingUnbondingAmount p \<and>
           (\<forall>offense\<le>unbondingStartHeight p. \<forall>inclusion\<ge>height. \<not> evidenceHeightIsAdmissible offense inclusion) \<and>
           unbondingStartTime p + 28 * 24 * 60 * 60 + 300 \<le> now \<and>
           \<not> saJailed (stakeAccountOrDefault reg validator) \<and> \<not> saTombstoned (stakeAccountOrDefault reg validator)"
proof -
  have inv: "stakeInv sha reg" using stakeReach_inv [OF assms(1)] by blast
  obtain p where p: "map_of (positionsOf validator reg) owner = Some p" and amt: "isPositive amount" "amount \<le> pendingUnbondingAmount p"
    and due: "withdrawableHeight p \<le> height" "withdrawableTime p \<le> now"
    and free: "\<not> saJailed (stakeAccountOrDefault reg validator)" "\<not> saTombstoned (stakeAccountOrDefault reg validator)"
    using withdraw_checked [OF assms(2)] by blast
  have "isPositive (pendingUnbondingAmount p)" using amt by (auto simp: isPositive_def less_eq_Amount_def)
  then have start: "\<not> unbondingStartHeight p > U64_MAX - UNBONDING_DELAY_BLOCKS"
    "withdrawableHeight p = unbondingStartHeight p + UNBONDING_DELAY_BLOCKS"
    "withdrawableTime p = unbondingStartTime p + kUnbondingSeconds + kFutureBlockSkewSeconds"
    using position_ok(2) [OF inv p] by (auto simp: positionValid_def)
  have "\<not> evidenceHeightIsAdmissible offense inclusion" if "offense \<le> unbondingStartHeight p" "height \<le> inclusion" for offense inclusion
    using window_closed [OF start(1) _ that(1), of height inclusion] start(2) due(1) that(2) by simp
  then show ?thesis using p amt free due start(3) by (auto simp: kUnbondingSeconds_def kFutureBlockSkewSeconds_def)
qed

theorem withdrawal_after_evidence_window_witness:
  "\<exists>p. map_of (positionsOf ''v'' demoUnbonding) ''a'' = Some p \<and> Amount 1500 \<le> pendingUnbondingAmount p \<and>
     (\<forall>offense\<le>unbondingStartHeight p. \<forall>inclusion\<ge>1296002. \<not> evidenceHeightIsAdmissible offense inclusion) \<and>
     unbondingStartTime p + 28 * 24 * 60 * 60 + 300 \<le> 2420500 \<and>
     \<not> saJailed (stakeAccountOrDefault demoUnbonding ''v'') \<and> \<not> saTombstoned (stakeAccountOrDefault demoUnbonding ''v'')"
proof -
  have "\<not> isl (withdraw zeroSha ''a'' ''v'' (Amount 1500) 1296002 2420500 ''t3'' demoUnbonding)" by code_simp
  then obtain reg' where "withdraw zeroSha ''a'' ''v'' (Amount 1500) 1296002 2420500 ''t3'' demoUnbonding = Inr reg'"
    by (cases "withdraw zeroSha ''a'' ''v'' (Amount 1500) 1296002 2420500 ''t3'' demoUnbonding") auto
  then show ?thesis by (rule withdrawal_after_evidence_window [OF demo_reach(1)])
qed

text \<open>C39: C?: a deposit into a validator address that key rotation has retired is accepted, and whatever the registry does
  afterwards, the reconciliation of the voting weights throws at every epoch boundary.\<close>

theorem rotated_deposit_halts_epochs:
  assumes "stakeReach sha reg paidIn paid" and "map_of (rotationSuccessors reg) validator \<noteq> None"
    and "deposit sha owner validator amount height topUp txid reg = Inr reg1" and "weightEpochBoundary boundary"
  shows "\<exists>e. synchronizeAtEpochBoundary sha boundary timestamp (fold (stakeStep sha) ops reg1) validators = Inl e"
proof -
  have inv: "stakeInv sha reg" using stakeReach_inv [OF assms(1)] by blast
  have "grows reg reg1" "map_of (stAccounts reg1) validator \<noteq> None" using deposit_grows [OF assms(3)] by auto
  then have "halted reg1"
    using assms(2) successor_known [OF inv] unfolding halted_def poisoned_def grows_def by metis
  then have "poisoned (fold (stakeStep sha) ops reg1)" using halts.run_inv [of reg1 ops sha] by (simp add: halted_def list_all_iff)
  then have "stakingValid sha (fold (stakeStep sha) ops reg1) \<noteq> Inr True" by (rule poisoned_invalid)
  then show ?thesis
    using assms(4) by (cases "stakingValid sha (fold (stakeStep sha) ops reg1)") (auto simp: synchronizeAtEpochBoundary_def weightEpochBoundary_def)
qed

theorem rotated_deposit_halts_epochs_witness:
  "\<exists>e. synchronizeAtEpochBoundary zeroSha 1339200 1 (fold (stakeStep zeroSha) [UnjailStake ''v''] demoPoisoned) [] = Inl e"
proof (rule rotated_deposit_halts_epochs [OF demo_reach(2) demo_not_unrotated demo_poisoned])
  show "weightEpochBoundary 1339200" by code_simp
qed



end
