(* ===== verification/Votes.thy ===== *)
theory Votes
  imports SetHistory TextParse
begin

section \<open>Votes, the vote pool and the network collector\<close>

text \<open>
  \<open>src/consensus/ValidatorVoteRecord.cpp\<close>, \<open>VotePool.cpp\<close> and \<open>NetworkVoteCollector.cpp\<close>. A
  signed vote names a block by height, hash and round; the pool keeps the first vote of every
  validator for a height, round and decision, groups the stored votes by block, and keeps a
  bounded number of conflicting votes as evidence; the collector in front of it filters by
  height, round and eligibility.

  The pool's maps are ordered association lists; the set of vote identifiers is a set.
\<close>

subsection \<open>Votes\<close>

datatype ValidatorVoteDecision = Vote_UNKNOWN | REJECT | PREVOTE | PRECOMMIT

fun validatorVoteDecisionToString :: "ValidatorVoteDecision \<Rightarrow> string" where
  "validatorVoteDecisionToString REJECT = ''REJECT''"
| "validatorVoteDecisionToString PREVOTE = ''PREVOTE''"
| "validatorVoteDecisionToString PRECOMMIT = ''PRECOMMIT''"
| "validatorVoteDecisionToString Vote_UNKNOWN = ''UNKNOWN''"

record ValidatorVoteRecord =
  voteAddress :: string
  votePublicKey :: PublicKey
  voteIndex :: u64
  voteHash :: string
  votePrevious :: string
  voteRound :: u64
  voteDecision :: ValidatorVoteDecision
  voteReason :: string
  voteCreatedAt :: int
  voteBundle :: SignatureBundle

definition voteSerialize :: "sha256 \<Rightarrow> ValidatorVoteRecord \<Rightarrow> string" where
  "voteSerialize sha v =
     ''ValidatorVoteRecord{validatorAddress='' @ voteAddress v
       @ '';validatorPublicKey='' @ publicKeySerialize (votePublicKey v)
       @ '';validatorPublicKeyFingerprint='' @ fingerprint sha (votePublicKey v)
       @ '';blockIndex='' @ showU64 (voteIndex v)
       @ '';blockHash='' @ voteHash v
       @ '';previousHash='' @ votePrevious v
       @ '';round='' @ showU64 (voteRound v)
       @ '';decision='' @ validatorVoteDecisionToString (voteDecision v)
       @ '';reasonHash='' @ voteReason v
       @ '';createdAt='' @ showI64 (voteCreatedAt v)
       @ '';signatureBundle='' @ bundleSerialize (voteBundle v) @ ''}''"

definition voteId :: "sha256 \<Rightarrow> ValidatorVoteRecord \<Rightarrow> string" where
  "voteId sha v = hashCString sha (''NODO_VALIDATOR_VOTE_RECORD_ID_V1|'' @ voteSerialize sha v)"

definition matchesBlock :: "ValidatorVoteRecord \<Rightarrow> u64 \<Rightarrow> string \<Rightarrow> u64 \<Rightarrow> bool" where
  "matchesBlock v i h r \<longleftrightarrow> voteIndex v = i \<and> voteHash v = h \<and> voteRound v = r"

definition isValidatorAddressBoundToPublicKey :: "sha256 \<Rightarrow> string \<Rightarrow> PublicKey \<Rightarrow> bool" where
  "isValidatorAddressBoundToPublicKey sha a pk =
     (if \<not> addressValid sha a then False else verifyAddressForPublicKey sha a pk)"

definition voteStructurallyValid :: "sha256 \<Rightarrow> CryptoPolicy \<Rightarrow> ValidatorVoteRecord \<Rightarrow> bool" where
  "voteStructurallyValid sha policy v =
     (if \<not> isSafeScalar (voteAddress v) \<or> \<not> isSafeScalar (voteHash v) \<or>
         \<not> isSafeScalar (votePrevious v) \<or> \<not> isSafeScalar (voteReason v) then False
      else if \<not> publicKeyValid (votePublicKey v) then False
      else if \<not> isValidatorAddressBoundToPublicKey sha (voteAddress v) (votePublicKey v) then False
      else if voteIndex v = 0 \<or> voteRound v = 0 \<or> voteCreatedAt v \<le> 0 then False
      else if voteDecision v = Vote_UNKNOWN then False
      else if voteBundle v = [] then False
      else if \<not> isValidForPolicy policy VALIDATOR_OPERATION (voteBundle v) then False
      else True)"

definition buildSigningPayload :: "sha256 \<Rightarrow> ValidatorVoteRecord \<Rightarrow> string result" where
  "buildSigningPayload sha v =
     (if \<not> isSafeScalar (voteAddress v) \<or> \<not> isSafeScalar (voteHash v) \<or>
         \<not> isSafeScalar (votePrevious v) \<or> \<not> isSafeScalar (voteReason v)
      then Inl (InvalidArgument ''Unsafe scalar rejected by ValidatorVoteRecord.'')
      else if \<not> publicKeyValid (votePublicKey v)
      then Inl (InvalidArgument ''Validator vote public key is invalid.'')
      else if \<not> isValidatorAddressBoundToPublicKey sha (voteAddress v) (votePublicKey v)
      then Inl (InvalidArgument ''Validator vote address is not bound to public key.'')
      else if voteIndex v = 0 \<or> voteRound v = 0 \<or> voteCreatedAt v \<le> 0
      then Inl (InvalidArgument ''Validator vote numeric fields are invalid.'')
      else if voteDecision v = Vote_UNKNOWN
      then Inl (InvalidArgument ''Validator vote decision is UNKNOWN.'')
      else Inr (''ValidatorVoteSigningPayload{version=NODO_VALIDATOR_VOTE_PAYLOAD_V1''
        @ '';validatorAddress='' @ voteAddress v
        @ '';validatorPublicKey='' @ publicKeySerialize (votePublicKey v)
        @ '';validatorPublicKeyFingerprint='' @ fingerprint sha (votePublicKey v)
        @ '';blockIndex='' @ showU64 (voteIndex v)
        @ '';blockHash='' @ voteHash v
        @ '';previousHash='' @ votePrevious v
        @ '';round='' @ showU64 (voteRound v)
        @ '';decision='' @ validatorVoteDecisionToString (voteDecision v)
        @ '';reasonHash='' @ voteReason v
        @ '';createdAt='' @ showI64 (voteCreatedAt v) @ ''}''))"

text \<open>
  The payload of a structurally valid vote never throws (\<open>payload_total\<close>), so the branch in which
  the exception would leave \<open>verify\<close> is not taken.
\<close>

definition voteVerify ::
    "sha256 \<Rightarrow> CryptoPolicy \<Rightarrow> SignatureProvider \<Rightarrow> ValidatorVoteRecord \<Rightarrow> bool" where
  "voteVerify sha policy provider v =
     (if \<not> voteStructurallyValid sha policy v then False
      else case buildSigningPayload sha v of
             Inl _ \<Rightarrow> False
           | Inr payload \<Rightarrow> verifyForPolicy payload policy VALIDATOR_OPERATION provider (voteBundle v))"

definition createVote ::
    "sha256 \<Rightarrow> SignatureProvider \<Rightarrow> string \<Rightarrow> ValidatorVoteRecord \<Rightarrow> ValidatorVoteRecord result" where
  "createVote sha provider privateKey v =
     bindR (buildSigningPayload sha v) (\<lambda>payload.
     bindR (createSignature payload (votePublicKey v) privateKey (voteCreatedAt v) provider VALIDATOR_VOTE)
       (\<lambda>bundle. Inr (v\<lparr>voteBundle := bundle\<rparr>)))"

lemma payload_total:
  "voteStructurallyValid sha policy v \<Longrightarrow> \<exists>p. buildSigningPayload sha v = Inr p"
  by (auto simp: voteStructurallyValid_def buildSigningPayload_def split: if_splits)

subsection \<open>The pool\<close>

datatype VotePoolStatus = Pool_ACCEPTED | Pool_DUPLICATE | Pool_CONFLICTING_VOTE | Pool_INVALID_VOTE

record VotePoolResult =
  poolStatus :: VotePoolStatus
  poolReason :: string

datatype VotePoolBlockKey = VotePoolBlockKey (keyIndex: u64) (keyHash: string) (keyRound: u64)

instantiation VotePoolBlockKey :: linorder
begin

definition less_VotePoolBlockKey :: "VotePoolBlockKey \<Rightarrow> VotePoolBlockKey \<Rightarrow> bool" where
  "less_VotePoolBlockKey a b =
     (if keyIndex a \<noteq> keyIndex b then keyIndex a < keyIndex b
      else if keyRound a \<noteq> keyRound b then keyRound a < keyRound b
      else keyHash a < keyHash b)"

definition less_eq_VotePoolBlockKey :: "VotePoolBlockKey \<Rightarrow> VotePoolBlockKey \<Rightarrow> bool" where
  "less_eq_VotePoolBlockKey a b \<longleftrightarrow> a < b \<or> a = b"

instance
proof
  fix x y z :: VotePoolBlockKey
  show "x \<le> y \<or> y \<le> x"
    by (cases x; cases y) (auto simp: less_eq_VotePoolBlockKey_def less_VotePoolBlockKey_def)
qed (auto simp: less_eq_VotePoolBlockKey_def less_VotePoolBlockKey_def split: if_splits)

end

record VotePool =
  votesByBlock :: "(VotePoolBlockKey, ValidatorVoteRecord list) smap"
  voteByValidator :: "(string, ValidatorVoteRecord) smap"
  voteIds :: "string set"
  conflictingVotes :: "ValidatorVoteRecord list"
  conflictingVoteCounts :: "(string, int) smap"

definition emptyPool :: VotePool where
  "emptyPool = \<lparr>votesByBlock = [], voteByValidator = [], voteIds = {}, conflictingVotes = [],
                conflictingVoteCounts = []\<rparr>"

definition kMaxConflictingVotesPerKey :: int where
  "kMaxConflictingVotesPerKey = 10"

definition voterKey :: "string \<Rightarrow> u64 \<Rightarrow> u64 \<Rightarrow> ValidatorVoteDecision \<Rightarrow> string" where
  "voterKey a i r d = a @ ''#'' @ showU64 i @ ''#'' @ showU64 r @ ''#'' @ validatorVoteDecisionToString d"

definition validatorHeightRoundKey :: "ValidatorVoteRecord \<Rightarrow> string" where
  "validatorHeightRoundKey v = voterKey (voteAddress v) (voteIndex v) (voteRound v) (voteDecision v)"

definition blockKeyOf :: "ValidatorVoteRecord \<Rightarrow> VotePoolBlockKey" where
  "blockKeyOf v = VotePoolBlockKey (voteIndex v) (voteHash v) (voteRound v)"

definition sameVoteDecision :: "ValidatorVoteRecord \<Rightarrow> ValidatorVoteRecord \<Rightarrow> bool" where
  "sameVoteDecision l r \<longleftrightarrow>
     voteAddress l = voteAddress r \<and> voteIndex l = voteIndex r \<and> voteHash l = voteHash r \<and>
     votePrevious l = votePrevious r \<and> voteRound l = voteRound r \<and> voteDecision l = voteDecision r"

definition isMinimallyValidVote ::
    "sha256 \<Rightarrow> CryptoPolicy \<Rightarrow> SignatureProvider \<Rightarrow> ValidatorVoteRecord \<Rightarrow> bool" where
  "isMinimallyValidVote sha policy provider v =
     (if voteAddress v = [] \<or> voteIndex v = 0 \<or> voteHash v = [] \<or> votePrevious v = [] \<or>
         voteRound v = 0 \<or> voteDecision v = Vote_UNKNOWN \<or> voteCreatedAt v \<le> 0 then False
      else if developmentMode policy then True
      else voteVerify sha policy provider v)"

definition poolResult :: "VotePoolStatus \<Rightarrow> string \<Rightarrow> VotePoolResult" where
  "poolResult s r = \<lparr>poolStatus = s, poolReason = r\<rparr>"

definition submitVote ::
    "sha256 \<Rightarrow> CryptoPolicy \<Rightarrow> SignatureProvider \<Rightarrow> ValidatorVoteRecord \<Rightarrow> VotePool
       \<Rightarrow> VotePoolResult \<times> VotePool" where
  "submitVote sha policy provider vote pool =
     (if \<not> isMinimallyValidVote sha policy provider vote
      then (poolResult Pool_INVALID_VOTE ''Vote failed minimal pool validation.'', pool)
      else let ident = voteId sha vote in
      if ident = [] then (poolResult Pool_INVALID_VOTE ''Vote deterministic id is empty.'', pool)
      else if ident \<in> voteIds pool
      then (poolResult Pool_DUPLICATE ''Validator vote id already exists in pool.'', pool)
      else let key = validatorHeightRoundKey vote in
      case map_of (voteByValidator pool) key of
        Some existing \<Rightarrow>
          if sameVoteDecision existing vote
          then (poolResult Pool_DUPLICATE ''Validator vote already exists in pool.'', pool)
          else let count = (case map_of (conflictingVoteCounts pool) key of Some n \<Rightarrow> n | None \<Rightarrow> 0)
               in if count \<ge> kMaxConflictingVotesPerKey
                  then (poolResult Pool_CONFLICTING_VOTE ''Validator submitted a conflicting vote.'', pool)
                  else (poolResult Pool_CONFLICTING_VOTE ''Validator submitted a conflicting vote.'',
                        pool\<lparr>conflictingVotes := conflictingVotes pool @ [vote],
                             conflictingVoteCounts := mapPut key (count + 1) (conflictingVoteCounts pool)\<rparr>)
      | None \<Rightarrow>
          let bk = blockKeyOf vote;
              votes = (case map_of (votesByBlock pool) bk of Some vs \<Rightarrow> vs | None \<Rightarrow> [])
          in (poolResult Pool_ACCEPTED ''Vote accepted into pool.'',
              pool\<lparr>votesByBlock := mapPut bk (votes @ [vote]) (votesByBlock pool),
                   voteByValidator := mapPut key vote (voteByValidator pool),
                   voteIds := insert ident (voteIds pool)\<rparr>))"

definition votesForBlock :: "VotePool \<Rightarrow> u64 \<Rightarrow> string \<Rightarrow> u64 \<Rightarrow> ValidatorVoteRecord list" where
  "votesForBlock pool i h r =
     (case map_of (votesByBlock pool) (VotePoolBlockKey i h r) of None \<Rightarrow> [] | Some vs \<Rightarrow> vs)"

definition hasConflictingVote :: "VotePool \<Rightarrow> string \<Rightarrow> u64 \<Rightarrow> u64 \<Rightarrow> bool" where
  "hasConflictingVote pool a i r \<longleftrightarrow>
     list_ex (\<lambda>v. voteAddress v = a \<and> voteIndex v = i \<and> voteRound v = r) (conflictingVotes pool)"

definition firstVoteForValidator ::
    "VotePool \<Rightarrow> string \<Rightarrow> u64 \<Rightarrow> u64 \<Rightarrow> ValidatorVoteDecision \<Rightarrow> ValidatorVoteRecord option" where
  "firstVoteForValidator pool a i r d = map_of (voteByValidator pool) (voterKey a i r d)"

definition existingVoteConflictingWith ::
    "VotePool \<Rightarrow> ValidatorVoteRecord \<Rightarrow> ValidatorVoteRecord option" where
  "existingVoteConflictingWith pool vote =
     (case map_of (voteByValidator pool) (validatorHeightRoundKey vote) of
        None \<Rightarrow> None
      | Some existing \<Rightarrow> if sameVoteDecision existing vote then None else Some existing)"

definition totalVoteCount :: "VotePool \<Rightarrow> nat" where
  "totalVoteCount pool = length (voteByValidator pool)"

text \<open>The height part of a pool key, as \<open>prune\<close> cuts it out: between the first two \<open>#\<close>.\<close>

definition keyHeightText :: "string \<Rightarrow> string option" where
  "keyHeightText key =
     (let rest = dropWhile (\<lambda>c. c \<noteq> CHR ''#'') key in
      if rest = [] then None
      else let tail = tl rest;
               height = takeWhile (\<lambda>c. c \<noteq> CHR ''#'') tail
           in if length height = length tail then None else Some height)"

definition countObsolete :: "u64 \<Rightarrow> string \<Rightarrow> bool" where
  "countObsolete currentHeight key =
     (case keyHeightText key of
        None \<Rightarrow> False
      | Some t \<Rightarrow> (case stoull t of Inl _ \<Rightarrow> True | Inr height \<Rightarrow> height < currentHeight))"

definition prune :: "sha256 \<Rightarrow> u64 \<Rightarrow> VotePool \<Rightarrow> VotePool" where
  "prune sha currentHeight pool =
     \<lparr>votesByBlock = filter (\<lambda>e. \<not> keyIndex (fst e) < currentHeight) (votesByBlock pool),
      voteByValidator = filter (\<lambda>e. \<not> voteIndex (snd e) < currentHeight) (voteByValidator pool),
      voteIds = fold (\<lambda>e ids. ids - {voteId sha (snd e)})
        (filter (\<lambda>e. voteIndex (snd e) < currentHeight) (voteByValidator pool)) (voteIds pool),
      conflictingVotes = filter (\<lambda>v. \<not> voteIndex v < currentHeight) (conflictingVotes pool),
      conflictingVoteCounts = filter (\<lambda>e. \<not> countObsolete currentHeight (fst e)) (conflictingVoteCounts pool)\<rparr>"

definition poolSerialize :: "VotePool \<Rightarrow> string" where
  "poolSerialize pool =
     ''VotePool{totalVoteCount='' @ showNat (totalVoteCount pool)
       @ '';conflictingVoteCount='' @ showNat (length (conflictingVotes pool))
       @ '';blocks=['' @ joinWith '','' (map (\<lambda>(k, vs).
           ''VotePoolBlockKey{blockIndex='' @ showU64 (keyIndex k) @ '';blockHash='' @ keyHash k
             @ '';round='' @ showU64 (keyRound k) @ ''}#voteCount='' @ showNat (length vs))
         (votesByBlock pool)) @ '']}''"

subsection \<open>Keys\<close>

lemma isDigit_not_hash: "isDigit c \<Longrightarrow> c \<noteq> CHR ''#''"
  by (auto simp: isDigit_def)

lemma showU64_plain [simp]: "CHR ''#'' \<notin> set (showU64 w)"
  unfolding showU64_def using showNum_digits [of "uint w"] isDigit_not_hash by fastforce

lemma decision_plain [simp]: "CHR ''#'' \<notin> set (validatorVoteDecisionToString d)"
  by (cases d) auto

lemma decision_inj [simp]:
  "validatorVoteDecisionToString d = validatorVoteDecisionToString d' \<longleftrightarrow> d = d'"
  by (cases d; cases d') auto

lemma takeWhile_until: "c \<notin> set x \<Longrightarrow> takeWhile (\<lambda>d. d \<noteq> c) (x @ c # r) = x"
  by (induction x) auto

lemma split_last_hash:
  assumes "a @ CHR ''#'' # x = b @ CHR ''#'' # y" and "CHR ''#'' \<notin> set x" and "CHR ''#'' \<notin> set y"
  shows "a = b \<and> x = y"
proof -
  have "takeWhile (\<lambda>c. c \<noteq> CHR ''#'') (rev (a @ CHR ''#'' # x)) = rev x"
    "takeWhile (\<lambda>c. c \<noteq> CHR ''#'') (rev (b @ CHR ''#'' # y)) = rev y"
    using assms(2,3) by (simp_all add: takeWhile_until)
  then have "x = y" using assms(1) by (metis rev_rev_ident)
  then show ?thesis using assms(1) by simp
qed

lemma voterKey_inj [simp]:
  "voterKey a i r d = voterKey a' i' r' d' \<longleftrightarrow> a = a' \<and> i = i' \<and> r = r' \<and> d = d'"
proof
  assume eq: "voterKey a i r d = voterKey a' i' r' d'"
  have "(a @ ''#'' @ showU64 i @ ''#'' @ showU64 r) @ CHR ''#'' # validatorVoteDecisionToString d =
        (a' @ ''#'' @ showU64 i' @ ''#'' @ showU64 r') @ CHR ''#'' # validatorVoteDecisionToString d'"
    using eq by (simp add: voterKey_def)
  from split_last_hash [OF this]
  have d: "d = d'" and "(a @ ''#'' @ showU64 i) @ CHR ''#'' # showU64 r =
      (a' @ ''#'' @ showU64 i') @ CHR ''#'' # showU64 r'" by auto
  from split_last_hash [OF this(2)]
  have "r = r'" and "a @ CHR ''#'' # showU64 i = a' @ CHR ''#'' # showU64 i'" by auto
  with split_last_hash [OF this(2)] d show "a = a' \<and> i = i' \<and> r = r' \<and> d = d'" by auto
qed simp

lemma validatorKey_iff:
  "validatorHeightRoundKey v = validatorHeightRoundKey w \<longleftrightarrow>
     voteAddress v = voteAddress w \<and> voteIndex v = voteIndex w \<and> voteRound v = voteRound w \<and>
     voteDecision v = voteDecision w"
  by (simp add: validatorHeightRoundKey_def)

lemma sameVoteDecision_key:
  "validatorHeightRoundKey v = validatorHeightRoundKey w \<Longrightarrow>
     sameVoteDecision v w \<longleftrightarrow> voteHash v = voteHash w \<and> votePrevious v = votePrevious w"
  by (auto simp: validatorKey_iff sameVoteDecision_def)

lemma keyHeight_plain:
  assumes "CHR ''#'' \<notin> set (voteAddress v)"
  shows "keyHeightText (validatorHeightRoundKey v) = Some (showU64 (voteIndex v))"
proof -
  have "dropWhile (\<lambda>c. c \<noteq> CHR ''#'') (voteAddress v @ x) = dropWhile (\<lambda>c. c \<noteq> CHR ''#'') x" for x
    using assms by (intro dropWhile_append2) auto
  moreover have "takeWhile (\<lambda>c. c \<noteq> CHR ''#'') (showU64 i @ x) = showU64 i @ takeWhile (\<lambda>c. c \<noteq> CHR ''#'') x"
    for i x by (intro takeWhile_append2) (metis showU64_plain)
  ultimately show ?thesis
    by (simp add: keyHeightText_def validatorHeightRoundKey_def voterKey_def Let_def)
qed

lemma countObsolete_plain:
  "CHR ''#'' \<notin> set (voteAddress v) \<Longrightarrow>
     countObsolete h (validatorHeightRoundKey v) \<longleftrightarrow> voteIndex v < h"
  by (simp add: countObsolete_def keyHeight_plain)

subsection \<open>The pool invariant\<close>

text \<open>
  \<open>plainVote\<close>: the address has no \<open>#\<close>, the separator of the pool's keys. Verified votes are
  plain, because their address is a valid one; the development mode admits any address.
\<close>

definition plainVote :: "ValidatorVoteRecord \<Rightarrow> bool" where
  "plainVote v \<longleftrightarrow> CHR ''#'' \<notin> set (voteAddress v)"

definition stored :: "VotePool \<Rightarrow> ValidatorVoteRecord set" where
  "stored pool = snd ` set (voteByValidator pool)"

definition conflictCount :: "VotePool \<Rightarrow> string \<Rightarrow> nat" where
  "conflictCount pool k = length (filter (\<lambda>v. validatorHeightRoundKey v = k) (conflictingVotes pool))"

definition poolOk :: "sha256 \<Rightarrow> VotePool \<Rightarrow> bool" where
  "poolOk sha pool \<longleftrightarrow>
     mapOk (votesByBlock pool) \<and> mapOk (voteByValidator pool) \<and> mapOk (conflictingVoteCounts pool) \<and>
     (\<forall>e\<in>set (voteByValidator pool). fst e = validatorHeightRoundKey (snd e) \<and> plainVote (snd e)) \<and>
     inj_on (voteId sha) (stored pool) \<and> voteIds pool = voteId sha ` stored pool \<and>
     (\<forall>i h r. distinct (votesForBlock pool i h r) \<and>
        set (votesForBlock pool i h r) = {v \<in> stored pool. matchesBlock v i h r}) \<and>
     (\<forall>v\<in>set (conflictingVotes pool). plainVote v \<and> (\<exists>w\<in>stored pool.
        validatorHeightRoundKey w = validatorHeightRoundKey v \<and> \<not> sameVoteDecision w v)) \<and>
     (\<forall>k. map_of (conflictingVoteCounts pool) k =
            (if conflictCount pool k = 0 then None else Some (int (conflictCount pool k))) \<and>
          conflictCount pool k \<le> 10)"

lemma poolOk_empty: "poolOk sha emptyPool"
  by (simp add: poolOk_def emptyPool_def stored_def conflictCount_def votesForBlock_def)

lemma addressValid_plain: "addressValid sha a \<Longrightarrow> CHR ''#'' \<notin> set a"
proof
  assume valid: "addressValid sha a" and mem: "CHR ''#'' \<in> set a"
  have "take (length networkPrefix) a = networkPrefix"
    and hex: "list_all isLowerHexDigit (drop (length networkPrefix) a)"
    using valid by (auto simp: addressValid_def hasOnlyLowercaseHexAfterPrefix_def hasPrefix_def)
  then have "a = networkPrefix @ drop (length networkPrefix) a" by (metis append_take_drop_id)
  with mem have "CHR ''#'' \<in> set networkPrefix \<union> set (drop (length networkPrefix) a)"
    by (metis set_append)
  with hex show False by (auto simp: networkPrefix_def list_all_iff isLowerHexDigit_def)
qed

lemma verified_plain: "voteVerify sha policy provider v \<Longrightarrow> plainVote v"
  by (auto simp: voteVerify_def voteStructurallyValid_def isValidatorAddressBoundToPublicKey_def
      plainVote_def addressValid_plain split: if_splits)

lemma minimal_plain:
  "isMinimallyValidVote sha policy provider v \<Longrightarrow> \<not> developmentMode policy \<or> plainVote v \<Longrightarrow> plainVote v"
  by (auto simp: isMinimallyValidVote_def verified_plain split: if_splits)

lemma stored_lookup:
  assumes "poolOk sha pool"
  shows "map_of (voteByValidator pool) (validatorHeightRoundKey v) = Some w \<longleftrightarrow>
     w \<in> stored pool \<and> validatorHeightRoundKey w = validatorHeightRoundKey v"
proof -
  have srt: "mapOk (voteByValidator pool)" using assms by (simp add: poolOk_def)
  have key: "k = validatorHeightRoundKey x" if "(k, x) \<in> set (voteByValidator pool)" for k x
    using assms that by (fastforce simp: poolOk_def)
  then have "w \<in> stored pool \<longleftrightarrow> (validatorHeightRoundKey w, w) \<in> set (voteByValidator pool)"
    by (auto simp: stored_def image_iff Bex_def)
  then show ?thesis using key by (auto simp: map_of_eq_Some_iff_mem [OF srt])
qed

text \<open>What a submission does, by the status it reports.\<close>

definition addConflict :: "ValidatorVoteRecord \<Rightarrow> VotePool \<Rightarrow> VotePool" where
  "addConflict v pool = pool\<lparr>conflictingVotes := conflictingVotes pool @ [v],
     conflictingVoteCounts := mapPut (validatorHeightRoundKey v)
       (int (conflictCount pool (validatorHeightRoundKey v)) + 1) (conflictingVoteCounts pool)\<rparr>"

definition addVote :: "sha256 \<Rightarrow> ValidatorVoteRecord \<Rightarrow> VotePool \<Rightarrow> VotePool" where
  "addVote sha v pool = pool\<lparr>
     votesByBlock := mapPut (blockKeyOf v)
       (votesForBlock pool (voteIndex v) (voteHash v) (voteRound v) @ [v]) (votesByBlock pool),
     voteByValidator := mapPut (validatorHeightRoundKey v) v (voteByValidator pool),
     voteIds := insert (voteId sha v) (voteIds pool)\<rparr>"

lemma voteId_not_Nil [simp]: "voteId sha v \<noteq> []"
  using length_nodo_hash [of sha] by (metis length_greater_0_conv voteId_def zero_less_numeral)

lemma submit_cases:
  assumes ok: "poolOk sha pool"
  shows "submitVote sha policy provider v pool =
    (if \<not> isMinimallyValidVote sha policy provider v
     then (poolResult Pool_INVALID_VOTE ''Vote failed minimal pool validation.'', pool)
     else if voteId sha v \<in> voteId sha ` stored pool
     then (poolResult Pool_DUPLICATE ''Validator vote id already exists in pool.'', pool)
     else case map_of (voteByValidator pool) (validatorHeightRoundKey v) of
       Some w \<Rightarrow>
         if sameVoteDecision w v
         then (poolResult Pool_DUPLICATE ''Validator vote already exists in pool.'', pool)
         else (poolResult Pool_CONFLICTING_VOTE ''Validator submitted a conflicting vote.'',
               if conflictCount pool (validatorHeightRoundKey v) \<ge> 10 then pool else addConflict v pool)
     | None \<Rightarrow> (poolResult Pool_ACCEPTED ''Vote accepted into pool.'', addVote sha v pool))"
proof -
  have ids: "voteIds pool = voteId sha ` stored pool" using ok by (simp add: poolOk_def)
  have cnt: "(case map_of (conflictingVoteCounts pool) k of Some n \<Rightarrow> n | None \<Rightarrow> 0) =
      int (conflictCount pool k)" for k
    using ok by (simp add: poolOk_def)
  have blk: "(case map_of (votesByBlock pool) (blockKeyOf v) of Some vs \<Rightarrow> vs | None \<Rightarrow> []) =
      votesForBlock pool (voteIndex v) (voteHash v) (voteRound v)"
    by (simp add: votesForBlock_def blockKeyOf_def split: option.split)
  show ?thesis
    unfolding submitVote_def Let_def ids cnt blk
    by (simp add: kMaxConflictingVotesPerKey_def addConflict_def addVote_def ids split: option.split)
qed

lemma stored_mapPut:
  assumes "mapOk m" and "map_of m k = None"
  shows "snd ` set (mapPut k v m) = insert v (snd ` set m)"
proof -
  have "set (mapPut k v m) = insert (k, v) (set m)"
    using assms by (auto simp: map_of_eq_Some_iff_mem [symmetric] split: if_splits)
  then show ?thesis by simp
qed

lemma poolOkD:
  assumes "poolOk sha pool"
  shows pool_maps: "mapOk (votesByBlock pool)" "mapOk (voteByValidator pool)"
      "mapOk (conflictingVoteCounts pool)"
    and pool_keys: "\<And>e. e \<in> set (voteByValidator pool) \<Longrightarrow>
      fst e = validatorHeightRoundKey (snd e) \<and> plainVote (snd e)"
    and pool_ids: "inj_on (voteId sha) (stored pool)" "voteIds pool = voteId sha ` stored pool"
    and pool_blocks: "\<And>i h r. distinct (votesForBlock pool i h r)"
      "\<And>i h r. set (votesForBlock pool i h r) = {v \<in> stored pool. matchesBlock v i h r}"
    and pool_conflicts: "\<And>v. v \<in> set (conflictingVotes pool) \<Longrightarrow> plainVote v \<and> (\<exists>w\<in>stored pool.
        validatorHeightRoundKey w = validatorHeightRoundKey v \<and> \<not> sameVoteDecision w v)"
    and pool_counts: "\<And>k. map_of (conflictingVoteCounts pool) k =
        (if conflictCount pool k = 0 then None else Some (int (conflictCount pool k)))"
      "\<And>k. conflictCount pool k \<le> 10"
  using assms unfolding poolOk_def by blast+

lemma votesForBlock_addVote:
  "votesForBlock (addVote sha v pool) i h r =
     (if matchesBlock v i h r then votesForBlock pool i h r @ [v] else votesForBlock pool i h r)"
  by (auto simp: votesForBlock_def addVote_def blockKeyOf_def matchesBlock_def)

lemma addVote_stored:
  assumes "poolOk sha pool" and "map_of (voteByValidator pool) (validatorHeightRoundKey v) = None"
  shows "stored (addVote sha v pool) = insert v (stored pool)"
  using stored_mapPut [OF pool_maps(2) [OF assms(1)] assms(2)] by (simp add: stored_def addVote_def)

lemma addVote_ok:
  assumes ok: "poolOk sha pool" and plain: "plainVote v"
    and new: "map_of (voteByValidator pool) (validatorHeightRoundKey v) = None"
    and ident: "voteId sha v \<notin> voteId sha ` stored pool"
  shows "poolOk sha (addVote sha v pool)"
  unfolding poolOk_def
proof (intro conjI allI ballI)
  note st = addVote_stored [OF ok new]
  have notin: "v \<notin> stored pool" using ident by blast
  show "mapOk (votesByBlock (addVote sha v pool))" "mapOk (voteByValidator (addVote sha v pool))"
    "mapOk (conflictingVoteCounts (addVote sha v pool))"
    using pool_maps [OF ok] by (simp_all add: addVote_def)
  show "inj_on (voteId sha) (stored (addVote sha v pool))"
    using pool_ids(1) [OF ok] ident by (auto simp: st)
  show "voteIds (addVote sha v pool) = voteId sha ` stored (addVote sha v pool)"
    using pool_ids(2) [OF ok] by (simp add: st) (simp add: addVote_def)
  fix e assume "e \<in> set (voteByValidator (addVote sha v pool))"
  then have "e = (validatorHeightRoundKey v, v) \<or> e \<in> set (voteByValidator pool)"
    by (auto simp: addVote_def dest: mapPut_mem)
  then show "fst e = validatorHeightRoundKey (snd e)" "plainVote (snd e)"
    using pool_keys [OF ok, of e] plain by auto
next
  note st = addVote_stored [OF ok new]
  have notin: "v \<notin> stored pool" using ident by blast
  fix i h r
  show "distinct (votesForBlock (addVote sha v pool) i h r)"
    using pool_blocks [OF ok, of i h r] notin by (simp add: votesForBlock_addVote)
  show "set (votesForBlock (addVote sha v pool) i h r) =
      {u \<in> stored (addVote sha v pool). matchesBlock u i h r}"
    using pool_blocks(2) [OF ok, of i h r] by (auto simp: votesForBlock_addVote st)
next
  fix u assume "u \<in> set (conflictingVotes (addVote sha v pool))"
  then have "u \<in> set (conflictingVotes pool)" by (simp add: addVote_def)
  then show "plainVote u" "\<exists>w\<in>stored (addVote sha v pool).
      validatorHeightRoundKey w = validatorHeightRoundKey u \<and> \<not> sameVoteDecision w u"
    using pool_conflicts [OF ok] by (auto simp: addVote_stored [OF ok new])
next
  fix k
  have "conflictCount (addVote sha v pool) k = conflictCount pool k"
    "conflictingVoteCounts (addVote sha v pool) = conflictingVoteCounts pool"
    by (simp_all add: conflictCount_def addVote_def)
  then show "map_of (conflictingVoteCounts (addVote sha v pool)) k =
      (if conflictCount (addVote sha v pool) k = 0 then None
       else Some (int (conflictCount (addVote sha v pool) k)))"
    "conflictCount (addVote sha v pool) k \<le> 10"
    using pool_counts [OF ok] by simp_all
qed

lemma addConflict_same:
  "stored (addConflict v pool) = stored pool" "votesForBlock (addConflict v pool) = votesForBlock pool"
  "votesByBlock (addConflict v pool) = votesByBlock pool"
  "voteByValidator (addConflict v pool) = voteByValidator pool"
  "voteIds (addConflict v pool) = voteIds pool"
  by (simp_all add: stored_def votesForBlock_def addConflict_def fun_eq_iff)

lemma addConflict_count:
  "conflictCount (addConflict v pool) k =
     conflictCount pool k + (if k = validatorHeightRoundKey v then 1 else 0)"
  by (simp add: conflictCount_def addConflict_def)

lemma addConflict_ok:
  assumes ok: "poolOk sha pool" and plain: "plainVote v"
    and w: "w \<in> stored pool" "validatorHeightRoundKey w = validatorHeightRoundKey v" "\<not> sameVoteDecision w v"
    and room: "conflictCount pool (validatorHeightRoundKey v) < 10"
  shows "poolOk sha (addConflict v pool)"
  unfolding poolOk_def addConflict_same
proof (intro conjI allI ballI)
  show "mapOk (conflictingVoteCounts (addConflict v pool))"
    using pool_maps(3) [OF ok] by (simp add: addConflict_def)
  fix u assume "u \<in> set (conflictingVotes (addConflict v pool))"
  then have "u \<in> set (conflictingVotes pool) \<or> u = v" by (auto simp: addConflict_def)
  then show "plainVote u" "\<exists>w\<in>stored pool.
      validatorHeightRoundKey w = validatorHeightRoundKey u \<and> \<not> sameVoteDecision w u"
    using pool_conflicts [OF ok] plain w by blast+
next
  fix k
  show "map_of (conflictingVoteCounts (addConflict v pool)) k =
      (if conflictCount (addConflict v pool) k = 0 then None
       else Some (int (conflictCount (addConflict v pool) k)))"
    using pool_counts(1) [OF ok, of k] unfolding addConflict_count by (simp add: addConflict_def)
  show "conflictCount (addConflict v pool) k \<le> 10"
    using pool_counts(2) [OF ok, of k] room by (simp add: addConflict_count)
qed (use poolOkD [OF ok] in auto)

lemma fold_remove: "fold (\<lambda>e ids. ids - {f e}) es S = S - f ` set es"
  by (induction es arbitrary: S) auto

lemma map_of_filter_val:
  assumes "mapOk m"
  shows "map_of (filter P m) k =
     (case map_of m k of None \<Rightarrow> None | Some v \<Rightarrow> if P (k, v) then Some v else None)"
proof -
  have some: "map_of (filter P m) k = Some v \<longleftrightarrow> map_of m k = Some v \<and> P (k, v)" for v
    using assms by (simp add: map_of_eq_Some_iff_mem)
  show ?thesis
  proof (cases "map_of (filter P m) k")
    case None
    then show ?thesis using some by (cases "map_of m k") auto
  next
    case (Some v)
    then show ?thesis using some [of v] by simp
  qed
qed

lemma prune_stored: "stored (prune sha h pool) = {v \<in> stored pool. \<not> voteIndex v < h}"
  by (auto simp: stored_def prune_def)

lemma votesForBlock_prune:
  "mapOk (votesByBlock pool) \<Longrightarrow>
     votesForBlock (prune sha h pool) i b r = (if i < h then [] else votesForBlock pool i b r)"
  by (auto simp: votesForBlock_def prune_def map_of_filter_val split: option.splits)

lemma conflictCount_prune:
  assumes "\<And>v. v \<in> set (conflictingVotes pool) \<Longrightarrow> plainVote v"
  shows "conflictCount (prune sha h pool) k =
    (if countObsolete h k then 0 else conflictCount pool k)"
proof -
  have "(validatorHeightRoundKey v = k \<and> \<not> voteIndex v < h) \<longleftrightarrow>
        (\<not> countObsolete h k \<and> validatorHeightRoundKey v = k)" if "v \<in> set (conflictingVotes pool)" for v
    using assms [OF that] countObsolete_plain [of v h] by (auto simp: plainVote_def)
  then have "filter (\<lambda>v. validatorHeightRoundKey v = k \<and> \<not> voteIndex v < h) (conflictingVotes pool) =
      filter (\<lambda>v. \<not> countObsolete h k \<and> validatorHeightRoundKey v = k) (conflictingVotes pool)"
    by (intro filter_cong) auto
  then show ?thesis by (simp add: conflictCount_def prune_def conj_commute)
qed

lemma prune_ids:
  assumes ok: "poolOk sha pool"
  shows "voteIds (prune sha h pool) = voteId sha ` stored (prune sha h pool)"
proof -
  have "(\<lambda>e. voteId sha (snd e)) ` set (filter (\<lambda>e. voteIndex (snd e) < h) (voteByValidator pool)) =
      voteId sha ` {v \<in> stored pool. voteIndex v < h}"
    by (auto simp: stored_def)
  then have "voteIds (prune sha h pool) =
      voteId sha ` stored pool - voteId sha ` {v \<in> stored pool. voteIndex v < h}"
    using pool_ids(2) [OF ok] by (simp add: prune_def fold_remove)
  also have "\<dots> = voteId sha ` (stored pool - {v \<in> stored pool. voteIndex v < h})"
    by (rule inj_on_image_set_diff [OF pool_ids(1) [OF ok], symmetric]) auto
  finally show ?thesis by (auto simp: prune_stored intro!: image_eqI)
qed

lemma prune_ok:
  assumes ok: "poolOk sha pool"
  shows "poolOk sha (prune sha h pool)"
  unfolding poolOk_def
proof (intro conjI allI ballI)
  show "mapOk (votesByBlock (prune sha h pool))" "mapOk (voteByValidator (prune sha h pool))"
    "mapOk (conflictingVoteCounts (prune sha h pool))"
    using pool_maps [OF ok] by (simp_all add: prune_def)
  show "inj_on (voteId sha) (stored (prune sha h pool))"
    using pool_ids(1) [OF ok] by (rule inj_on_subset) (auto simp: prune_stored)
  show "voteIds (prune sha h pool) = voteId sha ` stored (prune sha h pool)"
    by (rule prune_ids [OF ok])
  fix e assume "e \<in> set (voteByValidator (prune sha h pool))"
  then show "fst e = validatorHeightRoundKey (snd e)" "plainVote (snd e)"
    using pool_keys [OF ok, of e] by (auto simp: prune_def)
next
  fix i b r
  show "distinct (votesForBlock (prune sha h pool) i b r)"
    using pool_blocks(1) [OF ok] pool_maps(1) [OF ok] by (simp add: votesForBlock_prune)
  show "set (votesForBlock (prune sha h pool) i b r) =
      {u \<in> stored (prune sha h pool). matchesBlock u i b r}"
    using pool_blocks(2) [OF ok, of i b r] pool_maps(1) [OF ok]
    by (auto simp: votesForBlock_prune prune_stored matchesBlock_def)
next
  fix u assume u: "u \<in> set (conflictingVotes (prune sha h pool))"
  then have old: "u \<in> set (conflictingVotes pool)" "\<not> voteIndex u < h" by (auto simp: prune_def)
  then show "plainVote u" using pool_conflicts [OF ok] by blast
  show "\<exists>w\<in>stored (prune sha h pool).
      validatorHeightRoundKey w = validatorHeightRoundKey u \<and> \<not> sameVoteDecision w u"
    using pool_conflicts [OF ok old(1)] old(2) by (fastforce simp: prune_stored validatorKey_iff)
next
  fix k
  have cnt: "conflictCount (prune sha h pool) k = (if countObsolete h k then 0 else conflictCount pool k)"
    by (rule conflictCount_prune) (use pool_conflicts [OF ok] in blast)
  show "map_of (conflictingVoteCounts (prune sha h pool)) k =
      (if conflictCount (prune sha h pool) k = 0 then None
       else Some (int (conflictCount (prune sha h pool) k)))"
    unfolding cnt using pool_counts(1) [OF ok, of k] pool_maps(3) [OF ok]
    by (simp add: prune_def map_of_filter_val)
  show "conflictCount (prune sha h pool) k \<le> 10"
    using pool_counts(2) [OF ok, of k] by (simp add: cnt)
qed

subsection \<open>Calls on the pool\<close>

datatype poolCall =
    Submit CryptoPolicy SignatureProvider ValidatorVoteRecord
  | Prune u64

fun poolStep :: "sha256 \<Rightarrow> poolCall \<Rightarrow> VotePool \<Rightarrow> VotePool" where
  "poolStep sha (Submit policy provider v) pool = snd (submitVote sha policy provider v pool)"
| "poolStep sha (Prune h) pool = prune sha h pool"

fun poolLegal :: "poolCall \<Rightarrow> bool" where
  "poolLegal (Submit policy provider v) \<longleftrightarrow> \<not> developmentMode policy \<or> plainVote v"
| "poolLegal (Prune h) \<longleftrightarrow> True"

lemma submit_ok:
  assumes ok: "poolOk sha pool" and legal: "\<not> developmentMode policy \<or> plainVote v"
  shows "poolOk sha (snd (submitVote sha policy provider v pool))"
proof (cases "isMinimallyValidVote sha policy provider v \<and> voteId sha v \<notin> voteId sha ` stored pool")
  case False
  then show ?thesis using ok by (auto simp: submit_cases [OF ok])
next
  case True
  then have plain: "plainVote v" using minimal_plain legal by blast
  show ?thesis
  proof (cases "map_of (voteByValidator pool) (validatorHeightRoundKey v)")
    case None
    then show ?thesis using True addVote_ok [OF ok plain None] by (simp add: submit_cases [OF ok])
  next
    case (Some w)
    then have w: "w \<in> stored pool" "validatorHeightRoundKey w = validatorHeightRoundKey v"
      using stored_lookup [OF ok] by auto
    show ?thesis using True Some ok addConflict_ok [OF ok plain w]
      by (simp add: submit_cases [OF ok] not_le)
  qed
qed

lemma poolStep_ok: "poolOk sha pool \<Longrightarrow> poolLegal c \<Longrightarrow> poolOk sha (poolStep sha c pool)"
  by (cases c) (auto simp: submit_ok prune_ok)

interpretation votepool: component "poolStep sha" poolLegal "poolOk sha" for sha
  by unfold_locales (rule poolStep_ok)

lemma block_votes_stored:
  assumes ok: "poolOk sha pool" and v: "v \<in> set (votesForBlock pool i h r)"
  shows "matchesBlock v i h r" and "firstVoteForValidator pool (voteAddress v) i r (voteDecision v) = Some v"
proof -
  have "v \<in> stored pool" and m: "matchesBlock v i h r" using v pool_blocks(2) [OF ok] by auto
  then have "map_of (voteByValidator pool) (validatorHeightRoundKey v) = Some v"
    using stored_lookup [OF ok] by simp
  with m show "matchesBlock v i h r"
    "firstVoteForValidator pool (voteAddress v) i r (voteDecision v) = Some v"
    by (auto simp: firstVoteForValidator_def validatorHeightRoundKey_def matchesBlock_def)
qed

lemma one_vote_per_decision:
  assumes ok: "poolOk sha pool" and "v \<in> set (votesForBlock pool i h r)"
    and "w \<in> set (votesForBlock pool i h' r)"
    and "voteAddress v = voteAddress w" and "voteDecision v = voteDecision w"
  shows "v = w"
proof -
  have "Some v = Some w"
    using block_votes_stored(2) [OF ok assms(2)] block_votes_stored(2) [OF ok assms(3)]
    unfolding assms(4,5) by (rule trans [OF sym])
  then show ?thesis by simp
qed

subsection \<open>The network collector\<close>

record DoubleVoteEvidence =
  evFirst :: ValidatorVoteRecord
  evSecond :: ValidatorVoteRecord
  evDetectedAt :: int

definition newDoubleVoteEvidence ::
    "sha256 \<Rightarrow> ValidatorVoteRecord \<Rightarrow> ValidatorVoteRecord \<Rightarrow> int \<Rightarrow> DoubleVoteEvidence" where
  "newDoubleVoteEvidence sha a b detected =
     (if voteId sha b < voteId sha a
      then \<lparr>evFirst = b, evSecond = a, evDetectedAt = detected\<rparr>
      else \<lparr>evFirst = a, evSecond = b, evDetectedAt = detected\<rparr>)"

datatype VoteCollectStatus =
    Col_ACCEPTED | REJECTED_STALE_ROUND | REJECTED_REPLAY | REJECTED_CONFLICTING
  | REJECTED_INVALID | REJECTED_NOT_ELIGIBLE | DOUBLE_VOTE_DETECTED

record VoteCollectResult =
  collectStatus :: VoteCollectStatus
  collectReason :: string
  collectEvidence :: "DoubleVoteEvidence option"

record NetworkVoteCollector =
  collectorPool :: VotePool
  collectorHeight :: u64
  collectorRound :: u64
  eligibleValidators :: "string list"

definition newCollector :: "u64 \<Rightarrow> u64 \<Rightarrow> NetworkVoteCollector" where
  "newCollector h r = \<lparr>collectorPool = emptyPool, collectorHeight = h, collectorRound = r,
                       eligibleValidators = []\<rparr>"

definition setCurrentRound :: "sha256 \<Rightarrow> u64 \<Rightarrow> u64 \<Rightarrow> NetworkVoteCollector \<Rightarrow> NetworkVoteCollector" where
  "setCurrentRound sha h r c =
     c\<lparr>collectorHeight := h, collectorRound := r, collectorPool := prune sha h (collectorPool c)\<rparr>"

definition setEligibleValidators :: "string list \<Rightarrow> NetworkVoteCollector \<Rightarrow> NetworkVoteCollector" where
  "setEligibleValidators as c = c\<lparr>eligibleValidators := as\<rparr>"

definition hasDoubleVote :: "NetworkVoteCollector \<Rightarrow> ValidatorVoteRecord \<Rightarrow> bool" where
  "hasDoubleVote c v = hasConflictingVote (collectorPool c) (voteAddress v) (voteIndex v) (voteRound v)"

definition rejectVote :: "VoteCollectStatus \<Rightarrow> string \<Rightarrow> VoteCollectResult" where
  "rejectVote s r = \<lparr>collectStatus = s, collectReason = r, collectEvidence = None\<rparr>"

definition moreThanOneRoundAhead :: "u64 \<Rightarrow> u64 \<Rightarrow> bool" where
  "moreThanOneRoundAhead round current \<longleftrightarrow>
     round > current \<and> (current = U64_MAX \<or> round \<noteq> current + 1)"

definition submitNetworkVote ::
    "sha256 \<Rightarrow> CryptoPolicy \<Rightarrow> SignatureProvider \<Rightarrow> ValidatorVoteRecord \<Rightarrow> NetworkVoteCollector
       \<Rightarrow> VoteCollectResult \<times> NetworkVoteCollector" where
  "submitNetworkVote sha policy provider vote c =
     (if eligibleValidators c \<noteq> [] \<and> \<not> list_ex (\<lambda>e. e = voteAddress vote) (eligibleValidators c)
      then (rejectVote REJECTED_NOT_ELIGIBLE
              (''Validator '' @ voteAddress vote @ '' is not eligible to vote.''), c)
      else if voteIndex vote < collectorHeight c
      then (rejectVote REJECTED_STALE_ROUND
              (''Vote block index '' @ showU64 (voteIndex vote) @ '' is below current height ''
                 @ showU64 (collectorHeight c)), c)
      else if voteIndex vote = collectorHeight c \<and> voteRound vote < collectorRound c
      then (rejectVote REJECTED_STALE_ROUND
              (''Vote round '' @ showU64 (voteRound vote) @ '' is below current round ''
                 @ showU64 (collectorRound c) @ '' for height '' @ showU64 (collectorHeight c)), c)
      else if voteIndex vote > collectorHeight c
      then (rejectVote REJECTED_INVALID
              (''Vote block index '' @ showU64 (voteIndex vote) @ '' is above current height ''
                 @ showU64 (collectorHeight c)), c)
      else if moreThanOneRoundAhead (voteRound vote) (collectorRound c)
      then (rejectVote REJECTED_INVALID
              (''Vote round '' @ showU64 (voteRound vote)
                 @ '' is more than one round above current round ''
                 @ showU64 (collectorRound c) @ '' for height '' @ showU64 (collectorHeight c)), c)
      else let (res, pool') = submitVote sha policy provider vote (collectorPool c);
               c' = c\<lparr>collectorPool := pool'\<rparr>
           in if poolStatus res = Pool_DUPLICATE
              then (rejectVote REJECTED_REPLAY (''Duplicate vote detected: '' @ poolReason res), c')
              else if poolStatus res = Pool_CONFLICTING_VOTE
              then (\<lparr>collectStatus = REJECTED_CONFLICTING,
                     collectReason = ''Conflicting vote detected: '' @ poolReason res,
                     collectEvidence = map_option
                       (\<lambda>existing. newDoubleVoteEvidence sha existing vote (voteCreatedAt vote))
                       (existingVoteConflictingWith pool' vote)\<rparr>, c')
              else if poolStatus res \<noteq> Pool_ACCEPTED
              then (rejectVote REJECTED_INVALID (''Vote rejected by pool: '' @ poolReason res), c')
              else (rejectVote Col_ACCEPTED ''Vote accepted.'', c'))"

lemma submitNetworkVote_cases:
  assumes "submitNetworkVote sha policy provider v c = (res, c')"
  obtains (filtered) "c' = c" "collectStatus res \<noteq> Col_ACCEPTED" "collectStatus res \<noteq> REJECTED_CONFLICTING"
    | (pooled) pr where "voteIndex v = collectorHeight c" "\<not> voteRound v < collectorRound c"
        "\<not> moreThanOneRoundAhead (voteRound v) (collectorRound c)"
        "eligibleValidators c = [] \<or> voteAddress v \<in> set (eligibleValidators c)"
        "submitVote sha policy provider v (collectorPool c) = (pr, collectorPool c')"
        "c' = c\<lparr>collectorPool := collectorPool c'\<rparr>"
        "collectStatus res = Col_ACCEPTED \<longleftrightarrow> poolStatus pr = Pool_ACCEPTED"
        "collectStatus res = REJECTED_CONFLICTING \<longleftrightarrow> poolStatus pr = Pool_CONFLICTING_VOTE"
        "collectStatus res = REJECTED_CONFLICTING \<Longrightarrow> collectEvidence res = map_option
           (\<lambda>existing. newDoubleVoteEvidence sha existing v (voteCreatedAt v))
           (existingVoteConflictingWith (collectorPool c') v)"
proof (cases "(eligibleValidators c = [] \<or> voteAddress v \<in> set (eligibleValidators c)) \<and>
    voteIndex v = collectorHeight c \<and> \<not> voteRound v < collectorRound c \<and>
    \<not> moreThanOneRoundAhead (voteRound v) (collectorRound c)")
  case False
  then have "c' = c \<and> (collectStatus res = REJECTED_NOT_ELIGIBLE \<or>
      collectStatus res = REJECTED_STALE_ROUND \<or> collectStatus res = REJECTED_INVALID)"
    using assms unfolding submitNetworkVote_def
    by (auto simp: rejectVote_def list_ex_iff neq_iff simp del: not_less split: if_splits)
  then show ?thesis by (intro filtered) auto
next
  case True
  obtain pr pool' where run: "submitVote sha policy provider v (collectorPool c) = (pr, pool')"
    by (cases "submitVote sha policy provider v (collectorPool c)")
  have "submitNetworkVote sha policy provider v c =
      (if poolStatus pr = Pool_DUPLICATE
       then rejectVote REJECTED_REPLAY (''Duplicate vote detected: '' @ poolReason pr)
       else if poolStatus pr = Pool_CONFLICTING_VOTE
       then \<lparr>collectStatus = REJECTED_CONFLICTING,
              collectReason = ''Conflicting vote detected: '' @ poolReason pr,
              collectEvidence = map_option
                (\<lambda>existing. newDoubleVoteEvidence sha existing v (voteCreatedAt v))
                (existingVoteConflictingWith pool' v)\<rparr>
       else if poolStatus pr \<noteq> Pool_ACCEPTED
       then rejectVote REJECTED_INVALID (''Vote rejected by pool: '' @ poolReason pr)
       else rejectVote Col_ACCEPTED ''Vote accepted.'', c\<lparr>collectorPool := pool'\<rparr>)"
    using True unfolding submitNetworkVote_def run by (auto simp: list_ex_iff)
  then show ?thesis using assms True run
    by (intro pooled [of pr]) (auto simp: rejectVote_def split: if_splits)
qed

lemma submit_outcome:
  assumes ok: "poolOk sha pool" and run: "submitVote sha policy provider v pool = (res, pool')"
  shows "case poolStatus res of
     Pool_ACCEPTED \<Rightarrow>
       map_of (voteByValidator pool) (validatorHeightRoundKey v) = None \<and> pool' = addVote sha v pool
   | Pool_CONFLICTING_VOTE \<Rightarrow>
       stored pool' = stored pool \<and> votesForBlock pool' = votesForBlock pool \<and>
       (\<exists>w\<in>stored pool. existingVoteConflictingWith pool' v = Some w \<and>
          validatorHeightRoundKey w = validatorHeightRoundKey v \<and> \<not> sameVoteDecision w v)
   | _ \<Rightarrow> pool' = pool"
proof (cases "isMinimallyValidVote sha policy provider v \<and> voteId sha v \<notin> voteId sha ` stored pool")
  case False
  then show ?thesis using run by (auto simp: submit_cases [OF ok] poolResult_def split: if_splits)
next
  case True
  note fresh = True
  show ?thesis
  proof (cases "map_of (voteByValidator pool) (validatorHeightRoundKey v)")
    case None
    then show ?thesis using fresh run by (auto simp: submit_cases [OF ok] poolResult_def)
  next
    case (Some w)
    then have w: "w \<in> stored pool" "validatorHeightRoundKey w = validatorHeightRoundKey v"
      using stored_lookup [OF ok] by auto
    show ?thesis
    proof (cases "sameVoteDecision w v")
      case True
      then show ?thesis using run Some fresh by (auto simp: submit_cases [OF ok] poolResult_def)
    next
      case False
      then have res: "poolStatus res = Pool_CONFLICTING_VOTE"
        and pool': "pool' = pool \<or> pool' = addConflict v pool"
        using run Some fresh by (auto simp: submit_cases [OF ok] poolResult_def split: if_splits)
      then have "stored pool' = stored pool" "votesForBlock pool' = votesForBlock pool"
        "existingVoteConflictingWith pool' v = Some w"
        using Some False by (auto simp: addConflict_same existingVoteConflictingWith_def)
      then show ?thesis using res w False by auto
    qed
  qed
qed

subsection \<open>Properties of the pool and the collector\<close>

text \<open>
  C23: After any sequence of submissions and prunings, the votes the pool reports for a block are
  all votes for exactly that height, hash and round, without repetition, and each is the first
  vote its validator cast for that height, round and decision; so no validator is counted twice
  for a decision, not even for two different blocks of the same height and round. At most ten
  conflicting votes are kept for a validator, height, round and decision, and next to each of
  them the pool still holds the vote it conflicts with.
\<close>

theorem vote_pool_always_consistent:
  assumes "list_all poolLegal cs" and "pool = fold (poolStep sha) cs emptyPool"
  shows "(\<forall>i h r. distinct (votesForBlock pool i h r) \<and>
            (\<forall>v\<in>set (votesForBlock pool i h r). matchesBlock v i h r \<and>
               firstVoteForValidator pool (voteAddress v) i r (voteDecision v) = Some v)) \<and>
         (\<forall>k. length (filter (\<lambda>v. validatorHeightRoundKey v = k) (conflictingVotes pool)) \<le> 10) \<and>
         (\<forall>v\<in>set (conflictingVotes pool). \<exists>w.
            firstVoteForValidator pool (voteAddress v) (voteIndex v) (voteRound v) (voteDecision v) = Some w \<and>
            (voteHash w \<noteq> voteHash v \<or> votePrevious w \<noteq> votePrevious v))"
proof -
  have ok: "poolOk sha pool"
    unfolding assms(2) by (rule votepool.run_inv [OF poolOk_empty assms(1)])
  have "\<exists>w. firstVoteForValidator pool (voteAddress v) (voteIndex v) (voteRound v) (voteDecision v) = Some w \<and>
      (voteHash w \<noteq> voteHash v \<or> votePrevious w \<noteq> votePrevious v)"
    if mem: "v \<in> set (conflictingVotes pool)" for v
  proof -
    obtain w where w: "w \<in> stored pool" "validatorHeightRoundKey w = validatorHeightRoundKey v"
      "\<not> sameVoteDecision w v" using pool_conflicts [OF ok mem] by blast
    then have "map_of (voteByValidator pool) (validatorHeightRoundKey v) = Some w"
      using stored_lookup [OF ok] by blast
    then show ?thesis using w(3) sameVoteDecision_key [OF w(2)]
      by (simp add: firstVoteForValidator_def validatorHeightRoundKey_def [symmetric])
  qed
  then show ?thesis
    using pool_blocks(1) [OF ok] block_votes_stored [OF ok] pool_counts(2) [OF ok]
    by (simp add: conflictCount_def)
qed

text \<open>
  What a submission reports is what it did: an accepted vote is the first of its validator
  for that height, round and decision, and is appended to the votes of its block, which
  is the only block whose votes change; a conflicting vote changes no block's votes and the pool
  can produce the vote it conflicts with, by the same validator for the same height, round and
  decision but another block; every other result leaves the pool as it was.
\<close>

theorem submit_vote_outcome:
  assumes "list_all poolLegal cs" and "pool = fold (poolStep sha) cs emptyPool"
    and "submitVote sha policy provider v pool = (res, pool')"
  shows "case poolStatus res of
     Pool_ACCEPTED \<Rightarrow>
       firstVoteForValidator pool (voteAddress v) (voteIndex v) (voteRound v) (voteDecision v) = None \<and>
       firstVoteForValidator pool' (voteAddress v) (voteIndex v) (voteRound v) (voteDecision v) = Some v \<and>
       (\<forall>i h r. votesForBlock pool' i h r =
          (if matchesBlock v i h r then votesForBlock pool i h r @ [v] else votesForBlock pool i h r))
   | Pool_CONFLICTING_VOTE \<Rightarrow>
       votesForBlock pool' = votesForBlock pool \<and>
       (\<exists>w. existingVoteConflictingWith pool' v = Some w \<and> voteAddress w = voteAddress v \<and>
          voteIndex w = voteIndex v \<and> voteRound w = voteRound v \<and> voteDecision w = voteDecision v \<and>
          (voteHash w \<noteq> voteHash v \<or> votePrevious w \<noteq> votePrevious v))
   | _ \<Rightarrow> pool' = pool"
proof -
  have ok: "poolOk sha pool"
    unfolding assms(2) by (rule votepool.run_inv [OF poolOk_empty assms(1)])
  show ?thesis
    using submit_outcome [OF ok assms(3)]
    by (auto simp: firstVoteForValidator_def validatorHeightRoundKey_def [symmetric]
        votesForBlock_addVote sameVoteDecision_def validatorKey_iff split: VotePoolStatus.splits)
      (simp add: addVote_def)
qed

text \<open>
  A vote that reaches the pool through the collector is one for the collector's current
  height, for its current round or the next one, by an eligible validator; a rejection as
  conflicting always carries evidence, made of this vote and of another one by the same validator
  for the same height, round and decision.
\<close>

theorem collector_admission:
  assumes "list_all poolLegal cs" and "collectorPool c = fold (poolStep sha) cs emptyPool"
    and "submitNetworkVote sha policy provider v c = (res, c')"
  shows "(collectStatus res = Col_ACCEPTED \<longrightarrow>
            voteIndex v = collectorHeight c \<and>
            (voteRound v = collectorRound c \<or> voteRound v = collectorRound c + 1) \<and>
            (eligibleValidators c = [] \<or> voteAddress v \<in> set (eligibleValidators c)) \<and>
            v \<in> set (votesForBlock (collectorPool c') (voteIndex v) (voteHash v) (voteRound v))) \<and>
         (collectStatus res = REJECTED_CONFLICTING \<longrightarrow> (\<exists>w ev. collectEvidence res = Some ev \<and>
            {evFirst ev, evSecond ev} = {v, w} \<and> voteAddress w = voteAddress v \<and>
            voteIndex w = voteIndex v \<and> voteRound w = voteRound v \<and> voteDecision w = voteDecision v \<and>
            (voteHash w \<noteq> voteHash v \<or> votePrevious w \<noteq> votePrevious v)))"
  using assms(3)
proof (cases rule: submitNetworkVote_cases)
  case filtered
  then show ?thesis by simp
next
  case (pooled pr)
  have ok: "poolOk sha (collectorPool c)"
    unfolding assms(2) by (rule votepool.run_inv [OF poolOk_empty assms(1)])
  note out = submit_outcome [OF ok pooled(5)]
  have round: "voteRound v = collectorRound c \<or> voteRound v = collectorRound c + 1"
    using pooled(2,3) by (auto simp: moreThanOneRoundAhead_def not_less le_less)
  have acc: "v \<in> set (votesForBlock (collectorPool c') (voteIndex v) (voteHash v) (voteRound v))"
    if "poolStatus pr = Pool_ACCEPTED"
    using out that by (simp add: votesForBlock_addVote matchesBlock_def)
  have conf: "\<exists>w ev. collectEvidence res = Some ev \<and> {evFirst ev, evSecond ev} = {v, w} \<and>
      voteAddress w = voteAddress v \<and> voteIndex w = voteIndex v \<and> voteRound w = voteRound v \<and>
      voteDecision w = voteDecision v \<and> (voteHash w \<noteq> voteHash v \<or> votePrevious w \<noteq> votePrevious v)"
    if status: "collectStatus res = REJECTED_CONFLICTING"
  proof -
    obtain w where w: "existingVoteConflictingWith (collectorPool c') v = Some w"
      "validatorHeightRoundKey w = validatorHeightRoundKey v" "\<not> sameVoteDecision w v"
      using out status pooled(8) by auto
    then have "collectEvidence res = Some (newDoubleVoteEvidence sha w v (voteCreatedAt v))"
      using pooled(9) [OF status] by simp
    then show ?thesis using w(2,3)
      by (intro exI [of _ w] exI [of _ "newDoubleVoteEvidence sha w v (voteCreatedAt v)"])
        (auto simp: newDoubleVoteEvidence_def validatorKey_iff sameVoteDecision_def)
  qed
  show ?thesis using pooled(1,4,7) round acc conf by blast
qed

subsection \<open>Demonstration votes\<close>

definition demoPolicy :: CryptoPolicy where
  "demoPolicy = \<lparr>developmentMode = False\<rparr>"

definition demoSignature :: "char \<Rightarrow> Signature" where
  "demoSignature c = \<lparr>sigSuite = NODO_CRYPTO_SUITE_V1, sigDomain = VALIDATOR_VOTE,
     sigAlgorithm = BLS12_381, sigPublicKey = demoKey c, signatureHex = ''00'', sigCreatedAt = 9\<rparr>"

definition demoProvider :: SignatureProvider where
  "demoProvider = \<lparr>provAlgorithm = BLS12_381,
     provSign = (\<lambda>m pk key t d. Inl (RuntimeError ''no key'')),
     provVerify = (\<lambda>m s. signatureHex s = ''00'')\<rparr>"

definition demoVote ::
    "char \<Rightarrow> ValidatorVoteDecision \<Rightarrow> string \<Rightarrow> string \<Rightarrow> ValidatorVoteRecord" where
  "demoVote c d h p = \<lparr>voteAddress = demoAddr c, votePublicKey = demoKey c, voteIndex = 1, voteHash = h,
     votePrevious = p, voteRound = 1, voteDecision = d, voteReason = ''reason'',
     voteCreatedAt = 9, voteBundle = [demoSignature c]\<rparr>"

lemma demoAddr_safe: "demoName c \<Longrightarrow> isSafeScalar (demoAddr c)"
  by (auto simp: isSafeScalar_def isSafeDelimitedText_def demoAddr_def demoName_def)

lemma demoBundle_valid:
  assumes "demoName c"
  shows "isValidForPolicy demoPolicy VALIDATOR_OPERATION [demoSignature c]"
proof -
  have "publicKeyValid (demoKey c)"
    using assms by (intro demoKey_valid isLowerHexDigit_isHexDigit demoName_hex)
  then show ?thesis
    by (simp add: isValidForPolicy_def demoSignature_def signatureValid_def isSupportedCryptoSuite_def
        isSafeSignatureHex_def isHexDigit_def isAlgorithmAllowed_def isDevelopmentOnlyAlgorithm_def
        isSigningDomainAllowedForContext_def) (simp add: demoKey_def)
qed

lemma demoVote_structure:
  assumes "demoName c" and "d \<noteq> Vote_UNKNOWN" and "isSafeScalar h" and "isSafeScalar p"
  shows "voteStructurallyValid demoSha demoPolicy (demoVote c d h p)"
proof -
  have "isSafeScalar ''reason''" by code_simp
  moreover have "publicKeyValid (demoKey c)"
    using assms(1) by (intro demoKey_valid isLowerHexDigit_isHexDigit demoName_hex)
  ultimately show ?thesis
    using assms demoAddr_safe demoAddr_owned demoAddr_valid demoBundle_valid
    by (simp add: voteStructurallyValid_def demoVote_def isValidatorAddressBoundToPublicKey_def)
qed

lemma demoVote_verify:
  assumes "demoName c" and "d \<noteq> Vote_UNKNOWN" and "isSafeScalar h" and "isSafeScalar p"
  shows "voteVerify demoSha demoPolicy demoProvider (demoVote c d h p)"
proof -
  note str = demoVote_structure [OF assms]
  then obtain m where m: "buildSigningPayload demoSha (demoVote c d h p) = Inr m"
    using payload_total by blast
  then have "m \<noteq> []" by (auto simp: buildSigningPayload_def split: if_splits)
  then show ?thesis
    using str m demoBundle_valid [OF assms(1)]
    by (simp add: voteVerify_def verifyForPolicy_def demoVote_def demoProvider_def demoSignature_def)
qed

lemma demoVote_minimal:
  assumes "demoName c" and "d \<noteq> Vote_UNKNOWN" and "isSafeScalar h" and "isSafeScalar p"
  shows "isMinimallyValidVote demoSha demoPolicy demoProvider (demoVote c d h p)"
proof -
  have "h \<noteq> []" "p \<noteq> []" using assms(3,4) by (auto simp: isSafeScalar_def isSafeDelimitedText_def)
  then show ?thesis using demoVote_verify [OF assms] assms(2)
    by (simp add: isMinimallyValidVote_def) (simp add: demoVote_def demoAddr_def)
qed

abbreviation demoPrecommit :: "char \<Rightarrow> ValidatorVoteRecord" where
  "demoPrecommit c \<equiv> demoVote c PRECOMMIT ''block'' ''parent''"

lemma demo_safe: "isSafeScalar ''block''" "isSafeScalar ''parent''" "isSafeScalar ''fork''"
  by code_simp+

lemma demo_match [simp]: "matchesBlock (demoVote c d h p) i b r \<longleftrightarrow> i = 1 \<and> b = h \<and> r = 1"
  by (auto simp: matchesBlock_def demoVote_def)

lemma votesForBlock_empty [simp]: "votesForBlock emptyPool i b r = []"
  by (simp add: votesForBlock_def emptyPool_def)

lemma demo_submit:
  "submitVote demoSha demoPolicy demoProvider (demoPrecommit CHR ''7'') emptyPool =
     (poolResult Pool_ACCEPTED ''Vote accepted into pool.'', addVote demoSha (demoPrecommit CHR ''7'') emptyPool)"
  using demoVote_minimal [OF _ _ demo_safe(1,2), of "CHR ''7''" PRECOMMIT]
  by (simp add: submit_cases [OF poolOk_empty] demoName_def) (simp add: emptyPool_def stored_def)

theorem vote_pool_always_consistent_witness:
  "distinct (votesForBlock (fold (poolStep demoSha)
      [Submit demoPolicy demoProvider (demoPrecommit CHR ''7''), Prune 1,
       Submit demoPolicy demoProvider (demoPrecommit CHR ''7'')] emptyPool) 1 ''block'' 1)"
  using vote_pool_always_consistent [of
      "[Submit demoPolicy demoProvider (demoPrecommit CHR ''7''), Prune 1,
        Submit demoPolicy demoProvider (demoPrecommit CHR ''7'')]" _ demoSha, OF _ refl]
  by (simp add: demoPolicy_def)

theorem submit_vote_outcome_witness:
  "votesForBlock (snd (submitVote demoSha demoPolicy demoProvider (demoPrecommit CHR ''7'') emptyPool))
     1 ''block'' 1 = [demoPrecommit CHR ''7'']"
  using submit_vote_outcome [of "[]" emptyPool demoSha, OF _ _ demo_submit]
  by (simp add: demo_submit poolResult_def)

theorem collector_admission_witness:
  "\<exists>res c'. submitNetworkVote demoSha demoPolicy demoProvider (demoPrecommit CHR ''7'') (newCollector 1 1) = (res, c') \<and>
     demoPrecommit CHR ''7'' \<in> set (votesForBlock (collectorPool c') 1 ''block'' 1)"
proof -
  let ?v = "demoPrecommit CHR ''7''"
  have run: "submitNetworkVote demoSha demoPolicy demoProvider ?v (newCollector 1 1) =
      (rejectVote Col_ACCEPTED ''Vote accepted.'',
       (newCollector 1 1)\<lparr>collectorPool := addVote demoSha ?v emptyPool\<rparr>)"
    using demo_submit
    by (simp add: submitNetworkVote_def newCollector_def moreThanOneRoundAhead_def poolResult_def
        demoVote_def)
  have "collectorPool (newCollector 1 1) = fold (poolStep demoSha) [] emptyPool"
    by (simp add: newCollector_def)
  from collector_admission [OF _ this run]
  show ?thesis unfolding run by (simp add: rejectVote_def demoVote_def)
qed

end
