(* ===== verification/Quorum.thy ===== *)
theory Quorum
  imports Votes
begin

section \<open>Quorum certificates\<close>

text \<open>
  \<open>src/consensus/QuorumCertificate.cpp\<close>, \<open>include/consensus/QuorumThreshold.hpp\<close>, the quorum
  part of \<open>VotePool.cpp\<close> and the certificate assembly of
  \<open>src/node/consensus/BlockFinalizationPhase.cpp\<close>. A certificate is a list of precommit votes
  for one block, whose voters weigh more than two thirds of the validator set.

  The operations that call \<open>totalConsensusWeight\<close> can throw; their results are of type
  \<^typ>\<open>'a result\<close>, and the lemmas show that on a valid registry they do not.
\<close>

subsection \<open>The threshold\<close>

definition kDenominator :: u64 where
  "kDenominator = 3"

definition isCanonicalFraction :: "u64 \<Rightarrow> u64 \<Rightarrow> bool" where
  "isCanonicalFraction numerator denominator \<longleftrightarrow> numerator = 2 \<and> denominator = kDenominator"

definition requiredWeight :: "u64 \<Rightarrow> u64 result" where
  "requiredWeight totalWeight =
     (if totalWeight = 0
      then Inl (InvalidArgument ''Quorum requires positive total voting weight.'')
      else Inr (totalWeight - (totalWeight - 1) div kDenominator))"

definition requiredVotingWeight :: "u64 \<Rightarrow> u64 \<Rightarrow> u64 \<Rightarrow> u64 result" where
  "requiredVotingWeight totalWeight numerator denominator =
     (if \<not> isCanonicalFraction numerator denominator \<or> totalWeight = 0
      then Inl (InvalidArgument ''Invalid quorum threshold parameters.'')
      else requiredWeight totalWeight)"

subsection \<open>Certificates\<close>

record QuorumCertificate =
  certIndex :: u64
  certHash :: string
  certPrevious :: string
  certRound :: u64
  certRequired :: u64
  certTotal :: u64
  certSigned :: u64
  certSetRoot :: string
  certVotes :: "ValidatorVoteRecord list"

fun duplicateVoterFrom :: "string set \<Rightarrow> ValidatorVoteRecord list \<Rightarrow> bool" where
  "duplicateVoterFrom seen [] = False"
| "duplicateVoterFrom seen (v # vs) =
     (if voteAddress v \<in> seen then True else duplicateVoterFrom (insert (voteAddress v) seen) vs)"

definition hasDuplicateVoter :: "ValidatorVoteRecord list \<Rightarrow> bool" where
  "hasDuplicateVoter votes = duplicateVoterFrom {} votes"

definition certStructurallyValid :: "QuorumCertificate \<Rightarrow> bool" where
  "certStructurallyValid c =
     (if certIndex c = 0 \<or> certRound c = 0 \<or> certRequired c = 0 \<or> certTotal c = 0 \<or>
         certSigned c = 0 then False
      else if \<not> isSafeScalar (certHash c) \<or> \<not> isSafeScalar (certPrevious c) \<or>
              \<not> isSafeScalar (certSetRoot c) then False
      else if certRequired c > certTotal c \<or> certSigned c > certTotal c \<or>
              certSigned c < certRequired c then False
      else if Inr (certRequired c) \<noteq> requiredWeight (certTotal c) then False
      else if certVotes c = [] then False
      else if hasDuplicateVoter (certVotes c) then False
      else list_all (\<lambda>v. matchesBlock v (certIndex c) (certHash c) (certRound c) \<and>
                         votePrevious v = certPrevious c \<and> voteDecision v = PRECOMMIT) (certVotes c))"

fun signedWeightFrom ::
    "sha256 \<Rightarrow> ValidatorRegistry \<Rightarrow> CryptoPolicy \<Rightarrow> SignatureProvider \<Rightarrow> u64
       \<Rightarrow> ValidatorVoteRecord list \<Rightarrow> u64 option" where
  "signedWeightFrom sha reg policy provider acc [] = Some acc"
| "signedWeightFrom sha reg policy provider acc (v # vs) =
     (if \<not> verifyValidatorIdentity sha reg (voteAddress v) (votePublicKey v) then None
      else if \<not> voteVerify sha policy provider v then None
      else let w = consensusWeightFor reg (voteAddress v) in
           if w = 0 \<or> U64_MAX - acc < w then None
           else signedWeightFrom sha reg policy provider (acc + w) vs)"

definition certVerify ::
    "sha256 \<Rightarrow> ValidatorRegistry \<Rightarrow> CryptoPolicy \<Rightarrow> SignatureProvider \<Rightarrow> QuorumCertificate
       \<Rightarrow> bool result" where
  "certVerify sha reg policy provider c =
     (if \<not> certStructurallyValid c then Inr False
      else if \<not> validatorsValid sha reg then Inr False
      else bindR (totalConsensusWeight reg) (\<lambda>t.
        if t \<noteq> certTotal c then Inr False
        else bindR (requiredWeight (certTotal c)) (\<lambda>q.
          if certRequired c \<noteq> q then Inr False
          else bindR (validatorSetRoot sha reg) (\<lambda>root.
            if root \<noteq> certSetRoot c then Inr False
            else case signedWeightFrom sha reg policy provider 0 (certVotes c) of
                   None \<Rightarrow> Inr False
                 | Some s \<Rightarrow> Inr (s = certSigned c \<and> s \<ge> certRequired c)))))"

definition certSerialize :: "sha256 \<Rightarrow> QuorumCertificate \<Rightarrow> string" where
  "certSerialize sha c =
     ''QuorumCertificate{blockIndex='' @ showU64 (certIndex c)
       @ '';blockHash='' @ certHash c
       @ '';previousHash='' @ certPrevious c
       @ '';round='' @ showU64 (certRound c)
       @ '';requiredVotingWeight='' @ showU64 (certRequired c)
       @ '';totalVotingWeight='' @ showU64 (certTotal c)
       @ '';signedVotingWeight='' @ showU64 (certSigned c)
       @ '';validatorSetRoot='' @ certSetRoot c
       @ '';votes=['' @ joinWith '','' (map (voteSerialize sha) (certVotes c)) @ '']}''"

subsection \<open>Building a certificate\<close>

datatype QuorumCertificateBuildStatus =
    CERTIFIED | INVALID_INPUT | INVALID_VALIDATOR_REGISTRY | INVALID_VOTE
  | UNREGISTERED_OR_INACTIVE_VOTER | DUPLICATE_VOTER | CONFLICTING_VOTE | NOT_ENOUGH_VALID_VOTES

datatype QuorumCertificateBuildResult =
    Certified (builtCertificate: QuorumCertificate)
  | Rejected QuorumCertificateBuildStatus string

fun buildStatus :: "QuorumCertificateBuildResult \<Rightarrow> QuorumCertificateBuildStatus" where
  "buildStatus (Certified c) = CERTIFIED"
| "buildStatus (Rejected s r) = s"

fun collectVotes ::
    "sha256 \<Rightarrow> ValidatorRegistry \<Rightarrow> CryptoPolicy \<Rightarrow> SignatureProvider \<Rightarrow> u64 \<Rightarrow> string \<Rightarrow> string \<Rightarrow> u64
       \<Rightarrow> string set \<Rightarrow> u64 \<Rightarrow> ValidatorVoteRecord list
       \<Rightarrow> (QuorumCertificateBuildStatus \<times> string) + u64" where
  "collectVotes sha reg policy provider i h p r seen acc [] = Inr acc"
| "collectVotes sha reg policy provider i h p r seen acc (v # vs) =
     (if \<not> voteVerify sha policy provider v
      then Inl (INVALID_VOTE, ''Invalid vote signature or structure.'')
      else if \<not> matchesBlock v i h r \<or> votePrevious v \<noteq> p
      then Inl (CONFLICTING_VOTE, ''Vote targets a different block or round.'')
      else if voteDecision v \<noteq> PRECOMMIT
      then Inl (CONFLICTING_VOTE, ''Only PRECOMMIT votes can build a quorum certificate.'')
      else if \<not> verifyValidatorIdentity sha reg (voteAddress v) (votePublicKey v)
      then Inl (UNREGISTERED_OR_INACTIVE_VOTER, ''Vote signer is not an active registered validator.'')
      else if voteAddress v \<in> seen
      then Inl (DUPLICATE_VOTER, ''Duplicate validator vote rejected.'')
      else let w = consensusWeightFor reg (voteAddress v) in
      if w = 0
      then Inl (UNREGISTERED_OR_INACTIVE_VOTER, ''Vote signer has no consensus voting weight.'')
      else if U64_MAX - acc < w
      then Inl (INVALID_INPUT, ''Signed voting weight overflow.'')
      else collectVotes sha reg policy provider i h p r (insert (voteAddress v) seen) (acc + w) vs)"

fun exnWhat :: "exn \<Rightarrow> string" where
  "exnWhat (InvalidArgument s) = s"
| "exnWhat (LogicError s) = s"
| "exnWhat (OverflowError s) = s"
| "exnWhat (UnderflowError s) = s"
| "exnWhat (OutOfRange s) = s"
| "exnWhat (LengthError s) = s"
| "exnWhat (RuntimeError s) = s"

definition buildFromVotes ::
    "sha256 \<Rightarrow> u64 \<Rightarrow> string \<Rightarrow> string \<Rightarrow> u64 \<Rightarrow> ValidatorVoteRecord list \<Rightarrow> ValidatorRegistry
       \<Rightarrow> CryptoPolicy \<Rightarrow> SignatureProvider \<Rightarrow> u64 \<Rightarrow> u64 \<Rightarrow> QuorumCertificateBuildResult result" where
  "buildFromVotes sha i h p r votes reg policy provider numerator denominator =
     (if i = 0 \<or> r = 0 \<or> \<not> isSafeScalar h \<or> \<not> isSafeScalar p \<or> votes = []
      then Inr (Rejected INVALID_INPUT ''Invalid quorum certificate input.'')
      else if \<not> validatorsValid sha reg
      then Inr (Rejected INVALID_VALIDATOR_REGISTRY
                  ''Validator registry is invalid or has no weighted consensus validators.'')
      else bindR (totalConsensusWeight reg) (\<lambda>t.
        if t = 0
        then Inr (Rejected INVALID_VALIDATOR_REGISTRY
                    ''Validator registry is invalid or has no weighted consensus validators.'')
        else case requiredVotingWeight t numerator denominator of
          Inl e \<Rightarrow> Inr (Rejected INVALID_INPUT (exnWhat e))
        | Inr q \<Rightarrow>
            (case collectVotes sha reg policy provider i h p r {} 0 votes of
               Inl (s, reason) \<Rightarrow> Inr (Rejected s reason)
             | Inr weight \<Rightarrow>
                 if weight < q
                 then Inr (Rejected NOT_ENOUGH_VALID_VOTES
                             ''Not enough signed validator weight to certify block.'')
                 else bindR (validatorSetRoot sha reg) (\<lambda>root.
                   let c = \<lparr>certIndex = i, certHash = h, certPrevious = p, certRound = r,
                            certRequired = q, certTotal = t, certSigned = weight,
                            certSetRoot = root, certVotes = votes\<rparr>
                   in bindR (certVerify sha reg policy provider c) (\<lambda>ok.
                        Inr (if ok then Certified c
                             else Rejected INVALID_VOTE
                                    ''Built quorum certificate failed verification.''))))))"

definition tryBuildCertificate ::
    "sha256 \<Rightarrow> VotePool \<Rightarrow> u64 \<Rightarrow> string \<Rightarrow> string \<Rightarrow> u64 \<Rightarrow> ValidatorRegistry \<Rightarrow> CryptoPolicy
       \<Rightarrow> SignatureProvider \<Rightarrow> u64 \<Rightarrow> u64 \<Rightarrow> QuorumCertificateBuildResult result" where
  "tryBuildCertificate sha pool i h p r reg policy provider numerator denominator =
     buildFromVotes sha i h p r (votesForBlock pool i h r) reg policy provider numerator denominator"

text \<open>
  The certificate part of \<open>BlockFinalizationPhase::tryFinalize\<close>: the precommits among the pool's
  votes for the block, against the validator set of the block's height.
\<close>

definition assembleCertificate ::
    "sha256 \<Rightarrow> VotePool \<Rightarrow> ValidatorSetHistory \<Rightarrow> u64 \<Rightarrow> string \<Rightarrow> string \<Rightarrow> u64 \<Rightarrow> CryptoPolicy
       \<Rightarrow> SignatureProvider \<Rightarrow> u64 \<Rightarrow> u64 \<Rightarrow> QuorumCertificateBuildResult option result" where
  "assembleCertificate sha pool hist i h p r policy provider numerator denominator =
     (let votes = filter (\<lambda>v. voteDecision v = PRECOMMIT) (votesForBlock pool i h r) in
      if \<not> hasSet hist i then Inr None
      else bindR (setAt hist i) (\<lambda>reg.
             bindR (buildFromVotes sha i h p r votes reg policy provider numerator denominator)
               (\<lambda>b. Inr (Some b))))"

subsection \<open>Quorum progress\<close>

record VotePoolQuorumProgress =
  progIndex :: u64
  progHash :: string
  progRound :: u64
  acceptedVotingWeight :: u64
  progRequired :: u64
  progTotal :: u64

fun acceptedWeightFrom ::
    "ValidatorRegistry \<Rightarrow> string set \<Rightarrow> u64 \<Rightarrow> ValidatorVoteRecord list \<Rightarrow> u64 result" where
  "acceptedWeightFrom reg seen acc [] = Inr acc"
| "acceptedWeightFrom reg seen acc (v # vs) =
     (if voteAddress v \<in> seen then acceptedWeightFrom reg seen acc vs
      else let w = consensusWeightFor reg (voteAddress v) in
           if U64_MAX - acc < w
           then Inl (OverflowError ''Vote pool weight cannot fit in uint64.'')
           else acceptedWeightFrom reg (insert (voteAddress v) seen) (acc + w) vs)"

definition quorumProgressForBlock ::
    "VotePool \<Rightarrow> u64 \<Rightarrow> string \<Rightarrow> u64 \<Rightarrow> ValidatorRegistry \<Rightarrow> u64 \<Rightarrow> u64
       \<Rightarrow> VotePoolQuorumProgress result" where
  "quorumProgressForBlock pool i h r reg numerator denominator =
     bindR (acceptedWeightFrom reg {} 0 (votesForBlock pool i h r)) (\<lambda>acc.
     bindR (totalConsensusWeight reg) (\<lambda>t.
     bindR (requiredVotingWeight t numerator denominator) (\<lambda>q.
       Inr \<lparr>progIndex = i, progHash = h, progRound = r, acceptedVotingWeight = acc,
            progRequired = q, progTotal = t\<rparr>)))"

definition progressValid :: "VotePoolQuorumProgress \<Rightarrow> bool" where
  "progressValid p \<longleftrightarrow>
     progIndex p > 0 \<and> progHash p \<noteq> [] \<and> progRound p > 0 \<and> progRequired p > 0 \<and> progTotal p > 0 \<and>
     Inr (progRequired p) = requiredWeight (progTotal p) \<and> acceptedVotingWeight p \<le> progTotal p"

definition canCertify :: "VotePoolQuorumProgress \<Rightarrow> bool" where
  "canCertify p \<longleftrightarrow> progressValid p \<and> acceptedVotingWeight p \<ge> progRequired p"

subsection \<open>The threshold is two thirds, exactly\<close>

lemma requiredWeight_exact:
  assumes "w \<noteq> 0"
  obtains q where "requiredWeight w = Inr q" and "unat q = 2 * unat w div 3 + 1"
proof
  let ?q = "w - (w - 1) div kDenominator"
  show "requiredWeight w = Inr ?q" using assms by (simp add: requiredWeight_def)
  have "unat w \<noteq> 0" using assms by (simp only: unat_eq_0 not_False_eq_True)
  moreover have d: "unat ((w - 1) div kDenominator) = (unat w - 1) div 3"
    using assms by (simp add: unat_div kDenominator_def unat_dec)
  moreover have "(unat w - 1) div 3 \<le> unat w" by (simp add: le_trans [OF div_le_dividend])
  then have "(w - 1) div kDenominator \<le> w" by (simp only: word_le_nat_alt d)
  then have "unat ?q = unat w - (unat w - 1) div 3" by (simp only: unat_sub d)
  ultimately show "unat ?q = 2 * unat w div 3 + 1" by linarith
qed

lemma required_bounds:
  fixes w :: nat
  assumes "0 < w"
  shows "2 * w div 3 + 1 \<le> w" and "2 * w < 3 * (2 * w div 3 + 1)"
  using assms by presburger+

subsection \<open>Voters and their weight\<close>

lemma duplicateVoterFrom_iff:
  "duplicateVoterFrom seen vs \<longleftrightarrow>
     \<not> (distinct (map voteAddress vs) \<and> set (map voteAddress vs) \<inter> seen = {})"
  by (induction vs arbitrary: seen) auto

lemma hasDuplicateVoter_iff: "hasDuplicateVoter vs \<longleftrightarrow> \<not> distinct (map voteAddress vs)"
  by (simp add: hasDuplicateVoter_def duplicateVoterFrom_iff)

definition countedVote ::
    "sha256 \<Rightarrow> ValidatorRegistry \<Rightarrow> CryptoPolicy \<Rightarrow> SignatureProvider \<Rightarrow> ValidatorVoteRecord \<Rightarrow> bool" where
  "countedVote sha reg policy provider v \<longleftrightarrow>
     verifyValidatorIdentity sha reg (voteAddress v) (votePublicKey v) \<and>
     voteVerify sha policy provider v \<and> consensusWeightFor reg (voteAddress v) \<noteq> 0"

abbreviation voteWeights :: "ValidatorRegistry \<Rightarrow> ValidatorVoteRecord list \<Rightarrow> u64 list" where
  "voteWeights reg vs \<equiv> map (\<lambda>v. consensusWeightFor reg (voteAddress v)) vs"

lemma signedWeightFrom_iff:
  "signedWeightFrom sha reg policy provider acc vs =
     (if list_all (countedVote sha reg policy provider) vs then checkedSum acc (voteWeights reg vs) else None)"
  by (induction vs arbitrary: acc) (auto simp: countedVote_def addOverflows_def Let_def)

definition buildableVote ::
    "sha256 \<Rightarrow> ValidatorRegistry \<Rightarrow> CryptoPolicy \<Rightarrow> SignatureProvider \<Rightarrow> u64 \<Rightarrow> string \<Rightarrow> string \<Rightarrow> u64
       \<Rightarrow> ValidatorVoteRecord \<Rightarrow> bool" where
  "buildableVote sha reg policy provider i h p r v \<longleftrightarrow>
     countedVote sha reg policy provider v \<and> matchesBlock v i h r \<and> votePrevious v = p \<and>
     voteDecision v = PRECOMMIT"

lemma collectVotes_Inr:
  "collectVotes sha reg policy provider i h p r seen acc vs = Inr s \<longleftrightarrow>
     list_all (buildableVote sha reg policy provider i h p r) vs \<and>
     distinct (map voteAddress vs) \<and> set (map voteAddress vs) \<inter> seen = {} \<and>
     checkedSum acc (voteWeights reg vs) = Some s"
proof (induction vs arbitrary: seen acc)
  case (Cons v vs)
  show ?case
  proof (cases "buildableVote sha reg policy provider i h p r v \<and> voteAddress v \<notin> seen")
    case True
    then show ?thesis
      using Cons [of "insert (voteAddress v) seen" "acc + consensusWeightFor reg (voteAddress v)"]
      by (auto simp: buildableVote_def countedVote_def addOverflows_def Let_def)
  next
    case False
    then show ?thesis by (auto simp: buildableVote_def countedVote_def Let_def)
  qed
qed auto

abbreviation votersOf :: "ValidatorVoteRecord list \<Rightarrow> string set" where
  "votersOf vs \<equiv> set (map voteAddress vs)"

abbreviation weightOfSet :: "ValidatorRegistry \<Rightarrow> string set \<Rightarrow> nat" where
  "weightOfSet reg A \<equiv> (\<Sum>a\<in>A. unat (consensusWeightFor reg a))"

lemma voters_weight:
  assumes "regOk sha reg" and "totalConsensusWeight reg = Inr t" and "distinct (map voteAddress vs)"
  obtains s where "checkedSum 0 (voteWeights reg vs) = Some s"
    and "unat s = weightOfSet reg (votersOf vs)" and "unat s \<le> unat t"
  using vs.checkedSum_voters [OF assms] by (auto simp: comp_def)

lemma signed_weight:
  assumes "regOk sha reg" and "distinct (map voteAddress vs)"
    and "checkedSum 0 (voteWeights reg vs) = Some s"
  shows "unat s = weightOfSet reg (votersOf vs)"
  using total_of_valid [OF assms(1)] voters_weight [OF assms(1) _ assms(2)] assms(3) by fastforce

subsection \<open>What a verified certificate contains\<close>

lemma certVerify_total:
  assumes "mapOk reg"
  shows "\<exists>b. certVerify sha reg policy provider c = Inr b"
proof (cases "certStructurallyValid c \<and> validatorsValid sha reg")
  case True
  then obtain t where t: "totalConsensusWeight reg = Inr t"
    using total_of_valid [of sha reg] assms by (auto simp: regOk_def)
  obtain root where root: "validatorSetRoot sha reg = Inr root"
    using True serialize_total [of sha reg] by (auto simp: validatorSetRoot_def)
  obtain q where "requiredWeight (certTotal c) = Inr q"
    using True by (auto simp: certStructurallyValid_def requiredWeight_def split: if_splits)
  with t root True show ?thesis unfolding certVerify_def
    by (cases "signedWeightFrom sha reg policy provider 0 (certVotes c)") auto
qed (auto simp: certVerify_def)

lemma verified_certificate:
  assumes ok: "mapOk reg" and cert: "certVerify sha reg policy provider c = Inr True"
  obtains t where "regOk sha reg" and "totalConsensusWeight reg = Inr t" and "certTotal c = t" and "t \<noteq> 0"
    and "distinct (map voteAddress (certVotes c))"
    and "\<And>v. v \<in> set (certVotes c) \<Longrightarrow>
       buildableVote sha reg policy provider (certIndex c) (certHash c) (certPrevious c) (certRound c) v"
    and "2 * unat t < 3 * weightOfSet reg (votersOf (certVotes c))"
proof -
  have str: "certStructurallyValid c" and reg: "validatorsValid sha reg"
    using cert by (auto simp: certVerify_def split: if_splits)
  then have rok: "regOk sha reg" using ok by (simp add: regOk_def)
  obtain t where t: "totalConsensusWeight reg = Inr t" using total_of_valid [OF rok] by blast
  obtain s where s: "signedWeightFrom sha reg policy provider 0 (certVotes c) = Some s"
      "s \<ge> certRequired c" and tot: "certTotal c = t" and q: "requiredWeight t = Inr (certRequired c)"
    using cert str reg t
    by (auto simp: certVerify_def split: if_splits option.splits)
  have nz: "t \<noteq> 0" and dist: "distinct (map voteAddress (certVotes c))"
    and votes: "list_all (\<lambda>v. matchesBlock v (certIndex c) (certHash c) (certRound c) \<and>
       votePrevious v = certPrevious c \<and> voteDecision v = PRECOMMIT) (certVotes c)"
    using str tot by (auto simp: certStructurallyValid_def hasDuplicateVoter_iff split: if_splits)
  have cnt: "list_all (countedVote sha reg policy provider) (certVotes c)"
    and sum: "checkedSum 0 (voteWeights reg (certVotes c)) = Some s"
    using s(1) by (auto simp: signedWeightFrom_iff split: if_splits)
  obtain q' where "requiredWeight t = Inr q'" "unat q' = 2 * unat t div 3 + 1"
    using requiredWeight_exact [OF nz] .
  then have "unat (certRequired c) = 2 * unat t div 3 + 1" using q by simp
  moreover have "0 < unat t" using nz by (simp only: unat_gt_0 not_False_eq_True)
  moreover have "unat (certRequired c) \<le> weightOfSet reg (votersOf (certVotes c))"
    using s(2) signed_weight [OF rok dist sum] by (simp only: word_le_nat_alt)
  ultimately have "2 * unat t < 3 * weightOfSet reg (votersOf (certVotes c))"
    using required_bounds(2) [of "unat t"] by linarith
  then show ?thesis
    using that [OF rok t tot nz dist] votes cnt by (auto simp: list_all_iff buildableVote_def)
qed

definition doubleSigners :: "QuorumCertificate \<Rightarrow> QuorumCertificate \<Rightarrow> string set" where
  "doubleSigners c c' = {a. \<exists>v\<in>set (certVotes c). \<exists>v'\<in>set (certVotes c').
     voteAddress v = a \<and> voteAddress v' = a \<and> voteIndex v = voteIndex v' \<and> voteRound v = voteRound v' \<and>
     voteDecision v = PRECOMMIT \<and> voteDecision v' = PRECOMMIT \<and> voteHash v \<noteq> voteHash v'}"

subsection \<open>Properties of the quorum\<close>

text \<open>
  The quorum threshold is exactly \<open>floor(2 W / 3) + 1\<close> for every positive total weight up to
  the largest 64-bit one, although it is computed by a subtraction that cannot overflow; it never
  exceeds the total.
\<close>

theorem quorum_threshold_exact:
  assumes "w \<noteq> 0"
  shows "\<exists>q. requiredWeight w = Inr q \<and> unat q = 2 * unat w div 3 + 1 \<and> q \<le> w"
proof -
  obtain q where q: "requiredWeight w = Inr q" "unat q = 2 * unat w div 3 + 1"
    using requiredWeight_exact [OF assms] .
  moreover have "0 < unat w" using assms by (simp only: unat_gt_0 not_False_eq_True)
  ultimately have "q \<le> w" using required_bounds(1) [of "unat w"] by (simp only: word_le_nat_alt)
  then show ?thesis using q by blast
qed

text \<open>
  C5: Accountable safety. If two certificates for the same height and round, but for different
  blocks, both verify against the same validator registry, then validators holding more than
  one third of the total weight have precommitted to both blocks, and both votes carry valid
  signatures. Below that, two conflicting certificates of a round cannot exist.
\<close>

theorem conflicting_certificates_expose_a_third:
  assumes "mapOk reg"
    and "certVerify sha reg policy provider c = Inr True"
    and "certVerify sha reg policy provider c' = Inr True"
    and "certIndex c = certIndex c'" and "certRound c = certRound c'" and "certHash c \<noteq> certHash c'"
  shows "\<exists>t. totalConsensusWeight reg = Inr t \<and>
    unat t < 3 * (\<Sum>a\<in>doubleSigners c c'. unat (consensusWeightFor reg a)) \<and>
    (\<forall>v\<in>set (certVotes c) \<union> set (certVotes c'). voteVerify sha policy provider v)"
proof -
  let ?A = "votersOf (certVotes c)" and ?B = "votersOf (certVotes c')"
  obtain t where t: "regOk sha reg" "totalConsensusWeight reg = Inr t"
    and votes: "\<And>v. v \<in> set (certVotes c) \<Longrightarrow>
       buildableVote sha reg policy provider (certIndex c) (certHash c) (certPrevious c) (certRound c) v"
    and w: "2 * unat t < 3 * weightOfSet reg ?A"
    using verified_certificate [OF assms(1,2)] by metis
  obtain t' where "totalConsensusWeight reg = Inr t'"
    and votes': "\<And>v. v \<in> set (certVotes c') \<Longrightarrow>
       buildableVote sha reg policy provider (certIndex c') (certHash c') (certPrevious c') (certRound c') v"
    and "2 * unat t' < 3 * weightOfSet reg ?B"
    using verified_certificate [OF assms(1,3)] by metis
  then have w': "2 * unat t < 3 * weightOfSet reg ?B" using t(2) by simp
  have "weightOfSet reg ?A + weightOfSet reg ?B \<le> unat t + weightOfSet reg (?A \<inter> ?B)"
    by (rule vs.quorum_overlap [OF t]) auto
  then have over: "unat t < 3 * weightOfSet reg (?A \<inter> ?B)" using w w' by linarith
  have "?A \<inter> ?B \<subseteq> doubleSigners c c'"
  proof
    fix a assume "a \<in> ?A \<inter> ?B"
    then obtain v v' where v: "v \<in> set (certVotes c)" "v' \<in> set (certVotes c')"
      "voteAddress v = a" "voteAddress v' = a" by auto
    then show "a \<in> doubleSigners c c'"
      using votes [OF v(1)] votes' [OF v(2)] assms(4-6)
      unfolding doubleSigners_def mem_Collect_eq buildableVote_def matchesBlock_def
      by (intro bexI [of _ v] bexI [of _ v']) auto
  qed
  moreover have "finite (doubleSigners c c')"
    by (rule finite_subset [of _ ?A]) (auto simp: doubleSigners_def)
  ultimately have "weightOfSet reg (?A \<inter> ?B) \<le> weightOfSet reg (doubleSigners c c')"
    by (intro sum_mono2) auto
  then have "unat t < 3 * weightOfSet reg (doubleSigners c c')" using over by linarith
  then show ?thesis using t(2) votes votes' by (auto simp: buildableVote_def countedVote_def)
qed

subsection \<open>The builder\<close>

lemma hash_safe: "isSafeScalar (nodo_hash_string sha s)"
proof -
  have "nodo_hash_string sha s \<noteq> []" using length_nodo_hash [of sha s] by fastforce
  then show ?thesis
    using nodo_hash_lower [of sha s]
    by (fastforce simp: isSafeScalar_def isSafeDelimitedText_def list_all_iff isLowerHexDigit_def)
qed

lemma root_safe: "validatorSetRoot sha reg = Inr root \<Longrightarrow> isSafeScalar root"
  by (auto simp: validatorSetRoot_def hash_safe)

lemma quorum_weight:
  fixes w t :: nat
  shows "2 * t div 3 + 1 \<le> w \<longleftrightarrow> 2 * t < 3 * w"
  by linarith

lemma built_votes:
  assumes "buildFromVotes sha i h p r votes reg policy provider num den = Inr (Certified c)"
  shows "list_all (buildableVote sha reg policy provider i h p r) votes"
    and "certVerify sha reg policy provider c = Inr True" and "certVotes c = votes"
    and "certIndex c = i \<and> certHash c = h \<and> certRound c = r"
proof -
  obtain s where "collectVotes sha reg policy provider i h p r {} 0 votes = Inr s"
      "certVerify sha reg policy provider c = Inr True" "certVotes c = votes"
      "certIndex c = i \<and> certHash c = h \<and> certRound c = r"
    using assms unfolding buildFromVotes_def
    by (auto simp: Let_def split: if_splits sum.splits prod.splits)
  then show "list_all (buildableVote sha reg policy provider i h p r) votes"
    "certVerify sha reg policy provider c = Inr True" "certVotes c = votes"
    "certIndex c = i \<and> certHash c = h \<and> certRound c = r"
    by (simp_all add: collectVotes_Inr)
qed

definition certifiable ::
    "sha256 \<Rightarrow> u64 \<Rightarrow> string \<Rightarrow> string \<Rightarrow> u64 \<Rightarrow> ValidatorVoteRecord list \<Rightarrow> ValidatorRegistry
       \<Rightarrow> CryptoPolicy \<Rightarrow> SignatureProvider \<Rightarrow> bool" where
  "certifiable sha i h p r votes reg policy provider \<longleftrightarrow>
     i \<noteq> 0 \<and> r \<noteq> 0 \<and> isSafeScalar h \<and> isSafeScalar p \<and> validatorsValid sha reg \<and>
     list_all (buildableVote sha reg policy provider i h p r) votes \<and>
     distinct (map voteAddress votes) \<and>
     (\<exists>t. totalConsensusWeight reg = Inr t \<and> 2 * unat t < 3 * weightOfSet reg (votersOf votes))"

lemma build_complete:
  assumes ok: "mapOk reg" and cert: "certifiable sha i h p r votes reg policy provider"
  shows "\<exists>c. buildFromVotes sha i h p r votes reg policy provider 2 3 = Inr (Certified c)"
proof -
  have reg: "regOk sha reg" using ok cert by (simp add: regOk_def certifiable_def)
  obtain t where t: "totalConsensusWeight reg = Inr t" "2 * unat t < 3 * weightOfSet reg (votersOf votes)"
    using cert by (auto simp: certifiable_def)
  have votes: "list_all (buildableVote sha reg policy provider i h p r) votes"
    and dist: "distinct (map voteAddress votes)" using cert by (simp_all add: certifiable_def)
  obtain s where s: "checkedSum 0 (voteWeights reg votes) = Some s"
      "unat s = weightOfSet reg (votersOf votes)" "unat s \<le> unat t"
    using voters_weight [OF reg t(1) dist] .
  have col: "collectVotes sha reg policy provider i h p r {} 0 votes = Inr s"
    using votes dist s(1) by (simp add: collectVotes_Inr)
  have sgn: "signedWeightFrom sha reg policy provider 0 votes = Some s"
    using votes s(1) by (simp add: signedWeightFrom_iff list_all_iff buildableVote_def)
  have ne: "votes \<noteq> []" using t(2) by auto
  have "unat t \<noteq> 0" using t(2) s(2,3) by linarith
  then have nz: "t \<noteq> 0" by auto
  obtain q where q: "requiredWeight t = Inr q" "unat q = 2 * unat t div 3 + 1"
    using requiredWeight_exact [OF nz] .
  have ge: "q \<le> s" using t(2) s(2) q(2) by (simp only: word_le_nat_alt quorum_weight)
  have "s \<le> t" using s(3) by (simp only: word_le_nat_alt)
  with ge have le: "s \<le> t" "q \<le> t" by auto
  have q0: "q \<noteq> 0" "s \<noteq> 0" using q(2) ge by auto
  obtain root where root: "validatorSetRoot sha reg = Inr root"
    using serialize_total [of sha reg] cert by (auto simp: validatorSetRoot_def certifiable_def)
  let ?c = "\<lparr>certIndex = i, certHash = h, certPrevious = p, certRound = r, certRequired = q,
    certTotal = t, certSigned = s, certSetRoot = root, certVotes = votes\<rparr>"
  have "certStructurallyValid ?c"
    using cert q q0 nz le ge ne dist root_safe [OF root] votes
    by (auto simp: certStructurallyValid_def certifiable_def hasDuplicateVoter_iff not_less
        buildableVote_def list_all_iff)
  then have "certVerify sha reg policy provider ?c = Inr True"
    using t(1) q(1) root sgn ge reg by (simp add: certVerify_def regOk_def)
  then show ?thesis
    using cert ne t(1) nz q(1) col root ge
    by (auto simp: buildFromVotes_def certifiable_def requiredVotingWeight_def
        isCanonicalFraction_def kDenominator_def not_less)
qed

lemma build_sound:
  assumes ok: "mapOk reg"
    and build: "buildFromVotes sha i h p r votes reg policy provider 2 3 = Inr (Certified c)"
  shows "certifiable sha i h p r votes reg policy provider"
proof -
  note built = built_votes [OF build]
  obtain t where t: "regOk sha reg" "totalConsensusWeight reg = Inr t"
    "distinct (map voteAddress votes)" "2 * unat t < 3 * weightOfSet reg (votersOf votes)"
    using verified_certificate [OF ok built(2)] built(3) by metis
  have "i \<noteq> 0" "r \<noteq> 0" "isSafeScalar h" "isSafeScalar p"
    using build by (auto simp: buildFromVotes_def split: if_splits)
  then show ?thesis using t built(1) by (auto simp: certifiable_def regOk_def)
qed

text \<open>
  C8: The certificate builder is exact. With the canonical threshold of two thirds it certifies a
  block if and only if the registry and the block identifiers are well formed, every candidate
  vote is a verified precommit by an active, weighted validator for exactly this block, parent
  and round, no validator votes twice, and the voters hold more than two thirds of the total
  weight; and whatever it certifies passes verification and contains exactly the candidates.
\<close>

theorem builder_exact:
  assumes "mapOk reg"
  shows "(\<exists>c. buildFromVotes sha i h p r votes reg policy provider 2 3 = Inr (Certified c) \<and>
            certVerify sha reg policy provider c = Inr True \<and> certVotes c = votes) \<longleftrightarrow>
         i \<noteq> 0 \<and> r \<noteq> 0 \<and> isSafeScalar h \<and> isSafeScalar p \<and> validatorsValid sha reg \<and>
         list_all (\<lambda>v. voteVerify sha policy provider v \<and>
            verifyValidatorIdentity sha reg (voteAddress v) (votePublicKey v) \<and>
            consensusWeightFor reg (voteAddress v) \<noteq> 0 \<and>
            matchesBlock v i h r \<and> votePrevious v = p \<and> voteDecision v = PRECOMMIT) votes \<and>
         distinct (map voteAddress votes) \<and>
         (\<exists>t. totalConsensusWeight reg = Inr t \<and>
            2 * unat t < 3 * (\<Sum>a\<in>set (map voteAddress votes). unat (consensusWeightFor reg a)))"
proof -
  have "(\<exists>c. buildFromVotes sha i h p r votes reg policy provider 2 3 = Inr (Certified c) \<and>
      certVerify sha reg policy provider c = Inr True \<and> certVotes c = votes) \<longleftrightarrow>
    certifiable sha i h p r votes reg policy provider"
    using build_complete [OF assms] build_sound [OF assms] built_votes(2,3) by metis
  moreover have "list_all (buildableVote sha reg policy provider i h p r) votes \<longleftrightarrow>
      list_all (\<lambda>v. voteVerify sha policy provider v \<and>
        verifyValidatorIdentity sha reg (voteAddress v) (votePublicKey v) \<and>
        consensusWeightFor reg (voteAddress v) \<noteq> 0 \<and>
        matchesBlock v i h r \<and> votePrevious v = p \<and> voteDecision v = PRECOMMIT) votes"
    by (auto simp: list_all_iff buildableVote_def countedVote_def)
  ultimately show ?thesis unfolding certifiable_def by simp
qed

subsection \<open>One stray vote\<close>

lemma submit_keeps_votes:
  assumes ok: "poolOk sha pool"
  shows "set (votesForBlock pool i h r) \<subseteq> set (votesForBlock (snd (submitVote sha policy provider v pool)) i h r)"
proof -
  obtain res pool' where run: "submitVote sha policy provider v pool = (res, pool')"
    by (cases "submitVote sha policy provider v pool")
  have "pool' = pool \<or> pool' = addVote sha v pool \<or> votesForBlock pool' = votesForBlock pool"
    using submit_outcome [OF ok run] by (auto split: VotePoolStatus.splits)
  then show ?thesis unfolding run by (auto simp: votesForBlock_addVote)
qed

lemma submits_keep_votes:
  assumes "poolOk sha pool" and "list_all (\<lambda>c. poolLegal c \<and> (\<forall>k. c \<noteq> Prune k)) cs"
  shows "set (votesForBlock pool i h r) \<subseteq> set (votesForBlock (fold (poolStep sha) cs pool) i h r)"
  using assms
proof (induction cs arbitrary: pool)
  case (Cons c cs)
  obtain policy provider v where c: "c = Submit policy provider v" using Cons.prems by (cases c) auto
  have "poolOk sha (poolStep sha c pool)" using Cons.prems by (intro poolStep_ok) auto
  with Cons.IH have "set (votesForBlock (poolStep sha c pool) i h r) \<subseteq>
      set (votesForBlock (fold (poolStep sha) cs (poolStep sha c pool)) i h r)"
    using Cons.prems(2) by simp
  then show ?case using submit_keeps_votes [OF Cons.prems(1)] c by fastforce
qed simp

text \<open>
  One precommit with a wrong parent hash blocks the block of its round. The pool groups votes
  by height, hash and round only, and the builder gives up on the first vote whose parent hash is
  not the block's: once such a vote is in the pool, then no matter which votes arrive later and
  how much weight they carry, no certificate is assembled for that block in that round.
\<close>

theorem stray_parent_hash_blocks_certificate:
  assumes "list_all poolLegal cs" and "pool = fold (poolStep sha) cs emptyPool"
    and "v \<in> set (votesForBlock pool i h r)" and "voteDecision v = PRECOMMIT" and "votePrevious v \<noteq> p"
    and "list_all (\<lambda>c. poolLegal c \<and> (\<forall>k. c \<noteq> Prune k)) later"
  shows "assembleCertificate sha (fold (poolStep sha) later pool) hist i h p r policy provider num den
           \<noteq> Inr (Some (Certified c))"
proof
  let ?pool = "fold (poolStep sha) later pool"
  let ?votes = "filter (\<lambda>v. voteDecision v = PRECOMMIT) (votesForBlock ?pool i h r)"
  assume "assembleCertificate sha ?pool hist i h p r policy provider num den = Inr (Some (Certified c))"
  then obtain reg where "buildFromVotes sha i h p r ?votes reg policy provider num den = Inr (Certified c)"
    by (auto simp: assembleCertificate_def Let_def split: if_splits)
  note all = built_votes(1) [OF this]
  have "poolOk sha pool" unfolding assms(2) by (rule votepool.run_inv [OF poolOk_empty assms(1)])
  then have "v \<in> set (votesForBlock ?pool i h r)" using submits_keep_votes [OF _ assms(6)] assms(3) by blast
  then show False using all assms(4,5) by (auto simp: list_all_iff buildableVote_def)
qed

subsection \<open>Quorum progress\<close>

lemma acceptedWeightFrom_eq:
  assumes "regOk sha reg" and "totalConsensusWeight reg = Inr t" and "finite seen"
    and "unat acc = weightOfSet reg seen"
  shows "\<exists>w. acceptedWeightFrom reg seen acc vs = Inr w \<and> unat w = weightOfSet reg (seen \<union> votersOf vs)"
  using assms(3,4)
proof (induction vs arbitrary: seen acc)
  case (Cons v vs)
  let ?a = "voteAddress v" and ?w = "consensusWeightFor reg (voteAddress v)"
  show ?case
  proof (cases "?a \<in> seen")
    case True
    then show ?thesis using Cons.IH [OF Cons.prems] by (simp add: insert_absorb)
  next
    case False
    have sum: "unat acc + unat ?w = weightOfSet reg (insert ?a seen)"
      using False Cons.prems by simp
    also have "\<dots> \<le> unat t" using Cons.prems by (intro vs.weightSum_le_total [OF assms(1,2)]) simp
    also have "\<dots> < 2 ^ 64" by simp
    finally have no: "\<not> addOverflows acc ?w" by (simp add: addOverflows_iff)
    then have "unat (acc + ?w) = weightOfSet reg (insert ?a seen)"
      using sum by (simp add: unat_add_no_overflow)
    then show ?thesis
      using Cons.IH [of "insert ?a seen" "acc + ?w"] Cons.prems(1) False no
      by (simp add: addOverflows_def Let_def)
  qed
qed simp

text \<open>
  The progress report of the pool never overflows on a valid registry with positive weight:
  it counts every voter of the block once, whatever the decision, the accepted weight stays within
  the total, and \<open>canCertify\<close> holds exactly when the voters hold more than two thirds of it.
\<close>

theorem quorum_progress_exact:
  assumes "mapOk reg" and "validatorsValid sha reg" and "totalConsensusWeight reg \<noteq> Inr 0"
    and "i \<noteq> 0" and "h \<noteq> []" and "r \<noteq> 0"
  shows "\<exists>g t. quorumProgressForBlock pool i h r reg 2 3 = Inr g \<and> totalConsensusWeight reg = Inr t \<and>
     unat (acceptedVotingWeight g) =
       (\<Sum>a\<in>set (map voteAddress (votesForBlock pool i h r)). unat (consensusWeightFor reg a)) \<and>
     acceptedVotingWeight g \<le> t \<and>
     (canCertify g \<longleftrightarrow> 2 * unat t < 3 * unat (acceptedVotingWeight g))"
proof -
  have ok: "regOk sha reg" using assms by (simp add: regOk_def)
  obtain t where t: "totalConsensusWeight reg = Inr t" "t \<noteq> 0"
    using total_of_valid [OF ok] assms(3) by auto
  let ?vs = "votesForBlock pool i h r"
  obtain w where w: "acceptedWeightFrom reg {} 0 ?vs = Inr w" "unat w = weightOfSet reg (votersOf ?vs)"
    using acceptedWeightFrom_eq [OF ok t(1), of "{}" 0 ?vs] by auto
  have le: "unat w \<le> unat t" unfolding w(2) by (rule vs.weightSum_le_total [OF ok t(1)]) simp
  obtain q where q: "requiredWeight t = Inr q" "unat q = 2 * unat t div 3 + 1"
    using requiredWeight_exact [OF t(2)] .
  let ?g = "\<lparr>progIndex = i, progHash = h, progRound = r, acceptedVotingWeight = w, progRequired = q,
    progTotal = t\<rparr>"
  have "quorumProgressForBlock pool i h r reg 2 3 = Inr ?g"
    using w(1) t q(1) by (simp add: quorumProgressForBlock_def requiredVotingWeight_def
        isCanonicalFraction_def kDenominator_def)
  moreover have "0 < q" using q(2) by (auto simp: word_gt_0)
  then have "canCertify ?g \<longleftrightarrow> q \<le> w"
    using assms(4-6) q t le by (auto simp: canCertify_def progressValid_def word_le_nat_alt word_neq_0_conv)
  moreover have "q \<le> w \<longleftrightarrow> 2 * unat t < 3 * unat w" by (simp only: word_le_nat_alt q(2) quorum_weight)
  ultimately show ?thesis using w(2) le t(1) by (auto simp: word_le_nat_alt)
qed

subsection \<open>The demonstration network\<close>

abbreviation demoQuorumFor :: "string \<Rightarrow> string \<Rightarrow> ValidatorVoteRecord list" where
  "demoQuorumFor h p \<equiv> [demoVote CHR ''7'' PRECOMMIT h p, demoVote CHR ''f'' PRECOMMIT h p]"

abbreviation demoQuorum :: "string \<Rightarrow> ValidatorVoteRecord list" where
  "demoQuorum h \<equiv> demoQuorumFor h ''parent''"

lemma demo_counted:
  assumes "demoName c" and "isSafeScalar h" and "isSafeScalar p"
  shows "countedVote demoSha demoValidators demoPolicy demoProvider (demoVote c PRECOMMIT h p)"
proof -
  obtain st where "(demoAddr c, demoEntry c st) \<in> set demoValidators" and "st \<noteq> 0"
    and w: "consensusWeightFor demoValidators (demoAddr c) = st"
    using assms(1) demoValidators_weights(3-5) by (auto simp: demoName_def demoValidators_def)
  then have "verifyValidatorIdentity demoSha demoValidators (demoAddr c) (demoKey c)"
    using demo_identity by fastforce
  with w \<open>st \<noteq> 0\<close> show ?thesis
    using demoVote_verify [OF assms(1) _ assms(2,3), of PRECOMMIT]
    by (simp add: countedVote_def) (simp add: demoVote_def)
qed

lemma demo_certifiable_for:
  assumes "isSafeScalar h" and "isSafeScalar p"
  shows "certifiable demoSha 1 h p 1 (demoQuorumFor h p) demoValidators demoPolicy demoProvider"
proof -
  have "list_all (buildableVote demoSha demoValidators demoPolicy demoProvider 1 h p 1) (demoQuorumFor h p)"
    using demo_counted [OF _ assms]
    by (simp add: buildableVote_def demoName_def) (simp add: demoVote_def)
  moreover have "weightOfSet demoValidators (votersOf (demoQuorumFor h p)) = 5000000"
    by (simp add: demoVote_def demoValidators_weights)
  moreover have "distinct (map voteAddress (demoQuorumFor h p))" by (simp add: demoVote_def)
  ultimately show ?thesis
    using assms demoValidators_valid by (simp add: certifiable_def demoValidators_weights)
qed

lemmas demo_certifiable = demo_certifiable_for [OF _ demo_safe(2)]

theorem quorum_threshold_exact_witness:
  "\<exists>q. requiredWeight U64_MAX = Inr q \<and> unat q = 12297829382473034411"
  using quorum_threshold_exact [of U64_MAX] by (auto simp: U64_MAX_def)

theorem conflicting_certificates_expose_a_third_witness:
  "\<exists>c c'. certHash c = ''block'' \<and> certHash c' = ''fork'' \<and>
     6000000 < 3 * (\<Sum>a\<in>doubleSigners c c'. unat (consensusWeightFor demoValidators a))"
proof -
  obtain c where c: "buildFromVotes demoSha 1 ''block'' ''parent'' 1 (demoQuorum ''block'') demoValidators
      demoPolicy demoProvider 2 3 = Inr (Certified c)"
    using build_complete [OF demoValidators_mapOk demo_certifiable [OF demo_safe(1)]] by blast
  obtain c' where c': "buildFromVotes demoSha 1 ''fork'' ''parent'' 1 (demoQuorum ''fork'') demoValidators
      demoPolicy demoProvider 2 3 = Inr (Certified c')"
    using build_complete [OF demoValidators_mapOk demo_certifiable [OF demo_safe(3)]] by blast
  note b = built_votes [OF c] and b' = built_votes [OF c']
  from conflicting_certificates_expose_a_third [OF demoValidators_mapOk b(2) b'(2)] b(4) b'(4)
  show ?thesis by (intro exI [of _ c] exI [of _ c']) (auto simp: demoValidators_weights)
qed

theorem builder_exact_witness:
  "\<exists>c. buildFromVotes demoSha 1 ''block'' ''parent'' 1 (demoQuorum ''block'') demoValidators
     demoPolicy demoProvider 2 3 = Inr (Certified c)"
  using builder_exact [OF demoValidators_mapOk, of demoSha 1 "''block''" "''parent''" 1 "demoQuorum ''block''"
      demoPolicy demoProvider] demo_certifiable [OF demo_safe(1)]
  by (auto simp: certifiable_def buildableVote_def countedVote_def)

theorem stray_parent_hash_blocks_certificate_witness:
  "\<forall>c. assembleCertificate demoSha
     (fold (poolStep demoSha) (map (Submit demoPolicy demoProvider) (demoQuorum ''block''))
        (fold (poolStep demoSha)
          [Submit demoPolicy demoProvider (demoVote CHR ''0'' PRECOMMIT ''block'' ''fork'')] emptyPool))
     demoHistory 1 ''block'' ''parent'' 1 demoPolicy demoProvider 2 3 \<noteq> Inr (Some (Certified c))"
proof (rule allI, rule stray_parent_hash_blocks_certificate [OF _ refl])
  let ?v = "demoVote CHR ''0'' PRECOMMIT ''block'' ''fork''"
  show "?v \<in> set (votesForBlock (fold (poolStep demoSha) [Submit demoPolicy demoProvider ?v] emptyPool) 1 ''block'' 1)"
    using demoVote_minimal [OF _ _ demo_safe(1,3), of "CHR ''0''" PRECOMMIT]
    by (simp add: submit_cases [OF poolOk_empty] demoName_def)
      (simp add: emptyPool_def stored_def votesForBlock_addVote)
qed (simp_all add: demoPolicy_def, simp_all add: demoVote_def)

theorem quorum_progress_exact_witness:
  "\<exists>g. quorumProgressForBlock emptyPool 1 ''block'' 1 demoValidators 2 3 = Inr g \<and> \<not> canCertify g"
  using quorum_progress_exact [OF demoValidators_mapOk demoValidators_valid, of 1 "''block''" 1 emptyPool]
  by (auto simp: demoValidators_weights)

end
