(* ===== verification/Schedule.thy ===== *)
theory Schedule
  imports Validators
begin

section \<open>Epochs and proposers\<close>

text \<open>
  \<open>src/consensus/EpochCadence.cpp\<close>, the height-based epoch schedule, and
  \<open>src/consensus/ProposerSchedule.cpp\<close>, the stake-weighted choice of a proposer from the hash of
  chain id, height and round.
\<close>

unbundle bit_operations_syntax

subsection \<open>Epochs\<close>

definition kMaxTargetBlockSeconds :: u64 where
  "kMaxTargetBlockSeconds = 300"

definition kMinNominalEpochSeconds :: u64 where
  "kMinNominalEpochSeconds = 24 * 60 * 60"

definition kMaxNominalEpochSeconds :: u64 where
  "kMaxNominalEpochSeconds = 7 * 24 * 60 * 60"

record EpochCadence =
  epochLengthBlocks :: u64
  targetBlockSeconds :: u64

definition createCadence :: "u64 \<Rightarrow> u64 \<Rightarrow> EpochCadence option" where
  "createCadence len secs =
     (if len = 0 \<or> secs = 0 \<or> secs > kMaxTargetBlockSeconds \<or> len > kMaxNominalEpochSeconds div secs \<or>
         len * secs < kMinNominalEpochSeconds
      then None
      else Some \<lparr>epochLengthBlocks = len, targetBlockSeconds = secs\<rparr>)"

definition nominalEpochSeconds :: "EpochCadence \<Rightarrow> u64" where
  "nominalEpochSeconds c = epochLengthBlocks c * targetBlockSeconds c"

definition epochForHeight :: "EpochCadence \<Rightarrow> u64 \<Rightarrow> u64 option" where
  "epochForHeight c height =
     (if height = 0 then None else Some ((height - 1) div epochLengthBlocks c))"

definition isFinalBlockOfEpoch :: "EpochCadence \<Rightarrow> u64 \<Rightarrow> bool" where
  "isFinalBlockOfEpoch c height \<longleftrightarrow> height \<noteq> 0 \<and> height mod epochLengthBlocks c = 0"

definition epochFirstHeight :: "EpochCadence \<Rightarrow> u64 \<Rightarrow> u64 option" where
  "epochFirstHeight c epoch =
     (if epoch > (U64_MAX - 1) div epochLengthBlocks c then None
      else Some (epoch * epochLengthBlocks c + 1))"

definition epochLastHeight :: "EpochCadence \<Rightarrow> u64 \<Rightarrow> u64 option" where
  "epochLastHeight c epoch =
     (if epoch = U64_MAX \<or> epoch + 1 > U64_MAX div epochLengthBlocks c then None
      else Some ((epoch + 1) * epochLengthBlocks c))"

text \<open>\<open>genesisTime\<close> is an \<open>int64_t\<close>; the product stays below the remaining range.\<close>

definition earliestHeaderTime :: "EpochCadence \<Rightarrow> int \<Rightarrow> u64 \<Rightarrow> int option" where
  "earliestHeaderTime c genesisTime height =
     (if genesisTime \<le> 0 then None
      else let available = word_of_int (I64_MAX - genesisTime) in
           if height > available div targetBlockSeconds c then None
           else Some (genesisTime + uint (height * targetBlockSeconds c)))"

lemma unat_div_U64_MAX: "unat (U64_MAX div n) = (2 ^ 64 - 1) div unat n"
  by (simp add: unat_div unat_U64_MAX)

text \<open>The interval of an epoch on naturals, for a cadence with a positive epoch length.\<close>

lemma epochForHeight_unat:
  "epochForHeight c h = Some e \<longleftrightarrow> h \<noteq> 0 \<and> unat e = (unat h - 1) div unat (epochLengthBlocks c)"
  by (auto simp: epochForHeight_def unat_div unat_pred word_unat_eq_iff)

lemma epochFirstHeight_unat:
  assumes pos: "epochLengthBlocks c \<noteq> 0"
  shows "epochFirstHeight c e = Some f \<longleftrightarrow> unat f = unat e * unat (epochLengthBlocks c) + 1"
proof -
  let ?n = "unat (epochLengthBlocks c)"
  have n: "0 < ?n" using pos by (simp add: unat_gt_0)
  have guard: "e > (U64_MAX - 1) div epochLengthBlocks c \<longleftrightarrow> \<not> unat e * ?n + 1 < 2 ^ 64"
  proof -
    have "unat (U64_MAX - 1) = 2 ^ 64 - 2" by (simp add: U64_MAX_def)
    then have "unat ((U64_MAX - 1) div epochLengthBlocks c) = (2 ^ 64 - 2) div ?n" by (simp add: unat_div)
    then have "e > (U64_MAX - 1) div epochLengthBlocks c \<longleftrightarrow> (2 ^ 64 - 2) div ?n < unat e"
      by (simp add: word_less_nat_alt)
    also have "\<dots> \<longleftrightarrow> 2 ^ 64 - 2 < unat e * ?n" using n by (rule div_less_iff_less_mult)
    finally show ?thesis by auto
  qed
  show ?thesis
  proof (cases "unat e * ?n + 1 < 2 ^ 64")
    case True
    then have m: "unat (e * epochLengthBlocks c) = unat e * ?n" by (intro unat_mult_bound) simp
    have "unat (e * epochLengthBlocks c + 1) = unat e * ?n + 1"
      using True m by (simp add: unat_word_ariths(1) [of _ 1])
    then show ?thesis using True guard by (auto simp: epochFirstHeight_def word_unat_eq_iff)
  next
    case False
    then have "unat f \<noteq> unat e * ?n + 1" using unat_bound [of f] by linarith
    then show ?thesis using False guard by (auto simp: epochFirstHeight_def)
  qed
qed

lemma epochLastHeight_unat:
  assumes pos: "epochLengthBlocks c \<noteq> 0"
  shows "epochLastHeight c e = Some l \<longleftrightarrow> unat l = (unat e + 1) * unat (epochLengthBlocks c)"
proof -
  let ?n = "unat (epochLengthBlocks c)"
  have n: "0 < ?n" using pos by (simp add: unat_gt_0)
  show ?thesis
  proof (cases "e = U64_MAX")
    case True
    then have "unat e + 1 = 2 ^ 64" by (simp add: unat_U64_MAX)
    then have "2 ^ 64 \<le> (unat e + 1) * ?n" using n by simp
    then have "unat l \<noteq> (unat e + 1) * ?n" using unat_bound [of l] by linarith
    then show ?thesis using True by (simp add: epochLastHeight_def)
  next
    case False
    have guard: "e + 1 > U64_MAX div epochLengthBlocks c \<longleftrightarrow> \<not> (unat e + 1) * ?n < 2 ^ 64"
    proof -
      have "e + 1 > U64_MAX div epochLengthBlocks c \<longleftrightarrow> (2 ^ 64 - 1) div ?n < unat e + 1"
        unfolding word_less_nat_alt unat_div_U64_MAX unat_succ [OF False] ..
      also have "\<dots> \<longleftrightarrow> 2 ^ 64 - 1 < (unat e + 1) * ?n" using n by (rule div_less_iff_less_mult)
      finally show ?thesis by auto
    qed
    have "unat ((e + 1) * epochLengthBlocks c) = (unat e + 1) * ?n" if "(unat e + 1) * ?n < 2 ^ 64"
      using that unat_mult_bound [of "e + 1" "epochLengthBlocks c"] unat_succ [OF False] by simp
    moreover have "unat l \<noteq> (unat e + 1) * ?n" if "\<not> (unat e + 1) * ?n < 2 ^ 64"
      using that unat_bound [of l] by linarith
    ultimately show ?thesis using False guard
      by (cases "(unat e + 1) * ?n < 2 ^ 64") (auto simp: epochLastHeight_def word_unat_eq_iff)
  qed
qed

lemma epoch_interval:
  fixes h n e :: nat
  assumes "0 < n" and "0 < h"
  shows "e = (h - 1) div n \<longleftrightarrow> e * n + 1 \<le> h \<and> h \<le> (e + 1) * n"
proof -
  have "e = (h - 1) div n \<longleftrightarrow> e * n \<le> h - 1 \<and> h - 1 < (e + 1) * n"
    using assms(1) by (metis Suc_eq_plus1 div_less_iff_less_mult less_Suc_eq_le less_eq_div_iff_mult_less_eq
      order_antisym_conv order_refl)
  then show ?thesis using assms by linarith
qed

lemma epoch_final:
  fixes h n :: nat
  assumes "0 < n" and "0 < h"
  shows "h mod n = 0 \<longleftrightarrow> h = ((h - 1) div n + 1) * n"
proof
  assume "h mod n = 0"
  then obtain k where k: "h = k * n" by (metis dvd_def mod_0_imp_dvd mult.commute)
  then have "(k - 1) * n + 1 \<le> h" and "h \<le> (k - 1 + 1) * n"
    using assms by (cases k; simp)+
  then have "k - 1 = (h - 1) div n" using epoch_interval [OF assms] by blast
  then show "h = ((h - 1) div n + 1) * n" using k assms by (cases k) auto
next
  assume "h = ((h - 1) div n + 1) * n"
  then show "h mod n = 0" by (metis mod_mult_self2_is_0)
qed

lemma createCadence_pos: "createCadence len secs = Some c \<Longrightarrow> epochLengthBlocks c \<noteq> 0"
  by (auto simp: createCadence_def split: if_splits)

text \<open>
  A cadence that \<open>create\<close> accepts partitions the positive heights into consecutive epochs.
  Every height \<open>h > 0\<close> has exactly one epoch \<open>e\<close>; its first height is representable and at most
  \<open>h\<close>; its last height, where representable, is at least \<open>h\<close>; no other epoch's interval contains
  \<open>h\<close>; \<open>isFinalBlockOfEpoch\<close> holds exactly at the last height; and none of the products involved
  wraps around.
\<close>

theorem epochs_partition_heights:
  assumes "createCadence len secs = Some c" and "h \<noteq> 0"
  shows "\<exists>e f. epochForHeight c h = Some e \<and> epochFirstHeight c e = Some f \<and> f \<le> h \<and>
      (case epochLastHeight c e of None \<Rightarrow> True | Some l \<Rightarrow> h \<le> l) \<and>
      (isFinalBlockOfEpoch c h \<longleftrightarrow> epochLastHeight c e = Some h) \<and>
      (\<forall>e' f' l'. epochFirstHeight c e' = Some f' \<and> epochLastHeight c e' = Some l' \<and> f' \<le> h \<and> h \<le> l'
         \<longrightarrow> e' = e) \<and>
      unat f = unat e * unat len + 1"
proof -
  have pos: "epochLengthBlocks c \<noteq> 0" using assms(1) by (rule createCadence_pos)
  have len: "epochLengthBlocks c = len" using assms(1) by (auto simp: createCadence_def split: if_splits)
  let ?n = "unat (epochLengthBlocks c)"
  have n: "0 < ?n" and h: "0 < unat h" using pos assms(2) by (simp_all add: unat_gt_0)
  let ?e = "(h - 1) div epochLengthBlocks c"
  have e: "epochForHeight c h = Some ?e" using assms(2) by (simp add: epochForHeight_def)
  then have ue: "unat ?e = (unat h - 1) div ?n" by (simp add: epochForHeight_unat)
  then have iv: "unat ?e * ?n + 1 \<le> unat h" "unat h \<le> (unat ?e + 1) * ?n"
    using epoch_interval [OF n h] by blast+
  have "unat ?e * ?n + 1 < 2 ^ 64" using iv(1) unat_bound [of h] by linarith
  then have "unat (of_nat (unat ?e * ?n + 1) :: u64) = unat ?e * ?n + 1"
    unfolding unat_of_nat by simp
  then obtain f where f: "unat (f :: u64) = unat ?e * ?n + 1" by blast
  have uniq: "e' = ?e" if "epochFirstHeight c e' = Some f'" "epochLastHeight c e' = Some l'" "f' \<le> h" "h \<le> l'"
    for e' f' l'
    using that epoch_interval [OF n h, of "unat e'"] ue
    by (simp add: epochFirstHeight_unat [OF pos] epochLastHeight_unat [OF pos] word_le_nat_alt word_unat_eq_iff)
  have fin: "isFinalBlockOfEpoch c h \<longleftrightarrow> epochLastHeight c ?e = Some h"
    unfolding epochLastHeight_unat [OF pos] ue isFinalBlockOfEpoch_def
    using epoch_final [OF n h] assms(2) by (simp add: word_unat_eq_iff unat_mod)
  have first: "epochFirstHeight c ?e = Some f" unfolding epochFirstHeight_unat [OF pos] by (rule f)
  have "f \<le> h" unfolding word_le_nat_alt f by (rule iv(1))
  moreover have "case epochLastHeight c ?e of None \<Rightarrow> True | Some l \<Rightarrow> h \<le> l"
  proof (cases "epochLastHeight c ?e")
    case (Some l)
    then have "unat l = (unat ?e + 1) * ?n" unfolding epochLastHeight_unat [OF pos] .
    then show ?thesis using iv(2) Some by (simp add: word_le_nat_alt)
  qed simp
  moreover have "\<forall>e' f' l'. epochFirstHeight c e' = Some f' \<and> epochLastHeight c e' = Some l' \<and> f' \<le> h \<and> h \<le> l'
      \<longrightarrow> e' = ?e"
    using uniq by blast
  ultimately show ?thesis using e first fin f len by blast
qed

theorem epochs_partition_heights_witness:
  "\<exists>e f. epochForHeight \<lparr>epochLengthBlocks = 1440, targetBlockSeconds = 60\<rparr> 2880 = Some e \<and> f \<le> 2880 \<and>
     epochFirstHeight \<lparr>epochLengthBlocks = 1440, targetBlockSeconds = 60\<rparr> e = Some f"
proof -
  have "createCadence 1440 60 = Some \<lparr>epochLengthBlocks = 1440, targetBlockSeconds = 60\<rparr>" by code_simp
  from epochs_partition_heights [OF this, of 2880] show ?thesis by auto
qed

subsection \<open>The proposer of a round\<close>

definition hexPrefixDigit :: "char \<Rightarrow> u64" where
  "hexPrefixDigit c =
     (if CHR ''0'' \<le> c \<and> c \<le> CHR ''9'' then word_of_int (of_char c - 48)
      else if CHR ''a'' \<le> c \<and> c \<le> CHR ''f'' then word_of_int (of_char c - 97 + 10)
      else if CHR ''A'' \<le> c \<and> c \<le> CHR ''F'' then word_of_int (of_char c - 65 + 10)
      else 0)"

fun hexPrefixFrom :: "u64 \<Rightarrow> string \<Rightarrow> u64" where
  "hexPrefixFrom v [] = v"
| "hexPrefixFrom v (c # cs) = hexPrefixFrom (push_bit 4 v OR hexPrefixDigit c) cs"

definition hexPrefixToUint64 :: "string \<Rightarrow> u64" where
  "hexPrefixToUint64 s = hexPrefixFrom 0 (take 16 s)"

definition buildSelectionKey :: "string \<Rightarrow> u64 \<Rightarrow> u64 \<Rightarrow> string" where
  "buildSelectionKey chainId height r =
     ''NODO_PROPOSER_SELECTION_V1:'' @ chainId @ '':'' @ showU64 height @ '':'' @ showU64 r"

fun proposerFrom :: "ValidatorRegistry \<Rightarrow> u64 \<Rightarrow> string \<Rightarrow> u64 \<Rightarrow> string list \<Rightarrow> string result" where
  "proposerFrom reg ticket fallback cursor [] = Inr fallback"
| "proposerFrom reg ticket fallback cursor (a # as) =
     (let w = consensusWeightFor reg a in
      if w = 0 then proposerFrom reg ticket fallback cursor as
      else if U64_MAX - cursor < w then Inl (OverflowError ''Proposer schedule weight overflow.'')
      else if ticket < cursor + w then Inr a
      else proposerFrom reg ticket fallback (cursor + w) as)"

definition proposerForTicket :: "ValidatorRegistry \<Rightarrow> u64 \<Rightarrow> string result" where
  "proposerForTicket reg ticket =
     (let addresses = eligibleValidatorAddresses reg
      in proposerFrom reg ticket (last addresses) 0 addresses)"

definition selectProposer :: "sha256 \<Rightarrow> ValidatorRegistry \<Rightarrow> string \<Rightarrow> u64 \<Rightarrow> u64 \<Rightarrow> string result" where
  "selectProposer sha reg chainId height r =
     (if eligibleValidatorAddresses reg = [] then Inr []
      else bindR (totalConsensusWeight reg) (\<lambda>total.
        if total = 0 then Inr []
        else let hashHex = hashCString sha (buildSelectionKey chainId height r);
                 ticket = hexPrefixToUint64 hashHex mod total
             in proposerForTicket reg ticket))"

lemma proposerFrom_walk:
  assumes "unat cursor + (\<Sum>a\<leftarrow>as. unat (consensusWeightFor reg a)) < 2 ^ 64" and "cursor \<le> ticket"
  shows "proposerFrom reg ticket fallback cursor as =
    Inr (case ticketWalk (\<lambda>a. unat (consensusWeightFor reg a)) (unat cursor) (unat ticket) as of
           None \<Rightarrow> fallback | Some a \<Rightarrow> a)"
  using assms
proof (induction as arbitrary: cursor)
  case Nil
  then show ?case by simp
next
  case (Cons x as)
  let ?w = "consensusWeightFor reg x"
  have no: "\<not> addOverflows cursor ?w" using Cons.prems(1) by (simp add: addOverflows_iff)
  then have sum: "unat (cursor + ?w) = unat cursor + unat ?w" by (rule unat_add_no_overflow)
  show ?case
  proof (cases "?w = 0")
    case True
    then show ?thesis using Cons by (simp add: word_le_nat_alt)
  next
    case False
    have iff: "ticket < cursor + ?w \<longleftrightarrow> unat ticket < unat cursor + unat ?w"
      by (simp add: word_less_nat_alt sum)
    have "proposerFrom reg ticket fallback (cursor + ?w) as =
        Inr (case ticketWalk (\<lambda>a. unat (consensusWeightFor reg a)) (unat cursor + unat ?w) (unat ticket) as of
               None \<Rightarrow> fallback | Some a \<Rightarrow> a)" if "\<not> ticket < cursor + ?w"
      using Cons.IH [of "cursor + ?w"] Cons.prems(1) that by (simp add: sum add.assoc not_less)
    then show ?thesis using False no iff by (simp add: addOverflows_def Let_def)
  qed
qed

text \<open>For a valid registry the walk is the ticket walk over the eligible validators.\<close>

lemma proposerForTicket_walk:
  assumes "regOk sha reg" and "totalConsensusWeight reg = Inr t" and "ticket < t"
  shows "\<exists>a. proposerForTicket reg ticket = Inr a \<and>
    ticketWalk (\<lambda>a. unat (consensusWeightFor reg a)) 0 (unat ticket) (eligibleValidatorAddresses reg) = Some a"
proof -
  let ?as = "eligibleValidatorAddresses reg"
  have t: "unat t = (\<Sum>a\<leftarrow>?as. unat (consensusWeightFor reg a))"
    using vs.total_exact [OF assms(1)] assms(2) by auto
  have "unat ticket < 0 + (\<Sum>a\<leftarrow>?as. unat (consensusWeightFor reg a))"
    using assms(3) t by (simp add: word_less_nat_alt)
  then obtain a where
    a: "ticketWalk (\<lambda>a. unat (consensusWeightFor reg a)) 0 (unat ticket) ?as = Some a"
    using ticketWalk_total [of 0 "unat ticket" "\<lambda>a. unat (consensusWeightFor reg a)" ?as] by auto
  moreover have "unat (0 :: u64) + (\<Sum>a\<leftarrow>?as. unat (consensusWeightFor reg a)) < 2 ^ 64"
    using unat_bound [of t] unfolding t by simp
  ultimately show ?thesis
    using proposerFrom_walk [of 0 reg ?as ticket] by (simp add: proposerForTicket_def Let_def)
qed

lemma of_nat_ticket: "n < unat (t :: u64) \<Longrightarrow> unat (of_nat n :: u64) = n"
proof -
  assume "n < unat t"
  then have "n < 2 ^ 64" using unat_bound [of t] by (rule less_trans)
  then show ?thesis unfolding unat_of_nat by simp
qed

lemma card_tickets:
  fixes t :: u64
  shows "card {k. k < t \<and> P (unat k)} = card {n. n < unat t \<and> P n}"
proof -
  have "bij_betw unat {k. k < t \<and> P (unat k)} {n. n < unat t \<and> P n}"
    by (rule bij_betw_byWitness [where f' = of_nat]) (auto simp: word_less_nat_alt of_nat_ticket)
  then show ?thesis by (rule bij_betw_same_card)
qed

lemma ticketWalk_bound:
  "ticketWalk w cursor t as = Some a \<Longrightarrow> t < cursor + (\<Sum>a\<leftarrow>as. w a)"
  by (induction as arbitrary: cursor) (fastforce simp: add.assoc split: if_splits)+

text \<open>
  The proposer schedule is sound and fair. For a valid registry with positive total weight
  \<open>selectProposer\<close> never throws and never reaches its fallback: it returns an eligible validator
  with positive weight, the one the ticket (the hash of chain id, height and round modulo the
  total weight) falls on; and among the tickets below the total, each address owns exactly as
  many as its consensus weight.
\<close>

theorem proposer_selection_fair:
  assumes "mapOk reg" and "validatorsValid sha reg" and "totalConsensusWeight reg = Inr totalWeight" and "totalWeight \<noteq> 0"
  shows "(\<exists>a. selectProposer sha reg chainId height r = Inr a \<and> a \<in> set (eligibleValidatorAddresses reg) \<and>
      consensusWeightFor reg a \<noteq> 0 \<and>
      proposerForTicket reg (hexPrefixToUint64 (hashCString sha (buildSelectionKey chainId height r)) mod totalWeight) = Inr a) \<and>
    card {ticket. ticket < totalWeight \<and> proposerForTicket reg ticket = Inr b} = unat (consensusWeightFor reg b)"
proof -
  have ok: "regOk sha reg" using assms(1,2) by (simp add: regOk_def)
  let ?w = "\<lambda>a. unat (consensusWeightFor reg a)" and ?as = "eligibleValidatorAddresses reg"
  let ?ticket = "hexPrefixToUint64 (hashCString sha (buildSelectionKey chainId height r)) mod totalWeight"
  have t: "unat totalWeight = (\<Sum>a\<leftarrow>?as. ?w a)" using vs.total_exact [OF ok] assms(3) by auto
  have "?as \<noteq> []" using t assms(4) by (auto simp: word_unat_eq_iff)
  then have sel: "selectProposer sha reg chainId height r = proposerForTicket reg ?ticket"
    using assms(3,4) by (simp add: selectProposer_def)
  have "?ticket < totalWeight" using assms(4) by (simp add: word_mod_less_divisor word_neq_0_conv)
  from proposerForTicket_walk [OF ok assms(3) this] obtain a where
    a: "proposerForTicket reg ?ticket = Inr a" "ticketWalk ?w 0 (unat ?ticket) ?as = Some a" by blast
  then have "a \<in> set ?as \<and> 0 < ?w a" using ticketWalk_range by fastforce
  then have "\<exists>a. selectProposer sha reg chainId height r = Inr a \<and> a \<in> set ?as \<and>
      consensusWeightFor reg a \<noteq> 0 \<and> proposerForTicket reg ?ticket = Inr a"
    using a(1) sel by (auto simp: unat_gt_0)
  moreover have "card {ticket. ticket < totalWeight \<and> proposerForTicket reg ticket = Inr b} = ?w b"
  proof -
    have "{k. k < totalWeight \<and> proposerForTicket reg k = Inr b} =
        {k. k < totalWeight \<and> ticketWalk ?w 0 (unat k) ?as = Some b}"
      using proposerForTicket_walk [OF ok assms(3)] by fastforce
    also have "card \<dots> = card {n. n < unat totalWeight \<and> ticketWalk ?w 0 n ?as = Some b}"
      by (rule card_tickets)
    also have "{n. n < unat totalWeight \<and> ticketWalk ?w 0 n ?as = Some b} = {n. 0 \<le> n \<and> ticketWalk ?w 0 n ?as = Some b}"
      using ticketWalk_bound [of ?w 0 _ ?as b] t by auto
    also have "card \<dots> = (if b \<in> set ?as then ?w b else 0)"
      using ticketWalk_count vs.eligible_distinct [OF ok] by blast
    also have "\<dots> = ?w b" using vs.weight_outside by auto
    finally show ?thesis .
  qed
  ultimately show ?thesis by blast
qed

theorem proposer_selection_fair_witness:
  "(\<exists>a. selectProposer demoSha demoValidators ''nodo-test'' 5 1 = Inr a) \<and>
   card {ticket. ticket < 6000000 \<and> proposerForTicket demoValidators ticket = Inr (demoAddr CHR ''7'')} = 2000000"
proof -
  note fair = proposer_selection_fair [OF demoValidators_mapOk demoValidators_valid demoValidators_weights(1)]
  have "\<exists>a. selectProposer demoSha demoValidators ''nodo-test'' 5 1 = Inr a" using fair by fastforce
  then show ?thesis using fair [of _ _ _ "demoAddr CHR ''7''"] by (simp add: demoValidators_weights)
qed

end
