(* ===== verification/Rounds.thy ===== *)
theory Rounds
  imports Quorum Ledger Schedule
begin

section \<open>Consensus rounds, locks and the recovery record\<close>

text \<open>
  \<open>src/consensus/RoundTimeout.cpp\<close>, \<open>ConsensusRoundManager.cpp\<close>, \<open>ProposalJustification.cpp\<close>,
  \<open>ConsensusRecoveryStore.cpp\<close>, \<open>ValidatorVoteBuilder.cpp\<close> and the vote signing of
  \<open>src/crypto/Signer.cpp\<close>. A round state holds the round a validator is in, the block it is
  locked on and the votes it has cast; the recovery store writes it to disk before a vote leaves
  the node.

  Of \<open>Signer\<close> the in-process branch is modelled (no external signing process is attached); the
  provider and the key are parameters. The recovery file is modelled by its contents: a write
  either replaces the stored state or fails, and the answer of the disk is an argument. That the
  text in the file reads back as the state that was written is not modelled.
\<close>

subsection \<open>Timeouts\<close>

record RoundTimeout =
  timeoutHeight :: u64
  timeoutRound :: u64
  timeoutStartedAt :: int
  timeoutSeconds :: u64

definition expiresAt :: "RoundTimeout \<Rightarrow> int" where
  "expiresAt t =
     (let delta = sint (timeoutSeconds t) in
      if delta > 0 \<and> timeoutStartedAt t > I64_MAX - delta then I64_MAX
      else timeoutStartedAt t + delta)"

definition hasExpired :: "RoundTimeout \<Rightarrow> int \<Rightarrow> bool" where
  "hasExpired t now \<longleftrightarrow> now \<ge> expiresAt t"

definition timeoutValid :: "RoundTimeout \<Rightarrow> bool" where
  "timeoutValid t \<longleftrightarrow> timeoutStartedAt t > 0 \<and> timeoutSeconds t > 0"

subsection \<open>Round states\<close>

record ConsensusRoundState =
  rsHeight :: u64
  rsRound :: u64
  rsProposer :: string
  rsStartedAt :: int
  rsLockedBlock :: string
  rsLockedRound :: u64
  rsVotedPrevote :: bool
  rsVotedPrecommit :: bool
  rsPrevote :: "ValidatorVoteRecord option"
  rsPrecommit :: "ValidatorVoteRecord option"

definition newRoundState :: "u64 \<Rightarrow> u64 \<Rightarrow> string \<Rightarrow> int \<Rightarrow> ConsensusRoundState" where
  "newRoundState height r proposer startedAt =
     \<lparr>rsHeight = height, rsRound = r, rsProposer = proposer, rsStartedAt = startedAt,
      rsLockedBlock = [], rsLockedRound = 0, rsVotedPrevote = False, rsVotedPrecommit = False,
      rsPrevote = None, rsPrecommit = None\<rparr>"

definition isPersistedRoundVote ::
    "ValidatorVoteRecord \<Rightarrow> u64 \<Rightarrow> u64 \<Rightarrow> ValidatorVoteDecision \<Rightarrow> bool" where
  "isPersistedRoundVote vote height r decision \<longleftrightarrow>
     voteIndex vote = height \<and> voteRound vote = r \<and> voteDecision vote = decision \<and>
     voteHash vote \<noteq> [] \<and> votePrevious vote \<noteq> [] \<and> voteAddress vote \<noteq> []"

definition rsValid :: "ConsensusRoundState \<Rightarrow> bool" where
  "rsValid st =
     (if rsHeight st = 0 \<or> rsRound st = 0 \<or> rsProposer st = [] \<or> rsStartedAt st \<le> 0 then False
      else let hasLock = (rsLockedBlock st \<noteq> []) in
      if hasLock \<noteq> (rsLockedRound st > 0) \<or> rsLockedRound st > rsRound st then False
      else if rsVotedPrevote st \<noteq> (rsPrevote st \<noteq> None) then False
      else if rsVotedPrecommit st \<noteq> (rsPrecommit st \<noteq> None) then False
      else if rsVotedPrecommit st \<and> (\<not> rsVotedPrevote st \<or> \<not> hasLock) then False
      else if (case rsPrevote st of None \<Rightarrow> False
               | Some v \<Rightarrow> \<not> isPersistedRoundVote v (rsHeight st) (rsRound st) PREVOTE) then False
      else if (case rsPrecommit st of None \<Rightarrow> False
               | Some v \<Rightarrow> \<not> isPersistedRoundVote v (rsHeight st) (rsRound st) PRECOMMIT \<or>
                           voteHash v \<noteq> rsLockedBlock st) then False
      else (case (rsPrevote st, rsPrecommit st) of
              (Some v, Some w) \<Rightarrow> voteHash v = voteHash w \<and> votePrevious v = votePrevious w \<and>
                                   voteAddress v = voteAddress w
            | _ \<Rightarrow> True))"

definition encodeOptionalVote :: "sha256 \<Rightarrow> ValidatorVoteRecord option \<Rightarrow> string" where
  "encodeOptionalVote sha v = (case v of None \<Rightarrow> ''-'' | Some vote \<Rightarrow> hexEncode (voteSerialize sha vote))"

definition showFlag :: "bool \<Rightarrow> string" where
  "showFlag b = (if b then ''1'' else ''0'')"

definition rsSerialize :: "sha256 \<Rightarrow> ConsensusRoundState \<Rightarrow> string" where
  "rsSerialize sha st =
     ''ConsensusRoundState{height='' @ showU64 (rsHeight st)
       @ '';round='' @ showU64 (rsRound st)
       @ '';proposer='' @ rsProposer st
       @ '';startedAt='' @ showI64 (rsStartedAt st)
       @ '';lockedBlockHash='' @ rsLockedBlock st
       @ '';lockedRound='' @ showU64 (rsLockedRound st)
       @ '';votedPrevote='' @ showFlag (rsVotedPrevote st)
       @ '';votedPrecommit='' @ showFlag (rsVotedPrecommit st)
       @ '';persistedPrevoteHex='' @ encodeOptionalVote sha (rsPrevote st)
       @ '';persistedPrecommitHex='' @ encodeOptionalVote sha (rsPrecommit st) @ ''}''"

subsection \<open>The round manager\<close>

record ConsensusRoundManager =
  mgrState :: ConsensusRoundState
  mgrCollector :: NetworkVoteCollector
  mgrTimeout :: RoundTimeout

definition advanceToHeight ::
    "sha256 \<Rightarrow> u64 \<Rightarrow> u64 \<Rightarrow> string \<Rightarrow> int \<Rightarrow> u64 \<Rightarrow> ConsensusRoundManager \<Rightarrow> ConsensusRoundManager" where
  "advanceToHeight sha height r proposer now secs mgr =
     (let c = mgrCollector mgr;
          consecutive = (collectorHeight c = height \<and> collectorRound c \<noteq> U64_MAX \<and> r = collectorRound c + 1)
      in \<lparr>mgrState = newRoundState height r proposer now,
          mgrCollector = (if consecutive then setCurrentRound sha height r c else newCollector height r),
          mgrTimeout = \<lparr>timeoutHeight = height, timeoutRound = r, timeoutStartedAt = now, timeoutSeconds = secs\<rparr>\<rparr>)"

definition advanceRound ::
    "sha256 \<Rightarrow> u64 \<Rightarrow> string \<Rightarrow> int \<Rightarrow> u64 \<Rightarrow> ConsensusRoundManager \<Rightarrow> ConsensusRoundManager" where
  "advanceRound sha newRound proposer now secs mgr =
     advanceToHeight sha (rsHeight (mgrState mgr)) newRound proposer now secs mgr"

definition isCurrentRound :: "ConsensusRoundManager \<Rightarrow> u64 \<Rightarrow> u64 \<Rightarrow> bool" where
  "isCurrentRound mgr height r \<longleftrightarrow> rsHeight (mgrState mgr) = height \<and> rsRound (mgrState mgr) = r"

definition mgrSubmitVote ::
    "sha256 \<Rightarrow> CryptoPolicy \<Rightarrow> SignatureProvider \<Rightarrow> ValidatorVoteRecord \<Rightarrow> ConsensusRoundManager
       \<Rightarrow> VoteCollectResult \<times> ConsensusRoundManager" where
  "mgrSubmitVote sha policy provider vote mgr =
     (let (res, c) = submitNetworkVote sha policy provider vote (mgrCollector mgr)
      in (res, mgr\<lparr>mgrCollector := c\<rparr>))"

definition isTimeoutExpired :: "ConsensusRoundManager \<Rightarrow> int \<Rightarrow> bool" where
  "isTimeoutExpired mgr now \<longleftrightarrow> timeoutValid (mgrTimeout mgr) \<and> hasExpired (mgrTimeout mgr) now"

subsection \<open>Unlocking by a quorum certificate\<close>

datatype ProposalJustification = NoJustification | UnlockQC QuorumCertificate

fun justificationValid :: "ProposalJustification \<Rightarrow> bool" where
  "justificationValid NoJustification = True"
| "justificationValid (UnlockQC c) = certStructurallyValid c"

fun justificationSerialize :: "sha256 \<Rightarrow> ProposalJustification \<Rightarrow> string" where
  "justificationSerialize sha NoJustification = ''ProposalJustification{type=NONE}''"
| "justificationSerialize sha (UnlockQC c) =
     ''ProposalJustification{type=UNLOCK_QC;certificate='' @ certSerialize sha c @ ''}''"

definition permitsUnlock ::
    "sha256 \<Rightarrow> ProposalJustification \<Rightarrow> u64 \<Rightarrow> string \<Rightarrow> u64 \<Rightarrow> ValidatorRegistry \<Rightarrow> CryptoPolicy
       \<Rightarrow> SignatureProvider \<Rightarrow> bool result" where
  "permitsUnlock sha justification lockedRound candidateHash r validators policy provider =
     (if r \<le> lockedRound then Inr False
      else case justification of
        NoJustification \<Rightarrow> Inr False
      | UnlockQC c \<Rightarrow>
          if \<not> certStructurallyValid c then Inr False
          else bindR (certVerify sha validators policy provider c) (\<lambda>ok.
            if \<not> ok then Inr False
            else if certRound c < lockedRound then Inr False
            else if certHash c \<noteq> candidateHash then Inr False
            else Inr True))"

subsection \<open>Signing votes\<close>

record Signer =
  signerAddress :: string
  signerPublicKey :: PublicKey
  signerPrivateKey :: string
  signerProvider :: SignatureProvider

definition signValidatorVote ::
    "sha256 \<Rightarrow> Signer \<Rightarrow> u64 \<Rightarrow> string \<Rightarrow> string \<Rightarrow> u64 \<Rightarrow> ValidatorVoteDecision \<Rightarrow> string \<Rightarrow> int
       \<Rightarrow> ValidatorVoteRecord result" where
  "signValidatorVote sha signer i h p r d reason createdAt =
     createVote sha (signerProvider signer) (signerPrivateKey signer)
       \<lparr>voteAddress = signerAddress signer, votePublicKey = signerPublicKey signer, voteIndex = i,
        voteHash = h, votePrevious = p, voteRound = r, voteDecision = d, voteReason = reason,
        voteCreatedAt = createdAt, voteBundle = []\<rparr>"

definition buildPrevote ::
    "sha256 \<Rightarrow> ValidatorRegistry \<Rightarrow> Block \<Rightarrow> u64 \<Rightarrow> int \<Rightarrow> Signer \<Rightarrow> ValidatorVoteRecord result" where
  "buildPrevote sha reg b r createdAt signer =
     (if \<not> blockValid sha True b \<or> r = 0 \<or> createdAt \<le> 0
      then Inl (InvalidArgument ''Validator vote build input is invalid.'')
      else if \<not> isEligibleForConsensus reg (signerAddress signer)
      then Inl (InvalidArgument ''Signer is not an eligible weighted validator.'')
      else if \<not> verifyValidatorIdentity sha reg (signerAddress signer) (signerPublicKey signer)
      then Inl (InvalidArgument ''Signer key does not match validator registry.'')
      else signValidatorVote sha signer (blockIndex b) (blockHash b) (blockPrevious b) r PREVOTE
             ''runtime-block-pipeline-prevote'' createdAt)"

definition buildPrecommit ::
    "sha256 \<Rightarrow> ValidatorRegistry \<Rightarrow> Block \<Rightarrow> u64 \<Rightarrow> int \<Rightarrow> Signer \<Rightarrow> ValidatorVoteRecord result" where
  "buildPrecommit sha reg b r createdAt signer =
     (if \<not> blockValid sha True b \<or> r = 0 \<or> createdAt < blockTimestamp b
      then Inl (InvalidArgument ''Validator vote build input is invalid.'')
      else if \<not> isEligibleForConsensus reg (signerAddress signer)
      then Inl (InvalidArgument ''Signer is not an eligible weighted validator.'')
      else if \<not> verifyValidatorIdentity sha reg (signerAddress signer) (signerPublicKey signer)
      then Inl (InvalidArgument ''Signer key does not match validator registry.'')
      else signValidatorVote sha signer (blockIndex b) (blockHash b) (blockPrevious b) r PRECOMMIT
             ''runtime-block-pipeline-precommit'' createdAt)"

subsection \<open>The recovery file\<close>

text \<open>
  The file is represented by the list of the states written to it, oldest first; its content is
  the last of them. \<open>diskOk\<close> answers whether writing a given state succeeds.
\<close>

definition isPersistableRoundState :: "ConsensusRoundState \<Rightarrow> bool" where
  "isPersistableRoundState st \<longleftrightarrow>
     rsValid st \<and> rsHeight st > 0 \<and> rsRound st > 0 \<and> rsProposer st \<noteq> []"

definition recoverySave ::
    "(ConsensusRoundState \<Rightarrow> bool) \<Rightarrow> ConsensusRoundState \<Rightarrow> ConsensusRoundState list
       \<Rightarrow> bool \<times> ConsensusRoundState list" where
  "recoverySave diskOk st log =
     (if \<not> isPersistableRoundState st then (False, log)
      else if diskOk st then (True, log @ [st]) else (False, log))"

definition recoveryLoad :: "ConsensusRoundState list \<Rightarrow> ConsensusRoundState option" where
  "recoveryLoad log = (if log = [] then None else Some (last log))"

end
