(* ===== verification/Finality.thy ===== *)
theory Finality
  imports Quorum Ledger Schedule "HOL-Library.Product_Lexorder" "HOL-Library.Multiset"
begin

section \<open>Finalization and block time\<close>

text \<open>
  \<open>src/consensus/BlockFinalizer.cpp\<close>: the finalization record of a block, the registry of
  finalized heights and \<open>BlockFinalizer::finalizeBlock\<close>, which appends a certified block to the
  chain and registers it; and \<open>src/consensus/BftTime.cpp\<close>: the time of a child block as the
  weighted median of the precommit times in its parent's certificate. The text parser of the
  finalization record is not here.
\<close>

subsection \<open>Finalized block records\<close>

record FinalizedBlockRecord =
  finIndex :: u64
  finHash :: string
  finPrevious :: string
  finRound :: u64
  finalizedAt :: int
  finCertificate :: QuorumCertificate

definition finMatchesBlock :: "FinalizedBlockRecord \<Rightarrow> Block \<Rightarrow> bool" where
  "finMatchesBlock f b \<longleftrightarrow>
     finIndex f = blockIndex b \<and> finHash f = blockHash b \<and> finPrevious f = blockPrevious b \<and>
     list_all (\<lambda>v. voteCreatedAt v \<ge> blockTimestamp b) (certVotes (finCertificate f))"

definition finStructurallyValid :: "FinalizedBlockRecord \<Rightarrow> bool" where
  "finStructurallyValid f =
     (if finIndex f = 0 \<or> finRound f = 0 \<or> finalizedAt f \<le> 0 then False
      else if \<not> isSafeScalar (finHash f) \<or> \<not> isSafeScalar (finPrevious f) then False
      else if \<not> certStructurallyValid (finCertificate f) then False
      else certIndex (finCertificate f) = finIndex f \<and> certHash (finCertificate f) = finHash f \<and>
           certPrevious (finCertificate f) = finPrevious f \<and> certRound (finCertificate f) = finRound f)"

definition finVerify ::
    "sha256 \<Rightarrow> ValidatorRegistry \<Rightarrow> CryptoPolicy \<Rightarrow> SignatureProvider \<Rightarrow> FinalizedBlockRecord
       \<Rightarrow> bool result" where
  "finVerify sha reg policy provider f =
     (if \<not> finStructurallyValid f then Inr False
      else certVerify sha reg policy provider (finCertificate f))"

definition finSerialize :: "sha256 \<Rightarrow> FinalizedBlockRecord \<Rightarrow> string" where
  "finSerialize sha f =
     ''FinalizedBlockRecord{blockIndex='' @ showU64 (finIndex f)
       @ '';blockHash='' @ finHash f
       @ '';previousHash='' @ finPrevious f
       @ '';round='' @ showU64 (finRound f)
       @ '';finalizedAt='' @ showI64 (finalizedAt f)
       @ '';quorumCertificate='' @ certSerialize sha (finCertificate f) @ ''}''"

subsection \<open>The registry of finalized heights\<close>

type_synonym BlockFinalizationRegistry = "(u64, FinalizedBlockRecord) smap"

datatype BlockFinalizationRegistryStatus =
    REGISTERED | Fin_DUPLICATE | CONFLICTING_FINALIZATION | INVALID_RECORD | INVALID_REGISTRY

record BlockFinalizationRegistryResult =
  registryStatus :: BlockFinalizationRegistryStatus
  registryReason :: string
  registryRecord :: "FinalizedBlockRecord option"

definition canRegister :: "BlockFinalizationRegistry \<Rightarrow> FinalizedBlockRecord \<Rightarrow> bool" where
  "canRegister freg f =
     (if \<not> finStructurallyValid f then False
      else case map_of freg (finIndex f) of None \<Rightarrow> True | Some e \<Rightarrow> finHash e = finHash f)"

definition finRegistryValid :: "BlockFinalizationRegistry \<Rightarrow> bool" where
  "finRegistryValid freg \<longleftrightarrow>
     list_all (\<lambda>(h, f). \<not> (h = 0 \<or> finIndex f \<noteq> h \<or> \<not> finStructurallyValid f)) freg"

definition registerFinalizedBlock ::
    "FinalizedBlockRecord \<Rightarrow> BlockFinalizationRegistry
       \<Rightarrow> BlockFinalizationRegistryResult \<times> BlockFinalizationRegistry" where
  "registerFinalizedBlock f freg =
     (if \<not> finStructurallyValid f
      then (\<lparr>registryStatus = INVALID_RECORD,
             registryReason = ''Finalized block record is structurally invalid.'', registryRecord = None\<rparr>, freg)
      else case map_of freg (finIndex f) of
        Some e \<Rightarrow>
          if \<not> finStructurallyValid e
          then (\<lparr>registryStatus = INVALID_REGISTRY,
                 registryReason = ''Existing finalized block record is invalid.'', registryRecord = None\<rparr>, freg)
          else if finHash e = finHash f
          then (\<lparr>registryStatus = Fin_DUPLICATE,
                 registryReason = ''Finalized block already registered.'', registryRecord = Some e\<rparr>, freg)
          else (\<lparr>registryStatus = CONFLICTING_FINALIZATION,
                 registryReason = ''A different block hash is already finalized at this height.'',
                 registryRecord = None\<rparr>, freg)
      | None \<Rightarrow>
          let freg' = snd (mapEmplace (finIndex f) f freg) in
          if \<not> finRegistryValid freg'
          then (\<lparr>registryStatus = INVALID_REGISTRY,
                 registryReason = ''Finalization registry failed post-registration audit.'',
                 registryRecord = None\<rparr>, mapErase (finIndex f) freg')
          else (\<lparr>registryStatus = REGISTERED, registryReason = [], registryRecord = Some f\<rparr>, freg'))"

definition hasFinalizedHeight :: "BlockFinalizationRegistry \<Rightarrow> u64 \<Rightarrow> bool" where
  "hasFinalizedHeight freg h \<longleftrightarrow> map_of freg h \<noteq> None"

definition isFinalizedBlock :: "BlockFinalizationRegistry \<Rightarrow> u64 \<Rightarrow> string \<Rightarrow> bool" where
  "isFinalizedBlock freg h hash = (case map_of freg h of None \<Rightarrow> False | Some f \<Rightarrow> finHash f = hash)"

definition recordForHeight :: "BlockFinalizationRegistry \<Rightarrow> u64 \<Rightarrow> FinalizedBlockRecord option" where
  "recordForHeight freg h = map_of freg h"

definition highestFinalizedHeight :: "BlockFinalizationRegistry \<Rightarrow> u64" where
  "highestFinalizedHeight freg = (if freg = [] then 0 else fst (last freg))"

definition finRegistrySerialize :: "sha256 \<Rightarrow> BlockFinalizationRegistry \<Rightarrow> string" where
  "finRegistrySerialize sha freg =
     ''BlockFinalizationRegistry{size='' @ showNat (length freg)
       @ '';highestFinalizedHeight='' @ showU64 (highestFinalizedHeight freg)
       @ '';records=['' @ joinWith '','' (map (\<lambda>(h, f). finSerialize sha f) freg) @ '']}''"

subsection \<open>Finalizing a block\<close>

datatype BlockFinalizationStatus =
    FINALIZED | DUPLICATE_FINALIZATION | INVALID_BLOCKCHAIN | INVALID_BLOCK | INVALID_CERTIFICATE
  | CERTIFICATE_BLOCK_MISMATCH | INVALID_FINALIZATION_REGISTRY | ALREADY_FINALIZED_CONFLICT
  | APPEND_REJECTED | REGISTRATION_FAILED

record BlockFinalizationResult =
  finStatus :: BlockFinalizationStatus
  finReason :: string
  finRecord :: "FinalizedBlockRecord option"

definition finRejected :: "BlockFinalizationStatus \<Rightarrow> string \<Rightarrow> BlockFinalizationResult" where
  "finRejected s reason = \<lparr>finStatus = s, finReason = reason, finRecord = None\<rparr>"

definition certificateMatchesBlock :: "Block \<Rightarrow> QuorumCertificate \<Rightarrow> bool" where
  "certificateMatchesBlock b c \<longleftrightarrow>
     certIndex c = blockIndex b \<and> certHash c = blockHash b \<and> certPrevious c = blockPrevious b"

definition finalizeBlock ::
    "sha256 \<Rightarrow> Block \<Rightarrow> QuorumCertificate \<Rightarrow> ValidatorRegistry \<Rightarrow> CryptoPolicy \<Rightarrow> SignatureProvider \<Rightarrow> int
       \<Rightarrow> Blockchain \<times> BlockFinalizationRegistry
       \<Rightarrow> (BlockFinalizationResult, Blockchain \<times> BlockFinalizationRegistry) outcome" where
  "finalizeBlock sha b c reg policy provider at s =
     (let chain = fst s; freg = snd s in
      if chainBlocks chain = [] \<or> \<not> blockchainValid sha False chain
      then (Inr (finRejected INVALID_BLOCKCHAIN ''Blockchain is empty or invalid.''), s)
      else if \<not> finRegistryValid freg
      then (Inr (finRejected INVALID_FINALIZATION_REGISTRY ''Block finalization registry is invalid.''), s)
      else if \<not> blockValid sha False b \<or> isGenesisBlock b
      then (Inr (finRejected INVALID_BLOCK ''Only valid non-genesis blocks can be finalized.''), s)
      else if at \<le> 0
      then (Inr (finRejected INVALID_BLOCK ''Finalization timestamp must be positive.''), s)
      else if \<not> canAppendBlock sha chain b
      then (Inr (finRejected APPEND_REJECTED ''Block cannot be appended to current blockchain tip.''), s)
      else case certVerify sha reg policy provider c of
        Inl e \<Rightarrow> (Inl e, s)
      | Inr False \<Rightarrow> (Inr (finRejected INVALID_CERTIFICATE ''Quorum certificate failed verification.''), s)
      | Inr True \<Rightarrow>
          if \<not> certificateMatchesBlock b c
          then (Inr (finRejected CERTIFICATE_BLOCK_MISMATCH ''Quorum certificate does not match block.''), s)
          else let f = \<lparr>finIndex = blockIndex b, finHash = blockHash b, finPrevious = blockPrevious b,
                        finRound = certRound c, finalizedAt = at, finCertificate = c\<rparr> in
          if \<not> finMatchesBlock f b
          then (Inr (finRejected INVALID_CERTIFICATE
                       ''PRECOMMIT vote time is earlier than the certified block time.''), s)
          else (case finVerify sha reg policy provider f of
            Inl e \<Rightarrow> (Inl e, s)
          | Inr False \<Rightarrow> (Inr (finRejected INVALID_CERTIFICATE ''Finalized block record failed verification.''), s)
          | Inr True \<Rightarrow>
              if \<not> canRegister freg f
              then (Inr (finRejected ALREADY_FINALIZED_CONFLICT
                           ''A conflicting block is already finalized at this height.''), s)
              else (case addBlock sha b chain of
                (Inl e, chain') \<Rightarrow> (Inl e, (chain', freg))
              | (Inr _, chain') \<Rightarrow>
                  let (registration, freg') = registerFinalizedBlock f freg in
                  if registryStatus registration = Fin_DUPLICATE
                  then (Inr \<lparr>finStatus = DUPLICATE_FINALIZATION, finReason = ''Block already finalized.'',
                             finRecord = registryRecord registration\<rparr>, (chain', freg'))
                  else if registryStatus registration \<noteq> REGISTERED
                  then (Inr (finRejected REGISTRATION_FAILED (registryReason registration)), (chain', freg'))
                  else (Inr \<lparr>finStatus = FINALIZED, finReason = [],
                             finRecord = registryRecord registration\<rparr>, (chain', freg')))))"

subsection \<open>Block time\<close>

fun voteTimesFrom ::
    "ValidatorRegistry \<Rightarrow> int \<Rightarrow> u64 \<Rightarrow> ValidatorVoteRecord list \<Rightarrow> (u64 \<times> (int \<times> u64) list) option" where
  "voteTimesFrom reg parentTime signedWeight [] = Some (signedWeight, [])"
| "voteTimesFrom reg parentTime signedWeight (v # vs) =
     (if voteCreatedAt v < parentTime then None
      else let w = consensusWeightFor reg (voteAddress v) in
           if w = 0 \<or> signedWeight > U64_MAX - w then None
           else map_option (\<lambda>(s, ts). (s, (voteCreatedAt v, w) # ts))
                  (voteTimesFrom reg parentTime (signedWeight + w) vs))"

fun medianFrom :: "u64 \<Rightarrow> u64 \<Rightarrow> (int \<times> u64) list \<Rightarrow> int option" where
  "medianFrom threshold cumulative [] = None"
| "medianFrom threshold cumulative ((time, w) # ts) =
     (if cumulative + w \<ge> threshold then Some time else medianFrom threshold (cumulative + w) ts)"

definition expectedChildTime ::
    "sha256 \<Rightarrow> Block \<Rightarrow> u64 \<Rightarrow> QuorumCertificate option \<Rightarrow> ValidatorSetHistory option \<Rightarrow> CryptoPolicy
       \<Rightarrow> SignatureProvider \<Rightarrow> int option result" where
  "expectedChildTime sha parent target cert hist policy provider =
     (if \<not> blockValid sha False parent \<or> blockTimestamp parent \<le> 0 \<or> blockPrevious parent = ''SNAPSHOT'' \<or>
         blockIndex parent = U64_MAX \<or> target = 0 \<or> target > kMaxTargetBlockSeconds \<or>
         target > word_of_int (I64_MAX - blockTimestamp parent)
      then Inr None
      else let minimum = blockTimestamp parent + uint target in
      if isGenesisBlock parent then Inr (if cert = None then Some minimum else None)
      else case (cert, hist) of
        (Some c, Some h) \<Rightarrow>
          if \<not> hasSet h (blockIndex parent) \<or> certIndex c \<noteq> blockIndex parent \<or>
             certHash c \<noteq> blockHash parent \<or> certPrevious c \<noteq> blockPrevious parent
          then Inr None
          else bindR (setAt h (blockIndex parent)) (\<lambda>reg.
               bindR (certVerify sha reg policy provider c) (\<lambda>verified.
                 if \<not> verified then Inr None
                 else case voteTimesFrom reg (blockTimestamp parent) 0 (certVotes c) of
                        None \<Rightarrow> Inr None
                      | Some (signedWeight, voteTimes) \<Rightarrow>
                          if signedWeight \<noteq> certSigned c \<or> signedWeight = 0 then Inr None
                          else let threshold = signedWeight div 2 + signedWeight mod 2
                               in Inr (map_option (max minimum)
                                        (medianFrom threshold 0 (sort voteTimes)))))
      | _ \<Rightarrow> Inr None)"

subsection \<open>What finalizing does\<close>

definition finRecordOf :: "Block \<Rightarrow> QuorumCertificate \<Rightarrow> int \<Rightarrow> FinalizedBlockRecord" where
  "finRecordOf b c at = \<lparr>finIndex = blockIndex b, finHash = blockHash b, finPrevious = blockPrevious b,
     finRound = certRound c, finalizedAt = at, finCertificate = c\<rparr>"

lemma finRegistryValid_mapPut:
  "mapOk freg \<Longrightarrow> finRegistryValid freg \<Longrightarrow> finStructurallyValid f \<Longrightarrow>
   finRegistryValid (mapPut (finIndex f) f freg)"
  by (auto simp: finRegistryValid_def list_all_iff set_mapPut finStructurallyValid_def split: if_splits)

lemma finRegistryValidD:
  "finRegistryValid freg \<Longrightarrow> map_of freg h = Some f \<Longrightarrow> h \<noteq> 0 \<and> finIndex f = h \<and> finStructurallyValid f"
  by (auto simp: finRegistryValid_def list_all_iff dest!: map_of_SomeD)

text \<open>The conditions under which a block is appended.\<close>

definition finalizable ::
    "sha256 \<Rightarrow> Block \<Rightarrow> QuorumCertificate \<Rightarrow> ValidatorRegistry \<Rightarrow> CryptoPolicy \<Rightarrow> SignatureProvider \<Rightarrow> int
       \<Rightarrow> Blockchain \<Rightarrow> BlockFinalizationRegistry \<Rightarrow> bool" where
  "finalizable sha b c reg policy provider at chain freg \<longleftrightarrow>
     blockchainValid sha False chain \<and> finRegistryValid freg \<and> 0 < at \<and>
     isValidNextBlock sha (last (chainBlocks chain)) b False \<and>
     certVerify sha reg policy provider c = Inr True \<and> certificateMatchesBlock b c \<and>
     finMatchesBlock (finRecordOf b c at) b \<and> finStructurallyValid (finRecordOf b c at) \<and>
     canRegister freg (finRecordOf b c at)"

lemma register_outcome:
  assumes "mapOk freg" and "finRegistryValid freg" and "canRegister freg f"
  obtains (new) "map_of freg (finIndex f) = None"
      "registerFinalizedBlock f freg =
         (\<lparr>registryStatus = REGISTERED, registryReason = [], registryRecord = Some f\<rparr>, mapPut (finIndex f) f freg)"
    | (old) e where "map_of freg (finIndex f) = Some e" "finHash e = finHash f"
      "registerFinalizedBlock f freg =
         (\<lparr>registryStatus = Fin_DUPLICATE, registryReason = ''Finalized block already registered.'',
           registryRecord = Some e\<rparr>, freg)"
proof (cases "map_of freg (finIndex f)")
  case None
  then show ?thesis
    using assms new finRegistryValid_mapPut [OF assms(1,2)]
    by (simp add: canRegister_def registerFinalizedBlock_def mapEmplace_def Let_def split: if_splits)
next
  case (Some e)
  then show ?thesis
    using assms old finRegistryValidD [OF assms(2) Some]
    by (simp add: canRegister_def registerFinalizedBlock_def split: if_splits)
qed

lemma finalizeBlock_accept:
  assumes "mapOk freg" and "finalizable sha b c reg policy provider at chain freg"
  obtains (new) "map_of freg (blockIndex b) = None"
      "finalizeBlock sha b c reg policy provider at (chain, freg) =
         (Inr \<lparr>finStatus = FINALIZED, finReason = [], finRecord = Some (finRecordOf b c at)\<rparr>,
          (pushBlock b chain, mapPut (blockIndex b) (finRecordOf b c at) freg))"
    | (old) e where "map_of freg (blockIndex b) = Some e" "finHash e = blockHash b"
      "finalizeBlock sha b c reg policy provider at (chain, freg) =
         (Inr \<lparr>finStatus = DUPLICATE_FINALIZATION, finReason = ''Block already finalized.'', finRecord = Some e\<rparr>,
          (pushBlock b chain, freg))"
proof -
  let ?f = "finRecordOf b c at"
  note f = assms(2) [unfolded finalizable_def]
  have blk: "blockValid sha False b \<and> \<not> isGenesisBlock b"
    using f by (auto simp: isValidNextBlock_def split: if_splits)
  have ne: "chainBlocks chain \<noteq> []" using f by (simp add: blockchainValid_iff)
  have app: "canAppendBlock sha chain b" and add: "addBlock sha b chain = (Inr (), pushBlock b chain)"
    using f ne by (simp_all add: addBlock_def canAppendBlock_def)
  have ver: "finVerify sha reg policy provider ?f = Inr True"
    using f by (simp add: finVerify_def) (simp add: finRecordOf_def)
  have idx: "finIndex ?f = blockIndex b" "finHash ?f = blockHash b" by (simp_all add: finRecordOf_def)
  have run: "finalizeBlock sha b c reg policy provider at (chain, freg) =
      (let (registration, freg') = registerFinalizedBlock ?f freg in
         if registryStatus registration = Fin_DUPLICATE
         then (Inr \<lparr>finStatus = DUPLICATE_FINALIZATION, finReason = ''Block already finalized.'',
                    finRecord = registryRecord registration\<rparr>, (pushBlock b chain, freg'))
         else if registryStatus registration \<noteq> REGISTERED
         then (Inr (finRejected REGISTRATION_FAILED (registryReason registration)), (pushBlock b chain, freg'))
         else (Inr \<lparr>finStatus = FINALIZED, finReason = [], finRecord = registryRecord registration\<rparr>,
               (pushBlock b chain, freg')))"
    using f blk ne app add ver unfolding finalizeBlock_def finRecordOf_def [symmetric] Let_def by simp
  show ?thesis
  proof (rule register_outcome [OF assms(1), of ?f])
    show "finRegistryValid freg" "canRegister freg ?f" using f by simp_all
  qed (use run that idx in \<open>auto simp: Let_def\<close>)
qed

definition rejects :: "'a \<Rightarrow> (BlockFinalizationResult, 'a) outcome \<Rightarrow> bool" where
  "rejects s out \<longleftrightarrow> (\<exists>st reason. out = (Inr (finRejected st reason), s) \<and>
     st \<notin> {FINALIZED, DUPLICATE_FINALIZATION, REGISTRATION_FAILED})"

lemma rejectsI:
  "st \<notin> {FINALIZED, DUPLICATE_FINALIZATION, REGISTRATION_FAILED} \<Longrightarrow> rejects s (Inr (finRejected st reason), s)"
  by (auto simp: rejects_def)

lemma finalizeBlock_reject:
  assumes "mapOk reg" and "\<not> finalizable sha b c reg policy provider at chain freg"
  shows "rejects (chain, freg) (finalizeBlock sha b c reg policy provider at (chain, freg))"
proof -
  let ?f = "finRecordOf b c at"
  obtain v where v: "certVerify sha reg policy provider c = Inr v" using certVerify_total [OF assms(1)] by blast
  consider (chain) "chainBlocks chain = [] \<or> \<not> blockchainValid sha False chain"
    | (rest) "chainBlocks chain \<noteq> []" "blockchainValid sha False chain" by blast
  then show ?thesis
  proof cases
    case chain
    then show ?thesis unfolding finalizeBlock_def Let_def by (simp add: rejectsI)
  next
    case rest
    have app: "canAppendBlock sha chain b \<longleftrightarrow> isValidNextBlock sha (last (chainBlocks chain)) b False"
      using rest by (simp add: canAppendBlock_def)
    have ver: "finVerify sha reg policy provider ?f = Inr (finStructurallyValid ?f)" if v
      using v that by (simp add: finVerify_def) (simp add: finRecordOf_def)
    have no: "\<not> (finRegistryValid freg \<and> 0 < at \<and> canAppendBlock sha chain b \<and> v \<and>
        certificateMatchesBlock b c \<and> finMatchesBlock ?f b \<and> finStructurallyValid ?f \<and> canRegister freg ?f)"
      using assms(2) rest v app by (auto simp: finalizable_def)
    show ?thesis
    proof (cases "finRegistryValid freg \<and> blockValid sha False b \<and> \<not> isGenesisBlock b \<and> 0 < at \<and>
        canAppendBlock sha chain b \<and> v \<and> certificateMatchesBlock b c \<and> finMatchesBlock ?f b")
      case True
      then show ?thesis
        using rest v ver no unfolding finalizeBlock_def finRecordOf_def [symmetric] Let_def
        by (cases "finStructurallyValid ?f") (auto simp: rejectsI)
    next
      case False
      then show ?thesis
        using rest v unfolding finalizeBlock_def finRecordOf_def [symmetric] Let_def
        by (cases v) (auto simp: rejectsI)
    qed
  qed
qed


subsection \<open>The finalized prefix only grows\<close>

datatype finCall = Finalize Block QuorumCertificate ValidatorRegistry CryptoPolicy SignatureProvider int

fun finStep :: "sha256 \<Rightarrow> finCall \<Rightarrow> Blockchain \<times> BlockFinalizationRegistry
    \<Rightarrow> Blockchain \<times> BlockFinalizationRegistry" where
  "finStep sha (Finalize b c reg policy provider at) s = snd (finalizeBlock sha b c reg policy provider at s)"

fun finLegal :: "finCall \<Rightarrow> bool" where
  "finLegal (Finalize b c reg policy provider at) = mapOk reg"

text \<open>Chain and registry of a node that started from genesis: one record per finalized block.\<close>

definition finOk :: "sha256 \<Rightarrow> Blockchain \<times> BlockFinalizationRegistry \<Rightarrow> bool" where
  "finOk sha s \<longleftrightarrow>
     blockchainValid sha False (fst s) \<and> isGenesisBlock (hd (chainBlocks (fst s))) \<and> mapOk (snd s) \<and>
     finRegistryValid (snd s) \<and>
     (\<forall>h. map_of (snd s) h \<noteq> None \<longleftrightarrow> 0 < unat h \<and> unat h < length (chainBlocks (fst s))) \<and>
     (\<forall>h f. map_of (snd s) h = Some f \<longrightarrow> finMatchesBlock f (chainBlocks (fst s) ! unat h))"

lemma finOk_tip:
  assumes "finOk sha (chain, freg)"
  shows "chainBlocks chain \<noteq> []" and "linksValid sha False (chainBlocks chain)"
    and "unat (blockIndex (last (chainBlocks chain))) = length (chainBlocks chain) - 1"
proof -
  show ne: "chainBlocks chain \<noteq> []" and links: "linksValid sha False (chainBlocks chain)"
    using assms by (auto simp: finOk_def blockchainValid_iff)
  show "unat (blockIndex (last (chainBlocks chain))) = length (chainBlocks chain) - 1"
    using chain_index [OF links, of "length (chainBlocks chain) - 1"] ne assms
    by (simp add: last_conv_nth finOk_def isGenesisBlock_def)
qed

lemma finStep_shape:
  assumes "finOk sha (chain, freg)" and "mapOk reg"
  shows "finStep sha (Finalize b c reg policy provider at) (chain, freg) = (chain, freg) \<or>
    isValidNextBlock sha (last (chainBlocks chain)) b False \<and> finMatchesBlock (finRecordOf b c at) b \<and>
    finStructurallyValid (finRecordOf b c at) \<and> map_of freg (blockIndex b) = None \<and>
    unat (blockIndex b) = length (chainBlocks chain) \<and>
    finStep sha (Finalize b c reg policy provider at) (chain, freg) =
      (pushBlock b chain, mapPut (blockIndex b) (finRecordOf b c at) freg)"
proof (cases "finalizable sha b c reg policy provider at chain freg")
  case True
  note f = True [unfolded finalizable_def]
  note tip = finOk_tip [OF assms(1)]
  have idx: "unat (blockIndex b) = length (chainBlocks chain)"
    using nextBlockD(1) [of sha "last (chainBlocks chain)" b False] f tip by simp
  then have none: "map_of freg (blockIndex b) = None"
    using assms(1) unfolding finOk_def fst_conv snd_conv by (metis less_irrefl)
  have "mapOk freg" using assms(1) by (simp add: finOk_def)
  from this True show ?thesis
    by (cases rule: finalizeBlock_accept) (use f idx none in simp_all)
next
  case False
  then show ?thesis using finalizeBlock_reject [OF assms(2) False] by (auto simp: rejects_def)
qed

lemma finStep_ok:
  assumes ok: "finOk sha s" and legal: "finLegal call"
  shows "finOk sha (finStep sha call s)"
proof -
  obtain chain freg where s: "s = (chain, freg)" by (cases s)
  obtain b c reg policy provider at where call: "call = Finalize b c reg policy provider at" by (cases call)
  note ok = ok [unfolded s]
  let ?f = "finRecordOf b c at"
  from finStep_shape [OF ok] legal call consider (same) "finStep sha call s = s"
    | (grow) "isValidNextBlock sha (last (chainBlocks chain)) b False" "finMatchesBlock ?f b"
        "finStructurallyValid ?f" "map_of freg (blockIndex b) = None"
        "unat (blockIndex b) = length (chainBlocks chain)"
        "finStep sha call s = (pushBlock b chain, mapPut (blockIndex b) ?f freg)"
    unfolding s by fastforce
  then show ?thesis
  proof cases
    case same
    then show ?thesis using ok s by simp
  next
    case grow
    note tip = finOk_tip [OF ok]
    have idx: "finIndex ?f = blockIndex b" by (simp add: finRecordOf_def)
    have "blockchainValid sha False (pushBlock b chain)"
      using ok grow(1) tip(1) by (auto simp: finOk_def blockchainValid_iff linksValid_snoc hd_append)
    moreover have "finRegistryValid (mapPut (blockIndex b) ?f freg)"
      using finRegistryValid_mapPut [of freg ?f] ok grow(3) unfolding finOk_def idx by simp
    moreover have "map_of (mapPut (blockIndex b) ?f freg) h \<noteq> None \<longleftrightarrow>
        0 < unat h \<and> unat h < length (chainBlocks (pushBlock b chain))" for h
    proof (cases "h = blockIndex b")
      case True
      then show ?thesis using grow(5) tip(1) by simp
    next
      case False
      then have "unat h \<noteq> length (chainBlocks chain)" using grow(5) by (metis word_unat_eq_iff)
      then show ?thesis using False ok by (auto simp: finOk_def less_Suc_eq)
    qed
    moreover have "finMatchesBlock f (chainBlocks (pushBlock b chain) ! unat h)"
      if "map_of (mapPut (blockIndex b) ?f freg) h = Some f" for h f
    proof (cases "h = blockIndex b")
      case True
      then show ?thesis using that grow(2,5) by simp
    next
      case False
      then have "map_of freg h = Some f" using that by simp
      moreover from this have "unat h < length (chainBlocks chain)" using ok by (force simp: finOk_def)
      ultimately show ?thesis using ok by (simp add: finOk_def nth_append)
    qed
    ultimately show ?thesis
      unfolding grow(6) using ok tip(1) by (simp add: finOk_def hd_append)
  qed
qed

interpretation finality: component "finStep sha" finLegal "finOk sha" for sha
  by unfold_locales (rule finStep_ok)

definition extends :: "Blockchain \<times> BlockFinalizationRegistry \<Rightarrow> Blockchain \<times> BlockFinalizationRegistry \<Rightarrow> bool" where
  "extends s s' \<longleftrightarrow> (\<exists>bs. chainBlocks (fst s') = chainBlocks (fst s) @ bs) \<and>
     (\<forall>h f. map_of (snd s) h = Some f \<longrightarrow> map_of (snd s') h = Some f)"

lemma finStep_extends:
  assumes "finOk sha s" and "finLegal call"
  shows "extends s (finStep sha call s)"
proof -
  obtain chain freg where s: "s = (chain, freg)" by (cases s)
  obtain b c reg policy provider at where call: "call = Finalize b c reg policy provider at" by (cases call)
  show ?thesis
    using finStep_shape [of sha chain freg reg b c policy provider at] assms
    unfolding s call extends_def by auto
qed

lemma finRun_extends:
  assumes "finOk sha s" and "list_all finLegal cs"
  shows "extends s (fold (finStep sha) cs s)"
proof -
  have "finOk sha s \<and> extends s s" using assms(1) by (simp add: extends_def)
  then show ?thesis
    using finality.run_stable [of sha "extends s" s cs, OF _ assms(1) _ assms(2)]
      finStep_extends unfolding extends_def by fastforce
qed

lemma finOk_genesis: "isValidGenesisBlock sha g \<Longrightarrow> finOk sha (pushBlock g emptyChain, [])"
  by (auto simp: finOk_def blockchainValid_iff emptyChain_def pushBlock_def isValidGenesisBlock_def finRegistryValid_def)

text \<open>
  C6: Finality is irrevocable. Take a node that starts from a valid genesis block and, in any
  order, attempts to finalize any blocks with any certificates. At every moment the finalized
  heights are exactly the heights of its non-genesis blocks, each record names the hash and the
  parent hash of the block at its height, and whatever happens later no block is removed from the
  chain and no finalization record changes.
\<close>

theorem finality_irrevocable:
  fixes sha :: sha256 and g :: Block and cs later :: "finCall list"
  defines "s \<equiv> fold (finStep sha) cs (pushBlock g emptyChain, [])"
  defines "s' \<equiv> fold (finStep sha) later s"
  assumes "isValidGenesisBlock sha g" and "list_all finLegal cs" and "list_all finLegal later"
  shows "(\<exists>bs. chainBlocks (fst s') = chainBlocks (fst s) @ bs) \<and>
    (hasFinalizedHeight (snd s) h \<longleftrightarrow> 0 < unat h \<and> unat h < length (chainBlocks (fst s))) \<and>
    (recordForHeight (snd s) h = Some f \<longrightarrow> recordForHeight (snd s') h = Some f \<and>
      (\<exists>b. blockByHeight (fst s) h = Some b \<and> blockIndex b = h \<and> finHash f = blockHash b \<and> finPrevious f = blockPrevious b))"
proof -
  have ok: "finOk sha s" unfolding s_def by (rule finality.run_inv [OF finOk_genesis]) (fact assms)+
  have ext: "extends s s'" unfolding s'_def by (rule finRun_extends [OF ok assms(5)])
  from ext have grows: "\<exists>bs. chainBlocks (fst s') = chainBlocks (fst s) @ bs" by (simp add: extends_def)
  from ext have kept: "recordForHeight (snd s') h = Some f" if "recordForHeight (snd s) h = Some f"
    using that by (simp add: extends_def recordForHeight_def)
  have fin: "hasFinalizedHeight (snd s) h \<longleftrightarrow> 0 < unat h \<and> unat h < length (chainBlocks (fst s))"
    using ok by (simp add: finOk_def hasFinalizedHeight_def)
  have "\<exists>b. blockByHeight (fst s) h = Some b \<and> blockIndex b = h \<and> finHash f = blockHash b \<and> finPrevious f = blockPrevious b"
    if "recordForHeight (snd s) h = Some f"
  proof -
    have h: "map_of (snd s) h = Some f" using that by (simp add: recordForHeight_def)
    then have "finMatchesBlock f (chainBlocks (fst s) ! unat h)" using ok by (simp add: finOk_def)
    moreover have "finIndex f = h" using finRegistryValidD [OF _ h] ok by (auto simp: finOk_def)
    moreover have "unat h < length (chainBlocks (fst s))" using h fin by (simp add: hasFinalizedHeight_def)
    ultimately show ?thesis by (auto simp: blockByHeight_def finMatchesBlock_def)
  qed
  with grows kept fin show ?thesis by blast
qed

subsection \<open>The weighted median\<close>

abbreviation weightUpTo :: "int \<Rightarrow> (int \<times> u64) list \<Rightarrow> nat" where
  "weightUpTo m ts \<equiv> (\<Sum>e\<leftarrow>filter (\<lambda>e. fst e \<le> m) ts. unat (snd e))"

abbreviation weightBelow :: "int \<Rightarrow> (int \<times> u64) list \<Rightarrow> nat" where
  "weightBelow m ts \<equiv> (\<Sum>e\<leftarrow>filter (\<lambda>e. fst e < m) ts. unat (snd e))"

lemma medianFrom_split:
  assumes "sorted (map fst ts)" and "unat c + (\<Sum>e\<leftarrow>ts. unat (snd e)) < 2 ^ 64"
    and "unat c < unat th" and "unat th \<le> unat c + (\<Sum>e\<leftarrow>ts. unat (snd e))"
  shows "\<exists>m. medianFrom th c ts = Some m \<and> unat th \<le> unat c + weightUpTo m ts \<and>
    unat c + weightBelow m ts < unat th"
  using assms
proof (induction ts arbitrary: c)
  case Nil
  then show ?case by simp
next
  case (Cons e ts)
  obtain t w where e: "e = (t, w)" by (cases e)
  have no: "\<not> addOverflows c w" using Cons.prems(2) e by (simp add: addOverflows_iff)
  then have sum: "unat (c + w) = unat c + unat w" by (rule unat_add_no_overflow)
  show ?case
  proof (cases "c + w \<ge> th")
    case True
    have "filter (\<lambda>e. fst e < t) ts = []" using Cons.prems(1) e by (auto simp: filter_empty_conv)
    then show ?thesis using True Cons.prems(3) e sum by (simp add: word_le_nat_alt)
  next
    case False
    then have "unat (c + w) < unat th" by (simp only: not_le word_less_nat_alt)
    then obtain m where m: "medianFrom th (c + w) ts = Some m"
        "unat th \<le> unat (c + w) + weightUpTo m ts" "unat (c + w) + weightBelow m ts < unat th"
      using Cons.IH [of "c + w"] Cons.prems e sum by (auto simp: add.assoc)
    have "m \<in> fst ` set ts" using m(1) by (induction th "c + w" ts arbitrary: c w rule: medianFrom.induct) (auto split: if_splits)
    then have "t \<le> m" using Cons.prems(1) e by auto
    then show ?thesis using False m e sum by auto
  qed
qed

lemma voteTimesFrom_Some:
  "voteTimesFrom reg pt acc vs = Some (s, ts) \<Longrightarrow>
     ts = map (\<lambda>v. (voteCreatedAt v, consensusWeightFor reg (voteAddress v))) vs \<and>
     unat s = unat acc + (\<Sum>v\<leftarrow>vs. unat (consensusWeightFor reg (voteAddress v)))"
proof (induction vs arbitrary: acc ts)
  case (Cons v vs)
  let ?w = "consensusWeightFor reg (voteAddress v)"
  from Cons.prems obtain ts' where ts': "voteTimesFrom reg pt (acc + ?w) vs = Some (s, ts')"
      "ts = (voteCreatedAt v, ?w) # ts'" and "\<not> acc > U64_MAX - ?w"
    by (auto simp: Let_def split: if_splits)
  then have "unat (acc + ?w) = unat acc + unat ?w" by (simp add: addOverflows_other unat_add_no_overflow)
  then show ?case using Cons.IH [OF ts'(1)] ts'(2) by simp
qed simp

lemma sum_list_filter_sort:
  fixes f :: "'a::linorder \<Rightarrow> nat"
  shows "(\<Sum>x\<leftarrow>filter P (sort xs). f x) = (\<Sum>x\<leftarrow>filter P xs. f x)"
proof -
  have "mset (map f (filter P (sort xs))) = mset (map f (filter P xs))" by simp
  then show ?thesis by (metis sum_mset_sum_list)
qed

lemma half_up: "unat (s div 2 + s mod 2 :: u64) = (unat s + 1) div 2"
proof -
  have "unat (s div 2) = unat s div 2" "unat (s mod 2) = unat s mod 2" by (simp_all add: unat_div unat_mod)
  moreover have "unat s div 2 + unat s mod 2 = (unat s + 1) div 2" by presburger
  moreover have "(unat s + 1) div 2 < 2 ^ 64" using unat_bound [of s] by linarith
  ultimately have "\<not> addOverflows (s div 2) (s mod 2)" unfolding addOverflows_iff by linarith
  then have "unat (s div 2 + s mod 2) = unat (s div 2) + unat (s mod 2)" by (rule unat_add_no_overflow)
  then show ?thesis using \<open>unat (s div 2) = _\<close> \<open>unat (s mod 2) = _\<close> \<open>_ = (unat s + 1) div 2\<close> by simp
qed

text \<open>The median of the votes splits their weight in halves.\<close>

lemma median_of_votes:
  assumes "voteTimesFrom reg pt 0 vs = Some (s, ts)" and "s \<noteq> 0"
    and "w = (\<lambda>v. unat (consensusWeightFor reg (voteAddress v)))"
  shows "\<exists>m. medianFrom (s div 2 + s mod 2) 0 (sort ts) = Some m \<and>
    unat s \<le> 2 * (\<Sum>v\<leftarrow>filter (\<lambda>v. voteCreatedAt v \<le> m) vs. w v) \<and>
    2 * (\<Sum>v\<leftarrow>filter (\<lambda>v. voteCreatedAt v < m) vs. w v) \<le> unat s \<and>
    (\<Sum>v\<leftarrow>vs. w v) = unat s"
proof -
  have ts: "ts = map (\<lambda>v. (voteCreatedAt v, consensusWeightFor reg (voteAddress v))) vs"
    and s: "unat s = (\<Sum>v\<leftarrow>vs. w v)"
    using voteTimesFrom_Some [OF assms(1)] assms(3) by auto
  have tot: "(\<Sum>e\<leftarrow>sort ts. unat (snd e)) = unat s"
    using sum_list_filter_sort [of "\<lambda>e. unat (snd e)" "\<lambda>_. True" ts] by (simp add: ts s assms(3) comp_def)
  have pos: "0 < unat s" using assms(2) by (simp add: unat_gt_0)
  have srt: "sorted (map fst (sort ts))"
    unfolding sorted_map by (rule sorted_wrt_mono_rel [OF _ sorted_sort]) (auto simp: less_eq_prod_def)
  have half: "Suc (unat s) div 2 \<le> unat s" using pos by presburger
  have "unat (0 :: u64) + (\<Sum>e\<leftarrow>sort ts. unat (snd e)) < 2 ^ 64" unfolding tot using unat_bound [of s] by simp
  from medianFrom_split [OF srt this, of "s div 2 + s mod 2"]
  obtain m where m: "medianFrom (s div 2 + s mod 2) 0 (sort ts) = Some m"
      "(unat s + 1) div 2 \<le> weightUpTo m (sort ts)" "weightBelow m (sort ts) < (unat s + 1) div 2"
    unfolding half_up tot using pos half by auto
  have "weightUpTo m (sort ts) = (\<Sum>v\<leftarrow>filter (\<lambda>v. voteCreatedAt v \<le> m) vs. w v)"
    "weightBelow m (sort ts) = (\<Sum>v\<leftarrow>filter (\<lambda>v. voteCreatedAt v < m) vs. w v)"
    unfolding sum_list_filter_sort by (simp_all add: ts assms(3) filter_map comp_def)
  then show ?thesis using m s by (intro exI [of _ m]) linarith
qed

lemma unfaulty_voter:
  assumes "distinct (map voteAddress vs)" and "finite B"
    and "2 * weightOfSet reg B < s" and "s \<le> 2 * (\<Sum>v\<leftarrow>filter P vs. unat (consensusWeightFor reg (voteAddress v)))"
  shows "\<exists>v\<in>set vs. P v \<and> voteAddress v \<notin> B"
proof (rule ccontr)
  assume "\<not> ?thesis"
  then have sub: "voteAddress ` set (filter P vs) \<subseteq> B" by auto
  have "distinct (map voteAddress (filter P vs))" using assms(1) by (rule distinct_map_filter)
  then have "(\<Sum>v\<leftarrow>filter P vs. unat (consensusWeightFor reg (voteAddress v))) =
      weightOfSet reg (voteAddress ` set (filter P vs))"
    using sum_list_distinct_conv_sum_set [of "map voteAddress (filter P vs)" "\<lambda>a. unat (consensusWeightFor reg a)"]
    by (simp add: comp_def)
  also have "\<dots> \<le> weightOfSet reg B" using assms(2) sub by (intro sum_mono2) auto
  finally show False using assms(3,4) by linarith
qed

text \<open>
  C30: Block time cannot be moved by a faulty minority. When \<open>expectedChildTime\<close> yields a time for
  the child of a non-genesis block, that time is at least the parent's time plus the target
  interval, and beyond that minimum it is a value \<open>m\<close> between the precommit times of two validators
  outside any set \<open>B\<close> of at most a third of the total weight: one of them voted at or before \<open>m\<close>,
  the other at or after it.
\<close>

theorem child_time_bounded_by_honest_votes:
  assumes "expectedChildTime sha parent target (Some c) (Some hist) policy provider = Inr (Some t)"
    and "setAt hist (blockIndex parent) = Inr reg" and "mapOk reg" and "totalConsensusWeight reg = Inr totalWeight"
    and "finite B" and "3 * (\<Sum>a\<in>B. unat (consensusWeightFor reg a)) \<le> unat totalWeight"
  shows "\<exists>m. t = max (blockTimestamp parent + uint target) m \<and>
    (\<exists>v\<in>set (certVotes c). voteAddress v \<notin> B \<and> voteCreatedAt v \<le> m) \<and>
    (\<exists>v\<in>set (certVotes c). voteAddress v \<notin> B \<and> m \<le> voteCreatedAt v)"
proof -
  obtain s ts m where cert: "certVerify sha reg policy provider c = Inr True"
    and ts: "voteTimesFrom reg (blockTimestamp parent) 0 (certVotes c) = Some (s, ts)" and nz: "s \<noteq> 0"
    and med: "medianFrom (s div 2 + s mod 2) 0 (sort ts) = Some m"
    and t: "t = max (blockTimestamp parent + uint target) m"
    using assms(1,2) by (auto simp: expectedChildTime_def Let_def split: if_splits option.splits)
  obtain t' where "totalConsensusWeight reg = Inr t'" and dist: "distinct (map voteAddress (certVotes c))"
    and "2 * unat t' < 3 * weightOfSet reg (votersOf (certVotes c))"
    using verified_certificate [OF assms(3) cert] by metis
  then have quorum: "2 * unat totalWeight < 3 * weightOfSet reg (votersOf (certVotes c))" using assms(4) by simp
  let ?w = "\<lambda>v. unat (consensusWeightFor reg (voteAddress v))"
  have up: "unat s \<le> 2 * (\<Sum>v\<leftarrow>filter (\<lambda>v. voteCreatedAt v \<le> m) (certVotes c). ?w v)"
    and below: "2 * (\<Sum>v\<leftarrow>filter (\<lambda>v. voteCreatedAt v < m) (certVotes c). ?w v) \<le> unat s"
    and sum: "(\<Sum>v\<leftarrow>certVotes c. ?w v) = unat s"
    using median_of_votes [OF ts nz refl] med by auto
  have "weightOfSet reg (votersOf (certVotes c)) = unat s"
    using sum_list_distinct_conv_sum_set [OF dist, of "\<lambda>a. unat (consensusWeightFor reg a)"] sum
    by (simp add: comp_def)
  then have half: "2 * weightOfSet reg B < unat s" using quorum assms(6) by linarith
  have "(\<Sum>v\<leftarrow>vs. ?w v) = (\<Sum>v\<leftarrow>filter (\<lambda>v. voteCreatedAt v < m) vs. ?w v) +
      (\<Sum>v\<leftarrow>filter (\<lambda>v. m \<le> voteCreatedAt v) vs. ?w v)" for vs
    by (induction vs) (auto simp: not_less)
  from this [of "certVotes c"] have "unat s \<le> 2 * (\<Sum>v\<leftarrow>filter (\<lambda>v. m \<le> voteCreatedAt v) (certVotes c). ?w v)"
    using below sum by linarith
  from unfaulty_voter [OF dist assms(5) half this] unfaulty_voter [OF dist assms(5) half up] t
  show ?thesis by blast
qed

subsection \<open>The demonstration network finalizes a block\<close>

lemma demo_digest_safe: "demoName c \<Longrightarrow> isSafeScalar (replicate 64 c)"
  by (auto simp: isSafeScalar_def isSafeDelimitedText_def demoName_def)

definition demoCertified :: "char \<Rightarrow> QuorumCertificate \<Rightarrow> bool" where
  "demoCertified c q \<longleftrightarrow> buildFromVotes demoSha 1 (replicate 64 c) (replicate 64 CHR ''0'') 1
     (demoQuorumFor (replicate 64 c) (replicate 64 CHR ''0'')) demoValidators demoPolicy demoProvider 2 3
       = Inr (Certified q)"

lemma demoCertified_ex:
  assumes "demoName c"
  obtains q where "demoCertified c q"
  using build_complete [OF demoValidators_mapOk demo_certifiable_for [OF demo_digest_safe [OF assms]
      demo_digest_safe [of "CHR ''0''"]]]
  unfolding demoCertified_def demoName_def by blast

abbreviation demoStart :: "Blockchain \<times> BlockFinalizationRegistry" where
  "demoStart \<equiv> (pushBlock demoGenesis emptyChain, [])"

abbreviation demoFinalize :: "char \<Rightarrow> QuorumCertificate \<Rightarrow> finCall" where
  "demoFinalize c q \<equiv> Finalize (demoChild c) q demoValidators demoPolicy demoProvider 20"

lemma demo_finalizable:
  assumes "demoName c" and "demoCertified c q"
  shows "finalizable demoSha (demoChild c) q demoValidators demoPolicy demoProvider 20
    (pushBlock demoGenesis emptyChain) []"
proof -
  note b = built_votes [OF assms(2) [unfolded demoCertified_def]]
  have "certStructurallyValid q" using b(2) by (auto simp: certVerify_def split: if_splits)
  moreover have "certPrevious q = replicate 64 CHR ''0''"
    using \<open>certStructurallyValid q\<close> b(3)
    by (auto simp: certStructurallyValid_def demoVote_def split: if_splits)
  moreover have "certIndex q = 1" "certRound q = 1" "certHash q = replicate 64 c"
    using b(4) by auto
  moreover have "blockchainValid demoSha False (pushBlock demoGenesis emptyChain)"
    using demoGenesis_valid by (simp add: blockchainValid_iff emptyChain_def)
  moreover have "isSafeScalar (replicate 64 c)" "isSafeScalar (replicate 64 CHR ''0'')"
    using demo_digest_safe assms(1) by (simp_all add: demoName_def)
  ultimately show ?thesis
    using demoChild_next [OF assms(1)] b(2,3)
    by (simp add: finalizable_def finRegistryValid_def emptyChain_def certificateMatchesBlock_def
        finMatchesBlock_def finStructurallyValid_def canRegister_def finRecordOf_def)
       (simp add: demoChild_def demoBlock_def demoVote_def)
qed

lemma demo_finalizes:
  assumes "demoName c" and "demoCertified c q"
  shows "finalizeBlock demoSha (demoChild c) q demoValidators demoPolicy demoProvider 20 demoStart =
    (Inr \<lparr>finStatus = FINALIZED, finReason = [], finRecord = Some (finRecordOf (demoChild c) q 20)\<rparr>,
     (pushBlock (demoChild c) (pushBlock demoGenesis emptyChain), [(1, finRecordOf (demoChild c) q 20)]))"
  by (rule finalizeBlock_accept [OF _ demo_finalizable [OF assms]])
     (simp_all, simp add: demoChild_def demoBlock_def)


theorem finality_irrevocable_witness:
  "\<exists>q. \<forall>later. list_all finLegal later \<longrightarrow>
     (\<exists>bs. chainBlocks (fst (fold (finStep demoSha) later
        (fold (finStep demoSha) [demoFinalize CHR ''f'' q] demoStart))) = [demoGenesis, demoChild CHR ''f''] @ bs)"
proof -
  have name: "demoName CHR ''f''" by (simp add: demoName_def)
  obtain q where q: "demoCertified CHR ''f'' q" using demoCertified_ex [OF name] .
  have "chainBlocks (fst (fold (finStep demoSha) [demoFinalize CHR ''f'' q] demoStart)) =
      [demoGenesis, demoChild CHR ''f'']"
    using demo_finalizes [OF name q] by (simp add: emptyChain_def)
  then show ?thesis
    using finality_irrevocable [THEN conjunct1, OF demoGenesis_valid, of "[demoFinalize CHR ''f'' q]"] demoValidators_mapOk
    by (intro exI [of _ q]) (metis finLegal.simps list.pred_inject)
qed

theorem child_time_bounded_by_honest_votes_witness:
  "\<exists>q t m. expectedChildTime demoSha (demoChild CHR ''f'') 60 (Some q) (Some demoHistory) demoPolicy demoProvider
      = Inr (Some t) \<and> t = max 66 m \<and> (\<exists>v\<in>set (certVotes q). voteAddress v \<notin> {demoAddr CHR ''0''} \<and> m \<le> voteCreatedAt v)"
proof -
  have name: "demoName CHR ''f''" by (simp add: demoName_def)
  obtain q where q: "demoCertified CHR ''f'' q" using demoCertified_ex [OF name] .
  note f = demo_finalizable [OF name q, unfolded finalizable_def certificateMatchesBlock_def]
  note b = built_votes [OF q [unfolded demoCertified_def]]
  have fields: "blockIndex (demoChild CHR ''f'') = 1" "blockTimestamp (demoChild CHR ''f'') = 6"
      "blockHash (demoChild CHR ''f'') = replicate 64 CHR ''f''" "blockPrevious (demoChild CHR ''f'') = replicate 64 CHR ''0''"
    by (simp_all add: demoChild_def demoBlock_def)
  have set: "setAt demoHistory 1 = Inr demoValidators" "hasSet demoHistory 1"
    by (simp_all add: demoHistory_def hasSet_def setAt_def setEntryAt_def floorEntry_def)
  have times: "voteTimesFrom demoValidators 6 0 (certVotes q) = Some (5000000, [(9, 2000000), (9, 3000000)])"
    unfolding b(3) by (simp add: demoVote_def demoValidators_weights U64_MAX_def)
  have signed: "certSigned q = 5000000"
    using b(2) unfolding certVerify_def signedWeightFrom_iff b(3)
    by (auto simp: demoVote_def demoValidators_weights addOverflows_def U64_MAX_def split: if_splits)
  obtain m where m: "medianFrom (5000000 div 2 + 5000000 mod 2) 0 (sort [(9, 2000000), (9, 3000000)]) = Some m"
    using median_of_votes [OF times _ refl] by auto
  have "expectedChildTime demoSha (demoChild CHR ''f'') 60 (Some q) (Some demoHistory) demoPolicy demoProvider
      = Inr (Some (max 66 m))"
    using f m demoChild_valid [OF name, of False] b(2) signed
    by (simp add: expectedChildTime_def Let_def fields set times isGenesisBlock_def kMaxTargetBlockSeconds_def
        U64_MAX_def I64_MAX_def del: sort_key_simps)
  moreover from child_time_bounded_by_honest_votes [OF this set(1) [folded fields(1)] demoValidators_mapOk
      demoValidators_weights(1), of "{demoAddr CHR ''0''}"]
  obtain m' where "max 66 m = max 66 m'"
      "\<exists>v\<in>set (certVotes q). voteAddress v \<notin> {demoAddr CHR ''0''} \<and> m' \<le> voteCreatedAt v"
    by (auto simp: demoValidators_weights fields)
  ultimately show ?thesis by metis
qed

end
