(* ===== verification/Slashing.thy ===== *)
theory Slashing
  imports Quorum
begin

section \<open>Slashing evidence\<close>

text \<open>
  \<open>src/consensus/SlashingEvidence.cpp\<close>, \<open>EvidencePool.cpp\<close> and \<open>src/node/DoubleVoteDetector.cpp\<close>:
  what counts as evidence of a double vote or of a proposer equivocation, its verification
  against the validator set of the offence height, and the bounded pool of pending evidence.

  The pool writes through an abstract \<open>EvidencePoolPersistence\<close>; what it answers is an argument
  of the operations that call it, \<^const>\<open>None\<close> when nothing is bound: \<open>store\<close> says for which
  evidence identifiers the write succeeds, \<open>erase\<close> for which the deletion does.
\<close>

subsection \<open>Evidence records\<close>

datatype SlashingEvidenceType = Ev_UNKNOWN | DOUBLE_VOTE | INVALID_SIGNATURE | EQUIVOCATION

datatype SlashingEvidenceSeverity = Sev_UNKNOWN | WARNING | SLASHABLE

datatype SlashingEvidenceValidationStatus = Ev_ACCEPTED | Ev_DUPLICATE | Ev_REJECTED

fun slashingEvidenceTypeToString :: "SlashingEvidenceType \<Rightarrow> string" where
  "slashingEvidenceTypeToString DOUBLE_VOTE = ''DOUBLE_VOTE''"
| "slashingEvidenceTypeToString INVALID_SIGNATURE = ''INVALID_SIGNATURE''"
| "slashingEvidenceTypeToString EQUIVOCATION = ''EQUIVOCATION''"
| "slashingEvidenceTypeToString Ev_UNKNOWN = ''UNKNOWN''"

definition slashingEvidenceTypeFromString :: "string \<Rightarrow> SlashingEvidenceType" where
  "slashingEvidenceTypeFromString v =
     (if v = ''DOUBLE_VOTE'' then DOUBLE_VOTE
      else if v = ''INVALID_SIGNATURE'' then INVALID_SIGNATURE
      else if v = ''EQUIVOCATION'' then EQUIVOCATION else Ev_UNKNOWN)"

fun slashingEvidenceSeverityToString :: "SlashingEvidenceSeverity \<Rightarrow> string" where
  "slashingEvidenceSeverityToString WARNING = ''WARNING''"
| "slashingEvidenceSeverityToString SLASHABLE = ''SLASHABLE''"
| "slashingEvidenceSeverityToString Sev_UNKNOWN = ''UNKNOWN''"

record SlashingEvidenceRecord =
  evidenceId :: string
  evidenceType :: SlashingEvidenceType
  evidenceValidator :: string
  evidencePayloadHash :: string
  evidenceSeverity :: SlashingEvidenceSeverity
  evidenceCreatedAt :: int

definition emptyEvidenceRecord :: SlashingEvidenceRecord where
  "emptyEvidenceRecord = \<lparr>evidenceId = [], evidenceType = Ev_UNKNOWN, evidenceValidator = [],
     evidencePayloadHash = [], evidenceSeverity = Sev_UNKNOWN, evidenceCreatedAt = 0\<rparr>"

definition isSafeEvidenceScalar :: "nat \<Rightarrow> string \<Rightarrow> bool" where
  "isSafeEvidenceScalar maximum s \<longleftrightarrow>
     length s \<le> maximum \<and> isSafeDelimitedText (''{}[]'' @ [CHR 0x0A, CHR 0x0D, CHR 0x09]) s"

definition evidenceRecordValid :: "SlashingEvidenceRecord \<Rightarrow> bool" where
  "evidenceRecordValid r \<longleftrightarrow>
     isSafeEvidenceScalar 160 (evidenceId r) \<and> evidenceType r \<noteq> Ev_UNKNOWN \<and>
     isSafeEvidenceScalar 200 (evidenceValidator r) \<and> isSafeEvidenceScalar 160 (evidencePayloadHash r) \<and>
     evidenceSeverity r \<noteq> Sev_UNKNOWN \<and> evidenceCreatedAt r > 0"

definition evidenceRecordSerialize :: "SlashingEvidenceRecord \<Rightarrow> string" where
  "evidenceRecordSerialize r =
     ''SlashingEvidenceRecord{evidenceId='' @ evidenceId r
       @ '';type='' @ slashingEvidenceTypeToString (evidenceType r)
       @ '';validatorAddress='' @ evidenceValidator r
       @ '';payloadHash='' @ evidencePayloadHash r
       @ '';severity='' @ slashingEvidenceSeverityToString (evidenceSeverity r)
       @ '';createdAt='' @ showI64 (evidenceCreatedAt r) @ ''}''"

subsection \<open>Double votes\<close>

definition sameValidatorHeightRound :: "ValidatorVoteRecord \<Rightarrow> ValidatorVoteRecord \<Rightarrow> bool" where
  "sameValidatorHeightRound l r \<longleftrightarrow>
     voteAddress l \<noteq> [] \<and> voteAddress l = voteAddress r \<and> voteIndex l = voteIndex r \<and>
     voteRound l = voteRound r"

definition sameVoteTarget :: "ValidatorVoteRecord \<Rightarrow> ValidatorVoteRecord \<Rightarrow> bool" where
  "sameVoteTarget l r \<longleftrightarrow>
     voteHash l = voteHash r \<and> votePrevious l = votePrevious r \<and> voteDecision l = voteDecision r \<and>
     voteReason l = voteReason r"

definition isConflictPair :: "DoubleVoteEvidence \<Rightarrow> bool" where
  "isConflictPair ev \<longleftrightarrow>
     evDetectedAt ev > 0 \<and> sameValidatorHeightRound (evFirst ev) (evSecond ev) \<and>
     \<not> sameVoteTarget (evFirst ev) (evSecond ev)"

definition dvValidatorAddress :: "DoubleVoteEvidence \<Rightarrow> string" where
  "dvValidatorAddress ev = (if isConflictPair ev then voteAddress (evFirst ev) else [])"

definition dvPayload :: "sha256 \<Rightarrow> DoubleVoteEvidence \<Rightarrow> string" where
  "dvPayload sha ev =
     ''DoubleVoteEvidencePayload{firstVote='' @ voteSerialize sha (evFirst ev)
       @ '';secondVote='' @ voteSerialize sha (evSecond ev) @ ''}''"

definition dvPayloadHash :: "sha256 \<Rightarrow> DoubleVoteEvidence \<Rightarrow> string" where
  "dvPayloadHash sha ev = hashCString sha (''NODO_SLASHING_DOUBLE_VOTE_PAYLOAD_V1|'' @ dvPayload sha ev)"

definition dvEvidenceId :: "sha256 \<Rightarrow> DoubleVoteEvidence \<Rightarrow> string" where
  "dvEvidenceId sha ev =
     (if \<not> isConflictPair ev then []
      else hashCString sha (''NODO_SLASHING_DOUBLE_VOTE_EVIDENCE_ID_V1|'' @ dvPayloadHash sha ev))"

definition dvToRecord :: "sha256 \<Rightarrow> DoubleVoteEvidence \<Rightarrow> SlashingEvidenceRecord" where
  "dvToRecord sha ev = \<lparr>evidenceId = dvEvidenceId sha ev, evidenceType = DOUBLE_VOTE,
     evidenceValidator = dvValidatorAddress ev, evidencePayloadHash = dvPayloadHash sha ev,
     evidenceSeverity = SLASHABLE, evidenceCreatedAt = evDetectedAt ev\<rparr>"

definition dvSerialize :: "sha256 \<Rightarrow> DoubleVoteEvidence \<Rightarrow> string" where
  "dvSerialize sha ev =
     ''DoubleVoteEvidence{evidenceId='' @ dvEvidenceId sha ev
       @ '';validatorAddress='' @ dvValidatorAddress ev
       @ '';detectedAt='' @ showI64 (evDetectedAt ev)
       @ '';payloadHash='' @ dvPayloadHash sha ev
       @ '';firstVote='' @ voteSerialize sha (evFirst ev)
       @ '';secondVote='' @ voteSerialize sha (evSecond ev) @ ''}''"

subsection \<open>Proposer equivocation\<close>

record ProposerEquivocationEvidence =
  peFirstProposal :: string
  peSecondProposal :: string
  peProposer :: string
  peIndex :: u64
  peRound :: u64
  peFirstHash :: string
  peSecondHash :: string
  peDetectedAt :: int

definition newProposerEquivocation ::
    "string \<Rightarrow> string \<Rightarrow> string \<Rightarrow> u64 \<Rightarrow> u64 \<Rightarrow> string \<Rightarrow> string \<Rightarrow> int \<Rightarrow> ProposerEquivocationEvidence" where
  "newProposerEquivocation p1 p2 a i r h1 h2 t =
     (if h2 < h1
      then \<lparr>peFirstProposal = p2, peSecondProposal = p1, peProposer = a, peIndex = i, peRound = r,
            peFirstHash = h2, peSecondHash = h1, peDetectedAt = t\<rparr>
      else \<lparr>peFirstProposal = p1, peSecondProposal = p2, peProposer = a, peIndex = i, peRound = r,
            peFirstHash = h1, peSecondHash = h2, peDetectedAt = t\<rparr>)"

definition isSafeProposalBlob :: "string \<Rightarrow> bool" where
  "isSafeProposalBlob s \<longleftrightarrow> s \<noteq> [] \<and> int (length s) \<le> 65536"

definition peConflictPair :: "ProposerEquivocationEvidence \<Rightarrow> bool" where
  "peConflictPair ev \<longleftrightarrow>
     peDetectedAt ev > 0 \<and> peIndex ev > 0 \<and> peRound ev > 0 \<and>
     isSafeEvidenceScalar 200 (peProposer ev) \<and> isSafeEvidenceScalar 160 (peFirstHash ev) \<and>
     isSafeEvidenceScalar 160 (peSecondHash ev) \<and> peFirstHash ev \<noteq> peSecondHash ev \<and>
     isSafeProposalBlob (peFirstProposal ev) \<and> isSafeProposalBlob (peSecondProposal ev)"

definition pePayloadHash :: "sha256 \<Rightarrow> ProposerEquivocationEvidence \<Rightarrow> string" where
  "pePayloadHash sha ev =
     hashCString sha (''NODO_SLASHING_PROPOSER_EQUIVOCATION_PAYLOAD_V1|ProposerEquivocationEvidencePayload{firstProposal=''
       @ peFirstProposal ev @ '';secondProposal='' @ peSecondProposal ev @ ''}'')"

definition peEvidenceId :: "sha256 \<Rightarrow> ProposerEquivocationEvidence \<Rightarrow> string" where
  "peEvidenceId sha ev =
     (if \<not> peConflictPair ev then []
      else hashCString sha (''NODO_SLASHING_PROPOSER_EQUIVOCATION_EVIDENCE_ID_V1|'' @ pePayloadHash sha ev))"

definition peToRecord :: "sha256 \<Rightarrow> ProposerEquivocationEvidence \<Rightarrow> SlashingEvidenceRecord" where
  "peToRecord sha ev = \<lparr>evidenceId = peEvidenceId sha ev, evidenceType = EQUIVOCATION,
     evidenceValidator = peProposer ev, evidencePayloadHash = pePayloadHash sha ev,
     evidenceSeverity = SLASHABLE, evidenceCreatedAt = peDetectedAt ev\<rparr>"

subsection \<open>The verifier\<close>

record SlashingEvidenceValidationResult =
  evStatus :: SlashingEvidenceValidationStatus
  evReason :: string
  evRecord :: SlashingEvidenceRecord

definition evResult ::
    "SlashingEvidenceValidationStatus \<Rightarrow> string \<Rightarrow> SlashingEvidenceRecord \<Rightarrow> SlashingEvidenceValidationResult" where
  "evResult s why r = \<lparr>evStatus = s, evReason = why, evRecord = r\<rparr>"

definition validateDoubleVoteStructure ::
    "sha256 \<Rightarrow> DoubleVoteEvidence \<Rightarrow> SlashingEvidenceValidationResult" where
  "validateDoubleVoteStructure sha ev =
     (if \<not> isConflictPair ev
      then evResult Ev_REJECTED ''Votes do not form a same-validator same-height same-round conflict.''
             emptyEvidenceRecord
      else if \<not> evidenceRecordValid (dvToRecord sha ev)
      then evResult Ev_REJECTED ''Double-vote evidence record is invalid.'' (dvToRecord sha ev)
      else evResult Ev_ACCEPTED ''Double-vote evidence structure is valid.'' (dvToRecord sha ev))"

definition validateProposerEquivocationStructure ::
    "sha256 \<Rightarrow> ProposerEquivocationEvidence \<Rightarrow> SlashingEvidenceValidationResult" where
  "validateProposerEquivocationStructure sha ev =
     (if \<not> peConflictPair ev
      then evResult Ev_REJECTED ''Proposals do not form a same-proposer same-height same-round equivocation.''
             emptyEvidenceRecord
      else if \<not> evidenceRecordValid (peToRecord sha ev)
      then evResult Ev_REJECTED ''Proposer-equivocation evidence record is invalid.'' (peToRecord sha ev)
      else evResult Ev_ACCEPTED ''Proposer-equivocation evidence structure is valid.'' (peToRecord sha ev))"

definition bothVotesVerify ::
    "sha256 \<Rightarrow> DoubleVoteEvidence \<Rightarrow> CryptoPolicy \<Rightarrow> SignatureProvider \<Rightarrow> bool" where
  "bothVotesVerify sha ev policy provider \<longleftrightarrow>
     voteVerify sha policy provider (evFirst ev) \<and> voteVerify sha policy provider (evSecond ev)"

definition verifyDoubleVoteEvidence ::
    "sha256 \<Rightarrow> DoubleVoteEvidence \<Rightarrow> CryptoPolicy \<Rightarrow> SignatureProvider \<Rightarrow> SlashingEvidenceValidationResult" where
  "verifyDoubleVoteEvidence sha ev policy provider =
     (let structural = validateDoubleVoteStructure sha ev in
      if evStatus structural \<noteq> Ev_ACCEPTED then structural
      else if \<not> bothVotesVerify sha ev policy provider
      then evResult Ev_REJECTED
             ''Double-vote evidence contains at least one vote with an invalid signature.'' (evRecord structural)
      else evResult Ev_ACCEPTED
             ''Double-vote evidence is structurally valid and both signatures verify.'' (evRecord structural))"

definition verifyDoubleVoteEvidenceForHistory ::
    "sha256 \<Rightarrow> DoubleVoteEvidence \<Rightarrow> u64 \<Rightarrow> ValidatorSetHistory \<Rightarrow> CryptoPolicy \<Rightarrow> SignatureProvider
       \<Rightarrow> SlashingEvidenceValidationResult result" where
  "verifyDoubleVoteEvidenceForHistory sha ev maximumOffenseHeight hist policy provider =
     (let structural = validateDoubleVoteStructure sha ev in
      if evStatus structural \<noteq> Ev_ACCEPTED then Inr structural
      else let height = voteIndex (evFirst ev) in
      if height = 0 \<or> height > maximumOffenseHeight
      then Inr (evResult Ev_REJECTED ''Double-vote evidence refers to an unavailable consensus height.''
                  (evRecord structural))
      else if \<not> hasSet hist height
      then Inr (evResult Ev_REJECTED ''Historical validator set is unavailable for the evidence.''
                  (evRecord structural))
      else bindR (setAt hist height) (\<lambda>reg.
        if \<not> verifyValidatorIdentity sha reg (dvValidatorAddress ev) (votePublicKey (evFirst ev)) \<or>
           \<not> verifyValidatorIdentity sha reg (dvValidatorAddress ev) (votePublicKey (evSecond ev))
        then Inr (evResult Ev_REJECTED ''Evidence signer was not active at the offense height.''
                    (evRecord structural))
        else Inr (verifyDoubleVoteEvidence sha ev policy provider)))"

subsection \<open>The evidence pool\<close>

record EvidencePool =
  evidenceById :: "(string, SlashingEvidenceRecord) smap"
  doubleVoteById :: "(string, DoubleVoteEvidence) smap"
  equivocationById :: "(string, ProposerEquivocationEvidence) smap"

definition MAX_PENDING_SLASHING_EVIDENCE :: int where
  "MAX_PENDING_SLASHING_EVIDENCE = 4096"

definition kMinRetentionSeconds :: int where
  "kMinRetentionSeconds = 7 * 24 * 3600"

definition evidenceContains :: "EvidencePool \<Rightarrow> string \<Rightarrow> bool" where
  "evidenceContains pool i \<longleftrightarrow> map_of (evidenceById pool) i \<noteq> None"

definition admitEvidence ::
    "(string \<Rightarrow> bool) option \<Rightarrow> SlashingEvidenceValidationResult \<Rightarrow> (SlashingEvidenceRecord \<Rightarrow> EvidencePool \<Rightarrow> EvidencePool)
       \<Rightarrow> EvidencePool \<Rightarrow> SlashingEvidenceValidationResult \<times> EvidencePool" where
  "admitEvidence store validation keep pool =
     (if evStatus validation \<noteq> Ev_ACCEPTED then (validation, pool)
      else let r = evRecord validation in
      if evidenceContains pool (evidenceId r)
      then (evResult Ev_DUPLICATE ''Slashing evidence record is already present.'' r, pool)
      else if int (length (evidenceById pool)) \<ge> MAX_PENDING_SLASHING_EVIDENCE
      then (evResult Ev_REJECTED ''Pending slashing evidence pool reached its protocol limit.'' r, pool)
      else if (case store of None \<Rightarrow> False | Some f \<Rightarrow> \<not> f (evidenceId r))
      then (evResult Ev_REJECTED ''Slashing evidence could not be persisted atomically.'' r, pool)
      else (evResult Ev_ACCEPTED ''Slashing evidence record accepted.'' r,
            keep r (pool\<lparr>evidenceById := snd (mapEmplace (evidenceId r) r (evidenceById pool))\<rparr>)))"

definition submitDoubleVoteEvidence ::
    "sha256 \<Rightarrow> (string \<Rightarrow> bool) option \<Rightarrow> DoubleVoteEvidence \<Rightarrow> EvidencePool
       \<Rightarrow> SlashingEvidenceValidationResult \<times> EvidencePool" where
  "submitDoubleVoteEvidence sha store ev pool =
     admitEvidence store (validateDoubleVoteStructure sha ev)
       (\<lambda>r p. p\<lparr>doubleVoteById := snd (mapEmplace (evidenceId r) ev (doubleVoteById p))\<rparr>) pool"

definition submitProposerEquivocationEvidence ::
    "sha256 \<Rightarrow> (string \<Rightarrow> bool) option \<Rightarrow> ProposerEquivocationEvidence \<Rightarrow> EvidencePool
       \<Rightarrow> SlashingEvidenceValidationResult \<times> EvidencePool" where
  "submitProposerEquivocationEvidence sha store ev pool =
     admitEvidence store (validateProposerEquivocationStructure sha ev)
       (\<lambda>r p. p\<lparr>equivocationById := snd (mapEmplace (evidenceId r) ev (equivocationById p))\<rparr>) pool"

definition removeEvidence :: "(string \<Rightarrow> bool) option \<Rightarrow> string \<Rightarrow> EvidencePool \<Rightarrow> bool \<times> EvidencePool" where
  "removeEvidence erase i pool =
     (if map_of (evidenceById pool) i = None then (False, pool)
      else if (case erase of None \<Rightarrow> False | Some f \<Rightarrow> \<not> f i) then (False, pool)
      else (True, \<lparr>evidenceById = mapErase i (evidenceById pool),
                   doubleVoteById = mapErase i (doubleVoteById pool),
                   equivocationById = mapErase i (equivocationById pool)\<rparr>))"

fun pruneEvidence ::
    "(string \<Rightarrow> bool) option \<Rightarrow> int \<Rightarrow> (string, SlashingEvidenceRecord) smap \<Rightarrow> EvidencePool \<Rightarrow> EvidencePool" where
  "pruneEvidence erase cutoff [] pool = pool"
| "pruneEvidence erase cutoff ((i, r) # es) pool =
     (if evidenceCreatedAt r < cutoff \<and> \<not> (case erase of None \<Rightarrow> False | Some f \<Rightarrow> \<not> f i)
      then pruneEvidence erase cutoff es
             \<lparr>evidenceById = mapErase i (evidenceById pool),
              doubleVoteById = mapErase i (doubleVoteById pool),
              equivocationById = mapErase i (equivocationById pool)\<rparr>
      else pruneEvidence erase cutoff es pool)"

definition pruneOlderThan :: "(string \<Rightarrow> bool) option \<Rightarrow> int \<Rightarrow> int \<Rightarrow> EvidencePool \<Rightarrow> EvidencePool" where
  "pruneOlderThan erase cutoffTimestamp now pool =
     (let safeCutoff = min cutoffTimestamp (now - kMinRetentionSeconds)
      in pruneEvidence erase safeCutoff (evidenceById pool) pool)"

definition evidencePoolValid :: "sha256 \<Rightarrow> EvidencePool \<Rightarrow> bool" where
  "evidencePoolValid sha pool \<longleftrightarrow>
     list_all (\<lambda>(i, r). i = evidenceId r \<and> evidenceRecordValid r) (evidenceById pool) \<and>
     list_all (\<lambda>(i, ev). case map_of (evidenceById pool) i of None \<Rightarrow> False
       | Some r \<Rightarrow> dvEvidenceId sha ev = i \<and>
           evidenceRecordSerialize (dvToRecord sha ev) = evidenceRecordSerialize r) (doubleVoteById pool) \<and>
     list_all (\<lambda>(i, ev). case map_of (evidenceById pool) i of None \<Rightarrow> False
       | Some r \<Rightarrow> peEvidenceId sha ev = i \<and>
           evidenceRecordSerialize (peToRecord sha ev) = evidenceRecordSerialize r) (equivocationById pool)"

subsection \<open>The local detector\<close>

definition isDoubleVotePair :: "ValidatorVoteRecord \<Rightarrow> ValidatorVoteRecord \<Rightarrow> bool" where
  "isDoubleVotePair a b \<longleftrightarrow>
     voteAddress a = voteAddress b \<and> voteIndex a = voteIndex b \<and> voteRound a = voteRound b \<and>
     voteHash a \<noteq> voteHash b"

record DoubleVoteDetectionResult =
  evidenceSubmitted :: nat
  duplicatesSkipped :: nat
  newEvidenceIds :: "string list"

fun detectFrom ::
    "sha256 \<Rightarrow> VotePool \<Rightarrow> (string \<Rightarrow> bool) option \<Rightarrow> int \<Rightarrow> ValidatorVoteRecord list
       \<Rightarrow> DoubleVoteDetectionResult \<Rightarrow> EvidencePool \<Rightarrow> DoubleVoteDetectionResult \<times> EvidencePool" where
  "detectFrom sha votes store now [] res pool = (res, pool)"
| "detectFrom sha votes store now (v # vs) res pool =
     (case firstVoteForValidator votes (voteAddress v) (voteIndex v) (voteRound v) (voteDecision v) of
        None \<Rightarrow> detectFrom sha votes store now vs res pool
      | Some original \<Rightarrow>
          if \<not> isDoubleVotePair original v then detectFrom sha votes store now vs res pool
          else let ev = newDoubleVoteEvidence sha original v now in
          if evidenceContains pool (dvEvidenceId sha ev)
          then detectFrom sha votes store now vs (res\<lparr>duplicatesSkipped := duplicatesSkipped res + 1\<rparr>) pool
          else let (r, pool') = submitDoubleVoteEvidence sha store ev pool in
               if evStatus r = Ev_ACCEPTED
               then detectFrom sha votes store now vs
                      (res\<lparr>evidenceSubmitted := evidenceSubmitted res + 1,
                           newEvidenceIds := newEvidenceIds res @ [evidenceId (evRecord r)]\<rparr>) pool'
               else if evStatus r = Ev_DUPLICATE
               then detectFrom sha votes store now vs (res\<lparr>duplicatesSkipped := duplicatesSkipped res + 1\<rparr>) pool'
               else detectFrom sha votes store now vs res pool')"

definition detectDoubleVotes ::
    "sha256 \<Rightarrow> VotePool \<Rightarrow> (string \<Rightarrow> bool) option \<Rightarrow> int \<Rightarrow> EvidencePool \<Rightarrow> DoubleVoteDetectionResult \<times> EvidencePool" where
  "detectDoubleVotes sha votes store now pool =
     detectFrom sha votes store now (conflictingVotes votes)
       \<lparr>evidenceSubmitted = 0, duplicatesSkipped = 0, newEvidenceIds = []\<rparr> pool"

subsection \<open>Verified evidence\<close>

lemma hash_evidence_safe: "isSafeEvidenceScalar 160 (nodo_hash_string sha s)"
  using hash_safe [of sha s]
  by (auto simp: isSafeEvidenceScalar_def isSafeScalar_def isSafeDelimitedText_def list_all_iff)

lemma address_evidence_safe:
  "addressValid sha a \<Longrightarrow> isSafeScalar a \<Longrightarrow> isSafeEvidenceScalar 200 a"
  by (auto simp: isSafeEvidenceScalar_def isSafeScalar_def isSafeDelimitedText_def list_all_iff
      addressValid_def address_sizes)

lemma verified_address:
  "voteVerify sha policy provider v \<Longrightarrow> addressValid sha (voteAddress v) \<and> isSafeScalar (voteAddress v)"
  by (auto simp: voteVerify_def voteStructurallyValid_def isValidatorAddressBoundToPublicKey_def
      split: if_splits)

lemma conflict_record_valid:
  assumes "isConflictPair ev" and "voteVerify sha policy provider (evFirst ev)"
  shows "evidenceRecordValid (dvToRecord sha ev)"
proof -
  have "isSafeEvidenceScalar 200 (voteAddress (evFirst ev))"
    using verified_address [OF assms(2)] address_evidence_safe by blast
  moreover have "0 < evDetectedAt ev" using assms(1) by (simp add: isConflictPair_def)
  ultimately show ?thesis
    using assms(1) by (simp add: evidenceRecordValid_def dvToRecord_def dvEvidenceId_def
        dvPayloadHash_def hash_evidence_safe dvValidatorAddress_def)
qed

lemma verify_evidence_iff:
  "evStatus (verifyDoubleVoteEvidence sha ev policy provider) = Ev_ACCEPTED \<longleftrightarrow>
     isConflictPair ev \<and> bothVotesVerify sha ev policy provider"
  using conflict_record_valid [of ev sha policy provider]
  by (auto simp: verifyDoubleVoteEvidence_def validateDoubleVoteStructure_def evResult_def Let_def
      bothVotesVerify_def)

lemma verify_history_iff:
  "(\<exists>res. verifyDoubleVoteEvidenceForHistory sha ev maxh hist policy provider = Inr res \<and>
      evStatus res = Ev_ACCEPTED) \<longleftrightarrow>
   isConflictPair ev \<and> bothVotesVerify sha ev policy provider \<and>
   voteIndex (evFirst ev) \<noteq> 0 \<and> voteIndex (evFirst ev) \<le> maxh \<and> hasSet hist (voteIndex (evFirst ev)) \<and>
   (\<exists>reg. setAt hist (voteIndex (evFirst ev)) = Inr reg \<and>
      verifyValidatorIdentity sha reg (voteAddress (evFirst ev)) (votePublicKey (evFirst ev)) \<and>
      verifyValidatorIdentity sha reg (voteAddress (evFirst ev)) (votePublicKey (evSecond ev)))"
  (is "?l \<longleftrightarrow> ?r")
proof (cases "isConflictPair ev \<and> evidenceRecordValid (dvToRecord sha ev)")
  case False
  then have "\<not> ?l"
    by (auto simp: verifyDoubleVoteEvidenceForHistory_def validateDoubleVoteStructure_def evResult_def)
  moreover have "\<not> ?r" using False conflict_record_valid by (auto simp: bothVotesVerify_def)
  ultimately show ?thesis by blast
next
  case True
  then have st: "validateDoubleVoteStructure sha ev =
      evResult Ev_ACCEPTED ''Double-vote evidence structure is valid.'' (dvToRecord sha ev)"
    and ad: "dvValidatorAddress ev = voteAddress (evFirst ev)"
    by (simp_all add: validateDoubleVoteStructure_def dvValidatorAddress_def)
  note ver = verify_evidence_iff [of sha ev policy provider]
  show ?thesis
    unfolding verifyDoubleVoteEvidenceForHistory_def st ad Let_def using ver True
    by (auto simp: evResult_def not_less)
qed

lemma differing_votes_accepted:
  assumes "voteVerify sha policy provider v" and "voteVerify sha policy provider w"
    and "\<not> sameVoteTarget v w"
    and "voteAddress v = voteAddress w" and "votePublicKey v = votePublicKey w"
    and "voteIndex v = voteIndex w" and "voteRound v = voteRound w"
    and "hasSet hist (voteIndex v)" and "setAt hist (voteIndex v) = Inr reg"
    and "verifyValidatorIdentity sha reg (voteAddress v) (votePublicKey v)"
    and "voteIndex v \<le> maxh" and "0 < t"
  shows "\<exists>res. verifyDoubleVoteEvidenceForHistory sha (newDoubleVoteEvidence sha v w t) maxh hist policy provider
           = Inr res \<and> evStatus res = Ev_ACCEPTED"
proof -
  have nz: "voteIndex v \<noteq> 0" "voteAddress v \<noteq> []"
    using assms(1) by (auto simp: voteVerify_def voteStructurallyValid_def isSafeScalar_def
        isSafeDelimitedText_def split: if_splits)
  have "isConflictPair (newDoubleVoteEvidence sha v w t)"
    using nz(2) assms(3,4,6,7,12)
    by (auto simp: isConflictPair_def newDoubleVoteEvidence_def sameValidatorHeightRound_def sameVoteTarget_def)
  moreover have "bothVotesVerify sha (newDoubleVoteEvidence sha v w t) policy provider"
    using assms(1,2) by (auto simp: bothVotesVerify_def newDoubleVoteEvidence_def)
  moreover have "voteIndex (evFirst (newDoubleVoteEvidence sha v w t)) = voteIndex v"
    "voteAddress (evFirst (newDoubleVoteEvidence sha v w t)) = voteAddress v"
    "votePublicKey (evFirst (newDoubleVoteEvidence sha v w t)) = votePublicKey v"
    "votePublicKey (evSecond (newDoubleVoteEvidence sha v w t)) = votePublicKey v"
    using assms(4-6) by (auto simp: newDoubleVoteEvidence_def)
  ultimately show ?thesis
    unfolding verify_history_iff using nz(1) assms(8-11) by simp
qed

subsection \<open>The pool invariant\<close>

datatype evidenceCall =
    SubmitDoubleVote "(string \<Rightarrow> bool) option" DoubleVoteEvidence
  | SubmitEquivocation "(string \<Rightarrow> bool) option" ProposerEquivocationEvidence
  | RemoveEvidence "(string \<Rightarrow> bool) option" string
  | PruneEvidence "(string \<Rightarrow> bool) option" int int

fun evidenceStep :: "sha256 \<Rightarrow> evidenceCall \<Rightarrow> EvidencePool \<Rightarrow> EvidencePool" where
  "evidenceStep sha (SubmitDoubleVote store ev) pool = snd (submitDoubleVoteEvidence sha store ev pool)"
| "evidenceStep sha (SubmitEquivocation store ev) pool =
     snd (submitProposerEquivocationEvidence sha store ev pool)"
| "evidenceStep sha (RemoveEvidence erase i) pool = snd (removeEvidence erase i pool)"
| "evidenceStep sha (PruneEvidence erase cutoff now) pool = pruneOlderThan erase cutoff now pool"

definition emptyEvidencePool :: EvidencePool where
  "emptyEvidencePool = \<lparr>evidenceById = [], doubleVoteById = [], equivocationById = []\<rparr>"

text \<open>Every detailed evidence stands next to the record made from it.\<close>

definition mirrors ::
    "('e \<Rightarrow> SlashingEvidenceRecord) \<Rightarrow> (string, SlashingEvidenceRecord) smap \<Rightarrow> (string, 'e) smap \<Rightarrow> bool" where
  "mirrors toRec index side \<longleftrightarrow>
     mapOk side \<and> (\<forall>i ev. map_of side i = Some ev \<longrightarrow> map_of index i = Some (toRec ev))"

definition indexOk :: "(string, SlashingEvidenceRecord) smap \<Rightarrow> bool" where
  "indexOk index \<longleftrightarrow> mapOk index \<and> length index \<le> 4096 \<and>
     (\<forall>i r. map_of index i = Some r \<longrightarrow> i = evidenceId r \<and> evidenceRecordValid r)"

definition evidenceOk :: "sha256 \<Rightarrow> EvidencePool \<Rightarrow> bool" where
  "evidenceOk sha pool \<longleftrightarrow> indexOk (evidenceById pool) \<and>
     mirrors (dvToRecord sha) (evidenceById pool) (doubleVoteById pool) \<and>
     mirrors (peToRecord sha) (evidenceById pool) (equivocationById pool)"

lemma evidenceOk_empty: "evidenceOk sha emptyEvidencePool"
  by (simp add: evidenceOk_def emptyEvidencePool_def mirrors_def indexOk_def)

lemma mirrors_list:
  assumes "mirrors toRec index side" and "indexOk index" and "\<And>ev. idOf ev = evidenceId (toRec ev)"
  shows "list_all (\<lambda>(i, ev). case map_of index i of None \<Rightarrow> False
     | Some r \<Rightarrow> idOf ev = i \<and> evidenceRecordSerialize (toRec ev) = evidenceRecordSerialize r) side"
  unfolding list_all_iff
proof (rule ballI, clarify)
  fix i ev assume "(i, ev) \<in> set side"
  then have "map_of index i = Some (toRec ev)"
    using assms(1) by (simp add: mirrors_def map_of_eq_Some_iff_mem)
  moreover from this have "evidenceId (toRec ev) = i" using assms(2) by (simp add: indexOk_def)
  ultimately show "case map_of index i of None \<Rightarrow> False
     | Some r \<Rightarrow> idOf ev = i \<and> evidenceRecordSerialize (toRec ev) = evidenceRecordSerialize r"
    using assms(3) by simp
qed

lemma evidenceOk_valid:
  assumes "evidenceOk sha pool"
  shows "evidencePoolValid sha pool"
proof -
  have "list_all (\<lambda>(i, r). i = evidenceId r \<and> evidenceRecordValid r) (evidenceById pool)"
    using assms by (auto simp: evidenceOk_def indexOk_def list_all_iff map_of_eq_Some_iff_mem [symmetric])
  then show ?thesis
    using assms mirrors_list [of "dvToRecord sha" _ _ "dvEvidenceId sha"]
      mirrors_list [of "peToRecord sha" _ _ "peEvidenceId sha"]
    by (simp add: evidenceOk_def evidencePoolValid_def dvToRecord_def peToRecord_def)
qed

lemma indexOk_put:
  "indexOk m \<Longrightarrow> map_of m (evidenceId r) = None \<Longrightarrow> length m < 4096 \<Longrightarrow> evidenceRecordValid r \<Longrightarrow>
     indexOk (mapPut (evidenceId r) r m)"
  by (auto simp: indexOk_def length_mapPut_new)

lemma mirrors_put_index:
  "mirrors toRec m side \<Longrightarrow> map_of m i = None \<Longrightarrow> mirrors toRec (mapPut i r m) side"
  by (fastforce simp: mirrors_def)

lemma mirrors_fresh: "mirrors toRec m side \<Longrightarrow> map_of m i = None \<Longrightarrow> map_of side i = None"
  by (cases "map_of side i") (auto simp: mirrors_def)

lemma mirrors_put_both:
  "mirrors toRec m side \<Longrightarrow> map_of m i = None \<Longrightarrow>
     mirrors toRec (mapPut i (toRec ev) m) (snd (mapEmplace i ev side))"
  by (auto simp: mapEmplace_new mirrors_fresh) (auto simp: mirrors_def)

lemma mirrors_erase: "mirrors toRec m side \<Longrightarrow> mirrors toRec (mapErase i m) (mapErase i side)"
  by (auto simp: mirrors_def split: if_splits)

definition dropEvidence :: "string \<Rightarrow> EvidencePool \<Rightarrow> EvidencePool" where
  "dropEvidence i pool = \<lparr>evidenceById = mapErase i (evidenceById pool),
     doubleVoteById = mapErase i (doubleVoteById pool),
     equivocationById = mapErase i (equivocationById pool)\<rparr>"

lemma dropEvidence_ok:
  assumes "evidenceOk sha pool"
  shows "evidenceOk sha (dropEvidence i pool)"
proof -
  have "length (mapErase i (evidenceById pool)) \<le> length (evidenceById pool)"
    by (simp add: mapErase_def)
  then have "indexOk (mapErase i (evidenceById pool))"
    using assms by (auto simp: evidenceOk_def indexOk_def split: if_splits)
  then show ?thesis using assms by (simp add: evidenceOk_def dropEvidence_def mirrors_erase)
qed

lemma pruneEvidence_Cons:
  "pruneEvidence erase cutoff ((i, r) # es) pool =
     (if evidenceCreatedAt r < cutoff \<and> \<not> (case erase of None \<Rightarrow> False | Some f \<Rightarrow> \<not> f i)
      then pruneEvidence erase cutoff es (dropEvidence i pool) else pruneEvidence erase cutoff es pool)"
  by (simp add: dropEvidence_def)

lemma pruneEvidence_ok: "evidenceOk sha pool \<Longrightarrow> evidenceOk sha (pruneEvidence erase cutoff es pool)"
proof (induction es arbitrary: pool)
  case (Cons e es)
  then show ?case by (cases e) (simp add: pruneEvidence_Cons dropEvidence_ok del: pruneEvidence.simps)
qed simp

lemma submitDV_ok:
  assumes "evidenceOk sha pool"
  shows "evidenceOk sha (snd (submitDoubleVoteEvidence sha store ev pool))"
  using assms
  by (auto simp: submitDoubleVoteEvidence_def admitEvidence_def validateDoubleVoteStructure_def
      evResult_def Let_def evidenceContains_def MAX_PENDING_SLASHING_EVIDENCE_def mapEmplace_new
      evidenceOk_def indexOk_put mirrors_put_index mirrors_put_both)

lemma submitPE_ok:
  assumes "evidenceOk sha pool"
  shows "evidenceOk sha (snd (submitProposerEquivocationEvidence sha store ev pool))"
  using assms
  by (auto simp: submitProposerEquivocationEvidence_def admitEvidence_def
      validateProposerEquivocationStructure_def evResult_def Let_def evidenceContains_def
      MAX_PENDING_SLASHING_EVIDENCE_def mapEmplace_new evidenceOk_def indexOk_put
      mirrors_put_index mirrors_put_both)

lemma evidenceStep_ok: "evidenceOk sha pool \<Longrightarrow> evidenceOk sha (evidenceStep sha c pool)"
proof (cases c)
  case (RemoveEvidence erase i)
  assume "evidenceOk sha pool"
  then show ?thesis using dropEvidence_ok [of sha pool i]
    by (auto simp: RemoveEvidence removeEvidence_def dropEvidence_def)
next
  case (PruneEvidence erase cutoff now)
  assume "evidenceOk sha pool"
  then show ?thesis by (simp add: PruneEvidence pruneOlderThan_def pruneEvidence_ok)
qed (simp_all add: submitDV_ok submitPE_ok)

interpretation evpool: component "evidenceStep sha" "\<lambda>_. True" "evidenceOk sha" for sha
  by unfold_locales (rule evidenceStep_ok)

lemma pruneEvidence_keeps:
  assumes "\<And>r'. (i, r') \<in> set es \<Longrightarrow> \<not> evidenceCreatedAt r' < cutoff"
  shows "map_of (evidenceById (pruneEvidence erase cutoff es pool)) i = map_of (evidenceById pool) i"
    and "map_of (doubleVoteById (pruneEvidence erase cutoff es pool)) i = map_of (doubleVoteById pool) i"
  using assms
  by (induction es arbitrary: pool) (auto simp: pruneEvidence_Cons dropEvidence_def simp del: pruneEvidence.simps(2))

subsection \<open>Properties of the evidence\<close>

text \<open>
  C27: Evidence that verifies against the validator history is made of two votes with valid
  signatures, by one validator that was active in the recorded set of that height, for the same
  height and round, and that differ in block, parent, decision or reason.
\<close>

theorem verified_evidence_sound:
  assumes "verifyDoubleVoteEvidenceForHistory sha ev maxh hist policy provider = Inr res"
    and "evStatus res = Ev_ACCEPTED"
  shows "voteVerify sha policy provider (evFirst ev) \<and> voteVerify sha policy provider (evSecond ev) \<and>
    voteAddress (evFirst ev) = voteAddress (evSecond ev) \<and> voteIndex (evFirst ev) = voteIndex (evSecond ev) \<and>
    voteRound (evFirst ev) = voteRound (evSecond ev) \<and>
    (voteHash (evFirst ev) \<noteq> voteHash (evSecond ev) \<or> votePrevious (evFirst ev) \<noteq> votePrevious (evSecond ev) \<or>
     voteDecision (evFirst ev) \<noteq> voteDecision (evSecond ev) \<or> voteReason (evFirst ev) \<noteq> voteReason (evSecond ev)) \<and>
    (\<exists>reg e. setAt hist (voteIndex (evFirst ev)) = Inr reg \<and>
       map_of reg (voteAddress (evFirst ev)) = Some e \<and> entryStatus e = ACTIVE)"
proof -
  have "isConflictPair ev" "bothVotesVerify sha ev policy provider"
    and reg: "\<exists>reg. setAt hist (voteIndex (evFirst ev)) = Inr reg \<and>
      verifyValidatorIdentity sha reg (voteAddress (evFirst ev)) (votePublicKey (evFirst ev))"
    using verify_history_iff [of sha ev maxh hist policy provider] assms by auto
  moreover have "\<exists>e. map_of r a = Some e \<and> entryStatus e = ACTIVE"
    if "verifyValidatorIdentity sha r a pk" for r a pk
    using that by (auto simp: verifyValidatorIdentity_def entryActive_def split: option.splits if_splits)
  ultimately show ?thesis
    by (auto simp: isConflictPair_def sameValidatorHeightRound_def sameVoteTarget_def bothVotesVerify_def)
qed

text \<open>
  C29: An honest validator's own prevote and precommit are accepted as slashable double-vote
  evidence: for any active validator, a prevote and a precommit with valid signatures for the same
  height and round, even for one and the same block, verify against the history. The decision is
  part of the vote target that is compared, so voting in both phases of a round, as every
  validator does, is reported as a conflict.
\<close>

theorem honest_votes_accepted_as_double_vote:
  assumes "voteVerify sha policy provider v" and "voteVerify sha policy provider w"
    and "voteDecision v = PREVOTE" and "voteDecision w = PRECOMMIT"
    and "voteAddress v = voteAddress w" and "votePublicKey v = votePublicKey w"
    and "voteIndex v = voteIndex w" and "voteRound v = voteRound w"
    and "voteHash v = voteHash w" and "votePrevious v = votePrevious w"
    and "hasSet hist (voteIndex v)" and "setAt hist (voteIndex v) = Inr reg"
    and "verifyValidatorIdentity sha reg (voteAddress v) (votePublicKey v)"
    and "voteIndex v \<le> maxh" and "0 < t"
  shows "\<exists>res. verifyDoubleVoteEvidenceForHistory sha (newDoubleVoteEvidence sha v w t) maxh hist policy provider
           = Inr res \<and> evStatus res = Ev_ACCEPTED"
proof -
  have "\<not> sameVoteTarget v w" using assms(3,4) by (auto simp: sameVoteTarget_def)
  then show ?thesis using assms(1,2,5-8,11-15) by (intro differing_votes_accepted)
qed

text \<open>
  The identifier of double-vote evidence does not depend on the order in which the two votes
  are given, as long as their identifiers differ.
\<close>

theorem evidence_id_order_independent:
  assumes "voteId sha v \<noteq> voteId sha w"
  shows "dvEvidenceId sha (newDoubleVoteEvidence sha v w t) = dvEvidenceId sha (newDoubleVoteEvidence sha w v t)"
proof -
  have "newDoubleVoteEvidence sha v w t = newDoubleVoteEvidence sha w v t"
    using assms by (auto simp: newDoubleVoteEvidence_def)
  then show ?thesis by simp
qed

text \<open>
  After any sequence of submissions, removals and prunings, whatever the persistence answers,
  the evidence pool passes its own validity check and holds at most 4096 records.
\<close>

theorem evidence_pool_always_valid:
  "evidencePoolValid sha (fold (evidenceStep sha) cs emptyEvidencePool) \<and>
   length (evidenceById (fold (evidenceStep sha) cs emptyEvidencePool)) \<le> 4096"
proof -
  have "evidenceOk sha (fold (evidenceStep sha) cs emptyEvidencePool)"
    by (rule evpool.run_inv [OF evidenceOk_empty]) (simp add: list_all_iff)
  then show ?thesis using evidenceOk_valid by (auto simp: evidenceOk_def indexOk_def)
qed

text \<open>
  Pruning never drops evidence of the last seven days, whatever cut-off is asked for: the
  record and the double-vote evidence are still found.
\<close>

theorem recent_evidence_survives_pruning:
  assumes "evidenceOk sha pool" and "map_of (evidenceById pool) i = Some r"
    and "now - 7 * 24 * 3600 \<le> evidenceCreatedAt r"
  shows "map_of (evidenceById (pruneOlderThan erase cutoff now pool)) i = Some r \<and>
         map_of (doubleVoteById (pruneOlderThan erase cutoff now pool)) i = map_of (doubleVoteById pool) i"
proof -
  have "r' = r" if "(i, r') \<in> set (evidenceById pool)" for r'
    using that assms(1,2) by (simp add: evidenceOk_def indexOk_def map_of_eq_Some_iff_mem [symmetric])
  then have "\<not> evidenceCreatedAt r' < min cutoff (now - kMinRetentionSeconds)"
    if "(i, r') \<in> set (evidenceById pool)" for r'
    using that assms(3) by (auto simp: kMinRetentionSeconds_def)
  then show ?thesis
    using pruneEvidence_keeps [of i "evidenceById pool" "min cutoff (now - kMinRetentionSeconds)"] assms(2)
    by (simp add: pruneOlderThan_def)
qed

subsection \<open>Applications\<close>

abbreviation demoPrevote :: "char \<Rightarrow> ValidatorVoteRecord" where
  "demoPrevote c \<equiv> demoVote c PREVOTE ''block'' ''parent''"

lemma demo_active:
  "verifyValidatorIdentity demoSha demoValidators (voteAddress (demoVote CHR ''7'' d h p))
     (votePublicKey (demoVote CHR ''7'' d h p))"
  using demo_identity [OF map_of_SomeD [OF demoValidators_find(2)]] by (auto simp: demoVote_def)

lemma demo_set:
  "hasSet demoHistory (voteIndex (demoVote c d h p))"
  "setAt demoHistory (voteIndex (demoVote c d h p)) = Inr demoValidators"
  by (simp_all add: demoVote_def demoHistory_def setAt_def setEntryAt_def hasSet_def floorEntry_def)

lemma demo_conflict:
  "\<exists>res. verifyDoubleVoteEvidenceForHistory demoSha
     (newDoubleVoteEvidence demoSha (demoPrecommit CHR ''7'') (demoVote CHR ''7'' PRECOMMIT ''fork'' ''parent'') 20)
     3 demoHistory demoPolicy demoProvider = Inr res \<and> evStatus res = Ev_ACCEPTED"
  by (rule differing_votes_accepted [OF _ _ _ _ _ _ _ demo_set demo_active])
    (use demoVote_verify [OF _ _ demo_safe(1,2)] demoVote_verify [OF _ _ demo_safe(3,2)] in
      \<open>simp_all add: demoName_def\<close>, simp_all add: demoVote_def sameVoteTarget_def)

theorem verified_evidence_sound_witness:
  "\<exists>ev :: DoubleVoteEvidence. evDetectedAt ev = 20 \<and> voteVerify demoSha demoPolicy demoProvider (evSecond ev) \<and>
     voteHash (evFirst ev) \<noteq> voteHash (evSecond ev)"
proof -
  let ?ev = "newDoubleVoteEvidence demoSha (demoPrecommit CHR ''7'') (demoVote CHR ''7'' PRECOMMIT ''fork'' ''parent'') 20"
  obtain res where "verifyDoubleVoteEvidenceForHistory demoSha ?ev 3 demoHistory demoPolicy demoProvider = Inr res"
    "evStatus res = Ev_ACCEPTED" using demo_conflict by blast
  note sound = verified_evidence_sound [OF this]
  have "voteHash (evFirst ?ev) \<noteq> voteHash (evSecond ?ev)" "evDetectedAt ?ev = 20"
    by (simp_all add: newDoubleVoteEvidence_def demoVote_def)
  moreover have "voteVerify demoSha demoPolicy demoProvider (evSecond ?ev)"
    using sound by (rule conjunct1 [OF conjunct2])
  ultimately show ?thesis by blast
qed

theorem honest_votes_accepted_as_double_vote_witness:
  "\<exists>res. verifyDoubleVoteEvidenceForHistory demoSha
     (newDoubleVoteEvidence demoSha (demoPrevote CHR ''7'') (demoPrecommit CHR ''7'') 20) 3 demoHistory
     demoPolicy demoProvider = Inr res \<and> evStatus res = Ev_ACCEPTED"
  by (rule honest_votes_accepted_as_double_vote [OF _ _ _ _ _ _ _ _ _ _ demo_set demo_active])
    (use demoVote_verify [OF _ _ demo_safe(1,2)] in \<open>simp_all add: demoName_def\<close>, simp_all add: demoVote_def)

lemma demo_texts: "showU64 1 = ''1''" "showI64 9 = ''9''"
  by code_simp+

lemma demo_voteId:
  assumes "demoName c"
  shows "voteId demoSha (demoPrecommit c) = replicate 64 c"
proof -
  let ?s = "''NODO_VALIDATOR_VOTE_RECORD_ID_V1|'' @ voteSerialize demoSha (demoPrecommit c)"
  have fp: "fingerprint demoSha (demoKey c) = replicate 64 c"
    using assms unfolding fingerprint_def
    by (subst demoSha_hash) (auto simp: demoName_def publicKeySerialize_def demoKey_def)
  have "voteId demoSha (demoPrecommit c) = nodo_hash_string demoSha ?s" by (simp add: voteId_def)
  also have "\<dots> = replicate 64 c"
    using assms unfolding voteSerialize_def demoVote_def
    by (subst demoSha_hash)
      (auto simp: demoName_def demo_texts fp [unfolded demoKey_def] publicKeySerialize_def demoKey_def demoAddr_def
        bundleSerialize_def signatureSerialize_def demoSignature_def)
  finally show ?thesis .
qed

theorem evidence_id_order_independent_witness:
  "dvEvidenceId demoSha (newDoubleVoteEvidence demoSha (demoPrecommit CHR ''7'') (demoPrecommit CHR ''f'') 1) =
   dvEvidenceId demoSha (newDoubleVoteEvidence demoSha (demoPrecommit CHR ''f'') (demoPrecommit CHR ''7'') 1)"
  by (rule evidence_id_order_independent) (simp add: demo_voteId demoName_def)

theorem recent_evidence_survives_pruning_witness:
  "\<forall>erase cutoff. map_of (evidenceById (pruneOlderThan erase cutoff 100 (snd (submitDoubleVoteEvidence demoSha None
     (newDoubleVoteEvidence demoSha (demoPrevote CHR ''7'') (demoPrecommit CHR ''7'') 20) emptyEvidencePool))))
     (dvEvidenceId demoSha (newDoubleVoteEvidence demoSha (demoPrevote CHR ''7'') (demoPrecommit CHR ''7'') 20)) =
     Some (dvToRecord demoSha (newDoubleVoteEvidence demoSha (demoPrevote CHR ''7'') (demoPrecommit CHR ''7'') 20))"
proof (intro allI)
  fix erase cutoff
  let ?ev = "newDoubleVoteEvidence demoSha (demoPrevote CHR ''7'') (demoPrecommit CHR ''7'') 20"
  let ?pool = "snd (submitDoubleVoteEvidence demoSha None ?ev emptyEvidencePool)"
  have ok: "evidenceOk demoSha ?pool" by (rule submitDV_ok [OF evidenceOk_empty])
  have pair: "isConflictPair ?ev"
    by (simp add: newDoubleVoteEvidence_def isConflictPair_def sameValidatorHeightRound_def
        sameVoteTarget_def demoVote_def demoAddr_def)
  have "voteVerify demoSha demoPolicy demoProvider (evFirst ?ev)"
    using demoVote_verify [OF _ _ demo_safe(1,2)] by (simp add: newDoubleVoteEvidence_def demoName_def)
  then have "evidenceRecordValid (dvToRecord demoSha ?ev)" by (rule conflict_record_valid [OF pair])
  then have "map_of (evidenceById ?pool) (dvEvidenceId demoSha ?ev) = Some (dvToRecord demoSha ?ev)"
    using pair by (simp add: submitDoubleVoteEvidence_def admitEvidence_def validateDoubleVoteStructure_def
        evResult_def Let_def evidenceContains_def emptyEvidencePool_def MAX_PENDING_SLASHING_EVIDENCE_def
        mapEmplace_def) (simp add: dvToRecord_def)
  from recent_evidence_survives_pruning [OF ok this, of 100]
  show "map_of (evidenceById (pruneOlderThan erase cutoff 100 ?pool)) (dvEvidenceId demoSha ?ev) =
      Some (dvToRecord demoSha ?ev)"
    by (simp add: dvToRecord_def newDoubleVoteEvidence_def)
qed

end
