(* ===== verification/EventLoop.thy ===== *)
theory EventLoop
  imports Rounds SetSchedule Finality Slashing
begin

section \<open>The consensus event loop\<close>

text \<open>
  \<open>src/node/consensus/ConsensusEventLoop.cpp\<close> with \<open>BlockVotingPhase.cpp\<close> and
  \<open>BlockFinalizationPhase.cpp\<close>, the round timeout of \<open>NodeRuntime.cpp\<close>, the final part of
  \<open>RuntimeBlockPipeline.cpp\<close> and the start-up in \<open>RuntimeStateLoader.cpp\<close> and
  \<open>NodeOrchestrator::startConsensus\<close>: the state machine that casts a validator's votes.

  One record holds the members of \<open>ConsensusEventLoop\<close> together with the parts of \<open>NodeRuntime\<close>
  it reads and writes, the contents of the recovery file and the votes that have been handed to
  gossip. A tick is a sequence of phases; a phase goes on, returns early or throws.

  What other parts of the node decide is an argument of the tick (\<open>TickInput\<close>): which votes and
  proposals arrived, whether a proposal's signature verifies and its block passes the state
  transition check, whether the rest of the block pipeline accepts a certified block and what
  validator registry its execution leaves, and which writes to disk succeed. Relaying other
  peers' messages, the chain status broadcast and metrics are not modelled.
\<close>

subsection \<open>State and inputs\<close>

record NetworkParameters =
  paramChainId :: string
  proposalTimeoutMs :: u64
  prevoteTimeoutMs :: u64
  precommitTimeoutMs :: u64
  targetBlockTimeSeconds :: u64
  quorumThresholdNumerator :: u64
  quorumThresholdDenominator :: u64
  genesisTimestamp :: int

record BlockProposal =
  propIndex :: u64
  propRound :: u64
  propHash :: string
  propProposer :: string
  propBlock :: Block
  propJustification :: ProposalJustification

record PendingBlockCandidate =
  candBlock :: Block
  candRound :: u64
  candProposal :: BlockProposal

record ConsensusTickResult =
  votesCollected :: nat
  quorumFormed :: bool
  tickFinalized :: bool
  roundAdvanced :: bool
  finalizedBlockHash :: string
  finalizedHeight :: u64
  errorMessage :: string

definition emptyTickResult :: ConsensusTickResult where
  "emptyTickResult = \<lparr>votesCollected = 0, quorumFormed = False, tickFinalized = False, roundAdvanced = False,
     finalizedBlockHash = [], finalizedHeight = 0, errorMessage = []\<rparr>"

record EventLoop =
  elChain :: Blockchain
  elFinalized :: BlockFinalizationRegistry
  elHistory :: ValidatorSetHistory
  elRounds :: ConsensusRoundManager
  elEvidence :: EvidencePool
  elLockedBlock :: string
  elLockedRound :: u64
  elVotedPrevote :: bool
  elVotedPrecommit :: bool
  elPrevote :: "ValidatorVoteRecord option"
  elPrecommit :: "ValidatorVoteRecord option"
  elRebroadcastPrevote :: bool
  elRebroadcastPrecommit :: bool
  elProduced :: bool
  elLastHeight :: u64
  elCandidate :: "PendingBlockCandidate option"
  elBuffered :: "BlockProposal list"
  elBufferedHeight :: u64
  elBufferedRound :: u64
  elRecovery :: "ConsensusRoundState list"
  elSent :: "ValidatorVoteRecord list"
  elResult :: ConsensusTickResult

record LoopConfig =
  netParams :: NetworkParameters
  loopPolicy :: CryptoPolicy
  loopProvider :: SignatureProvider
  runtimePolicy :: CryptoPolicy
  runtimeVoteProvider :: SignatureProvider
  runtimeProvider :: SignatureProvider
  localSigner :: "Signer option"
  recoveryPathSet :: bool

record TickInput =
  tickNow :: int
  tickVotes :: "ValidatorVoteRecord list"
  tickProposals :: "BlockProposal list"
  proposalWellFormed :: "BlockProposal \<Rightarrow> bool"
  proposalVerifies :: "BlockProposal \<Rightarrow> string \<Rightarrow> ValidatorRegistry \<Rightarrow> bool"
  candidateAccepted :: "Block \<Rightarrow> bool"
  gossipEvidence :: "EvidencePool \<Rightarrow> EvidencePool"
  admitEquivocation :: "BlockProposal \<Rightarrow> BlockProposal \<Rightarrow> EvidencePool \<Rightarrow> EvidencePool"
  evidenceStore :: "(string \<Rightarrow> bool) option"
  diskOk :: "ConsensusRoundState \<Rightarrow> bool"
  pipelineAccepts :: "Block \<Rightarrow> bool"
  executedRegistry :: ValidatorRegistry
  snapshotReached :: bool
  persistSucceeds :: bool

datatype flow = Go | Return | Raise exn

type_synonym phase = "EventLoop \<Rightarrow> flow \<times> EventLoop"

definition thenPhase :: "phase \<Rightarrow> phase \<Rightarrow> phase" where
  "thenPhase p q s = (case p s of (Go, s') \<Rightarrow> q s' | (f, s') \<Rightarrow> (f, s'))"

abbreviation elState :: "EventLoop \<Rightarrow> ConsensusRoundState" where
  "elState s \<equiv> mgrState (elRounds s)"

definition setError :: "string \<Rightarrow> EventLoop \<Rightarrow> EventLoop" where
  "setError e s = s\<lparr>elResult := (elResult s)\<lparr>errorMessage := e\<rparr>\<rparr>"

subsection \<open>Recovery, votes and the pool\<close>

definition loadFromRecoveryState :: "ConsensusRoundState \<Rightarrow> EventLoop \<Rightarrow> EventLoop" where
  "loadFromRecoveryState st s = s\<lparr>
     elLockedBlock := rsLockedBlock st, elLockedRound := rsLockedRound st,
     elVotedPrevote := rsVotedPrevote st, elVotedPrecommit := rsVotedPrecommit st,
     elPrevote := rsPrevote st, elPrecommit := rsPrecommit st,
     elRebroadcastPrevote := False, elRebroadcastPrecommit := False,
     elLastHeight := rsHeight st\<rparr>"

definition recoveryStateOf :: "EventLoop \<Rightarrow> ConsensusRoundState" where
  "recoveryStateOf s = (let st = elState s in
     \<lparr>rsHeight = rsHeight st, rsRound = rsRound st, rsProposer = rsProposer st, rsStartedAt = rsStartedAt st,
      rsLockedBlock = elLockedBlock s, rsLockedRound = elLockedRound s,
      rsVotedPrevote = (elPrevote s \<noteq> None), rsVotedPrecommit = (elPrecommit s \<noteq> None),
      rsPrevote = elPrevote s, rsPrecommit = elPrecommit s\<rparr>)"

definition saveRecoveryState :: "LoopConfig \<Rightarrow> TickInput \<Rightarrow> EventLoop \<Rightarrow> bool \<times> EventLoop" where
  "saveRecoveryState cfg inp s =
     (if \<not> recoveryPathSet cfg then (True, s)
      else let (ok, log) = recoverySave (diskOk inp) (recoveryStateOf s) (elRecovery s)
           in (ok, s\<lparr>elRecovery := log\<rparr>))"

definition submitConsensusVote ::
    "sha256 \<Rightarrow> LoopConfig \<Rightarrow> ValidatorVoteRecord \<Rightarrow> EventLoop \<Rightarrow> VoteCollectResult \<times> EventLoop" where
  "submitConsensusVote sha cfg vote s =
     (let (res, mgr) = mgrSubmitVote sha (runtimePolicy cfg) (runtimeVoteProvider cfg) vote (elRounds s)
      in (res, s\<lparr>elRounds := mgr\<rparr>))"

text \<open>The vote is handed to gossip once for each of the two vote message types.\<close>

definition submitAndBroadcastSignedVote ::
    "sha256 \<Rightarrow> LoopConfig \<Rightarrow> ValidatorVoteRecord \<Rightarrow> EventLoop \<Rightarrow> string option \<times> EventLoop" where
  "submitAndBroadcastSignedVote sha cfg vote s =
     (let (res, s') = submitConsensusVote sha cfg vote s in
      if collectStatus res \<noteq> Col_ACCEPTED \<and> collectStatus res \<noteq> REJECTED_REPLAY
      then (Some (validatorVoteDecisionToString (voteDecision vote) @ '' rejected by VotePool: '' @ collectReason res), s')
      else (None, s'\<lparr>elSent := elSent s' @ [vote, vote]\<rparr>))"

definition persistedVoteMatchesCandidate ::
    "LoopConfig \<Rightarrow> ValidatorVoteRecord \<Rightarrow> Block \<Rightarrow> u64 \<Rightarrow> ValidatorVoteDecision \<Rightarrow> bool" where
  "persistedVoteMatchesCandidate cfg vote candidate r decision \<longleftrightarrow>
     voteIndex vote = blockIndex candidate \<and> voteHash vote = blockHash candidate \<and>
     votePrevious vote = blockPrevious candidate \<and> voteRound vote = r \<and> voteDecision vote = decision \<and>
     (case localSigner cfg of None \<Rightarrow> True | Some signer \<Rightarrow> voteAddress vote = signerAddress signer)"

subsection \<open>Draining the inbox\<close>

fun collectVotesFrom :: "sha256 \<Rightarrow> LoopConfig \<Rightarrow> ValidatorVoteRecord list \<Rightarrow> EventLoop \<Rightarrow> EventLoop" where
  "collectVotesFrom sha cfg [] s = s"
| "collectVotesFrom sha cfg (v # vs) s =
     (if \<not> voteStructurallyValid sha (loopPolicy cfg) v then collectVotesFrom sha cfg vs s
      else let (res, s') = submitConsensusVote sha cfg v s in
           collectVotesFrom sha cfg vs
             (if collectStatus res = Col_ACCEPTED
              then s'\<lparr>elResult := (elResult s')\<lparr>votesCollected := votesCollected (elResult s') + 1\<rparr>\<rparr> else s'))"

definition drainVotesAndCollect :: "sha256 \<Rightarrow> LoopConfig \<Rightarrow> TickInput \<Rightarrow> EventLoop \<Rightarrow> EventLoop" where
  "drainVotesAndCollect sha cfg inp s =
     (let s1 = s\<lparr>elResult := emptyTickResult, elEvidence := gossipEvidence inp (elEvidence s)\<rparr>;
          s2 = collectVotesFrom sha cfg (tickVotes inp) s1
      in s2\<lparr>elEvidence := snd (detectDoubleVotes sha (collectorPool (mgrCollector (elRounds s2)))
             (evidenceStore inp) (tickNow inp) (elEvidence s2))\<rparr>)"

definition kMaxBufferedNextRoundProposals :: nat where
  "kMaxBufferedNextRoundProposals = 16"

definition bufferProposal :: "BlockProposal \<Rightarrow> EventLoop \<Rightarrow> EventLoop" where
  "bufferProposal p s =
     (if elBuffered s = [] \<or> (elBufferedHeight s = propIndex p \<and> elBufferedRound s = propRound p)
      then s\<lparr>elBufferedHeight := propIndex p, elBufferedRound := propRound p,
             elBuffered := (if length (elBuffered s) < kMaxBufferedNextRoundProposals
                            then elBuffered s @ [p] else elBuffered s)\<rparr>
      else s)"

definition processProposal ::
    "sha256 \<Rightarrow> LoopConfig \<Rightarrow> TickInput \<Rightarrow> ValidatorRegistry \<Rightarrow> BlockProposal \<Rightarrow> EventLoop \<Rightarrow> EventLoop" where
  "processProposal sha cfg inp validators p s =
     (let st = elState s; b = propBlock p;
          forCurrentRound = (propRound p = rsRound st);
          forNextRound = (rsRound st \<noteq> U64_MAX \<and> propRound p = rsRound st + 1) in
      if \<not> proposalWellFormed inp p \<or> propIndex p \<noteq> rsHeight st then s
      else if \<not> forCurrentRound \<and> \<not> forNextRound then s
      else case selectProposer sha validators (paramChainId (netParams cfg)) (rsHeight st) (propRound p) of
        Inl _ \<Rightarrow> s
      | Inr expected \<Rightarrow>
          if expected = [] then s
          else if \<not> proposalVerifies inp p expected validators then s
          else if \<not> blockValid sha True b \<or> blockIndex b \<noteq> propIndex p \<or> blockHash b \<noteq> propHash p \<or>
                  \<not> canAppendBlock sha (elChain s) b then s
          else case elCandidate s of
            Some c \<Rightarrow>
              if candRound c = rsRound st \<and> blockIndex (candBlock c) = rsHeight st
              then (if blockHash (candBlock c) \<noteq> blockHash b \<and> propProposer (candProposal c) = propProposer p
                    then s\<lparr>elEvidence := admitEquivocation inp (candProposal c) p (elEvidence s)\<rparr> else s)
              else if \<not> candidateAccepted inp b then s
              else if forNextRound then bufferProposal p s
              else s\<lparr>elCandidate := Some \<lparr>candBlock = b, candRound = rsRound st, candProposal = p\<rparr>\<rparr>
          | None \<Rightarrow>
              if \<not> candidateAccepted inp b then s
              else if forNextRound then bufferProposal p s
              else s\<lparr>elCandidate := Some \<lparr>candBlock = b, candRound = rsRound st, candProposal = p\<rparr>\<rparr>)"

definition dropBuffer :: "EventLoop \<Rightarrow> EventLoop" where
  "dropBuffer s = s\<lparr>elBuffered := [], elBufferedHeight := 0, elBufferedRound := 0\<rparr>"

definition processBlockProposals :: "sha256 \<Rightarrow> LoopConfig \<Rightarrow> TickInput \<Rightarrow> phase" where
  "processBlockProposals sha cfg inp s =
     (if chainBlocks (elChain s) = [] then (Go, s)
      else let st = elState s;
               due = (elBuffered s \<noteq> [] \<and> elBufferedHeight s = rsHeight st \<and> elBufferedRound s = rsRound st);
               stale = (elBuffered s \<noteq> [] \<and> (elBufferedHeight s < rsHeight st \<or>
                         (elBufferedHeight s = rsHeight st \<and> elBufferedRound s < rsRound st)));
               messages = (if due then elBuffered s else []) @ tickProposals inp;
               s1 = (if due \<or> stale then dropBuffer s else s) in
      if messages = [] then (Go, s1)
      else if \<not> hasSet (elHistory s1) (rsHeight st) then (Go, s1)
      else case bindR (setAt (elHistory s1) (rsHeight st)) (\<lambda>reg. bindR (totalConsensusWeight reg) (\<lambda>t. Inr (reg, t))) of
        Inl e \<Rightarrow> (Raise e, s1)
      | Inr (validators, t) \<Rightarrow>
          if t = 0 then (Go, s1)
          else (Go, fold (processProposal sha cfg inp validators) messages s1))"

subsection \<open>Voting\<close>

definition resetForHeight :: "u64 \<Rightarrow> EventLoop \<Rightarrow> EventLoop" where
  "resetForHeight height s = s\<lparr>elLastHeight := height, elLockedBlock := [], elLockedRound := 0,
     elVotedPrevote := False, elVotedPrecommit := False, elPrevote := None, elPrecommit := None,
     elRebroadcastPrevote := False, elRebroadcastPrecommit := False, elProduced := False, elCandidate := None\<rparr>"

definition enterHeight :: "u64 \<Rightarrow> EventLoop \<Rightarrow> EventLoop" where
  "enterHeight height s =
     (if height > elLastHeight s \<and>
         hasFinalizedHeight (elFinalized s) (if elLastHeight s > 0 then elLastHeight s else height)
      then resetForHeight height s
      else if elLastHeight s = 0 \<and> height > 0 then s\<lparr>elLastHeight := height\<rparr>
      else s)"

definition elapsedMs :: "TickInput \<Rightarrow> ConsensusRoundState \<Rightarrow> int" where
  "elapsedMs inp st = (tickNow inp - rsStartedAt st) * 1000"

definition signNil :: "sha256 \<Rightarrow> Signer \<Rightarrow> u64 \<Rightarrow> u64 \<Rightarrow> int \<Rightarrow> ValidatorVoteRecord result" where
  "signNil sha signer height r now =
     signValidatorVote sha signer height ''nil'' ''nil'' r REJECT ''nil'' now"

definition advanceConsensusRoundIfTimedOut :: "sha256 \<Rightarrow> LoopConfig \<Rightarrow> int \<Rightarrow> EventLoop \<Rightarrow> bool result \<times> EventLoop" where
  "advanceConsensusRoundIfTimedOut sha cfg now s =
     (let params = netParams cfg; st = elState s;
          phaseTimeoutSecs = (proposalTimeoutMs params + prevoteTimeoutMs params + precommitTimeoutMs params) div 1000
      in if now - rsStartedAt st < sint phaseTimeoutSecs then (Inr False, s)
         else let newRound = rsRound st + 1 in
         case bindR (setAt (elHistory s) (rsHeight st)) (\<lambda>reg.
                selectProposer sha reg (paramChainId params) (rsHeight st) newRound) of
           Inl e \<Rightarrow> (Inl e, s)
         | Inr proposer \<Rightarrow> (Inr True, s\<lparr>elRounds := advanceRound sha newRound proposer now phaseTimeoutSecs (elRounds s)\<rparr>))"

definition advanceRoundIfTimedOut :: "sha256 \<Rightarrow> LoopConfig \<Rightarrow> TickInput \<Rightarrow> phase" where
  "advanceRoundIfTimedOut sha cfg inp s =
     (case advanceConsensusRoundIfTimedOut sha cfg (tickNow inp) s of
        (Inl e, s') \<Rightarrow> (Raise e, s')
      | (Inr False, s') \<Rightarrow> (Return, s')
      | (Inr True, s') \<Rightarrow>
          (Return, s'\<lparr>elResult := (elResult s')\<lparr>roundAdvanced := True\<rparr>,
             elVotedPrevote := False, elVotedPrecommit := False, elPrevote := None, elPrecommit := None,
             elRebroadcastPrevote := False, elRebroadcastPrecommit := False, elProduced := False,
             elCandidate := None\<rparr>))"

text \<open>Without a candidate for the round: vote nil once the phase timeouts have passed.\<close>

definition nilPrevotePhase :: "sha256 \<Rightarrow> LoopConfig \<Rightarrow> TickInput \<Rightarrow> ValidatorRegistry \<Rightarrow> u64 \<Rightarrow> u64 \<Rightarrow> int \<Rightarrow> phase" where
  "nilPrevotePhase sha cfg inp validators height r elapsed s =
     (case localSigner cfg of None \<Rightarrow> (Go, s) | Some signer \<Rightarrow>
        if elapsed \<ge> sint (proposalTimeoutMs (netParams cfg)) \<and> \<not> elVotedPrevote s \<and>
           isEligibleForConsensus validators (signerAddress signer)
        then (case signNil sha signer height r (tickNow inp) of
                Inl e \<Rightarrow> (Raise e, s)
              | Inr v \<Rightarrow>
                  let s1 = snd (submitConsensusVote sha cfg v s);
                      s2 = snd (saveRecoveryState cfg inp (s1\<lparr>elPrevote := Some v\<rparr>))
                  in (Go, s2\<lparr>elVotedPrevote := True\<rparr>))
        else (Go, s))"

definition nilPrecommitPhase :: "sha256 \<Rightarrow> LoopConfig \<Rightarrow> TickInput \<Rightarrow> ValidatorRegistry \<Rightarrow> u64 \<Rightarrow> u64 \<Rightarrow> int \<Rightarrow> phase" where
  "nilPrecommitPhase sha cfg inp validators height r elapsed s =
     (case localSigner cfg of None \<Rightarrow> (Go, s) | Some signer \<Rightarrow>
        if elVotedPrevote s \<and> \<not> elVotedPrecommit s \<and>
           elapsed \<ge> sint (proposalTimeoutMs (netParams cfg) + prevoteTimeoutMs (netParams cfg)) \<and>
           isEligibleForConsensus validators (signerAddress signer)
        then (case signNil sha signer height r (tickNow inp) of
                Inl e \<Rightarrow> (Raise e, s)
              | Inr v \<Rightarrow>
                  let s1 = snd (submitConsensusVote sha cfg v s);
                      s2 = snd (saveRecoveryState cfg inp (s1\<lparr>elPrecommit := Some v\<rparr>))
                  in (Go, s2\<lparr>elVotedPrecommit := True\<rparr>))
        else (Go, s))"

definition noCandidatePhase :: "sha256 \<Rightarrow> LoopConfig \<Rightarrow> TickInput \<Rightarrow> ValidatorRegistry \<Rightarrow> u64 \<Rightarrow> u64 \<Rightarrow> int \<Rightarrow> phase" where
  "noCandidatePhase sha cfg inp validators height r elapsed =
     thenPhase (nilPrevotePhase sha cfg inp validators height r elapsed)
       (thenPhase (nilPrecommitPhase sha cfg inp validators height r elapsed)
         (advanceRoundIfTimedOut sha cfg inp))"

definition rebroadcastPrevote :: "sha256 \<Rightarrow> LoopConfig \<Rightarrow> Block \<Rightarrow> u64 \<Rightarrow> EventLoop \<Rightarrow> EventLoop" where
  "rebroadcastPrevote sha cfg candidate r s =
     (case elPrevote s of
        Some v \<Rightarrow>
          if \<not> elRebroadcastPrevote s \<and> persistedVoteMatchesCandidate cfg v candidate r PREVOTE
          then (case submitAndBroadcastSignedVote sha cfg v s of
                  (None, s') \<Rightarrow> s'\<lparr>elRebroadcastPrevote := True\<rparr>
                | (Some reason, s') \<Rightarrow> setError reason s')
          else s
      | None \<Rightarrow> s)"

definition rebroadcastPrecommit :: "sha256 \<Rightarrow> LoopConfig \<Rightarrow> Block \<Rightarrow> u64 \<Rightarrow> EventLoop \<Rightarrow> EventLoop" where
  "rebroadcastPrecommit sha cfg candidate r s =
     (case elPrecommit s of
        Some v \<Rightarrow>
          if \<not> elRebroadcastPrecommit s \<and> persistedVoteMatchesCandidate cfg v candidate r PRECOMMIT
          then (case submitAndBroadcastSignedVote sha cfg v s of
                  (None, s') \<Rightarrow> s'\<lparr>elRebroadcastPrecommit := True\<rparr>
                | (Some reason, s') \<Rightarrow> setError reason s')
          else s
      | None \<Rightarrow> s)"

definition rebroadcastPersistedVotesForCandidate :: "sha256 \<Rightarrow> LoopConfig \<Rightarrow> Block \<Rightarrow> u64 \<Rightarrow> EventLoop \<Rightarrow> EventLoop" where
  "rebroadcastPersistedVotesForCandidate sha cfg candidate r s =
     rebroadcastPrecommit sha cfg candidate r (rebroadcastPrevote sha cfg candidate r s)"

fun prevoteWeightFrom :: "ValidatorRegistry \<Rightarrow> string set \<Rightarrow> u64 \<Rightarrow> ValidatorVoteRecord list \<Rightarrow> u64 result" where
  "prevoteWeightFrom reg seen acc [] = Inr acc"
| "prevoteWeightFrom reg seen acc (v # vs) =
     (if voteDecision v = PREVOTE \<and> voteAddress v \<notin> seen
      then let w = consensusWeightFor reg (voteAddress v) in
           if U64_MAX - acc < w then Inl (OverflowError ''Prevote weight overflow.'')
           else prevoteWeightFrom reg (insert (voteAddress v) seen) (acc + w) vs
      else prevoteWeightFrom reg seen acc vs)"

definition safeToVote ::
    "sha256 \<Rightarrow> LoopConfig \<Rightarrow> ValidatorRegistry \<Rightarrow> PendingBlockCandidate \<Rightarrow> u64 \<Rightarrow> EventLoop \<Rightarrow> bool result" where
  "safeToVote sha cfg validators c r s =
     (if elLockedBlock s = [] \<or> blockHash (candBlock c) = elLockedBlock s then Inr True
      else if r > elLockedRound s
      then permitsUnlock sha (propJustification (candProposal c)) (elLockedRound s) (blockHash (candBlock c)) r
             validators (loopPolicy cfg) (loopProvider cfg)
      else Inr False)"

text \<open>The prevote phase also returns the prevote weight, to which an own vote is added.\<close>

definition prevotePhase ::
    "sha256 \<Rightarrow> LoopConfig \<Rightarrow> TickInput \<Rightarrow> ValidatorRegistry \<Rightarrow> PendingBlockCandidate \<Rightarrow> u64 \<Rightarrow> u64 \<Rightarrow> int \<Rightarrow> u64
       \<Rightarrow> EventLoop \<Rightarrow> flow \<times> u64 \<times> EventLoop" where
  "prevotePhase sha cfg inp validators c height r elapsed weight s =
     (case localSigner cfg of None \<Rightarrow> (Go, weight, s) | Some signer \<Rightarrow>
        if \<not> elVotedPrevote s \<and> isEligibleForConsensus validators (signerAddress signer)
        then (case safeToVote sha cfg validators c r s of
            Inl e \<Rightarrow> (Raise e, weight, s)
          | Inr False \<Rightarrow> (Go, weight, s)
          | Inr True \<Rightarrow>
              (case buildPrevote sha validators (candBlock c) r (tickNow inp) signer of
                 Inl e \<Rightarrow> (Return, weight, setError (''Unable to build PREVOTE: '' @ exnWhat e) s)
               | Inr v \<Rightarrow>
                   (case saveRecoveryState cfg inp (s\<lparr>elPrevote := Some v\<rparr>) of
                      (False, s1) \<Rightarrow>
                        (Go, weight, setError ''Unable to persist signed PREVOTE; vote was not exposed.''
                           (s1\<lparr>elPrevote := None\<rparr>))
                    | (True, s1) \<Rightarrow>
                        (case submitAndBroadcastSignedVote sha cfg v (s1\<lparr>elVotedPrevote := True\<rparr>) of
                           (Some reason, s2) \<Rightarrow> (Go, weight, s2)
                         | (None, s2) \<Rightarrow>
                             let s3 = s2\<lparr>elRebroadcastPrevote := True\<rparr>;
                                 own = consensusWeightFor validators (signerAddress signer) in
                             if U64_MAX - weight < own
                             then (Raise (OverflowError ''Prevote weight overflow.''), weight, s3)
                             else (Go, weight + own, s3)))))
        else if \<not> elVotedPrevote s \<and> elapsed \<ge> sint (proposalTimeoutMs (netParams cfg)) \<and>
                isEligibleForConsensus validators (signerAddress signer)
        then (case signNil sha signer height r (tickNow inp) of
                Inl e \<Rightarrow> (Raise e, weight, s)
              | Inr v \<Rightarrow>
                  (case submitAndBroadcastSignedVote sha cfg v s of
                     (Some reason, s1) \<Rightarrow> (Go, weight, s1)
                   | (None, s1) \<Rightarrow>
                       (Go, weight, (snd (saveRecoveryState cfg inp (s1\<lparr>elPrevote := Some v\<rparr>)))\<lparr>elVotedPrevote := True\<rparr>)))
        else (Go, weight, s))"

definition precommitPhase ::
    "sha256 \<Rightarrow> LoopConfig \<Rightarrow> TickInput \<Rightarrow> ValidatorRegistry \<Rightarrow> PendingBlockCandidate \<Rightarrow> u64 \<Rightarrow> u64 \<Rightarrow> int \<Rightarrow> u64 \<Rightarrow> u64
       \<Rightarrow> phase" where
  "precommitPhase sha cfg inp validators c height r elapsed weight required s =
     (case localSigner cfg of None \<Rightarrow> (Go, s) | Some signer \<Rightarrow>
        if elVotedPrevote s \<and> \<not> elVotedPrecommit s \<and> isEligibleForConsensus validators (signerAddress signer)
        then (if weight < required then (Go, s)
              else let locked = s\<lparr>elLockedBlock := blockHash (candBlock c), elLockedRound := r\<rparr>;
                       unlock = (\<lambda>s'. s'\<lparr>elLockedBlock := elLockedBlock s, elLockedRound := elLockedRound s\<rparr>) in
              case buildPrecommit sha validators (candBlock c) r (tickNow inp) signer of
                Inl e \<Rightarrow> (Return, setError (''Unable to build PRECOMMIT: '' @ exnWhat e) (unlock locked))
              | Inr v \<Rightarrow>
                  (case saveRecoveryState cfg inp (locked\<lparr>elPrecommit := Some v\<rparr>) of
                     (False, s1) \<Rightarrow>
                       (Go, setError ''Unable to persist signed PRECOMMIT; vote was not exposed.''
                          ((unlock s1)\<lparr>elPrecommit := None\<rparr>))
                   | (True, s1) \<Rightarrow>
                       (case submitAndBroadcastSignedVote sha cfg v (s1\<lparr>elVotedPrecommit := True\<rparr>) of
                          (None, s2) \<Rightarrow> (Go, s2\<lparr>elRebroadcastPrecommit := True\<rparr>)
                        | (Some reason, s2) \<Rightarrow> (Go, setError reason s2))))
        else if \<not> elVotedPrecommit s \<and>
                elapsed \<ge> sint (proposalTimeoutMs (netParams cfg) + prevoteTimeoutMs (netParams cfg)) \<and>
                isEligibleForConsensus validators (signerAddress signer)
        then (case signNil sha signer height r (tickNow inp) of
                Inl e \<Rightarrow> (Raise e, s)
              | Inr v \<Rightarrow>
                  (case submitAndBroadcastSignedVote sha cfg v s of
                     (Some reason, s1) \<Rightarrow> (Go, s1)
                   | (None, s1) \<Rightarrow>
                       (Go, (snd (saveRecoveryState cfg inp (s1\<lparr>elPrecommit := Some v\<rparr>)))\<lparr>elVotedPrecommit := True\<rparr>)))
        else (Go, s))"

subsection \<open>Committing a certified block\<close>

definition certificateFitsSet ::
    "sha256 \<Rightarrow> NetworkParameters \<Rightarrow> QuorumCertificate \<Rightarrow> ValidatorRegistry \<Rightarrow> bool result" where
  "certificateFitsSet sha params c reg =
     bindR (totalConsensusWeight reg) (\<lambda>t.
     bindR (requiredVotingWeight t (quorumThresholdNumerator params) (quorumThresholdDenominator params)) (\<lambda>q.
     bindR (validatorSetRoot sha reg) (\<lambda>root.
       Inr (certRequired c = q \<and> certTotal c = t \<and> certSetRoot c = root))))"

text \<open>
  \<open>commitCertifiedBlock\<close> works on a copy of the runtime and replaces the runtime only at the very
  end. On the way \<open>NodeDataDirectory::writeRuntimeSnapshot\<close> writes the round state of the copy, a
  fresh state of the next height, to the recovery file.
\<close>

definition commitCertifiedBlock ::
    "sha256 \<Rightarrow> LoopConfig \<Rightarrow> TickInput \<Rightarrow> Block \<Rightarrow> QuorumCertificate \<Rightarrow> int \<Rightarrow> EventLoop
       \<Rightarrow> FinalizedBlockRecord option result \<times> EventLoop" where
  "commitCertifiedBlock sha cfg inp b c now s =
     (if \<not> hasSet (elHistory s) (blockIndex b) \<or> \<not> pipelineAccepts inp b then (Inr None, s)
      else case setAt (elHistory s) (blockIndex b) of
        Inl e \<Rightarrow> (Inr None, s)
      | Inr reg \<Rightarrow>
          if certificateFitsSet sha (netParams cfg) c reg \<noteq> Inr True then (Inr None, s)
          else (case finalizeBlock sha b c reg (runtimePolicy cfg) (runtimeProvider cfg) now (elChain s, elFinalized s) of
            (Inl e, _) \<Rightarrow> (Inl e, s)
          | (Inr res, (chain', freg')) \<Rightarrow>
              if finStatus res \<noteq> FINALIZED then (Inr None, s)
              else (case recordNext sha (blockIndex b) (executedRegistry inp) (elHistory s) of
                (Inr True, hist') \<Rightarrow>
                  (let next = blockIndex b + 1 in
                   case bindR (setAt hist' next) (\<lambda>reg'. selectProposer sha reg' (paramChainId (netParams cfg)) next 1) of
                     Inl e \<Rightarrow> (Inr None, s)
                   | Inr proposer \<Rightarrow>
                       let mgr' = advanceToHeight sha next 1 proposer (now + 1)
                                    (targetBlockTimeSeconds (netParams cfg)) (elRounds s);
                           (saved, log') = (if snapshotReached inp
                                            then recoverySave (diskOk inp) (mgrState mgr') (elRecovery s)
                                            else (False, elRecovery s)) in
                       if saved \<and> persistSucceeds inp
                       then (Inr (finRecord res),
                             s\<lparr>elChain := chain', elFinalized := freg', elHistory := hist', elRounds := mgr',
                               elRecovery := log'\<rparr>)
                       else (Inr None, s\<lparr>elRecovery := log'\<rparr>))
              | _ \<Rightarrow> (Inr None, s))))"

definition tryFinalize ::
    "sha256 \<Rightarrow> LoopConfig \<Rightarrow> TickInput \<Rightarrow> Block \<Rightarrow> u64 \<Rightarrow> EventLoop \<Rightarrow> FinalizedBlockRecord option result \<times> EventLoop" where
  "tryFinalize sha cfg inp b r s =
     (if hasFinalizedHeight (elFinalized s) (blockIndex b) then (Inr None, s)
      else case assembleCertificate sha (collectorPool (mgrCollector (elRounds s))) (elHistory s) (blockIndex b)
                  (blockHash b) (blockPrevious b) r (loopPolicy cfg) (loopProvider cfg)
                  (quorumThresholdNumerator (netParams cfg)) (quorumThresholdDenominator (netParams cfg)) of
        Inl e \<Rightarrow> (Inl e, s)
      | Inr (Some (Certified c)) \<Rightarrow> commitCertifiedBlock sha cfg inp b c (tickNow inp) s
      | Inr _ \<Rightarrow> (Inr None, s))"

definition finalizePhase :: "sha256 \<Rightarrow> LoopConfig \<Rightarrow> TickInput \<Rightarrow> Block \<Rightarrow> u64 \<Rightarrow> u64 \<Rightarrow> phase" where
  "finalizePhase sha cfg inp b height r s =
     (case tryFinalize sha cfg inp b r s of
        (Inl e, s') \<Rightarrow> (Raise e, s')
      | (Inr None, s') \<Rightarrow> (Go, s')
      | (Inr (Some rec), s') \<Rightarrow>
          (Go, s'\<lparr>elResult := (elResult s')\<lparr>quorumFormed := True, tickFinalized := True,
                     finalizedBlockHash := finHash rec, finalizedHeight := finIndex rec\<rparr>,
             elLastHeight := height + 1, elLockedBlock := [], elLockedRound := 0,
             elVotedPrevote := False, elVotedPrecommit := False, elProduced := False, elCandidate := None\<rparr>))"

definition candidatePhase :: "sha256 \<Rightarrow> LoopConfig \<Rightarrow> TickInput \<Rightarrow> ValidatorRegistry \<Rightarrow> PendingBlockCandidate \<Rightarrow> u64 \<Rightarrow> u64 \<Rightarrow> int \<Rightarrow> phase" where
  "candidatePhase sha cfg inp validators c height r elapsed s0 =
     (let b = candBlock c; s = rebroadcastPersistedVotesForCandidate sha cfg b r s0;
          votes = votesForBlock (collectorPool (mgrCollector (elRounds s))) height (blockHash b) r in
      case bindR (prevoteWeightFrom validators {} 0 votes) (\<lambda>w.
             bindR (totalConsensusWeight validators) (\<lambda>t. Inr (w, t))) of
        Inl e \<Rightarrow> (Raise e, s)
      | Inr (w, t) \<Rightarrow>
          if t = 0 then (Return, setError ''No weighted validators are available for consensus.'' s)
          else (case requiredVotingWeight t (quorumThresholdNumerator (netParams cfg))
                       (quorumThresholdDenominator (netParams cfg)) of
            Inl e \<Rightarrow> (Raise e, s)
          | Inr required \<Rightarrow>
              (case prevotePhase sha cfg inp validators c height r elapsed w s of
                 (Go, w', s1) \<Rightarrow>
                   thenPhase (precommitPhase sha cfg inp validators c height r elapsed w' required)
                     (thenPhase (finalizePhase sha cfg inp b height r) (advanceRoundIfTimedOut sha cfg inp)) s1
               | (f, w', s1) \<Rightarrow> (f, s1))))"

definition roundPhase :: "sha256 \<Rightarrow> LoopConfig \<Rightarrow> TickInput \<Rightarrow> phase" where
  "roundPhase sha cfg inp s0 =
     (let st = elState s0; height = rsHeight st; r = rsRound st in
      if \<not> hasSet (elHistory s0) height
      then (Return, setError (''Validator set history is missing for consensus height '' @ showU64 height @ ''.'') s0)
      else case setAt (elHistory s0) height of
        Inl e \<Rightarrow> (Raise e, s0)
      | Inr validators \<Rightarrow>
          let s = enterHeight height s0; elapsed = elapsedMs inp st in
          (case elCandidate s of
             Some c \<Rightarrow>
               if blockIndex (candBlock c) \<noteq> height \<or> candRound c \<noteq> r
               then noCandidatePhase sha cfg inp validators height r elapsed s
               else candidatePhase sha cfg inp validators c height r elapsed s
           | None \<Rightarrow> noCandidatePhase sha cfg inp validators height r elapsed s))"

definition tick :: "sha256 \<Rightarrow> LoopConfig \<Rightarrow> TickInput \<Rightarrow> phase" where
  "tick sha cfg inp s0 =
     (let s = drainVotesAndCollect sha cfg inp s0 in
      if chainBlocks (elChain s) = [] then (Return, s)
      else thenPhase (processBlockProposals sha cfg inp) (roundPhase sha cfg inp) s)"

subsection \<open>Start-up\<close>

text \<open>
  After the blocks have been replayed, the loader puts the round manager at the height after the
  tip and, when the recovery file is for that height, at the stored round.
\<close>

definition bootManager :: "sha256 \<Rightarrow> LoopConfig \<Rightarrow> Blockchain \<Rightarrow> ValidatorSetHistory \<Rightarrow> ConsensusRoundState list
    \<Rightarrow> ConsensusRoundManager \<Rightarrow> ConsensusRoundManager result" where
  "bootManager sha cfg chain hist log mgr0 =
     bindR (latestBlock chain) (\<lambda>tip.
       let next = blockIndex tip + 1; params = netParams cfg;
           startedAt = (if isGenesisBlock tip then genesisTimestamp params else blockTimestamp tip + 1) in
       bindR (setAt hist next) (\<lambda>reg.
       bindR (selectProposer sha reg (paramChainId params) next 1) (\<lambda>proposer.
         let mgr = advanceToHeight sha next 1 proposer startedAt (targetBlockTimeSeconds params) mgr0 in
         Inr (case recoveryLoad log of
                Some st \<Rightarrow>
                  if rsHeight st = next
                  then advanceToHeight sha (rsHeight st) (rsRound st) (rsProposer st) (rsStartedAt st)
                         (targetBlockTimeSeconds params) mgr
                  else mgr
              | None \<Rightarrow> mgr))))"

definition emptyManager :: ConsensusRoundManager where
  "emptyManager = \<lparr>mgrState = newRoundState 0 0 [] 0, mgrCollector = newCollector 0 0,
     mgrTimeout = \<lparr>timeoutHeight = 0, timeoutRound = 0, timeoutStartedAt = 0, timeoutSeconds = 30\<rparr>\<rparr>"

definition newLoop :: "Blockchain \<Rightarrow> BlockFinalizationRegistry \<Rightarrow> ValidatorSetHistory \<Rightarrow> ConsensusRoundManager
    \<Rightarrow> EvidencePool \<Rightarrow> ConsensusRoundState list \<Rightarrow> ValidatorVoteRecord list \<Rightarrow> EventLoop" where
  "newLoop chain freg hist mgr evidence log sent = \<lparr>elChain = chain, elFinalized = freg, elHistory = hist,
     elRounds = mgr, elEvidence = evidence, elLockedBlock = [], elLockedRound = 0, elVotedPrevote = False,
     elVotedPrecommit = False, elPrevote = None, elPrecommit = None, elRebroadcastPrevote = False,
     elRebroadcastPrecommit = False, elProduced = False, elLastHeight = 0, elCandidate = None, elBuffered = [],
     elBufferedHeight = 0, elBufferedRound = 0, elRecovery = log, elSent = sent, elResult = emptyTickResult\<rparr>"

definition startConsensus :: "sha256 \<Rightarrow> LoopConfig \<Rightarrow> (ConsensusRoundState \<Rightarrow> bool) \<Rightarrow> EventLoop \<Rightarrow> EventLoop option \<times> EventLoop" where
  "startConsensus sha cfg disk s =
     (case recoveryLoad (elRecovery s) of
        None \<Rightarrow> (None, s)
      | Some onDisk \<Rightarrow>
          let current = elState s;
              (ok, recovery, log) =
                (if rsHeight onDisk < rsHeight current
                 then (if \<not> hasFinalizedHeight (elFinalized s) (rsHeight onDisk) then (False, onDisk, elRecovery s)
                       else let (saved, log') = recoverySave disk current (elRecovery s) in (saved, current, log'))
                 else (True, onDisk, elRecovery s));
              s1 = s\<lparr>elRecovery := log\<rparr> in
          if \<not> ok then (None, s1)
          else if rsHeight recovery \<noteq> rsHeight current \<or> rsRound recovery \<noteq> rsRound current \<or>
                  rsProposer recovery \<noteq> rsProposer current \<or> rsStartedAt recovery \<noteq> rsStartedAt current \<or>
                  \<not> hasSet (elHistory s) (rsHeight recovery)
          then (None, s1)
          else (case bindR (setAt (elHistory s) (rsHeight recovery)) (\<lambda>reg.
                      selectProposer sha reg (paramChainId (netParams cfg)) (rsHeight recovery) (rsRound recovery)) of
            Inl e \<Rightarrow> (None, s1)
          | Inr expected \<Rightarrow>
              if expected = [] \<or> rsProposer recovery \<noteq> expected then (None, s1)
              else (Some (loadFromRecoveryState recovery s1), s1)))"

text \<open>A restart: what is on disk survives, the members of the loop do not.\<close>

definition restartNode :: "sha256 \<Rightarrow> LoopConfig \<Rightarrow> (ConsensusRoundState \<Rightarrow> bool) \<Rightarrow> EventLoop \<Rightarrow> EventLoop option \<times> EventLoop" where
  "restartNode sha cfg disk s =
     (case bootManager sha cfg (elChain s) (elHistory s) (elRecovery s) emptyManager of
        Inl e \<Rightarrow> (None, s)
      | Inr mgr \<Rightarrow> startConsensus sha cfg disk
          (newLoop (elChain s) (elFinalized s) (elHistory s) mgr (elEvidence s) (elRecovery s) (elSent s)))"

end
