(* ===== verification/Journal.thy ===== *)
theory Journal
  imports Rounds
begin

section \<open>The voting journal of a validator\<close>

text \<open>
  What the successive states of the recovery file of one height look like, and what follows from
  it. The journal is the interface between the event loop, which writes it, and the agreement
  argument, which only reads it. A state may extend the journal when it keeps the votes of its
  round, sets the lock exactly with a new precommit, and casts a new prevote only if the lock is
  empty, is on the same block, or may be released: \<open>may lockedRound hash\<close> is the release rule.
\<close>

definition fresh :: "ConsensusRoundState \<Rightarrow> bool" where
  "fresh e \<longleftrightarrow> rsLockedBlock e = [] \<and> rsLockedRound e = 0 \<and> rsPrevote e = None \<and> rsPrecommit e = None"

definition newPrevote :: "ConsensusRoundState \<Rightarrow> ConsensusRoundState \<Rightarrow> ValidatorVoteRecord \<Rightarrow> bool" where
  "newPrevote p e v \<longleftrightarrow> rsPrevote e = Some v \<and> (rsRound p \<noteq> rsRound e \<or> rsPrevote p = None)"

definition newPrecommit :: "ConsensusRoundState \<Rightarrow> ConsensusRoundState \<Rightarrow> ValidatorVoteRecord \<Rightarrow> bool" where
  "newPrecommit p e v \<longleftrightarrow> rsPrecommit e = Some v \<and> (rsRound p \<noteq> rsRound e \<or> rsPrecommit p = None)"

definition keepsVotes :: "ConsensusRoundState \<Rightarrow> ConsensusRoundState \<Rightarrow> bool" where
  "keepsVotes p e \<longleftrightarrow> rsRound p \<le> rsRound e \<and>
     (rsRound p = rsRound e \<longrightarrow> (rsPrevote p \<noteq> None \<longrightarrow> rsPrevote e = rsPrevote p) \<and>
                                (rsPrecommit p \<noteq> None \<longrightarrow> rsPrecommit e = rsPrecommit p))"

definition lockFollows :: "ConsensusRoundState \<Rightarrow> ConsensusRoundState \<Rightarrow> bool" where
  "lockFollows p e \<longleftrightarrow>
     (if \<exists>v. newPrecommit p e v
      then rsLockedRound e = rsRound e \<and> rsRound p = rsRound e \<and> rsPrevote p = rsPrevote e
      else rsLockedBlock e = rsLockedBlock p \<and> rsLockedRound e = rsLockedRound p)"

definition prevoteAllowed ::
    "(u64 \<Rightarrow> string \<Rightarrow> bool) \<Rightarrow> ConsensusRoundState \<Rightarrow> ConsensusRoundState \<Rightarrow> bool" where
  "prevoteAllowed may p e \<longleftrightarrow> (\<forall>v. newPrevote p e v \<longrightarrow>
     rsLockedBlock p = [] \<or> rsLockedBlock p = voteHash v \<or> may (rsLockedRound p) (voteHash v))"

inductive journal :: "(u64 \<Rightarrow> string \<Rightarrow> bool) \<Rightarrow> ConsensusRoundState list \<Rightarrow> bool"
  for may where
  journal_start: "fresh e \<Longrightarrow> rsValid e \<Longrightarrow> journal may [e]"
| journal_extend: "journal may (L @ [p]) \<Longrightarrow> rsValid e \<Longrightarrow> keepsVotes p e \<Longrightarrow> lockFollows p e \<Longrightarrow>
     prevoteAllowed may p e \<Longrightarrow> journal may (L @ [p, e])"

subsection \<open>Valid states\<close>

lemma rsValidD:
  assumes "rsValid e"
  shows "rsRound e \<noteq> 0" and "rsLockedBlock e \<noteq> [] \<longleftrightarrow> rsLockedRound e \<noteq> 0" and "rsLockedRound e \<le> rsRound e"
    and "rsPrevote e = Some v \<Longrightarrow> isPersistedRoundVote v (rsHeight e) (rsRound e) PREVOTE"
    and "rsPrecommit e = Some w \<Longrightarrow> isPersistedRoundVote w (rsHeight e) (rsRound e) PRECOMMIT \<and>
           voteHash w = rsLockedBlock e \<and> (\<exists>v. rsPrevote e = Some v \<and> voteHash v = voteHash w)"
    and "rsVotedPrevote e \<longleftrightarrow> rsPrevote e \<noteq> None" and "rsVotedPrecommit e \<longleftrightarrow> rsPrecommit e \<noteq> None"
  using assms by (auto simp: rsValid_def Let_def word_gt_0 split: if_splits option.splits)

lemma fresh_valid_iff:
  "fresh e \<Longrightarrow> rsValid e \<longleftrightarrow> rsHeight e \<noteq> 0 \<and> rsRound e \<noteq> 0 \<and> rsProposer e \<noteq> [] \<and> rsStartedAt e > 0 \<and>
     \<not> rsVotedPrevote e \<and> \<not> rsVotedPrecommit e"
  by (auto simp: rsValid_def fresh_def)

subsection \<open>What a journal guarantees\<close>

lemma journal_not_empty: "journal may L \<Longrightarrow> L \<noteq> []"
  by (induction rule: journal.induct) auto

lemma journal_valid: "journal may L \<Longrightarrow> e \<in> set L \<Longrightarrow> rsValid e"
  by (induction rule: journal.induct) auto

lemma journal_mono:
  assumes "journal may L" and "\<And>r h. may r h \<Longrightarrow> may' r h"
  shows "journal may' L"
  using assms(1)
proof (induction rule: journal.induct)
  case (journal_start e)
  then show ?case by (rule journal.journal_start)
next
  case (journal_extend L p e)
  then show ?case
    using assms(2) by (intro journal.journal_extend) (auto simp: prevoteAllowed_def)
qed

lemma journal_rounds: "journal may L \<Longrightarrow> sorted_wrt (\<lambda>p e. rsRound p \<le> rsRound e) L"
proof (induction rule: journal.induct)
  case (journal_extend L p e)
  then have "rsRound p \<le> rsRound e" and "\<forall>q\<in>set L. rsRound q \<le> rsRound p"
    by (auto simp: keepsVotes_def sorted_wrt_append)
  then show ?case using journal_extend.IH by (force simp: sorted_wrt_append)
qed simp

lemma journal_rounds_le_last: "journal may L \<Longrightarrow> e \<in> set L \<Longrightarrow> rsRound e \<le> rsRound (last L)"
  using journal_rounds [of may L] journal_not_empty [of may L]
  by (metis append_butlast_last_id in_set_conv_decomp order_refl rotate1.simps(2) set_ConsD set_rotate1 sorted_wrt_append)

text \<open>Within a round the votes stay.\<close>

lemma journal_keeps_prevote:
  "journal may L \<Longrightarrow> e \<in> set L \<Longrightarrow> rsRound e = rsRound (last L) \<Longrightarrow> rsPrevote e \<noteq> None \<Longrightarrow>
     rsPrevote (last L) = rsPrevote e"
proof (induction arbitrary: e rule: journal.induct)
  case (journal_extend L p q)
  show ?case
  proof (cases "e = q")
    case False
    then have e: "e \<in> set (L @ [p])" using journal_extend.prems by auto
    then have "rsRound e \<le> rsRound p" using journal_rounds_le_last [OF journal_extend.hyps(1)] by simp
    moreover have "rsRound p \<le> rsRound q" using journal_extend.hyps by (simp add: keepsVotes_def)
    ultimately have "rsRound e = rsRound p" "rsRound p = rsRound q" using journal_extend.prems by auto
    then show ?thesis using journal_extend.IH [OF e] journal_extend.prems journal_extend.hyps by (simp add: keepsVotes_def)
  qed simp
qed simp

lemma journal_keeps_precommit:
  "journal may L \<Longrightarrow> e \<in> set L \<Longrightarrow> rsRound e = rsRound (last L) \<Longrightarrow> rsPrecommit e \<noteq> None \<Longrightarrow>
     rsPrecommit (last L) = rsPrecommit e"
proof (induction arbitrary: e rule: journal.induct)
  case (journal_extend L p q)
  show ?case
  proof (cases "e = q")
    case False
    then have e: "e \<in> set (L @ [p])" using journal_extend.prems by auto
    then have "rsRound e \<le> rsRound p" using journal_rounds_le_last [OF journal_extend.hyps(1)] by simp
    moreover have "rsRound p \<le> rsRound q" using journal_extend.hyps by (simp add: keepsVotes_def)
    ultimately have "rsRound e = rsRound p" "rsRound p = rsRound q" using journal_extend.prems by auto
    then show ?thesis using journal_extend.IH [OF e] journal_extend.prems journal_extend.hyps by (simp add: keepsVotes_def)
  qed simp
qed simp

lemma journal_one_precommit:
  "journal may L \<Longrightarrow> e \<in> set L \<Longrightarrow> e' \<in> set L \<Longrightarrow> rsRound e = rsRound e' \<Longrightarrow>
     rsPrecommit e = Some v \<Longrightarrow> rsPrecommit e' = Some v' \<Longrightarrow> v = v'"
proof (induction arbitrary: e e' v v' rule: journal.induct)
  case (journal_extend L p q)
  have ext: "journal may (L @ [p, q])" by (rule journal.journal_extend) (fact journal_extend.hyps)+
  have last: "v1 = v2" if "e1 \<in> set (L @ [p, q])" "rsRound e1 = rsRound q" "rsPrecommit e1 = Some v1" "rsPrecommit q = Some v2"
    for e1 v1 v2
    using journal_keeps_precommit [OF ext that(1)] that by simp
  show ?case
  proof (cases "e = q \<or> e' = q")
    case True
    then consider "e = q" | "e' = q" by blast
    then show ?thesis
    proof cases
      case 1
      then show ?thesis using last [OF journal_extend.prems(2) _ journal_extend.prems(5), of v] journal_extend.prems(3,4) by simp
    next
      case 2
      then show ?thesis using last [OF journal_extend.prems(1) _ journal_extend.prems(4), of v'] journal_extend.prems(3,5) by simp
    qed
  next
    case False
    then show ?thesis using journal_extend.IH [of e e' v v'] journal_extend.prems by simp
  qed
qed simp

lemma journal_one_prevote:
  "journal may L \<Longrightarrow> e \<in> set L \<Longrightarrow> e' \<in> set L \<Longrightarrow> rsRound e = rsRound e' \<Longrightarrow>
     rsPrevote e = Some v \<Longrightarrow> rsPrevote e' = Some v' \<Longrightarrow> v = v'"
proof (induction arbitrary: e e' v v' rule: journal.induct)
  case (journal_extend L p q)
  have ext: "journal may (L @ [p, q])" by (rule journal.journal_extend) (fact journal_extend.hyps)+
  have last: "v1 = v2" if "e1 \<in> set (L @ [p, q])" "rsRound e1 = rsRound q" "rsPrevote e1 = Some v1" "rsPrevote q = Some v2"
    for e1 v1 v2
    using journal_keeps_prevote [OF ext that(1)] that by simp
  show ?case
  proof (cases "e = q \<or> e' = q")
    case True
    then consider "e = q" | "e' = q" by blast
    then show ?thesis
    proof cases
      case 1
      then show ?thesis using last [OF journal_extend.prems(2) _ journal_extend.prems(5), of v] journal_extend.prems(3,4) by simp
    next
      case 2
      then show ?thesis using last [OF journal_extend.prems(1) _ journal_extend.prems(4), of v'] journal_extend.prems(3,5) by simp
    qed
  next
    case False
    then show ?thesis using journal_extend.IH [of e e' v v'] journal_extend.prems by simp
  qed
qed simp

text \<open>The lock is always the latest precommit.\<close>

lemma journal_lock_origin:
  "journal may L \<Longrightarrow> rsLockedBlock (last L) \<noteq> [] \<Longrightarrow>
     \<exists>e\<in>set L. \<exists>w. rsPrecommit e = Some w \<and> voteHash w = rsLockedBlock (last L) \<and> rsRound e = rsLockedRound (last L)"
proof (induction rule: journal.induct)
  case (journal_extend L p e)
  show ?case
  proof (cases "\<exists>v. newPrecommit p e v")
    case True
    then obtain v where "rsPrecommit e = Some v" by (auto simp: newPrecommit_def)
    then show ?thesis
      using True rsValidD(5) [OF journal_extend.hyps(2)] journal_extend.hyps(4) by (auto simp: lockFollows_def)
  next
    case False
    then show ?thesis using journal_extend by (auto simp: lockFollows_def)
  qed
qed (simp add: fresh_def)

lemma journal_lock_covers:
  "journal may L \<Longrightarrow> e \<in> set L \<Longrightarrow> rsPrecommit e \<noteq> None \<Longrightarrow>
     rsLockedBlock (last L) \<noteq> [] \<and> rsRound e \<le> rsLockedRound (last L)"
proof (induction arbitrary: e rule: journal.induct)
  case (journal_extend L p q)
  note v = rsValidD [OF journal_extend.hyps(2)]
  show ?case
  proof (cases "\<exists>v. newPrecommit p q v")
    case True
    then have "rsLockedRound q = rsRound q" using journal_extend.hyps(4) by (simp add: lockFollows_def)
    moreover have "rsRound e \<le> rsRound q"
    proof (cases "e = q")
      case False
      then have "rsRound e \<le> rsRound p"
        using journal_rounds_le_last [OF journal_extend.hyps(1), of e] journal_extend.prems by auto
      then show ?thesis using journal_extend.hyps(3) by (auto simp: keepsVotes_def)
    qed simp
    ultimately show ?thesis using v(1,2) by auto
  next
    case False
    then have lock: "rsLockedBlock q = rsLockedBlock p" "rsLockedRound q = rsLockedRound p"
      using journal_extend.hyps(4) by (auto simp: lockFollows_def)
    show ?thesis
    proof (cases "e = q")
      case True
      then have "rsRound p = rsRound q" "rsPrecommit p \<noteq> None"
        using False journal_extend.prems by (auto simp: newPrecommit_def)
      then show ?thesis using journal_extend.IH [of p] lock True by auto
    next
      case False
      then show ?thesis using journal_extend.IH [of e] lock journal_extend.prems by auto
    qed
  qed
qed (auto simp: fresh_def)

lemma journal_lock_round:
  "journal may L \<Longrightarrow> rsLockedBlock (last L) \<noteq> [] \<Longrightarrow> rsLockedRound (last L) = rsRound (last L) \<Longrightarrow>
     rsPrecommit (last L) \<noteq> None"
proof (induction rule: journal.induct)
  case (journal_extend L p q)
  show ?case
  proof (cases "\<exists>v. newPrecommit p q v")
    case False
    then have lock: "rsLockedBlock q = rsLockedBlock p" "rsLockedRound q = rsLockedRound p"
      using journal_extend.hyps(4) by (auto simp: lockFollows_def)
    have "rsValid p" using journal_valid [OF journal_extend.hyps(1)] by simp
    then have "rsLockedRound p \<le> rsRound p" by (rule rsValidD(3))
    moreover have "rsRound p \<le> rsRound q" using journal_extend.hyps(3) by (simp add: keepsVotes_def)
    ultimately have "rsRound p = rsRound q" "rsLockedRound p = rsRound p" using journal_extend.prems lock by auto
    then show ?thesis using journal_extend lock by (simp add: keepsVotes_def)
  qed (auto simp: newPrecommit_def)
qed (simp add: fresh_def)

text \<open>Every prevote in a journal was new once, and was allowed then.\<close>

lemma journal_prevote_origin:
  "journal may L \<Longrightarrow> e \<in> set L \<Longrightarrow> rsPrevote e = Some v \<Longrightarrow>
     \<exists>P p e0 S. L = P @ [p, e0] @ S \<and> journal may (P @ [p]) \<and> prevoteAllowed may p e0 \<and> newPrevote p e0 v \<and>
       rsRound e0 = rsRound e"
proof (induction arbitrary: e rule: journal.induct)
  case (journal_extend L p q)
  have old: ?case if m: "e' \<in> set (L @ [p])" "rsPrevote e' = Some v" "rsRound e' = rsRound e" for e'
  proof -
    obtain P p' e0 S where "L @ [p] = P @ [p', e0] @ S" "journal may (P @ [p'])" "prevoteAllowed may p' e0"
      "newPrevote p' e0 v" "rsRound e0 = rsRound e"
      using journal_extend.IH [OF m(1,2)] m(3) by auto
    then show ?thesis
      by (intro exI [of _ P] exI [of _ p'] exI [of _ e0] exI [of _ "S @ [q]"]) (simp add: append_eq_append_conv2)
  qed
  show ?case
  proof (cases "e = q")
    case True
    show ?thesis
    proof (cases "newPrevote p q v")
      case new: True
      then show ?thesis using journal_extend.hyps True
        by (intro exI [of _ L] exI [of _ p] exI [of _ q] exI [of _ "[]"]) simp
    next
      case False
      then have "rsRound p = rsRound q" "rsPrevote p \<noteq> None" using True journal_extend.prems by (auto simp: newPrevote_def)
      then have "rsPrevote p = Some v" using journal_extend.hyps(3) journal_extend.prems True by (auto simp: keepsVotes_def)
      then show ?thesis using old [of p] \<open>rsRound p = rsRound q\<close> True by simp
    qed
  next
    case False
    then show ?thesis using old [of e] journal_extend.prems by auto
  qed
qed (auto simp: fresh_def)

text \<open>A prevote after a precommit of an earlier round is for the locked block or uses the release rule.\<close>

lemma prevote_after_precommit:
  assumes j: "journal may (P @ [p])" and new: "newPrevote p e0 v" and allowed: "prevoteAllowed may p e0"
    and pre: "q \<in> set (P @ [p])" "rsPrecommit q = Some w" and le: "rsRound p \<le> rsRound e0"
  shows "\<exists>q'\<in>set (P @ [p]). \<exists>w'. rsPrecommit q' = Some w' \<and> rsRound q \<le> rsRound q' \<and> rsRound q' < rsRound e0 \<and>
    (voteHash w' = voteHash v \<or> may (rsRound q') (voteHash v))"
proof -
  have cov: "rsLockedBlock p \<noteq> []" "rsRound q \<le> rsLockedRound p"
    using journal_lock_covers [OF j pre(1)] pre(2) by auto
  obtain q' w' where q': "q' \<in> set (P @ [p])" "rsPrecommit q' = Some w'" "voteHash w' = rsLockedBlock p"
    "rsRound q' = rsLockedRound p"
    using journal_lock_origin [OF j] cov(1) by auto
  have vp: "rsValid p" using journal_valid [OF j] by simp
  have "rsLockedRound p \<noteq> rsRound e0"
  proof
    assume eq: "rsLockedRound p = rsRound e0"
    then have r: "rsRound p = rsRound e0" "rsLockedRound p = rsRound p" using rsValidD(3) [OF vp] le by auto
    then have "rsPrecommit p \<noteq> None" using journal_lock_round [OF j] cov(1) by simp
    then have "rsPrevote p \<noteq> None" using rsValidD(5) [OF vp] by auto
    then show False using new r by (simp add: newPrevote_def)
  qed
  then have "rsLockedRound p < rsRound e0" using rsValidD(3) [OF vp] le by auto
  moreover have "voteHash w' = voteHash v \<or> may (rsLockedRound p) (voteHash v)"
    using allowed new cov(1) q'(3) by (auto simp: prevoteAllowed_def)
  ultimately show ?thesis using q' cov(2) by (intro bexI [of _ q'] exI [of _ w']) auto
qed

end
