(* ===== verification/LoopInvariant.thy ===== *)
theory LoopInvariant
  imports EventLoop Journal "HOL-Library.Sublist"
begin

section \<open>The invariant of the event loop\<close>

text \<open>
  The invariant of \<open>ConsensusEventLoop\<close>, preserved by every tick, every commit of a block by
  another part of the node and every restart: the recovery file holds, for every height, a
  journal in the sense of the previous section; the members of the loop agree with its last
  entry; and every vote handed to gossip is in it.
\<close>

subsection \<open>The invariant\<close>

record VoteEnv =
  envSha :: sha256
  envConfig :: LoopConfig
  envSets :: "u64 \<Rightarrow> ValidatorRegistry"
  envBlocks :: "Block set"
  envCerts :: "QuorumCertificate set"
  envLog :: "ConsensusRoundState list"
  envSent :: "ValidatorVoteRecord list"

definition releases :: "VoteEnv \<Rightarrow> u64 \<Rightarrow> u64 \<Rightarrow> string \<Rightarrow> bool" where
  "releases E h lockedRound hash \<longleftrightarrow> (\<exists>c\<in>envCerts E.
     certVerify (envSha E) (envSets E h) (loopPolicy (envConfig E)) (loopProvider (envConfig E)) c = Inr True \<and>
     lockedRound \<le> certRound c \<and> certHash c = hash)"

definition heightLog :: "u64 \<Rightarrow> ConsensusRoundState list \<Rightarrow> ConsensusRoundState list" where
  "heightLog h log = filter (\<lambda>e. rsHeight e = h) log"

definition logged :: "ConsensusRoundState list \<Rightarrow> ValidatorVoteRecord \<Rightarrow> bool" where
  "logged log v \<longleftrightarrow> (\<exists>e\<in>set log. rsPrevote e = Some v \<or> rsPrecommit e = Some v)"

definition ownVote :: "VoteEnv \<Rightarrow> ValidatorVoteRecord \<Rightarrow> bool" where
  "ownVote E v \<longleftrightarrow> (\<exists>signer. localSigner (envConfig E) = Some signer \<and> voteAddress v = signerAddress signer) \<and>
     (\<exists>b\<in>envBlocks E. blockIndex b = voteIndex v \<and> blockHash b = voteHash v)"

definition logOk :: "VoteEnv \<Rightarrow> u64 \<Rightarrow> ConsensusRoundState list \<Rightarrow> bool" where
  "logOk E h log \<longleftrightarrow> prefix (envLog E) log \<and>
     (\<forall>k. heightLog k log \<noteq> [] \<longrightarrow> journal (releases E k) (heightLog k log)) \<and>
     heightLog h log \<noteq> [] \<and>
     (\<forall>e\<in>set log. unat (rsHeight e) \<le> unat h + 1 \<and> (fresh e \<longrightarrow> rsRound e = 1) \<and> (h < rsHeight e \<longrightarrow> fresh e)) \<and>
     ((\<exists>e\<in>set (heightLog h log). \<not> fresh e) \<longrightarrow> h \<le> rsHeight (last log)) \<and>
     (\<forall>v. logged log v \<longrightarrow> ownVote E v)"

definition nextHeight :: "Blockchain \<Rightarrow> u64" where
  "nextHeight chain = blockIndex (last (chainBlocks chain)) + 1"

definition setsSorted :: "ValidatorSetHistory \<Rightarrow> bool" where
  "setsSorted hist \<longleftrightarrow> (\<forall>e\<in>set (setsByHeight hist). mapOk (snd e))"

definition sentOk :: "EventLoop \<Rightarrow> bool" where
  "sentOk s \<longleftrightarrow> (\<forall>v\<in>set (elSent s). voteDecision v \<in> {PREVOTE, PRECOMMIT} \<longrightarrow> logged (elRecovery s) v)"

text \<open>What survives a crash.\<close>

definition finVerified :: "VoteEnv \<Rightarrow> BlockFinalizationRegistry \<Rightarrow> bool" where
  "finVerified E freg \<longleftrightarrow> (\<forall>h f. map_of freg h = Some f \<longrightarrow>
     certVerify (envSha E) (envSets E h) (runtimePolicy (envConfig E)) (runtimeProvider (envConfig E)) (finCertificate f) = Inr True)"

definition diskInv :: "VoteEnv \<Rightarrow> EventLoop \<Rightarrow> bool" where
  "diskInv E s \<longleftrightarrow> finOk (envSha E) (elChain s, elFinalized s) \<and> setsSorted (elHistory s) \<and>
     nextHeight (elChain s) \<noteq> 0 \<and> logOk E (nextHeight (elChain s)) (elRecovery s) \<and> sentOk s \<and>
     set (envSent E) \<subseteq> set (elSent s) \<and> finVerified E (elFinalized s)"

text \<open>The validator set this node uses for the height in progress is the one of the run.\<close>

definition setsKnown :: "VoteEnv \<Rightarrow> EventLoop \<Rightarrow> bool" where
  "setsKnown E s \<longleftrightarrow> (\<forall>reg. setAt (elHistory s) (nextHeight (elChain s)) = Inr reg \<longrightarrow>
     reg = envSets E (nextHeight (elChain s)))"

definition roundVote :: "ValidatorVoteRecord \<Rightarrow> u64 \<Rightarrow> u64 \<Rightarrow> ValidatorVoteDecision \<Rightarrow> bool" where
  "roundVote v h r d \<longleftrightarrow> voteIndex v = h \<and> voteRound v = r \<and> voteDecision v = d"

text \<open>The last entry of the current height.\<close>

abbreviation lastEntry :: "EventLoop \<Rightarrow> ConsensusRoundState" where
  "lastEntry s \<equiv> last (heightLog (rsHeight (elState s)) (elRecovery s))"

definition inStep :: "EventLoop \<Rightarrow> ConsensusRoundState \<Rightarrow> bool" where
  "inStep s e \<longleftrightarrow>
     elLockedBlock s = rsLockedBlock e \<and> elLockedRound s = rsLockedRound e \<and>
     (rsRound e = rsRound (elState s) \<longrightarrow>
        (rsPrevote e \<noteq> None \<longrightarrow> elPrevote s = rsPrevote e \<and> elVotedPrevote s) \<and>
        (rsPrecommit e \<noteq> None \<longrightarrow> elPrecommit s = rsPrecommit e \<and> elVotedPrecommit s)) \<and>
     (\<forall>v. elPrevote s = Some v \<longrightarrow> roundVote v (rsHeight (elState s)) (rsRound (elState s)) PREVOTE \<longrightarrow>
        rsRound e = rsRound (elState s) \<and> rsPrevote e = Some v) \<and>
     (\<forall>v. elPrecommit s = Some v \<longrightarrow> roundVote v (rsHeight (elState s)) (rsRound (elState s)) PRECOMMIT \<longrightarrow>
        rsRound e = rsRound (elState s) \<and> rsPrecommit e = Some v)"

definition volatileOk :: "EventLoop \<Rightarrow> bool" where
  "volatileOk s \<longleftrightarrow>
     rsHeight (elState s) = nextHeight (elChain s) \<and> rsRound (lastEntry s) \<le> rsRound (elState s) \<and>
     0 < elLastHeight s \<and> elLastHeight s \<le> rsHeight (elState s) \<and>
     (\<forall>v. elPrevote s = Some v \<or> elPrecommit s = Some v \<longrightarrow> voteIndex v \<le> rsHeight (elState s)) \<and>
     (if elLastHeight s < rsHeight (elState s)
      then \<forall>e\<in>set (heightLog (rsHeight (elState s)) (elRecovery s)). fresh e else inStep s (lastEntry s))"

definition proposalOk :: "VoteEnv \<Rightarrow> BlockProposal \<Rightarrow> bool" where
  "proposalOk E p \<longleftrightarrow> propBlock p \<in> envBlocks E \<and> (\<forall>c. propJustification p = UnlockQC c \<longrightarrow> c \<in> envCerts E)"

definition candidatesOk :: "VoteEnv \<Rightarrow> EventLoop \<Rightarrow> bool" where
  "candidatesOk E s \<longleftrightarrow> (\<forall>p\<in>set (elBuffered s). proposalOk E p) \<and>
     (\<forall>c. elCandidate s = Some c \<longrightarrow> proposalOk E (candProposal c) \<and> candBlock c = propBlock (candProposal c))"

definition loopInv :: "VoteEnv \<Rightarrow> EventLoop \<Rightarrow> bool" where
  "loopInv E s \<longleftrightarrow> diskInv E s \<and> volatileOk s \<and> candidatesOk E s"

lemma volatileOk_cong:
  assumes "elChain s' = elChain s" "elState s' = elState s" "elLockedBlock s' = elLockedBlock s"
    "elLockedRound s' = elLockedRound s" "elVotedPrevote s' = elVotedPrevote s" "elVotedPrecommit s' = elVotedPrecommit s"
    "elPrevote s' = elPrevote s" "elPrecommit s' = elPrecommit s" "elLastHeight s' = elLastHeight s"
    "elRecovery s' = elRecovery s"
  shows "volatileOk s' \<longleftrightarrow> volatileOk s"
  using assms by (simp add: volatileOk_def inStep_def)

lemma loopInv_cong:
  assumes "elChain s' = elChain s" "elFinalized s' = elFinalized s" "elHistory s' = elHistory s"
    "elState s' = elState s" "elLockedBlock s' = elLockedBlock s" "elLockedRound s' = elLockedRound s"
    "elVotedPrevote s' = elVotedPrevote s" "elVotedPrecommit s' = elVotedPrecommit s"
    "elPrevote s' = elPrevote s" "elPrecommit s' = elPrecommit s" "elLastHeight s' = elLastHeight s"
    "elCandidate s' = elCandidate s" "elBuffered s' = elBuffered s" "elRecovery s' = elRecovery s" "elSent s' = elSent s"
  shows "loopInv E s' \<longleftrightarrow> loopInv E s"
  using assms volatileOk_cong [of s' s] by (simp add: loopInv_def diskInv_def candidatesOk_def sentOk_def)

subsection \<open>Growing the log\<close>

lemma heightLog_snoc: "heightLog k (log @ [e]) = heightLog k log @ (if rsHeight e = k then [e] else [])"
  by (simp add: heightLog_def)

lemma set_heightLog: "e \<in> set (heightLog k log) \<longleftrightarrow> e \<in> set log \<and> rsHeight e = k"
  by (auto simp: heightLog_def)

lemma logged_snoc: "logged (log @ [e]) v \<longleftrightarrow> logged log v \<or> rsPrevote e = Some v \<or> rsPrecommit e = Some v"
  by (auto simp: logged_def)

lemma journal_snoc:
  assumes "journal may L" and "rsValid e" and "keepsVotes (last L) e" and "lockFollows (last L) e"
    and "prevoteAllowed may (last L) e"
  shows "journal may (L @ [e])"
proof -
  obtain P p where L: "L = P @ [p]" using journal_not_empty [OF assms(1)] by (metis append_butlast_last_id)
  show ?thesis using journal_extend [of may P p e] assms unfolding L by simp
qed

lemma fresh_follows:
  assumes "fresh p" and "fresh e" and "rsRound p = rsRound e"
  shows "keepsVotes p e" and "lockFollows p e" and "prevoteAllowed may p e"
  using assms by (simp_all add: fresh_def keepsVotes_def lockFollows_def newPrecommit_def prevoteAllowed_def newPrevote_def)

lemma logOk_vote:
  assumes ok: "logOk E h log" and e: "rsHeight e = h" "rsValid e" "\<not> fresh e"
    and f: "keepsVotes (last (heightLog h log)) e" "lockFollows (last (heightLog h log)) e"
      "prevoteAllowed (releases E h) (last (heightLog h log)) e"
    and v: "\<And>v. rsPrevote e = Some v \<or> rsPrecommit e = Some v \<Longrightarrow> ownVote E v"
  shows "logOk E h (log @ [e])"
  unfolding logOk_def
proof (intro conjI allI impI ballI)
  fix k assume "heightLog k (log @ [e]) \<noteq> []"
  then show "journal (releases E k) (heightLog k (log @ [e]))"
    using ok e f by (cases "k = h") (auto simp: heightLog_snoc logOk_def intro: journal_snoc)
next
  show "heightLog h (log @ [e]) \<noteq> []" using e by (simp add: heightLog_snoc)
next
  show "ownVote E w" if "logged (log @ [e]) w" for w
    using that v ok by (auto simp: logged_snoc logOk_def)
qed (use ok e in \<open>auto simp: logOk_def\<close>)

lemma logOk_fresh:
  assumes ok: "logOk E h log" and k: "unat k \<le> unat h + 1" "h \<le> k"
    and e: "rsHeight e = k" "rsValid e" "fresh e" "rsRound e = 1"
    and all: "\<And>q. q \<in> set (heightLog k log) \<Longrightarrow> fresh q"
  shows "logOk E h (log @ [e])"
  unfolding logOk_def
proof (intro conjI allI impI ballI)
  fix i assume ne: "heightLog i (log @ [e]) \<noteq> []"
  show "journal (releases E i) (heightLog i (log @ [e]))"
  proof (cases "i = k \<and> heightLog k log \<noteq> []")
    case True
    then have "last (heightLog k log) \<in> set (heightLog k log)" by simp
    then have "fresh (last (heightLog k log))" "rsRound (last (heightLog k log)) = rsRound e"
      using all ok e by (auto simp: logOk_def set_heightLog)
    from fresh_follows [OF this(1) e(3) this(2)] show ?thesis
      using True ok e by (auto simp: heightLog_snoc logOk_def intro: journal_snoc)
  next
    case False
    then show ?thesis
      using ok e ne by (auto simp: heightLog_snoc logOk_def intro: journal_start)
  qed
next
  show "heightLog h (log @ [e]) \<noteq> []" using ok by (simp add: heightLog_snoc logOk_def)
next
  show "ownVote E w" if "logged (log @ [e]) w" for w
    using that ok e(3) by (auto simp: logged_snoc logOk_def fresh_def)
qed (use ok e k in \<open>auto simp: logOk_def\<close>)

lemma logOk_height:
  assumes ok: "logOk E h log" and h: "h \<noteq> U64_MAX" and ne: "heightLog (h + 1) log \<noteq> []"
  shows "logOk E (h + 1) log" and "\<And>q. q \<in> set (heightLog (h + 1) log) \<Longrightarrow> fresh q"
proof -
  have less: "h < h + 1" using h by (rule u64_less_inc)
  show fr: "fresh q" if "q \<in> set (heightLog (h + 1) log)" for q
    using that ok less by (auto simp: logOk_def set_heightLog)
  have "fresh e" if "e \<in> set log" "h + 1 < rsHeight e" for e
    using that ok less by (auto simp: logOk_def)
  then show "logOk E (h + 1) log"
    using ok ne fr unat_succ [OF h] by (auto simp: logOk_def)
qed

subsection \<open>Frame: what does not touch the vote state\<close>

lemma submitConsensusVote_frame:
  "snd (submitConsensusVote sha cfg v s) = s\<lparr>elRounds := (elRounds s)\<lparr>mgrCollector :=
     snd (submitNetworkVote sha (runtimePolicy cfg) (runtimeVoteProvider cfg) v (mgrCollector (elRounds s)))\<rparr>\<rparr>"
  by (simp add: submitConsensusVote_def mgrSubmitVote_def split_beta)

lemma loopInv_submit [simp]: "loopInv E (snd (submitConsensusVote sha cfg v s)) \<longleftrightarrow> loopInv E s"
  by (rule loopInv_cong) (simp_all add: submitConsensusVote_frame)

lemma loopInv_result [simp]: "loopInv E (s\<lparr>elResult := x\<rparr>) \<longleftrightarrow> loopInv E s"
  by (rule loopInv_cong) simp_all

lemma loopInv_evidence [simp]: "loopInv E (s\<lparr>elEvidence := x\<rparr>) \<longleftrightarrow> loopInv E s"
  by (rule loopInv_cong) simp_all

lemma loopInv_setError [simp]: "loopInv E (setError x s) \<longleftrightarrow> loopInv E s"
  by (simp add: setError_def)

lemma loopInv_flags [simp]:
  "loopInv E (s\<lparr>elRebroadcastPrevote := b\<rparr>) \<longleftrightarrow> loopInv E s" "loopInv E (s\<lparr>elRebroadcastPrecommit := b\<rparr>) \<longleftrightarrow> loopInv E s"
  by (rule loopInv_cong; simp)+

lemma loopInv_collect: "loopInv E (collectVotesFrom sha cfg vs s) \<longleftrightarrow> loopInv E s"
proof (induction vs arbitrary: s)
  case (Cons v vs)
  show ?case using Cons [of "snd (submitConsensusVote sha cfg v s)"] Cons [of s]
    by (auto simp: split_beta Cons loopInv_submit)
qed simp

lemma loopInv_drain: "loopInv E s \<Longrightarrow> loopInv E (drainVotesAndCollect sha cfg inp s)"
  by (simp add: drainVotesAndCollect_def Let_def loopInv_collect)

subsection \<open>Saving and sending votes\<close>

lemma signed_fields:
  assumes "signValidatorVote sha signer i h p r d reason at = Inr v"
  shows "voteAddress v = signerAddress signer" "voteIndex v = i" "voteHash v = h" "votePrevious v = p"
    "voteRound v = r" "voteDecision v = d"
  using assms by (auto simp: signValidatorVote_def createVote_def)

lemma prevote_fields:
  assumes "buildPrevote sha reg b r at signer = Inr v"
  shows "voteAddress v = signerAddress signer" "roundVote v (blockIndex b) r PREVOTE" "voteHash v = blockHash b"
  using assms signed_fields by (auto simp: buildPrevote_def roundVote_def split: if_splits)

lemma precommit_fields:
  assumes "buildPrecommit sha reg b r at signer = Inr v"
  shows "voteAddress v = signerAddress signer" "roundVote v (blockIndex b) r PRECOMMIT" "voteHash v = blockHash b"
  using assms signed_fields by (auto simp: buildPrecommit_def roundVote_def split: if_splits)

lemma nil_fields:
  "signNil sha signer h r at = Inr v \<Longrightarrow> voteIndex v = h \<and> voteDecision v = REJECT"
  using signed_fields by (auto simp: signNil_def)

lemma save_cases:
  assumes "recoveryPathSet cfg" and "saveRecoveryState cfg inp s = (ok, s')"
  obtains (saved) "ok" "rsValid (recoveryStateOf s)" "s' = s\<lparr>elRecovery := elRecovery s @ [recoveryStateOf s]\<rparr>"
    | (failed) "\<not> ok" "s' = s"
proof (cases "isPersistableRoundState (recoveryStateOf s) \<and> diskOk inp (recoveryStateOf s)")
  case True
  then show ?thesis using assms saved by (simp add: saveRecoveryState_def recoverySave_def isPersistableRoundState_def)
next
  case False
  then have "saveRecoveryState cfg inp s = (False, s)"
    using assms(1) by (simp add: saveRecoveryState_def recoverySave_def)
  then show ?thesis using assms(2) failed by simp
qed

lemma save_nil:
  assumes "recoveryPathSet cfg"
    and "(elPrevote s = Some v \<or> elPrecommit s = Some v) \<and> voteDecision v = REJECT"
  shows "saveRecoveryState cfg inp s = (False, s)"
proof -
  have "\<not> rsValid (recoveryStateOf s)"
    using assms(2) rsValidD(4,5) [of "recoveryStateOf s"]
    by (auto simp: recoveryStateOf_def Let_def isPersistedRoundVote_def)
  then show ?thesis using assms(1) by (simp add: saveRecoveryState_def recoverySave_def isPersistableRoundState_def)
qed

lemma broadcast_frame:
  assumes "submitAndBroadcastSignedVote sha cfg v s = (res, s')"
  obtains c sent where "s' = s\<lparr>elRounds := (elRounds s)\<lparr>mgrCollector := c\<rparr>, elSent := sent\<rparr>"
    and "set sent \<subseteq> insert v (set (elSent s))" and "set (elSent s) \<subseteq> set sent"
proof -
  have frame: "snd (submitConsensusVote sha cfg v s) = s\<lparr>elRounds := (elRounds s)\<lparr>mgrCollector :=
     snd (submitNetworkVote sha (runtimePolicy cfg) (runtimeVoteProvider cfg) v (mgrCollector (elRounds s)))\<rparr>\<rparr>"
    by (rule submitConsensusVote_frame)
  show ?thesis
  proof (cases "res = None")
    case True
    then have "s' = (snd (submitConsensusVote sha cfg v s))\<lparr>elSent := elSent s @ [v, v]\<rparr>"
      using assms frame by (auto simp: submitAndBroadcastSignedVote_def split_beta split: if_splits)
    then show ?thesis using frame by (intro that [of "elSent s @ [v, v]"]) auto
  next
    case False
    then have "s' = snd (submitConsensusVote sha cfg v s)"
      using assms by (auto simp: submitAndBroadcastSignedVote_def split_beta split: if_splits)
    then show ?thesis using frame by (intro that [of "elSent s"]) auto
  qed
qed

definition active :: "VoteEnv \<Rightarrow> EventLoop \<Rightarrow> bool" where
  "active E s \<longleftrightarrow> loopInv E s \<and> elLastHeight s = rsHeight (elState s)"

text \<open>The phases that vote leave the runtime alone, except for the collector.\<close>

definition stays :: "VoteEnv \<Rightarrow> EventLoop \<Rightarrow> EventLoop \<Rightarrow> bool" where
  "stays E s s' \<longleftrightarrow> active E s' \<and> elState s' = elState s \<and> elHistory s' = elHistory s \<and> elChain s' = elChain s \<and>
     elFinalized s' = elFinalized s \<and> elCandidate s' = elCandidate s"

lemma stays_refl: "active E s \<Longrightarrow> stays E s s"
  by (simp add: stays_def)

lemma stays_trans: "stays E s s' \<Longrightarrow> stays E s' s'' \<Longrightarrow> stays E s s''"
  by (simp add: stays_def)

lemma stays_frame [simp]:
  "stays E s (s'\<lparr>elRebroadcastPrevote := b\<rparr>) \<longleftrightarrow> stays E s s'"
  "stays E s (s'\<lparr>elRebroadcastPrecommit := b\<rparr>) \<longleftrightarrow> stays E s s'"
  "stays E s (setError x s') \<longleftrightarrow> stays E s s'"
  by (simp_all add: stays_def active_def) (simp add: setError_def)

lemma broadcast_stays:
  assumes "active E s" and "submitAndBroadcastSignedVote sha cfg v s = (res, s')"
    and "voteDecision v \<in> {PREVOTE, PRECOMMIT} \<longrightarrow> logged (elRecovery s) v"
  shows "stays E s s'"
proof (rule broadcast_frame [OF assms(2)])
  fix c sent
  assume s': "s' = s\<lparr>elRounds := (elRounds s)\<lparr>mgrCollector := c\<rparr>, elSent := sent\<rparr>"
    and sub: "set sent \<subseteq> insert v (set (elSent s))" "set (elSent s) \<subseteq> set sent"
  then have "sentOk s'" using assms(1,3) by (auto simp: active_def loopInv_def diskInv_def sentOk_def)
  moreover have "volatileOk s' \<longleftrightarrow> volatileOk s" by (rule volatileOk_cong) (simp_all add: s')
  ultimately show ?thesis using s' assms(1) sub(2) by (auto simp: stays_def active_def loopInv_def diskInv_def candidatesOk_def)
qed

lemma submit_stays: "active E s \<Longrightarrow> stays E s (snd (submitConsensusVote sha cfg v s))"
  by (simp add: stays_def active_def) (simp add: submitConsensusVote_frame)

lemma inStepD:
  assumes "inStep s e"
  shows "elLockedBlock s = rsLockedBlock e" and "elLockedRound s = rsLockedRound e"
    and "rsRound e = rsRound (elState s) \<Longrightarrow> rsPrevote e \<noteq> None \<Longrightarrow> elPrevote s = rsPrevote e \<and> elVotedPrevote s"
    and "rsRound e = rsRound (elState s) \<Longrightarrow> rsPrecommit e \<noteq> None \<Longrightarrow> elPrecommit s = rsPrecommit e \<and> elVotedPrecommit s"
    and "elPrevote s = Some v \<Longrightarrow> roundVote v (rsHeight (elState s)) (rsRound (elState s)) PREVOTE \<Longrightarrow>
           rsRound e = rsRound (elState s) \<and> rsPrevote e = Some v"
    and "elPrecommit s = Some w \<Longrightarrow> roundVote w (rsHeight (elState s)) (rsRound (elState s)) PRECOMMIT \<Longrightarrow>
           rsRound e = rsRound (elState s) \<and> rsPrecommit e = Some w"
  using assms unfolding inStep_def by blast+

lemma inStepI:
  assumes "elLockedBlock s = rsLockedBlock e" and "elLockedRound s = rsLockedRound e"
    and "rsRound e = rsRound (elState s) \<Longrightarrow> rsPrevote e \<noteq> None \<Longrightarrow> elPrevote s = rsPrevote e \<and> elVotedPrevote s"
    and "rsRound e = rsRound (elState s) \<Longrightarrow> rsPrecommit e \<noteq> None \<Longrightarrow> elPrecommit s = rsPrecommit e \<and> elVotedPrecommit s"
    and "\<And>v. elPrevote s = Some v \<Longrightarrow> roundVote v (rsHeight (elState s)) (rsRound (elState s)) PREVOTE \<Longrightarrow>
           rsRound e = rsRound (elState s) \<and> rsPrevote e = Some v"
    and "\<And>w. elPrecommit s = Some w \<Longrightarrow> roundVote w (rsHeight (elState s)) (rsRound (elState s)) PRECOMMIT \<Longrightarrow>
           rsRound e = rsRound (elState s) \<and> rsPrecommit e = Some w"
  shows "inStep s e"
  using assms unfolding inStep_def by blast

lemma activeI:
  assumes "diskInv E s" and "candidatesOk E s" and "elLastHeight s = rsHeight (elState s)"
    and "rsHeight (elState s) = nextHeight (elChain s)" and "rsRound (lastEntry s) \<le> rsRound (elState s)"
    and "inStep s (lastEntry s)"
    and "\<And>v. elPrevote s = Some v \<or> elPrecommit s = Some v \<Longrightarrow> voteIndex v \<le> rsHeight (elState s)"
  shows "active E s"
proof -
  have "0 < elLastHeight s" using assms(1,3,4) by (simp add: diskInv_def word_gt_0)
  then have "volatileOk s" using assms(3-7) unfolding volatileOk_def by simp
  then show ?thesis using assms(1,2,3) by (simp add: active_def loopInv_def)
qed

lemma activeD:
  assumes "active E s"
  shows "inStep s (lastEntry s)" "rsRound (lastEntry s) \<le> rsRound (elState s)"
    "rsHeight (elState s) = nextHeight (elChain s)" "logOk E (rsHeight (elState s)) (elRecovery s)"
    "rsHeight (lastEntry s) = rsHeight (elState s)"
proof -
  show "inStep s (lastEntry s)" "rsRound (lastEntry s) \<le> rsRound (elState s)"
    "rsHeight (elState s) = nextHeight (elChain s)"
    using assms by (auto simp: active_def loopInv_def volatileOk_def)
  then show "logOk E (rsHeight (elState s)) (elRecovery s)"
    using assms by (auto simp: active_def loopInv_def diskInv_def)
  then have "heightLog (rsHeight (elState s)) (elRecovery s) \<noteq> []" by (simp add: logOk_def)
  then have "lastEntry s \<in> set (heightLog (rsHeight (elState s)) (elRecovery s))" by simp
  then show "rsHeight (lastEntry s) = rsHeight (elState s)" by (simp add: set_heightLog)
qed

text \<open>
  Writing a vote: the members of the loop changed from \<open>s\<close> to \<open>s'\<close>, and the state built from
  \<open>s'\<close> extends the journal.
\<close>

lemma active_saved:
  assumes act: "active E s"
    and same: "elChain s' = elChain s" "elFinalized s' = elFinalized s" "elHistory s' = elHistory s"
      "elState s' = elState s" "elLastHeight s' = elLastHeight s"
      "elCandidate s' = elCandidate s" "elBuffered s' = elBuffered s" "elSent s' = elSent s"
    and log: "elRecovery s' = elRecovery s @ [e]" "e = recoveryStateOf s'" "rsValid e"
    and follows: "keepsVotes (lastEntry s) e" "lockFollows (lastEntry s) e"
      "prevoteAllowed (releases E (rsHeight (elState s))) (lastEntry s) e"
    and votes: "\<And>v. elPrevote s' = Some v \<or> elPrecommit s' = Some v \<Longrightarrow> ownVote E v"
    and some: "elPrevote s' \<noteq> None"
    and flags: "elPrevote s' \<noteq> None \<longrightarrow> elVotedPrevote s'" "elPrecommit s' \<noteq> None \<longrightarrow> elVotedPrecommit s'"
  shows "active E s'"
proof -
  let ?h = "rsHeight (elState s)"
  have e: "rsHeight e = ?h" "rsRound e = rsRound (elState s)" "rsPrevote e = elPrevote s'" "rsPrecommit e = elPrecommit s'"
    "rsLockedBlock e = elLockedBlock s'" "rsLockedRound e = elLockedRound s'"
    by (simp_all add: log(2) recoveryStateOf_def Let_def same(4))
  have "logOk E ?h (elRecovery s @ [e])"
    by (rule logOk_vote [OF activeD(4) [OF act] e(1) log(3) _ follows]) (use e some votes in \<open>auto simp: fresh_def\<close>)
  moreover have "heightLog ?h (elRecovery s @ [e]) = heightLog ?h (elRecovery s) @ [e]" using e(1) by (simp add: heightLog_snoc)
  moreover have "voteIndex v \<le> ?h" if "elPrevote s' = Some v \<or> elPrecommit s' = Some v" for v
    using that e rsValidD(4,5) [OF log(3)] by (auto simp: isPersistedRoundVote_def)
  moreover have "sentOk s'"
    using act same log by (auto simp: active_def loopInv_def diskInv_def sentOk_def logged_snoc)
  moreover have "inStep s' e" using e flags by (auto simp: inStep_def same)
  ultimately show ?thesis
    using act same log e(2) activeD(3) [OF act]
    by (auto simp: active_def loopInv_def diskInv_def volatileOk_def candidatesOk_def)
qed


subsection \<open>Entering a height and rebroadcasting\<close>

lemma nextHeight_length:
  assumes "finOk sha (chain, freg)" and "nextHeight chain \<noteq> 0"
  shows "unat (nextHeight chain) = length (chainBlocks chain)"
proof -
  note tip = finOk_tip [OF assms(1)]
  have "blockIndex (last (chainBlocks chain)) \<noteq> U64_MAX"
    using assms(2) by (auto simp: nextHeight_def U64_MAX_def)
  then show ?thesis using unat_succ tip(1,3) by (simp add: nextHeight_def)
qed

lemma finalized_iff:
  assumes "diskInv E s"
  shows "hasFinalizedHeight (elFinalized s) k \<longleftrightarrow> 0 < k \<and> k < nextHeight (elChain s)"
proof -
  have "unat (nextHeight (elChain s)) = length (chainBlocks (elChain s))"
    using assms nextHeight_length by (auto simp: diskInv_def)
  then show ?thesis
    using assms by (auto simp: diskInv_def finOk_def hasFinalizedHeight_def word_less_nat_alt unat_gt_0)
qed

lemma enterHeight_inv:
  assumes "loopInv E s"
  shows "active E (enterHeight (rsHeight (elState s)) s)" and "elState (enterHeight h s) = elState s"
    and "elHistory (enterHeight h s) = elHistory s"
proof -
  have vol: "volatileOk s" and disk: "diskInv E s" using assms by (simp_all add: loopInv_def)
  show "elState (enterHeight h s) = elState s" "elHistory (enterHeight h s) = elHistory s"
    by (simp_all add: enterHeight_def resetForHeight_def)
  show "active E (enterHeight (rsHeight (elState s)) s)"
  proof (cases "elLastHeight s < rsHeight (elState s)")
    case True
    let ?h = "rsHeight (elState s)" and ?s = "resetForHeight (rsHeight (elState s)) s"
    have "hasFinalizedHeight (elFinalized s) (elLastHeight s)"
      using finalized_iff [OF disk] vol True by (simp add: volatileOk_def)
    then have s: "enterHeight ?h s = ?s" using True vol by (simp add: enterHeight_def volatileOk_def)
    have fr: "\<forall>e\<in>set (heightLog ?h (elRecovery s)). fresh e" and h: "?h = nextHeight (elChain s)"
      using vol True by (simp_all add: volatileOk_def)
    have "heightLog ?h (elRecovery s) \<noteq> []" using disk h by (simp add: diskInv_def logOk_def)
    then have "fresh (lastEntry s)" using fr last_in_set by blast
    then have "inStep ?s (lastEntry s)" by (simp add: inStep_def fresh_def resetForHeight_def)
    then have "volatileOk ?s"
      using vol True by (simp add: volatileOk_def) (auto simp: resetForHeight_def)
    moreover have "diskInv E ?s" "candidatesOk E ?s"
      using disk assms by (simp_all add: diskInv_def sentOk_def resetForHeight_def candidatesOk_def loopInv_def)
    ultimately show ?thesis unfolding s by (simp add: active_def loopInv_def) (simp add: resetForHeight_def)
  next
    case False
    then have "elLastHeight s = rsHeight (elState s)" "elLastHeight s \<noteq> 0" using vol by (auto simp: volatileOk_def)
    then show ?thesis using assms by (simp add: enterHeight_def active_def)
  qed
qed

lemma lastEntry_mem: "active E s \<Longrightarrow> lastEntry s \<in> set (elRecovery s)"
  using activeD(4) [of E s] last_in_set [of "heightLog (rsHeight (elState s)) (elRecovery s)"]
  by (auto simp: logOk_def set_heightLog)

lemma own_prevote_logged:
  assumes "active E s" and "elPrevote s = Some v" and "roundVote v (rsHeight (elState s)) (rsRound (elState s)) PREVOTE"
  shows "logged (elRecovery s) v"
  using inStepD(5) [OF activeD(1) [OF assms(1)] assms(2,3)] lastEntry_mem [OF assms(1)] unfolding logged_def by blast

lemma own_precommit_logged:
  assumes "active E s" and "elPrecommit s = Some v" and "roundVote v (rsHeight (elState s)) (rsRound (elState s)) PRECOMMIT"
  shows "logged (elRecovery s) v"
  using inStepD(6) [OF activeD(1) [OF assms(1)] assms(2,3)] lastEntry_mem [OF assms(1)] unfolding logged_def by blast

lemma rebroadcastPrevote_stays:
  assumes act: "active E s" and b: "blockIndex b = rsHeight (elState s)" "r = rsRound (elState s)"
  shows "stays E s (rebroadcastPrevote sha cfg b r s)"
proof (cases "\<exists>v. elPrevote s = Some v \<and> \<not> elRebroadcastPrevote s \<and> persistedVoteMatchesCandidate cfg v b r PREVOTE")
  case True
  then obtain v where v: "elPrevote s = Some v" "\<not> elRebroadcastPrevote s" "persistedVoteMatchesCandidate cfg v b r PREVOTE" by blast
  obtain res s' where run: "submitAndBroadcastSignedVote sha cfg v s = (res, s')" by fastforce
  have "logged (elRecovery s) v"
    using own_prevote_logged [OF act v(1)] v(3) b by (simp add: persistedVoteMatchesCandidate_def roundVote_def)
  then have "stays E s s'" using broadcast_stays [OF act run] by blast
  then show ?thesis using v run by (cases res) (simp_all add: rebroadcastPrevote_def)
qed (use act in \<open>auto simp: rebroadcastPrevote_def stays_refl split: option.splits\<close>)

lemma rebroadcastPrecommit_stays:
  assumes act: "active E s" and b: "blockIndex b = rsHeight (elState s)" "r = rsRound (elState s)"
  shows "stays E s (rebroadcastPrecommit sha cfg b r s)"
proof (cases "\<exists>v. elPrecommit s = Some v \<and> \<not> elRebroadcastPrecommit s \<and> persistedVoteMatchesCandidate cfg v b r PRECOMMIT")
  case True
  then obtain v where v: "elPrecommit s = Some v" "\<not> elRebroadcastPrecommit s" "persistedVoteMatchesCandidate cfg v b r PRECOMMIT" by blast
  obtain res s' where run: "submitAndBroadcastSignedVote sha cfg v s = (res, s')" by fastforce
  have "logged (elRecovery s) v"
    using own_precommit_logged [OF act v(1)] v(3) b by (simp add: persistedVoteMatchesCandidate_def roundVote_def)
  then have "stays E s s'" using broadcast_stays [OF act run] by blast
  then show ?thesis using v run by (cases res) (simp_all add: rebroadcastPrecommit_def)
qed (use act in \<open>auto simp: rebroadcastPrecommit_def stays_refl split: option.splits\<close>)

lemma rebroadcast_stays:
  assumes act: "active E s" and b: "blockIndex b = rsHeight (elState s)" "r = rsRound (elState s)"
  shows "stays E s (rebroadcastPersistedVotesForCandidate sha cfg b r s)"
proof -
  have 1: "stays E s (rebroadcastPrevote sha cfg b r s)" by (rule rebroadcastPrevote_stays [OF assms])
  then have "stays E (rebroadcastPrevote sha cfg b r s) (rebroadcastPersistedVotesForCandidate sha cfg b r s)"
    unfolding rebroadcastPersistedVotesForCandidate_def
    by (intro rebroadcastPrecommit_stays) (simp_all add: stays_def b)
  with 1 show ?thesis by (rule stays_trans)
qed

subsection \<open>Voting nil\<close>

text \<open>Members of the loop that the journal does not record may change.\<close>

lemma active_change:
  assumes act: "active E s"
    and same: "elChain s' = elChain s" "elFinalized s' = elFinalized s" "elHistory s' = elHistory s"
      "elState s' = elState s" "elLastHeight s' = elLastHeight s" "elRecovery s' = elRecovery s" "elSent s' = elSent s"
    and cand: "candidatesOk E s'" and step: "inStep s' (lastEntry s)"
    and votes: "\<And>v. elPrevote s' = Some v \<or> elPrecommit s' = Some v \<Longrightarrow> voteIndex v \<le> rsHeight (elState s)"
  shows "active E s'"
proof (rule activeI)
  show "diskInv E s'" using act same by (simp add: active_def loopInv_def diskInv_def sentOk_def)
  show "elLastHeight s' = rsHeight (elState s')" using act same by (simp add: active_def)
qed (use activeD(2,3) [OF act] same cand step votes in simp_all)

lemma active_cand: "active E s \<Longrightarrow> candidatesOk E s"
  by (simp add: active_def loopInv_def)

lemma active_voteIndex:
  "active E s \<Longrightarrow> elPrevote s = Some v \<or> elPrecommit s = Some v \<Longrightarrow> voteIndex v \<le> rsHeight (elState s)"
  unfolding active_def loopInv_def volatileOk_def by blast

lemma active_nil:
  assumes act: "active E s" and v: "voteDecision v = REJECT" "voteIndex v = rsHeight (elState s)"
  shows "\<not> elVotedPrevote s \<Longrightarrow> active E (s\<lparr>elPrevote := Some v, elVotedPrevote := True\<rparr>)"
    and "\<not> elVotedPrecommit s \<Longrightarrow> active E (s\<lparr>elPrecommit := Some v, elVotedPrecommit := True\<rparr>)"
proof -
  note i = inStepD [OF activeD(1) [OF act]]
  show "active E (s\<lparr>elPrevote := Some v, elVotedPrevote := True\<rparr>)" if "\<not> elVotedPrevote s"
  proof (rule active_change [OF act])
    show "inStep (s\<lparr>elPrevote := Some v, elVotedPrevote := True\<rparr>) (lastEntry s)"
    proof (rule inStepI, goal_cases)
      case 3
      then show ?case using i(3) that by simp
    next
      case 4
      then show ?case using i(4) by simp
    next
      case (6 w)
      then show ?case using i(6) [of w] by simp
    qed (use i(1,2) v in \<open>simp_all add: roundVote_def\<close>)
  qed (use active_cand [OF act] active_voteIndex [OF act] v in \<open>auto simp: candidatesOk_def\<close>)
  show "active E (s\<lparr>elPrecommit := Some v, elVotedPrecommit := True\<rparr>)" if "\<not> elVotedPrecommit s"
  proof (rule active_change [OF act])
    show "inStep (s\<lparr>elPrecommit := Some v, elVotedPrecommit := True\<rparr>) (lastEntry s)"
    proof (rule inStepI, goal_cases)
      case 3
      then show ?case using i(3) by simp
    next
      case 4
      then show ?case using i(4) that by simp
    next
      case (5 w)
      then show ?case using i(5) [of w] by simp
    qed (use i(1,2) v in \<open>simp_all add: roundVote_def\<close>)
  qed (use active_cand [OF act] active_voteIndex [OF act] v in \<open>auto simp: candidatesOk_def\<close>)
qed

end
