(* ===== verification/LoopVoting.thy ===== *)
theory LoopVoting
  imports LoopInvariant
begin

section \<open>The voting phases keep the invariant\<close>

text \<open>
  Every phase of a tick that signs, stores or sends a vote: voting nil, prevoting for a candidate and
  precommitting. Each leaves the runtime as it was and keeps the invariant of the loop.
\<close>

subsection \<open>Nil votes\<close>

lemma submit_voted:
  "elVotedPrevote (snd (submitConsensusVote sha cfg v s)) = elVotedPrevote s"
  "elVotedPrecommit (snd (submitConsensusVote sha cfg v s)) = elVotedPrecommit s"
  by (simp_all add: submitConsensusVote_frame)

lemma broadcast_voted:
  assumes "submitAndBroadcastSignedVote sha cfg v s = (res, s')"
  shows "elVotedPrevote s' = elVotedPrevote s" "elVotedPrecommit s' = elVotedPrecommit s"
  by (rule broadcast_frame [OF assms]; simp)+

lemma nil_stays:
  assumes cfg: "recoveryPathSet cfg" and st: "stays E s s1" and v: "voteDecision v = REJECT" "voteIndex v = rsHeight (elState s)"
  shows "\<not> elVotedPrevote s1 \<Longrightarrow>
      stays E s ((snd (saveRecoveryState cfg inp (s1\<lparr>elPrevote := Some v\<rparr>)))\<lparr>elVotedPrevote := True\<rparr>)"
    and "\<not> elVotedPrecommit s1 \<Longrightarrow>
      stays E s ((snd (saveRecoveryState cfg inp (s1\<lparr>elPrecommit := Some v\<rparr>)))\<lparr>elVotedPrecommit := True\<rparr>)"
proof -
  have act: "active E s1" and h: "voteIndex v = rsHeight (elState s1)" using st v by (simp_all add: stays_def)
  show "stays E s ((snd (saveRecoveryState cfg inp (s1\<lparr>elPrevote := Some v\<rparr>)))\<lparr>elVotedPrevote := True\<rparr>)" if "\<not> elVotedPrevote s1"
    using active_nil(1) [OF act v(1) h that] st save_nil [OF cfg, of "s1\<lparr>elPrevote := Some v\<rparr>" v inp] v(1)
    by (simp add: stays_def)
  show "stays E s ((snd (saveRecoveryState cfg inp (s1\<lparr>elPrecommit := Some v\<rparr>)))\<lparr>elVotedPrecommit := True\<rparr>)" if "\<not> elVotedPrecommit s1"
    using active_nil(2) [OF act v(1) h that] st save_nil [OF cfg, of "s1\<lparr>elPrecommit := Some v\<rparr>" v inp] v(1)
    by (simp add: stays_def)
qed

lemma nilPrevote_stays:
  assumes act: "active E s" and cfg: "recoveryPathSet cfg" and h: "height = rsHeight (elState s)"
  shows "stays E s (snd (nilPrevotePhase sha cfg inp validators height r elapsed s))"
proof -
  have "stays E s ((snd (saveRecoveryState cfg inp ((snd (submitConsensusVote sha cfg v s))\<lparr>elPrevote := Some v\<rparr>)))\<lparr>elVotedPrevote := True\<rparr>)"
    if "signNil sha signer height r (tickNow inp) = Inr v" "\<not> elVotedPrevote s" for signer v
    using nil_stays(1) [OF cfg submit_stays [OF act]] nil_fields [OF that(1)] that(2) h by (simp add: submit_voted)
  then show ?thesis
    using stays_refl [OF act] by (auto simp: nilPrevotePhase_def Let_def split: option.splits sum.splits)
qed

lemma nilPrecommit_stays:
  assumes act: "active E s" and cfg: "recoveryPathSet cfg" and h: "height = rsHeight (elState s)"
  shows "stays E s (snd (nilPrecommitPhase sha cfg inp validators height r elapsed s))"
proof -
  have "stays E s ((snd (saveRecoveryState cfg inp ((snd (submitConsensusVote sha cfg v s))\<lparr>elPrecommit := Some v\<rparr>)))\<lparr>elVotedPrecommit := True\<rparr>)"
    if "signNil sha signer height r (tickNow inp) = Inr v" "\<not> elVotedPrecommit s" for signer v
    using nil_stays(2) [OF cfg submit_stays [OF act]] nil_fields [OF that(1)] that(2) h by (simp add: submit_voted)
  then show ?thesis
    using stays_refl [OF act] by (auto simp: nilPrecommitPhase_def Let_def split: option.splits sum.splits)
qed

subsection \<open>Prevoting\<close>

text \<open>What \<open>safeToVote\<close> grants is what the journal asks of a new prevote.\<close>

lemma safeToVote_allowed:
  assumes safe: "safeToVote (envSha E) (envConfig E) (envSets E h) c r s = Inr True"
    and cand: "proposalOk E (candProposal c)"
    and lock: "elLockedBlock s = rsLockedBlock p" "elLockedRound s = rsLockedRound p"
    and v: "voteHash v = blockHash (candBlock c)"
  shows "rsLockedBlock p = [] \<or> rsLockedBlock p = voteHash v \<or> releases E h (rsLockedRound p) (voteHash v)"
proof -
  consider "elLockedBlock s = [] \<or> blockHash (candBlock c) = elLockedBlock s"
    | "permitsUnlock (envSha E) (propJustification (candProposal c)) (elLockedRound s) (blockHash (candBlock c)) r
         (envSets E h) (loopPolicy (envConfig E)) (loopProvider (envConfig E)) = Inr True"
    using safe by (auto simp: safeToVote_def split: if_splits)
  then show ?thesis
  proof cases
    case 1
    then show ?thesis using lock v by auto
  next
    case 2
    then obtain q where "propJustification (candProposal c) = UnlockQC q" "elLockedRound s \<le> certRound q"
      "certHash q = blockHash (candBlock c)"
      "certVerify (envSha E) (envSets E h) (loopPolicy (envConfig E)) (loopProvider (envConfig E)) q = Inr True"
      by (auto simp: permitsUnlock_def not_less split: if_splits ProposalJustification.splits)
    then show ?thesis using cand lock v by (auto simp: releases_def proposalOk_def)
  qed
qed

lemma saved_prevote_active:
  assumes act: "active E s" and nv: "\<not> elVotedPrevote s"
    and v: "roundVote v (rsHeight (elState s)) (rsRound (elState s)) PREVOTE" "ownVote E v"
    and allowed: "rsLockedBlock (lastEntry s) = [] \<or> rsLockedBlock (lastEntry s) = voteHash v \<or>
      releases E (rsHeight (elState s)) (rsLockedRound (lastEntry s)) (voteHash v)"
    and valid: "rsValid (recoveryStateOf (s\<lparr>elPrevote := Some v\<rparr>))"
  shows "active E (s\<lparr>elPrevote := Some v, elRecovery := elRecovery s @ [recoveryStateOf (s\<lparr>elPrevote := Some v\<rparr>)],
    elVotedPrevote := True\<rparr>)" (is "active E ?s'")
proof -
  let ?e = "recoveryStateOf (s\<lparr>elPrevote := Some v\<rparr>)" and ?p = "lastEntry s"
  note i = inStepD [OF activeD(1) [OF act]]
  have e: "rsHeight ?e = rsHeight (elState s)" "rsRound ?e = rsRound (elState s)" "rsPrevote ?e = Some v"
    "rsPrecommit ?e = elPrecommit s" "rsLockedBlock ?e = elLockedBlock s" "rsLockedRound ?e = elLockedRound s"
    by (simp_all add: recoveryStateOf_def Let_def)
  have none: "rsRound ?p = rsRound ?e \<Longrightarrow> rsPrevote ?p = None" using i(3) nv e(2) by fastforce
  have old: "rsRound ?p = rsRound ?e \<and> rsPrecommit ?p = Some w" if "elPrecommit s = Some w" for w
    using i(6) [OF that] rsValidD(5) [OF valid, of w] that e by (simp add: roundVote_def isPersistedRoundVote_def)
  show ?thesis
  proof (rule active_saved [OF act])
    show "keepsVotes ?p ?e"
      using activeD(2) [OF act] none i(4) e by (auto simp: keepsVotes_def)
    show "lockFollows ?p ?e"
      using old i(1,2) e by (auto simp: lockFollows_def newPrecommit_def)
    show "prevoteAllowed (releases E (rsHeight (elState s))) ?p ?e"
      using allowed e by (auto simp: prevoteAllowed_def newPrevote_def)
    show "ownVote E w" if "elPrevote ?s' = Some w \<or> elPrecommit ?s' = Some w" for w
    proof (cases "w = v")
      case False
      then have "rsPrecommit ?p = Some w" using that old by auto
      then have "logged (elRecovery s) w" using lastEntry_mem [OF act] by (auto simp: logged_def)
      then show ?thesis using activeD(4) [OF act] by (simp add: logOk_def)
    qed (use v in simp)
    show "elPrecommit ?s' \<noteq> None \<longrightarrow> elVotedPrecommit ?s'" using old i(4) e by fastforce
  qed (use valid in \<open>simp_all add: recoveryStateOf_def\<close>)
qed


lemma active_drop:
  assumes act: "active E s"
  shows "\<not> elVotedPrevote s \<Longrightarrow> active E (s\<lparr>elPrevote := None\<rparr>)"
    and "\<not> elVotedPrecommit s \<Longrightarrow> active E (s\<lparr>elPrecommit := None\<rparr>)"
proof -
  note i = inStepD [OF activeD(1) [OF act]]
  show "active E (s\<lparr>elPrevote := None\<rparr>)" if "\<not> elVotedPrevote s"
  proof (rule active_change [OF act])
    show "inStep (s\<lparr>elPrevote := None\<rparr>) (lastEntry s)"
    proof (rule inStepI, goal_cases)
      case 3
      then show ?case using i(3) that by simp
    next
      case 4
      then show ?case using i(4) by simp
    next
      case (6 w)
      then show ?case using i(6) [of w] by simp
    qed (use i(1,2) in simp_all)
  qed (use active_cand [OF act] active_voteIndex [OF act] in \<open>auto simp: candidatesOk_def\<close>)
  show "active E (s\<lparr>elPrecommit := None\<rparr>)" if "\<not> elVotedPrecommit s"
  proof (rule active_change [OF act])
    show "inStep (s\<lparr>elPrecommit := None\<rparr>) (lastEntry s)"
    proof (rule inStepI, goal_cases)
      case 3
      then show ?case using i(3) by simp
    next
      case 4
      then show ?case using i(4) that by simp
    next
      case (5 w)
      then show ?case using i(5) [of w] by simp
    qed (use i(1,2) in simp_all)
  qed (use active_cand [OF act] active_voteIndex [OF act] in \<open>auto simp: candidatesOk_def\<close>)
qed

text \<open>What the voting phases need to know of the environment.\<close>

definition votingWith :: "VoteEnv \<Rightarrow> PendingBlockCandidate \<Rightarrow> EventLoop \<Rightarrow> bool" where
  "votingWith E c s \<longleftrightarrow> recoveryPathSet (envConfig E) \<and> elCandidate s = Some c \<and>
     blockIndex (candBlock c) = rsHeight (elState s)"

lemma candidate_facts:
  assumes "active E s" and "votingWith E c s"
  shows "proposalOk E (candProposal c)" and "candBlock c \<in> envBlocks E"
  using assms by (auto simp: active_def loopInv_def candidatesOk_def votingWith_def proposalOk_def)

lemma ownVoteI:
  assumes "active E s" and "votingWith E c s" and "localSigner (envConfig E) = Some signer"
    and "voteAddress v = signerAddress signer" and "roundVote v (blockIndex (candBlock c)) r d"
    and "voteHash v = blockHash (candBlock c)"
  shows "ownVote E v"
  unfolding ownVote_def using assms(3-6) candidate_facts(2) [OF assms(1,2)]
  by (auto simp: roundVote_def)

lemma cast_prevote_stays:
  assumes act: "active E s" and vw: "votingWith E c s" and nv: "\<not> elVotedPrevote s"
    and signer: "localSigner (envConfig E) = Some signer"
    and safe: "safeToVote (envSha E) (envConfig E) (envSets E (rsHeight (elState s))) c r s = Inr True"
    and build: "buildPrevote (envSha E) reg (candBlock c) (rsRound (elState s)) at signer = Inr v"
    and save: "saveRecoveryState (envConfig E) inp (s\<lparr>elPrevote := Some v\<rparr>) = (True, s1)"
    and send: "submitAndBroadcastSignedVote (envSha E) (envConfig E) v (s1\<lparr>elVotedPrevote := True\<rparr>) = (res, s2)"
  shows "stays E s s2"
proof -
  have path: "recoveryPathSet (envConfig E)" and idx: "blockIndex (candBlock c) = rsHeight (elState s)"
    using vw by (simp_all add: votingWith_def)
  note f = prevote_fields [OF build]
  note i = inStepD [OF activeD(1) [OF act]]
  let ?s = "s\<lparr>elPrevote := Some v, elRecovery := elRecovery s @ [recoveryStateOf (s\<lparr>elPrevote := Some v\<rparr>)], elVotedPrevote := True\<rparr>"
  have valid: "rsValid (recoveryStateOf (s\<lparr>elPrevote := Some v\<rparr>))" and s1: "s1\<lparr>elVotedPrevote := True\<rparr> = ?s"
    using save_cases [OF path save] by auto
  have "active E ?s"
    by (rule saved_prevote_active [OF act nv _ _ _ valid])
      (use f(2) idx ownVoteI [OF act vw signer f] safeToVote_allowed [OF safe candidate_facts(1) [OF act vw] i(1,2) f(3)] in auto)
  then have act1: "active E ?s" and st: "stays E s ?s" by (simp_all add: stays_def)
  have "logged (elRecovery ?s) v" by (simp add: logged_snoc recoveryStateOf_def Let_def)
  then have "stays E ?s s2" using broadcast_stays [OF act1 send [unfolded s1]] by blast
  with st show ?thesis by (rule stays_trans)
qed

lemma prevotePhase_stays:
  assumes act: "active E s" and vw: "votingWith E c s"
    and h: "height = rsHeight (elState s)" "r = rsRound (elState s)" "validators = envSets E height"
  shows "stays E s (snd (snd (prevotePhase (envSha E) (envConfig E) inp validators c height r elapsed w s)))"
proof (cases "localSigner (envConfig E)")
  case None
  then show ?thesis using stays_refl [OF act] by (simp add: prevotePhase_def)
next
  case (Some signer)
  let ?cfg = "envConfig E" and ?sha = "envSha E"
  have path: "recoveryPathSet ?cfg" using vw by (simp add: votingWith_def)
  show ?thesis
  proof (cases "\<not> elVotedPrevote s \<and> isEligibleForConsensus validators (signerAddress signer) \<and>
      safeToVote ?sha ?cfg validators c r s = Inr True")
    case True
    show ?thesis
    proof (cases "buildPrevote ?sha validators (candBlock c) r (tickNow inp) signer")
      case (Inl e)
      then show ?thesis using True Some stays_refl [OF act] by (simp add: prevotePhase_def)
    next
      case (Inr v)
      obtain ok s1 where save: "saveRecoveryState ?cfg inp (s\<lparr>elPrevote := Some v\<rparr>) = (ok, s1)" by fastforce
      show ?thesis
      proof (cases ok)
        case ok: True
        obtain res s2 where send: "submitAndBroadcastSignedVote ?sha ?cfg v (s1\<lparr>elVotedPrevote := True\<rparr>) = (res, s2)" by fastforce
        have "stays E s s2"
          by (rule cast_prevote_stays [OF act vw _ Some _ Inr [unfolded h(2)] save [unfolded ok [THEN eqTrueI]] send])
            (use True h in auto)
        then show ?thesis
          using True Some Inr save ok send by (cases res) (simp_all add: prevotePhase_def Let_def)
      next
        case False
        then have "s1 = s\<lparr>elPrevote := Some v\<rparr>" using save_cases [OF path save] by blast
        then have "stays E s (s1\<lparr>elPrevote := None\<rparr>)" using active_drop(1) [OF act] True by (simp add: stays_def)
        then show ?thesis using True Some Inr save False by (simp add: prevotePhase_def)
      qed
    qed
  next
    case False
    have nil: "stays E s ((snd (saveRecoveryState ?cfg inp (s1\<lparr>elPrevote := Some v\<rparr>)))\<lparr>elVotedPrevote := True\<rparr>)"
      if "signNil ?sha signer height r (tickNow inp) = Inr v" "submitAndBroadcastSignedVote ?sha ?cfg v s = (res, s1)" "\<not> elVotedPrevote s"
      for v res s1
      using nil_stays(1) [OF path broadcast_stays [OF act that(2)]] nil_fields [OF that(1)] that(3) h(1) broadcast_voted [OF that(2)] by simp
    have rej: "stays E s s1"
      if "signNil ?sha signer height r (tickNow inp) = Inr v" "submitAndBroadcastSignedVote ?sha ?cfg v s = (res, s1)" for v res s1
      using broadcast_stays [OF act that(2)] nil_fields [OF that(1)] by simp
    show ?thesis
      using False Some stays_refl [OF act] nil rej
      by (auto simp: prevotePhase_def split: sum.splits bool.splits prod.splits option.splits)
  qed
qed

subsection \<open>Precommitting\<close>

definition lockOn :: "string \<Rightarrow> u64 \<Rightarrow> EventLoop \<Rightarrow> EventLoop" where
  "lockOn hash r s = s\<lparr>elLockedBlock := hash, elLockedRound := r\<rparr>"

lemma saved_precommit_active:
  assumes act: "active E s" and nv: "\<not> elVotedPrecommit s"
    and v: "roundVote v (rsHeight (elState s)) (rsRound (elState s)) PRECOMMIT" "ownVote E v"
    and valid: "rsValid (recoveryStateOf ((lockOn (voteHash v) (rsRound (elState s)) s)\<lparr>elPrecommit := Some v\<rparr>))"
  shows "active E ((lockOn (voteHash v) (rsRound (elState s)) s)\<lparr>elPrecommit := Some v, elRecovery := elRecovery s @
    [recoveryStateOf ((lockOn (voteHash v) (rsRound (elState s)) s)\<lparr>elPrecommit := Some v\<rparr>)], elVotedPrecommit := True\<rparr>)"
    (is "active E ?s'")
proof -
  let ?e = "recoveryStateOf ((lockOn (voteHash v) (rsRound (elState s)) s)\<lparr>elPrecommit := Some v\<rparr>)" and ?p = "lastEntry s"
  note i = inStepD [OF activeD(1) [OF act]]
  have e: "rsHeight ?e = rsHeight (elState s)" "rsRound ?e = rsRound (elState s)" "rsPrevote ?e = elPrevote s"
    "rsPrecommit ?e = Some v" "rsLockedBlock ?e = voteHash v" "rsLockedRound ?e = rsRound (elState s)"
    by (simp_all add: recoveryStateOf_def Let_def lockOn_def)
  obtain w where w: "elPrevote s = Some w" "isPersistedRoundVote w (rsHeight ?e) (rsRound ?e) PREVOTE"
    using rsValidD(4,5) [OF valid] e(3,4) by metis
  then have old: "rsRound ?p = rsRound ?e" "rsPrevote ?p = Some w"
    using i(5) [OF w(1)] e by (simp_all add: roundVote_def isPersistedRoundVote_def)
  have none: "rsPrecommit ?p = None" using i(4) nv e(2) old(1) by fastforce
  show ?thesis
  proof (rule active_saved [OF act])
    show "keepsVotes ?p ?e" using old none e w(1) by (simp add: keepsVotes_def)
    show "lockFollows ?p ?e" using old none e w(1) by (simp add: lockFollows_def newPrecommit_def)
    show "prevoteAllowed (releases E (rsHeight (elState s))) ?p ?e"
      using old by (simp add: prevoteAllowed_def newPrevote_def)
    show "ownVote E x" if "elPrevote ?s' = Some x \<or> elPrecommit ?s' = Some x" for x
    proof (cases "x = v")
      case False
      then have "x = w" using that w(1) by (auto simp: lockOn_def)
      then have "logged (elRecovery s) x" using lastEntry_mem [OF act] old(2) by (auto simp: logged_def)
      then show ?thesis using activeD(4) [OF act] by (simp add: logOk_def)
    qed (use v in simp)
    show "elPrevote ?s' \<noteq> None \<longrightarrow> elVotedPrevote ?s'" using old i(3) e by (simp add: lockOn_def)
  qed (use valid w in \<open>simp_all add: recoveryStateOf_def lockOn_def\<close>)
qed

lemma cast_precommit_stays:
  assumes act: "active E s" and vw: "votingWith E c s" and nv: "\<not> elVotedPrecommit s"
    and signer: "localSigner (envConfig E) = Some signer"
    and build: "buildPrecommit (envSha E) reg (candBlock c) (rsRound (elState s)) at signer = Inr v"
    and save: "saveRecoveryState (envConfig E) inp
      ((lockOn (blockHash (candBlock c)) (rsRound (elState s)) s)\<lparr>elPrecommit := Some v\<rparr>) = (True, s1)"
    and send: "submitAndBroadcastSignedVote (envSha E) (envConfig E) v (s1\<lparr>elVotedPrecommit := True\<rparr>) = (res, s2)"
  shows "stays E s s2"
proof -
  have path: "recoveryPathSet (envConfig E)" and idx: "blockIndex (candBlock c) = rsHeight (elState s)"
    using vw by (simp_all add: votingWith_def)
  note f = precommit_fields [OF build]
  let ?l = "(lockOn (voteHash v) (rsRound (elState s)) s)\<lparr>elPrecommit := Some v\<rparr>"
  let ?s = "?l\<lparr>elRecovery := elRecovery s @ [recoveryStateOf ?l], elVotedPrecommit := True\<rparr>"
  have valid: "rsValid (recoveryStateOf ?l)" and s1: "s1\<lparr>elVotedPrecommit := True\<rparr> = ?s"
    by (rule save_cases [OF path save]; simp add: f(3) lockOn_def)+
  have act1: "active E ?s"
    using saved_precommit_active [OF act nv _ _ valid] f(2) idx ownVoteI [OF act vw signer f] by simp
  then have st: "stays E s ?s" by (simp add: stays_def lockOn_def)
  have "logged (elRecovery ?s) v" by (simp add: logged_snoc recoveryStateOf_def Let_def)
  then have "stays E ?s s2" using broadcast_stays [OF act1 send [unfolded s1]] by blast
  with st show ?thesis by (rule stays_trans)
qed

lemma precommitPhase_stays:
  assumes act: "active E s" and vw: "votingWith E c s"
    and h: "height = rsHeight (elState s)" "r = rsRound (elState s)"
  shows "stays E s (snd (precommitPhase (envSha E) (envConfig E) inp validators c height r elapsed w required s))"
proof (cases "localSigner (envConfig E)")
  case None
  then show ?thesis using stays_refl [OF act] by (simp add: precommitPhase_def)
next
  case (Some signer)
  let ?cfg = "envConfig E" and ?sha = "envSha E"
  let ?l = "lockOn (blockHash (candBlock c)) r s"
  have path: "recoveryPathSet ?cfg" using vw by (simp add: votingWith_def)
  show ?thesis
  proof (cases "elVotedPrevote s \<and> \<not> elVotedPrecommit s \<and> isEligibleForConsensus validators (signerAddress signer) \<and>
      \<not> w < required")
    case True
    show ?thesis
    proof (cases "buildPrecommit ?sha validators (candBlock c) r (tickNow inp) signer")
      case (Inl e)
      then show ?thesis using True Some stays_refl [OF act] by (simp add: precommitPhase_def)
    next
      case (Inr v)
      obtain ok s1 where save: "saveRecoveryState ?cfg inp (?l\<lparr>elPrecommit := Some v\<rparr>) = (ok, s1)" by fastforce
      show ?thesis
      proof (cases ok)
        case ok: True
        obtain res s2 where send: "submitAndBroadcastSignedVote ?sha ?cfg v (s1\<lparr>elVotedPrecommit := True\<rparr>) = (res, s2)" by fastforce
        have "stays E s s2"
          by (rule cast_precommit_stays [OF act vw _ Some Inr [unfolded h(2)] save [unfolded h(2) ok [THEN eqTrueI]] send])
            (use True in simp)
        then show ?thesis
          using True Some Inr save ok send by (cases res) (simp_all add: precommitPhase_def Let_def lockOn_def)
      next
        case False
        then have "s1 = ?l\<lparr>elPrecommit := Some v\<rparr>" using save_cases [OF path save] by blast
        then have "stays E s (s1\<lparr>elLockedBlock := elLockedBlock s, elLockedRound := elLockedRound s, elPrecommit := None\<rparr>)"
          using active_drop(2) [OF act] True by (simp add: stays_def lockOn_def)
        then show ?thesis using True Some Inr save False by (simp add: precommitPhase_def Let_def lockOn_def)
      qed
    qed
  next
    case False
    have nil: "stays E s ((snd (saveRecoveryState ?cfg inp (s1\<lparr>elPrecommit := Some v\<rparr>)))\<lparr>elVotedPrecommit := True\<rparr>)"
      if "signNil ?sha signer height r (tickNow inp) = Inr v" "submitAndBroadcastSignedVote ?sha ?cfg v s = (res, s1)" "\<not> elVotedPrecommit s"
      for v res s1
      using nil_stays(2) [OF path broadcast_stays [OF act that(2)]] nil_fields [OF that(1)] that(3) h(1) broadcast_voted [OF that(2)] by simp
    have rej: "stays E s s1"
      if "signNil ?sha signer height r (tickNow inp) = Inr v" "submitAndBroadcastSignedVote ?sha ?cfg v s = (res, s1)" for v res s1
      using broadcast_stays [OF act that(2)] nil_fields [OF that(1)] by simp
    show ?thesis
      using False Some stays_refl [OF act] nil rej
      by (auto simp: precommitPhase_def Let_def split: sum.splits bool.splits prod.splits option.splits)
  qed
qed

end
