(* ===== verification/LoopSafety.thy ===== *)
theory LoopSafety
  imports LoopVoting
begin

section \<open>The event loop keeps its journal\<close>

text \<open>
  The rest of a tick (proposals, leaving a round, committing a block) and the start-up: the
  invariant of the loop holds after every tick, after every commit of a certified block, and after
  every restart.
\<close>

subsection \<open>Leaving a round\<close>

lemma timeout_cases:
  assumes "advanceConsensusRoundIfTimedOut sha cfg now s = (res, s')"
  obtains (stay) "s' = s" "res \<noteq> Inr True"
    | (move) proposer mgr where "res = Inr True" "s' = s\<lparr>elRounds := mgr\<rparr>"
        "mgrState mgr = newRoundState (rsHeight (elState s)) (rsRound (elState s) + 1) proposer now"
  using assms unfolding advanceConsensusRoundIfTimedOut_def Let_def
  by (auto simp: advanceRound_def advanceToHeight_def Let_def split: if_splits sum.splits)

lemma newRoundState_fields [simp]:
  "rsHeight (newRoundState h r p t) = h" "rsRound (newRoundState h r p t) = r"
  "rsProposer (newRoundState h r p t) = p" "rsStartedAt (newRoundState h r p t) = t"
  "fresh (newRoundState h r p t)"
  by (simp_all add: newRoundState_def fresh_def)

lemma advanceRoundIfTimedOut_active:
  assumes act: "active E s" and r: "rsRound (elState s) \<noteq> U64_MAX"
  shows "active E (snd (advanceRoundIfTimedOut sha cfg inp s))"
proof -
  obtain res s' where run: "advanceConsensusRoundIfTimedOut sha cfg (tickNow inp) s = (res, s')" by fastforce
  then show ?thesis
  proof (cases rule: timeout_cases)
    case stay
    then show ?thesis using act run by (auto simp: advanceRoundIfTimedOut_def split: sum.splits bool.splits)
  next
    case (move proposer mgr)
    let ?s = "s'\<lparr>elResult := (elResult s')\<lparr>roundAdvanced := True\<rparr>,
             elVotedPrevote := False, elVotedPrecommit := False, elPrevote := None, elPrecommit := None,
             elRebroadcastPrevote := False, elRebroadcastPrecommit := False, elProduced := False,
             elCandidate := None\<rparr>"
    have later: "rsRound (lastEntry s) < rsRound (elState s) + 1"
      using activeD(2) [OF act] u64_less_inc [OF r] by simp
    have "active E ?s"
    proof (rule activeI)
      show "diskInv E ?s" "candidatesOk E ?s" "elLastHeight ?s = rsHeight (elState ?s)"
        using act move by (simp_all add: active_def loopInv_def diskInv_def sentOk_def candidatesOk_def)
      show "inStep ?s (lastEntry ?s)"
        using inStepD(1,2) [OF activeD(1) [OF act]] later move by (auto simp: inStep_def)
    qed (use activeD(3) [OF act] later move in simp_all)
    then show ?thesis using run move by (simp add: advanceRoundIfTimedOut_def)
  qed
qed

lemma thenPhase_snd: "snd (thenPhase p q s) = (if fst (p s) = Go then snd (q (snd (p s))) else snd (p s))"
  by (cases "p s"; cases "fst (p s)") (auto simp: thenPhase_def)

lemma thenPhase_rule:
  assumes "P (snd (p s))" and "P (snd (p s)) \<Longrightarrow> Q (snd (q (snd (p s))))" and "\<And>x. P x \<Longrightarrow> Q x"
  shows "Q (snd (thenPhase p q s))"
  using assms by (simp add: thenPhase_snd)

lemma noCandidatePhase_active:
  assumes act: "active E s" and cfg: "recoveryPathSet cfg" and h: "height = rsHeight (elState s)"
    and r: "rsRound (elState s) \<noteq> U64_MAX"
  shows "active E (snd (noCandidatePhase sha cfg inp validators height r' elapsed s))"
proof -
  let ?s1 = "snd (nilPrevotePhase sha cfg inp validators height r' elapsed s)"
  let ?s2 = "snd (nilPrecommitPhase sha cfg inp validators height r' elapsed ?s1)"
  have 1: "stays E s ?s1" by (rule nilPrevote_stays [OF act cfg h])
  then have "stays E ?s1 ?s2" by (intro nilPrecommit_stays) (simp_all add: stays_def cfg h)
  with 1 have "stays E s ?s2" by (rule stays_trans)
  then have "active E (snd (advanceRoundIfTimedOut sha cfg inp ?s2))"
    using r by (intro advanceRoundIfTimedOut_active) (simp_all add: stays_def)
  then show ?thesis using 1 \<open>stays E ?s1 ?s2\<close> by (simp add: noCandidatePhase_def thenPhase_snd stays_def)
qed

subsection \<open>Proposals\<close>

lemma loopInv_cand:
  assumes "loopInv E s" and "candidatesOk E s'"
    and "elChain s' = elChain s" "elFinalized s' = elFinalized s" "elHistory s' = elHistory s"
      "elState s' = elState s" "elLockedBlock s' = elLockedBlock s" "elLockedRound s' = elLockedRound s"
      "elVotedPrevote s' = elVotedPrevote s" "elVotedPrecommit s' = elVotedPrecommit s"
      "elPrevote s' = elPrevote s" "elPrecommit s' = elPrecommit s" "elLastHeight s' = elLastHeight s"
      "elRecovery s' = elRecovery s" "elSent s' = elSent s"
  shows "loopInv E s'"
  using assms volatileOk_cong [of s' s] by (simp add: loopInv_def diskInv_def sentOk_def)

definition keepsRuntime :: "EventLoop \<Rightarrow> EventLoop \<Rightarrow> bool" where
  "keepsRuntime s s' \<longleftrightarrow> elState s' = elState s \<and> elHistory s' = elHistory s \<and> elChain s' = elChain s \<and>
     elRecovery s' = elRecovery s \<and> elSent s' = elSent s \<and> elFinalized s' = elFinalized s"

definition absorbs :: "VoteEnv \<Rightarrow> EventLoop \<Rightarrow> EventLoop \<Rightarrow> bool" where
  "absorbs E s s' \<longleftrightarrow> loopInv E s' \<and> keepsRuntime s s'"

lemma absorbs_refl: "loopInv E s \<Longrightarrow> absorbs E s s"
  by (simp add: absorbs_def keepsRuntime_def)

lemma absorbs_trans: "absorbs E s s' \<Longrightarrow> absorbs E s' s'' \<Longrightarrow> absorbs E s s''"
  by (simp add: absorbs_def keepsRuntime_def)

lemma absorbs_drop: "loopInv E s \<Longrightarrow> absorbs E s (dropBuffer s)"
  using loopInv_cand [of E s "dropBuffer s"]
  by (auto simp: absorbs_def keepsRuntime_def dropBuffer_def candidatesOk_def loopInv_def)

lemma absorbs_buffer:
  assumes "loopInv E s" and "proposalOk E p"
  shows "absorbs E s (bufferProposal p s)"
proof -
  have "loopInv E (bufferProposal p s)"
    by (rule loopInv_cand [OF assms(1)])
      (use assms in \<open>auto simp: bufferProposal_def candidatesOk_def loopInv_def\<close>)
  then show ?thesis by (simp add: absorbs_def keepsRuntime_def) (simp add: bufferProposal_def)
qed

lemma absorbs_candidate:
  assumes "loopInv E s" and "proposalOk E p"
  shows "absorbs E s (s\<lparr>elCandidate := Some \<lparr>candBlock = propBlock p, candRound = r, candProposal = p\<rparr>\<rparr>)"
    (is "absorbs E s ?s")
proof -
  have "loopInv E ?s"
    by (rule loopInv_cand [OF assms(1)]) (use assms in \<open>simp_all add: candidatesOk_def loopInv_def\<close>)
  then show ?thesis by (simp add: absorbs_def keepsRuntime_def)
qed

lemma absorbs_split:
  "absorbs E s a \<Longrightarrow> absorbs E s b \<Longrightarrow> absorbs E s (if c then a else b)"
  "absorbs E s a \<Longrightarrow> (\<And>x. absorbs E s (f x)) \<Longrightarrow> absorbs E s (case m of None \<Rightarrow> a | Some x \<Rightarrow> f x)"
  "(\<And>e. absorbs E s (g e)) \<Longrightarrow> (\<And>x. absorbs E s (k x)) \<Longrightarrow> absorbs E s (case z of Inl e \<Rightarrow> g e | Inr x \<Rightarrow> k x)"
  by (simp_all split: option.split sum.split)

lemma processProposal_absorbs:
  assumes "loopInv E s" and "proposalOk E p"
  shows "absorbs E s (processProposal sha cfg inp validators p s)"
proof -
  have ev: "absorbs E s (s\<lparr>elEvidence := e\<rparr>)" for e
    using assms(1) by (simp add: absorbs_def keepsRuntime_def)
  show ?thesis
    unfolding processProposal_def Let_def
    by (intro absorbs_split absorbs_refl ev absorbs_buffer absorbs_candidate assms)
qed

lemma proposals_absorb:
  "loopInv E s \<Longrightarrow> (\<And>p. p \<in> set ps \<Longrightarrow> proposalOk E p) \<Longrightarrow>
     absorbs E s (fold (processProposal sha cfg inp validators) ps s)"
proof (induction ps arbitrary: s)
  case (Cons p ps)
  have 1: "absorbs E s (processProposal sha cfg inp validators p s)"
    using Cons.prems by (intro processProposal_absorbs) simp_all
  then have "absorbs E (processProposal sha cfg inp validators p s)
      (fold (processProposal sha cfg inp validators) ps (processProposal sha cfg inp validators p s))"
    using Cons by (simp add: absorbs_def)
  with 1 show ?case by (simp add: absorbs_trans)
qed (simp add: absorbs_refl)

lemma processBlockProposals_absorbs:
  assumes inv: "loopInv E s" and ps: "\<And>p. p \<in> set (tickProposals inp) \<Longrightarrow> proposalOk E p"
  shows "absorbs E s (snd (processBlockProposals sha cfg inp s))"
proof -
  have buf: "proposalOk E p" if "p \<in> set (elBuffered s)" for p
    using that inv by (simp add: loopInv_def candidatesOk_def)
  have all: "absorbs E s (fold (processProposal sha cfg inp v) ms s')"
    if "absorbs E s s'" "set ms \<subseteq> set (elBuffered s) \<union> set (tickProposals inp)" for v ms s'
  proof (rule absorbs_trans [OF that(1) proposals_absorb])
    show "loopInv E s'" using that(1) by (simp add: absorbs_def)
  qed (use that(2) ps buf in blast)
  show ?thesis
    unfolding processBlockProposals_def Let_def
    by (auto simp: absorbs_refl absorbs_drop inv split: sum.split intro!: all)
qed

subsection \<open>Committing a block\<close>

lemma sorted_put:
  assumes "setsSorted hist" and "mapOk reg"
  shows "\<forall>e\<in>set (snd (mapEmplace k reg (setsByHeight hist))). mapOk (snd e)"
proof
  fix e assume "e \<in> set (snd (mapEmplace k reg (setsByHeight hist)))"
  then have "e = (k, reg) \<or> e \<in> set (setsByHeight hist)"
    using mapPut_mem [of e k reg "setsByHeight hist"] by (auto simp: mapEmplace_def split: option.splits)
  then show "mapOk (snd e)" using assms by (auto simp: setsSorted_def)
qed

lemma recordSet_sorted:
  assumes "setsSorted hist" and "mapOk reg" and "recordSet sha h ref reg hist = (res, hist')"
  shows "setsSorted hist'"
proof -
  have "hist' = hist \<or> setsByHeight hist' = setsByHeight hist \<or>
      setsByHeight hist' = snd (mapEmplace h reg (setsByHeight hist))"
    using assms(3) by (auto simp: recordSet_def split: if_splits sum.splits bool.splits)
  then show ?thesis using assms(1) sorted_put [OF assms(1,2), of h] by (auto simp: setsSorted_def)
qed

lemma restoreAll_sorted: "restoreAll sha es reg = Inr reg' \<Longrightarrow> mapOk reg \<Longrightarrow> mapOk reg'"
  by (induction es arbitrary: reg) (auto simp: restoreEntry_def Let_def split: if_splits prod.splits bool.splits)

lemma projectSet_sorted: "projectSet sha previous target epoch = Inr reg \<Longrightarrow> mapOk reg"
  by (auto simp: projectSet_def Let_def split: if_splits sum.splits intro: restoreAll_sorted)

lemma setEntry_mem: "setEntryAt hist h = Inr e \<Longrightarrow> e \<in> set (setsByHeight hist)"
  by (auto simp: setEntryAt_def dest: floorEntry_mem split: if_splits option.splits)

lemma setAt_sorted: "setsSorted hist \<Longrightarrow> setAt hist h = Inr reg \<Longrightarrow> mapOk reg"
  by (fastforce simp: setAt_def setsSorted_def dest: setEntry_mem)

lemma recordNext_sorted:
  assumes "setsSorted hist" and run: "recordNext sha h target hist = (res, hist')"
  shows "setsSorted hist'"
proof (cases "\<exists>ref reg. recordSet sha (h + 1) ref reg hist = (res, hist') \<and> mapOk reg")
  case True
  then show ?thesis using recordSet_sorted [OF assms(1)] by blast
next
  case False
  have "mapOk reg" if "setEntryAt hist h = Inr (key, reg)" for key reg
    using setEntry_mem [OF that] assms(1) by (auto simp: setsSorted_def)
  then have "hist' = hist"
    using False run by (auto simp: recordNext_def split: if_splits sum.splits) (blast dest: projectSet_sorted)+
  then show ?thesis using assms(1) by simp
qed

lemma finalize_grows:
  assumes ok: "finOk sha (chain, freg)" and reg: "mapOk reg"
    and run: "finalizeBlock sha b c reg policy provider at (chain, freg) = (Inr res, (chain', freg'))"
    and fin: "finStatus res = FINALIZED"
  shows "chain' = pushBlock b chain" "unat (blockIndex b) = length (chainBlocks chain)" "finOk sha (chain', freg')"
    "finRecord res = Some (finRecordOf b c at)" "freg' = mapPut (blockIndex b) (finRecordOf b c at) freg"
    "certVerify sha reg policy provider c = Inr True"
proof -
  let ?call = "Finalize b c reg policy provider at"
  have step: "finStep sha ?call (chain, freg) = (chain', freg')" using run by simp
  have able: "finalizable sha b c reg policy provider at chain freg"
  proof (rule ccontr)
    assume "\<not> finalizable sha b c reg policy provider at chain freg"
    from finalizeBlock_reject [OF reg this] run fin show False by (auto simp: rejects_def finRejected_def)
  qed
  have "mapOk freg" using ok by (simp add: finOk_def)
  from this able have "chain' = pushBlock b chain \<and> finRecord res = Some (finRecordOf b c at) \<and>
      freg' = mapPut (blockIndex b) (finRecordOf b c at) freg"
    by (cases rule: finalizeBlock_accept) (use run fin in auto)
  then show chain: "chain' = pushBlock b chain" "finRecord res = Some (finRecordOf b c at)"
    "freg' = mapPut (blockIndex b) (finRecordOf b c at) freg" by simp_all
  then have "chain' \<noteq> chain" by (metis chainBlocks_push append_self_conv list.distinct(1))
  with finStep_shape [OF ok reg, of b c policy provider at] step
  show "unat (blockIndex b) = length (chainBlocks chain)" by auto
  show "certVerify sha reg policy provider c = Inr True" using able by (simp add: finalizable_def)
  show "finOk sha (chain', freg')" using finStep_ok [OF ok, of ?call] reg step by simp
qed

lemma commit_cases [consumes 2, case_names same wrote grew]:
  assumes disk: "diskInv E s" and run: "commitCertifiedBlock (envSha E) cfg inp b c now s = (res, s')"
  obtains (same) "s' = s" "\<nexists>f. res = Inr (Some f)"
    | (wrote) mgr :: ConsensusRoundManager where "res = Inr None" "s' = s\<lparr>elRecovery := elRecovery s @ [mgrState mgr]\<rparr>"
        "rsHeight (mgrState mgr) = nextHeight (elChain s) + 1" "rsRound (mgrState mgr) = 1" "fresh (mgrState mgr)"
        "rsValid (mgrState mgr)" "nextHeight (elChain s) \<noteq> U64_MAX"
    | (grew) mgr chain' freg' hist' reg where "res = Inr (Some (finRecordOf b c now))"
        "s' = s\<lparr>elChain := chain', elFinalized := freg', elHistory := hist', elRounds := mgr,
           elRecovery := elRecovery s @ [mgrState mgr]\<rparr>"
        "rsHeight (mgrState mgr) = nextHeight (elChain s) + 1" "rsRound (mgrState mgr) = 1" "fresh (mgrState mgr)"
        "rsValid (mgrState mgr)" "nextHeight (elChain s) \<noteq> U64_MAX"
        "chain' = pushBlock b (elChain s)" "blockIndex b = nextHeight (elChain s)" "finOk (envSha E) (chain', freg')"
        "setsSorted hist'" "setAt (elHistory s) (nextHeight (elChain s)) = Inr reg"
        "certVerify (envSha E) reg (runtimePolicy cfg) (runtimeProvider cfg) c = Inr True"
        "freg' = mapPut (blockIndex b) (finRecordOf b c now) (elFinalized s)"
proof (cases "\<exists>reg res0 chain' freg' hist' proposer. hasSet (elHistory s) (blockIndex b) \<and> pipelineAccepts inp b \<and>
    setAt (elHistory s) (blockIndex b) = Inr reg \<and> certificateFitsSet (envSha E) (netParams cfg) c reg = Inr True \<and>
    finalizeBlock (envSha E) b c reg (runtimePolicy cfg) (runtimeProvider cfg) now (elChain s, elFinalized s) =
      (Inr res0, (chain', freg')) \<and> finStatus res0 = FINALIZED \<and>
    recordNext (envSha E) (blockIndex b) (executedRegistry inp) (elHistory s) = (Inr True, hist') \<and>
    bindR (setAt hist' (blockIndex b + 1)) (\<lambda>reg'. selectProposer (envSha E) reg' (paramChainId (netParams cfg))
      (blockIndex b + 1) 1) = Inr proposer")
  case False
  then have "s' = s \<and> (\<nexists>f. res = Inr (Some f))"
    using run by (auto simp: commitCertifiedBlock_def Let_def split: if_splits sum.splits prod.splits bool.splits)
  then show ?thesis using same by blast
next
  case True
  then obtain reg res0 chain' freg' hist' proposer where t: "hasSet (elHistory s) (blockIndex b)" "pipelineAccepts inp b"
    "setAt (elHistory s) (blockIndex b) = Inr reg" "certificateFitsSet (envSha E) (netParams cfg) c reg = Inr True"
    "finalizeBlock (envSha E) b c reg (runtimePolicy cfg) (runtimeProvider cfg) now (elChain s, elFinalized s) =
      (Inr res0, (chain', freg'))" "finStatus res0 = FINALIZED"
    "recordNext (envSha E) (blockIndex b) (executedRegistry inp) (elHistory s) = (Inr True, hist')"
    "bindR (setAt hist' (blockIndex b + 1)) (\<lambda>reg'. selectProposer (envSha E) reg' (paramChainId (netParams cfg))
      (blockIndex b + 1) 1) = Inr proposer" by blast
  define mgr where "mgr = advanceToHeight (envSha E) (blockIndex b + 1) 1 proposer (now + 1)
    (targetBlockTimeSeconds (netParams cfg)) (elRounds s)"
  have d: "finOk (envSha E) (elChain s, elFinalized s)" "setsSorted (elHistory s)" "nextHeight (elChain s) \<noteq> 0"
    using disk by (simp_all add: diskInv_def)
  note g = finalize_grows [OF d(1) setAt_sorted [OF d(2) t(3)] t(5,6)]
  have idx: "blockIndex b = nextHeight (elChain s)"
    using g(2) nextHeight_length [OF d(1,3)] by (simp add: word_unat_eq_iff)
  have max: "nextHeight (elChain s) \<noteq> U64_MAX" using t(7) idx by (auto simp: recordNext_def)
  have m: "rsHeight (mgrState mgr) = nextHeight (elChain s) + 1" "rsRound (mgrState mgr) = 1" "fresh (mgrState mgr)"
    by (simp_all add: mgr_def advanceToHeight_def Let_def idx)
  have eqn: "(let (saved, log') = (if snapshotReached inp
        then recoverySave (diskOk inp) (mgrState mgr) (elRecovery s) else (False, elRecovery s)) in
      if saved \<and> persistSucceeds inp
      then (Inr (finRecord res0), s\<lparr>elChain := chain', elFinalized := freg', elHistory := hist', elRounds := mgr, elRecovery := log'\<rparr>)
      else (Inr None, s\<lparr>elRecovery := log'\<rparr>)) = (res, s')"
    using run t(1-7) unfolding commitCertifiedBlock_def Let_def mgr_def by (simp add: t(8))
  let ?saved = "if snapshotReached inp then recoverySave (diskOk inp) (mgrState mgr) (elRecovery s) else (False, elRecovery s)"
  have "?saved = (False, elRecovery s) \<or> ?saved = (True, elRecovery s @ [mgrState mgr]) \<and> rsValid (mgrState mgr)"
    by (simp add: recoverySave_def isPersistableRoundState_def)
  then consider (no) "?saved = (False, elRecovery s)" | (yes) "?saved = (True, elRecovery s @ [mgrState mgr])" "rsValid (mgrState mgr)"
    by blast
  then show ?thesis
  proof cases
    case no
    then show ?thesis using eqn by (intro same) auto
  next
    case yes
    show ?thesis
    proof (cases "persistSucceeds inp")
      case True
      show ?thesis
        by (rule grew [where mgr = mgr and chain' = chain' and freg' = freg' and hist' = hist' and reg = reg])
          (use True eqn yes g t(3) m max idx recordNext_sorted [OF d(2) t(7)] in simp_all)
    next
      case False
      then show ?thesis using eqn yes m max by (intro wrote [where mgr = mgr]) simp_all
    qed
  qed
qed

lemma volatile_log:
  assumes "volatileOk s" and "rsHeight e \<noteq> rsHeight (elState s)"
  shows "volatileOk (s\<lparr>elRecovery := elRecovery s @ [e]\<rparr>)"
proof -
  have "heightLog (rsHeight (elState s)) (elRecovery s @ [e]) = heightLog (rsHeight (elState s)) (elRecovery s)"
    using assms(2) by (simp add: heightLog_snoc)
  moreover have "inStep (s\<lparr>elRecovery := log\<rparr>) q = inStep s q" for log q by (simp add: inStep_def)
  ultimately have "volatileOk (s\<lparr>elRecovery := elRecovery s @ [e]\<rparr>) = volatileOk s" unfolding volatileOk_def by simp
  then show ?thesis using assms(1) by simp
qed

lemma commit_inv:
  assumes inv: "loopInv E s" and run: "commitCertifiedBlock (envSha E) (envConfig E) inp b c now s = (res, s')"
    and known: "setsKnown E s"
  shows "loopInv E s'"
proof -
  have disk: "diskInv E s" and vol: "volatileOk s" and cand: "candidatesOk E s" using inv by (simp_all add: loopInv_def)
  let ?h = "nextHeight (elChain s)"
  have log: "logOk E ?h (elRecovery s @ [e])" "?h + 1 \<noteq> 0"
    if "rsHeight e = ?h + 1" "rsRound e = 1" "fresh e" "rsValid e" "?h \<noteq> U64_MAX" for e
  proof -
    have "unat (?h + 1) = unat ?h + 1" "?h < ?h + 1" using unat_succ u64_less_inc that(5) by blast+
    moreover have ok: "logOk E ?h (elRecovery s)" using disk by (simp add: diskInv_def)
    then have "fresh q" if "q \<in> set (heightLog (?h + 1) (elRecovery s))" for q
      using that \<open>?h < ?h + 1\<close> by (auto simp: logOk_def set_heightLog)
    ultimately show "logOk E ?h (elRecovery s @ [e])" using that by (intro logOk_fresh [OF ok, of "?h + 1"]) simp_all
    show "?h + 1 \<noteq> 0" using \<open>?h < ?h + 1\<close> by auto
  qed
  show ?thesis using disk run
  proof (cases rule: commit_cases)
    case same
    then show ?thesis using inv by simp
  next
    case (wrote mgr)
    have "sentOk s'" using disk wrote(2) by (auto simp: diskInv_def sentOk_def logged_snoc)
    moreover have "volatileOk s'"
      using volatile_log [OF vol, of "mgrState mgr"] wrote vol u64_less_inc [OF wrote(7)] by (auto simp: volatileOk_def)
    ultimately show ?thesis
      using disk cand wrote(2) log(1) [OF wrote(3-7)] by (simp add: loopInv_def diskInv_def candidatesOk_def)
  next
    case (grew mgr chain' freg' hist' reg)
    have "finVerified E freg'"
      using disk known grew(9,12-14) by (auto simp: finVerified_def diskInv_def setsKnown_def finRecordOf_def)
    have next_h: "nextHeight chain' = ?h + 1" using grew(8,9) by (simp add: nextHeight_def)
    have sent: "sentOk s'" using disk grew(2) by (auto simp: diskInv_def sentOk_def logged_snoc)
    have "heightLog (?h + 1) (elRecovery s @ [mgrState mgr]) \<noteq> []" using grew(3) by (simp add: heightLog_snoc)
    note up = logOk_height [OF log(1) [OF grew(3-7)] grew(7) this]
    have less: "?h < ?h + 1" by (rule u64_less_inc [OF grew(7)])
    have "rsRound (last (heightLog (?h + 1) (elRecovery s @ [mgrState mgr]))) \<le> rsRound (mgrState mgr)"
      using grew(3) by (simp add: heightLog_snoc)
    then have "volatileOk s'"
      using vol less up(2) grew(2-5) next_h unfolding volatileOk_def by (auto intro: order.trans less_imp_le)
    then show ?thesis
      using cand sent up(1) log(2) [OF grew(3-7)] next_h grew(2,10,11) disk \<open>finVerified E freg'\<close>
      by (simp add: loopInv_def diskInv_def candidatesOk_def)
  qed
qed


subsection \<open>A whole tick\<close>

lemma commit_active:
  assumes act: "active E s" and known: "setsKnown E s"
    and run: "commitCertifiedBlock (envSha E) (envConfig E) inp b c now s = (res, s')"
    and no: "\<nexists>f. res = Inr (Some f)"
  shows "active E s'" and "elState s' = elState s"
proof -
  have disk: "diskInv E s" using act by (simp add: active_def loopInv_def)
  from disk run have "elState s' = elState s \<and> elLastHeight s' = elLastHeight s"
    by (cases rule: commit_cases) (use no in auto)
  then show "elState s' = elState s" "active E s'"
    using act commit_inv [OF _ run known] by (simp_all add: active_def)
qed

lemma commit_next:
  assumes act: "active E s" and run: "commitCertifiedBlock (envSha E) cfg inp b c now s = (Inr (Some f), s')"
  shows "rsHeight (elState s') = rsHeight (elState s) + 1" and "rsRound (elState s') = 1"
    and "fresh (lastEntry s')" and "elPrevote s' = elPrevote s" "elPrecommit s' = elPrecommit s"
    and "rsHeight (elState s) \<noteq> U64_MAX"
proof -
  have disk: "diskInv E s" and h: "rsHeight (elState s) = nextHeight (elChain s)"
    using act activeD(3) by (auto simp: active_def loopInv_def)
  from disk run have "rsHeight (elState s') = rsHeight (elState s) + 1 \<and> rsRound (elState s') = 1 \<and> fresh (lastEntry s') \<and>
      elPrevote s' = elPrevote s \<and> elPrecommit s' = elPrecommit s \<and> rsHeight (elState s) \<noteq> U64_MAX"
    by (cases rule: commit_cases) (simp_all add: h heightLog_snoc)
  then show "rsHeight (elState s') = rsHeight (elState s) + 1" "rsRound (elState s') = 1" "fresh (lastEntry s')"
    "elPrevote s' = elPrevote s" "elPrecommit s' = elPrecommit s" "rsHeight (elState s) \<noteq> U64_MAX" by blast+
qed

lemma tryFinalize_cases:
  assumes "tryFinalize sha cfg inp b r s = (res, s')"
  obtains "s' = s" "\<nexists>f. res = Inr (Some f)"
    | c where "commitCertifiedBlock sha cfg inp b c (tickNow inp) s = (res, s')"
  using assms by (auto simp: tryFinalize_def split: if_splits sum.splits option.splits QuorumCertificateBuildResult.splits)

definition finalizedLoop :: "FinalizedBlockRecord \<Rightarrow> u64 \<Rightarrow> EventLoop \<Rightarrow> EventLoop" where
  "finalizedLoop f height s = s\<lparr>elResult := (elResult s)\<lparr>quorumFormed := True, tickFinalized := True,
       finalizedBlockHash := finHash f, finalizedHeight := finIndex f\<rparr>,
     elLastHeight := height + 1, elLockedBlock := [], elLockedRound := 0,
     elVotedPrevote := False, elVotedPrecommit := False, elProduced := False, elCandidate := None\<rparr>"

lemma finalizedLoop_active:
  assumes act: "active E s" and known: "setsKnown E s"
    and run: "commitCertifiedBlock (envSha E) (envConfig E) inp b c now s = (Inr (Some f), s')"
  shows "active E (finalizedLoop f (rsHeight (elState s)) s')" (is "active E ?s")
proof -
  note n = commit_next [OF act run]
  have inv: "loopInv E s'" using commit_inv [OF _ run known] act by (simp add: active_def)
  then have h: "rsHeight (elState s') = nextHeight (elChain s')" "rsRound (lastEntry s') \<le> rsRound (elState s')"
    unfolding loopInv_def volatileOk_def by blast+
  have less: "rsHeight (elState s) < rsHeight (elState s')" using n(1) u64_less_inc [OF n(6)] by simp
  have old: "voteIndex v < rsHeight (elState s')" if "elPrevote s' = Some v \<or> elPrecommit s' = Some v" for v
    using active_voteIndex [OF act, of v] that n(4,5) less by auto
  show ?thesis
  proof (rule activeI)
    show "diskInv E ?s" "candidatesOk E ?s"
      using inv by (simp_all add: loopInv_def diskInv_def sentOk_def candidatesOk_def finalizedLoop_def)
    show "inStep ?s (lastEntry ?s)"
      using n(3) old by (fastforce simp: inStep_def finalizedLoop_def fresh_def roundVote_def)
  qed (use n(1) h old in \<open>auto simp: finalizedLoop_def less_imp_le\<close>)
qed

lemma finalizePhase_active:
  assumes act: "active E s" and known: "setsKnown E s" and h: "height = rsHeight (elState s)" and r: "rsRound (elState s) \<noteq> U64_MAX"
  shows "active E (snd (finalizePhase (envSha E) (envConfig E) inp b height r' s))"
    and "rsRound (elState (snd (finalizePhase (envSha E) (envConfig E) inp b height r' s))) \<noteq> U64_MAX"
proof -
  obtain res s' where run: "tryFinalize (envSha E) (envConfig E) inp b r' s = (res, s')" by fastforce
  let ?s = "snd (finalizePhase (envSha E) (envConfig E) inp b height r' s)"
  have "active E ?s \<and> rsRound (elState ?s) \<noteq> U64_MAX"
  proof (cases "\<exists>f. res = Inr (Some f)")
    case False
    then have "?s = s'" using run by (auto simp: finalizePhase_def split: sum.splits option.splits)
    moreover from run have "active E s' \<and> elState s' = elState s"
      by (cases rule: tryFinalize_cases) (use act False commit_active [OF act known] in auto)
    ultimately show ?thesis using r by simp
  next
    case True
    then obtain f c where f: "res = Inr (Some f)" "commitCertifiedBlock (envSha E) (envConfig E) inp b c (tickNow inp) s = (Inr (Some f), s')"
      using run by (auto elim: tryFinalize_cases)
    then have "?s = finalizedLoop f (rsHeight (elState s)) s'" using run h by (simp add: finalizePhase_def finalizedLoop_def)
    then show ?thesis
      using finalizedLoop_active [OF act known f(2)] commit_next(2) [OF act f(2)]
      by (simp add: finalizedLoop_def U64_MAX_def)
  qed
  then show "active E ?s" "rsRound (elState ?s) \<noteq> U64_MAX" by simp_all
qed

lemma candidatePhase_active:
  assumes act: "active E s" and vw: "votingWith E c s"
    and h: "height = rsHeight (elState s)" "r = rsRound (elState s)" "validators = envSets E height"
    and max: "rsRound (elState s) \<noteq> U64_MAX" and known: "setsKnown E s"
  shows "active E (snd (candidatePhase (envSha E) (envConfig E) inp validators c height r elapsed s))"
proof -
  let ?sha = "envSha E" and ?cfg = "envConfig E" and ?b = "candBlock c"
  define s0 where "s0 = rebroadcastPersistedVotesForCandidate ?sha ?cfg ?b r s"
  have 0: "stays E s s0" unfolding s0_def using vw h by (intro rebroadcast_stays [OF act]) (simp_all add: votingWith_def)
  then have act0: "active E s0" and vw0: "votingWith E c s0" and st0: "elState s0 = elState s"
    using vw by (simp_all add: stays_def votingWith_def)
  have rest: "active E (snd (case prevotePhase ?sha ?cfg inp validators c height r elapsed w s0 of
        (Go, w', s1) \<Rightarrow> thenPhase (precommitPhase ?sha ?cfg inp validators c height r elapsed w' required)
            (thenPhase (finalizePhase ?sha ?cfg inp ?b height r) (advanceRoundIfTimedOut ?sha ?cfg inp)) s1
      | (f, w', s1) \<Rightarrow> (f, s1)))" for w required
  proof -
    obtain f w' s1 where run: "prevotePhase ?sha ?cfg inp validators c height r elapsed w s0 = (f, w', s1)"
      by (metis prod_cases3)
    have 1: "stays E s0 s1"
      using prevotePhase_stays [OF act0 vw0, of height r validators inp elapsed w] run h st0 by simp
    then have act1: "active E s1" and vw1: "votingWith E c s1" and st1: "elState s1 = elState s"
      using vw0 st0 by (simp_all add: stays_def votingWith_def)
    let ?s2 = "snd (precommitPhase ?sha ?cfg inp validators c height r elapsed w' required s1)"
    have 2: "stays E s1 ?s2" by (rule precommitPhase_stays [OF act1 vw1]) (simp_all add: h st1)
    let ?s3 = "snd (finalizePhase ?sha ?cfg inp ?b height r ?s2)"
    have "setsKnown E ?s2" using known 0 1 2 by (simp add: setsKnown_def stays_def)
    then have 3: "active E ?s3" "rsRound (elState ?s3) \<noteq> U64_MAX"
      using finalizePhase_active [of E ?s2 height inp ?b r] 2 max h(1) st1 by (simp_all add: stays_def)
    have 4: "active E (snd (advanceRoundIfTimedOut ?sha ?cfg inp ?s3))"
      by (rule advanceRoundIfTimedOut_active [OF 3])
    show ?thesis using act1 2 3(1) 4 unfolding run by (cases f) (auto simp: thenPhase_snd stays_def)
  qed
  show ?thesis
    using act0 rest unfolding candidatePhase_def Let_def s0_def [symmetric]
    by (auto simp: active_def loopInv_setError setError_def split: sum.split)
qed

text \<open>The circumstances of a tick that the theorems assume.\<close>

definition tickLegal :: "VoteEnv \<Rightarrow> TickInput \<Rightarrow> EventLoop \<Rightarrow> bool" where
  "tickLegal E inp s \<longleftrightarrow> recoveryPathSet (envConfig E) \<and> (\<forall>p\<in>set (tickProposals inp). proposalOk E p) \<and>
     setsKnown E s \<and> rsRound (elState s) \<noteq> U64_MAX"

lemma roundPhase_inv:
  assumes inv: "loopInv E s" and legal: "tickLegal E inp s"
  shows "loopInv E (snd (roundPhase (envSha E) (envConfig E) inp s))"
proof -
  let ?h = "rsHeight (elState s)" and ?sha = "envSha E" and ?cfg = "envConfig E"
  let ?s = "enterHeight ?h s"
  have chain: "elChain ?s = elChain s" "elHistory ?s = elHistory s" by (simp_all add: enterHeight_def resetForHeight_def)
  have h: "?h = nextHeight (elChain s)" using inv by (simp add: loopInv_def volatileOk_def)
  have known: "setsKnown E s" "setsKnown E ?s" using legal chain by (simp_all add: tickLegal_def setsKnown_def)
  have act: "active E ?s" and st: "elState ?s = elState s" using enterHeight_inv [OF inv] by simp_all
  have l: "recoveryPathSet ?cfg" "rsRound (elState s) \<noteq> U64_MAX" using legal by (simp_all add: tickLegal_def)
  have no: "loopInv E (snd (noCandidatePhase ?sha ?cfg inp v ?h (rsRound (elState s)) el ?s))" for v el
    using noCandidatePhase_active [OF act l(1), of ?h] st l(2) by (simp add: active_def)
  have yes: "loopInv E (snd (candidatePhase ?sha ?cfg inp v c ?h (rsRound (elState s)) el ?s))"
    if "setAt (elHistory s) ?h = Inr v" "elCandidate ?s = Some c" "blockIndex (candBlock c) = ?h" for v c el
    using candidatePhase_active [OF act, of c ?h "rsRound (elState s)" v] st l known that h
    by (simp add: active_def votingWith_def setsKnown_def)
  show ?thesis
    unfolding roundPhase_def Let_def using inv no yes by (auto split: sum.split option.split)
qed

lemma collect_frame:
  "elState (collectVotesFrom sha cfg vs s) = elState s \<and> elHistory (collectVotesFrom sha cfg vs s) = elHistory s \<and>
     elChain (collectVotesFrom sha cfg vs s) = elChain s"
proof (induction vs arbitrary: s)
  case (Cons v vs)
  show ?case by (simp add: Cons split_beta submitConsensusVote_frame)
qed simp

theorem tick_inv:
  assumes inv: "loopInv E s" and legal: "tickLegal E inp s"
  shows "loopInv E (snd (tick (envSha E) (envConfig E) inp s))"
proof -
  let ?sha = "envSha E" and ?cfg = "envConfig E"
  let ?s1 = "drainVotesAndCollect ?sha ?cfg inp s"
  let ?s2 = "snd (processBlockProposals ?sha ?cfg inp ?s1)"
  have 1: "loopInv E ?s1" by (rule loopInv_drain [OF inv])
  have f: "elState ?s1 = elState s" "elHistory ?s1 = elHistory s" "elChain ?s1 = elChain s"
    by (simp_all add: drainVotesAndCollect_def Let_def collect_frame)
  have 2: "absorbs E ?s1 ?s2" using legal by (intro processBlockProposals_absorbs [OF 1]) (simp add: tickLegal_def)
  then have "tickLegal E inp ?s2" using legal f by (simp add: tickLegal_def absorbs_def keepsRuntime_def setsKnown_def)
  then have "loopInv E (snd (roundPhase ?sha ?cfg inp ?s2))" using roundPhase_inv 2 by (simp add: absorbs_def)
  then show ?thesis using 1 2 unfolding tick_def Let_def by (simp add: thenPhase_snd absorbs_def)
qed

subsection \<open>Restarting\<close>

lemma last_filter: "xs \<noteq> [] \<Longrightarrow> P (last xs) \<Longrightarrow> last (filter P xs) = last xs"
  by (induction xs rule: rev_induct) auto

lemma advanceToHeight_state [simp]: "mgrState (advanceToHeight sha h r p t secs mgr) = newRoundState h r p t"
  by (simp add: advanceToHeight_def Let_def)

lemma boot_cases:
  assumes "bootManager sha cfg chain hist log mgr0 = Inr mgr" and "chainBlocks chain \<noteq> []"
  obtains (stored) st where "recoveryLoad log = Some st" "rsHeight st = nextHeight chain"
      "mgrState mgr = newRoundState (nextHeight chain) (rsRound st) (rsProposer st) (rsStartedAt st)"
    | (new) "rsHeight (mgrState mgr) = nextHeight chain" "rsRound (mgrState mgr) = 1" "fresh (mgrState mgr)"
proof -
  have tip: "latestBlock chain = Inr (last (chainBlocks chain))" using assms(2) by (simp add: latestBlock_def)
  show ?thesis
  proof (cases "\<exists>st. recoveryLoad log = Some st \<and> rsHeight st = nextHeight chain")
    case True
    then show ?thesis using assms(1) stored
      by (auto simp: bootManager_def tip Let_def nextHeight_def)
  next
    case False
    then have "rsHeight (mgrState mgr) = nextHeight chain \<and> rsRound (mgrState mgr) = 1 \<and> fresh (mgrState mgr)"
      using assms(1) by (auto simp: bootManager_def tip Let_def nextHeight_def split: option.splits if_splits)
    then show ?thesis using new by blast
  qed
qed

text \<open>
  What the start-up ends with: the state it takes over is on disk as the last entry of the file,
  for the height and round of the round manager.
\<close>

lemma start_cases:
  assumes "startConsensus sha cfg dk s = (up, s1)" and "elRecovery s \<noteq> []"
  obtains (same) "s1 = s" "up = None"
    | (kept) "s1 = s" "up = Some (loadFromRecoveryState (last (elRecovery s)) s)"
        "rsHeight (last (elRecovery s)) = rsHeight (elState s)" "rsRound (last (elRecovery s)) = rsRound (elState s)"
    | (fresh) "s1 = s\<lparr>elRecovery := elRecovery s @ [elState s]\<rparr>" "rsValid (elState s)"
        "rsHeight (last (elRecovery s)) < rsHeight (elState s)"
        "up = None \<or> up = Some (loadFromRecoveryState (elState s) s1)"
proof (cases "rsHeight (last (elRecovery s)) < rsHeight (elState s)")
  case True
  have "s1 = s \<and> up = None \<or>
      s1 = s\<lparr>elRecovery := elRecovery s @ [elState s]\<rparr> \<and> rsValid (elState s) \<and>
        (up = None \<or> up = Some (loadFromRecoveryState (elState s) s1))"
    using assms True unfolding startConsensus_def recoverySave_def isPersistableRoundState_def recoveryLoad_def Let_def
    by (simp split: if_splits sum.splits) (auto split: if_splits sum.splits)
  then show ?thesis using same fresh True by blast
next
  case False
  have "s1 = s \<and> up = None \<or> s1 = s \<and> up = Some (loadFromRecoveryState (last (elRecovery s)) s) \<and>
      rsHeight (last (elRecovery s)) = rsHeight (elState s) \<and> rsRound (last (elRecovery s)) = rsRound (elState s)"
    using assms False unfolding startConsensus_def recoveryLoad_def Let_def
    by (auto split: if_splits sum.splits)
  then show ?thesis using same kept by blast
qed

definition atRest :: "EventLoop \<Rightarrow> bool" where
  "atRest s \<longleftrightarrow> elCandidate s = None \<and> elBuffered s = []"

lemma load_inv:
  assumes disk: "diskInv E s" and rest: "atRest s" and h: "rsHeight (elState s) = nextHeight (elChain s)"
    and st: "last (elRecovery s) = st" "rsHeight st = rsHeight (elState s)" "rsRound st = rsRound (elState s)"
  shows "loopInv E (loadFromRecoveryState st s)" (is "loopInv E ?s")
proof -
  let ?h = "rsHeight (elState s)"
  have ok: "logOk E ?h (elRecovery s)" using disk h by (simp add: diskInv_def)
  then have ne: "heightLog ?h (elRecovery s) \<noteq> []" "elRecovery s \<noteq> []" by (auto simp: logOk_def heightLog_def)
  have last: "last (heightLog ?h (elRecovery s)) = st"
    using last_filter [OF ne(2), of "\<lambda>e. rsHeight e = ?h"] st by (simp add: heightLog_def)
  then have "st \<in> set (heightLog ?h (elRecovery s))" using last_in_set [OF ne(1)] by simp
  moreover have "journal (releases E ?h) (heightLog ?h (elRecovery s))" using ok ne by (simp add: logOk_def)
  ultimately have valid: "rsValid st" by (intro journal_valid)
  have f: "elState ?s = elState s" "elRecovery ?s = elRecovery s" "elChain ?s = elChain s"
    by (simp_all add: loadFromRecoveryState_def)
  have "active E ?s"
  proof (rule activeI)
    show "diskInv E ?s" using disk by (simp add: diskInv_def sentOk_def loadFromRecoveryState_def)
    show "candidatesOk E ?s" using rest by (simp add: candidatesOk_def loadFromRecoveryState_def atRest_def)
    show "elLastHeight ?s = rsHeight (elState ?s)" using st by (simp add: loadFromRecoveryState_def)
    show "inStep ?s (lastEntry ?s)"
      unfolding f last using rsValidD(6,7) [OF valid] st(3) by (simp add: inStep_def loadFromRecoveryState_def)
    show "voteIndex v \<le> rsHeight (elState ?s)" if "elPrevote ?s = Some v \<or> elPrecommit ?s = Some v" for v
      using that rsValidD(4,5) [OF valid] st(2) by (auto simp: loadFromRecoveryState_def isPersistedRoundVote_def)
  qed (use f last st h in simp_all)
  then show ?thesis by (simp add: active_def)
qed

lemma diskInv_cong:
  "elChain s' = elChain s \<Longrightarrow> elFinalized s' = elFinalized s \<Longrightarrow> elHistory s' = elHistory s \<Longrightarrow>
     elRecovery s' = elRecovery s \<Longrightarrow> elSent s' = elSent s \<Longrightarrow> diskInv E s' = diskInv E s"
  by (simp add: diskInv_def sentOk_def)

lemma start_inv:
  assumes disk: "diskInv E s" and rest: "atRest s" and h: "rsHeight (elState s) = nextHeight (elChain s)"
    and new: "rsHeight (last (elRecovery s)) < rsHeight (elState s) \<Longrightarrow> fresh (elState s) \<and> rsRound (elState s) = 1"
    and run: "startConsensus sha cfg dk s = (up, s1)"
  shows "diskInv E s1 \<and> elSent s1 = elSent s \<and> (\<forall>s'. up = Some s' \<longrightarrow> loopInv E s' \<and> elSent s' = elSent s)"
proof -
  let ?h = "rsHeight (elState s)"
  have ok: "logOk E ?h (elRecovery s)" using disk h by (simp add: diskInv_def)
  then have ne: "elRecovery s \<noteq> []" by (auto simp: logOk_def heightLog_def)
  from run ne show ?thesis
  proof (cases rule: start_cases)
    case same
    then show ?thesis using disk by simp
  next
    case kept
    then show ?thesis using disk load_inv [OF disk rest h] by (auto simp: loadFromRecoveryState_def)
  next
    case fresh
    have old: "Journal.fresh q" if "q \<in> set (heightLog ?h (elRecovery s))" for q
      using that ok fresh(3) by (auto simp: logOk_def)
    have "logOk E ?h (elRecovery s @ [elState s])"
      using new fresh(2,3) old by (intro logOk_fresh [OF ok, of ?h]) auto
    then have disk1: "diskInv E s1" using disk h fresh(1) by (auto simp: diskInv_def sentOk_def logged_snoc)
    moreover have "loopInv E (loadFromRecoveryState (elState s) s1)"
      using load_inv [OF disk1] rest h fresh(1) by (simp add: atRest_def)
    ultimately show ?thesis using fresh(1,4) by (auto simp: loadFromRecoveryState_def)
  qed
qed

lemma restart_inv:
  assumes disk: "diskInv E s" and run: "restartNode sha cfg dk s = (up, s1)"
  shows "diskInv E s1 \<and> elSent s1 = elSent s \<and> (\<forall>s'. up = Some s' \<longrightarrow> loopInv E s' \<and> elSent s' = elSent s)"
proof (cases "bootManager sha cfg (elChain s) (elHistory s) (elRecovery s) emptyManager")
  case (Inl e)
  then show ?thesis using disk run by (simp add: restartNode_def)
next
  case (Inr mgr)
  let ?s = "newLoop (elChain s) (elFinalized s) (elHistory s) mgr (elEvidence s) (elRecovery s) (elSent s)"
  have chain: "chainBlocks (elChain s) \<noteq> []" using disk finOk_tip(1) by (auto simp: diskInv_def)
  have ne: "elRecovery s \<noteq> []" using disk by (auto simp: diskInv_def logOk_def heightLog_def)
  have d: "diskInv E ?s" "atRest ?s" using disk diskInv_cong [of ?s s] by (simp_all add: newLoop_def atRest_def)
  have "rsHeight (mgrState mgr) = nextHeight (elChain s) \<and>
      (rsHeight (last (elRecovery s)) < rsHeight (mgrState mgr) \<longrightarrow> fresh (mgrState mgr) \<and> rsRound (mgrState mgr) = 1)"
    using Inr chain by (cases rule: boot_cases) (use ne in \<open>simp_all add: recoveryLoad_def\<close>)
  then have m: "rsHeight (elState ?s) = nextHeight (elChain ?s)"
      "rsHeight (last (elRecovery ?s)) < rsHeight (elState ?s) \<Longrightarrow> fresh (elState ?s) \<and> rsRound (elState ?s) = 1"
    by (simp_all add: newLoop_def)
  have "startConsensus sha cfg dk ?s = (up, s1)" using run Inr by (simp add: restartNode_def)
  from start_inv [OF d m this] show ?thesis by (simp add: newLoop_def)
qed

subsection \<open>Properties of the event loop\<close>

text \<open>
  C4: The event loop refines the voting journal. A tick only appends to the recovery file; what it
  holds for each height afterwards is again a journal of the abstract voting protocol: rounds do
  not decrease, votes of a round are never replaced, the lock moves exactly with a precommit, and a
  prevote against the lock happens only with a verified certificate for the new block from a round
  not below the lock's; and every prevote and precommit handed to gossip is in the file.
\<close>

theorem tick_refines_journal:
  assumes "loopInv E s" and "tickLegal E inp s" and "envLog E = elRecovery s"
  defines "s' \<equiv> snd (tick (envSha E) (envConfig E) inp s)"
  shows "prefix (elRecovery s) (elRecovery s') \<and>
    (\<forall>h. heightLog h (elRecovery s') \<noteq> [] \<longrightarrow> journal (releases E h) (heightLog h (elRecovery s'))) \<and>
    (\<forall>v\<in>set (elSent s'). voteDecision v \<in> {PREVOTE, PRECOMMIT} \<longrightarrow> logged (elRecovery s') v)"
proof -
  have "diskInv E s'" using tick_inv [OF assms(1,2)] by (simp add: s'_def loopInv_def)
  then show ?thesis using assms(3) by (simp add: diskInv_def logOk_def sentOk_def)
qed

lemma disk_log: "diskInv E s \<Longrightarrow> elRecovery s \<noteq> []"
  by (auto simp: diskInv_def logOk_def heightLog_def)

lemma disk_entry_valid:
  assumes "diskInv E s" and "e \<in> set (elRecovery s)"
  shows "rsValid e"
proof -
  have e: "e \<in> set (heightLog (rsHeight e) (elRecovery s))" using assms(2) by (simp add: set_heightLog)
  then have "heightLog (rsHeight e) (elRecovery s) \<noteq> []" by auto
  then have "journal (releases E (rsHeight e)) (heightLog (rsHeight e) (elRecovery s))"
    using assms(1) by (simp add: diskInv_def logOk_def)
  then show ?thesis using e by (rule journal_valid)
qed

lemma restart_loaded:
  assumes "restartNode sha cfg disk s = (Some s', s1)" and "elRecovery s \<noteq> []"
  shows "\<exists>s0. s' = loadFromRecoveryState (last (elRecovery s')) s0 \<and>
    rsRound (elState s0) = rsRound (last (elRecovery s')) \<and> rsHeight (elState s0) = rsHeight (last (elRecovery s'))"
proof -
  obtain mgr where run: "startConsensus sha cfg disk
      (newLoop (elChain s) (elFinalized s) (elHistory s) mgr (elEvidence s) (elRecovery s) (elSent s)) = (Some s', s1)"
    using assms(1) by (auto simp: restartNode_def split: sum.splits)
  have "elRecovery (newLoop (elChain s) (elFinalized s) (elHistory s) mgr (elEvidence s) (elRecovery s) (elSent s)) \<noteq> []"
    using assms(2) by (simp add: newLoop_def)
  with run show ?thesis
    by (cases rule: start_cases) (auto simp: loadFromRecoveryState_def)
qed

text \<open>
  A restart forgets nothing that binds. When consensus starts again after a crash, the loop
  stands at the height and round of the last entry of its recovery file, holds the lock and the
  votes of that entry, counts them as cast, and satisfies its invariant.
\<close>

theorem restart_restores_votes:
  assumes "diskInv E s" and "restartNode sha cfg disk s = (Some s', s1)"
  defines "e \<equiv> last (elRecovery s')"
  shows "loopInv E s' \<and> elSent s' = elSent s \<and> rsHeight (elState s') = rsHeight e \<and> rsRound (elState s') = rsRound e \<and>
    elLockedBlock s' = rsLockedBlock e \<and> elLockedRound s' = rsLockedRound e \<and>
    elPrevote s' = rsPrevote e \<and> elPrecommit s' = rsPrecommit e \<and>
    elVotedPrevote s' = (rsPrevote e \<noteq> None) \<and> elVotedPrecommit s' = (rsPrecommit e \<noteq> None)"
proof -
  have ne: "elRecovery s \<noteq> []" by (rule disk_log [OF assms(1)])
  have inv: "loopInv E s'" and sent: "elSent s' = elSent s" using restart_inv [OF assms(1,2)] by auto
  obtain s0 where s0: "s' = loadFromRecoveryState e s0" "rsRound (elState s0) = rsRound e" "rsHeight (elState s0) = rsHeight e"
    using restart_loaded [OF assms(2) ne] unfolding e_def by blast
  have "e \<in> set (elRecovery s')" using inv disk_log [of E s'] by (simp add: e_def loopInv_def)
  then have "rsValid e" using inv disk_entry_valid [of E s'] by (simp add: loopInv_def)
  then show ?thesis using inv sent s0 rsValidD(6,7) by (simp add: loadFromRecoveryState_def)
qed

lemma stale_save_fails:
  assumes "recoveryPathSet cfg" and "elPrecommit s = Some v" and "voteIndex v \<noteq> rsHeight (elState s)"
  shows "saveRecoveryState cfg inp s = (False, s)"
proof -
  have "\<not> rsValid (recoveryStateOf s)"
    using assms(2,3) rsValidD(5) [of "recoveryStateOf s"] by (auto simp: recoveryStateOf_def Let_def isPersistedRoundVote_def)
  then show ?thesis using assms(1) by (simp add: saveRecoveryState_def recoverySave_def isPersistableRoundState_def)
qed

lemma stale_no_prevote:
  assumes "recoveryPathSet cfg" and "elPrecommit s = Some v" and "voteIndex v \<noteq> rsHeight (elState s)"
  shows "elSent (snd (snd (prevotePhase sha cfg inp validators c height r elapsed w s))) = elSent s"
proof -
  have "saveRecoveryState cfg inp (s\<lparr>elPrevote := Some u\<rparr>) = (False, s\<lparr>elPrevote := Some u\<rparr>)" for u
    using stale_save_fails [of cfg "s\<lparr>elPrevote := Some u\<rparr>" v] assms by simp
  then show ?thesis
    by (auto simp: prevotePhase_def setError_def split: option.split sum.split bool.split)
qed


end
