(* ===== verification/Agreement.thy ===== *)
theory Agreement
  imports Main
begin

section \<open>Agreement from locked voting\<close>

text \<open>
  The argument that two committed blocks of one height are equal, on its own: rounds are natural
  numbers, a run of the network is observed at the moments \<open>0, 1, 2, \<dots>\<close>, and all that is known of
  an honest validator is what it has prevoted and precommitted by a moment.

  The laws are those a locking protocol gives: votes are never withdrawn, one precommit per
  round, no precommit without the prevote, and a prevote cast after a precommit of an earlier
  round is for the block of the latest precommit or is justified by a quorum that has already
  precommitted to the new block in a round not below it.
\<close>

locale locked_voting =
  fixes ok :: "'run \<Rightarrow> bool"
    and honest :: "'run \<Rightarrow> 'v set"
    and quorum :: "'run \<Rightarrow> 'v set \<Rightarrow> bool"
    and prevoted :: "'run \<Rightarrow> nat \<Rightarrow> 'v \<Rightarrow> nat \<Rightarrow> 'h \<Rightarrow> bool"
    and precommitted :: "'run \<Rightarrow> nat \<Rightarrow> 'v \<Rightarrow> nat \<Rightarrow> 'h \<Rightarrow> bool"
  assumes overlap: "ok \<rho> \<Longrightarrow> quorum \<rho> A \<Longrightarrow> quorum \<rho> B \<Longrightarrow> \<exists>v\<in>honest \<rho>. v \<in> A \<and> v \<in> B"
    and start: "ok \<rho> \<Longrightarrow> v \<in> honest \<rho> \<Longrightarrow> \<not> prevoted \<rho> 0 v r x"
    and precommit_step: "ok \<rho> \<Longrightarrow> v \<in> honest \<rho> \<Longrightarrow> precommitted \<rho> t v r x \<Longrightarrow> precommitted \<rho> (Suc t) v r x"
    and one_precommit: "ok \<rho> \<Longrightarrow> v \<in> honest \<rho> \<Longrightarrow> precommitted \<rho> t v r x \<Longrightarrow> precommitted \<rho> t v r y \<Longrightarrow> x = y"
    and precommit_prevoted: "ok \<rho> \<Longrightarrow> v \<in> honest \<rho> \<Longrightarrow> precommitted \<rho> t v r x \<Longrightarrow> prevoted \<rho> t v r x"
    and guard: "ok \<rho> \<Longrightarrow> v \<in> honest \<rho> \<Longrightarrow> prevoted \<rho> (Suc t) v r y \<Longrightarrow> \<not> prevoted \<rho> t v r y \<Longrightarrow>
      precommitted \<rho> t' v r0 x \<Longrightarrow> r0 < r \<Longrightarrow>
      \<exists>r1 z. r0 \<le> r1 \<and> r1 < r \<and> precommitted \<rho> (Suc t) v r1 z \<and>
        (y = z \<or> (\<exists>A r2. quorum \<rho> A \<and> r1 \<le> r2 \<and> (\<forall>a\<in>A \<inter> honest \<rho>. precommitted \<rho> t a r2 y)))"
begin

definition committed :: "'run \<Rightarrow> nat \<Rightarrow> 'v set \<Rightarrow> nat \<Rightarrow> 'h \<Rightarrow> bool" where
  "committed \<rho> t A r x \<longleftrightarrow> quorum \<rho> A \<and> (\<forall>a\<in>A \<inter> honest \<rho>. precommitted \<rho> t a r x)"

lemma precommit_mono:
  assumes "ok \<rho>" and "v \<in> honest \<rho>" and "precommitted \<rho> t v r x" and "t \<le> t'"
  shows "precommitted \<rho> t' v r x"
  using assms(4,3) by (induction rule: dec_induct) (auto intro: precommit_step [OF assms(1,2)])

lemma one_precommit_ever:
  assumes "ok \<rho>" and "v \<in> honest \<rho>" and "precommitted \<rho> t v r x" and "precommitted \<rho> t' v r y"
  shows "x = y"
  using one_precommit [OF assms(1,2)] precommit_mono [OF assms(1,2) assms(3), of "max t t'"]
    precommit_mono [OF assms(1,2) assms(4), of "max t t'"] by simp

text \<open>Once a quorum has committed a block, its honest members prevote for no other block in later rounds.\<close>

lemma prevotes_stay:
  assumes ok: "ok \<rho>" and com: "committed \<rho> T Q r0 x"
    and v: "v \<in> Q" "v \<in> honest \<rho>" and pre: "prevoted \<rho> t v r y" and later: "r0 < r"
  shows "y = x"
  using v pre later
proof (induction t arbitrary: v r y)
  case 0
  then show ?case using start [OF ok] by blast
next
  case (Suc t)
  show ?case using Suc.prems
  proof (induction r arbitrary: y rule: less_induct)
    case (less r)
    show ?case
    proof (cases "prevoted \<rho> t v r y")
      case True
      then show ?thesis using Suc.IH less.prems by blast
    next
      case False
      have pc: "precommitted \<rho> T v r0 x" using com less.prems(1,2) by (simp add: committed_def)
      obtain r1 z where r1: "r0 \<le> r1" "r1 < r" and z: "precommitted \<rho> (Suc t) v r1 z"
        and y: "y = z \<or> (\<exists>A r2. quorum \<rho> A \<and> r1 \<le> r2 \<and> (\<forall>a\<in>A \<inter> honest \<rho>. precommitted \<rho> t a r2 y))"
        using guard [OF ok less.prems(2,3) False pc less.prems(4)] by blast
      have "z = x"
      proof (cases "r1 = r0")
        case True
        then show ?thesis using one_precommit_ever [OF ok less.prems(2) z, of T x] pc by simp
      next
        case False
        then show ?thesis
          using less.IH [OF r1(2) less.prems(1,2) precommit_prevoted [OF ok less.prems(2) z]] r1(1) by simp
      qed
      from y show ?thesis
      proof
        assume "y = z" with \<open>z = x\<close> show ?thesis by simp
      next
        assume "\<exists>A r2. quorum \<rho> A \<and> r1 \<le> r2 \<and> (\<forall>a\<in>A \<inter> honest \<rho>. precommitted \<rho> t a r2 y)"
        then obtain A r2 where A: "quorum \<rho> A" "r1 \<le> r2" "\<forall>a\<in>A \<inter> honest \<rho>. precommitted \<rho> t a r2 y" by blast
        obtain a where a: "a \<in> honest \<rho>" "a \<in> A" "a \<in> Q"
          using overlap [OF ok A(1)] com by (auto simp: committed_def)
        then have p: "precommitted \<rho> t a r2 y" using A(3) by simp
        show ?thesis
        proof (cases "r2 = r0")
          case True
          then show ?thesis
            using one_precommit_ever [OF ok a(1) p, of T x] com a by (simp add: committed_def)
        next
          case False
          then show ?thesis
            using Suc.IH [OF a(3,1) precommit_prevoted [OF ok a(1) p]] r1(1) A(2) by simp
        qed
      qed
    qed
  qed
qed

lemma agreement:
  assumes ok: "ok \<rho>" and a: "committed \<rho> t A r x" and b: "committed \<rho> t' B r' y"
  shows "x = y"
proof -
  obtain v where v: "v \<in> honest \<rho>" "v \<in> A" "v \<in> B" using overlap [OF ok, of A B] a b by (auto simp: committed_def)
  have px: "precommitted \<rho> t v r x" and py: "precommitted \<rho> t' v r' y" using a b v by (simp_all add: committed_def)
  consider "r = r'" | "r < r'" | "r' < r" by linarith
  then show ?thesis
  proof cases
    case 1
    then show ?thesis using one_precommit_ever [OF ok v(1) px] py by simp
  next
    case 2
    then show ?thesis using prevotes_stay [OF ok a v(2,1) precommit_prevoted [OF ok v(1) py]] by simp
  next
    case 3
    then show ?thesis using prevotes_stay [OF ok b v(3,1) precommit_prevoted [OF ok v(1) px]] by simp
  qed
qed

end

end
