(* ===== verification/Network.thy ===== *)
theory Network
  imports LoopSafety Agreement
begin

section \<open>A network of event loops\<close>

text \<open>
  Honest validators, each running the event loop of the previous theories, and an environment that
  chooses at every moment which of them acts and what it receives: a tick with any votes and
  proposals, the commit of a certified block by another part of the node, or a crash followed by
  a restart. The faulty validators are part of that environment.

  What the environment cannot do is stated in \<open>netOk\<close> and \<open>netLegal\<close>: it cannot make two blocks
  with one hash at two heights, and a certificate that verifies holds, of an honest validator,
  only votes which that validator has handed to gossip.
\<close>

subsection \<open>Nodes and their steps\<close>

datatype Node = Up (loopOf: EventLoop) | Down (loopOf: EventLoop)

datatype NodeEvent =
    Tick TickInput
  | Commit Block QuorumCertificate int TickInput
  | Restart "ConsensusRoundState \<Rightarrow> bool"

fun nodeStep :: "sha256 \<Rightarrow> LoopConfig \<Rightarrow> NodeEvent \<Rightarrow> Node \<Rightarrow> Node" where
  "nodeStep sha cfg (Tick inp) (Up s) = Up (snd (tick sha cfg inp s))"
| "nodeStep sha cfg (Commit b c now inp) (Up s) = Up (snd (commitCertifiedBlock sha cfg inp b c now s))"
| "nodeStep sha cfg (Restart disk) n =
     (case restartNode sha cfg disk (loopOf n) of (Some s, _) \<Rightarrow> Up s | (None, s) \<Rightarrow> Down s)"
| "nodeStep sha cfg ev (Down s) = Down s"

abbreviation nodeLog :: "Node \<Rightarrow> ConsensusRoundState list" where
  "nodeLog n \<equiv> elRecovery (loopOf n)"

abbreviation nodeSent :: "Node \<Rightarrow> ValidatorVoteRecord list" where
  "nodeSent n \<equiv> elSent (loopOf n)"

fun nodeInv :: "VoteEnv \<Rightarrow> Node \<Rightarrow> bool" where
  "nodeInv E (Up s) = loopInv E s"
| "nodeInv E (Down s) = diskInv E s"

fun eventLegal :: "VoteEnv \<Rightarrow> NodeEvent \<Rightarrow> Node \<Rightarrow> bool" where
  "eventLegal E (Tick inp) (Up s) = tickLegal E inp s"
| "eventLegal E (Commit b c now inp) (Up s) = setsKnown E s"
| "eventLegal E ev n = True"

lemma nodeInv_disk: "nodeInv E n \<Longrightarrow> diskInv E (loopOf n)"
  by (cases n) (simp_all add: loopInv_def)

lemma nodeStep_inv:
  assumes inv: "nodeInv E n" and legal: "eventLegal E ev n"
  shows "nodeInv E (nodeStep (envSha E) (envConfig E) ev n)"
proof (cases "\<exists>disk. ev = Restart disk")
  case True
  then obtain disk where ev: "ev = Restart disk" by blast
  obtain up s1 where run: "restartNode (envSha E) (envConfig E) disk (loopOf n) = (up, s1)" by fastforce
  show ?thesis using restart_inv [OF nodeInv_disk [OF inv] run] run ev by (cases up) simp_all
next
  case False
  show ?thesis
  proof (cases n)
    case (Up s)
    then show ?thesis
      using False inv legal tick_inv commit_inv by (cases ev) (auto intro: commit_inv [OF _ surjective_pairing])
  next
    case (Down s)
    then show ?thesis using False inv by (cases ev) simp_all
  qed
qed

subsection \<open>The network\<close>

record Network =
  netSha :: sha256
  netPolicy :: CryptoPolicy
  netProvider :: SignatureProvider
  netConfig :: "string \<Rightarrow> LoopConfig"
  netHonest :: "string set"
  netSets :: "u64 \<Rightarrow> ValidatorRegistry"
  netBlocks :: "Block set"
  netStart :: "string \<Rightarrow> Node"

type_synonym moment = "string \<Rightarrow> Node"

definition netStep :: "Network \<Rightarrow> string \<times> NodeEvent \<Rightarrow> moment \<Rightarrow> moment" where
  "netStep N step \<sigma> = \<sigma>(fst step := nodeStep (netSha N) (netConfig N (fst step)) (snd step) (\<sigma> (fst step)))"

definition stateAt :: "Network \<Rightarrow> (string \<times> NodeEvent) list \<Rightarrow> nat \<Rightarrow> moment" where
  "stateAt N steps t = fold (netStep N) (take t steps) (netStart N)"

text \<open>A certificate without forged votes of honest validators.\<close>

definition unforged :: "Network \<Rightarrow> moment \<Rightarrow> QuorumCertificate \<Rightarrow> bool" where
  "unforged N \<sigma> c \<longleftrightarrow>
     (\<forall>v\<in>set (certVotes c). voteAddress v \<in> netHonest N \<longrightarrow> v \<in> set (nodeSent (\<sigma> (voteAddress v))))"

definition verifies :: "Network \<Rightarrow> u64 \<Rightarrow> QuorumCertificate \<Rightarrow> bool" where
  "verifies N h c \<longleftrightarrow> certVerify (netSha N) (netSets N h) (netPolicy N) (netProvider N) c = Inr True"

definition envAt :: "Network \<Rightarrow> moment \<Rightarrow> string \<Rightarrow> VoteEnv" where
  "envAt N \<sigma> a = \<lparr>envSha = netSha N, envConfig = netConfig N a, envSets = netSets N, envBlocks = netBlocks N,
     envCerts = {c. (\<exists>h. verifies N h c) \<longrightarrow> unforged N \<sigma> c}, envLog = nodeLog (\<sigma> a), envSent = nodeSent (\<sigma> a)\<rparr>"

definition netLegal :: "Network \<Rightarrow> moment \<Rightarrow> string \<times> NodeEvent \<Rightarrow> bool" where
  "netLegal N \<sigma> step \<longleftrightarrow> fst step \<in> netHonest N \<and> eventLegal (envAt N \<sigma> (fst step)) (snd step) (\<sigma> (fst step))"

definition legalRun :: "Network \<Rightarrow> (string \<times> NodeEvent) list \<Rightarrow> bool" where
  "legalRun N steps \<longleftrightarrow> (\<forall>i<length steps. netLegal N (stateAt N steps i) (steps ! i))"

definition configOk :: "Network \<Rightarrow> string \<Rightarrow> bool" where
  "configOk N a \<longleftrightarrow>
     loopPolicy (netConfig N a) = netPolicy N \<and> loopProvider (netConfig N a) = netProvider N \<and>
     runtimePolicy (netConfig N a) = netPolicy N \<and> runtimeProvider (netConfig N a) = netProvider N \<and>
     (\<forall>signer. localSigner (netConfig N a) = Some signer \<longrightarrow> signerAddress signer = a)"

definition startOk :: "Network \<Rightarrow> string \<Rightarrow> bool" where
  "startOk N a \<longleftrightarrow> nodeInv (envAt N (netStart N) a) (netStart N a) \<and> (\<forall>e\<in>set (nodeLog (netStart N a)). fresh e)"

definition netOk :: "Network \<Rightarrow> bool" where
  "netOk N \<longleftrightarrow> (\<forall>h. mapOk (netSets N h)) \<and> (\<forall>a\<in>netHonest N. configOk N a \<and> startOk N a) \<and>
     (\<forall>b\<in>netBlocks N. \<forall>b'\<in>netBlocks N. blockHash b = blockHash b' \<longrightarrow> blockIndex b = blockIndex b')"

definition faultyBound :: "Network \<Rightarrow> u64 \<Rightarrow> bool" where
  "faultyBound N h \<longleftrightarrow> (\<exists>t. totalConsensusWeight (netSets N h) = Inr t \<and>
     3 * weightOfSet (netSets N h) (set (validatorAddresses (netSets N h)) - netHonest N) \<le> unat t)"

subsection \<open>The invariant along a run\<close>

lemma releases_mono: "envSha E = envSha E' \<Longrightarrow> envSets E = envSets E' \<Longrightarrow> envConfig E = envConfig E' \<Longrightarrow>
    envCerts E \<subseteq> envCerts E' \<Longrightarrow> releases E h r x \<Longrightarrow> releases E' h r x"
  by (auto simp: releases_def)

lemma nodeInv_mono:
  assumes inv: "nodeInv E n" and same: "envSha E' = envSha E" "envSets E' = envSets E" "envConfig E' = envConfig E"
      "envBlocks E' = envBlocks E"
    and more: "envCerts E \<subseteq> envCerts E'" and now: "prefix (envLog E') (nodeLog n)" "set (envSent E') \<subseteq> set (nodeSent n)"
  shows "nodeInv E' n"
proof -
  have j: "journal (releases E' k) L" if "journal (releases E k) L" for k L
    using journal_mono [OF that] releases_mono [of E E'] same more by simp
  have "logOk E' h log" if "logOk E h log" "prefix (envLog E') log" for h log
    using that j same by (auto simp: logOk_def ownVote_def)
  then have disk: "diskInv E' (loopOf n)" using nodeInv_disk [OF inv] same now by (simp add: diskInv_def finVerified_def)
  have "candidatesOk E' s" if "candidatesOk E s" for s
    using that more same by (auto simp: candidatesOk_def proposalOk_def)
  then show ?thesis using disk inv by (cases n) (auto simp: loopInv_def)
qed

definition netInv :: "Network \<Rightarrow> moment \<Rightarrow> bool" where
  "netInv N \<sigma> \<longleftrightarrow> (\<forall>a\<in>netHonest N. nodeInv (envAt N \<sigma> a) (\<sigma> a))"

lemma envAt_fields [simp]:
  "envSha (envAt N \<sigma> a) = netSha N" "envConfig (envAt N \<sigma> a) = netConfig N a" "envSets (envAt N \<sigma> a) = netSets N"
  "envBlocks (envAt N \<sigma> a) = netBlocks N" "envLog (envAt N \<sigma> a) = nodeLog (\<sigma> a)" "envSent (envAt N \<sigma> a) = nodeSent (\<sigma> a)"
  by (simp_all add: envAt_def)

lemma step_acts:
  assumes "netInv N \<sigma>" and "netLegal N \<sigma> step"
  shows "nodeInv (envAt N \<sigma> (fst step)) (netStep N step \<sigma> (fst step))"
  using nodeStep_inv [of "envAt N \<sigma> (fst step)" "\<sigma> (fst step)" "snd step"] assms
  by (simp add: netInv_def netLegal_def netStep_def)

lemma step_grows:
  assumes "netInv N \<sigma>" and "netLegal N \<sigma> step"
  shows "prefix (nodeLog (\<sigma> b)) (nodeLog (netStep N step \<sigma> b))"
    and "set (nodeSent (\<sigma> b)) \<subseteq> set (nodeSent (netStep N step \<sigma> b))"
proof -
  note disk = nodeInv_disk [OF step_acts [OF assms]]
  show "prefix (nodeLog (\<sigma> b)) (nodeLog (netStep N step \<sigma> b))"
    using disk by (cases "b = fst step") (auto simp: diskInv_def logOk_def netStep_def)
  show "set (nodeSent (\<sigma> b)) \<subseteq> set (nodeSent (netStep N step \<sigma> b))"
    using disk by (cases "b = fst step") (auto simp: diskInv_def netStep_def)
qed

lemma unforged_mono:
  "unforged N \<sigma> c \<Longrightarrow> (\<And>b. set (nodeSent (\<sigma> b)) \<subseteq> set (nodeSent (\<sigma>' b))) \<Longrightarrow> unforged N \<sigma>' c"
  by (auto simp: unforged_def)

lemma step_inv:
  assumes inv: "netInv N \<sigma>" and legal: "netLegal N \<sigma> step"
  shows "netInv N (netStep N step \<sigma>)"
  unfolding netInv_def
proof
  fix b assume b: "b \<in> netHonest N"
  let ?\<sigma> = "netStep N step \<sigma>"
  have old: "nodeInv (envAt N \<sigma> b) (?\<sigma> b)"
    using inv b step_acts [OF inv legal] by (cases "b = fst step") (simp_all add: netInv_def netStep_def)
  show "nodeInv (envAt N ?\<sigma> b) (?\<sigma> b)"
  proof (rule nodeInv_mono [OF old])
    have "unforged N ?\<sigma> c" if "unforged N \<sigma> c" for c
      using unforged_mono [OF that] step_grows(2) [OF inv legal] by blast
    then show "envCerts (envAt N \<sigma> b) \<subseteq> envCerts (envAt N ?\<sigma> b)" by (auto simp: envAt_def)
  qed simp_all
qed

lemma stateAt_Suc:
  "stateAt N steps (Suc t) = (if t < length steps then netStep N (steps ! t) (stateAt N steps t) else stateAt N steps t)"
  by (simp add: stateAt_def take_Suc_conv_app_nth)

lemma network_inv:
  assumes "netOk N" and "legalRun N steps"
  shows "netInv N (stateAt N steps t)"
proof (induction t)
  case 0
  then show ?case using assms(1) by (simp add: stateAt_def netInv_def netOk_def startOk_def)
next
  case (Suc t)
  then show ?case using step_inv [OF Suc] assms(2) by (simp add: stateAt_Suc legalRun_def)
qed

lemma run_grows:
  assumes "netOk N" and "legalRun N steps" and "t \<le> t'"
  shows "prefix (nodeLog (stateAt N steps t b)) (nodeLog (stateAt N steps t' b))"
  using assms(3)
proof (induction rule: dec_induct)
  case (step n)
  have "prefix (nodeLog (stateAt N steps n b)) (nodeLog (stateAt N steps (Suc n) b))"
    using step_grows(1) [OF network_inv [OF assms(1,2)]] assms(2) by (simp add: stateAt_Suc legalRun_def)
  then show ?case using step.IH by simp
qed simp

lemma run_sent:
  assumes "netOk N" and "legalRun N steps" and "t \<le> t'"
  shows "set (nodeSent (stateAt N steps t b)) \<subseteq> set (nodeSent (stateAt N steps t' b))"
  using assms(3)
proof (induction rule: dec_induct)
  case (step n)
  have "set (nodeSent (stateAt N steps n b)) \<subseteq> set (nodeSent (stateAt N steps (Suc n) b))"
    using step_grows(2) [OF network_inv [OF assms(1,2)]] assms(2) by (simp add: stateAt_Suc legalRun_def)
  then show ?case using step.IH by simp
qed simp

subsection \<open>What a validator has voted\<close>

definition prevotedAt :: "Network \<times> (string \<times> NodeEvent) list \<times> u64 \<Rightarrow> nat \<Rightarrow> string \<Rightarrow> nat \<Rightarrow> string \<Rightarrow> bool" where
  "prevotedAt \<rho> t a r x \<longleftrightarrow> (case \<rho> of (N, steps, h) \<Rightarrow>
     \<exists>e\<in>set (heightLog h (nodeLog (stateAt N steps t a))). unat (rsRound e) = r \<and>
       (\<exists>v. rsPrevote e = Some v \<and> voteHash v = x))"

definition precommittedAt :: "Network \<times> (string \<times> NodeEvent) list \<times> u64 \<Rightarrow> nat \<Rightarrow> string \<Rightarrow> nat \<Rightarrow> string \<Rightarrow> bool" where
  "precommittedAt \<rho> t a r x \<longleftrightarrow> (case \<rho> of (N, steps, h) \<Rightarrow>
     \<exists>e\<in>set (heightLog h (nodeLog (stateAt N steps t a))). unat (rsRound e) = r \<and>
       (\<exists>v. rsPrecommit e = Some v \<and> voteHash v = x))"

definition runOk :: "Network \<times> (string \<times> NodeEvent) list \<times> u64 \<Rightarrow> bool" where
  "runOk \<rho> \<longleftrightarrow> (case \<rho> of (N, steps, h) \<Rightarrow> netOk N \<and> legalRun N steps \<and> faultyBound N h)"

definition runHonest :: "Network \<times> (string \<times> NodeEvent) list \<times> u64 \<Rightarrow> string set" where
  "runHonest \<rho> = netHonest (fst \<rho>)"

definition runQuorum :: "Network \<times> (string \<times> NodeEvent) list \<times> u64 \<Rightarrow> string set \<Rightarrow> bool" where
  "runQuorum \<rho> A \<longleftrightarrow> (case \<rho> of (N, steps, h) \<Rightarrow> finite A \<and> regOk (netSha N) (netSets N h) \<and>
     (\<exists>t. totalConsensusWeight (netSets N h) = Inr t \<and> 2 * unat t < 3 * weightOfSet (netSets N h) A))"

lemma quorum_honest_overlap:
  assumes ok: "runOk \<rho>" and "runQuorum \<rho> A" and "runQuorum \<rho> B"
  shows "\<exists>v\<in>runHonest \<rho>. v \<in> A \<and> v \<in> B"
proof (rule ccontr)
  assume none: "\<not> ?thesis"
  obtain N steps h where \<rho>: "\<rho> = (N, steps, h)" by (metis prod_cases3)
  let ?reg = "netSets N h" and ?F = "set (validatorAddresses (netSets N h)) - netHonest N"
  obtain t where t: "totalConsensusWeight ?reg = Inr t" "3 * weightOfSet ?reg ?F \<le> unat t"
    using ok by (auto simp: \<rho> runOk_def faultyBound_def)
  have reg: "regOk (netSha N) ?reg" and fin: "finite A" "finite B"
    and w: "2 * unat t < 3 * weightOfSet ?reg A" "2 * unat t < 3 * weightOfSet ?reg B"
    using assms(2,3) t(1) by (auto simp: \<rho> runQuorum_def)
  have "weightOfSet ?reg A + weightOfSet ?reg B \<le> unat t + weightOfSet ?reg (A \<inter> B)"
    by (rule vs.quorum_overlap [OF reg t(1) fin])
  moreover have "weightOfSet ?reg (A \<inter> B) \<le> weightOfSet ?reg ?F"
  proof -
    have "weightOfSet ?reg (A \<inter> B) = weightOfSet ?reg (A \<inter> B \<inter> set (eligibleValidatorAddresses ?reg))"
      using vs.weightSum_eligible [of "A \<inter> B" ?reg] fin by simp
    also have "\<dots> \<le> weightOfSet ?reg ?F"
      using none by (intro sum_mono2) (auto simp: \<rho> runHonest_def validatorAddresses_def eligibleValidatorAddresses_def addressesWhere_def)
    finally show ?thesis .
  qed
  ultimately show False using w t(2) by linarith
qed

text \<open>What a run knows of an honest validator at a moment.\<close>

lemma runOkD: "runOk (N, steps, h) \<Longrightarrow> netOk N" "runOk (N, steps, h) \<Longrightarrow> legalRun N steps"
  by (simp_all add: runOk_def)

lemma honest_log:
  fixes t :: nat
  assumes run: "netOk N" "legalRun N steps" and a: "a \<in> netHonest N"
  defines "n \<equiv> stateAt N steps t a"
  shows "diskInv (envAt N (stateAt N steps t) a) (loopOf n)"
    and "heightLog k (nodeLog n) \<noteq> [] \<Longrightarrow> journal (releases (envAt N (stateAt N steps t) a) k) (heightLog k (nodeLog n))"
    and "e \<in> set (nodeLog n) \<Longrightarrow> rsValid e"
proof -
  have "nodeInv (envAt N (stateAt N steps t) a) n"
    using network_inv [OF run, of t] a by (simp add: netInv_def n_def)
  then show disk: "diskInv (envAt N (stateAt N steps t) a) (loopOf n)" by (rule nodeInv_disk)
  then show j: "journal (releases (envAt N (stateAt N steps t) a) k) (heightLog k (nodeLog n))"
    if "heightLog k (nodeLog n) \<noteq> []" for k
    using that by (simp add: diskInv_def logOk_def)
  show "rsValid e" if "e \<in> set (nodeLog n)" using disk_entry_valid [OF disk] that by blast
qed

lemma honest_rounds:
  assumes "netOk N" and "legalRun N steps" and "a \<in> netHonest N"
  shows "sorted_wrt (\<lambda>p e. rsRound p \<le> rsRound e) (heightLog k (nodeLog (stateAt N steps t a)))"
  using journal_rounds [OF honest_log(2) [OF assms]] by (cases "heightLog k (nodeLog (stateAt N steps t a)) = []") auto

text \<open>A vote in the recovery file is in the entry of its height and round.\<close>

lemma logged_entry:
  assumes run: "netOk N" "legalRun N steps" and a: "a \<in> netHonest N"
    and v: "logged (nodeLog (stateAt N steps t a)) v"
  obtains e where "e \<in> set (heightLog (voteIndex v) (nodeLog (stateAt N steps t a)))" "rsRound e = voteRound v"
    "voteDecision v = PREVOTE \<and> rsPrevote e = Some v \<or> voteDecision v = PRECOMMIT \<and> rsPrecommit e = Some v"
proof -
  obtain e where e: "e \<in> set (nodeLog (stateAt N steps t a))" "rsPrevote e = Some v \<or> rsPrecommit e = Some v"
    using v by (auto simp: logged_def)
  note valid = honest_log(3) [OF run a e(1)]
  have "rsHeight e = voteIndex v" "rsRound e = voteRound v"
    "voteDecision v = PREVOTE \<and> rsPrevote e = Some v \<or> voteDecision v = PRECOMMIT \<and> rsPrecommit e = Some v"
    using e(2) rsValidD(4,5) [OF valid] by (auto simp: isPersistedRoundVote_def)
  then show ?thesis using e(1) by (intro that [of e]) (simp_all add: set_heightLog)
qed

lemma sent_logged:
  assumes run: "netOk N" "legalRun N steps" and a: "a \<in> netHonest N"
    and v: "v \<in> set (nodeSent (stateAt N steps t a))" "voteDecision v \<in> {PREVOTE, PRECOMMIT}"
  shows "logged (nodeLog (stateAt N steps t a)) v" and "ownVote (envAt N (stateAt N steps t) a) v"
proof -
  note disk = honest_log(1) [OF run a, of t]
  show log: "logged (nodeLog (stateAt N steps t a)) v" using disk v by (auto simp: diskInv_def sentOk_def)
  then show "ownVote (envAt N (stateAt N steps t) a) v" using disk by (simp add: diskInv_def logOk_def)
qed

lemma sent_precommit:
  assumes ok: "runOk (N, steps, h)" and a: "a \<in> netHonest N"
    and v: "v \<in> set (nodeSent (stateAt N steps t a))" "voteDecision v = PRECOMMIT"
  shows "\<exists>e\<in>set (heightLog (voteIndex v) (nodeLog (stateAt N steps t a))). rsPrecommit e = Some v \<and> rsRound e = voteRound v"
    and "\<exists>b\<in>netBlocks N. blockIndex b = voteIndex v \<and> blockHash b = voteHash v"
proof -
  note sent = sent_logged [OF runOkD [OF ok] a v(1)]
  show "\<exists>b\<in>netBlocks N. blockIndex b = voteIndex v \<and> blockHash b = voteHash v" using sent(2) v(2) by (simp add: ownVote_def)
  show "\<exists>e\<in>set (heightLog (voteIndex v) (nodeLog (stateAt N steps t a))). rsPrecommit e = Some v \<and> rsRound e = voteRound v"
    using logged_entry [OF runOkD [OF ok] a sent(1)] v(2) by auto
qed

lemma verified_quorum:
  assumes ok: "runOk (N, steps, h)" and c: "verifies N h c"
  shows "runQuorum (N, steps, h) (votersOf (certVotes c))"
proof -
  have "mapOk (netSets N h)" using ok by (simp add: runOk_def netOk_def)
  from verified_certificate [OF this c [unfolded verifies_def]] show ?thesis by (auto simp: runQuorum_def)
qed

lemma cert_votes:
  assumes ok: "runOk (N, steps, h)" and c: "verifies N h c" and v: "v \<in> set (certVotes c)"
  shows "voteIndex v = certIndex c" "voteHash v = certHash c" "voteRound v = certRound c" "voteDecision v = PRECOMMIT"
proof -
  have "mapOk (netSets N h)" using ok by (simp add: runOk_def netOk_def)
  then have "buildableVote (netSha N) (netSets N h) (netPolicy N) (netProvider N) (certIndex c) (certHash c) (certPrevious c)
      (certRound c) v"
    using verified_certificate [OF _ c [unfolded verifies_def]] v by metis
  then show "voteIndex v = certIndex c" "voteHash v = certHash c" "voteRound v = certRound c" "voteDecision v = PRECOMMIT"
    by (auto simp: buildableVote_def matchesBlock_def)
qed

text \<open>The honest voters of a verified certificate have precommitted to its block.\<close>

lemma cert_precommitted:
  assumes ok: "runOk (N, steps, h)" and c: "verifies N h c" "certIndex c = h" "unforged N (stateAt N steps t) c"
    and a: "a \<in> votersOf (certVotes c)" "a \<in> netHonest N"
  shows "precommittedAt (N, steps, h) t a (unat (certRound c)) (certHash c)"
proof -
  obtain v where v: "v \<in> set (certVotes c)" "voteAddress v = a" using a(1) by auto
  note f = cert_votes [OF ok c(1) v(1)]
  have "v \<in> set (nodeSent (stateAt N steps t a))" using c(3) v a(2) by (auto simp: unforged_def)
  from sent_precommit(1) [OF ok a(2) this f(4)] obtain e where
    "e \<in> set (heightLog h (nodeLog (stateAt N steps t a)))" "rsPrecommit e = Some v" "rsRound e = certRound c"
    using f c(2) by auto
  then show ?thesis unfolding precommittedAt_def using f(2) by (auto intro!: bexI [of _ e])
qed

text \<open>A certificate for the hash of a block of the height is a certificate of that height.\<close>

lemma cert_height:
  assumes ok: "runOk (N, steps, h)" and c: "verifies N h c" "unforged N (stateAt N steps t) c"
    and b: "b \<in> netBlocks N" "blockIndex b = h" "blockHash b = certHash c"
  shows "certIndex c = h"
proof -
  obtain a where a: "a \<in> netHonest N" "a \<in> votersOf (certVotes c)"
    using quorum_honest_overlap [OF ok] verified_quorum [OF ok c(1)] by (fastforce simp: runHonest_def)
  then obtain v where v: "v \<in> set (certVotes c)" "voteAddress v = a" by auto
  note f = cert_votes [OF ok c(1) v(1)]
  have "v \<in> set (nodeSent (stateAt N steps t a))" using c(2) v a(1) by (auto simp: unforged_def)
  from sent_precommit(2) [OF ok a(1) this f(4)] obtain b' where
    "b' \<in> netBlocks N" "blockIndex b' = certIndex c" "blockHash b' = certHash c" using f by auto
  moreover have "\<And>b b'. b \<in> netBlocks N \<Longrightarrow> b' \<in> netBlocks N \<Longrightarrow> blockHash b = blockHash b' \<Longrightarrow> blockIndex b = blockIndex b'"
    using ok unfolding runOk_def netOk_def prod.case by blast
  ultimately show ?thesis using b by metis
qed

subsection \<open>The voting laws\<close>

lemma early_in_prefix:
  assumes "prefix L L'" and "sorted_wrt (\<lambda>p e. rsRound p \<le> rsRound e) L'" and "e \<in> set L" and "q \<in> set L'"
    and "rsRound q < rsRound e"
  shows "q \<in> set L"
proof (rule ccontr)
  assume "q \<notin> set L"
  moreover obtain M where "L' = L @ M" using assms(1) by (auto simp: prefix_def)
  ultimately have "rsRound e \<le> rsRound q" using assms(2-4) by (auto simp: sorted_wrt_append)
  then show False using assms(5) by simp
qed

lemma new_prevote_step:
  assumes "prevotedAt (N, steps, h) (Suc t) a r y" and "\<not> prevotedAt (N, steps, h) t a r y"
  shows "t < length steps" and "fst (steps ! t) = a"
  using assms by (auto simp: prevotedAt_def stateAt_Suc netStep_def split: if_splits)

lemma prevote_guard:
  assumes ok: "runOk (N, steps, h)" and a: "a \<in> netHonest N"
    and new: "prevotedAt (N, steps, h) (Suc t) a r y" "\<not> prevotedAt (N, steps, h) t a r y"
    and pre: "precommittedAt (N, steps, h) t' a r0 x" and less: "r0 < r"
  shows "\<exists>r1 z. r0 \<le> r1 \<and> r1 < r \<and> precommittedAt (N, steps, h) (Suc t) a r1 z \<and>
    (y = z \<or> (\<exists>A r2. runQuorum (N, steps, h) A \<and> r1 \<le> r2 \<and>
       (\<forall>b\<in>A \<inter> netHonest N. precommittedAt (N, steps, h) t b r2 y)))"
proof -
  let ?\<sigma> = "stateAt N steps t" and ?E = "envAt N (stateAt N steps t) a"
  define L where "L = heightLog h (nodeLog (stateAt N steps (Suc t) a))"
  have run: "netOk N" "legalRun N steps" using ok by (simp_all add: runOk_def)
  note act = new_prevote_step [OF new]
  obtain e v where e: "e \<in> set L" "rsPrevote e = Some v" "voteHash v = y" "unat (rsRound e) = r"
    using new(1) by (auto simp: prevotedAt_def L_def)
  obtain q w where q: "q \<in> set (heightLog h (nodeLog (stateAt N steps t' a)))" "rsPrecommit q = Some w"
    "voteHash w = x" "unat (rsRound q) = r0" using pre by (auto simp: precommittedAt_def)
  have "nodeInv ?E (stateAt N steps (Suc t) a)"
    using step_acts [OF network_inv [OF run, of t], of "steps ! t"] act run(2) by (simp add: stateAt_Suc legalRun_def)
  then have log: "logOk ?E (nextHeight (elChain (loopOf (stateAt N steps (Suc t) a)))) (nodeLog (stateAt N steps (Suc t) a))"
    using nodeInv_disk unfolding diskInv_def by blast
  have ne: "L \<noteq> []" using e(1) by auto
  have j: "journal (releases ?E h) L" using log ne by (simp add: logOk_def L_def)
  have qL: "q \<in> set L"
  proof -
    let ?L' = "heightLog h (nodeLog (stateAt N steps (max t' (Suc t)) a))"
    have "prefix L ?L'" "prefix (heightLog h (nodeLog (stateAt N steps t' a))) ?L'"
      unfolding L_def heightLog_def by (intro filter_mono_prefix run_grows [OF run]; simp)+
    then show ?thesis
      using early_in_prefix [OF _ honest_rounds [OF run a, where t = "max t' (Suc t)" and k = h] e(1), of q] q(1,4) e(4) less
      by (auto simp: word_less_nat_alt dest: set_mono_prefix)
  qed
  obtain P p e0 S where split: "L = P @ [p, e0] @ S" and jp: "journal (releases ?E h) (P @ [p])"
    and allowed: "prevoteAllowed (releases ?E h) p e0" "newPrevote p e0 v" and r0: "rsRound e0 = rsRound e"
    using journal_prevote_origin [OF j e(1,2)] by blast
  have sorted: "sorted_wrt (\<lambda>p e. rsRound p \<le> rsRound e) L" by (rule journal_rounds [OF j])
  have "rsRound q < rsRound e0" using q(4) e(4) less r0 by (simp add: word_less_nat_alt)
  then have qp: "q \<in> set (P @ [p])" using qL sorted unfolding split by (auto simp: sorted_wrt_append)
  have "rsRound p \<le> rsRound e0" using sorted unfolding split by (auto simp: sorted_wrt_append)
  from prevote_after_precommit [OF jp allowed(2,1) qp q(2) this] obtain q' w' where
    q': "q' \<in> set (P @ [p])" "rsPrecommit q' = Some w'" "rsRound q \<le> rsRound q'" "rsRound q' < rsRound e0"
    and release: "voteHash w' = y \<or> releases ?E h (rsRound q') y"
    using e(3) by blast
  have "q' \<in> set L" using q'(1) split by auto
  then have pc: "precommittedAt (N, steps, h) (Suc t) a (unat (rsRound q')) (voteHash w')"
    using q'(2) by (auto simp: precommittedAt_def L_def)
  have rounds: "r0 \<le> unat (rsRound q')" "unat (rsRound q') < r"
    using q'(3,4) q(4) r0 e(4) by (simp_all add: word_le_nat_alt word_less_nat_alt)
  have "\<exists>A r2. runQuorum (N, steps, h) A \<and> unat (rsRound q') \<le> r2 \<and>
      (\<forall>b\<in>A \<inter> netHonest N. precommittedAt (N, steps, h) t b r2 y)" if rel: "releases ?E h (rsRound q') y"
  proof -
    obtain c where c: "verifies N h c" "unforged N ?\<sigma> c" "rsRound q' \<le> certRound c" "certHash c = y"
      using rel run(1) a by (auto simp: releases_def envAt_def verifies_def netOk_def configOk_def)
    have "logged (nodeLog (stateAt N steps (Suc t) a)) v" using e(1,2) by (auto simp: logged_def L_def set_heightLog)
    then have own: "ownVote ?E v" using log by (simp add: logOk_def)
    have "voteIndex v = h"
      using rsValidD(4) [OF journal_valid [OF j e(1)] e(2)] e(1) by (simp add: isPersistedRoundVote_def L_def set_heightLog)
    then have idx: "certIndex c = h"
      using own cert_height [OF ok c(1,2)] c(4) e(3) by (auto simp: ownVote_def)
    show ?thesis
      using verified_quorum [OF ok c(1)] cert_precommitted [OF ok c(1) idx c(2)] c(3,4)
      by (intro exI [of _ "votersOf (certVotes c)"] exI [of _ "unat (certRound c)"]) (auto simp: word_le_nat_alt)
  qed
  then show ?thesis using release rounds pc by (intro exI [of _ "unat (rsRound q')"] exI [of _ "voteHash w'"]) auto
qed

interpretation agree: locked_voting runOk runHonest runQuorum prevotedAt precommittedAt
proof
  fix \<rho> :: "Network \<times> (string \<times> NodeEvent) list \<times> u64" and v r x y t t' r0
  assume "runOk \<rho>"
  obtain N steps h where \<rho>: "\<rho> = (N, steps, h)" by (metis prod_cases3)
  note ok = \<open>runOk \<rho>\<close> [unfolded \<rho>]
  note run = ok [unfolded runOk_def prod.case]
  show "\<exists>v\<in>runHonest \<rho>. v \<in> A \<and> v \<in> B" if "runQuorum \<rho> A" "runQuorum \<rho> B" for A B
    using quorum_honest_overlap [OF \<open>runOk \<rho>\<close> that] .
  assume "v \<in> runHonest \<rho>"
  then have v: "v \<in> netHonest N" by (simp add: runHonest_def \<rho>)
  show "\<not> prevotedAt \<rho> 0 v r x"
    using run v by (auto simp: \<rho> prevotedAt_def stateAt_def netOk_def startOk_def set_heightLog fresh_def)
  show "precommittedAt \<rho> (Suc t) v r x" if "precommittedAt \<rho> t v r x"
  proof -
    have "set (nodeLog (stateAt N steps t v)) \<subseteq> set (nodeLog (stateAt N steps (Suc t) v))"
      using run_grows [of N steps t "Suc t" v] run by (intro set_mono_prefix) simp
    then have "set (heightLog h (nodeLog (stateAt N steps t v))) \<subseteq> set (heightLog h (nodeLog (stateAt N steps (Suc t) v)))"
      by (auto simp: set_heightLog)
    then show ?thesis using that unfolding \<rho> precommittedAt_def prod.case by blast
  qed
  show "x = y" if both: "precommittedAt \<rho> t v r x" "precommittedAt \<rho> t v r y"
  proof -
    obtain e w e' w' where e: "e \<in> set (heightLog h (nodeLog (stateAt N steps t v)))" "unat (rsRound e) = r"
        "rsPrecommit e = Some w" "voteHash w = x"
      and e': "e' \<in> set (heightLog h (nodeLog (stateAt N steps t v)))" "unat (rsRound e') = r"
        "rsPrecommit e' = Some w'" "voteHash w' = y"
      using both by (auto simp: \<rho> precommittedAt_def)
    have "rsRound e = rsRound e'" using e(2) e'(2) by (simp add: word_unat_eq_iff)
    moreover have "heightLog h (nodeLog (stateAt N steps t v)) \<noteq> []" using e(1) by auto
    ultimately have "w = w'" using journal_one_precommit [OF honest_log(2) [OF runOkD [OF ok] v] e(1) e'(1) _ e(3) e'(3)] by blast
    then show ?thesis using e(4) e'(4) by simp
  qed
  show "prevotedAt \<rho> t v r x" if pc: "precommittedAt \<rho> t v r x"
  proof -
    obtain e w where e: "e \<in> set (heightLog h (nodeLog (stateAt N steps t v)))" "unat (rsRound e) = r"
      "rsPrecommit e = Some w" "voteHash w = x" using pc by (auto simp: \<rho> precommittedAt_def)
    have "rsValid e" using honest_log(3) [OF runOkD [OF ok] v] e(1) unfolding set_heightLog by blast
    then obtain u where "rsPrevote e = Some u" "voteHash u = x" using rsValidD(5) e(3,4) by blast
    then show ?thesis using e(1,2) by (auto simp: \<rho> prevotedAt_def)
  qed
  show "\<exists>r1 z. r0 \<le> r1 \<and> r1 < r \<and> precommittedAt \<rho> (Suc t) v r1 z \<and>
      (y = z \<or> (\<exists>A r2. runQuorum \<rho> A \<and> r1 \<le> r2 \<and> (\<forall>a\<in>A \<inter> runHonest \<rho>. precommittedAt \<rho> t a r2 y)))"
    if "prevotedAt \<rho> (Suc t) v r y" "\<not> prevotedAt \<rho> t v r y" "precommittedAt \<rho> t' v r0 x" "r0 < r"
    using prevote_guard [OF ok v] that by (simp add: \<rho> runHonest_def)
qed

lemma cert_committed:
  assumes "runOk (N, steps, h)" and "verifies N h c" and "certIndex c = h" and "unforged N (stateAt N steps t) c"
  shows "agree.committed (N, steps, h) t (votersOf (certVotes c)) (unat (certRound c)) (certHash c)"
  using verified_quorum [OF assms(1,2)] cert_precommitted [OF assms]
  by (auto simp: agree.committed_def runHonest_def)

subsection \<open>Safety of the network\<close>

text \<open>
  C3: No equivocation, across crashes. Whatever the environment delivers and however often a
  validator restarts, of the votes it hands to gossip there is at most one prevote and at most one
  precommit per height and round, and each of them was in its recovery file.
\<close>

theorem votes_persisted_and_unique:
  assumes "netOk N" and "legalRun N steps" and "a \<in> netHonest N"
    and "v \<in> set (nodeSent (stateAt N steps t a))" and "v' \<in> set (nodeSent (stateAt N steps t a))"
    and "voteDecision v \<in> {PREVOTE, PRECOMMIT}" and "voteDecision v' = voteDecision v"
    and "voteIndex v' = voteIndex v" and "voteRound v' = voteRound v"
  shows "v' = v \<and> logged (nodeLog (stateAt N steps t a)) v"
proof -
  let ?log = "nodeLog (stateAt N steps t a)"
  have l: "logged ?log v" "logged ?log v'" using sent_logged(1) [OF assms(1-3)] assms(4-7) by auto
  obtain e where e: "e \<in> set (heightLog (voteIndex v) ?log)" "rsRound e = voteRound v"
    "voteDecision v = PREVOTE \<and> rsPrevote e = Some v \<or> voteDecision v = PRECOMMIT \<and> rsPrecommit e = Some v"
    using logged_entry [OF assms(1-3) l(1)] .
  obtain e' where e': "e' \<in> set (heightLog (voteIndex v) ?log)" "rsRound e' = voteRound v"
    "voteDecision v = PREVOTE \<and> rsPrevote e' = Some v' \<or> voteDecision v = PRECOMMIT \<and> rsPrecommit e' = Some v'"
    using logged_entry [OF assms(1-3) l(2)] assms(7-9) by metis
  have "heightLog (voteIndex v) ?log \<noteq> []" using e(1) by auto
  note j = honest_log(2) [OF assms(1-3) this]
  have "v' = v"
    using journal_one_prevote [OF j e'(1) e(1)] journal_one_precommit [OF j e'(1) e(1)] e(2,3) e'(2,3) by auto
  then show ?thesis using l(1) by simp
qed


text \<open>
  C1: Agreement on finalized blocks. In such a network the finalization registries of two honest
  validators never hold different blocks for one height, provided the certificates in the two
  records contain no vote of an honest validator that this validator did not send.
\<close>

theorem finalized_blocks_agree:
  assumes "netOk N" and "legalRun N steps" and "faultyBound N h"
    and "a \<in> netHonest N" and "recordForHeight (elFinalized (loopOf (stateAt N steps t a))) h = Some f"
    and "unforged N (stateAt N steps t) (finCertificate f)"
    and "b \<in> netHonest N" and "recordForHeight (elFinalized (loopOf (stateAt N steps t' b))) h = Some f'"
    and "unforged N (stateAt N steps t') (finCertificate f')"
  shows "finHash f = finHash f'"
proof -
  have rec: "verifies N h (finCertificate g) \<and> certIndex (finCertificate g) = h \<and> certHash (finCertificate g) = finHash g"
    if v: "v \<in> netHonest N" "recordForHeight (elFinalized (loopOf (stateAt N steps k v))) h = Some g" for v g k
  proof -
    note disk = honest_log(1) [OF assms(1,2) v(1), of k]
    have m: "map_of (elFinalized (loopOf (stateAt N steps k v))) h = Some g" using v(2) by (simp add: recordForHeight_def)
    have "finRegistryValid (elFinalized (loopOf (stateAt N steps k v)))" using disk by (simp add: diskInv_def finOk_def)
    from finRegistryValidD [OF this m] have "certIndex (finCertificate g) = h" "certHash (finCertificate g) = finHash g"
      by (auto simp: finStructurallyValid_def split: if_splits)
    moreover have "configOk N v" using assms(1) v(1) by (simp add: netOk_def)
    then have "verifies N h (finCertificate g)" using disk m by (simp add: diskInv_def finVerified_def verifies_def configOk_def)
    ultimately show ?thesis by simp
  qed
  have ok: "runOk (N, steps, h)" using assms(1-3) by (simp add: runOk_def)
  have "certHash (finCertificate f) = certHash (finCertificate f')"
    using agree.agreement [OF ok cert_committed [OF ok] cert_committed [OF ok]] rec [OF assms(4,5)] rec [OF assms(7,8)] assms(6,9)
    by blast
  then show ?thesis using rec [OF assms(4,5)] rec [OF assms(7,8)] by simp
qed

end
