(* ===== verification/NetworkDemo.thy ===== *)
theory NetworkDemo
  imports Network
begin

section \<open>A run of a network of one validator\<close>

text \<open>
  One validator that receives a proposal, prevotes, precommits and commits the block with the
  certificate made of its precommit: the circumstances the network theorems assume do occur.
\<close>

definition soloSet :: ValidatorRegistry where
  "soloSet = [(demoAddr CHR ''f'', demoEntry CHR ''f'' 3000000)]"

definition soloHistory :: ValidatorSetHistory where
  "soloHistory = \<lparr>firstHeight = 1, highestHeight = 3, setsByHeight = [(1, soloSet)]\<rparr>"

definition soloProvider :: SignatureProvider where
  "soloProvider = demoProvider\<lparr>provSign := (\<lambda>m pk key t d. Inr (demoSignature CHR ''f''))\<rparr>"

definition soloSigner :: Signer where
  "soloSigner = \<lparr>signerAddress = demoAddr CHR ''f'', signerPublicKey = demoKey CHR ''f'', signerPrivateKey = ''key'',
     signerProvider = soloProvider\<rparr>"

definition soloParams :: NetworkParameters where
  "soloParams = \<lparr>paramChainId = ''nodo-solo'', proposalTimeoutMs = 10000, prevoteTimeoutMs = 10000, precommitTimeoutMs = 10000,
     targetBlockTimeSeconds = 5, quorumThresholdNumerator = 2, quorumThresholdDenominator = 3, genesisTimestamp = 5\<rparr>"

definition soloConfig :: LoopConfig where
  "soloConfig = \<lparr>netParams = soloParams, loopPolicy = demoPolicy, loopProvider = soloProvider, runtimePolicy = demoPolicy,
     runtimeVoteProvider = soloProvider, runtimeProvider = soloProvider, localSigner = Some soloSigner, recoveryPathSet = True\<rparr>"

definition soloRound :: ConsensusRoundState where
  "soloRound = newRoundState 1 1 (demoAddr CHR ''f'') 8"

definition soloLoop :: EventLoop where
  "soloLoop = (newLoop (pushBlock demoGenesis emptyChain) [] soloHistory
     (emptyManager\<lparr>mgrState := soloRound, mgrCollector := newCollector 1 1\<rparr>) emptyEvidencePool [soloRound] [])\<lparr>elLastHeight := 1\<rparr>"

definition soloProposal :: BlockProposal where
  "soloProposal = \<lparr>propIndex = 1, propRound = 1, propHash = replicate 64 CHR ''f'', propProposer = demoAddr CHR ''f'',
     propBlock = demoChild CHR ''f'', propJustification = NoJustification\<rparr>"

definition soloInput :: TickInput where
  "soloInput = \<lparr>tickNow = 9, tickVotes = [], tickProposals = [soloProposal], proposalWellFormed = (\<lambda>_. True),
     proposalVerifies = (\<lambda>_ _ _. True), candidateAccepted = (\<lambda>_. True), gossipEvidence = id,
     admitEquivocation = (\<lambda>_ _ e. e), evidenceStore = None, diskOk = (\<lambda>_. True), pipelineAccepts = (\<lambda>_. False),
     executedRegistry = soloSet, snapshotReached = True, persistSucceeds = True\<rparr>"

definition soloVote :: "ValidatorVoteDecision \<Rightarrow> string \<Rightarrow> ValidatorVoteRecord" where
  "soloVote d reason = (demoVote CHR ''f'' d (replicate 64 CHR ''f'') (replicate 64 CHR ''0''))\<lparr>voteReason := reason\<rparr>"

definition soloNet :: Network where
  "soloNet = \<lparr>netSha = demoSha, netPolicy = demoPolicy, netProvider = soloProvider, netConfig = (\<lambda>_. soloConfig),
     netHonest = {demoAddr CHR ''f''}, netSets = (\<lambda>_. soloSet), netBlocks = {demoChild CHR ''f''},
     netStart = (\<lambda>_. Up soloLoop)\<rparr>"

lemma solo_name: "demoName CHR ''f''"
  by (simp add: demoName_def)

lemma solo_set:
  "mapOk soloSet" "map_of soloSet (demoAddr CHR ''f'') = Some (demoEntry CHR ''f'' 3000000)"
  "totalConsensusWeight soloSet = Inr 3000000" "eligibleValidatorAddresses soloSet = [demoAddr CHR ''f'']"
  "consensusWeightFor soloSet (demoAddr CHR ''f'') = 3000000" "isEligibleForConsensus soloSet (demoAddr CHR ''f'')"
  by (simp_all add: soloSet_def) code_simp+

lemma solo_valid: "validatorsValid demoSha soloSet"
proof -
  have "list_all (\<lambda>(a, e). entryAt demoSha a e) soloSet"
    by (simp add: soloSet_def demoEntry_at demoName_def I64_MAX_def)
  moreover have "weightTotal soloSet = 3000000"
    by (simp add: soloSet_def weightTotal_def entryWeight_def eligibleForConsensus_def demoEntry_def
       consensusWeight_def weightFromStake_def MIN_VALIDATOR_STAKE_RAW_UNITS_def)
  ultimately show ?thesis by (simp add: validatorsValid_iff)
qed

lemma solo_identity: "verifyValidatorIdentity demoSha soloSet (demoAddr CHR ''f'') (demoKey CHR ''f'')"
  using demoAddr_owned [OF solo_name] demoKey_valid [of "CHR ''f''"] demoName_hex [OF solo_name]
  by (simp add: verifyValidatorIdentity_def solo_set demoEntry_def demoRecord_def entryActive_def
      publicKeyFingerprint_def isLowerHexDigit_isHexDigit)

lemma solo_history:
  "hasSet soloHistory 1" "setAt soloHistory 1 = Inr soloSet" "hasSet soloHistory 2" "setAt soloHistory 2 = Inr soloSet"
  by (simp_all add: soloHistory_def hasSet_def setAt_def setEntryAt_def floorEntry_def)

lemma solo_proposer: "selectProposer demoSha soloSet chain h r = Inr (demoAddr CHR ''f'')"
proof -
  let ?k = "hexPrefixToUint64 (hashCString demoSha (buildSelectionKey chain h r)) mod 3000000"
  have "?k < 3000000" by (rule word_mod_less_divisor) simp
  moreover have "regOk demoSha soloSet" using solo_set(1) solo_valid by (simp add: regOk_def)
  ultimately show ?thesis
    using proposerForTicket_walk [OF _ solo_set(3), of demoSha ?k]
    by (auto simp: selectProposer_def solo_set Let_def split: if_splits)
qed

lemma solo_reasons: "isSafeScalar ''runtime-block-pipeline-prevote''" "isSafeScalar ''runtime-block-pipeline-precommit''"
  by code_simp+

lemma solo_bound: "isValidatorAddressBoundToPublicKey demoSha (demoAddr CHR ''f'') (demoKey CHR ''f'')"
  using demoAddr_owned [OF solo_name] demoAddr_valid [OF solo_name] by (simp add: isValidatorAddressBoundToPublicKey_def)

lemma solo_key: "publicKeyValid (demoKey CHR ''f'')"
  by (intro demoKey_valid isLowerHexDigit_isHexDigit demoName_hex solo_name)

lemma solo_vote_verify:
  assumes "d \<noteq> Vote_UNKNOWN" and "isSafeScalar reason"
  shows "voteVerify demoSha demoPolicy soloProvider (soloVote d reason)"
    and "voteStructurallyValid demoSha demoPolicy (soloVote d reason)"
proof -
  show str: "voteStructurallyValid demoSha demoPolicy (soloVote d reason)"
    using assms solo_bound solo_key demoAddr_safe [OF solo_name] demoBundle_valid [OF solo_name]
      demo_digest_safe [OF solo_name] demo_digest_safe [of "CHR ''0''"]
    by (simp add: voteStructurallyValid_def soloVote_def demoVote_def demoName_def)
  then obtain m where m: "buildSigningPayload demoSha (soloVote d reason) = Inr m" using payload_total by blast
  then have "m \<noteq> []" by (auto simp: buildSigningPayload_def split: if_splits)
  then show "voteVerify demoSha demoPolicy soloProvider (soloVote d reason)"
    using str m demoBundle_valid [OF solo_name]
    by (simp add: voteVerify_def verifyForPolicy_def) (simp add: soloVote_def demoVote_def soloProvider_def demoProvider_def demoSignature_def)
qed

lemma solo_vote_minimal:
  assumes "d \<noteq> Vote_UNKNOWN" and "isSafeScalar reason"
  shows "isMinimallyValidVote demoSha demoPolicy soloProvider (soloVote d reason)"
  using solo_vote_verify(1) [OF assms] assms(1)
  by (simp add: isMinimallyValidVote_def) (simp add: soloVote_def demoVote_def demoAddr_def)

lemma solo_sign:
  assumes "d \<noteq> Vote_UNKNOWN" and "isSafeScalar reason"
  shows "signValidatorVote demoSha soloSigner 1 (replicate 64 CHR ''f'') (replicate 64 CHR ''0'') 1 d reason 9 = Inr (soloVote d reason)"
proof -
  let ?v = "(soloVote d reason)\<lparr>voteBundle := []\<rparr>"
  obtain m where "buildSigningPayload demoSha (soloVote d reason) = Inr m"
    using payload_total [OF solo_vote_verify(2) [OF assms]] by blast
  moreover have "buildSigningPayload sha (v\<lparr>voteBundle := b\<rparr>) = buildSigningPayload sha v" for sha v b
    by (simp add: buildSigningPayload_def)
  ultimately have "buildSigningPayload demoSha ?v = Inr m" by simp
  moreover have "signatureValid (demoSignature CHR ''f'')"
    using demoBundle_valid [OF solo_name] by (simp add: isValidForPolicy_def)
  ultimately show ?thesis
    by (simp add: signValidatorVote_def createVote_def createSignature_def addSignature_def soloSigner_def soloVote_def
        demoVote_def soloProvider_def)
qed


lemma solo_block:
  "blockIndex (demoChild CHR ''f'') = 1" "blockHash (demoChild CHR ''f'') = replicate 64 CHR ''f''"
  "blockPrevious (demoChild CHR ''f'') = replicate 64 CHR ''0''" "blockTimestamp (demoChild CHR ''f'') = 6"
  by (simp_all add: demoChild_def demoBlock_def)

abbreviation soloPrevote :: ValidatorVoteRecord where
  "soloPrevote \<equiv> soloVote PREVOTE ''runtime-block-pipeline-prevote''"

abbreviation soloPrecommit :: ValidatorVoteRecord where
  "soloPrecommit \<equiv> soloVote PRECOMMIT ''runtime-block-pipeline-precommit''"

lemma solo_build:
  "buildPrevote demoSha soloSet (demoChild CHR ''f'') 1 9 soloSigner = Inr soloPrevote"
  "buildPrecommit demoSha soloSet (demoChild CHR ''f'') 1 9 soloSigner = Inr soloPrecommit"
proof -
  have s: "signerAddress soloSigner = demoAddr CHR ''f''" "signerPublicKey soloSigner = demoKey CHR ''f''"
    by (simp_all add: soloSigner_def)
  show "buildPrevote demoSha soloSet (demoChild CHR ''f'') 1 9 soloSigner = Inr soloPrevote"
    "buildPrecommit demoSha soloSet (demoChild CHR ''f'') 1 9 soloSigner = Inr soloPrecommit"
    by (simp_all add: buildPrevote_def buildPrecommit_def demoChild_valid [OF solo_name] s solo_set solo_identity solo_block
        solo_sign solo_reasons)
qed

text \<open>The vote pool takes both votes.\<close>

lemma solo_first:
  "\<exists>c. submitAndBroadcastSignedVote demoSha soloConfig soloPrevote s =
     (None, s\<lparr>elRounds := (elRounds s)\<lparr>mgrCollector := c\<rparr>, elSent := elSent s @ [soloPrevote, soloPrevote]\<rparr>) \<and>
     c = (newCollector 1 1)\<lparr>collectorPool := addVote demoSha soloPrevote emptyPool\<rparr>"
  if "mgrCollector (elRounds s) = newCollector 1 1"
proof -
  have "submitVote demoSha demoPolicy soloProvider soloPrevote emptyPool =
      (poolResult Pool_ACCEPTED ''Vote accepted into pool.'', addVote demoSha soloPrevote emptyPool)"
    using solo_vote_minimal [OF _ solo_reasons(1), of PREVOTE]
    by (simp add: submit_cases [OF poolOk_empty]) (simp add: emptyPool_def stored_def)
  then have "submitNetworkVote demoSha demoPolicy soloProvider soloPrevote (newCollector 1 1) =
      (rejectVote Col_ACCEPTED ''Vote accepted.'', (newCollector 1 1)\<lparr>collectorPool := addVote demoSha soloPrevote emptyPool\<rparr>)"
    by (simp add: submitNetworkVote_def newCollector_def moreThanOneRoundAhead_def poolResult_def soloVote_def demoVote_def)
  then show ?thesis
    using that by (simp add: submitAndBroadcastSignedVote_def submitConsensusVote_def mgrSubmitVote_def soloConfig_def rejectVote_def)
qed


lemma solo_second:
  assumes "mgrCollector (elRounds s) = (newCollector 1 1)\<lparr>collectorPool := addVote demoSha soloPrevote emptyPool\<rparr>"
  shows "\<exists>c. submitAndBroadcastSignedVote demoSha soloConfig soloPrecommit s =
     (None, s\<lparr>elRounds := (elRounds s)\<lparr>mgrCollector := c\<rparr>, elSent := elSent s @ [soloPrecommit, soloPrecommit]\<rparr>)"
proof -
  let ?pool = "addVote demoSha soloPrevote emptyPool"
  have "poolOk demoSha (snd (submitVote demoSha demoPolicy soloProvider soloPrevote emptyPool))"
    using submit_ok [OF poolOk_empty] by (simp add: demoPolicy_def)
  moreover have "snd (submitVote demoSha demoPolicy soloProvider soloPrevote emptyPool) = ?pool"
    using solo_vote_minimal [OF _ solo_reasons(1), of PREVOTE]
    by (simp add: submit_cases [OF poolOk_empty]) (simp add: emptyPool_def stored_def)
  ultimately have ok: "poolOk demoSha ?pool" by simp
  have keys: "validatorHeightRoundKey soloPrecommit \<noteq> validatorHeightRoundKey soloPrevote"
    by (simp add: validatorHeightRoundKey_def voterKey_def soloVote_def demoVote_def)
  have "poolStatus (fst (submitVote demoSha demoPolicy soloProvider soloPrecommit ?pool)) \<in> {Pool_ACCEPTED, Pool_DUPLICATE}"
    using solo_vote_minimal [OF _ solo_reasons(2), of PRECOMMIT] keys
    by (simp add: submit_cases [OF ok]) (simp add: addVote_def emptyPool_def poolResult_def)
  then have "collectStatus (fst (submitNetworkVote demoSha demoPolicy soloProvider soloPrecommit
      ((newCollector 1 1)\<lparr>collectorPool := ?pool\<rparr>))) \<in> {Col_ACCEPTED, REJECTED_REPLAY}"
    by (auto simp: submitNetworkVote_def newCollector_def moreThanOneRoundAhead_def split_beta rejectVote_def soloVote_def demoVote_def)
  then show ?thesis
    using assms by (auto simp: submitAndBroadcastSignedVote_def submitConsensusVote_def mgrSubmitVote_def split_beta soloConfig_def)
qed


definition soloCandidate :: PendingBlockCandidate where
  "soloCandidate = \<lparr>candBlock = demoChild CHR ''f'', candRound = 1, candProposal = soloProposal\<rparr>"

lemma solo_loop:
  "elState soloLoop = soloRound" "elHistory soloLoop = soloHistory" "elChain soloLoop = pushBlock demoGenesis emptyChain"
  "elFinalized soloLoop = []" "elRecovery soloLoop = [soloRound]" "elSent soloLoop = []" "elLastHeight soloLoop = 1"
  "mgrCollector (elRounds soloLoop) = newCollector 1 1" "elLockedBlock soloLoop = []" "elLockedRound soloLoop = 0"
  "elVotedPrevote soloLoop = False" "elVotedPrecommit soloLoop = False" "elPrevote soloLoop = None" "elPrecommit soloLoop = None"
  "elCandidate soloLoop = None" "elBuffered soloLoop = []"
  "rsHeight soloRound = 1" "rsRound soloRound = 1" "rsProposer soloRound = demoAddr CHR ''f''" "rsStartedAt soloRound = 8"
  by (simp_all add: soloLoop_def newLoop_def soloRound_def)

lemma solo_chain:
  "chainBlocks (pushBlock demoGenesis emptyChain) = [demoGenesis]"
  "canAppendBlock demoSha (pushBlock demoGenesis emptyChain) (demoChild CHR ''f'')"
  "nextHeight (pushBlock demoGenesis emptyChain) = 1"
  using demoChild_next [OF solo_name]
  by (simp_all add: emptyChain_def canAppendBlock_def nextHeight_def) (simp add: demoGenesis_def demoBlock_def)

lemma solo_drain:
  "drainVotesAndCollect demoSha soloConfig soloInput soloLoop = soloLoop"
  by (simp add: drainVotesAndCollect_def soloInput_def solo_loop detectDoubleVotes_def newCollector_def emptyPool_def)
    (simp add: soloLoop_def newLoop_def)

lemma solo_propose:
  "processBlockProposals demoSha soloConfig soloInput soloLoop = (Go, soloLoop\<lparr>elCandidate := Some soloCandidate\<rparr>)"
  by (simp add: processBlockProposals_def processProposal_def Let_def solo_loop solo_chain solo_history solo_set solo_proposer
      soloInput_def soloProposal_def soloCandidate_def solo_block demoChild_valid [OF solo_name] demoAddr_def)


lemma solo_vote_fields:
  "voteAddress (soloVote d x) = demoAddr CHR ''f''" "voteIndex (soloVote d x) = 1" "voteRound (soloVote d x) = 1"
  "voteHash (soloVote d x) = replicate 64 CHR ''f''" "votePrevious (soloVote d x) = replicate 64 CHR ''0''"
  "voteDecision (soloVote d x) = d" "votePublicKey (soloVote d x) = demoKey CHR ''f''" "voteCreatedAt (soloVote d x) = 9"
  by (simp_all add: soloVote_def demoVote_def)

lemma solo_config:
  "localSigner soloConfig = Some soloSigner" "netParams soloConfig = soloParams" "recoveryPathSet soloConfig"
  "signerAddress soloSigner = demoAddr CHR ''f''" "tickNow soloInput = 9" "demoAddr c \<noteq> []"
  "loopPolicy soloConfig = demoPolicy" "loopProvider soloConfig = soloProvider" "runtimePolicy soloConfig = demoPolicy"
  "runtimeProvider soloConfig = soloProvider"
  by (simp_all add: soloConfig_def soloSigner_def soloInput_def demoAddr_def)

lemma solo_save:
  assumes "rsValid (recoveryStateOf s)"
  shows "saveRecoveryState soloConfig soloInput s = (True, s\<lparr>elRecovery := elRecovery s @ [recoveryStateOf s]\<rparr>)"
proof -
  have "isPersistableRoundState (recoveryStateOf s)"
    using assms by (auto simp: isPersistableRoundState_def rsValid_def word_gt_0 split: if_splits)
  then show ?thesis by (simp add: saveRecoveryState_def recoverySave_def solo_config) (simp add: soloInput_def)
qed

abbreviation soloReady :: EventLoop where
  "soloReady \<equiv> soloLoop\<lparr>elCandidate := Some soloCandidate\<rparr>"

lemma solo_prevote:
  "\<exists>s. prevotePhase demoSha soloConfig soloInput soloSet soloCandidate 1 1 1000 0 soloReady = (Go, 3000000, s) \<and>
     elState s = soloRound \<and> mgrCollector (elRounds s) = (newCollector 1 1)\<lparr>collectorPool := addVote demoSha soloPrevote emptyPool\<rparr> \<and>
     elPrevote s = Some soloPrevote \<and> elPrecommit s = None \<and> elVotedPrevote s \<and> \<not> elVotedPrecommit s \<and>
     elSent s = [soloPrevote, soloPrevote] \<and> elFinalized s = [] \<and> elChain s = elChain soloLoop \<and> elHistory s = soloHistory \<and>
     elLastHeight s = 1"
proof -
  let ?s = "soloReady\<lparr>elPrevote := Some soloPrevote\<rparr>"
  have "rsValid (recoveryStateOf ?s)"
    by (simp add: rsValid_def recoveryStateOf_def Let_def isPersistedRoundVote_def solo_loop solo_vote_fields solo_config)
  note save = solo_save [OF this]
  let ?s' = "?s\<lparr>elRecovery := elRecovery ?s @ [recoveryStateOf ?s], elVotedPrevote := True\<rparr>"
  have "mgrCollector (elRounds ?s') = newCollector 1 1" by (simp add: solo_loop)
  from solo_first [OF this] obtain c where send: "submitAndBroadcastSignedVote demoSha soloConfig soloPrevote ?s' =
     (None, ?s'\<lparr>elRounds := (elRounds ?s')\<lparr>mgrCollector := c\<rparr>, elSent := elSent ?s' @ [soloPrevote, soloPrevote]\<rparr>)"
     "c = (newCollector 1 1)\<lparr>collectorPool := addVote demoSha soloPrevote emptyPool\<rparr>" by blast
  have cand: "candBlock soloCandidate = demoChild CHR ''f''" by (simp add: soloCandidate_def)
  have phase: "prevotePhase demoSha soloConfig soloInput soloSet soloCandidate 1 1 1000 0 soloReady =
    (Go, 3000000, ?s'\<lparr>elRounds := (elRounds ?s')\<lparr>mgrCollector := c\<rparr>, elSent := elSent ?s' @ [soloPrevote, soloPrevote],
       elRebroadcastPrevote := True\<rparr>)"
    using save send(1)
    by (simp add: prevotePhase_def safeToVote_def cand solo_config solo_loop solo_set solo_build Let_def U64_MAX_def)
  show ?thesis unfolding phase using send(2) by (simp add: solo_loop)
qed


definition soloEntry :: "ConsensusRoundState \<Rightarrow> bool" where
  "soloEntry e \<longleftrightarrow> rsHeight e = 1 \<and> rsRound e = 1 \<and> rsProposer e = demoAddr CHR ''f'' \<and> rsStartedAt e = 8 \<and>
     rsPrecommit e = Some soloPrecommit"

lemma solo_precommit:
  assumes "elState s = soloRound"
    and "mgrCollector (elRounds s) = (newCollector 1 1)\<lparr>collectorPool := addVote demoSha soloPrevote emptyPool\<rparr>"
    and "elPrevote s = Some soloPrevote" "elVotedPrevote s" "\<not> elVotedPrecommit s"
    and "elSent s = [soloPrevote, soloPrevote]" "elFinalized s = []" "elChain s = elChain soloLoop" "elHistory s = soloHistory"
  shows "\<exists>s'. precommitPhase demoSha soloConfig soloInput soloSet soloCandidate 1 1 1000 3000000 2000001 s = (Go, s') \<and>
     elState s' = soloRound \<and> elSent s' = [soloPrevote, soloPrevote, soloPrecommit, soloPrecommit] \<and> elFinalized s' = [] \<and>
     elChain s' = elChain soloLoop \<and> elHistory s' = soloHistory \<and> elPrecommit s' = Some soloPrecommit \<and>
     elLastHeight s' = elLastHeight s \<and> soloEntry (last (elRecovery s'))"
proof -
  let ?s = "s\<lparr>elLockedBlock := replicate 64 CHR ''f'', elLockedRound := 1, elPrecommit := Some soloPrecommit\<rparr>"
  have "rsValid (recoveryStateOf ?s)"
    by (simp add: rsValid_def recoveryStateOf_def Let_def isPersistedRoundVote_def assms solo_loop solo_vote_fields solo_config)
  note save = solo_save [OF this]
  let ?s' = "?s\<lparr>elRecovery := elRecovery ?s @ [recoveryStateOf ?s], elVotedPrecommit := True\<rparr>"
  have "mgrCollector (elRounds ?s') = (newCollector 1 1)\<lparr>collectorPool := addVote demoSha soloPrevote emptyPool\<rparr>"
    using assms(2) by simp
  from solo_second [OF this] obtain c where send: "submitAndBroadcastSignedVote demoSha soloConfig soloPrecommit ?s' =
     (None, ?s'\<lparr>elRounds := (elRounds ?s')\<lparr>mgrCollector := c\<rparr>, elSent := elSent ?s' @ [soloPrecommit, soloPrecommit]\<rparr>)" by blast
  have cand: "candBlock soloCandidate = demoChild CHR ''f''" by (simp add: soloCandidate_def)
  have phase: "precommitPhase demoSha soloConfig soloInput soloSet soloCandidate 1 1 1000 3000000 2000001 s =
    (Go, ?s'\<lparr>elRounds := (elRounds ?s')\<lparr>mgrCollector := c\<rparr>, elSent := elSent ?s' @ [soloPrecommit, soloPrecommit],
       elRebroadcastPrecommit := True\<rparr>)"
    using save send assms(4,5)
    by (simp add: precommitPhase_def cand solo_config solo_set solo_build solo_block Let_def)
  show ?thesis unfolding phase using assms by (simp add: soloEntry_def recoveryStateOf_def Let_def solo_loop)
qed

lemma solo_not_final:
  "snd (thenPhase (finalizePhase demoSha soloConfig soloInput b 1 1) (advanceRoundIfTimedOut demoSha soloConfig soloInput) s) = s"
  if "elState s = soloRound" "elHistory s = soloHistory"
proof -
  have "commitCertifiedBlock demoSha soloConfig soloInput b c 9 s = (Inr None, s)" for c
    by (simp add: commitCertifiedBlock_def soloInput_def)
  then have fin: "snd (finalizePhase demoSha soloConfig soloInput b 1 1 s) = s"
    by (auto simp: finalizePhase_def tryFinalize_def solo_config split: sum.splits option.splits QuorumCertificateBuildResult.splits)
  have "advanceRoundIfTimedOut demoSha soloConfig soloInput s = (Return, s)"
    using that by (simp add: advanceRoundIfTimedOut_def advanceConsensusRoundIfTimedOut_def Let_def solo_config soloParams_def solo_loop)
  then show ?thesis using fin by (simp add: thenPhase_snd)
qed

lemma solo_tick:
  "\<exists>s. snd (tick demoSha soloConfig soloInput soloLoop) = s \<and> elState s = soloRound \<and>
     elSent s = [soloPrevote, soloPrevote, soloPrecommit, soloPrecommit] \<and> elFinalized s = [] \<and>
     elChain s = elChain soloLoop \<and> elHistory s = soloHistory \<and> elPrecommit s = Some soloPrecommit \<and>
     elLastHeight s = 1 \<and> soloEntry (last (elRecovery s))"
proof -
  obtain s where s: "prevotePhase demoSha soloConfig soloInput soloSet soloCandidate 1 1 1000 0 soloReady = (Go, 3000000, s)"
    "elState s = soloRound" "mgrCollector (elRounds s) = (newCollector 1 1)\<lparr>collectorPool := addVote demoSha soloPrevote emptyPool\<rparr>"
    "elPrevote s = Some soloPrevote" "elVotedPrevote s" "\<not> elVotedPrecommit s"
    "elSent s = [soloPrevote, soloPrevote]" "elFinalized s = []" "elChain s = elChain soloLoop" "elHistory s = soloHistory"
    "elLastHeight s = 1"
    using solo_prevote by blast
  obtain s' where s': "precommitPhase demoSha soloConfig soloInput soloSet soloCandidate 1 1 1000 3000000 2000001 s = (Go, s')"
     "elState s' = soloRound" "elSent s' = [soloPrevote, soloPrevote, soloPrecommit, soloPrecommit]" "elFinalized s' = []"
     "elChain s' = elChain soloLoop" "elHistory s' = soloHistory" "elPrecommit s' = Some soloPrecommit" "elLastHeight s' = 1"
     "soloEntry (last (elRecovery s'))"
    using solo_precommit [OF s(2-10)] s(11) by auto
  have "requiredVotingWeight 3000000 2 3 = Inr 2000001" by code_simp
  then have "snd (candidatePhase demoSha soloConfig soloInput soloSet soloCandidate 1 1 1000 soloReady) = s'"
    using s(1) s'(1) solo_not_final [OF s'(2,6)]
    by (simp add: candidatePhase_def Let_def rebroadcastPersistedVotesForCandidate_def rebroadcastPrevote_def rebroadcastPrecommit_def
        solo_loop newCollector_def solo_set solo_config soloParams_def thenPhase_def)
  then have "snd (roundPhase demoSha soloConfig soloInput soloReady) = s'"
    by (simp add: roundPhase_def Let_def solo_loop solo_history enterHeight_def elapsedMs_def solo_config)
      (simp add: soloCandidate_def solo_block)
  then have "snd (tick demoSha soloConfig soloInput soloLoop) = s'"
    by (simp add: tick_def Let_def solo_drain solo_loop solo_chain solo_propose thenPhase_def)
  then show ?thesis using s' by blast
qed


subsection \<open>The network of one validator\<close>

lemma solo_round: "fresh soloRound" "rsValid soloRound"
  by (simp_all add: soloRound_def newRoundState_def fresh_def rsValid_def solo_config)

lemma solo_start: "startOk soloNet (demoAddr CHR ''f'')"
proof -
  let ?E = "envAt soloNet (netStart soloNet) (demoAddr CHR ''f'')"
  have start: "netStart soloNet a = Up soloLoop" for a by (simp add: soloNet_def)
  have log: "heightLog k [soloRound] = (if k = 1 then [soloRound] else [])" for k by (simp add: heightLog_def solo_loop)
  have "journal may [soloRound]" for may by (intro journal_start solo_round)
  then have "logOk ?E 1 [soloRound]" using solo_round by (simp add: logOk_def log logged_def fresh_def start solo_loop)
  moreover have "finOk demoSha (pushBlock demoGenesis emptyChain, [])" by (rule finOk_genesis [OF demoGenesis_valid])
  moreover have "setsSorted soloHistory" using solo_set(1) by (simp add: setsSorted_def soloHistory_def)
  ultimately have "diskInv ?E soloLoop"
    by (simp add: diskInv_def solo_loop solo_chain sentOk_def finVerified_def start) (simp add: soloNet_def)
  moreover have "volatileOk soloLoop"
    using solo_round by (simp add: volatileOk_def solo_loop solo_chain log inStep_def fresh_def)
  moreover have "candidatesOk ?E soloLoop" by (simp add: candidatesOk_def solo_loop)
  ultimately show ?thesis using solo_round(1) by (simp add: startOk_def start loopInv_def solo_loop)
qed

lemma solo_ok: "netOk soloNet" "faultyBound soloNet 1"
proof -
  have "configOk soloNet (demoAddr CHR ''f'')" by (simp add: configOk_def soloNet_def solo_config)
  then show "netOk soloNet" using solo_start solo_set(1) by (simp add: netOk_def) (simp add: soloNet_def)
  show "faultyBound soloNet 1"
    by (simp add: faultyBound_def soloNet_def solo_set validatorAddresses_def) (simp add: soloSet_def)
qed

definition soloSteps :: "QuorumCertificate \<Rightarrow> (string \<times> NodeEvent) list" where
  "soloSteps q = [(demoAddr CHR ''f'', Tick soloInput),
     (demoAddr CHR ''f'', Commit (demoChild CHR ''f'') q 20 (soloInput\<lparr>pipelineAccepts := (\<lambda>_. True)\<rparr>))]"

abbreviation soloVoted :: EventLoop where
  "soloVoted \<equiv> snd (tick demoSha soloConfig soloInput soloLoop)"

lemma solo_voted:
  "elState soloVoted = soloRound" "elSent soloVoted = [soloPrevote, soloPrevote, soloPrecommit, soloPrecommit]"
  "elFinalized soloVoted = []" "elChain soloVoted = pushBlock demoGenesis emptyChain" "elHistory soloVoted = soloHistory"
  "elPrecommit soloVoted = Some soloPrecommit" "elLastHeight soloVoted = 1" "soloEntry (last (elRecovery soloVoted))"
  using solo_tick solo_loop by auto

lemma solo_states:
  "stateAt soloNet (soloSteps q) 0 a = Up soloLoop"
  "stateAt soloNet (soloSteps q) (Suc 0) (demoAddr CHR ''f'') = Up soloVoted"
  "stateAt soloNet (soloSteps q) (Suc (Suc 0)) (demoAddr CHR ''f'') =
     Up (snd (commitCertifiedBlock demoSha soloConfig (soloInput\<lparr>pipelineAccepts := (\<lambda>_. True)\<rparr>) (demoChild CHR ''f'') q 20 soloVoted))"
  by (simp_all add: stateAt_def soloSteps_def netStep_def soloNet_def)

lemma solo_legal: "legalRun soloNet (soloSteps q)"
proof -
  have sets: "setsKnown (envAt soloNet \<sigma> a) s" if "elChain s = pushBlock demoGenesis emptyChain" "elHistory s = soloHistory" for \<sigma> a s
    using that by (simp add: setsKnown_def solo_chain solo_history) (simp add: soloNet_def)
  have "proposalOk (envAt soloNet \<sigma> a) soloProposal" for \<sigma> a
    by (simp add: proposalOk_def) (simp add: soloNet_def soloProposal_def)
  then have "tickLegal (envAt soloNet \<sigma> a) soloInput soloLoop" for \<sigma> a
    using sets by (simp add: tickLegal_def solo_loop U64_MAX_def) (simp add: soloNet_def solo_config soloInput_def)
  moreover have "setsKnown (envAt soloNet \<sigma> a) soloVoted" for \<sigma> a by (rule sets) (simp_all add: solo_voted)
  moreover have "netHonest soloNet = {demoAddr CHR ''f''}" by (simp add: soloNet_def)
  ultimately have "netLegal soloNet (stateAt soloNet (soloSteps q) 0) (soloSteps q ! 0)"
    "netLegal soloNet (stateAt soloNet (soloSteps q) (Suc 0)) (soloSteps q ! Suc 0)"
    by (simp_all add: netLegal_def solo_states soloSteps_def [of q, THEN arg_cong, of "\<lambda>l. l ! 0"]
        soloSteps_def [of q, THEN arg_cong, of "\<lambda>l. l ! Suc 0"])
  moreover have "length (soloSteps q) = 2" by (simp add: soloSteps_def)
  ultimately show ?thesis by (auto simp: legalRun_def less_2_cases_iff)
qed


subsection \<open>Its certificate and its commit\<close>

definition soloCertified :: "QuorumCertificate \<Rightarrow> bool" where
  "soloCertified q \<longleftrightarrow> buildFromVotes demoSha 1 (replicate 64 CHR ''f'') (replicate 64 CHR ''0'') 1 [soloPrecommit] soloSet
     demoPolicy soloProvider 2 3 = Inr (Certified q)"

lemma soloCertified_ex: "\<exists>q. soloCertified q"
proof -
  have "countedVote demoSha soloSet demoPolicy soloProvider soloPrecommit"
    using solo_vote_verify(1) [OF _ solo_reasons(2), of PRECOMMIT] solo_identity
    by (simp add: countedVote_def solo_vote_fields solo_set)
  then have "certifiable demoSha 1 (replicate 64 CHR ''f'') (replicate 64 CHR ''0'') 1 [soloPrecommit] soloSet demoPolicy soloProvider"
    using solo_valid demo_digest_safe [OF solo_name] demo_digest_safe [of "CHR ''0''"]
    by (simp add: certifiable_def buildableVote_def matchesBlock_def solo_vote_fields solo_set demoName_def)
  from build_complete [OF solo_set(1) this] show ?thesis by (simp add: soloCertified_def)
qed

lemma solo_cert:
  assumes "soloCertified q"
  shows "verifies soloNet h q" "certIndex q = 1" "certHash q = replicate 64 CHR ''f''" "certRound q = 1"
    "certPrevious q = replicate 64 CHR ''0''" "certVotes q = [soloPrecommit]"
    "certStructurallyValid q" "unforged soloNet (stateAt soloNet (soloSteps p) (Suc 0)) q"
proof -
  note b = built_votes [OF assms [unfolded soloCertified_def]]
  show str: "certStructurallyValid q" using b(2) by (auto simp: certVerify_def split: if_splits)
  show "verifies soloNet h q" using b(2) by (simp add: verifies_def soloNet_def)
  show "certIndex q = 1" "certHash q = replicate 64 CHR ''f''" "certRound q = 1" using b(4) by auto
  show votes: "certVotes q = [soloPrecommit]" by (rule b(3))
  show "certPrevious q = replicate 64 CHR ''0''"
    using str votes by (auto simp: certStructurallyValid_def solo_vote_fields split: if_splits)
  show "unforged soloNet (stateAt soloNet (soloSteps p) (Suc 0)) q"
    by (simp add: unforged_def votes solo_vote_fields solo_states solo_voted)
qed

theorem votes_persisted_and_unique_witness:
  "\<exists>q. logged (nodeLog (stateAt soloNet (soloSteps q) (Suc 0) (demoAddr CHR ''f''))) soloPrecommit"
proof -
  have "soloPrecommit \<in> set (nodeSent (stateAt soloNet (soloSteps q) (Suc 0) (demoAddr CHR ''f'')))" for q
    by (simp add: solo_states solo_voted)
  from votes_persisted_and_unique [OF solo_ok(1) solo_legal _ this this] show ?thesis
    by (auto simp: solo_vote_fields soloNet_def)
qed


lemma solo_finalizable:
  assumes "soloCertified q" and "0 < now"
  shows "finalizable demoSha (demoChild CHR ''f'') q soloSet demoPolicy soloProvider now (pushBlock demoGenesis emptyChain) []"
proof -
  note c = solo_cert [OF assms(1)]
  have "blockchainValid demoSha False (pushBlock demoGenesis emptyChain)"
    using demoGenesis_valid by (simp add: blockchainValid_iff emptyChain_def)
  moreover have "certVerify demoSha soloSet demoPolicy soloProvider q = Inr True"
    using c(1) by (simp add: verifies_def soloNet_def)
  ultimately show ?thesis
    using assms(2) demoChild_next [OF solo_name] c(2-7) demo_digest_safe [OF solo_name] demo_digest_safe [of "CHR ''0''"]
    by (simp add: finalizable_def finRegistryValid_def solo_chain certificateMatchesBlock_def
        finMatchesBlock_def finStructurallyValid_def canRegister_def finRecordOf_def solo_block solo_vote_fields demoName_def)
qed

abbreviation soloAccept :: TickInput where
  "soloAccept \<equiv> soloInput\<lparr>pipelineAccepts := (\<lambda>_. True)\<rparr>"

lemma solo_commit:
  assumes "soloCertified q" and s: "elFinalized s = []" "elChain s = pushBlock demoGenesis emptyChain" "elHistory s = soloHistory"
    and at: "now = 20 \<or> now = 9"
  shows "\<exists>s'. commitCertifiedBlock demoSha soloConfig soloAccept (demoChild CHR ''f'') q now s =
      (Inr (Some (finRecordOf (demoChild CHR ''f'') q now)), s') \<and>
    elFinalized s' = [(1, finRecordOf (demoChild CHR ''f'') q now)]"
proof -
  note b = built_votes [OF assms(1) [unfolded soloCertified_def]]
  have fin: "finalizeBlock demoSha (demoChild CHR ''f'') q soloSet demoPolicy soloProvider now (pushBlock demoGenesis emptyChain, []) =
    (Inr \<lparr>finStatus = FINALIZED, finReason = [], finRecord = Some (finRecordOf (demoChild CHR ''f'') q now)\<rparr>,
     (pushBlock (demoChild CHR ''f'') (pushBlock demoGenesis emptyChain), [(1, finRecordOf (demoChild CHR ''f'') q now)]))"
    by (rule finalizeBlock_accept [OF _ solo_finalizable [OF assms(1), of now]]) (use at in \<open>auto simp: solo_block\<close>)
  have fits: "certificateFitsSet demoSha soloParams q soloSet = Inr True"
    using b(2) by (auto simp: certificateFitsSet_def certVerify_def soloParams_def solo_set requiredVotingWeight_def
        isCanonicalFraction_def kDenominator_def split: if_splits option.splits)
  have entry: "setEntryAt soloHistory 1 = Inr (1, soloSet)" "setEntryAt soloHistory 2 = Inr (1, soloSet)"
    by (simp_all add: soloHistory_def setEntryAt_def hasSet_def floorEntry_def)
  have "\<not> isBoundary 1" by (simp add: isBoundary_def NODO_VALIDATOR_EPOCH_BLOCKS_def)
  then have rec: "recordNext demoSha 1 reg soloHistory = (Inr True, soloHistory)" for reg
    by (simp add: recordNext_def recordSet_def solo_history solo_valid entry U64_MAX_def)
  show ?thesis
    using fin fits rec at
    by (auto simp: commitCertifiedBlock_def Let_def solo_block s solo_history solo_config solo_proposer)
       (auto simp: soloInput_def recoverySave_def isPersistableRoundState_def rsValid_def newRoundState_def solo_config)
qed

lemma solo_committed:
  "soloCertified q \<Longrightarrow> elFinalized (snd (commitCertifiedBlock demoSha soloConfig soloAccept (demoChild CHR ''f'') q 20 soloVoted)) =
     [(1, finRecordOf (demoChild CHR ''f'') q 20)]"
  using solo_commit [of q soloVoted 20] by (auto simp: solo_voted)

theorem finalized_blocks_agree_witness:
  "\<exists>q f. recordForHeight (elFinalized (loopOf (stateAt soloNet (soloSteps q) (Suc (Suc 0)) (demoAddr CHR ''f'')))) 1 = Some f \<and>
     (\<forall>t f'. recordForHeight (elFinalized (loopOf (stateAt soloNet (soloSteps q) t (demoAddr CHR ''f'')))) 1 = Some f' \<longrightarrow>
        unforged soloNet (stateAt soloNet (soloSteps q) t) (finCertificate f') \<longrightarrow> finHash f' = replicate 64 CHR ''f'')"
proof -
  obtain q where q: "soloCertified q" using soloCertified_ex by blast
  note c = solo_cert [OF q]
  let ?f = "finRecordOf (demoChild CHR ''f'') q 20" and ?a = "demoAddr CHR ''f''"
  have rec: "recordForHeight (elFinalized (loopOf (stateAt soloNet (soloSteps q) (Suc (Suc 0)) ?a))) 1 = Some ?f"
    by (simp add: solo_states solo_committed [OF q] recordForHeight_def)
  have "unforged soloNet (stateAt soloNet (soloSteps q) (Suc (Suc 0))) q"
    by (rule unforged_mono [OF c(8) run_sent [OF solo_ok(1) solo_legal]]) simp
  then have uf: "unforged soloNet (stateAt soloNet (soloSteps q) (Suc (Suc 0))) (finCertificate ?f)" by (simp add: finRecordOf_def)
  have honest: "?a \<in> netHonest soloNet" by (simp add: soloNet_def)
  have "finHash f' = replicate 64 CHR ''f''"
    if "recordForHeight (elFinalized (loopOf (stateAt soloNet (soloSteps q) t ?a))) 1 = Some f'"
      "unforged soloNet (stateAt soloNet (soloSteps q) t) (finCertificate f')" for t f'
    using finalized_blocks_agree [OF solo_ok(1) solo_legal solo_ok(2) honest that honest rec uf]
    by (simp add: finRecordOf_def solo_block)
  then show ?thesis using rec by blast
qed


theorem tick_refines_journal_witness:
  "prefix [soloRound] (elRecovery soloVoted) \<and> logged (elRecovery soloVoted) soloPrecommit"
proof -
  let ?E = "envAt soloNet (netStart soloNet) (demoAddr CHR ''f'')"
  have inv: "loopInv ?E soloLoop" using solo_start by (simp add: startOk_def soloNet_def [THEN arg_cong, of netStart])
  have legal: "tickLegal ?E soloInput soloLoop"
    using solo_legal [of undefined] by (auto simp: legalRun_def netLegal_def soloSteps_def solo_states stateAt_def soloNet_def)
  have "envLog ?E = elRecovery soloLoop" by (simp add: soloNet_def)
  from tick_refines_journal [OF inv legal this]
  show ?thesis by (simp add: soloNet_def solo_loop solo_voted solo_vote_fields)
qed


lemma solo_voted_inv: "loopInv (envAt soloNet (stateAt soloNet (soloSteps q) (Suc 0)) (demoAddr CHR ''f'')) soloVoted"
  using network_inv [OF solo_ok(1) solo_legal [of q], of "Suc 0"]
  by (auto simp: netInv_def solo_states soloNet_def [THEN arg_cong, of netHonest])

theorem restart_restores_votes_witness:
  "\<exists>s' s1. restartNode demoSha soloConfig (\<lambda>_. True) soloVoted = (Some s', s1) \<and>
     elPrecommit s' = Some soloPrecommit \<and> elVotedPrecommit s'"
proof -
  let ?e = "last (elRecovery soloVoted)"
  have disk: "diskInv (envAt soloNet (stateAt soloNet (soloSteps undefined) (Suc 0)) (demoAddr CHR ''f'')) soloVoted"
    using solo_voted_inv by (simp add: loopInv_def)
  have ne: "elRecovery soloVoted \<noteq> []" by (rule disk_log [OF disk])
  have e: "rsHeight ?e = 1" "rsRound ?e = 1" "rsProposer ?e = demoAddr CHR ''f''" "rsStartedAt ?e = 8"
    "rsPrecommit ?e = Some soloPrecommit" using solo_voted(8) by (simp_all add: soloEntry_def)
  obtain mgr where boot: "bootManager demoSha soloConfig (elChain soloVoted) (elHistory soloVoted) (elRecovery soloVoted) emptyManager = Inr mgr"
    "mgrState mgr = newRoundState 1 1 (demoAddr CHR ''f'') 8"
    using ne e solo_history solo_proposer
    by (simp add: bootManager_def latestBlock_def solo_voted solo_chain Let_def recoveryLoad_def)
       (simp add: demoGenesis_def demoBlock_def solo_history solo_proposer)
  have "\<exists>s' s1. restartNode demoSha soloConfig (\<lambda>_. True) soloVoted = (Some s', s1) \<and> elRecovery s' = elRecovery soloVoted"
    using ne e boot
    by (simp add: restartNode_def startConsensus_def newLoop_def recoveryLoad_def Let_def solo_voted solo_history solo_proposer
        solo_config loadFromRecoveryState_def)
  then obtain s' s1 where run: "restartNode demoSha soloConfig (\<lambda>_. True) soloVoted = (Some s', s1)" "elRecovery s' = elRecovery soloVoted"
    by blast
  show ?thesis using restart_restores_votes [OF disk run(1)] run e(5) by auto
qed


end
