(* ===== verification/PeerGuards.thy ===== *)
theory PeerGuards
  imports Messages
begin

section \<open>Replay and rate limits on inbound messages\<close>

text \<open>
  \<open>src/p2p/InboundMessageValidator.cpp\<close> and \<open>src/p2p/PeerRateLimiter.cpp\<close>. Times are seconds,
  as \<^typ>\<open>int\<close>; the guards against overflow of the expiry time are written out.

  Both components count a peer's messages in a window that restarts when it is over. The locale
  \<open>fixed_window\<close> states what such a counter does with one call and proves the rate it guarantees;
  both components are interpretations of it.
\<close>

subsection \<open>Inbound message validation\<close>

record InboundMessagePolicy =
  polMaxPayloadBytes :: nat
  polMaxPayloadBytesPerType :: "NetworkMessageType \<rightharpoonup> nat"
  polMaxTtlSeconds :: u32
  polMaxClockSkewSeconds :: int
  polMaxMessagesPerPeerWindow :: nat
  polPeerWindowSeconds :: u32

definition maxPayloadBytes :: "InboundMessagePolicy \<Rightarrow> NetworkMessageType \<Rightarrow> nat" where
  "maxPayloadBytes p type =
     (case polMaxPayloadBytesPerType p type of Some n \<Rightarrow> n | None \<Rightarrow> polMaxPayloadBytes p)"

definition setMaxPayloadBytes :: "NetworkMessageType \<Rightarrow> nat \<Rightarrow> InboundMessagePolicy \<Rightarrow> InboundMessagePolicy" where
  "setMaxPayloadBytes type maxBytes p =
     p\<lparr>polMaxPayloadBytesPerType := (polMaxPayloadBytesPerType p)(type \<mapsto> maxBytes)\<rparr>"

definition inboundPolicyValid :: "InboundMessagePolicy \<Rightarrow> bool" where
  "inboundPolicyValid p \<longleftrightarrow>
     polMaxPayloadBytes p > 0 \<and> polMaxTtlSeconds p > 0 \<and> polMaxClockSkewSeconds p \<ge> 0 \<and>
     polMaxMessagesPerPeerWindow p > 0 \<and> polPeerWindowSeconds p > 0"

datatype InboundMessageStatus =
    In_ACCEPTED | INVALID_POLICY | INVALID_ENVELOPE | WRONG_NETWORK | WRONG_CHAIN | WRONG_PROTOCOL | EXPIRED
  | TTL_TOO_LARGE | CLOCK_SKEW | DUPLICATE_MESSAGE | RATE_LIMITED

record PeerWindowCounter =
  windowStartedAt :: int
  windowCount :: nat

record InboundMessageValidator =
  inPolicy :: InboundMessagePolicy
  seenMessageIds :: "(string, int) smap"
  messagesByPeer :: "(string, PeerWindowCounter) smap"
  lastPruneTime :: int

definition newInboundValidator :: "InboundMessagePolicy \<Rightarrow> InboundMessageValidator" where
  "newInboundValidator p = \<lparr>inPolicy = p, seenMessageIds = [], messagesByPeer = [], lastPruneTime = 0\<rparr>"

definition peerWindowOver :: "InboundMessagePolicy \<Rightarrow> int \<Rightarrow> PeerWindowCounter \<Rightarrow> bool" where
  "peerWindowOver p now w \<longleftrightarrow>
     windowStartedAt w \<le> 0 \<or> now < windowStartedAt w \<or> now - windowStartedAt w > uint (polPeerWindowSeconds p)"

definition pruneExpiredState :: "int \<Rightarrow> InboundMessageValidator \<Rightarrow> InboundMessageValidator" where
  "pruneExpiredState now v =
     (if now \<le> 0 then v
      else if now - lastPruneTime v < 5 then v
      else v\<lparr>lastPruneTime := now,
             seenMessageIds := filter (\<lambda>e. \<not> snd e \<le> now) (seenMessageIds v),
             messagesByPeer := filter (\<lambda>e. \<not> peerWindowOver (inPolicy v) now (snd e)) (messagesByPeer v)\<rparr>)"

definition messageExpiry :: "InboundMessagePolicy \<Rightarrow> NetworkEnvelope \<Rightarrow> int" where
  "messageExpiry p e =
     (let ttl = uint (envTtlSeconds e);
          ttlWithSkew = (if polMaxClockSkewSeconds p > I64_MAX - ttl then I64_MAX else ttl + polMaxClockSkewSeconds p)
      in if envCreatedAt e > I64_MAX - ttlWithSkew then I64_MAX else envCreatedAt e + ttlWithSkew)"

definition peerWindowAt :: "InboundMessagePolicy \<Rightarrow> string \<Rightarrow> int \<Rightarrow> InboundMessageValidator \<Rightarrow> PeerWindowCounter" where
  "peerWindowAt p node now v =
     (let found = (case map_of (messagesByPeer v) node of Some w \<Rightarrow> w | None \<Rightarrow> \<lparr>windowStartedAt = 0, windowCount = 0\<rparr>)
      in if peerWindowOver p now found then \<lparr>windowStartedAt = now, windowCount = 0\<rparr> else found)"

definition inboundValidate ::
    "sha256 \<Rightarrow> NetworkEnvelope \<Rightarrow> string \<Rightarrow> string \<Rightarrow> string \<Rightarrow> int \<Rightarrow> InboundMessageValidator
       \<Rightarrow> InboundMessageStatus \<times> InboundMessageValidator" where
  "inboundValidate sha e expectedNetworkId expectedChainId expectedProtocolVersion now v0 =
     (let p = inPolicy v0 in
      if \<not> inboundPolicyValid p then (INVALID_POLICY, v0)
      else if \<not> envStructurallyValid sha (maxPayloadBytes p (envMessageType e)) e then (INVALID_ENVELOPE, v0)
      else if envNetworkId e \<noteq> expectedNetworkId then (WRONG_NETWORK, v0)
      else if envChainId e \<noteq> expectedChainId then (WRONG_CHAIN, v0)
      else if envProtocolVersion e \<noteq> expectedProtocolVersion then (WRONG_PROTOCOL, v0)
      else if envTtlSeconds e > polMaxTtlSeconds p then (TTL_TOO_LARGE, v0)
      else if envExpiredAt e now then (EXPIRED, v0)
      else if now - envCreatedAt e < 0 \<and> \<bar>now - envCreatedAt e\<bar> > polMaxClockSkewSeconds p then (CLOCK_SKEW, v0)
      else let v = pruneExpiredState now v0 in
      case map_of (seenMessageIds v) (envMessageId e) of
        Some _ \<Rightarrow> (DUPLICATE_MESSAGE, v)
      | None \<Rightarrow>
          let w = peerWindowAt p (envSenderNodeId e) now v in
          if windowCount w \<ge> polMaxMessagesPerPeerWindow p
          then (RATE_LIMITED, v\<lparr>messagesByPeer := mapPut (envSenderNodeId e) w (messagesByPeer v)\<rparr>)
          else (In_ACCEPTED, v\<lparr>seenMessageIds := mapPut (envMessageId e) (messageExpiry p e) (seenMessageIds v),
                               messagesByPeer := mapPut (envSenderNodeId e)
                                 (w\<lparr>windowCount := windowCount w + 1\<rparr>) (messagesByPeer v)\<rparr>))"

definition peerWindowCount :: "InboundMessageValidator \<Rightarrow> string \<Rightarrow> nat" where
  "peerWindowCount v senderNodeId = (case map_of (messagesByPeer v) senderNodeId of Some w \<Rightarrow> windowCount w | None \<Rightarrow> 0)"

subsection \<open>The per-peer rate limiter\<close>

definition MAX_TRACKED_RATE_LIMIT_PEERS :: nat where
  "MAX_TRACKED_RATE_LIMIT_PEERS = 4096"

record PeerRateLimiter =
  limMaxMessages :: u32
  limWindowSeconds :: u64
  limCustomLimits :: "NetworkMessageType \<rightharpoonup> u32"
  limWindows :: "(string, int \<times> u32) smap"

definition setLimitForType :: "NetworkMessageType \<Rightarrow> u32 \<Rightarrow> PeerRateLimiter \<Rightarrow> PeerRateLimiter" where
  "setLimitForType type limit r = r\<lparr>limCustomLimits := (limCustomLimits r)(type \<mapsto> limit)\<rparr>"

definition limitForType :: "PeerRateLimiter \<Rightarrow> NetworkMessageType \<Rightarrow> u32" where
  "limitForType r type = (case limCustomLimits r type of Some n \<Rightarrow> n | None \<Rightarrow> limMaxMessages r)"

definition windowKey :: "string \<Rightarrow> NetworkMessageType \<Rightarrow> string" where
  "windowKey nodeId type =
     nodeId @ ''|'' @ (if type = Msg_UNKNOWN then ''GENERIC'' else networkMessageTypeToString type)"

definition advanceWindowIfExpired :: "PeerRateLimiter \<Rightarrow> int \<Rightarrow> int \<times> u32 \<Rightarrow> int \<times> u32" where
  "advanceWindowIfExpired r now w =
     (if now < fst w \<or> now - fst w \<ge> uint (limWindowSeconds r) then (now, 0) else w)"

definition pruneExpiredWindows :: "int \<Rightarrow> PeerRateLimiter \<Rightarrow> PeerRateLimiter" where
  "pruneExpiredWindows now r =
     r\<lparr>limWindows := filter (\<lambda>e. snd (advanceWindowIfExpired r now (snd e)) \<noteq> 0) (limWindows r)\<rparr>"

definition shouldAllow :: "string \<Rightarrow> NetworkMessageType \<Rightarrow> int \<Rightarrow> PeerRateLimiter \<Rightarrow> bool \<times> PeerRateLimiter" where
  "shouldAllow nodeId type now r0 =
     (let limit = limitForType r0 type; key = windowKey nodeId type in
      if nodeId = [] \<or> length nodeId > 128 \<or> now \<le> 0 \<or> limit = 0 \<or> limWindowSeconds r0 = 0 then (False, r0)
      else let room = (\<lambda>r. length (limWindows r) < MAX_TRACKED_RATE_LIMIT_PEERS);
               r1 = (if map_of (limWindows r0) key = None \<and> \<not> room r0 then pruneExpiredWindows now r0 else r0) in
      if map_of (limWindows r0) key = None \<and> \<not> room r1 then (False, r1)
      else let found = (case map_of (limWindows r0) key of Some w \<Rightarrow> w | None \<Rightarrow> (now, 0));
               w = advanceWindowIfExpired r1 now found in
           if snd w \<ge> limit then (False, r1\<lparr>limWindows := mapPut key w (limWindows r1)\<rparr>)
           else (True, r1\<lparr>limWindows := mapPut key (fst w, snd w + 1) (limWindows r1)\<rparr>))"

definition recordInvalidMessage :: "string \<Rightarrow> NetworkMessageType \<Rightarrow> int \<Rightarrow> PeerRateLimiter \<Rightarrow> bool \<times> PeerRateLimiter" where
  "recordInvalidMessage nodeId type now r =
     (let (allowed1, r1) = shouldAllow nodeId type now r; (allowed2, r2) = shouldAllow nodeId type now r1
      in (allowed1 \<and> allowed2, r2))"

definition messageCount :: "PeerRateLimiter \<Rightarrow> string \<Rightarrow> NetworkMessageType \<Rightarrow> int \<Rightarrow> u32" where
  "messageCount r nodeId type now =
     (if nodeId = [] \<or> now \<le> 0 \<or> limWindowSeconds r = 0 then 0
      else case map_of (limWindows r) (windowKey nodeId type) of
        None \<Rightarrow> 0 | Some w \<Rightarrow> snd (advanceWindowIfExpired r now w))"

subsection \<open>A fixed window\<close>

type_synonym window = "(int \<times> nat) option"

definition windowOver :: "int \<Rightarrow> int \<Rightarrow> window \<Rightarrow> bool" where
  "windowOver len now st \<longleftrightarrow> (case st of None \<Rightarrow> True | Some (w, c) \<Rightarrow> now - w \<ge> len)"

definition windowAdmit :: "int \<Rightarrow> nat \<Rightarrow> int \<Rightarrow> window \<Rightarrow> bool \<times> (int \<times> nat)" where
  "windowAdmit len lim now st =
     (let (w, c) = (if windowOver len now st then (now, 0) else the st)
      in if lim \<le> c then (False, (w, c)) else (True, (w, Suc c)))"

text \<open>
  The locale says what a limiter does with one counter: a call either goes through
  \<^const>\<open>windowAdmit\<close>, or is refused and leaves the counter alone, or drops a window that is over.
\<close>

definition startCount :: "int \<Rightarrow> (int \<times> int) list \<Rightarrow> nat" where
  "startCount w h = length (filter (\<lambda>e. snd e = w) h)"

definition spaced :: "int \<Rightarrow> nat \<Rightarrow> (int \<times> int) list \<Rightarrow> bool" where
  "spaced len lim h \<longleftrightarrow>
     (\<forall>(t, w)\<in>set h. w \<le> t \<and> t < w + len) \<and>
     (\<forall>w\<in>snd ` set h. \<forall>w'\<in>snd ` set h. w = w' \<or> w + len \<le> w' \<or> w' + len \<le> w) \<and>
     (\<forall>w. startCount w h \<le> lim)"

definition follows :: "int \<Rightarrow> nat \<Rightarrow> int \<Rightarrow> window \<Rightarrow> (int \<times> int) list \<Rightarrow> bool" where
  "follows len lim now st h \<longleftrightarrow>
     (case st of
        None \<Rightarrow> \<forall>w\<in>snd ` set h. now \<le> w
      | Some (w, c) \<Rightarrow> (\<forall>w'\<in>snd ` set h. w' = w \<or> w + len \<le> w') \<and> c + startCount w h \<le> max lim c)"

definition windowOk :: "int \<Rightarrow> window \<Rightarrow> bool" where
  "windowOk now st \<longleftrightarrow> (case st of None \<Rightarrow> True | Some (w, c) \<Rightarrow> w \<le> now)"

lemma startCount_none: "w \<notin> snd ` set h \<Longrightarrow> startCount w h = 0"
  by (auto simp: startCount_def filter_empty_conv)

lemma spaced_Cons:
  "spaced len lim h \<Longrightarrow> w \<le> t \<Longrightarrow> t < w + len \<Longrightarrow> \<forall>w'\<in>snd ` set h. w' = w \<or> w + len \<le> w' \<Longrightarrow>
   Suc (startCount w h) \<le> lim \<Longrightarrow> spaced len lim ((t, w) # h)"
  by (fastforce simp: spaced_def startCount_def)

lemma follows_over:
  assumes "\<forall>w\<in>snd ` set h. now' \<le> w" and "windowOver len now' st" and "now \<le> now'" and "0 < len"
  shows "follows len lim now st h"
proof (cases st)
  case None
  then show ?thesis using assms by (force simp: follows_def)
next
  case (Some wc)
  obtain w c where wc: "wc = (w, c)" by fastforce
  then have far: "w + len \<le> now'" using assms(2) Some by (simp add: windowOver_def)
  then have "w \<notin> snd ` set h" using assms(1,4) by force
  then show ?thesis using assms(1) Some wc far startCount_none [of w h] by (force simp: follows_def)
qed

lemma length_filter_imp: "(\<And>e. e \<in> set h \<Longrightarrow> P e \<Longrightarrow> Q e) \<Longrightarrow> length (filter P h) \<le> length (filter Q h)"
  by (induction h) (auto intro: le_SucI)

lemma spaced_bound:
  assumes "spaced len lim h" and "0 < len"
  shows "length (filter (\<lambda>e. a \<le> fst e \<and> fst e < a + len) h) \<le> 2 * lim"
proof (cases "filter (\<lambda>e. a \<le> fst e \<and> fst e < a + len) h = []")
  case True
  then show ?thesis by simp
next
  case False
  let ?F = "filter (\<lambda>e. a \<le> fst e \<and> fst e < a + len) h"
  define S where "S = snd ` set ?F"
  have fin: "finite S" "S \<noteq> {}" using False by (simp_all add: S_def del: set_filter)
  define w1 where "w1 = Min S"
  have w1: "w1 \<in> S" "\<And>w. w \<in> S \<Longrightarrow> w1 \<le> w" using fin by (simp_all add: w1_def)
  have range: "a - len < w \<and> w < a + len" if "w \<in> S" for w
    using that assms(1) by (fastforce simp: S_def spaced_def)
  have apart: "w = w' \<or> w + len \<le> w' \<or> w' + len \<le> w" if "w \<in> S" "w' \<in> S" for w w'
  proof -
    have "w \<in> snd ` set h" "w' \<in> snd ` set h" using that by (auto simp: S_def)
    then show ?thesis using assms(1) unfolding spaced_def by blast
  qed
  obtain w2 where two: "\<forall>w\<in>S. w = w1 \<or> w = w2"
  proof (cases "S \<subseteq> {w1}")
    case True
    then show ?thesis using that by blast
  next
    case False
    then obtain w2 where w2: "w2 \<in> S" "w2 \<noteq> w1" by blast
    have "w = w1 \<or> w = w2" if "w \<in> S" for w
      using apart [OF that w1(1)] apart [OF that w2(1)] apart [OF w2(1) w1(1)] range [OF that] range [OF w2(1)] range [OF w1(1)]
        w1(2) [OF that] w1(2) [OF w2(1)] w2(2) assms(2) by linarith
    then show ?thesis using that by blast
  qed
  have "snd e = w1 \<or> snd e = w2" if "e \<in> set h" "a \<le> fst e \<and> fst e < a + len" for e
  proof -
    have "e \<in> set ?F" using that by simp
    then have "snd e \<in> S" unfolding S_def by (rule imageI)
    then show ?thesis using two by blast
  qed
  then have "length ?F \<le> length (filter (\<lambda>e. snd e = w1 \<or> snd e = w2) h)" by (rule length_filter_imp)
  also have "\<dots> \<le> startCount w1 h + startCount w2 h"
    unfolding startCount_def by (induction h) auto
  also have "\<dots> \<le> 2 * lim" using assms(1) unfolding spaced_def by (metis add_mono mult_2)
  finally show ?thesis .
qed

fun outcomes :: "('c \<Rightarrow> 's \<Rightarrow> bool \<times> 's) \<Rightarrow> 'c list \<Rightarrow> 's \<Rightarrow> bool list" where
  "outcomes step [] s = []"
| "outcomes step (c # cs) s = (case step c s of (ok, s') \<Rightarrow> ok # outcomes step cs s')"

text \<open>The number of calls of a run that are of the given kind, succeed and lie in an interval of time.\<close>

definition admittedBetween :: "('c \<Rightarrow> 's \<Rightarrow> bool \<times> 's) \<Rightarrow> ('c \<Rightarrow> bool) \<Rightarrow> ('c \<Rightarrow> int) \<Rightarrow> 'c list \<Rightarrow> 's \<Rightarrow> int \<Rightarrow> int \<Rightarrow> nat" where
  "admittedBetween step mine at cs s start until =
     length (filter (\<lambda>e. mine (fst e) \<and> snd e \<and> start \<le> at (fst e) \<and> at (fst e) < until) (zip cs (outcomes step cs s)))"

locale fixed_window =
  fixes step :: "'c \<Rightarrow> 's \<Rightarrow> bool \<times> 's" and view :: "'s \<Rightarrow> window" and mine :: "'c \<Rightarrow> bool" and at :: "'c \<Rightarrow> int"
    and inv :: "'s \<Rightarrow> bool" and len :: int and lim :: nat
  assumes pos: "0 < len"
    and keeps: "inv s \<Longrightarrow> inv (snd (step c s))"
    and effect: "inv s \<Longrightarrow> windowOk (at c) (view s) \<Longrightarrow> step c s = (ok, s') \<Longrightarrow>
      (mine c \<and> ok = fst (windowAdmit len lim (at c) (view s)) \<and> view s' = Some (snd (windowAdmit len lim (at c) (view s)))) \<or>
      (\<not> (mine c \<and> ok) \<and> (view s' = view s \<or> view s' = None \<and> windowOver len (at c) (view s)))"
begin

fun history :: "'c list \<Rightarrow> 's \<Rightarrow> (int \<times> int) list" where
  "history [] s = []"
| "history (c # cs) s = (case step c s of (ok, s') \<Rightarrow>
     (if mine c \<and> ok then [(at c, fst (the (view s')))] else []) @ history cs s')"

lemma history_times:
  "length (filter (\<lambda>e. a \<le> fst e \<and> fst e < b) (history cs s)) = admittedBetween step mine at cs s a b"
  unfolding admittedBetween_def by (induction cs arbitrary: s) (auto split: prod.splits)

lemma history_ok:
  assumes "inv s" and "sorted (map at cs)" and "\<forall>c\<in>set cs. now \<le> at c" and "windowOk now (view s)"
  shows "spaced len lim (history cs s) \<and> follows len lim now (view s) (history cs s)"
  using assms
proof (induction cs arbitrary: s now)
  case Nil
  then show ?case by (auto simp: spaced_def follows_def startCount_def split: option.splits)
next
  case (Cons c cs)
  obtain ok s' where st: "step c s = (ok, s')" by fastforce
  have inv': "inv s'" using keeps [OF Cons.prems(1), of c] st by simp
  have later: "now \<le> at c" "\<forall>d\<in>set cs. at c \<le> at d" "sorted (map at cs)" using Cons.prems(2,3) by auto
  note IH = Cons.IH [OF inv' later(3,2)]
  have prev: "\<And>w k. view s = Some (w, k) \<Longrightarrow> w \<le> now" using Cons.prems(4) by (auto simp: windowOk_def)
  have "windowOk (at c) (view s)" using later(1) prev by (force simp: windowOk_def split: option.splits)
  from effect [OF Cons.prems(1) this st] show ?case
  proof (elim disjE conjE)
    assume "mine c" and ok: "ok = fst (windowAdmit len lim (at c) (view s))"
      and v: "view s' = Some (snd (windowAdmit len lim (at c) (view s)))"
    show ?thesis
    proof (cases "windowOver len (at c) (view s)")
      case True
      then have new: "ok \<longleftrightarrow> 0 < lim" "view s' = Some (at c, if 0 < lim then 1 else 0)"
        using ok v by (auto simp: windowAdmit_def)
      then have h: "history (c # cs) s = (if 0 < lim then [(at c, at c)] else []) @ history cs s'"
        using st \<open>mine c\<close> by simp
      have "spaced len lim (history cs s')" "follows len lim (at c) (view s') (history cs s')"
        using IH new by (simp_all add: windowOk_def)
      then have "spaced len lim (history (c # cs) s)" and "\<forall>w\<in>snd ` set (history (c # cs) s). at c \<le> w"
        unfolding h new follows_def using pos by (auto intro!: spaced_Cons)
      then show ?thesis using follows_over [OF _ True later(1) pos] by blast
    next
      case False
      then obtain w k where w: "view s = Some (w, k)" "at c < w + len" by (auto simp: windowOver_def split: option.splits)
      then have new: "ok \<longleftrightarrow> k < lim" "view s' = Some (w, if k < lim then Suc k else k)"
        using False ok v by (auto simp: windowAdmit_def)
      then have h: "history (c # cs) s = (if k < lim then [(at c, w)] else []) @ history cs s'"
        using st \<open>mine c\<close> by simp
      have "w \<le> at c" using prev [OF w(1)] later(1) by simp
      then have "spaced len lim (history cs s')" "follows len lim (at c) (view s') (history cs s')"
        using IH new by (simp_all add: windowOk_def)
      then show ?thesis unfolding h w new follows_def using \<open>w \<le> at c\<close> w(2) by (auto intro!: spaced_Cons simp: startCount_def)
    qed
  next
    assume "\<not> (mine c \<and> ok)" and v: "view s' = view s"
    then have h: "history (c # cs) s = history cs s'" using st by auto
    have "windowOk (at c) (view s')" using v later(1) prev by (force simp: windowOk_def split: option.splits)
    then show ?thesis using IH later(1) unfolding h v by (auto simp: follows_def split: option.splits)
  next
    assume "\<not> (mine c \<and> ok)" and v: "view s' = None" and over: "windowOver len (at c) (view s)"
    then have h: "history (c # cs) s = history cs s'" using st by auto
    have "windowOk (at c) (view s')" using v by (simp add: windowOk_def)
    then have "spaced len lim (history cs s')" "\<forall>w\<in>snd ` set (history cs s'). at c \<le> w"
      using IH v by (auto simp: follows_def)
    then show ?thesis unfolding h using follows_over [OF _ over later(1) pos] by blast
  qed
qed

theorem admitted_bound:
  assumes "inv s" and "view s = None" and "sorted (map at cs)"
  shows "admittedBetween step mine at cs s a (a + len) \<le> 2 * lim"
proof -
  have "spaced len lim (history cs s)"
  proof (cases cs)
    case Nil
    then show ?thesis by (simp add: spaced_def startCount_def)
  next
    case (Cons c ds)
    then have "\<forall>d\<in>set cs. at c \<le> at d" using assms(3) by auto
    then show ?thesis using history_ok [OF assms(1,3)] assms(2) by (auto simp: windowOk_def)
  qed
  then show ?thesis using spaced_bound [OF _ pos] history_times by metis
qed

end

subsection \<open>The two limiters are fixed windows\<close>

type_synonym limiterCall = "string \<times> NetworkMessageType \<times> int"

definition limiterStep :: "limiterCall \<Rightarrow> PeerRateLimiter \<Rightarrow> bool \<times> PeerRateLimiter" where
  "limiterStep c = shouldAllow (fst c) (fst (snd c)) (snd (snd c))"

definition limiterView :: "string \<Rightarrow> NetworkMessageType \<Rightarrow> PeerRateLimiter \<Rightarrow> window" where
  "limiterView node type r = map_option (\<lambda>w. (fst w, unat (snd w))) (map_of (limWindows r) (windowKey node type))"

definition limiterInv :: "NetworkMessageType \<Rightarrow> u32 \<Rightarrow> u64 \<Rightarrow> PeerRateLimiter \<Rightarrow> bool" where
  "limiterInv type limit seconds r \<longleftrightarrow>
     limitForType r type = limit \<and> limWindowSeconds r = seconds \<and> mapOk (limWindows r) \<and>
     (\<forall>e\<in>set (limWindows r). snd (snd e) \<noteq> 0)"

definition limiterLength :: "u64 \<Rightarrow> int" where
  "limiterLength seconds = max 1 (uint seconds)"

lemma message_name_plain: "CHR ''|'' \<notin> set (networkMessageTypeToString t)"
  by (cases t) simp_all

lemma message_name_inj: "networkMessageTypeToString t = networkMessageTypeToString t' \<longleftrightarrow> t = t'"
  by (cases t; cases t') simp_all

lemma message_name_generic: "networkMessageTypeToString t \<noteq> ''GENERIC''"
  by (cases t) simp_all

lemma windowKey_inj: "windowKey n t = windowKey n' t' \<longleftrightarrow> n = n' \<and> t = t'"
proof
  assume eq: "windowKey n t = windowKey n' t'"
  let ?name = "\<lambda>t. if t = Msg_UNKNOWN then ''GENERIC'' else networkMessageTypeToString t"
  have plain: "list_all (\<lambda>c. c \<noteq> CHR ''|'') (?name t)" for t using message_name_plain [of t] by (auto simp: list_all_iff)
  have "n @ CHR ''|'' # ?name t = n' @ CHR ''|'' # ?name t'" using eq by (simp add: windowKey_def)
  from delim_split_right [OF plain plain _ this] have "n = n'" "?name t = ?name t'" by blast+
  then show "n = n' \<and> t = t'" using message_name_inj message_name_generic by (metis (full_types))
qed simp

lemma limit_windows [simp]: "limitForType (r\<lparr>limWindows := m\<rparr>) = limitForType r"
  by (intro ext) (simp add: limitForType_def split: option.splits)

lemma shouldAllow_cases:
  assumes "shouldAllow n t now r = (ok, r')"
  obtains (refused) "\<not> ok" "r' = r"
  | (full) "\<not> ok" "r' = pruneExpiredWindows now r" "map_of (limWindows r) (windowKey n t) = None" "limWindowSeconds r \<noteq> 0"
  | (counted) r1 w where "r1 = r \<or> r1 = pruneExpiredWindows now r \<and> map_of (limWindows r) (windowKey n t) = None"
      "limWindowSeconds r \<noteq> 0" "limitForType r t \<noteq> 0"
      "w = advanceWindowIfExpired r now (case map_of (limWindows r) (windowKey n t) of Some w \<Rightarrow> w | None \<Rightarrow> (now, 0))"
      "ok \<longleftrightarrow> snd w < limitForType r t"
      "r' = r1\<lparr>limWindows := mapPut (windowKey n t) (if ok then (fst w, snd w + 1) else w) (limWindows r1)\<rparr>"
proof -
  let ?k = "windowKey n t"
  let ?room = "\<lambda>r. length (limWindows r) < MAX_TRACKED_RATE_LIMIT_PEERS"
  let ?r1 = "if map_of (limWindows r) ?k = None \<and> \<not> ?room r then pruneExpiredWindows now r else r"
  have adv: "advanceWindowIfExpired ?r1 = advanceWindowIfExpired r"
    by (intro ext) (simp add: advanceWindowIfExpired_def pruneExpiredWindows_def)
  show thesis
  proof (cases "n = [] \<or> length n > 128 \<or> now \<le> 0 \<or> limitForType r t = 0 \<or> limWindowSeconds r = 0")
    case True
    then show thesis using refused assms by (auto simp: shouldAllow_def)
  next
    case False
    show thesis
    proof (cases "map_of (limWindows r) ?k = None \<and> \<not> ?room ?r1")
      case True
      then show thesis using full assms False by (auto simp: shouldAllow_def Let_def split: if_splits)
    next
      case nf: False
      let ?w = "advanceWindowIfExpired r now (case map_of (limWindows r) ?k of Some w \<Rightarrow> w | None \<Rightarrow> (now, 0))"
      show thesis
        by (rule counted [of ?r1 ?w])
          (use assms False nf in \<open>auto simp: shouldAllow_def Let_def adv not_le split: if_splits\<close>)
    qed
  qed
qed

lemma limiterLength_pos: "seconds \<noteq> 0 \<Longrightarrow> limiterLength seconds = uint seconds"
  by (simp add: limiterLength_def max_def word_less_def [symmetric] flip: uint_0_iff) (metis int_one_le_iff_zero_less uint_0_iff uint_ge_0 order_le_less)

lemma prune_view:
  assumes "limiterInv type limit seconds r" and "windowOk now (limiterView node type r)" and "seconds \<noteq> 0"
  shows "limiterView node type (pruneExpiredWindows now r) = limiterView node type r \<or>
    limiterView node type (pruneExpiredWindows now r) = None \<and> windowOver (limiterLength seconds) now (limiterView node type r)"
proof (cases "map_of (limWindows r) (windowKey node type)")
  case None
  then show ?thesis using assms(1)
    by (simp add: limiterView_def pruneExpiredWindows_def map_of_filter_ok limiterInv_def)
next
  case (Some wc)
  moreover obtain w k where "wc = (w, k)" by fastforce
  ultimately have e: "map_of (limWindows r) (windowKey node type) = Some (w, k)" by simp
  then have "k \<noteq> 0" and "w \<le> now" and "limWindowSeconds r = seconds"
    using assms map_of_SomeD [OF e] by (force simp: limiterInv_def windowOk_def limiterView_def)+
  then show ?thesis using e assms
    by (auto simp: limiterView_def pruneExpiredWindows_def map_of_filter_ok limiterInv_def advanceWindowIfExpired_def
        windowOver_def limiterLength_pos split: if_splits)
qed

lemma limiterInv_prune: "limiterInv type limit seconds r \<Longrightarrow> limiterInv type limit seconds (pruneExpiredWindows now r)"
  by (auto simp: limiterInv_def pruneExpiredWindows_def)

lemma u32_succ: "v < (limit :: u32) \<Longrightarrow> unat (v + 1) = Suc (unat v)"
proof -
  assume "v < limit"
  moreover have "unat limit < 2 ^ 32" using unsigned_less [of limit, where ?'a = nat] by simp
  ultimately have "unat v + 1 < 2 ^ 32" by (simp add: word_less_nat_alt)
  then show ?thesis by (simp add: unat_word_ariths)
qed

lemma limiterInv_put:
  "limiterInv type limit seconds r \<Longrightarrow> snd w \<noteq> 0 \<Longrightarrow> limiterInv type limit seconds (r\<lparr>limWindows := mapPut k w (limWindows r)\<rparr>)"
  by (auto simp: limiterInv_def dest: mapPut_mem)

lemma limiter_keeps:
  assumes inv: "limiterInv type limit seconds r"
  shows "limiterInv type limit seconds (snd (limiterStep c r))"
proof -
  obtain ok r' where st: "shouldAllow (fst c) (fst (snd c)) (snd (snd c)) r = (ok, r')" by fastforce
  from st have "limiterInv type limit seconds r'"
  proof (cases rule: shouldAllow_cases)
    case refused
    then show ?thesis using inv by simp
  next
    case full
    then show ?thesis using limiterInv_prune [OF inv] by simp
  next
    case (counted r1 w)
    have "limiterInv type limit seconds r1" using counted(1) inv limiterInv_prune by auto
    moreover have "snd (if ok then (fst w, snd w + 1) else w) \<noteq> 0"
    proof (cases ok)
      case True
      then have "unat (snd w + 1) \<noteq> 0" using counted(5) u32_succ by (metis nat.distinct(1))
      then show ?thesis using True by (metis snd_conv unat_0)
    next
      case False
      then show ?thesis using counted(3,5) by (auto simp: word_gt_0)
    qed
    ultimately show ?thesis unfolding counted(6) by (rule limiterInv_put)
  qed
  then show ?thesis using st by (simp add: limiterStep_def)
qed

lemma limiter_counts:
  assumes inv: "limiterInv type limit seconds r" and ok: "windowOk now (limiterView node type r)"
    and w: "w = advanceWindowIfExpired r now (case map_of (limWindows r) (windowKey node type) of Some w \<Rightarrow> w | None \<Rightarrow> (now, 0))"
    and pos: "seconds \<noteq> 0" "limit \<noteq> 0"
  shows "windowAdmit (limiterLength seconds) (unat limit) now (limiterView node type r) =
    (snd w < limit, (fst w, unat (if snd w < limit then snd w + 1 else snd w)))"
proof -
  have sec: "limWindowSeconds r = seconds" using inv by (simp add: limiterInv_def)
  have lim: "unat limit \<noteq> 0" using pos(2) by (simp add: unat_eq_zero)
  have "uint seconds > 0" using pos(1) by (metis uint_0_iff uint_ge_0 order_le_less)
  then show ?thesis
    using ok unfolding w limiterView_def
    by (cases "map_of (limWindows r) (windowKey node type)")
      (auto simp: windowAdmit_def windowOver_def windowOk_def advanceWindowIfExpired_def sec limiterLength_pos [OF pos(1)]
        u32_succ word_less_nat_alt not_le lim)
qed

interpretation limiter: fixed_window limiterStep "limiterView node type" "\<lambda>c. fst c = node \<and> fst (snd c) = type" "\<lambda>c. snd (snd c)"
  "limiterInv type limit seconds" "limiterLength seconds" "unat limit"
  for node type limit seconds
proof
  show "0 < limiterLength seconds" by (simp add: limiterLength_def)
next
  fix r c
  assume "limiterInv type limit seconds r"
  then show "limiterInv type limit seconds (snd (limiterStep c r))" by (rule limiter_keeps)
next
  fix r and c :: limiterCall and ok r'
  obtain n t now where c: "c = (n, t, now)" using prod_cases3 by blast
  assume inv: "limiterInv type limit seconds r" and "windowOk (snd (snd c)) (limiterView node type r)" and "limiterStep c r = (ok, r')"
  then have wok: "windowOk now (limiterView node type r)" and st: "shouldAllow n t now r = (ok, r')"
    by (simp_all add: c limiterStep_def)
  have conf: "limWindowSeconds r = seconds" "t = type \<Longrightarrow> limitForType r t = limit" using inv by (simp_all add: limiterInv_def)
  let ?goal = "(n = node \<and> t = type) \<and>
        ok = fst (windowAdmit (limiterLength seconds) (unat limit) now (limiterView node type r)) \<and>
        limiterView node type r' = Some (snd (windowAdmit (limiterLength seconds) (unat limit) now (limiterView node type r))) \<or>
        \<not> ((n = node \<and> t = type) \<and> ok) \<and>
        (limiterView node type r' = limiterView node type r \<or>
         limiterView node type r' = None \<and> windowOver (limiterLength seconds) now (limiterView node type r))"
  from st have ?goal
  proof (cases rule: shouldAllow_cases)
    case refused
    then show ?thesis by simp
  next
    case full
    then show ?thesis using prune_view [OF inv wok] conf by simp
  next
    case (counted r1 w)
    show ?thesis
    proof (cases "n = node \<and> t = type")
      case True
      then show ?thesis
        using counted limiter_counts [OF inv wok, of w] conf by (simp add: limiterView_def)
    next
      case False
      then have "windowKey node type \<noteq> windowKey n t" by (auto simp: windowKey_inj)
      then have "limiterView node type r' = limiterView node type r1" unfolding counted(6) by (simp add: limiterView_def)
      then show ?thesis using counted(1,2) prune_view [OF inv wok] conf False by auto
    qed
  qed
  then show "(fst c = node \<and> fst (snd c) = type) \<and>
        ok = fst (windowAdmit (limiterLength seconds) (unat limit) (snd (snd c)) (limiterView node type r)) \<and>
        limiterView node type r' = Some (snd (windowAdmit (limiterLength seconds) (unat limit) (snd (snd c)) (limiterView node type r))) \<or>
        \<not> ((fst c = node \<and> fst (snd c) = type) \<and> ok) \<and>
        (limiterView node type r' = limiterView node type r \<or>
         limiterView node type r' = None \<and> windowOver (limiterLength seconds) (snd (snd c)) (limiterView node type r))"
    by (simp add: c)
qed

record InboundCall =
  callEnvelope :: NetworkEnvelope
  callNetwork :: string
  callChain :: string
  callProtocol :: string
  callNow :: int

definition inboundStep :: "sha256 \<Rightarrow> InboundCall \<Rightarrow> InboundMessageValidator \<Rightarrow> bool \<times> InboundMessageValidator" where
  "inboundStep sha c v =
     (case inboundValidate sha (callEnvelope c) (callNetwork c) (callChain c) (callProtocol c) (callNow c) v of
        (status, v') \<Rightarrow> (status = In_ACCEPTED, v'))"

definition inboundView :: "string \<Rightarrow> InboundMessageValidator \<Rightarrow> window" where
  "inboundView node v = map_option (\<lambda>w. (windowStartedAt w, windowCount w)) (map_of (messagesByPeer v) node)"

definition inboundInv :: "InboundMessagePolicy \<Rightarrow> InboundMessageValidator \<Rightarrow> bool" where
  "inboundInv p v \<longleftrightarrow> inPolicy v = p \<and> mapOk (messagesByPeer v) \<and> mapOk (seenMessageIds v) \<and>
     (\<forall>e\<in>set (messagesByPeer v). windowStartedAt (snd e) > 0)"

definition inboundLength :: "InboundMessagePolicy \<Rightarrow> int" where
  "inboundLength p = uint (polPeerWindowSeconds p) + 1"

lemma inbound_cases:
  assumes "inboundValidate sha e net chain proto now v0 = (status, v')"
  obtains (early) "status \<noteq> In_ACCEPTED" "v' = v0"
  | (duplicate) "status = DUPLICATE_MESSAGE" "v' = pruneExpiredState now v0" "now > 0" "\<not> envExpiredAt e now"
  | (limited) v w where "status = RATE_LIMITED" "now > 0" "v = pruneExpiredState now v0" "w = peerWindowAt (inPolicy v0) (envSenderNodeId e) now v"
      "polMaxMessagesPerPeerWindow (inPolicy v0) \<le> windowCount w"
      "v' = v\<lparr>messagesByPeer := mapPut (envSenderNodeId e) w (messagesByPeer v)\<rparr>" "\<not> envExpiredAt e now"
  | (accepted) v w where "status = In_ACCEPTED" "now > 0" "v = pruneExpiredState now v0" "w = peerWindowAt (inPolicy v0) (envSenderNodeId e) now v"
      "windowCount w < polMaxMessagesPerPeerWindow (inPolicy v0)" "map_of (seenMessageIds v) (envMessageId e) = None"
      "v' = v\<lparr>seenMessageIds := mapPut (envMessageId e) (messageExpiry (inPolicy v0) e) (seenMessageIds v),
              messagesByPeer := mapPut (envSenderNodeId e) (w\<lparr>windowCount := windowCount w + 1\<rparr>) (messagesByPeer v)\<rparr>"
      "\<not> envExpiredAt e now"
proof -
  let ?p = "inPolicy v0"
  let ?pass = "inboundPolicyValid ?p \<and> envStructurallyValid sha (maxPayloadBytes ?p (envMessageType e)) e \<and>
    envNetworkId e = net \<and> envChainId e = chain \<and> envProtocolVersion e = proto \<and> \<not> envTtlSeconds e > polMaxTtlSeconds ?p \<and>
    \<not> envExpiredAt e now \<and> \<not> (now - envCreatedAt e < 0 \<and> \<bar>now - envCreatedAt e\<bar> > polMaxClockSkewSeconds ?p)"
  let ?v = "pruneExpiredState now v0"
  let ?w = "peerWindowAt ?p (envSenderNodeId e) now ?v"
  show thesis
  proof (cases ?pass)
    case False
    then have "status \<noteq> In_ACCEPTED \<and> v' = v0" using assms by (auto simp: inboundValidate_def Let_def split: if_splits)
    then show thesis using early by blast
  next
    case True
    have pos: "now > 0" and live: "\<not> envExpiredAt e now" using True by (auto simp: envExpiredAt_def split: if_splits)
    have "inboundValidate sha e net chain proto now v0 = (case map_of (seenMessageIds ?v) (envMessageId e) of
        Some _ \<Rightarrow> (DUPLICATE_MESSAGE, ?v)
      | None \<Rightarrow> if windowCount ?w \<ge> polMaxMessagesPerPeerWindow ?p
          then (RATE_LIMITED, ?v\<lparr>messagesByPeer := mapPut (envSenderNodeId e) ?w (messagesByPeer ?v)\<rparr>)
          else (In_ACCEPTED, ?v\<lparr>seenMessageIds := mapPut (envMessageId e) (messageExpiry ?p e) (seenMessageIds ?v),
                 messagesByPeer := mapPut (envSenderNodeId e) (?w\<lparr>windowCount := windowCount ?w + 1\<rparr>) (messagesByPeer ?v)\<rparr>))"
      using True by (cases "map_of (seenMessageIds ?v) (envMessageId e)") (simp_all add: inboundValidate_def Let_def)
    note rest = this [unfolded assms]
    show thesis
    proof (cases "map_of (seenMessageIds ?v) (envMessageId e)")
      case (Some x)
      then show thesis using duplicate rest pos live by simp
    next
      case None
      show thesis
      proof (cases "polMaxMessagesPerPeerWindow ?p \<le> windowCount ?w")
        case True
        then show thesis using limited [of ?v ?w] rest None pos live by simp
      next
        case False
        then show thesis using accepted [of ?v ?w] rest None pos live by simp
      qed
    qed
  qed
qed

lemma prune_policy [simp]: "inPolicy (pruneExpiredState now v) = inPolicy v"
  by (simp add: pruneExpiredState_def)

lemma inboundInv_prune: "inboundInv p v \<Longrightarrow> inboundInv p (pruneExpiredState now v)"
  by (auto simp: inboundInv_def pruneExpiredState_def)

lemma inboundInv_put:
  "inboundInv p v \<Longrightarrow> windowStartedAt w > 0 \<Longrightarrow> inboundInv p (v\<lparr>messagesByPeer := mapPut n w (messagesByPeer v)\<rparr>)"
  "inboundInv p v \<Longrightarrow> windowStartedAt w > 0 \<Longrightarrow>
     inboundInv p (v\<lparr>seenMessageIds := mapPut i x (seenMessageIds v), messagesByPeer := mapPut n w (messagesByPeer v)\<rparr>)"
  by (auto simp: inboundInv_def dest: mapPut_mem)

lemma window_started:
  assumes "inboundInv p v" and "now > 0"
  shows "windowStartedAt (peerWindowAt p n now v) > 0"
  using assms by (auto simp: peerWindowAt_def Let_def inboundInv_def peerWindowOver_def split: option.splits)

lemma inbound_keeps:
  assumes "inboundInv p v"
  shows "inboundInv p (snd (inboundStep sha c v))"
proof -
  obtain status v' where st: "inboundValidate sha (callEnvelope c) (callNetwork c) (callChain c) (callProtocol c) (callNow c) v = (status, v')"
    by fastforce
  have pol: "inPolicy v = p" using assms by (simp add: inboundInv_def)
  from st have "inboundInv p v'"
    by (cases rule: inbound_cases)
      (use assms inboundInv_prune [OF assms, of "callNow c"] window_started [OF inboundInv_prune [OF assms]] pol in
        \<open>auto intro!: inboundInv_put\<close>)
  then show ?thesis by (simp add: inboundStep_def st)
qed

lemma inbound_prune_view:
  assumes "inboundInv p v" and "windowOk now (inboundView node v)"
  shows "inboundView node (pruneExpiredState now v) = inboundView node v \<or>
    inboundView node (pruneExpiredState now v) = None \<and> windowOver (inboundLength p) now (inboundView node v)"
proof (cases "map_of (messagesByPeer v) node")
  case None
  then show ?thesis using assms(1) by (simp add: inboundView_def pruneExpiredState_def map_of_filter_ok inboundInv_def)
next
  case (Some w)
  then have "windowStartedAt w > 0" "windowStartedAt w \<le> now"
    using assms map_of_SomeD [OF Some] by (force simp: inboundInv_def windowOk_def inboundView_def)+
  then show ?thesis using Some assms
    by (auto simp: inboundView_def pruneExpiredState_def map_of_filter_ok inboundInv_def peerWindowOver_def windowOver_def inboundLength_def)
qed

lemma inbound_counts:
  assumes inv: "inboundInv p v0" and ok: "windowOk now (inboundView node v0)" and pos: "now > 0"
  shows "windowAdmit (inboundLength p) (polMaxMessagesPerPeerWindow p) now (inboundView node v0) =
    (let w = peerWindowAt p node now (pruneExpiredState now v0) in
     (windowCount w < polMaxMessagesPerPeerWindow p,
      (windowStartedAt w, if windowCount w < polMaxMessagesPerPeerWindow p then Suc (windowCount w) else windowCount w)))"
proof -
  let ?v = "pruneExpiredState now v0"
  have view: "inboundView node ?v = inboundView node v0 \<or>
      inboundView node ?v = None \<and> windowOver (inboundLength p) now (inboundView node v0)"
    by (rule inbound_prune_view [OF inv ok])
  have start: "windowStartedAt w > 0 \<and> windowStartedAt w \<le> now" if "map_of (messagesByPeer v0) node = Some w" for w
    using inv ok map_of_SomeD [OF that] that by (force simp: inboundInv_def windowOk_def inboundView_def)
  have "peerWindowAt p node now ?v = \<lparr>windowStartedAt = now, windowCount = 0\<rparr>"
    if "windowOver (inboundLength p) now (inboundView node v0)"
  proof (cases "map_of (messagesByPeer ?v) node")
    case None
    then show ?thesis by (simp add: peerWindowAt_def peerWindowOver_def)
  next
    case (Some w)
    then have "map_of (messagesByPeer v0) node = Some w"
      using inv by (auto simp: pruneExpiredState_def map_of_filter_ok inboundInv_def split: if_splits option.splits)
    then show ?thesis using Some that by (simp add: peerWindowAt_def peerWindowOver_def windowOver_def inboundView_def inboundLength_def)
  qed
  moreover have "peerWindowAt p node now ?v = w"
    if "\<not> windowOver (inboundLength p) now (inboundView node v0)" "map_of (messagesByPeer v0) node = Some w" for w
  proof -
    have "\<not> peerWindowOver p now w"
      using that start [OF that(2)] by (simp add: peerWindowOver_def windowOver_def inboundView_def inboundLength_def)
    then have "map_of (messagesByPeer ?v) node = Some w"
      using that(2) inv by (simp add: pruneExpiredState_def map_of_filter_ok inboundInv_def)
    then show ?thesis using \<open>\<not> peerWindowOver p now w\<close> by (simp add: peerWindowAt_def)
  qed
  ultimately show ?thesis
    by (cases "map_of (messagesByPeer v0) node") (auto simp: windowAdmit_def windowOver_def inboundView_def Let_def)
qed

interpretation inbound: fixed_window "inboundStep sha" "inboundView node" "\<lambda>c. envSenderNodeId (callEnvelope c) = node" callNow
  "inboundInv p" "inboundLength p" "polMaxMessagesPerPeerWindow p"
  for sha node p
proof
  show "0 < inboundLength p" by (simp add: inboundLength_def)
next
  fix v c
  assume "inboundInv p v"
  then show "inboundInv p (snd (inboundStep sha c v))" by (rule inbound_keeps)
next
  fix v c ok v'
  assume inv: "inboundInv p v" and wok: "windowOk (callNow c) (inboundView node v)" and "inboundStep sha c v = (ok, v')"
  then obtain status where st: "inboundValidate sha (callEnvelope c) (callNetwork c) (callChain c) (callProtocol c) (callNow c) v = (status, v')"
    and ok: "ok \<longleftrightarrow> status = In_ACCEPTED" by (auto simp: inboundStep_def split: prod.splits)
  have pol: "inPolicy v = p" using inv by (simp add: inboundInv_def)
  note prune = inbound_prune_view [OF inv wok]
  from st show "envSenderNodeId (callEnvelope c) = node \<and>
      ok = fst (windowAdmit (inboundLength p) (polMaxMessagesPerPeerWindow p) (callNow c) (inboundView node v)) \<and>
      inboundView node v' = Some (snd (windowAdmit (inboundLength p) (polMaxMessagesPerPeerWindow p) (callNow c) (inboundView node v))) \<or>
      \<not> (envSenderNodeId (callEnvelope c) = node \<and> ok) \<and>
      (inboundView node v' = inboundView node v \<or>
       inboundView node v' = None \<and> windowOver (inboundLength p) (callNow c) (inboundView node v))"
  proof (cases rule: inbound_cases)
    case early
    then show ?thesis using ok by simp
  next
    case duplicate
    then show ?thesis using ok prune by simp
  next
    case (limited u w)
    then show ?thesis
      using ok prune inbound_counts [OF inv wok limited(2)] pol
      by (cases "envSenderNodeId (callEnvelope c) = node") (simp_all add: inboundView_def Let_def)
  next
    case (accepted u w)
    then show ?thesis
      using ok prune inbound_counts [OF inv wok accepted(2)] pol
      by (cases "envSenderNodeId (callEnvelope c) = node") (simp_all add: inboundView_def Let_def)
  qed
qed

subsection \<open>Replays\<close>

definition remembers :: "InboundMessagePolicy \<Rightarrow> NetworkEnvelope \<Rightarrow> InboundMessageValidator \<Rightarrow> bool" where
  "remembers p e v \<longleftrightarrow>
     map_of (seenMessageIds v) (envMessageId e) = Some (messageExpiry p e) \<or> messageExpiry p e \<le> lastPruneTime v"

lemma remembers_prune: "inboundInv p v \<Longrightarrow> remembers p e v \<Longrightarrow> remembers p e (pruneExpiredState now v)"
  by (auto simp: remembers_def pruneExpiredState_def map_of_filter_ok inboundInv_def)

lemma remembers_step:
  assumes "inboundInv p v" and "remembers p e v"
  shows "remembers p e (snd (inboundStep sha c v))"
proof -
  obtain status v' where st: "inboundValidate sha (callEnvelope c) (callNetwork c) (callChain c) (callProtocol c) (callNow c) v = (status, v')"
    by fastforce
  note pr = remembers_prune [OF assms, of "callNow c"]
  from st have "remembers p e v'"
    by (cases rule: inbound_cases) (use assms(2) pr in \<open>auto simp: remembers_def\<close>)
  then show ?thesis by (simp add: inboundStep_def st)
qed

lemma accepted_remembered:
  assumes "inboundInv p v" and "inboundStep sha c v = (True, v')"
  shows "remembers p (callEnvelope c) v'"
proof -
  have st: "inboundValidate sha (callEnvelope c) (callNetwork c) (callChain c) (callProtocol c) (callNow c) v = (In_ACCEPTED, v')"
    using assms(2) by (auto simp: inboundStep_def split: prod.splits)
  have "inPolicy v = p" using assms(1) by (simp add: inboundInv_def)
  with st show ?thesis by (cases rule: inbound_cases) (simp_all add: remembers_def)
qed

lemma prune_time_le: "lastPruneTime v \<le> callNow c \<Longrightarrow> lastPruneTime (snd (inboundStep sha c v)) \<le> callNow c"
proof -
  assume le: "lastPruneTime v \<le> callNow c"
  obtain status v' where st: "inboundValidate sha (callEnvelope c) (callNetwork c) (callChain c) (callProtocol c) (callNow c) v = (status, v')"
    by fastforce
  have "lastPruneTime (pruneExpiredState (callNow c) v) \<le> callNow c" using le by (simp add: pruneExpiredState_def)
  with st le have "lastPruneTime v' \<le> callNow c" by (cases rule: inbound_cases) simp_all
  then show ?thesis by (simp add: inboundStep_def st)
qed

lemma live_before_expiry:
  assumes "\<not> envExpiredAt e now" and "now < I64_MAX" and "0 < polMaxClockSkewSeconds p"
  shows "now < messageExpiry p e"
proof -
  have live: "0 < envCreatedAt e" "now \<le> envCreatedAt e \<or> now - envCreatedAt e \<le> uint (envTtlSeconds e)"
    using assms(1) by (auto simp: envExpiredAt_def split: if_splits)
  have "messageExpiry p e = I64_MAX \<or> messageExpiry p e = envCreatedAt e + uint (envTtlSeconds e) + polMaxClockSkewSeconds p"
    using live(1) by (simp add: messageExpiry_def Let_def)
  moreover have "0 \<le> uint (envTtlSeconds e)" by simp
  ultimately show ?thesis using live assms(2,3) by linarith
qed

lemma remembered_rejected:
  assumes inv: "inboundInv p v" and rem: "remembers p (callEnvelope c) v" and time: "lastPruneTime v \<le> callNow c"
    and range: "callNow c < I64_MAX" and skew: "0 < polMaxClockSkewSeconds p"
  shows "\<not> fst (inboundStep sha c v)"
proof
  assume "fst (inboundStep sha c v)"
  then obtain v' where st: "inboundValidate sha (callEnvelope c) (callNetwork c) (callChain c) (callProtocol c) (callNow c) v = (In_ACCEPTED, v')"
    by (auto simp: inboundStep_def split: prod.splits)
  then show False
  proof (cases rule: inbound_cases)
    case (accepted u w)
    have "lastPruneTime u \<le> callNow c" using time by (simp add: accepted(3) pruneExpiredState_def)
    then show False
      using remembers_prune [OF inv rem, of "callNow c"] accepted(3,6) live_before_expiry [OF accepted(8) range skew]
      by (auto simp: remembers_def)
  qed simp_all
qed

lemma remembered_run:
  assumes "inboundInv p v" and "remembers p e v" and "sorted (map callNow cs)" and "\<forall>c\<in>set cs. lastPruneTime v \<le> callNow c"
    and "\<forall>c\<in>set cs. callNow c < I64_MAX" and "0 < polMaxClockSkewSeconds p" and "j < length cs" and "callEnvelope (cs ! j) = e"
  shows "\<not> outcomes (inboundStep sha) cs v ! j"
  using assms
proof (induction cs arbitrary: v j)
  case Nil
  then show ?case by simp
next
  case (Cons c cs)
  obtain ok v' where st: "inboundStep sha c v = (ok, v')" by fastforce
  have "inboundInv p v'" "remembers p e v'" "lastPruneTime v' \<le> callNow c"
    using inbound_keeps [OF Cons.prems(1), of sha c] remembers_step [OF Cons.prems(1,2), of sha c] prune_time_le [of v c sha] Cons.prems(4) st
    by simp_all
  moreover from this(3) have "\<forall>d\<in>set cs. lastPruneTime v' \<le> callNow d" using Cons.prems(3) by fastforce
  moreover have "\<not> ok" if "j = 0"
    using remembered_rejected [OF Cons.prems(1), of c sha] Cons.prems that st by simp
  ultimately show ?case using Cons.IH [of v' "j - 1"] Cons.prems st by (cases j) auto
qed

lemma inbound_start: "inboundInv p (newInboundValidator p)" "inboundView node (newInboundValidator p) = None"
    "lastPruneTime (newInboundValidator p) = 0"
  by (simp_all add: inboundInv_def newInboundValidator_def inboundView_def)

lemma replay_run:
  assumes "inboundInv p v" and "sorted (map callNow cs)" and "\<forall>c\<in>set cs. lastPruneTime v \<le> callNow c"
    and "\<forall>c\<in>set cs. callNow c < I64_MAX" and "0 < polMaxClockSkewSeconds p" and "i < j" and "j < length cs"
    and "callEnvelope (cs ! j) = callEnvelope (cs ! i)" and "outcomes (inboundStep sha) cs v ! i"
  shows "\<not> outcomes (inboundStep sha) cs v ! j"
  using assms
proof (induction cs arbitrary: v i j)
  case Nil
  then show ?case by simp
next
  case (Cons c cs)
  obtain ok v' where st: "inboundStep sha c v = (ok, v')" by fastforce
  have inv': "inboundInv p v'" and "lastPruneTime v' \<le> callNow c"
    using inbound_keeps [OF Cons.prems(1), of sha c] prune_time_le [of v c sha] Cons.prems(3) st by simp_all
  from this(2) have time': "\<forall>d\<in>set cs. lastPruneTime v' \<le> callNow d" using Cons.prems(2) by fastforce
  obtain k where j: "j = Suc k" using Cons.prems(6) by (cases j) auto
  show ?case
  proof (cases i)
    case 0
    then have "remembers p (callEnvelope c) v'" using accepted_remembered [OF Cons.prems(1), of sha c v'] st Cons.prems(9) by simp
    then show ?thesis
      using remembered_run [OF inv' _ _ time', of "callEnvelope c" k sha] Cons.prems 0 j st by simp
  next
    case (Suc l)
    then show ?thesis using Cons.IH [OF inv' _ time', of l k] Cons.prems j st by simp
  qed
qed

subsection \<open>Properties\<close>

text \<open>
  C33: No message is accepted twice. With a positive clock skew allowance and a clock that does not run
  backwards, an envelope that has been accepted once is never accepted again, however many messages
  come in between and however often the memory of message ids is pruned: an id is forgotten only
  after its message has expired.
\<close>

theorem no_message_replay:
  assumes "0 < polMaxClockSkewSeconds p" and "sorted (map callNow cs)" and "\<forall>c\<in>set cs. 0 \<le> callNow c \<and> callNow c < I64_MAX"
    and "i < j" and "j < length cs" and "callEnvelope (cs ! j) = callEnvelope (cs ! i)"
    and "outcomes (inboundStep sha) cs (newInboundValidator p) ! i"
  shows "\<not> outcomes (inboundStep sha) cs (newInboundValidator p) ! j"
  by (rule replay_run [OF inbound_start(1) assms(2) _ _ assms(1,4-7)]) (use assms(3) in \<open>simp_all add: inbound_start\<close>)

text \<open>
  A peer's message rate is bounded. Whatever sequence of messages arrives from whatever peers, with
  a clock that does not run backwards, the rate limiter admits at most twice the limit of a message
  type from one peer in any interval as long as its window, and the inbound validator accepts at
  most twice its limit per peer. Both counters restart their window; twice the limit is what two
  adjacent windows allow.
\<close>

theorem peer_rate_bounded:
  assumes "limWindows r = []" and "limWindowSeconds r \<noteq> 0" and "sorted (map (\<lambda>c. snd (snd c)) cs)" and "sorted (map callNow ds)"
  shows "admittedBetween limiterStep (\<lambda>c. fst c = node \<and> fst (snd c) = type) (\<lambda>c. snd (snd c)) cs r t0
      (t0 + uint (limWindowSeconds r)) \<le> 2 * unat (limitForType r type) \<and>
    admittedBetween (inboundStep sha) (\<lambda>c. envSenderNodeId (callEnvelope c) = node) callNow ds (newInboundValidator p) t0
      (t0 + uint (polPeerWindowSeconds p) + 1) \<le> 2 * polMaxMessagesPerPeerWindow p"
proof -
  have "limiterInv type (limitForType r type) (limWindowSeconds r) r" "limiterView node type r = None"
    using assms(1) by (simp_all add: limiterInv_def limiterView_def)
  from limiter.admitted_bound [OF this assms(3), of t0] inbound.admitted_bound [OF inbound_start(1,2) assms(4), where a = t0]
  show ?thesis by (simp add: limiterLength_pos [OF assms(2)] inboundLength_def add.assoc)
qed

subsection \<open>Witnesses\<close>

definition demoPolicy :: InboundMessagePolicy where
  "demoPolicy = \<lparr>polMaxPayloadBytes = 100, polMaxPayloadBytesPerType = Map.empty, polMaxTtlSeconds = 120,
     polMaxClockSkewSeconds = 30, polMaxMessagesPerPeerWindow = 10, polPeerWindowSeconds = 60\<rparr>"

definition demoCall :: "int \<Rightarrow> InboundCall" where
  "demoCall now = \<lparr>callEnvelope = demoEnvelope ''hi'', callNetwork = ''nodo'', callChain = ''main'', callProtocol = ''1'', callNow = now\<rparr>"

lemma demoEnvelope_fields:
  "envNetworkId (demoEnvelope p) = ''nodo''" "envChainId (demoEnvelope p) = ''main''" "envProtocolVersion (demoEnvelope p) = ''1''"
  "envMessageType (demoEnvelope p) = PING" "envCreatedAt (demoEnvelope p) = 100" "envTtlSeconds (demoEnvelope p) = 60"
  by (simp_all add: demoEnvelope_def newEnvelope_def)

lemmas inbound_eval = inboundStep_def inboundValidate_def demoCall_def newInboundValidator_def demoPolicy_def inboundPolicyValid_def
  maxPayloadBytes_def envExpiredAt_def pruneExpiredState_def peerWindowAt_def peerWindowOver_def messageExpiry_def I64_MAX_def

lemma demo_accepted: "fst (inboundStep demoSha (demoCall 101) (newInboundValidator demoPolicy))"
  using demoEnvelope_valid [of "''hi''" 100] by (simp add: inbound_eval demoEnvelope_fields Let_def)

text \<open>
  The allowance of the previous property is needed. With a clock skew of zero, which
  \<open>InboundMessagePolicy::isValid\<close> admits, the id is forgotten in the last second in which the
  message is still alive, and the message is accepted a second time.
\<close>

lemma replay_without_skew:
  "outcomes (inboundStep demoSha) [demoCall 101, demoCall 160] (newInboundValidator (demoPolicy\<lparr>polMaxClockSkewSeconds := 0\<rparr>)) = [True, True]"
  using demoEnvelope_valid [of "''hi''" 100] by (simp add: inbound_eval demoEnvelope_fields Let_def)

theorem no_message_replay_witness:
  "\<not> outcomes (inboundStep demoSha) [demoCall 101, demoCall 150] (newInboundValidator demoPolicy) ! 1"
proof (rule no_message_replay [of demoPolicy _ 0])
  show "outcomes (inboundStep demoSha) [demoCall 101, demoCall 150] (newInboundValidator demoPolicy) ! 0"
    using demo_accepted by (auto split: prod.splits)
qed (simp_all add: demoPolicy_def demoCall_def I64_MAX_def)

definition demoLimiter :: PeerRateLimiter where
  "demoLimiter = \<lparr>limMaxMessages = 1, limWindowSeconds = 60, limCustomLimits = Map.empty, limWindows = []\<rparr>"

theorem peer_rate_bounded_witness:
  "admittedBetween limiterStep (\<lambda>c. fst c = ''n1'' \<and> fst (snd c) = PING) (\<lambda>c. snd (snd c))
     [(''n1'', PING, 10), (''n1'', PING, 20), (''n1'', PING, 75)] demoLimiter 5 (5 + uint (limWindowSeconds demoLimiter))
     \<le> 2 * unat (limitForType demoLimiter PING)"
  using peer_rate_bounded [of demoLimiter "[(''n1'', PING, 10), (''n1'', PING, 20), (''n1'', PING, 75)]" "[]" "''n1''" PING 5]
  by (simp add: demoLimiter_def)

end
