(* ===== verification/Spec2Isabelle.thy ===== *)
theory Spec2Isabelle
  imports BlockTransition StakingRules NetworkDemo PeerGuards
begin

text \<open>
  A verification development of the nodo node.
\<close>

end
